(* ===== verification/Prelude.thy ===== *)
theory Prelude
  imports Main "HOL-Library.Word" "HOL-Library.AList"
begin

section \<open>Shared types, automation and lemmas\<close>

text \<open>
  What every component uses: the model of Rust's \<^verbatim>\<open>HashMap\<close> as an association list with
  distinct keys, saturating 64-bit counters, JSON values as the code handles them
  (\<^verbatim>\<open>serde_json::Value\<close>), and generic list lemmas. Strings are byte lists (the UTF-8 bytes
  a Rust \<^verbatim>\<open>String\<close> holds), so equality, lengths and prefixes are those of the code.
\<close>

named_theorems hmap \<open>facts about hash maps\<close>

subsection \<open>Hash maps\<close>

text \<open>
  A \<^verbatim>\<open>HashMap<K, V>\<close> is an association list with distinct keys. Rust leaves the iteration order
  open; the list's order is one of the possible ones, and no property of the development depends on
  it.
\<close>

type_synonym ('k, 'v) hashmap = "('k \<times> 'v) list"

abbreviation hm_get :: "('k, 'v) hashmap \<Rightarrow> 'k \<Rightarrow> 'v option" where
  "hm_get m k \<equiv> map_of m k"

abbreviation hm_insert :: "'k \<Rightarrow> 'v \<Rightarrow> ('k, 'v) hashmap \<Rightarrow> ('k, 'v) hashmap" where
  "hm_insert k v m \<equiv> AList.update k v m"

abbreviation hm_remove :: "'k \<Rightarrow> ('k, 'v) hashmap \<Rightarrow> ('k, 'v) hashmap" where
  "hm_remove k m \<equiv> AList.delete k m"

definition hm_contains :: "('k, 'v) hashmap \<Rightarrow> 'k \<Rightarrow> bool" where
  "hm_contains m k \<longleftrightarrow> map_of m k \<noteq> None"

abbreviation hm_values :: "('k, 'v) hashmap \<Rightarrow> 'v list" where
  "hm_values m \<equiv> map snd m"

definition hm_retain :: "('v \<Rightarrow> bool) \<Rightarrow> ('k, 'v) hashmap \<Rightarrow> ('k, 'v) hashmap" where
  "hm_retain p m = filter (\<lambda>(k, v). p v) m"

abbreviation hm_ok :: "('k, 'v) hashmap \<Rightarrow> bool" where
  "hm_ok m \<equiv> distinct (map fst m)"

lemma hm_ok_insert [simp, intro, hmap]: "hm_ok m \<Longrightarrow> hm_ok (hm_insert k v m)"
  by (rule distinct_update)

lemma hm_ok_remove [simp, intro, hmap]: "hm_ok m \<Longrightarrow> hm_ok (hm_remove k m)"
  by (rule distinct_delete)

lemma hm_get_insert [simp, hmap]: "hm_get (hm_insert k v m) = (hm_get m)(k \<mapsto> v)"
  by (rule update_conv')

lemma hm_get_remove [simp, hmap]: "hm_get (hm_remove k m) = (hm_get m)(k := None)"
  by (rule delete_conv')

lemma hm_contains_iff [hmap]: "hm_contains m k \<longleftrightarrow> k \<in> fst ` set m"
  by (simp add: hm_contains_def map_of_eq_None_iff)

lemma length_hm_insert [hmap]:
  "length (hm_insert k v m) = (if hm_contains m k then length m else Suc (length m))"
  by (induction m) (auto simp: hm_contains_def)

lemma hm_get_retain [hmap]:
  "hm_ok m \<Longrightarrow> hm_get (hm_retain p m) k =
     (case hm_get m k of None \<Rightarrow> None | Some v \<Rightarrow> if p v then Some v else None)"
proof (induction m)
  case Nil
  then show ?case by (simp add: hm_retain_def)
next
  case (Cons kv m)
  obtain k' v' where kv: "kv = (k', v')" by (cases kv)
  with Cons have IH: "hm_get (hm_retain p m) k =
     (case hm_get m k of None \<Rightarrow> None | Some v \<Rightarrow> if p v then Some v else None)" by simp
  show ?case
  proof (cases "k = k'")
    case True
    have "k' \<notin> fst ` set m" using Cons.prems kv by simp
    then have "hm_get m k' = None" by (simp add: map_of_eq_None_iff)
    with True IH kv show ?thesis by (auto simp: hm_retain_def)
  next
    case False
    with IH kv show ?thesis by (auto simp: hm_retain_def)
  qed
qed

lemma hm_ok_retain [simp, intro, hmap]: "hm_ok m \<Longrightarrow> hm_ok (hm_retain p m)"
  unfolding hm_retain_def by (rule distinct_map_filter)

lemma hm_get_mem: "hm_get m k = Some v \<Longrightarrow> (k, v) \<in> set m"
  by (rule map_of_SomeD)

lemma hm_get_iff: "hm_ok m \<Longrightarrow> hm_get m k = Some v \<longleftrightarrow> (k, v) \<in> set m"
  by (rule map_of_eq_Some_iff)

lemma hm_insert_fresh: "\<not> hm_contains m k \<Longrightarrow> hm_insert k v m = m @ [(k, v)]"
  by (induction m) (auto simp: hm_contains_def split: if_splits)

lemma hm_get_filter_key:
  "hm_ok m \<Longrightarrow> hm_get (filter (\<lambda>(k, v). P k) m) k = (if P k then hm_get m k else None)"
  by (induction m) (auto simp: map_of_eq_None_iff)

text \<open>Maps whose keys are read off their values.\<close>

definition keyed :: "('v \<Rightarrow> 'k) \<Rightarrow> ('k, 'v) hashmap \<Rightarrow> bool" where
  "keyed key m \<longleftrightarrow> hm_ok m \<and> (\<forall>k v. hm_get m k = Some v \<longrightarrow> key v = k)"

lemma keyed_Nil [simp]: "keyed key []"
  by (simp add: keyed_def)

lemma keyed_ok: "keyed key m \<Longrightarrow> hm_ok m"
  by (simp add: keyed_def)

lemma keyed_get: "keyed key m \<Longrightarrow> hm_get m k = Some v \<Longrightarrow> key v = k"
  by (simp add: keyed_def del: map_of_eq_Some_iff)

lemma keyed_insert: "keyed key m \<Longrightarrow> key v = k \<Longrightarrow> keyed key (hm_insert k v m)"
  unfolding keyed_def by (simp del: map_of_eq_Some_iff)

lemma keyed_remove: "keyed key m \<Longrightarrow> keyed key (hm_remove k m)"
  unfolding keyed_def by (simp del: map_of_eq_Some_iff)

lemma keyed_retain: "keyed key m \<Longrightarrow> keyed key (hm_retain p m)"
  unfolding keyed_def using hm_get_retain[of m p] hm_ok_retain[of m p]
  by (auto split: option.splits if_splits simp del: map_of_eq_Some_iff)

lemma keyed_fst: "keyed key m \<Longrightarrow> map fst m = map (\<lambda>kv. key (snd kv)) m"
  by (auto simp: keyed_def hm_get_iff)

lemma keyed_distinct: "keyed key m \<Longrightarrow> distinct (map key (hm_values m))"
proof -
  assume k: "keyed key m"
  then have "distinct (map fst m)" by (rule keyed_ok)
  also have "map fst m = map key (hm_values m)" using keyed_fst[OF k] by (simp add: comp_def)
  finally show ?thesis .
qed

lemma keyed_values_distinct: "keyed key m \<Longrightarrow> distinct (hm_values m)"
  using keyed_distinct[of key m] unfolding distinct_map[of key "hm_values m"] by blast

lemma keyed_values_ran: "keyed key m \<Longrightarrow> set (hm_values m) = ran (hm_get m)"
  by (simp add: keyed_def ran_distinct)

lemma keyed_card: "keyed key m \<Longrightarrow> card (dom (hm_get m)) = length m"
proof -
  assume "keyed key m"
  then have "card (set (map fst m)) = length m" by (simp add: keyed_ok distinct_card del: set_map)
  then show ?thesis by (simp add: dom_map_of_conv_image_fst)
qed

subsection \<open>Saturating 64-bit counters\<close>

type_synonym u64 = "64 word"

definition sat_succ :: "u64 \<Rightarrow> u64" where
  "sat_succ w = (if w = - 1 then w else w + 1)"

lemma unat_sat_succ: "unat (sat_succ w) = (if w = - 1 then unat w else Suc (unat w))"
proof (cases "w = - 1")
  case False
  then have "w + 1 \<noteq> 0" by (metis add_eq_0_iff2)
  then have "unat (w + 1) = Suc (unat w)" by (metis add.commute unatSuc)
  with False show ?thesis by (simp add: sat_succ_def)
qed (simp add: sat_succ_def)

lemma sat_succ_ge: "w \<le> sat_succ w"
  by (simp add: word_le_nat_alt unat_sat_succ)

lemma unat_of_nat_u64: "n < 2 ^ 64 \<Longrightarrow> unat (of_nat n :: u64) = n"
  by (simp add: unat_of_nat)

subsection \<open>JSON values\<close>

text \<open>The shape of \<^verbatim>\<open>serde_json::Value\<close>: an object keeps its members in order.\<close>

datatype jnumber = PosInt nat | NegInt int | Float string

datatype json =
    JNull
  | JBool bool
  | JNum jnumber
  | JStr string
  | JArr "json list"
  | JObj "(string \<times> json) list"

subsection \<open>Lists\<close>

text \<open>\<^verbatim>\<open>Vec::get\<close>.\<close>

definition vec_get :: "'a list \<Rightarrow> nat \<Rightarrow> 'a option" where
  "vec_get xs i = (if i < length xs then Some (xs ! i) else None)"

lemma vec_get_append [simp]: "vec_get (xs @ y # ys) (length xs) = Some y"
  by (simp add: vec_get_def)

lemma vec_get_end [simp]: "length xs \<le> i \<Longrightarrow> vec_get xs i = None"
  by (simp add: vec_get_def)

lemma take_length_append: "n \<le> length xs \<Longrightarrow> take n (xs @ ys) = take n xs"
  by simp

lemma filter_take_prefix:
  "\<exists>n. filter P (take k xs) = take n (filter P xs)"
proof -
  have "filter P xs = filter P (take k xs) @ filter P (drop k xs)"
    by (metis append_take_drop_id filter_append)
  then show ?thesis by (metis append_eq_conv_conj)
qed

lemma count_le_one_appendI:
  "count_list xs x = 0 \<or> count_list ys x = 0 \<Longrightarrow> count_list xs x \<le> 1 \<Longrightarrow> count_list ys x \<le> 1
   \<Longrightarrow> count_list (xs @ ys) x \<le> 1"
  by auto

end
