(* ===== verification/Rust_Std.thy ===== *)
theory Rust_Std
  imports Prelude
begin

section \<open>The parts of Rust's standard library the code relies on\<close>

text \<open>
  Byte strings as the code reads them: the lines \<^verbatim>\<open>BufRead::lines\<close> yields, UTF-8 validity,
  \<^verbatim>\<open>str::trim\<close>, ASCII predicates, \<^verbatim>\<open>strip_prefix\<close> and the \<^verbatim>\<open>u64\<close> parser. The models follow the
  library's documentation; they are shared by the journal, the task queue and the policy.
\<close>

definition nl :: char where
  "nl = CHR 0x0A"

definition cr :: char where
  "cr = CHR 0x0D"

subsection \<open>Lines\<close>

text \<open>
  The pieces of a byte string between newlines; the flag says whether the piece was terminated.
\<close>

fun raw_lines :: "string \<Rightarrow> (string \<times> bool) list" where
  "raw_lines [] = []"
| "raw_lines (c # s) =
     (if c = nl then ([], True) # raw_lines s
      else (case raw_lines s of
              [] \<Rightarrow> [([c], False)]
            | (l, t) # r \<Rightarrow> (c # l, t) # r))"

text \<open>\<^verbatim>\<open>BufRead::lines\<close> drops the newline, and a carriage return right before it.\<close>

definition line_content :: "string \<times> bool \<Rightarrow> string" where
  "line_content lt = (case lt of (l, t) \<Rightarrow> if t \<and> l \<noteq> [] \<and> last l = cr then butlast l else l)"

definition buf_lines :: "string \<Rightarrow> string list" where
  "buf_lines s = map line_content (raw_lines s)"

text \<open>A byte string is clean when it is empty or ends with a newline.\<close>

definition clean :: "string \<Rightarrow> bool" where
  "clean s \<longleftrightarrow> s = [] \<or> last s = nl"

lemma clean_Nil [simp]: "clean []"
  by (simp add: clean_def)

lemma clean_snoc_nl [simp]: "clean (s @ [nl])"
  by (simp add: clean_def)

lemma clean_append_snoc_nl [simp]: "clean (s @ t @ [nl])"
  by (simp add: clean_def)

lemma raw_lines_line [simp]:
  "nl \<notin> set l \<Longrightarrow> raw_lines (l @ nl # s) = (l, True) # raw_lines s"
  by (induction l) auto

lemma raw_lines_no_nl:
  "nl \<notin> set l \<Longrightarrow> raw_lines l = (if l = [] then [] else [(l, False)])"
  by (induction l) auto

lemma raw_lines_append_clean:
  "clean s \<Longrightarrow> raw_lines (s @ t) = raw_lines s @ raw_lines t"
proof (induction s)
  case Nil
  then show ?case by simp
next
  case (Cons c s)
  show ?case
  proof (cases "c = nl")
    case True
    with Cons show ?thesis by (auto simp: clean_def split: if_splits)
  next
    case False
    with Cons.prems have s: "s \<noteq> []" "clean s" by (auto simp: clean_def split: if_splits)
    then have "raw_lines s \<noteq> []" by (cases s) (auto split: list.splits prod.splits)
    with Cons.IH[OF s(2)] False show ?thesis by (auto split: list.splits prod.splits)
  qed
qed

text \<open>The text after the last newline, and the text up to and including it.\<close>

definition after_last_nl :: "string \<Rightarrow> string" where
  "after_last_nl s = rev (takeWhile (\<lambda>c. c \<noteq> nl) (rev s))"

definition upto_last_nl :: "string \<Rightarrow> string" where
  "upto_last_nl s = rev (dropWhile (\<lambda>c. c \<noteq> nl) (rev s))"

lemma upto_after_last_nl: "upto_last_nl s @ after_last_nl s = s"
  unfolding upto_last_nl_def after_last_nl_def
  by (metis rev_append rev_rev_ident takeWhile_dropWhile_id)

lemma after_last_nl_no_nl: "nl \<notin> set (after_last_nl s)"
  by (auto simp: after_last_nl_def dest: set_takeWhileD)

lemma upto_last_nl_clean: "clean (upto_last_nl s)"
proof (cases "dropWhile (\<lambda>c. c \<noteq> nl) (rev s)")
  case Nil
  then have "upto_last_nl s = []" by (simp only: upto_last_nl_def rev.simps)
  then show ?thesis by simp
next
  case (Cons a xs)
  then have "a = nl" using hd_dropWhile[of "\<lambda>c. c \<noteq> nl" "rev s"] by auto
  then show ?thesis by (simp add: upto_last_nl_def clean_def Cons)
qed

lemma upto_last_nl_append [simp]:
  "clean s \<Longrightarrow> nl \<notin> set t \<Longrightarrow> upto_last_nl (s @ t) = s"
  unfolding upto_last_nl_def clean_def
  by (cases s rule: rev_cases) (auto simp: dropWhile_append1 dropWhile_append3)

lemma after_last_nl_append [simp]:
  "clean s \<Longrightarrow> nl \<notin> set t \<Longrightarrow> after_last_nl (s @ t) = t"
  by (metis same_append_eq upto_after_last_nl upto_last_nl_append)

subsection \<open>UTF-8\<close>

text \<open>
  Well-formed UTF-8 as \<^verbatim>\<open>core::str::from_utf8\<close> accepts it: no overlong forms, no surrogates, no
  code point above \<^verbatim>\<open>10FFFF\<close>.
\<close>

definition utf8_cont :: "nat \<Rightarrow> bool" where
  "utf8_cont b \<longleftrightarrow> 0x80 \<le> b \<and> b \<le> 0xBF"

fun utf8_ok :: "nat list \<Rightarrow> bool" where
  "utf8_ok [] = True"
| "utf8_ok (b # bs) =
     (if b < 0x80 then utf8_ok bs
      else if 0xC2 \<le> b \<and> b \<le> 0xDF then
        (case bs of c # r \<Rightarrow> utf8_cont c \<and> utf8_ok r | [] \<Rightarrow> False)
      else if 0xE0 \<le> b \<and> b \<le> 0xEF then
        (case bs of
           c # d # r \<Rightarrow>
             utf8_cont c \<and> utf8_cont d \<and> (b = 0xE0 \<longrightarrow> 0xA0 \<le> c) \<and> (b = 0xED \<longrightarrow> c \<le> 0x9F) \<and> utf8_ok r
         | _ \<Rightarrow> False)
      else if 0xF0 \<le> b \<and> b \<le> 0xF4 then
        (case bs of
           c # d # e # r \<Rightarrow>
             utf8_cont c \<and> utf8_cont d \<and> utf8_cont e \<and> (b = 0xF0 \<longrightarrow> 0x90 \<le> c) \<and>
             (b = 0xF4 \<longrightarrow> c \<le> 0x8F) \<and> utf8_ok r
         | _ \<Rightarrow> False)
      else False)"

definition utf8_valid :: "string \<Rightarrow> bool" where
  "utf8_valid s = utf8_ok (map of_char s)"

subsection \<open>White space\<close>

text \<open>The number of bytes of the white-space character a string starts with, 0 when there is none.\<close>

fun ws_prefix :: "nat list \<Rightarrow> nat" where
  "ws_prefix [] = 0"
| "ws_prefix (b # bs) =
     (if (9 \<le> b \<and> b \<le> 13) \<or> b = 32 then 1
      else case bs of
        [] \<Rightarrow> 0
      | c # r \<Rightarrow>
          if b = 0xC2 \<and> (c = 0x85 \<or> c = 0xA0) then 2
          else case r of
            [] \<Rightarrow> 0
          | d # _ \<Rightarrow>
              if (b = 0xE1 \<and> c = 0x9A \<and> d = 0x80)
                 \<or> (b = 0xE2 \<and> c = 0x80 \<and> ((0x80 \<le> d \<and> d \<le> 0x8A) \<or> d = 0xA8 \<or> d = 0xA9 \<or> d = 0xAF))
                 \<or> (b = 0xE2 \<and> c = 0x81 \<and> d = 0x9F)
                 \<or> (b = 0xE3 \<and> c = 0x80 \<and> d = 0x80)
              then 3 else 0)"

function trim_start_codes :: "nat list \<Rightarrow> nat list" where
  "trim_start_codes s = (if ws_prefix s = 0 then s else trim_start_codes (drop (ws_prefix s) s))"
  by pat_completeness auto

termination trim_start_codes
proof (relation "measure length")
  fix s assume "ws_prefix s \<noteq> 0"
  moreover from this have "0 < length s" by (cases s) auto
  ultimately show "(drop (ws_prefix s) s, s) \<in> measure length" by simp
qed simp

declare trim_start_codes.simps [simp del]

text \<open>\<^verbatim>\<open>s.trim().is_empty()\<close>: nothing but white space.\<close>

definition str_blank :: "string \<Rightarrow> bool" where
  "str_blank s \<longleftrightarrow> trim_start_codes (map of_char s) = []"

definition ascii_ws :: "char \<Rightarrow> bool" where
  "ascii_ws c \<longleftrightarrow> of_char c \<in> {9, 10, 12, 13, 32::nat}"

lemma trim_start_codes_no_ws: "ws_prefix s = 0 \<Longrightarrow> trim_start_codes s = s"
  by (subst trim_start_codes.simps) simp

lemma str_blank_Nil [simp]: "str_blank []"
  by (simp add: str_blank_def trim_start_codes_no_ws)

lemma not_str_blankI:
  "s = c # r \<Longrightarrow> 32 < (of_char c :: nat) \<Longrightarrow> (of_char c :: nat) < 0x80 \<Longrightarrow> \<not> str_blank s"
proof -
  assume s: "s = c # r" and c: "32 < (of_char c :: nat)" "(of_char c :: nat) < 0x80"
  then have "ws_prefix (map of_char s) = 0" by (auto split: list.splits)
  then show ?thesis by (simp add: str_blank_def trim_start_codes_no_ws s)
qed

subsection \<open>Prefixes and numbers\<close>

fun strip_prefix :: "string \<Rightarrow> string \<Rightarrow> string option" where
  "strip_prefix [] s = Some s"
| "strip_prefix (p # ps) [] = None"
| "strip_prefix (p # ps) (c # cs) = (if p = c then strip_prefix ps cs else None)"

lemma strip_prefix_iff: "strip_prefix p s = Some r \<longleftrightarrow> s = p @ r"
  by (induction p s rule: strip_prefix.induct) auto

lemma strip_prefix_append [simp]: "strip_prefix p (p @ s) = Some s"
  by (simp add: strip_prefix_iff)

definition is_digit :: "char \<Rightarrow> bool" where
  "is_digit c \<longleftrightarrow> 48 \<le> (of_char c :: nat) \<and> (of_char c :: nat) \<le> 57"

fun digits_value :: "nat \<Rightarrow> string \<Rightarrow> nat option" where
  "digits_value acc [] = Some acc"
| "digits_value acc (c # cs) =
     (if is_digit c then digits_value (10 * acc + (of_char c - 48)) cs else None)"

text \<open>
  \<^verbatim>\<open>str::parse::<u64>\<close>: an optional plus sign, then at least one digit; the value must fit.
\<close>

definition parse_u64 :: "string \<Rightarrow> nat option" where
  "parse_u64 s =
     (let ds = (case s of c # r \<Rightarrow> if c = CHR ''+'' then r else s | [] \<Rightarrow> s)
      in if ds = [] then None
         else case digits_value 0 ds of
                None \<Rightarrow> None
              | Some v \<Rightarrow> if v < 2 ^ 64 then Some v else None)"

text \<open>\<^verbatim>\<open>u64::to_string\<close>: decimal digits without leading zeros.\<close>

fun show_nat :: "nat \<Rightarrow> string" where
  "show_nat n = (if n < 10 then [char_of (48 + n)] else show_nat (n div 10) @ [char_of (48 + n mod 10)])"

declare show_nat.simps [simp del]

lemma digits_value_append:
  "digits_value acc (xs @ ys) = (case digits_value acc xs of None \<Rightarrow> None | Some v \<Rightarrow> digits_value v ys)"
  by (induction xs arbitrary: acc) auto

lemma digits_value_show_nat: "digits_value 0 (show_nat n) = Some n"
proof (induction n rule: show_nat.induct)
  case (1 n)
  show ?case
  proof (cases "n < 10")
    case True
    then show ?thesis by (simp add: show_nat.simps[of n] is_digit_def)
  next
    case False
    with 1 have "digits_value 0 (show_nat (n div 10)) = Some (n div 10)" by simp
    with False show ?thesis
      by (simp add: show_nat.simps[of n] is_digit_def digits_value_append)
  qed
qed

lemma show_nat_digits: "d \<in> set (show_nat n) \<Longrightarrow> is_digit d"
proof (induction n rule: show_nat.induct)
  case (1 n)
  then show ?case by (cases "n < 10") (auto simp: show_nat.simps[of n] is_digit_def)
qed

lemma hd_show_nat: "show_nat n = c # r \<Longrightarrow> is_digit c"
proof (induction n arbitrary: c r rule: show_nat.induct)
  case (1 n)
  show ?case
  proof (cases "n < 10")
    case True
    with 1 show ?thesis by (auto simp: show_nat.simps[of n] is_digit_def)
  next
    case False
    obtain c' r' where r': "show_nat (n div 10) = c' # r'"
      by (metis append_is_Nil_conv list.exhaust not_Cons_self2 show_nat.simps)
    with 1 False show ?thesis by (simp add: show_nat.simps[of n])
  qed
qed

lemma show_nat_nonempty [simp]: "show_nat n \<noteq> []"
  by (subst show_nat.simps) simp

lemma parse_u64_show_nat: "n < 2 ^ 64 \<Longrightarrow> parse_u64 (show_nat n) = Some n"
proof -
  assume n: "n < 2 ^ 64"
  obtain c r where s: "show_nat n = c # r" by (cases "show_nat n") auto
  then have "is_digit c" by (rule hd_show_nat)
  then have "c \<noteq> CHR ''+''" by (auto simp: is_digit_def)
  with s n show ?thesis
    using digits_value_show_nat[of n] by (simp add: parse_u64_def Let_def)
qed

subsection \<open>Trimming, searching and splitting\<close>

text \<open>
  \<^verbatim>\<open>str::trim_start\<close> and \<^verbatim>\<open>trim_end\<close> on UTF-8 text; \<open>ws_suffix\<close> reads the reversed bytes.
\<close>

fun ws_suffix :: "nat list \<Rightarrow> nat" where
  "ws_suffix [] = 0"
| "ws_suffix (b # bs) =
     (if (9 \<le> b \<and> b \<le> 13) \<or> b = 32 then 1
      else case bs of
        [] \<Rightarrow> 0
      | c # r \<Rightarrow>
          if c = 0xC2 \<and> (b = 0x85 \<or> b = 0xA0) then 2
          else case r of
            [] \<Rightarrow> 0
          | d # _ \<Rightarrow> if ws_prefix [d, c, b] = 3 then 3 else 0)"

function trim_end_codes :: "nat list \<Rightarrow> nat list" where
  "trim_end_codes s = (if ws_suffix s = 0 then s else trim_end_codes (drop (ws_suffix s) s))"
  by pat_completeness auto

termination trim_end_codes
proof (relation "measure length")
  fix s assume "ws_suffix s \<noteq> 0"
  moreover from this have "0 < length s" by (cases s) auto
  ultimately show "(drop (ws_suffix s) s, s) \<in> measure length" by simp
qed simp

declare trim_end_codes.simps [simp del]

definition trim_start :: "string \<Rightarrow> string" where
  "trim_start s = map char_of (trim_start_codes (map of_char s))"

definition trim_end :: "string \<Rightarrow> string" where
  "trim_end s = map char_of (rev (trim_end_codes (rev (map of_char s))))"

definition trim :: "string \<Rightarrow> string" where
  "trim s = trim_end (trim_start s)"

definition starts_with :: "string \<Rightarrow> string \<Rightarrow> bool" where
  "starts_with p s \<longleftrightarrow> take (length p) s = p"

fun str_find :: "string \<Rightarrow> string \<Rightarrow> nat option" where
  "str_find p [] = (if p = [] then Some 0 else None)"
| "str_find p (c # s) =
     (if starts_with p (c # s) then Some 0 else map_option Suc (str_find p s))"

text \<open>\<^verbatim>\<open>str::split\<close> at the characters a predicate selects: the pieces between them, empty ones too.\<close>

fun split_on :: "(char \<Rightarrow> bool) \<Rightarrow> string \<Rightarrow> string list" where
  "split_on P [] = [[]]"
| "split_on P (c # s) =
     (if P c then [] # split_on P s
      else (case split_on P s of [] \<Rightarrow> [[c]] | w # ws \<Rightarrow> (c # w) # ws))"

definition is_upper :: "char \<Rightarrow> bool" where
  "is_upper c \<longleftrightarrow> 65 \<le> (of_char c :: nat) \<and> (of_char c :: nat) \<le> 90"

definition is_lower :: "char \<Rightarrow> bool" where
  "is_lower c \<longleftrightarrow> 97 \<le> (of_char c :: nat) \<and> (of_char c :: nat) \<le> 122"

definition is_alpha :: "char \<Rightarrow> bool" where
  "is_alpha c \<longleftrightarrow> is_upper c \<or> is_lower c"

definition is_alnum :: "char \<Rightarrow> bool" where
  "is_alnum c \<longleftrightarrow> is_alpha c \<or> is_digit c"

definition is_hexdigit :: "char \<Rightarrow> bool" where
  "is_hexdigit c \<longleftrightarrow> is_digit c \<or> (65 \<le> (of_char c :: nat) \<and> (of_char c :: nat) \<le> 70) \<or>
     (97 \<le> (of_char c :: nat) \<and> (of_char c :: nat) \<le> 102)"

definition to_lower_char :: "char \<Rightarrow> char" where
  "to_lower_char c = (if is_upper c then char_of ((of_char c :: nat) + 32) else c)"

definition to_lower :: "string \<Rightarrow> string" where
  "to_lower s = map to_lower_char s"

lemma starts_with_append [simp]: "starts_with p (p @ s)"
  by (simp add: starts_with_def)

lemma starts_with_iff: "starts_with p s \<longleftrightarrow> (\<exists>r. s = p @ r)"
  by (metis append_eq_conv_conj append_take_drop_id starts_with_def)

lemma str_find_SomeD: "str_find p s = Some n \<Longrightarrow> starts_with p (drop n s) \<and> n \<le> length s"
  by (induction p s arbitrary: n rule: str_find.induct)
    (auto simp: starts_with_def split: if_splits)

lemma str_find_length: "str_find p s = Some n \<Longrightarrow> n + length p \<le> length s"
proof -
  assume f: "str_find p s = Some n"
  from str_find_SomeD[OF f] obtain r where "drop n s = p @ r" by (auto simp: starts_with_iff)
  then have "length s - n = length p + length r" by (metis length_append length_drop)
  with str_find_SomeD[OF f] show ?thesis by linarith
qed

lemma split_on_nonempty [simp]: "split_on P s \<noteq> []"
  by (cases s) (auto split: list.splits)

lemma split_on_no: "\<forall>c \<in> set s. \<not> P c \<Longrightarrow> split_on P s = [s]"
  by (induction s) auto

lemma split_on_append_sep:
  "P c \<Longrightarrow> split_on P (s @ c # t) = split_on P s @ split_on P t"
  by (induction s) (auto split: list.splits)

text \<open>A word between two separators (or at the ends) is one of the pieces.\<close>

lemma split_on_word:
  assumes "\<forall>c \<in> set w. \<not> P c" "a = [] \<or> P (last a)" "b = [] \<or> P (hd b)"
  shows "w \<in> set (split_on P (a @ w @ b))"
proof -
  have wb: "w \<in> set (split_on P (w @ b))"
  proof (cases b)
    case Nil
    then show ?thesis using split_on_no[OF assms(1)] by simp
  next
    case (Cons c t)
    then show ?thesis using split_on_append_sep[of P c w t] split_on_no[OF assms(1)] assms(3) by simp
  qed
  show ?thesis
  proof (cases a rule: rev_cases)
    case Nil
    with wb show ?thesis by simp
  next
    case (snoc s c)
    then show ?thesis using split_on_append_sep[of P c s "w @ b"] assms(2) wb by simp
  qed
qed

subsection \<open>Trimming keeps what is between visible characters\<close>

lemma ws_prefix_le:
  assumes "32 < c" "c < (128 :: nat)"
  shows "ws_prefix (u @ c # r) \<le> length u"
  using assms by (cases u; cases "tl u"; cases "tl (tl u)") (auto split: list.splits)

lemma ws_suffix_le:
  assumes "32 < c" "c < (128 :: nat)"
  shows "ws_suffix (u @ c # r) \<le> length u"
  using assms by (cases u; cases "tl u"; cases "tl (tl u)") (auto split: list.splits)

lemma trim_start_codes_keep:
  assumes "32 < c" "c < (128 :: nat)"
  shows "\<exists>n \<le> length u. trim_start_codes (u @ c # r) = drop n u @ c # r"
proof (induction "length u" arbitrary: u rule: less_induct)
  case less
  let ?k = "ws_prefix (u @ c # r)"
  note le = ws_prefix_le[OF assms, of u r]
  show ?case
  proof (cases "?k = 0")
    case True
    then show ?thesis by (intro exI[of _ 0]) (simp add: trim_start_codes_no_ws)
  next
    case False
    with le have "length (drop ?k u) < length u" by simp
    from less[OF this] obtain n where n: "n \<le> length (drop ?k u)"
      "trim_start_codes (drop ?k u @ c # r) = drop n (drop ?k u) @ c # r" by blast
    have "trim_start_codes (u @ c # r) = trim_start_codes (drop ?k u @ c # r)"
      using False le by (subst trim_start_codes.simps) simp
    with n le show ?thesis by (intro exI[of _ "n + ?k"]) simp
  qed
qed

lemma trim_end_codes_keep:
  assumes "32 < c" "c < (128 :: nat)"
  shows "\<exists>n \<le> length u. trim_end_codes (u @ c # r) = drop n u @ c # r"
proof (induction "length u" arbitrary: u rule: less_induct)
  case less
  let ?k = "ws_suffix (u @ c # r)"
  note le = ws_suffix_le[OF assms, of u r]
  show ?case
  proof (cases "?k = 0")
    case True
    then show ?thesis by (intro exI[of _ 0]) (simp add: trim_end_codes.simps)
  next
    case False
    with le have "length (drop ?k u) < length u" by simp
    from less[OF this] obtain n where n: "n \<le> length (drop ?k u)"
      "trim_end_codes (drop ?k u @ c # r) = drop n (drop ?k u) @ c # r" by blast
    have "trim_end_codes (u @ c # r) = trim_end_codes (drop ?k u @ c # r)"
      using False le by (subst trim_end_codes.simps) simp
    with n le show ?thesis by (intro exI[of _ "n + ?k"]) simp
  qed
qed

definition visible :: "char \<Rightarrow> bool" where
  "visible c \<longleftrightarrow> 32 < (of_char c :: nat) \<and> (of_char c :: nat) < 128"

lemma trim_keep:
  assumes "w \<noteq> []" "visible (hd w)" "visible (last w)"
  shows "\<exists>n m. trim (a @ w @ b) = drop n a @ w @ take m b"
proof -
  obtain c r where w: "w = c # r" using assms(1) by (cases w) auto
  then have "visible c" using assms(2) by simp
  then obtain n where n: "trim_start_codes (map of_char a @ of_char c # map of_char (r @ b)) =
      drop n (map of_char a) @ (of_char c :: nat) # map of_char (r @ b)"
    using trim_start_codes_keep[of "of_char c" "map of_char a"] by (auto simp: visible_def)
  have n: "trim_start (a @ w @ b) = drop n a @ w @ b"
    using arg_cong[OF n, of "map (char_of :: nat \<Rightarrow> char)"]
    by (simp add: trim_start_def w drop_map comp_def)
  obtain r' c' where w': "w = r' @ [c']" using assms(1) by (cases w rule: rev_cases) auto
  then have "visible c'" using assms(3) by simp
  let ?x = "rev (map of_char (drop n a @ r')) :: nat list"
  obtain m where m: "trim_end_codes (rev (map of_char b) @ of_char c' # ?x) =
      drop m (rev (map of_char b)) @ of_char c' # ?x"
    using trim_end_codes_keep[of "of_char c'" "rev (map of_char b)" ?x] \<open>visible c'\<close>
    by (auto simp: visible_def)
  have "rev (map of_char (drop n a @ w @ b)) = rev (map of_char b) @ of_char c' # ?x"
    by (simp add: w')
  then have "trim_end (drop n a @ w @ b) = map char_of (rev (drop m (rev (map of_char b)) @ of_char c' # ?x))"
    using m by (simp add: trim_end_def)
  also have "\<dots> = drop n a @ w @ take (length b - m) b"
    by (simp add: w' rev_drop comp_def take_map)
  finally show ?thesis using n by (auto simp: trim_def)
qed

lemma trim_start_codes_subset: "set (trim_start_codes s) \<subseteq> set s"
proof (induction s rule: trim_start_codes.induct)
  case (1 s)
  then show ?case by (subst trim_start_codes.simps) (auto dest: in_set_dropD)
qed

lemma trim_end_codes_subset: "set (trim_end_codes s) \<subseteq> set s"
proof (induction s rule: trim_end_codes.induct)
  case (1 s)
  then show ?case by (subst trim_end_codes.simps) (auto dest: in_set_dropD)
qed

lemma trim_subset: "set (trim s) \<subseteq> set s"
proof -
  have a: "set (trim_start t) \<subseteq> set t" for t
    using trim_start_codes_subset[of "map of_char t"] by (auto simp: trim_start_def dest!: subsetD)
  have b: "set (trim_end t) \<subseteq> set t" for t
    using trim_end_codes_subset[of "rev (map of_char t)"] by (auto simp: trim_end_def dest!: subsetD)
  show ?thesis using a[of s] b[of "trim_start s"] by (auto simp: trim_def)
qed

subsection \<open>Hexadecimal bytes and signed numbers\<close>

text \<open>\<^verbatim>\<open>{byte:02x}\<close> and \<^verbatim>\<open>i64::to_string\<close>.\<close>

definition hex_digit :: "nat \<Rightarrow> char" where
  "hex_digit n = (if n < 10 then char_of (48 + n) else char_of (87 + n))"

definition hex_byte :: "char \<Rightarrow> string" where
  "hex_byte c = [hex_digit (of_char c div 16), hex_digit (of_char c mod 16)]"

definition show_int :: "int \<Rightarrow> string" where
  "show_int n = (if n < 0 then CHR ''-'' # show_nat (nat (- n)) else show_nat (nat n))"

end
