(* ===== verification/Entry.thy ===== *)
theory Entry
  imports Rust_Std
begin

section \<open>Journal rows and durable errors\<close>

text \<open>
  Models \<^verbatim>\<open>crates/familyclaw-durable/src/entry.rs\<close> and \<^verbatim>\<open>error.rs\<close>: the row kinds of the
  append-only journal, the row constructors and the classification that decides which rows the
  replay cursor sees. \<^verbatim>\<open>time::now()\<close> is the argument \<open>t\<close> of the constructors.
\<close>

subsection \<open>Errors (error.rs)\<close>

type_synonym step_id = u64
type_synonym timestamp = int

datatype durable_error =
    Io string
  | Serde string
  | NondeterministicReplay u64 string string  \<comment> \<open>index, expected, found\<close>
  | CorruptEntry u64 string                   \<comment> \<open>1-based line, reason\<close>
  | StepError string string                   \<comment> \<open>the variant StepFailed: step, message\<close>
  | InvalidFork string

definition step_failed :: "string \<Rightarrow> string \<Rightarrow> durable_error" where
  "step_failed step message = StepError step message"

definition corrupt :: "u64 \<Rightarrow> string \<Rightarrow> durable_error" where
  "corrupt line reason = CorruptEntry line reason"

definition invalid_fork :: "string \<Rightarrow> durable_error" where
  "invalid_fork reason = InvalidFork reason"

subsection \<open>Rows (entry.rs)\<close>

definition ZERO :: step_id where
  "ZERO = 0"

definition next_id :: "step_id \<Rightarrow> step_id" where
  "next_id s = sat_succ s"

record session_turn =
  role :: string
  content :: string

datatype entry_kind =
    StepCompleted string json      \<comment> \<open>name, output\<close>
  | StepFailed string string       \<comment> \<open>name, error\<close>
  | Snapshot json
  | Marker string json             \<comment> \<open>name, payload\<close>
  | SessionState string string string "session_turn list"
      \<comment> \<open>channel id, conversation, sender, messages\<close>

fun step_name :: "entry_kind \<Rightarrow> string option" where
  "step_name (StepCompleted name _) = Some name"
| "step_name (StepFailed name _) = Some name"
| "step_name (Snapshot _) = None"
| "step_name (Marker _ _) = None"
| "step_name (SessionState _ _ _ _) = None"

fun is_snapshot :: "entry_kind \<Rightarrow> bool" where
  "is_snapshot (Snapshot _) = True"
| "is_snapshot _ = False"

fun is_marker :: "entry_kind \<Rightarrow> bool" where
  "is_marker (Marker _ _) = True"
| "is_marker (SessionState _ _ _ _) = True"
| "is_marker _ = False"

fun is_step :: "entry_kind \<Rightarrow> bool" where
  "is_step (StepCompleted _ _) = True"
| "is_step (StepFailed _ _) = True"
| "is_step _ = False"

record journal_entry =
  je_step_id :: step_id
  je_timestamp :: timestamp
  je_kind :: entry_kind

definition entry_new :: "timestamp \<Rightarrow> step_id \<Rightarrow> entry_kind \<Rightarrow> journal_entry" where
  "entry_new t s k = \<lparr>je_step_id = s, je_timestamp = t, je_kind = k\<rparr>"

definition completed :: "timestamp \<Rightarrow> step_id \<Rightarrow> string \<Rightarrow> json \<Rightarrow> journal_entry" where
  "completed t s name output = entry_new t s (StepCompleted name output)"

definition failed :: "timestamp \<Rightarrow> step_id \<Rightarrow> string \<Rightarrow> string \<Rightarrow> journal_entry" where
  "failed t s name err = entry_new t s (StepFailed name err)"

definition snapshot_entry :: "timestamp \<Rightarrow> step_id \<Rightarrow> json \<Rightarrow> journal_entry" where
  "snapshot_entry t s state = entry_new t s (Snapshot state)"

definition marker :: "timestamp \<Rightarrow> step_id \<Rightarrow> string \<Rightarrow> json \<Rightarrow> journal_entry" where
  "marker t s name payload = entry_new t s (Marker name payload)"

definition session_transcript_entry ::
  "timestamp \<Rightarrow> step_id \<Rightarrow> string \<Rightarrow> string \<Rightarrow> string \<Rightarrow> session_turn list \<Rightarrow> journal_entry" where
  "session_transcript_entry t s channel_id conversation sender messages =
     entry_new t s (SessionState channel_id conversation sender messages)"

definition session_state_entry ::
  "timestamp \<Rightarrow> step_id \<Rightarrow> string \<Rightarrow> string \<Rightarrow> string \<Rightarrow> journal_entry" where
  "session_state_entry t s channel_id conversation sender =
     session_transcript_entry t s channel_id conversation sender []"

definition entry_step_name :: "journal_entry \<Rightarrow> string option" where
  "entry_step_name e = step_name (je_kind e)"

definition session_state :: "journal_entry \<Rightarrow> (string \<times> string \<times> string) option" where
  "session_state e =
     (case je_kind e of
        SessionState channel_id conversation sender _ \<Rightarrow> Some (channel_id, conversation, sender)
      | _ \<Rightarrow> None)"

definition session_transcript :: "journal_entry \<Rightarrow> session_turn list option" where
  "session_transcript e =
     (case je_kind e of SessionState _ _ _ messages \<Rightarrow> Some messages | _ \<Rightarrow> None)"

lemmas entry_defs = entry_new_def completed_def failed_def snapshot_entry_def marker_def
  session_transcript_entry_def session_state_entry_def entry_step_name_def

subsection \<open>Every row is of exactly one class\<close>

lemma is_step_iff_name: "is_step k \<longleftrightarrow> step_name k \<noteq> None"
  by (cases k) auto

lemma row_class_partition:
  "is_step k \<longleftrightarrow> \<not> is_snapshot k \<and> \<not> is_marker k"
  "\<not> (is_snapshot k \<and> is_marker k)"
  by (cases k; simp)+

lemma je_kind_new [simp]:
  "je_kind (entry_new t s k) = k" "je_step_id (entry_new t s k) = s"
  by (simp_all add: entry_new_def)

lemma is_step_completed [simp]: "is_step (je_kind (completed t s n v))"
  and is_step_failed [simp]: "is_step (je_kind (failed t s n m))"
  and is_step_marker [simp]: "\<not> is_step (je_kind (marker t s n v))"
  and is_step_snapshot [simp]: "\<not> is_step (je_kind (snapshot_entry t s v))"
  by (simp_all add: completed_def failed_def marker_def snapshot_entry_def)

end
