(* ===== verification/Journal.thy ===== *)
theory Journal
  imports Entry
begin

section \<open>The journal interface and the in-memory journal\<close>

text \<open>
  Models \<^verbatim>\<open>crates/familyclaw-durable/src/journal.rs\<close> (the trait) and \<^verbatim>\<open>memory.rs\<close>. A trait
  object is a record of its methods over the state type \<open>'j\<close>; a method that takes \<^verbatim>\<open>&self\<close> and
  mutates behind a lock returns the new state. The contract of the trait's documentation (rows are
  appended at the end, order is preserved, reading returns what was appended) is the locale
  \<open>journal\<close>; the clients' lemmas are proved in it.

  Every append takes a \<open>fault\<close>, what the machine does to this one write: it may work, fail
  with an I/O error after some bytes reached the file, or the process may be killed after some bytes
  reached the file. \<open>Killed\<close> is the outcome of an operation during which the process died.
\<close>

datatype fault =
    NoFault
  | WriteErr nat   \<comment> \<open>the write reports an error after this many bytes\<close>
  | Kill nat       \<comment> \<open>the process dies after this many bytes\<close>

datatype 'a outcome = Done 'a | Killed

record 'j journal_trait =
  tr_append :: "fault \<Rightarrow> 'j \<Rightarrow> journal_entry \<Rightarrow> (durable_error + unit) outcome \<times> 'j"
  tr_replay_from :: "'j \<Rightarrow> step_id \<Rightarrow> durable_error + journal_entry list"
  tr_replay_all :: "'j \<Rightarrow> durable_error + journal_entry list"
  tr_len :: "'j \<Rightarrow> durable_error + nat"

subsection \<open>Default methods\<close>

definition default_replay_all ::
  "('j \<Rightarrow> step_id \<Rightarrow> durable_error + journal_entry list) \<Rightarrow> 'j \<Rightarrow> durable_error + journal_entry list" where
  "default_replay_all replay_from s = replay_from s ZERO"

definition default_len ::
  "('j \<Rightarrow> durable_error + journal_entry list) \<Rightarrow> 'j \<Rightarrow> durable_error + nat" where
  "default_len replay_all s =
     (case replay_all s of Inl e \<Rightarrow> Inl e | Inr es \<Rightarrow> Inr (length es))"

definition journal_snapshot ::
  "'j journal_trait \<Rightarrow> fault \<Rightarrow> 'j \<Rightarrow> timestamp \<Rightarrow> step_id \<Rightarrow> json \<Rightarrow> (durable_error + unit) outcome \<times> 'j" where
  "journal_snapshot J fl s t sid state = tr_append J fl s (snapshot_entry t sid state)"

definition journal_is_empty :: "'j journal_trait \<Rightarrow> 'j \<Rightarrow> durable_error + bool" where
  "journal_is_empty J s = (case tr_len J s of Inl e \<Rightarrow> Inl e | Inr n \<Rightarrow> Inr (n = 0))"

text \<open>\<^verbatim>\<open>impl Journal for Box<J>\<close> and \<^verbatim>\<open>for Arc<J>\<close>: every method delegates.\<close>

definition box_journal :: "'j journal_trait \<Rightarrow> 'j journal_trait" where
  "box_journal J =
     \<lparr>tr_append = (\<lambda>fl s e. tr_append J fl s e),
      tr_replay_from = (\<lambda>s from. tr_replay_from J s from),
      tr_replay_all = (\<lambda>s. tr_replay_all J s),
      tr_len = (\<lambda>s. tr_len J s)\<rparr>"

subsection \<open>The in-memory journal (memory.rs)\<close>

type_synonym in_memory_journal = "journal_entry list"

definition mem_new :: in_memory_journal where
  "mem_new = []"

definition mem_from_entries :: "journal_entry list \<Rightarrow> in_memory_journal" where
  "mem_from_entries es = es"

definition mem_entries :: "in_memory_journal \<Rightarrow> journal_entry list" where
  "mem_entries s = s"

fun mem_append ::
  "fault \<Rightarrow> in_memory_journal \<Rightarrow> journal_entry \<Rightarrow> (durable_error + unit) outcome \<times> in_memory_journal" where
  "mem_append (Kill _) s e = (Killed, s)"
| "mem_append _ s e = (Done (Inr ()), s @ [e])"

definition mem_replay_from :: "in_memory_journal \<Rightarrow> step_id \<Rightarrow> durable_error + journal_entry list" where
  "mem_replay_from s from = Inr (filter (\<lambda>e. from \<le> je_step_id e) s)"

definition mem_replay_all :: "in_memory_journal \<Rightarrow> durable_error + journal_entry list" where
  "mem_replay_all s = Inr s"

definition mem_len :: "in_memory_journal \<Rightarrow> durable_error + nat" where
  "mem_len s = Inr (length s)"

definition in_memory :: "in_memory_journal journal_trait" where
  "in_memory =
     \<lparr>tr_append = mem_append, tr_replay_from = mem_replay_from,
      tr_replay_all = mem_replay_all, tr_len = mem_len\<rparr>"

lemma in_memory_sel [simp]:
  "tr_append in_memory = mem_append" "tr_replay_from in_memory = mem_replay_from"
  "tr_replay_all in_memory = mem_replay_all" "tr_len in_memory = mem_len"
  by (simp_all add: in_memory_def)

subsection \<open>The contract\<close>

text \<open>
  \<open>rows\<close> is the abstract log of a state, \<open>jinv\<close> the states the implementation keeps,
  \<open>storable\<close> the rows it can write.
\<close>

locale journal =
  fixes J :: "'j journal_trait"
    and rows :: "'j \<Rightarrow> journal_entry list"
    and jinv :: "'j \<Rightarrow> bool"
    and storable :: "'j \<Rightarrow> journal_entry \<Rightarrow> bool"
  assumes append_ok:
      "jinv s \<Longrightarrow> storable s e \<Longrightarrow>
         \<exists>s'. tr_append J NoFault s e = (Done (Inr ()), s') \<and> jinv s' \<and> rows s' = rows s @ [e]"
    and append_storable: "jinv s \<Longrightarrow> tr_append J fl s e = (r, s') \<Longrightarrow> storable s' = storable s"
    and replay_all_rows: "jinv s \<Longrightarrow> tr_replay_all J s = Inr (rows s)"
    and replay_from_rows:
      "jinv s \<Longrightarrow> tr_replay_from J s from = Inr (filter (\<lambda>e. from \<le> je_step_id e) (rows s))"
    and len_rows: "jinv s \<Longrightarrow> tr_len J s = Inr (length (rows s))"
begin

lemma append_rows:
  assumes "jinv s" "storable s e" "tr_append J NoFault s e = (r, s')"
  shows "r = Done (Inr ())" "jinv s'" "rows s' = rows s @ [e]"
  using append_ok[OF assms(1,2)] assms(3) by auto

lemma is_empty_rows: "jinv s \<Longrightarrow> journal_is_empty J s = Inr (rows s = [])"
  by (simp add: journal_is_empty_def len_rows)

lemma snapshot_rows:
  assumes "jinv s" "storable s (snapshot_entry t i v)"
    "journal_snapshot J NoFault s t i v = (r, s')"
  shows "r = Done (Inr ()) \<and> rows s' = rows s @ [snapshot_entry t i v]"
  using append_rows[OF assms(1,2)] assms(3) by (auto simp: journal_snapshot_def)

lemma replay_zero_all: "jinv s \<Longrightarrow> tr_replay_from J s ZERO = tr_replay_all J s"
  by (simp add: replay_from_rows replay_all_rows ZERO_def)

end

interpretation mem: journal in_memory "\<lambda>s. s" "\<lambda>_. True" "\<lambda>_ _. True"
  by unfold_locales (auto simp: mem_replay_all_def mem_replay_from_def mem_len_def)

lemma box_journal_id: "box_journal J = J"
  by (simp add: box_journal_def)

end
