(* ===== verification/File_Journal.thy ===== *)
theory File_Journal
  imports Journal
begin

section \<open>The file journal\<close>

text \<open>
  Models \<^verbatim>\<open>crates/familyclaw-durable/src/file.rs\<close> at the level of bytes. The file system is a
  map from paths to contents; the JSON encoder and decoder of journal rows (\<^verbatim>\<open>serde_json\<close>, not part
  of the repository) are the parameter \<open>C\<close>. What the code relies on is \<open>codec_ok\<close>: a row
  is one line starting with an opening brace, is read back as written, a proper prefix of a row is
  not a row, and text starting with an opening brace glued before a row is not a row.
\<close>

record codec =
  to_string :: "journal_entry \<Rightarrow> string option"
  from_str :: "string \<Rightarrow> string + journal_entry"

definition codec_ok :: "codec \<Rightarrow> bool" where
  "codec_ok C \<longleftrightarrow>
     (\<forall>e l. to_string C e = Some l \<longrightarrow>
        from_str C l = Inr e \<and> l \<noteq> [] \<and> hd l = CHR ''{'' \<and> last l = CHR ''}'' \<and>
        nl \<notin> set l \<and> utf8_valid l \<and>
        (\<forall>n < length l. isl (from_str C (take n l))) \<and>
        (\<forall>f. f \<noteq> [] \<longrightarrow> hd f = CHR ''{'' \<longrightarrow> isl (from_str C (f @ l))))"

type_synonym path = string
type_synonym fs = "path \<rightharpoonup> string"

definition fs_content :: "fs \<Rightarrow> path \<Rightarrow> string" where
  "fs_content d p = (case d p of None \<Rightarrow> [] | Some c \<Rightarrow> c)"

definition fs_append :: "fs \<Rightarrow> path \<Rightarrow> string \<Rightarrow> fs" where
  "fs_append d p b = d(p \<mapsto> fs_content d p @ b)"

lemma fs_content_append [simp]:
  "fs_content (fs_append d p b) p = fs_content d p @ b"
  by (simp add: fs_append_def fs_content_def)

lemma fs_append_other [simp]: "q \<noteq> p \<Longrightarrow> fs_append d p b q = d q"
  by (simp add: fs_append_def)

lemma fs_content_upd [simp]: "fs_content (d(p \<mapsto> c)) p = c"
  by (simp add: fs_content_def)

text \<open>
  \<^verbatim>\<open>write_all\<close>, \<^verbatim>\<open>flush\<close> and \<^verbatim>\<open>sync_all\<close> on a file opened in append mode, under a fault.
\<close>

fun write_sync :: "fault \<Rightarrow> fs \<Rightarrow> path \<Rightarrow> string \<Rightarrow> (durable_error + unit) outcome \<times> fs" where
  "write_sync NoFault d p b = (Done (Inr ()), fs_append d p b)"
| "write_sync (WriteErr n) d p b = (Done (Inl (Io ''write'')), fs_append d p (take n b))"
| "write_sync (Kill n) d p b = (Killed, fs_append d p (take n b))"

subsection \<open>Reading\<close>

text \<open>
  \<^verbatim>\<open>parse_entries_from_path\<close>. \<^verbatim>\<open>BufRead::lines\<close> fails on a line that is not UTF-8. Blank lines are
  skipped; a line that does not parse is dropped only when it is the last one and the file does not
  end with a newline.
\<close>

fun parse_loop :: "codec \<Rightarrow> bool \<Rightarrow> u64 \<Rightarrow> string list \<Rightarrow> durable_error + journal_entry list" where
  "parse_loop C had_nl n [] = Inr []"
| "parse_loop C had_nl n (l # ls) =
     (if str_blank l then parse_loop C had_nl (n + 1) ls
      else case from_str C l of
             Inr e \<Rightarrow> (case parse_loop C had_nl (n + 1) ls of
                        Inl err \<Rightarrow> Inl err
                      | Inr es \<Rightarrow> Inr (e # es))
           | Inl msg \<Rightarrow>
               if ls = [] \<and> \<not> had_nl then parse_loop C had_nl (n + 1) ls
               else Inl (corrupt n (''invalid json: '' @ msg)))"

definition parse_content :: "codec \<Rightarrow> string \<Rightarrow> durable_error + journal_entry list" where
  "parse_content C c =
     (if \<not> list_all utf8_valid (buf_lines c) then Inl (Io ''stream did not contain valid UTF-8'')
      else parse_loop C (c = [] \<or> last c = nl) 1 (buf_lines c))"

definition parse_entries_from_path :: "codec \<Rightarrow> fs \<Rightarrow> path \<Rightarrow> durable_error + journal_entry list" where
  "parse_entries_from_path C d p =
     (case d p of None \<Rightarrow> Inl (Io ''No such file or directory'') | Some c \<Rightarrow> parse_content C c)"

definition read_all_entries :: "codec \<Rightarrow> path \<Rightarrow> fs \<Rightarrow> durable_error + journal_entry list" where
  "read_all_entries C p d = parse_entries_from_path C d p"

definition last_byte_of :: "fs \<Rightarrow> path \<Rightarrow> durable_error + char option" where
  "last_byte_of d p =
     (case d p of
        None \<Rightarrow> Inl (Io ''No such file or directory'')
      | Some c \<Rightarrow> Inr (if c = [] then None else Some (last c)))"

subsection \<open>Healing and opening\<close>

definition heal_content :: "codec \<Rightarrow> string \<Rightarrow> string" where
  "heal_content C c =
     (if c = [] then c
      else if last c = nl then c
      else let last_line = after_last_nl c in
        if list_all ascii_ws last_line then c
        else case from_str C last_line of
               Inr _ \<Rightarrow> c @ [nl]
             | Inl _ \<Rightarrow> upto_last_nl c)"

definition heal_torn_trailing_fragment :: "codec \<Rightarrow> fs \<Rightarrow> path \<Rightarrow> fs" where
  "heal_torn_trailing_fragment C d p =
     (case d p of None \<Rightarrow> d | Some c \<Rightarrow> d(p \<mapsto> heal_content C c))"

definition file_open :: "codec \<Rightarrow> fs \<Rightarrow> path \<Rightarrow> fs" where
  "file_open C d p =
     (let d' = heal_torn_trailing_fragment C d p
      in d'(p \<mapsto> fs_content d' p))"

subsection \<open>Appending and replaying\<close>

definition file_append ::
  "codec \<Rightarrow> path \<Rightarrow> fault \<Rightarrow> fs \<Rightarrow> journal_entry \<Rightarrow> (durable_error + unit) outcome \<times> fs" where
  "file_append C p fl d e =
     (case to_string C e of
        None \<Rightarrow> (Done (Inl (Serde ''serialize'')), d)
      | Some l \<Rightarrow> write_sync fl d p (l @ [nl]))"

definition file_replay_from :: "codec \<Rightarrow> path \<Rightarrow> fs \<Rightarrow> step_id \<Rightarrow> durable_error + journal_entry list" where
  "file_replay_from C p d from =
     (case read_all_entries C p d of
        Inl e \<Rightarrow> Inl e
      | Inr es \<Rightarrow> Inr (filter (\<lambda>e. from \<le> je_step_id e) es))"

definition file_journal :: "codec \<Rightarrow> path \<Rightarrow> fs journal_trait" where
  "file_journal C p =
     \<lparr>tr_append = file_append C p,
      tr_replay_from = file_replay_from C p,
      tr_replay_all = read_all_entries C p,
      tr_len = default_len (read_all_entries C p)\<rparr>"

lemma file_journal_sel [simp]:
  "tr_append (file_journal C p) = file_append C p"
  "tr_replay_from (file_journal C p) = file_replay_from C p"
  "tr_replay_all (file_journal C p) = read_all_entries C p"
  "tr_len (file_journal C p) = default_len (read_all_entries C p)"
  by (simp_all add: file_journal_def)

subsection \<open>Compaction\<close>

text \<open>
  \<^verbatim>\<open>atomic_swap_locked\<close> has more than one write: the temporary file, the rename, the reopening of
  the handle. A \<open>swap_fault\<close> says where the operation fails or the process dies. The rename unlinks
  the file the old handle writes to; \<open>handle\<close> says whether the journal's handle still writes to
  the file at its path, or to an unlinked file with this content.
\<close>

datatype swap_fault =
    SwapOk
  | TmpErr nat       \<comment> \<open>writing the temporary file fails after this many bytes\<close>
  | TmpKill nat      \<comment> \<open>the process dies while writing the temporary file\<close>
  | RenameErr
  | RenameKill       \<comment> \<open>the process dies with the temporary file complete\<close>
  | SwappedKill      \<comment> \<open>the process dies right after the rename\<close>
  | ReopenErr        \<comment> \<open>the new handle cannot be opened\<close>

datatype handle = AtPath | Unlinked string

fun handle_content :: "fs \<Rightarrow> path \<Rightarrow> handle \<Rightarrow> string" where
  "handle_content d p AtPath = fs_content d p"
| "handle_content d p (Unlinked c) = c"

fun serialize_rows :: "codec \<Rightarrow> journal_entry list \<Rightarrow> string option" where
  "serialize_rows C [] = Some []"
| "serialize_rows C (e # es) =
     (case to_string C e of
        None \<Rightarrow> None
      | Some l \<Rightarrow> (case serialize_rows C es of None \<Rightarrow> None | Some b \<Rightarrow> Some (l @ nl # b)))"

definition compaction_tmp_path :: "path \<Rightarrow> nat \<Rightarrow> nat \<Rightarrow> path" where
  "compaction_tmp_path p pid nanos =
     p @ ''.compact-'' @ show_nat pid @ ''-'' @ show_nat nanos @ ''.tmp''"

definition atomic_swap_locked ::
  "codec \<Rightarrow> path \<Rightarrow> path \<Rightarrow> swap_fault \<Rightarrow> fs \<times> handle \<Rightarrow> journal_entry list \<Rightarrow>
   (durable_error + unit) outcome \<times> fs \<times> handle" where
  "atomic_swap_locked C p tmp sf s es =
     (case s of (d, h) \<Rightarrow>
       (case serialize_rows C es of
          None \<Rightarrow> (Done (Inl (Serde ''serialize'')), d, h)
        | Some buf \<Rightarrow>
            (case sf of
               TmpErr n \<Rightarrow> (Done (Inl (Io ''write temp'')), d(tmp := None), h)
             | TmpKill n \<Rightarrow> (Killed, d(tmp \<mapsto> take n buf), h)
             | RenameErr \<Rightarrow> (Done (Inl (Io ''rename'')), d(tmp := None), h)
             | RenameKill \<Rightarrow> (Killed, d(tmp \<mapsto> buf), h)
             | SwappedKill \<Rightarrow> (Killed, d(tmp := None, p \<mapsto> buf), h)
             | ReopenErr \<Rightarrow>
                 (Done (Inl (Io ''reopen'')), d(tmp := None, p \<mapsto> buf), Unlinked (handle_content d p h))
             | SwapOk \<Rightarrow> (Done (Inr ()), d(tmp := None, p \<mapsto> buf), AtPath))))"

definition rewrite ::
  "codec \<Rightarrow> path \<Rightarrow> path \<Rightarrow> swap_fault \<Rightarrow> fs \<times> handle \<Rightarrow> journal_entry list \<Rightarrow>
   (durable_error + unit) outcome \<times> fs \<times> handle" where
  "rewrite C p tmp sf s es = atomic_swap_locked C p tmp sf s es"

definition compact_with ::
  "codec \<Rightarrow> path \<Rightarrow> path \<Rightarrow> swap_fault \<Rightarrow> fs \<times> handle \<Rightarrow>
     (journal_entry list \<Rightarrow> durable_error + journal_entry list) \<Rightarrow>
     (durable_error + nat) outcome \<times> fs \<times> handle" where
  "compact_with C p tmp sf s build =
     (case parse_entries_from_path C (fst s) p of
        Inl e \<Rightarrow> (Done (Inl e), s)
      | Inr current \<Rightarrow>
          (case build current of
             Inl e \<Rightarrow> (Done (Inl e), s)
           | Inr kept \<Rightarrow>
               (case atomic_swap_locked C p tmp sf s kept of
                  (Done (Inl e), s') \<Rightarrow> (Done (Inl e), s')
                | (Done (Inr _), s') \<Rightarrow> (Done (Inr (length current - length kept)), s')
                | (Killed, s') \<Rightarrow> (Killed, s'))))"

text \<open>
  Appending through the handle. While the handle is at its path this is \<open>file_append\<close>; an
  unlinked file takes the bytes and no reader sees them.
\<close>

fun handle_append ::
  "codec \<Rightarrow> path \<Rightarrow> fault \<Rightarrow> fs \<times> handle \<Rightarrow> journal_entry \<Rightarrow>
   (durable_error + unit) outcome \<times> fs \<times> handle" where
  "handle_append C p fl (d, AtPath) e =
     (case file_append C p fl d e of (r, d') \<Rightarrow> (r, d', AtPath))"
| "handle_append C p fl (d, Unlinked c) e =
     (case file_append C [] fl [[] \<mapsto> c] e of (r, d') \<Rightarrow> (r, d, Unlinked (fs_content d' [])))"

subsection \<open>Lines of a journal file\<close>

lemma codec_line:
  assumes "codec_ok C" "to_string C e = Some l"
  shows "from_str C l = Inr e" "l \<noteq> []" "hd l = CHR ''{''" "last l = CHR ''}''"
    "nl \<notin> set l" "utf8_valid l"
    "n < length l \<Longrightarrow> isl (from_str C (take n l))"
    "f \<noteq> [] \<Longrightarrow> hd f = CHR ''{'' \<Longrightarrow> isl (from_str C (f @ l))"
  using assms unfolding codec_ok_def by auto

lemma brace_not_blank: "f \<noteq> [] \<Longrightarrow> hd f = CHR ''{'' \<Longrightarrow> \<not> str_blank f"
  using not_str_blankI[of f "CHR ''{''" "tl f"] by (cases f) simp_all

lemma brace_not_ascii_ws: "f \<noteq> [] \<Longrightarrow> hd f = CHR ''{'' \<Longrightarrow> \<not> list_all ascii_ws f"
  by (cases f) (auto simp: ascii_ws_def)

lemma line_content_row:
  assumes "codec_ok C" "to_string C e = Some l"
  shows "line_content (l, t) = l"
  using codec_line(4)[OF assms] by (auto simp: line_content_def cr_def)

lemma buf_lines_append_clean: "clean s \<Longrightarrow> buf_lines (s @ t) = buf_lines s @ buf_lines t"
  by (simp add: buf_lines_def raw_lines_append_clean)

lemma buf_lines_row:
  assumes "codec_ok C" "to_string C e = Some l"
  shows "buf_lines (l @ nl # s) = l # buf_lines s"
  using codec_line(5)[OF assms] by (simp add: buf_lines_def line_content_row[OF assms])

subsection \<open>The reading loop\<close>

lemma parse_loop_append:
  "parse_loop C True n ls = Inr es \<Longrightarrow>
   parse_loop C b n (ls @ ms) =
     (case parse_loop C b (n + of_nat (length ls)) ms of Inl err \<Rightarrow> Inl err | Inr es' \<Rightarrow> Inr (es @ es'))"
proof (induction ls arbitrary: n es)
  case Nil
  then show ?case by (auto split: sum.splits)
next
  case (Cons l ls)
  show ?case
  proof (cases "str_blank l")
    case True
    with Cons.prems have "parse_loop C True (n + 1) ls = Inr es" by simp
    from Cons.IH[OF this] True show ?thesis by (simp add: add.assoc)
  next
    case False
    with Cons.prems obtain e es1 where e: "from_str C l = Inr e"
      and es1: "parse_loop C True (n + 1) ls = Inr es1" and es: "es = e # es1"
      by (auto split: sum.splits if_splits)
    from Cons.IH[OF es1] False e es show ?thesis
      by (auto simp: add.assoc split: sum.splits)
  qed
qed

lemma parse_loop_had_nl: "parse_loop C True n ls = Inr es \<Longrightarrow> parse_loop C b n ls = Inr es"
  using parse_loop_append[of C n ls es b "[]"] by simp

lemma parse_loop_mem:
  assumes "parse_loop C b n (ls @ l # ms) = Inr rs" "\<not> str_blank l" "from_str C l = Inr e"
  shows "e \<in> set rs"
  using assms(1)
proof (induction ls arbitrary: n rs)
  case Nil
  with assms(2,3) show ?case by (auto split: sum.splits)
next
  case (Cons k ls)
  then show ?case by (fastforce split: sum.splits if_splits)
qed

lemma parse_loop_bad:
  assumes "\<not> str_blank l" "isl (from_str C l)" "ms \<noteq> [] \<or> b"
  shows "isl (parse_loop C b n (ls @ l # ms))"
proof (induction ls arbitrary: n)
  case Nil
  obtain msg where "from_str C l = Inl msg" using assms(2) by (cases "from_str C l") auto
  with assms(1,3) show ?case by auto
next
  case (Cons k ls)
  then obtain m where "parse_loop C b (n + 1) (ls @ l # ms) = Inl m"
    by (cases "parse_loop C b (n + 1) (ls @ l # ms)") (metis isl_def sum.disc(2))+
  then show ?case by (auto split: sum.splits)
qed

subsection \<open>Clean files, torn appends and recovery\<close>

lemma buf_lines_no_nl: "nl \<notin> set t \<Longrightarrow> buf_lines t = (if t = [] then [] else [t])"
  by (simp add: buf_lines_def raw_lines_no_nl line_content_def)

lemma parse_content_clean_append:
  assumes c: "clean c" "parse_content C c = Inr es"
    and u: "list_all utf8_valid (buf_lines t)"
  shows "parse_content C (c @ t) =
    (case parse_loop C (clean t) (1 + of_nat (length (buf_lines c))) (buf_lines t) of
       Inl err \<Rightarrow> Inl err | Inr es' \<Rightarrow> Inr (es @ es'))"
proof -
  from c have p: "parse_loop C True 1 (buf_lines c) = Inr es"
    and uc: "list_all utf8_valid (buf_lines c)"
    by (auto simp: parse_content_def clean_def split: if_splits)
  have flag: "(c @ t = [] \<or> last (c @ t) = nl) = clean t"
    using c(1) by (cases "t = []") (auto simp: clean_def)
  show ?thesis
    using parse_loop_append[OF p, of "clean t" "buf_lines t"] uc u flag
    by (simp add: parse_content_def buf_lines_append_clean[OF c(1)])
qed

lemma parse_content_append_row:
  assumes C: "codec_ok C" and l: "to_string C e = Some l"
    and c: "clean c" "parse_content C c = Inr es"
  shows "parse_content C (c @ l @ [nl]) = Inr (es @ [e])"
proof -
  have b: "buf_lines (l @ [nl]) = [l]" using buf_lines_row[OF C l, of "[]"] by (simp add: buf_lines_def)
  have "\<not> str_blank l" by (rule brace_not_blank[OF codec_line(2,3)[OF C l]])
  then show ?thesis
    using parse_content_clean_append[OF c, of "l @ [nl]"] codec_line[OF C l] b by simp
qed

lemma parse_content_torn:
  assumes C: "codec_ok C" and l: "to_string C e = Some l"
    and c: "clean c" "parse_content C c = Inr es"
    and n: "n < length l" and u: "utf8_valid (take n l)"
  shows "parse_content C (c @ take n l) = Inr es"
proof (cases "n = 0")
  case True
  then show ?thesis using c by simp
next
  case False
  let ?f = "take n l"
  have f: "?f \<noteq> []" "hd ?f = CHR ''{''" using False n codec_line(2,3)[OF C l] by auto
  have nn: "nl \<notin> set ?f" using codec_line(5)[OF C l] by (meson in_set_takeD)
  obtain msg where bad: "from_str C ?f = Inl msg"
    using codec_line(7)[OF C l n] by (cases "from_str C ?f") auto
  have "\<not> clean ?f" using nn f by (metis clean_def last_in_set)
  then show ?thesis
    using parse_content_clean_append[OF c, of ?f] buf_lines_no_nl[OF nn] f(1) u bad
      brace_not_blank[OF f] by simp
qed

lemma heal_clean [simp]: "clean c \<Longrightarrow> heal_content C c = c"
  by (auto simp: heal_content_def clean_def)

lemma heal_row_fragment:
  assumes C: "codec_ok C" and l: "to_string C e = Some l" and c: "clean c"
  shows "heal_content C (c @ take n (l @ [nl])) =
    (if n < length l then c else c @ l @ [nl])"
proof -
  note row = codec_line[OF C l]
  consider "n = 0" | "0 < n" "n < length l" | "n = length l" | "length l < n" by linarith
  then show ?thesis
  proof cases
    case 1
    then show ?thesis using c row(2) by simp
  next
    case 2
    let ?f = "take n l"
    have f: "?f \<noteq> []" "hd ?f = CHR ''{''" using 2 row(2,3) by auto
    have nn: "nl \<notin> set ?f" using row(5) by (meson in_set_takeD)
    then have "last (c @ ?f) \<noteq> nl" using f(1) by (metis last_appendR last_in_set)
    then show ?thesis using 2 f c nn row(7)[of n] brace_not_ascii_ws[OF f]
      by (auto simp: heal_content_def Let_def split: sum.splits)
  next
    case 3
    have "last (c @ l) \<noteq> nl" using row(2,5) by (metis last_appendR last_in_set)
    then show ?thesis using 3 row c brace_not_ascii_ws[OF row(2,3)]
      by (simp add: heal_content_def)
  next
    case 4
    then show ?thesis by simp
  qed
qed

lemma heal_idem:
  "heal_content C (heal_content C c) = heal_content C c"
proof (cases "c = [] \<or> last c = nl \<or> list_all ascii_ws (after_last_nl c)")
  case True
  then show ?thesis by (auto simp: heal_content_def Let_def)
next
  case False
  then have "clean (heal_content C c)"
    by (auto simp: heal_content_def Let_def upto_last_nl_clean split: sum.splits)
  then show ?thesis by simp
qed

subsection \<open>The journal contract and recovery after a crash\<close>

text \<open>A file journal at rest: the file exists, ends with a newline and every line is a row.\<close>

definition file_inv :: "codec \<Rightarrow> path \<Rightarrow> fs \<Rightarrow> bool" where
  "file_inv C p d \<longleftrightarrow> codec_ok C \<and>
     (\<exists>c es. d p = Some c \<and> clean c \<and> parse_content C c = Inr es)"

definition file_rows :: "codec \<Rightarrow> path \<Rightarrow> fs \<Rightarrow> journal_entry list" where
  "file_rows C p d = (case read_all_entries C p d of Inl _ \<Rightarrow> [] | Inr es \<Rightarrow> es)"

definition file_storable :: "codec \<Rightarrow> fs \<Rightarrow> journal_entry \<Rightarrow> bool" where
  "file_storable C d e \<longleftrightarrow> to_string C e \<noteq> None"

lemma read_all_simp [simp]:
  "d p = Some c \<Longrightarrow> read_all_entries C p d = parse_content C c"
  by (simp add: read_all_entries_def parse_entries_from_path_def)

lemma file_invE:
  assumes "file_inv C p d"
  obtains c es where "codec_ok C" "d p = Some c" "clean c" "parse_content C c = Inr es"
    "file_rows C p d = es"
  using assms by (auto simp: file_inv_def file_rows_def)

lemma file_invI:
  "codec_ok C \<Longrightarrow> d p = Some c \<Longrightarrow> clean c \<Longrightarrow> parse_content C c = Inr es \<Longrightarrow>
     file_inv C p d \<and> file_rows C p d = es"
  by (simp add: file_inv_def file_rows_def)

lemma file_open_simp:
  "file_open C d p = d(p \<mapsto> (case d p of None \<Rightarrow> [] | Some c \<Rightarrow> heal_content C c))"
  by (auto simp: file_open_def heal_torn_trailing_fragment_def fs_content_def fun_eq_iff
      split: option.splits)

lemma file_open_inv:
  "file_inv C p d \<Longrightarrow> file_open C d p = d"
  by (elim file_invE) (simp add: file_open_simp fun_upd_idem)

lemma file_open_missing:
  "codec_ok C \<Longrightarrow> d p = None \<Longrightarrow> file_inv C p (file_open C d p) \<and> file_rows C p (file_open C d p) = []"
  by (rule file_invI[where c = "[]"]) (auto simp: file_open_simp parse_content_def buf_lines_def)

lemma file_append_content:
  assumes "d p = Some c" "to_string C e = Some l" "file_append C p fl d e = (r, d')"
  shows "d' = d(p \<mapsto> c @ (case fl of NoFault \<Rightarrow> l @ [nl] | WriteErr n \<Rightarrow> take n (l @ [nl])
                                     | Kill n \<Rightarrow> take n (l @ [nl])))"
    and "r = Done (Inr ()) \<longleftrightarrow> fl = NoFault"
  using assms by (cases fl; auto simp: file_append_def fs_append_def fs_content_def)+

lemma file_append_row:
  assumes "file_inv C p d" "to_string C e = Some l"
  shows "file_inv C p (d(p \<mapsto> fs_content d p @ l @ [nl]))"
    "file_rows C p (d(p \<mapsto> fs_content d p @ l @ [nl])) = file_rows C p d @ [e]"
proof -
  from assms(1) obtain c es where c: "codec_ok C" "d p = Some c" "clean c"
    "parse_content C c = Inr es" "file_rows C p d = es" by (rule file_invE)
  then show "file_inv C p (d(p \<mapsto> fs_content d p @ l @ [nl]))"
    "file_rows C p (d(p \<mapsto> fs_content d p @ l @ [nl])) = file_rows C p d @ [e]"
    using file_invI[OF c(1) _ _ parse_content_append_row[OF c(1) assms(2) c(3,4)],
        of "d(p \<mapsto> fs_content d p @ l @ [nl])" p]
    by (auto simp: fs_content_def)
qed

interpretation filej: journal "file_journal C p" "file_rows C p" "file_inv C p" "file_storable C"
  for C p
proof (unfold_locales, goal_cases)
  case (1 d e)
  then obtain l where l: "to_string C e = Some l" by (auto simp: file_storable_def)
  show ?case
    using file_append_row[OF 1(1) l] l
    by (auto simp: file_append_def fs_append_def)
next
  case (2 d fl e r d')
  then show ?case by (simp add: file_storable_def fun_eq_iff)
next
  case (3 d)
  then show ?case by (elim file_invE) simp
next
  case (4 d frm)
  then show ?case by (elim file_invE) (simp add: file_replay_from_def)
next
  case (5 d)
  then show ?case by (elim file_invE) (simp add: default_len_def)
qed

text \<open>
  A journal that survives crashes adds \<open>reopen\<close>: whatever happened to one append, after
  reopening the log is the old one or the old one with the row, and it has the row when the append
  reported success.
\<close>

locale crash_journal = journal J rows jinv storable
  for J :: "'j journal_trait"
    and rows :: "'j \<Rightarrow> journal_entry list"
    and jinv :: "'j \<Rightarrow> bool"
    and storable :: "'j \<Rightarrow> journal_entry \<Rightarrow> bool" +
  fixes reopen :: "'j \<Rightarrow> 'j"
  assumes reopen_id: "jinv s \<Longrightarrow> reopen s = s"
    and crash_append:
      "jinv s \<Longrightarrow> tr_append J fl s e = (r, s') \<Longrightarrow>
         jinv (reopen s') \<and> (rows (reopen s') = rows s \<or> rows (reopen s') = rows s @ [e])"
    and append_success:
      "jinv s \<Longrightarrow> tr_append J fl s e = (Done (Inr ()), s') \<Longrightarrow>
         jinv s' \<and> rows s' = rows s @ [e]"
    and append_err: "tr_append J fl s e = (Done (Inl (StepError n m)), s') \<Longrightarrow> False"
    and reopen_storable: "storable (reopen s) = storable s"
begin

lemma crash_append_success:
  assumes "jinv s" "tr_append J fl s e = (Done (Inr ()), s')"
  shows "rows (reopen s') = rows s @ [e]"
  using append_success[OF assms] by (simp add: reopen_id)

end

lemma file_crash_append:
  assumes inv: "file_inv C p d" and l: "to_string C e = Some l"
    and app: "file_append C p fl d e = (r, d')"
  shows "file_open C d' p =
    (if fl = NoFault \<or> (\<exists>n. (fl = WriteErr n \<or> fl = Kill n) \<and> length l \<le> n)
     then d(p \<mapsto> fs_content d p @ l @ [nl]) else d)"
proof -
  from inv obtain c es where c: "codec_ok C" "d p = Some c" "clean c" by (rule file_invE)
  show ?thesis
    using file_append_content(1)[OF c(2) l app] c(2)
      heal_row_fragment[OF c(1) l c(3)] heal_clean[of "c @ l @ [nl]" C]
    by (cases fl) (auto simp: file_open_simp fs_content_def fun_upd_idem)
qed

interpretation filec: crash_journal
  "file_journal C p" "file_rows C p" "file_inv C p" "file_storable C" "\<lambda>d. file_open C d p"
  for C p
proof (unfold_locales, goal_cases)
  case (1 d)
  then show ?case by (rule file_open_inv)
next
  case (2 d fl e r d')
  then have app: "file_append C p fl d e = (r, d')" by simp
  from 2(1) obtain c where c: "d p = Some c" by (rule file_invE)
  show ?case
  proof (cases "to_string C e")
    case None
    with app have "d' = d" by (simp add: file_append_def)
    with 2(1) show ?thesis by (simp add: file_open_inv)
  next
    case (Some l)
    show ?thesis
      using file_crash_append[OF 2(1) Some app] file_append_row[OF 2(1) Some] 2(1) by auto
  qed
next
  case (3 d fl e d')
  then have app: "file_append C p fl d e = (Done (Inr ()), d')" by simp
  then obtain l where l: "to_string C e = Some l"
    by (auto simp: file_append_def split: option.splits)
  from 3(1) obtain c where c: "d p = Some c" by (rule file_invE)
  show ?case
    using file_append_content[OF c l app] file_append_row[OF 3(1) l] c by (auto simp: fs_content_def)
next
  case (4 fl d e n m d')
  then show ?case by (cases fl) (auto simp: file_append_def split: option.splits)
next
  case (5 d)
  then show ?case by (simp add: file_storable_def fun_eq_iff)
qed

subsection \<open>Rows that stay recorded under any fault\<close>

text \<open>
  A process that survives a failed write goes on appending to a file that may end in a fragment of
  a row. Then the next row is glued to the fragment: the file can no longer be read at all. So once
  an append has reported success, every later read either fails or shows the row, whatever happens
  in between. This is the contract \<open>recording_journal\<close>; code that reads before it acts is safe
  with it.
\<close>

datatype journal_op = OpAppend fault journal_entry | OpReopen

fun run_journal_ops :: "'j journal_trait \<Rightarrow> ('j \<Rightarrow> 'j) \<Rightarrow> 'j \<Rightarrow> journal_op list \<Rightarrow> 'j" where
  "run_journal_ops J reopen s [] = s"
| "run_journal_ops J reopen s (OpAppend fl e # ops) =
     run_journal_ops J reopen (snd (tr_append J fl s e)) ops"
| "run_journal_ops J reopen s (OpReopen # ops) = run_journal_ops J reopen (reopen s) ops"

locale recording_journal =
  fixes J :: "'j journal_trait"
    and reopen :: "'j \<Rightarrow> 'j"
    and wf :: "'j \<Rightarrow> bool"
    and recorded :: "journal_entry \<Rightarrow> 'j \<Rightarrow> bool"
  assumes wf_append: "wf s \<Longrightarrow> wf (snd (tr_append J fl s e))"
    and wf_reopen: "wf s \<Longrightarrow> wf (reopen s)"
    and recorded_append: "recorded e s \<Longrightarrow> recorded e (snd (tr_append J fl s e'))"
    and recorded_reopen: "recorded e s \<Longrightarrow> recorded e (reopen s)"
    and recorded_success: "wf s \<Longrightarrow> tr_append J fl s e = (Done (Inr ()), s') \<Longrightarrow> recorded e s'"
    and recorded_read: "recorded e s \<Longrightarrow> tr_replay_all J s = Inr es \<Longrightarrow> e \<in> set es"
begin

lemma run_wf: "wf s \<Longrightarrow> wf (run_journal_ops J reopen s ops)"
proof (induction ops arbitrary: s)
  case (Cons a ops)
  then show ?case by (cases a) (auto intro: wf_append wf_reopen)
qed simp

lemma run_recorded: "recorded e s \<Longrightarrow> recorded e (run_journal_ops J reopen s ops)"
proof (induction ops arbitrary: s)
  case (Cons a ops)
  then show ?case by (cases a) (auto intro: recorded_append recorded_reopen)
qed simp

lemma recorded_forever:
  assumes "wf s" "tr_append J fl s e = (Done (Inr ()), s')"
    and "tr_replay_all J (run_journal_ops J reopen s' ops) = Inr es"
  shows "e \<in> set es"
  using recorded_read run_recorded recorded_success assms by blast

end

definition file_wf :: "codec \<Rightarrow> path \<Rightarrow> fs \<Rightarrow> bool" where
  "file_wf C p d \<longleftrightarrow> codec_ok C \<and>
     (\<exists>c. d p = Some c \<and> (after_last_nl c = [] \<or> hd (after_last_nl c) = CHR ''{''))"

definition file_recorded :: "codec \<Rightarrow> path \<Rightarrow> journal_entry \<Rightarrow> fs \<Rightarrow> bool" where
  "file_recorded C p e d \<longleftrightarrow>
     (\<exists>c b rest. d p = Some (c @ b @ nl # rest) \<and> clean c \<and> nl \<notin> set b \<and>
        b \<noteq> [] \<and> hd b = CHR ''{'' \<and> last b = CHR ''}'' \<and>
        (from_str C b = Inr e \<or> isl (from_str C b)))"

lemma upto_last_nl_append_any:
  "clean c \<Longrightarrow> upto_last_nl (c @ t) = c @ upto_last_nl t"
proof (cases "nl \<in> set t")
  case True
  then show ?thesis by (simp add: upto_last_nl_def dropWhile_append1)
next
  case False
  assume "clean c"
  moreover have "upto_last_nl t = []" using False
    by (auto simp: upto_last_nl_def dropWhile_eq_Nil_conv)
  ultimately show ?thesis using False by simp
qed

lemma heal_keeps_prefix: "clean c \<Longrightarrow> \<exists>t'. heal_content C (c @ t) = c @ t'"
  by (auto simp: heal_content_def Let_def upto_last_nl_append_any split: sum.splits)

lemma after_last_nl_nl: "after_last_nl (s @ [nl]) = []"
  by (simp add: after_last_nl_def)

lemma after_last_nl_clean: "clean c \<Longrightarrow> after_last_nl c = []"
  using after_last_nl_append[of c "[]"] by simp

lemma after_last_nl_append_no_nl: "nl \<notin> set t \<Longrightarrow> after_last_nl (s @ t) = after_last_nl s @ t"
proof -
  assume "nl \<notin> set t"
  then have "takeWhile (\<lambda>c. c \<noteq> nl) (rev t @ rev s) = rev t @ takeWhile (\<lambda>c. c \<noteq> nl) (rev s)"
    by (intro takeWhile_append2) auto
  then show ?thesis by (simp add: after_last_nl_def)
qed

lemma buf_lines_split:
  assumes "clean c" "nl \<notin> set b" "last b = CHR ''}''"
  shows "buf_lines (c @ b @ nl # rest) = buf_lines c @ b # buf_lines rest"
  using assms by (simp add: buf_lines_append_clean) (auto simp: buf_lines_def line_content_def cr_def)

lemma file_recorded_read:
  assumes "file_recorded C p e d" "read_all_entries C p d = Inr es"
  shows "e \<in> set es"
proof -
  from assms(1) obtain c b rest where d: "d p = Some (c @ b @ nl # rest)" and c: "clean c"
    "nl \<notin> set b" "b \<noteq> []" "hd b = CHR ''{''" "last b = CHR ''}''"
    and k: "from_str C b = Inr e \<or> isl (from_str C b)" by (auto simp: file_recorded_def)
  let ?nl = "c @ b @ nl # rest = [] \<or> last (c @ b @ nl # rest) = nl"
  have p: "parse_loop C ?nl 1 (buf_lines c @ b # buf_lines rest) = Inr es"
    using assms(2) d buf_lines_split[OF c(1,2,5)] by (simp add: parse_content_def split: if_splits)
  have nb: "\<not> str_blank b" by (rule brace_not_blank[OF c(3,4)])
  from k show ?thesis
  proof
    assume "from_str C b = Inr e"
    then show ?thesis by (rule parse_loop_mem[OF p nb])
  next
    assume bad: "isl (from_str C b)"
    have "buf_lines rest \<noteq> [] \<or> ?nl"
      by (cases rest) (auto simp: buf_lines_def split: list.splits prod.splits)
    from parse_loop_bad[OF nb bad this] p show ?thesis by (metis sum.disc(2))
  qed
qed

lemma file_append_shape:
  "\<exists>t. snd (file_append C p fl d e) = d \<or>
     (snd (file_append C p fl d e) = d(p \<mapsto> fs_content d p @ t) \<and>
      (\<exists>l n. to_string C e = Some l \<and> t = take n (l @ [nl])))"
proof (cases "to_string C e")
  case None
  then show ?thesis by (simp add: file_append_def)
next
  case (Some l)
  define n where "n = (case fl of NoFault \<Rightarrow> Suc (length l) | WriteErr n \<Rightarrow> n | Kill n \<Rightarrow> n)"
  have "snd (file_append C p fl d e) = d(p \<mapsto> fs_content d p @ take n (l @ [nl]))"
    using Some by (cases fl) (auto simp: file_append_def fs_append_def n_def)
  with Some show ?thesis by blast
qed

lemma file_recorded_append: "file_recorded C p e d \<Longrightarrow> file_recorded C p e (snd (file_append C p fl d e'))"
proof -
  assume rec: "file_recorded C p e d"
  then obtain c b rest where d: "d p = Some (c @ b @ nl # rest)"
    and r: "clean c" "nl \<notin> set b" "b \<noteq> []" "hd b = CHR ''{''" "last b = CHR ''}''"
      "from_str C b = Inr e \<or> isl (from_str C b)" by (auto simp: file_recorded_def)
  from file_append_shape[of C p fl d e'] obtain t where
    "snd (file_append C p fl d e') = d \<or> snd (file_append C p fl d e') = d(p \<mapsto> fs_content d p @ t)"
    by blast
  then show ?thesis
  proof
    assume "snd (file_append C p fl d e') = d(p \<mapsto> fs_content d p @ t)"
    with d r show ?thesis unfolding file_recorded_def
      by (intro exI[of _ c] exI[of _ b] exI[of _ "rest @ t"]) (simp add: fs_content_def)
  qed (simp add: rec)
qed

lemma file_recorded_reopen: "file_recorded C p e d \<Longrightarrow> file_recorded C p e (file_open C d p)"
proof -
  assume "file_recorded C p e d"
  then obtain c b rest where d: "d p = Some (c @ b @ nl # rest)"
    and r: "clean c" "nl \<notin> set b" "b \<noteq> []" "hd b = CHR ''{''" "last b = CHR ''}''"
      "from_str C b = Inr e \<or> isl (from_str C b)" by (auto simp: file_recorded_def)
  obtain t' where "heal_content C ((c @ b @ [nl]) @ rest) = (c @ b @ [nl]) @ t'"
    using heal_keeps_prefix[of "c @ b @ [nl]" C rest] by auto
  with d r show ?thesis unfolding file_recorded_def file_open_simp
    by (intro exI[of _ c] exI[of _ b] exI[of _ t']) simp
qed

lemma file_wf_append: "file_wf C p d \<Longrightarrow> file_wf C p (snd (file_append C p fl d e))"
proof -
  assume wf: "file_wf C p d"
  then obtain c where C: "codec_ok C" and c: "d p = Some c"
    "after_last_nl c = [] \<or> hd (after_last_nl c) = CHR ''{''" by (auto simp: file_wf_def)
  from file_append_shape[of C p fl d e] consider "snd (file_append C p fl d e) = d"
    | l n where "snd (file_append C p fl d e) = d(p \<mapsto> c @ take n (l @ [nl]))" "to_string C e = Some l"
    using c(1) by (auto simp: fs_content_def)
  then show ?thesis
  proof cases
    case 1
    with wf show ?thesis by simp
  next
    case (2 l n)
    note row = codec_line[OF C 2(2)]
    show ?thesis
    proof (cases "n \<le> length l")
      case True
      have "nl \<notin> set (take n l)" using row(5) by (meson in_set_takeD)
      then have a: "after_last_nl (c @ take n (l @ [nl])) = after_last_nl c @ take n l"
        using True by (simp add: after_last_nl_append_no_nl)
      have "take n l = [] \<or> hd (take n l) = CHR ''{''" using row(2,3) by (cases n; cases l; simp)
      then have "after_last_nl c @ take n l = [] \<or> hd (after_last_nl c @ take n l) = CHR ''{''"
        using c(2) by (cases "after_last_nl c") auto
      with 2 C a show ?thesis by (auto simp: file_wf_def)
    next
      case False
      then have "take n (l @ [nl]) = l @ [nl]" by simp
      with 2 C show ?thesis using after_last_nl_nl[of "c @ l"] by (auto simp: file_wf_def)
    qed
  qed
qed

lemma file_wf_reopen: "file_wf C p d \<Longrightarrow> file_wf C p (file_open C d p)"
proof -
  assume "file_wf C p d"
  then obtain c where c: "codec_ok C" "d p = Some c"
    "after_last_nl c = [] \<or> hd (after_last_nl c) = CHR ''{''" by (auto simp: file_wf_def)
  have "after_last_nl (heal_content C c) = [] \<or> hd (after_last_nl (heal_content C c)) = CHR ''{''"
    using c(3) after_last_nl_nl[of c] after_last_nl_clean[OF upto_last_nl_clean[of c]]
    by (auto simp: heal_content_def Let_def split: sum.splits)
  with c show ?thesis by (simp add: file_wf_def file_open_simp)
qed

lemma file_recorded_success:
  assumes "file_wf C p d" "file_append C p fl d e = (Done (Inr ()), d')"
  shows "file_recorded C p e d'"
proof -
  from assms(1) obtain c where C: "codec_ok C" and c: "d p = Some c"
    "after_last_nl c = [] \<or> hd (after_last_nl c) = CHR ''{''" by (auto simp: file_wf_def)
  from assms(2) obtain l where l: "to_string C e = Some l"
    by (auto simp: file_append_def split: option.splits)
  then have d': "d' p = Some (c @ l @ [nl])"
    using file_append_content[OF c(1) l assms(2)] by auto
  note row = codec_line[OF C l]
  let ?f = "after_last_nl c" and ?c = "upto_last_nl c"
  have "from_str C (?f @ l) = Inr e \<or> isl (from_str C (?f @ l))"
    using row(1) row(8)[of ?f] c(2) by (cases "?f = []") auto
  moreover have "hd (?f @ l) = CHR ''{''" "last (?f @ l) = CHR ''}''" "?f @ l \<noteq> []"
    using row(2-4) c(2) by (auto simp: hd_append)
  moreover have "d' p = Some (?c @ (?f @ l) @ nl # [])"
    using d' upto_after_last_nl[of c] by (metis append.assoc)
  ultimately show ?thesis
    unfolding file_recorded_def using upto_last_nl_clean[of c] after_last_nl_no_nl[of c] row(5)
    by (intro exI[of _ ?c] exI[of _ "?f @ l"] exI[of _ "[]"]) auto
qed

interpretation filerec: recording_journal
  "file_journal C p" "\<lambda>d. file_open C d p" "file_wf C p" "file_recorded C p"
  for C p
  by unfold_locales
    (auto intro: file_wf_append file_wf_reopen file_recorded_append file_recorded_reopen
       file_recorded_success dest: file_recorded_read)

end
