(* ===== verification/Context.thy ===== *)
theory Context
  imports File_Journal
begin

section \<open>Deterministic replay of steps\<close>

text \<open>
  Models \<^verbatim>\<open>crates/familyclaw-durable/src/context.rs\<close>. A \<open>durable_context\<close> runs named steps
  over a journal: recorded steps are answered from the log, fresh ones run their closure once and
  append a row. The closure is a function of the outside world \<open>'w\<close>, which holds its side
  effects; \<open>tv\<close> and \<open>fv\<close> are \<^verbatim>\<open>serde_json::to_value\<close> and \<^verbatim>\<open>from_value\<close> at the step's
  result type, \<open>t\<close> is the clock and \<open>fl\<close> the fault of the step's write.
\<close>

record 'j durable_context =
  ctx_journal :: 'j
  replay :: "journal_entry list"
  cursor :: nat

definition ctx_new :: "'j journal_trait \<Rightarrow> 'j \<Rightarrow> durable_error + 'j durable_context" where
  "ctx_new J j =
     (case tr_replay_all J j of
        Inl e \<Rightarrow> Inl e
      | Inr es \<Rightarrow>
          Inr \<lparr>ctx_journal = j, replay = filter (\<lambda>e. is_step (je_kind e)) es, cursor = 0\<rparr>)"

definition is_replaying :: "'j durable_context \<Rightarrow> bool" where
  "is_replaying c \<longleftrightarrow> cursor c < length (replay c)"

definition steps_taken :: "'j durable_context \<Rightarrow> nat" where
  "steps_taken c = cursor c"

definition fast_forward_replay :: "'j durable_context \<Rightarrow> 'j durable_context" where
  "fast_forward_replay c = c\<lparr>cursor := length (replay c)\<rparr>"

definition next_step_id :: "'j durable_context \<Rightarrow> step_id" where
  "next_step_id c = of_nat (cursor c)"

definition non_step_label :: "entry_kind \<Rightarrow> string" where
  "non_step_label k =
     (if is_snapshot k then ''snapshot'' else if is_marker k then ''marker'' else ''unknown'')"

definition advance :: "'j durable_context \<Rightarrow> 'j durable_context" where
  "advance c = c\<lparr>cursor := cursor c + 1\<rparr>"

definition step ::
  "'j journal_trait \<Rightarrow> ('a \<Rightarrow> string + json) \<Rightarrow> (json \<Rightarrow> string + 'a) \<Rightarrow> fault \<Rightarrow> timestamp \<Rightarrow>
   string \<Rightarrow> ('w \<Rightarrow> (string + 'a) \<times> 'w) \<Rightarrow> 'j durable_context \<Rightarrow> 'w \<Rightarrow>
   (durable_error + 'a) outcome \<times> 'j durable_context \<times> 'w" where
  "step J tv fv fl t name f c w =
     (let index = of_nat (cursor c) in
      case vec_get (replay c) (cursor c) of
        Some entry \<Rightarrow>
          (let recorded_name = (case entry_step_name entry of None \<Rightarrow> [] | Some n \<Rightarrow> n) in
           if recorded_name \<noteq> name
           then (Done (Inl (NondeterministicReplay index name recorded_name)), c, w)
           else (case je_kind entry of
                   StepCompleted _ output \<Rightarrow>
                     (case fv output of
                        Inl m \<Rightarrow> (Done (Inl (Serde m)), c, w)
                      | Inr value \<Rightarrow> (Done (Inr value), advance c, w))
                 | StepFailed _ err \<Rightarrow> (Done (Inl (step_failed name err)), advance c, w)
                 | other \<Rightarrow>
                     (Done (Inl (NondeterministicReplay index name
                        (''<non-step entry: '' @ non_step_label other @ ''>''))), advance c, w)))
      | None \<Rightarrow>
          (case f w of
             (Inr value, w') \<Rightarrow>
               (case tv value of
                  Inl m \<Rightarrow> (Done (Inl (Serde m)), c, w')
                | Inr output \<Rightarrow>
                    (case tr_append J fl (ctx_journal c) (completed t index name output) of
                       (Killed, j') \<Rightarrow> (Killed, c\<lparr>ctx_journal := j'\<rparr>, w')
                     | (Done (Inl e), j') \<Rightarrow> (Done (Inl e), c\<lparr>ctx_journal := j'\<rparr>, w')
                     | (Done (Inr _), j') \<Rightarrow> (Done (Inr value), advance (c\<lparr>ctx_journal := j'\<rparr>), w')))
           | (Inl message, w') \<Rightarrow>
               (case tr_append J fl (ctx_journal c) (failed t index name message) of
                  (Killed, j') \<Rightarrow> (Killed, c\<lparr>ctx_journal := j'\<rparr>, w')
                | (Done (Inl e), j') \<Rightarrow> (Done (Inl e), c\<lparr>ctx_journal := j'\<rparr>, w')
                | (Done (Inr _), j') \<Rightarrow>
                    (Done (Inl (step_failed name message)), advance (c\<lparr>ctx_journal := j'\<rparr>), w'))))"

definition ctx_snapshot ::
  "'j journal_trait \<Rightarrow> ('s \<Rightarrow> string + json) \<Rightarrow> fault \<Rightarrow> timestamp \<Rightarrow> 's \<Rightarrow> 'j durable_context \<Rightarrow>
   (durable_error + unit) outcome \<times> 'j durable_context" where
  "ctx_snapshot J tv fl t state c =
     (case tv state of
        Inl m \<Rightarrow> (Done (Inl (Serde m)), c)
      | Inr value \<Rightarrow>
          (case journal_snapshot J fl (ctx_journal c) t (next_step_id c) value of
             (r, j') \<Rightarrow> (r, c\<lparr>ctx_journal := j'\<rparr>)))"

definition finish :: "'j durable_context \<Rightarrow> 'j" where
  "finish c = ctx_journal c"

definition parse_top_level_turn :: "string \<Rightarrow> nat option" where
  "parse_top_level_turn name =
     (case strip_prefix ''turn-'' name of None \<Rightarrow> None | Some n \<Rightarrow> parse_u64 n)"

definition replayed_turn_count :: "'j durable_context \<Rightarrow> u64" where
  "replayed_turn_count c =
     (let turns = List.map_filter parse_top_level_turn
                    (List.map_filter entry_step_name (replay c))
      in if turns = [] then 0 else of_nat (Max (set turns)) + 1)"

definition has_run_step :: "string \<Rightarrow> 'j durable_context \<Rightarrow> durable_error + bool" where
  "has_run_step name c = Inr (list_ex (\<lambda>e. entry_step_name e = Some name) (replay c))"

subsection \<open>Replay and fresh runs\<close>

lemma advance_sel [simp]:
  "ctx_journal (advance c) = ctx_journal c" "replay (advance c) = replay c"
  "cursor (advance c) = Suc (cursor c)"
  by (simp_all add: advance_def)

lemma step_replay_no_effect:
  "is_replaying c \<Longrightarrow> step J tv fv fl t name f c w = (r, c', w') \<Longrightarrow>
     w' = w \<and> ctx_journal c' = ctx_journal c \<and> replay c' = replay c \<and> r \<noteq> Killed"
  by (auto simp: step_def is_replaying_def vec_get_def Let_def
      split: if_splits entry_kind.splits sum.splits)

lemma step_frame: "step J tv fv fl t name f c w = (r, c', w') \<Longrightarrow> replay c' = replay c"
  by (auto simp: step_def Let_def split: option.splits if_splits entry_kind.splits sum.splits
      prod.splits outcome.splits)

lemma step_fresh_world:
  "\<not> is_replaying c \<Longrightarrow> step J tv fv fl t name f c w = (r, c', w') \<Longrightarrow> w' = snd (f w)"
  by (auto simp: step_def is_replaying_def Let_def split: sum.splits prod.splits outcome.splits)

lemma step_mismatch:
  assumes "vec_get (replay c) (cursor c) = Some e" "entry_step_name e = Some n" "n \<noteq> name"
  shows "step J tv fv fl t name f c w =
    (Done (Inl (NondeterministicReplay (of_nat (cursor c)) name n)), c, w)"
  using assms by (simp add: step_def Let_def)

lemma step_replay_completed:
  assumes "vec_get (replay c) (cursor c) = Some e" "je_kind e = StepCompleted name v" "fv v = Inr x"
  shows "step J tv fv fl t name f c w = (Done (Inr x), advance c, w)"
  using assms by (simp add: step_def Let_def entry_step_name_def)

lemma step_replay_failed:
  assumes "vec_get (replay c) (cursor c) = Some e" "je_kind e = StepFailed name m"
  shows "step J tv fv fl t name f c w = (Done (Inl (StepError name m)), advance c, w)"
  using assms by (simp add: step_def Let_def entry_step_name_def step_failed_def)

end
