(* ===== verification/Sample_Codec.thy ===== *)
theory Sample_Codec
  imports File_Journal
begin

section \<open>A concrete row codec\<close>

text \<open>
  The JSON encoder is a parameter of the file journal. To evaluate the development on concrete
  journals, \<open>table_codec\<close> encodes a finite table of rows; \<open>table_codec_ok\<close> shows that it meets
  the assumptions made of the encoder, so that they are satisfiable.
\<close>

definition table_codec :: "(journal_entry \<times> string) list \<Rightarrow> codec" where
  "table_codec tbl =
     \<lparr>to_string = map_of tbl,
      from_str = (\<lambda>l. case map_of (map (\<lambda>(e, t). (t, e)) tbl) l of
                        None \<Rightarrow> Inl ''expected value''
                      | Some e \<Rightarrow> Inr e)\<rparr>"

definition row_text :: "string \<Rightarrow> bool" where
  "row_text l \<longleftrightarrow> 2 \<le> length l \<and> hd l = CHR ''{'' \<and> last l = CHR ''}'' \<and>
     list_all (\<lambda>c. 32 \<le> (of_char c :: nat) \<and> (of_char c :: nat) < 128 \<and> c \<noteq> CHR ''{'' \<and> c \<noteq> CHR ''}'')
       (butlast (tl l))"

definition table_ok :: "(journal_entry \<times> string) list \<Rightarrow> bool" where
  "table_ok tbl \<longleftrightarrow> distinct (map snd tbl) \<and> list_all row_text (map snd tbl)"

lemma row_textE:
  assumes "row_text l"
  obtains b where "l = CHR ''{'' # b @ [CHR ''}'']" "CHR ''{'' \<notin> set b" "CHR ''}'' \<notin> set b"
    "nl \<notin> set b" "\<forall>c \<in> set b. (of_char c :: nat) < 128"
proof -
  obtain c r where l: "l = c # r" "r \<noteq> []" using assms by (cases l) (auto simp: row_text_def Suc_le_eq)
  then have r: "r = butlast r @ [last r]" by simp
  have h: "hd l = CHR ''{''" "last l = CHR ''}''"
    and a: "\<forall>c \<in> set (butlast r). 32 \<le> (of_char c :: nat) \<and> (of_char c :: nat) < 128 \<and>
      c \<noteq> CHR ''{'' \<and> c \<noteq> CHR ''}''"
    using assms l by (auto simp: row_text_def list_all_iff)
  have "(of_char nl :: nat) = 10" by (simp add: nl_def)
  then have "nl \<notin> set (butlast r)" using a by fastforce
  moreover have "l = CHR ''{'' # butlast r @ [CHR ''}'']" using l h r by (metis last_ConsR list.sel(1))
  ultimately show thesis using that[of "butlast r"] a by blast
qed

lemma utf8_ascii: "\<forall>c \<in> set l. (of_char c :: nat) < 128 \<Longrightarrow> utf8_valid l"
  unfolding utf8_valid_def by (induction l) auto

lemma row_text_take: "row_text l \<Longrightarrow> n < length l \<Longrightarrow> \<not> row_text (take n l)"
proof
  assume l: "row_text l" "n < length l" and t: "row_text (take n l)"
  obtain b where b: "l = CHR ''{'' # b @ [CHR ''}'']" "CHR ''}'' \<notin> set b" using l(1) by (rule row_textE)
  from t have "CHR ''}'' \<in> set (take n l)" by (elim row_textE) auto
  moreover have "take n l = take n (CHR ''{'' # b)" using b l(2) by (cases n) auto
  ultimately have "CHR ''}'' \<in> set (CHR ''{'' # b)" by (metis in_set_takeD)
  with b(2) show False by simp
qed

lemma row_text_glued: "row_text l \<Longrightarrow> f \<noteq> [] \<Longrightarrow> \<not> row_text (f @ l)"
proof
  assume l: "row_text l" "f \<noteq> []" and t: "row_text (f @ l)"
  from t obtain b where b: "f @ l = CHR ''{'' # b @ [CHR ''}'']" "CHR ''{'' \<notin> set b" by (rule row_textE)
  from l(1) obtain b' where "l = CHR ''{'' # b' @ [CHR ''}'']" by (rule row_textE)
  with b(1) l(2) have "CHR ''{'' \<in> set (b @ [CHR ''}''])"
    by (cases f) auto
  with b(2) show False by simp
qed

lemma table_codec_ok:
  assumes "table_ok tbl"
  shows "codec_ok (table_codec tbl)"
proof -
  let ?inv = "map (\<lambda>(e, t). (t, e)) tbl"
  have d: "distinct (map fst ?inv)" using assms by (simp add: table_ok_def comp_def case_prod_beta)
  have no: "isl (from_str (table_codec tbl) t)" if "\<not> row_text t" for t
  proof -
    have "t \<notin> snd ` set tbl" using assms that by (auto simp: table_ok_def list_all_iff)
    then have "map_of ?inv t = None" by (force simp: map_of_eq_None_iff)
    then show ?thesis by (simp add: table_codec_def)
  qed
  show ?thesis unfolding codec_ok_def
  proof (intro allI impI)
    fix e l assume "to_string (table_codec tbl) e = Some l"
    then have el: "(e, l) \<in> set tbl" by (simp add: table_codec_def map_of_SomeD)
    then have l: "row_text l" using assms by (auto simp: table_ok_def list_all_iff)
    have "map_of ?inv l = Some e" using el by (intro map_of_is_SomeI[OF d]) force
    then have f: "from_str (table_codec tbl) l = Inr e" by (simp add: table_codec_def)
    obtain b where b: "l = CHR ''{'' # b @ [CHR ''}'']" "nl \<notin> set b"
      "\<forall>c \<in> set b. (of_char c :: nat) < 128" using l by (rule row_textE)
    then have "utf8_valid l" by (intro utf8_ascii) auto
    moreover have "nl \<notin> set l" using b by (auto simp: nl_def)
    moreover have "\<forall>n < length l. isl (from_str (table_codec tbl) (take n l))"
      using row_text_take[OF l] no by blast
    moreover have "\<forall>f. f \<noteq> [] \<longrightarrow> hd f = CHR ''{'' \<longrightarrow> isl (from_str (table_codec tbl) (f @ l))"
      using row_text_glued[OF l] no by blast
    ultimately show "from_str (table_codec tbl) l = Inr e \<and> l \<noteq> [] \<and> hd l = CHR ''{'' \<and>
        last l = CHR ''}'' \<and> nl \<notin> set l \<and> utf8_valid l \<and>
        (\<forall>n < length l. isl (from_str (table_codec tbl) (take n l))) \<and>
        (\<forall>f. f \<noteq> [] \<longrightarrow> hd f = CHR ''{'' \<longrightarrow> isl (from_str (table_codec tbl) (f @ l)))"
      using f b(1) by simp
  qed
qed

subsection \<open>A codec of every marker row\<close>

text \<open>
  \<open>pack\<close> writes a list of byte strings as hexadecimal fields, each ended by a comma. With it,
  \<open>text_codec\<close> encodes every marker row whose payload is a JSON string, at any position and
  time.
\<close>

definition hex_string :: "string \<Rightarrow> string" where
  "hex_string s = concat (map hex_byte s)"

definition hex_value :: "char \<Rightarrow> nat option" where
  "hex_value c =
     (if is_digit c then Some (of_char c - 48)
      else if 97 \<le> (of_char c :: nat) \<and> (of_char c :: nat) \<le> 102 then Some (of_char c - 87)
      else None)"

fun unhex :: "string \<Rightarrow> string option" where
  "unhex [] = Some []"
| "unhex [c] = None"
| "unhex (c # d # s) =
     (case (hex_value c, hex_value d, unhex s) of
        (Some m, Some n, Some r) \<Rightarrow> Some (char_of (16 * m + n) # r)
      | _ \<Rightarrow> None)"

definition pack :: "string list \<Rightarrow> string" where
  "pack ws = concat (map (\<lambda>w. hex_string w @ '','') ws)"

fun unpack :: "string \<Rightarrow> string \<Rightarrow> string list option" where
  "unpack cur [] = (if cur = [] then Some [] else None)"
| "unpack cur (c # s) =
     (if c = CHR '','' then (case unhex cur of None \<Rightarrow> None | Some w \<Rightarrow> map_option ((#) w) (unpack [] s))
      else unpack (cur @ [c]) s)"

lemma hex_value_digit: "n < 16 \<Longrightarrow> hex_value (hex_digit n) = Some n"
  by (auto simp: hex_value_def hex_digit_def is_digit_def)

lemma unhex_hex_string: "unhex (hex_string s) = Some s"
proof (induction s)
  case Nil
  then show ?case by (simp add: hex_string_def)
next
  case (Cons c s)
  have "of_char c < (256 :: nat)" by simp
  then have "of_char c div 16 < (16 :: nat)" by linarith
  moreover have "of_char c mod 16 < (16 :: nat)" by simp
  ultimately show ?case using Cons
    by (simp add: hex_string_def hex_byte_def hex_value_digit)
qed

definition plain_char :: "char \<Rightarrow> bool" where
  "plain_char c \<longleftrightarrow> 32 \<le> (of_char c :: nat) \<and> (of_char c :: nat) < 128 \<and> c \<noteq> CHR ''{'' \<and> c \<noteq> CHR ''}''"

lemma hex_digit_plain: "n < 16 \<Longrightarrow> plain_char (hex_digit n) \<and> hex_digit n \<noteq> CHR '',''"
proof -
  assume n: "n < 16"
  have "(of_char (hex_digit n) :: nat) = (if n < 10 then 48 + n else 87 + n)"
    using n by (simp add: hex_digit_def)
  moreover have "(of_char CHR ''{'' :: nat) = 123" "(of_char CHR ''}'' :: nat) = 125"
    "(of_char CHR '','' :: nat) = 44" by simp_all
  ultimately show ?thesis using n unfolding plain_char_def by (auto split: if_splits)
qed

lemma hex_string_plain: "list_all (\<lambda>c. plain_char c \<and> c \<noteq> CHR '','') (hex_string s)"
proof (induction s)
  case Nil
  then show ?case by (simp add: hex_string_def)
next
  case (Cons c s)
  have "of_char c < (256 :: nat)" by simp
  then have "of_char c div 16 < (16 :: nat)" by linarith
  moreover have "of_char c mod 16 < (16 :: nat)" by simp
  ultimately show ?case using Cons hex_digit_plain
    by (simp add: hex_string_def hex_byte_def)
qed

lemma pack_plain: "list_all plain_char (pack ws)"
proof -
  have "plain_char CHR '',''" by (simp add: plain_char_def)
  then show ?thesis using hex_string_plain
    by (induction ws) (auto simp: pack_def list_all_iff)
qed

lemma unpack_field:
  "CHR '','' \<notin> set h \<Longrightarrow> unpack cur (h @ CHR '','' # s) =
     (case unhex (cur @ h) of None \<Rightarrow> None | Some w \<Rightarrow> map_option ((#) w) (unpack [] s))"
  by (induction h arbitrary: cur) auto

lemma unpack_pack: "unpack [] (pack ws) = Some ws"
proof (induction ws)
  case Nil
  then show ?case by (simp add: pack_def)
next
  case (Cons w ws)
  have "CHR '','' \<notin> set (hex_string w)"
    using hex_string_plain[of w] by (auto simp: list_all_iff)
  with Cons show ?case
    by (simp add: pack_def unpack_field unhex_hex_string)
qed

text \<open>Numbers as fields.\<close>

definition nat_of_text :: "string \<Rightarrow> nat option" where
  "nat_of_text s = (if s = [] then None else digits_value 0 s)"

definition int_of_text :: "string \<Rightarrow> int option" where
  "int_of_text s =
     (case s of
        c # r \<Rightarrow> if c = CHR ''-'' then map_option (\<lambda>n. - int n) (nat_of_text r) else map_option int (nat_of_text s)
      | [] \<Rightarrow> None)"

lemma nat_of_text_show: "nat_of_text (show_nat n) = Some n"
  by (simp add: nat_of_text_def digits_value_show_nat)

lemma int_of_text_show: "int_of_text (show_int i) = Some i"
proof (cases "i < 0")
  case True
  then show ?thesis by (simp add: int_of_text_def show_int_def nat_of_text_show)
next
  case False
  obtain c r where s: "show_nat (nat i) = c # r" by (cases "show_nat (nat i)") auto
  then have "is_digit c" by (rule hd_show_nat)
  then have "c \<noteq> CHR ''-''" by (auto simp: is_digit_def)
  with s False show ?thesis
    by (simp add: int_of_text_def show_int_def nat_of_text_show[of "nat i", unfolded s])
qed

definition text_row :: "journal_entry \<Rightarrow> string option" where
  "text_row e =
     (case je_kind e of
        Marker name (JStr s) \<Rightarrow>
          Some (CHR ''{'' # pack [show_nat (unat (je_step_id e)), show_int (je_timestamp e), name, s] @ [CHR ''}''])
      | _ \<Rightarrow> None)"

definition text_parse :: "string \<Rightarrow> string + journal_entry" where
  "text_parse l =
     (if \<not> row_text l then Inl ''expected value''
      else case unpack [] (butlast (tl l)) of
             Some [i, t, name, s] \<Rightarrow>
               (case (nat_of_text i, int_of_text t) of
                  (Some n, Some k) \<Rightarrow> Inr (marker k (of_nat n) name (JStr s))
                | _ \<Rightarrow> Inl ''expected value'')
           | _ \<Rightarrow> Inl ''expected value'')"

definition text_codec :: codec where
  "text_codec = \<lparr>to_string = text_row, from_str = text_parse\<rparr>"

lemma row_text_pack: "row_text (CHR ''{'' # pack ws @ [CHR ''}''])"
  using pack_plain[of ws] by (auto simp: row_text_def plain_char_def list_all_iff butlast_append)

lemma text_row_marker:
  "text_row (marker k i name (JStr s)) =
     Some (CHR ''{'' # pack [show_nat (unat i), show_int k, name, s] @ [CHR ''}''])"
  by (simp add: text_row_def marker_def entry_new_def)

lemma text_parse_row: "text_row e = Some l \<Longrightarrow> row_text l \<and> text_parse l = Inr e"
proof -
  assume r: "text_row e = Some l"
  then obtain name s where k: "je_kind e = Marker name (JStr s)"
    by (auto simp: text_row_def split: entry_kind.splits json.splits)
  let ?ws = "[show_nat (unat (je_step_id e)), show_int (je_timestamp e), name, s]"
  have l: "l = CHR ''{'' # pack ?ws @ [CHR ''}'']" using r k by (simp add: text_row_def)
  have e: "marker (je_timestamp e) (je_step_id e) name (JStr s) = e"
    using k by (simp add: marker_def entry_new_def)
  have "text_parse l = Inr (marker (je_timestamp e) (je_step_id e) name (JStr s))"
    using row_text_pack[of ?ws]
    by (simp add: l text_parse_def butlast_append unpack_pack nat_of_text_show int_of_text_show)
  then show ?thesis using row_text_pack[of ?ws] by (simp add: l e)
qed

lemma text_codec_ok: "codec_ok text_codec"
proof -
  have no: "isl (from_str text_codec t)" if "\<not> row_text t" for t
    using that by (simp add: text_codec_def text_parse_def)
  show ?thesis unfolding codec_ok_def
  proof (intro allI impI)
    fix e l assume "to_string text_codec e = Some l"
    then have l: "row_text l" "from_str text_codec l = Inr e"
      using text_parse_row[of e l] by (auto simp: text_codec_def)
    obtain b where b: "l = CHR ''{'' # b @ [CHR ''}'']" "nl \<notin> set b"
      "\<forall>c \<in> set b. (of_char c :: nat) < 128" using l(1) by (rule row_textE)
    then have "utf8_valid l" by (intro utf8_ascii) auto
    moreover have "nl \<notin> set l" using b by (auto simp: nl_def)
    ultimately show "from_str text_codec l = Inr e \<and> l \<noteq> [] \<and> hd l = CHR ''{'' \<and>
        last l = CHR ''}'' \<and> nl \<notin> set l \<and> utf8_valid l \<and>
        (\<forall>n < length l. isl (from_str text_codec (take n l))) \<and>
        (\<forall>f. f \<noteq> [] \<longrightarrow> hd f = CHR ''{'' \<longrightarrow> isl (from_str text_codec (f @ l)))"
      using l b(1) row_text_take[OF l(1)] row_text_glued[OF l(1)] no by auto
  qed
qed

end
