(* ===== verification/Journal_Guarantees.thy ===== *)
theory Journal_Guarantees
  imports Sample_Codec
begin

section \<open>What the file journal guarantees\<close>

text \<open>
  The properties of \<^verbatim>\<open>FileJournal\<close>: recovery after a torn append, corruption that is reported and
  never dropped, opening that touches nothing but the unfinished tail, compaction that is atomic,
  and what a failed write inside one process does to the file.
\<close>

definition sample_row :: journal_entry where
  "sample_row = marker 7 0 ''m'' JNull"

definition sample_row2 :: journal_entry where
  "sample_row2 = marker 8 1 ''n'' JNull"

definition sample_codec :: codec where
  "sample_codec = table_codec [(sample_row, ''{0:m}''), (sample_row2, ''{1:n}'')]"

lemma sample_codec_ok: "codec_ok sample_codec"
  unfolding sample_codec_def
  by (rule table_codec_ok) (simp add: table_ok_def row_text_def)

lemma sample_row_neq: "sample_row2 \<noteq> sample_row"
  by (simp add: sample_row_def sample_row2_def entry_defs)

lemma sample_to_string [simp]:
  "to_string sample_codec sample_row = Some ''{0:m}''"
  "to_string sample_codec sample_row2 = Some ''{1:n}''"
  by (simp_all add: sample_codec_def table_codec_def sample_row_neq)

abbreviation sample_fs :: fs where
  "sample_fs \<equiv> file_open sample_codec (\<lambda>_. None) ''j''"

lemma sample_fs_inv: "file_inv sample_codec ''j'' sample_fs"
  "file_rows sample_codec ''j'' sample_fs = []"
  using file_open_missing[OF sample_codec_ok, of "\<lambda>_. None" "''j''"] by auto

lemma sample_fs_eq: "sample_fs = [''j'' \<mapsto> []]"
  by (simp add: file_open_simp)

subsection \<open>A torn append\<close>

text \<open>C14: whatever happens to one append (it works, the write fails after any number of bytes, the
  process dies after any number of bytes), opening the journal again gives a well-formed file whose
  rows are the old ones, or the old ones and the new row; a reported success is never lost.\<close>

theorem append_crash_recovery:
  assumes "file_inv C p d" "file_append C p fl d e = (r, d')"
  shows "file_inv C p (file_open C d' p) \<and>
    (file_rows C p (file_open C d' p) = file_rows C p d \<or>
     file_rows C p (file_open C d' p) = file_rows C p d @ [e]) \<and>
    (r = Done (Inr ()) \<longrightarrow> file_rows C p (file_open C d' p) = file_rows C p d @ [e])"
  using filec.crash_append[of C p d fl e r d'] filec.append_success[of C p d fl e d']
    filec.reopen_id[of C p d'] assms by auto

theorem append_crash_recovery_witness:
  "file_rows sample_codec ''j''
     (file_open sample_codec (snd (file_append sample_codec ''j'' (Kill 3) sample_fs sample_row)) ''j'')
   \<in> {[], [sample_row]}"
  using append_crash_recovery[OF sample_fs_inv(1), of "Kill 3" sample_row] sample_fs_inv(2)
  by (metis append_Nil insertCI prod.collapse)

text \<open>C15: once an append has reported success, no sequence of further appends, write errors,
  process deaths and reopenings makes the row disappear: a later read either fails as a whole or
  shows the row.\<close>

theorem reported_rows_survive:
  assumes "file_wf C p d" "file_append C p fl d e = (Done (Inr ()), d1)"
    and "read_all_entries C p (run_journal_ops (file_journal C p) (\<lambda>d. file_open C d p) d1 ops) = Inr es"
  shows "e \<in> set es"
  using filerec.recorded_forever[of C p d fl e d1 ops es] assms by simp

lemma sample_fs_wf: "file_wf sample_codec ''j'' sample_fs"
  by (simp add: file_wf_def sample_codec_ok sample_fs_eq after_last_nl_def)

lemma sample_run:
  "read_all_entries sample_codec ''j''
     (run_journal_ops (file_journal sample_codec ''j'') (\<lambda>d. file_open sample_codec d ''j'')
       [''j'' \<mapsto> ''{0:m}'' @ [nl]] [OpAppend (Kill 2) sample_row2, OpReopen]) = Inr [sample_row]"
proof -
  have h: "heal_content sample_codec ((''{0:m}'' @ [nl]) @ take 2 (''{1:n}'' @ [nl])) = ''{0:m}'' @ [nl]"
    using heal_row_fragment[OF sample_codec_ok sample_to_string(2), of "''{0:m}'' @ [nl]" 2]
    by (simp add: clean_def)
  have "parse_content sample_codec ([] @ ''{0:m}'' @ [nl]) = Inr ([] @ [sample_row])"
    by (rule parse_content_append_row[OF sample_codec_ok sample_to_string(1)])
      (simp_all add: parse_content_def buf_lines_def)
  with h show ?thesis
    by (simp add: file_append_def fs_append_def fs_content_def file_open_simp)
qed

theorem reported_rows_survive_witness:
  "\<exists>es. read_all_entries sample_codec ''j''
     (run_journal_ops (file_journal sample_codec ''j'') (\<lambda>d. file_open sample_codec d ''j'')
       [''j'' \<mapsto> ''{0:m}'' @ [nl]] [OpAppend (Kill 2) sample_row2, OpReopen]) = Inr es \<and>
   sample_row \<in> set es"
proof -
  have "file_append sample_codec ''j'' NoFault sample_fs sample_row =
      (Done (Inr ()), [''j'' \<mapsto> ''{0:m}'' @ [nl]])"
    by (simp add: file_append_def sample_fs_eq fs_append_def fs_content_def)
  from reported_rows_survive[OF sample_fs_wf this sample_run] sample_run show ?thesis by blast
qed

subsection \<open>Corruption\<close>

lemma serialize_rows_parse:
  assumes "codec_ok C" "serialize_rows C es = Some buf"
  shows "clean buf \<and> length (buf_lines buf) = length es \<and> parse_content C buf = Inr es"
proof -
  have "clean buf \<and> length (buf_lines buf) = length es \<and>
      list_all utf8_valid (buf_lines buf) \<and> (\<forall>n. parse_loop C True n (buf_lines buf) = Inr es)"
    using assms(2)
  proof (induction es arbitrary: buf)
    case Nil
    then show ?case by (simp add: buf_lines_def)
  next
    case (Cons e es)
    then obtain l b where l: "to_string C e = Some l" and b: "serialize_rows C es = Some b"
      and buf: "buf = l @ nl # b" by (auto split: option.splits)
    note IH = Cons.IH[OF b]
    have "\<not> str_blank l" by (rule brace_not_blank[OF codec_line(2,3)[OF assms(1) l]])
    moreover have "clean buf" using IH buf by (auto simp: clean_def)
    ultimately show ?case
      using IH codec_line(1,6)[OF assms(1) l] by (simp add: buf buf_lines_row[OF assms(1) l])
  qed
  then show ?thesis by (auto simp: parse_content_def clean_def)
qed

text \<open>A line that is not a row is reported with its line number when the file goes on after it
  or the line is terminated; the same text is dropped only as the unterminated end of the file.\<close>

theorem corruption_reported_unless_tail:
  assumes "codec_ok C" "serialize_rows C es = Some buf"
    and "nl \<notin> set bad" "\<not> str_blank bad" "utf8_valid bad" "last bad \<noteq> cr" "from_str C bad = Inl msg"
    and "list_all utf8_valid (buf_lines rest)"
  shows "read_all_entries C p [p \<mapsto> buf @ bad @ nl # rest] =
      Inl (CorruptEntry (of_nat (length es) + 1) (''invalid json: '' @ msg)) \<and>
    read_all_entries C p [p \<mapsto> buf @ bad] = Inr es"
proof
  have c: "clean buf" "length (buf_lines buf) = length es" "parse_content C buf = Inr es"
    using serialize_rows_parse[OF assms(1,2)] by auto
  have ne: "bad \<noteq> []" using assms(4) by auto
  have b: "buf_lines (bad @ nl # rest) = bad # buf_lines rest"
    using assms(3,6) by (simp add: buf_lines_def line_content_def)
  have "buf_lines rest \<noteq> [] \<or> clean (bad @ nl # rest)"
    by (cases rest) (auto simp: buf_lines_def clean_def split: list.splits prod.splits)
  then show "read_all_entries C p [p \<mapsto> buf @ bad @ nl # rest] =
      Inl (CorruptEntry (of_nat (length es) + 1) (''invalid json: '' @ msg))"
    using parse_content_clean_append[OF c(1,3), of "bad @ nl # rest"] assms(4,5,7,8) b c(2)
    by (auto simp: corrupt_def add.commute)
  have "\<not> clean bad" using assms(3) ne by (metis clean_def last_in_set)
  then show "read_all_entries C p [p \<mapsto> buf @ bad] = Inr es"
    using parse_content_clean_append[OF c(1,3), of bad] assms(3,4,5,7) ne buf_lines_no_nl[OF assms(3)]
    by simp
qed

theorem corruption_reported_unless_tail_witness:
  "read_all_entries sample_codec ''j'' [''j'' \<mapsto> (''{0:m}'' @ [nl]) @ ''{bad'' @ nl # []] =
     Inl (CorruptEntry 2 ''invalid json: expected value'')"
  using corruption_reported_unless_tail[OF sample_codec_ok, of "[sample_row]" "''{0:m}'' @ [nl]"
      "''{bad''" "''expected value''" "[]" "''j''"]
    not_str_blankI[of "''{bad''" "CHR ''{''" "''bad''"]
  by (simp add: nl_def cr_def utf8_ascii buf_lines_def)
    (simp add: sample_codec_def table_codec_def)

subsection \<open>Opening\<close>

text \<open>Opening keeps every terminated line byte for byte. Only the unfinished tail changes: it is
  kept, terminated (when it is a complete row) or dropped (when it is not), and opening twice is
  opening once.\<close>

theorem open_touches_only_the_tail:
  "(\<exists>t \<in> {[], after_last_nl c, after_last_nl c @ [nl]}.
      file_open C [p \<mapsto> c] p = [p \<mapsto> upto_last_nl c @ t] \<and>
      (t = [] \<longrightarrow> after_last_nl c = [] \<or> isl (from_str C (after_last_nl c)))) \<and>
   file_open C (file_open C d p) p = file_open C d p"
proof
  have "\<exists>t \<in> {[], after_last_nl c, after_last_nl c @ [nl]}. heal_content C c = upto_last_nl c @ t \<and>
      (t = [] \<longrightarrow> after_last_nl c = [] \<or> isl (from_str C (after_last_nl c)))"
    using upto_after_last_nl[of c] upto_last_nl_append[of c "[]"]
    by (auto simp: heal_content_def Let_def clean_def split: sum.splits)
  then show "\<exists>t \<in> {[], after_last_nl c, after_last_nl c @ [nl]}.
      file_open C [p \<mapsto> c] p = [p \<mapsto> upto_last_nl c @ t] \<and>
      (t = [] \<longrightarrow> after_last_nl c = [] \<or> isl (from_str C (after_last_nl c)))"
    by (auto simp: file_open_simp)
  show "file_open C (file_open C d p) p = file_open C d p"
    by (auto simp: file_open_simp heal_idem split: option.splits)
qed

theorem open_touches_only_the_tail_witness:
  "file_open sample_codec [''j'' \<mapsto> ''{0:m}'' @ nl # ''{1:n}''] ''j'' \<in>
     {[''j'' \<mapsto> ''{0:m}'' @ nl # t] | t. t \<in> {[], ''{1:n}'', ''{1:n}'' @ [nl]}}"
proof -
  have "upto_last_nl (''{0:m}'' @ nl # ''{1:n}'') = ''{0:m}'' @ [nl]"
    "after_last_nl (''{0:m}'' @ nl # ''{1:n}'') = ''{1:n}''"
    by (simp_all add: upto_last_nl_def after_last_nl_def nl_def)
  with open_touches_only_the_tail[of "''{0:m}'' @ nl # ''{1:n}''" sample_codec "''j''"]
  show ?thesis by auto
qed

subsection \<open>Compaction\<close>

lemma compaction_frame:
  assumes "file_inv C p d" "tmp \<noteq> p" "compact_with C p tmp sf (d, h) build = (r, d', h')"
  shows "d' p = d p \<or>
      (\<exists>kept. build (file_rows C p d) = Inr kept \<and> file_inv C p d' \<and> file_rows C p d' = kept)"
    and "sf \<noteq> ReopenErr \<Longrightarrow> r \<noteq> Killed \<Longrightarrow> h' = h \<or> h' = AtPath"
    and "sf \<in> {SwapOk, RenameErr} \<union> range TmpErr \<Longrightarrow> r \<noteq> Killed"
    and "r = Done (Inr n) \<Longrightarrow> build (file_rows C p d) = Inr (file_rows C p d') \<and> file_inv C p d' \<and>
      h' = AtPath \<and> n = length (file_rows C p d) - length (file_rows C p d')"
    and "r = Done (Inl e) \<Longrightarrow> sf \<noteq> ReopenErr \<Longrightarrow> d' p = d p \<and> h' = h"
    and "q \<noteq> p \<Longrightarrow> q \<noteq> tmp \<Longrightarrow> d' q = d q"
proof -
  from assms(1) obtain c es where C: "codec_ok C" and d: "d p = Some c" "parse_content C c = Inr es"
    "file_rows C p d = es" by (rule file_invE)
  have cur: "parse_entries_from_path C d p = Inr es" using d by (simp add: parse_entries_from_path_def)
  have "(d' p = d p \<or> (\<exists>kept. build es = Inr kept \<and> file_inv C p d' \<and> file_rows C p d' = kept)) \<and>
    (sf \<noteq> ReopenErr \<longrightarrow> r \<noteq> Killed \<longrightarrow> h' = h \<or> h' = AtPath) \<and>
    (sf \<in> {SwapOk, RenameErr} \<union> range TmpErr \<longrightarrow> r \<noteq> Killed) \<and>
    (r = Done (Inr n) \<longrightarrow> build es = Inr (file_rows C p d') \<and> file_inv C p d' \<and> h' = AtPath \<and>
      n = length es - length (file_rows C p d')) \<and>
    (r = Done (Inl e) \<longrightarrow> sf \<noteq> ReopenErr \<longrightarrow> d' p = d p \<and> h' = h) \<and>
    (q \<noteq> p \<longrightarrow> q \<noteq> tmp \<longrightarrow> d' q = d q)"
  proof (cases "build es")
    case (Inl e)
    with assms(3) cur show ?thesis by (auto simp: compact_with_def)
  next
    case (Inr kept)
    obtain r1 d1 h1 where sw: "atomic_swap_locked C p tmp sf (d, h) kept = (r1, d1, h1)"
      by (rule prod_cases3)
    have r: "d' = d1 \<and> h' = h1 \<and> r = (case r1 of Done (Inl e) \<Rightarrow> Done (Inl e)
        | Done (Inr _) \<Rightarrow> Done (Inr (length es - length kept)) | Killed \<Rightarrow> Killed)"
      using assms(3) cur Inr sw by (auto simp: compact_with_def split: outcome.splits sum.splits)
    show ?thesis
    proof (cases "serialize_rows C kept")
      case None
      with sw r show ?thesis by (auto simp: atomic_swap_locked_def)
    next
      case (Some buf)
      have new: "file_inv C p d1 \<and> file_rows C p d1 = kept" if "d1 p = Some buf"
        using serialize_rows_parse[OF C Some] that C by (intro file_invI) auto
      show ?thesis using sw Some r Inr new assms(2)
        by (cases sf) (auto simp: atomic_swap_locked_def)
    qed
  qed
  with d(3) show "d' p = d p \<or>
      (\<exists>kept. build (file_rows C p d) = Inr kept \<and> file_inv C p d' \<and> file_rows C p d' = kept)"
    and "sf \<noteq> ReopenErr \<Longrightarrow> r \<noteq> Killed \<Longrightarrow> h' = h \<or> h' = AtPath"
    and "sf \<in> {SwapOk, RenameErr} \<union> range TmpErr \<Longrightarrow> r \<noteq> Killed"
    and "r = Done (Inr n) \<Longrightarrow> build (file_rows C p d) = Inr (file_rows C p d') \<and> file_inv C p d' \<and>
      h' = AtPath \<and> n = length (file_rows C p d) - length (file_rows C p d')"
    and "r = Done (Inl e) \<Longrightarrow> sf \<noteq> ReopenErr \<Longrightarrow> d' p = d p \<and> h' = h"
    and "q \<noteq> p \<Longrightarrow> q \<noteq> tmp \<Longrightarrow> d' q = d q" by simp_all
qed

text \<open>C27: compaction is atomic. Whatever fails and wherever the process dies, the live file is the old
  one or holds exactly the rows the caller kept, and no file but the live and the temporary one
  changes; success means the kept rows are in place, the handle writes to them, and gives the number
  of dropped rows; an error means the live file and the handle are unchanged, except when reopening
  the handle after the rename fails.\<close>

theorem compaction_atomic:
  assumes "file_inv C p d" "tmp \<noteq> p" "compact_with C p tmp sf (d, h) build = (r, d', h')"
  shows "(d' p = d p \<or>
      (\<exists>kept. build (file_rows C p d) = Inr kept \<and> file_inv C p d' \<and> file_rows C p d' = kept)) \<and>
    (\<forall>n. r = Done (Inr n) \<longrightarrow>
      build (file_rows C p d) = Inr (file_rows C p d') \<and> file_inv C p d' \<and> h' = AtPath \<and>
      n = length (file_rows C p d) - length (file_rows C p d')) \<and>
    (\<forall>e. r = Done (Inl e) \<and> sf \<noteq> ReopenErr \<longrightarrow> d' p = d p \<and> h' = h) \<and>
    (\<forall>q. q \<noteq> p \<and> q \<noteq> tmp \<longrightarrow> d' q = d q)"
  using compaction_frame[OF assms] by blast

theorem compaction_atomic_witness:
  "\<exists>d'. compact_with sample_codec ''j'' ''j.tmp'' SwapOk (sample_fs, AtPath)
       (\<lambda>es. Inr (es @ [sample_row])) = (Done (Inr 0), d', AtPath) \<and>
     file_rows sample_codec ''j'' d' = [sample_row]"
proof -
  let ?r = "compact_with sample_codec ''j'' ''j.tmp'' SwapOk (sample_fs, AtPath) (\<lambda>es. Inr (es @ [sample_row]))"
  have "fst ?r = Done (Inr 0)"
    by (simp add: compact_with_def sample_fs_eq parse_entries_from_path_def parse_content_def
        buf_lines_def atomic_swap_locked_def)
  then obtain d' h' where d': "?r = (Done (Inr 0), d', h')" by (cases ?r) auto
  from compaction_atomic[OF sample_fs_inv(1) _ this] sample_fs_inv(2)
  have "h' = AtPath \<and> file_rows sample_codec ''j'' d' = [sample_row]" by auto
  with d' show ?thesis by blast
qed

text \<open>The error of the last step of a compaction comes after the rename, although the
  documentation of \<^verbatim>\<open>rewrite\<close> and \<^verbatim>\<open>compact_with\<close> says that on error the live file is left
  unchanged: the caller sees an error, the live file has been replaced, and the journal's handle
  writes to the unlinked old file, so that every later append of the process reports success and
  no reader, in this process or after opening again, ever sees its row.\<close>

theorem reopen_error_loses_appends:
  assumes "serialize_rows C kept = Some buf" "to_string C e = Some l" "tmp \<noteq> p"
  shows "\<exists>d1 h1 d2 h2.
    rewrite C p tmp ReopenErr (d, AtPath) kept = (Done (Inl (Io ''reopen'')), d1, h1) \<and>
    d1 p = Some buf \<and>
    handle_append C p NoFault (d1, h1) e = (Done (Inr ()), d2, h2) \<and>
    d2 p = Some buf \<and> read_all_entries C p d2 = read_all_entries C p d1"
  using assms by (simp add: rewrite_def atomic_swap_locked_def file_append_def)

theorem reopen_error_loses_appends_witness:
  "\<exists>d2 h2. handle_append sample_codec ''j'' NoFault
      (snd (rewrite sample_codec ''j'' ''j.tmp'' ReopenErr (sample_fs, AtPath) [])) sample_row =
    (Done (Inr ()), d2, h2) \<and> d2 ''j'' = Some []"
  using reopen_error_loses_appends[of sample_codec "[]" "[]" sample_row "''{0:m}''" "''j.tmp''" "''j''"
      sample_fs] by auto

subsection \<open>A failed write in a process that goes on\<close>

text \<open>Opening removes a torn row, a running process does not. When a write fails after some bytes
  of a row and the process goes on, the next append reports success and from then on the journal
  cannot be read, in this process or after opening it again.\<close>

theorem append_after_failed_write_unreadable:
  assumes "file_inv C p d" "to_string C e1 = Some l1" "to_string C e2 = Some l2"
    and "0 < n" "n < length l1" "utf8_valid (take n l1 @ l2)"
  shows "\<exists>d1 d2. file_append C p (WriteErr n) d e1 = (Done (Inl (Io ''write'')), d1) \<and>
    file_append C p NoFault d1 e2 = (Done (Inr ()), d2) \<and>
    isl (read_all_entries C p d2) \<and> file_open C d2 p = d2"
proof -
  from assms(1) obtain c es where C: "codec_ok C" and d: "d p = Some c" "clean c"
    "parse_content C c = Inr es" by (rule file_invE)
  define b where "b = take n l1 @ l2"
  let ?d2 = "d(p \<mapsto> c @ b @ [nl])"
  have f: "take n l1 \<noteq> []" "hd (take n l1) = CHR ''{''"
    using assms(4,5) codec_line(2,3)[OF C assms(2)] by auto
  have nb: "nl \<notin> set b" using codec_line(5)[OF C assms(2)] codec_line(5)[OF C assms(3)]
    by (auto simp: b_def dest: in_set_takeD)
  have bad: "isl (from_str C b)" unfolding b_def by (rule codec_line(8)[OF C assms(3) f])
  have "last b \<noteq> cr" using codec_line(2,4)[OF C assms(3)] by (simp add: b_def cr_def)
  then have bl: "buf_lines (b @ [nl]) = [b]" using raw_lines_line[OF nb, of "[]"]
    by (simp add: buf_lines_def line_content_def)
  have "\<not> str_blank b" using f unfolding b_def by (intro brace_not_blank) auto
  then have "isl (parse_content C (c @ b @ [nl]))"
    using parse_content_clean_append[OF d(2,3), of "b @ [nl]"] bl assms(6) bad
    by (auto simp: b_def[symmetric] split: sum.splits)
  then have "isl (read_all_entries C p ?d2)" by simp
  moreover have "file_append C p (WriteErr n) d e1 = (Done (Inl (Io ''write'')), d(p \<mapsto> c @ take n l1))"
    using assms(2,5) d(1) by (simp add: file_append_def fs_append_def fs_content_def)
  moreover have "file_append C p NoFault (d(p \<mapsto> c @ take n l1)) e2 = (Done (Inr ()), ?d2)"
    using assms(3) by (simp add: file_append_def fs_append_def fs_content_def b_def)
  moreover have "heal_content C (c @ b @ [nl]) = c @ b @ [nl]" by (rule heal_clean) simp
  then have "file_open C ?d2 p = ?d2" by (simp add: file_open_simp)
  ultimately show ?thesis by blast
qed

theorem append_after_failed_write_unreadable_witness:
  "\<exists>d2. file_append sample_codec ''j'' NoFault
      (snd (file_append sample_codec ''j'' (WriteErr 2) sample_fs sample_row)) sample_row2 =
      (Done (Inr ()), d2) \<and> isl (read_all_entries sample_codec ''j'' d2)"
  using append_after_failed_write_unreadable[OF sample_fs_inv(1) sample_to_string, of 2]
  by (auto simp: utf8_ascii)

end
