(* ===== verification/Durable_Execution.thy ===== *)
theory Durable_Execution
  imports Context Journal_Guarantees
begin

section \<open>Durable execution: what replay promises\<close>

text \<open>
  The abstract specification of the durable substrate. A \<open>workflow\<close> is any program whose
  durable work is a tree of named steps; \<open>direct\<close> is its meaning with no journal at all,
  \<open>run_workflow\<close> runs it through \<^verbatim>\<open>DurableContext::step\<close>, \<open>lives\<close> runs it through any number of
  process lives with any faults. The lemmas show the contract of
  \<^verbatim>\<open>crates/familyclaw-durable/src/lib.rs\<close>: recorded steps are answered from the log and never
  run again, and the log only grows along the program.
\<close>

datatype ('a, 'w) workflow =
    Finish
  | Step string "'w \<Rightarrow> (string + 'a) \<times> 'w" "string + 'a \<Rightarrow> ('a, 'w) workflow"

type_synonym step_env = "fault \<times> timestamp"

definition env_now :: "step_env list \<Rightarrow> step_env" where
  "env_now env = (case env of [] \<Rightarrow> (NoFault, 0) | x # _ \<Rightarrow> x)"

primrec direct :: "('a, 'w) workflow \<Rightarrow> 'w \<Rightarrow> (string + 'a) list \<times> 'w" where
  "direct Finish w = ([], w)"
| "direct (Step n f k) w =
     (case f w of (r, w1) \<Rightarrow> (case direct (k r) w1 of (rs, w2) \<Rightarrow> (r # rs, w2)))"

text \<open>
  The program sees the answer of a step; any other error of the context ends the life.
\<close>

primrec run_workflow ::
  "'j journal_trait \<Rightarrow> ('a \<Rightarrow> string + json) \<Rightarrow> (json \<Rightarrow> string + 'a) \<Rightarrow> ('a, 'w) workflow \<Rightarrow>
   step_env list \<Rightarrow> 'j durable_context \<Rightarrow> 'w \<Rightarrow>
   (durable_error + (string + 'a) list) outcome \<times> 'j durable_context \<times> 'w" where
  "run_workflow J tv fv Finish env c w = (Done (Inr []), c, w)"
| "run_workflow J tv fv (Step n f k) env c w =
     (case step J tv fv (fst (env_now env)) (snd (env_now env)) n f c w of
        (Killed, c1, w1) \<Rightarrow> (Killed, c1, w1)
      | (Done (Inr x), c1, w1) \<Rightarrow>
          (case run_workflow J tv fv (k (Inr x)) (tl env) c1 w1 of
             (Done (Inr rs), c2, w2) \<Rightarrow> (Done (Inr (Inr x # rs)), c2, w2)
           | (Done (Inl e), c2, w2) \<Rightarrow> (Done (Inl e), c2, w2)
           | (Killed, c2, w2) \<Rightarrow> (Killed, c2, w2))
      | (Done (Inl e), c1, w1) \<Rightarrow>
          (case e of
             StepError _ m \<Rightarrow>
               (case run_workflow J tv fv (k (Inl m)) (tl env) c1 w1 of
                  (Done (Inr rs), c2, w2) \<Rightarrow> (Done (Inr (Inl m # rs)), c2, w2)
                | (Done (Inl e'), c2, w2) \<Rightarrow> (Done (Inl e'), c2, w2)
                | (Killed, c2, w2) \<Rightarrow> (Killed, c2, w2))
           | _ \<Rightarrow> (Done (Inl e), c1, w1)))"

text \<open>
  \<open>follow\<close> reads a log of step rows along a program: the answers it holds, and what of the
  program is left.
\<close>

fun follow ::
  "(json \<Rightarrow> string + 'a) \<Rightarrow> ('a, 'w) workflow \<Rightarrow> journal_entry list \<Rightarrow>
   ((string + 'a) list \<times> ('a, 'w) workflow) option" where
  "follow fv prog [] = Some ([], prog)"
| "follow fv Finish (e # es) = None"
| "follow fv (Step n f k) (e # es) =
     (case je_kind e of
        StepCompleted m v \<Rightarrow>
          (if m = n
           then (case fv v of
                   Inl _ \<Rightarrow> None
                 | Inr x \<Rightarrow> (case follow fv (k (Inr x)) es of
                              None \<Rightarrow> None
                            | Some (rs, rest) \<Rightarrow> Some (Inr x # rs, rest)))
           else None)
      | StepFailed m err \<Rightarrow>
          (if m = n
           then (case follow fv (k (Inl err)) es of
                   None \<Rightarrow> None
                 | Some (rs, rest) \<Rightarrow> Some (Inl err # rs, rest))
           else None)
      | _ \<Rightarrow> None)"

abbreviation step_rows :: "journal_entry list \<Rightarrow> journal_entry list" where
  "step_rows es \<equiv> filter (\<lambda>e. is_step (je_kind e)) es"

text \<open>The rows a fault-free run appends.\<close>

definition answer_row ::
  "('a \<Rightarrow> string + json) \<Rightarrow> timestamp \<Rightarrow> nat \<Rightarrow> string \<Rightarrow> string + 'a \<Rightarrow> journal_entry" where
  "answer_row tv t i n r =
     (case r of
        Inr x \<Rightarrow> completed t (of_nat i) n (case tv x of Inr v \<Rightarrow> v | Inl _ \<Rightarrow> JNull)
      | Inl m \<Rightarrow> failed t (of_nat i) n m)"

primrec workflow_rows ::
  "('a \<Rightarrow> string + json) \<Rightarrow> ('a, 'w) workflow \<Rightarrow> step_env list \<Rightarrow> nat \<Rightarrow> 'w \<Rightarrow> journal_entry list" where
  "workflow_rows tv Finish env i w = []"
| "workflow_rows tv (Step n f k) env i w =
     (case f w of (r, w1) \<Rightarrow>
        answer_row tv (snd (env_now env)) i n r # workflow_rows tv (k r) (tl env) (Suc i) w1)"

primrec lives ::
  "'j journal_trait \<Rightarrow> ('j \<Rightarrow> 'j) \<Rightarrow> ('a \<Rightarrow> string + json) \<Rightarrow> (json \<Rightarrow> string + 'a) \<Rightarrow>
   ('a, 'w) workflow \<Rightarrow> step_env list list \<Rightarrow> 'j \<Rightarrow> 'w \<Rightarrow> 'j \<times> 'w" where
  "lives J reopen tv fv prog [] j w = (j, w)"
| "lives J reopen tv fv prog (env # envs) j w =
     (case ctx_new J j of
        Inl _ \<Rightarrow> (j, w)
      | Inr c \<Rightarrow>
          (case run_workflow J tv fv prog env c w of
             (_, c1, w1) \<Rightarrow> lives J reopen tv fv prog envs (reopen (ctx_journal c1)) w1))"

definition value_codec :: "('a \<Rightarrow> string + json) \<Rightarrow> (json \<Rightarrow> string + 'a) \<Rightarrow> bool" where
  "value_codec tv fv \<longleftrightarrow> (\<forall>x. case tv x of Inl _ \<Rightarrow> False | Inr v \<Rightarrow> fv v = Inr x)"

lemma value_codecE:
  assumes "value_codec tv fv"
  obtains v where "tv x = Inr v" "fv v = Inr x"
  using assms[unfolded value_codec_def, rule_format, of x] that by (cases "tv x") auto

lemma follow_append:
  "follow fv prog es = Some (rs, rest) \<Longrightarrow>
   follow fv prog (es @ es') =
     (case follow fv rest es' of None \<Rightarrow> None | Some (rs', rest') \<Rightarrow> Some (rs @ rs', rest'))"
proof (induction fv prog es arbitrary: rs rest rule: follow.induct)
  case (1 fv prog)
  then show ?case by (simp split: option.splits)
next
  case (2 fv e es)
  then show ?case by simp
next
  case (3 fv n f k e es)
  show ?case
  proof (cases "je_kind e")
    case (StepCompleted m v)
    with 3(3) obtain x rs1 where x: "m = n" "fv v = Inr x"
        "follow fv (k (Inr x)) es = Some (rs1, rest)" "rs = Inr x # rs1"
      by (auto split: if_splits sum.splits option.splits)
    show ?thesis using 3(1)[OF StepCompleted x(1,2,3)] x StepCompleted
      by (simp split: option.splits)
  next
    case (StepFailed m err)
    with 3(3) obtain rs1 where x: "m = n"
        "follow fv (k (Inl err)) es = Some (rs1, rest)" "rs = Inl err # rs1"
      by (auto split: if_splits option.splits)
    show ?thesis using 3(2)[OF StepFailed x(1,2)] x StepFailed
      by (simp split: option.splits)
  qed (use 3 in simp_all)
qed

lemma follow_answer_row:
  assumes "value_codec tv fv"
  shows "follow fv (Step n f k) [answer_row tv t i n r] = Some ([r], k r)"
proof (cases r)
  case (Inl m)
  then show ?thesis by (simp add: answer_row_def failed_def)
next
  case (Inr x)
  obtain v where "tv x = Inr v" "fv v = Inr x" by (rule value_codecE[OF assms])
  with Inr show ?thesis by (simp add: answer_row_def completed_def)
qed

lemma is_step_answer_row [simp]: "is_step (je_kind (answer_row tv t i n r))"
  by (simp add: answer_row_def split: sum.splits)

lemma is_step_workflow_rows: "\<forall>e \<in> set (workflow_rows tv prog env i w). is_step (je_kind e)"
proof (induction prog arbitrary: env i w)
  case (Step n f k)
  then show ?case by (cases "f w") (simp add: Step.IH[OF rangeI])
qed simp

text \<open>A fresh step is its closure followed by the append of its answer.\<close>

lemma step_fresh:
  assumes "\<not> is_replaying c" "value_codec tv fv" "f w = (r, w1)"
  shows "step J tv fv fl t n f c w =
    (case tr_append J fl (ctx_journal c) (answer_row tv t (cursor c) n r) of
       (Killed, j') \<Rightarrow> (Killed, c\<lparr>ctx_journal := j'\<rparr>, w1)
     | (Done (Inl e), j') \<Rightarrow> (Done (Inl e), c\<lparr>ctx_journal := j'\<rparr>, w1)
     | (Done (Inr _), j') \<Rightarrow>
         (Done (case r of Inr x \<Rightarrow> Inr x | Inl m \<Rightarrow> Inl (StepError n m)),
          advance (c\<lparr>ctx_journal := j'\<rparr>), w1))"
proof -
  have c: "vec_get (replay c) (cursor c) = None"
    using assms(1) by (simp add: is_replaying_def vec_get_def)
  show ?thesis
  proof (cases r)
    case (Inl m)
    show ?thesis using c assms(3) unfolding Inl
      by (auto simp: step_def answer_row_def step_failed_def Let_def split: prod.splits outcome.splits sum.splits)
  next
    case (Inr x)
    obtain v where "tv x = Inr v" by (rule value_codecE[OF assms(2)])
    then show ?thesis using c assms(3) unfolding Inr
      by (auto simp: step_def answer_row_def Let_def split: prod.splits outcome.splits sum.splits)
  qed
qed

lemma not_replaying_advance [simp]:
  "\<not> is_replaying c \<Longrightarrow> \<not> is_replaying (advance (c\<lparr>ctx_journal := j\<rparr>))"
  by (simp add: is_replaying_def)

subsection \<open>Replay\<close>

text \<open>
  With the rest of the log along the program, a run answers from the log, leaves the world and the
  journal alone, and goes on with what is left of the program.
\<close>

definition prepend_answers ::
  "(string + 'a) list \<Rightarrow> (durable_error + (string + 'a) list) outcome \<Rightarrow>
   (durable_error + (string + 'a) list) outcome" where
  "prepend_answers rs r = (case r of Done (Inr bs) \<Rightarrow> Done (Inr (rs @ bs)) | _ \<Rightarrow> r)"

lemma prepend_answers_Nil [simp]: "prepend_answers [] r = r"
  by (auto simp: prepend_answers_def split: outcome.splits sum.splits)

lemma prepend_answers_Cons:
  "prepend_answers (a # rs) r =
     (case prepend_answers rs r of Done (Inr bs) \<Rightarrow> Done (Inr (a # bs)) | r' \<Rightarrow> r')"
  by (auto simp: prepend_answers_def split: outcome.splits sum.splits)

lemma drop_ConsD: "drop n xs = y # ys \<Longrightarrow> n < length xs \<and> xs ! n = y \<and> drop (Suc n) xs = ys"
  by (metis Cons_nth_drop_Suc drop_eq_Nil linorder_not_less list.distinct(1) list.inject)

lemma run_replay:
  assumes "drop (cursor c) (replay c) = es" "follow fv prog es = Some (rs, rest)"
  shows "run_workflow J tv fv prog env c w =
    (case run_workflow J tv fv rest (drop (length es) env) (c\<lparr>cursor := cursor c + length es\<rparr>) w of
       (r, c', w') \<Rightarrow> (prepend_answers rs r, c', w'))"
  using assms
proof (induction fv prog es arbitrary: c rs env rule: follow.induct)
  case (1 fv prog)
  then show ?case by (simp split: prod.splits)
next
  case (2 fv e es)
  then show ?case by simp
next
  case (3 fv n f k e es)
  from drop_ConsD[OF 3(3)] have e: "vec_get (replay c) (cursor c) = Some e"
    and es: "drop (cursor (advance c)) (replay (advance c)) = es"
    by (simp_all add: vec_get_def)
  have adv: "(advance c)\<lparr>cursor := m\<rparr> = c\<lparr>cursor := m\<rparr>" for m
    by (simp add: advance_def)
  have env: "drop (length es) (tl env) = drop (Suc (length es)) env"
    by (simp add: drop_Suc)
  from 3(4) consider (ok) v x rs1 where "je_kind e = StepCompleted n v" "fv v = Inr x"
      "follow fv (k (Inr x)) es = Some (rs1, rest)" "rs = Inr x # rs1"
    | (bad) m rs1 where "je_kind e = StepFailed n m"
      "follow fv (k (Inl m)) es = Some (rs1, rest)" "rs = Inl m # rs1"
    by (auto split: entry_kind.splits if_splits sum.splits option.splits)
  then show ?case
  proof cases
    case ok
    show ?thesis
      using step_replay_completed[where fv = fv and J = J and tv = tv and f = f and w = w and
          fl = "fst (env_now env)" and t = "snd (env_now env)", OF e ok(1,2)]
        3(1)[OF ok(1) refl ok(2) es ok(3), of "tl env"]
      by (auto simp: adv env ok(4) prepend_answers_Cons split: prod.splits outcome.splits sum.splits)
  next
    case bad
    show ?thesis
      using step_replay_failed[where fv = fv and J = J and tv = tv and f = f and w = w and
          fl = "fst (env_now env)" and t = "snd (env_now env)", OF e bad(1)]
        3(2)[OF bad(1) refl es bad(2), of "tl env"]
      by (auto simp: adv env bad(3) prepend_answers_Cons split: prod.splits outcome.splits sum.splits)
  qed
qed

subsection \<open>Fresh runs\<close>

context journal begin

lemma run_fresh:
  assumes "\<not> is_replaying c" "value_codec tv fv" "jinv (ctx_journal c)"
    and "\<forall>e \<in> set (workflow_rows tv prog env (cursor c) w). storable (ctx_journal c) e"
    and "\<forall>x \<in> set env. fst x = NoFault" "direct prog w = (rs, w')"
  shows "\<exists>c'. run_workflow J tv fv prog env c w = (Done (Inr rs), c', w') \<and> jinv (ctx_journal c') \<and>
    rows (ctx_journal c') = rows (ctx_journal c) @ workflow_rows tv prog env (cursor c) w"
  using assms
proof (induction prog arbitrary: c env w rs w')
  case Finish
  then show ?case by simp
next
  case (Step n f k)
  obtain r w1 where f: "f w = (r, w1)" by (cases "f w")
  let ?e = "answer_row tv (snd (env_now env)) (cursor c) n r"
  have fl: "fst (env_now env) = NoFault" using Step.prems(5) by (cases env) (auto simp: env_now_def)
  have st: "storable (ctx_journal c) ?e" using Step.prems(4) f by simp
  obtain j1 where j1: "tr_append J NoFault (ctx_journal c) ?e = (Done (Inr ()), j1)"
      "jinv j1" "rows j1 = rows (ctx_journal c) @ [?e]"
    using append_ok[OF Step.prems(3) st] by blast
  let ?c1 = "advance (c\<lparr>ctx_journal := j1\<rparr>)"
  have s: "step J tv fv NoFault (snd (env_now env)) n f c w =
      (Done (case r of Inr x \<Rightarrow> Inr x | Inl m \<Rightarrow> Inl (StepError n m)), ?c1, w1)"
    using step_fresh[where f = f and w = w, OF Step.prems(1,2) f] j1(1) by simp
  obtain rs1 w2 where d: "direct (k r) w1 = (rs1, w2)" "rs = r # rs1" "w' = w2"
    using Step.prems(6) f by (auto split: prod.splits)
  have "\<forall>x \<in> set (tl env). fst x = NoFault" using Step.prems(5) by (cases env) auto
  moreover have "\<forall>e \<in> set (workflow_rows tv (k r) (tl env) (cursor ?c1) w1). storable (ctx_journal ?c1) e"
    using Step.prems(4) f append_storable[OF Step.prems(3) j1(1)] by simp
  ultimately obtain c' where "run_workflow J tv fv (k r) (tl env) ?c1 w1 = (Done (Inr rs1), c', w2)"
      "jinv (ctx_journal c')"
      "rows (ctx_journal c') = rows j1 @ workflow_rows tv (k r) (tl env) (Suc (cursor c)) w1"
    using Step.IH[of "k r" ?c1 "tl env" w1 rs1 w2] Step.prems(1,2) j1(2) d(1) by auto
  then show ?case using fl s f d j1(3) by (cases r) auto
qed

lemma ctx_new_rows: "jinv j \<Longrightarrow>
    ctx_new J j = Inr \<lparr>ctx_journal = j, replay = step_rows (rows j), cursor = 0\<rparr>"
  by (simp add: ctx_new_def replay_all_rows)

text \<open>One life started on a log along the program.\<close>

lemma life_resumes:
  assumes "jinv j" "follow fv prog (step_rows (rows j)) = Some (rs, rest)" "ctx_new J j = Inr c"
  shows "run_workflow J tv fv prog env c w =
    (case run_workflow J tv fv rest (drop (length (step_rows (rows j))) env) (fast_forward_replay c) w of
       (r, c', w') \<Rightarrow> (prepend_answers rs r, c', w'))"
  using run_replay[of c "step_rows (rows j)" fv prog rs rest] assms
  by (auto simp: ctx_new_rows fast_forward_replay_def)

lemma fast_forward_fresh [simp]: "\<not> is_replaying (fast_forward_replay c)"
  by (simp add: is_replaying_def fast_forward_replay_def)

text \<open>
  The last life has no fault: it finishes, gives back every recorded answer, and runs exactly what
  the log does not hold.
\<close>

lemma lives_finish:
  assumes "value_codec tv fv" "jinv j" "follow fv prog (step_rows (rows j)) = Some (rs, rest)"
    and "ctx_new J j = Inr c" "direct rest w = (bs, w')"
    and "\<forall>x \<in> set env. fst x = NoFault"
    and "\<forall>e \<in> set (workflow_rows tv rest (drop (length (step_rows (rows j))) env)
           (length (step_rows (rows j))) w). storable j e"
  shows "\<exists>c'. run_workflow J tv fv prog env c w = (Done (Inr (rs @ bs)), c', w') \<and>
    rows (ctx_journal c') = rows j @
      workflow_rows tv rest (drop (length (step_rows (rows j))) env) (length (step_rows (rows j))) w"
proof -
  have c: "c = \<lparr>ctx_journal = j, replay = step_rows (rows j), cursor = 0\<rparr>"
    using assms(4) ctx_new_rows[OF assms(2)] by simp
  let ?n = "length (step_rows (rows j))"
  have cj: "ctx_journal (fast_forward_replay c) = j" "cursor (fast_forward_replay c) = ?n"
    by (simp_all add: fast_forward_replay_def c)
  have "\<forall>x \<in> set (drop ?n env). fst x = NoFault" using assms(6) by (meson in_set_dropD)
  then obtain c' where "run_workflow J tv fv rest (drop ?n env) (fast_forward_replay c) w =
      (Done (Inr bs), c', w')" "rows (ctx_journal c') = rows j @ workflow_rows tv rest (drop ?n env) ?n w"
    using run_fresh[OF fast_forward_fresh assms(1), of c rest "drop ?n env" w bs w'] assms(2,5,7) cj
    by auto
  then show ?thesis
    using life_resumes[OF assms(2,3,4), of tv env w] by (simp add: prepend_answers_def)
qed

end

subsection \<open>Any number of lives, with any faults\<close>

text \<open>
  \<open>step_history\<close> is what executions of a program do to the world: a step that is answered runs once and its
  answer is given; a step can also be lost, when its closure ran but its answer was not recorded, and is
  then run again. The number counts the lost runs.
\<close>

inductive step_history :: "('a, 'w) workflow \<Rightarrow> 'w \<Rightarrow> nat \<Rightarrow> (string + 'a) list \<Rightarrow> ('a, 'w) workflow \<Rightarrow> 'w \<Rightarrow> bool" where
  history_stop: "step_history prog w 0 [] prog w"
| history_answer: "f w = (r, w1) \<Longrightarrow> step_history (k r) w1 n rs rest w' \<Longrightarrow> step_history (Step name f k) w n (r # rs) rest w'"
| history_lost: "f w = (r, w1) \<Longrightarrow> step_history (Step name f k) w1 n rs rest w' \<Longrightarrow> step_history (Step name f k) w (Suc n) rs rest w'"

lemma history_trans:
  "step_history prog w n rs p1 w1 \<Longrightarrow> step_history p1 w1 m rs' p2 w2 \<Longrightarrow> step_history prog w (n + m) (rs @ rs') p2 w2"
  by (induction rule: step_history.induct) (auto intro: step_history.intros)

text \<open>
  What one life leaves behind after the journal is reopened, wherever it stopped: the log has grown
  by rows along the program, which are the answers its steps gave, at most the last run was lost, and a
  life that finished has recorded every answer it gave.
\<close>

definition life_ok ::
  "(json \<Rightarrow> string + 'a) \<Rightarrow> ('a, 'w) workflow \<Rightarrow> 'w \<Rightarrow> journal_entry list \<Rightarrow>
   (durable_error + (string + 'a) list) outcome \<Rightarrow> 'w \<Rightarrow> bool" where
  "life_ok fv prog w new r w' \<longleftrightarrow>
     (\<forall>e \<in> set new. is_step (je_kind e)) \<and>
     (\<exists>n rs rest. follow fv prog new = Some (rs, rest) \<and> step_history prog w n rs rest w' \<and> n \<le> 1 \<and>
        (\<forall>bs. r = Done (Inr bs) \<longrightarrow> rest = Finish \<and> rs = bs \<and> n = 0))"

lemma life_ok_lost:
  assumes "f w = (x, w1)" "\<And>bs. r \<noteq> Done (Inr bs)"
  shows "life_ok fv (Step n f k) w [] r w1"
  using assms history_lost[where f = f and w = w, OF assms(1) history_stop] unfolding life_ok_def by force

lemma life_ok_answer:
  assumes "value_codec tv fv" "f w = (x, w1)" "\<And>bs. r \<noteq> Done (Inr bs)"
  shows "life_ok fv (Step n f k) w [answer_row tv t i n x] r w1"
  using assms(3) history_answer[where f = f and w = w, OF assms(2) history_stop] follow_answer_row[OF assms(1), of n f k t i x]
  unfolding life_ok_def by force

lemma life_ok_Cons:
  assumes "value_codec tv fv" "f w = (x, w1)" "life_ok fv (k x) w1 new r w'"
  shows "life_ok fv (Step n f k) w (answer_row tv t i n x # new)
    (case r of Done (Inr rs) \<Rightarrow> Done (Inr (x # rs)) | _ \<Rightarrow> r) w'"
proof -
  from assms(3) obtain m rs rest where l: "follow fv (k x) new = Some (rs, rest)" "step_history (k x) w1 m rs rest w'" "m \<le> 1"
      "\<forall>e \<in> set new. is_step (je_kind e)"
      "\<forall>bs. r = Done (Inr bs) \<longrightarrow> rest = Finish \<and> rs = bs \<and> m = 0" by (auto simp: life_ok_def)
  have "follow fv (Step n f k) (answer_row tv t i n x # new) = Some (x # rs, rest)"
    using follow_append[OF follow_answer_row[OF assms(1)], of n f k t i x new] l(1) by simp
  with l history_answer[where f = f and w = w and k = k, OF assms(2) l(2)] show ?thesis
    by (auto simp: life_ok_def split: outcome.splits sum.splits)
qed

context crash_journal begin

lemma run_crash:
  assumes "\<not> is_replaying c" "value_codec tv fv" "jinv (ctx_journal c)"
    and "run_workflow J tv fv prog env c w = (r, c', w')"
  shows "\<exists>new. jinv (reopen (ctx_journal c')) \<and>
    rows (reopen (ctx_journal c')) = rows (ctx_journal c) @ new \<and> life_ok fv prog w new r w'"
  using assms
proof (induction prog arbitrary: c env w r c' w')
  case Finish
  then show ?case by (auto simp: reopen_id life_ok_def intro!: exI[of _ "[]"] exI[of _ 0] history_stop)
next
  case (Step n f k)
  obtain x w1 where f: "f w = (x, w1)" by (cases "f w")
  let ?e = "answer_row tv (snd (env_now env)) (cursor c) n x"
  obtain a j1 where app: "tr_append J (fst (env_now env)) (ctx_journal c) ?e = (a, j1)"
    by (cases "tr_append J (fst (env_now env)) (ctx_journal c) ?e")
  note s = step_fresh[where f = f and w = w and J = J and fl = "fst (env_now env)" and n = n
      and t = "snd (env_now env)", OF Step.prems(1,2) f]
  show ?case
  proof (cases "a = Done (Inr ())")
    case False
    have ns: "a \<noteq> Done (Inl (StepError p q))" for p q
      using append_err app by blast
    from False have r: "\<And>bs. r \<noteq> Done (Inr bs)" "ctx_journal c' = j1" "w' = w1"
      using Step.prems(4) s app ns
      by (cases a; cases x; auto split: sum.splits durable_error.splits prod.splits outcome.splits)+
    have "life_ok fv (Step n f k) w [] r w'" "life_ok fv (Step n f k) w [?e] r w'"
      unfolding r(3) by (rule life_ok_lost[where f = f and w = w, OF f r(1)],
        rule life_ok_answer[where f = f and w = w, OF Step.prems(2) f r(1)])
    with r(2) crash_append[OF Step.prems(3) app] show ?thesis by (metis append_Nil2)
  next
    case True
    note j1 = append_success[OF Step.prems(3) app[unfolded True]]
    let ?c1 = "advance (c\<lparr>ctx_journal := j1\<rparr>)"
    obtain r1 c2 w2 where run: "run_workflow J tv fv (k x) (tl env) ?c1 w1 = (r1, c2, w2)"
      by (cases "run_workflow J tv fv (k x) (tl env) ?c1 w1")
    have res: "r = (case r1 of Done (Inr rs) \<Rightarrow> Done (Inr (x # rs)) | _ \<Rightarrow> r1) \<and> c' = c2 \<and> w' = w2"
      using Step.prems(4) s app True run by (cases x) (auto split: outcome.splits sum.splits)
    obtain new where "jinv (reopen (ctx_journal c2))"
        "rows (reopen (ctx_journal c2)) = rows j1 @ new" "life_ok fv (k x) w1 new r1 w2"
      using Step.IH[of "k x" ?c1, OF _ _ _ _ run] Step.prems(1,2) j1 by auto
    with res j1 life_ok_Cons[where f = f and w = w and k = k, OF Step.prems(2) f] show ?thesis
      by (intro exI[of _ "?e # new"]) auto
  qed
qed

lemma lives_log:
  assumes "value_codec tv fv" "jinv j" "follow fv prog (step_rows (rows j)) = Some (rs, rest)"
    and "lives J reopen tv fv prog envs j w = (j', w')"
  shows "jinv j' \<and> (\<exists>new rs' rest' n. rows j' = rows j @ new \<and>
    follow fv prog (step_rows (rows j')) = Some (rs @ rs', rest') \<and> step_history rest w n rs' rest' w' \<and> n \<le> length envs)"
  using assms(2-)
proof (induction envs arbitrary: j rs rest w)
  case Nil
  then show ?case by (auto intro!: exI[of _ 0] history_stop)
next
  case (Cons env envs)
  let ?c = "\<lparr>ctx_journal = j, replay = step_rows (rows j), cursor = 0\<rparr>"
  note c = ctx_new_rows[OF Cons.prems(1)]
  let ?n = "length (step_rows (rows j))"
  obtain r c1 w1 where run:
      "run_workflow J tv fv rest (drop ?n env) (fast_forward_replay ?c) w = (r, c1, w1)"
    by (cases "run_workflow J tv fv rest (drop ?n env) (fast_forward_replay ?c) w")
  have life: "run_workflow J tv fv prog env ?c w = (prepend_answers rs r, c1, w1)"
    using life_resumes[OF Cons.prems(1,2) c, of tv env w] run by simp
  have cj: "ctx_journal (fast_forward_replay ?c) = j" by (simp add: fast_forward_replay_def)
  obtain new where new: "jinv (reopen (ctx_journal c1))" "rows (reopen (ctx_journal c1)) = rows j @ new"
      "life_ok fv rest w new r w1"
    using run_crash[OF fast_forward_fresh assms(1) _ run] cj Cons.prems(1) by auto
  then obtain n1 rs1 rest1 where f: "follow fv rest (step_rows new) = Some (rs1, rest1)" "step_history rest w n1 rs1 rest1 w1" "n1 \<le> 1"
    by (auto simp: life_ok_def)
  have f1: "follow fv prog (step_rows (rows (reopen (ctx_journal c1)))) = Some (rs @ rs1, rest1)"
    using follow_append[OF Cons.prems(2), of "step_rows new"] f(1) new(2) by simp
  have "lives J reopen tv fv prog envs (reopen (ctx_journal c1)) w1 = (j', w')"
    using Cons.prems(3) c life by simp
  from Cons.IH[OF new(1) f1 this] obtain new' rs' rest' n' where ih: "jinv j'"
      "rows j' = rows (reopen (ctx_journal c1)) @ new'" "follow fv prog (step_rows (rows j')) = Some ((rs @ rs1) @ rs', rest')"
      "step_history rest1 w1 n' rs' rest' w'" "n' \<le> length envs" by blast
  show ?case
    using ih(1,2,3,5) new(2) f(3) history_trans[OF f(2) ih(4)]
    by (intro conjI exI[of _ "new @ new'"] exI[of _ "rs1 @ rs'"] exI[of _ rest'] exI[of _ "n1 + n'"]) simp_all
qed

end

subsection \<open>Properties\<close>

definition nat_to_value :: "nat \<Rightarrow> string + json" where
  "nat_to_value n = Inr (JNum (PosInt n))"

definition nat_from_value :: "json \<Rightarrow> string + nat" where
  "nat_from_value v = (case v of JNum (PosInt n) \<Rightarrow> Inr n | _ \<Rightarrow> Inl ''invalid type'')"

lemma nat_value_codec: "value_codec nat_to_value nat_from_value"
  by (simp add: value_codec_def nat_to_value_def nat_from_value_def)

text \<open>Two steps that count what they do to the world.\<close>

definition sample_prog :: "(nat, nat) workflow" where
  "sample_prog = Step ''a'' (\<lambda>w. (Inr w, w + 1)) (\<lambda>_. Step ''b'' (\<lambda>w. (Inr w, w + 10)) (\<lambda>_. Finish))"

definition row_a :: journal_entry where
  "row_a = completed 0 0 ''a'' (JNum (PosInt 0))"

definition row_b :: journal_entry where
  "row_b = completed 0 1 ''b'' (JNum (PosInt 11))"

definition steps_codec :: codec where
  "steps_codec = table_codec [(row_a, ''{0:a:0}''), (row_b, ''{1:b:11}'')]"

lemma steps_codec_ok: "codec_ok steps_codec"
  unfolding steps_codec_def by (rule table_codec_ok) (simp add: table_ok_def row_text_def)

lemma row_b_neq: "row_b \<noteq> row_a" "row_a \<noteq> row_b"
  by (simp_all add: row_a_def row_b_def entry_defs)

lemma steps_to_string [simp]:
  "to_string steps_codec row_a = Some ''{0:a:0}''" "to_string steps_codec row_b = Some ''{1:b:11}''"
  by (simp_all add: steps_codec_def table_codec_def row_b_neq)

definition steps_fs :: fs where
  "steps_fs = [''j'' \<mapsto> ''{0:a:0}'' @ [nl]]"

lemma steps_fs_inv: "file_inv steps_codec ''j'' steps_fs" "file_rows steps_codec ''j'' steps_fs = [row_a]"
proof -
  have "serialize_rows steps_codec [row_a] = Some (''{0:a:0}'' @ [nl])" by simp
  from serialize_rows_parse[OF steps_codec_ok this]
  have "file_inv steps_codec ''j'' steps_fs \<and> file_rows steps_codec ''j'' steps_fs = [row_a]"
    by (intro file_invI[OF steps_codec_ok]) (auto simp: steps_fs_def)
  then show "file_inv steps_codec ''j'' steps_fs" "file_rows steps_codec ''j'' steps_fs = [row_a]"
    by simp_all
qed

lemma sample_follow:
  "follow nat_from_value sample_prog [row_a] =
     Some ([Inr 0], Step ''b'' (\<lambda>w. (Inr w, w + 10)) (\<lambda>_. Finish))"
  by (simp add: sample_prog_def row_a_def completed_def nat_from_value_def)

text \<open>C10: a program of durable steps over the file journal, run through any number of process lives, in
  each of which any append may fail or kill the process. A life ends with its first failed write, as the
  program gets an error then that is not the error of a step. The journal stays readable and its old rows
  stay in place; the new step rows are, in order, the answers that the closures of the program gave in the
  world they found; and what happened to the world is those runs and, for each life at most one, the run
  of a step whose answer was not recorded, which a later life runs again.\<close>

theorem log_follows_program:
  assumes "value_codec tv fv" "file_inv C p d"
    and "follow fv prog (step_rows (file_rows C p d)) = Some (rs, rest)"
    and "lives (file_journal C p) (\<lambda>d. file_open C d p) tv fv prog envs d w = (d', w')"
  shows "file_inv C p d' \<and> (\<exists>new rs' rest' lost. file_rows C p d' = file_rows C p d @ new \<and>
    follow fv prog (step_rows (file_rows C p d')) = Some (rs @ rs', rest') \<and>
    step_history rest w lost rs' rest' w' \<and> lost \<le> length envs)"
  by (rule filec.lives_log[OF assms])

theorem log_follows_program_witness:
  "\<exists>rs rest lost. follow nat_from_value sample_prog (step_rows (file_rows steps_codec ''j''
     (fst (lives (file_journal steps_codec ''j'') (\<lambda>d. file_open steps_codec d ''j'')
        nat_to_value nat_from_value sample_prog [[(NoFault, 0), (Kill 4, 0)], [(WriteErr 2, 0)]]
        steps_fs 1)))) = Some ([Inr 0] @ rs, rest) \<and> lost \<le> 2 \<and>
     step_history (Step ''b'' (\<lambda>w. (Inr w, w + 10)) (\<lambda>_. Finish)) 1 lost rs rest
       (snd (lives (file_journal steps_codec ''j'') (\<lambda>d. file_open steps_codec d ''j'')
        nat_to_value nat_from_value sample_prog [[(NoFault, 0), (Kill 4, 0)], [(WriteErr 2, 0)]] steps_fs 1))"
proof -
  have "follow nat_from_value sample_prog (step_rows (file_rows steps_codec ''j'' steps_fs)) =
      Some ([Inr 0], Step ''b'' (\<lambda>w. (Inr w, w + 10)) (\<lambda>_. Finish))"
    by (simp add: steps_fs_inv(2) sample_follow row_a_def)
      (simp add: sample_follow[unfolded row_a_def])
  from log_follows_program[OF nat_value_codec steps_fs_inv(1) this prod.collapse[symmetric]]
  show ?thesis by (metis (no_types, lifting) length_Cons list.size(3) numeral_2_eq_2)
qed

text \<open>C11: when such a program is run again on the log it left, without faults, it returns every
  recorded answer as recorded and then exactly what the rest of the program answers when it is run
  directly; the world changes by that rest only, so no recorded step is executed again; and the
  log grows by the rows of the rest.\<close>

theorem resume_runs_only_the_rest:
  assumes "value_codec tv fv" "file_inv C p d"
    and "follow fv prog (step_rows (file_rows C p d)) = Some (rs, rest)"
    and "ctx_new (file_journal C p) d = Inr c" "direct rest w = (bs, w')"
    and "\<forall>x \<in> set env. fst x = NoFault"
    and "\<forall>e \<in> set (workflow_rows tv rest (drop (length (step_rows (file_rows C p d))) env)
           (length (step_rows (file_rows C p d))) w). to_string C e \<noteq> None"
  shows "\<exists>c'. run_workflow (file_journal C p) tv fv prog env c w = (Done (Inr (rs @ bs)), c', w') \<and>
    file_rows C p (ctx_journal c') = file_rows C p d @
      workflow_rows tv rest (drop (length (step_rows (file_rows C p d))) env)
        (length (step_rows (file_rows C p d))) w"
  using assms by (intro filej.lives_finish) (simp_all add: file_storable_def)

theorem resume_runs_only_the_rest_witness:
  "\<exists>c c'. ctx_new (file_journal steps_codec ''j'') steps_fs = Inr c \<and>
     run_workflow (file_journal steps_codec ''j'') nat_to_value nat_from_value sample_prog [] c 11 =
       (Done (Inr [Inr 0, Inr 11]), c', 21)"
proof -
  obtain c where c: "ctx_new (file_journal steps_codec ''j'') steps_fs = Inr c"
    using filej.ctx_new_rows[OF steps_fs_inv(1)] by auto
  have f: "follow nat_from_value sample_prog (step_rows (file_rows steps_codec ''j'' steps_fs)) =
      Some ([Inr 0], Step ''b'' (\<lambda>w. (Inr w, w + 10)) (\<lambda>_. Finish))"
    by (simp add: steps_fs_inv(2) sample_follow row_a_def)
      (simp add: sample_follow[unfolded row_a_def])
  have rows: "step_rows (file_rows steps_codec ''j'' steps_fs) = [row_a]"
    by (simp add: steps_fs_inv(2) row_a_def)
  have b: "answer_row nat_to_value 0 1 ''b'' (Inr 11) = row_b"
    by (simp add: answer_row_def nat_to_value_def row_b_def)
  from resume_runs_only_the_rest[OF nat_value_codec steps_fs_inv(1) f c,
      where w = 11 and env = "[]" and bs = "[Inr 11]" and w' = 21]
  show ?thesis using c b by (auto simp: rows env_now_def)
qed

text \<open>A step asked for under another name than the recorded one is refused with its position
  and both names; nothing runs, nothing is appended and the cursor stays. On a recorded step, no
  answer changes the world or the journal.\<close>

theorem replay_detects_divergence:
  assumes "is_replaying c" "step J tv fv fl t name f c w = (r, c', w')"
  shows "w' = w \<and> ctx_journal c' = ctx_journal c \<and> replay c' = replay c \<and> r \<noteq> Killed \<and>
    (\<forall>n. entry_step_name (replay c ! cursor c) = Some n \<and> n \<noteq> name \<longrightarrow>
       r = Done (Inl (NondeterministicReplay (of_nat (cursor c)) name n)) \<and> c' = c)"
  using step_replay_no_effect[where f = f and w = w, OF assms]
    step_mismatch[where f = f and w = w and J = J and tv = tv and fv = fv and fl = fl and t = t
      and c = c and e = "replay c ! cursor c" and name = name] assms
  by (auto simp: is_replaying_def vec_get_def)

theorem replay_detects_divergence_witness:
  "fst (step in_memory nat_to_value nat_from_value NoFault 0 ''b'' (\<lambda>w. (Inr w, w + 1))
     \<lparr>ctx_journal = [row_a], replay = [row_a], cursor = 0\<rparr> (5::nat)) =
   Done (Inl (NondeterministicReplay 0 ''b'' ''a''))"
proof -
  let ?c = "\<lparr>ctx_journal = [row_a], replay = [row_a], cursor = 0\<rparr>"
  let ?f = "\<lambda>w :: nat. (Inr w, w + 1)"
  obtain r c' w' where s: "step in_memory nat_to_value nat_from_value NoFault 0 ''b'' ?f ?c 5 = (r, c', w')"
    by (rule prod_cases3)
  have "is_replaying ?c" by (simp add: is_replaying_def)
  from replay_detects_divergence[OF this s] s show ?thesis
    by (simp add: row_a_def entry_defs)
qed

end
