(* ===== verification/Action_Base.thy ===== *)
theory Action_Base
  imports Durable_Execution
begin

section \<open>Identifiers, errors and messages of the action runtime\<close>

text \<open>
  Models \<^verbatim>\<open>crates/familyclaw-actions/src/ids.rs\<close> and \<^verbatim>\<open>error.rs\<close>. Identifiers are UUIDs; the
  crates that print them, hash bytes, encode JSON and bound timestamps are not part of the
  repository and are the record \<open>ext\<close>, an argument of every definition that uses them. A fresh
  identifier is an argument of the operation that draws it.
\<close>

type_synonym uuid = "128 word"
type_synonym skill_id = uuid
type_synonym task_id = uuid
type_synonym approval_id = uuid
type_synonym proof_id = uuid
type_synonym action_id = uuid
type_synonym event_id = uuid

definition nil_id :: uuid where
  "nil_id = 0"

definition is_nil :: "uuid \<Rightarrow> bool" where
  "is_nil u \<longleftrightarrow> u = nil_id"

record ext =
  show_uuid :: "uuid \<Rightarrow> string"           \<comment> \<open>uuid: Display\<close>
  sha256 :: "string \<Rightarrow> string"           \<comment> \<open>sha2: the digest bytes\<close>
  json_bytes :: "json \<Rightarrow> string + string"  \<comment> \<open>serde_json::to_vec\<close>
  ts_min :: timestamp                     \<comment> \<open>chrono: DateTime::MIN_UTC\<close>
  ts_max :: timestamp                     \<comment> \<open>chrono: DateTime::MAX_UTC\<close>

datatype action_error =
    ManifestParse string
  | ManifestValidation string
  | SecretInManifest string
  | SignatureInvalid string
  | UnknownSkill string
  | NotFound string
  | IllegalTransition string
  | ApprovalMissingErr string          \<comment> \<open>ApprovalMissing\<close>
  | ApprovalExpiredErr string          \<comment> \<open>ApprovalExpired\<close>
  | ApprovalReusedErr string           \<comment> \<open>ApprovalReused\<close>
  | ApprovalPayloadMismatchErr string  \<comment> \<open>ApprovalPayloadMismatch\<close>
  | PolicyDeniedErr string             \<comment> \<open>PolicyDenied\<close>
  | ExecutionFailed string
  | Proof string
  | McpUnknownTool string
  | McpDenied string
  | Core string                        \<comment> \<open>the inner error, as it prints\<close>

fun show_error :: "action_error \<Rightarrow> string" where
  "show_error (ManifestParse m) = ''manifest parse error: '' @ m"
| "show_error (ManifestValidation m) = ''manifest validation error: '' @ m"
| "show_error (SecretInManifest m) = ''secret detected in manifest: '' @ m"
| "show_error (SignatureInvalid m) = ''skill signature invalid: '' @ m"
| "show_error (UnknownSkill m) = ''unknown skill: '' @ m"
| "show_error (NotFound m) = ''not found: '' @ m"
| "show_error (IllegalTransition m) = ''illegal transition: '' @ m"
| "show_error (ApprovalMissingErr m) = ''approval missing: '' @ m"
| "show_error (ApprovalExpiredErr m) = ''approval expired: '' @ m"
| "show_error (ApprovalReusedErr m) = ''approval reused: '' @ m"
| "show_error (ApprovalPayloadMismatchErr m) = ''approval payload mismatch: '' @ m"
| "show_error (PolicyDeniedErr m) = ''policy denied: '' @ m"
| "show_error (ExecutionFailed m) = ''execution failed: '' @ m"
| "show_error (Proof m) = ''proof error: '' @ m"
| "show_error (McpUnknownTool m) = ''mcp unknown tool: '' @ m"
| "show_error (McpDenied m) = ''mcp denied: '' @ m"
| "show_error (Core m) = m"

text \<open>The two-byte letters of the Finnish messages.\<close>

definition ae :: string where
  "ae = [char_of (0xC3 :: nat), char_of (0xA4 :: nat)]"

definition oe :: string where
  "oe = [char_of (0xC3 :: nat), char_of (0xB6 :: nat)]"

definition emdash :: string where
  "emdash = [char_of (0xE2 :: nat), char_of (0x80 :: nat), char_of (0x94 :: nat)]"

definition sq :: string where
  "sq = [CHR 0x27]"

text \<open>\<^verbatim>\<open>{:?}\<close> of a string: quoted, with the usual escapes.\<close>

definition debug_str :: "string \<Rightarrow> string" where
  "debug_str s = [CHR 0x22] @ concat (map (\<lambda>c.
     if c = CHR 0x22 \<or> c = CHR 0x5C then [CHR 0x5C, c]
     else if c = nl then [CHR 0x5C, CHR ''n''] else if c = cr then [CHR 0x5C, CHR ''r'']
     else if c = CHR 0x09 then [CHR 0x5C, CHR ''t''] else [c]) s) @ [CHR 0x22]"

text \<open>How an error of the journal prints (the \<^verbatim>\<open>Display\<close> of \<^verbatim>\<open>DurableError\<close>).\<close>

fun show_durable_error :: "durable_error \<Rightarrow> string" where
  "show_durable_error (Io m) = ''journal io error: '' @ m"
| "show_durable_error (Serde m) = ''journal serde error: '' @ m"
| "show_durable_error (NondeterministicReplay i e f) =
     ''nondeterministic replay at step #'' @ show_nat (unat i) @ '': expected step '' @ debug_str e @
     '', found '' @ debug_str f"
| "show_durable_error (CorruptEntry l r) =
     ''corrupt journal entry at line '' @ show_nat (unat l) @ '': '' @ r"
| "show_durable_error (StepError s m) = ''step '' @ sq @ s @ sq @ '' failed: '' @ m"
| "show_durable_error (InvalidFork r) = ''invalid timeline fork: '' @ r"

end
