(* ===== verification/Policy.thy ===== *)
theory Policy
  imports Action_Base
begin

section \<open>Policy: risk classes, approval requirements, secret detection\<close>

text \<open>
  Models \<^verbatim>\<open>crates/familyclaw-actions/src/policy.rs\<close>. The permission constructors carry a prefix,
  since the source uses the same names in two enumerations.
\<close>

datatype skill_permission =
    PReadFiles | PWriteLocalFiles | PNetworkRead | PSendMessage | PExecuteCode | PSpendMoney
  | PWriteExternal

datatype action_risk =
    ReadOnly | WriteLocal | WriteExternal | Irreversible | SpendMoney | SendMessage | ExecuteCode

fun is_read_only :: "action_risk \<Rightarrow> bool" where
  "is_read_only ReadOnly = True"
| "is_read_only _ = False"

fun is_auto_runnable_class :: "action_risk \<Rightarrow> bool" where
  "is_auto_runnable_class ReadOnly = True"
| "is_auto_runnable_class WriteLocal = True"
| "is_auto_runnable_class _ = False"

fun forbids_auto_run_risk :: "skill_permission \<Rightarrow> bool" where
  "forbids_auto_run_risk PSpendMoney = True"
| "forbids_auto_run_risk PWriteExternal = True"
| "forbids_auto_run_risk _ = False"

fun requires_spend_money_risk :: "skill_permission \<Rightarrow> bool" where
  "requires_spend_money_risk PSpendMoney = True"
| "requires_spend_money_risk _ = False"

datatype approval_policy = AutoIfReadOnly | RequireApproval | AlwaysRequireApproval

datatype approval_requirement = AutoRun | MustApprove  \<comment> \<open>the source's second is RequireApproval\<close>

definition requires_approval :: "approval_requirement \<Rightarrow> bool" where
  "requires_approval r \<longleftrightarrow> r = MustApprove"

definition required_approval :: "action_risk \<Rightarrow> approval_policy \<Rightarrow> approval_requirement" where
  "required_approval risk policy =
     (if risk \<in> {SpendMoney, Irreversible} then MustApprove
      else if risk \<in> {ExecuteCode, SendMessage} then MustApprove
      else if policy = AlwaysRequireApproval then MustApprove
      else case (risk, policy) of
             (ReadOnly, AutoIfReadOnly) \<Rightarrow> AutoRun
           | (ReadOnly, RequireApproval) \<Rightarrow> AutoRun
           | (WriteLocal, RequireApproval) \<Rightarrow> AutoRun
           | _ \<Rightarrow> MustApprove)"

fun requires_human :: "approval_policy \<Rightarrow> action_risk \<Rightarrow> bool" where
  "requires_human AlwaysRequireApproval risk = True"
| "requires_human AutoIfReadOnly risk = (\<not> is_read_only risk)"
| "requires_human RequireApproval risk = (\<not> is_read_only risk)"

fun can_require_approval :: "approval_policy \<Rightarrow> bool" where
  "can_require_approval RequireApproval = True"
| "can_require_approval AlwaysRequireApproval = True"
| "can_require_approval AutoIfReadOnly = False"

subsection \<open>Strings that look like secrets\<close>

definition is_token_char :: "char \<Rightarrow> bool" where
  "is_token_char c \<longleftrightarrow> is_alnum c \<or> c = CHR ''-'' \<or> c = CHR ''_''"

definition is_base64_char :: "char \<Rightarrow> bool" where
  "is_base64_char c \<longleftrightarrow> is_alnum c \<or> c = CHR ''+'' \<or> c = CHR ''/'' \<or> c = CHR ''='' \<or>
     c = CHR ''-'' \<or> c = CHR ''_''"

definition has_sk_prefix :: "string \<Rightarrow> bool" where
  "has_sk_prefix value \<longleftrightarrow>
     list_ex (\<lambda>chunk. starts_with ''sk-'' chunk \<and> 3 + 8 \<le> length chunk \<and>
                     list_all is_token_char (drop 3 chunk))
       (split_on (\<lambda>c. \<not> is_token_char c) (to_lower value))"

definition has_aws_access_key :: "string \<Rightarrow> bool" where
  "has_aws_access_key value \<longleftrightarrow>
     list_ex (\<lambda>chunk. length chunk = 20 \<and> starts_with ''AKIA'' chunk \<and>
                     list_all (\<lambda>c. is_upper c \<or> is_digit c) (drop 4 chunk))
       (split_on (\<lambda>c. \<not> is_alnum c) value)"

definition has_bearer_token :: "string \<Rightarrow> bool" where
  "has_bearer_token value =
     (case str_find ''bearer '' (to_lower value) of
        None \<Rightarrow> False
      | Some pos \<Rightarrow>
          8 \<le> length (takeWhile is_token_char (trim_start (drop (pos + 7) value))))"

definition looks_high_entropy :: "string \<Rightarrow> bool" where
  "looks_high_entropy chunk \<longleftrightarrow>
     (list_ex is_digit chunk \<and> list_ex is_alpha chunk) \<or>
     (list_all is_hexdigit chunk \<and> 32 \<le> length chunk)"

definition has_long_token_run :: "string \<Rightarrow> bool" where
  "has_long_token_run value \<longleftrightarrow>
     list_ex (\<lambda>chunk. 32 \<le> length chunk \<and> looks_high_entropy chunk)
       (split_on (\<lambda>c. \<not> is_base64_char c) value)"

definition assignment_has_value :: "string \<Rightarrow> bool" where
  "assignment_has_value after =
     (case trim_start after of
        c # rest \<Rightarrow>
          if c = CHR ''='' \<or> c = CHR '':''
          then (case dropWhile (\<lambda>c. c = CHR 0x22 \<or> c = CHR 0x27) (trim_start rest) of
                  d # _ \<Rightarrow> is_token_char d
                | [] \<Rightarrow> False)
          else False
      | [] \<Rightarrow> False)"

text \<open>
  The search loop for one field name: \<open>prev\<close> is the byte before the part still to be searched.
\<close>

function field_scan :: "string \<Rightarrow> char option \<Rightarrow> string \<Rightarrow> bool" where
  "field_scan name prev rest =
     (if name = [] then False
      else case str_find name rest of
             None \<Rightarrow> False
           | Some rel \<Rightarrow>
               (let before = (if rel = 0 then prev else Some (rest ! (rel - 1)));
                    boundary_ok = (case before of None \<Rightarrow> True | Some b \<Rightarrow> \<not> is_alnum b \<and> b \<noteq> CHR ''_'');
                    after = drop (rel + length name) rest
                in if boundary_ok \<and> assignment_has_value after then True
                   else field_scan name (Some (last name)) after))"
  by pat_completeness auto

termination field_scan
proof (relation "measure (\<lambda>(name, prev, rest). length rest)", goal_cases)
  case (2 name prev rest rel before boundary_ok after)
  from str_find_length[OF 2(2)] 2 show ?case by (cases name) auto
qed simp

declare field_scan.simps [simp del]

definition has_secret_field_assignment :: "string \<Rightarrow> bool" where
  "has_secret_field_assignment value =
     list_ex (\<lambda>name. field_scan name None (to_lower value))
       [''api_key'', ''apikey'', ''secret'', ''password'', ''token'', ''passwd'']"

definition detect_secret_like :: "string \<Rightarrow> bool" where
  "detect_secret_like value =
     (let trimmed = trim value
      in if trimmed = [] then False
         else if has_sk_prefix trimmed \<or> has_aws_access_key trimmed \<or> has_bearer_token trimmed \<or>
                 has_long_token_run trimmed then True
         else has_secret_field_assignment trimmed)"

lemma required_approval_auto_iff:
  "required_approval r p = AutoRun \<longleftrightarrow>
     (r = ReadOnly \<and> p \<noteq> AlwaysRequireApproval) \<or> (r = WriteLocal \<and> p = RequireApproval)"
  by (cases r; cases p) (simp_all add: required_approval_def)

lemma requires_approval_iff:
  "requires_approval (required_approval r p) \<longleftrightarrow> required_approval r p \<noteq> AutoRun"
  by (cases "required_approval r p") (simp_all add: requires_approval_def)

lemma ex_policy:
  "(\<exists>p. P p) \<longleftrightarrow> P AutoIfReadOnly \<or> P RequireApproval \<or> P AlwaysRequireApproval"
  by (metis approval_policy.exhaust)

lemma auto_run_class: "(\<exists>p. required_approval r p = AutoRun) = is_auto_runnable_class r"
  unfolding ex_policy by (cases r) (simp_all add: required_approval_auto_iff)

lemma requires_human_differs:
  "(requires_approval (required_approval r p) \<noteq> requires_human p r) \<longleftrightarrow>
     r = WriteLocal \<and> p = RequireApproval"
  by (cases r; cases p; simp add: requires_approval_def required_approval_def)

text \<open>A risk class can run without approval under some policy exactly when it is read-only or a
  local write, never when the policy forces approval; and the decision agrees with
  \<^verbatim>\<open>requires_human\<close> everywhere except for local writes under \<^verbatim>\<open>RequireApproval\<close>, which run on
  their own although that policy documents approval for everything but read-only actions.\<close>

theorem approval_requirement_by_class:
  "((\<exists>p. required_approval r p = AutoRun) = is_auto_runnable_class r) \<and>
   required_approval r AlwaysRequireApproval = MustApprove \<and>
   ((requires_approval (required_approval r p) \<noteq> requires_human p r) =
     (r = WriteLocal \<and> p = RequireApproval))"
  by (simp only: auto_run_class requires_human_differs) (simp add: required_approval_def)

lemma is_token_to_lower: "is_token_char (to_lower_char c) = is_token_char c"
  by (auto simp: to_lower_char_def is_token_char_def is_alnum_def is_alpha_def is_upper_def
      is_lower_def is_digit_def)

lemma token_visible: "is_token_char c \<Longrightarrow> visible c"
  by (auto simp: is_token_char_def is_alnum_def is_alpha_def is_upper_def is_lower_def is_digit_def
      visible_def)

lemma drop_end: "drop n a = [] \<or> last (drop n a) = last a"
  by (cases "n < length a") (simp_all add: last_drop)

lemma take_start: "take m b = [] \<or> hd (take m b) = hd b"
  by (cases m; cases b) simp_all

lemma to_lower_append [simp]: "to_lower (a @ b) = to_lower a @ to_lower b"
  by (simp add: to_lower_def)

lemma has_sk_prefix_embedded:
  assumes "8 \<le> length k" "list_all is_token_char k"
    and "a = [] \<or> \<not> is_token_char (last a)" "b = [] \<or> \<not> is_token_char (hd b)"
  shows "has_sk_prefix (a @ (''sk-'' @ k) @ b)"
proof -
  have sk: "to_lower ''sk-'' = ''sk-''"
    by (simp add: to_lower_def to_lower_char_def is_upper_def)
  let ?w = "''sk-'' @ to_lower k"
  have tk: "list_all is_token_char (to_lower k)"
    using assms(2) by (auto simp: to_lower_def list_all_iff is_token_to_lower)
  then have "\<forall>c \<in> set ?w. \<not> \<not> is_token_char c"
    by (auto simp: list_all_iff) (simp_all add: is_token_char_def is_alnum_def is_alpha_def is_lower_def)
  moreover have "to_lower a = [] \<or> \<not> is_token_char (last (to_lower a))"
    using assms(3) by (cases a rule: rev_cases) (auto simp: to_lower_def is_token_to_lower)
  moreover have "to_lower b = [] \<or> \<not> is_token_char (hd (to_lower b))"
    using assms(4) by (cases b) (auto simp: to_lower_def is_token_to_lower)
  ultimately have "?w \<in> set (split_on (\<lambda>c. \<not> is_token_char c) (to_lower a @ ?w @ to_lower b))"
    by (rule split_on_word)
  then have "?w \<in> set (split_on (\<lambda>c. \<not> is_token_char c) (to_lower (a @ (''sk-'' @ k) @ b)))"
    using sk by (simp only: to_lower_append append.assoc)
  moreover have "starts_with ''sk-'' ?w \<and> 3 + 8 \<le> length ?w \<and> list_all is_token_char (drop 3 ?w)"
    using assms(1) tk by (simp add: starts_with_def to_lower_def)
  ultimately show ?thesis unfolding has_sk_prefix_def list_ex_iff by blast
qed

text \<open>A key of the form \<^verbatim>\<open>sk-\<close> with eight or more token characters, standing on its own in any
  text, is always detected, whatever is before and after it.\<close>

theorem embedded_key_detected:
  assumes "8 \<le> length k" "list_all is_token_char k"
    and "a = [] \<or> \<not> is_token_char (last a)" "b = [] \<or> \<not> is_token_char (hd b)"
  shows "detect_secret_like (a @ (''sk-'' @ k) @ b)"
proof -
  let ?w = "''sk-'' @ k"
  have k: "k \<noteq> []" using assms(1) by auto
  then have "visible (last k)" using assms(2) by (intro token_visible) (auto simp: list_all_iff)
  then have "visible (last ?w)" using k by simp
  moreover have "visible (hd ?w)" by (simp add: visible_def)
  ultimately obtain n m where t: "trim (a @ ?w @ b) = drop n a @ ?w @ take m b"
    using trim_keep[of ?w a b] by auto
  have "has_sk_prefix (drop n a @ ?w @ take m b)"
    using assms drop_end[of n a] take_start[of m b] by (intro has_sk_prefix_embedded) auto
  with t show ?thesis by (simp add: detect_secret_like_def)
qed

theorem embedded_key_detected_witness:
  "detect_secret_like ''deploy using sk-livelive99, then stop''"
  using embedded_key_detected[of "''livelive99''" "''deploy using ''" "'', then stop''"]
  by (simp add: is_token_char_def is_alnum_def is_alpha_def is_upper_def is_lower_def is_digit_def)

end
