(* ===== verification/Task.thy ===== *)
theory Task
  imports Policy
begin

section \<open>Action tasks: state machine, queue, durable queue\<close>

text \<open>
  Models \<^verbatim>\<open>crates/familyclaw-actions/src/task.rs\<close>: the task state machine, the in-memory queue (its
  mutex makes every operation atomic, so an operation is one state transformer), and the durable
  queue, an append-only file of task snapshots.
\<close>

datatype task_status =
    Planned | Ready | Running | NeedsApproval | Blocked | Suspended
  | TaskDone  \<comment> \<open>Done\<close>
  | Failed | Cancelled

fun show_status :: "task_status \<Rightarrow> string" where
  "show_status Planned = ''Planned''"
| "show_status Ready = ''Ready''"
| "show_status Running = ''Running''"
| "show_status NeedsApproval = ''NeedsApproval''"
| "show_status Blocked = ''Blocked''"
| "show_status Suspended = ''Suspended''"
| "show_status TaskDone = ''Done''"
| "show_status Failed = ''Failed''"
| "show_status Cancelled = ''Cancelled''"

fun is_terminal :: "task_status \<Rightarrow> bool" where
  "is_terminal TaskDone = True"
| "is_terminal Failed = True"
| "is_terminal Cancelled = True"
| "is_terminal _ = False"

definition can_transition_to :: "task_status \<Rightarrow> task_status \<Rightarrow> bool" where
  "can_transition_to self next =
     (if is_terminal self then False
      else if next = Cancelled then True
      else (self \<in> {Planned, Blocked, Suspended} \<and> next = Ready) \<or>
           (self \<in> {Ready, NeedsApproval} \<and> next = Running) \<or>
           (self = Running \<and> next \<in> {TaskDone, Failed, NeedsApproval, Blocked, Suspended}))"

record action_task =
  t_id :: task_id
  t_skill :: skill_id
  t_status :: task_status
  t_payload :: json
  t_retry :: "32 word"
  t_scheduled :: "timestamp option"
  t_deadline :: "timestamp option"
  t_proof :: "proof_id option"
  t_reason :: "string option"
  t_created :: timestamp
  t_updated :: timestamp

definition task_new :: "task_id \<Rightarrow> skill_id \<Rightarrow> json \<Rightarrow> timestamp \<Rightarrow> action_task" where
  "task_new fresh skill payload now =
     \<lparr>t_id = fresh, t_skill = skill, t_status = Planned, t_payload = payload, t_retry = 0,
      t_scheduled = None, t_deadline = None, t_proof = None, t_reason = None,
      t_created = now, t_updated = now\<rparr>"

definition with_id :: "task_id \<Rightarrow> action_task \<Rightarrow> action_task" where
  "with_id i t = t\<lparr>t_id := i\<rparr>"

definition with_scheduled_at :: "timestamp \<Rightarrow> action_task \<Rightarrow> action_task" where
  "with_scheduled_at at t = t\<lparr>t_scheduled := Some at\<rparr>"

definition with_deadline :: "timestamp \<Rightarrow> action_task \<Rightarrow> action_task" where
  "with_deadline at t = t\<lparr>t_deadline := Some at\<rparr>"

definition with_proof_bundle_id :: "proof_id \<Rightarrow> action_task \<Rightarrow> action_task" where
  "with_proof_bundle_id i t = t\<lparr>t_proof := Some i\<rparr>"

definition task_validate :: "action_task \<Rightarrow> action_error + unit" where
  "task_validate t =
     (if is_nil (t_id t) then Inl (ManifestValidation ''action task id puuttuu (nil)'')
      else if is_nil (t_skill t) then Inl (ManifestValidation ''skill id puuttuu (nil)'')
      else if t_updated t < t_created t
        then Inl (ManifestValidation (''updated_at on ennen created_at-hetke'' @ ae))
      else case (t_scheduled t, t_deadline t) of
             (Some scheduled, Some deadline) \<Rightarrow>
               if deadline < scheduled
               then Inl (ManifestValidation (''deadline on ennen scheduled_at-hetke'' @ ae))
               else Inr ()
           | _ \<Rightarrow> Inr ())"

definition is_ready_at :: "timestamp \<Rightarrow> action_task \<Rightarrow> bool" where
  "is_ready_at now t \<longleftrightarrow>
     t_status t = Ready \<and> (case t_scheduled t of None \<Rightarrow> True | Some at \<Rightarrow> at \<le> now)"

datatype task_event =
    Created task_id task_status timestamp
  | StatusChanged task_id task_status task_status timestamp  \<comment> \<open>from, to, at\<close>
  | RetryIncremented task_id "32 word" timestamp

fun event_task_id :: "task_event \<Rightarrow> task_id" where
  "event_task_id (Created i _ _) = i"
| "event_task_id (StatusChanged i _ _ _) = i"
| "event_task_id (RetryIncremented i _ _) = i"

subsection \<open>The queue\<close>

type_synonym task_queue = "(task_id, action_task) hashmap"

definition queue_new :: task_queue where
  "queue_new = []"

definition from_map :: "(task_id, action_task) hashmap \<Rightarrow> task_queue" where
  "from_map m = m"

definition not_found_msg :: "ext \<Rightarrow> task_id \<Rightarrow> action_error" where
  "not_found_msg X i = NotFound (''teht'' @ ae @ ''v'' @ ae @ ae @ '' '' @ show_uuid X i @ '' ei l'' @ oe @ ''ydy'')"

definition submit :: "ext \<Rightarrow> task_queue \<Rightarrow> action_task \<Rightarrow> (action_error + unit) \<times> task_queue" where
  "submit X q t =
     (case task_validate t of
        Inl e \<Rightarrow> (Inl e, q)
      | Inr _ \<Rightarrow>
          if hm_contains q (t_id t)
          then (Inl (ManifestValidation (''teht'' @ ae @ ''v'' @ ae @ '' '' @ show_uuid X (t_id t) @
                  '' on jo jonossa (duplikaatti)'')), q)
          else (Inr (), hm_insert (t_id t) t q))"

definition queue_get :: "task_queue \<Rightarrow> task_id \<Rightarrow> action_task option" where
  "queue_get q i = hm_get q i"

definition queue_list :: "task_queue \<Rightarrow> action_task list" where
  "queue_list q = hm_values q"

definition list_by_status :: "task_queue \<Rightarrow> task_status \<Rightarrow> action_task list" where
  "list_by_status q s = filter (\<lambda>t. t_status t = s) (hm_values q)"

definition transition_msg :: "ext \<Rightarrow> task_status \<Rightarrow> string \<Rightarrow> task_id \<Rightarrow> action_error" where
  "transition_msg X s rest i =
     IllegalTransition (show_status s @ '' -> '' @ rest @ '' (teht'' @ ae @ ''v'' @ ae @ '' '' @
       show_uuid X i @ '')'')"

definition transition ::
  "ext \<Rightarrow> task_queue \<Rightarrow> task_id \<Rightarrow> task_status \<Rightarrow> timestamp \<Rightarrow> (action_error + task_event) \<times> task_queue" where
  "transition X q i next now =
     (case hm_get q i of
        None \<Rightarrow> (Inl (not_found_msg X i), q)
      | Some task \<Rightarrow>
          if \<not> can_transition_to (t_status task) next
          then (Inl (transition_msg X (t_status task) (show_status next @ '' ei ole sallittu'') i), q)
          else (Inr (StatusChanged i (t_status task) next now),
                hm_insert i (task\<lparr>t_status := next, t_updated := now\<rparr>) q))"

definition suspend ::
  "ext \<Rightarrow> task_queue \<Rightarrow> task_id \<Rightarrow> string \<Rightarrow> timestamp \<Rightarrow> (action_error + task_event) \<times> task_queue" where
  "suspend X q i reason now =
     (case hm_get q i of
        None \<Rightarrow> (Inl (not_found_msg X i), q)
      | Some task \<Rightarrow>
          if \<not> can_transition_to (t_status task) Suspended
          then (Inl (transition_msg X (t_status task) ''Suspended ei ole sallittu'' i), q)
          else (Inr (StatusChanged i (t_status task) Suspended now),
                hm_insert i (task\<lparr>t_status := Suspended, t_reason := Some reason, t_updated := now\<rparr>) q))"

definition resume ::
  "ext \<Rightarrow> task_queue \<Rightarrow> task_id \<Rightarrow> timestamp \<Rightarrow> (action_error + task_event) \<times> task_queue" where
  "resume X q i now =
     (case hm_get q i of
        None \<Rightarrow> (Inl (not_found_msg X i), q)
      | Some task \<Rightarrow>
          if t_status task \<noteq> Suspended
          then (Inl (transition_msg X (t_status task) ''Ready (resume) vaatii Suspended-tilan'' i), q)
          else (Inr (StatusChanged i (t_status task) Ready now),
                hm_insert i (task\<lparr>t_status := Ready, t_reason := None, t_updated := now\<rparr>) q))"

definition increment_retry ::
  "ext \<Rightarrow> task_queue \<Rightarrow> task_id \<Rightarrow> timestamp \<Rightarrow> (action_error + task_event) \<times> task_queue" where
  "increment_retry X q i now =
     (case hm_get q i of
        None \<Rightarrow> (Inl (not_found_msg X i), q)
      | Some task \<Rightarrow>
          if t_retry task = - 1
          then (Inl (ExecutionFailed (''retry_count ylivuoto teht'' @ ae @ ''v'' @ ae @ ''ll'' @ ae @ '' '' @
                  show_uuid X i)), q)
          else (Inr (RetryIncremented i (t_retry task + 1) now),
                hm_insert i (task\<lparr>t_retry := t_retry task + 1, t_updated := now\<rparr>) q))"

text \<open>\<^verbatim>\<open>min_by_key\<close>: the first of the elements with the smallest key.\<close>

fun min_by :: "('a \<Rightarrow> 'k :: linorder) \<Rightarrow> 'a list \<Rightarrow> 'a option" where
  "min_by f [] = None"
| "min_by f (x # xs) =
     (case min_by f xs of
        None \<Rightarrow> Some x
      | Some y \<Rightarrow> if f x \<le> f y then Some x else Some y)"

definition next_ready :: "task_queue \<Rightarrow> timestamp \<Rightarrow> action_task option" where
  "next_ready q now = min_by t_id (filter (is_ready_at now) (hm_values q))"

subsection \<open>Invariants of the queue\<close>

text \<open>Every key is the id of its task, and no key occurs twice.\<close>

definition queue_ok :: "task_queue \<Rightarrow> bool" where
  "queue_ok q \<longleftrightarrow> hm_ok q \<and> (\<forall>i t. hm_get q i = Some t \<longrightarrow> t_id t = i)"

datatype queue_op =
    Submit action_task
  | Transition task_id task_status timestamp
  | Suspend task_id string timestamp
  | Resume task_id timestamp
  | IncrementRetry task_id timestamp

fun apply_op :: "ext \<Rightarrow> task_queue \<Rightarrow> queue_op \<Rightarrow> task_queue" where
  "apply_op X q (Submit t) = snd (submit X q t)"
| "apply_op X q (Transition i next now) = snd (transition X q i next now)"
| "apply_op X q (Suspend i reason now) = snd (suspend X q i reason now)"
| "apply_op X q (Resume i now) = snd (resume X q i now)"
| "apply_op X q (IncrementRetry i now) = snd (increment_retry X q i now)"

definition run_ops :: "ext \<Rightarrow> task_queue \<Rightarrow> queue_op list \<Rightarrow> task_queue" where
  "run_ops X = foldl (apply_op X)"

lemma queue_ok_insert: "queue_ok q \<Longrightarrow> t_id t = i \<Longrightarrow> queue_ok (hm_insert i t q)"
  unfolding queue_ok_def by (simp del: map_of_eq_Some_iff)

lemma queue_ok_id: "queue_ok q \<Longrightarrow> hm_get q i = Some t \<Longrightarrow> t_id t = i"
  by (simp add: queue_ok_def del: map_of_eq_Some_iff)

lemma submit_ok: "queue_ok q \<Longrightarrow> queue_ok (snd (submit X q t))"
  by (auto simp: submit_def split: sum.splits intro: queue_ok_insert)

lemma transition_ok: "queue_ok q \<Longrightarrow> queue_ok (snd (transition X q i s now))"
  by (auto simp: transition_def split: option.splits intro!: queue_ok_insert dest: queue_ok_id)

lemma apply_op_ok: "queue_ok q \<Longrightarrow> queue_ok (apply_op X q op)"
proof (cases op)
  case (Submit t)
  then show "queue_ok q \<Longrightarrow> queue_ok (apply_op X q op)" by (simp add: submit_ok)
next
  case (Transition i s now)
  then show "queue_ok q \<Longrightarrow> queue_ok (apply_op X q op)" by (simp add: transition_ok)
qed (auto simp: suspend_def resume_def increment_retry_def split: option.splits
    intro!: queue_ok_insert dest: queue_ok_id)

lemma run_ops_ok: "queue_ok q \<Longrightarrow> queue_ok (run_ops X q ops)"
  unfolding run_ops_def by (induction ops arbitrary: q) (auto intro: apply_op_ok)

text \<open>
  The life of a task, written out edge by edge: what each operation of the queue makes of the status of
  one task.
\<close>

fun lifecycle_edges :: "task_status \<Rightarrow> task_status list" where
  "lifecycle_edges Planned = [Ready, Cancelled]"
| "lifecycle_edges Ready = [Running, Cancelled]"
| "lifecycle_edges Running = [TaskDone, Failed, NeedsApproval, Blocked, Suspended, Cancelled]"
| "lifecycle_edges NeedsApproval = [Running, Cancelled]"
| "lifecycle_edges Blocked = [Ready, Cancelled]"
| "lifecycle_edges Suspended = [Ready, Cancelled]"
| "lifecycle_edges TaskDone = []"
| "lifecycle_edges Failed = []"
| "lifecycle_edges Cancelled = []"

fun next_status :: "task_id \<Rightarrow> task_status \<Rightarrow> queue_op \<Rightarrow> task_status" where
  "next_status i s (Transition j s' now) = (if j = i \<and> s' \<in> set (lifecycle_edges s) then s' else s)"
| "next_status i s (Suspend j reason now) = (if j = i \<and> s = Running then Suspended else s)"
| "next_status i s (Resume j now) = (if j = i \<and> s = Suspended then Ready else s)"
| "next_status i s _ = s"

lemma edges_transition: "can_transition_to s s' \<longleftrightarrow> s' \<in> set (lifecycle_edges s)"
  by (cases s; cases s') (simp_all add: can_transition_to_def)

lemma suspend_edge: "can_transition_to s Suspended \<longleftrightarrow> s = Running"
  by (cases s) (simp_all add: can_transition_to_def)

lemma terminal_edges: "is_terminal s \<longleftrightarrow> lifecycle_edges s = []"
  by (cases s) simp_all

lemma apply_op_get:
  assumes "hm_get q i = Some t"
  shows "\<exists>t'. hm_get (apply_op X q op) i = Some t' \<and> t_status t' = next_status i (t_status t) op \<and>
    t_id t' = t_id t \<and> t_skill t' = t_skill t \<and> t_payload t' = t_payload t \<and> t_created t' = t_created t"
proof (cases op)
  case (Submit t0)
  then show ?thesis using assms by (auto simp: submit_def hm_contains_def split: sum.splits)
next
  case (Transition j s now)
  then show ?thesis using assms by (auto simp: transition_def edges_transition split: option.splits)
next
  case (Suspend j r now)
  then show ?thesis using assms by (auto simp: suspend_def suspend_edge split: option.splits)
next
  case (Resume j now)
  then show ?thesis using assms by (auto simp: resume_def split: option.splits)
next
  case (IncrementRetry j now)
  then show ?thesis using assms by (auto simp: increment_retry_def split: option.splits)
qed

lemma next_status_terminal: "is_terminal s \<Longrightarrow> next_status i s op = s"
  by (cases op) (auto simp: terminal_edges)

lemma next_statuses_terminal: "is_terminal s \<Longrightarrow> foldl (next_status i) s ops = s"
  by (induction ops) (simp_all add: next_status_terminal)

lemma run_ops_get:
  "hm_get q i = Some t \<Longrightarrow>
   \<exists>t'. hm_get (run_ops X q ops) i = Some t' \<and> t_status t' = foldl (next_status i) (t_status t) ops \<and>
     t_id t' = t_id t \<and> t_skill t' = t_skill t \<and> t_payload t' = t_payload t \<and> t_created t' = t_created t"
proof (induction ops arbitrary: q t)
  case (Cons op ops)
  obtain t1 where t1: "hm_get (apply_op X q op) i = Some t1" "t_status t1 = next_status i (t_status t) op"
      "t_id t1 = t_id t" "t_skill t1 = t_skill t" "t_payload t1 = t_payload t" "t_created t1 = t_created t"
    using apply_op_get[OF Cons.prems, of X op] by blast
  from Cons.IH[OF t1(1)] t1(2-) show ?case by (simp add: run_ops_def del: map_of_eq_Some_iff)
qed (simp add: run_ops_def del: map_of_eq_Some_iff)

lemma min_by_Some:
  "min_by f xs = Some x \<Longrightarrow> x \<in> set xs \<and> (\<forall>y \<in> set xs. f x \<le> f y)"
  for f :: "'a \<Rightarrow> 'k :: linorder"
proof (induction xs arbitrary: x)
  case (Cons a xs)
  show ?case
  proof (cases "min_by f xs")
    case None
    then have "xs = []" by (cases xs) (auto split: option.splits if_splits)
    with Cons.prems show ?thesis by simp
  next
    case (Some y)
    with Cons.IH[OF Some] Cons.prems show ?thesis by (auto split: if_splits)
  qed
qed simp

lemma min_by_None: "min_by f xs = None \<longleftrightarrow> xs = []"
  by (cases xs) (auto split: option.splits)

text \<open>C32: whatever operations run on the queue, in whatever order, a task never disappears and keeps its
  id, skill, payload and creation time. Its status after them is exactly what the documented life of a
  task makes of it, operation by operation: a transition moves it along an edge of the table or not at
  all, a suspension only a running task, a resumption only a suspended one, and a done, failed or
  cancelled task keeps its status forever.\<close>

theorem task_lifecycle:
  assumes "queue_ok q" "hm_get q i = Some t"
  shows "queue_ok (run_ops X q ops) \<and>
    (\<exists>t'. hm_get (run_ops X q ops) i = Some t' \<and> t_status t' = foldl (next_status i) (t_status t) ops \<and>
      t_id t' = i \<and> t_skill t' = t_skill t \<and> t_payload t' = t_payload t \<and> t_created t' = t_created t \<and>
      (is_terminal (t_status t) \<longrightarrow> t_status t' = t_status t))"
proof -
  have "t_id t = i" using queue_ok_id[OF assms] .
  moreover obtain t' where "hm_get (run_ops X q ops) i = Some t'" "t_status t' = foldl (next_status i) (t_status t) ops"
      "t_id t' = t_id t \<and> t_skill t' = t_skill t \<and> t_payload t' = t_payload t \<and> t_created t' = t_created t"
    using run_ops_get[OF assms(2), of X ops] by blast
  ultimately show ?thesis
    using run_ops_ok[OF assms(1), of X ops] next_statuses_terminal[of "t_status t" i ops]
    by (simp del: map_of_eq_Some_iff)
qed

definition sample_ext :: ext where
  "sample_ext = \<lparr>show_uuid = (\<lambda>u. show_nat (unat u)), sha256 = (\<lambda>s. s),
     json_bytes = (\<lambda>v. case v of JStr s \<Rightarrow> Inr s | _ \<Rightarrow> Inr []), ts_min = - 1000000, ts_max = 1000000\<rparr>"

definition sample_task :: action_task where
  "sample_task = task_new 5 9 (JStr ''p'') 100"

theorem task_lifecycle_witness:
  "\<exists>t'. hm_get (run_ops sample_ext [(5, sample_task)]
      [Transition 5 Running 101, Transition 5 Ready 102, Transition 5 Running 103, Suspend 5 ''busy'' 104, Transition 5 TaskDone 105,
       Resume 5 106]) 5 = Some t' \<and> t_status t' = Ready"
proof -
  let ?q = "[(5 :: task_id, sample_task)]"
  have q: "queue_ok ?q" by (simp add: queue_ok_def sample_task_def task_new_def)
  have t: "hm_get ?q 5 = Some sample_task" by simp
  have s: "t_status sample_task = Planned" by (simp add: sample_task_def task_new_def)
  from task_lifecycle[OF q t, of sample_ext "[Transition 5 Running 101, Transition 5 Ready 102, Transition 5 Running 103,
      Suspend 5 ''busy'' 104, Transition 5 TaskDone 105, Resume 5 106]"]
  show ?thesis unfolding s by (auto simp del: map_of_eq_Some_iff)
qed

text \<open>\<^verbatim>\<open>next_ready\<close> picks a ready, due task with the smallest id, and reports none exactly when
  there is none.\<close>

theorem next_ready_smallest:
  assumes "queue_ok q"
  shows "case next_ready q now of
      None \<Rightarrow> \<forall>i t. hm_get q i = Some t \<longrightarrow> \<not> is_ready_at now t
    | Some t \<Rightarrow> hm_get q (t_id t) = Some t \<and> is_ready_at now t \<and>
        (\<forall>i t'. hm_get q i = Some t' \<and> is_ready_at now t' \<longrightarrow> t_id t \<le> i)"
proof (cases "next_ready q now")
  case None
  then have "filter (is_ready_at now) (hm_values q) = []"
    by (simp add: next_ready_def min_by_None)
  then have "\<forall>t \<in> set (hm_values q). \<not> is_ready_at now t" by (simp add: filter_empty_conv)
  with None show ?thesis by (auto dest!: hm_get_mem)
next
  case (Some t)
  then have t: "t \<in> set (hm_values q)" "is_ready_at now t"
    and least: "\<And>t'. t' \<in> set (hm_values q) \<Longrightarrow> is_ready_at now t' \<Longrightarrow> t_id t \<le> t_id t'"
    using min_by_Some[of t_id "filter (is_ready_at now) (hm_values q)" t]
    by (auto simp: next_ready_def)
  then obtain i where "(i, t) \<in> set q" by auto
  then have i: "hm_get q i = Some t" using assms by (simp add: queue_ok_def hm_get_iff)
  have "hm_get q j = Some t' \<Longrightarrow> is_ready_at now t' \<Longrightarrow> t_id t \<le> j" for j t'
    using least[of t'] assms hm_get_mem[of q j t'] by (force simp: queue_ok_def)
  with Some t i assms show ?thesis by (auto simp: queue_ok_def)
qed

theorem next_ready_smallest_witness:
  "next_ready [(7, sample_task\<lparr>t_id := 7, t_status := Ready\<rparr>), (5, sample_task\<lparr>t_status := Ready\<rparr>)] 200 =
     Some (sample_task\<lparr>t_status := Ready\<rparr>) \<and>
   hm_get [(7 :: task_id, sample_task\<lparr>t_id := 7, t_status := Ready\<rparr>), (5, sample_task\<lparr>t_status := Ready\<rparr>)] 5 =
     Some (sample_task\<lparr>t_status := Ready\<rparr>)"
proof -
  let ?q = "[(7 :: task_id, sample_task\<lparr>t_id := 7, t_status := Ready\<rparr>), (5, sample_task\<lparr>t_status := Ready\<rparr>)]"
  have n: "next_ready ?q 200 = Some (sample_task\<lparr>t_status := Ready\<rparr>)"
    by (simp add: next_ready_def is_ready_at_def sample_task_def task_new_def)
  have q: "queue_ok ?q" by (auto simp: queue_ok_def sample_task_def task_new_def)
  have "hm_get ?q (t_id (sample_task\<lparr>t_status := Ready\<rparr>)) = Some (sample_task\<lparr>t_status := Ready\<rparr>)"
    using next_ready_smallest[OF q, of 200] unfolding n by (simp only: option.case)
  moreover have "t_id (sample_task\<lparr>t_status := Ready\<rparr>) = 5" by (simp add: sample_task_def task_new_def)
  ultimately show ?thesis using n by simp
qed

end
