(* ===== verification/Task_Log.thy ===== *)
theory Task_Log
  imports Task
begin

section \<open>The durable task queue\<close>

text \<open>
  Models \<^verbatim>\<open>DurableTaskQueue\<close> of \<^verbatim>\<open>crates/familyclaw-actions/src/task.rs\<close>: a file of task
  snapshots, one JSON line each, in which the last snapshot of a task wins. The encoder of tasks
  (\<^verbatim>\<open>serde_json\<close>) is the parameter \<open>TC\<close>, with the assumptions \<open>task_codec_ok\<close>.
\<close>

record task_codec =
  task_to_string :: "action_task \<Rightarrow> string + string"
  task_from_str :: "string \<Rightarrow> string + action_task"

definition task_codec_ok :: "task_codec \<Rightarrow> bool" where
  "task_codec_ok TC \<longleftrightarrow>
     (\<forall>t l. task_to_string TC t = Inr l \<longrightarrow>
        task_from_str TC l = Inr t \<and> l \<noteq> [] \<and> hd l = CHR ''{'' \<and> last l = CHR ''}'' \<and>
        nl \<notin> set l \<and> utf8_valid l \<and> (\<forall>n < length l. isl (task_from_str TC (trim (take n l)))))"

fun io_text :: "durable_error \<Rightarrow> string" where
  "io_text (Io m) = m"
| "io_text e = show_durable_error e"

definition task_append ::
  "task_codec \<Rightarrow> path \<Rightarrow> fault \<Rightarrow> fs \<Rightarrow> action_task \<Rightarrow> (action_error + unit) outcome \<times> fs" where
  "task_append TC p fl d t =
     (case task_validate t of
        Inl e \<Rightarrow> (Done (Inl e), d)
      | Inr _ \<Rightarrow>
          (case task_to_string TC t of
             Inl m \<Rightarrow> (Done (Inl (Proof (''snapshot serialize failed: '' @ m))), d)
           | Inr l \<Rightarrow>
               (case write_sync fl d p (l @ [nl]) of
                  (Killed, d') \<Rightarrow> (Killed, d')
                | (Done (Inl e), d') \<Rightarrow> (Done (Inl (Proof (''append durable line failed: '' @ io_text e))), d')
                | (Done (Inr _), d') \<Rightarrow> (Done (Inr ()), d'))))"

fun reload_lines ::
  "task_codec \<Rightarrow> nat \<Rightarrow> string list \<Rightarrow> (task_id, action_task) hashmap \<Rightarrow>
   action_error + (task_id, action_task) hashmap" where
  "reload_lines TC lineno [] latest = Inr latest"
| "reload_lines TC lineno (raw # rest) latest =
     (let trimmed = trim raw
      in if trimmed = [] then reload_lines TC (lineno + 1) rest latest
         else case task_from_str TC trimmed of
                Inl e \<Rightarrow> Inl (Proof (''rivin '' @ show_nat (lineno + 1) @ '' j'' @ ae @ ''sennys ep'' @ ae @
                          ''onnistui: '' @ e))
              | Inr t \<Rightarrow> reload_lines TC (lineno + 1) rest (hm_insert (t_id t) t latest))"

definition reload :: "task_codec \<Rightarrow> path \<Rightarrow> fs \<Rightarrow> action_error + (task_id, action_task) hashmap" where
  "reload TC p d =
     (case d p of
        None \<Rightarrow> Inr []
      | Some text \<Rightarrow>
          if \<not> utf8_valid text then Inl (Proof ''durable file not utf-8: invalid utf-8 sequence'')
          else reload_lines TC 0 (buf_lines text) [])"

definition load_into_queue :: "task_codec \<Rightarrow> path \<Rightarrow> fs \<Rightarrow> action_error + task_queue" where
  "load_into_queue TC p d = (case reload TC p d of Inl e \<Rightarrow> Inl e | Inr m \<Rightarrow> Inr m)"

subsection \<open>The file of snapshots\<close>

text \<open>A snapshot file at rest: the lines of these tasks, each terminated.\<close>

fun snapshot_text :: "task_codec \<Rightarrow> action_task list \<Rightarrow> string option" where
  "snapshot_text TC [] = Some []"
| "snapshot_text TC (t # ts) =
     (case task_to_string TC t of
        Inl _ \<Rightarrow> None
      | Inr l \<Rightarrow> (case snapshot_text TC ts of None \<Rightarrow> None | Some b \<Rightarrow> Some (l @ nl # b)))"

definition latest_tasks :: "action_task list \<Rightarrow> (task_id, action_task) hashmap" where
  "latest_tasks ts = foldl (\<lambda>m t. hm_insert (t_id t) t m) [] ts"

lemma task_line:
  assumes "task_codec_ok TC" "task_to_string TC t = Inr l"
  shows "task_from_str TC l = Inr t" "l \<noteq> []" "hd l = CHR ''{''" "last l = CHR ''}''"
    "nl \<notin> set l" "utf8_valid l" "trim l = l"
    "n < length l \<Longrightarrow> isl (task_from_str TC (trim (take n l)))"
proof -
  show l: "task_from_str TC l = Inr t" "l \<noteq> []" "hd l = CHR ''{''" "last l = CHR ''}''"
    "nl \<notin> set l" "utf8_valid l" "n < length l \<Longrightarrow> isl (task_from_str TC (trim (take n l)))"
    using assms unfolding task_codec_ok_def by auto
  have "visible (hd l)" "visible (last l)" using l by (simp_all add: visible_def)
  then show "trim l = l" using trim_keep[OF l(2), of "[]" "[]"] by simp
qed

lemma utf8_ok_append: "utf8_ok a \<Longrightarrow> utf8_ok (a @ b) = utf8_ok b"
  by (induction a rule: utf8_ok.induct) (auto split: if_splits list.splits)

lemma utf8_valid_append: "utf8_valid a \<Longrightarrow> utf8_valid (a @ b) = utf8_valid b"
  by (simp add: utf8_valid_def utf8_ok_append)

lemma utf8_nl: "utf8_valid [nl]"
  by (simp add: utf8_valid_def nl_def)

lemma reload_lines_append:
  "reload_lines TC n ls m = Inr m' \<Longrightarrow>
   reload_lines TC n (ls @ ks) m = reload_lines TC (n + length ls) ks m'"
  by (induction TC n ls m rule: reload_lines.induct)
    (auto simp: Let_def split: if_splits sum.splits)

lemma snapshot_text_reload:
  assumes TC: "task_codec_ok TC" and "snapshot_text TC ts = Some c"
  shows "clean c \<and> utf8_valid c \<and>
    (\<forall>n m. reload_lines TC n (buf_lines c) m = Inr (foldl (\<lambda>m t. hm_insert (t_id t) t m) m ts))"
  using assms(2)
proof (induction ts arbitrary: c)
  case Nil
  then show ?case by (simp add: buf_lines_def utf8_valid_def)
next
  case (Cons t ts)
  then obtain l b where l: "task_to_string TC t = Inr l" and b: "snapshot_text TC ts = Some b"
    and c: "c = l @ nl # b" by (auto split: option.splits sum.splits)
  note row = task_line[OF TC l]
  have bl: "buf_lines (l @ nl # b) = l # buf_lines b"
    using row(4,5) by (simp add: buf_lines_def line_content_def cr_def)
  have "utf8_valid c"
    using utf8_valid_append[OF row(6), of "[nl] @ b"] utf8_valid_append[OF utf8_nl, of b] Cons.IH[OF b] c
    by simp
  with Cons.IH[OF b] row bl c show ?case by (auto simp: clean_def Let_def)
qed

lemma snapshot_text_append:
  "snapshot_text TC ts = Some c \<Longrightarrow> task_to_string TC t = Inr l \<Longrightarrow>
   snapshot_text TC (ts @ [t]) = Some (c @ l @ [nl])"
  by (induction ts arbitrary: c) (auto split: sum.splits option.splits)

lemma latest_tasks_get:
  "hm_get (latest_tasks ts) i = find (\<lambda>t. t_id t = i) (rev ts)"
  unfolding latest_tasks_def
  by (induction ts rule: rev_induct) auto

text \<open>The durable queue is a log in which the last snapshot of a task wins: after a file of
  snapshots, a successful append of one more is what reloading gives back for that task, and every
  other task is as before.\<close>

theorem durable_append_reload:
  assumes "task_codec_ok TC" "snapshot_text TC ts = Some c" "d p = Some c"
    and "task_append TC p fl d t = (Done (Inr ()), d')"
  shows "\<exists>m. reload TC p d' = Inr m \<and> hm_get m (t_id t) = Some t \<and>
    (\<forall>i. i \<noteq> t_id t \<longrightarrow> hm_get m i = find (\<lambda>t. t_id t = i) (rev ts)) \<and>
    (\<exists>m0. reload TC p d = Inr m0 \<and> (\<forall>i. hm_get m0 i = find (\<lambda>t. t_id t = i) (rev ts)))"
proof -
  from assms(4) obtain l where l: "task_to_string TC t = Inr l" and v: "task_validate t = Inr ()"
    by (auto simp: task_append_def split: sum.splits)
  have "fl = NoFault" using assms(4) l v by (cases fl) (auto simp: task_append_def)
  then have d': "d' p = Some (c @ l @ [nl])"
    using assms(3,4) l v by (auto simp: task_append_def fs_append_def fs_content_def)
  note new = snapshot_text_reload[OF assms(1) snapshot_text_append[OF assms(2) l]]
  note old = snapshot_text_reload[OF assms(1,2)]
  have "reload TC p d' = Inr (latest_tasks (ts @ [t]))"
    using new d' by (simp add: reload_def latest_tasks_def)
  moreover have "reload TC p d = Inr (latest_tasks ts)"
    using old assms(3) by (simp add: reload_def latest_tasks_def)
  ultimately show ?thesis by (simp add: latest_tasks_get)
qed

text \<open>A process death in the middle of an append to the durable queue leaves a file that can no
  longer be loaded at all: unlike the journals of the durable crate, reading does not tolerate an
  unfinished last line and opening does not remove it.\<close>

theorem torn_snapshot_blocks_reload:
  assumes "task_codec_ok TC" "snapshot_text TC ts = Some c" "d p = Some c"
    and "task_validate t = Inr ()" "task_to_string TC t = Inr l" "0 < n" "n < length l"
    and "task_append TC p (Kill n) d t = (r, d')"
  shows "r = Killed \<and> isl (reload TC p d') \<and> isl (load_into_queue TC p d')"
proof -
  have d': "r = Killed \<and> d' p = Some (c @ take n l)"
    using assms(3,4,5,7,8) by (auto simp: task_append_def fs_append_def fs_content_def)
  note old = snapshot_text_reload[OF assms(1,2)]
  note row = task_line[OF assms(1,5)]
  have f: "take n l \<noteq> []" "hd (take n l) = CHR ''{''" using assms(6,7) row(2,3) by auto
  have nn: "nl \<notin> set (take n l)" using row(5) by (meson in_set_takeD)
  have bl: "buf_lines (c @ take n l) = buf_lines c @ [take n l]"
    using old buf_lines_no_nl[OF nn] f(1) by (simp add: buf_lines_append_clean)
  have "\<exists>k. trim ([] @ [CHR ''{''] @ tl (take n l)) = drop 0 [] @ [CHR ''{''] @ k"
    using trim_keep[of "[CHR ''{'']" "[]" "tl (take n l)"] by (auto simp: visible_def)
  then have t: "trim (take n l) \<noteq> []" using f by (cases "take n l") auto
  have "isl (reload_lines TC 0 (buf_lines (c @ take n l)) [])"
    unfolding bl using reload_lines_append[of TC 0 "buf_lines c" "[]" _ "[take n l]"] old
      row(8)[OF assms(7)] t by (auto simp: Let_def split: sum.splits)
  with d' show ?thesis
    by (cases "reload TC p d'") (auto simp: reload_def load_into_queue_def split: if_splits)
qed

subsection \<open>A concrete encoder\<close>

definition sample_task_codec :: task_codec where
  "sample_task_codec =
     \<lparr>task_to_string = (\<lambda>t. if t = sample_task then Inr ''{5}'' else Inl ''unsupported''),
      task_from_str = (\<lambda>l. if l = ''{5}'' then Inr sample_task else Inl ''EOF'')\<rparr>"

lemma sample_task_codec_ok: "task_codec_ok sample_task_codec"
proof -
  have "trim (take n ''{5}'') \<noteq> ''{5}''" if "n < 3" for n
  proof -
    have "trim (take 0 ''{5}'') \<noteq> ''{5}''" "trim (take 1 ''{5}'') \<noteq> ''{5}''" "trim (take 2 ''{5}'') \<noteq> ''{5}''"
      by code_simp+
    moreover from that have "n = 0 \<or> n = 1 \<or> n = 2" by linarith
    ultimately show ?thesis by blast
  qed
  then show ?thesis
    by (auto simp: task_codec_ok_def sample_task_codec_def nl_def utf8_ascii split: if_splits)
qed

theorem durable_append_reload_witness:
  "\<exists>m. reload sample_task_codec ''q'' (snd (task_append sample_task_codec ''q'' NoFault [''q'' \<mapsto> []] sample_task))
      = Inr m \<and> hm_get m 5 = Some sample_task"
proof -
  have "task_append sample_task_codec ''q'' NoFault [''q'' \<mapsto> []] sample_task =
      (Done (Inr ()), [''q'' \<mapsto> ''{5}'' @ [nl]])"
    by (simp add: task_append_def sample_task_codec_def task_validate_def sample_task_def task_new_def
        is_nil_def nil_id_def fs_append_def fs_content_def)
  from durable_append_reload[OF sample_task_codec_ok, of "[]" "[]" _ _ NoFault, OF _ _ this] this
  show ?thesis by (auto simp: sample_task_def task_new_def)
qed

theorem torn_snapshot_blocks_reload_witness:
  "isl (reload sample_task_codec ''q''
     (snd (task_append sample_task_codec ''q'' (Kill 2) [''q'' \<mapsto> []] sample_task)))"
proof -
  obtain r d' where a: "task_append sample_task_codec ''q'' (Kill 2) [''q'' \<mapsto> []] sample_task = (r, d')"
    by (rule prod.exhaust)
  have "task_validate sample_task = Inr ()"
    by (simp add: task_validate_def sample_task_def task_new_def is_nil_def nil_id_def)
  from torn_snapshot_blocks_reload[OF sample_task_codec_ok, of "[]" "[]" _ _ _ "''{5}''" 2, OF _ _ this _ _ _ a] a
  show ?thesis by (simp add: sample_task_codec_def)
qed

end
