(* ===== verification/Approval.thy ===== *)
theory Approval
  imports Task_Log
begin

section \<open>Approvals and the audit log\<close>

text \<open>
  Models \<^verbatim>\<open>crates/familyclaw-actions/src/approval.rs\<close> (the approval ledger: grants that bind a
  payload hash, expire and are consumed once) and \<^verbatim>\<open>audit.rs\<close> (the append-only logs). SHA-256 is
  the parameter \<open>sha256\<close> of \<open>ext\<close>.
\<close>

subsection \<open>Audit (audit.rs)\<close>

datatype audit_action =
    ApprovalGranted | ApprovalConsumed | ApprovalDenied | ApprovalExpired | ApprovalRejected

record audit_event =
  ae_id :: event_id
  ae_action :: audit_action
  ae_action_id :: action_id
  ae_approval :: "approval_id option"
  ae_at :: timestamp
  ae_reason :: string

definition audit_event_new ::
  "event_id \<Rightarrow> audit_action \<Rightarrow> action_id \<Rightarrow> approval_id option \<Rightarrow> timestamp \<Rightarrow> string \<Rightarrow> audit_event" where
  "audit_event_new fresh action action_id approval at reason =
     \<lparr>ae_id = fresh, ae_action = action, ae_action_id = action_id, ae_approval = approval,
      ae_at = at, ae_reason = reason\<rparr>"

type_synonym audit_log = "audit_event list"

definition audit_append :: "audit_log \<Rightarrow> audit_event \<Rightarrow> event_id \<times> audit_log" where
  "audit_append log e = (ae_id e, log @ [e])"

definition audit_len :: "audit_log \<Rightarrow> nat" where
  "audit_len log = length log"

definition audit_is_empty :: "audit_log \<Rightarrow> bool" where
  "audit_is_empty log \<longleftrightarrow> log = []"

definition audit_events_for :: "audit_log \<Rightarrow> action_id \<Rightarrow> audit_event list" where
  "audit_events_for log a = filter (\<lambda>e. ae_action_id e = a) log"

definition contains_action :: "audit_log \<Rightarrow> audit_action \<Rightarrow> bool" where
  "contains_action log a \<longleftrightarrow> list_ex (\<lambda>e. ae_action e = a) log"

text \<open>
  The collector of the execution stack; its mutex recovers from poisoning, so recording is one step.
\<close>

datatype audit_kind =
    KApprovalGranted | KApprovalConsumed | KApprovalDenied | KApprovalExpired
  | ActionStarted | ActionSucceeded | ActionFailed | RedactionApplied | TaintMarked | KPolicyDenied
  | TurnStarted | ToolDispatched | TurnSuspended | TurnResumed | TurnAnswered | TurnMaxIterations

record exec_event =
  xe_id :: event_id
  xe_kind :: audit_kind
  xe_at :: timestamp
  xe_action_id :: action_id
  xe_detail :: string

definition exec_event_new ::
  "event_id \<Rightarrow> audit_kind \<Rightarrow> action_id \<Rightarrow> timestamp \<Rightarrow> string \<Rightarrow> exec_event" where
  "exec_event_new fresh kind action_id at detail =
     \<lparr>xe_id = fresh, xe_kind = kind, xe_at = at, xe_action_id = action_id, xe_detail = detail\<rparr>"

type_synonym audit_collector = "exec_event list"

definition collector_record :: "audit_collector \<Rightarrow> exec_event \<Rightarrow> event_id \<times> audit_collector" where
  "collector_record c e = (xe_id e, c @ [e])"

definition collector_list :: "audit_collector \<Rightarrow> exec_event list" where
  "collector_list c = c"

definition collector_events_for :: "audit_collector \<Rightarrow> action_id \<Rightarrow> exec_event list" where
  "collector_events_for c a = filter (\<lambda>e. xe_action_id e = a) c"

definition collector_len :: "audit_collector \<Rightarrow> nat" where
  "collector_len c = length c"

subsection \<open>Hashes and expiry (approval.rs)\<close>

definition sha256_hex :: "ext \<Rightarrow> string \<Rightarrow> string" where
  "sha256_hex X payload = concat (map hex_byte (sha256 X payload))"

definition saturating_expiry :: "ext \<Rightarrow> timestamp \<Rightarrow> int \<Rightarrow> timestamp" where
  "saturating_expiry X now ttl =
     (if ts_min X \<le> now + ttl \<and> now + ttl \<le> ts_max X then now + ttl
      else if ttl < 0 then ts_min X
      else ts_max X)"

definition constant_time_eq :: "string \<Rightarrow> string \<Rightarrow> bool" where
  "constant_time_eq a b =
     (if length a \<noteq> length b then False
      else foldl (\<lambda>diff (x, y). or diff (xor (of_char x) (of_char y))) (0 :: 8 word) (zip a b) = 0)"

record approval =
  a_id :: approval_id
  a_action_id :: action_id
  a_payload_hash :: string
  a_granted_at :: timestamp
  a_expires_at :: timestamp
  a_consumed :: bool

definition is_expired :: "approval \<Rightarrow> timestamp \<Rightarrow> bool" where
  "is_expired a now \<longleftrightarrow> now > a_expires_at a"

subsection \<open>The ledger\<close>

record ledger =
  approvals :: "(approval_id, approval) hashmap"
  l_audit :: audit_log

definition ledger_new :: ledger where
  "ledger_new = \<lparr>approvals = [], l_audit = []\<rparr>"

definition l_note :: "audit_event \<Rightarrow> ledger \<Rightarrow> ledger" where
  "l_note e l = l\<lparr>l_audit := snd (audit_append (l_audit l) e)\<rparr>"

definition msg_granted :: string where
  "msg_granted = ''hyv'' @ ae @ ''ksynt'' @ ae @ '' my'' @ oe @ ''nnetty''"

definition msg_expired :: string where
  "msg_expired = ''hyv'' @ ae @ ''ksynt'' @ ae @ '' vanhentunut kulutusyrityksess'' @ ae"

definition msg_reused :: string where
  "msg_reused = ''hyv'' @ ae @ ''ksynt'' @ ae @ '' jo kulutettu (uudelleenk'' @ ae @ ''ytt'' @ oe @ '' estetty)''"

definition msg_mismatch :: string where
  "msg_mismatch = ''payload-tiiviste ei t'' @ ae @ ''sm'' @ ae @ ae @ '' hyv'' @ ae @ ''ksynt'' @ ae @ ae @ ''n''"

definition msg_consumed :: string where
  "msg_consumed = ''hyv'' @ ae @ ''ksynt'' @ ae @ '' kulutettu''"

definition grant ::
  "ext \<Rightarrow> approval_id \<Rightarrow> event_id \<Rightarrow> ledger \<Rightarrow> action_id \<Rightarrow> string \<Rightarrow> timestamp \<Rightarrow> int \<Rightarrow> approval \<times> ledger" where
  "grant X fresh ev l action_id payload_hash now ttl =
     (let a = \<lparr>a_id = fresh, a_action_id = action_id, a_payload_hash = payload_hash,
               a_granted_at = now, a_expires_at = saturating_expiry X now ttl, a_consumed = False\<rparr>;
          l1 = l_note (audit_event_new ev ApprovalGranted action_id (Some fresh) now msg_granted) l
      in (a, l1\<lparr>approvals := hm_insert fresh a (approvals l1)\<rparr>))"

definition consume ::
  "ext \<Rightarrow> event_id \<Rightarrow> ledger \<Rightarrow> approval_id \<Rightarrow> string \<Rightarrow> timestamp \<Rightarrow> (action_error + unit) \<times> ledger" where
  "consume X ev l i payload now =
     (case hm_get (approvals l) i of
        None \<Rightarrow> (Inl (ApprovalMissingErr (show_uuid X i)), l)
      | Some a \<Rightarrow>
          if is_expired a now
          then (Inl (ApprovalExpiredErr (show_uuid X i)),
                l_note (audit_event_new ev ApprovalExpired (a_action_id a) (Some i) now msg_expired) l)
          else if a_consumed a
          then (Inl (ApprovalReusedErr (show_uuid X i)),
                l_note (audit_event_new ev ApprovalRejected (a_action_id a) (Some i) now msg_reused) l)
          else if \<not> constant_time_eq (sha256_hex X payload) (a_payload_hash a)
          then (Inl (ApprovalPayloadMismatchErr (show_uuid X i)),
                l_note (audit_event_new ev ApprovalRejected (a_action_id a) (Some i) now msg_mismatch) l)
          else (Inr (),
                l_note (audit_event_new ev ApprovalConsumed (a_action_id a) (Some i) now msg_consumed)
                  (l\<lparr>approvals := hm_insert i (a\<lparr>a_consumed := True\<rparr>) (approvals l)\<rparr>)))"

definition deny :: "event_id \<Rightarrow> ledger \<Rightarrow> action_id \<Rightarrow> string \<Rightarrow> timestamp \<Rightarrow> audit_event \<times> ledger" where
  "deny ev l action_id reason now =
     (let e = audit_event_new ev ApprovalDenied action_id None now reason in (e, l_note e l))"

definition reinstate :: "ledger \<Rightarrow> approval \<Rightarrow> ledger" where
  "reinstate l a = l\<lparr>approvals := hm_insert (a_id a) a (approvals l)\<rparr>"

definition ledger_get :: "ledger \<Rightarrow> approval_id \<Rightarrow> approval option" where
  "ledger_get l i = hm_get (approvals l) i"

lemma l_note_sel [simp]: "approvals (l_note e l) = approvals l" "l_audit (l_note e l) = l_audit l @ [e]"
  by (simp_all add: l_note_def audit_append_def)

subsection \<open>Comparing hashes\<close>

lemma of_char_word_inj: "(of_char c :: 8 word) = of_char d \<longleftrightarrow> c = d"
proof
  assume "(of_char c :: 8 word) = of_char d"
  then have "(of_nat (of_char c) :: 8 word) = of_nat (of_char d)" by (simp only: of_nat_of_char)
  moreover have "of_char c < (256 :: nat)" "of_char d < (256 :: nat)" by simp_all
  ultimately have "(of_char c :: nat) = of_char d" by (simp add: word_of_nat_eq_iff take_bit_eq_mod)
  then show "c = d" by simp
qed simp

lemma xor_zero_iff: "xor a b = 0 \<longleftrightarrow> a = b" for a b :: "8 word"
  by (metis xor.left_neutral xor.right_neutral xor.left_commute xor_self_eq)

lemma or_fold_zero:
  "foldl (\<lambda>diff (x, y). or diff (xor (of_char x) (of_char y))) (d :: 8 word) ps = 0 \<longleftrightarrow>
     d = 0 \<and> (\<forall>(x, y) \<in> set ps. x = y)"
  by (induction ps arbitrary: d) (auto simp: or_eq_0_iff xor_zero_iff of_char_word_inj)

lemma zip_all_eq: "length a = length b \<Longrightarrow> (\<forall>(x, y) \<in> set (zip a b). x = y) \<longleftrightarrow> a = b"
  by (induction a b rule: list_induct2) auto

lemma constant_time_eq_iff: "constant_time_eq a b \<longleftrightarrow> a = b"
proof (cases "length a = length b")
  case True
  then show ?thesis by (simp add: constant_time_eq_def or_fold_zero zip_all_eq)
next
  case False
  then show ?thesis by (auto simp: constant_time_eq_def)
qed

subsection \<open>What a ledger operation does\<close>

lemma consume_ok_iff:
  "fst (consume X ev l i payload now) = Inr () \<longleftrightarrow>
     (\<exists>a. hm_get (approvals l) i = Some a \<and> now \<le> a_expires_at a \<and> \<not> a_consumed a \<and>
          a_payload_hash a = sha256_hex X payload)"
  by (auto simp: consume_def is_expired_def constant_time_eq_iff split: option.splits)

lemma consume_get:
  "hm_get (approvals (snd (consume X ev l i payload now))) j =
     (if j = i \<and> fst (consume X ev l i payload now) = Inr ()
      then map_option (\<lambda>a. a\<lparr>a_consumed := True\<rparr>) (hm_get (approvals l) j)
      else hm_get (approvals l) j)"
  by (auto simp: consume_def split: option.splits)

lemma consume_audit:
  "l_audit (snd (consume X ev l i payload now)) =
     l_audit l @ (case hm_get (approvals l) i of
        None \<Rightarrow> []
      | Some a \<Rightarrow> [audit_event_new ev
          (case fst (consume X ev l i payload now) of
             Inr _ \<Rightarrow> ApprovalConsumed
           | Inl (ApprovalExpiredErr _) \<Rightarrow> ApprovalExpired
           | Inl _ \<Rightarrow> ApprovalRejected)
          (a_action_id a) (Some i) now
          (case fst (consume X ev l i payload now) of
             Inr _ \<Rightarrow> msg_consumed
           | Inl (ApprovalExpiredErr _) \<Rightarrow> msg_expired
           | Inl (ApprovalReusedErr _) \<Rightarrow> msg_reused
           | Inl _ \<Rightarrow> msg_mismatch)])"
  by (auto simp: consume_def split: option.splits)

lemma grant_get:
  "hm_get (approvals (snd (grant X fresh ev l act h now ttl))) =
     (hm_get (approvals l))(fresh \<mapsto> fst (grant X fresh ev l act h now ttl))"
  by (simp add: grant_def Let_def fun_eq_iff)

subsection \<open>Sequences of operations\<close>

datatype ledger_op =
    LGrant approval_id event_id action_id string timestamp int
  | LConsume event_id approval_id string timestamp
  | LDeny event_id action_id string timestamp
  | LReinstate approval

fun ledger_step :: "ext \<Rightarrow> ledger \<Rightarrow> ledger_op \<Rightarrow> ledger" where
  "ledger_step X l (LGrant fresh ev act h now ttl) = snd (grant X fresh ev l act h now ttl)"
| "ledger_step X l (LConsume ev i payload now) = snd (consume X ev l i payload now)"
| "ledger_step X l (LDeny ev act reason now) = snd (deny ev l act reason now)"
| "ledger_step X l (LReinstate a) = reinstate l a"

definition ledger_run :: "ext \<Rightarrow> ledger \<Rightarrow> ledger_op list \<Rightarrow> ledger" where
  "ledger_run X = foldl (ledger_step X)"

text \<open>The payloads an approval was consumed for, in order.\<close>

fun consumptions :: "ext \<Rightarrow> approval_id \<Rightarrow> ledger \<Rightarrow> ledger_op list \<Rightarrow> (string \<times> timestamp) list" where
  "consumptions X i l [] = []"
| "consumptions X i l (LConsume ev j payload now # ops) =
     (if j = i \<and> fst (consume X ev l j payload now) = Inr () then [(payload, now)] else []) @
     consumptions X i (snd (consume X ev l j payload now)) ops"
| "consumptions X i l (op # ops) = consumptions X i (ledger_step X l op) ops"

text \<open>
  The approvals that come under an identifier: the one in the ledger, and those that operations put there,
  by a grant or by reinstating a stored approval.
\<close>

fun issued :: "ext \<Rightarrow> approval_id \<Rightarrow> ledger_op \<Rightarrow> approval option" where
  "issued X i (LGrant fresh ev act h now ttl) =
     (if fresh = i then Some \<lparr>a_id = i, a_action_id = act, a_payload_hash = h, a_granted_at = now,
        a_expires_at = saturating_expiry X now ttl, a_consumed = False\<rparr> else None)"
| "issued X i (LReinstate a) = (if a_id a = i then Some a else None)"
| "issued X i _ = None"

definition issues :: "ext \<Rightarrow> approval_id \<Rightarrow> ledger \<Rightarrow> ledger_op list \<Rightarrow> approval list" where
  "issues X i l ops = (case ledger_get l i of None \<Rightarrow> [] | Some a \<Rightarrow> [a]) @ List.map_filter (issued X i) ops"

abbreviation unspent :: "approval list \<Rightarrow> approval list" where
  "unspent \<equiv> filter (\<lambda>a. \<not> a_consumed a)"

lemma ledger_step_get:
  assumes "\<And>ev p now. op \<noteq> LConsume ev i p now"
  shows "hm_get (approvals (ledger_step X l op)) i = (case issued X i op of None \<Rightarrow> hm_get (approvals l) i | Some a \<Rightarrow> Some a)"
proof (cases op)
  case (LGrant fresh ev act h now ttl)
  then show ?thesis by (simp add: grant_get) (simp add: grant_def Let_def)
qed (use assms in \<open>auto simp: consume_get deny_def reinstate_def Let_def\<close>)

lemma issues_Cons:
  "issues X i l (op # ops) = (case ledger_get l i of None \<Rightarrow> [] | Some a \<Rightarrow> [a]) @
     (case issued X i op of None \<Rightarrow> [] | Some a \<Rightarrow> [a]) @ List.map_filter (issued X i) ops"
  by (simp add: issues_def map_filter_simps split: option.split)

lemma consumptions_bound:
  "length (consumptions X i l ops) \<le> length (unspent (issues X i l ops)) \<and>
   (\<forall>(p, now) \<in> set (consumptions X i l ops). \<exists>a \<in> set (unspent (issues X i l ops)).
      sha256_hex X p = a_payload_hash a \<and> now \<le> a_expires_at a)"
proof (induction ops arbitrary: l)
  case Nil
  then show ?case by simp
next
  case (Cons op ops)
  show ?case
  proof (cases "\<exists>ev p now. op = LConsume ev i p now")
    case True
    then obtain ev p now where op: "op = LConsume ev i p now" by blast
    let ?l = "snd (consume X ev l i p now)"
    show ?thesis
    proof (cases "fst (consume X ev l i p now) = Inr ()")
      case True
      then obtain a where a: "hm_get (approvals l) i = Some a" "now \<le> a_expires_at a" "\<not> a_consumed a"
          "a_payload_hash a = sha256_hex X p"
        by (auto simp: consume_ok_iff simp del: map_of_eq_Some_iff)
      have "hm_get (approvals ?l) i = Some (a\<lparr>a_consumed := True\<rparr>)" using True a(1) by (simp add: consume_get del: map_of_eq_Some_iff)
      then have u: "unspent (issues X i ?l ops) = unspent (List.map_filter (issued X i) ops)"
          "unspent (issues X i l (op # ops)) = a # unspent (List.map_filter (issued X i) ops)"
        using a(1,3) by (simp_all add: issues_def ledger_get_def op map_filter_simps del: map_of_eq_Some_iff)
      from Cons.IH[of ?l] show ?thesis using True a unfolding u by (auto simp: op)
    next
      case False
      then have "hm_get (approvals ?l) i = hm_get (approvals l) i" by (simp add: consume_get)
      then have "issues X i l (op # ops) = issues X i ?l ops" by (simp add: issues_def ledger_get_def op map_filter_simps)
      with Cons.IH[of ?l] False show ?thesis by (simp add: op)
    qed
  next
    case False
    then have g: "ledger_get (ledger_step X l op) i = (case issued X i op of None \<Rightarrow> ledger_get l i | Some a \<Rightarrow> Some a)"
      unfolding ledger_get_def by (intro ledger_step_get) auto
    have c: "consumptions X i l (op # ops) = consumptions X i (ledger_step X l op) ops"
      using False by (cases op) auto
    have "length (unspent (issues X i (ledger_step X l op) ops)) \<le> length (unspent (issues X i l (op # ops)))"
      "set (unspent (issues X i (ledger_step X l op) ops)) \<subseteq> set (unspent (issues X i l (op # ops)))"
      by (auto simp: issues_Cons issues_def g split: option.splits)
    with Cons.IH[of "ledger_step X l op"] show ?thesis unfolding c by fastforce
  qed
qed

text \<open>C22: an approval is used at most once for each time it is issued. Over any sequence of grants,
  consumptions, denials and reinstatements, the successful consumptions under an identifier are at most as
  many as the unconsumed approvals under it, counting the one the ledger held and every one that a grant
  or a reinstatement put there; and each of them was for the payload whose hash such an approval binds,
  before that approval expired. In particular, with one unconsumed approval and no further grant or
  reinstatement under its identifier, it is consumed at most once, and a consumed one never.\<close>

theorem approval_single_use:
  "length (consumptions X i l ops) \<le> length (unspent (issues X i l ops)) \<and>
   (\<forall>(p, now) \<in> set (consumptions X i l ops). \<exists>a \<in> set (unspent (issues X i l ops)).
      sha256_hex X p = a_payload_hash a \<and> now \<le> a_expires_at a)"
  by (rule consumptions_bound)

definition sample_ledger :: ledger where
  "sample_ledger = snd (grant sample_ext 3 1 ledger_new 4 (sha256_hex sample_ext ''p'') 10 60)"

theorem approval_single_use_witness:
  "consumptions sample_ext 3 sample_ledger
     [LConsume 2 3 ''q'' 20, LConsume 2 3 ''p'' 20, LConsume 2 3 ''p'' 21] = [(''p'', 20)] \<and>
   length (consumptions sample_ext 3 sample_ledger
     [LConsume 2 3 ''q'' 20, LConsume 2 3 ''p'' 20, LConsume 2 3 ''p'' 21, LReinstate \<lparr>a_id = 3, a_action_id = 4,
        a_payload_hash = [], a_granted_at = 10, a_expires_at = 70, a_consumed = False\<rparr>]) \<le> 2"
proof
  show "consumptions sample_ext 3 sample_ledger
      [LConsume 2 3 ''q'' 20, LConsume 2 3 ''p'' 20, LConsume 2 3 ''p'' 21] = [(''p'', 20)]"
    by (simp add: sample_ledger_def grant_def Let_def ledger_new_def consume_def is_expired_def
        saturating_expiry_def sample_ext_def constant_time_eq_iff sha256_hex_def hex_byte_def hex_digit_def)
  have g: "hm_get (approvals sample_ledger) 3 = Some \<lparr>a_id = 3, a_action_id = 4,
      a_payload_hash = sha256_hex sample_ext ''p'', a_granted_at = 10, a_expires_at = 70, a_consumed = False\<rparr>"
    by (simp add: sample_ledger_def grant_def Let_def ledger_new_def saturating_expiry_def sample_ext_def)
  let ?ops = "[LConsume 2 3 ''q'' 20, LConsume 2 3 ''p'' 20, LConsume 2 3 ''p'' 21, LReinstate \<lparr>a_id = 3, a_action_id = 4,
        a_payload_hash = [], a_granted_at = 10, a_expires_at = 70, a_consumed = False\<rparr>]"
  have "length (unspent (issues sample_ext 3 sample_ledger ?ops)) = 2"
    using g by (simp add: issues_def ledger_get_def map_filter_simps del: map_of_eq_Some_iff)
  then show "length (consumptions sample_ext 3 sample_ledger ?ops) \<le> 2"
    using approval_single_use[of sample_ext 3 sample_ledger ?ops] by simp
qed

text \<open>Every attempt to consume a known approval writes exactly one audit event that names the
  approval and tells its outcome: consumed, expired, or rejected (reuse or another payload); the
  outcome is success exactly for an unexpired, unconsumed approval of that payload, and a refused
  attempt changes no approval.\<close>

theorem consume_audited:
  assumes "hm_get (approvals l) i = Some a"
  shows "\<exists>e. l_audit (snd (consume X ev l i payload now)) = l_audit l @ [e] \<and>
    ae_approval e = Some i \<and> ae_action_id e = a_action_id a \<and> ae_at e = now \<and>
    ae_action e = (if now > a_expires_at a then ApprovalExpired
                   else if a_consumed a \<or> a_payload_hash a \<noteq> sha256_hex X payload then ApprovalRejected
                   else ApprovalConsumed) \<and>
    (fst (consume X ev l i payload now) = Inr () \<longleftrightarrow> ae_action e = ApprovalConsumed) \<and>
    (ae_action e \<noteq> ApprovalConsumed \<longrightarrow>
       approvals (snd (consume X ev l i payload now)) = approvals l)"
  using assms
  by (auto simp: consume_def is_expired_def constant_time_eq_iff audit_event_new_def)

theorem consume_audited_witness:
  "\<exists>e. l_audit (snd (consume sample_ext 2 sample_ledger 3 ''q'' 20)) = l_audit sample_ledger @ [e] \<and>
     ae_action e = ApprovalRejected"
proof -
  have g: "hm_get (approvals sample_ledger) 3 = Some \<lparr>a_id = 3, a_action_id = 4,
      a_payload_hash = sha256_hex sample_ext ''p'', a_granted_at = 10, a_expires_at = 70, a_consumed = False\<rparr>"
    by (simp add: sample_ledger_def grant_def Let_def ledger_new_def saturating_expiry_def sample_ext_def)
  have "sha256_hex sample_ext ''p'' \<noteq> sha256_hex sample_ext ''q''"
    by (simp add: sha256_hex_def hex_byte_def hex_digit_def sample_ext_def)
  with consume_audited[OF g, of sample_ext 2 "''q''" 20] show ?thesis by auto
qed

text \<open>The saturated expiry expires exactly the instants the exact one would: for every
  representable instant after the earliest, an approval granted with any lifetime, however long or
  negative, is expired when the instant is later than the grant plus the lifetime.\<close>

theorem expiry_saturates_safely:
  assumes "ts_min X \<le> now" "now \<le> ts_max X" "ts_min X < t" "t \<le> ts_max X"
  shows "is_expired (fst (grant X fresh ev l act h now ttl)) t \<longleftrightarrow> t > now + ttl"
  using assms by (auto simp: grant_def Let_def is_expired_def saturating_expiry_def)

theorem expiry_saturates_safely_witness:
  "\<not> is_expired (fst (grant sample_ext 1 1 ledger_new 1 [] 10 99999999)) 1000000"
  using expiry_saturates_safely[of sample_ext 10 1000000 1 1 ledger_new 1 "[]" 99999999]
  by (simp add: sample_ext_def)

end
