(* ===== verification/Pending_Store.thy ===== *)
theory Pending_Store
  imports Approval
begin

section \<open>Stores of pending approvals\<close>

text \<open>
  Models \<^verbatim>\<open>crates/familyclaw-actions/src/pending_store.rs\<close>: the pending record, the capacity, the
  rate limiter, the store trait and its two implementations, in memory and over a file journal. The
  trait is a record of operations; its contract is the locale \<open>pending_store\<close>. A panic ends an
  operation like a process death.
\<close>

record pending_record =
  pr_task :: task_id
  pr_approval :: approval
  pr_summary :: string
  pr_created :: timestamp

definition pending_record_new :: "task_id \<Rightarrow> approval \<Rightarrow> string \<Rightarrow> timestamp \<Rightarrow> pending_record" where
  "pending_record_new task a summary created =
     \<lparr>pr_task = task, pr_approval = a, pr_summary = summary, pr_created = created\<rparr>"

definition pr_id :: "pending_record \<Rightarrow> approval_id" where
  "pr_id r = a_id (pr_approval r)"

definition pr_expires_at :: "pending_record \<Rightarrow> timestamp" where
  "pr_expires_at r = a_expires_at (pr_approval r)"

definition pr_expired :: "pending_record \<Rightarrow> timestamp \<Rightarrow> bool" where
  "pr_expired r now = is_expired (pr_approval r) now"

type_synonym capacity = nat

definition default_capacity :: capacity where
  "default_capacity = 1024"

definition has_room_for_one_more :: "capacity \<Rightarrow> nat \<Rightarrow> bool" where
  "has_room_for_one_more limit current \<longleftrightarrow> current < limit"

definition full_error :: "capacity \<Rightarrow> action_error" where
  "full_error limit = PolicyDeniedErr (''odottavien hyv'' @ ae @ ''ksynt'' @ oe @ ''jen kapasiteettikatto '' @
     show_nat limit @ '' t'' @ ae @ ''ynn'' @ ae)"

subsection \<open>The rate limiter\<close>

text \<open>Timestamps count nanoseconds. A window whose start cannot be represented panics.\<close>

definition secs :: "int \<Rightarrow> int" where
  "secs n = n * 1000000000"

record rate_limiter =
  window_secs :: int
  max_per_window :: nat
  hits :: "(string, timestamp list) hashmap"

definition limiter_new :: "int \<Rightarrow> nat \<Rightarrow> rate_limiter" where
  "limiter_new w m = \<lparr>window_secs = w, max_per_window = m, hits = []\<rparr>"

definition prune :: "timestamp \<Rightarrow> timestamp list \<Rightarrow> timestamp list" where
  "prune cutoff ts = dropWhile (\<lambda>t. t < cutoff) ts"

definition check_and_record ::
  "ext \<Rightarrow> rate_limiter \<Rightarrow> string \<Rightarrow> timestamp \<Rightarrow> (action_error + unit) outcome \<times> rate_limiter" where
  "check_and_record X rl being now =
     (let cutoff = now - secs (max (window_secs rl) 0)
      in if cutoff < ts_min X then (Killed, rl)
         else let entry = prune cutoff (case hm_get (hits rl) being of None \<Rightarrow> [] | Some ts \<Rightarrow> ts)
           in if max_per_window rl \<le> length entry
              then (Done (Inl (PolicyDeniedErr (''vaarallisten ty'' @ oe @ ''kalukutsujen rate-limit ylittyi olennolle '' @
                      sq @ being @ sq @ '' ('' @ show_nat (length entry) @ '' / '' @ show_nat (max_per_window rl) @
                      '' '' @ show_int (window_secs rl) @ ''s ikkunassa)''))),
                    rl\<lparr>hits := hm_insert being entry (hits rl)\<rparr>)
              else (Done (Inr ()), rl\<lparr>hits := hm_insert being (entry @ [now]) (hits rl)\<rparr>))"

definition count_in_window :: "ext \<Rightarrow> rate_limiter \<Rightarrow> string \<Rightarrow> timestamp \<Rightarrow> nat outcome \<times> rate_limiter" where
  "count_in_window X rl being now =
     (let cutoff = now - secs (max (window_secs rl) 0)
      in if cutoff < ts_min X then (Killed, rl)
         else case hm_get (hits rl) being of
                None \<Rightarrow> (Done 0, rl)
              | Some ts \<Rightarrow> (Done (length (prune cutoff ts)),
                            rl\<lparr>hits := hm_insert being (prune cutoff ts) (hits rl)\<rparr>))"

subsection \<open>The store interface\<close>

text \<open>
  What the machine does to one operation of a store: the clock that stamps rows, the fault of each
  append, the fault of an automatic compaction and its temporary path.
\<close>

record store_env =
  se_clock :: timestamp
  se_faults :: "fault list"
  se_swap :: swap_fault
  se_tmp :: path

definition nth_fault :: "store_env \<Rightarrow> nat \<Rightarrow> fault" where
  "nth_fault env k = (if k < length (se_faults env) then se_faults env ! k else NoFault)"

record 'p pending_trait =
  ps_insert :: "store_env \<Rightarrow> 'p \<Rightarrow> pending_record \<Rightarrow> (action_error + unit) outcome \<times> 'p"
  ps_get :: "'p \<Rightarrow> approval_id \<Rightarrow> action_error + pending_record option"
  ps_remove :: "store_env \<Rightarrow> 'p \<Rightarrow> approval_id \<Rightarrow> (action_error + pending_record option) outcome \<times> 'p"
  ps_len :: "'p \<Rightarrow> action_error + nat"
  ps_list :: "'p \<Rightarrow> action_error + pending_record list"
  ps_evict :: "store_env \<Rightarrow> 'p \<Rightarrow> timestamp \<Rightarrow> (action_error + nat) outcome \<times> 'p"
  ps_kind :: string

definition ps_is_empty :: "'p pending_trait \<Rightarrow> 'p \<Rightarrow> action_error + bool" where
  "ps_is_empty P s = (case ps_len P s of Inl e \<Rightarrow> Inl e | Inr n \<Rightarrow> Inr (n = 0))"

subsection \<open>In memory\<close>

type_synonym mem_pending = "(approval_id, pending_record) hashmap"

definition mp_insert ::
  "capacity \<Rightarrow> store_env \<Rightarrow> mem_pending \<Rightarrow> pending_record \<Rightarrow> (action_error + unit) outcome \<times> mem_pending" where
  "mp_insert cap env m r =
     (if \<not> hm_contains m (pr_id r) \<and> \<not> has_room_for_one_more cap (length m)
      then (Done (Inl (full_error cap)), m)
      else (Done (Inr ()), hm_insert (pr_id r) r m))"

definition mp_get :: "mem_pending \<Rightarrow> approval_id \<Rightarrow> action_error + pending_record option" where
  "mp_get m i = Inr (hm_get m i)"

definition mp_remove ::
  "store_env \<Rightarrow> mem_pending \<Rightarrow> approval_id \<Rightarrow> (action_error + pending_record option) outcome \<times> mem_pending" where
  "mp_remove env m i = (Done (Inr (hm_get m i)), hm_remove i m)"

definition mp_len :: "mem_pending \<Rightarrow> action_error + nat" where
  "mp_len m = Inr (length m)"

definition mp_list :: "mem_pending \<Rightarrow> action_error + pending_record list" where
  "mp_list m = Inr (hm_values m)"

definition mp_evict ::
  "store_env \<Rightarrow> mem_pending \<Rightarrow> timestamp \<Rightarrow> (action_error + nat) outcome \<times> mem_pending" where
  "mp_evict env m now =
     (let m' = hm_retain (\<lambda>r. \<not> pr_expired r now) m in (Done (Inr (length m - length m')), m'))"

definition mem_pending_store :: "capacity \<Rightarrow> mem_pending pending_trait" where
  "mem_pending_store cap =
     \<lparr>ps_insert = mp_insert cap, ps_get = mp_get, ps_remove = mp_remove, ps_len = mp_len,
      ps_list = mp_list, ps_evict = mp_evict, ps_kind = ''in-memory''\<rparr>"

lemma mem_pending_sel [simp]:
  "ps_insert (mem_pending_store cap) = mp_insert cap" "ps_get (mem_pending_store cap) = mp_get"
  "ps_remove (mem_pending_store cap) = mp_remove" "ps_len (mem_pending_store cap) = mp_len"
  "ps_list (mem_pending_store cap) = mp_list" "ps_evict (mem_pending_store cap) = mp_evict"
  by (simp_all add: mem_pending_store_def)

subsection \<open>Sequences of operations\<close>

datatype store_op =
    OInsert pending_record | OGet approval_id | ORemove approval_id | OLen | OIsEmpty | OList | OEvict timestamp

datatype store_answer =
    Inserted "action_error + unit" | Found "pending_record option" | Removed "pending_record option"
  | Counted nat | Emptied bool
  | Listed "pending_record set" nat  \<comment> \<open>the order of a list is not promised\<close>
  | Evicted nat | Broken  \<comment> \<open>another error, or the process died\<close>

fun store_step :: "'p pending_trait \<Rightarrow> store_env \<Rightarrow> 'p \<Rightarrow> store_op \<Rightarrow> store_answer \<times> 'p" where
  "store_step P env s (OInsert r) =
     (case ps_insert P env s r of (Done x, s') \<Rightarrow> (Inserted x, s') | (Killed, s') \<Rightarrow> (Broken, s'))"
| "store_step P env s (OGet i) = (case ps_get P s i of Inr x \<Rightarrow> (Found x, s) | Inl _ \<Rightarrow> (Broken, s))"
| "store_step P env s (ORemove i) =
     (case ps_remove P env s i of (Done (Inr x), s') \<Rightarrow> (Removed x, s') | (_, s') \<Rightarrow> (Broken, s'))"
| "store_step P env s OLen = (case ps_len P s of Inr n \<Rightarrow> (Counted n, s) | Inl _ \<Rightarrow> (Broken, s))"
| "store_step P env s OIsEmpty = (case ps_is_empty P s of Inr b \<Rightarrow> (Emptied b, s) | Inl _ \<Rightarrow> (Broken, s))"
| "store_step P env s OList = (case ps_list P s of Inr rs \<Rightarrow> (Listed (set rs) (length rs), s) | Inl _ \<Rightarrow> (Broken, s))"
| "store_step P env s (OEvict now) =
     (case ps_evict P env s now of (Done (Inr n), s') \<Rightarrow> (Evicted n, s') | (_, s') \<Rightarrow> (Broken, s'))"

text \<open>Every operation comes with its own environment.\<close>

fun store_run :: "'p pending_trait \<Rightarrow> 'p \<Rightarrow> (store_env \<times> store_op) list \<Rightarrow> store_answer list \<times> 'p" where
  "store_run P s [] = ([], s)"
| "store_run P s ((env, op) # ops) =
     (case store_step P env s op of (a, s1) \<Rightarrow>
        (case store_run P s1 ops of (as, s2) \<Rightarrow> (a # as, s2)))"

text \<open>The abstract store: a finite map with a capacity.\<close>

definition live_map :: "timestamp \<Rightarrow> (approval_id \<Rightarrow> pending_record option) \<Rightarrow> approval_id \<Rightarrow> pending_record option" where
  "live_map now m = (\<lambda>i. case m i of None \<Rightarrow> None | Some r \<Rightarrow> if pr_expired r now then None else Some r)"

fun spec_step ::
  "nat \<Rightarrow> (approval_id \<Rightarrow> pending_record option) \<Rightarrow> store_op \<Rightarrow>
   store_answer \<times> (approval_id \<Rightarrow> pending_record option)" where
  "spec_step cap m (OInsert r) =
     (if m (pr_id r) \<noteq> None \<or> card (dom m) < cap then (Inserted (Inr ()), m(pr_id r \<mapsto> r))
      else (Inserted (Inl (full_error cap)), m))"
| "spec_step cap m (OGet i) = (Found (m i), m)"
| "spec_step cap m (ORemove i) = (Removed (m i), m(i := None))"
| "spec_step cap m OLen = (Counted (card (dom m)), m)"
| "spec_step cap m OIsEmpty = (Emptied (m = Map.empty), m)"
| "spec_step cap m OList = (Listed (ran m) (card (dom m)), m)"
| "spec_step cap m (OEvict now) =
     (Evicted (card (dom m) - card (dom (live_map now m))), live_map now m)"

fun spec_run ::
  "nat \<Rightarrow> (approval_id \<Rightarrow> pending_record option) \<Rightarrow> store_op list \<Rightarrow>
   store_answer list \<times> (approval_id \<Rightarrow> pending_record option)" where
  "spec_run cap m [] = ([], m)"
| "spec_run cap m (op # ops) =
     (case spec_step cap m op of (a, m1) \<Rightarrow> (case spec_run cap m1 ops of (as, m2) \<Rightarrow> (a # as, m2)))"

fun op_storable :: "(pending_record \<Rightarrow> bool) \<Rightarrow> store_op \<Rightarrow> bool" where
  "op_storable st (OInsert r) = st r"
| "op_storable st _ = True"

subsection \<open>The contract\<close>

text \<open>
  \<open>amap\<close> is the abstract map of a state; \<open>storable\<close> the records the store can write,
  \<open>quiet\<close> the environments in which no write fails.
\<close>

locale pending_store =
  fixes P :: "'p pending_trait"
    and amap :: "'p \<Rightarrow> approval_id \<Rightarrow> pending_record option"
    and pinv :: "'p \<Rightarrow> bool"
    and storable :: "pending_record \<Rightarrow> bool"
    and quiet :: "store_env \<Rightarrow> bool"
    and cap :: nat
  assumes keyed: "pinv s \<Longrightarrow> amap s i = Some r \<Longrightarrow> pr_id r = i"
    and finite_map: "pinv s \<Longrightarrow> finite (dom (amap s))"
    and get_map: "pinv s \<Longrightarrow> ps_get P s i = Inr (amap s i)"
    and len_map: "pinv s \<Longrightarrow> ps_len P s = Inr (card (dom (amap s)))"
    and list_map: "pinv s \<Longrightarrow> \<exists>rs. ps_list P s = Inr rs \<and> distinct rs \<and> set rs = ran (amap s)"
    and insert_map:
      "pinv s \<Longrightarrow> storable r \<Longrightarrow> quiet env \<Longrightarrow>
         amap s (pr_id r) \<noteq> None \<or> card (dom (amap s)) < cap \<Longrightarrow>
         \<exists>s'. ps_insert P env s r = (Done (Inr ()), s') \<and> pinv s' \<and> amap s' = (amap s)(pr_id r \<mapsto> r)"
    and insert_full:
      "pinv s \<Longrightarrow> amap s (pr_id r) = None \<Longrightarrow> cap \<le> card (dom (amap s)) \<Longrightarrow>
         ps_insert P env s r = (Done (Inl (full_error cap)), s)"
    and remove_map:
      "pinv s \<Longrightarrow> quiet env \<Longrightarrow>
         \<exists>s'. ps_remove P env s i = (Done (Inr (amap s i)), s') \<and> pinv s' \<and> amap s' = (amap s)(i := None)"
    and evict_map:
      "pinv s \<Longrightarrow> quiet env \<Longrightarrow>
         \<exists>s' n. ps_evict P env s now = (Done (Inr n), s') \<and> pinv s' \<and> amap s' = live_map now (amap s) \<and>
           n = card (dom (amap s)) - card (dom (amap s'))"
begin

text \<open>A store is observed as the abstract one.\<close>

lemma list_length:
  assumes "pinv s" "ps_list P s = Inr rs"
  shows "set rs = ran (amap s) \<and> length rs = card (dom (amap s))"
proof -
  have rs: "distinct rs" "set rs = ran (amap s)" using list_map[OF assms(1)] assms(2) by auto
  have "inj_on pr_id (ran (amap s))" "pr_id ` ran (amap s) = dom (amap s)"
    using keyed[OF assms(1)] by (auto simp: inj_on_def ran_def image_iff)
  then have "card (dom (amap s)) = card (ran (amap s))" by (metis card_image)
  with rs show ?thesis by (simp add: distinct_card[symmetric])
qed

lemma step_refines:
  assumes "pinv s" "quiet env" "op_storable storable op"
  shows "\<exists>s'. store_step P env s op = (fst (spec_step cap (amap s) op), s') \<and> pinv s' \<and>
    amap s' = snd (spec_step cap (amap s) op)"
proof (cases op)
  case (OInsert r)
  with assms show ?thesis
    using insert_map[OF assms(1) _ assms(2), of r] insert_full[OF assms(1), of r env]
    by (cases "amap s (pr_id r) \<noteq> None \<or> card (dom (amap s)) < cap") auto
next
  case (OGet i)
  with assms show ?thesis by (simp add: get_map)
next
  case (ORemove i)
  with remove_map[OF assms(1,2), of i] show ?thesis by auto
next
  case OLen
  with assms show ?thesis by (simp add: len_map)
next
  case OIsEmpty
  with assms show ?thesis using finite_map[OF assms(1)] by (simp add: ps_is_empty_def len_map)
next
  case OList
  obtain rs where "ps_list P s = Inr rs" using list_map[OF assms(1)] by blast
  with OList assms(1) list_length[OF assms(1) this] show ?thesis by simp
next
  case (OEvict now)
  with evict_map[OF assms(1,2), of now] show ?thesis by auto
qed

lemma run_refines:
  assumes "pinv s" "\<forall>(env, op) \<in> set ops. quiet env \<and> op_storable storable op"
  shows "\<exists>s'. store_run P s ops = (fst (spec_run cap (amap s) (map snd ops)), s') \<and> pinv s' \<and>
    amap s' = snd (spec_run cap (amap s) (map snd ops))"
  using assms
proof (induction ops arbitrary: s)
  case Nil
  then show ?case by simp
next
  case (Cons x ops)
  obtain env op where x: "x = (env, op)" by (rule prod.exhaust)
  obtain s1 where s1: "store_step P env s op = (fst (spec_step cap (amap s) op), s1)" "pinv s1"
    "amap s1 = snd (spec_step cap (amap s) op)"
    using step_refines[OF Cons.prems(1), of env op] Cons.prems(2) x by auto
  from Cons.IH[OF s1(2)] Cons.prems(2) s1 x show ?case by (auto split: prod.splits)
qed

text \<open>The number of records never passes the capacity by insertion.\<close>

lemma insert_bounded:
  assumes "pinv s" "storable r" "quiet env" "card (dom (amap s)) \<le> cap"
  shows "\<exists>res s'. ps_insert P env s r = (Done res, s') \<and> pinv s' \<and> card (dom (amap s')) \<le> cap \<and>
    (res = Inr () \<longleftrightarrow> amap s (pr_id r) \<noteq> None \<or> card (dom (amap s)) < cap) \<and>
    (res = Inr () \<longrightarrow> amap s' = (amap s)(pr_id r \<mapsto> r)) \<and> (res \<noteq> Inr () \<longrightarrow> s' = s)"
proof (cases "amap s (pr_id r) \<noteq> None \<or> card (dom (amap s)) < cap")
  case True
  from insert_map[OF assms(1-3) True] obtain s' where s': "ps_insert P env s r = (Done (Inr ()), s')"
    "pinv s'" "amap s' = (amap s)(pr_id r \<mapsto> r)" by blast
  have "card (dom (amap s')) \<le> cap"
    using True assms(4) finite_map[OF assms(1)] by (auto simp: s'(3) card_insert_if)
  with s' True show ?thesis by auto
next
  case False
  with insert_full[OF assms(1), of r env] assms show ?thesis by auto
qed

lemma remove_twice:
  assumes "pinv s" "quiet env" "quiet env'"
    and "ps_remove P env s i = (res, s1)" "ps_remove P env' s1 i = (res', s2)"
  shows "res' = Done (Inr None)"
proof -
  obtain sx where "ps_remove P env s i = (Done (Inr (amap s i)), sx)" "pinv sx"
    "amap sx = (amap s)(i := None)" using remove_map[OF assms(1,2), of i] by blast
  with assms(4) have s1: "pinv s1" "amap s1 i = None" by auto
  from remove_map[OF s1(1) assms(3), of i] s1(2) assms(5) show ?thesis by auto
qed

end

text \<open>
  A store that survives crashes adds \<open>reopen\<close>: whatever happens to one insertion or removal, the
  store opened again is the old one or the new one, and the new one when success was reported.
\<close>

locale crash_pending_store = pending_store P amap pinv storable quiet cap
  for P :: "'p pending_trait"
    and amap :: "'p \<Rightarrow> approval_id \<Rightarrow> pending_record option"
    and pinv :: "'p \<Rightarrow> bool"
    and storable :: "pending_record \<Rightarrow> bool"
    and quiet :: "store_env \<Rightarrow> bool"
    and cap :: nat +
  fixes reopen :: "'p \<Rightarrow> action_error + 'p"
    and env_ok :: "store_env \<Rightarrow> bool"
  assumes insert_crash:
      "pinv s \<Longrightarrow> env_ok env \<Longrightarrow> ps_insert P env s r = (res, s') \<Longrightarrow>
         \<exists>s''. reopen s' = Inr s'' \<and> pinv s'' \<and>
           (amap s'' = amap s \<or> amap s'' = (amap s)(pr_id r \<mapsto> r)) \<and>
           (res = Done (Inr ()) \<longrightarrow> amap s'' = (amap s)(pr_id r \<mapsto> r))"
    and remove_crash:
      "pinv s \<Longrightarrow> env_ok env \<Longrightarrow> ps_remove P env s i = (ans, s') \<Longrightarrow>
         \<exists>s''. reopen s' = Inr s'' \<and> pinv s'' \<and>
           (amap s'' = amap s \<or> amap s'' = (amap s)(i := None)) \<and>
           (\<forall>x. ans = Done (Inr x) \<longrightarrow> x = amap s i \<and> amap s'' = (amap s)(i := None))"
begin

text \<open>No crash of one operation touches another record.\<close>

lemma insert_crash_other:
  assumes "pinv s" "env_ok env" "ps_insert P env s r = (res, s')" "j \<noteq> pr_id r"
  shows "\<exists>s''. reopen s' = Inr s'' \<and> amap s'' j = amap s j"
  using insert_crash[OF assms(1-3)] assms(4) by auto

end

abbreviation keyed_map :: "(approval_id, pending_record) hashmap \<Rightarrow> bool" where
  "keyed_map \<equiv> keyed pr_id"

lemma live_map_retain:
  "keyed_map m \<Longrightarrow> hm_get (hm_retain (\<lambda>r. \<not> pr_expired r now) m) = live_map now (hm_get m)"
  by (rule ext) (simp add: hm_get_retain keyed_ok live_map_def split: option.splits)

lemma has_room_iff: "has_room_for_one_more cap n \<longleftrightarrow> n < cap"
  by (simp add: has_room_for_one_more_def)

interpretation mp: pending_store "mem_pending_store cap" hm_get keyed_map "\<lambda>_. True" "\<lambda>_. True" cap
  for cap
proof (unfold_locales, goal_cases)
  case (1 s i r)
  then show ?case by (rule keyed_get)
next
  case (2 s)
  then show ?case by (simp add: finite_dom_map_of)
next
  case (3 s i)
  then show ?case by (simp add: mp_get_def)
next
  case (4 s)
  then show ?case by (simp add: mp_len_def keyed_card)
next
  case (5 s)
  then show ?case using keyed_values_distinct[OF 5] keyed_values_ran[OF 5] by (simp add: mp_list_def)
next
  case (6 s r env)
  then show ?case
    by (auto simp: mp_insert_def hm_contains_def has_room_iff keyed_card[OF 6(1)] intro: keyed_insert)
next
  case (7 s r env)
  then show ?case by (simp add: mp_insert_def hm_contains_def has_room_iff keyed_card[OF 7(1)])
next
  case (8 s env i)
  then show ?case by (auto simp: mp_remove_def intro: keyed_remove)
next
  case (9 s env now)
  let ?m = "hm_retain (\<lambda>r. \<not> pr_expired r now) s"
  have "keyed_map ?m" by (rule keyed_retain[OF 9(1)])
  then show ?case
    using live_map_retain[OF 9(1)] keyed_card[OF 9(1)] keyed_card[of pr_id ?m]
    by (auto simp: mp_evict_def Let_def)
qed

end
