(* ===== verification/Keyed_Log.thy ===== *)
theory Keyed_Log
  imports Pending_Store
begin

section \<open>Keyed records in a journal\<close>

text \<open>
  What the journal-backed stores have in common (\<^verbatim>\<open>JournalResumableStore\<close> of
  \<^verbatim>\<open>crates/familyclaw-agent/src/resumable.rs\<close> and \<^verbatim>\<open>JournalPendingStore\<close> of
  \<^verbatim>\<open>crates/familyclaw-actions/src/pending_store.rs\<close>): put and delete markers in a file journal, the state
  rebuilt from the log on every read, automatic compaction. A store fixes the names of its markers, its
  encoders, the key of a record and when the log is compacted; how its errors read is left to it.
\<close>

record 'r log_shape =
  ls_codec :: codec
  ls_path :: path
  ls_factor :: nat
  ls_min_rows :: nat
  ls_put :: string
  ls_delete :: string
  ls_enc :: "'r \<Rightarrow> string + json"
  ls_dec :: "json \<Rightarrow> string + 'r"
  ls_enc_id :: "approval_id \<Rightarrow> string + json"
  ls_dec_id :: "json \<Rightarrow> string + approval_id"
  ls_key :: "'r \<Rightarrow> approval_id"
  ls_fits :: "'r \<Rightarrow> bool"   \<comment> \<open>what the encoder writes so that it is read back\<close>

record log_state =
  lg_fs :: fs
  lg_handle :: handle
  lg_next :: step_id

datatype log_error =
    LgReplay durable_error
  | LgLen durable_error
  | LgAppend durable_error
  | LgCompact durable_error
  | LgDecodePut string
  | LgDecodeId string
  | LgEncode string
  | LgEncodeId string

definition kl_read :: "'r log_shape \<Rightarrow> log_state \<Rightarrow> durable_error + journal_entry list" where
  "kl_read K s = read_all_entries (ls_codec K) (ls_path K) (lg_fs s)"

definition kl_open :: "'r log_shape \<Rightarrow> fs \<Rightarrow> log_error + log_state" where
  "kl_open K d =
     (let d' = file_open (ls_codec K) d (ls_path K)
      in case default_len (read_all_entries (ls_codec K) (ls_path K)) d' of
           Inl e \<Rightarrow> Inl (LgLen e)
         | Inr len \<Rightarrow> Inr \<lparr>lg_fs = d', lg_handle = AtPath, lg_next = of_nat (min len (2 ^ 64 - 1))\<rparr>)"

definition kl_next_step_id :: "log_state \<Rightarrow> step_id \<times> log_state" where
  "kl_next_step_id s = (lg_next s, s\<lparr>lg_next := next_id (lg_next s)\<rparr>)"

definition kl_append ::
  "'r log_shape \<Rightarrow> timestamp \<Rightarrow> fault \<Rightarrow> log_state \<Rightarrow> string \<Rightarrow> json \<Rightarrow> (log_error + unit) outcome \<times> log_state" where
  "kl_append K clock fl s name payload =
     (case kl_next_step_id s of (sid, s1) \<Rightarrow>
        (case handle_append (ls_codec K) (ls_path K) fl (lg_fs s1, lg_handle s1)
                (marker clock sid name payload) of
           (r, d', h') \<Rightarrow>
             (case r of
                Killed \<Rightarrow> Killed
              | Done (Inl e) \<Rightarrow> Done (Inl (LgAppend e))
              | Done (Inr _) \<Rightarrow> Done (Inr ()),
              s1\<lparr>lg_fs := d', lg_handle := h'\<rparr>)))"

fun kl_reconstruct ::
  "'r log_shape \<Rightarrow> journal_entry list \<Rightarrow> (approval_id, 'r) hashmap \<Rightarrow> log_error + (approval_id, 'r) hashmap" where
  "kl_reconstruct K [] state = Inr state"
| "kl_reconstruct K (e # es) state =
     (case je_kind e of
        Marker name payload \<Rightarrow>
          if name = ls_put K then
            (case ls_dec K payload of
               Inl m \<Rightarrow> Inl (LgDecodePut m)
             | Inr r \<Rightarrow> kl_reconstruct K es (hm_insert (ls_key K r) r state))
          else if name = ls_delete K then
            (case ls_dec_id K payload of
               Inl m \<Rightarrow> Inl (LgDecodeId m)
             | Inr i \<Rightarrow> kl_reconstruct K es (hm_remove i state))
          else kl_reconstruct K es state
      | _ \<Rightarrow> kl_reconstruct K es state)"

definition kl_replay :: "'r log_shape \<Rightarrow> log_state \<Rightarrow> log_error + (approval_id, 'r) hashmap" where
  "kl_replay K s =
     (case kl_read K s of
        Inl e \<Rightarrow> Inl (LgReplay e)
      | Inr es \<Rightarrow> kl_reconstruct K es [])"

definition kl_row_count :: "'r log_shape \<Rightarrow> log_state \<Rightarrow> log_error + nat" where
  "kl_row_count K s = (case default_len (kl_read K) s of Inl e \<Rightarrow> Inl (LgLen e) | Inr n \<Rightarrow> Inr n)"

subsection \<open>Compaction\<close>

fun kl_rows :: "'r log_shape \<Rightarrow> timestamp \<Rightarrow> step_id \<Rightarrow> 'r list \<Rightarrow> durable_error + journal_entry list" where
  "kl_rows K clock sid [] = Inr []"
| "kl_rows K clock sid (r # rs) =
     (case ls_enc K r of
        Inl m \<Rightarrow> Inl (Serde m)
      | Inr payload \<Rightarrow>
          (case kl_rows K clock (next_id sid) rs of
             Inl e \<Rightarrow> Inl e
           | Inr es \<Rightarrow> Inr (marker clock sid (ls_put K) payload # es)))"

text \<open>How a store shows a row it cannot read is an argument.\<close>

definition kl_build ::
  "'r log_shape \<Rightarrow> (log_error \<Rightarrow> string) \<Rightarrow> timestamp \<Rightarrow> journal_entry list \<Rightarrow> durable_error + journal_entry list" where
  "kl_build K show_it clock entries =
     (case kl_reconstruct K entries [] of
        Inl e \<Rightarrow> Inl (step_failed ''compact_reconstruct'' (show_it e))
      | Inr state \<Rightarrow> kl_rows K clock ZERO (hm_values state))"

definition kl_live_count :: "'r log_shape \<Rightarrow> (log_error \<Rightarrow> string) \<Rightarrow> timestamp \<Rightarrow> log_state \<Rightarrow> nat" where
  "kl_live_count K show_it clock s =
     (case kl_read K s of
        Inl _ \<Rightarrow> 0
      | Inr es \<Rightarrow> (case kl_build K show_it clock es of Inl _ \<Rightarrow> 0 | Inr kept \<Rightarrow> length kept))"

definition kl_compact ::
  "'r log_shape \<Rightarrow> (log_error \<Rightarrow> string) \<Rightarrow> store_env \<Rightarrow> log_state \<Rightarrow> (log_error + nat) outcome \<times> log_state" where
  "kl_compact K show_it env s =
     (case compact_with (ls_codec K) (ls_path K) (se_tmp env) (se_swap env) (lg_fs s, lg_handle s)
             (kl_build K show_it (se_clock env)) of
        (r, d', h') \<Rightarrow>
          (let s' = s\<lparr>lg_fs := d', lg_handle := h'\<rparr>
           in case r of
                Killed \<Rightarrow> (Killed, s')
              | Done (Inl e) \<Rightarrow> (Done (Inl (LgCompact e)), s')
              | Done (Inr dropped) \<Rightarrow>
                  (Done (Inr dropped),
                   s'\<lparr>lg_next := of_nat (min (kl_live_count K show_it (se_clock env) s) (2 ^ 64 - 1))\<rparr>)))"

definition kl_auto ::
  "'r log_shape \<Rightarrow> (log_error \<Rightarrow> string) \<Rightarrow> store_env \<Rightarrow> log_state \<Rightarrow> unit outcome \<times> log_state" where
  "kl_auto K show_it env s =
     (if ls_factor K = 0 then (Done (), s)
      else case kl_row_count K s of
             Inl _ \<Rightarrow> (Done (), s)
           | Inr rows \<Rightarrow>
               if rows < ls_min_rows K then (Done (), s)
               else case kl_replay K s of
                      Inl _ \<Rightarrow> (Done (), s)
                    | Inr live \<Rightarrow>
                        if rows > min (ls_factor K * length live) (2 ^ 64 - 1)
                        then (case kl_compact K show_it env s of
                                (Killed, s') \<Rightarrow> (Killed, s')
                              | (Done _, s') \<Rightarrow> (Done (), s'))
                        else (Done (), s))"

text \<open>One marker and the compaction after it: what storing and removing have in common.\<close>

definition kl_marked ::
  "'r log_shape \<Rightarrow> (log_error \<Rightarrow> string) \<Rightarrow> store_env \<Rightarrow> nat \<Rightarrow> log_state \<Rightarrow> string \<Rightarrow> json \<Rightarrow> (log_error + unit) outcome \<times> log_state" where
  "kl_marked K show_it env k s name v =
     (case kl_append K (se_clock env) (nth_fault env k) s name v of
        (Killed, s1) \<Rightarrow> (Killed, s1)
      | (Done (Inl e), s1) \<Rightarrow> (Done (Inl e), s1)
      | (Done (Inr _), s1) \<Rightarrow>
          (case kl_auto K show_it env s1 of
             (Killed, s2) \<Rightarrow> (Killed, s2)
           | (Done _, s2) \<Rightarrow> (Done (Inr ()), s2)))"

fun kl_delete_all ::
  "'r log_shape \<Rightarrow> store_env \<Rightarrow> nat \<Rightarrow> approval_id list \<Rightarrow> log_state \<Rightarrow> (log_error + unit) outcome \<times> log_state" where
  "kl_delete_all K env k [] s = (Done (Inr ()), s)"
| "kl_delete_all K env k (i # is) s =
     (case ls_enc_id K i of
        Inl m \<Rightarrow> (Done (Inl (LgEncodeId m)), s)
      | Inr payload \<Rightarrow>
          (case kl_append K (se_clock env) (nth_fault env k) s (ls_delete K) payload of
             (Killed, s1) \<Rightarrow> (Killed, s1)
           | (Done (Inl e), s1) \<Rightarrow> (Done (Inl e), s1)
           | (Done (Inr _), s1) \<Rightarrow> kl_delete_all K env (k + 1) is s1))"

subsection \<open>What the encoders are relied on for\<close>

definition kl_ok :: "'r log_shape \<Rightarrow> bool" where
  "kl_ok K \<longleftrightarrow> codec_ok (ls_codec K) \<and> ls_put K \<noteq> ls_delete K \<and>
     (\<forall>v r. ls_dec K v = Inr r \<longrightarrow> ls_fits K r) \<and>
     (\<forall>r v. ls_fits K r \<longrightarrow> ls_enc K r = Inr v \<longrightarrow> ls_dec K v = Inr r \<and>
        (\<forall>k i. to_string (ls_codec K) (marker k i (ls_put K) v) \<noteq> None)) \<and>
     (\<forall>i. \<exists>v. ls_enc_id K i = Inr v \<and> ls_dec_id K v = Inr i \<and>
        (\<forall>k j. to_string (ls_codec K) (marker k j (ls_delete K) v) \<noteq> None))"

lemma kl_ok_codec: "kl_ok K \<Longrightarrow> codec_ok (ls_codec K)"
  by (simp add: kl_ok_def)

lemma kl_ok_names: "kl_ok K \<Longrightarrow> ls_put K \<noteq> ls_delete K"
  by (simp add: kl_ok_def)

lemma kl_ok_record:
  assumes "kl_ok K" "ls_fits K r" "ls_enc K r = Inr v"
  shows "ls_dec K v = Inr r" "to_string (ls_codec K) (marker k i (ls_put K) v) \<noteq> None"
  using assms unfolding kl_ok_def by blast+

lemma kl_ok_fits: "kl_ok K \<Longrightarrow> ls_dec K v = Inr r \<Longrightarrow> ls_fits K r"
  unfolding kl_ok_def by blast

lemma kl_ok_id:
  assumes "kl_ok K"
  obtains v where "ls_enc_id K i = Inr v" "ls_dec_id K v = Inr i"
    "\<And>k j. to_string (ls_codec K) (marker k j (ls_delete K) v) \<noteq> None"
  using assms unfolding kl_ok_def by blast

subsection \<open>The state a log describes\<close>

lemma kl_reconstruct_append:
  "kl_reconstruct K (es @ fs) st =
     (case kl_reconstruct K es st of Inl e \<Rightarrow> Inl e | Inr st' \<Rightarrow> kl_reconstruct K fs st')"
  by (induction K es st rule: kl_reconstruct.induct) (auto split: entry_kind.splits sum.splits)

lemma kl_reconstruct_keyed:
  "kl_reconstruct K es st = Inr st' \<Longrightarrow> keyed (ls_key K) st \<Longrightarrow> keyed (ls_key K) st'"
  by (induction K es st rule: kl_reconstruct.induct)
    (auto split: entry_kind.splits sum.splits if_splits intro: keyed_insert keyed_remove)

lemma kl_reconstruct_fits:
  assumes "kl_ok K" "kl_reconstruct K es st = Inr st'" "\<forall>i r. hm_get st i = Some r \<longrightarrow> ls_fits K r"
  shows "\<forall>i r. hm_get st' i = Some r \<longrightarrow> ls_fits K r"
  using assms(2,3)
proof (induction es arbitrary: st)
  case Nil
  then show ?case by simp
next
  case (Cons e es)
  show ?case
  proof (cases "je_kind e")
    case (Marker name payload)
    consider (put) x where "ls_dec K payload = Inr x" "kl_reconstruct K es (hm_insert (ls_key K x) x st) = Inr st'"
      | (delete) j where "kl_reconstruct K es (hm_remove j st) = Inr st'"
      | (other) "kl_reconstruct K es st = Inr st'"
      using Cons.prems(1) Marker by (auto split: if_splits sum.splits)
    then show ?thesis
    proof cases
      case put
      have "\<forall>i r. hm_get (hm_insert (ls_key K x) x st) i = Some r \<longrightarrow> ls_fits K r"
        using Cons.prems(2) kl_ok_fits[OF assms(1) put(1)] by (simp del: map_of_eq_Some_iff)
      then show ?thesis by (rule Cons.IH[OF put(2)])
    next
      case delete
      have "\<forall>i r. hm_get (hm_remove j st) i = Some r \<longrightarrow> ls_fits K r"
        using Cons.prems(2) by (simp del: map_of_eq_Some_iff)
      then show ?thesis by (rule Cons.IH[OF delete])
    next
      case other
      then show ?thesis by (rule Cons.IH[OF _ Cons.prems(2)])
    qed
  qed (use Cons in simp_all)
qed

lemma kl_reconstruct_put:
  "ls_dec K v = Inr r \<Longrightarrow>
   kl_reconstruct K [marker k i (ls_put K) v] st = Inr (hm_insert (ls_key K r) r st)"
  by (simp add: marker_def)

lemma kl_reconstruct_delete:
  "ls_dec_id K v = Inr j \<Longrightarrow> ls_put K \<noteq> ls_delete K \<Longrightarrow>
   kl_reconstruct K [marker k i (ls_delete K) v] st = Inr (hm_remove j st)"
  by (simp add: marker_def)

text \<open>The state on disk.\<close>

definition kl_disk :: "'r log_shape \<Rightarrow> fs \<Rightarrow> (approval_id, 'r) hashmap \<Rightarrow> bool" where
  "kl_disk K d m \<longleftrightarrow> file_inv (ls_codec K) (ls_path K) d \<and>
     kl_reconstruct K (file_rows (ls_codec K) (ls_path K) d) [] = Inr m"

lemma kl_disk_keyed: "kl_disk K d m \<Longrightarrow> keyed (ls_key K) m"
  unfolding kl_disk_def by (auto intro: kl_reconstruct_keyed)

lemma kl_disk_read: "kl_disk K d m \<Longrightarrow>
    read_all_entries (ls_codec K) (ls_path K) d = Inr (file_rows (ls_codec K) (ls_path K) d)"
  using filej.replay_all_rows[of "ls_codec K" "ls_path K" d] by (simp add: kl_disk_def)

definition kl_inv :: "'r log_shape \<Rightarrow> log_state \<Rightarrow> bool" where
  "kl_inv K s \<longleftrightarrow> kl_ok K \<and> lg_handle s = AtPath \<and> (\<exists>m. kl_disk K (lg_fs s) m)"

definition kl_map :: "'r log_shape \<Rightarrow> log_state \<Rightarrow> (approval_id, 'r) hashmap" where
  "kl_map K s = (case kl_replay K s of Inl _ \<Rightarrow> [] | Inr m \<Rightarrow> m)"

lemma kl_disk_replay: "kl_disk K (lg_fs s) m \<Longrightarrow> kl_replay K s = Inr m \<and> kl_map K s = m"
  using kl_disk_read[of K "lg_fs s" m] by (simp add: kl_replay_def kl_read_def kl_map_def kl_disk_def)

lemma kl_invE:
  assumes "kl_inv K s"
  obtains m where "kl_ok K" "lg_handle s = AtPath" "kl_disk K (lg_fs s) m" "kl_replay K s = Inr m"
    "kl_map K s = m" "keyed (ls_key K) m"
  using assms kl_disk_replay kl_disk_keyed unfolding kl_inv_def by metis

lemma kl_invI:
  "kl_ok K \<Longrightarrow> lg_handle s = AtPath \<Longrightarrow> kl_disk K (lg_fs s) m \<Longrightarrow> kl_inv K s \<and> kl_map K s = m"
  using kl_disk_replay[of K s m] by (auto simp: kl_inv_def)

subsection \<open>Appending a marker\<close>

lemma kl_append_disk:
  assumes "kl_ok K" "lg_handle s = AtPath" "kl_disk K (lg_fs s) m"
    and "to_string (ls_codec K) (marker k (lg_next s) name v) \<noteq> None"
    and "kl_reconstruct K [marker k (lg_next s) name v] m = Inr m'"
    and "kl_append K k fl s name v = (r, s')"
  shows "(kl_disk K (file_open (ls_codec K) (lg_fs s') (ls_path K)) m \<or>
      kl_disk K (file_open (ls_codec K) (lg_fs s') (ls_path K)) m')"
    and "r = Done (Inr ()) \<Longrightarrow> lg_handle s' = AtPath \<and> kl_disk K (lg_fs s') m'"
    and "fl = NoFault \<Longrightarrow> r = Done (Inr ())"
proof -
  let ?C = "ls_codec K" and ?p = "ls_path K" and ?e = "marker k (lg_next s) name v"
  obtain r0 d' where app: "file_append ?C ?p fl (lg_fs s) ?e = (r0, d')"
    by (cases "file_append ?C ?p fl (lg_fs s) ?e")
  have s': "lg_fs s' = d'" "lg_handle s' = AtPath" "r = Done (Inr ()) \<longleftrightarrow> r0 = Done (Inr ())"
    using assms(2,6) app
    by (auto simp: kl_append_def kl_next_step_id_def split: outcome.splits sum.splits)
  have inv: "file_inv ?C ?p (lg_fs s)" and rec: "kl_reconstruct K (file_rows ?C ?p (lg_fs s)) [] = Inr m"
    using assms(3) by (auto simp: kl_disk_def)
  have rec': "kl_reconstruct K (file_rows ?C ?p (lg_fs s) @ [?e]) [] = Inr m'"
    using rec assms(5) by (simp add: kl_reconstruct_append)
  note ca = filec.crash_append[of ?C ?p "lg_fs s" fl ?e r0 d'] filec.append_success[of ?C ?p "lg_fs s" fl ?e d']
  show "kl_disk K (file_open ?C (lg_fs s') ?p) m \<or> kl_disk K (file_open ?C (lg_fs s') ?p) m'"
    using ca(1) inv app rec rec' s'(1) by (auto simp: kl_disk_def)
  show "r = Done (Inr ()) \<Longrightarrow> lg_handle s' = AtPath \<and> kl_disk K (lg_fs s') m'"
    using ca(2) inv app rec' s' by (auto simp: kl_disk_def)
  show "fl = NoFault \<Longrightarrow> r = Done (Inr ())"
    using s'(3) app assms(4) by (auto simp: file_append_def)
qed

subsection \<open>Compaction keeps the state\<close>

lemma kl_rows_reconstruct:
  assumes "kl_ok K" "kl_rows K k i rs = Inr es" "\<forall>r \<in> set rs. ls_fits K r"
  shows "kl_reconstruct K es st = Inr (foldl (\<lambda>m r. hm_insert (ls_key K r) r m) st rs)"
  using assms(2,3)
proof (induction rs arbitrary: i es st)
  case Nil
  then show ?case by simp
next
  case (Cons r rs)
  then obtain v es' where v: "ls_enc K r = Inr v"
    "kl_rows K k (next_id i) rs = Inr es'" "es = marker k i (ls_put K) v # es'"
    by (auto split: sum.splits)
  then show ?case using Cons.IH[OF v(2)] kl_ok_record(1)[OF assms(1) _ v(1)] Cons.prems(2) by (simp add: marker_def)
qed

lemma foldl_insert_values:
  "keyed key m \<Longrightarrow> hm_get (foldl (\<lambda>m v. hm_insert (key v) v m) st (hm_values m)) =
     hm_get st ++ hm_get m"
proof (induction m arbitrary: st)
  case Nil
  then show ?case by simp
next
  case (Cons kv m)
  obtain k v where kv: "kv = (k, v)" by (cases kv)
  have kv_key: "key v = k" using keyed_get[OF Cons.prems, of k v] kv by simp
  have notin: "hm_get m k = None" using keyed_ok[OF Cons.prems] kv by (simp add: map_of_eq_None_iff)
  have ok: "keyed key m"
    unfolding keyed_def
  proof (intro conjI allI impI)
    show "hm_ok m" using keyed_ok[OF Cons.prems] by simp
    fix k' v' assume "hm_get m k' = Some v'"
    with notin kv have "hm_get (kv # m) k' = Some v'" by auto
    then show "key v' = k'" by (rule keyed_get[OF Cons.prems])
  qed
  show ?case using Cons.IH[OF ok] kv kv_key notin
    by (auto simp: fun_eq_iff map_add_def split: option.splits)
qed

lemma kl_compact_disk:
  assumes "kl_ok K" "kl_disk K (lg_fs s) m" "se_tmp env \<noteq> ls_path K"
    and "kl_compact K sh env s = (r, s')"
  shows "\<exists>m'. kl_disk K (lg_fs s') m' \<and> hm_get m' = hm_get m"
    and "lg_handle s = AtPath \<Longrightarrow> se_swap env \<noteq> ReopenErr \<Longrightarrow> r \<noteq> Killed \<Longrightarrow> lg_handle s' = AtPath"
    and "se_swap env \<in> {SwapOk, RenameErr} \<union> range TmpErr \<Longrightarrow> r \<noteq> Killed"
proof -
  let ?C = "ls_codec K" and ?p = "ls_path K"
  have inv: "file_inv ?C ?p (lg_fs s)" and rec: "kl_reconstruct K (file_rows ?C ?p (lg_fs s)) [] = Inr m"
    using assms(2) by (auto simp: kl_disk_def)
  obtain r0 d' h' where cw: "compact_with ?C ?p (se_tmp env) (se_swap env) (lg_fs s, lg_handle s)
      (kl_build K sh (se_clock env)) = (r0, d', h')" by (rule prod_cases3)
  have s': "lg_fs s' = d'" "lg_handle s' = h'" "r = Killed \<longleftrightarrow> r0 = Killed"
    using assms(4) cw by (auto simp: kl_compact_def Let_def split: outcome.splits sum.splits)
  have kept: "\<exists>m'. kl_disk K d' m' \<and> hm_get m' = hm_get m"
    if b: "kl_build K sh (se_clock env) (file_rows ?C ?p (lg_fs s)) = Inr es"
      "file_inv ?C ?p d'" "file_rows ?C ?p d' = es" for es
  proof -
    have "kl_rows K (se_clock env) ZERO (hm_values m) = Inr es"
      using b(1) rec by (simp add: kl_build_def)
    moreover have "\<forall>r \<in> set (hm_values m). ls_fits K r"
      using keyed_values_ran[OF kl_disk_keyed[OF assms(2)]] kl_reconstruct_fits[OF assms(1) rec]
      by (auto simp: ran_def simp del: map_of_eq_Some_iff)
    ultimately have "kl_reconstruct K es [] = Inr (foldl (\<lambda>m r. hm_insert (ls_key K r) r m) [] (hm_values m))"
      using kl_rows_reconstruct[OF assms(1), of "se_clock env" ZERO "hm_values m" es "[]"] by blast
    then
    have "kl_disk K d' (foldl (\<lambda>m r. hm_insert (ls_key K r) r m) [] (hm_values m))"
      using b(2,3) by (simp add: kl_disk_def)
    then show ?thesis
      using foldl_insert_values[of "ls_key K" m "[]"] kl_disk_keyed[OF assms(2)] by auto
  qed
  have same: "\<exists>m'. kl_disk K d' m' \<and> hm_get m' = hm_get m" if "d' ?p = lg_fs s ?p"
  proof -
    have "read_all_entries ?C ?p d' = read_all_entries ?C ?p (lg_fs s)"
      using that by (simp add: read_all_entries_def parse_entries_from_path_def)
    then have "kl_disk K d' m" using inv rec that
      by (simp add: kl_disk_def file_inv_def file_rows_def)
    then show ?thesis by blast
  qed
  note ca = compaction_frame[OF inv assms(3) cw]
  show "\<exists>m'. kl_disk K (lg_fs s') m' \<and> hm_get m' = hm_get m"
    using ca(1) kept same s'(1) by blast
  show "lg_handle s = AtPath \<Longrightarrow> se_swap env \<noteq> ReopenErr \<Longrightarrow> r \<noteq> Killed \<Longrightarrow> lg_handle s' = AtPath"
    using ca(2) s' by (cases r0) (auto split: sum.splits)
  show "se_swap env \<in> {SwapOk, RenameErr} \<union> range TmpErr \<Longrightarrow> r \<noteq> Killed"
    using ca(3) s'(3) by auto
qed

subsection \<open>The operations on the state\<close>

definition harmless_swap :: "swap_fault \<Rightarrow> bool" where
  "harmless_swap sf = (case sf of SwapOk \<Rightarrow> True | RenameErr \<Rightarrow> True | TmpErr _ \<Rightarrow> True | _ \<Rightarrow> False)"

definition kl_quiet :: "'r log_shape \<Rightarrow> store_env \<Rightarrow> bool" where
  "kl_quiet K env \<longleftrightarrow> list_all (\<lambda>f. f = NoFault) (se_faults env) \<and> harmless_swap (se_swap env) \<and>
     se_tmp env \<noteq> ls_path K"

lemma kl_quietD:
  assumes "kl_quiet K env"
  shows "nth_fault env k = NoFault" "se_tmp env \<noteq> ls_path K" "se_swap env \<noteq> ReopenErr"
    "se_swap env \<in> {SwapOk, RenameErr} \<union> range TmpErr"
  using assms
  by (auto simp: kl_quiet_def nth_fault_def list_all_length harmless_swap_def split: swap_fault.splits)

lemma kl_disk_open: "kl_disk K d m \<Longrightarrow> file_open (ls_codec K) d (ls_path K) = d"
  by (simp add: kl_disk_def file_open_inv)

lemma kl_auto_disk:
  assumes "kl_ok K" "kl_disk K (lg_fs s) m" "se_tmp env \<noteq> ls_path K"
    and "kl_auto K sh env s = (r, s')"
  shows "\<exists>m'. kl_disk K (lg_fs s') m' \<and> hm_get m' = hm_get m"
    and "kl_quiet K env \<Longrightarrow> lg_handle s = AtPath \<Longrightarrow> r = Done () \<and> lg_handle s' = AtPath"
proof -
  obtain rc sc where c: "kl_compact K sh env s = (rc, sc)" by (rule prod.exhaust)
  have "(r = Done () \<and> s' = s) \<or> (s' = sc \<and> r = (case rc of Killed \<Rightarrow> Killed | Done _ \<Rightarrow> Done ()))"
    using assms(4) c
    by (auto simp: kl_auto_def split: sum.splits if_splits outcome.splits)
  note r = this
  note cd = kl_compact_disk[OF assms(1-3) c]
  show "\<exists>m'. kl_disk K (lg_fs s') m' \<and> hm_get m' = hm_get m"
    using r cd(1) assms(2) by blast
  show "r = Done () \<and> lg_handle s' = AtPath" if "kl_quiet K env" "lg_handle s = AtPath"
    using r cd(2,3) kl_quietD[OF that(1)] that(2) by (cases rc) auto
qed

lemma kl_marked_disk:
  assumes "kl_ok K" "lg_handle s = AtPath" "kl_disk K (lg_fs s) m" "se_tmp env \<noteq> ls_path K"
    and "to_string (ls_codec K) (marker (se_clock env) (lg_next s) name v) \<noteq> None"
    and "kl_reconstruct K [marker (se_clock env) (lg_next s) name v] m = Inr m'"
    and "kl_marked K sh env k s name v = (r, s')"
  shows "\<exists>mx. kl_disk K (file_open (ls_codec K) (lg_fs s') (ls_path K)) mx \<and>
      (hm_get mx = hm_get m \<or> hm_get mx = hm_get m') \<and>
      (r = Done (Inr ()) \<longrightarrow> hm_get mx = hm_get m' \<and> kl_disk K (lg_fs s') mx)"
    and "kl_quiet K env \<Longrightarrow> r = Done (Inr ()) \<and> lg_handle s' = AtPath"
proof -
  obtain r1 s1 where a: "kl_append K (se_clock env) (nth_fault env k) s name v = (r1, s1)"
    by (rule prod.exhaust)
  obtain r2 s2 where c: "kl_auto K sh env s1 = (r2, s2)" by (rule prod.exhaust)
  note ad = kl_append_disk[OF assms(1-3,5,6) a]
  have cases: "(r1 = Done (Inr ()) \<and> s' = s2 \<and> (r = Done (Inr ()) \<longleftrightarrow> r2 = Done ())) \<or>
      (r1 \<noteq> Done (Inr ()) \<and> s' = s1 \<and> r \<noteq> Done (Inr ()))"
    using assms(7) a c by (auto simp: kl_marked_def split: outcome.splits sum.splits)
  show "\<exists>mx. kl_disk K (file_open (ls_codec K) (lg_fs s') (ls_path K)) mx \<and>
      (hm_get mx = hm_get m \<or> hm_get mx = hm_get m') \<and>
      (r = Done (Inr ()) \<longrightarrow> hm_get mx = hm_get m' \<and> kl_disk K (lg_fs s') mx)"
    using cases
  proof
    assume "r1 = Done (Inr ()) \<and> s' = s2 \<and> (r = Done (Inr ()) \<longleftrightarrow> r2 = Done ())"
    moreover from this obtain mx where "kl_disk K (lg_fs s2) mx" "hm_get mx = hm_get m'"
      using kl_auto_disk(1)[OF assms(1) _ assms(4) c] ad(2) by blast
    ultimately show ?thesis using kl_disk_open[of K "lg_fs s2" mx] by auto
  next
    assume "r1 \<noteq> Done (Inr ()) \<and> s' = s1 \<and> r \<noteq> Done (Inr ())"
    with ad(1) show ?thesis by blast
  qed
  assume q: "kl_quiet K env"
  from ad(3) kl_quietD(1)[OF q] have r1: "r1 = Done (Inr ())" by blast
  with ad(2) have "lg_handle s1 = AtPath" "kl_disk K (lg_fs s1) m'" by auto
  with kl_auto_disk(2)[OF assms(1) _ assms(4) c q] cases r1
  show "r = Done (Inr ()) \<and> lg_handle s' = AtPath" by auto
qed

lemma kl_delete_all_map:
  assumes "kl_inv K s" "kl_quiet K env"
  shows "\<exists>s'. kl_delete_all K env k is s = (Done (Inr ()), s') \<and> kl_inv K s' \<and>
    (\<forall>j. hm_get (kl_map K s') j = (if j \<in> set is then None else hm_get (kl_map K s) j))"
  using assms(1)
proof (induction "is" arbitrary: k s)
  case Nil
  then show ?case by simp
next
  case (Cons i "is")
  from Cons.prems obtain m where s: "kl_ok K" "lg_handle s = AtPath" "kl_disk K (lg_fs s) m"
    "kl_replay K s = Inr m" "kl_map K s = m" "keyed (ls_key K) m" by (rule kl_invE)
  obtain v where v: "ls_enc_id K i = Inr v" "ls_dec_id K v = Inr i"
    "\<And>k j. to_string (ls_codec K) (marker k j (ls_delete K) v) \<noteq> None" by (rule kl_ok_id[OF s(1)]) blast
  obtain r1 s1 where a: "kl_append K (se_clock env) (nth_fault env k) s (ls_delete K) v = (r1, s1)"
    by (rule prod.exhaust)
  note ad = kl_append_disk[OF s(1-3) v(3) kl_reconstruct_delete[OF v(2) kl_ok_names[OF s(1)]] a]
  have r1: "r1 = Done (Inr ())" using ad(3) kl_quietD(1)[OF assms(2)] by blast
  with ad(2) have "lg_handle s1 = AtPath" "kl_disk K (lg_fs s1) (hm_remove i m)" by auto
  then have s1: "kl_inv K s1" "kl_map K s1 = hm_remove i m" using kl_invI[OF s(1)] by auto
  from Cons.IH[OF s1(1), of "k + 1"] s1(2) s(5) v(1) a r1 show ?case by auto
qed

text \<open>A marker reported as written leaves the handle on the file, unless the reopening after a compaction failed.\<close>

lemma kl_marked_handle:
  assumes "kl_ok K" "lg_handle s = AtPath" "kl_disk K (lg_fs s) m" "se_tmp env \<noteq> ls_path K" "se_swap env \<noteq> ReopenErr"
    and "to_string (ls_codec K) (marker (se_clock env) (lg_next s) name v) \<noteq> None"
    and "kl_reconstruct K [marker (se_clock env) (lg_next s) name v] m = Inr m'"
    and "kl_marked K sh env k s name v = (Done (Inr ()), s')"
  shows "lg_handle s' = AtPath"
proof -
  obtain r1 s1 where a: "kl_append K (se_clock env) (nth_fault env k) s name v = (r1, s1)" by (rule prod.exhaust)
  obtain r2 s2 where c: "kl_auto K sh env s1 = (r2, s2)" by (rule prod.exhaust)
  have ok: "r1 = Done (Inr ())" "r2 = Done ()" "s' = s2"
    using assms(8) a c by (auto simp: kl_marked_def split: outcome.splits sum.splits)
  have s1: "lg_handle s1 = AtPath" "kl_disk K (lg_fs s1) m'"
    using kl_append_disk(2)[OF assms(1-3,6,7) a ok(1)] by auto
  obtain rc sc where cc: "kl_compact K sh env s1 = (rc, sc)" by (rule prod.exhaust)
  have "s2 = s1 \<or> s2 = sc \<and> rc \<noteq> Killed"
    using c cc ok(2) by (auto simp: kl_auto_def split: sum.splits if_splits outcome.splits)
  with kl_compact_disk(2)[OF assms(1) s1(2) assms(4) cc s1(1) assms(5)] s1(1) ok(3) show ?thesis by auto
qed

lemma kl_open_disk:
  assumes "kl_ok K" "kl_disk K (file_open (ls_codec K) d (ls_path K)) m"
  shows "\<exists>s. kl_open K d = Inr s \<and> kl_inv K s \<and> kl_map K s = m"
proof -
  let ?d = "file_open (ls_codec K) d (ls_path K)"
  have "read_all_entries (ls_codec K) (ls_path K) ?d = Inr (file_rows (ls_codec K) (ls_path K) ?d)"
    by (rule kl_disk_read[OF assms(2)])
  then obtain n where n: "kl_open K d = Inr \<lparr>lg_fs = ?d, lg_handle = AtPath, lg_next = n\<rparr>"
    by (simp add: kl_open_def Let_def default_len_def)
  with kl_invI[OF assms(1), of "\<lparr>lg_fs = ?d, lg_handle = AtPath, lg_next = n\<rparr>" m] assms(2)
  show ?thesis by simp
qed

text \<open>A marker that puts or deletes, on a state: what an operation leaves, whatever fails in it.\<close>

lemma kl_marked_put:
  assumes "kl_inv K s" "se_tmp env \<noteq> ls_path K" "ls_fits K r" "ls_enc K r = Inr v" "kl_marked K sh env k s (ls_put K) v = (res, s')"
  shows "\<exists>mx. kl_disk K (file_open (ls_codec K) (lg_fs s') (ls_path K)) mx \<and>
      (hm_get mx = hm_get (kl_map K s) \<or> hm_get mx = (hm_get (kl_map K s))(ls_key K r \<mapsto> r)) \<and>
      (res = Done (Inr ()) \<longrightarrow> hm_get mx = (hm_get (kl_map K s))(ls_key K r \<mapsto> r) \<and> kl_disk K (lg_fs s') mx)"
    and "kl_quiet K env \<Longrightarrow> res = Done (Inr ()) \<and> lg_handle s' = AtPath"
    and "res = Done (Inr ()) \<Longrightarrow> se_swap env \<noteq> ReopenErr \<Longrightarrow> lg_handle s' = AtPath"
proof -
  from assms(1) obtain m where s: "kl_ok K" "lg_handle s = AtPath" "kl_disk K (lg_fs s) m" "kl_map K s = m"
    by (rule kl_invE)
  have rec: "kl_reconstruct K [marker (se_clock env) (lg_next s) (ls_put K) v] m = Inr (hm_insert (ls_key K r) r m)"
    by (rule kl_reconstruct_put[OF kl_ok_record(1)[OF s(1) assms(3,4)]])
  note md = kl_marked_disk[OF s(1-3) assms(2) kl_ok_record(2)[OF s(1) assms(3,4)] rec assms(5), unfolded hm_get_insert]
  show "res = Done (Inr ()) \<Longrightarrow> se_swap env \<noteq> ReopenErr \<Longrightarrow> lg_handle s' = AtPath"
    using kl_marked_handle[OF s(1-3) assms(2) _ kl_ok_record(2)[OF s(1) assms(3,4)] rec, where s' = s' and k = k and sh = sh] assms(5) by blast
  show "\<exists>mx. kl_disk K (file_open (ls_codec K) (lg_fs s') (ls_path K)) mx \<and>
      (hm_get mx = hm_get (kl_map K s) \<or> hm_get mx = (hm_get (kl_map K s))(ls_key K r \<mapsto> r)) \<and>
      (res = Done (Inr ()) \<longrightarrow> hm_get mx = (hm_get (kl_map K s))(ls_key K r \<mapsto> r) \<and> kl_disk K (lg_fs s') mx)"
    unfolding s(4) by (rule md(1))
  show "kl_quiet K env \<Longrightarrow> res = Done (Inr ()) \<and> lg_handle s' = AtPath" by (rule md(2))
qed

lemma kl_marked_delete:
  assumes "kl_inv K s" "se_tmp env \<noteq> ls_path K" "ls_enc_id K i = Inr v" "kl_marked K sh env k s (ls_delete K) v = (res, s')"
  shows "\<exists>mx. kl_disk K (file_open (ls_codec K) (lg_fs s') (ls_path K)) mx \<and>
      (hm_get mx = hm_get (kl_map K s) \<or> hm_get mx = (hm_get (kl_map K s))(i := None)) \<and>
      (res = Done (Inr ()) \<longrightarrow> hm_get mx = (hm_get (kl_map K s))(i := None) \<and> kl_disk K (lg_fs s') mx)"
    and "kl_quiet K env \<Longrightarrow> res = Done (Inr ()) \<and> lg_handle s' = AtPath"
    and "res = Done (Inr ()) \<Longrightarrow> se_swap env \<noteq> ReopenErr \<Longrightarrow> lg_handle s' = AtPath"
proof -
  from assms(1) obtain m where s: "kl_ok K" "lg_handle s = AtPath" "kl_disk K (lg_fs s) m" "kl_map K s = m"
    by (rule kl_invE)
  obtain v' where v': "ls_enc_id K i = Inr v'" "ls_dec_id K v' = Inr i"
    "\<And>k j. to_string (ls_codec K) (marker k j (ls_delete K) v') \<noteq> None" by (rule kl_ok_id[OF s(1)]) blast
  with assms(3) have v: "ls_dec_id K v = Inr i" "\<And>k j. to_string (ls_codec K) (marker k j (ls_delete K) v) \<noteq> None" by auto
  have rec: "kl_reconstruct K [marker (se_clock env) (lg_next s) (ls_delete K) v] m = Inr (hm_remove i m)"
    by (rule kl_reconstruct_delete[OF v(1) kl_ok_names[OF s(1)]])
  note md = kl_marked_disk[OF s(1-3) assms(2) v(2) rec assms(4), unfolded hm_get_remove]
  show "res = Done (Inr ()) \<Longrightarrow> se_swap env \<noteq> ReopenErr \<Longrightarrow> lg_handle s' = AtPath"
    using kl_marked_handle[OF s(1-3) assms(2) _ v(2) rec, where s' = s' and k = k and sh = sh] assms(4) by blast
  show "\<exists>mx. kl_disk K (file_open (ls_codec K) (lg_fs s') (ls_path K)) mx \<and>
      (hm_get mx = hm_get (kl_map K s) \<or> hm_get mx = (hm_get (kl_map K s))(i := None)) \<and>
      (res = Done (Inr ()) \<longrightarrow> hm_get mx = (hm_get (kl_map K s))(i := None) \<and> kl_disk K (lg_fs s') mx)"
    unfolding s(4) by (rule md(1))
  show "kl_quiet K env \<Longrightarrow> res = Done (Inr ()) \<and> lg_handle s' = AtPath" by (rule md(2))
qed

end
