(* ===== verification/Pending_Journal.thy ===== *)
theory Pending_Journal
  imports Keyed_Log
begin

section \<open>The journal-backed store of pending approvals\<close>

text \<open>
  Models \<^verbatim>\<open>JournalPendingStore\<close> of \<^verbatim>\<open>crates/familyclaw-actions/src/pending_store.rs\<close>: put and
  delete markers in a file journal, the state rebuilt from the log on every read, automatic
  compaction. The encoders of records and ids are the parameter \<open>PC\<close>.
\<close>

record pending_codec =
  enc_record :: "pending_record \<Rightarrow> string + json"
  dec_record :: "json \<Rightarrow> string + pending_record"
  enc_id :: "approval_id \<Rightarrow> string + json"
  dec_id :: "json \<Rightarrow> string + approval_id"

definition PENDING_PUT :: string where
  "PENDING_PUT = ''pending_approval_put''"

definition PENDING_DELETE :: string where
  "PENDING_DELETE = ''pending_approval_delete''"

definition AUTO_COMPACT_FACTOR :: nat where
  "AUTO_COMPACT_FACTOR = 2"

definition AUTO_COMPACT_MIN_ROWS :: nat where
  "AUTO_COMPACT_MIN_ROWS = 64"

text \<open>What stays fixed: the encoders, the path, the capacity and the compaction factor.\<close>

record jp_config =
  jp_codec :: codec
  jp_enc :: pending_codec
  jp_path :: path
  jp_capacity :: capacity
  jp_factor :: nat

record jp_state =
  jp_fs :: fs
  jp_handle :: handle
  jp_next :: step_id

definition jp_read :: "jp_config \<Rightarrow> jp_state \<Rightarrow> durable_error + journal_entry list" where
  "jp_read K s = read_all_entries (jp_codec K) (jp_path K) (jp_fs s)"

definition jp_open :: "jp_config \<Rightarrow> fs \<Rightarrow> action_error + jp_state" where
  "jp_open K d =
     (let d' = file_open (jp_codec K) d (jp_path K)
      in case default_len (read_all_entries (jp_codec K) (jp_path K)) d' of
           Inl e \<Rightarrow> Inl (Proof (''read pending journal failed: '' @ show_durable_error e))
         | Inr len \<Rightarrow> Inr \<lparr>jp_fs = d', jp_handle = AtPath, jp_next = of_nat (min len (2 ^ 64 - 1))\<rparr>)"

definition with_auto_compact_factor :: "nat \<Rightarrow> jp_config \<Rightarrow> jp_config" where
  "with_auto_compact_factor f K = K\<lparr>jp_factor := f\<rparr>"

definition jp_next_step_id :: "jp_state \<Rightarrow> step_id \<times> jp_state" where
  "jp_next_step_id s = (jp_next s, s\<lparr>jp_next := next_id (jp_next s)\<rparr>)"

definition jp_append_marker ::
  "jp_config \<Rightarrow> timestamp \<Rightarrow> fault \<Rightarrow> jp_state \<Rightarrow> string \<Rightarrow> json \<Rightarrow> (action_error + unit) outcome \<times> jp_state" where
  "jp_append_marker K clock fl s name payload =
     (case jp_next_step_id s of (sid, s1) \<Rightarrow>
        (case handle_append (jp_codec K) (jp_path K) fl (jp_fs s1, jp_handle s1)
                (marker clock sid name payload) of
           (r, d', h') \<Rightarrow>
             (case r of
                Killed \<Rightarrow> Killed
              | Done (Inl e) \<Rightarrow> Done (Inl (Proof (''append pending marker failed: '' @ show_durable_error e)))
              | Done (Inr _) \<Rightarrow> Done (Inr ()),
              s1\<lparr>jp_fs := d', jp_handle := h'\<rparr>)))"

fun reconstruct_state ::
  "pending_codec \<Rightarrow> journal_entry list \<Rightarrow> (approval_id, pending_record) hashmap \<Rightarrow>
   action_error + (approval_id, pending_record) hashmap" where
  "reconstruct_state PC [] state = Inr state"
| "reconstruct_state PC (e # es) state =
     (case je_kind e of
        Marker name payload \<Rightarrow>
          if name = PENDING_PUT then
            (case dec_record PC payload of
               Inl m \<Rightarrow> Inl (Proof (''decode pending put record failed: '' @ m))
             | Inr r \<Rightarrow> reconstruct_state PC es (hm_insert (pr_id r) r state))
          else if name = PENDING_DELETE then
            (case dec_id PC payload of
               Inl m \<Rightarrow> Inl (Proof (''decode pending delete id failed: '' @ m))
             | Inr i \<Rightarrow> reconstruct_state PC es (hm_remove i state))
          else reconstruct_state PC es state
      | _ \<Rightarrow> reconstruct_state PC es state)"

definition replay_state ::
  "jp_config \<Rightarrow> jp_state \<Rightarrow> action_error + (approval_id, pending_record) hashmap" where
  "replay_state K s =
     (case jp_read K s of
        Inl e \<Rightarrow> Inl (Proof (''replay pending journal failed: '' @ show_durable_error e))
      | Inr es \<Rightarrow> reconstruct_state (jp_enc K) es [])"

definition physical_row_count :: "jp_config \<Rightarrow> jp_state \<Rightarrow> action_error + nat" where
  "physical_row_count K s =
     (case default_len (jp_read K) s of
        Inl e \<Rightarrow> Inl (Proof (''read pending journal len failed: '' @ show_durable_error e))
      | Inr n \<Rightarrow> Inr n)"

subsection \<open>Compaction\<close>

fun live_rows ::
  "pending_codec \<Rightarrow> timestamp \<Rightarrow> step_id \<Rightarrow> pending_record list \<Rightarrow> durable_error + journal_entry list" where
  "live_rows PC clock sid [] = Inr []"
| "live_rows PC clock sid (r # rs) =
     (case enc_record PC r of
        Inl m \<Rightarrow> Inl (Serde m)
      | Inr payload \<Rightarrow>
          (case live_rows PC clock (next_id sid) rs of
             Inl e \<Rightarrow> Inl e
           | Inr es \<Rightarrow> Inr (marker clock sid PENDING_PUT payload # es)))"

definition compact_build ::
  "pending_codec \<Rightarrow> timestamp \<Rightarrow> journal_entry list \<Rightarrow> durable_error + journal_entry list" where
  "compact_build PC clock entries =
     (case reconstruct_state PC entries [] of
        Inl e \<Rightarrow> Inl (step_failed ''compact_reconstruct'' (show_error e))
      | Inr state \<Rightarrow> live_rows PC clock ZERO (hm_values state))"

definition live_count :: "jp_config \<Rightarrow> timestamp \<Rightarrow> jp_state \<Rightarrow> nat" where
  "live_count K clock s =
     (case jp_read K s of
        Inl _ \<Rightarrow> 0
      | Inr es \<Rightarrow> (case compact_build (jp_enc K) clock es of Inl _ \<Rightarrow> 0 | Inr kept \<Rightarrow> length kept))"

definition jp_compact ::
  "jp_config \<Rightarrow> store_env \<Rightarrow> jp_state \<Rightarrow> (action_error + nat) outcome \<times> jp_state" where
  "jp_compact K env s =
     (case compact_with (jp_codec K) (jp_path K) (se_tmp env) (se_swap env) (jp_fs s, jp_handle s)
             (compact_build (jp_enc K) (se_clock env)) of
        (r, d', h') \<Rightarrow>
          (let s' = s\<lparr>jp_fs := d', jp_handle := h'\<rparr>
           in case r of
                Killed \<Rightarrow> (Killed, s')
              | Done (Inl e) \<Rightarrow> (Done (Inl (Proof (''compact pending journal failed: '' @ show_durable_error e))), s')
              | Done (Inr dropped) \<Rightarrow>
                  (Done (Inr dropped),
                   s'\<lparr>jp_next := of_nat (min (live_count K (se_clock env) s) (2 ^ 64 - 1))\<rparr>)))"

definition maybe_auto_compact :: "jp_config \<Rightarrow> store_env \<Rightarrow> jp_state \<Rightarrow> unit outcome \<times> jp_state" where
  "maybe_auto_compact K env s =
     (if jp_factor K = 0 then (Done (), s)
      else case physical_row_count K s of
             Inl _ \<Rightarrow> (Done (), s)
           | Inr rows \<Rightarrow>
               if rows < AUTO_COMPACT_MIN_ROWS then (Done (), s)
               else case replay_state K s of
                      Inl _ \<Rightarrow> (Done (), s)
                    | Inr live \<Rightarrow>
                        if rows > min (jp_factor K * length live) (2 ^ 64 - 1)
                        then (case jp_compact K env s of
                                (Killed, s') \<Rightarrow> (Killed, s')
                              | (Done _, s') \<Rightarrow> (Done (), s'))
                        else (Done (), s))"

subsection \<open>The operations of the store\<close>

definition jp_insert ::
  "jp_config \<Rightarrow> store_env \<Rightarrow> jp_state \<Rightarrow> pending_record \<Rightarrow> (action_error + unit) outcome \<times> jp_state" where
  "jp_insert K env s r =
     (case replay_state K s of
        Inl e \<Rightarrow> (Done (Inl e), s)
      | Inr state \<Rightarrow>
          if \<not> hm_contains state (pr_id r) \<and> \<not> has_room_for_one_more (jp_capacity K) (length state)
          then (Done (Inl (full_error (jp_capacity K))), s)
          else case enc_record (jp_enc K) r of
                 Inl m \<Rightarrow> (Done (Inl (Proof (''encode pending record failed: '' @ m))), s)
               | Inr payload \<Rightarrow>
                   (case jp_append_marker K (se_clock env) (nth_fault env 0) s PENDING_PUT payload of
                      (Killed, s1) \<Rightarrow> (Killed, s1)
                    | (Done (Inl e), s1) \<Rightarrow> (Done (Inl e), s1)
                    | (Done (Inr _), s1) \<Rightarrow>
                        (case maybe_auto_compact K env s1 of
                           (Killed, s2) \<Rightarrow> (Killed, s2)
                         | (Done _, s2) \<Rightarrow> (Done (Inr ()), s2))))"

definition jp_get :: "jp_config \<Rightarrow> jp_state \<Rightarrow> approval_id \<Rightarrow> action_error + pending_record option" where
  "jp_get K s i = (case replay_state K s of Inl e \<Rightarrow> Inl e | Inr m \<Rightarrow> Inr (hm_get m i))"

definition jp_remove ::
  "jp_config \<Rightarrow> store_env \<Rightarrow> jp_state \<Rightarrow> approval_id \<Rightarrow> (action_error + pending_record option) outcome \<times> jp_state" where
  "jp_remove K env s i =
     (case replay_state K s of
        Inl e \<Rightarrow> (Done (Inl e), s)
      | Inr state \<Rightarrow>
          (case hm_get state i of
             None \<Rightarrow> (Done (Inr None), s)
           | Some existing \<Rightarrow>
               (case enc_id (jp_enc K) i of
                  Inl m \<Rightarrow> (Done (Inl (Proof (''encode pending delete id failed: '' @ m))), s)
                | Inr payload \<Rightarrow>
                    (case jp_append_marker K (se_clock env) (nth_fault env 0) s PENDING_DELETE payload of
                       (Killed, s1) \<Rightarrow> (Killed, s1)
                     | (Done (Inl e), s1) \<Rightarrow> (Done (Inl e), s1)
                     | (Done (Inr _), s1) \<Rightarrow>
                         (case maybe_auto_compact K env s1 of
                            (Killed, s2) \<Rightarrow> (Killed, s2)
                          | (Done _, s2) \<Rightarrow> (Done (Inr (Some existing)), s2))))))"

definition jp_len :: "jp_config \<Rightarrow> jp_state \<Rightarrow> action_error + nat" where
  "jp_len K s = (case replay_state K s of Inl e \<Rightarrow> Inl e | Inr m \<Rightarrow> Inr (length m))"

definition jp_list :: "jp_config \<Rightarrow> jp_state \<Rightarrow> action_error + pending_record list" where
  "jp_list K s = (case replay_state K s of Inl e \<Rightarrow> Inl e | Inr m \<Rightarrow> Inr (hm_values m))"

fun delete_all ::
  "jp_config \<Rightarrow> store_env \<Rightarrow> nat \<Rightarrow> approval_id list \<Rightarrow> jp_state \<Rightarrow> (action_error + unit) outcome \<times> jp_state" where
  "delete_all K env k [] s = (Done (Inr ()), s)"
| "delete_all K env k (i # is) s =
     (case enc_id (jp_enc K) i of
        Inl m \<Rightarrow> (Done (Inl (Proof (''encode pending delete id failed: '' @ m))), s)
      | Inr payload \<Rightarrow>
          (case jp_append_marker K (se_clock env) (nth_fault env k) s PENDING_DELETE payload of
             (Killed, s1) \<Rightarrow> (Killed, s1)
           | (Done (Inl e), s1) \<Rightarrow> (Done (Inl e), s1)
           | (Done (Inr _), s1) \<Rightarrow> delete_all K env (k + 1) is s1))"

definition jp_evict ::
  "jp_config \<Rightarrow> store_env \<Rightarrow> jp_state \<Rightarrow> timestamp \<Rightarrow> (action_error + nat) outcome \<times> jp_state" where
  "jp_evict K env s now =
     (case replay_state K s of
        Inl e \<Rightarrow> (Done (Inl e), s)
      | Inr state \<Rightarrow>
          (let expired = map pr_id (filter (\<lambda>r. pr_expired r now) (hm_values state))
           in case delete_all K env 0 expired s of
                (Killed, s1) \<Rightarrow> (Killed, s1)
              | (Done (Inl e), s1) \<Rightarrow> (Done (Inl e), s1)
              | (Done (Inr _), s1) \<Rightarrow>
                  if expired \<noteq> []
                  then (case maybe_auto_compact K env s1 of
                          (Killed, s2) \<Rightarrow> (Killed, s2)
                        | (Done _, s2) \<Rightarrow> (Done (Inr (length expired)), s2))
                  else (Done (Inr (length expired)), s1)))"

definition journal_pending_store :: "jp_config \<Rightarrow> jp_state pending_trait" where
  "journal_pending_store K =
     \<lparr>ps_insert = jp_insert K, ps_get = jp_get K, ps_remove = jp_remove K, ps_len = jp_len K,
      ps_list = jp_list K, ps_evict = jp_evict K, ps_kind = ''journal''\<rparr>"

lemma journal_pending_sel [simp]:
  "ps_insert (journal_pending_store K) = jp_insert K" "ps_get (journal_pending_store K) = jp_get K"
  "ps_remove (journal_pending_store K) = jp_remove K" "ps_len (journal_pending_store K) = jp_len K"
  "ps_list (journal_pending_store K) = jp_list K" "ps_evict (journal_pending_store K) = jp_evict K"
  by (simp_all add: journal_pending_store_def)

subsection \<open>What the encoders are relied on for\<close>

definition jp_ok :: "jp_config \<Rightarrow> bool" where
  "jp_ok K \<longleftrightarrow> codec_ok (jp_codec K) \<and>
     (\<forall>r v. enc_record (jp_enc K) r = Inr v \<longrightarrow> dec_record (jp_enc K) v = Inr r \<and>
        (\<forall>k i. to_string (jp_codec K) (marker k i PENDING_PUT v) \<noteq> None)) \<and>
     (\<forall>i. \<exists>v. enc_id (jp_enc K) i = Inr v \<and> dec_id (jp_enc K) v = Inr i \<and>
        (\<forall>k j. to_string (jp_codec K) (marker k j PENDING_DELETE v) \<noteq> None))"

definition jp_storable :: "jp_config \<Rightarrow> pending_record \<Rightarrow> bool" where
  "jp_storable K r \<longleftrightarrow> \<not> isl (enc_record (jp_enc K) r)"

lemma jp_ok_codec: "jp_ok K \<Longrightarrow> codec_ok (jp_codec K)"
  by (simp add: jp_ok_def)

lemma jp_ok_record:
  assumes "jp_ok K" "enc_record (jp_enc K) r = Inr v"
  shows "dec_record (jp_enc K) v = Inr r" "to_string (jp_codec K) (marker k i PENDING_PUT v) \<noteq> None"
  using assms by (auto simp: jp_ok_def)

lemma jp_ok_id:
  assumes "jp_ok K"
  obtains v where "enc_id (jp_enc K) i = Inr v" "dec_id (jp_enc K) v = Inr i"
    "\<And>k j. to_string (jp_codec K) (marker k j PENDING_DELETE v) \<noteq> None"
  using assms unfolding jp_ok_def by blast

lemma put_not_delete [simp]: "PENDING_DELETE \<noteq> PENDING_PUT" "PENDING_PUT \<noteq> PENDING_DELETE"
  by (simp_all add: PENDING_PUT_def PENDING_DELETE_def)

subsection \<open>The state a log describes\<close>

lemma reconstruct_append:
  "reconstruct_state PC (es @ fs) st =
     (case reconstruct_state PC es st of Inl e \<Rightarrow> Inl e | Inr st' \<Rightarrow> reconstruct_state PC fs st')"
  by (induction PC es st rule: reconstruct_state.induct) (auto split: entry_kind.splits sum.splits)

lemma reconstruct_keyed:
  "reconstruct_state PC es st = Inr st' \<Longrightarrow> keyed_map st \<Longrightarrow> keyed_map st'"
  by (induction PC es st rule: reconstruct_state.induct)
    (auto split: entry_kind.splits sum.splits if_splits intro: keyed_insert keyed_remove)

lemma reconstruct_put:
  "dec_record PC v = Inr r \<Longrightarrow>
   reconstruct_state PC [marker k i PENDING_PUT v] st = Inr (hm_insert (pr_id r) r st)"
  by (simp add: marker_def)

lemma reconstruct_delete:
  "dec_id PC v = Inr j \<Longrightarrow>
   reconstruct_state PC [marker k i PENDING_DELETE v] st = Inr (hm_remove j st)"
  by (simp add: marker_def)

text \<open>The state on disk.\<close>

definition disk_ok :: "jp_config \<Rightarrow> fs \<Rightarrow> (approval_id, pending_record) hashmap \<Rightarrow> bool" where
  "disk_ok K d m \<longleftrightarrow> file_inv (jp_codec K) (jp_path K) d \<and>
     reconstruct_state (jp_enc K) (file_rows (jp_codec K) (jp_path K) d) [] = Inr m"

lemma disk_ok_keyed: "disk_ok K d m \<Longrightarrow> keyed_map m"
  unfolding disk_ok_def by (auto intro: reconstruct_keyed)

lemma disk_read: "disk_ok K d m \<Longrightarrow>
    read_all_entries (jp_codec K) (jp_path K) d = Inr (file_rows (jp_codec K) (jp_path K) d)"
  using filej.replay_all_rows[of "jp_codec K" "jp_path K" d] by (simp add: disk_ok_def)

definition jp_inv :: "jp_config \<Rightarrow> jp_state \<Rightarrow> bool" where
  "jp_inv K s \<longleftrightarrow> jp_ok K \<and> jp_handle s = AtPath \<and> (\<exists>m. disk_ok K (jp_fs s) m)"

definition jp_map :: "jp_config \<Rightarrow> jp_state \<Rightarrow> (approval_id, pending_record) hashmap" where
  "jp_map K s = (case replay_state K s of Inl _ \<Rightarrow> [] | Inr m \<Rightarrow> m)"

lemma disk_replay: "disk_ok K (jp_fs s) m \<Longrightarrow> replay_state K s = Inr m \<and> jp_map K s = m"
  using disk_read[of K "jp_fs s" m] by (simp add: replay_state_def jp_read_def jp_map_def disk_ok_def)

lemma jp_invE:
  assumes "jp_inv K s"
  obtains m where "jp_ok K" "jp_handle s = AtPath" "disk_ok K (jp_fs s) m" "replay_state K s = Inr m"
    "jp_map K s = m" "keyed_map m"
  using assms disk_replay disk_ok_keyed unfolding jp_inv_def by metis

lemma jp_invI:
  "jp_ok K \<Longrightarrow> jp_handle s = AtPath \<Longrightarrow> disk_ok K (jp_fs s) m \<Longrightarrow> jp_inv K s \<and> jp_map K s = m"
  using disk_replay[of K s m] by (auto simp: jp_inv_def)

subsection \<open>Appending a marker\<close>

lemma append_marker_disk:
  assumes "jp_ok K" "jp_handle s = AtPath" "disk_ok K (jp_fs s) m"
    and "to_string (jp_codec K) (marker k (jp_next s) name v) \<noteq> None"
    and "reconstruct_state (jp_enc K) [marker k (jp_next s) name v] m = Inr m'"
    and "jp_append_marker K k fl s name v = (r, s')"
  shows "(disk_ok K (file_open (jp_codec K) (jp_fs s') (jp_path K)) m \<or>
      disk_ok K (file_open (jp_codec K) (jp_fs s') (jp_path K)) m')"
    and "r = Done (Inr ()) \<Longrightarrow> jp_handle s' = AtPath \<and> disk_ok K (jp_fs s') m'"
    and "fl = NoFault \<Longrightarrow> r = Done (Inr ())"
proof -
  let ?C = "jp_codec K" and ?p = "jp_path K" and ?e = "marker k (jp_next s) name v"
  obtain r0 d' where app: "file_append ?C ?p fl (jp_fs s) ?e = (r0, d')"
    by (cases "file_append ?C ?p fl (jp_fs s) ?e")
  have s': "jp_fs s' = d'" "jp_handle s' = AtPath" "r = Done (Inr ()) \<longleftrightarrow> r0 = Done (Inr ())"
    using assms(2,6) app
    by (auto simp: jp_append_marker_def jp_next_step_id_def split: outcome.splits sum.splits)
  have inv: "file_inv ?C ?p (jp_fs s)" and rec: "reconstruct_state (jp_enc K) (file_rows ?C ?p (jp_fs s)) [] = Inr m"
    using assms(3) by (auto simp: disk_ok_def)
  have rec': "reconstruct_state (jp_enc K) (file_rows ?C ?p (jp_fs s) @ [?e]) [] = Inr m'"
    using rec assms(5) by (simp add: reconstruct_append)
  note ca = filec.crash_append[of ?C ?p "jp_fs s" fl ?e r0 d'] filec.append_success[of ?C ?p "jp_fs s" fl ?e d']
  show "disk_ok K (file_open ?C (jp_fs s') ?p) m \<or> disk_ok K (file_open ?C (jp_fs s') ?p) m'"
    using ca(1) inv app rec rec' s'(1) by (auto simp: disk_ok_def)
  show "r = Done (Inr ()) \<Longrightarrow> jp_handle s' = AtPath \<and> disk_ok K (jp_fs s') m'"
    using ca(2) inv app rec' s' by (auto simp: disk_ok_def)
  show "fl = NoFault \<Longrightarrow> r = Done (Inr ())"
    using s'(3) app assms(4) by (auto simp: file_append_def)
qed

subsection \<open>Compaction keeps the state\<close>

lemma live_rows_reconstruct:
  assumes "jp_ok K" "live_rows (jp_enc K) k i rs = Inr es"
  shows "reconstruct_state (jp_enc K) es st = Inr (foldl (\<lambda>m r. hm_insert (pr_id r) r m) st rs)"
  using assms(2)
proof (induction rs arbitrary: i es st)
  case Nil
  then show ?case by simp
next
  case (Cons r rs)
  then obtain v es' where v: "enc_record (jp_enc K) r = Inr v"
    "live_rows (jp_enc K) k (next_id i) rs = Inr es'" "es = marker k i PENDING_PUT v # es'"
    by (auto split: sum.splits)
  then show ?case using Cons.IH[OF v(2)] jp_ok_record(1)[OF assms(1) v(1)] by (simp add: marker_def)
qed

lemma compact_disk:
  assumes "jp_ok K" "disk_ok K (jp_fs s) m" "se_tmp env \<noteq> jp_path K"
    and "jp_compact K env s = (r, s')"
  shows "\<exists>m'. disk_ok K (jp_fs s') m' \<and> hm_get m' = hm_get m"
    and "jp_handle s = AtPath \<Longrightarrow> se_swap env \<noteq> ReopenErr \<Longrightarrow> r \<noteq> Killed \<Longrightarrow> jp_handle s' = AtPath"
    and "se_swap env \<in> {SwapOk, RenameErr} \<union> range TmpErr \<Longrightarrow> r \<noteq> Killed"
proof -
  let ?C = "jp_codec K" and ?p = "jp_path K"
  have inv: "file_inv ?C ?p (jp_fs s)" and rec: "reconstruct_state (jp_enc K) (file_rows ?C ?p (jp_fs s)) [] = Inr m"
    using assms(2) by (auto simp: disk_ok_def)
  obtain r0 d' h' where cw: "compact_with ?C ?p (se_tmp env) (se_swap env) (jp_fs s, jp_handle s)
      (compact_build (jp_enc K) (se_clock env)) = (r0, d', h')" by (rule prod_cases3)
  have s': "jp_fs s' = d'" "jp_handle s' = h'" "r = Killed \<longleftrightarrow> r0 = Killed"
    using assms(4) cw by (auto simp: jp_compact_def Let_def split: outcome.splits sum.splits)
  have kept: "\<exists>m'. disk_ok K d' m' \<and> hm_get m' = hm_get m"
    if b: "compact_build (jp_enc K) (se_clock env) (file_rows ?C ?p (jp_fs s)) = Inr es"
      "file_inv ?C ?p d'" "file_rows ?C ?p d' = es" for es
  proof -
    have "live_rows (jp_enc K) (se_clock env) ZERO (hm_values m) = Inr es"
      using b(1) rec by (simp add: compact_build_def)
    from live_rows_reconstruct[OF assms(1) this, of "[]"]
    have "disk_ok K d' (foldl (\<lambda>m r. hm_insert (pr_id r) r m) [] (hm_values m))"
      using b(2,3) by (simp add: disk_ok_def)
    then show ?thesis
      using foldl_insert_values[of pr_id m "[]"] disk_ok_keyed[OF assms(2)] by auto
  qed
  have same: "\<exists>m'. disk_ok K d' m' \<and> hm_get m' = hm_get m" if "d' ?p = jp_fs s ?p"
  proof -
    have "read_all_entries ?C ?p d' = read_all_entries ?C ?p (jp_fs s)"
      using that by (simp add: read_all_entries_def parse_entries_from_path_def)
    then have "disk_ok K d' m" using inv rec that
      by (simp add: disk_ok_def file_inv_def file_rows_def)
    then show ?thesis by blast
  qed
  note ca = compaction_frame[OF inv assms(3) cw]
  show "\<exists>m'. disk_ok K (jp_fs s') m' \<and> hm_get m' = hm_get m"
    using ca(1) kept same s'(1) by blast
  show "jp_handle s = AtPath \<Longrightarrow> se_swap env \<noteq> ReopenErr \<Longrightarrow> r \<noteq> Killed \<Longrightarrow> jp_handle s' = AtPath"
    using ca(2) s' by (cases r0) (auto split: sum.splits)
  show "se_swap env \<in> {SwapOk, RenameErr} \<union> range TmpErr \<Longrightarrow> r \<noteq> Killed"
    using ca(3) s'(3) by auto
qed

subsection \<open>The operations on the state\<close>

definition jp_quiet :: "jp_config \<Rightarrow> store_env \<Rightarrow> bool" where
  "jp_quiet K env \<longleftrightarrow> list_all (\<lambda>f. f = NoFault) (se_faults env) \<and> harmless_swap (se_swap env) \<and>
     se_tmp env \<noteq> jp_path K"

lemma jp_quietD:
  assumes "jp_quiet K env"
  shows "nth_fault env k = NoFault" "se_tmp env \<noteq> jp_path K" "se_swap env \<noteq> ReopenErr"
    "se_swap env \<in> {SwapOk, RenameErr} \<union> range TmpErr"
  using assms
  by (auto simp: jp_quiet_def nth_fault_def list_all_length harmless_swap_def split: swap_fault.splits)

lemma disk_open: "disk_ok K d m \<Longrightarrow> file_open (jp_codec K) d (jp_path K) = d"
  by (simp add: disk_ok_def file_open_inv)

lemma auto_compact_disk:
  assumes "jp_ok K" "disk_ok K (jp_fs s) m" "se_tmp env \<noteq> jp_path K"
    and "maybe_auto_compact K env s = (r, s')"
  shows "\<exists>m'. disk_ok K (jp_fs s') m' \<and> hm_get m' = hm_get m"
    and "jp_quiet K env \<Longrightarrow> jp_handle s = AtPath \<Longrightarrow> r = Done () \<and> jp_handle s' = AtPath"
proof -
  obtain rc sc where c: "jp_compact K env s = (rc, sc)" by (rule prod.exhaust)
  have "(r = Done () \<and> s' = s) \<or> (s' = sc \<and> r = (case rc of Killed \<Rightarrow> Killed | Done _ \<Rightarrow> Done ()))"
    using assms(4) c
    by (auto simp: maybe_auto_compact_def split: sum.splits if_splits outcome.splits)
  note r = this
  note cd = compact_disk[OF assms(1-3) c]
  show "\<exists>m'. disk_ok K (jp_fs s') m' \<and> hm_get m' = hm_get m"
    using r cd(1) assms(2) by blast
  show "r = Done () \<and> jp_handle s' = AtPath" if "jp_quiet K env" "jp_handle s = AtPath"
    using r cd(2,3) jp_quietD[OF that(1)] that(2) by (cases rc) auto
qed

text \<open>One marker and the compaction after it: what put and delete have in common.\<close>

definition marked ::
  "jp_config \<Rightarrow> store_env \<Rightarrow> nat \<Rightarrow> jp_state \<Rightarrow> string \<Rightarrow> json \<Rightarrow> (action_error + unit) outcome \<times> jp_state" where
  "marked K env k s name v =
     (case jp_append_marker K (se_clock env) (nth_fault env k) s name v of
        (Killed, s1) \<Rightarrow> (Killed, s1)
      | (Done (Inl e), s1) \<Rightarrow> (Done (Inl e), s1)
      | (Done (Inr _), s1) \<Rightarrow>
          (case maybe_auto_compact K env s1 of
             (Killed, s2) \<Rightarrow> (Killed, s2)
           | (Done _, s2) \<Rightarrow> (Done (Inr ()), s2)))"

lemma marked_disk:
  assumes "jp_ok K" "jp_handle s = AtPath" "disk_ok K (jp_fs s) m" "se_tmp env \<noteq> jp_path K"
    and "to_string (jp_codec K) (marker (se_clock env) (jp_next s) name v) \<noteq> None"
    and "reconstruct_state (jp_enc K) [marker (se_clock env) (jp_next s) name v] m = Inr m'"
    and "marked K env k s name v = (r, s')"
  shows "\<exists>mx. disk_ok K (file_open (jp_codec K) (jp_fs s') (jp_path K)) mx \<and>
      (hm_get mx = hm_get m \<or> hm_get mx = hm_get m') \<and>
      (r = Done (Inr ()) \<longrightarrow> hm_get mx = hm_get m' \<and> disk_ok K (jp_fs s') mx)"
    and "jp_quiet K env \<Longrightarrow> r = Done (Inr ()) \<and> jp_handle s' = AtPath"
proof -
  obtain r1 s1 where a: "jp_append_marker K (se_clock env) (nth_fault env k) s name v = (r1, s1)"
    by (rule prod.exhaust)
  obtain r2 s2 where c: "maybe_auto_compact K env s1 = (r2, s2)" by (rule prod.exhaust)
  note ad = append_marker_disk[OF assms(1-3,5,6) a]
  have cases: "(r1 = Done (Inr ()) \<and> s' = s2 \<and> (r = Done (Inr ()) \<longleftrightarrow> r2 = Done ())) \<or>
      (r1 \<noteq> Done (Inr ()) \<and> s' = s1 \<and> r \<noteq> Done (Inr ()))"
    using assms(7) a c by (auto simp: marked_def split: outcome.splits sum.splits)
  show "\<exists>mx. disk_ok K (file_open (jp_codec K) (jp_fs s') (jp_path K)) mx \<and>
      (hm_get mx = hm_get m \<or> hm_get mx = hm_get m') \<and>
      (r = Done (Inr ()) \<longrightarrow> hm_get mx = hm_get m' \<and> disk_ok K (jp_fs s') mx)"
    using cases
  proof
    assume "r1 = Done (Inr ()) \<and> s' = s2 \<and> (r = Done (Inr ()) \<longleftrightarrow> r2 = Done ())"
    moreover from this obtain mx where "disk_ok K (jp_fs s2) mx" "hm_get mx = hm_get m'"
      using auto_compact_disk(1)[OF assms(1) _ assms(4) c] ad(2) by blast
    ultimately show ?thesis using disk_open[of K "jp_fs s2" mx] by auto
  next
    assume "r1 \<noteq> Done (Inr ()) \<and> s' = s1 \<and> r \<noteq> Done (Inr ())"
    with ad(1) show ?thesis by blast
  qed
  assume q: "jp_quiet K env"
  from ad(3) jp_quietD(1)[OF q] have r1: "r1 = Done (Inr ())" by blast
  with ad(2) have "jp_handle s1 = AtPath" "disk_ok K (jp_fs s1) m'" by auto
  with auto_compact_disk(2)[OF assms(1) _ assms(4) c q] cases r1
  show "r = Done (Inr ()) \<and> jp_handle s' = AtPath" by auto
qed

lemma jp_insert_marked:
  "jp_insert K env s r =
     (case replay_state K s of
        Inl e \<Rightarrow> (Done (Inl e), s)
      | Inr state \<Rightarrow>
          if \<not> hm_contains state (pr_id r) \<and> \<not> has_room_for_one_more (jp_capacity K) (length state)
          then (Done (Inl (full_error (jp_capacity K))), s)
          else case enc_record (jp_enc K) r of
                 Inl m \<Rightarrow> (Done (Inl (Proof (''encode pending record failed: '' @ m))), s)
               | Inr payload \<Rightarrow> marked K env 0 s PENDING_PUT payload)"
  by (simp add: jp_insert_def marked_def split: sum.splits)

lemma jp_insert_disk:
  assumes "jp_inv K s" "se_tmp env \<noteq> jp_path K" "jp_insert K env s r = (res, s')"
  shows "\<exists>mx. disk_ok K (file_open (jp_codec K) (jp_fs s') (jp_path K)) mx \<and>
      (hm_get mx = hm_get (jp_map K s) \<or> hm_get mx = (hm_get (jp_map K s))(pr_id r \<mapsto> r)) \<and>
      (res = Done (Inr ()) \<longrightarrow> hm_get mx = (hm_get (jp_map K s))(pr_id r \<mapsto> r) \<and> disk_ok K (jp_fs s') mx)"
    and "jp_quiet K env \<Longrightarrow> jp_storable K r \<Longrightarrow>
      hm_contains (jp_map K s) (pr_id r) \<or> length (jp_map K s) < jp_capacity K \<Longrightarrow>
      res = Done (Inr ()) \<and> jp_handle s' = AtPath"
proof -
  from assms(1) obtain m where s: "jp_ok K" "jp_handle s = AtPath" "disk_ok K (jp_fs s) m"
    "replay_state K s = Inr m" "jp_map K s = m" "keyed_map m" by (rule jp_invE)
  have same: "disk_ok K (file_open (jp_codec K) (jp_fs s) (jp_path K)) m"
    using s(3) by (simp add: disk_open)
  have main: "(\<exists>mx. disk_ok K (file_open (jp_codec K) (jp_fs s') (jp_path K)) mx \<and>
      (hm_get mx = hm_get m \<or> hm_get mx = (hm_get m)(pr_id r \<mapsto> r)) \<and>
      (res = Done (Inr ()) \<longrightarrow> hm_get mx = (hm_get m)(pr_id r \<mapsto> r) \<and> disk_ok K (jp_fs s') mx)) \<and>
    (jp_quiet K env \<longrightarrow> jp_storable K r \<longrightarrow> hm_contains m (pr_id r) \<or> length m < jp_capacity K \<longrightarrow>
      res = Done (Inr ()) \<and> jp_handle s' = AtPath)"
  proof (cases "(\<not> hm_contains m (pr_id r) \<and> \<not> has_room_for_one_more (jp_capacity K) (length m)) \<or>
      isl (enc_record (jp_enc K) r)")
    case True
    then have "s' = s \<and> res \<noteq> Done (Inr ()) \<and>
        (\<not> jp_storable K r \<or> \<not> (hm_contains m (pr_id r) \<or> length m < jp_capacity K))"
      using assms(3) s(4)
      by (cases "enc_record (jp_enc K) r")
        (auto simp: jp_insert_marked has_room_iff jp_storable_def split: if_splits)
    with same show ?thesis by auto
  next
    case False
    then obtain v where v: "enc_record (jp_enc K) r = Inr v"
      by (cases "enc_record (jp_enc K) r") auto
    have mk: "marked K env 0 s PENDING_PUT v = (res, s')"
      using assms(3) s(4) False v by (auto simp: jp_insert_marked split: if_splits)
    have rec: "reconstruct_state (jp_enc K) [marker (se_clock env) (jp_next s) PENDING_PUT v] m =
        Inr (hm_insert (pr_id r) r m)"
      by (rule reconstruct_put[OF jp_ok_record(1)[OF s(1) v]])
    note md = marked_disk[OF s(1-3) assms(2) jp_ok_record(2)[OF s(1) v] rec mk, unfolded hm_get_insert]
    show ?thesis using md by blast
  qed
  with s(5) show "\<exists>mx. disk_ok K (file_open (jp_codec K) (jp_fs s') (jp_path K)) mx \<and>
      (hm_get mx = hm_get (jp_map K s) \<or> hm_get mx = (hm_get (jp_map K s))(pr_id r \<mapsto> r)) \<and>
      (res = Done (Inr ()) \<longrightarrow> hm_get mx = (hm_get (jp_map K s))(pr_id r \<mapsto> r) \<and> disk_ok K (jp_fs s') mx)"
    by simp
  show "jp_quiet K env \<Longrightarrow> jp_storable K r \<Longrightarrow>
      hm_contains (jp_map K s) (pr_id r) \<or> length (jp_map K s) < jp_capacity K \<Longrightarrow>
      res = Done (Inr ()) \<and> jp_handle s' = AtPath"
    using main s(5) by simp
qed

lemma jp_remove_marked:
  "jp_remove K env s i =
     (case replay_state K s of
        Inl e \<Rightarrow> (Done (Inl e), s)
      | Inr state \<Rightarrow>
          (case hm_get state i of
             None \<Rightarrow> (Done (Inr None), s)
           | Some existing \<Rightarrow>
               (case enc_id (jp_enc K) i of
                  Inl m \<Rightarrow> (Done (Inl (Proof (''encode pending delete id failed: '' @ m))), s)
                | Inr payload \<Rightarrow>
                    (case marked K env 0 s PENDING_DELETE payload of
                       (Killed, s1) \<Rightarrow> (Killed, s1)
                     | (Done (Inl e), s1) \<Rightarrow> (Done (Inl e), s1)
                     | (Done (Inr _), s1) \<Rightarrow> (Done (Inr (Some existing)), s1)))))"
  by (simp add: jp_remove_def marked_def split: sum.splits option.splits prod.splits outcome.splits)

lemma jp_remove_disk:
  assumes "jp_inv K s" "se_tmp env \<noteq> jp_path K" "jp_remove K env s i = (res, s')"
  shows "\<exists>mx. disk_ok K (file_open (jp_codec K) (jp_fs s') (jp_path K)) mx \<and>
      (hm_get mx = hm_get (jp_map K s) \<or> hm_get mx = (hm_get (jp_map K s))(i := None)) \<and>
      (\<forall>x. res = Done (Inr x) \<longrightarrow> x = hm_get (jp_map K s) i \<and> hm_get mx = (hm_get (jp_map K s))(i := None) \<and>
         disk_ok K (jp_fs s') mx)"
    and "jp_quiet K env \<Longrightarrow> res = Done (Inr (hm_get (jp_map K s) i)) \<and> jp_handle s' = AtPath"
proof -
  from assms(1) obtain m where s: "jp_ok K" "jp_handle s = AtPath" "disk_ok K (jp_fs s) m"
    "replay_state K s = Inr m" "jp_map K s = m" "keyed_map m" by (rule jp_invE)
  have same: "disk_ok K (file_open (jp_codec K) (jp_fs s) (jp_path K)) m"
    using s(3) by (simp add: disk_open)
  obtain v where v: "enc_id (jp_enc K) i = Inr v" "dec_id (jp_enc K) v = Inr i"
    "\<And>k j. to_string (jp_codec K) (marker k j PENDING_DELETE v) \<noteq> None" by (rule jp_ok_id[OF s(1)]) blast
  obtain r1 s1 where mk: "marked K env 0 s PENDING_DELETE v = (r1, s1)" by (rule prod.exhaust)
  have rec: "reconstruct_state (jp_enc K) [marker (se_clock env) (jp_next s) PENDING_DELETE v] m =
      Inr (hm_remove i m)"
    by (rule reconstruct_delete[OF v(2)])
  note md = marked_disk[OF s(1-3) assms(2) v(3) rec mk, unfolded hm_get_remove]
  have main: "(\<exists>mx. disk_ok K (file_open (jp_codec K) (jp_fs s') (jp_path K)) mx \<and>
      (hm_get mx = hm_get m \<or> hm_get mx = (hm_get m)(i := None)) \<and>
      (\<forall>x. res = Done (Inr x) \<longrightarrow> x = hm_get m i \<and> hm_get mx = (hm_get m)(i := None) \<and>
         disk_ok K (jp_fs s') mx)) \<and>
    (jp_quiet K env \<longrightarrow> res = Done (Inr (hm_get m i)) \<and> jp_handle s' = AtPath)"
  proof (cases "hm_get m i")
    case None
    then have "s' = s" "res = Done (Inr None)" using assms(3) s(4) by (auto simp: jp_remove_marked)
    with None same s(2,3) show ?thesis by (auto simp: fun_upd_idem)
  next
    case (Some x)
    have "s' = s1 \<and> (res = (case r1 of Killed \<Rightarrow> Killed | Done (Inl e) \<Rightarrow> Done (Inl e)
        | Done (Inr _) \<Rightarrow> Done (Inr (Some x))))"
      using assms(3) s(4) Some v(1) mk by (auto simp: jp_remove_marked split: outcome.splits sum.splits)
    then have s1: "s' = s1" and r1: "r1 = Done (Inr ()) \<longleftrightarrow> (\<exists>x. res = Done (Inr x))"
      "res = Done (Inr y) \<Longrightarrow> y = Some x" "r1 = Done (Inr ()) \<Longrightarrow> res = Done (Inr (Some x))" for y
      by (auto split: outcome.splits sum.splits)
    from md(1) obtain mx where mx: "disk_ok K (file_open (jp_codec K) (jp_fs s1) (jp_path K)) mx"
      "hm_get mx = hm_get m \<or> hm_get mx = (hm_get m)(i := None)"
      "r1 = Done (Inr ()) \<longrightarrow> hm_get mx = (hm_get m)(i := None) \<and> disk_ok K (jp_fs s1) mx" by blast
    show ?thesis unfolding s1 Some using mx md(2) r1 by blast
  qed
  with s(5) show "\<exists>mx. disk_ok K (file_open (jp_codec K) (jp_fs s') (jp_path K)) mx \<and>
      (hm_get mx = hm_get (jp_map K s) \<or> hm_get mx = (hm_get (jp_map K s))(i := None)) \<and>
      (\<forall>x. res = Done (Inr x) \<longrightarrow> x = hm_get (jp_map K s) i \<and> hm_get mx = (hm_get (jp_map K s))(i := None) \<and>
         disk_ok K (jp_fs s') mx)" by simp
  show "jp_quiet K env \<Longrightarrow> res = Done (Inr (hm_get (jp_map K s) i)) \<and> jp_handle s' = AtPath"
    using main s(5) by simp
qed

lemma delete_all_map:
  assumes "jp_inv K s" "jp_quiet K env"
  shows "\<exists>s'. delete_all K env k is s = (Done (Inr ()), s') \<and> jp_inv K s' \<and>
    (\<forall>j. hm_get (jp_map K s') j = (if j \<in> set is then None else hm_get (jp_map K s) j))"
  using assms(1)
proof (induction "is" arbitrary: k s)
  case Nil
  then show ?case by simp
next
  case (Cons i "is")
  from Cons.prems obtain m where s: "jp_ok K" "jp_handle s = AtPath" "disk_ok K (jp_fs s) m"
    "replay_state K s = Inr m" "jp_map K s = m" "keyed_map m" by (rule jp_invE)
  obtain v where v: "enc_id (jp_enc K) i = Inr v" "dec_id (jp_enc K) v = Inr i"
    "\<And>k j. to_string (jp_codec K) (marker k j PENDING_DELETE v) \<noteq> None" by (rule jp_ok_id[OF s(1)]) blast
  obtain r1 s1 where a: "jp_append_marker K (se_clock env) (nth_fault env k) s PENDING_DELETE v = (r1, s1)"
    by (rule prod.exhaust)
  note ad = append_marker_disk[OF s(1-3) v(3) reconstruct_delete[OF v(2)] a]
  have r1: "r1 = Done (Inr ())" using ad(3) jp_quietD(1)[OF assms(2)] by blast
  with ad(2) have "jp_handle s1 = AtPath" "disk_ok K (jp_fs s1) (hm_remove i m)" by auto
  then have s1: "jp_inv K s1" "jp_map K s1 = hm_remove i m" using jp_invI[OF s(1)] by auto
  from Cons.IH[OF s1(1), of "k + 1"] s1(2) s(5) v(1) a r1 show ?case by auto
qed

interpretation jps: pending_store
  "journal_pending_store K" "\<lambda>s. hm_get (jp_map K s)" "jp_inv K" "jp_storable K" "jp_quiet K" "jp_capacity K"
  for K
proof (unfold_locales, goal_cases)
  case (1 s i r)
  then show ?case by (auto elim!: jp_invE simp del: map_of_eq_Some_iff intro: keyed_get)
next
  case (2 s)
  then show ?case by (simp add: finite_dom_map_of)
next
  case (3 s i)
  then show ?case by (auto elim!: jp_invE simp: jp_get_def)
next
  case (4 s)
  then show ?case by (auto elim!: jp_invE simp: jp_len_def keyed_card)
next
  case (5 s)
  then obtain m where "replay_state K s = Inr m" "jp_map K s = m" "keyed_map m" by (rule jp_invE)
  then show ?case using keyed_values_distinct[of pr_id m] keyed_values_ran[of pr_id m]
    by (simp add: jp_list_def)
next
  case (6 s r env)
  obtain res s' where i: "jp_insert K env s r = (res, s')" by (rule prod.exhaust)
  from 6(1) obtain m where m: "jp_ok K" "jp_map K s = m" "keyed_map m" by (rule jp_invE)
  have room: "hm_contains (jp_map K s) (pr_id r) \<or> length (jp_map K s) < jp_capacity K"
    using 6(4) m by (auto simp: hm_contains_def keyed_card)
  from jp_insert_disk(2)[OF 6(1) jp_quietD(2)[OF 6(3)] i 6(3) 6(2) room]
  have r: "res = Done (Inr ())" "jp_handle s' = AtPath" by auto
  from jp_insert_disk(1)[OF 6(1) jp_quietD(2)[OF 6(3)] i] r(1) obtain mx where
    "hm_get mx = (hm_get (jp_map K s))(pr_id r \<mapsto> r)" "disk_ok K (jp_fs s') mx" by blast
  with jp_invI[OF m(1) r(2)] i r(1) show ?case by (intro exI[of _ s']) (metis journal_pending_sel(1))
next
  case (7 s r env)
  then obtain m where m: "replay_state K s = Inr m" "jp_map K s = m" "keyed_map m" by (metis jp_invE)
  with 7 show ?case
    by (simp add: jp_insert_def hm_contains_def has_room_iff keyed_card)
next
  case (8 s env i)
  obtain res s' where r: "jp_remove K env s i = (res, s')" by (rule prod.exhaust)
  from 8(1) obtain m where m: "jp_ok K" "jp_map K s = m" by (rule jp_invE)
  from jp_remove_disk(2)[OF 8(1) jp_quietD(2)[OF 8(2)] r 8(2)]
  have res: "res = Done (Inr (hm_get (jp_map K s) i))" "jp_handle s' = AtPath" by auto
  from jp_remove_disk(1)[OF 8(1) jp_quietD(2)[OF 8(2)] r] res(1) obtain mx where
    "hm_get mx = (hm_get (jp_map K s))(i := None)" "disk_ok K (jp_fs s') mx" by blast
  with jp_invI[OF m(1) res(2)] r res(1) show ?case by (intro exI[of _ s']) (metis journal_pending_sel(3))
next
  case (9 s env now)
  from 9(1) obtain m where m: "jp_ok K" "replay_state K s = Inr m" "jp_map K s = m" "keyed_map m"
    by (rule jp_invE)
  define ex where "ex = map pr_id (filter (\<lambda>r. pr_expired r now) (hm_values m))"
  have ex: "set ex = {i. \<exists>r. hm_get m i = Some r \<and> pr_expired r now}"
  proof -
    define vs where "vs = hm_values m"
    have "set vs = ran (hm_get m)" unfolding vs_def by (rule keyed_values_ran[OF m(4)])
    then show ?thesis unfolding ex_def vs_def[symmetric] using keyed_get[OF m(4)]
      by (force simp: ran_def simp del: map_of_eq_Some_iff)
  qed
  have dex: "distinct ex"
    unfolding ex_def by (rule distinct_map_filter[OF keyed_distinct[OF m(4)]])
  obtain s1 where s1: "delete_all K env 0 ex s = (Done (Inr ()), s1)" "jp_inv K s1"
    "\<And>j. hm_get (jp_map K s1) j = (if j \<in> set ex then None else hm_get m j)"
    using delete_all_map[OF 9(1,2), of 0 ex] m(3) by blast
  obtain r2 s2 where c: "maybe_auto_compact K env s1 = (r2, s2)" by (rule prod.exhaust)
  have live1: "hm_get (jp_map K s1) = live_map now (hm_get m)"
    using s1(3) ex by (auto simp: live_map_def fun_eq_iff split: option.splits)
  from s1(2) obtain m1 where m1: "jp_handle s1 = AtPath" "disk_ok K (jp_fs s1) m1" "jp_map K s1 = m1"
    by (rule jp_invE)
  note ac = auto_compact_disk[OF m(1) m1(2) jp_quietD(2)[OF 9(2)] c]
  from ac(1) obtain m2 where m2: "disk_ok K (jp_fs s2) m2" "hm_get m2 = hm_get m1" by blast
  have inv2: "jp_inv K s2" "jp_map K s2 = m2" "r2 = Done ()"
    using jp_invI[OF m(1) _ m2(1)] ac(2)[OF 9(2) m1(1)] by auto
  have count: "length ex = card (dom (hm_get m)) - card (dom (live_map now (hm_get m)))"
  proof -
    have "dom (live_map now (hm_get m)) = dom (hm_get m) - set ex"
      by (auto simp: live_map_def ex split: option.splits if_splits simp del: map_of_eq_Some_iff)
    moreover have "set ex \<subseteq> dom (hm_get m)" by (auto simp: ex simp del: map_of_eq_Some_iff)
    ultimately have "card (dom (live_map now (hm_get m))) = card (dom (hm_get m)) - length ex"
      using dex by (simp add: card_Diff_subset distinct_card finite_subset)
    moreover have "length ex \<le> card (dom (hm_get m))"
      using \<open>set ex \<subseteq> dom (hm_get m)\<close> card_mono[of "dom (hm_get m)" "set ex"] distinct_card[OF dex]
      by (simp add: finite_dom_map_of)
    ultimately show ?thesis by simp
  qed
  have "jp_evict K env s now = (Done (Inr (length ex)), if ex = [] then s1 else s2)"
    using m(2) s1(1) c inv2(3) by (simp add: jp_evict_def Let_def ex_def[symmetric])
  with s1(2) inv2 live1 m1(3) m2(2) m(3) count show ?case by (cases "ex = []") auto
qed

subsection \<open>Crashes\<close>

definition jp_reopen :: "jp_config \<Rightarrow> jp_state \<Rightarrow> action_error + jp_state" where
  "jp_reopen K s = jp_open K (jp_fs s)"

lemma jp_open_disk:
  assumes "jp_ok K" "disk_ok K (file_open (jp_codec K) d (jp_path K)) m"
  shows "\<exists>s. jp_open K d = Inr s \<and> jp_inv K s \<and> jp_map K s = m"
proof -
  let ?d = "file_open (jp_codec K) d (jp_path K)"
  have "read_all_entries (jp_codec K) (jp_path K) ?d = Inr (file_rows (jp_codec K) (jp_path K) ?d)"
    by (rule disk_read[OF assms(2)])
  then obtain n where n: "jp_open K d = Inr \<lparr>jp_fs = ?d, jp_handle = AtPath, jp_next = n\<rparr>"
    by (simp add: jp_open_def Let_def default_len_def)
  with jp_invI[OF assms(1), of "\<lparr>jp_fs = ?d, jp_handle = AtPath, jp_next = n\<rparr>" m] assms(2)
  show ?thesis by simp
qed

interpretation jpc: crash_pending_store
  "journal_pending_store K" "\<lambda>s. hm_get (jp_map K s)" "jp_inv K" "jp_storable K" "jp_quiet K"
  "jp_capacity K" "jp_reopen K" "\<lambda>env. se_tmp env \<noteq> jp_path K"
  for K
proof (unfold_locales, goal_cases)
  case (1 s env r res s')
  then have i: "jp_insert K env s r = (res, s')" by simp
  have ok: "jp_ok K" using 1(1) by (rule jp_invE)
  from jp_insert_disk(1)[OF 1(1,2) i] obtain mx where mx:
    "disk_ok K (file_open (jp_codec K) (jp_fs s') (jp_path K)) mx"
    "hm_get mx = hm_get (jp_map K s) \<or> hm_get mx = (hm_get (jp_map K s))(pr_id r \<mapsto> r)"
    "res = Done (Inr ()) \<longrightarrow> hm_get mx = (hm_get (jp_map K s))(pr_id r \<mapsto> r)" by blast
  from jp_open_disk[OF ok mx(1)] mx(2,3) show ?case unfolding jp_reopen_def by metis
next
  case (2 s env i res s')
  then have r: "jp_remove K env s i = (res, s')" by simp
  have ok: "jp_ok K" using 2(1) by (rule jp_invE)
  from jp_remove_disk(1)[OF 2(1,2) r] obtain mx where mx:
    "disk_ok K (file_open (jp_codec K) (jp_fs s') (jp_path K)) mx"
    "hm_get mx = hm_get (jp_map K s) \<or> hm_get mx = (hm_get (jp_map K s))(i := None)"
    "\<forall>x. res = Done (Inr x) \<longrightarrow> x = hm_get (jp_map K s) i \<and> hm_get mx = (hm_get (jp_map K s))(i := None)"
    by blast
  from jp_open_disk[OF ok mx(1)] mx(2,3) show ?case unfolding jp_reopen_def by metis
qed

subsection \<open>A concrete encoder\<close>

definition sample_pending_codec :: pending_codec where
  "sample_pending_codec =
     \<lparr>enc_record = (\<lambda>r. Inr (JStr (pack
        [show_nat (unat (pr_task r)), show_nat (unat (a_id (pr_approval r))),
         show_nat (unat (a_action_id (pr_approval r))), a_payload_hash (pr_approval r),
         show_int (a_granted_at (pr_approval r)), show_int (a_expires_at (pr_approval r)),
         if a_consumed (pr_approval r) then ''1'' else ''0'', pr_summary r, show_int (pr_created r)]))),
      dec_record = (\<lambda>v. case v of
        JStr t \<Rightarrow>
          (case unpack [] t of
             Some [a, b, c, h, g, x, k, sm, w] \<Rightarrow>
               (case (nat_of_text a, nat_of_text b, nat_of_text c, int_of_text g, int_of_text x, int_of_text w) of
                  (Some na, Some nb, Some nc, Some ig, Some ix, Some icr) \<Rightarrow>
                    Inr \<lparr>pr_task = of_nat na, pr_approval = \<lparr>a_id = of_nat nb, a_action_id = of_nat nc,
                         a_payload_hash = h, a_granted_at = ig, a_expires_at = ix, a_consumed = (k = ''1'')\<rparr>,
                         pr_summary = sm, pr_created = icr\<rparr>
                | _ \<Rightarrow> Inl ''invalid'')
           | _ \<Rightarrow> Inl ''invalid'')
      | _ \<Rightarrow> Inl ''invalid''),
      enc_id = (\<lambda>i. Inr (JStr (show_nat (unat i)))),
      dec_id = (\<lambda>v. case v of
        JStr t \<Rightarrow> (case nat_of_text t of Some n \<Rightarrow> Inr (of_nat n) | None \<Rightarrow> Inl ''invalid'')
      | _ \<Rightarrow> Inl ''invalid'')\<rparr>"

definition sample_jp :: jp_config where
  "sample_jp = \<lparr>jp_codec = text_codec, jp_enc = sample_pending_codec, jp_path = ''p'', jp_capacity = 2,
     jp_factor = 2\<rparr>"

lemma sample_jp_ok: "jp_ok sample_jp"
proof -
  have "dec_record sample_pending_codec v = Inr r"
    if "enc_record sample_pending_codec r = Inr v" for r v
    using that by (auto simp: sample_pending_codec_def unpack_pack nat_of_text_show int_of_text_show)
  moreover have "to_string text_codec (marker k i name v) \<noteq> None"
    if "enc_record sample_pending_codec r = Inr v" for k i name r v
    using that by (auto simp: sample_pending_codec_def text_codec_def text_row_marker)
  moreover have "\<exists>v. enc_id sample_pending_codec i = Inr v \<and> dec_id sample_pending_codec v = Inr i \<and>
      (\<forall>k j. to_string text_codec (marker k j PENDING_DELETE v) \<noteq> None)" for i
    by (simp add: sample_pending_codec_def nat_of_text_show text_codec_def text_row_marker)
  ultimately show ?thesis by (simp add: jp_ok_def sample_jp_def text_codec_ok)
qed

lemma sample_jp_fresh: "\<exists>s. jp_open sample_jp (\<lambda>_. None) = Inr s \<and> jp_inv sample_jp s \<and> jp_map sample_jp s = []"
proof (rule jp_open_disk[OF sample_jp_ok])
  show "disk_ok sample_jp (file_open (jp_codec sample_jp) (\<lambda>_. None) (jp_path sample_jp)) []"
    using file_open_missing[OF text_codec_ok, of "\<lambda>_. None" "''p''"]
    by (simp add: disk_ok_def sample_jp_def)
qed

definition sample_record :: pending_record where
  "sample_record = \<lparr>pr_task = 5, pr_approval = \<lparr>a_id = 3, a_action_id = 4, a_payload_hash = ''ab'',
     a_granted_at = 10, a_expires_at = 70, a_consumed = False\<rparr>, pr_summary = ''s'', pr_created = 10\<rparr>"

definition quiet_env :: store_env where
  "quiet_env = \<lparr>se_clock = 1, se_faults = [], se_swap = SwapOk, se_tmp = ''p.tmp''\<rparr>"

subsection \<open>Properties\<close>

text \<open>C28: as long as no write fails, the journal-backed store of pending approvals is the in-memory store.
  Over every sequence of the operations of the trait, each with its own clock and its own temporary file
  for the compaction that may follow it, the two stores give the same answers from the same contents;
  listings are compared as sets with their length, since the trait promises no order. The records
  inserted must be ones the encoder can write, and in the environments no append fails and a compaction
  that fails leaves the old file in use: the in-memory store has no writes that could fail.\<close>

theorem journal_store_equals_memory_store:
  assumes "jp_inv K s" "\<forall>(env, op) \<in> set ops. jp_quiet K env \<and> op_storable (jp_storable K) op"
    and "keyed pr_id m" "hm_get m = hm_get (jp_map K s)"
  shows "fst (store_run (journal_pending_store K) s ops) =
    fst (store_run (mem_pending_store (jp_capacity K)) m ops)"
proof -
  have "op_storable (\<lambda>_. True) op" for op by (cases op) simp_all
  then show ?thesis
    using jps.run_refines[OF assms(1,2)] assms(3) mp.run_refines[where cap = "jp_capacity K" and s = m and ops = ops] assms(4)
    by auto
qed

theorem journal_store_equals_memory_store_witness:
  "\<exists>s. jp_open sample_jp (\<lambda>_. None) = Inr s \<and>
     fst (store_run (journal_pending_store sample_jp) s
       [(quiet_env, OInsert sample_record), (quiet_env\<lparr>se_clock := 2\<rparr>, OList), (quiet_env, OEvict 71), (quiet_env, OIsEmpty)]) =
     [Inserted (Inr ()), Listed {sample_record} 1, Evicted 1, Emptied True]"
proof -
  obtain s where s: "jp_open sample_jp (\<lambda>_. None) = Inr s" "jp_inv sample_jp s" "jp_map sample_jp s = []"
    using sample_jp_fresh by blast
  let ?ops = "[(quiet_env, OInsert sample_record), (quiet_env\<lparr>se_clock := 2\<rparr>, OList), (quiet_env, OEvict 71), (quiet_env, OIsEmpty)]"
  have st: "\<forall>(env, op) \<in> set ?ops. jp_quiet sample_jp env \<and> op_storable (jp_storable sample_jp) op"
    by (simp add: jp_storable_def sample_jp_def sample_pending_codec_def jp_quiet_def quiet_env_def harmless_swap_def)
  have "fst (store_run (mem_pending_store (jp_capacity sample_jp)) [] ?ops) =
      [Inserted (Inr ()), Listed {sample_record} 1, Evicted 1, Emptied True]"
    by (simp add: mp_insert_def mp_list_def mp_evict_def mp_len_def ps_is_empty_def hm_contains_def has_room_iff sample_jp_def
        sample_record_def pr_id_def hm_retain_def pr_expired_def is_expired_def Let_def)
  with journal_store_equals_memory_store[OF s(2) st, of "[]"] s show ?thesis by auto
qed

text \<open>C26: an insertion or a removal during which the process dies or a write fails, in the append or in
  the compaction that may follow it, leaves a store that opens again with the old contents or the
  new ones, never anything else, and with the new ones when the operation reported success.\<close>

theorem pending_store_survives_crash:
  assumes "jp_inv K s" "se_tmp env \<noteq> jp_path K"
    and "jp_insert K env s r = (res, s1)" "jp_remove K env s i = (ans, s2)"
  shows "\<exists>t1 t2. jp_reopen K s1 = Inr t1 \<and> jp_inv K t1 \<and> jp_reopen K s2 = Inr t2 \<and> jp_inv K t2 \<and>
    (hm_get (jp_map K t1) = hm_get (jp_map K s) \<or>
       hm_get (jp_map K t1) = (hm_get (jp_map K s))(pr_id r \<mapsto> r)) \<and>
    (res = Done (Inr ()) \<longrightarrow> hm_get (jp_map K t1) = (hm_get (jp_map K s))(pr_id r \<mapsto> r)) \<and>
    (hm_get (jp_map K t2) = hm_get (jp_map K s) \<or>
       hm_get (jp_map K t2) = (hm_get (jp_map K s))(i := None)) \<and>
    (\<forall>x. ans = Done (Inr x) \<longrightarrow> x = hm_get (jp_map K s) i \<and>
       hm_get (jp_map K t2) = (hm_get (jp_map K s))(i := None))"
proof -
  from jpc.insert_crash[of K s env r res s1] assms(1-3) obtain t1 where t1: "jp_reopen K s1 = Inr t1"
    "jp_inv K t1" "hm_get (jp_map K t1) = hm_get (jp_map K s) \<or>
       hm_get (jp_map K t1) = (hm_get (jp_map K s))(pr_id r \<mapsto> r)"
    "res = Done (Inr ()) \<longrightarrow> hm_get (jp_map K t1) = (hm_get (jp_map K s))(pr_id r \<mapsto> r)"
    unfolding journal_pending_sel by blast
  from jpc.remove_crash[of K s env i ans s2] assms(1,2,4) obtain t2 where t2: "jp_reopen K s2 = Inr t2"
    "jp_inv K t2" "hm_get (jp_map K t2) = hm_get (jp_map K s) \<or>
       hm_get (jp_map K t2) = (hm_get (jp_map K s))(i := None)"
    "\<forall>x. ans = Done (Inr x) \<longrightarrow> x = hm_get (jp_map K s) i \<and>
       hm_get (jp_map K t2) = (hm_get (jp_map K s))(i := None)"
    unfolding journal_pending_sel by blast
  from t1 t2 show ?thesis by blast
qed

theorem pending_store_survives_crash_witness:
  "\<exists>s t. jp_open sample_jp (\<lambda>_. None) = Inr s \<and>
     jp_reopen sample_jp (snd (jp_insert sample_jp (quiet_env\<lparr>se_faults := [Kill 5]\<rparr>) s sample_record)) = Inr t \<and>
     (hm_get (jp_map sample_jp t) = Map.empty \<or> hm_get (jp_map sample_jp t) = [3 \<mapsto> sample_record])"
proof -
  obtain s where s: "jp_open sample_jp (\<lambda>_. None) = Inr s" "jp_inv sample_jp s" "jp_map sample_jp s = []"
    using sample_jp_fresh by blast
  let ?env = "quiet_env\<lparr>se_faults := [Kill 5]\<rparr>"
  obtain res s1 where i: "jp_insert sample_jp ?env s sample_record = (res, s1)" by (rule prod.exhaust)
  obtain ans s2 where r: "jp_remove sample_jp ?env s 3 = (ans, s2)" by (rule prod.exhaust)
  have "se_tmp ?env \<noteq> jp_path sample_jp" by (simp add: quiet_env_def sample_jp_def)
  from pending_store_survives_crash[OF s(2) this i r] s i show ?thesis
    by (auto simp: pr_id_def sample_record_def)
qed

end
