(* ===== verification/Dispatch_Outbox.thy ===== *)
theory Dispatch_Outbox
  imports Pending_Journal
begin

section \<open>The dispatch outbox\<close>

text \<open>
  Models \<^verbatim>\<open>crates/familyclaw-actions/src/dispatch_outbox.rs\<close>: the intent and committed markers that
  keep a dispatch from running twice across crashes, in memory and over a file journal. Two
  contracts are stated as locales: \<open>outbox\<close>, what the markers mean when no write fails, and
  \<open>outbox_guard\<close>, what stays true under any fault: an intent whose recording was reported is never
  answered by NotStarted again.
\<close>

text \<open>The result of a submission (\<^verbatim>\<open>SubmitOutcome\<close> of \<^verbatim>\<open>facade.rs\<close>).\<close>

record submit_outcome =
  so_task :: task_id
  so_status :: task_status
  so_pending :: "approval_id option"

record dispatched_outcome =
  do_task :: task_id
  do_status :: task_status
  do_pending :: "approval_id option"
  do_error :: "string option"

definition from_submit :: "submit_outcome \<Rightarrow> dispatched_outcome" where
  "from_submit o1 = \<lparr>do_task = so_task o1, do_status = so_status o1, do_pending = so_pending o1, do_error = None\<rparr>"

definition from_error :: "string \<Rightarrow> dispatched_outcome" where
  "from_error message =
     \<lparr>do_task = nil_id, do_status = Failed, do_pending = None, do_error = Some message\<rparr>"

definition into_result :: "dispatched_outcome \<Rightarrow> action_error + submit_outcome" where
  "into_result d =
     (case do_error d of
        Some message \<Rightarrow> Inl (ExecutionFailed message)
      | None \<Rightarrow> Inr \<lparr>so_task = do_task d, so_status = do_status d, so_pending = do_pending d\<rparr>)"

datatype dispatch_lookup = NotStarted | Committed dispatched_outcome | InProgress

record key_state =
  ks_intent :: bool
  ks_committed :: "dispatched_outcome option"

definition ks_default :: key_state where
  "ks_default = \<lparr>ks_intent = False, ks_committed = None\<rparr>"

definition ks_lookup :: "key_state \<Rightarrow> dispatch_lookup" where
  "ks_lookup st =
     (case ks_committed st of
        Some outcome \<Rightarrow> Committed outcome
      | None \<Rightarrow> if ks_intent st then InProgress else NotStarted)"

type_synonym row_env = "timestamp \<times> fault"  \<comment> \<open>clock and fault of one marker\<close>

record 'o outbox_trait =
  ob_kind :: string
  ob_lookup :: "'o \<Rightarrow> string \<Rightarrow> action_error + dispatch_lookup"
  ob_intent :: "row_env \<Rightarrow> 'o \<Rightarrow> string \<Rightarrow> (action_error + unit) outcome \<times> 'o"
  ob_committed :: "row_env \<Rightarrow> 'o \<Rightarrow> string \<Rightarrow> dispatched_outcome \<Rightarrow> (action_error + unit) outcome \<times> 'o"

subsection \<open>In memory\<close>

type_synonym mem_outbox = "(string, key_state) hashmap"

definition mo_entry :: "mem_outbox \<Rightarrow> string \<Rightarrow> key_state" where
  "mo_entry m key = (case hm_get m key of None \<Rightarrow> ks_default | Some st \<Rightarrow> st)"

definition mo_lookup :: "mem_outbox \<Rightarrow> string \<Rightarrow> action_error + dispatch_lookup" where
  "mo_lookup m key =
     Inr (case hm_get m key of
            None \<Rightarrow> NotStarted
          | Some st \<Rightarrow> ks_lookup st)"

definition mo_intent :: "row_env \<Rightarrow> mem_outbox \<Rightarrow> string \<Rightarrow> (action_error + unit) outcome \<times> mem_outbox" where
  "mo_intent env m key =
     (Done (Inr ()), hm_insert key ((mo_entry m key)\<lparr>ks_intent := True\<rparr>) m)"

definition mo_committed ::
  "row_env \<Rightarrow> mem_outbox \<Rightarrow> string \<Rightarrow> dispatched_outcome \<Rightarrow> (action_error + unit) outcome \<times> mem_outbox" where
  "mo_committed env m key outcome =
     (Done (Inr ()), hm_insert key ((mo_entry m key)\<lparr>ks_intent := True, ks_committed := Some outcome\<rparr>) m)"

definition mem_outbox_store :: "mem_outbox outbox_trait" where
  "mem_outbox_store =
     \<lparr>ob_kind = ''in-memory'', ob_lookup = mo_lookup, ob_intent = mo_intent, ob_committed = mo_committed\<rparr>"

subsection \<open>Over a file journal\<close>

record outbox_row =
  or_key :: string
  or_outcome :: "dispatched_outcome option"

record outbox_codec =
  enc_row :: "outbox_row \<Rightarrow> string + json"
  dec_row :: "json \<Rightarrow> string + outbox_row"

definition DISPATCH_INTENT :: string where
  "DISPATCH_INTENT = ''dispatch_intent''"

definition DISPATCH_COMMITTED :: string where
  "DISPATCH_COMMITTED = ''dispatch_committed''"

record jo_config =
  jo_codec :: codec
  jo_rows :: outbox_codec
  jo_path :: path

record jo_state =
  jo_fs :: fs
  jo_next :: step_id

definition jo_open :: "jo_config \<Rightarrow> fs \<Rightarrow> action_error + jo_state" where
  "jo_open K d =
     (let d' = file_open (jo_codec K) d (jo_path K)
      in case default_len (read_all_entries (jo_codec K) (jo_path K)) d' of
           Inl e \<Rightarrow> Inl (Proof (''read dispatch outbox failed: '' @ show_durable_error e))
         | Inr len \<Rightarrow> Inr \<lparr>jo_fs = d', jo_next = of_nat (min len (2 ^ 64 - 1))\<rparr>)"

definition jo_next_step_id :: "jo_state \<Rightarrow> step_id \<times> jo_state" where
  "jo_next_step_id s = (jo_next s, s\<lparr>jo_next := next_id (jo_next s)\<rparr>)"

definition jo_append_marker ::
  "jo_config \<Rightarrow> row_env \<Rightarrow> jo_state \<Rightarrow> string \<Rightarrow> outbox_row \<Rightarrow> (action_error + unit) outcome \<times> jo_state" where
  "jo_append_marker K env s name row =
     (case enc_row (jo_rows K) row of
        Inl m \<Rightarrow> (Done (Inl (Proof (''encode outbox row failed: '' @ m))), s)
      | Inr payload \<Rightarrow>
          (case jo_next_step_id s of (sid, s1) \<Rightarrow>
             (case file_append (jo_codec K) (jo_path K) (snd env) (jo_fs s1)
                     (marker (fst env) sid name payload) of
                (Killed, d') \<Rightarrow> (Killed, s1\<lparr>jo_fs := d'\<rparr>)
              | (Done (Inl e), d') \<Rightarrow>
                  (Done (Inl (Proof (''append outbox marker failed: '' @ show_durable_error e))), s1\<lparr>jo_fs := d'\<rparr>)
              | (Done (Inr _), d') \<Rightarrow> (Done (Inr ()), s1\<lparr>jo_fs := d'\<rparr>))))"

fun replay_key_rows ::
  "outbox_codec \<Rightarrow> string \<Rightarrow> journal_entry list \<Rightarrow> key_state \<Rightarrow> action_error + key_state" where
  "replay_key_rows R key [] st = Inr st"
| "replay_key_rows R key (e # es) st =
     (case je_kind e of
        Marker name payload \<Rightarrow>
          (let is_intent = (name = DISPATCH_INTENT);
               is_committed = (name = DISPATCH_COMMITTED)
           in if \<not> is_intent \<and> \<not> is_committed then replay_key_rows R key es st
              else case dec_row R payload of
                     Inl m \<Rightarrow> Inl (Proof (''decode outbox row failed: '' @ m))
                   | Inr row \<Rightarrow>
                       if or_key row \<noteq> key then replay_key_rows R key es st
                       else if is_intent then replay_key_rows R key es (st\<lparr>ks_intent := True\<rparr>)
                       else (case or_outcome row of
                               None \<Rightarrow> replay_key_rows R key es st
                             | Some outcome \<Rightarrow>
                                 replay_key_rows R key es (st\<lparr>ks_intent := True, ks_committed := Some outcome\<rparr>)))
      | _ \<Rightarrow> replay_key_rows R key es st)"

definition replay_key :: "jo_config \<Rightarrow> jo_state \<Rightarrow> string \<Rightarrow> action_error + key_state" where
  "replay_key K s key =
     (case read_all_entries (jo_codec K) (jo_path K) (jo_fs s) of
        Inl e \<Rightarrow> Inl (Proof (''replay dispatch outbox failed: '' @ show_durable_error e))
      | Inr es \<Rightarrow> replay_key_rows (jo_rows K) key es ks_default)"

definition jo_lookup :: "jo_config \<Rightarrow> jo_state \<Rightarrow> string \<Rightarrow> action_error + dispatch_lookup" where
  "jo_lookup K s key = (case replay_key K s key of Inl e \<Rightarrow> Inl e | Inr st \<Rightarrow> Inr (ks_lookup st))"

definition jo_intent ::
  "jo_config \<Rightarrow> row_env \<Rightarrow> jo_state \<Rightarrow> string \<Rightarrow> (action_error + unit) outcome \<times> jo_state" where
  "jo_intent K env s key = jo_append_marker K env s DISPATCH_INTENT \<lparr>or_key = key, or_outcome = None\<rparr>"

definition jo_committed ::
  "jo_config \<Rightarrow> row_env \<Rightarrow> jo_state \<Rightarrow> string \<Rightarrow> dispatched_outcome \<Rightarrow>
   (action_error + unit) outcome \<times> jo_state" where
  "jo_committed K env s key outcome =
     jo_append_marker K env s DISPATCH_COMMITTED \<lparr>or_key = key, or_outcome = Some outcome\<rparr>"

definition journal_outbox :: "jo_config \<Rightarrow> jo_state outbox_trait" where
  "journal_outbox K =
     \<lparr>ob_kind = ''journal'', ob_lookup = jo_lookup K, ob_intent = jo_intent K, ob_committed = jo_committed K\<rparr>"

lemma mem_outbox_sel [simp]:
  "ob_lookup mem_outbox_store = mo_lookup" "ob_intent mem_outbox_store = mo_intent"
  "ob_committed mem_outbox_store = mo_committed"
  by (simp_all add: mem_outbox_store_def)

lemma journal_outbox_sel [simp]:
  "ob_lookup (journal_outbox K) = jo_lookup K" "ob_intent (journal_outbox K) = jo_intent K"
  "ob_committed (journal_outbox K) = jo_committed K"
  by (simp_all add: journal_outbox_def)

subsection \<open>The contracts\<close>

text \<open>
  \<open>kst\<close> is the abstract state of a key; \<open>oinv\<close> the states at rest.
\<close>

locale outbox =
  fixes O1 :: "'o outbox_trait"
    and kst :: "'o \<Rightarrow> string \<Rightarrow> key_state"
    and oinv :: "'o \<Rightarrow> bool"
  assumes lookup_state: "oinv s \<Longrightarrow> ob_lookup O1 s key = Inr (ks_lookup (kst s key))"
    and intent_state:
      "oinv s \<Longrightarrow> \<exists>s'. ob_intent O1 (t, NoFault) s key = (Done (Inr ()), s') \<and> oinv s' \<and>
         kst s' = (kst s)(key := (kst s key)\<lparr>ks_intent := True\<rparr>)"
    and committed_state:
      "oinv s \<Longrightarrow> \<exists>s'. ob_committed O1 (t, NoFault) s key outcome = (Done (Inr ()), s') \<and> oinv s' \<and>
         kst s' = (kst s)(key := (kst s key)\<lparr>ks_intent := True, ks_committed := Some outcome\<rparr>)"
begin

lemma intent_then_lookup:
  assumes "oinv s" "ob_lookup O1 s key = Inr NotStarted" "ob_intent O1 (t, NoFault) s key = (r, s')"
  shows "r = Done (Inr ()) \<and> ob_lookup O1 s' key = Inr InProgress"
proof -
  obtain s1 where "ob_intent O1 (t, NoFault) s key = (Done (Inr ()), s1)" "oinv s1"
    "kst s1 = (kst s)(key := (kst s key)\<lparr>ks_intent := True\<rparr>)" using intent_state[OF assms(1)] by blast
  with assms lookup_state[of s key] lookup_state[of s1 key] show ?thesis
    by (auto simp: ks_lookup_def split: option.splits if_splits)
qed

lemma committed_then_lookup:
  assumes "oinv s" "ob_committed O1 (t, NoFault) s key outcome = (r, s')"
  shows "r = Done (Inr ()) \<and> ob_lookup O1 s' key = Inr (Committed outcome) \<and>
    (\<forall>k. k \<noteq> key \<longrightarrow> ob_lookup O1 s' k = ob_lookup O1 s k)"
proof -
  obtain s1 where "ob_committed O1 (t, NoFault) s key outcome = (Done (Inr ()), s1)" "oinv s1"
    "kst s1 = (kst s)(key := (kst s key)\<lparr>ks_intent := True, ks_committed := Some outcome\<rparr>)"
    using committed_state[OF assms(1)] by blast
  with assms lookup_state[of s] lookup_state[of s1] show ?thesis by (auto simp: ks_lookup_def)
qed

end

text \<open>
  An outbox that survives crashes: after any fault in one marker, reopening gives the old state of the
  keys or the new one, and the new one when the marker was reported.
\<close>

locale crash_outbox = outbox O1 kst oinv
  for O1 :: "'o outbox_trait"
    and kst :: "'o \<Rightarrow> string \<Rightarrow> key_state"
    and oinv :: "'o \<Rightarrow> bool" +
  fixes reopen :: "'o \<Rightarrow> action_error + 'o"
  assumes reopen_ok: "oinv s \<Longrightarrow> \<exists>s'. reopen s = Inr s' \<and> oinv s' \<and> kst s' = kst s"
    and intent_crash:
      "oinv s \<Longrightarrow> ob_intent O1 env s key = (r, s') \<Longrightarrow>
         \<exists>s2. reopen s' = Inr s2 \<and> oinv s2 \<and>
           (kst s2 = kst s \<or> kst s2 = (kst s)(key := (kst s key)\<lparr>ks_intent := True\<rparr>))"
    and intent_reported:
      "oinv s \<Longrightarrow> ob_intent O1 env s key = (Done (Inr ()), s') \<Longrightarrow>
         oinv s' \<and> kst s' = (kst s)(key := (kst s key)\<lparr>ks_intent := True\<rparr>)"
    and committed_crash:
      "oinv s \<Longrightarrow> ob_committed O1 env s key outcome = (r, s') \<Longrightarrow>
         \<exists>s2. reopen s' = Inr s2 \<and> oinv s2 \<and>
           (kst s2 = kst s \<or>
            kst s2 = (kst s)(key := (kst s key)\<lparr>ks_intent := True, ks_committed := Some outcome\<rparr>))"
    and committed_reported:
      "oinv s \<Longrightarrow> ob_committed O1 env s key outcome = (Done (Inr ()), s') \<Longrightarrow>
         oinv s' \<and> kst s' = (kst s)(key := (kst s key)\<lparr>ks_intent := True, ks_committed := Some outcome\<rparr>)"
begin

text \<open>A reported intent whose commit crashed: the key is in progress or committed with that outcome.\<close>

lemma intent_commit_restart:
  assumes "oinv s" "ob_intent O1 env s key = (Done (Inr ()), s1)" "ob_lookup O1 s key = Inr NotStarted"
    and "ob_committed O1 env' s1 key outcome = (r, s2)"
  shows "\<exists>s3. reopen s2 = Inr s3 \<and> oinv s3 \<and>
    (ob_lookup O1 s3 key = Inr InProgress \<and> r \<noteq> Done (Inr ()) \<or> ob_lookup O1 s3 key = Inr (Committed outcome)) \<and>
    (\<forall>k. k \<noteq> key \<longrightarrow> ob_lookup O1 s3 k = ob_lookup O1 s k)"
proof -
  note i = intent_reported[OF assms(1,2)]
  obtain s3 where s3: "reopen s2 = Inr s3" "oinv s3" and
    k: "kst s3 = kst s1 \<or> kst s3 = (kst s1)(key := (kst s1 key)\<lparr>ks_intent := True, ks_committed := Some outcome\<rparr>)"
    using committed_crash[OF _ assms(4)] i by blast
  have c: "ks_committed (kst s key) = None" using assms(3) lookup_state[OF assms(1)]
    by (auto simp: ks_lookup_def split: option.splits)
  have rep: "kst s3 = (kst s1)(key := (kst s1 key)\<lparr>ks_intent := True, ks_committed := Some outcome\<rparr>)"
    if "r = Done (Inr ())"
    using committed_reported[OF _ assms(4)[unfolded that]] i reopen_ok[of s2] s3(1) by auto
  show ?thesis
    using s3 k c i rep lookup_state[OF s3(2)] lookup_state[OF assms(1)]
    by (cases "r = Done (Inr ())") (auto simp: ks_lookup_def)
qed

end

text \<open>
  What the process and its restarts do to an outbox: markers written under any fault, and reopening
  (a reopening that fails leaves the disk as it was).
\<close>

datatype outbox_op =
    ObIntent row_env string
  | ObCommitted row_env string dispatched_outcome
  | ObReopen

fun run_outbox :: "'o outbox_trait \<Rightarrow> ('o \<Rightarrow> action_error + 'o) \<Rightarrow> 'o \<Rightarrow> outbox_op list \<Rightarrow> 'o" where
  "run_outbox O1 reopen s [] = s"
| "run_outbox O1 reopen s (ObIntent env key # ops) =
     run_outbox O1 reopen (snd (ob_intent O1 env s key)) ops"
| "run_outbox O1 reopen s (ObCommitted env key outcome # ops) =
     run_outbox O1 reopen (snd (ob_committed O1 env s key outcome)) ops"
| "run_outbox O1 reopen s (ObReopen # ops) =
     run_outbox O1 reopen (case reopen s of Inl _ \<Rightarrow> s | Inr s' \<Rightarrow> s') ops"

locale outbox_guard =
  fixes O1 :: "'o outbox_trait"
    and reopen :: "'o \<Rightarrow> action_error + 'o"
    and owf :: "'o \<Rightarrow> bool"
    and intended :: "string \<Rightarrow> 'o \<Rightarrow> bool"
  assumes wf_intent: "owf s \<Longrightarrow> owf (snd (ob_intent O1 env s key))"
    and wf_committed: "owf s \<Longrightarrow> owf (snd (ob_committed O1 env s key outcome))"
    and wf_reopen: "owf s \<Longrightarrow> reopen s = Inr s' \<Longrightarrow> owf s'"
    and keep_intent: "intended k s \<Longrightarrow> intended k (snd (ob_intent O1 env s key))"
    and keep_committed: "intended k s \<Longrightarrow> intended k (snd (ob_committed O1 env s key outcome))"
    and keep_reopen: "intended k s \<Longrightarrow> reopen s = Inr s' \<Longrightarrow> intended k s'"
    and intent_success: "owf s \<Longrightarrow> ob_intent O1 env s key = (Done (Inr ()), s') \<Longrightarrow> intended key s'"
    and intended_lookup: "intended k s \<Longrightarrow> ob_lookup O1 s k \<noteq> Inr NotStarted"
begin

lemma run_keeps_wf: "owf s \<Longrightarrow> owf (run_outbox O1 reopen s ops)"
proof (induction ops arbitrary: s)
  case (Cons a ops)
  then show ?case
    by (cases a) (auto intro: wf_intent wf_committed wf_reopen split: sum.splits)
qed simp

lemma run_keeps_intended: "intended k s \<Longrightarrow> intended k (run_outbox O1 reopen s ops)"
proof (induction ops arbitrary: s)
  case (Cons a ops)
  then show ?case
    by (cases a) (auto intro: keep_intent keep_committed keep_reopen split: sum.splits)
qed simp

lemma never_forgotten:
  assumes "owf s" "ob_intent O1 env s key = (Done (Inr ()), s')"
  shows "ob_lookup O1 (run_outbox O1 reopen s' ops) key \<noteq> Inr NotStarted"
  by (rule intended_lookup[OF run_keeps_intended[OF intent_success[OF assms]]])

end

interpretation mo: outbox mem_outbox_store mo_entry hm_ok
  by unfold_locales
    (auto simp: mo_lookup_def mo_entry_def mo_intent_def mo_committed_def ks_lookup_def ks_default_def fun_eq_iff
       split: option.splits)

subsection \<open>The journal outbox keeps the contracts\<close>

text \<open>The row encoder: total, read back as written, and its rows fit the journal.\<close>

definition jo_ok :: "jo_config \<Rightarrow> bool" where
  "jo_ok K \<longleftrightarrow> codec_ok (jo_codec K) \<and>
     (\<forall>row. \<exists>v. enc_row (jo_rows K) row = Inr v \<and> dec_row (jo_rows K) v = Inr row \<and>
        (\<forall>t i name. to_string (jo_codec K) (marker t i name v) \<noteq> None))"

definition jo_entry :: "jo_config \<Rightarrow> jo_state \<Rightarrow> string \<Rightarrow> key_state" where
  "jo_entry K s key = (case replay_key K s key of Inl _ \<Rightarrow> ks_default | Inr st \<Rightarrow> st)"

definition jo_inv :: "jo_config \<Rightarrow> jo_state \<Rightarrow> bool" where
  "jo_inv K s \<longleftrightarrow> jo_ok K \<and> file_inv (jo_codec K) (jo_path K) (jo_fs s) \<and>
     (\<forall>key. \<exists>st. replay_key K s key = Inr st)"

definition jo_reopen :: "jo_config \<Rightarrow> jo_state \<Rightarrow> action_error + jo_state" where
  "jo_reopen K s = jo_open K (jo_fs s)"

definition jo_wf :: "jo_config \<Rightarrow> jo_state \<Rightarrow> bool" where
  "jo_wf K s \<longleftrightarrow> jo_ok K \<and> file_wf (jo_codec K) (jo_path K) (jo_fs s)"

definition jo_intended :: "jo_config \<Rightarrow> string \<Rightarrow> jo_state \<Rightarrow> bool" where
  "jo_intended K key s \<longleftrightarrow>
     (\<exists>t i v row. file_recorded (jo_codec K) (jo_path K) (marker t i DISPATCH_INTENT v) (jo_fs s) \<and>
        dec_row (jo_rows K) v = Inr row \<and> or_key row = key)"

lemma replay_key_rows_append:
  "replay_key_rows R key (xs @ ys) st =
     (case replay_key_rows R key xs st of Inl e \<Rightarrow> Inl e | Inr st' \<Rightarrow> replay_key_rows R key ys st')"
  by (induction R key xs st rule: replay_key_rows.induct)
    (auto simp: Let_def split: entry_kind.splits sum.splits option.splits)

definition intent_row :: "outbox_codec \<Rightarrow> string \<Rightarrow> journal_entry \<Rightarrow> bool" where
  "intent_row R key e \<longleftrightarrow>
     (\<exists>t i v row. e = marker t i DISPATCH_INTENT v \<and> dec_row R v = Inr row \<and> or_key row = key)"

lemma replay_key_rows_step:
  assumes "replay_key_rows R key (e # es) st = Inr st'"
  shows "\<exists>st1. replay_key_rows R key es st1 = Inr st' \<and> (ks_intent st \<or> intent_row R key e \<longrightarrow> ks_intent st1)"
proof (cases "intent_row R key e")
  case True
  with assms have "replay_key_rows R key es (st\<lparr>ks_intent := True\<rparr>) = Inr st'"
    by (auto simp: intent_row_def marker_def)
  then show ?thesis by (intro exI[of _ "st\<lparr>ks_intent := True\<rparr>"]) simp
next
  case False
  then show ?thesis using assms
    by (fastforce simp: Let_def split: entry_kind.splits sum.splits option.splits if_splits)
qed

lemma replay_key_rows_intent:
  "replay_key_rows R key es st = Inr st' \<Longrightarrow> ks_intent st \<or> (\<exists>e \<in> set es. intent_row R key e) \<Longrightarrow>
     ks_intent st'"
proof (induction es arbitrary: st)
  case (Cons e es)
  from replay_key_rows_step[OF Cons.prems(1)] obtain st1 where
    "replay_key_rows R key es st1 = Inr st'" "ks_intent st \<or> intent_row R key e \<longrightarrow> ks_intent st1" by blast
  with Cons show ?case by auto
qed simp

lemma replay_key_state:
  "replay_key K s key = Inr st \<longleftrightarrow>
     (\<exists>es. read_all_entries (jo_codec K) (jo_path K) (jo_fs s) = Inr es \<and>
        replay_key_rows (jo_rows K) key es ks_default = Inr st)"
  by (auto simp: replay_key_def split: sum.splits)

definition row_effect :: "string \<Rightarrow> outbox_row \<Rightarrow> (string \<Rightarrow> key_state) \<Rightarrow> string \<Rightarrow> key_state" where
  "row_effect name row m =
     (if name = DISPATCH_INTENT then m(or_key row := (m (or_key row))\<lparr>ks_intent := True\<rparr>)
      else case or_outcome row of
             None \<Rightarrow> m
           | Some outcome \<Rightarrow> m(or_key row := (m (or_key row))\<lparr>ks_intent := True, ks_committed := Some outcome\<rparr>))"

lemma jo_invD: "jo_inv K s \<Longrightarrow> jo_ok K" "jo_inv K s \<Longrightarrow> file_inv (jo_codec K) (jo_path K) (jo_fs s)"
  "jo_inv K s \<Longrightarrow> \<exists>st. replay_key K s key = Inr st"
  by (simp_all add: jo_inv_def)

lemma replay_key_at_rest:
  "file_inv (jo_codec K) (jo_path K) (jo_fs s) \<Longrightarrow>
     replay_key K s key = replay_key_rows (jo_rows K) key (file_rows (jo_codec K) (jo_path K) (jo_fs s)) ks_default"
  using filej.replay_all_rows[of "jo_codec K" "jo_path K" "jo_fs s"] by (simp add: replay_key_def)

lemma jo_same_rows:
  assumes "jo_inv K s" "file_inv (jo_codec K) (jo_path K) (jo_fs s')"
    and "file_rows (jo_codec K) (jo_path K) (jo_fs s') = file_rows (jo_codec K) (jo_path K) (jo_fs s)"
  shows "jo_inv K s' \<and> jo_entry K s' = jo_entry K s"
  using assms jo_invD(3)[OF assms(1)] unfolding jo_inv_def
  by (simp add: jo_entry_def fun_eq_iff replay_key_at_rest)

lemma jo_row_added:
  assumes inv: "jo_inv K s" and at_rest: "file_inv (jo_codec K) (jo_path K) (jo_fs s')"
    and rows: "file_rows (jo_codec K) (jo_path K) (jo_fs s') =
      file_rows (jo_codec K) (jo_path K) (jo_fs s) @ [marker t i name v]"
    and row: "dec_row (jo_rows K) v = Inr row" "name = DISPATCH_INTENT \<or> name = DISPATCH_COMMITTED"
  shows "jo_inv K s' \<and> jo_entry K s' = row_effect name row (jo_entry K s)"
proof -
  have r: "replay_key K s' key = Inr (row_effect name row (jo_entry K s) key)" for key
  proof -
    obtain st where "replay_key K s key = Inr st" using jo_invD(3)[OF inv] by blast
    with row show ?thesis
      by (auto simp: replay_key_at_rest[OF at_rest] replay_key_at_rest[OF jo_invD(2)[OF inv]] rows
          replay_key_rows_append jo_entry_def row_effect_def marker_def Let_def DISPATCH_INTENT_def
          DISPATCH_COMMITTED_def split: option.splits)
  qed
  then show ?thesis using inv at_rest by (simp add: jo_inv_def jo_entry_def fun_eq_iff)
qed

lemma jo_reopen_at_rest: "jo_inv K s \<Longrightarrow> \<exists>s'. jo_reopen K s = Inr s' \<and> jo_fs s' = jo_fs s \<and> jo_inv K s'"
  using jo_invD(2)[of K s] filej.replay_all_rows[of "jo_codec K" "jo_path K" "jo_fs s"] jo_same_rows[of K s]
  by (simp add: jo_reopen_def jo_open_def file_open_inv default_len_def Let_def)

lemma jo_entry_fs: "jo_fs s' = jo_fs s \<Longrightarrow> jo_entry K s' = jo_entry K s"
  by (rule ext) (simp add: jo_entry_def replay_key_def)

text \<open>One marker under any fault, and the reopening after it.\<close>

lemma jo_append_any:
  assumes inv: "jo_inv K s" and app: "jo_append_marker K env s name row = (r, s')"
    and name: "name = DISPATCH_INTENT \<or> name = DISPATCH_COMMITTED"
  defines "m \<equiv> row_effect name row (jo_entry K s)"
  shows "\<exists>s2. jo_reopen K s' = Inr s2 \<and> jo_inv K s2 \<and> (jo_entry K s2 = jo_entry K s \<or> jo_entry K s2 = m)"
    and "r = Done (Inr ()) \<Longrightarrow> jo_inv K s' \<and> jo_entry K s' = m"
    and "snd env = NoFault \<Longrightarrow> r = Done (Inr ())"
proof -
  obtain v where v: "enc_row (jo_rows K) row = Inr v" "dec_row (jo_rows K) v = Inr row"
    "to_string (jo_codec K) (marker (fst env) (jo_next s) name v) \<noteq> None"
    using jo_invD(1)[OF inv] unfolding jo_ok_def by blast
  let ?C = "jo_codec K" and ?p = "jo_path K" and ?e = "marker (fst env) (jo_next s) name v"
  obtain r1 d1 where d1: "file_append ?C ?p (snd env) (jo_fs s) ?e = (r1, d1)" by (rule prod.exhaust)
  then have r1: "r = Done (Inr ()) \<longleftrightarrow> r1 = Done (Inr ())" and fs: "jo_fs s' = d1"
    using app v(1)
    by (auto simp: jo_append_marker_def jo_next_step_id_def split: outcome.splits sum.splits)
  note at_rest = jo_invD(2)[OF inv]
  have crash: "file_inv ?C ?p (file_open ?C d1 ?p)"
    "file_rows ?C ?p (file_open ?C d1 ?p) = file_rows ?C ?p (jo_fs s) \<or>
     file_rows ?C ?p (file_open ?C d1 ?p) = file_rows ?C ?p (jo_fs s) @ [?e]"
    using filec.crash_append[OF at_rest] d1 by auto
  define s2 where "s2 = \<lparr>jo_fs = file_open ?C d1 ?p, jo_next = jo_next s\<rparr>"
  have s2: "jo_inv K s2" "jo_entry K s2 = jo_entry K s \<or> jo_entry K s2 = m"
    using crash jo_same_rows[OF inv, of s2] jo_row_added[OF inv _ _ v(2) name, of s2] unfolding s2_def m_def
    by auto
  have "jo_reopen K s' = jo_reopen K s2"
    using file_open_inv[OF crash(1)] by (simp add: jo_reopen_def jo_open_def fs s2_def)
  moreover obtain s3 where s3: "jo_reopen K s2 = Inr s3" "jo_fs s3 = jo_fs s2" "jo_inv K s3"
    using jo_reopen_at_rest[OF s2(1)] by blast
  ultimately show "\<exists>s2. jo_reopen K s' = Inr s2 \<and> jo_inv K s2 \<and>
    (jo_entry K s2 = jo_entry K s \<or> jo_entry K s2 = m)" using s2(2) jo_entry_fs[OF s3(2)] by auto
  show "jo_inv K s' \<and> jo_entry K s' = m" if "r = Done (Inr ())"
  proof -
    have "tr_append (file_journal ?C ?p) (snd env) (jo_fs s) ?e = (Done (Inr ()), d1)"
      using d1 r1 that by simp
    from filec.append_success[OF at_rest this] show ?thesis
      unfolding m_def by (intro jo_row_added[OF inv _ _ v(2) name]) (simp_all add: fs)
  qed
  show "r = Done (Inr ())" if "snd env = NoFault"
  proof -
    have "file_storable ?C (jo_fs s) ?e" using v(3) unfolding file_storable_def .
    from filej.append_ok[OF at_rest this] obtain d2 where
      "file_append ?C ?p NoFault (jo_fs s) ?e = (Done (Inr ()), d2)" unfolding file_journal_sel by blast
    with d1 that have "r1 = Done (Inr ())" by (metis prod.inject)
    with r1 show ?thesis by blast
  qed
qed

lemma row_effect_simps [simp]:
  "row_effect DISPATCH_INTENT \<lparr>or_key = key, or_outcome = None\<rparr> m = m(key := (m key)\<lparr>ks_intent := True\<rparr>)"
  "row_effect DISPATCH_COMMITTED \<lparr>or_key = key, or_outcome = Some outcome\<rparr> m =
     m(key := (m key)\<lparr>ks_intent := True, ks_committed := Some outcome\<rparr>)"
  by (simp_all add: row_effect_def DISPATCH_INTENT_def DISPATCH_COMMITTED_def)

lemmas jo_intent_any =
    jo_append_any[where name = DISPATCH_INTENT and row = "\<lparr>or_key = key, or_outcome = None\<rparr>" for key,
      folded jo_intent_def, unfolded row_effect_simps, OF _ _ disjI1, OF _ _ refl]

lemmas jo_committed_any =
    jo_append_any[where name = DISPATCH_COMMITTED
        and row = "\<lparr>or_key = key, or_outcome = Some outcome\<rparr>" for key outcome,
      folded jo_committed_def, unfolded row_effect_simps, OF _ _ disjI2, OF _ _ refl]

lemma jo_intent_ok:
  assumes "jo_inv K s"
  shows "\<exists>s'. jo_intent K (t, NoFault) s key = (Done (Inr ()), s') \<and> jo_inv K s' \<and>
    jo_entry K s' = (jo_entry K s)(key := (jo_entry K s key)\<lparr>ks_intent := True\<rparr>)"
proof -
  obtain r s' where r: "jo_intent K (t, NoFault) s key = (r, s')" by (rule prod.exhaust)
  then have "r = Done (Inr ())" by (rule jo_intent_any(3)[OF assms]) simp
  with jo_intent_any(2)[OF assms r] r show ?thesis by blast
qed

lemma jo_committed_ok:
  assumes "jo_inv K s"
  shows "\<exists>s'. jo_committed K (t, NoFault) s key outcome = (Done (Inr ()), s') \<and> jo_inv K s' \<and>
    jo_entry K s' = (jo_entry K s)(key := (jo_entry K s key)\<lparr>ks_intent := True, ks_committed := Some outcome\<rparr>)"
proof -
  obtain r s' where r: "jo_committed K (t, NoFault) s key outcome = (r, s')" by (rule prod.exhaust)
  then have "r = Done (Inr ())" by (rule jo_committed_any(3)[OF assms]) simp
  with jo_committed_any(2)[OF assms r] r show ?thesis by blast
qed

interpretation joc: crash_outbox "journal_outbox K" "jo_entry K" "jo_inv K" "jo_reopen K" for K
proof (unfold_locales, unfold journal_outbox_sel, goal_cases)
  case (1 s key)
  then obtain st where "replay_key K s key = Inr st" using jo_invD(3) by blast
  then show ?case by (simp add: jo_lookup_def jo_entry_def)
next
  case (2 s t key)
  then show ?case by (rule jo_intent_ok)
next
  case (3 s t key outcome)
  then show ?case by (rule jo_committed_ok)
next
  case (4 s)
  from jo_reopen_at_rest[OF this] show ?case using jo_entry_fs by blast
next
  case (5 s env key r s')
  then show ?case by (rule jo_intent_any(1))
next
  case (6 s env key s')
  then show ?case by (rule jo_intent_any(2)) simp
next
  case (7 s env key outcome r s')
  then show ?case by (rule jo_committed_any(1))
next
  case (8 s env key outcome s')
  then show ?case by (rule jo_committed_any(2)) simp
qed

lemma jo_append_shape:
  obtains "jo_fs (snd (jo_append_marker K env s name row)) = jo_fs s"
    "fst (jo_append_marker K env s name row) \<noteq> Done (Inr ())"
  | v where "enc_row (jo_rows K) row = Inr v"
    "jo_fs (snd (jo_append_marker K env s name row)) =
       snd (file_append (jo_codec K) (jo_path K) (snd env) (jo_fs s) (marker (fst env) (jo_next s) name v))"
    "fst (jo_append_marker K env s name row) = Done (Inr ()) \<longleftrightarrow>
       fst (file_append (jo_codec K) (jo_path K) (snd env) (jo_fs s) (marker (fst env) (jo_next s) name v)) = Done (Inr ())"
proof (cases "enc_row (jo_rows K) row")
  case (Inl a)
  with that(1) show ?thesis by (simp add: jo_append_marker_def)
next
  case (Inr v)
  then show ?thesis
    by (intro that(2)[OF Inr])
      (auto simp: jo_append_marker_def jo_next_step_id_def split: prod.splits outcome.splits sum.splits)
qed

lemma jo_append_wf: "jo_wf K s \<Longrightarrow> jo_wf K (snd (jo_append_marker K env s name row))"
  by (rule jo_append_shape[of K env s name row]) (auto simp: jo_wf_def intro: file_wf_append)

lemma jo_append_intended:
  "jo_intended K key s \<Longrightarrow> jo_intended K key (snd (jo_append_marker K env s name row))"
  by (rule jo_append_shape[of K env s name row])
    (auto simp: jo_intended_def intro: file_recorded_append)

lemma jo_open_fs: "jo_open K d = Inr s \<Longrightarrow> jo_fs s = file_open (jo_codec K) d (jo_path K)"
  by (auto simp: jo_open_def Let_def split: sum.splits)

lemma jo_reopen_wf: "jo_wf K s \<Longrightarrow> jo_reopen K s = Inr s' \<Longrightarrow> jo_wf K s'"
  unfolding jo_reopen_def jo_wf_def by (drule jo_open_fs) (simp add: file_wf_reopen)

lemma jo_reopen_intended: "jo_intended K k s \<Longrightarrow> jo_reopen K s = Inr s' \<Longrightarrow> jo_intended K k s'"
  unfolding jo_reopen_def jo_intended_def by (drule jo_open_fs) (simp, blast intro: file_recorded_reopen)

interpretation jog: outbox_guard "journal_outbox K" "jo_reopen K" "jo_wf K" "jo_intended K" for K
proof (unfold_locales, goal_cases)
  case (7 s env key s')
  show ?case
  proof (rule jo_append_shape[of K env s DISPATCH_INTENT "\<lparr>or_key = key, or_outcome = None\<rparr>"], goal_cases)
    case 1
    then show ?case using 7 by (simp add: jo_intent_def)
  next
    case (2 v)
    let ?e = "marker (fst env) (jo_next s) DISPATCH_INTENT v"
    have "file_append (jo_codec K) (jo_path K) (snd env) (jo_fs s) ?e = (Done (Inr ()), jo_fs s')"
      using 2 7(2) by (intro prod_eqI) (simp_all add: jo_intent_def)
    then have "file_recorded (jo_codec K) (jo_path K) ?e (jo_fs s')"
      using 7(1) file_recorded_success unfolding jo_wf_def by blast
    moreover have "dec_row (jo_rows K) v = Inr \<lparr>or_key = key, or_outcome = None\<rparr>"
      using 2(1) 7(1) unfolding jo_wf_def jo_ok_def by (metis sum.inject(2))
    ultimately show ?case unfolding jo_intended_def by fastforce
  qed
next
  case (8 k s)
  then obtain t i v row where r: "file_recorded (jo_codec K) (jo_path K) (marker t i DISPATCH_INTENT v) (jo_fs s)"
    "dec_row (jo_rows K) v = Inr row" "or_key row = k" unfolding jo_intended_def by blast
  show ?case
  proof
    assume "ob_lookup (journal_outbox K) s k = Inr NotStarted"
    then obtain st where st: "replay_key K s k = Inr st" "ks_lookup st = NotStarted"
      by (auto simp: jo_lookup_def split: sum.splits)
    then obtain es where es: "read_all_entries (jo_codec K) (jo_path K) (jo_fs s) = Inr es"
      "replay_key_rows (jo_rows K) k es ks_default = Inr st" unfolding replay_key_state by blast
    have "ks_intent st"
      using replay_key_rows_intent[OF es(2)] file_recorded_read[OF r(1) es(1)] r(2,3)
      unfolding intent_row_def by blast
    with st(2) show False by (simp add: ks_lookup_def split: option.splits)
  qed
qed (auto simp: jo_intent_def jo_committed_def jo_append_wf jo_append_intended jo_reopen_wf jo_reopen_intended)

subsection \<open>A concrete row encoder\<close>

definition status_of_text :: "string \<Rightarrow> task_status option" where
  "status_of_text s = List.find (\<lambda>x. show_status x = s)
     [Planned, Ready, Running, NeedsApproval, Blocked, Suspended, TaskDone, Failed, Cancelled]"

lemma status_of_text_show: "status_of_text (show_status x) = Some x"
  by (cases x) (simp_all add: status_of_text_def)

definition enc_opt :: "string option \<Rightarrow> string" where
  "enc_opt x = (case x of None \<Rightarrow> ''n'' | Some m \<Rightarrow> CHR ''s'' # m)"

definition dec_opt :: "string \<Rightarrow> string option" where
  "dec_opt s = (case s of [] \<Rightarrow> None | c # m \<Rightarrow> if c = CHR ''s'' then Some m else None)"

lemma dec_opt_enc: "dec_opt (enc_opt x) = x"
  by (cases x) (simp_all add: enc_opt_def dec_opt_def)

definition sample_outbox_codec :: outbox_codec where
  "sample_outbox_codec =
     \<lparr>enc_row = (\<lambda>r. Inr (JStr (pack (or_key r # (case or_outcome r of
          None \<Rightarrow> []
        | Some d \<Rightarrow> [show_nat (unat (do_task d)), show_status (do_status d),
            enc_opt (map_option (\<lambda>i. show_nat (unat i)) (do_pending d)), enc_opt (do_error d)]))))),
      dec_row = (\<lambda>v. case v of
        JStr t \<Rightarrow>
          (case unpack [] t of
             Some [k] \<Rightarrow> Inr \<lparr>or_key = k, or_outcome = None\<rparr>
           | Some [k, i, x, a, e] \<Rightarrow>
               (case (nat_of_text i, status_of_text x) of
                  (Some n, Some y) \<Rightarrow>
                    Inr \<lparr>or_key = k, or_outcome = Some \<lparr>do_task = of_nat n, do_status = y,
                      do_pending = map_option (\<lambda>j. of_nat (the (nat_of_text j))) (dec_opt a),
                      do_error = dec_opt e\<rparr>\<rparr>
                | _ \<Rightarrow> Inl ''invalid'')
           | _ \<Rightarrow> Inl ''invalid'')
      | _ \<Rightarrow> Inl ''invalid'')\<rparr>"

definition sample_jo :: jo_config where
  "sample_jo = \<lparr>jo_codec = text_codec, jo_rows = sample_outbox_codec, jo_path = ''o''\<rparr>"

lemma sample_jo_ok: "jo_ok sample_jo"
proof -
  have "dec_row sample_outbox_codec v = Inr row" if "enc_row sample_outbox_codec row = Inr v" for row v
    using that
    by (cases row; cases "or_outcome row")
      (auto simp: sample_outbox_codec_def unpack_pack nat_of_text_show status_of_text_show dec_opt_enc
         option.map_comp comp_def option.map_ident)
  moreover have "\<exists>v. enc_row sample_outbox_codec row = Inr v \<and>
      (\<forall>t i name. to_string text_codec (marker t i name v) \<noteq> None)" for row
    by (simp add: sample_outbox_codec_def text_codec_def text_row_marker)
  ultimately show ?thesis unfolding jo_ok_def sample_jo_def by (auto simp: text_codec_ok) metis
qed

definition jo_fresh :: jo_state where
  "jo_fresh = \<lparr>jo_fs = (\<lambda>p. if p = ''o'' then Some [] else None), jo_next = 0\<rparr>"

lemma sample_jo_fresh:
  "jo_open sample_jo (\<lambda>_. None) = Inr jo_fresh" "jo_inv sample_jo jo_fresh" "jo_entry sample_jo jo_fresh k = ks_default"
proof -
  have f: "file_open text_codec (\<lambda>_. None) ''o'' = jo_fs jo_fresh"
    by (auto simp: file_open_simp jo_fresh_def fun_eq_iff)
  have i: "file_inv text_codec ''o'' (jo_fs jo_fresh)" "file_rows text_codec ''o'' (jo_fs jo_fresh) = []"
    using file_open_missing[OF text_codec_ok, of "\<lambda>_. None" "''o''"] f by simp_all
  have r: "replay_key sample_jo jo_fresh key = Inr ks_default" for key
    using replay_key_at_rest[of sample_jo jo_fresh key] i by (simp add: sample_jo_def)
  then show "jo_entry sample_jo jo_fresh k = ks_default" by (simp add: jo_entry_def)
  from r show "jo_inv sample_jo jo_fresh" using i sample_jo_ok by (simp add: jo_inv_def) (simp add: sample_jo_def)
  have "read_all_entries text_codec ''o'' (jo_fs jo_fresh) = Inr []"
    using filej.replay_all_rows[OF i(1)] i(2) by simp
  then show "jo_open sample_jo (\<lambda>_. None) = Inr jo_fresh"
    using f by (simp add: jo_open_def sample_jo_def default_len_def Let_def) (simp add: jo_fresh_def)
qed

lemma jo_inv_wf: "jo_inv K s \<Longrightarrow> jo_wf K s"
  by (auto simp: jo_inv_def jo_wf_def file_wf_def file_inv_def after_last_nl_clean)

subsection \<open>Properties\<close>

text \<open>C16: once the journal outbox has reported the intent of a key, no sequence of markers, write errors,
  kills and restarts ever makes it answer that the key was not started.\<close>

theorem intent_never_forgotten:
  assumes "jo_wf K s" "jo_intent K env s key = (Done (Inr ()), s')"
  shows "jo_lookup K (run_outbox (journal_outbox K) (jo_reopen K) s' ops) key \<noteq> Inr NotStarted"
  using jog.never_forgotten[of K s env key s' ops] assms by simp

theorem intent_never_forgotten_witness:
  "\<exists>s'. jo_intent sample_jo (5, NoFault) jo_fresh ''k'' = (Done (Inr ()), s') \<and>
     jo_lookup sample_jo (run_outbox (journal_outbox sample_jo) (jo_reopen sample_jo) s'
       [ObCommitted (6, WriteErr 3) ''k'' (from_error ''m''), ObReopen]) ''k'' \<noteq> Inr NotStarted"
proof -
  obtain s' where s': "jo_intent sample_jo (5, NoFault) jo_fresh ''k'' = (Done (Inr ()), s')"
    using jo_intent_ok[OF sample_jo_fresh(2)] by blast
  show ?thesis using intent_never_forgotten[OF jo_inv_wf[OF sample_jo_fresh(2)] s'] s' by blast
qed

text \<open>A dispatch whose intent was recorded and whose commit met any fault is, after a restart, either
  in progress (and the commit was not reported) or committed with exactly the outcome that was
  written; the other keys keep their state.\<close>

theorem commit_survives_restart:
  assumes "jo_inv K s" "jo_lookup K s key = Inr NotStarted"
    and "jo_intent K env s key = (Done (Inr ()), s1)" "jo_committed K env' s1 key outcome = (r, s2)"
  shows "\<exists>s3. jo_reopen K s2 = Inr s3 \<and> jo_inv K s3 \<and>
    (jo_lookup K s3 key = Inr InProgress \<and> r \<noteq> Done (Inr ()) \<or> jo_lookup K s3 key = Inr (Committed outcome)) \<and>
    (\<forall>k. k \<noteq> key \<longrightarrow> jo_lookup K s3 k = jo_lookup K s k)"
  using joc.intent_commit_restart[of K s env key s1 env' outcome r s2] assms by simp

theorem commit_survives_restart_witness:
  "\<exists>s1 s2 s3. jo_intent sample_jo (5, NoFault) jo_fresh ''k'' = (Done (Inr ()), s1) \<and>
     jo_committed sample_jo (6, NoFault) s1 ''k'' (from_error ''m'') = (Done (Inr ()), s2) \<and>
     jo_reopen sample_jo s2 = Inr s3 \<and> jo_lookup sample_jo s3 ''k'' = Inr (Committed (from_error ''m''))"
proof -
  obtain s1 where s1: "jo_intent sample_jo (5, NoFault) jo_fresh ''k'' = (Done (Inr ()), s1)" "jo_inv sample_jo s1"
    using jo_intent_ok[OF sample_jo_fresh(2)] by blast
  obtain s2 where s2: "jo_committed sample_jo (6, NoFault) s1 ''k'' (from_error ''m'') = (Done (Inr ()), s2)"
    using jo_committed_ok[OF s1(2)] by blast
  have "jo_lookup sample_jo jo_fresh ''k'' = Inr NotStarted"
    using joc.lookup_state[OF sample_jo_fresh(2), of "''k''"] sample_jo_fresh(3)
    by (simp add: ks_lookup_def ks_default_def)
  from commit_survives_restart[OF sample_jo_fresh(2) this s1(1) s2] show ?thesis using s1(1) s2 by blast
qed

end
