(* ===== verification/Manifest.thy ===== *)
theory Manifest
  imports Dispatch_Outbox
begin

section \<open>Skill manifests and the registry\<close>

text \<open>
  Models \<^verbatim>\<open>crates/familyclaw-actions/src/manifest.rs\<close> and \<^verbatim>\<open>registry.rs\<close>. TOML and JSON
  parsing, Ed25519, the environment variable and the file of trusted keys are the record
  \<open>skill_ext\<close>. A panic of the code is the outcome \<open>Killed\<close>.
\<close>

record skill_manifest =
  m_id :: skill_id
  m_name :: string
  m_version :: string
  m_description :: string
  m_permissions :: "skill_permission list"
  m_risk :: action_risk
  m_policy :: approval_policy
  m_input_hint :: "string option"
  m_output_hint :: "string option"
  m_input_schema :: json
  m_publisher :: "string option"
  m_signature :: "string option"

record skill_ext =
  toml_parse :: "string \<Rightarrow> string + skill_manifest"    \<comment> \<open>toml::from_str\<close>
  json_parse :: "string \<Rightarrow> string + skill_manifest"    \<comment> \<open>serde_json::from_str\<close>
  manifest_json :: "skill_manifest \<Rightarrow> string + string" \<comment> \<open>serde_json::to_string, to_vec\<close>
  registry_env :: "string option"                      \<comment> \<open>FAMILYCLAW_SKILL_REGISTRY\<close>
  read_text :: "path \<Rightarrow> string + string"              \<comment> \<open>fs::read_to_string\<close>
  keys_parse :: "string \<Rightarrow> string + (string, string) hashmap"
  key_check :: "string \<Rightarrow> string option"              \<comment> \<open>VerifyingKey::from_bytes: its error\<close>
  verify_strict :: "string \<Rightarrow> string \<Rightarrow> string \<Rightarrow> bool" \<comment> \<open>key, message, signature\<close>

definition default_input_schema :: json where
  "default_input_schema = JObj [(''type'', JStr ''object'')]"

definition with_input_schema :: "json \<Rightarrow> skill_manifest \<Rightarrow> skill_manifest" where
  "with_input_schema schema m = m\<lparr>m_input_schema := schema\<rparr>"

definition from_toml :: "skill_ext \<Rightarrow> string \<Rightarrow> action_error + skill_manifest" where
  "from_toml S input = (case toml_parse S input of Inl e \<Rightarrow> Inl (ManifestParse e) | Inr m \<Rightarrow> Inr m)"

definition from_json :: "skill_ext \<Rightarrow> string \<Rightarrow> action_error + skill_manifest" where
  "from_json S input = (case json_parse S input of Inl e \<Rightarrow> Inl (ManifestParse e) | Inr m \<Rightarrow> Inr m)"

definition to_json :: "skill_ext \<Rightarrow> skill_manifest \<Rightarrow> action_error + string" where
  "to_json S m = (case manifest_json S m of Inl e \<Rightarrow> Inl (ManifestParse e) | Inr t \<Rightarrow> Inr t)"

subsection \<open>Hexadecimal text\<close>

fun strip_0x :: "char \<Rightarrow> string \<Rightarrow> string" where
  "strip_0x x (a # b # r) = (if a = CHR ''0'' \<and> b = x then strip_0x x r else a # b # r)"
| "strip_0x x s = s"

definition radix16 :: "char \<Rightarrow> nat option" where
  "radix16 c =
     (let n = of_char c :: nat
      in if 48 \<le> n \<and> n \<le> 57 then Some (n - 48)
         else if 97 \<le> n \<and> n \<le> 102 then Some (n - 87)
         else if 65 \<le> n \<and> n \<le> 70 then Some (n - 55) else None)"

text \<open>\<^verbatim>\<open>u8::from_str_radix\<close> on two bytes: a leading plus sign is accepted.\<close>

definition hex_pair :: "char \<Rightarrow> char \<Rightarrow> nat option" where
  "hex_pair a b =
     (if a = CHR ''+'' then radix16 b
      else case (radix16 a, radix16 b) of (Some m, Some n) \<Rightarrow> Some (16 * m + n) | _ \<Rightarrow> None)"

text \<open>
  The slices of two bytes; slicing inside a UTF-8 character panics. \<open>i\<close> is the position of the
  next byte.
\<close>

fun decode_pairs :: "nat \<Rightarrow> string \<Rightarrow> (string + string) outcome" where
  "decode_pairs i (a # b # r) =
     (if utf8_cont (of_char a) \<or> (r \<noteq> [] \<and> utf8_cont (of_char (hd r))) then Killed
      else case hex_pair a b of
             None \<Rightarrow> Done (Inl (''invalid hex at offset '' @ show_nat i @ '': invalid digit found in string''))
           | Some n \<Rightarrow>
               (case decode_pairs (i + 2) r of
                  Done (Inr bs) \<Rightarrow> Done (Inr (char_of n # bs))
                | res \<Rightarrow> res))"
| "decode_pairs i _ = Done (Inr [])"

definition decode_hex :: "string \<Rightarrow> (string + string) outcome" where
  "decode_hex input =
     (let trimmed = strip_0x CHR ''X'' (strip_0x CHR ''x'' (trim input))
      in if odd (length trimmed) then Done (Inl ''odd hex length'') else decode_pairs 0 trimmed)"

subsection \<open>Signatures of external skills\<close>

definition is_external :: "skill_manifest \<Rightarrow> bool" where
  "is_external m = (case m_publisher m of None \<Rightarrow> False | Some p \<Rightarrow> trim p \<noteq> [])"

definition signing_payload :: "skill_ext \<Rightarrow> skill_manifest \<Rightarrow> action_error + string" where
  "signing_payload S m =
     (case manifest_json S (m\<lparr>m_signature := None\<rparr>) of
        Inl e \<Rightarrow> Inl (SignatureInvalid (''signing payload encode: '' @ e))
      | Inr bytes \<Rightarrow> Inr bytes)"

definition load_trusted_skill_keys :: "skill_ext \<Rightarrow> path \<Rightarrow> action_error + (string, string) hashmap" where
  "load_trusted_skill_keys S p =
     (case read_text S p of
        Inl e \<Rightarrow> Inl (SignatureInvalid (''FAMILYCLAW_SKILL_REGISTRY read failed ('' @ p @ ''): '' @ e))
      | Inr raw \<Rightarrow>
          (case keys_parse S raw of
             Inl e \<Rightarrow> Inl (SignatureInvalid (''FAMILYCLAW_SKILL_REGISTRY parse failed ('' @ p @ ''): '' @ e))
           | Inr keys \<Rightarrow> Inr keys))"

definition verify_ed25519_signature ::
  "skill_ext \<Rightarrow> string \<Rightarrow> string \<Rightarrow> string \<Rightarrow> (action_error + unit) outcome" where
  "verify_ed25519_signature S public_key_hex signature_hex message =
     (case decode_hex public_key_hex of
        Killed \<Rightarrow> Killed
      | Done (Inl e) \<Rightarrow> Done (Inl (SignatureInvalid (''trusted public key hex invalid: '' @ e)))
      | Done (Inr pk) \<Rightarrow>
          (case decode_hex signature_hex of
             Killed \<Rightarrow> Killed
           | Done (Inl e) \<Rightarrow> Done (Inl (SignatureInvalid (''signature hex invalid: '' @ e)))
           | Done (Inr sig) \<Rightarrow>
               if length pk \<noteq> 32 then Done (Inl (SignatureInvalid ''public key must be 32 bytes''))
               else if length sig \<noteq> 64 then Done (Inl (SignatureInvalid ''signature must be 64 bytes''))
               else (case key_check S pk of
                       Some e \<Rightarrow> Done (Inl (SignatureInvalid (''invalid Ed25519 public key: '' @ e)))
                     | None \<Rightarrow>
                         if verify_strict S pk message sig then Done (Inr ())
                         else Done (Inl (SignatureInvalid ''Ed25519 signature verification failed'')))))"

definition verify_external_signature :: "skill_ext \<Rightarrow> skill_manifest \<Rightarrow> (action_error + unit) outcome" where
  "verify_external_signature S m =
     (if \<not> is_external m then Done (Inr ())
      else let publisher = the (m_publisher m)
           in case m_signature m of
                None \<Rightarrow> Done (Inl (SignatureInvalid
                  (''external skill '' @ sq @ publisher @ sq @ '' missing signature field'')))
              | Some signature_hex \<Rightarrow>
                  if trim signature_hex = [] then Done (Inl (SignatureInvalid
                    (''external skill '' @ sq @ publisher @ sq @ '' missing signature field'')))
                  else case registry_env S of
                    None \<Rightarrow> Done (Inl (SignatureInvalid
                      (''FAMILYCLAW_SKILL_REGISTRY not set '' @ emdash @ '' cannot verify external skill'')))
                  | Some registry_path \<Rightarrow>
                      (case load_trusted_skill_keys S registry_path of
                         Inl e \<Rightarrow> Done (Inl e)
                       | Inr keys \<Rightarrow>
                           (case hm_get keys publisher of
                              None \<Rightarrow> Done (Inl (SignatureInvalid
                                (''publisher '' @ sq @ publisher @ sq @ '' not in trusted skill registry'')))
                            | Some public_key_hex \<Rightarrow>
                                (case signing_payload S m of
                                   Inl e \<Rightarrow> Done (Inl e)
                                 | Inr payload \<Rightarrow> verify_ed25519_signature S public_key_hex signature_hex payload))))"

subsection \<open>Validation\<close>

definition opt_field :: "string \<Rightarrow> string option \<Rightarrow> (string \<times> string) list" where
  "opt_field name v = (case v of None \<Rightarrow> [] | Some x \<Rightarrow> [(name, x)])"

definition text_fields :: "skill_manifest \<Rightarrow> (string \<times> string) list" where
  "text_fields m =
     [(''name'', m_name m), (''version'', m_version m), (''description'', m_description m)] @
     opt_field ''input_hint'' (m_input_hint m) @ opt_field ''output_hint'' (m_output_hint m) @
     opt_field ''publisher'' (m_publisher m)"

fun first_secret_in_json :: "json \<Rightarrow> string \<Rightarrow> string option"
  and first_secret_member :: "(string \<times> json) list \<Rightarrow> string \<Rightarrow> string option"
  and first_secret_item :: "nat \<Rightarrow> json list \<Rightarrow> string \<Rightarrow> string option" where
  "first_secret_in_json (JStr s) p = (if detect_secret_like s then Some p else None)"
| "first_secret_in_json (JObj kvs) p = first_secret_member kvs p"
| "first_secret_in_json (JArr xs) p = first_secret_item 0 xs p"
| "first_secret_in_json (JNum n) p = None"
| "first_secret_in_json (JBool b) p = None"
| "first_secret_in_json JNull p = None"
| "first_secret_member [] p = None"
| "first_secret_member ((key, child) # kvs) p =
     (if detect_secret_like key then Some (p @ ''.'' @ key @ '' (avain)'')
      else case first_secret_in_json child (p @ ''.'' @ key) of
             Some q \<Rightarrow> Some q
           | None \<Rightarrow> first_secret_member kvs p)"
| "first_secret_item idx [] p = None"
| "first_secret_item idx (child # xs) p =
     (case first_secret_in_json child (p @ ''['' @ show_nat idx @ '']'') of
        Some q \<Rightarrow> Some q
      | None \<Rightarrow> first_secret_item (Suc idx) xs p)"

fun debug_risk :: "action_risk \<Rightarrow> string" where
  "debug_risk ReadOnly = ''ReadOnly''"
| "debug_risk WriteLocal = ''WriteLocal''"
| "debug_risk WriteExternal = ''WriteExternal''"
| "debug_risk Irreversible = ''Irreversible''"
| "debug_risk SpendMoney = ''SpendMoney''"
| "debug_risk SendMessage = ''SendMessage''"
| "debug_risk ExecuteCode = ''ExecuteCode''"

fun debug_permission :: "skill_permission \<Rightarrow> string" where
  "debug_permission PReadFiles = ''ReadFiles''"
| "debug_permission PWriteLocalFiles = ''WriteLocalFiles''"
| "debug_permission PNetworkRead = ''NetworkRead''"
| "debug_permission PSendMessage = ''SendMessage''"
| "debug_permission PExecuteCode = ''ExecuteCode''"
| "debug_permission PSpendMoney = ''SpendMoney''"
| "debug_permission PWriteExternal = ''WriteExternal''"

definition permission_fault :: "action_risk \<Rightarrow> skill_permission \<Rightarrow> action_error option" where
  "permission_fault risk p =
     (if requires_spend_money_risk p \<and> risk \<noteq> SpendMoney then
        Some (ManifestValidation
          (''permission '' @ sq @ ''spend_money'' @ sq @ '' requires risk = spend_money (was '' @ debug_risk risk @
           '') '' @ emdash @ '' spending money must not bypass approval via the wrong risk class''))
      else if forbids_auto_run_risk p \<and> is_auto_runnable_class risk then
        Some (ManifestValidation
          (''permission '' @ debug_permission p @ '' must not be in the auto-runnable risk class '' @
           debug_risk risk @ '' '' @ emdash @ '' it would bypass the required approval''))
      else None)"

fun first_fault :: "('a \<Rightarrow> 'e option) \<Rightarrow> 'a list \<Rightarrow> 'e option" where
  "first_fault f [] = None"
| "first_fault f (x # xs) = (case f x of Some e \<Rightarrow> Some e | None \<Rightarrow> first_fault f xs)"

definition field_fault :: "string \<times> string \<Rightarrow> action_error option" where
  "field_fault fv =
     (if detect_secret_like (snd fv) then
        Some (SecretInManifest (''field '' @ sq @ fst fv @ sq @ '' appears to contain a secret''))
      else None)"

definition is_object :: "json \<Rightarrow> bool" where
  "is_object v = (case v of JObj _ \<Rightarrow> True | _ \<Rightarrow> False)"

definition manifest_validate :: "skill_ext \<Rightarrow> skill_manifest \<Rightarrow> (action_error + unit) outcome" where
  "manifest_validate S m =
     (if is_nil (m_id m) then Done (Inl (ManifestValidation ''skill id missing (nil)''))
      else if trim (m_name m) = [] then Done (Inl (ManifestValidation ''name is empty''))
      else if trim (m_version m) = [] then Done (Inl (ManifestValidation ''version is empty''))
      else if \<not> is_object (m_input_schema m) then
        Done (Inl (ManifestValidation ''input_schema root must be a JSON object''))
      else case first_fault field_fault (text_fields m) of
        Some e \<Rightarrow> Done (Inl e)
      | None \<Rightarrow>
          (case first_secret_in_json (m_input_schema m) ''input_schema'' of
             Some secret_path \<Rightarrow> Done (Inl (SecretInManifest
               (''input_schema path '' @ sq @ secret_path @ sq @ '' appears to contain a secret'')))
           | None \<Rightarrow>
               if PWriteExternal \<in> set (m_permissions m) \<and> \<not> can_require_approval (m_policy m) then
                 Done (Inl (ManifestValidation
                   (''write_external vaatii hyv'' @ ae @ ''ksynt'' @ ae @ ae @ '' edellytt'' @ ae @ ''v'' @ ae @
                    ''n approval_policy-arvon (require_approval tai always_require_approval)'')))
               else (case first_fault (permission_fault (m_risk m)) (m_permissions m) of
                       Some e \<Rightarrow> Done (Inl e)
                     | None \<Rightarrow> verify_external_signature S m)))"

subsection \<open>The registry\<close>

type_synonym registry = "(skill_id, skill_manifest) hashmap"

definition registry_new :: registry where
  "registry_new = []"

definition register ::
  "ext \<Rightarrow> skill_ext \<Rightarrow> registry \<Rightarrow> skill_manifest \<Rightarrow> (action_error + unit) outcome \<times> registry" where
  "register X S r m =
     (case manifest_validate S m of
        Killed \<Rightarrow> (Killed, r)
      | Done (Inl e) \<Rightarrow> (Done (Inl e), r)
      | Done (Inr _) \<Rightarrow>
          if hm_contains r (m_id m) then
            (Done (Inl (ManifestValidation (''skill '' @ show_uuid X (m_id m) @ '' is already registered (duplicate)''))), r)
          else (Done (Inr ()), hm_insert (m_id m) m r))"

definition registry_get :: "registry \<Rightarrow> skill_id \<Rightarrow> skill_manifest option" where
  "registry_get r i = hm_get r i"

definition registry_contains :: "registry \<Rightarrow> skill_id \<Rightarrow> bool" where
  "registry_contains r i = hm_contains r i"

definition registry_list :: "registry \<Rightarrow> skill_manifest list" where
  "registry_list r = hm_values r"

definition registry_len :: "registry \<Rightarrow> nat" where
  "registry_len r = length r"

definition registry_is_empty :: "registry \<Rightarrow> bool" where
  "registry_is_empty r \<longleftrightarrow> r = []"

subsection \<open>What validation and registration guarantee\<close>

lemma first_fault_None: "first_fault f xs = None \<longleftrightarrow> (\<forall>x \<in> set xs. f x = None)"
  by (induction xs) (auto split: option.splits)

text \<open>Every string of a JSON value: texts and member names.\<close>

fun json_texts :: "json \<Rightarrow> string list" where
  "json_texts (JStr s) = [s]"
| "json_texts (JObj kvs) = concat (map (\<lambda>(k, v). k # json_texts v) kvs)"
| "json_texts (JArr xs) = concat (map json_texts xs)"
| "json_texts _ = []"

lemma first_secret_list_all:
  "first_secret_in_json v p = None \<longleftrightarrow> list_all (\<lambda>t. \<not> detect_secret_like t) (json_texts v)"
  "first_secret_member kvs p = None \<longleftrightarrow> list_all (\<lambda>t. \<not> detect_secret_like t) (json_texts (JObj kvs))"
  "first_secret_item n xs p = None \<longleftrightarrow> list_all (\<lambda>t. \<not> detect_secret_like t) (json_texts (JArr xs))"
proof (induction v p and kvs p and n xs p
    rule: first_secret_in_json_first_secret_member_first_secret_item.induct)
  case (8 key child kvs p)
  then show ?case
    by (cases "detect_secret_like key"; cases "first_secret_in_json child (p @ ''.'' @ key)") simp_all
next
  case (10 idx child xs p)
  then show ?case
    by (cases "first_secret_in_json child (p @ ''['' @ show_nat idx @ '']'')") simp_all
qed simp_all

lemma first_secret_None:
  "first_secret_in_json v p = None \<longleftrightarrow> (\<forall>t \<in> set (json_texts v). \<not> detect_secret_like t)"
  by (simp add: first_secret_list_all list_all_iff)

lemma permission_fault_None:
  "permission_fault r p = None \<longleftrightarrow>
     (requires_spend_money_risk p \<longrightarrow> r = SpendMoney) \<and> (forbids_auto_run_risk p \<longrightarrow> \<not> is_auto_runnable_class r)"
  by (auto simp: permission_fault_def)

lemma manifest_valid_iff:
  "manifest_validate S m = Done (Inr ()) \<longleftrightarrow>
     \<not> is_nil (m_id m) \<and> trim (m_name m) \<noteq> [] \<and> trim (m_version m) \<noteq> [] \<and> is_object (m_input_schema m) \<and>
     (\<forall>(f, v) \<in> set (text_fields m). \<not> detect_secret_like v) \<and>
     (\<forall>t \<in> set (json_texts (m_input_schema m)). \<not> detect_secret_like t) \<and>
     (PWriteExternal \<in> set (m_permissions m) \<longrightarrow> can_require_approval (m_policy m)) \<and>
     (\<forall>p \<in> set (m_permissions m). permission_fault (m_risk m) p = None) \<and>
     verify_external_signature S m = Done (Inr ())"
proof -
  have f: "first_fault field_fault (text_fields m) = None \<longleftrightarrow>
      (\<forall>(f, v) \<in> set (text_fields m). \<not> detect_secret_like v)"
    by (auto simp: first_fault_None field_fault_def)
  have j: "first_secret_in_json (m_input_schema m) ''input_schema'' = None \<longleftrightarrow>
      (\<forall>t \<in> set (json_texts (m_input_schema m)). \<not> detect_secret_like t)"
    by (rule first_secret_None)
  show ?thesis
    unfolding f[symmetric] j[symmetric] first_fault_None[symmetric]
    by (simp add: manifest_validate_def split: option.splits)
qed

lemma must_approve_class: "\<not> is_auto_runnable_class r \<Longrightarrow> required_approval r p = MustApprove"
  using auto_run_class[of r] by (metis approval_requirement.exhaust)

lemma verify_success:
  assumes "verify_external_signature S m = Done (Inr ())" "is_external m"
  shows "\<exists>pub sig loc keys pk payload kb sb. m_publisher m = Some pub \<and> m_signature m = Some sig \<and>
    registry_env S = Some loc \<and> load_trusted_skill_keys S loc = Inr keys \<and> hm_get keys pub = Some pk \<and>
    signing_payload S m = Inr payload \<and> decode_hex pk = Done (Inr kb) \<and> decode_hex sig = Done (Inr sb) \<and>
    length kb = 32 \<and> length sb = 64 \<and> verify_strict S kb payload sb"
proof -
  obtain pub where pub: "m_publisher m = Some pub"
    using assms(2) by (auto simp: is_external_def split: option.splits)
  obtain sig w keys pk payload where a: "m_signature m = Some sig" "registry_env S = Some w"
    "load_trusted_skill_keys S w = Inr keys" "hm_get keys pub = Some pk" "signing_payload S m = Inr payload"
    "verify_ed25519_signature S pk sig payload = Done (Inr ())"
    using assms pub by (auto simp: verify_external_signature_def Let_def simp del: map_of_eq_Some_iff
        split: option.splits if_splits sum.splits)
  then show ?thesis using pub
    by (auto simp: verify_ed25519_signature_def simp del: map_of_eq_Some_iff
        split: outcome.splits sum.splits if_splits option.splits)
qed

text \<open>A sequence of registrations on an empty registry, results dropped.\<close>

definition register_all :: "ext \<Rightarrow> skill_ext \<Rightarrow> skill_manifest list \<Rightarrow> registry" where
  "register_all X S ms = foldl (\<lambda>r m. snd (register X S r m)) registry_new ms"

definition registry_ok :: "skill_ext \<Rightarrow> registry \<Rightarrow> bool" where
  "registry_ok S r \<longleftrightarrow> hm_ok r \<and> keyed m_id r \<and>
     (\<forall>i m. hm_get r i = Some m \<longrightarrow> manifest_validate S m = Done (Inr ()))"

lemma registry_ok_new: "registry_ok S registry_new"
  by (simp add: registry_ok_def registry_new_def keyed_def)

lemma registry_ok_register: "registry_ok S r \<Longrightarrow> registry_ok S (snd (register X S r m))"
  by (auto simp: registry_ok_def register_def keyed_insert simp del: map_of_eq_Some_iff
      split: outcome.splits sum.splits)

lemma registry_ok_all: "registry_ok S (register_all X S ms)"
proof -
  have "registry_ok S r \<Longrightarrow> registry_ok S (foldl (\<lambda>r m. snd (register X S r m)) r ms)" for r
    by (induction ms arbitrary: r) (auto intro: registry_ok_register)
  then show ?thesis by (simp add: register_all_def registry_ok_new)
qed

lemma register_keeps:
  "hm_get r i = Some m \<Longrightarrow> hm_get (snd (register X S r m')) i = Some m"
  by (auto simp: register_def hm_contains_def simp del: map_of_eq_Some_iff split: outcome.splits sum.splits)

lemma registered_valid:
  assumes "hm_get (register_all X S ms) i = Some m"
  shows "m_id m = i \<and> manifest_validate S m = Done (Inr ())"
  using registry_ok_all[of S X ms] assms keyed_get unfolding registry_ok_def by metis

lemma decode_pairs_ascii:
  "\<forall>c \<in> set s. (of_char c :: nat) < 128 \<Longrightarrow> decode_pairs i s \<noteq> Killed"
proof (induction i s rule: decode_pairs.induct)
  case (1 i a b r)
  have "\<not> utf8_cont (of_char a)" "r = [] \<or> \<not> utf8_cont (of_char (hd r))"
    using "1.prems" by (cases r; auto simp: utf8_cont_def)+
  with 1 show ?case by (cases "hex_pair a b") (auto split: outcome.splits sum.splits)
qed simp_all

lemma hex_byte_chars: "c \<in> set (hex_byte b) \<Longrightarrow> (of_char c :: nat) < 128 \<and> visible c \<and> radix16 c \<noteq> None"
proof -
  assume c: "c \<in> set (hex_byte b)"
  have "(of_char b :: nat) < 256" by simp
  then have "(of_char b :: nat) div 16 < 16" by linarith
  moreover have "(of_char b :: nat) mod 16 < 16" by simp
  moreover have "(of_char (hex_digit n) :: nat) = (if n < 10 then 48 + n else 87 + n)" if "n < 16" for n
    using that by (simp add: hex_digit_def)
  ultimately show ?thesis using c
    by (auto simp: hex_byte_def visible_def radix16_def Let_def split: if_splits)
qed

lemma radix16_digit: "n < 16 \<Longrightarrow> radix16 (hex_digit n) = Some n"
  by (auto simp: radix16_def hex_digit_def Let_def)

lemma decode_pairs_hex: "decode_pairs i (concat (map hex_byte bs)) = Done (Inr bs)"
proof (induction bs arbitrary: i)
  case (Cons b bs)
  have "(of_char b :: nat) < 256" by simp
  then have n: "(of_char b :: nat) div 16 < 16" by linarith
  have m: "(of_char b :: nat) mod 16 < 16" by simp
  have u: "\<not> utf8_cont (of_char (hex_digit (of_char b div 16)))"
    using hex_byte_chars[of "hex_digit (of_char b div 16)" b] by (simp add: hex_byte_def utf8_cont_def)
  have v: "concat (map hex_byte bs) = [] \<or> \<not> utf8_cont (of_char (hd (concat (map hex_byte bs))))"
  proof (cases bs)
    case (Cons d ds)
    then have "hd (concat (map hex_byte bs)) \<in> set (hex_byte d)" by (simp add: hex_byte_def)
    then have "(of_char (hd (concat (map hex_byte bs))) :: nat) < 128" using hex_byte_chars by blast
    then show ?thesis by (simp add: utf8_cont_def)
  qed simp
  have p: "hex_digit (of_char b div 16) \<noteq> CHR ''+''"
    using hex_byte_chars[of "hex_digit (of_char b div 16)" b] by (auto simp: hex_byte_def radix16_def)
  have "concat (map hex_byte (b # bs)) =
      hex_digit (of_char b div 16) # hex_digit (of_char b mod 16) # concat (map hex_byte bs)"
    by (simp add: hex_byte_def)
  moreover have "char_of (16 * ((of_char b :: nat) div 16) + of_char b mod 16) = b" by simp
  ultimately show ?case using Cons n m u v p by (auto simp add: hex_pair_def radix16_digit)
qed simp

lemma trim_visible: "w \<noteq> [] \<Longrightarrow> visible (hd w) \<Longrightarrow> visible (last w) \<Longrightarrow> trim w = w"
  using trim_keep[of w "[]" "[]"] by auto

lemma strip_0x_hex: "radix16 x = None \<Longrightarrow> strip_0x x (concat (map hex_byte bs)) = concat (map hex_byte bs)"
proof (cases bs)
  case (Cons b r)
  assume x: "radix16 x = None"
  have "hex_digit (of_char b mod 16) \<noteq> x"
    using hex_byte_chars[of "hex_digit (of_char b mod 16)" b] x by (auto simp: hex_byte_def)
  then show ?thesis using Cons by (simp add: hex_byte_def)
qed simp

lemma decode_hex_encode: "decode_hex (concat (map hex_byte bs)) = Done (Inr bs)"
proof (cases "bs = []")
  case True
  then show ?thesis by (simp add: decode_hex_def trim_def trim_start_def trim_end_def trim_start_codes.simps
      trim_end_codes.simps)
next
  case False
  let ?h = "concat (map hex_byte bs)"
  have ne: "?h \<noteq> []" using False by (cases bs) (simp_all add: hex_byte_def)
  have "\<forall>c \<in> set ?h. visible c" using hex_byte_chars by fastforce
  then have "trim ?h = ?h" using ne hd_in_set last_in_set by (intro trim_visible) blast+
  moreover have "even (length ?h)" by (induction bs) (simp_all add: hex_byte_def)
  moreover have "strip_0x CHR ''x'' ?h = ?h" "strip_0x CHR ''X'' ?h = ?h"
    by (rule strip_0x_hex, simp add: radix16_def)+
  ultimately show ?thesis by (simp add: decode_hex_def decode_pairs_hex)
qed

subsection \<open>Sample manifests\<close>

definition sample_manifest :: "skill_permission list \<Rightarrow> action_risk \<Rightarrow> approval_policy \<Rightarrow> skill_manifest" where
  "sample_manifest ps r pol =
     \<lparr>m_id = 7, m_name = ''a'', m_version = ''1'', m_description = ''d'', m_permissions = ps, m_risk = r,
      m_policy = pol, m_input_hint = None, m_output_hint = None, m_input_schema = default_input_schema,
      m_publisher = None, m_signature = None\<rparr>"

definition sample_skill_ext :: skill_ext where
  "sample_skill_ext =
     \<lparr>toml_parse = (\<lambda>_. Inl ''invalid''), json_parse = (\<lambda>_. Inl ''invalid''), manifest_json = (\<lambda>m. Inr (m_name m)),
      registry_env = None, read_text = (\<lambda>_. Inl ''missing''), keys_parse = (\<lambda>_. Inl ''invalid''),
      key_check = (\<lambda>_. None), verify_strict = (\<lambda>_ _ _. False)\<rparr>"

lemma sample_texts_ok:
  "trim ''a'' \<noteq> []" "trim ''1'' \<noteq> []" "\<not> detect_secret_like ''a''" "\<not> detect_secret_like ''1''"
  "\<not> detect_secret_like ''d''" "\<not> detect_secret_like ''type''" "\<not> detect_secret_like ''object''"
  by code_simp+

lemma sample_manifest_valid:
  "manifest_validate S (sample_manifest ps r pol) = Done (Inr ()) \<longleftrightarrow>
     (PWriteExternal \<in> set ps \<longrightarrow> can_require_approval pol) \<and> (\<forall>p \<in> set ps. permission_fault r p = None)"
  unfolding manifest_valid_iff
  by (simp add: sample_manifest_def sample_texts_ok text_fields_def opt_field_def is_nil_def nil_id_def
      is_object_def default_input_schema_def verify_external_signature_def is_external_def)

subsection \<open>Properties\<close>

text \<open>A manifest that validation accepts has an id, a name, a version and an object schema, no
  text of it and no string or member name of its schema looks like a secret, it needs approval when it
  may spend money or write externally, money is declared as money, and when it names a publisher its
  signature verifies under the key the registry trusts for that publisher.\<close>

theorem validated_manifest_sound:
  assumes "manifest_validate S m = Done (Inr ())"
  shows "m_id m \<noteq> 0 \<and> trim (m_name m) \<noteq> [] \<and> trim (m_version m) \<noteq> [] \<and> is_object (m_input_schema m) \<and>
    (\<forall>(f, v) \<in> set (text_fields m). \<not> detect_secret_like v) \<and>
    (\<forall>t \<in> set (json_texts (m_input_schema m)). \<not> detect_secret_like t) \<and>
    (PSpendMoney \<in> set (m_permissions m) \<or> PWriteExternal \<in> set (m_permissions m) \<longrightarrow>
       required_approval (m_risk m) (m_policy m) = MustApprove) \<and>
    (PSpendMoney \<in> set (m_permissions m) \<longrightarrow> m_risk m = SpendMoney) \<and>
    (is_external m \<longrightarrow>
       (\<exists>pub sig loc keys pk payload kb sb. m_publisher m = Some pub \<and> m_signature m = Some sig \<and>
          registry_env S = Some loc \<and> load_trusted_skill_keys S loc = Inr keys \<and> hm_get keys pub = Some pk \<and>
          signing_payload S m = Inr payload \<and> decode_hex pk = Done (Inr kb) \<and> decode_hex sig = Done (Inr sb) \<and>
          length kb = 32 \<and> length sb = 64 \<and> verify_strict S kb payload sb))"
proof -
  note v = assms[unfolded manifest_valid_iff]
  have f: "permission_fault (m_risk m) p = None" if "p \<in> set (m_permissions m)" for p
    using v that by blast
  have money: "PSpendMoney \<in> set (m_permissions m) \<Longrightarrow> m_risk m = SpendMoney"
    using f[of PSpendMoney] by (simp add: permission_fault_None)
  have ext: "PWriteExternal \<in> set (m_permissions m) \<Longrightarrow> \<not> is_auto_runnable_class (m_risk m)"
    using f[of PWriteExternal] by (simp add: permission_fault_None)
  have "required_approval (m_risk m) (m_policy m) = MustApprove"
    if "PSpendMoney \<in> set (m_permissions m) \<or> PWriteExternal \<in> set (m_permissions m)"
    using that money ext by (intro must_approve_class) auto
  then show ?thesis using v money verify_success[of S m] by (simp add: is_nil_def nil_id_def)
qed

theorem validated_manifest_sound_witness:
  "required_approval SpendMoney AutoIfReadOnly = MustApprove \<and>
   m_risk (sample_manifest [PSpendMoney] SpendMoney AutoIfReadOnly) = SpendMoney"
proof -
  let ?m = "sample_manifest [PSpendMoney] SpendMoney AutoIfReadOnly"
  have "manifest_validate sample_skill_ext ?m = Done (Inr ())"
    by (simp add: sample_manifest_valid permission_fault_None)
  from validated_manifest_sound[OF this] show ?thesis by (simp add: sample_manifest_def)
qed

text \<open>Spending money and external writes are the only permissions that force approval: for every
  other permission, message sending and code execution included, some accepted manifest that
  declares it runs without approval.\<close>

theorem permissions_forcing_approval:
  "(\<forall>S m. manifest_validate S m = Done (Inr ()) \<and> p \<in> set (m_permissions m) \<longrightarrow>
      required_approval (m_risk m) (m_policy m) = MustApprove) \<longleftrightarrow>
   p = PSpendMoney \<or> p = PWriteExternal"
proof
  assume all: "\<forall>S m. manifest_validate S m = Done (Inr ()) \<and> p \<in> set (m_permissions m) \<longrightarrow>
      required_approval (m_risk m) (m_policy m) = MustApprove"
  show "p = PSpendMoney \<or> p = PWriteExternal"
  proof (rule ccontr)
    let ?m = "sample_manifest [p] ReadOnly AutoIfReadOnly"
    assume "\<not> (p = PSpendMoney \<or> p = PWriteExternal)"
    then have "manifest_validate sample_skill_ext ?m = Done (Inr ())"
      by (cases p) (simp_all add: sample_manifest_valid permission_fault_None)
    moreover have "p \<in> set (m_permissions ?m)" by (simp add: sample_manifest_def)
    ultimately have "required_approval (m_risk ?m) (m_policy ?m) = MustApprove" using all by blast
    then show False by (simp add: sample_manifest_def required_approval_def)
  qed
next
  assume "p = PSpendMoney \<or> p = PWriteExternal"
  then have "\<not> is_auto_runnable_class (m_risk m)"
    if "manifest_validate S m = Done (Inr ())" "p \<in> set (m_permissions m)" for S m
    using that by (auto simp: manifest_valid_iff permission_fault_None)
  then show "\<forall>S m. manifest_validate S m = Done (Inr ()) \<and> p \<in> set (m_permissions m) \<longrightarrow>
      required_approval (m_risk m) (m_policy m) = MustApprove" by (auto intro: must_approve_class)
qed

theorem permissions_forcing_approval_witness:
  "\<exists>S m. manifest_validate S m = Done (Inr ()) \<and> PExecuteCode \<in> set (m_permissions m) \<and>
     required_approval (m_risk m) (m_policy m) \<noteq> MustApprove"
  using permissions_forcing_approval[of PExecuteCode] by auto

text \<open>Whatever manifests are registered in whatever order, every registered skill stands under its
  own id and passed validation, and a registration never replaces one.\<close>

theorem registry_holds_valid_manifests:
  "(hm_get (register_all X S ms) i = Some m \<longrightarrow> m_id m = i \<and> manifest_validate S m = Done (Inr ())) \<and>
   (hm_get r i = Some m \<longrightarrow> hm_get (snd (register X S r m')) i = Some m)"
  using registered_valid register_keeps by blast

theorem registry_holds_valid_manifests_witness:
  "manifest_validate sample_skill_ext (sample_manifest [] ReadOnly AutoIfReadOnly) = Done (Inr ())"
proof -
  let ?m = "sample_manifest [] ReadOnly AutoIfReadOnly"
  have "hm_get (register_all sample_ext sample_skill_ext [?m]) 7 = Some ?m"
    using sample_manifest_valid[of sample_skill_ext "[]" ReadOnly AutoIfReadOnly]
    by (simp add: register_all_def register_def registry_new_def hm_contains_def sample_manifest_def)
  with registry_holds_valid_manifests[of sample_ext sample_skill_ext "[?m]" 7 ?m] show ?thesis by blast
qed

text \<open>The hexadecimal text of any bytes decodes to them, no ASCII text makes the decoder panic,
  and a two-byte character at an odd position makes it, and with it the check of an external
  manifest's signature, panic.\<close>

theorem decode_hex_behaviour:
  "decode_hex (concat (map hex_byte bs)) = Done (Inr bs) \<and>
   ((\<forall>c \<in> set s. (of_char c :: nat) < 128) \<longrightarrow> decode_hex s \<noteq> Killed) \<and>
   (decode_hex pk = Done (Inr kb) \<longrightarrow>
      verify_ed25519_signature S pk [CHR ''a'', CHR 0xC3, CHR 0xA9, CHR ''a''] msg = Killed)"
proof (intro conjI impI)
  assume a: "\<forall>c \<in> set s. (of_char c :: nat) < 128"
  let ?t = "strip_0x CHR ''X'' (strip_0x CHR ''x'' (trim s))"
  have strip: "set (strip_0x x t) \<subseteq> set t" for x t
    by (induction x t rule: strip_0x.induct) auto
  have "set ?t \<subseteq> set s" using strip trim_subset by (meson subset_trans)
  then have "decode_pairs 0 ?t \<noteq> Killed" using a by (intro decode_pairs_ascii) blast
  then show "decode_hex s \<noteq> Killed" by (simp add: decode_hex_def Let_def)
next
  assume "decode_hex pk = Done (Inr kb)"
  moreover have "decode_hex [CHR ''a'', CHR 0xC3, CHR 0xA9, CHR ''a''] = Killed" by code_simp
  ultimately show "verify_ed25519_signature S pk [CHR ''a'', CHR 0xC3, CHR 0xA9, CHR ''a''] msg = Killed"
    by (simp add: verify_ed25519_signature_def)
qed (rule decode_hex_encode)

theorem decode_hex_behaviour_witness:
  "decode_hex ''+f'' \<noteq> Killed \<and>
   verify_ed25519_signature sample_skill_ext ''00'' [CHR ''a'', CHR 0xC3, CHR 0xA9, CHR ''a''] ''m'' = Killed"
proof -
  have "decode_hex ''00'' = Done (Inr [CHR 0x00])" by code_simp
  with decode_hex_behaviour[of "[]" "''+f''" "''00''" "[CHR 0x00]"] show ?thesis by auto
qed

end
