(* ===== verification/Redaction.thy ===== *)
theory Redaction
  imports Manifest "HOL-Library.List_Lexorder" "HOL-Library.Char_ord"
begin

section \<open>Executions, redaction and proof bundles\<close>

text \<open>
  Models \<^verbatim>\<open>crates/familyclaw-actions/src/executor.rs\<close> and \<^verbatim>\<open>proof.rs\<close>: requests and results of
  an execution, the monotone taint, the redactors of JSON values and of free text, and the assembly
  of a proof bundle.
\<close>

subsection \<open>Requests and results (executor.rs)\<close>

datatype action_status = Succeeded | FailedAction  \<comment> \<open>the source's second is Failed\<close>

definition is_success :: "action_status \<Rightarrow> bool" where
  "is_success s \<longleftrightarrow> s = Succeeded"

record action_request =
  rq_action :: action_id
  rq_skill :: skill_id
  rq_task :: task_id
  rq_payload :: json
  rq_now :: timestamp
  rq_untrusted :: bool

definition request_new :: "action_id \<Rightarrow> skill_id \<Rightarrow> task_id \<Rightarrow> json \<Rightarrow> timestamp \<Rightarrow> action_request" where
  "request_new a s t payload now =
     \<lparr>rq_action = a, rq_skill = s, rq_task = t, rq_payload = payload, rq_now = now, rq_untrusted = False\<rparr>"

definition with_input_taint :: "bool \<Rightarrow> action_request \<Rightarrow> action_request" where
  "with_input_taint b r = r\<lparr>rq_untrusted := b\<rparr>"

record action_result =
  rs_status :: action_status
  rs_summary :: string
  rs_untrusted :: bool
  rs_output :: json
  rs_finished :: timestamp

definition result_success :: "string \<Rightarrow> json \<Rightarrow> timestamp \<Rightarrow> action_result" where
  "result_success summary output at =
     \<lparr>rs_status = Succeeded, rs_summary = summary, rs_untrusted = True, rs_output = output, rs_finished = at\<rparr>"

definition result_failure :: "string \<Rightarrow> timestamp \<Rightarrow> action_result" where
  "result_failure summary at =
     \<lparr>rs_status = FailedAction, rs_summary = summary, rs_untrusted = True, rs_output = JNull, rs_finished = at\<rparr>"

definition result_trusted :: "action_result \<Rightarrow> action_result" where
  "result_trusted r = r\<lparr>rs_untrusted := False\<rparr>"

definition propagate_input_taint :: "bool \<Rightarrow> action_result \<Rightarrow> action_result" where
  "propagate_input_taint input_untrusted r = (if input_untrusted then r\<lparr>rs_untrusted := True\<rparr> else r)"

text \<open>
  An executor: its effect on the world, and an error, a result, or the death of the process while it
  runs.
\<close>

type_synonym 'w executor = "action_request \<Rightarrow> 'w \<Rightarrow> (action_error + action_result) outcome \<times> 'w"

record mock_executor =
  mk_status :: action_status
  mk_output :: json
  mk_summary :: string
  mk_untrusted :: bool

definition mock_succeeding :: "json \<Rightarrow> mock_executor" where
  "mock_succeeding output =
     \<lparr>mk_status = Succeeded, mk_output = output, mk_summary = ''mock action succeeded'', mk_untrusted = True\<rparr>"

definition mock_failing :: "string \<Rightarrow> mock_executor" where
  "mock_failing summary =
     \<lparr>mk_status = FailedAction, mk_output = JNull, mk_summary = summary, mk_untrusted = True\<rparr>"

definition mock_trusted :: "mock_executor \<Rightarrow> mock_executor" where
  "mock_trusted m = m\<lparr>mk_untrusted := False\<rparr>"

definition mock_execute :: "mock_executor \<Rightarrow> 'w executor" where
  "mock_execute m r w =
     (Done (Inr (case mk_status m of
        Succeeded \<Rightarrow> \<lparr>rs_status = Succeeded, rs_summary = mk_summary m, rs_untrusted = mk_untrusted m,
          rs_output = mk_output m, rs_finished = rq_now r\<rparr>
      | FailedAction \<Rightarrow> \<lparr>rs_status = FailedAction, rs_summary = mk_summary m, rs_untrusted = mk_untrusted m,
          rs_output = JNull, rs_finished = rq_now r\<rparr>)), w)"

subsection \<open>Patterns of secrets (proof.rs)\<close>

definition REDACTED :: string where
  "REDACTED = ''[REDACTED]''"

definition SECRET_KEY_NAMES :: "string list" where
  "SECRET_KEY_NAMES = [''api_key'', ''apikey'', ''secret'', ''password'', ''token'', ''authorization'']"

record redaction_report =
  rr_count :: nat
  rr_patterns :: "string list"

definition report_default :: redaction_report where
  "report_default = \<lparr>rr_count = 0, rr_patterns = []\<rparr>"

definition any_redacted :: "redaction_report \<Rightarrow> bool" where
  "any_redacted r \<longleftrightarrow> 0 < rr_count r"

definition bump :: "string \<Rightarrow> redaction_report \<Rightarrow> redaction_report" where
  "bump pattern r = r\<lparr>rr_count := rr_count r + 1, rr_patterns := rr_patterns r @ [pattern]\<rparr>"

definition is_bearer :: "string \<Rightarrow> bool" where
  "is_bearer t = (case strip_prefix ''Bearer '' t of None \<Rightarrow> False | Some rest \<Rightarrow> trim rest \<noteq> [])"

definition is_sk_key :: "string \<Rightarrow> bool" where
  "is_sk_key t = (case strip_prefix ''sk-'' t of None \<Rightarrow> False
     | Some rest \<Rightarrow> 8 \<le> length (takeWhile is_alnum rest))"

definition is_aws_key :: "string \<Rightarrow> bool" where
  "is_aws_key t = (case strip_prefix ''AKIA'' t of None \<Rightarrow> False
     | Some rest \<Rightarrow> 12 \<le> length (takeWhile (\<lambda>c. is_upper c \<or> is_digit c) rest))"

definition b64_special :: "char \<Rightarrow> bool" where
  "b64_special c \<longleftrightarrow> c = CHR ''+'' \<or> c = CHR ''/'' \<or> c = CHR ''=''"

definition match_secret_pattern :: "string \<Rightarrow> string option" where
  "match_secret_pattern value =
     (let t = trim value
      in if is_bearer t then Some ''bearer''
         else if is_sk_key t then Some ''sk-key''
         else if is_aws_key t then Some ''aws-access-key''
         else if 32 \<le> length t \<and> list_all is_hexdigit t then Some ''long-hex''
         else if 24 \<le> length t \<and> list_ex b64_special t \<and> list_all (\<lambda>c. is_alnum c \<or> b64_special c) t then
           Some ''base64-blob''
         else None)"

definition is_secret_key_name :: "string \<Rightarrow> bool" where
  "is_secret_key_name key \<longleftrightarrow> to_lower key \<in> set SECRET_KEY_NAMES"

subsection \<open>Free text\<close>

text \<open>The length of the word before the first white space.\<close>

fun word_length :: "string \<Rightarrow> nat" where
  "word_length [] = 0"
| "word_length (c # s) = (if ws_prefix (map of_char (c # s)) = 0 then Suc (word_length s) else 0)"

lemma word_length_le: "word_length s \<le> length s"
  by (induction s) auto

function redact_bearer_substrings :: "string \<Rightarrow> redaction_report \<Rightarrow> string \<times> redaction_report" where
  "redact_bearer_substrings rest report =
     (case str_find ''Bearer '' rest of
        None \<Rightarrow> (rest, report)
      | Some pos \<Rightarrow>
          let after = drop (pos + 7) rest;
              token_len = word_length after
          in if token_len = 0 then
               (case redact_bearer_substrings after report of
                  (out, r) \<Rightarrow> (take (pos + 7) rest @ out, r))
             else
               (case redact_bearer_substrings (drop token_len after) (bump ''bearer'' report) of
                  (out, r) \<Rightarrow> (take (pos + 7) rest @ REDACTED @ out, r)))"
  by pat_completeness auto

lemma str_find_bound: "str_find p s = Some i \<Longrightarrow> i + length p \<le> length s"
proof (induction p s arbitrary: i rule: str_find.induct)
  case (2 p c s)
  then show ?case
    by (auto simp: starts_with_def split: if_splits) (metis length_Cons length_take min.bounded_iff order_refl)
qed (auto split: if_splits)

lemma str_find_char: "str_find p s = Some i \<Longrightarrow> c \<in> set p \<Longrightarrow> c \<in> set s"
proof (induction p s arbitrary: i rule: str_find.induct)
  case (2 p d s)
  then show ?case
    by (auto simp: starts_with_def split: if_splits) (metis in_set_takeD set_ConsD)
qed (auto split: if_splits)

termination redact_bearer_substrings
  by (relation "measure (\<lambda>(s, _). length s)") (auto dest!: str_find_bound)

declare redact_bearer_substrings.simps [simp del]

text \<open>
  \<^verbatim>\<open>split_inclusive(char::is_whitespace)\<close>: the words, each with the white-space character after it.
\<close>

function words_of :: "string \<Rightarrow> (string \<times> string) list" where
  "words_of s =
     (if s = [] then []
      else let w = take (word_length s) s;
               r = drop (word_length s) s;
               n = ws_prefix (map of_char r)
           in (w, take n r) # words_of (drop n r))"
  by pat_completeness auto

lemma word_end: "word_length s < length s \<Longrightarrow> ws_prefix (map of_char (drop (word_length s) s)) \<noteq> 0"
  by (induction s) (auto split: if_splits)

termination words_of
proof (relation "measure length", simp, goal_cases)
  case (1 s w r n)
  then show ?case using word_end[of s] word_length_le[of s]
    by (cases "word_length s = length s") auto
qed

declare words_of.simps [simp del]

definition redact_keyed_token :: "string \<Rightarrow> redaction_report \<Rightarrow> (string \<times> redaction_report) option" where
  "redact_keyed_token word report =
     (let n = length (takeWhile (\<lambda>c. c \<noteq> CHR ''='' \<and> c \<noteq> CHR '':'') word)
      in if n = length word then None
         else let key = trim (take n word)
              in if key = [] \<or> \<not> is_secret_key_name key then None
                 else if trim (drop (n + 1) word) = [] then None
                 else Some (key @ [word ! n] @ REDACTED, bump (''secret-key:'' @ to_lower key) report))"

definition redact_word :: "string \<Rightarrow> redaction_report \<Rightarrow> string \<times> redaction_report" where
  "redact_word w report =
     (case redact_keyed_token w report of
        Some res \<Rightarrow> res
      | None \<Rightarrow> (case match_secret_pattern w of
                  Some pattern \<Rightarrow> (REDACTED, bump pattern report)
                | None \<Rightarrow> (w, report)))"

fun redact_words :: "(string \<times> string) list \<Rightarrow> redaction_report \<Rightarrow> string \<times> redaction_report" where
  "redact_words [] report = ([], report)"
| "redact_words ((w, trailing) # ws) report =
     (case redact_word w report of
        (w', r1) \<Rightarrow> (case redact_words ws r1 of (out, r2) \<Rightarrow> (w' @ trailing @ out, r2)))"

definition redact_text :: "string \<Rightarrow> redaction_report \<Rightarrow> string \<times> redaction_report" where
  "redact_text text report =
     (case redact_bearer_substrings text report of
        (bearer_redacted, r) \<Rightarrow> redact_words (words_of bearer_redacted) r)"

definition seal :: "redaction_report \<Rightarrow> redaction_report" where
  "seal r = r\<lparr>rr_patterns := remdups_adj (sort (rr_patterns r))\<rparr>"

definition redact_free_text :: "string \<Rightarrow> string \<times> redaction_report" where
  "redact_free_text text = (case redact_text text report_default of (out, r) \<Rightarrow> (out, seal r))"

subsection \<open>JSON values\<close>

text \<open>
  \<open>redact_leaf\<close> is what \<^verbatim>\<open>redact_inner\<close> does to a string, \<open>redact_leaf_deep\<close> what
  \<^verbatim>\<open>redact_inner_deep\<close> does; the recursion over arrays and objects is the same in both.
\<close>

definition redact_leaf :: "string option \<Rightarrow> string \<Rightarrow> redaction_report \<Rightarrow> string \<times> redaction_report" where
  "redact_leaf parent_key s report =
     (case (case parent_key of
              Some key \<Rightarrow> if is_secret_key_name key \<and> s \<noteq> [] then Some key else None
            | None \<Rightarrow> None) of
        Some key \<Rightarrow> (REDACTED, bump (''secret-key:'' @ to_lower key) report)
      | None \<Rightarrow> (case match_secret_pattern s of
                  Some pattern \<Rightarrow> (REDACTED, bump pattern report)
                | None \<Rightarrow> (s, report)))"

definition redact_leaf_deep :: "string option \<Rightarrow> string \<Rightarrow> redaction_report \<Rightarrow> string \<times> redaction_report" where
  "redact_leaf_deep parent_key s report =
     (case (case parent_key of
              Some key \<Rightarrow> if is_secret_key_name key \<and> s \<noteq> [] then Some key else None
            | None \<Rightarrow> None) of
        Some key \<Rightarrow> (REDACTED, bump (''secret-key:'' @ to_lower key) report)
      | None \<Rightarrow> (case match_secret_pattern s of
                  Some pattern \<Rightarrow> (REDACTED, bump pattern report)
                | None \<Rightarrow> redact_text s report))"

type_synonym leaf_redactor = "string option \<Rightarrow> string \<Rightarrow> redaction_report \<Rightarrow> string \<times> redaction_report"

fun redact_tree :: "leaf_redactor \<Rightarrow> json \<Rightarrow> string option \<Rightarrow> redaction_report \<Rightarrow> json \<times> redaction_report"
  and redact_items :: "leaf_redactor \<Rightarrow> json list \<Rightarrow> redaction_report \<Rightarrow> json list \<times> redaction_report"
  and redact_members ::
    "leaf_redactor \<Rightarrow> (string \<times> json) list \<Rightarrow> redaction_report \<Rightarrow> (string \<times> json) list \<times> redaction_report" where
  "redact_tree leaf (JStr s) parent_key report =
     (case leaf parent_key s report of (s', r) \<Rightarrow> (JStr s', r))"
| "redact_tree leaf (JArr items) parent_key report =
     (case redact_items leaf items report of (items', r) \<Rightarrow> (JArr items', r))"
| "redact_tree leaf (JObj kvs) parent_key report =
     (case redact_members leaf kvs report of (kvs', r) \<Rightarrow> (JObj kvs', r))"
| "redact_tree leaf (JNum n) parent_key report = (JNum n, report)"
| "redact_tree leaf (JBool b) parent_key report = (JBool b, report)"
| "redact_tree leaf JNull parent_key report = (JNull, report)"
| "redact_items leaf [] report = ([], report)"
| "redact_items leaf (x # xs) report =
     (case redact_tree leaf x None report of
        (x', r1) \<Rightarrow> (case redact_items leaf xs r1 of (xs', r2) \<Rightarrow> (x' # xs', r2)))"
| "redact_members leaf [] report = ([], report)"
| "redact_members leaf ((k, v) # kvs) report =
     (case redact_tree leaf v (Some k) report of
        (v', r1) \<Rightarrow> (case redact_members leaf kvs r1 of (kvs', r2) \<Rightarrow> ((k, v') # kvs', r2)))"

definition redact_inner :: "json \<Rightarrow> string option \<Rightarrow> redaction_report \<Rightarrow> json \<times> redaction_report" where
  "redact_inner = redact_tree redact_leaf"

definition redact_inner_deep :: "json \<Rightarrow> string option \<Rightarrow> redaction_report \<Rightarrow> json \<times> redaction_report" where
  "redact_inner_deep = redact_tree redact_leaf_deep"

definition redact_value :: "json \<Rightarrow> json \<times> redaction_report" where
  "redact_value v = (case redact_inner v None report_default of (out, r) \<Rightarrow> (out, seal r))"

definition redact_value_deep :: "json \<Rightarrow> json \<times> redaction_report" where
  "redact_value_deep v = (case redact_inner_deep v None report_default of (out, r) \<Rightarrow> (out, seal r))"

subsection \<open>Proof bundles\<close>

definition value_sha256_hex :: "ext \<Rightarrow> json \<Rightarrow> action_error + string" where
  "value_sha256_hex X v =
     (case json_bytes X v of
        Inl m \<Rightarrow> Inl (Proof (''input serialize failed: '' @ m))
      | Inr bytes \<Rightarrow> Inr (concat (map hex_byte (sha256 X bytes))))"

record verification =
  vr_verified :: bool
  vr_checks :: "string list"
  vr_notes :: string

definition verification_passed :: "string list \<Rightarrow> string \<Rightarrow> verification" where
  "verification_passed checks notes = \<lparr>vr_verified = True, vr_checks = checks, vr_notes = notes\<rparr>"

definition verification_failed :: "string list \<Rightarrow> string \<Rightarrow> verification" where
  "verification_failed checks notes = \<lparr>vr_verified = False, vr_checks = checks, vr_notes = notes\<rparr>"

record proof_bundle =
  pb_id :: proof_id
  pb_task :: task_id
  pb_skill :: skill_id
  pb_action :: action_id
  pb_status :: action_status
  pb_started :: timestamp
  pb_finished :: timestamp
  pb_input_hash :: string
  pb_summary :: string
  pb_output :: json
  pb_untrusted :: bool
  pb_audit :: "event_id list"
  pb_verification :: verification
  pb_redaction :: redaction_report

fun redact_all :: "string list \<Rightarrow> redaction_report \<Rightarrow> string list \<times> redaction_report" where
  "redact_all [] report = ([], report)"
| "redact_all (c # cs) report =
     (case redact_text c report of (c', r1) \<Rightarrow> (case redact_all cs r1 of (cs', r2) \<Rightarrow> (c' # cs', r2)))"

definition build_proof ::
  "ext \<Rightarrow> proof_id \<Rightarrow> action_request \<Rightarrow> action_result \<Rightarrow> event_id list \<Rightarrow> verification \<Rightarrow> action_error + proof_bundle" where
  "build_proof X fresh request result audit_event_ids v =
     (case value_sha256_hex X (rq_payload request) of
        Inl e \<Rightarrow> Inl e
      | Inr input_hash \<Rightarrow>
          (let input_report = snd (redact_value (rq_payload request));
               redacted_output = fst (redact_value (rs_output result));
               output_report = snd (redact_value (rs_output result));
               combined = \<lparr>rr_count = rr_count input_report + rr_count output_report,
                           rr_patterns = rr_patterns input_report @ rr_patterns output_report\<rparr>
           in case redact_text (rs_summary result) combined of (output_summary, r1) \<Rightarrow>
              case redact_all (vr_checks v) r1 of (checks, r2) \<Rightarrow>
              case redact_text (vr_notes v) r2 of (notes, r3) \<Rightarrow>
                Inr \<lparr>pb_id = fresh, pb_task = rq_task request, pb_skill = rq_skill request,
                     pb_action = rq_action request, pb_status = rs_status result, pb_started = rq_now request,
                     pb_finished = rs_finished result, pb_input_hash = input_hash, pb_summary = output_summary,
                     pb_output = redacted_output, pb_untrusted = rs_untrusted result,
                     pb_audit = audit_event_ids,
                     pb_verification = \<lparr>vr_verified = vr_verified v, vr_checks = checks, vr_notes = notes\<rparr>,
                     pb_redaction = seal r3\<rparr>))"

subsection \<open>What the JSON redactor does\<close>

fun json_leaves :: "json \<Rightarrow> string option \<Rightarrow> (string option \<times> string) list" where
  "json_leaves (JStr s) k = [(k, s)]"
| "json_leaves (JArr xs) k = concat (map (\<lambda>x. json_leaves x None) xs)"
| "json_leaves (JObj kvs) k = concat (map (\<lambda>(key, v). json_leaves v (Some key)) kvs)"
| "json_leaves _ k = []"

fun map_leaves :: "(string option \<Rightarrow> string \<Rightarrow> string) \<Rightarrow> json \<Rightarrow> string option \<Rightarrow> json" where
  "map_leaves f (JStr s) k = JStr (f k s)"
| "map_leaves f (JArr xs) k = JArr (map (\<lambda>x. map_leaves f x None) xs)"
| "map_leaves f (JObj kvs) k = JObj (map (\<lambda>(key, v). (key, map_leaves f v (Some key))) kvs)"
| "map_leaves f (JNum n) k = JNum n"
| "map_leaves f (JBool b) k = JBool b"
| "map_leaves f JNull k = JNull"

lemma json_leaves_map: "json_leaves (map_leaves f v k) k = map (\<lambda>(k, s). (k, f k s)) (json_leaves v k)"
  by (induction f v k rule: map_leaves.induct) (auto simp: map_concat comp_def split_beta intro!: arg_cong[of _ _ concat])

lemma map_leaves_comp: "map_leaves f (map_leaves g v k) k = map_leaves (\<lambda>k s. f k (g k s)) v k"
  by (induction g v k rule: map_leaves.induct) auto

lemma map_leaves_cong:
  "(\<And>k s. f k s = g k s) \<Longrightarrow> map_leaves f v k = map_leaves g v k"
  by (metis ext)

text \<open>The recursion applies the leaf redactor to every string, and adds up what the leaves count.\<close>

definition leaf_count :: "(string option \<Rightarrow> string \<Rightarrow> nat) \<Rightarrow> (string option \<times> string) list \<Rightarrow> nat" where
  "leaf_count n ls = sum_list (map (\<lambda>(k, s). n k s) ls)"

definition leaf_spec ::
  "leaf_redactor \<Rightarrow> (string option \<Rightarrow> string \<Rightarrow> string) \<Rightarrow> (string option \<Rightarrow> string \<Rightarrow> nat) \<Rightarrow> bool" where
  "leaf_spec leaf f n \<longleftrightarrow>
     (\<forall>k s r. fst (leaf k s r) = f k s \<and> rr_count (snd (leaf k s r)) = rr_count r + n k s)"

definition tree_spec ::
  "leaf_redactor \<Rightarrow> (string option \<Rightarrow> string \<Rightarrow> string) \<Rightarrow> (string option \<Rightarrow> string \<Rightarrow> nat) \<Rightarrow>
   json \<Rightarrow> string option \<Rightarrow> bool" where
  "tree_spec leaf f n v k \<longleftrightarrow>
     (\<forall>r. fst (redact_tree leaf v k r) = map_leaves f v k \<and>
        rr_count (snd (redact_tree leaf v k r)) = rr_count r + leaf_count n (json_leaves v k))"

lemma leaf_count_simps [simp]:
  "leaf_count n [] = 0" "leaf_count n ((k, s) # ls) = n k s + leaf_count n ls"
  "leaf_count n (as @ bs) = leaf_count n as + leaf_count n bs"
  by (simp_all add: leaf_count_def)

lemma redact_items_spec:
  "(\<And>x. x \<in> set xs \<Longrightarrow> tree_spec leaf f n x None) \<Longrightarrow>
     fst (redact_items leaf xs r) = map (\<lambda>x. map_leaves f x None) xs \<and>
     rr_count (snd (redact_items leaf xs r)) =
       rr_count r + leaf_count n (concat (map (\<lambda>x. json_leaves x None) xs))"
  by (induction xs arbitrary: r) (auto simp: tree_spec_def split_beta)

lemma redact_members_spec:
  "(\<And>k v. (k, v) \<in> set kvs \<Longrightarrow> tree_spec leaf f n v (Some k)) \<Longrightarrow>
     fst (redact_members leaf kvs r) = map (\<lambda>(key, v). (key, map_leaves f v (Some key))) kvs \<and>
     rr_count (snd (redact_members leaf kvs r)) =
       rr_count r + leaf_count n (concat (map (\<lambda>(key, v). json_leaves v (Some key)) kvs))"
proof (induction kvs arbitrary: r)
  case (Cons kv kvs)
  obtain k v where kv: "kv = (k, v)" by (rule prod.exhaust)
  obtain v' r1 where t: "redact_tree leaf v (Some k) r = (v', r1)" by (rule prod.exhaust)
  obtain kvs' r2 where m: "redact_members leaf kvs r1 = (kvs', r2)" by (rule prod.exhaust)
  have "tree_spec leaf f n v (Some k)" using Cons.prems kv by simp
  then have "v' = map_leaves f v (Some k)"
    "rr_count r1 = rr_count r + leaf_count n (json_leaves v (Some k))"
    using t by (auto simp: tree_spec_def dest!: spec[of _ r])
  moreover have "kvs' = map (\<lambda>(key, v). (key, map_leaves f v (Some key))) kvs"
    "rr_count r2 = rr_count r1 + leaf_count n (concat (map (\<lambda>(key, v). json_leaves v (Some key)) kvs))"
    using Cons.IH[of r1] Cons.prems m by auto
  ultimately show ?case using t m by (simp add: kv)
qed simp

lemma redact_tree_spec: "leaf_spec leaf f n \<Longrightarrow> tree_spec leaf f n v k"
proof (induction v arbitrary: k)
  case (JStr s)
  then show ?case by (simp add: tree_spec_def leaf_spec_def split_beta)
next
  case (JArr xs)
  then show ?case using redact_items_spec[of xs leaf f n] by (simp add: tree_spec_def split_beta)
next
  case (JObj kvs)
  have "tree_spec leaf f n v (Some key)" if "(key, v) \<in> set kvs" for key v
    using JObj that by (metis snds.intros snd_conv)
  then show ?case using redact_members_spec[of kvs leaf f n] by (simp add: tree_spec_def split_beta)
qed (simp_all add: tree_spec_def)

definition secret_leaf :: "string option \<Rightarrow> string \<Rightarrow> bool" where
  "secret_leaf k s \<longleftrightarrow>
     (case k of Some key \<Rightarrow> is_secret_key_name key \<and> s \<noteq> [] | None \<Rightarrow> False) \<or> match_secret_pattern s \<noteq> None"

definition leaf_out :: "string option \<Rightarrow> string \<Rightarrow> string" where
  "leaf_out k s = (if secret_leaf k s then REDACTED else s)"

lemma redact_leaf_spec: "leaf_spec redact_leaf leaf_out (\<lambda>k s. if secret_leaf k s then 1 else 0)"
  by (auto simp: leaf_spec_def redact_leaf_def leaf_out_def secret_leaf_def bump_def split: option.splits)

lemma redact_value_spec:
  "fst (redact_value v) = map_leaves leaf_out v None"
  "rr_count (snd (redact_value v)) = length (filter (\<lambda>(k, s). secret_leaf k s) (json_leaves v None))"
proof -
  have "leaf_count (\<lambda>k s. if secret_leaf k s then 1 else 0) ls = length (filter (\<lambda>(k, s). secret_leaf k s) ls)" for ls
    by (induction ls) auto
  then show "fst (redact_value v) = map_leaves leaf_out v None"
    "rr_count (snd (redact_value v)) = length (filter (\<lambda>(k, s). secret_leaf k s) (json_leaves v None))"
    using redact_tree_spec[OF redact_leaf_spec, of v None]
    by (simp_all add: redact_value_def redact_inner_def tree_spec_def split_beta report_default_def seal_def)
qed

lemma match_redacted: "match_secret_pattern REDACTED = None"
  by code_simp

lemma leaf_out_clean:
  "leaf_out k s = REDACTED \<or>
     match_secret_pattern (leaf_out k s) = None \<and> (\<forall>key. k = Some key \<and> is_secret_key_name key \<longrightarrow> leaf_out k s = [])"
  by (auto simp: leaf_out_def secret_leaf_def)

lemma leaf_out_idem: "leaf_out k (leaf_out k s) = leaf_out k s"
  by (simp add: leaf_out_def)

subsection \<open>What the text redactor does\<close>

text \<open>
  A byte that continues no UTF-8 character ends the look-ahead of the white-space test, so the words
  before it can be found without looking further.
\<close>

lemma ws_prefix_lookahead:
  assumes "xs \<noteq> []" "\<not> utf8_cont c"
  shows "ws_prefix (xs @ c # r) = ws_prefix xs"
proof -
  have c: "c \<noteq> 0x85" "c \<noteq> 0xA0" "c \<noteq> 0x9A" "c \<noteq> 0x80" "c \<noteq> 0x81" "c \<noteq> 0xA8" "c \<noteq> 0xA9"
      "c \<noteq> 0xAF" "c \<noteq> 0x9F" "\<not> (0x80 \<le> c \<and> c \<le> 0x8A)"
    using assms(2) by (auto simp: utf8_cont_def)
  consider a where "xs = [a]" | a b where "xs = [a, b]" | a b d ys where "xs = a # b # d # ys"
    using assms(1) by (metis list.exhaust)
  then show ?thesis
  proof cases
    case 1
    then show ?thesis using c by (cases r) simp_all
  next
    case 2
    then show ?thesis using c by simp
  qed simp
qed

lemma ws_prefix_take: "ws_prefix xs = n \<Longrightarrow> 0 < n \<Longrightarrow> ws_prefix (take n xs @ ys) = n"
proof -
  assume n: "ws_prefix xs = n" "0 < n"
  consider "xs = []" | a where "xs = [a]" | a b where "xs = [a, b]" | a b d zs where "xs = a # b # d # zs"
    by (metis list.exhaust)
  then show ?thesis using n by cases (auto split: if_splits)
qed

lemma ws_prefix_mono: "ws_prefix (xs @ ys) = 0 \<Longrightarrow> ws_prefix xs = 0"
  using ws_prefix_take[of xs "ws_prefix xs" "drop (ws_prefix xs) xs @ ys"]
  by (metis append.assoc append_take_drop_id neq0_conv)

lemma ws_prefix_head:
  "ws_prefix (x # xs) \<noteq> 0 \<Longrightarrow> \<not> utf8_cont x"
  by (auto simp: utf8_cont_def split: list.splits if_splits)

lemma ws_prefix_length: "ws_prefix xs \<le> length xs"
  by (cases xs) (auto split: list.splits)

definition ws_free :: "string \<Rightarrow> bool" where
  "ws_free w \<longleftrightarrow> word_length w = length w"

lemma ws_free_Cons: "ws_free (c # w) \<longleftrightarrow> ws_prefix (map of_char (c # w)) = 0 \<and> ws_free w"
  by (auto simp: ws_free_def)

lemma ws_free_prefix: "ws_free (u @ v) \<Longrightarrow> ws_free u"
proof (induction u)
  case Nil
  then show ?case by (simp add: ws_free_def)
next
  case (Cons c u)
  then have "ws_prefix (map of_char (c # u) @ map of_char v) = 0" and "ws_free (u @ v)"
    unfolding append_Cons ws_free_Cons by simp_all
  with ws_prefix_mono[of "map of_char (c # u)" "map of_char v"] Cons.IH show ?case
    unfolding ws_free_Cons by simp
qed

lemma ws_free_join:
  "ws_free u \<Longrightarrow> \<not> utf8_cont (of_char c) \<Longrightarrow> ws_free (c # v) \<Longrightarrow> ws_free (u @ c # v)"
proof (induction u)
  case (Cons d u)
  then have "ws_prefix (map of_char (d # u)) = 0" and u: "ws_free (u @ c # v)"
    unfolding ws_free_Cons by simp_all
  with ws_prefix_lookahead[of "map of_char (d # u)" "of_char c" "map of_char v"] Cons.prems(2)
  have "ws_prefix (map of_char (d # u @ c # v)) = 0" by (simp del: ws_prefix.simps)
  with u show ?case unfolding append_Cons ws_free_Cons by simp
qed simp

lemma ws_free_visible: "\<forall>c \<in> set w. visible c \<Longrightarrow> ws_free w"
proof (induction w)
  case (Cons c w)
  then have "ws_prefix (map of_char (c # w)) = 0"
    by (auto simp: visible_def split: list.splits)
  with Cons show ?case unfolding ws_free_Cons by simp
qed (simp add: ws_free_def)

text \<open>The words of a text that starts with a word and its white space.\<close>

definition ws_char :: "string \<Rightarrow> bool" where
  "ws_char t \<longleftrightarrow> t \<noteq> [] \<and> ws_prefix (map of_char t) = length t"

lemma word_length_join:
  assumes "ws_free w" "ws_char t"
  shows "word_length (w @ t @ r) = length w"
proof -
  obtain x t' where t: "t = x # t'" using assms(2) by (cases t) (auto simp: ws_char_def)
  have ne: "ws_prefix (map of_char (x # t')) \<noteq> 0"
    using assms(2) t by (simp add: ws_char_def del: ws_prefix.simps)
  then have x: "\<not> utf8_cont (of_char x)" using ws_prefix_head by (simp del: ws_prefix.simps)
  show ?thesis using assms(1)
  proof (induction w)
    case Nil
    have "ws_prefix (map of_char (t @ r)) \<noteq> 0"
      using ws_prefix_mono[of "map of_char t" "map of_char r"] ne t by (auto simp del: ws_prefix.simps)
    then show ?case by (simp add: t del: ws_prefix.simps)
  next
    case (Cons c w)
    then have "ws_prefix (map of_char (c # w)) = 0" "ws_free w" unfolding ws_free_Cons by simp_all
    with ws_prefix_lookahead[of "map of_char (c # w)" "of_char x" "map of_char (t' @ r)"] x
    have "ws_prefix (map of_char (c # w @ t @ r)) = 0" by (simp add: t del: ws_prefix.simps)
    with Cons.IH[OF \<open>ws_free w\<close>] show ?case by (simp del: ws_prefix.simps)
  qed
qed

lemma ws_char_length: "ws_char t \<Longrightarrow> ws_prefix (map of_char (t @ r)) = length t"
  using ws_prefix_take[of "map of_char t" "length t" "map of_char r"]
  by (simp add: ws_char_def del: ws_prefix.simps)

lemma words_of_Nil [simp]: "words_of [] = []"
  by (simp add: words_of.simps)

lemma words_of_join: "ws_free w \<Longrightarrow> ws_char t \<Longrightarrow> words_of (w @ t @ r) = (w, t) # words_of r"
  using word_length_join[of w t r] ws_char_length[of t r]
  by (subst words_of.simps) (auto simp: ws_char_def)

lemma words_of_word: "ws_free w \<Longrightarrow> w \<noteq> [] \<Longrightarrow> words_of w = [(w, [])]"
  by (subst words_of.simps) (simp add: ws_free_def)

text \<open>The shape of a list of words: all end with a white-space character but, perhaps, the last.\<close>

fun word_list :: "(string \<times> string) list \<Rightarrow> bool" where
  "word_list [] = True"
| "word_list ((w, t) # ws) \<longleftrightarrow> ws_free w \<and> (ws_char t \<and> word_list ws \<or> t = [] \<and> ws = [] \<and> w \<noteq> [])"

definition unwords :: "(string \<times> string) list \<Rightarrow> string" where
  "unwords ws = concat (map (\<lambda>(w, t). w @ t) ws)"

lemma words_of_unwords: "word_list ws \<Longrightarrow> words_of (unwords ws) = ws"
  by (induction ws rule: word_list.induct) (auto simp: unwords_def words_of_join words_of_word)

lemma word_length_take: "ws_free (take (word_length s) s)"
proof (induction s)
  case Nil
  then show ?case by (simp add: ws_free_def)
next
  case (Cons c s)
  show ?case
  proof (cases "ws_prefix (map of_char (c # s)) = 0")
    case True
    have "map of_char (c # s) =
        map of_char (c # take (word_length s) s) @ map of_char (drop (word_length s) s)"
      by (simp flip: map_append)
    with True have "ws_prefix (map of_char (c # take (word_length s) s)) = 0"
      using ws_prefix_mono by (metis list.distinct(1) list.simps(9))
    with True Cons show ?thesis by (simp only: word_length.simps if_True take_Suc_Cons ws_free_Cons simp_thms)
  qed (simp add: ws_free_def)
qed

lemma words_of_list: "word_list (words_of s)"
proof (induction s rule: words_of.induct)
  case (1 s)
  show ?case
  proof (cases "s = []")
    case False
    let ?r = "drop (word_length s) s" and ?w = "take (word_length s) s"
    let ?n = "ws_prefix (map of_char ?r)"
    have w: "words_of s = (?w, take ?n ?r) # words_of (drop ?n ?r)"
      using False by (subst words_of.simps) (simp add: Let_def)
    have IH: "word_list (words_of (drop ?n ?r))" by (rule 1[OF False refl refl refl])
    show ?thesis
    proof (cases "?r = []")
      case True
      then show ?thesis using w False word_length_take[of s] by simp
    next
      case False
      then have n: "?n \<noteq> 0" using word_end[of s] by simp
      have "ws_prefix (map of_char (take ?n ?r)) = ?n"
        using ws_prefix_take[of "map of_char ?r" ?n "[]"] n by (simp add: take_map)
      moreover have "?n \<le> length ?r" using ws_prefix_length[of "map of_char ?r"] by simp
      ultimately have "ws_char (take ?n ?r)" using n False by (auto simp: ws_char_def)
      then show ?thesis using w word_length_take[of s] IH by simp
    qed
  qed simp
qed

subsection \<open>Words after redaction\<close>

definition is_sep :: "char \<Rightarrow> bool" where
  "is_sep c \<longleftrightarrow> c = CHR ''='' \<or> c = CHR '':''"

text \<open>A word the redactor recognizes no secret in, or a secret name with its value replaced.\<close>

definition clean_word :: "string \<Rightarrow> bool" where
  "clean_word w \<longleftrightarrow> match_secret_pattern w = None \<and>
     ((\<forall>r. redact_keyed_token w r = None) \<or>
      (\<exists>key sep. is_secret_key_name key \<and> is_sep sep \<and> w = key @ sep # REDACTED))"

lemma key_name_char:
  assumes "is_secret_key_name key" "c \<in> set key"
  shows "visible c \<and> (is_alpha c \<or> c = CHR ''_'')"
proof -
  have "to_lower key \<in> set SECRET_KEY_NAMES" using assms(1) by (simp add: is_secret_key_name_def)
  moreover have "\<forall>n \<in> set SECRET_KEY_NAMES. \<forall>d \<in> set n. is_lower d \<or> d = CHR ''_''"
    by (simp add: SECRET_KEY_NAMES_def is_lower_def)
  moreover have "to_lower_char c \<in> set (to_lower key)" using assms(2) by (simp add: to_lower_def)
  ultimately have "is_lower (to_lower_char c) \<or> to_lower_char c = CHR ''_''" by blast
  then have "is_alpha c \<or> c = CHR ''_''"
    by (auto simp: to_lower_char_def is_alpha_def split: if_splits)
  moreover from this have "visible c"
    by (auto simp: visible_def is_alpha_def is_upper_def is_lower_def)
  ultimately show ?thesis by blast
qed

lemma key_name_start:
  assumes "is_secret_key_name key"
  shows "take 3 (to_lower key) \<in> {''api'', ''sec'', ''pas'', ''tok'', ''aut''} \<and> key \<noteq> []"
  using assms by (auto simp: is_secret_key_name_def SECRET_KEY_NAMES_def to_lower_def)

lemma redacted_visible: "c \<in> set REDACTED \<Longrightarrow> visible c"
  by (auto simp: REDACTED_def visible_def)

lemma keyed_word_visible:
  "is_secret_key_name key \<Longrightarrow> is_sep sep \<Longrightarrow> \<forall>c \<in> set (key @ sep # REDACTED). visible c"
  using key_name_char redacted_visible by (auto simp: is_sep_def visible_def)

lemma keyed_word_unmatched:
  assumes key: "is_secret_key_name key" and sep: "is_sep sep"
  shows "match_secret_pattern (key @ sep # REDACTED) = None"
proof -
  let ?w = "key @ sep # REDACTED"
  note vis = keyed_word_visible[OF assms]
  have start: "take 3 (to_lower ?w) \<in> {''api'', ''sec'', ''pas'', ''tok'', ''aut''}"
  proof -
    have "3 \<le> length (to_lower key)"
      using key by (auto simp: is_secret_key_name_def SECRET_KEY_NAMES_def)
    then show ?thesis using key_name_start[OF key] by (simp add: to_lower_def)
  qed
  have "?w \<noteq> []" by simp
  then have t: "trim ?w = ?w" using vis hd_in_set[of ?w] last_in_set[of ?w] by (intro trim_visible) blast+
  have pre: "strip_prefix p ?w = None" if "take 3 (to_lower p) \<notin> {''api'', ''sec'', ''pas'', ''tok'', ''aut''}" "3 \<le> length p"
    for p
  proof (rule ccontr)
    assume "strip_prefix p ?w \<noteq> None"
    then obtain r where "?w = p @ r" using strip_prefix_iff by blast
    then have "take 3 (to_lower ?w) = take 3 (to_lower p)" using that(2) by (simp add: to_lower_def)
    with start that(1) show False by simp
  qed
  have "take 3 (to_lower ''Bearer '') = ''bea''" "take 3 (to_lower ''sk-'') = ''sk-''"
    "take 3 (to_lower ''AKIA'') = ''aki''" by code_simp+
  then have "\<not> is_bearer ?w" "\<not> is_sk_key ?w" "\<not> is_aws_key ?w"
    using pre[of "''Bearer ''"] pre[of "''sk-''"] pre[of "''AKIA''"]
    by (simp_all add: is_bearer_def is_sk_key_def is_aws_key_def)
  moreover have "CHR ''['' \<in> set ?w" by (simp add: REDACTED_def)
  then have "\<not> list_all is_hexdigit ?w" "\<not> list_all (\<lambda>c. is_alnum c \<or> b64_special c) ?w"
    by (auto simp: list_all_iff is_hexdigit_def is_digit_def is_alnum_def is_alpha_def is_upper_def is_lower_def
        b64_special_def REDACTED_def)
  ultimately show ?thesis unfolding match_secret_pattern_def t Let_def
    by (simp only: simp_thms if_False)
qed

lemma redact_keyed_cases:
  assumes "redact_keyed_token w r = Some (w', r')"
  obtains key sep where "is_secret_key_name key" "is_sep sep" "w' = key @ sep # REDACTED"
proof -
  let ?n = "length (takeWhile (\<lambda>c. c \<noteq> CHR ''='' \<and> c \<noteq> CHR '':'') w)"
  have a: "?n \<noteq> length w" "is_secret_key_name (trim (take ?n w))" "w' = trim (take ?n w) @ [w ! ?n] @ REDACTED"
    using assms by (auto simp: redact_keyed_token_def Let_def split: if_splits)
  have "?n < length w" using a(1) length_takeWhile_le[of _ w] by (metis nat_less_le)
  then have "is_sep (w ! ?n)" using nth_length_takeWhile[of _ w] by (auto simp: is_sep_def)
  with a that show ?thesis by simp
qed

lemma redact_keyed_report: "redact_keyed_token w r = None \<longleftrightarrow> redact_keyed_token w r' = None"
  by (simp add: redact_keyed_token_def Let_def)

lemma redacted_clean: "clean_word REDACTED"
  unfolding clean_word_def using match_redacted by (simp add: redact_keyed_token_def REDACTED_def)

lemma redact_word_clean:
  assumes "redact_word w r = (w', r')" "ws_free w"
  shows "clean_word w' \<and> ws_free w' \<and> (w \<noteq> [] \<longrightarrow> w' \<noteq> [])"
proof (cases "redact_keyed_token w r")
  case (Some res)
  with assms(1) have "redact_keyed_token w r = Some (w', r')" by (simp add: redact_word_def)
  then obtain key sep where k: "is_secret_key_name key" "is_sep sep" "w' = key @ sep # REDACTED"
    by (rule redact_keyed_cases)
  have "match_secret_pattern w' = None" unfolding k(3) by (rule keyed_word_unmatched[OF k(1,2)])
  with k have "clean_word w'" unfolding clean_word_def by blast
  then show ?thesis using ws_free_visible[OF keyed_word_visible[OF k(1,2)]] k(3) by simp
next
  case None
  show ?thesis
  proof (cases "match_secret_pattern w")
    case N: None
    then have "w' = w" using assms(1) None by (simp add: redact_word_def)
    moreover have "clean_word w" using N None redact_keyed_report by (auto simp: clean_word_def)
    ultimately show ?thesis using assms(2) by simp
  next
    case (Some p)
    then have "w' = REDACTED" using assms(1) None by (simp add: redact_word_def)
    then show ?thesis using redacted_clean ws_free_visible[of REDACTED] redacted_visible
      by (auto simp: REDACTED_def)
  qed
qed

lemma redact_words_clean:
  assumes "word_list ws" "redact_words ws r = (out, r')"
  shows "\<exists>ws'. out = unwords ws' \<and> word_list ws' \<and> map snd ws' = map snd ws \<and> (\<forall>(w, t) \<in> set ws'. clean_word w)"
  using assms
proof (induction ws r arbitrary: out r' rule: redact_words.induct)
  case (1 r)
  then show ?case by (intro exI[of _ "[]"]) (simp add: unwords_def)
next
  case (2 w t ws r)
  obtain w' r1 where w': "redact_word w r = (w', r1)" by (rule prod.exhaust)
  obtain o2 r2 where o2: "redact_words ws r1 = (o2, r2)" by (rule prod.exhaust)
  have wl: "word_list ws" and wf: "ws_free w" using "2.prems"(1) by auto
  from "2.IH"[OF w'[symmetric] wl o2] obtain ws' where ws': "o2 = unwords ws'" "word_list ws'"
    "map snd ws' = map snd ws" "\<forall>(w, t) \<in> set ws'. clean_word w" by blast
  note c = redact_word_clean[OF w' wf]
  have "word_list ((w', t) # ws')"
    using "2.prems"(1) c ws'(2,3) by auto
  moreover have "out = unwords ((w', t) # ws')" using "2.prems"(2) w' o2 ws'(1) by (simp add: unwords_def)
  ultimately show ?case using c ws'(3,4) by (intro exI[of _ "(w', t) # ws'"]) auto
qed

lemma redact_text_words:
  "(w, t) \<in> set (words_of (fst (redact_text s r))) \<Longrightarrow> clean_word w"
proof -
  assume m: "(w, t) \<in> set (words_of (fst (redact_text s r)))"
  obtain b r1 where b: "redact_bearer_substrings s r = (b, r1)" by (rule prod.exhaust)
  obtain out r2 where out: "redact_words (words_of b) r1 = (out, r2)" by (rule prod.exhaust)
  from redact_words_clean[OF words_of_list out] obtain ws' where
    ws': "out = unwords ws'" "word_list ws'" "\<forall>(w, t) \<in> set ws'. clean_word w" by blast
  then have "words_of (fst (redact_text s r)) = ws'"
    using b out words_of_unwords[OF ws'(2)] by (simp add: redact_text_def)
  with m ws'(3) show ?thesis by auto
qed

lemma redact_all_words: "c \<in> set (fst (redact_all cs r)) \<Longrightarrow> \<exists>d r'. c = fst (redact_text d r')"
proof (induction cs r rule: redact_all.induct)
  case (2 c1 cs r)
  obtain c' r1 where a: "redact_text c1 r = (c', r1)" by (rule prod.exhaust)
  obtain cs' r2 where b: "redact_all cs r1 = (cs', r2)" by (rule prod.exhaust)
  show ?case
  proof (cases "c = c'")
    case True
    then show ?thesis using a by (metis fst_conv)
  next
    case False
    then show ?thesis using "2.prems" "2.IH"[OF a[symmetric]] a b by auto
  qed
qed simp

lemma seal_count [simp]: "rr_count (seal r) = rr_count r"
  by (simp add: seal_def)

lemma seal_patterns: "set (rr_patterns (seal r)) = set (rr_patterns r) \<and> sorted (rr_patterns (seal r))"
  by (simp add: seal_def sorted_remdups_adj)

lemma quoted_word:
  assumes "list_all is_alnum k"
  defines "q \<equiv> CHR 0x22 # ''sk-'' @ k @ [CHR 0x22]"
  shows "words_of q = [(q, [])]" "trim q = q" "redact_text q r = (q, r)"
proof -
  have vis: "\<forall>c \<in> set q. visible c"
    using assms(1) by (auto simp: q_def visible_def list_all_iff is_alnum_def is_alpha_def is_upper_def
        is_lower_def is_digit_def)
  have ne: "q \<noteq> []" by (simp add: q_def)
  show w: "words_of q = [(q, [])]" by (rule words_of_word[OF ws_free_visible[OF vis] ne])
  show t: "trim q = q" using vis ne hd_in_set[of q] last_in_set[of q] by (intro trim_visible) blast+
  have sep: "takeWhile (\<lambda>c. c \<noteq> CHR ''='' \<and> c \<noteq> CHR '':'') q = q"
    using assms(1) by (auto simp: q_def takeWhile_eq_all_conv list_all_iff is_alnum_def is_alpha_def is_upper_def
        is_lower_def is_digit_def)
  have keyed: "redact_keyed_token q r = None" for r by (simp add: redact_keyed_token_def sep)
  have "\<not> list_all is_hexdigit q" "\<not> list_all (\<lambda>c. is_alnum c \<or> b64_special c) q"
    by (simp_all add: q_def is_hexdigit_def is_digit_def is_alnum_def is_alpha_def is_upper_def is_lower_def
        b64_special_def)
  moreover have "\<not> is_bearer q" "\<not> is_sk_key q" "\<not> is_aws_key q"
    by (simp_all add: q_def is_bearer_def is_sk_key_def is_aws_key_def)
  ultimately have m: "match_secret_pattern q = None" by (simp add: match_secret_pattern_def t)
  have "str_find ''Bearer '' q = None"
  proof (rule ccontr)
    assume "str_find ''Bearer '' q \<noteq> None"
    then obtain i where "str_find ''Bearer '' q = Some i" by blast
    then have "CHR '' '' \<in> set q" by (rule str_find_char) simp
    with vis show False by (auto simp: visible_def)
  qed
  then have "redact_bearer_substrings q r = (q, r)" for r by (subst redact_bearer_substrings.simps) simp
  then show "redact_text q r = (q, r)" by (simp add: redact_text_def w redact_word_def keyed m)
qed

lemma build_proof_total:
  "json_bytes X (rq_payload rq) = Inr bytes \<Longrightarrow> \<exists>b. build_proof X fresh rq rs ids v = Inr b"
  by (simp add: build_proof_def value_sha256_hex_def Let_def split_beta)

lemma proof_bundle_parts:
  assumes "build_proof X fresh rq rs ids v = Inr b"
  shows "pb_task b = rq_task rq \<and> pb_status b = rs_status rs \<and> pb_untrusted b = rs_untrusted rs \<and> pb_audit b = ids"
  using assms by (auto simp: build_proof_def Let_def split: sum.splits prod.splits)

definition sample_request :: action_request where
  "sample_request = request_new 4 7 5 (JObj [(''token'', JStr ''hunter2'')]) 10"

definition sample_result :: action_result where
  "sample_result = result_success ''leaked sk-livelive99 here'' (JArr [JStr ''Bearer abc'']) 11"

subsection \<open>Properties\<close>

text \<open>The redacted copy of a JSON value has the same shape; a string is replaced exactly when it
  stands under a secret name or looks like a secret as a whole, and the report counts exactly those
  strings; what is left is not a secret and not under a secret name, and redacting again changes
  nothing.\<close>

theorem redact_value_exact:
  "fst (redact_value v) = map_leaves leaf_out v None \<and>
   rr_count (snd (redact_value v)) = length (filter (\<lambda>(k, s). secret_leaf k s) (json_leaves v None)) \<and>
   (\<forall>(k, s) \<in> set (json_leaves (fst (redact_value v)) None).
      s = REDACTED \<or> match_secret_pattern s = None \<and> \<not> (\<exists>key. k = Some key \<and> is_secret_key_name key \<and> s \<noteq> [])) \<and>
   fst (redact_value (fst (redact_value v))) = fst (redact_value v)"
proof -
  have "s = REDACTED \<or> match_secret_pattern s = None \<and> \<not> (\<exists>key. k = Some key \<and> is_secret_key_name key \<and> s \<noteq> [])"
    if "(k, s) \<in> set (json_leaves (fst (redact_value v)) None)" for k s
    using that leaf_out_clean unfolding redact_value_spec json_leaves_map by fastforce
  then show ?thesis
    by (auto simp: redact_value_spec map_leaves_comp leaf_out_idem)
qed

theorem redact_value_exact_witness:
  "fst (redact_value (JObj [(''Token'', JStr ''hunter2''), (''n'', JStr ''plain'')])) =
     JObj [(''Token'', JStr REDACTED), (''n'', JStr ''plain'')]"
proof -
  have "leaf_out (Some ''Token'') ''hunter2'' = REDACTED" "leaf_out (Some ''n'') ''plain'' = ''plain''"
    by code_simp+
  with redact_value_exact[of "JObj [(''Token'', JStr ''hunter2''), (''n'', JStr ''plain'')]"] show ?thesis
    by simp
qed

text \<open>A value under a secret name that is not a string is left as it is: a number, a truth value
  and an array of texts that look harmless come out unchanged, and the report counts nothing.\<close>

theorem non_string_secrets_kept:
  assumes "is_secret_key_name key" "\<forall>t \<in> set ts. match_secret_pattern t = None"
  shows "redact_value (JObj [(key, JNum n)]) = (JObj [(key, JNum n)], report_default) \<and>
    redact_value (JObj [(key, JBool b)]) = (JObj [(key, JBool b)], report_default) \<and>
    redact_value (JObj [(key, JArr (map JStr ts))]) = (JObj [(key, JArr (map JStr ts))], report_default)"
proof -
  have "redact_items redact_leaf (map JStr ts) r = (map JStr ts, r)" for r
    using assms(2) by (induction ts) (auto simp: redact_leaf_def)
  then show ?thesis by (simp add: redact_value_def redact_inner_def seal_def report_default_def)
qed

theorem non_string_secrets_kept_witness:
  "redact_value (JObj [(''password'', JArr [JStr ''hunter2''])]) =
     (JObj [(''password'', JArr [JStr ''hunter2''])], report_default)"
proof -
  have "is_secret_key_name ''password''" "\<forall>t \<in> set [''hunter2'']. match_secret_pattern t = None"
    by code_simp+
  from non_string_secrets_kept[OF this] show ?thesis by simp
qed

text \<open>No word of a redacted text is a secret to the redactor: it matches no secret pattern, and
  it is not a secret name with a value, unless that value is the mark of redaction.\<close>

theorem redacted_text_words_clean:
  assumes "(w, t) \<in> set (words_of (fst (redact_text s r)))"
  shows "match_secret_pattern w = None \<and>
    ((\<forall>r. redact_keyed_token w r = None) \<or>
     (\<exists>key sep. is_secret_key_name key \<and> is_sep sep \<and> w = key @ sep # REDACTED))"
  using redact_text_words[OF assms] by (simp add: clean_word_def)

theorem redacted_text_words_clean_witness:
  "match_secret_pattern ''password=[REDACTED]'' = None"
proof -
  have "(''password=[REDACTED]'', []) \<in> set (words_of (fst (redact_text ''x password=hunter2'' report_default)))"
    by code_simp
  from redacted_text_words_clean[OF this] show ?thesis by blast
qed

text \<open>The word redactor misses what the manifest check finds: a quoted \<^verbatim>\<open>sk-\<close> key of any length
  stays in the text, uncounted, although \<^verbatim>\<open>detect_secret_like\<close> recognizes it.\<close>

theorem quoted_key_survives_redaction:
  assumes "8 \<le> length k" "list_all is_alnum k"
  shows "redact_text (CHR 0x22 # ''sk-'' @ k @ [CHR 0x22]) r = (CHR 0x22 # ''sk-'' @ k @ [CHR 0x22], r) \<and>
    detect_secret_like (CHR 0x22 # ''sk-'' @ k @ [CHR 0x22])"
proof -
  have "list_all is_token_char k" using assms(2) by (simp add: list_all_iff is_token_char_def)
  then have "has_sk_prefix ([CHR 0x22] @ (''sk-'' @ k) @ [CHR 0x22])"
    by (intro has_sk_prefix_embedded assms(1))
      (simp_all add: is_token_char_def is_alnum_def is_alpha_def is_upper_def is_lower_def is_digit_def)
  then show ?thesis using quoted_word[OF assms(2)] by (simp add: detect_secret_like_def)
qed

theorem quoted_key_survives_redaction_witness:
  "fst (redact_text [CHR 0x22, CHR ''s'', CHR ''k'', CHR ''-'', CHR ''a'', CHR ''b'', CHR ''c'', CHR ''d'', CHR ''1'',
     CHR ''2'', CHR ''3'', CHR ''4'', CHR 0x22] report_default) =
   [CHR 0x22, CHR ''s'', CHR ''k'', CHR ''-'', CHR ''a'', CHR ''b'', CHR ''c'', CHR ''d'', CHR ''1'',
     CHR ''2'', CHR ''3'', CHR ''4'', CHR 0x22]"
  using quoted_key_survives_redaction[of "''abcd1234''" report_default]
  by (simp add: is_alnum_def is_alpha_def is_lower_def is_digit_def)

text \<open>C29: a proof bundle holds the hash of the payload and not the payload, its texts are redacted
  texts, its output is the redacted output, and it keeps the identities, the times and the taint of
  the execution.\<close>

theorem proof_bundle_redacted:
  assumes "build_proof X fresh rq rs ids v = Inr b"
  shows "(\<exists>bytes. json_bytes X (rq_payload rq) = Inr bytes \<and> pb_input_hash b = concat (map hex_byte (sha256 X bytes))) \<and>
    pb_output b = fst (redact_value (rs_output rs)) \<and> pb_untrusted b = rs_untrusted rs \<and>
    pb_id b = fresh \<and> pb_task b = rq_task rq \<and> pb_skill b = rq_skill rq \<and> pb_action b = rq_action rq \<and>
    pb_status b = rs_status rs \<and> pb_started b = rq_now rq \<and> pb_finished b = rs_finished rs \<and> pb_audit b = ids \<and>
    (\<forall>x \<in> set (pb_summary b # vr_notes (pb_verification b) # vr_checks (pb_verification b)).
       \<forall>(w, t) \<in> set (words_of x). clean_word w) \<and>
    sorted (rr_patterns (pb_redaction b))"
proof -
  obtain hash where hash: "value_sha256_hex X (rq_payload rq) = Inr hash"
    using assms by (auto simp: build_proof_def split: sum.splits)
  let ?c = "\<lparr>rr_count = rr_count (snd (redact_value (rq_payload rq))) + rr_count (snd (redact_value (rs_output rs))),
     rr_patterns = rr_patterns (snd (redact_value (rq_payload rq))) @ rr_patterns (snd (redact_value (rs_output rs)))\<rparr>"
  obtain sm r1 where sm: "redact_text (rs_summary rs) ?c = (sm, r1)" by (rule prod.exhaust)
  obtain cs r2 where cs: "redact_all (vr_checks v) r1 = (cs, r2)" by (rule prod.exhaust)
  obtain nt r3 where nt: "redact_text (vr_notes v) r2 = (nt, r3)" by (rule prod.exhaust)
  have b: "b = \<lparr>pb_id = fresh, pb_task = rq_task rq, pb_skill = rq_skill rq, pb_action = rq_action rq,
      pb_status = rs_status rs, pb_started = rq_now rq, pb_finished = rs_finished rs, pb_input_hash = hash,
      pb_summary = sm, pb_output = fst (redact_value (rs_output rs)), pb_untrusted = rs_untrusted rs,
      pb_audit = ids, pb_verification = \<lparr>vr_verified = vr_verified v, vr_checks = cs, vr_notes = nt\<rparr>,
      pb_redaction = seal r3\<rparr>"
    using assms hash sm cs nt by (simp add: build_proof_def)
  have "\<exists>d r. x = fst (redact_text d r)" if x: "x \<in> set (sm # nt # cs)" for x
  proof -
    consider "x = sm" | "x = nt" | "x \<in> set cs" using x by auto
    then show ?thesis
    proof cases
      case 1
      then show ?thesis using sm by (metis fst_conv)
    next
      case 2
      then show ?thesis using nt by (metis fst_conv)
    next
      case 3
      then show ?thesis using cs redact_all_words[of x "vr_checks v" r1] by simp
    qed
  qed
  then have "clean_word w" if "x \<in> set (sm # nt # cs)" "(w, t) \<in> set (words_of x)" for x w t
    using redact_text_words that by blast
  moreover obtain bytes where "json_bytes X (rq_payload rq) = Inr bytes" "hash = concat (map hex_byte (sha256 X bytes))"
    using hash by (auto simp: value_sha256_hex_def split: sum.splits)
  ultimately show ?thesis using seal_patterns[of r3] unfolding b by auto
qed

theorem proof_bundle_redacted_witness:
  "\<exists>b. build_proof sample_ext 9 sample_request sample_result [1, 2] (verification_passed [] ''ok'') = Inr b \<and>
     pb_task b = 5 \<and> pb_untrusted b"
proof -
  obtain bytes where "json_bytes sample_ext (rq_payload sample_request) = Inr bytes"
    by (simp add: sample_ext_def sample_request_def request_new_def)
  then obtain b where b: "build_proof sample_ext 9 sample_request sample_result [1, 2] (verification_passed [] ''ok'') = Inr b"
    using build_proof_total by blast
  with proof_bundle_redacted[OF b] show ?thesis
    by (auto simp: sample_request_def request_new_def sample_result_def result_success_def)
qed

end
