(* ===== verification/Effects.thy ===== *)
theory Effects
  imports Redaction
begin

section \<open>Handlers as state transformers\<close>

text \<open>
  A handler of the runtime changes a state and ends with an error, a value, or the death of the
  process (or a panic). \<open>andthen\<close> is the code's \<^verbatim>\<open>?\<close>: an error or a death ends the handler
  with the state reached so far.
\<close>

type_synonym ('s, 'a) act = "'s \<Rightarrow> (action_error + 'a) outcome \<times> 's"

definition ret :: "'a \<Rightarrow> ('s, 'a) act" where
  "ret x s = (Done (Inr x), s)"

definition throw :: "action_error \<Rightarrow> ('s, 'a) act" where
  "throw e s = (Done (Inl e), s)"

definition andthen :: "('s, 'a) act \<Rightarrow> ('a \<Rightarrow> ('s, 'b) act) \<Rightarrow> ('s, 'b) act" where
  "andthen m f s =
     (case m s of
        (Done (Inr x), s') \<Rightarrow> f x s'
      | (Done (Inl e), s') \<Rightarrow> (Done (Inl e), s')
      | (Killed, s') \<Rightarrow> (Killed, s'))"

definition of_result :: "action_error + 'a \<Rightarrow> ('s, 'a) act" where
  "of_result r s = (Done r, s)"

definition of_option :: "action_error \<Rightarrow> 'a option \<Rightarrow> ('s, 'a) act" where
  "of_option e x = (case x of None \<Rightarrow> throw e | Some y \<Rightarrow> ret y)"

definition reading :: "('s \<Rightarrow> action_error + 'a) \<Rightarrow> ('s, 'a) act" where
  "reading f s = (Done (f s), s)"

definition change :: "('s \<Rightarrow> 's) \<Rightarrow> ('s, unit) act" where
  "change f s = (Done (Inr ()), f s)"

lemmas act_defs = ret_def throw_def of_result_def of_option_def reading_def change_def

lemma andthen_cases:
  assumes "andthen m f s = (r, s')"
  obtains x s1 where "m s = (Done (Inr x), s1)" "f x s1 = (r, s')"
  | e where "m s = (Done (Inl e), s')" "r = Done (Inl e)"
  | "m s = (Killed, s')" "r = Killed"
  using assms by (auto simp: andthen_def split: prod.splits outcome.splits sum.splits)

lemma andthen_ok:
  "m s = (Done (Inr x), s1) \<Longrightarrow> andthen m f s = f x s1"
  by (simp add: andthen_def)

lemma andthen_stop:
  "m s = (r, s') \<Longrightarrow> (\<forall>x. r \<noteq> Done (Inr x)) \<Longrightarrow>
     snd (andthen m f s) = s' \<and> (\<forall>x. fst (andthen m f s) \<noteq> Done (Inr x))"
  by (auto simp: andthen_def split: outcome.splits sum.splits)

text \<open>A relation between the states before and after that every step keeps.\<close>

definition preserves :: "('s \<Rightarrow> 's \<Rightarrow> bool) \<Rightarrow> ('s, 'a) act \<Rightarrow> bool" where
  "preserves R m \<longleftrightarrow> (\<forall>s. R s (snd (m s)))"

lemma preserves_andthen:
  assumes "preserves R m" "\<And>x. preserves R (f x)" "\<And>a b c. R a b \<Longrightarrow> R b c \<Longrightarrow> R a c"
  shows "preserves R (andthen m f)"
  using assms by (auto simp: preserves_def andthen_def split: prod.splits outcome.splits sum.splits) (metis snd_conv)+

lemma preserves_pure:
  assumes "\<And>s. R s s"
  shows "preserves R (ret x)" "preserves R (throw e)" "preserves R (of_result r)" "preserves R (of_option e o1)"
    "preserves R (reading g)"
  using assms by (simp_all add: preserves_def act_defs split: option.split)

end
