(* ===== verification/Pipeline.thy ===== *)
theory Pipeline
  imports Effects
begin

section \<open>The pipeline\<close>

text \<open>
  Models \<^verbatim>\<open>crates/familyclaw-actions/src/skills/mod.rs\<close>: the run of a task from the registry over
  the policy, the approval and the executor to the proof bundle. \<open>ids\<close> are the identifiers a call
  draws, in order; the world an executor acts on is a parameter.
\<close>

type_synonym ids = "nat \<Rightarrow> uuid"

record memory_record =
  mr_task :: task_id
  mr_summary :: string
  mr_proof :: proof_id
  mr_succeeded :: bool
  mr_untrusted :: bool

record pipeline_outcome =
  po_task :: task_id
  po_action :: action_id
  po_status :: task_status
  po_proof :: "proof_bundle option"
  po_memory :: "memory_record option"
  po_awaiting :: bool

definition po_is_done :: "pipeline_outcome \<Rightarrow> bool" where
  "po_is_done po \<longleftrightarrow> po_status po = TaskDone"

definition po_needs_approval :: "pipeline_outcome \<Rightarrow> bool" where
  "po_needs_approval po \<longleftrightarrow> po_status po = NeedsApproval"

record pipeline =
  pl_registry :: registry
  pl_queue :: task_queue
  pl_ledger :: ledger
  pl_audit :: audit_collector

type_synonym 'w pipe_state = "pipeline \<times> 'w"

definition pipeline_new :: pipeline where
  "pipeline_new = \<lparr>pl_registry = registry_new, pl_queue = queue_new, pl_ledger = ledger_new, pl_audit = []\<rparr>"

definition with_restored_queue :: "task_queue \<Rightarrow> pipeline" where
  "with_restored_queue q = \<lparr>pl_registry = registry_new, pl_queue = q, pl_ledger = ledger_new, pl_audit = []\<rparr>"

definition reinstate_approval :: "approval \<Rightarrow> pipeline \<Rightarrow> pipeline" where
  "reinstate_approval a p = p\<lparr>pl_ledger := reinstate (pl_ledger p) a\<rparr>"

definition pipe_register ::
  "ext \<Rightarrow> skill_ext \<Rightarrow> skill_manifest \<Rightarrow> pipeline \<Rightarrow> (action_error + unit) outcome \<times> pipeline" where
  "pipe_register X S m p = (case register X S (pl_registry p) m of (r, reg) \<Rightarrow> (r, p\<lparr>pl_registry := reg\<rparr>))"

subsection \<open>Steps on the parts of the state\<close>

definition on_queue :: "(task_queue \<Rightarrow> (action_error + 'a) \<times> task_queue) \<Rightarrow> ('w pipe_state, 'a) act" where
  "on_queue f pw = (case f (pl_queue (fst pw)) of (r, q) \<Rightarrow> (Done r, ((fst pw)\<lparr>pl_queue := q\<rparr>, snd pw)))"

definition on_ledger :: "(ledger \<Rightarrow> (action_error + 'a) \<times> ledger) \<Rightarrow> ('w pipe_state, 'a) act" where
  "on_ledger f pw = (case f (pl_ledger (fst pw)) of (r, l) \<Rightarrow> (Done r, ((fst pw)\<lparr>pl_ledger := l\<rparr>, snd pw)))"

definition record_event :: "exec_event \<Rightarrow> ('w pipe_state, unit) act" where
  "record_event e pw =
     (Done (Inr ()), ((fst pw)\<lparr>pl_audit := snd (collector_record (pl_audit (fst pw)) e)\<rparr>, snd pw))"

definition run_executor :: "'w executor \<Rightarrow> action_request \<Rightarrow> ('w pipe_state, action_result) act" where
  "run_executor exe rq pw = (case exe rq (snd pw) of (r, w) \<Rightarrow> (r, (fst pw, w)))"

definition task_or_missing :: "ext \<Rightarrow> task_id \<Rightarrow> ('w pipe_state, action_task) act" where
  "task_or_missing X i =
     reading (\<lambda>pw. case queue_get (pl_queue (fst pw)) i of None \<Rightarrow> Inl (not_found_msg X i) | Some t \<Rightarrow> Inr t)"

subsection \<open>Running a task\<close>

definition verify_result :: "action_result \<Rightarrow> verification" where
  "verify_result r =
     (let checks = [''status_checked''] @ (if rs_untrusted r then [''taint_preserved''] else [])
      in if is_success (rs_status r)
         then verification_passed (checks @ [''status_succeeded'']) ''post-conditions satisfied''
         else verification_failed (checks @ [''status_failed'']) ''action did not succeed'')"

definition execute_and_finalize ::
  "ext \<Rightarrow> ids \<Rightarrow> 'w executor \<Rightarrow> task_id \<Rightarrow> action_id \<Rightarrow> json \<Rightarrow> timestamp \<Rightarrow> bool \<Rightarrow>
   ('w pipe_state, pipeline_outcome) act" where
  "execute_and_finalize X ids exe task_id action_id payload now input_untrusted =
     andthen (task_or_missing X task_id) (\<lambda>task.
     andthen (record_event (exec_event_new (ids 1) ActionStarted action_id now ''action execution started'')) (\<lambda>_.
     let request = with_input_taint input_untrusted (request_new action_id (t_skill task) task_id payload now) in
     andthen (run_executor exe request) (\<lambda>raw.
     let result = propagate_input_taint input_untrusted raw;
         verification = verify_result result;
         kind = (if is_success (rs_status result) then ActionSucceeded else ActionFailed) in
     andthen (record_event (exec_event_new (ids 2) kind action_id now ''action execution finished'')) (\<lambda>_.
     andthen (if rs_untrusted result
              then record_event (exec_event_new (ids 3) TaintMarked action_id now
                     ''result output marked untrusted (taint preserved)'')
              else ret ()) (\<lambda>_.
     andthen (reading (\<lambda>pw. build_proof X (ids 4) request result
                (map xe_id (filter (\<lambda>e. xe_action_id e = action_id) (collector_list (pl_audit (fst pw)))))
                verification)) (\<lambda>proof.
     andthen (if any_redacted (pb_redaction proof)
              then record_event (exec_event_new (ids 5) RedactionApplied action_id now
                     ''secret-looking values redacted in proof'')
              else ret ()) (\<lambda>_.
     let memory = \<lparr>mr_task = task_id, mr_summary = rs_summary result, mr_proof = pb_id proof,
                   mr_succeeded = is_success (rs_status result), mr_untrusted = rs_untrusted result\<rparr>;
         final_status = (if rs_status result = Succeeded then TaskDone else Failed) in
     andthen (on_queue (\<lambda>q. transition X q task_id final_status now)) (\<lambda>_.
     ret \<lparr>po_task = task_id, po_action = action_id, po_status = final_status, po_proof = Some proof,
          po_memory = Some memory, po_awaiting = False\<rparr>))))))))"

definition run_with_input_taint ::
  "ext \<Rightarrow> ids \<Rightarrow> 'w executor \<Rightarrow> action_task \<Rightarrow> timestamp \<Rightarrow> bool \<Rightarrow> ('w pipe_state, pipeline_outcome) act" where
  "run_with_input_taint X ids exe task now input_untrusted =
     (let action_id = ids 0; task_id = t_id task; payload = t_payload task in
     andthen (reading (\<lambda>pw. case registry_get (pl_registry (fst pw)) (t_skill task) of
                None \<Rightarrow> Inl (UnknownSkill (show_uuid X (t_skill task))) | Some m \<Rightarrow> Inr m)) (\<lambda>manifest.
     andthen (on_queue (\<lambda>q. submit X q task)) (\<lambda>_.
     andthen (on_queue (\<lambda>q. transition X q task_id Ready now)) (\<lambda>_.
     let requirement = required_approval (m_risk manifest) (m_policy manifest) in
     andthen (on_queue (\<lambda>q. transition X q task_id Running now)) (\<lambda>_.
     if requires_approval requirement then
       andthen (on_queue (\<lambda>q. transition X q task_id NeedsApproval now)) (\<lambda>_.
       andthen (record_event (exec_event_new (ids 1) KPolicyDenied action_id now
                  ''policy requires human approval before execution'')) (\<lambda>_.
       ret \<lparr>po_task = task_id, po_action = action_id, po_status = NeedsApproval, po_proof = None,
            po_memory = None, po_awaiting = True\<rparr>))
     else execute_and_finalize X ids exe task_id action_id payload now input_untrusted)))))"

definition pipe_run ::
  "ext \<Rightarrow> ids \<Rightarrow> 'w executor \<Rightarrow> action_task \<Rightarrow> timestamp \<Rightarrow> ('w pipe_state, pipeline_outcome) act" where
  "pipe_run X ids exe task now = run_with_input_taint X ids exe task now False"

definition payload_bytes :: "ext \<Rightarrow> json \<Rightarrow> action_error + string" where
  "payload_bytes X v =
     (case json_bytes X v of Inl m \<Rightarrow> Inl (Proof (''payload serialize failed: '' @ m)) | Inr b \<Rightarrow> Inr b)"

definition run_after_approval_with_input_taint ::
  "ext \<Rightarrow> ids \<Rightarrow> 'w executor \<Rightarrow> task_id \<Rightarrow> approval \<Rightarrow> timestamp \<Rightarrow> bool \<Rightarrow> ('w pipe_state, pipeline_outcome) act" where
  "run_after_approval_with_input_taint X ids exe task_id a now input_untrusted =
     andthen (task_or_missing X task_id) (\<lambda>task.
     let payload = t_payload task in
     andthen (of_result (payload_bytes X payload)) (\<lambda>bytes.
     andthen (on_ledger (\<lambda>l. consume X (ids 0) l (a_id a) bytes now)) (\<lambda>_.
     andthen (on_queue (\<lambda>q. transition X q task_id Running now)) (\<lambda>_.
     execute_and_finalize X ids exe task_id (a_action_id a) payload now input_untrusted))))"

definition run_after_approval ::
  "ext \<Rightarrow> ids \<Rightarrow> 'w executor \<Rightarrow> task_id \<Rightarrow> approval \<Rightarrow> timestamp \<Rightarrow> ('w pipe_state, pipeline_outcome) act" where
  "run_after_approval X ids exe task_id a now = run_after_approval_with_input_taint X ids exe task_id a now False"

definition grant_approval ::
  "ext \<Rightarrow> ids \<Rightarrow> action_id \<Rightarrow> json \<Rightarrow> timestamp \<Rightarrow> int \<Rightarrow> ('w pipe_state, approval) act" where
  "grant_approval X ids action_id payload now ttl =
     andthen (of_result (payload_bytes X payload)) (\<lambda>bytes.
     on_ledger (\<lambda>l. case grant X (ids 0) (ids 1) l action_id (sha256_hex X bytes) now ttl of (a, l') \<Rightarrow> (Inr a, l')))"

subsection \<open>Where the world changes\<close>

text \<open>Only the executor changes the world: every other step is quiet.\<close>

abbreviation same_world :: "'w pipe_state \<Rightarrow> 'w pipe_state \<Rightarrow> bool" where
  "same_world s s' \<equiv> snd s' = snd s"

named_theorems quiet \<open>steps that leave the world alone\<close>

lemma quiet_steps [quiet]:
  "preserves same_world (on_queue f)" "preserves same_world (on_ledger g)"
  "preserves same_world (record_event e)" "preserves same_world (task_or_missing X i)"
  "preserves same_world (reading h)" "preserves same_world (ret x)" "preserves same_world (of_result r)"
  by (simp_all add: preserves_def on_queue_def on_ledger_def record_event_def task_or_missing_def act_defs
      split: prod.splits)

lemma quiet_andthen [quiet]:
  "preserves same_world m \<Longrightarrow> (\<And>x. preserves same_world (f x)) \<Longrightarrow> preserves same_world (andthen m f)"
  by (rule preserves_andthen) auto

lemma quiet_if [quiet]:
  "preserves same_world m \<Longrightarrow> preserves same_world n \<Longrightarrow> preserves same_world (if b then m else n)"
  by simp

lemma preserves_world: "preserves same_world m \<Longrightarrow> m s = (r, s') \<Longrightarrow> snd s' = snd s"
  unfolding preserves_def by (metis snd_conv)

lemma andthen_world:
  assumes "andthen m f s = (r, s')" "preserves same_world m" "snd s' \<noteq> snd s"
  obtains x s1 where "m s = (Done (Inr x), s1)" "snd s1 = snd s" "f x s1 = (r, s')"
  using assms(1)
proof (cases rule: andthen_cases)
  case (1 x s1)
  with that preserves_world[OF assms(2)] show ?thesis by blast
qed (use assms(2,3) preserves_world in blast)+

lemma on_queue_ok:
  "on_queue f (p, w) = (Done (Inr x), s1) \<longleftrightarrow>
     (\<exists>q. f (pl_queue p) = (Inr x, q) \<and> s1 = (p\<lparr>pl_queue := q\<rparr>, w))"
  by (auto simp: on_queue_def split: prod.splits)

lemma on_ledger_ok:
  "on_ledger f (p, w) = (Done (Inr x), s1) \<longleftrightarrow>
     (\<exists>l. f (pl_ledger p) = (Inr x, l) \<and> s1 = (p\<lparr>pl_ledger := l\<rparr>, w))"
  by (auto simp: on_ledger_def split: prod.splits)

lemma record_event_eq: "record_event e (p, w) = (Done (Inr ()), (p\<lparr>pl_audit := pl_audit p @ [e]\<rparr>, w))"
  by (simp add: record_event_def collector_record_def)

lemma andthen_record: "andthen (record_event e) f (p, w) = f () (p\<lparr>pl_audit := pl_audit p @ [e]\<rparr>, w)"
  by (simp add: andthen_def record_event_eq)

lemma task_or_missing_ok:
  "task_or_missing X i (p, w) = (Done (Inr t), s1) \<longleftrightarrow> hm_get (pl_queue p) i = Some t \<and> s1 = (p, w)"
  by (auto simp: task_or_missing_def reading_def queue_get_def simp del: map_of_eq_Some_iff split: option.splits)

lemma transition_done:
  "transition X q i next now = (Inr ev, q') \<longleftrightarrow>
     (\<exists>t. hm_get q i = Some t \<and> can_transition_to (t_status t) next \<and> ev = StatusChanged i (t_status t) next now \<and>
        q' = hm_insert i (t\<lparr>t_status := next, t_updated := now\<rparr>) q)"
  by (auto simp: transition_def simp del: map_of_eq_Some_iff split: option.splits)

subsection \<open>What an execution leaves behind\<close>

definition exec_request :: "bool \<Rightarrow> action_id \<Rightarrow> action_task \<Rightarrow> task_id \<Rightarrow> json \<Rightarrow> timestamp \<Rightarrow> action_request" where
  "exec_request tainted a task i payload now = with_input_taint tainted (request_new a (t_skill task) i payload now)"

definition exec_events :: "ids \<Rightarrow> action_id \<Rightarrow> timestamp \<Rightarrow> action_result \<Rightarrow> exec_event list" where
  "exec_events ids a now result =
     [exec_event_new (ids 1) ActionStarted a now ''action execution started'',
      exec_event_new (ids 2) (if is_success (rs_status result) then ActionSucceeded else ActionFailed) a now
        ''action execution finished''] @
     (if rs_untrusted result
      then [exec_event_new (ids 3) TaintMarked a now ''result output marked untrusted (taint preserved)''] else [])"

lemma execute_success:
  assumes "execute_and_finalize X ids exe i a payload now tainted (p, w) = (Done (Inr po), (p', w'))"
  obtains task raw b where
    "hm_get (pl_queue p) i = Some task"
    "exe (exec_request tainted a task i payload now) w = (Done (Inr raw), w')"
    "build_proof X (ids 4) (exec_request tainted a task i payload now) (propagate_input_taint tainted raw)
       (map xe_id (filter (\<lambda>e. xe_action_id e = a) (pl_audit p @ exec_events ids a now (propagate_input_taint tainted raw))))
       (verify_result (propagate_input_taint tainted raw)) = Inr b"
    "po = \<lparr>po_task = i, po_action = a, po_status = (if rs_status raw = Succeeded then TaskDone else Failed),
       po_proof = Some b,
       po_memory = Some \<lparr>mr_task = i, mr_summary = rs_summary raw, mr_proof = pb_id b,
         mr_succeeded = is_success (rs_status raw), mr_untrusted = rs_untrusted (propagate_input_taint tainted raw)\<rparr>,
       po_awaiting = False\<rparr>"
    "can_transition_to (t_status task) (po_status po)"
    "\<exists>red. pl_audit p' = pl_audit p @ exec_events ids a now (propagate_input_taint tainted raw) @ red \<and>
       (red = [] \<or> red = [exec_event_new (ids 5) RedactionApplied a now ''secret-looking values redacted in proof''])"
    "pl_queue p' = hm_insert i (task\<lparr>t_status := po_status po, t_updated := now\<rparr>) (pl_queue p)"
    "pl_ledger p' = pl_ledger p" "pl_registry p' = pl_registry p"
proof -
  define rs where "rs = propagate_input_taint tainted"
  have sel: "rs_summary (rs raw) = rs_summary raw" "rs_status (rs raw) = rs_status raw" for raw
    by (simp_all add: rs_def propagate_input_taint_def)
  let ?rq = "\<lambda>task. exec_request tainted a task i payload now"
  let ?p1 = "p\<lparr>pl_audit := pl_audit p @ [exec_event_new (ids 1) ActionStarted a now ''action execution started'']\<rparr>"
  let ?p2 = "\<lambda>raw. p\<lparr>pl_audit := pl_audit p @ exec_events ids a now (rs raw)\<rparr>"
  note ex = assms[unfolded execute_and_finalize_def Let_def]
  from ex obtain task where task: "hm_get (pl_queue p) i = Some task"
    by (cases rule: andthen_cases) (simp_all add: task_or_missing_ok del: map_of_eq_Some_iff)
  then have m: "task_or_missing X i (p, w) = (Done (Inr task), (p, w))" by (simp add: task_or_missing_ok)
  note ex = ex[unfolded andthen_ok[where m = "task_or_missing X i", OF m] andthen_record exec_request_def[symmetric]]
  from ex obtain raw w1 where raw: "exe (?rq task) w = (Done (Inr raw), w1)"
    by (cases rule: andthen_cases) (auto simp: run_executor_def split: prod.splits)
  then have "run_executor exe (?rq task) (?p1, w) = (Done (Inr raw), (?p1, w1))" by (simp add: run_executor_def)
  note ex = ex[unfolded andthen_ok[where m = "run_executor exe (?rq task)", OF this] andthen_record, folded rs_def]
  let ?tm = "if rs_untrusted (rs raw)
       then record_event (exec_event_new (ids 3) TaintMarked a now ''result output marked untrusted (taint preserved)'')
       else ret ()"
  have "?tm (?p1\<lparr>pl_audit := pl_audit ?p1 @ [exec_event_new (ids 2)
         (if is_success (rs_status (rs raw)) then ActionSucceeded else ActionFailed) a now ''action execution finished'']\<rparr>, w1) =
     (Done (Inr ()), (?p2 raw, w1))"
    by (simp add: record_event_eq ret_def exec_events_def)
  note ex = ex[unfolded andthen_ok[where m = ?tm, OF this]]
  let ?ids = "map xe_id (filter (\<lambda>e. xe_action_id e = a) (pl_audit (?p2 raw)))"
  let ?build = "build_proof X (ids 4) (?rq task) (rs raw) ?ids (verify_result (rs raw))"
  from ex obtain b where b: "?build = Inr b"
    by (cases rule: andthen_cases) (auto simp: reading_def collector_list_def)
  let ?rd = "reading (\<lambda>pw. build_proof X (ids 4) (?rq task) (rs raw)
      (map xe_id (filter (\<lambda>e. xe_action_id e = a) (collector_list (pl_audit (fst pw))))) (verify_result (rs raw)))"
  have "?rd (?p2 raw, w1) = (Done (Inr b), (?p2 raw, w1))"
    using b by (simp add: reading_def collector_list_def)
  note ex = ex[unfolded andthen_ok[where m = ?rd, OF this]]
  define red where "red = (if any_redacted (pb_redaction b)
    then [exec_event_new (ids 5) RedactionApplied a now ''secret-looking values redacted in proof''] else [])"
  let ?p3 = "p\<lparr>pl_audit := pl_audit p @ exec_events ids a now (rs raw) @ red\<rparr>"
  let ?rm = "if any_redacted (pb_redaction b)
       then record_event (exec_event_new (ids 5) RedactionApplied a now ''secret-looking values redacted in proof'')
       else ret ()"
  have "?rm (?p2 raw, w1) = (Done (Inr ()), (?p3, w1))"
    by (simp add: record_event_eq ret_def red_def)
  note ex = ex[unfolded andthen_ok[where m = ?rm, OF this] sel]
  let ?st = "if rs_status raw = Succeeded then TaskDone else Failed"
  from ex have fin: "can_transition_to (t_status task) ?st"
    "pl_queue p' = hm_insert i (task\<lparr>t_status := ?st, t_updated := now\<rparr>) (pl_queue p)"
    "pl_ledger p' = pl_ledger p" "pl_registry p' = pl_registry p" "w' = w1"
    "pl_audit p' = pl_audit p @ exec_events ids a now (rs raw) @ red"
    "po = \<lparr>po_task = i, po_action = a, po_status = ?st, po_proof = Some b,
       po_memory = Some \<lparr>mr_task = i, mr_summary = rs_summary raw, mr_proof = pb_id b,
         mr_succeeded = is_success (rs_status raw), mr_untrusted = rs_untrusted (rs raw)\<rparr>, po_awaiting = False\<rparr>"
    using task by (cases rule: andthen_cases; auto simp: on_queue_ok transition_done ret_def simp del: map_of_eq_Some_iff)+
  show ?thesis
  proof (rule that[OF task, of raw b])
    show "\<exists>red. pl_audit p' = pl_audit p @ exec_events ids a now (propagate_input_taint tainted raw) @ red \<and>
       (red = [] \<or> red = [exec_event_new (ids 5) RedactionApplied a now ''secret-looking values redacted in proof''])"
      using fin(6) unfolding rs_def red_def by auto
  qed (use raw b fin in \<open>simp_all add: rs_def\<close>)
qed

lemma execute_executor_stops:
  assumes "hm_get (pl_queue p) i = Some task"
    and "exe (exec_request tainted a task i payload now) w = (r, w')" "r = Done (Inl e) \<or> r = Killed"
  shows "\<exists>r'. execute_and_finalize X ids exe i a payload now tainted (p, w) =
      (r', (p\<lparr>pl_audit := pl_audit p @ [exec_event_new (ids 1) ActionStarted a now ''action execution started'']\<rparr>, w')) \<and>
    (r = Done (Inl e) \<longrightarrow> r' = Done (Inl e)) \<and> (r = Killed \<longrightarrow> r' = Killed)"
proof -
  have m: "task_or_missing X i (p, w) = (Done (Inr task), (p, w))" using assms(1) by (simp add: task_or_missing_ok)
  show ?thesis
    unfolding execute_and_finalize_def Let_def andthen_ok[where m = "task_or_missing X i", OF m] andthen_record
      exec_request_def[symmetric]
    using assms(2,3) by (auto simp: andthen_def run_executor_def)
qed

subsection \<open>Runs\<close>

lemma andthen_registry:
  "registry_get (pl_registry p) k = Some m \<Longrightarrow>
     andthen (reading (\<lambda>pw. case registry_get (pl_registry (fst pw)) k of None \<Rightarrow> Inl e | Some m \<Rightarrow> Inr m)) f (p, w) =
       f m (p, w)"
  by (simp add: andthen_def reading_def)

lemma run_waits_world:
  assumes "registry_get (pl_registry p) (t_skill t) = Some m"
    and "required_approval (m_risk m) (m_policy m) = MustApprove"
    and "run_with_input_taint X ids exe t now tainted (p, w) = (r, (p', w'))"
  shows "w' = w"
proof -
  have q: "preserves same_world
      (andthen (on_queue (\<lambda>q. submit X q t)) (\<lambda>_.
       andthen (on_queue (\<lambda>q. transition X q (t_id t) Ready now)) (\<lambda>_.
       andthen (on_queue (\<lambda>q. transition X q (t_id t) Running now)) (\<lambda>_.
       andthen (on_queue (\<lambda>q. transition X q (t_id t) NeedsApproval now)) (\<lambda>_.
       andthen (record_event e) (\<lambda>_. ret x))))))" for e and x :: pipeline_outcome
    by (intro quiet)
  show ?thesis
    using preserves_world[OF q] assms(3)
    unfolding run_with_input_taint_def Let_def requires_approval_def
      andthen_registry[OF assms(1)] assms(2)
    by (simp only: if_True simp_thms) fastforce
qed

lemma quiet_until:
  assumes "andthen m f s = (r, s')" "preserves same_world m" "snd s' \<noteq> snd s"
  shows "\<exists>x s1. m s = (Done (Inr x), s1) \<and> snd s1 = snd s \<and> f x s1 = (r, s')"
  by (rule andthen_world[OF assms]) blast

text \<open>The world changes after an approval only when the ledger consumed it for this task's payload.\<close>

lemma approved_world:
  assumes "run_after_approval_with_input_taint X ids exe i a now tainted (p, w) = (r, (p', w'))" "w' \<noteq> w"
  obtains t bytes l where "hm_get (pl_queue p) i = Some t" "json_bytes X (t_payload t) = Inr bytes"
    "consume X (ids 0) (pl_ledger p) (a_id a) bytes now = (Inr (), l)"
    "execute_and_finalize X ids exe i (a_action_id a) (t_payload t) now tainted
       (p\<lparr>pl_ledger := l, pl_queue := hm_insert i (t\<lparr>t_status := Running, t_updated := now\<rparr>) (pl_queue p)\<rparr>, w) =
     (r, (p', w'))"
    "can_transition_to (t_status t) Running"
proof -
  have ne: "snd (p', w') \<noteq> snd (p, w)" using assms(2) by simp
  note ex = assms(1)[unfolded run_after_approval_with_input_taint_def Let_def]
  obtain t where t: "hm_get (pl_queue p) i = Some t" and
    e1: "andthen (of_result (payload_bytes X (t_payload t))) (\<lambda>bytes.
       andthen (on_ledger (\<lambda>l. consume X (ids 0) l (a_id a) bytes now)) (\<lambda>_.
       andthen (on_queue (\<lambda>q. transition X q i Running now)) (\<lambda>_.
       execute_and_finalize X ids exe i (a_action_id a) (t_payload t) now tainted))) (p, w) = (r, (p', w'))"
    using quiet_until[OF ex _ ne] quiet_steps(4) unfolding task_or_missing_ok by blast
  obtain bytes where bytes: "payload_bytes X (t_payload t) = Inr bytes" and
    e2: "andthen (on_ledger (\<lambda>l. consume X (ids 0) l (a_id a) bytes now)) (\<lambda>_.
       andthen (on_queue (\<lambda>q. transition X q i Running now)) (\<lambda>_.
       execute_and_finalize X ids exe i (a_action_id a) (t_payload t) now tainted)) (p, w) = (r, (p', w'))"
    using quiet_until[OF e1 _ ne] quiet_steps(7) by (auto simp: of_result_def)
  obtain l where l: "consume X (ids 0) (pl_ledger p) (a_id a) bytes now = (Inr (), l)" and
    e3: "andthen (on_queue (\<lambda>q. transition X q i Running now)) (\<lambda>_.
       execute_and_finalize X ids exe i (a_action_id a) (t_payload t) now tainted) (p\<lparr>pl_ledger := l\<rparr>, w) =
       (r, (p', w'))"
    using quiet_until[OF e2 quiet_steps(2) ne] unfolding on_ledger_ok by auto
  have ne': "snd (p', w') \<noteq> snd (p\<lparr>pl_ledger := l\<rparr>, w)" using assms(2) by simp
  have e4: "execute_and_finalize X ids exe i (a_action_id a) (t_payload t) now tainted
       (p\<lparr>pl_ledger := l, pl_queue := hm_insert i (t\<lparr>t_status := Running, t_updated := now\<rparr>) (pl_queue p)\<rparr>, w) =
       (r, (p', w')) \<and> can_transition_to (t_status t) Running"
    using quiet_until[OF e3 _ ne'] quiet_steps(1) t unfolding on_queue_ok transition_done by force
  have "json_bytes X (t_payload t) = Inr bytes"
    using bytes by (auto simp: payload_bytes_def split: sum.splits)
  from that[OF t this l] e4 show ?thesis by blast
qed

lemma run_setup:
  fixes now :: timestamp
  assumes reg: "registry_get (pl_registry p) (t_skill t) = Some m" and valid: "task_validate t = Inr ()"
    and fresh: "hm_get (pl_queue p) (t_id t) = None" and st: "t_status t = Planned"
  defines "i \<equiv> t_id t"
  defines "q1 \<equiv> hm_insert i (t\<lparr>t_status := Ready, t_updated := now\<rparr>) (hm_insert i t (pl_queue p))"
  defines "q2 \<equiv> hm_insert i (t\<lparr>t_status := Running, t_updated := now\<rparr>) q1"
  shows "run_with_input_taint X ids exe t now tainted (p, w) =
    (if required_approval (m_risk m) (m_policy m) = MustApprove
     then (Done (Inr \<lparr>po_task = i, po_action = ids 0, po_status = NeedsApproval, po_proof = None, po_memory = None,
             po_awaiting = True\<rparr>),
           (p\<lparr>pl_queue := hm_insert i (t\<lparr>t_status := NeedsApproval, t_updated := now\<rparr>) q2,
              pl_audit := pl_audit p @ [exec_event_new (ids 1) KPolicyDenied (ids 0) now
                ''policy requires human approval before execution'']\<rparr>, w))
     else execute_and_finalize X ids exe i (ids 0) (t_payload t) now tainted (p\<lparr>pl_queue := q2\<rparr>, w))"
proof -
  have 1: "on_queue (\<lambda>q. submit X q t) (p, w) = (Done (Inr ()), (p\<lparr>pl_queue := hm_insert i t (pl_queue p)\<rparr>, w))"
    using valid fresh by (simp add: on_queue_def submit_def hm_contains_def i_def)
  have 2: "on_queue (\<lambda>q. transition X q i Ready now) (p\<lparr>pl_queue := hm_insert i t (pl_queue p)\<rparr>, w) =
      (Done (Inr (StatusChanged i Planned Ready now)), (p\<lparr>pl_queue := q1\<rparr>, w))"
    using st by (simp add: on_queue_def transition_def q1_def can_transition_to_def)
  have 3: "on_queue (\<lambda>q. transition X q i Running now) (p\<lparr>pl_queue := q1\<rparr>, w) =
      (Done (Inr (StatusChanged i Ready Running now)), (p\<lparr>pl_queue := q2\<rparr>, w))"
    by (simp add: on_queue_def transition_def q1_def q2_def can_transition_to_def)
  have 4: "on_queue (\<lambda>q. transition X q i NeedsApproval now) (p\<lparr>pl_queue := q2\<rparr>, w) =
      (Done (Inr (StatusChanged i Running NeedsApproval now)),
       (p\<lparr>pl_queue := hm_insert i (t\<lparr>t_status := NeedsApproval, t_updated := now\<rparr>) q2\<rparr>, w))"
    by (simp add: on_queue_def transition_def q2_def can_transition_to_def)
  show ?thesis
    unfolding run_with_input_taint_def Let_def andthen_registry[OF reg] i_def[symmetric]
      andthen_ok[where m = "on_queue (\<lambda>q. submit X q t)", OF 1]
      andthen_ok[where m = "on_queue (\<lambda>q. transition X q i Ready now)", OF 2]
      andthen_ok[where m = "on_queue (\<lambda>q. transition X q i Running now)", OF 3]
    by (simp add: requires_approval_def
        andthen_ok[where m = "on_queue (\<lambda>q. transition X q i NeedsApproval now)", OF 4] andthen_record ret_def)
qed

subsection \<open>What a run leaves alone\<close>

abbreviation same_ledger :: "'w pipe_state \<Rightarrow> 'w pipe_state \<Rightarrow> bool" where
  "same_ledger s s' \<equiv> pl_ledger (fst s') = pl_ledger (fst s)"

named_theorems calm \<open>steps that leave the ledger alone\<close>

lemma calm_steps [calm]:
  "preserves same_ledger (on_queue f)" "preserves same_ledger (record_event e)"
  "preserves same_ledger (run_executor exe rq)" "preserves same_ledger (task_or_missing X i)"
  "preserves same_ledger (reading h)" "preserves same_ledger (ret x)" "preserves same_ledger (of_result r)"
  by (simp_all add: preserves_def on_queue_def record_event_def run_executor_def task_or_missing_def act_defs
      split: prod.splits)

lemma calm_andthen [calm]:
  "preserves same_ledger m \<Longrightarrow> (\<And>x. preserves same_ledger (f x)) \<Longrightarrow> preserves same_ledger (andthen m f)"
  by (rule preserves_andthen) auto

lemma calm_if [calm]:
  "preserves same_ledger m \<Longrightarrow> preserves same_ledger n \<Longrightarrow> preserves same_ledger (if b then m else n)"
  by simp

lemma calm_execute [calm]: "preserves same_ledger (execute_and_finalize X ids exe i a payload now tainted)"
  unfolding execute_and_finalize_def Let_def by (intro calm)

lemma calm_run [calm]: "preserves same_ledger (run_with_input_taint X ids exe t now tainted)"
  unfolding run_with_input_taint_def Let_def by (intro calm)

lemma andthen_quiet_world:
  assumes "\<And>x. preserves same_world (f x)"
  shows "snd (snd (andthen m f s)) = snd (snd (m s))"
  using assms unfolding preserves_def andthen_def by (simp split: prod.split outcome.split sum.split)

lemma execute_world:
  "snd (snd (execute_and_finalize X ids exe i a payload now tainted (p, w))) =
     (case hm_get (pl_queue p) i of None \<Rightarrow> w
      | Some task \<Rightarrow> snd (exe (exec_request tainted a task i payload now) w))"
proof (cases "hm_get (pl_queue p) i")
  case None
  then show ?thesis
    by (simp add: execute_and_finalize_def andthen_def task_or_missing_def reading_def queue_get_def
        del: map_of_eq_None_iff)
next
  case (Some task)
  then have m: "task_or_missing X i (p, w) = (Done (Inr task), (p, w))" by (simp add: task_or_missing_ok)
  have "snd (snd (run_executor exe (exec_request tainted a task i payload now) (q, w))) =
      snd (exe (exec_request tainted a task i payload now) w)" for q
    by (simp add: run_executor_def split: prod.split)
  then show ?thesis
    unfolding execute_and_finalize_def Let_def andthen_ok[where m = "task_or_missing X i", OF m] andthen_record
      exec_request_def[symmetric]
    by (subst andthen_quiet_world) (intro quiet, simp add: Some)
qed

text \<open>A step that ends with a value and leaves the given world.\<close>

definition yields :: "'w \<Rightarrow> ('w pipe_state, 'a) act \<Rightarrow> 'w pipe_state \<Rightarrow> bool" where
  "yields w m s \<longleftrightarrow> (case m s of (Done (Inr y), s') \<Rightarrow> snd s' = w | _ \<Rightarrow> False)"

lemma yields_andthen: "m s = (Done (Inr x), s1) \<Longrightarrow> yields w (f x) s1 \<Longrightarrow> yields w (andthen m f) s"
  by (simp add: yields_def andthen_def)

lemma yields_ret: "yields w (ret x) s \<longleftrightarrow> snd s = w"
  by (simp add: yields_def ret_def)

lemma yieldsE:
  assumes "yields w m s"
  obtains y p' where "m s = (Done (Inr y), (p', w))"
  using assms by (cases "m s") (auto simp: yields_def split: outcome.splits sum.splits)

lemma record_if_eq:
  "(if b then record_event e else ret ()) (p, w) = (Done (Inr ()), (p\<lparr>pl_audit := pl_audit p @ (if b then [e] else [])\<rparr>, w))"
  by (simp add: record_event_eq ret_def)

lemma execute_computes:
  fixes exe :: "'w executor"
  assumes "hm_get (pl_queue p) i = Some task" "can_transition_to (t_status task) TaskDone"
    and "can_transition_to (t_status task) Failed"
    and "exe (exec_request tainted a task i payload now) w = (Done (Inr raw), w1)"
    and "json_bytes X payload = Inr bytes"
  obtains po p' where "execute_and_finalize X ids exe i a payload now tainted (p, w) = (Done (Inr po), (p', w1))"
proof -
  let ?rq = "exec_request tainted a task i payload now"
  have pay: "rq_payload ?rq = payload"
    by (simp add: exec_request_def with_input_taint_def request_new_def)
  have bp: "\<exists>b. build_proof X fresh ?rq rs evs v = Inr b" for fresh rs evs v
    by (rule build_proof_total) (simp add: pay assms(5))
  define B where "B fresh rs evs v = (SOME b. build_proof X fresh ?rq rs evs v = Inr b)" for fresh rs evs v
  have B: "build_proof X fresh ?rq rs evs v = Inr (B fresh rs evs v)" for fresh rs evs v
    unfolding B_def by (rule someI_ex[OF bp])
  have rn: "run_executor exe ?rq (q, w) = (Done (Inr raw), (q, w1))" for q
    using assms(4) by (simp add: run_executor_def)
  have rd: "reading (\<lambda>pw. build_proof X fresh ?rq rs (evs pw) v) pw = (Done (Inr (B fresh rs (evs pw) v)), pw)"
    for fresh rs evs v and pw :: "'w pipe_state"
    by (simp add: reading_def B)
  let ?st = "if rs_status (propagate_input_taint tainted raw) = Succeeded then TaskDone else Failed"
  obtain e q' where q': "transition X (pl_queue p) i ?st now = (Inr e, q')"
    using assms(1-3) by (cases "rs_status (propagate_input_taint tainted raw) = Succeeded")
      (auto simp: transition_def simp del: map_of_eq_Some_iff)
  have "yields w1 (execute_and_finalize X ids exe i a payload now tainted) (p, w)"
    unfolding execute_and_finalize_def Let_def exec_request_def[symmetric]
    apply (rule yields_andthen, subst task_or_missing_ok, rule conjI[OF assms(1) refl])
    apply (rule yields_andthen, rule record_event_eq)
    apply (rule yields_andthen, rule rn)
    apply (rule yields_andthen, rule record_event_eq)
    apply (rule yields_andthen, rule record_if_eq)
    apply (rule yields_andthen, rule rd)
    apply (rule yields_andthen, rule record_if_eq)
    apply (rule yields_andthen, subst on_queue_ok)
     apply (rule exI[of _ q'], rule conjI, simp add: q', rule refl)
    apply (simp add: yields_ret)
    done
  then show ?thesis using that by (rule yieldsE)
qed

text \<open>The proof of a run: built from the request, the result and the events of the action.\<close>

definition run_proof ::
  "ext \<Rightarrow> ids \<Rightarrow> bool \<Rightarrow> action_task \<Rightarrow> task_id \<Rightarrow> action_id \<Rightarrow> timestamp \<Rightarrow> action_result \<Rightarrow> exec_event list \<Rightarrow>
   action_error + proof_bundle" where
  "run_proof X ids tainted t i a now raw audit =
     (let result = propagate_input_taint tainted raw in
      build_proof X (ids 4) (exec_request tainted a t i (t_payload t) now) result
        (map xe_id (filter (\<lambda>e. xe_action_id e = a) (audit @ exec_events ids a now result))) (verify_result result))"

text \<open>An approval that the ledger still holds lets its task run.\<close>

lemma approved_computes:
  assumes "hm_get (pl_queue p) i = Some t" "t_status t = NeedsApproval" "json_bytes X (t_payload t) = Inr bytes"
    and "hm_get (approvals (pl_ledger p)) (a_id a) = Some g" "now \<le> a_expires_at g" "\<not> a_consumed g"
    and "a_payload_hash g = sha256_hex X bytes"
    and "exe (exec_request tainted (a_action_id a) t i (t_payload t) now) w = (Done (Inr raw), w1)"
  obtains po p' where "run_after_approval_with_input_taint X ids exe i a now tainted (p, w) = (Done (Inr po), (p', w1))"
    "po_status po = (if rs_status raw = Succeeded then TaskDone else Failed)"
    "pl_queue p' = hm_insert i (t\<lparr>t_status := po_status po, t_updated := now\<rparr>) (pl_queue p)"
    "\<exists>b. po_proof po = Some b \<and> run_proof X ids tainted t i (a_action_id a) now raw (pl_audit p) = Inr b"
proof -
  have 0: "task_or_missing X i (p, w) = (Done (Inr t), (p, w))" using assms(1) by (simp add: task_or_missing_ok)
  have 1: "of_result (payload_bytes X (t_payload t)) (p, w) = (Done (Inr bytes), (p, w))"
    using assms(3) by (simp add: of_result_def payload_bytes_def)
  obtain l where l: "consume X (ids 0) (pl_ledger p) (a_id a) bytes now = (Inr (), l)"
    using assms(4-7) consume_ok_iff[of X "ids 0" "pl_ledger p" "a_id a" bytes now] by (metis prod.collapse)
  let ?p1 = "p\<lparr>pl_ledger := l\<rparr>"
  let ?t = "t\<lparr>t_status := Running, t_updated := now\<rparr>"
  let ?p2 = "?p1\<lparr>pl_queue := hm_insert i ?t (pl_queue p)\<rparr>"
  have 2: "on_ledger (\<lambda>l. consume X (ids 0) l (a_id a) bytes now) (p, w) = (Done (Inr ()), (?p1, w))"
    by (simp only: on_ledger_ok) (use l in blast)
  obtain e where 3: "on_queue (\<lambda>q. transition X q i Running now) (?p1, w) = (Done (Inr e), (?p2, w))"
    using assms(1,2) by (simp add: on_queue_def transition_def can_transition_to_def del: map_of_eq_Some_iff)
  have q2: "hm_get (pl_queue ?p2) i = Some ?t" by simp
  have tr: "can_transition_to (t_status ?t) TaskDone" "can_transition_to (t_status ?t) Failed"
    by (simp_all add: can_transition_to_def)
  have exe: "exe (exec_request tainted (a_action_id a) ?t i (t_payload t) now) w = (Done (Inr raw), w1)"
    using assms(8) by (simp add: exec_request_def)
  obtain po p' where ex: "execute_and_finalize X ids exe i (a_action_id a) (t_payload t) now tainted (?p2, w) =
      (Done (Inr po), (p', w1))"
    by (rule execute_computes[where p = ?p2 and exe = exe and w = w and tainted = tainted and a = "a_action_id a"
          and now = now and payload = "t_payload t" and i = i and task = ?t, OF q2 tr exe assms(3)])
  have run: "run_after_approval_with_input_taint X ids exe i a now tainted (p, w) = (Done (Inr po), (p', w1))"
    unfolding run_after_approval_with_input_taint_def Let_def
      andthen_ok[where m = "task_or_missing X i", OF 0]
      andthen_ok[where m = "of_result (payload_bytes X (t_payload t))", OF 1]
      andthen_ok[where m = "on_ledger (\<lambda>l. consume X (ids 0) l (a_id a) bytes now)", OF 2]
      andthen_ok[where m = "on_queue (\<lambda>q. transition X q i Running now)", OF 3] ex by (rule refl)
  from ex show ?thesis
  proof (rule execute_success)
    fix task raw' b
    assume k: "hm_get (pl_queue ?p2) i = Some task"
      and e: "exe (exec_request tainted (a_action_id a) task i (t_payload t) now) w = (Done (Inr raw'), w1)"
      and po: "po = \<lparr>po_task = i, po_action = a_action_id a, po_status = (if rs_status raw' = Succeeded then TaskDone else Failed),
       po_proof = Some b,
       po_memory = Some \<lparr>mr_task = i, mr_summary = rs_summary raw', mr_proof = pb_id b,
         mr_succeeded = is_success (rs_status raw'), mr_untrusted = rs_untrusted (propagate_input_taint tainted raw')\<rparr>,
       po_awaiting = False\<rparr>"
      and b: "build_proof X (ids 4) (exec_request tainted (a_action_id a) task i (t_payload t) now) (propagate_input_taint tainted raw')
       (map xe_id (filter (\<lambda>e. xe_action_id e = a_action_id a)
         (pl_audit ?p2 @ exec_events ids (a_action_id a) now (propagate_input_taint tainted raw'))))
       (verify_result (propagate_input_taint tainted raw')) = Inr b"
      and q: "pl_queue p' = hm_insert i (task\<lparr>t_status := po_status po, t_updated := now\<rparr>) (pl_queue ?p2)"
    have task: "task = ?t" using q2 k by (simp del: map_of_eq_Some_iff)
    then have raw: "raw' = raw" using e exe by simp
    have "run_proof X ids tainted t i (a_action_id a) now raw (pl_audit p) = Inr b"
      using b unfolding task raw by (simp add: run_proof_def exec_request_def Let_def)
    with that[OF run] po q raw show ?thesis unfolding task by simp
  qed
qed

lemma andthen_value:
  "andthen m f s = (Done (Inr y), s') \<Longrightarrow> \<exists>x s1. m s = (Done (Inr x), s1) \<and> f x s1 = (Done (Inr y), s')"
  by (auto elim: andthen_cases)

lemma run_value:
  assumes "run_with_input_taint X ids exe t now tainted s = (Done (Inr po), s')"
  shows "(po_awaiting po \<and> po_proof po = None \<and> po_memory po = None \<and> po_status po = NeedsApproval) \<or>
    (\<exists>s1. execute_and_finalize X ids exe (t_id t) (ids 0) (t_payload t) now tainted s1 = (Done (Inr po), s'))"
  using assms unfolding run_with_input_taint_def Let_def
  by (auto dest!: andthen_value simp: ret_def split: if_splits)

lemma approved_value:
  assumes "run_after_approval_with_input_taint X ids exe i a now tainted s = (Done (Inr po), s')"
  shows "\<exists>payload s1. execute_and_finalize X ids exe i (a_action_id a) payload now tainted s1 = (Done (Inr po), s')"
  using assms unfolding run_after_approval_with_input_taint_def Let_def by (auto dest!: andthen_value)

lemma exec_request_status [simp]:
  "exec_request tainted a (t\<lparr>t_status := st, t_updated := now'\<rparr>) i payload now = exec_request tainted a t i payload now"
  by (simp add: exec_request_def)

lemma taint_kept: "rs_untrusted (propagate_input_taint True raw)"
  by (simp add: propagate_input_taint_def)

subsection \<open>A sample pipeline\<close>

text \<open>An executor whose world counts its runs.\<close>

definition sample_executor :: "nat executor" where
  "sample_executor rq n = (Done (Inr (result_trusted (result_success ''ok'' JNull (rq_now rq)))), Suc n)"

definition failing_executor :: "nat executor" where
  "failing_executor rq n = (Done (Inl (ExecutionFailed ''x'')), Suc n)"

definition sample_pipe :: "action_risk \<Rightarrow> pipeline" where
  "sample_pipe risk = pipeline_new\<lparr>pl_registry := [(7, sample_manifest [] risk RequireApproval)]\<rparr>"

definition sample_ids :: ids where
  "sample_ids n = of_nat (100 + n)"

definition pipe_task :: action_task where
  "pipe_task = task_new 5 7 (JStr ''p'') 100"

definition sample_grant :: approval where
  "sample_grant = fst (grant sample_ext 3 1 ledger_new 4 (sha256_hex sample_ext ''p'') 100 60)"

definition waiting_pipe :: pipeline where
  "waiting_pipe = (sample_pipe SendMessage)\<lparr>pl_queue := [(5, pipe_task\<lparr>t_status := NeedsApproval\<rparr>)],
     pl_ledger := snd (grant sample_ext 3 1 ledger_new 4 (sha256_hex sample_ext ''p'') 100 60)\<rparr>"

lemma sample_registry: "registry_get (pl_registry (sample_pipe risk)) (t_skill pipe_task) =
    Some (sample_manifest [] risk RequireApproval)"
  by (simp add: registry_get_def sample_pipe_def pipe_task_def task_new_def)

lemma sample_pipe_facts:
  "task_validate pipe_task = Inr ()" "hm_get (pl_queue (sample_pipe risk)) (t_id pipe_task) = None"
  "t_status pipe_task = Planned" "t_id pipe_task = 5" "t_payload pipe_task = JStr ''p''"
  "json_bytes sample_ext (t_payload pipe_task) = Inr ''p''"
  "required_approval (m_risk (sample_manifest [] risk RequireApproval)) (m_policy (sample_manifest [] risk RequireApproval)) =
     (if risk \<in> {ReadOnly, WriteLocal} then AutoRun else MustApprove)"
  by (cases risk; simp add: pipe_task_def task_new_def task_validate_def is_nil_def nil_id_def sample_pipe_def
      pipeline_new_def queue_new_def sample_ext_def sample_manifest_def required_approval_def)+

lemma sample_runs:
  "sample_executor rq n = (Done (Inr (result_trusted (result_success ''ok'' JNull (rq_now rq)))), Suc n)"
  "failing_executor rq n = (Done (Inl (ExecutionFailed ''x'')), Suc n)"
  by (simp_all add: sample_executor_def failing_executor_def)

lemma waiting_pipe_facts:
  "hm_get (pl_queue waiting_pipe) 5 = Some (pipe_task\<lparr>t_status := NeedsApproval\<rparr>)"
  "hm_get (approvals (pl_ledger waiting_pipe)) (a_id sample_grant) = Some sample_grant"
  "a_id sample_grant = 3"
  by (simp_all add: waiting_pipe_def sample_grant_def grant_def Let_def)

lemma waiting_pipe_runs:
  "\<exists>po p'. run_after_approval_with_input_taint sample_ext sample_ids sample_executor 5 sample_grant 120 tainted
     (waiting_pipe, 0) = (Done (Inr po), (p', 1))"
proof -
  have bytes: "json_bytes sample_ext (t_payload (pipe_task\<lparr>t_status := NeedsApproval\<rparr>)) = Inr ''p''"
    using sample_pipe_facts(6) by simp
  have g: "120 \<le> a_expires_at sample_grant" "\<not> a_consumed sample_grant"
    "a_payload_hash sample_grant = sha256_hex sample_ext ''p''"
    by (simp_all add: sample_grant_def grant_def Let_def saturating_expiry_def) (simp_all add: sample_ext_def)
  obtain po p' where "run_after_approval_with_input_taint sample_ext sample_ids sample_executor 5 sample_grant 120 tainted
     (waiting_pipe, 0) = (Done (Inr po), (p', Suc 0))"
    by (rule approved_computes[where p = waiting_pipe and w = 0 and exe = sample_executor and ids = sample_ids and
        tainted = tainted, OF waiting_pipe_facts(1) _ bytes waiting_pipe_facts(2) g sample_runs(1)]) simp_all
  then show ?thesis by simp
qed

subsection \<open>Properties\<close>

text \<open>C12: after an approval the world changes only if the ledger held the approval unconsumed and
  unexpired, granted for the hash of the payload the task carries; that approval is consumed
  afterwards, and the change is the executor's answer to the request that carries this payload.\<close>

theorem execution_needs_consumed_approval:
  assumes "run_after_approval_with_input_taint X ids exe i a now tainted (p, w) = (r, (p', w'))" "w' \<noteq> w"
  shows "case (hm_get (pl_queue p) i, hm_get (approvals (pl_ledger p)) (a_id a)) of
      (Some t, Some g) \<Rightarrow>
        can_transition_to (t_status t) Running \<and> \<not> a_consumed g \<and> now \<le> a_expires_at g \<and>
        (case json_bytes X (t_payload t) of Inl _ \<Rightarrow> False | Inr bytes \<Rightarrow> a_payload_hash g = sha256_hex X bytes) \<and>
        hm_get (approvals (pl_ledger p')) (a_id a) = Some (g\<lparr>a_consumed := True\<rparr>) \<and>
        w' = snd (exe (exec_request tainted (a_action_id a) t i (t_payload t) now) w)
    | _ \<Rightarrow> False"
  using assms
proof (rule approved_world)
  let ?p1 = "\<lambda>l t. p\<lparr>pl_ledger := l, pl_queue := hm_insert i (t\<lparr>t_status := Running, t_updated := now\<rparr>) (pl_queue p)\<rparr>"
  fix t bytes l
  assume t: "hm_get (pl_queue p) i = Some t" and bytes: "json_bytes X (t_payload t) = Inr bytes"
    and l: "consume X (ids 0) (pl_ledger p) (a_id a) bytes now = (Inr (), l)"
    and tr: "can_transition_to (t_status t) Running"
    and ex: "execute_and_finalize X ids exe i (a_action_id a) (t_payload t) now tainted
       (p\<lparr>pl_ledger := l, pl_queue := hm_insert i (t\<lparr>t_status := Running, t_updated := now\<rparr>) (pl_queue p)\<rparr>, w) =
     (r, (p', w'))"
  obtain g where g: "hm_get (approvals (pl_ledger p)) (a_id a) = Some g" "now \<le> a_expires_at g" "\<not> a_consumed g"
    "a_payload_hash g = sha256_hex X bytes"
    using l consume_ok_iff[of X "ids 0" "pl_ledger p" "a_id a" bytes now] by auto
  have "hm_get (approvals l) (a_id a) = Some (g\<lparr>a_consumed := True\<rparr>)"
    using consume_get[of X "ids 0" "pl_ledger p" "a_id a" bytes now "a_id a"] l g(1) by simp
  moreover have "pl_ledger p' = l"
    using calm_execute[of X ids exe i "a_action_id a" "t_payload t" now tainted, unfolded preserves_def,
        THEN spec, of "(?p1 l t, w)"] ex by simp
  moreover have "w' = snd (exe (exec_request tainted (a_action_id a) t i (t_payload t) now) w)"
    using execute_world[of X ids exe i "a_action_id a" "t_payload t" now tainted "?p1 l t" w] ex by simp
  ultimately show ?thesis using t g bytes tr by simp
qed

theorem execution_needs_consumed_approval_witness:
  "\<exists>r p'. run_after_approval_with_input_taint sample_ext sample_ids sample_executor 5 sample_grant 120 True (waiting_pipe, 0) =
     (r, (p', 1)) \<and> hm_get (approvals (pl_ledger p')) 3 = Some (sample_grant\<lparr>a_consumed := True\<rparr>)"
proof -
  obtain po p' where r: "run_after_approval_with_input_taint sample_ext sample_ids sample_executor 5 sample_grant 120 True
      (waiting_pipe, 0) = (Done (Inr po), (p', 1))"
    using waiting_pipe_runs by blast
  from execution_needs_consumed_approval[OF r] have "hm_get (approvals (pl_ledger p')) 3 = Some (sample_grant\<lparr>a_consumed := True\<rparr>)"
    by (simp only: waiting_pipe_facts waiting_pipe_facts(2)[unfolded waiting_pipe_facts(3)] option.case prod.case)
  with r show ?thesis by blast
qed

text \<open>C13: a task whose skill needs approval never runs when it is submitted, whatever its payload,
  its taint, the executor and the state of the queue: the world and the ledger stay as they were, and
  a run that ends without an error has only noted that the task waits.\<close>

theorem approval_required_runs_wait:
  assumes "registry_get (pl_registry p) (t_skill t) = Some m"
    and "required_approval (m_risk m) (m_policy m) = MustApprove"
    and "run_with_input_taint X ids exe t now tainted (p, w) = (r, (p', w'))"
  shows "w' = w \<and> pl_ledger p' = pl_ledger p \<and>
    (case r of
       Done (Inr po) \<Rightarrow> po_awaiting po \<and> po_status po = NeedsApproval \<and> po_proof po = None \<and> po_memory po = None \<and>
         map_option t_status (hm_get (pl_queue p') (t_id t)) = Some NeedsApproval \<and>
         pl_audit p' = pl_audit p @ [exec_event_new (ids 1) KPolicyDenied (ids 0) now
           ''policy requires human approval before execution'']
     | Done (Inl _) \<Rightarrow> pl_audit p' = pl_audit p
     | Killed \<Rightarrow> False)"
proof (intro conjI)
  show "w' = w" by (rule run_waits_world[OF assms])
  show "pl_ledger p' = pl_ledger p"
    using calm_run[of X ids exe t now tainted, unfolded preserves_def, THEN spec, of "(p, w)"] assms(3) by simp
  show "case r of
       Done (Inr po) \<Rightarrow> po_awaiting po \<and> po_status po = NeedsApproval \<and> po_proof po = None \<and> po_memory po = None \<and>
         map_option t_status (hm_get (pl_queue p') (t_id t)) = Some NeedsApproval \<and>
         pl_audit p' = pl_audit p @ [exec_event_new (ids 1) KPolicyDenied (ids 0) now
           ''policy requires human approval before execution'']
     | Done (Inl _) \<Rightarrow> pl_audit p' = pl_audit p
     | Killed \<Rightarrow> False"
    using assms(3)
    unfolding run_with_input_taint_def Let_def andthen_registry[OF assms(1)] assms(2) requires_approval_def
    by (auto elim!: andthen_cases simp: on_queue_def record_event_eq ret_def transition_def submit_def
        simp del: map_of_eq_Some_iff split: if_splits option.splits sum.splits prod.splits)
qed

theorem approval_required_runs_wait_witness:
  "\<exists>p'. run_with_input_taint sample_ext sample_ids sample_executor pipe_task 100 False (sample_pipe SpendMoney, 0) =
      (Done (Inr \<lparr>po_task = 5, po_action = 100, po_status = NeedsApproval, po_proof = None, po_memory = None,
        po_awaiting = True\<rparr>), (p', 0)) \<and> pl_ledger p' = pl_ledger (sample_pipe SpendMoney)"
proof -
  have req: "required_approval (m_risk (sample_manifest [] SpendMoney RequireApproval))
      (m_policy (sample_manifest [] SpendMoney RequireApproval)) = MustApprove"
    by (simp add: sample_pipe_facts)
  obtain p' where r: "run_with_input_taint sample_ext sample_ids sample_executor pipe_task 100 False (sample_pipe SpendMoney, 0) =
      (Done (Inr \<lparr>po_task = 5, po_action = 100, po_status = NeedsApproval, po_proof = None, po_memory = None,
        po_awaiting = True\<rparr>), (p', 0))"
    using run_setup[OF sample_registry sample_pipe_facts(1-3), where X = sample_ext and ids = sample_ids and
        exe = sample_executor and now = 100 and tainted = False and w = 0, of SpendMoney]
    by (simp add: req sample_pipe_facts(4)) (simp add: sample_ids_def)
  with approval_required_runs_wait[OF sample_registry req r] show ?thesis by blast
qed

text \<open>A new, valid task whose skill may run by itself is finished in one run when its payload
  serializes and its executor answers: the executor has run exactly once on the task's payload, the
  task is done or failed as the executor said, the outcome carries its proof, and the audit log has
  the start, the end and the taint mark, in this order, plus at most the redaction mark.\<close>

theorem auto_run_finishes:
  assumes "registry_get (pl_registry p) (t_skill t) = Some m"
    and "required_approval (m_risk m) (m_policy m) = AutoRun"
    and "task_validate t = Inr ()" "hm_get (pl_queue p) (t_id t) = None" "t_status t = Planned"
    and "json_bytes X (t_payload t) = Inr bytes"
    and "exe (exec_request tainted (ids 0) t (t_id t) (t_payload t) now) w = (Done (Inr raw), w1)"
  shows "case run_with_input_taint X ids exe t now tainted (p, w) of
      (Done (Inr po), (p', w')) \<Rightarrow>
        w' = w1 \<and> po_status po = (if rs_status raw = Succeeded then TaskDone else Failed) \<and>
        (case po_proof po of None \<Rightarrow> False | Some b \<Rightarrow> pb_status b = rs_status raw \<and> pb_task b = t_id t) \<and>
        hm_get (pl_queue p') (t_id t) = Some (t\<lparr>t_status := po_status po, t_updated := now\<rparr>) \<and>
        pl_ledger p' = pl_ledger p \<and>
        (let told = pl_audit p @ exec_events ids (ids 0) now (propagate_input_taint tainted raw) in
         pl_audit p' \<in> {told, told @ [exec_event_new (ids 5) RedactionApplied (ids 0) now
           ''secret-looking values redacted in proof'']})
    | _ \<Rightarrow> False"
proof -
  let ?i = "t_id t" and ?t = "t\<lparr>t_status := Running, t_updated := now\<rparr>"
  define q where "q = hm_insert ?i ?t (hm_insert ?i (t\<lparr>t_status := Ready, t_updated := now\<rparr>) (hm_insert ?i t (pl_queue p)))"
  let ?p1 = "p\<lparr>pl_queue := q\<rparr>"
  have q: "hm_get (pl_queue ?p1) ?i = Some ?t" by (simp add: q_def)
  have run: "run_with_input_taint X ids exe t now tainted (p, w) =
      execute_and_finalize X ids exe ?i (ids 0) (t_payload t) now tainted (?p1, w)"
    using run_setup[OF assms(1,3,4,5), where X = X and ids = ids and exe = exe and now = now and tainted = tainted and w = w]
    by (simp add: assms(2) q_def)
  have tr: "can_transition_to (t_status ?t) TaskDone" "can_transition_to (t_status ?t) Failed"
    by (simp_all add: can_transition_to_def)
  have exe: "exe (exec_request tainted (ids 0) ?t ?i (t_payload t) now) w = (Done (Inr raw), w1)"
    using assms(7) by simp
  obtain po p' where ex: "execute_and_finalize X ids exe ?i (ids 0) (t_payload t) now tainted (?p1, w) = (Done (Inr po), (p', w1))"
    by (rule execute_computes[where p = ?p1 and exe = exe and w = w and tainted = tainted and a = "ids 0" and now = now
          and payload = "t_payload t" and i = ?i and task = ?t, OF q tr exe assms(6)])
  then show ?thesis
  proof (rule execute_success)
    fix task raw' b
    assume "hm_get (pl_queue ?p1) ?i = Some task"
      and e: "exe (exec_request tainted (ids 0) task ?i (t_payload t) now) w = (Done (Inr raw'), w1)"
      and b: "build_proof X (ids 4) (exec_request tainted (ids 0) task ?i (t_payload t) now) (propagate_input_taint tainted raw')
       (map xe_id (filter (\<lambda>e. xe_action_id e = ids 0) (pl_audit ?p1 @ exec_events ids (ids 0) now (propagate_input_taint tainted raw'))))
       (verify_result (propagate_input_taint tainted raw')) = Inr b"
      and po: "po = \<lparr>po_task = ?i, po_action = ids 0, po_status = (if rs_status raw' = Succeeded then TaskDone else Failed),
       po_proof = Some b,
       po_memory = Some \<lparr>mr_task = ?i, mr_summary = rs_summary raw', mr_proof = pb_id b,
         mr_succeeded = is_success (rs_status raw'), mr_untrusted = rs_untrusted (propagate_input_taint tainted raw')\<rparr>,
       po_awaiting = False\<rparr>"
      and aud: "\<exists>red. pl_audit p' = pl_audit ?p1 @ exec_events ids (ids 0) now (propagate_input_taint tainted raw') @ red \<and>
       (red = [] \<or> red = [exec_event_new (ids 5) RedactionApplied (ids 0) now ''secret-looking values redacted in proof''])"
      and fin: "pl_queue p' = hm_insert ?i (task\<lparr>t_status := po_status po, t_updated := now\<rparr>) (pl_queue ?p1)"
        "pl_ledger p' = pl_ledger ?p1"
    have task: "task = ?t" using q \<open>hm_get (pl_queue ?p1) ?i = Some task\<close> by (simp del: map_of_eq_Some_iff)
    then have raw: "raw' = raw" using e exe by simp
    have "pb_status b = rs_status raw" "pb_task b = ?i"
      using proof_bundle_parts[OF b] by (simp_all add: raw propagate_input_taint_def exec_request_def with_input_taint_def request_new_def)
    then show ?thesis using ex run po aud fin unfolding raw task by (auto simp: Let_def)
  qed
qed

theorem auto_run_finishes_witness:
  "\<exists>po p'. run_with_input_taint sample_ext sample_ids sample_executor pipe_task 100 False (sample_pipe ReadOnly, 0) =
      (Done (Inr po), (p', 1)) \<and> po_status po = TaskDone"
proof -
  have req: "required_approval (m_risk (sample_manifest [] ReadOnly RequireApproval))
      (m_policy (sample_manifest [] ReadOnly RequireApproval)) = AutoRun"
    by (simp add: sample_pipe_facts)
  from auto_run_finishes[where exe = sample_executor and ids = sample_ids and tainted = False and now = 100 and w = 0,
      OF sample_registry req sample_pipe_facts(1-3,6) sample_runs(1)] show ?thesis
    by (auto simp: result_trusted_def result_success_def split: prod.splits outcome.splits sum.splits)
qed

text \<open>C21: taint is never lost: when the input is untrusted, an execution that ends without an error
  gives an untrusted proof and an untrusted memory record, whatever the executor claims, and the audit
  log marks the taint under the action, with the mark among the events the proof names.\<close>

theorem taint_reaches_every_record:
  assumes "run_with_input_taint X ids exe t now True (p, w) = (Done (Inr po), (p', w')) \<or>
    run_after_approval_with_input_taint X ids exe i a now True (p, w) = (Done (Inr po), (p', w'))"
  shows "case (po_proof po, po_memory po) of
      (Some b, Some mem) \<Rightarrow>
        pb_untrusted b \<and> mr_untrusted mem \<and>
        list_ex (\<lambda>e. xe_kind e = TaintMarked \<and> xe_action_id e = po_action po \<and> xe_id e \<in> set (pb_audit b)) (pl_audit p')
    | (None, None) \<Rightarrow> po_awaiting po
    | _ \<Rightarrow> False"
proof -
  consider "po_awaiting po" "po_proof po = None" "po_memory po = None"
    | k act payload p1 w1 where
      "execute_and_finalize X ids exe k act payload now True (p1, w1) = (Done (Inr po), (p', w'))"
    using assms run_value approved_value by (metis surj_pair)
  then show ?thesis
  proof cases
    case 2
    then show ?thesis
    proof (rule execute_success)
      fix task raw b
      assume b: "build_proof X (ids 4) (exec_request True act task k payload now) (propagate_input_taint True raw)
         (map xe_id (filter (\<lambda>e. xe_action_id e = act) (pl_audit p1 @ exec_events ids act now (propagate_input_taint True raw))))
         (verify_result (propagate_input_taint True raw)) = Inr b"
        and po: "po = \<lparr>po_task = k, po_action = act, po_status = (if rs_status raw = Succeeded then TaskDone else Failed),
         po_proof = Some b,
         po_memory = Some \<lparr>mr_task = k, mr_summary = rs_summary raw, mr_proof = pb_id b,
           mr_succeeded = is_success (rs_status raw), mr_untrusted = rs_untrusted (propagate_input_taint True raw)\<rparr>,
         po_awaiting = False\<rparr>"
        and aud: "\<exists>red. pl_audit p' = pl_audit p1 @ exec_events ids act now (propagate_input_taint True raw) @ red \<and>
         (red = [] \<or> red = [exec_event_new (ids 5) RedactionApplied act now ''secret-looking values redacted in proof''])"
      have "exec_event_new (ids 3) TaintMarked act now ''result output marked untrusted (taint preserved)'' \<in>
          set (exec_events ids act now (propagate_input_taint True raw))"
        by (simp add: exec_events_def taint_kept)
      then show ?thesis using proof_bundle_parts[OF b] po aud
        by (auto simp: list_ex_iff taint_kept exec_event_new_def exec_events_def)
    qed
  qed simp
qed

theorem taint_reaches_every_record_witness:
  "\<exists>po p'. run_after_approval_with_input_taint sample_ext sample_ids sample_executor 5 sample_grant 120 True (waiting_pipe, 0) =
     (Done (Inr po), (p', 1)) \<and> (case po_proof po of None \<Rightarrow> po_awaiting po | Some b \<Rightarrow> pb_untrusted b)"
proof -
  obtain po p' where r: "run_after_approval_with_input_taint sample_ext sample_ids sample_executor 5 sample_grant 120 True
      (waiting_pipe, 0) = (Done (Inr po), (p', 1))"
    using waiting_pipe_runs by blast
  from taint_reaches_every_record[OF disjI2, OF r] r show ?thesis
    by (auto split: option.splits)
qed

text \<open>When the executor of a task that may run by itself fails with an error, the run ends with
  that error and nothing is undone: the world keeps what the executor did, the audit log says that the
  action started and nothing more, and the task stays running in the queue.\<close>

theorem executor_error_leaves_task_running:
  assumes "registry_get (pl_registry p) (t_skill t) = Some m"
    and "required_approval (m_risk m) (m_policy m) = AutoRun"
    and "task_validate t = Inr ()" "hm_get (pl_queue p) (t_id t) = None" "t_status t = Planned"
    and "exe (exec_request tainted (ids 0) t (t_id t) (t_payload t) now) w = (Done (Inl e), w1)"
  shows "case run_with_input_taint X ids exe t now tainted (p, w) of
      (r, (p', w')) \<Rightarrow>
        r = Done (Inl e) \<and> w' = w1 \<and>
        hm_get (pl_queue p') (t_id t) = Some (t\<lparr>t_status := Running, t_updated := now\<rparr>) \<and>
        pl_audit p' = pl_audit p @ [exec_event_new (ids 1) ActionStarted (ids 0) now ''action execution started'']"
proof -
  let ?i = "t_id t" and ?t = "t\<lparr>t_status := Running, t_updated := now\<rparr>"
  define q where "q = hm_insert ?i ?t (hm_insert ?i (t\<lparr>t_status := Ready, t_updated := now\<rparr>) (hm_insert ?i t (pl_queue p)))"
  let ?p1 = "p\<lparr>pl_queue := q\<rparr>"
  have q: "hm_get (pl_queue ?p1) ?i = Some ?t" by (simp add: q_def)
  have "run_with_input_taint X ids exe t now tainted (p, w) =
      execute_and_finalize X ids exe ?i (ids 0) (t_payload t) now tainted (?p1, w)"
    using run_setup[OF assms(1,3,4,5), where X = X and ids = ids and exe = exe and now = now and tainted = tainted and w = w]
    by (simp add: assms(2) q_def)
  moreover have "exe (exec_request tainted (ids 0) ?t ?i (t_payload t) now) w = (Done (Inl e), w1)"
    using assms(6) by simp
  ultimately show ?thesis
    using execute_executor_stops[where p = ?p1 and exe = exe and w = w and tainted = tainted and a = "ids 0" and now = now
        and payload = "t_payload t" and i = ?i and task = ?t and e = e and w' = w1 and X = X and ids = ids, OF q _ disjI1]
    by (auto simp: q_def)
qed

theorem executor_error_leaves_task_running_witness:
  "\<exists>p'. run_with_input_taint sample_ext sample_ids failing_executor pipe_task 100 False (sample_pipe ReadOnly, 0) =
      (Done (Inl (ExecutionFailed ''x'')), (p', 1)) \<and>
    hm_get (pl_queue p') 5 = Some (pipe_task\<lparr>t_status := Running, t_updated := 100\<rparr>)"
proof -
  have req: "required_approval (m_risk (sample_manifest [] ReadOnly RequireApproval))
      (m_policy (sample_manifest [] ReadOnly RequireApproval)) = AutoRun"
    by (simp add: sample_pipe_facts)
  from executor_error_leaves_task_running[where exe = failing_executor and ids = sample_ids and tainted = False and
      now = 100 and w = 0, OF sample_registry req sample_pipe_facts(1-3) sample_runs(2)] show ?thesis
    by (auto simp: sample_pipe_facts(4) split: prod.splits)
qed

end
