(* ===== verification/Mcp.thy ===== *)
theory Mcp
  imports Pipeline
begin

section \<open>Tools and the policy gate\<close>

text \<open>
  Models \<^verbatim>\<open>crates/familyclaw-actions/src/mcp.rs\<close>: tool descriptors, calls and results, the provider
  trait as a record, the in-memory provider and the gate \<open>call_with_policy\<close>. A tool acts on a world
  \<open>'w\<close>; the gate runs in the state of the audit collector and that world.
\<close>

record mcp_descriptor =
  td_name :: string
  td_description :: string
  td_schema :: json
  td_permission :: skill_permission
  td_trusted :: bool

definition descriptor_new :: "string \<Rightarrow> string \<Rightarrow> json \<Rightarrow> skill_permission \<Rightarrow> mcp_descriptor" where
  "descriptor_new name description schema permission =
     \<lparr>td_name = name, td_description = description, td_schema = schema, td_permission = permission, td_trusted = False\<rparr>"

definition trust :: "mcp_descriptor \<Rightarrow> mcp_descriptor" where
  "trust d = d\<lparr>td_trusted := True\<rparr>"

record mcp_call =
  tc_tool :: string
  tc_input :: json

record mcp_result =
  tr_output :: json
  tr_untrusted :: bool

definition mcp_untrusted :: "json \<Rightarrow> mcp_result" where
  "mcp_untrusted output = \<lparr>tr_output = output, tr_untrusted = True\<rparr>"

definition mcp_trusted :: "json \<Rightarrow> mcp_result" where
  "mcp_trusted output = \<lparr>tr_output = output, tr_untrusted = False\<rparr>"

record 'w mcp_provider =
  mp_describe :: "mcp_descriptor list"
  mp_call :: "mcp_call \<Rightarrow> 'w \<Rightarrow> (action_error + mcp_result) outcome \<times> 'w"

subsection \<open>The in-memory provider\<close>

record mock_tool =
  mt_descriptor :: mcp_descriptor
  mt_canned :: "json option"

type_synonym mock_provider = "(string, mock_tool) hashmap"  \<comment> \<open>read in the order of the names\<close>

definition with_tool :: "mcp_descriptor \<Rightarrow> json option \<Rightarrow> mock_provider \<Rightarrow> mock_provider" where
  "with_tool d canned tools = hm_insert (td_name d) \<lparr>mt_descriptor = d, mt_canned = canned\<rparr> tools"

definition with_defaults :: mock_provider where
  "with_defaults =
     (let schema = JObj [(''type'', JStr ''object'')];
          echo = descriptor_new ''echo'' (''Kaiuttaa sy'' @ oe @ ''tteen takaisin sellaisenaan.'') schema PNetworkRead;
          fetch = descriptor_new ''fetch_mock''
            (''Palauttaa kiinte'' @ ae @ ''n valmiin tuloksen (mock-haku).'') schema PNetworkRead
      in with_tool fetch (Some (JObj [(''status'', JStr ''ok''), (''items'', JArr [])]))
           (with_tool echo None []))"

definition mock_descriptor :: "mock_provider \<Rightarrow> string \<Rightarrow> mcp_descriptor option" where
  "mock_descriptor tools name = map_option mt_descriptor (hm_get tools name)"

definition mock_describe :: "mock_provider \<Rightarrow> mcp_descriptor list" where
  "mock_describe tools = map (mt_descriptor \<circ> snd) (sort_key fst tools)"

definition mock_call :: "mock_provider \<Rightarrow> mcp_call \<Rightarrow> 'w \<Rightarrow> (action_error + mcp_result) outcome \<times> 'w" where
  "mock_call tools c w =
     (case hm_get tools (tc_tool c) of
        None \<Rightarrow> (Done (Inl (McpUnknownTool (tc_tool c))), w)
      | Some tool \<Rightarrow>
          (Done (Inr (mcp_untrusted (case mt_canned tool of None \<Rightarrow> tc_input c | Some v \<Rightarrow> v))), w))"

definition mock_mcp :: "mock_provider \<Rightarrow> 'w mcp_provider" where
  "mock_mcp tools = \<lparr>mp_describe = mock_describe tools, mp_call = mock_call tools\<rparr>"

subsection \<open>The gate\<close>

definition audit_note :: "exec_event \<Rightarrow> (audit_collector \<times> 'w, unit) act" where
  "audit_note e s = (Done (Inr ()), (snd (collector_record (fst s) e), snd s))"

definition provider_call :: "'w mcp_provider \<Rightarrow> mcp_call \<Rightarrow> (audit_collector \<times> 'w, mcp_result) act" where
  "provider_call P c s = (case mp_call P c (snd s) of (r, w) \<Rightarrow> (r, (fst s, w)))"

definition call_with_policy ::
  "ids \<Rightarrow> 'w mcp_provider \<Rightarrow> skill_permission list \<Rightarrow> mcp_call \<Rightarrow> timestamp \<Rightarrow> action_id \<Rightarrow>
   (audit_collector \<times> 'w, mcp_result) act" where
  "call_with_policy ids P granted c now action_id =
     (case List.find (\<lambda>d. td_name d = tc_tool c) (mp_describe P) of
        None \<Rightarrow> throw (McpUnknownTool (tc_tool c))
      | Some d \<Rightarrow>
          if td_permission d \<notin> set granted
          then andthen (audit_note (exec_event_new (ids 0) KPolicyDenied action_id now
                   (''mcp tool '' @ sq @ td_name d @ sq @ '' denied: missing required permission''))) (\<lambda>_.
               throw (McpDenied (''tool '' @ sq @ td_name d @ sq @ '' requires a permission not in the granted set'')))
          else andthen (provider_call P c) (\<lambda>result.
               if td_trusted d then ret (mcp_trusted (tr_output result))
               else andthen (audit_note (exec_event_new (ids 0) TaintMarked action_id now
                        (''mcp tool '' @ sq @ td_name d @ sq @ '' output marked untrusted''))) (\<lambda>_.
                    ret (mcp_untrusted (tr_output result)))))"

lemma audit_note_eq: "audit_note e (c, w) = (Done (Inr ()), (c @ [e], w))"
  by (simp add: audit_note_def collector_record_def)

text \<open>Two descriptors of the in-memory provider never share a name.\<close>

definition named_tools :: "mock_provider \<Rightarrow> bool" where
  "named_tools tools \<longleftrightarrow> keyed (td_name \<circ> mt_descriptor) tools"

lemma named_with_tool: "named_tools tools \<Longrightarrow> named_tools (with_tool d canned tools)"
  unfolding named_tools_def with_tool_def by (rule keyed_insert) simp_all

lemma named_defaults: "named_tools with_defaults"
  unfolding with_defaults_def Let_def by (intro named_with_tool) (simp add: named_tools_def)

lemma find_named:
  assumes "distinct (map key xs)"
  shows "List.find (\<lambda>x. key x = k) xs = Some x \<longleftrightarrow> x \<in> set xs \<and> key x = k"
  using assms by (induction xs) (auto split: if_splits)

lemma mock_find:
  assumes "named_tools tools"
  shows "List.find (\<lambda>d. td_name d = name) (mock_describe tools) = mock_descriptor tools name"
proof -
  have k: "keyed (td_name \<circ> mt_descriptor) tools" using assms by (simp add: named_tools_def)
  have mset: "set (mock_describe tools) = (mt_descriptor \<circ> snd) ` set tools" by (simp add: mock_describe_def)
  have "distinct (map fst (sort_key fst tools))"
    using keyed_ok[OF k] by (metis distinct_sort distinct_map set_sort sort_key_def)
  moreover have "map fst (sort_key fst tools) = map td_name (mock_describe tools)"
    using keyed_fst[OF k] by (auto simp: mock_describe_def comp_def map_eq_conv)
  ultimately have d: "distinct (map td_name (mock_describe tools))" by simp
  show ?thesis
  proof (cases "mock_descriptor tools name")
    case None
    then have "hm_get tools name = None" by (simp add: mock_descriptor_def)
    then have "name \<notin> td_name ` set (mock_describe tools)"
      using keyed_fst[OF k] unfolding mset by (force simp: map_of_eq_None_iff)
    with None show ?thesis by (auto simp: find_None_iff)
  next
    case (Some x)
    then obtain t where t: "hm_get tools name = Some t" "x = mt_descriptor t" by (auto simp: mock_descriptor_def)
    then have "x \<in> set (mock_describe tools)" unfolding mset using hm_get_mem[OF t(1)] by force
    moreover have "td_name x = name" using keyed_get[OF k t(1)] t(2) by simp
    ultimately show ?thesis using find_named[OF d] Some by simp
  qed
qed

text \<open>
  The gate over the in-memory provider: the permission it checks is that of the tool it then runs.
\<close>

theorem mock_gate_checks_the_tool_it_runs:
  assumes "named_tools tools" "call_with_policy ids (mock_mcp tools) granted c now a (log, w) = (Done (Inr res), s')"
  shows "case hm_get tools (tc_tool c) of
      None \<Rightarrow> False
    | Some t \<Rightarrow> td_permission (mt_descriptor t) \<in> set granted \<and>
        tr_output res = (case mt_canned t of None \<Rightarrow> tc_input c | Some v \<Rightarrow> v) \<and>
        tr_untrusted res = (\<not> td_trusted (mt_descriptor t))"
proof -
  have "List.find (\<lambda>d. td_name d = tc_tool c) (mp_describe (mock_mcp tools)) = mock_descriptor tools (tc_tool c)"
    using mock_find[OF assms(1)] by (simp add: mock_mcp_def)
  then show ?thesis
    using assms(2) unfolding call_with_policy_def mock_descriptor_def
    by (auto simp: throw_def ret_def mock_mcp_def mock_call_def provider_call_def audit_note_eq
        mcp_untrusted_def mcp_trusted_def elim!: andthen_cases split: option.splits if_splits prod.splits)
qed

end
