(* ===== verification/Facade.thy ===== *)
theory Facade
  imports Mcp "HOL-Library.Product_Lexorder"
begin

section \<open>The action runtime\<close>

text \<open>
  Models \<^verbatim>\<open>crates/familyclaw-actions/src/facade.rs\<close>: the runtime that joins the pipeline, the
  executors, the pending approvals, the rate limiter, the dispatch outbox and the task log. The two
  stores are the traits \<open>'p pending_trait\<close> and \<open>'o outbox_trait\<close> with their states; each store keeps
  the file system as far as its own file goes, and so does the task log. What the machine does to a
  call is its environment: fresh identifiers, and clock and fault of every write.
\<close>

definition DEFAULT_APPROVAL_TTL_MINUTES :: int where
  "DEFAULT_APPROVAL_TTL_MINUTES = 1440"

text \<open>\<^verbatim>\<open>str::parse::<i64>\<close>: an optional sign, then at least one digit; the value must fit.\<close>

definition parse_i64 :: "string \<Rightarrow> int option" where
  "parse_i64 s =
     (let neg = (case s of c # _ \<Rightarrow> c = CHR ''-'' | [] \<Rightarrow> False);
          ds = (case s of c # r \<Rightarrow> if c = CHR ''+'' \<or> c = CHR ''-'' then r else s | [] \<Rightarrow> s)
      in if ds = [] then None
         else case digits_value 0 ds of
                None \<Rightarrow> None
              | Some v \<Rightarrow>
                  (let i = (if neg then - int v else int v)
                   in if - (2 ^ 63) \<le> i \<and> i < 2 ^ 63 then Some i else None))"

definition approval_ttl_minutes :: "string option \<Rightarrow> int" where
  "approval_ttl_minutes env =
     (case env of
        None \<Rightarrow> DEFAULT_APPROVAL_TTL_MINUTES
      | Some v \<Rightarrow> (case parse_i64 (trim v) of None \<Rightarrow> DEFAULT_APPROVAL_TTL_MINUTES | Some m \<Rightarrow> m))"

definition DEFAULT_DANGEROUS_TOOL_WINDOW_SECS :: int where
  "DEFAULT_DANGEROUS_TOOL_WINDOW_SECS = 3600"

definition DEFAULT_DANGEROUS_TOOL_LIMIT :: nat where
  "DEFAULT_DANGEROUS_TOOL_LIMIT = 256"

definition DEFAULT_BEING_ID :: string where
  "DEFAULT_BEING_ID = ''operator''"

record skill_summary =
  ss_id :: skill_id
  ss_name :: string
  ss_version :: string
  ss_risk :: action_risk
  ss_approval :: bool

definition awaiting_approval :: "submit_outcome \<Rightarrow> bool" where
  "awaiting_approval o1 \<longleftrightarrow> so_pending o1 \<noteq> None"

record pending_approval =
  pa_approval :: approval_id
  pa_task :: task_id

subsection \<open>State and environment\<close>

text \<open>
  What stays fixed: the third-party functions, the stores' implementations, the task log if there is
  one, the environment variable of the approval time, and \<^verbatim>\<open>chrono\<close>'s duration of a number of
  minutes (none where it panics).
\<close>

record ('p, 'o) rt_config =
  rc_ext :: ext
  rc_pending :: "'p pending_trait"
  rc_outbox :: "'o outbox_trait"
  rc_durable :: "(task_codec \<times> path) option"
  rc_ttl_env :: "string option"
  rc_minutes :: "int \<Rightarrow> int option"

record ('p, 'o, 'w) runtime =
  rt_pipe :: pipeline
  rt_world :: 'w
  rt_executors :: "(skill_id, 'w executor) hashmap"
  rt_proofs :: "(task_id, proof_bundle) hashmap"
  rt_pending :: 'p
  rt_tasks :: fs
  rt_limiter :: rate_limiter
  rt_being :: string
  rt_outbox :: 'o

record call_env =
  ce_ids :: ids
  ce_store :: store_env
  ce_intent :: row_env
  ce_commit :: row_env
  ce_task :: fault

definition with_pending_store :: "'p \<Rightarrow> 'w \<Rightarrow> ('p, mem_outbox, 'w) runtime" where
  "with_pending_store pend w =
     \<lparr>rt_pipe = pipeline_new, rt_world = w, rt_executors = [], rt_proofs = [], rt_pending = pend,
      rt_tasks = (\<lambda>_. None), rt_limiter = limiter_new DEFAULT_DANGEROUS_TOOL_WINDOW_SECS DEFAULT_DANGEROUS_TOOL_LIMIT,
      rt_being = DEFAULT_BEING_ID, rt_outbox = []\<rparr>"

definition runtime_new :: "'w \<Rightarrow> (mem_pending, mem_outbox, 'w) runtime" where
  "runtime_new w = with_pending_store [] w"

definition with_rate_limiter :: "rate_limiter \<Rightarrow> ('p, 'o, 'w) runtime \<Rightarrow> ('p, 'o, 'w) runtime" where
  "with_rate_limiter rl s = s\<lparr>rt_limiter := rl\<rparr>"

definition with_being_id :: "string \<Rightarrow> ('p, 'o, 'w) runtime \<Rightarrow> ('p, 'o, 'w) runtime" where
  "with_being_id b s = s\<lparr>rt_being := b\<rparr>"

text \<open>Steps on one part of the runtime.\<close>

definition on_pipe :: "('w pipe_state, 'a) act \<Rightarrow> (('p, 'o, 'w) runtime, 'a) act" where
  "on_pipe f s = (case f (rt_pipe s, rt_world s) of (r, (p, w)) \<Rightarrow> (r, s\<lparr>rt_pipe := p, rt_world := w\<rparr>))"

definition on_pending :: "('p \<Rightarrow> (action_error + 'a) outcome \<times> 'p) \<Rightarrow> (('p, 'o, 'w) runtime, 'a) act" where
  "on_pending f s = (case f (rt_pending s) of (r, p) \<Rightarrow> (r, s\<lparr>rt_pending := p\<rparr>))"

definition on_outbox :: "('o \<Rightarrow> (action_error + 'a) outcome \<times> 'o) \<Rightarrow> (('p, 'o, 'w) runtime, 'a) act" where
  "on_outbox f s = (case f (rt_outbox s) of (r, x) \<Rightarrow> (r, s\<lparr>rt_outbox := x\<rparr>))"

definition on_limiter :: "(rate_limiter \<Rightarrow> (action_error + 'a) outcome \<times> rate_limiter) \<Rightarrow> (('p, 'o, 'w) runtime, 'a) act" where
  "on_limiter f s = (case f (rt_limiter s) of (r, x) \<Rightarrow> (r, s\<lparr>rt_limiter := x\<rparr>))"

definition keep_proof :: "task_id \<Rightarrow> proof_bundle option \<Rightarrow> (('p, 'o, 'w) runtime, unit) act" where
  "keep_proof i b = change (\<lambda>s. case b of None \<Rightarrow> s | Some x \<Rightarrow> s\<lparr>rt_proofs := hm_insert i x (rt_proofs s)\<rparr>)"

definition snapshot_task_if_durable ::
  "('p, 'o) rt_config \<Rightarrow> call_env \<Rightarrow> task_id \<Rightarrow> (('p, 'o, 'w) runtime, unit) act" where
  "snapshot_task_if_durable R env i s =
     (case rc_durable R of
        None \<Rightarrow> (Done (Inr ()), s)
      | Some (TC, p) \<Rightarrow>
          (case queue_get (pl_queue (rt_pipe s)) i of
             None \<Rightarrow> (Done (Inr ()), s)
           | Some t \<Rightarrow> (case task_append TC p (ce_task env) (rt_tasks s) t of (r, d) \<Rightarrow> (r, s\<lparr>rt_tasks := d\<rparr>))))"

subsection \<open>Skills\<close>

definition register_skill ::
  "('p, 'o) rt_config \<Rightarrow> skill_ext \<Rightarrow> skill_manifest \<Rightarrow> 'w executor \<Rightarrow> (('p, 'o, 'w) runtime, unit) act" where
  "register_skill R S m exe =
     andthen (\<lambda>s. case pipe_register (rc_ext R) S m (rt_pipe s) of (r, p) \<Rightarrow> (r, s\<lparr>rt_pipe := p\<rparr>)) (\<lambda>_.
     change (\<lambda>s. s\<lparr>rt_executors := hm_insert (m_id m) exe (rt_executors s)\<rparr>))"

definition summary_of :: "skill_manifest \<Rightarrow> skill_summary" where
  "summary_of m =
     \<lparr>ss_id = m_id m, ss_name = m_name m, ss_version = m_version m, ss_risk = m_risk m,
      ss_approval = requires_approval (required_approval (m_risk m) (m_policy m))\<rparr>"

definition list_skills :: "('p, 'o, 'w) runtime \<Rightarrow> skill_summary list" where
  "list_skills s = sort_key (\<lambda>x. (ss_name x, ss_id x)) (map summary_of (registry_list (pl_registry (rt_pipe s))))"

fun permission_severity :: "skill_permission \<Rightarrow> nat" where
  "permission_severity PReadFiles = 0"
| "permission_severity PNetworkRead = 1"
| "permission_severity PWriteLocalFiles = 2"
| "permission_severity PSendMessage = 3"
| "permission_severity PExecuteCode = 4"
| "permission_severity PWriteExternal = 5"
| "permission_severity PSpendMoney = 6"

text \<open>\<^verbatim>\<open>Iterator::max_by_key\<close>: the last of the largest.\<close>

definition max_by_key :: "('a \<Rightarrow> nat) \<Rightarrow> 'a list \<Rightarrow> 'a option" where
  "max_by_key f xs = (case xs of [] \<Rightarrow> None | x # ys \<Rightarrow> Some (foldl (\<lambda>a b. if f b < f a then a else b) x ys))"

definition strictest_permission :: "skill_permission list \<Rightarrow> skill_permission" where
  "strictest_permission ps = (case max_by_key permission_severity ps of None \<Rightarrow> PReadFiles | Some p \<Rightarrow> p)"

definition tool_definitions :: "('p, 'o, 'w) runtime \<Rightarrow> mcp_descriptor list" where
  "tool_definitions s =
     map snd (sort_key (\<lambda>(i, d). (td_name d, i))
       (map (\<lambda>m. (m_id m, descriptor_new (m_name m) (m_description m) (m_input_schema m) (strictest_permission (m_permissions m))))
         (registry_list (pl_registry (rt_pipe s)))))"

definition map_name_to_skill :: "string \<Rightarrow> ('p, 'o, 'w) runtime \<Rightarrow> skill_id option" where
  "map_name_to_skill name s =
     min_by (\<lambda>i. i) (map m_id (filter (\<lambda>m. m_name m = name) (registry_list (pl_registry (rt_pipe s)))))"

subsection \<open>Submitting\<close>

definition pending_summary :: "('p, 'o) rt_config \<Rightarrow> skill_id \<Rightarrow> ('p, 'o, 'w) runtime \<Rightarrow> string" where
  "pending_summary R i s =
     (let name = (case registry_get (pl_registry (rt_pipe s)) i of None \<Rightarrow> show_uuid (rc_ext R) i | Some m \<Rightarrow> m_name m)
      in ''taito '' @ sq @ name @ sq @ '' odottaa ihmisen hyv'' @ ae @ ''ksynt'' @ ae @ ae)"

definition shift_ids :: "nat \<Rightarrow> ids \<Rightarrow> ids" where
  "shift_ids n ids = (\<lambda>k. ids (n + k))"

definition ttl_duration :: "('p, 'o) rt_config \<Rightarrow> ('s, int) act" where
  "ttl_duration R s =
     (case rc_minutes R (approval_ttl_minutes (rc_ttl_env R)) of None \<Rightarrow> (Killed, s) | Some d \<Rightarrow> (Done (Inr d), s))"

definition submit_task_as ::
  "('p, 'o) rt_config \<Rightarrow> call_env \<Rightarrow> string \<Rightarrow> skill_id \<Rightarrow> json \<Rightarrow> timestamp \<Rightarrow>
   (('p, 'o, 'w) runtime, submit_outcome) act" where
  "submit_task_as R env being skill payload now =
     andthen (reading (\<lambda>s. case hm_get (rt_executors s) skill of
                None \<Rightarrow> Inl (UnknownSkill (show_uuid (rc_ext R) skill)) | Some exe \<Rightarrow> Inr exe)) (\<lambda>exe.
     let task = task_new (ce_ids env 0) skill payload now; task_id = t_id task in
     andthen (on_pipe (pipe_run (rc_ext R) (shift_ids 1 (ce_ids env)) exe task now)) (\<lambda>out.
     andthen (keep_proof task_id (po_proof out)) (\<lambda>_.
     andthen
       (if po_awaiting out then
          andthen (on_limiter (\<lambda>rl. check_and_record (rc_ext R) rl being now)) (\<lambda>_.
          andthen (ttl_duration R) (\<lambda>ttl.
          andthen (on_pipe (grant_approval (rc_ext R) (shift_ids 7 (ce_ids env)) (po_action out) payload now ttl)) (\<lambda>a.
          andthen (reading (\<lambda>s. Inr (pending_summary R skill s))) (\<lambda>summary.
          andthen (on_pending (\<lambda>p. ps_insert (rc_pending R) (ce_store env) p
                     (pending_record_new task_id a summary now))) (\<lambda>_.
          andthen (snapshot_task_if_durable R env task_id) (\<lambda>_.
          ret (Some (a_id a))))))))
        else andthen (snapshot_task_if_durable R env task_id) (\<lambda>_. ret None)) (\<lambda>pending.
     ret \<lparr>so_task = task_id, so_status = po_status out, so_pending = pending\<rparr>))))"

definition submit_task ::
  "('p, 'o) rt_config \<Rightarrow> call_env \<Rightarrow> skill_id \<Rightarrow> json \<Rightarrow> timestamp \<Rightarrow> (('p, 'o, 'w) runtime, submit_outcome) act" where
  "submit_task R env skill payload now s = submit_task_as R env (rt_being s) skill payload now s"

text \<open>A call whose error the caller looks at (a \<^verbatim>\<open>match\<close> on the result).\<close>

definition attempt :: "('s, 'a) act \<Rightarrow> ('s, action_error + 'a) act" where
  "attempt m s = (case m s of (Done r, s') \<Rightarrow> (Done (Inr r), s') | (Killed, s') \<Rightarrow> (Killed, s'))"

definition lookup_key :: "('p, 'o) rt_config \<Rightarrow> string \<Rightarrow> (('p, 'o, 'w) runtime, dispatch_lookup) act" where
  "lookup_key R key = reading (\<lambda>s. ob_lookup (rc_outbox R) (rt_outbox s) key)"

definition interrupted_submit :: "string \<Rightarrow> action_error" where
  "interrupted_submit key = PolicyDeniedErr (''l'' @ ae @ ''hetys '' @ sq @ key @ sq @ '' j'' @ ae @
     ''i kesken aiemmassa kaatumisessa (intent ilman committed) '' @ emdash @
     '' ei ajeta uudelleen kaksoislaukaisun est'' @ ae @ ''miseksi'')"

definition submit_task_idempotent ::
  "('p, 'o) rt_config \<Rightarrow> call_env \<Rightarrow> string \<Rightarrow> string \<Rightarrow> skill_id \<Rightarrow> json \<Rightarrow> timestamp \<Rightarrow>
   (('p, 'o, 'w) runtime, submit_outcome) act" where
  "submit_task_idempotent R env key being skill payload now =
     andthen (lookup_key R key) (\<lambda>found.
     case found of
       Committed d \<Rightarrow> of_result (into_result d)
     | InProgress \<Rightarrow> throw (interrupted_submit key)
     | NotStarted \<Rightarrow>
         andthen (on_outbox (\<lambda>x. ob_intent (rc_outbox R) (ce_intent env) x key)) (\<lambda>_.
         andthen (attempt (submit_task_as R env being skill payload now)) (\<lambda>result.
         andthen (on_outbox (\<lambda>x. ob_committed (rc_outbox R) (ce_commit env) x key
                    (case result of Inr out \<Rightarrow> from_submit out | Inl e \<Rightarrow> from_error (show_error e)))) (\<lambda>_.
         of_result result))))"

subsection \<open>Approving, denying, aborting\<close>

definition approval_dispatch_key :: "ext \<Rightarrow> approval_id \<Rightarrow> string" where
  "approval_dispatch_key X i = ''approval-'' @ show_uuid X i"

definition interrupted_approval :: "ext \<Rightarrow> approval_id \<Rightarrow> action_error" where
  "interrupted_approval X i = PolicyDeniedErr (''hyv'' @ ae @ ''ksynn'' @ ae @ ''n '' @ sq @ show_uuid X i @ sq @
     '' l'' @ ae @ ''hetys j'' @ ae @ ''i kesken aiemmassa kaatumisessa (intent ilman committed) '' @ emdash @
     '' ei ajeta uudelleen kaksoislaukaisun est'' @ ae @ ''miseksi'')"

definition pending_or_missing :: "('p, 'o) rt_config \<Rightarrow> approval_id \<Rightarrow> (('p, 'o, 'w) runtime, pending_record) act" where
  "pending_or_missing R i =
     reading (\<lambda>s. case ps_get (rc_pending R) (rt_pending s) i of
        Inl e \<Rightarrow> Inl e
      | Inr None \<Rightarrow> Inl (ApprovalMissingErr (show_uuid (rc_ext R) i))
      | Inr (Some r) \<Rightarrow> Inr r)"

definition remove_pending ::
  "('p, 'o) rt_config \<Rightarrow> call_env \<Rightarrow> approval_id \<Rightarrow> (('p, 'o, 'w) runtime, pending_record option) act" where
  "remove_pending R env i = on_pending (\<lambda>p. ps_remove (rc_pending R) (ce_store env) p i)"

definition approve ::
  "('p, 'o) rt_config \<Rightarrow> call_env \<Rightarrow> approval_id \<Rightarrow> timestamp \<Rightarrow> (('p, 'o, 'w) runtime, submit_outcome) act" where
  "approve R env i now =
     andthen (pending_or_missing R i) (\<lambda>entry.
     let key = approval_dispatch_key (rc_ext R) i in
     andthen (lookup_key R key) (\<lambda>found.
     case found of
       Committed d \<Rightarrow> of_result (into_result d)
     | InProgress \<Rightarrow> throw (interrupted_approval (rc_ext R) i)
     | NotStarted \<Rightarrow>
         andthen (on_pipe (task_or_missing (rc_ext R) (pr_task entry))) (\<lambda>task.
         andthen (reading (\<lambda>s. case hm_get (rt_executors s) (t_skill task) of
                    None \<Rightarrow> Inl (UnknownSkill (show_uuid (rc_ext R) (t_skill task))) | Some exe \<Rightarrow> Inr exe)) (\<lambda>exe.
         andthen (on_outbox (\<lambda>x. ob_intent (rc_outbox R) (ce_intent env) x key)) (\<lambda>_.
         andthen (attempt (on_pipe (run_after_approval (rc_ext R) (ce_ids env) exe (pr_task entry) (pr_approval entry) now))) (\<lambda>result.
         andthen (on_outbox (\<lambda>x. ob_committed (rc_outbox R) (ce_commit env) x key
                    (case result of
                       Inr out \<Rightarrow> from_submit \<lparr>so_task = pr_task entry, so_status = po_status out, so_pending = None\<rparr>
                     | Inl e \<Rightarrow> from_error (show_error e)))) (\<lambda>_.
         andthen (of_result result) (\<lambda>out.
         andthen (remove_pending R env i) (\<lambda>_.
         andthen (snapshot_task_if_durable R env (pr_task entry)) (\<lambda>_.
         andthen (keep_proof (pr_task entry) (po_proof out)) (\<lambda>_.
         ret \<lparr>so_task = pr_task entry, so_status = po_status out, so_pending = None\<rparr>)))))))))))"

definition deny_pending ::
  "('p, 'o) rt_config \<Rightarrow> call_env \<Rightarrow> approval_id \<Rightarrow> timestamp \<Rightarrow> (('p, 'o, 'w) runtime, unit) act" where
  "deny_pending R env i now =
     andthen (pending_or_missing R i) (\<lambda>entry.
     andthen (remove_pending R env i) (\<lambda>_.
     andthen (on_pipe (on_queue (\<lambda>q. transition (rc_ext R) q (pr_task entry) Cancelled now))) (\<lambda>_.
     snapshot_task_if_durable R env (pr_task entry))))"

definition QUARANTINE_REASON :: string where
  "QUARANTINE_REASON = ''approval blocked: matching continuation was not persisted durably''"

text \<open>The errors a part of the abort collects.\<close>

definition complaint :: "string \<Rightarrow> action_error + 'a \<Rightarrow> string list" where
  "complaint what r = (case r of Inl e \<Rightarrow> [what @ show_error e] | Inr _ \<Rightarrow> [])"

definition quarantine ::
  "('p, 'o) rt_config \<Rightarrow> call_env \<Rightarrow> string \<Rightarrow> (('p, 'o, 'w) runtime, string list) act" where
  "quarantine R env key =
     andthen (attempt (lookup_key R key)) (\<lambda>found.
     case found of
       Inr NotStarted \<Rightarrow>
         andthen (attempt (on_outbox (\<lambda>x. ob_intent (rc_outbox R) (ce_intent env) x key))) (\<lambda>r.
         case r of
           Inl e \<Rightarrow> ret [''approval quarantine intent failed: '' @ show_error e]
         | Inr _ \<Rightarrow>
             andthen (attempt (on_outbox (\<lambda>x. ob_committed (rc_outbox R) (ce_commit env) x key (from_error QUARANTINE_REASON)))) (\<lambda>c.
             ret (complaint ''approval quarantine commit failed: '' c)))
     | Inr InProgress \<Rightarrow> ret []
     | Inr (Committed d) \<Rightarrow>
         ret (if do_error d \<noteq> Some QUARANTINE_REASON
              then [''approval dispatch was already committed before rollback''] else [])
     | Inl e \<Rightarrow> ret [''approval quarantine lookup failed: '' @ show_error e])"

definition drop_pending ::
  "('p, 'o) rt_config \<Rightarrow> call_env \<Rightarrow> approval_id \<Rightarrow> timestamp \<Rightarrow> (('p, 'o, 'w) runtime, string list) act" where
  "drop_pending R env i now =
     andthen (attempt (reading (\<lambda>s. ps_get (rc_pending R) (rt_pending s) i))) (\<lambda>found.
     case found of
       Inl e \<Rightarrow> ret [''pending approval lookup failed: '' @ show_error e]
     | Inr None \<Rightarrow> ret []
     | Inr (Some entry) \<Rightarrow>
         andthen (attempt (remove_pending R env i)) (\<lambda>removed.
         case removed of
           Inl e \<Rightarrow> ret [''pending approval tombstone failed: '' @ show_error e]
         | Inr _ \<Rightarrow>
             andthen (attempt (on_pipe (on_queue (\<lambda>q. transition (rc_ext R) q (pr_task entry) Cancelled now)))) (\<lambda>moved.
             case moved of
               Inl e \<Rightarrow> ret [''pending task cancel failed: '' @ show_error e]
             | Inr _ \<Rightarrow>
                 andthen (attempt (snapshot_task_if_durable R env (pr_task entry))) (\<lambda>shot.
                 ret (complaint ''pending task snapshot failed: '' shot)))))"

fun join :: "string \<Rightarrow> string list \<Rightarrow> string" where
  "join sep [] = []"
| "join sep [x] = x"
| "join sep (x # y # xs) = x @ sep @ join sep (y # xs)"

definition abort_pending_after_continuation_failure ::
  "('p, 'o) rt_config \<Rightarrow> call_env \<Rightarrow> approval_id \<Rightarrow> timestamp \<Rightarrow> (('p, 'o, 'w) runtime, unit) act" where
  "abort_pending_after_continuation_failure R env i now =
     andthen (quarantine R env (approval_dispatch_key (rc_ext R) i)) (\<lambda>es.
     andthen (drop_pending R env i now) (\<lambda>fs.
     if es @ fs = [] then ret () else throw (PolicyDeniedErr (join ''; '' (es @ fs)))))"

subsection \<open>Reading the state\<close>

definition rt_status :: "('p, 'o, 'w) runtime \<Rightarrow> task_id \<Rightarrow> task_status option" where
  "rt_status s i = map_option t_status (queue_get (pl_queue (rt_pipe s)) i)"

definition rt_proof :: "('p, 'o, 'w) runtime \<Rightarrow> task_id \<Rightarrow> proof_bundle option" where
  "rt_proof s i = hm_get (rt_proofs s) i"

definition try_pending_approvals ::
  "('p, 'o) rt_config \<Rightarrow> ('p, 'o, 'w) runtime \<Rightarrow> action_error + pending_approval list" where
  "try_pending_approvals R s =
     (case ps_list (rc_pending R) (rt_pending s) of
        Inl e \<Rightarrow> Inl e
      | Inr rs \<Rightarrow> Inr (sort_key pa_approval (map (\<lambda>r. \<lparr>pa_approval = pr_id r, pa_task = pr_task r\<rparr>) rs)))"

definition pending_approvals :: "('p, 'o) rt_config \<Rightarrow> ('p, 'o, 'w) runtime \<Rightarrow> pending_approval list" where
  "pending_approvals R s = (case try_pending_approvals R s of Inl _ \<Rightarrow> [] | Inr ps \<Rightarrow> ps)"

definition evict_expired_approvals ::
  "('p, 'o) rt_config \<Rightarrow> call_env \<Rightarrow> timestamp \<Rightarrow> (('p, 'o, 'w) runtime, nat) act" where
  "evict_expired_approvals R env now = on_pending (\<lambda>p. ps_evict (rc_pending R) (ce_store env) p now)"

definition pending_field ::
  "(pending_record \<Rightarrow> 'a) \<Rightarrow> ('p, 'o) rt_config \<Rightarrow> ('p, 'o, 'w) runtime \<Rightarrow> approval_id \<Rightarrow> 'a option" where
  "pending_field f R s i =
     (case ps_get (rc_pending R) (rt_pending s) i of Inl _ \<Rightarrow> None | Inr r \<Rightarrow> map_option f r)"

definition pending_summary_for :: "('p, 'o) rt_config \<Rightarrow> ('p, 'o, 'w) runtime \<Rightarrow> approval_id \<Rightarrow> string option" where
  "pending_summary_for = pending_field pr_summary"

definition pending_expiry_for :: "('p, 'o) rt_config \<Rightarrow> ('p, 'o, 'w) runtime \<Rightarrow> approval_id \<Rightarrow> timestamp option" where
  "pending_expiry_for = pending_field pr_expires_at"

definition pending_created_at_for :: "('p, 'o) rt_config \<Rightarrow> ('p, 'o, 'w) runtime \<Rightarrow> approval_id \<Rightarrow> timestamp option" where
  "pending_created_at_for = pending_field pr_created"

end
