(* ===== verification/Runtime_Laws.thy ===== *)
theory Runtime_Laws
  imports Facade
begin

section \<open>What a call does to the outbox and to the world\<close>

text \<open>
  The calls of the runtime change the outbox only by its markers and the world only by an executor.
  Both facts are proved step by step for the whole calls; with the contract \<open>outbox_guard\<close> they give
  that a dispatch key runs an executor at most once.
\<close>

lemma preservesD: "preserves R m \<Longrightarrow> m s = (r, s') \<Longrightarrow> R s s'"
  unfolding preserves_def by (metis snd_conv)

lemma preserves_attempt: "preserves R m \<Longrightarrow> preserves R (attempt m)"
  unfolding preserves_def attempt_def by (simp split: prod.split outcome.split) (metis snd_conv)

lemma on_pipe_frame:
  "rt_outbox (snd (on_pipe f s)) = rt_outbox s" "rt_pending (snd (on_pipe f s)) = rt_pending s"
  "rt_tasks (snd (on_pipe f s)) = rt_tasks s" "rt_executors (snd (on_pipe f s)) = rt_executors s"
  by (simp_all add: on_pipe_def split: prod.split)

lemma on_pending_frame:
  "rt_outbox (snd (on_pending f s)) = rt_outbox s" "rt_world (snd (on_pending f s)) = rt_world s"
  "rt_pipe (snd (on_pending f s)) = rt_pipe s"
  by (simp_all add: on_pending_def split: prod.split)

lemma on_limiter_frame:
  "rt_outbox (snd (on_limiter f s)) = rt_outbox s" "rt_world (snd (on_limiter f s)) = rt_world s"
  by (simp_all add: on_limiter_def split: prod.split)

lemma on_outbox_frame: "rt_world (snd (on_outbox f s)) = rt_world s"
  by (simp add: on_outbox_def split: prod.split)

lemma on_outbox_outbox: "rt_outbox (snd (on_outbox f s)) = snd (f (rt_outbox s))"
  by (simp add: on_outbox_def split: prod.split)

lemma keep_proof_frame:
  "rt_outbox (snd (keep_proof i b s)) = rt_outbox s" "rt_world (snd (keep_proof i b s)) = rt_world s"
  by (simp_all add: keep_proof_def change_def split: option.split)

lemma snapshot_frame:
  "rt_outbox (snd (snapshot_task_if_durable R env i s)) = rt_outbox s"
  "rt_world (snd (snapshot_task_if_durable R env i s)) = rt_world s"
  by (simp_all add: snapshot_task_if_durable_def split: prod.split option.split)

lemma ttl_frame: "snd (ttl_duration R s) = s"
  by (simp add: ttl_duration_def split: option.split)

subsection \<open>The outbox\<close>

text \<open>A property of the outbox that its markers keep is kept by every call.\<close>

definition outbox_stable :: "'o outbox_trait \<Rightarrow> ('o \<Rightarrow> bool) \<Rightarrow> bool" where
  "outbox_stable O1 I \<longleftrightarrow>
     (\<forall>s env key. I s \<longrightarrow> I (snd (ob_intent O1 env s key))) \<and>
     (\<forall>s env key outcome. I s \<longrightarrow> I (snd (ob_committed O1 env s key outcome)))"

abbreviation carries :: "('o \<Rightarrow> bool) \<Rightarrow> ('p, 'o, 'w) runtime \<Rightarrow> ('p, 'o, 'w) runtime \<Rightarrow> bool" where
  "carries I s s' \<equiv> I (rt_outbox s) \<longrightarrow> I (rt_outbox s')"

named_theorems carried \<open>steps that keep a stable property of the outbox\<close>

lemma carried_steps [carried]:
  "preserves (carries I) (on_pipe f)" "preserves (carries I) (on_pending g)" "preserves (carries I) (on_limiter h)"
  "preserves (carries I) (keep_proof i b)" "preserves (carries I) (snapshot_task_if_durable R env i)"
  "preserves (carries I) (ttl_duration R)" "preserves (carries I) (reading k)" "preserves (carries I) (ret x)"
  "preserves (carries I) (throw e)" "preserves (carries I) (of_result r)" "preserves (carries I) (lookup_key R key)"
  "preserves (carries I) (pending_or_missing R j)" "preserves (carries I) (remove_pending R env j)"
  by (simp_all add: preserves_def on_pipe_frame on_pending_frame on_limiter_frame keep_proof_frame snapshot_frame
      ttl_frame act_defs lookup_key_def pending_or_missing_def remove_pending_def)

lemma carried_andthen [carried]:
  "preserves (carries I) m \<Longrightarrow> (\<And>x. preserves (carries I) (f x)) \<Longrightarrow> preserves (carries I) (andthen m f)"
  by (rule preserves_andthen) auto

lemma carried_attempt [carried]: "preserves (carries I) m \<Longrightarrow> preserves (carries I) (attempt m)"
  by (rule preserves_attempt)

lemma carried_if [carried]:
  "preserves (carries I) m \<Longrightarrow> preserves (carries I) n \<Longrightarrow> preserves (carries I) (if b then m else n)"
  by simp

lemma carried_markers:
  assumes "outbox_stable (rc_outbox R) I"
  shows "preserves (carries I) (on_outbox (\<lambda>x. ob_intent (rc_outbox R) env x key))"
    and "preserves (carries I) (on_outbox (\<lambda>x. ob_committed (rc_outbox R) env x key outcome))"
  using assms unfolding preserves_def outbox_stable_def on_outbox_outbox by blast+

lemma carried_case_lookup [carried]:
  "(\<And>d. preserves (carries I) (f d)) \<Longrightarrow> preserves (carries I) n \<Longrightarrow> preserves (carries I) p \<Longrightarrow>
     preserves (carries I) (case l of NotStarted \<Rightarrow> n | Committed d \<Rightarrow> f d | InProgress \<Rightarrow> p)"
  by (cases l) simp_all

lemma carried_case_sum [carried]:
  "(\<And>e. preserves (carries I) (f e)) \<Longrightarrow> (\<And>x. preserves (carries I) (g x)) \<Longrightarrow>
     preserves (carries I) (case r of Inl e \<Rightarrow> f e | Inr x \<Rightarrow> g x)"
  by (cases r) simp_all

lemma carried_case_option [carried]:
  "preserves (carries I) n \<Longrightarrow> (\<And>x. preserves (carries I) (g x)) \<Longrightarrow>
     preserves (carries I) (case r of None \<Rightarrow> n | Some x \<Rightarrow> g x)"
  by (cases r) simp_all

lemma carried_register: "preserves (carries I) (register_skill R S m exe)"
  by (auto simp: preserves_def register_skill_def andthen_def change_def split: prod.splits outcome.splits sum.splits)

lemma carried_submit [carried]: "preserves (carries I) (submit_task_as R env being skill payload now)"
  unfolding submit_task_as_def Let_def by (intro carried)

lemma carried_deny: "preserves (carries I) (deny_pending R env i now)"
  unfolding deny_pending_def by (intro carried)

lemma carried_evict: "preserves (carries I) (evict_expired_approvals R env now)"
  unfolding evict_expired_approvals_def by (intro carried)

lemma carried_keyed:
  assumes "outbox_stable (rc_outbox R) I"
  shows "preserves (carries I) (submit_task_idempotent R env key being skill payload now)"
  unfolding submit_task_idempotent_def by (intro carried carried_markers[OF assms])

lemma carried_approve:
  assumes "outbox_stable (rc_outbox R) I"
  shows "preserves (carries I) (approve R env i now)"
  unfolding approve_def Let_def by (intro carried carried_markers[OF assms])

lemma carried_abort:
  assumes "outbox_stable (rc_outbox R) I"
  shows "preserves (carries I) (abort_pending_after_continuation_failure R env i now)"
  unfolding abort_pending_after_continuation_failure_def quarantine_def drop_pending_def
  by (intro carried carried_markers[OF assms])

subsection \<open>The world\<close>

abbreviation still :: "('p, 'o, 'w) runtime \<Rightarrow> ('p, 'o, 'w) runtime \<Rightarrow> bool" where
  "still s s' \<equiv> rt_world s' = rt_world s"

lemma still_steps:
  "preserves still (on_pending g)" "preserves still (on_limiter h)" "preserves still (on_outbox k)"
  "preserves still (keep_proof i b)" "preserves still (snapshot_task_if_durable R env i)"
  "preserves still (lookup_key R key)" "preserves still (pending_or_missing R j)"
  "preserves still (of_result r)" "preserves still (throw e)" "preserves still (reading q)"
  by (simp_all add: preserves_def on_pending_frame on_limiter_frame keep_proof_frame snapshot_frame on_outbox_frame
      act_defs lookup_key_def pending_or_missing_def)

lemma still_on_pipe: "preserves same_world f \<Longrightarrow> preserves still (on_pipe f)"
  unfolding preserves_def on_pipe_def by (auto split: prod.split) (metis snd_conv)

lemma moved:
  assumes "andthen m f s = (r, s')" "preserves still m" "rt_world s' \<noteq> rt_world s"
  obtains x s1 where "m s = (Done (Inr x), s1)" "rt_world s1 = rt_world s" "f x s1 = (r, s')"
  using assms(1)
proof (cases rule: andthen_cases)
  case (1 x s1)
  moreover have "rt_world s1 = rt_world s" using assms(2) 1(1) unfolding preserves_def by (metis snd_conv)
  ultimately show ?thesis using that by blast
qed (use assms(2,3) in \<open>unfold preserves_def, metis snd_conv\<close>)+


text \<open>A keyed call changes the world only after its intent was recorded for a key that was not started.\<close>

lemma intent_moves:
  assumes "andthen (on_outbox (\<lambda>x. ob_intent (rc_outbox R) env x key)) rest s = (r, s')"
    and "rt_world s' \<noteq> rt_world s"
    and "\<And>I u. outbox_stable (rc_outbox R) I \<Longrightarrow> preserves (carries I) (rest u)"
  obtains o1 where
    "ob_intent (rc_outbox R) env (rt_outbox s) key = (Done (Inr ()), o1)"
    "\<And>I. outbox_stable (rc_outbox R) I \<Longrightarrow> I o1 \<Longrightarrow> I (rt_outbox s')"
  using assms(1) still_steps(3) assms(2)
proof (rule moved)
  fix u s1
  assume i: "on_outbox (\<lambda>x. ob_intent (rc_outbox R) env x key) s = (Done (Inr u), s1)" and rest: "rest u s1 = (r, s')"
  show ?thesis
  proof (rule that)
    show "ob_intent (rc_outbox R) env (rt_outbox s) key = (Done (Inr ()), rt_outbox s1)"
      using i by (auto simp: on_outbox_def split: prod.splits)
    fix I assume st: "outbox_stable (rc_outbox R) I" "I (rt_outbox s1)"
    from preservesD[OF assms(3)[OF st(1)] rest] st(2) show "I (rt_outbox s')" by blast
  qed
qed

definition dispatched :: "('p, 'o) rt_config \<Rightarrow> string \<Rightarrow> row_env \<Rightarrow> ('p, 'o, 'w) runtime \<Rightarrow> ('p, 'o, 'w) runtime \<Rightarrow> bool" where
  "dispatched R key env s s' \<longleftrightarrow>
     ob_lookup (rc_outbox R) (rt_outbox s) key = Inr NotStarted \<and>
     (\<exists>o1. ob_intent (rc_outbox R) env (rt_outbox s) key = (Done (Inr ()), o1) \<and>
        (\<forall>I. outbox_stable (rc_outbox R) I \<longrightarrow> I o1 \<longrightarrow> I (rt_outbox s')))"

lemma lookup_key_value:
  "lookup_key R key s = (Done (Inr l), s1) \<Longrightarrow> ob_lookup (rc_outbox R) (rt_outbox s) key = Inr l \<and> s1 = s"
  by (auto simp: lookup_key_def reading_def)

lemma keyed_moves:
  assumes "submit_task_idempotent R env key being k v now s = (r, s')" "rt_world s' \<noteq> rt_world s"
  shows "dispatched R key (ce_intent env) s s'"
  using assms(1)[unfolded submit_task_idempotent_def] still_steps(6) assms(2)
proof (rule moved)
  fix found s0
  assume l: "lookup_key R key s = (Done (Inr found), s0)"
  note found = lookup_key_value[OF l]
  let ?rest = "\<lambda>_. andthen (attempt (submit_task_as R env being k v now)) (\<lambda>result.
       andthen (on_outbox (\<lambda>x. ob_committed (rc_outbox R) (ce_commit env) x key
                  (case result of Inr out \<Rightarrow> from_submit out | Inl e \<Rightarrow> from_error (show_error e)))) (\<lambda>_.
       of_result result))"
  assume rest: "(case found of NotStarted \<Rightarrow> andthen (on_outbox (\<lambda>x. ob_intent (rc_outbox R) (ce_intent env) x key)) ?rest
     | Committed d \<Rightarrow> of_result (into_result d) | InProgress \<Rightarrow> throw (interrupted_submit key)) s0 = (r, s')"
  have nst: "found = NotStarted"
    using rest assms(2) found by (cases found) (auto simp: of_result_def throw_def)
  then have go: "andthen (on_outbox (\<lambda>x. ob_intent (rc_outbox R) (ce_intent env) x key)) ?rest s = (r, s')"
    using rest found by simp
  have tail: "preserves (carries I) (?rest u)" if "outbox_stable (rc_outbox R) I" for I u
    by (intro carried carried_markers[OF that])
  from go assms(2) tail show ?thesis
    by (rule intent_moves) (use found nst in \<open>auto simp: dispatched_def\<close>)
qed

lemma approve_moves:
  fixes s :: "('p, 'o, 'w) runtime"
  assumes "approve R env i now s = (r, s')" "rt_world s' \<noteq> rt_world s"
  shows "dispatched R (approval_dispatch_key (rc_ext R) i) (ce_intent env) s s'"
  using assms(1)[unfolded approve_def Let_def] still_steps(7) assms(2)
proof (rule moved)
  let ?key = "approval_dispatch_key (rc_ext R) i"
  fix entry s0
  assume "pending_or_missing R i s = (Done (Inr entry), s0)"
  then have s0: "s0 = s" by (simp add: pending_or_missing_def reading_def)
  let ?tail = "\<lambda>exe _. andthen (attempt (on_pipe (run_after_approval (rc_ext R) (ce_ids env) exe (pr_task entry) (pr_approval entry) now))) (\<lambda>result.
         andthen (on_outbox (\<lambda>x. ob_committed (rc_outbox R) (ce_commit env) x ?key
                    (case result of
                       Inr out \<Rightarrow> from_submit \<lparr>so_task = pr_task entry, so_status = po_status out, so_pending = None\<rparr>
                     | Inl e \<Rightarrow> from_error (show_error e)))) (\<lambda>_.
         andthen (of_result result) (\<lambda>out.
         andthen (remove_pending R env i) (\<lambda>_.
         andthen (snapshot_task_if_durable R env (pr_task entry)) (\<lambda>_.
         andthen (keep_proof (pr_task entry) (po_proof out)) (\<lambda>_.
         ret \<lparr>so_task = pr_task entry, so_status = po_status out, so_pending = None\<rparr>))))))"
  let ?run = "\<lambda>exe. andthen (on_outbox (\<lambda>x. ob_intent (rc_outbox R) (ce_intent env) x ?key)) (?tail exe)"
  let ?find = "\<lambda>task. reading (\<lambda>s :: ('p, 'o, 'w) runtime. case hm_get (rt_executors s) (t_skill task) of
                    None \<Rightarrow> Inl (UnknownSkill (show_uuid (rc_ext R) (t_skill task))) | Some exe \<Rightarrow> Inr exe)"
  let ?go = "andthen (on_pipe (task_or_missing (rc_ext R) (pr_task entry))) (\<lambda>task. andthen (?find task) ?run)"
  assume "andthen (lookup_key R ?key) (\<lambda>found. case found of
       Committed d \<Rightarrow> of_result (into_result d)
     | InProgress \<Rightarrow> throw (interrupted_approval (rc_ext R) i) | NotStarted \<Rightarrow> ?go) s0 = (r, s')"
  from this[unfolded s0] still_steps(6) assms(2) show ?thesis
  proof (rule moved)
    fix found s1
    assume l: "lookup_key R ?key s = (Done (Inr found), s1)"
    note found = lookup_key_value[OF l]
    assume rest: "(case found of NotStarted \<Rightarrow> ?go | Committed d \<Rightarrow> of_result (into_result d)
       | InProgress \<Rightarrow> throw (interrupted_approval (rc_ext R) i)) s1 = (r, s')"
    have nst: "found = NotStarted"
      using rest assms(2) found by (cases found) (auto simp: of_result_def throw_def)
    then have "?go s = (r, s')" using rest found by simp
    from this still_on_pipe[OF quiet_steps(4)] assms(2) show ?thesis
    proof (rule moved)
      fix task s2
      assume t: "on_pipe (task_or_missing (rc_ext R) (pr_task entry)) s = (Done (Inr task), s2)"
        and w: "rt_world s2 = rt_world s" and go: "andthen (?find task) ?run s2 = (r, s')"
      have o2: "rt_outbox s2 = rt_outbox s" using on_pipe_frame(1)[of _ s] t by (metis snd_conv)
      have "rt_world s' \<noteq> rt_world s2" using assms(2) w by simp
      with go still_steps(10) show ?thesis
      proof (rule moved)
        fix exe s3
        assume "?find task s2 = (Done (Inr exe), s3)" and run: "?run exe s3 = (r, s')"
        then have s3: "s3 = s2" by (simp add: reading_def)
        have tail: "preserves (carries I) (?tail exe u)" if "outbox_stable (rc_outbox R) I" for I u
          by (intro carried carried_markers[OF that])
        have "rt_world s' \<noteq> rt_world s3" using assms(2) w s3 by simp
        from run this tail show ?thesis
          by (rule intent_moves) (use found nst s3 o2 in \<open>auto simp: dispatched_def\<close>)
      qed
    qed
  qed
qed

lemma andthen_still_world:
  assumes "\<And>x. preserves still (f x)"
  shows "rt_world (snd (andthen m f s)) = rt_world (snd (m s))"
  using assms unfolding preserves_def andthen_def by (simp split: prod.split outcome.split sum.split)

named_theorems stays \<open>steps that leave the world alone\<close>

lemmas [stays] = still_steps

lemma stays_more [stays]:
  "preserves still (ret x)" "preserves still (ttl_duration R)" "preserves still (remove_pending R env j)"
  by (simp_all add: preserves_def act_defs ttl_frame remove_pending_def on_pending_frame)

lemma stays_andthen [stays]:
  "preserves still m \<Longrightarrow> (\<And>x. preserves still (f x)) \<Longrightarrow> preserves still (andthen m f)"
  by (rule preserves_andthen) auto

lemma stays_if [stays]: "preserves still m \<Longrightarrow> preserves still n \<Longrightarrow> preserves still (if b then m else n)"
  by simp

lemma stays_grant [stays]: "preserves still (on_pipe (grant_approval X ids a v now ttl))"
  unfolding grant_approval_def by (intro still_on_pipe quiet)

lemma attempt_world: "rt_world (snd (attempt m s)) = rt_world (snd (m s))"
  by (simp add: attempt_def split: prod.split outcome.split)

text \<open>The world after a submission is the world its run leaves.\<close>

lemma submit_world:
  assumes "hm_get (rt_executors s) skill = Some exe"
    and "pipe_run (rc_ext R) (shift_ids 1 (ce_ids env)) exe (task_new (ce_ids env 0) skill payload now) now
      (rt_pipe s, rt_world s) = (r, (p', w'))"
  shows "rt_world (snd (submit_task_as R env being skill payload now s)) = w'"
proof -
  have m: "reading (\<lambda>s. case hm_get (rt_executors s) skill of None \<Rightarrow> Inl (UnknownSkill (show_uuid (rc_ext R) skill))
      | Some exe \<Rightarrow> Inr exe) s = (Done (Inr exe), s)"
    using assms(1) by (simp add: reading_def)
  show ?thesis
    unfolding submit_task_as_def Let_def andthen_ok[where m = "reading h" for h, OF m]
    using assms(2) by (subst andthen_still_world) (intro stays, simp add: on_pipe_def)
qed

lemma keyed_world:
  assumes "ob_lookup (rc_outbox R) (rt_outbox s) key = Inr NotStarted"
    and "ob_intent (rc_outbox R) (ce_intent env) (rt_outbox s) key = (Done (Inr ()), o1)"
  shows "rt_world (snd (submit_task_idempotent R env key being skill payload now s)) =
    rt_world (snd (submit_task_as R env being skill payload now (s\<lparr>rt_outbox := o1\<rparr>)))"
proof -
  have 1: "lookup_key R key s = (Done (Inr NotStarted), s)" using assms(1) by (simp add: lookup_key_def reading_def)
  have 2: "on_outbox (\<lambda>x. ob_intent (rc_outbox R) (ce_intent env) x key) s = (Done (Inr ()), s\<lparr>rt_outbox := o1\<rparr>)"
    using assms(2) by (simp add: on_outbox_def)
  show ?thesis
    unfolding submit_task_idempotent_def andthen_ok[where m = "lookup_key R key", OF 1] dispatch_lookup.case
      andthen_ok[where m = "on_outbox (\<lambda>x. ob_intent (rc_outbox R) (ce_intent env) x key)", OF 2]
    by (subst andthen_still_world) (intro stays, simp add: attempt_world)
qed

context outbox_guard begin

lemma stable_wf: "outbox_stable O1 owf"
  using wf_intent wf_committed by (simp add: outbox_stable_def)

lemma stable_intended: "outbox_stable O1 (intended k)"
  using keep_intent keep_committed by (simp add: outbox_stable_def)

lemma dispatched_intended:
  assumes "rc_outbox R = O1" "owf (rt_outbox s)" "dispatched R key env s s'"
  shows "intended key (rt_outbox s')"
  using assms intent_success stable_intended unfolding dispatched_def by metis

lemma intended_blocks:
  assumes "rc_outbox R = O1" "intended key (rt_outbox s)"
  shows "\<not> dispatched R key env s s'"
  using assms intended_lookup unfolding dispatched_def by auto

end

subsection \<open>Approving over stores that keep their contracts\<close>

locale runtime_stores = outbox O1 kst oinv + pending_store P amap pinv storable quiet cap
  for O1 :: "'o outbox_trait"
    and kst :: "'o \<Rightarrow> string \<Rightarrow> key_state"
    and oinv :: "'o \<Rightarrow> bool"
    and P :: "'p pending_trait"
    and amap :: "'p \<Rightarrow> approval_id \<Rightarrow> pending_record option"
    and pinv :: "'p \<Rightarrow> bool"
    and storable :: "pending_record \<Rightarrow> bool"
    and quiet :: "store_env \<Rightarrow> bool"
    and cap :: nat
begin

lemma marked_intent:
  assumes "rc_outbox R = O1" "oinv (rt_outbox s)"
  shows "\<exists>x. on_outbox (\<lambda>x. ob_intent (rc_outbox R) (t, NoFault) x key) s = (Done (Inr ()), s\<lparr>rt_outbox := x\<rparr>) \<and> oinv x \<and>
    kst x = (kst (rt_outbox s))(key := (kst (rt_outbox s) key)\<lparr>ks_intent := True\<rparr>)"
  using intent_state[OF assms(2), of t key] assms(1) by (auto simp: on_outbox_def)

lemma marked_committed:
  assumes "rc_outbox R = O1" "oinv (rt_outbox s)"
  shows "\<exists>x. on_outbox (\<lambda>x. ob_committed (rc_outbox R) (t, NoFault) x key outcome) s = (Done (Inr ()), s\<lparr>rt_outbox := x\<rparr>) \<and>
    oinv x \<and>
    kst x = (kst (rt_outbox s))(key := (kst (rt_outbox s) key)\<lparr>ks_intent := True, ks_committed := Some outcome\<rparr>)"
  using committed_state[OF assms(2), of t key outcome] assms(1) by (auto simp: on_outbox_def)

lemma removed_pending:
  assumes "rc_pending R = P" "pinv (rt_pending s)" "quiet (ce_store env)"
  shows "\<exists>x. remove_pending R env i s = (Done (Inr (amap (rt_pending s) i)), s\<lparr>rt_pending := x\<rparr>) \<and> pinv x \<and>
    amap x = (amap (rt_pending s))(i := None)"
  using remove_map[OF assms(2,3), of i] assms(1) by (auto simp: remove_pending_def on_pending_def)

lemma approve_done:
  fixes s :: "('p, 'o, 'w) runtime"
  assumes stores: "rc_pending R = P" "rc_outbox R = O1" "pinv (rt_pending s)" "oinv (rt_outbox s)"
    and entry: "amap (rt_pending s) i = Some entry"
    and key: "kst (rt_outbox s) (approval_dispatch_key (rc_ext R) i) = ks_default"
    and task: "hm_get (pl_queue (rt_pipe s)) (pr_task entry) = Some t" "hm_get (rt_executors s) (t_skill t) = Some exe"
    and run: "run_after_approval (rc_ext R) (ce_ids env) exe (pr_task entry) (pr_approval entry) now (rt_pipe s, rt_world s) =
      (Done (Inr po), (p', w'))"
    and env: "quiet (ce_store env)" "ce_intent env = (t1, NoFault)" "ce_commit env = (t2, NoFault)"
    and shot: "\<And>s1 :: ('p, 'o, 'w) runtime. rt_pipe s1 = p' \<Longrightarrow> rt_tasks s1 = rt_tasks s \<Longrightarrow>
      snapshot_task_if_durable R env (pr_task entry) s1 = (Done (Inr ()), s1\<lparr>rt_tasks := d\<rparr>)"
  defines "out \<equiv> \<lparr>so_task = pr_task entry, so_status = po_status po, so_pending = None\<rparr>"
  obtains s' where "approve R env i now s = (Done (Inr out), s')" "rt_pipe s' = p'" "rt_world s' = w'"
    "pinv (rt_pending s')" "amap (rt_pending s') = (amap (rt_pending s))(i := None)" "oinv (rt_outbox s')"
    "kst (rt_outbox s') = (kst (rt_outbox s))
       (approval_dispatch_key (rc_ext R) i := \<lparr>ks_intent = True, ks_committed = Some (from_submit out)\<rparr>)"
    "rt_tasks s' = d" "\<And>b. po_proof po = Some b \<Longrightarrow> rt_proof s' (pr_task entry) = Some b"
proof -
  let ?X = "rc_ext R"
  let ?key = "approval_dispatch_key ?X i"
  have 1: "pending_or_missing R i s = (Done (Inr entry), s)"
    using get_map[OF stores(3), of i] entry stores(1) by (simp add: pending_or_missing_def reading_def)
  have 2: "lookup_key R ?key s = (Done (Inr NotStarted), s)"
    using lookup_state[OF stores(4), of ?key] key stores(2)
    by (simp add: lookup_key_def reading_def ks_lookup_def ks_default_def)
  have 3: "on_pipe (task_or_missing ?X (pr_task entry)) s = (Done (Inr t), s)"
    using task(1) by (simp add: on_pipe_def task_or_missing_def reading_def queue_get_def del: map_of_eq_Some_iff)
  let ?find = "reading (\<lambda>s. case hm_get (rt_executors s) (t_skill t) of
      None \<Rightarrow> Inl (UnknownSkill (show_uuid ?X (t_skill t))) | Some exe \<Rightarrow> Inr exe)"
  have 4: "?find s = (Done (Inr exe), s)" using task(2) by (simp add: reading_def del: map_of_eq_Some_iff)
  obtain x where x: "on_outbox (\<lambda>x. ob_intent (rc_outbox R) (t1, NoFault) x ?key) s = (Done (Inr ()), s\<lparr>rt_outbox := x\<rparr>)"
    "oinv x" "kst x = (kst (rt_outbox s))(?key := ks_default\<lparr>ks_intent := True\<rparr>)"
    using marked_intent[OF stores(2,4), of t1 ?key] key by metis
  let ?s1 = "s\<lparr>rt_outbox := x\<rparr>"
  let ?s2 = "?s1\<lparr>rt_pipe := p', rt_world := w'\<rparr>"
  let ?run = "attempt (on_pipe (run_after_approval ?X (ce_ids env) exe (pr_task entry) (pr_approval entry) now))"
  have 5: "?run ?s1 = (Done (Inr (Inr po)), ?s2)" using run by (simp add: attempt_def on_pipe_def)
  have s2: "rt_outbox ?s2 = x" by simp
  obtain y where y: "on_outbox (\<lambda>x. ob_committed (rc_outbox R) (t2, NoFault) x ?key (from_submit out)) ?s2 =
      (Done (Inr ()), ?s2\<lparr>rt_outbox := y\<rparr>)" "oinv y"
    "kst y = (kst x)(?key := (kst x ?key)\<lparr>ks_intent := True, ks_committed := Some (from_submit out)\<rparr>)"
    using marked_committed[OF stores(2), of ?s2 t2 ?key "from_submit out"] x(2) unfolding s2 by metis
  let ?s3 = "?s2\<lparr>rt_outbox := y\<rparr>"
  have 6: "of_result (Inr po) ?s3 = (Done (Inr po), ?s3)" by (simp add: of_result_def)
  obtain z where z: "remove_pending R env i ?s3 = (Done (Inr (amap (rt_pending ?s3) i)), ?s3\<lparr>rt_pending := z\<rparr>)"
    "pinv z" "amap z = (amap (rt_pending ?s3))(i := None)"
    using removed_pending[OF stores(1) _ env(1), of ?s3 i] stores(3) by auto
  let ?s4 = "?s3\<lparr>rt_pending := z\<rparr>"
  have 8: "snapshot_task_if_durable R env (pr_task entry) ?s4 = (Done (Inr ()), ?s4\<lparr>rt_tasks := d\<rparr>)"
    by (rule shot) simp_all
  let ?s5 = "?s4\<lparr>rt_tasks := d\<rparr>"
  have 9: "keep_proof (pr_task entry) (po_proof po) ?s5 = (Done (Inr ()), snd (keep_proof (pr_task entry) (po_proof po) ?s5))"
    by (simp add: keep_proof_def change_def)
  let ?s6 = "snd (keep_proof (pr_task entry) (po_proof po) ?s5)"
  have s6: "rt_pipe ?s6 = p'" "rt_world ?s6 = w'" "rt_pending ?s6 = z" "rt_outbox ?s6 = y" "rt_tasks ?s6 = d"
    by (simp_all add: keep_proof_def change_def split: option.split)
  have appr: "approve R env i now s = (Done (Inr out), ?s6)"
    unfolding approve_def Let_def env(2,3)
      andthen_ok[where m = "pending_or_missing R i", OF 1] andthen_ok[where m = "lookup_key R ?key", OF 2]
      dispatch_lookup.case andthen_ok[where m = "on_pipe (task_or_missing ?X (pr_task entry))", OF 3]
      andthen_ok[where m = ?find, OF 4]
      andthen_ok[where m = "on_outbox (\<lambda>x. ob_intent (rc_outbox R) (t1, NoFault) x ?key)", OF x(1)]
      andthen_ok[where m = ?run, OF 5] sum.case out_def[symmetric]
      andthen_ok[where m = "on_outbox (\<lambda>x. ob_committed (rc_outbox R) (t2, NoFault) x ?key (from_submit out))", OF y(1)]
      andthen_ok[where m = "of_result (Inr po)", OF 6]
      andthen_ok[where m = "remove_pending R env i", OF z(1)]
      andthen_ok[where m = "snapshot_task_if_durable R env (pr_task entry)", OF 8]
      andthen_ok[where m = "keep_proof (pr_task entry) (po_proof po)", OF 9]
    by (simp only: ret_def)
  show ?thesis
  proof (rule that[OF appr s6(1,2)])
    show "pinv (rt_pending ?s6)" "amap (rt_pending ?s6) = (amap (rt_pending s))(i := None)" using z s6 by simp_all
    show "oinv (rt_outbox ?s6)" using y(2) s6 by simp
    show "kst (rt_outbox ?s6) = (kst (rt_outbox s))(?key := \<lparr>ks_intent = True, ks_committed = Some (from_submit out)\<rparr>)"
      using y(3) x(3) s6(4) by (simp add: ks_default_def)
    show "rt_tasks ?s6 = d" by (rule s6(5))
    show "rt_proof ?s6 (pr_task entry) = Some b" if "po_proof po = Some b" for b
      by (simp add: rt_proof_def keep_proof_def change_def that)
  qed
qed

end

end
