(* ===== verification/Runtime_Machine.thy ===== *)
theory Runtime_Machine
  imports Runtime_Laws
begin

section \<open>The durable runtime across crashes\<close>

text \<open>
  The runtime over its two journals and its task log (\<^verbatim>\<open>with_durable_stores\<close> of
  \<^verbatim>\<open>crates/familyclaw-actions/src/facade.rs\<close>), as a machine: calls under any fault, deaths of the
  process within a call and between calls, and restarts from the disks. The theorems say what the
  runtime keeps over every history of such steps.
\<close>

record durable_config =
  dc_ext :: ext
  dc_pending :: jp_config
  dc_outbox :: jo_config
  dc_tasks :: task_codec
  dc_task_path :: path
  dc_ttl_env :: "string option"
  dc_minutes :: "int \<Rightarrow> int option"

definition durable_rt :: "durable_config \<Rightarrow> (jp_state, jo_state) rt_config" where
  "durable_rt D =
     \<lparr>rc_ext = dc_ext D, rc_pending = journal_pending_store (dc_pending D), rc_outbox = journal_outbox (dc_outbox D),
      rc_durable = Some (dc_tasks D, dc_task_path D), rc_ttl_env = dc_ttl_env D, rc_minutes = dc_minutes D\<rparr>"

record disks =
  dk_pending :: fs
  dk_tasks :: fs
  dk_outbox :: fs

text \<open>Opening a journal repairs its file, whether the opening then succeeds or not.\<close>

definition with_durable_stores ::
  "durable_config \<Rightarrow> disks \<Rightarrow> 'w \<Rightarrow> (action_error + (jp_state, jo_state, 'w) runtime) \<times> disks" where
  "with_durable_stores D d w =
     (let KP = dc_pending D; KO = dc_outbox D;
          d1 = d\<lparr>dk_pending := file_open (jp_codec KP) (dk_pending d) (jp_path KP)\<rparr>
      in case jp_open KP (dk_pending d) of
           Inl e \<Rightarrow> (Inl e, d1)
         | Inr pending \<Rightarrow>
             (let d2 = d1\<lparr>dk_outbox := file_open (jo_codec KO) (dk_outbox d) (jo_path KO)\<rparr>
              in case jo_open KO (dk_outbox d) of
                   Inl e \<Rightarrow> (Inl e, d2)
                 | Inr obx \<Rightarrow>
                     (case reload (dc_tasks D) (dc_task_path D) (dk_tasks d) of
                        Inl e \<Rightarrow> (Inl e, d2)
                      | Inr task_map \<Rightarrow>
                          (case jp_list KP pending of
                             Inl e \<Rightarrow> (Inl e, d2)
                           | Inr records \<Rightarrow>
                               (Inr \<lparr>rt_pipe = foldl (\<lambda>p r. reinstate_approval (pr_approval r) p)
                                       (with_restored_queue (from_map task_map)) records,
                                     rt_world = w, rt_executors = [], rt_proofs = [], rt_pending = pending,
                                     rt_tasks = dk_tasks d,
                                     rt_limiter = limiter_new DEFAULT_DANGEROUS_TOOL_WINDOW_SECS DEFAULT_DANGEROUS_TOOL_LIMIT,
                                     rt_being = DEFAULT_BEING_ID, rt_outbox = obx\<rparr>, d2)))))"

subsection \<open>The machine\<close>

datatype 'w machine = Up "(jp_state, jo_state, 'w) runtime" | Down disks 'w

datatype 'w command =
    CRegister skill_ext skill_manifest "'w executor"
  | CSubmit call_env string skill_id json timestamp
  | CSubmitKeyed call_env string string skill_id json timestamp
  | CApprove call_env approval_id timestamp
  | CDeny call_env approval_id timestamp
  | CAbort call_env approval_id timestamp
  | CEvict call_env timestamp
  | CCrash
  | CBoot

definition rt_disks :: "(jp_state, jo_state, 'w) runtime \<Rightarrow> disks" where
  "rt_disks s = \<lparr>dk_pending = jp_fs (rt_pending s), dk_tasks = rt_tasks s, dk_outbox = jo_fs (rt_outbox s)\<rparr>"

definition settle :: "'a outcome \<times> (jp_state, jo_state, 'w) runtime \<Rightarrow> 'w machine" where
  "settle x = (case x of (Done _, s) \<Rightarrow> Up s | (Killed, s) \<Rightarrow> Down (rt_disks s) (rt_world s))"

fun machine_step :: "durable_config \<Rightarrow> 'w machine \<Rightarrow> 'w command \<Rightarrow> 'w machine" where
  "machine_step D (Up s) (CRegister S m exe) = settle (register_skill (durable_rt D) S m exe s)"
| "machine_step D (Up s) (CSubmit env being k v now) = settle (submit_task_as (durable_rt D) env being k v now s)"
| "machine_step D (Up s) (CSubmitKeyed env key being k v now) =
     settle (submit_task_idempotent (durable_rt D) env key being k v now s)"
| "machine_step D (Up s) (CApprove env i now) = settle (approve (durable_rt D) env i now s)"
| "machine_step D (Up s) (CDeny env i now) = settle (deny_pending (durable_rt D) env i now s)"
| "machine_step D (Up s) (CAbort env i now) = settle (abort_pending_after_continuation_failure (durable_rt D) env i now s)"
| "machine_step D (Up s) (CEvict env now) = settle (evict_expired_approvals (durable_rt D) env now s)"
| "machine_step D (Up s) CCrash = Down (rt_disks s) (rt_world s)"
| "machine_step D (Up s) CBoot = Up s"
| "machine_step D (Down d w) CBoot =
     (case with_durable_stores D d w of (Inl _, d') \<Rightarrow> Down d' w | (Inr s, _) \<Rightarrow> Up s)"
| "machine_step D (Down d w) _ = Down d w"

definition machine_run :: "durable_config \<Rightarrow> 'w machine \<Rightarrow> 'w command list \<Rightarrow> 'w machine" where
  "machine_run D = foldl (machine_step D)"

fun machine_world :: "'w machine \<Rightarrow> 'w" where
  "machine_world (Up s) = rt_world s"
| "machine_world (Down d w) = w"

text \<open>The key under which a command is dispatched.\<close>

fun dispatch_key :: "durable_config \<Rightarrow> 'w command \<Rightarrow> string option" where
  "dispatch_key D (CSubmitKeyed env key being k v now) = Some key"
| "dispatch_key D (CApprove env i now) = Some (approval_dispatch_key (dc_ext D) i)"
| "dispatch_key D _ = None"

subsection \<open>The outbox of the machine\<close>

fun machine_outbox :: "'w machine \<Rightarrow> jo_state" where
  "machine_outbox (Up s) = rt_outbox s"
| "machine_outbox (Down d w) = \<lparr>jo_fs = dk_outbox d, jo_next = 0\<rparr>"

text \<open>Properties of the outbox file that markers and repairs keep.\<close>

definition file_property :: "jo_config \<Rightarrow> (jo_state \<Rightarrow> bool) \<Rightarrow> bool" where
  "file_property K I \<longleftrightarrow>
     outbox_stable (journal_outbox K) I \<and>
     (\<forall>s s'. jo_fs s' = jo_fs s \<longrightarrow> I s \<longrightarrow> I s') \<and>
     (\<forall>s s'. jo_fs s' = file_open (jo_codec K) (jo_fs s) (jo_path K) \<longrightarrow> I s \<longrightarrow> I s')"

lemma file_property_move:
  "file_property K I \<Longrightarrow> I s \<Longrightarrow> jo_fs s' \<in> {jo_fs s, file_open (jo_codec K) (jo_fs s) (jo_path K)} \<Longrightarrow> I s'"
  unfolding file_property_def by blast

lemma file_property_wf: "file_property K (jo_wf K)"
  unfolding file_property_def using jog.stable_wf by (auto simp: jo_wf_def intro: file_wf_reopen)

lemma file_property_intended: "file_property K (jo_intended K k)"
  unfolding file_property_def using jog.stable_intended[of K k]
  by (auto simp: jo_intended_def intro: file_recorded_reopen)

lemma settle_carries:
  assumes "file_property K I" "preserves (carries I) m" "I (rt_outbox s)"
  shows "I (machine_outbox (settle (m s)))"
proof (cases "m s")
  case (Pair r s')
  from preservesD[OF assms(2) Pair] assms(3) have s': "I (rt_outbox s')" by blast
  have "I \<lparr>jo_fs = jo_fs (rt_outbox s'), jo_next = 0\<rparr>"
    using assms(1) s' unfolding file_property_def by (metis jo_state.select_convs(1))
  with s' Pair show ?thesis by (cases r) (simp_all add: settle_def rt_disks_def)
qed

lemma boot_disk:
  assumes "with_durable_stores D d w = (r, d')"
  shows "dk_outbox d' \<in> {dk_outbox d, file_open (jo_codec (dc_outbox D)) (dk_outbox d) (jo_path (dc_outbox D))} \<and>
    (\<forall>s. r = Inr s \<longrightarrow> jo_fs (rt_outbox s) = file_open (jo_codec (dc_outbox D)) (dk_outbox d) (jo_path (dc_outbox D)) \<and>
       rt_world s = w)"
  using assms jo_open_fs unfolding with_durable_stores_def Let_def
  by (auto split: sum.splits)

lemma machine_step_file:
  assumes I: "file_property (dc_outbox D) I" and m: "I (machine_outbox m)"
  shows "I (machine_outbox (machine_step D m c))"
proof -
  have st: "outbox_stable (rc_outbox (durable_rt D)) I" using I by (simp add: file_property_def durable_rt_def)
  show ?thesis
  proof (cases m)
    case (Up s)
    note carry = settle_carries[OF I _ m[unfolded Up machine_outbox.simps]]
    show ?thesis
    proof (cases c)
      case CCrash
      then show ?thesis using Up m I unfolding file_property_def
        by (simp add: rt_disks_def)
    next
      case CBoot
      then show ?thesis using Up m by simp
    qed (simp_all add: Up carry carried_register carried_submit carried_keyed[OF st] carried_approve[OF st]
        carried_deny carried_abort[OF st] carried_evict)
  next
    case (Down d w)
    show ?thesis
    proof (cases "c = CBoot")
      case True
      obtain r d' where b: "with_durable_stores D d w = (r, d')" by (rule prod.exhaust)
      note bd = boot_disk[OF b]
      have re: "I s'" if "jo_fs s' \<in> {dk_outbox d, file_open (jo_codec (dc_outbox D)) (dk_outbox d) (jo_path (dc_outbox D))}" for s'
        by (rule file_property_move[OF I m[unfolded Down machine_outbox.simps]]) (use that in simp)
      show ?thesis using b bd re[of "\<lparr>jo_fs = dk_outbox d', jo_next = 0\<rparr>"] re True Down by (cases r) auto
    next
      case False
      then have "machine_step D m c = m" using Down by (cases c) simp_all
      then show ?thesis using m by simp
    qed
  qed
qed

lemma machine_run_file:
  "file_property (dc_outbox D) I \<Longrightarrow> I (machine_outbox m) \<Longrightarrow> I (machine_outbox (machine_run D m cs))"
  unfolding machine_run_def by (induction cs arbitrary: m) (simp_all add: machine_step_file)

text \<open>A step under a key that changes the world has recorded the key.\<close>

lemma settle_world: "machine_world (settle (r, s)) = rt_world s"
  by (cases r) (simp_all add: settle_def)

lemma settle_outbox_file: "jo_fs (machine_outbox (settle (r, s))) = jo_fs (rt_outbox s)"
  by (cases r) (simp_all add: settle_def rt_disks_def)

lemma machine_dispatch:
  assumes "dispatch_key D c = Some k" "machine_world (machine_step D m c) \<noteq> machine_world m"
  shows "\<exists>s env s'. m = Up s \<and> dispatched (durable_rt D) k env s s' \<and>
    jo_fs (machine_outbox (machine_step D m c)) = jo_fs (rt_outbox s')"
proof (cases m)
  case (Down d w)
  then show ?thesis using assms by (cases c) auto
next
  case (Up s)
  have ext: "rc_ext (durable_rt D) = dc_ext D" by (simp add: durable_rt_def)
  show ?thesis
    using assms(1)
  proof (cases c)
    case (CSubmitKeyed env key being sk v now)
    obtain r s' where r: "submit_task_idempotent (durable_rt D) env key being sk v now s = (r, s')" by (rule prod.exhaust)
    with assms(2) Up CSubmitKeyed have "rt_world s' \<noteq> rt_world s" by (simp add: settle_world)
    from keyed_moves[OF r this] show ?thesis
      using r Up CSubmitKeyed assms(1)
      by (intro exI[of _ s] exI[of _ "ce_intent env"] exI[of _ s']) (simp add: settle_outbox_file)
  next
    case (CApprove env i now)
    obtain r s' where r: "approve (durable_rt D) env i now s = (r, s')" by (rule prod.exhaust)
    with assms(2) Up CApprove have "rt_world s' \<noteq> rt_world s" by (simp add: settle_world)
    from approve_moves[OF r this] show ?thesis
      using r Up CApprove assms(1)
      by (intro exI[of _ s] exI[of _ "ce_intent env"] exI[of _ s']) (simp add: settle_outbox_file ext)
  qed simp_all
qed

lemma machine_key_recorded:
  assumes "jo_wf (dc_outbox D) (machine_outbox m)" "dispatch_key D c = Some k"
    and "machine_world (machine_step D m c) \<noteq> machine_world m"
  shows "jo_intended (dc_outbox D) k (machine_outbox (machine_step D m c))"
proof -
  obtain s env s' where s: "m = Up s" "dispatched (durable_rt D) k env s s'"
    "jo_fs (machine_outbox (machine_step D m c)) = jo_fs (rt_outbox s')"
    using machine_dispatch[OF assms(2,3)] by blast
  have "jo_intended (dc_outbox D) k (rt_outbox s')"
    using jog.dispatched_intended[of "durable_rt D" "dc_outbox D" s k env s'] s(1,2) assms(1)
    by (simp add: durable_rt_def)
  then show ?thesis using s(3) by (simp add: jo_intended_def)
qed

lemma machine_key_blocks:
  assumes "jo_intended (dc_outbox D) k (machine_outbox m)" "dispatch_key D c = Some k"
  shows "machine_world (machine_step D m c) = machine_world m"
proof (rule ccontr)
  assume "machine_world (machine_step D m c) \<noteq> machine_world m"
  then obtain s env s' where s: "m = Up s" "dispatched (durable_rt D) k env s s'"
    using machine_dispatch[OF assms(2)] by blast
  with jog.intended_blocks[of "durable_rt D" "dc_outbox D" k s env s'] assms(1) show False
    by (simp add: durable_rt_def)
qed

subsection \<open>The journals of the machine\<close>

interpretation rts: runtime_stores "journal_outbox KO" "jo_entry KO" "jo_inv KO"
  "journal_pending_store KP" "\<lambda>s. hm_get (jp_map KP s)" "jp_inv KP" "jp_storable KP" "jp_quiet KP" "jp_capacity KP"
  for KO KP
  by unfold_locales

lemma durable_rt_sel [simp]:
  "rc_ext (durable_rt D) = dc_ext D" "rc_pending (durable_rt D) = journal_pending_store (dc_pending D)"
  "rc_outbox (durable_rt D) = journal_outbox (dc_outbox D)" "rc_durable (durable_rt D) = Some (dc_tasks D, dc_task_path D)"
  by (simp_all add: durable_rt_def)

text \<open>A runtime at rest opens again from its disks with the same approvals, keys and tasks.\<close>

lemma reinstate_all_ledger:
  "hm_get (approvals (pl_ledger (foldl (\<lambda>p r. reinstate_approval (pr_approval r) p) p rs))) i =
     (case map_of (rev (map (\<lambda>r. (pr_id r, pr_approval r)) rs)) i of
        None \<Rightarrow> hm_get (approvals (pl_ledger p)) i | Some a \<Rightarrow> Some a)"
  by (induction rs arbitrary: p)
    (auto simp: reinstate_approval_def reinstate_def pr_id_def map_add_def split: option.splits)

lemma reinstate_all_queue: "pl_queue (foldl (\<lambda>p r. reinstate_approval (pr_approval r) p) p rs) = pl_queue p"
  by (induction rs arbitrary: p) (simp_all add: reinstate_approval_def)

lemma hm_get_rev: "hm_ok m \<Longrightarrow> hm_get (rev m) = hm_get m"
  by (subst map_of_inject_set) (simp_all add: rev_map[symmetric])

lemma booted:
  fixes s :: "(jp_state, jo_state, 'w) runtime" and w :: 'w
  assumes pend: "jp_inv (dc_pending D) (rt_pending s)" and outb: "jo_inv (dc_outbox D) (rt_outbox s)"
    and log: "reload (dc_tasks D) (dc_task_path D) (rt_tasks s) = Inr tasks"
  obtains s' where "with_durable_stores D (rt_disks s) w = (Inr s', rt_disks s)"
    "jp_inv (dc_pending D) (rt_pending s')" "jp_map (dc_pending D) (rt_pending s') = jp_map (dc_pending D) (rt_pending s)"
    "jo_inv (dc_outbox D) (rt_outbox s')" "jo_entry (dc_outbox D) (rt_outbox s') = jo_entry (dc_outbox D) (rt_outbox s)"
    "pl_queue (rt_pipe s') = tasks" "rt_world s' = w" "rt_tasks s' = rt_tasks s"
    "\<And>i. hm_get (approvals (pl_ledger (rt_pipe s'))) i =
       map_option pr_approval (hm_get (jp_map (dc_pending D) (rt_pending s)) i)"
proof -
  let ?KP = "dc_pending D" and ?KO = "dc_outbox D"
  obtain m where m: "jp_ok ?KP" "disk_ok ?KP (jp_fs (rt_pending s)) m" "jp_map ?KP (rt_pending s) = m" "keyed_map m"
    using pend by (rule jp_invE)
  note same = disk_open[OF m(2)]
  have "disk_ok ?KP (file_open (jp_codec ?KP) (jp_fs (rt_pending s)) (jp_path ?KP)) m" using m(2) same by simp
  from jp_open_disk[OF m(1) this] obtain P where P: "jp_open ?KP (jp_fs (rt_pending s)) = Inr P" "jp_inv ?KP P"
    "jp_map ?KP P = m" by blast
  have l: "jp_list ?KP P = Inr (hm_values m)"
    using P(2,3) by (auto simp: jp_list_def elim!: jp_invE)
  obtain x where x: "jo_open ?KO (jo_fs (rt_outbox s)) = Inr x" "jo_fs x = jo_fs (rt_outbox s)" "jo_inv ?KO x"
    using jo_reopen_at_rest[OF outb] by (auto simp: jo_reopen_def)
  have "file_open (jo_codec ?KO) (jo_fs (rt_outbox s)) (jo_path ?KO) = jo_fs (rt_outbox s)"
    by (rule file_open_inv[OF jo_invD(2)[OF outb]])
  then have boot: "\<exists>s'. with_durable_stores D (rt_disks s) w = (Inr s', rt_disks s) \<and> rt_pending s' = P \<and> rt_outbox s' = x \<and>
      rt_pipe s' = foldl (\<lambda>p r. reinstate_approval (pr_approval r) p) (with_restored_queue (from_map tasks)) (hm_values m) \<and>
      rt_world s' = w \<and> rt_tasks s' = rt_tasks s"
    using P(1) x(1) l log same by (simp add: with_durable_stores_def Let_def rt_disks_def)
  then obtain s' where s': "with_durable_stores D (rt_disks s) w = (Inr s', rt_disks s)" "rt_pending s' = P" "rt_outbox s' = x"
      "rt_pipe s' = foldl (\<lambda>p r. reinstate_approval (pr_approval r) p) (with_restored_queue (from_map tasks)) (hm_values m)"
      "rt_world s' = w" "rt_tasks s' = rt_tasks s" by blast
  have ids: "map fst (map (\<lambda>r. (pr_id r, pr_approval r)) (hm_values m)) = map fst m"
    using keyed_fst[OF m(4)] by simp
  have d: "distinct (map fst (map (\<lambda>r. (pr_id r, pr_approval r)) (hm_values m)))"
    using keyed_ok[OF m(4)] unfolding ids .
  have "map_of (map (\<lambda>r. (pr_id r, pr_approval r)) (hm_values m)) i = map_option pr_approval (hm_get m i)" for i
  proof -
    have "map (\<lambda>r. (pr_id r, pr_approval r)) (hm_values m) = map (\<lambda>(k, r). (k, pr_approval r)) m"
      using m(4) by (auto simp: keyed_def hm_get_iff)
    then show ?thesis by (simp only: map_of_map comp_apply)
  qed
  then have led: "hm_get (approvals (pl_ledger (rt_pipe s'))) i = map_option pr_approval (hm_get m i)" for i
    using d unfolding s'(4) reinstate_all_ledger
    by (simp add: hm_get_rev with_restored_queue_def ledger_new_def split: option.split)
  show ?thesis
    by (rule that[OF s'(1)])
      (use led in \<open>simp_all add: s' P x m(3) jo_entry_fs[OF x(2)] reinstate_all_queue with_restored_queue_def from_map_def\<close>)
qed

lemma durable_snapshot:
  assumes "hm_get (pl_queue (rt_pipe s)) i = Some t" "task_validate t = Inr ()" "task_to_string (dc_tasks D) t = Inr l"
    and "ce_task env = NoFault"
  shows "snapshot_task_if_durable (durable_rt D) env i s =
    (Done (Inr ()), s\<lparr>rt_tasks := fs_append (rt_tasks s) (dc_task_path D) (l @ [nl])\<rparr>)"
  using assms
  by (simp add: snapshot_task_if_durable_def queue_get_def task_append_def del: map_of_eq_Some_iff)

subsection \<open>A sample runtime\<close>

definition any_task_codec :: task_codec where
  "any_task_codec = \<lparr>task_to_string = (\<lambda>_. Inr ''{5}''), task_from_str = (\<lambda>_. Inl ''EOF'')\<rparr>"

definition sample_durable :: durable_config where
  "sample_durable =
     \<lparr>dc_ext = sample_ext, dc_pending = sample_jp, dc_outbox = sample_jo, dc_tasks = any_task_codec, dc_task_path = ''t'',
      dc_ttl_env = None, dc_minutes = (\<lambda>m. Some (secs (m * 60)))\<rparr>"

definition sample_runtime :: "pipeline \<Rightarrow> jp_state \<Rightarrow> (jp_state, jo_state, nat) runtime" where
  "sample_runtime p pend =
     \<lparr>rt_pipe = p, rt_world = 0, rt_executors = [(7, sample_executor)], rt_proofs = [], rt_pending = pend,
      rt_tasks = (\<lambda>_. None), rt_limiter = limiter_new 3600 256, rt_being = ''operator'', rt_outbox = jo_fresh\<rparr>"

definition sample_call :: call_env where
  "sample_call = \<lparr>ce_ids = (\<lambda>k. of_nat (5 + k)), ce_store = quiet_env, ce_intent = (1, NoFault), ce_commit = (2, NoFault),
     ce_task = NoFault\<rparr>"

definition empty_pending :: jp_state where
  "empty_pending = \<lparr>jp_fs = (\<lambda>_. None), jp_handle = AtPath, jp_next = 0\<rparr>"

definition sample_submit :: "nat command" where
  "sample_submit = CSubmitKeyed sample_call ''k'' ''b'' 7 (JStr ''p'') 100"

lemma sample_submit_world:
  "machine_world (machine_step sample_durable (Up (sample_runtime (sample_pipe ReadOnly) empty_pending)) sample_submit) = 1"
proof -
  let ?s = "sample_runtime (sample_pipe ReadOnly) empty_pending" and ?R = "durable_rt sample_durable"
  let ?m = "sample_manifest [] ReadOnly RequireApproval" and ?ids = "shift_ids 1 (ce_ids sample_call)"
  have l: "ob_lookup (rc_outbox ?R) (rt_outbox ?s) ''k'' = Inr NotStarted"
    using joc.lookup_state[OF sample_jo_fresh(2), of "''k''"] sample_jo_fresh(3)
    by (simp add: sample_durable_def sample_runtime_def ks_lookup_def ks_default_def)
  obtain o1 where i: "ob_intent (rc_outbox ?R) (ce_intent sample_call) (rt_outbox ?s) ''k'' = (Done (Inr ()), o1)"
    using jo_intent_ok[OF sample_jo_fresh(2), of 1 "''k''"] by (auto simp: sample_durable_def sample_runtime_def sample_call_def)
  let ?q = "hm_insert 5 (pipe_task\<lparr>t_status := Running, t_updated := 100\<rparr>)
      (hm_insert 5 (pipe_task\<lparr>t_status := Ready, t_updated := 100\<rparr>) (hm_insert 5 pipe_task (pl_queue (sample_pipe ReadOnly))))"
  let ?p = "(sample_pipe ReadOnly)\<lparr>pl_queue := ?q\<rparr>"
  have "run_with_input_taint sample_ext ?ids sample_executor pipe_task 100 False (sample_pipe ReadOnly, 0) =
      execute_and_finalize sample_ext ?ids sample_executor 5 (?ids 0) (t_payload pipe_task) 100 False (?p, 0)"
    using run_setup[OF sample_registry sample_pipe_facts(1-3), where X = sample_ext and ids = ?ids and
        exe = sample_executor and now = 100 and tainted = False and w = 0, of ReadOnly]
    by (simp only: sample_pipe_facts(4,7)) simp
  moreover have t: "hm_get (pl_queue ?p) 5 = Some (pipe_task\<lparr>t_status := Running, t_updated := 100\<rparr>)" by simp
  have tr: "can_transition_to (t_status (pipe_task\<lparr>t_status := Running, t_updated := 100\<rparr>)) TaskDone"
    "can_transition_to (t_status (pipe_task\<lparr>t_status := Running, t_updated := 100\<rparr>)) Failed"
    by (simp_all add: can_transition_to_def)
  obtain po p' where "execute_and_finalize sample_ext ?ids sample_executor 5 (?ids 0) (t_payload pipe_task) 100 False (?p, 0) =
      (Done (Inr po), (p', Suc 0))"
    by (rule execute_computes[where p = ?p and i = 5 and exe = sample_executor and w = 0 and ids = ?ids and a = "?ids 0" and
        now = 100 and tainted = False, OF t tr sample_runs(1) sample_pipe_facts(6)])
  ultimately have run: "pipe_run (rc_ext ?R) ?ids sample_executor (task_new (ce_ids sample_call 0) 7 (JStr ''p'') 100) 100
      (rt_pipe (?s\<lparr>rt_outbox := o1\<rparr>), rt_world (?s\<lparr>rt_outbox := o1\<rparr>)) = (Done (Inr po), (p', Suc 0))"
    by (simp add: pipe_run_def sample_runtime_def sample_durable_def sample_call_def pipe_task_def)
  have "rt_world (snd (submit_task_idempotent ?R sample_call ''k'' ''b'' 7 (JStr ''p'') 100 ?s)) = Suc 0"
    unfolding keyed_world[OF l i]
    by (rule submit_world[OF _ run]) (simp add: sample_runtime_def)
  then show ?thesis
    by (cases "submit_task_idempotent ?R sample_call ''k'' ''b'' 7 (JStr ''p'') 100 ?s") (simp add: sample_submit_def settle_world)
qed

lemma crash_boot_world: "machine_world (machine_run D m [CCrash, CBoot]) = machine_world m"
proof -
  have "machine_world (machine_step D (Down d w) CBoot) = w" for d and w :: 'a
    using boot_disk[of D d w] by (auto split: prod.split sum.split)
  then show ?thesis by (cases m) (simp_all add: machine_run_def del: machine_step.simps(10))
qed

definition waiting_record :: pending_record where
  "waiting_record = \<lparr>pr_task = 5, pr_approval = sample_grant, pr_summary = ''s'', pr_created = 100\<rparr>"

lemma waiting_pending:
  obtains P where "jp_inv sample_jp P" "hm_get (jp_map sample_jp P) = [3 \<mapsto> waiting_record]"
proof -
  obtain s where s: "jp_inv sample_jp s" "jp_map sample_jp s = []" using sample_jp_fresh by blast
  have q: "jp_quiet sample_jp quiet_env" by (simp add: jp_quiet_def quiet_env_def harmless_swap_def sample_jp_def)
  have "jp_storable sample_jp waiting_record"
    by (simp add: jp_storable_def sample_jp_def sample_pending_codec_def)
  moreover have "card (dom (hm_get (jp_map sample_jp s))) < jp_capacity sample_jp" by (simp add: s(2)) (simp add: sample_jp_def)
  ultimately obtain P where "jp_inv sample_jp P"
    "hm_get (jp_map sample_jp P) = (hm_get (jp_map sample_jp s))(pr_id waiting_record \<mapsto> waiting_record)"
    using jps.insert_map[OF s(1) _ q, of waiting_record] by blast
  then show ?thesis using that s(2) waiting_pipe_facts(3) by (simp add: pr_id_def waiting_record_def)
qed

subsection \<open>A granted approval\<close>

lemma approve_effect:
  fixes D :: durable_config and s :: "(jp_state, jo_state, 'w) runtime" and raw :: action_result
  defines "X \<equiv> dc_ext D" and "st \<equiv> (if rs_status raw = Succeeded then TaskDone else Failed)"
  assumes pend: "jp_inv (dc_pending D) (rt_pending s)" "hm_get (jp_map (dc_pending D) (rt_pending s)) i = Some entry"
    and outb: "jo_inv (dc_outbox D) (rt_outbox s)"
      "jo_entry (dc_outbox D) (rt_outbox s) (approval_dispatch_key X i) = ks_default"
    and task: "hm_get (pl_queue (rt_pipe s)) (pr_task entry) = Some t" "t_status t = NeedsApproval"
      "hm_get (rt_executors s) (t_skill t) = Some exe" "json_bytes X (t_payload t) = Inr bytes"
    and held: "hm_get (approvals (pl_ledger (rt_pipe s))) (pr_id entry) = Some g" "now \<le> a_expires_at g"
      "\<not> a_consumed g" "a_payload_hash g = sha256_hex X bytes"
    and exe: "exe (exec_request False (a_action_id (pr_approval entry)) t (pr_task entry) (t_payload t) now) (rt_world s) =
      (Done (Inr raw), w1)"
    and env: "jp_quiet (dc_pending D) (ce_store env)" "snd (ce_intent env) = NoFault" "snd (ce_commit env) = NoFault"
      "ce_task env = NoFault"
    and log: "task_validate (t\<lparr>t_status := st, t_updated := now\<rparr>) = Inr ()"
      "task_to_string (dc_tasks D) (t\<lparr>t_status := st, t_updated := now\<rparr>) = Inr line"
  obtains s' where "approve (durable_rt D) env i now s = (Done (Inr \<lparr>so_task = pr_task entry, so_status = st, so_pending = None\<rparr>), s')"
    "rt_world s' = w1" "rt_status s' (pr_task entry) = Some st"
    "hm_get (jp_map (dc_pending D) (rt_pending s')) = (hm_get (jp_map (dc_pending D) (rt_pending s)))(i := None)"
    "jo_lookup (dc_outbox D) (rt_outbox s') (approval_dispatch_key X i) =
       Inr (Committed (from_submit \<lparr>so_task = pr_task entry, so_status = st, so_pending = None\<rparr>))"
    "jp_inv (dc_pending D) (rt_pending s')" "jo_inv (dc_outbox D) (rt_outbox s')"
    "\<exists>b. run_proof X (ce_ids env) False t (pr_task entry) (a_action_id (pr_approval entry)) now raw (pl_audit (rt_pipe s)) = Inr b \<and>
       rt_proof s' (pr_task entry) = Some b"
    "rt_tasks s' = fs_append (rt_tasks s) (dc_task_path D) (line @ [nl])"
    "pl_queue (rt_pipe s') = hm_insert (pr_task entry) (t\<lparr>t_status := st, t_updated := now\<rparr>) (pl_queue (rt_pipe s))"
proof -
  obtain po p' where run: "run_after_approval_with_input_taint X (ce_ids env) exe (pr_task entry) (pr_approval entry) now False
      (rt_pipe s, rt_world s) = (Done (Inr po), (p', w1))"
    and po: "po_status po = st"
    and q: "pl_queue p' = hm_insert (pr_task entry) (t\<lparr>t_status := po_status po, t_updated := now\<rparr>) (pl_queue (rt_pipe s))"
    and pf: "\<exists>b. po_proof po = Some b \<and>
      run_proof X (ce_ids env) False t (pr_task entry) (a_action_id (pr_approval entry)) now raw (pl_audit (rt_pipe s)) = Inr b"
    unfolding st_def
    by (rule approved_computes[where p = "rt_pipe s" and w = "rt_world s" and exe = exe and ids = "ce_ids env" and X = X and
        a = "pr_approval entry" and i = "pr_task entry" and now = now and tainted = False,
        OF task(1,2,4) held(1)[unfolded pr_id_def] held(2-4) exe])
  have run': "run_after_approval (rc_ext (durable_rt D)) (ce_ids env) exe (pr_task entry) (pr_approval entry) now
      (rt_pipe s, rt_world s) = (Done (Inr po), (p', w1))"
    using run by (simp add: run_after_approval_def X_def)
  let ?d = "fs_append (rt_tasks s) (dc_task_path D) (line @ [nl])"
  have shot: "snapshot_task_if_durable (durable_rt D) env (pr_task entry) s1 = (Done (Inr ()), s1\<lparr>rt_tasks := ?d\<rparr>)"
    if "rt_pipe s1 = p'" "rt_tasks s1 = rt_tasks s" for s1 :: "(jp_state, jo_state, 'w) runtime"
    using durable_snapshot[OF _ log env(4), of s1 "pr_task entry"] by (simp add: that q po)
  obtain t1 where t1: "ce_intent env = (t1, NoFault)" using env(2) by (cases "ce_intent env") auto
  obtain t2 where t2: "ce_commit env = (t2, NoFault)" using env(3) by (cases "ce_commit env") auto
  obtain s' where s': "approve (durable_rt D) env i now s =
      (Done (Inr \<lparr>so_task = pr_task entry, so_status = po_status po, so_pending = None\<rparr>), s')" "rt_pipe s' = p'" "rt_world s' = w1"
    "jp_inv (dc_pending D) (rt_pending s')"
    "hm_get (jp_map (dc_pending D) (rt_pending s')) = (hm_get (jp_map (dc_pending D) (rt_pending s)))(i := None)"
    "jo_inv (dc_outbox D) (rt_outbox s')"
    "jo_entry (dc_outbox D) (rt_outbox s') = (jo_entry (dc_outbox D) (rt_outbox s))
       (approval_dispatch_key (rc_ext (durable_rt D)) i :=
          \<lparr>ks_intent = True, ks_committed = Some (from_submit \<lparr>so_task = pr_task entry, so_status = po_status po, so_pending = None\<rparr>)\<rparr>)"
    "rt_tasks s' = ?d" "\<And>b. po_proof po = Some b \<Longrightarrow> rt_proof s' (pr_task entry) = Some b"
    by (rule rts.approve_done[where R = "durable_rt D" and s = s and i = i and entry = entry and env = env and now = now,
        OF _ _ pend(1) outb(1) pend(2) _ task(1,3) run' env(1) t1 t2 shot])
      (use outb(2) in \<open>simp_all add: X_def\<close>)
  have "jo_lookup (dc_outbox D) (rt_outbox s') (approval_dispatch_key X i) =
      Inr (Committed (from_submit \<lparr>so_task = pr_task entry, so_status = po_status po, so_pending = None\<rparr>))"
    using joc.lookup_state[OF s'(6), of "approval_dispatch_key X i"] s'(7) by (simp add: ks_lookup_def X_def)
  moreover have "rt_status s' (pr_task entry) = Some st"
    using s'(2) q po by (simp add: rt_status_def queue_get_def)
  moreover have "pl_queue (rt_pipe s') = hm_insert (pr_task entry) (t\<lparr>t_status := st, t_updated := now\<rparr>) (pl_queue (rt_pipe s))"
    using s'(2) q po by simp
  moreover obtain b where "po_proof po = Some b"
    "run_proof X (ce_ids env) False t (pr_task entry) (a_action_id (pr_approval entry)) now raw (pl_audit (rt_pipe s)) = Inr b"
    using pf by blast
  ultimately show ?thesis using that s' po by simp
qed

subsection \<open>Properties\<close>

text \<open>C1: the durable runtime runs no dispatch twice: when a keyed submission or an approval has changed
  the world, no later command under the same key changes it, whatever calls, write errors, deaths of
  the process and restarts lie between them.\<close>

theorem dispatch_runs_at_most_once:
  assumes "jo_wf (dc_outbox D) (machine_outbox m)"
    and "dispatch_key D c = Some k" "dispatch_key D c' = Some k"
    and "machine_world (machine_step D m c) \<noteq> machine_world m"
  shows "machine_world (machine_step D (machine_run D (machine_step D m c) cs) c') =
    machine_world (machine_run D (machine_step D m c) cs)"
  by (rule machine_key_blocks[OF machine_run_file[OF file_property_intended machine_key_recorded[OF assms(1,2,4)]] assms(3)])

theorem dispatch_runs_at_most_once_witness:
  "machine_world (machine_run sample_durable (Up (sample_runtime (sample_pipe ReadOnly) empty_pending))
     [sample_submit, CCrash, CBoot, sample_submit]) = 1"
proof -
  let ?m = "Up (sample_runtime (sample_pipe ReadOnly) empty_pending)"
  have wf: "jo_wf (dc_outbox sample_durable) (machine_outbox ?m)"
    using jo_inv_wf[OF sample_jo_fresh(2)] by (simp add: sample_durable_def sample_runtime_def)
  have k: "dispatch_key sample_durable sample_submit = Some ''k''" by (simp add: sample_submit_def)
  have ch: "machine_world (machine_step sample_durable ?m sample_submit) \<noteq> machine_world ?m"
    unfolding sample_submit_world by (simp add: sample_runtime_def)
  from dispatch_runs_at_most_once[OF wf k k ch, of "[CCrash, CBoot]"] show ?thesis
    unfolding crash_boot_world sample_submit_world by (simp add: machine_run_def)
qed

text \<open>C17: an approval of a waiting task completes. Let the stores be at rest, the pending record be stored
  and its dispatch key be unused; let the task wait for approval, its skill be registered and the ledger
  hold the approval unexpired and unconsumed for the hash of the task's payload; let no write of the call
  fail, the finished task be valid and encodable, and the executor answer. Then the call returns the task
  as done or failed as the executor says, the executor has run exactly once on that payload, the task has
  the new status and nothing else in the queue changed, the proof kept for the task is the one built from
  this request, this result and the events of the action, the snapshot of the task is the last line of
  the task file, the pending record is gone, the outbox holds the outcome, and both journals are at rest.\<close>

theorem approve_completes:
  fixes D :: durable_config and s :: "(jp_state, jo_state, 'w) runtime" and raw :: action_result
  defines "X \<equiv> dc_ext D" and "st \<equiv> (if rs_status raw = Succeeded then TaskDone else Failed)"
  assumes pend: "jp_inv (dc_pending D) (rt_pending s)" "hm_get (jp_map (dc_pending D) (rt_pending s)) i = Some entry"
    and outb: "jo_inv (dc_outbox D) (rt_outbox s)"
      "jo_entry (dc_outbox D) (rt_outbox s) (approval_dispatch_key X i) = ks_default"
    and task: "hm_get (pl_queue (rt_pipe s)) (pr_task entry) = Some t" "t_status t = NeedsApproval"
      "hm_get (rt_executors s) (t_skill t) = Some exe" "json_bytes X (t_payload t) = Inr bytes"
    and held: "hm_get (approvals (pl_ledger (rt_pipe s))) (pr_id entry) = Some g" "now \<le> a_expires_at g"
      "\<not> a_consumed g" "a_payload_hash g = sha256_hex X bytes"
    and exe: "exe (exec_request False (a_action_id (pr_approval entry)) t (pr_task entry) (t_payload t) now) (rt_world s) =
      (Done (Inr raw), w1)"
    and env: "jp_quiet (dc_pending D) (ce_store env)" "snd (ce_intent env) = NoFault" "snd (ce_commit env) = NoFault"
      "ce_task env = NoFault"
    and log: "task_validate (t\<lparr>t_status := st, t_updated := now\<rparr>) = Inr ()"
      "task_to_string (dc_tasks D) (t\<lparr>t_status := st, t_updated := now\<rparr>) = Inr line"
  shows "case approve (durable_rt D) env i now s of
      (Done (Inr out), s') \<Rightarrow>
        out = \<lparr>so_task = pr_task entry, so_status = st, so_pending = None\<rparr> \<and> rt_world s' = w1 \<and>
        rt_status s' (pr_task entry) = Some st \<and>
        hm_get (jp_map (dc_pending D) (rt_pending s')) = (hm_get (jp_map (dc_pending D) (rt_pending s)))(i := None) \<and>
        jo_lookup (dc_outbox D) (rt_outbox s') (approval_dispatch_key X i) = Inr (Committed (from_submit out)) \<and>
        pl_queue (rt_pipe s') = hm_insert (pr_task entry) (t\<lparr>t_status := st, t_updated := now\<rparr>) (pl_queue (rt_pipe s)) \<and>
        (\<exists>b. run_proof X (ce_ids env) False t (pr_task entry) (a_action_id (pr_approval entry)) now raw (pl_audit (rt_pipe s)) = Inr b \<and>
           rt_proof s' (pr_task entry) = Some b) \<and>
        rt_tasks s' = fs_append (rt_tasks s) (dc_task_path D) (line @ [nl]) \<and>
        jp_inv (dc_pending D) (rt_pending s') \<and> jo_inv (dc_outbox D) (rt_outbox s')
    | _ \<Rightarrow> False"
  unfolding X_def st_def
  by (rule approve_effect[OF pend outb[unfolded X_def] task[unfolded X_def] held[unfolded X_def] exe env
        log[unfolded st_def]]) simp

theorem approve_completes_witness:
  "\<exists>P s'. jp_inv sample_jp P \<and> hm_get (jp_map sample_jp P) = [3 \<mapsto> waiting_record] \<and>
     approve (durable_rt sample_durable) sample_call 3 120 (sample_runtime waiting_pipe P) =
       (Done (Inr \<lparr>so_task = 5, so_status = TaskDone, so_pending = None\<rparr>), s') \<and>
     rt_world s' = 1 \<and> hm_get (jp_map sample_jp (rt_pending s')) 3 = None \<and> rt_proof s' 5 \<noteq> None \<and>
     rt_tasks s' ''t'' = Some (''{5}'' @ [nl])"
proof -
  obtain P where P: "jp_inv sample_jp P" "hm_get (jp_map sample_jp P) = [3 \<mapsto> waiting_record]" by (rule waiting_pending)
  let ?s = "sample_runtime waiting_pipe P" and ?t = "pipe_task\<lparr>t_status := NeedsApproval\<rparr>"
  let ?raw = "result_trusted (result_success ''ok'' JNull 120)"
  have D: "dc_pending sample_durable = sample_jp" "dc_outbox sample_durable = sample_jo" "dc_ext sample_durable = sample_ext"
    "dc_tasks sample_durable = any_task_codec" by (simp_all add: sample_durable_def)
  have S: "rt_pending ?s = P" "rt_outbox ?s = jo_fresh" "rt_pipe ?s = waiting_pipe" "rt_world ?s = 0"
    by (simp_all add: sample_runtime_def)
  have E: "pr_task waiting_record = 5" "pr_approval waiting_record = sample_grant" "pr_id waiting_record = a_id sample_grant"
    by (simp_all add: waiting_record_def pr_id_def)
  have r: "rs_status ?raw = Succeeded" by (simp add: result_trusted_def result_success_def)
  have g: "120 \<le> a_expires_at sample_grant" "\<not> a_consumed sample_grant"
    "a_payload_hash sample_grant = sha256_hex sample_ext ''p''"
    by (simp_all add: sample_grant_def grant_def Let_def saturating_expiry_def) (simp_all add: sample_ext_def)
  have exe: "hm_get (rt_executors ?s) (t_skill ?t) = Some sample_executor"
    by (simp add: sample_runtime_def pipe_task_def task_new_def)
  have q: "jp_quiet sample_jp (ce_store sample_call)" "snd (ce_intent sample_call) = NoFault"
    "snd (ce_commit sample_call) = NoFault" "ce_task sample_call = NoFault"
    by (simp_all add: jp_quiet_def quiet_env_def harmless_swap_def sample_jp_def sample_call_def)
  have ran: "sample_executor (exec_request False (a_action_id sample_grant) ?t 5 (t_payload ?t) 120) 0 = (Done (Inr ?raw), 1)"
    by (simp add: sample_executor_def exec_request_def with_input_taint_def request_new_def)
  have v: "task_validate (?t\<lparr>t_status := st, t_updated := 120\<rparr>) = Inr ()" for st
    by (simp add: task_validate_def pipe_task_def task_new_def is_nil_def nil_id_def)
  have st: "t_status ?t = NeedsApproval" and bytes: "json_bytes sample_ext (t_payload ?t) = Inr ''p''"
    using sample_pipe_facts(6) by simp_all
  have e: "hm_get (jp_map sample_jp P) 3 = Some waiting_record" using P(2) by simp
  have enc: "task_to_string any_task_codec x = Inr ''{5}''" for x by (simp add: any_task_codec_def)
  from approve_completes[where D = sample_durable and s = ?s and raw = ?raw and i = 3 and entry = waiting_record and
      exe = sample_executor and env = sample_call and t = ?t and now = 120, unfolded D S E,
      OF P(1) e sample_jo_fresh(2,3) waiting_pipe_facts(1) st exe bytes waiting_pipe_facts(2) g ran q v enc]
  moreover have "fs_append (rt_tasks ?s) (dc_task_path sample_durable) (''{5}'' @ [nl]) ''t'' = Some (''{5}'' @ [nl])"
    by (simp add: fs_append_def fs_content_def sample_durable_def sample_runtime_def)
  ultimately show ?thesis using P by (intro exI[of _ P]) (auto simp: r split: prod.splits outcome.splits sum.splits)
qed

end
