(* ===== verification/Runtime_Restart.thy ===== *)
theory Runtime_Restart
  imports Runtime_Machine
begin

section \<open>The task log of the runtime and the restart\<close>

text \<open>
  The durable runtime of \<^verbatim>\<open>crates/familyclaw-actions/src/facade.rs\<close> writes a snapshot of a task to the
  task log of \<^verbatim>\<open>task.rs\<close> before a call that changed it reports success. Hence the log always describes the
  running queue, whatever calls succeeded, and a restart gives the queue back.
\<close>

subsection \<open>The log describes the queue\<close>

definition log_tasks :: "durable_config \<Rightarrow> ('p, 'o, 'w) runtime \<Rightarrow> action_task list \<Rightarrow> bool" where
  "log_tasks D s ts \<longleftrightarrow>
     (case rt_tasks s (dc_task_path D) of None \<Rightarrow> ts = [] | Some c \<Rightarrow> snapshot_text (dc_tasks D) ts = Some c)"

text \<open>
  \<open>logged\<close>: the last snapshots in the log are the tasks of the queue. \<open>dirty i\<close>: they are, with the
  possible exception of the task \<open>i\<close>.
\<close>

definition logged :: "durable_config \<Rightarrow> ('p, 'o, 'w) runtime \<Rightarrow> bool" where
  "logged D s \<longleftrightarrow> (\<exists>ts. log_tasks D s ts \<and> hm_get (latest_tasks ts) = hm_get (pl_queue (rt_pipe s)))"

definition dirty :: "durable_config \<Rightarrow> task_id \<Rightarrow> ('p, 'o, 'w) runtime \<Rightarrow> bool" where
  "dirty D i s \<longleftrightarrow> (\<exists>ts. log_tasks D s ts \<and>
     (\<forall>j. j \<noteq> i \<longrightarrow> hm_get (latest_tasks ts) j = hm_get (pl_queue (rt_pipe s)) j) \<and>
     (hm_get (pl_queue (rt_pipe s)) i = None \<longrightarrow> hm_get (latest_tasks ts) i = None) \<and>
     pred_option (\<lambda>t. t_id t = i) (hm_get (pl_queue (rt_pipe s)) i))"

lemma logged_dirty: "logged D s \<Longrightarrow> dirty D i s"
proof -
  assume "logged D s"
  then obtain ts where ts: "log_tasks D s ts" "hm_get (latest_tasks ts) = hm_get (pl_queue (rt_pipe s))"
    unfolding logged_def by blast
  have "pred_option (\<lambda>t. t_id t = i) (hm_get (latest_tasks ts) i)"
  proof (cases "find (\<lambda>t. t_id t = i) (rev ts)")
    case (Some t)
    then have "t_id t = i" by (metis (mono_tags, lifting) find_Some_iff)
    with Some show ?thesis by (simp only: latest_tasks_get option.pred_inject)
  qed (simp only: latest_tasks_get option.pred_inject)
  then show ?thesis using ts unfolding dirty_def by (intro exI[of _ ts]) simp
qed

lemma logged_reload:
  assumes "task_codec_ok (dc_tasks D)" "logged D s"
  obtains tasks where "reload (dc_tasks D) (dc_task_path D) (rt_tasks s) = Inr tasks"
    "hm_get tasks = hm_get (pl_queue (rt_pipe s))"
proof -
  obtain ts where ts: "log_tasks D s ts" "hm_get (latest_tasks ts) = hm_get (pl_queue (rt_pipe s))"
    using assms(2) unfolding logged_def by blast
  have "reload (dc_tasks D) (dc_task_path D) (rt_tasks s) = Inr (latest_tasks ts)"
    using ts(1) snapshot_text_reload[OF assms(1), of ts]
    by (cases "rt_tasks s (dc_task_path D)") (auto simp: log_tasks_def reload_def latest_tasks_def)
  then show ?thesis using that ts(2) by blast
qed

subsection \<open>What one task's steps do to the queue\<close>

definition one_task :: "task_id \<Rightarrow> task_queue \<Rightarrow> task_queue \<Rightarrow> bool" where
  "one_task i q q' \<longleftrightarrow> (\<forall>j. j \<noteq> i \<longrightarrow> hm_get q' j = hm_get q j) \<and> (hm_get q i \<noteq> None \<longrightarrow> hm_get q' i \<noteq> None) \<and>
     (pred_option (\<lambda>t. t_id t = i) (hm_get q i) \<longrightarrow> pred_option (\<lambda>t. t_id t = i) (hm_get q' i))"

lemma one_task_refl: "one_task i q q"
  by (simp add: one_task_def)

lemma one_task_trans: "one_task i a b \<Longrightarrow> one_task i b c \<Longrightarrow> one_task i a c"
  by (simp add: one_task_def)

lemma one_task_insert:
  assumes "pred_option (\<lambda>t. t_id t = i) (hm_get q i) \<longrightarrow> t_id t = i"
  shows "one_task i q (hm_insert i t q)"
  using assms by (simp add: one_task_def)

abbreviation own :: "task_id \<Rightarrow> 'w pipe_state \<Rightarrow> 'w pipe_state \<Rightarrow> bool" where
  "own i s s' \<equiv> one_task i (pl_queue (fst s)) (pl_queue (fst s'))"

named_theorems owned \<open>steps of the pipeline that touch one task\<close>

lemma owned_on_queue:
  assumes "\<And>q. one_task i q (snd (f q))"
  shows "preserves (own i) (on_queue f)"
  using assms by (simp add: preserves_def on_queue_def split: prod.split) (metis snd_conv)

lemma owned_transition [owned]: "preserves (own i) (on_queue (\<lambda>q. transition X q i next now))"
proof (rule owned_on_queue)
  fix q
  show "one_task i q (snd (transition X q i next now))"
    by (cases "hm_get q i") (simp_all add: transition_def one_task_refl one_task_insert del: map_of_eq_Some_iff)
qed

lemma owned_submit [owned]: "i = t_id t \<Longrightarrow> preserves (own i) (on_queue (\<lambda>q. submit X q t))"
  by (rule owned_on_queue) (simp add: submit_def one_task_refl one_task_insert split: sum.split)

lemma owned_steps [owned]:
  "preserves (own i) (on_ledger f)" "preserves (own i) (record_event e)" "preserves (own i) (run_executor exe rq)"
  "preserves (own i) (task_or_missing X j)" "preserves (own i) (reading h)" "preserves (own i) (ret x)"
  "preserves (own i) (of_result r)"
  by (simp_all add: preserves_def on_ledger_def record_event_def run_executor_def task_or_missing_def act_defs one_task_refl
      split: prod.splits)

lemma owned_andthen [owned]:
  "preserves (own i) m \<Longrightarrow> (\<And>x. preserves (own i) (f x)) \<Longrightarrow> preserves (own i) (andthen m f)"
  by (rule preserves_andthen) (auto intro: one_task_trans)

lemma owned_if [owned]: "preserves (own i) m \<Longrightarrow> preserves (own i) n \<Longrightarrow> preserves (own i) (if b then m else n)"
  by simp

lemma owned_execute [owned]: "preserves (own i) (execute_and_finalize X ids exe i a payload now tainted)"
  unfolding execute_and_finalize_def Let_def by (intro owned)

lemma owned_run: "preserves (own (t_id t)) (pipe_run X ids exe t now)"
  unfolding pipe_run_def run_with_input_taint_def Let_def by (intro owned refl)

lemma owned_approved: "preserves (own i) (run_after_approval X ids exe i a now)"
  unfolding run_after_approval_def run_after_approval_with_input_taint_def Let_def by (intro owned)

lemma owned_grant: "preserves (own i) (grant_approval X ids a payload now ttl)"
  unfolding grant_approval_def by (intro owned)

subsection \<open>Calls that succeed\<close>

text \<open>From a state with \<open>P\<close>, an answer \<open>x\<close> of the step comes with \<open>Q x\<close>.\<close>

definition ensures :: "('s \<Rightarrow> bool) \<Rightarrow> ('s, 'a) act \<Rightarrow> ('a \<Rightarrow> 's \<Rightarrow> bool) \<Rightarrow> bool" where
  "ensures P m Q \<longleftrightarrow> (\<forall>s x s'. P s \<longrightarrow> m s = (Done (Inr x), s') \<longrightarrow> Q x s')"

lemma ensuresD: "ensures P m Q \<Longrightarrow> P s \<Longrightarrow> m s = (Done (Inr x), s') \<Longrightarrow> Q x s'"
  unfolding ensures_def by blast

lemma ensures_andthen: "ensures P m Q \<Longrightarrow> (\<And>x. ensures (Q x) (f x) R) \<Longrightarrow> ensures P (andthen m f) R"
  unfolding ensures_def by (meson andthen_value)

lemma ensures_pre: "ensures P m Q \<Longrightarrow> (\<And>s. P' s \<Longrightarrow> P s) \<Longrightarrow> ensures P' m Q"
  unfolding ensures_def by blast

lemma ensures_post: "ensures P m Q \<Longrightarrow> (\<And>x s. Q x s \<Longrightarrow> Q' x s) \<Longrightarrow> ensures P m Q'"
  unfolding ensures_def by blast

lemma ensures_attempt: "ensures P m (\<lambda>_. Q) \<Longrightarrow> ensures P (attempt m) (\<lambda>r s. \<forall>x. r = Inr x \<longrightarrow> Q s)"
  unfolding ensures_def attempt_def by (auto split: prod.splits outcome.splits)

lemma ensures_preserved:
  "preserves R m \<Longrightarrow> (\<And>s s'. P s \<Longrightarrow> R s s' \<Longrightarrow> P s') \<Longrightarrow> ensures P m (\<lambda>_. P)"
  unfolding ensures_def preserves_def by (metis snd_conv)

text \<open>Steps that touch neither the queue nor the log.\<close>

abbreviation aside :: "('p, 'o, 'w) runtime \<Rightarrow> ('p, 'o, 'w) runtime \<Rightarrow> bool" where
  "aside s s' \<equiv> pl_queue (rt_pipe s') = pl_queue (rt_pipe s) \<and> rt_tasks s' = rt_tasks s"

lemma aside_steps:
  "preserves aside (on_pending g)" "preserves aside (on_limiter h)" "preserves aside (on_outbox k)"
  "preserves aside (keep_proof i b)" "preserves aside (lookup_key R key)" "preserves aside (pending_or_missing R j)"
  "preserves aside (of_result r)" "preserves aside (reading q)" "preserves aside (ret x)" "preserves aside (ttl_duration R)"
  "preserves aside (remove_pending R env j)" "preserves aside (throw e)"
  by (simp_all add: preserves_def on_pending_def on_limiter_def on_outbox_def keep_proof_def remove_pending_def
      act_defs lookup_key_def pending_or_missing_def ttl_duration_def split: prod.split option.split)

lemma logged_aside: "logged D s \<Longrightarrow> aside s s' \<Longrightarrow> logged D s'" and dirty_aside: "dirty D i s \<Longrightarrow> aside s s' \<Longrightarrow> dirty D i s'"
  by (simp_all add: logged_def dirty_def log_tasks_def)

lemma keep_logged: "preserves aside m \<Longrightarrow> ensures (logged D) m (\<lambda>_. logged D)"
  by (rule ensures_preserved[where R = aside]) (auto intro: logged_aside)

lemma keep_dirty: "preserves aside m \<Longrightarrow> ensures (dirty D i) m (\<lambda>_. dirty D i)"
  by (rule ensures_preserved[where R = aside]) (auto intro: dirty_aside)

lemma dirtyE:
  assumes "dirty D i s"
  obtains ts where "log_tasks D s ts" "\<And>j. j \<noteq> i \<Longrightarrow> hm_get (latest_tasks ts) j = hm_get (pl_queue (rt_pipe s)) j"
    "hm_get (pl_queue (rt_pipe s)) i = None \<Longrightarrow> hm_get (latest_tasks ts) i = None"
    "pred_option (\<lambda>t. t_id t = i) (hm_get (pl_queue (rt_pipe s)) i)"
  using assms unfolding dirty_def by (elim exE conjE) simp

lemma dirty_own:
  fixes s :: "('p, 'o, 'w) runtime"
  assumes "dirty D i s" "one_task i (pl_queue (rt_pipe s)) (pl_queue p)"
  shows "dirty D i (s\<lparr>rt_pipe := p, rt_world := w\<rparr>)"
  using assms(1)
proof (rule dirtyE)
  fix ts
  assume "log_tasks D s ts" "\<And>j. j \<noteq> i \<Longrightarrow> hm_get (latest_tasks ts) j = hm_get (pl_queue (rt_pipe s)) j"
    "hm_get (pl_queue (rt_pipe s)) i = None \<Longrightarrow> hm_get (latest_tasks ts) i = None"
    "pred_option (\<lambda>t. t_id t = i) (hm_get (pl_queue (rt_pipe s)) i)"
  then show ?thesis
    using assms(2) unfolding dirty_def by (intro exI[of _ ts]) (auto simp: one_task_def log_tasks_def)
qed

lemma pipe_dirty:
  assumes "preserves (own i) f" "dirty D i s" "f (rt_pipe s, rt_world s) = (r, (p, w))"
  shows "dirty D i (s\<lparr>rt_pipe := p, rt_world := w\<rparr>)"
  using preservesD[OF assms(1,3)] by (intro dirty_own[OF assms(2)]) simp

lemma on_pipe_dirty: "preserves (own i) f \<Longrightarrow> ensures (dirty D i) (on_pipe f) (\<lambda>_. dirty D i)"
  unfolding ensures_def on_pipe_def by (auto split: prod.splits intro: pipe_dirty)

lemma attempt_pipe_dirty: "preserves (own i) f \<Longrightarrow> ensures (dirty D i) (attempt (on_pipe f)) (\<lambda>_. dirty D i)"
  unfolding ensures_def on_pipe_def attempt_def by (auto split: prod.splits outcome.splits intro: pipe_dirty)

lemma snapshot_logs: "ensures (dirty D i) (snapshot_task_if_durable (durable_rt D) env i) (\<lambda>_. logged D)"
  unfolding ensures_def
proof (intro allI impI)
  fix s :: "(jp_state, jo_state, 'w) runtime" and x :: unit and s'
  assume s: "dirty D i s" and call: "snapshot_task_if_durable (durable_rt D) env i s = (Done (Inr x), s')"
  let ?q = "pl_queue (rt_pipe s)" and ?p = "dc_task_path D"
  from s show "logged D s'"
  proof (rule dirtyE)
  fix ts
  assume ts: "log_tasks D s ts" "\<And>j. j \<noteq> i \<Longrightarrow> hm_get (latest_tasks ts) j = hm_get ?q j"
      "hm_get ?q i = None \<Longrightarrow> hm_get (latest_tasks ts) i = None" "pred_option (\<lambda>t. t_id t = i) (hm_get ?q i)"
  show ?thesis
  proof (cases "hm_get ?q i")
    case None
    then have "s' = s" using call by (simp add: snapshot_task_if_durable_def queue_get_def)
    moreover have "hm_get (latest_tasks ts) = hm_get ?q" using ts(2,3) None by (metis ext)
    ultimately show ?thesis using ts(1) unfolding logged_def by blast
  next
    case (Some t)
    obtain d where d: "task_append (dc_tasks D) ?p (ce_task env) (rt_tasks s) t = (Done (Inr ()), d)" "s' = s\<lparr>rt_tasks := d\<rparr>"
      using call Some by (auto simp: snapshot_task_if_durable_def queue_get_def simp del: map_of_eq_Some_iff split: prod.splits)
    obtain l where l: "task_to_string (dc_tasks D) t = Inr l" "d = fs_append (rt_tasks s) ?p (l @ [nl])"
      using d(1) by (cases "ce_task env") (auto simp: task_append_def split: sum.splits)
    have "log_tasks D s' (ts @ [t])"
      using ts(1) l d(2) snapshot_text_append[of "dc_tasks D" ts _ t l]
      by (cases "rt_tasks s ?p") (auto simp: log_tasks_def fs_append_def fs_content_def)
    moreover have "hm_get (latest_tasks (ts @ [t])) = hm_get ?q"
    proof
      fix j
      show "hm_get (latest_tasks (ts @ [t])) j = hm_get ?q j"
        using ts(2)[of j] ts(4) Some by (cases "j = i") (simp_all add: latest_tasks_def)
    qed
    ultimately show ?thesis unfolding logged_def d(2) by auto
  qed
  qed
qed

lemma keep_pipe_logged:
  assumes "\<And>s. pl_queue (fst (snd (f s))) = pl_queue (fst s)"
  shows "preserves aside (on_pipe f)"
  using assms by (simp add: preserves_def on_pipe_def split: prod.split) (metis fst_conv snd_conv)

lemma register_logs: "ensures (logged D) (register_skill R S m exe) (\<lambda>_. logged D)"
proof (rule keep_logged)
  show "preserves aside (register_skill R S m exe)"
    by (auto simp: preserves_def register_skill_def pipe_register_def andthen_def change_def
        split: prod.splits outcome.splits sum.splits)
qed

lemma evict_logs: "ensures (logged D) (evict_expired_approvals R env now) (\<lambda>_. logged D)"
  unfolding evict_expired_approvals_def by (rule keep_logged[OF aside_steps(1)])

text \<open>The steps of the calls, by what they keep.\<close>

lemmas logs_aside = keep_logged[OF aside_steps(1)] keep_logged[OF aside_steps(2)] keep_logged[OF aside_steps(3)]
  keep_logged[OF aside_steps(4)] keep_logged[OF aside_steps(5)] keep_logged[OF aside_steps(6)] keep_logged[OF aside_steps(7)]
  keep_logged[OF aside_steps(8)] keep_logged[OF aside_steps(9)] keep_logged[OF aside_steps(11)] keep_logged[OF aside_steps(12)]

lemmas dirt_aside = keep_dirty[OF aside_steps(1)] keep_dirty[OF aside_steps(2)] keep_dirty[OF aside_steps(3)]
  keep_dirty[OF aside_steps(4)] keep_dirty[OF aside_steps(7)] keep_dirty[OF aside_steps(8)] keep_dirty[OF aside_steps(10)]
  keep_dirty[OF aside_steps(11)]

lemma submit_logs: "ensures (logged D) (submit_task_as (durable_rt D) env being k v now) (\<lambda>_. logged D)"
proof -
  let ?t = "task_new (ce_ids env 0) k v now"
  note pass = ensures_andthen[where Q = "\<lambda>_. dirty D (t_id ?t)"]
  note save = ensures_andthen[where Q = "\<lambda>_. logged D", OF snapshot_logs]
  have run: "ensures (logged D) (on_pipe (pipe_run X ids exe ?t now)) (\<lambda>_. dirty D (t_id ?t))" for X ids exe
    by (rule ensures_pre[OF on_pipe_dirty[OF owned_run] logged_dirty])
  have tail: "ensures (dirty D (t_id ?t))
      (if b then andthen (on_limiter g) (\<lambda>_. andthen (ttl_duration R) (\<lambda>ttl.
         andthen (on_pipe (grant_approval X ids a v now ttl)) (\<lambda>a. andthen (reading h) (\<lambda>summary.
         andthen (on_pending (p a summary)) (\<lambda>_. andthen (snapshot_task_if_durable (durable_rt D) env (t_id ?t)) (\<lambda>_. ret (y a)))))))
       else andthen (snapshot_task_if_durable (durable_rt D) env (t_id ?t)) (\<lambda>_. ret n)) (\<lambda>_. logged D)" for b g R X ids a h p y n
    by (cases b) (simp_all only: if_True if_False, (intro pass dirt_aside on_pipe_dirty owned_grant save logs_aside)+)
  show ?thesis
    unfolding submit_task_as_def Let_def
    by (rule ensures_andthen[OF logs_aside(8)] ensures_andthen[OF run] pass[OF dirt_aside(4)]
        ensures_andthen[OF tail] logs_aside(9))+
qed


lemma keyed_logs: "ensures (logged D) (submit_task_idempotent (durable_rt D) env key being k v now) (\<lambda>_. logged D)"
proof -
  have found: "ensures (logged D) (case found of
        Committed d \<Rightarrow> of_result (into_result d) | InProgress \<Rightarrow> throw (interrupted_submit key)
      | NotStarted \<Rightarrow>
         andthen (on_outbox g) (\<lambda>_.
         andthen (attempt (submit_task_as (durable_rt D) env being k v now)) (\<lambda>result.
         andthen (on_outbox (h result)) (\<lambda>_. of_result result)))) (\<lambda>_. logged D)" for found g h
  proof (cases found)
    case NotStarted
    have out: "ensures (\<lambda>s. \<forall>x. r = Inr x \<longrightarrow> logged D s) (andthen (on_outbox f) (\<lambda>_. of_result r)) (\<lambda>_. logged D)" for r f
    proof (cases r)
      case (Inl e)
      then show ?thesis by (auto simp: ensures_def of_result_def andthen_def split: prod.splits outcome.splits sum.splits)
    next
      case (Inr x)
      then show ?thesis using ensures_andthen[OF logs_aside(3) logs_aside(7)] by simp
    qed
    show ?thesis
      unfolding NotStarted dispatch_lookup.case
      by (rule ensures_andthen[OF logs_aside(3)] ensures_andthen[OF ensures_attempt[OF submit_logs]] out)+
  qed (simp_all add: logs_aside)
  show ?thesis unfolding submit_task_idempotent_def by (rule ensures_andthen[OF logs_aside(5) found])
qed

lemma approve_logs: "ensures (logged D) (approve (durable_rt D) env i now) (\<lambda>_. logged D)"
proof -
  have q: "preserves aside (on_pipe (task_or_missing X j))" for X j
    by (rule keep_pipe_logged) (simp add: task_or_missing_def reading_def)
  have go: "ensures (logged D)
       (andthen (on_outbox g) (\<lambda>_.
        andthen (attempt (on_pipe (run_after_approval X ids exe j a now))) (\<lambda>result.
        andthen (on_outbox (h result)) (\<lambda>_.
        andthen (of_result result) (\<lambda>out.
        andthen (remove_pending R env i) (\<lambda>_.
        andthen (snapshot_task_if_durable (durable_rt D) env j) (\<lambda>_.
        andthen (keep_proof j (po_proof out)) (\<lambda>_. ret (y out)))))))))
       (\<lambda>_. logged D)" for g X ids exe j a h R y
  proof (rule ensures_pre[OF _ logged_dirty[where i = j]])
    show "ensures (dirty D j)
       (andthen (on_outbox g) (\<lambda>_.
        andthen (attempt (on_pipe (run_after_approval X ids exe j a now))) (\<lambda>result.
        andthen (on_outbox (h result)) (\<lambda>_.
        andthen (of_result result) (\<lambda>out.
        andthen (remove_pending R env i) (\<lambda>_.
        andthen (snapshot_task_if_durable (durable_rt D) env j) (\<lambda>_.
        andthen (keep_proof j (po_proof out)) (\<lambda>_. ret (y out)))))))))
       (\<lambda>_. logged D)"
      by (rule ensures_andthen[OF dirt_aside(3)] ensures_andthen[OF attempt_pipe_dirty[OF owned_approved]]
          ensures_andthen[OF dirt_aside(5)] ensures_andthen[OF dirt_aside(8)] ensures_andthen[OF snapshot_logs]
          ensures_andthen[OF logs_aside(4)] logs_aside(9))+
  qed
  have found: "ensures (logged D) (case found of
       Committed d \<Rightarrow> of_result (into_result d) | InProgress \<Rightarrow> throw e
     | NotStarted \<Rightarrow> m) (\<lambda>_. logged D)" if "ensures (logged D) m (\<lambda>_. logged D)" for found e m
    using that by (cases found) (simp_all add: logs_aside)
  show ?thesis
    unfolding approve_def Let_def
    by (rule ensures_andthen[OF logs_aside(6)] ensures_andthen[OF logs_aside(5)] found
        ensures_andthen[OF keep_logged[OF q]] ensures_andthen[OF logs_aside(8)] go)+
qed

lemma deny_logs: "ensures (logged D) (deny_pending (durable_rt D) env i now) (\<lambda>_. logged D)"
proof -
  have cancel: "ensures (logged D) (on_pipe (on_queue (\<lambda>q. transition X q j Cancelled now))) (\<lambda>_. dirty D j)" for X j
    by (rule ensures_pre[OF on_pipe_dirty[OF owned_transition] logged_dirty])
  show ?thesis
    unfolding deny_pending_def
    by (rule ensures_andthen[OF logs_aside(6)] ensures_andthen[OF logs_aside(10)] ensures_andthen[OF cancel] snapshot_logs)+
qed

lemma aside_andthen: "preserves aside m \<Longrightarrow> (\<And>x. preserves aside (f x)) \<Longrightarrow> preserves aside (andthen m f)"
  by (rule preserves_andthen) auto

lemma quarantine_logs: "ensures (logged D) (quarantine R env key) (\<lambda>_. logged D)"
proof (rule keep_logged)
  have lookup: "preserves aside (case found of
        Inr NotStarted \<Rightarrow> m | Inr InProgress \<Rightarrow> ret [] | Inr (Committed d) \<Rightarrow> ret (g d) | Inl e \<Rightarrow> ret (h e))"
    if "preserves aside m" for found m g h
    using that by (auto split: sum.split dispatch_lookup.split intro: aside_steps)
  have intended: "preserves aside (case r of Inl e \<Rightarrow> ret (g e) | Inr _ \<Rightarrow> m)" if "preserves aside m" for r g m
    using that by (auto split: sum.split intro: aside_steps)
  show "preserves aside (quarantine R env key)"
    unfolding quarantine_def by (intro aside_andthen lookup intended preserves_attempt aside_steps)
qed

lemma drop_logs: "ensures (logged D) (drop_pending (durable_rt D) env i now) (\<lambda>es s. es = [] \<longrightarrow> logged D s)"
proof -
  let ?Q = "\<lambda>es s. es = [] \<longrightarrow> logged D s"
  have fin: "ensures (logged D) (ret es) ?Q" for es by (simp add: ensures_def ret_def)
  have fail: "ensures P (ret [m]) ?Q" for P m by (simp add: ensures_def ret_def)
  have shot: "ensures (dirty D j) (andthen (attempt (snapshot_task_if_durable (durable_rt D) env j)) (\<lambda>shot.
      ret (complaint what shot))) ?Q" for j what
  proof (rule ensures_andthen[OF ensures_attempt[OF snapshot_logs]])
    show "ensures (\<lambda>s. \<forall>x. r = Inr x \<longrightarrow> logged D s) (ret (complaint what r)) ?Q" for r :: "action_error + unit"
      by (cases r) (simp_all add: ensures_def ret_def complaint_def)
  qed
  have move: "ensures (logged D) (andthen (attempt (on_pipe (on_queue (\<lambda>q. transition X q j Cancelled now)))) (\<lambda>moved.
      case moved of Inl e \<Rightarrow> ret [m e] | Inr _ \<Rightarrow>
        andthen (attempt (snapshot_task_if_durable (durable_rt D) env j)) (\<lambda>shot. ret (complaint what shot)))) ?Q" for X j m what
  proof (rule ensures_andthen[OF ensures_pre[OF attempt_pipe_dirty[OF owned_transition] logged_dirty]])
    show "ensures (dirty D j) (case r of Inl e \<Rightarrow> ret [m e] | Inr _ \<Rightarrow>
        andthen (attempt (snapshot_task_if_durable (durable_rt D) env j)) (\<lambda>shot. ret (complaint what shot))) ?Q"
      for r :: "action_error + task_event"
      using shot fail by (cases r) simp_all
  qed
  have removed: "ensures (logged D) (andthen (attempt (remove_pending R env i)) (\<lambda>removed.
      case removed of Inl e \<Rightarrow> ret [m e] | Inr _ \<Rightarrow> rest)) ?Q" if "ensures (logged D) rest ?Q" for R m rest
  proof (rule ensures_andthen[OF keep_logged[OF preserves_attempt[OF aside_steps(11)]]])
    show "ensures (logged D) (case r of Inl e \<Rightarrow> ret [m e] | Inr _ \<Rightarrow> rest) ?Q" for r :: "action_error + pending_record option"
      using that fail by (cases r) simp_all
  qed
  show ?thesis
    unfolding drop_pending_def
  proof (rule ensures_andthen[OF keep_logged[OF preserves_attempt[OF aside_steps(8)]]])
    fix found :: "action_error + pending_record option"
    show "ensures (logged D) (case found of
       Inl e \<Rightarrow> ret [''pending approval lookup failed: '' @ show_error e]
     | Inr None \<Rightarrow> ret []
     | Inr (Some entry) \<Rightarrow>
         andthen (attempt (remove_pending (durable_rt D) env i)) (\<lambda>removed.
         case removed of
           Inl e \<Rightarrow> ret [''pending approval tombstone failed: '' @ show_error e]
         | Inr _ \<Rightarrow>
             andthen (attempt (on_pipe (on_queue (\<lambda>q. transition (rc_ext (durable_rt D)) q (pr_task entry) Cancelled now)))) (\<lambda>moved.
             case moved of
               Inl e \<Rightarrow> ret [''pending task cancel failed: '' @ show_error e]
             | Inr _ \<Rightarrow>
                 andthen (attempt (snapshot_task_if_durable (durable_rt D) env (pr_task entry))) (\<lambda>shot.
                 ret (complaint ''pending task snapshot failed: '' shot))))) ?Q"
      using fin fail removed[OF move] by (auto split: sum.split option.split)
  qed
qed

lemma abort_logs: "ensures (logged D) (abort_pending_after_continuation_failure (durable_rt D) env i now) (\<lambda>_. logged D)"
proof -
  have verdict: "ensures (\<lambda>s. fs = [] \<longrightarrow> logged D s) (if es @ fs = [] then ret () else throw e) (\<lambda>_. logged D)" for es fs e
    by (simp add: ensures_def ret_def throw_def)
  show ?thesis
    unfolding abort_pending_after_continuation_failure_def
    by (rule ensures_andthen[OF quarantine_logs] ensures_andthen[OF drop_logs] verdict)+
qed

text \<open>The calls of the runtime that reported success, one after the other.\<close>

inductive served :: "durable_config \<Rightarrow> (jp_state, jo_state, 'w) runtime \<Rightarrow> (jp_state, jo_state, 'w) runtime \<Rightarrow> bool"
  for D s where
  served_start: "served D s s"
| served_register: "served D s s1 \<Longrightarrow> register_skill (durable_rt D) S m exe s1 = (Done (Inr u), s2) \<Longrightarrow> served D s s2"
| served_submit: "served D s s1 \<Longrightarrow> submit_task_as (durable_rt D) env being k v now s1 = (Done (Inr out), s2) \<Longrightarrow> served D s s2"
| served_keyed: "served D s s1 \<Longrightarrow>
     submit_task_idempotent (durable_rt D) env key being k v now s1 = (Done (Inr out), s2) \<Longrightarrow> served D s s2"
| served_approve: "served D s s1 \<Longrightarrow> approve (durable_rt D) env i now s1 = (Done (Inr out), s2) \<Longrightarrow> served D s s2"
| served_deny: "served D s s1 \<Longrightarrow> deny_pending (durable_rt D) env i now s1 = (Done (Inr u), s2) \<Longrightarrow> served D s s2"
| served_abort: "served D s s1 \<Longrightarrow>
     abort_pending_after_continuation_failure (durable_rt D) env i now s1 = (Done (Inr u), s2) \<Longrightarrow> served D s s2"
| served_evict: "served D s s1 \<Longrightarrow> evict_expired_approvals (durable_rt D) env now s1 = (Done (Inr n), s2) \<Longrightarrow> served D s s2"

lemma served_logged: "served D s0 s \<Longrightarrow> logged D s0 \<Longrightarrow> logged D s"
  by (induction rule: served.induct)
    (auto intro: ensuresD[OF register_logs] ensuresD[OF submit_logs] ensuresD[OF keyed_logs] ensuresD[OF approve_logs]
      ensuresD[OF deny_logs] ensuresD[OF abort_logs] ensuresD[OF evict_logs])

subsection \<open>Properties\<close>

text \<open>C20: a restart gives the runtime back. Take a runtime whose task log describes its queue, for instance
  an empty one with no log, and let any calls be made that report success; when the two journals are then
  at rest, the restart from the disks succeeds, leaves the disks alone, and gives a runtime with the same
  tasks under the same identifiers, the same pending records, the same answer for every dispatch key and
  the same task log; its ledger holds exactly the approvals of the pending records, and the world is
  untouched. Executors, proofs, audit events and the rate limiter start empty, as the code has it.\<close>

theorem restart_restores_runtime:
  fixes s :: "(jp_state, jo_state, 'w) runtime" and w :: 'w
  assumes "task_codec_ok (dc_tasks D)" "logged D s0" "served D s0 s"
    and "jp_inv (dc_pending D) (rt_pending s)" "jo_inv (dc_outbox D) (rt_outbox s)"
  shows "case with_durable_stores D (rt_disks s) w of
      (Inr s', d) \<Rightarrow>
        d = rt_disks s \<and> rt_world s' = w \<and>
        queue_get (pl_queue (rt_pipe s')) = queue_get (pl_queue (rt_pipe s)) \<and> logged D s' \<and>
        jp_map (dc_pending D) (rt_pending s') = jp_map (dc_pending D) (rt_pending s) \<and>
        jo_lookup (dc_outbox D) (rt_outbox s') key = jo_lookup (dc_outbox D) (rt_outbox s) key \<and>
        hm_get (approvals (pl_ledger (rt_pipe s'))) i =
          map_option pr_approval (hm_get (jp_map (dc_pending D) (rt_pending s)) i)
    | _ \<Rightarrow> False"
proof -
  have log: "logged D s" by (rule served_logged[OF assms(3,2)])
  obtain tasks where tasks: "reload (dc_tasks D) (dc_task_path D) (rt_tasks s) = Inr tasks"
    "hm_get tasks = hm_get (pl_queue (rt_pipe s))" by (rule logged_reload[OF assms(1) log])
  show ?thesis
  proof (rule booted[OF assms(4,5) tasks(1), of w])
    fix s' :: "(jp_state, jo_state, 'w) runtime"
    assume b: "with_durable_stores D (rt_disks s) w = (Inr s', rt_disks s)"
      "jp_map (dc_pending D) (rt_pending s') = jp_map (dc_pending D) (rt_pending s)"
      "jo_inv (dc_outbox D) (rt_outbox s')" "jo_entry (dc_outbox D) (rt_outbox s') = jo_entry (dc_outbox D) (rt_outbox s)"
      "pl_queue (rt_pipe s') = tasks" "rt_world s' = w" "rt_tasks s' = rt_tasks s"
      and l: "\<And>i. hm_get (approvals (pl_ledger (rt_pipe s'))) i =
         map_option pr_approval (hm_get (jp_map (dc_pending D) (rt_pending s)) i)"
    have "jo_lookup (dc_outbox D) (rt_outbox s') key = jo_lookup (dc_outbox D) (rt_outbox s) key"
      using joc.lookup_state[OF b(3), of key] joc.lookup_state[OF assms(5), of key] b(4) by simp
    moreover have "logged D s'" using log b(5,7) tasks(2) by (simp add: logged_def log_tasks_def)
    moreover have "queue_get (pl_queue (rt_pipe s')) = queue_get (pl_queue (rt_pipe s))"
      using tasks(2) b(5) by (simp add: queue_get_def fun_eq_iff)
    ultimately show ?thesis using b l by simp
  qed
qed

text \<open>An encoder of two tasks.\<close>

definition two_tasks :: "action_task \<Rightarrow> action_task \<Rightarrow> task_codec" where
  "two_tasks t u =
     \<lparr>task_to_string = (\<lambda>x. if x = t then Inr ''{5}'' else if x = u then Inr ''{6}'' else Inl ''unsupported''),
      task_from_str = (\<lambda>l. if l = ''{5}'' then Inr t else if l = ''{6}'' then Inr u else Inl ''EOF'')\<rparr>"

lemma two_tasks_ok: "task_codec_ok (two_tasks t u)"
proof -
  have cut: "trim (take n ''{5}'') \<notin> {''{5}'', ''{6}''}" "trim (take n ''{6}'') \<notin> {''{5}'', ''{6}''}" if "n < 3" for n
  proof -
    from that have "n = 0 \<or> n = 1 \<or> n = 2" by linarith
    moreover have "\<forall>n \<in> set [0,1,2]. trim (take n ''{5}'') \<notin> {''{5}'', ''{6}''} \<and> trim (take n ''{6}'') \<notin> {''{5}'', ''{6}''}"
      by code_simp
    ultimately show "trim (take n ''{5}'') \<notin> {''{5}'', ''{6}''}" "trim (take n ''{6}'') \<notin> {''{5}'', ''{6}''}" by auto
  qed
  then show ?thesis
    by (auto simp: task_codec_ok_def two_tasks_def nl_def utf8_ascii split: if_splits)
qed

text \<open>The example: a task waits for an approval, is approved and runs; the restart knows it as done.\<close>

definition waiting_task :: action_task where
  "waiting_task = pipe_task\<lparr>t_status := NeedsApproval\<rparr>"

definition approved_task :: action_task where
  "approved_task = waiting_task\<lparr>t_status := TaskDone, t_updated := 120\<rparr>"

definition logging_durable :: durable_config where
  "logging_durable = sample_durable\<lparr>dc_tasks := two_tasks waiting_task approved_task\<rparr>"

definition logging_runtime :: "jp_state \<Rightarrow> (jp_state, jo_state, nat) runtime" where
  "logging_runtime P = (sample_runtime waiting_pipe P)\<lparr>rt_tasks := [''t'' \<mapsto> ''{5}'' @ [nl]]\<rparr>"

lemma logging_logged: "logged logging_durable (logging_runtime P)"
  unfolding logged_def
  by (rule exI[of _ "[waiting_task]"])
    (simp add: log_tasks_def logging_durable_def logging_runtime_def sample_durable_def sample_runtime_def two_tasks_def
      latest_tasks_def waiting_pipe_def, simp add: waiting_task_def pipe_task_def task_new_def fun_eq_iff)

theorem restart_restores_runtime_witness:
  "\<exists>P s s' d. logged logging_durable (logging_runtime P) \<and>
     approve (durable_rt logging_durable) sample_call 3 120 (logging_runtime P) =
       (Done (Inr \<lparr>so_task = 5, so_status = TaskDone, so_pending = None\<rparr>), s) \<and>
     with_durable_stores logging_durable (rt_disks s) (rt_world s) = (Inr s', d) \<and>
     queue_get (pl_queue (rt_pipe s')) 5 = Some approved_task \<and> rt_world s' = 1"
proof -
  obtain P where P: "jp_inv sample_jp P" "hm_get (jp_map sample_jp P) = [3 \<mapsto> waiting_record]" by (rule waiting_pending)
  let ?s = "logging_runtime P" and ?t = waiting_task and ?D = logging_durable
  let ?raw = "result_trusted (result_success ''ok'' JNull 120)"
  have D: "dc_pending ?D = sample_jp" "dc_outbox ?D = sample_jo" "dc_ext ?D = sample_ext"
    "dc_tasks ?D = two_tasks waiting_task approved_task" by (simp_all add: logging_durable_def sample_durable_def)
  have S: "rt_pending ?s = P" "rt_outbox ?s = jo_fresh" "rt_pipe ?s = waiting_pipe" "rt_world ?s = 0"
    by (simp_all add: logging_runtime_def sample_runtime_def)
  have E: "pr_task waiting_record = 5" "pr_approval waiting_record = sample_grant" "pr_id waiting_record = a_id sample_grant"
    by (simp_all add: waiting_record_def pr_id_def)
  have r: "rs_status ?raw = Succeeded" by (simp add: result_trusted_def result_success_def)
  have g: "120 \<le> a_expires_at sample_grant" "\<not> a_consumed sample_grant"
    "a_payload_hash sample_grant = sha256_hex sample_ext ''p''"
    by (simp_all add: sample_grant_def grant_def Let_def saturating_expiry_def) (simp_all add: sample_ext_def)
  have exe: "hm_get (rt_executors ?s) (t_skill ?t) = Some sample_executor"
    by (simp add: logging_runtime_def sample_runtime_def waiting_task_def pipe_task_def task_new_def)
  have q: "jp_quiet sample_jp (ce_store sample_call)" "snd (ce_intent sample_call) = NoFault"
    "snd (ce_commit sample_call) = NoFault" "ce_task sample_call = NoFault"
    by (simp_all add: jp_quiet_def quiet_env_def harmless_swap_def sample_jp_def sample_call_def)
  have ran: "sample_executor (exec_request False (a_action_id sample_grant) ?t 5 (t_payload ?t) 120) 0 = (Done (Inr ?raw), 1)"
    by (simp add: sample_executor_def exec_request_def with_input_taint_def request_new_def)
  have v: "task_validate (?t\<lparr>t_status := (if rs_status ?raw = Succeeded then TaskDone else Failed), t_updated := 120\<rparr>) = Inr ()"
    by (simp add: waiting_task_def task_validate_def pipe_task_def task_new_def is_nil_def nil_id_def)
  have st: "t_status ?t = NeedsApproval" and bytes: "json_bytes sample_ext (t_payload ?t) = Inr ''p''"
    using sample_pipe_facts(6) by (simp_all add: waiting_task_def)
  have e: "hm_get (jp_map sample_jp P) 3 = Some waiting_record" using P(2) by simp
  have w: "hm_get (pl_queue waiting_pipe) 5 = Some ?t" using waiting_pipe_facts(1) by (simp add: waiting_task_def)
  have "t_status approved_task \<noteq> t_status waiting_task" by (simp add: approved_task_def waiting_task_def)
  then have ne: "approved_task \<noteq> waiting_task" by auto
  have enc: "task_to_string (two_tasks waiting_task approved_task)
      (?t\<lparr>t_status := (if rs_status ?raw = Succeeded then TaskDone else Failed), t_updated := 120\<rparr>) = Inr ''{6}''"
    using r ne by (simp add: two_tasks_def approved_task_def[symmetric])
  obtain s where s: "approve (durable_rt ?D) sample_call 3 120 ?s =
      (Done (Inr \<lparr>so_task = 5, so_status = TaskDone, so_pending = None\<rparr>), s)" "rt_world s = 1"
    "jp_inv sample_jp (rt_pending s)" "jo_inv sample_jo (rt_outbox s)"
    "pl_queue (rt_pipe s) = hm_insert 5 approved_task (pl_queue waiting_pipe)"
  proof (rule approve_effect[where D = ?D and s = ?s and raw = ?raw and i = 3 and entry = waiting_record and
      exe = sample_executor and env = sample_call and t = ?t and now = 120, unfolded D S E,
      OF P(1) e sample_jo_fresh(2,3) w st exe bytes waiting_pipe_facts(2) g ran q v enc])
  qed (use that r in \<open>simp add: approved_task_def\<close>)
  have "served ?D ?s s" by (rule served_approve[OF served_start s(1)])
  moreover have "task_codec_ok (dc_tasks ?D)" using two_tasks_ok D(4) by simp
  ultimately obtain s' d where s': "with_durable_stores ?D (rt_disks s) (1 :: nat) = (Inr s', d)" "rt_world s' = 1"
    "queue_get (pl_queue (rt_pipe s')) = queue_get (pl_queue (rt_pipe s))"
    using restart_restores_runtime[of ?D ?s s 1 "[]" 3] logging_logged[of P] s(3,4)
    by (auto simp: D split: prod.splits sum.splits)
  then show ?thesis
    using s logging_logged[of P]
    by (intro exI[of _ P] exI[of _ s] exI[of _ s'] exI[of _ d]) (simp add: queue_get_def)
qed

end
