(* ===== verification/Schedule.thy ===== *)
theory Schedule
  imports Pending_Store
begin

section \<open>Scheduled tasks and when they are due\<close>

text \<open>
  Models \<^verbatim>\<open>crates/familyclaw-scheduler/src/task.rs\<close> and \<^verbatim>\<open>decision.rs\<close>. Instants and durations
  count nanoseconds; adding a duration to an instant panics outside the range of the clock
  (\<^verbatim>\<open>chrono\<close>). Cron expressions are read and evaluated by a third-party crate, the record
  \<open>cron_ext\<close>.
\<close>

type_synonym scheduled_task_id = uuid
type_synonym duration = int

record scheduled_task =
  sk_id :: scheduled_task_id
  sk_skill :: skill_id
  sk_payload :: json
  sk_interval :: duration
  sk_cron :: "string option"
  sk_being :: string
  sk_enabled :: bool
  sk_idle :: "duration option"

definition scheduled_with_id ::
  "scheduled_task_id \<Rightarrow> skill_id \<Rightarrow> json \<Rightarrow> duration \<Rightarrow> string \<Rightarrow> scheduled_task" where
  "scheduled_with_id i skill payload interval being =
     \<lparr>sk_id = i, sk_skill = skill, sk_payload = payload, sk_interval = interval, sk_cron = None,
      sk_being = being, sk_enabled = True, sk_idle = None\<rparr>"

definition scheduled_new ::
  "scheduled_task_id \<Rightarrow> skill_id \<Rightarrow> json \<Rightarrow> duration \<Rightarrow> string \<Rightarrow> scheduled_task" where
  "scheduled_new fresh skill payload interval being =
     \<lparr>sk_id = fresh, sk_skill = skill, sk_payload = payload, sk_interval = interval, sk_cron = None,
      sk_being = being, sk_enabled = True, sk_idle = None\<rparr>"

definition with_cron_expression :: "string \<Rightarrow> scheduled_task \<Rightarrow> scheduled_task" where
  "with_cron_expression e t = t\<lparr>sk_cron := Some e\<rparr>"

definition with_enabled :: "bool \<Rightarrow> scheduled_task \<Rightarrow> scheduled_task" where
  "with_enabled b t = t\<lparr>sk_enabled := b\<rparr>"

definition with_expire_after_idle :: "duration \<Rightarrow> scheduled_task \<Rightarrow> scheduled_task" where
  "with_expire_after_idle d t = t\<lparr>sk_idle := Some d\<rparr>"

subsection \<open>The clock\<close>

text \<open>\<^verbatim>\<open>num_seconds\<close> truncates towards zero, \<^verbatim>\<open>timestamp\<close> rounds down.\<close>

definition num_seconds :: "duration \<Rightarrow> int" where
  "num_seconds d = (if d < 0 then - ((- d) div 1000000000) else d div 1000000000)"

definition unix_seconds :: "timestamp \<Rightarrow> int" where
  "unix_seconds t = t div 1000000000"

definition add_duration :: "ext \<Rightarrow> timestamp \<Rightarrow> duration \<Rightarrow> timestamp outcome" where
  "add_duration X t d = (if ts_min X \<le> t + d \<and> t + d \<le> ts_max X then Done (t + d) else Killed)"

text \<open>The largest \<^verbatim>\<open>Duration\<close> has \<^verbatim>\<open>i64::MAX\<close> milliseconds; building a larger one panics.\<close>

definition duration_seconds :: "int \<Rightarrow> duration outcome" where
  "duration_seconds s = (if \<bar>s\<bar> * 1000 < 2 ^ 63 then Done (secs s) else Killed)"

definition bind_outcome :: "'a outcome \<Rightarrow> ('a \<Rightarrow> 'b outcome) \<Rightarrow> 'b outcome" where
  "bind_outcome m f = (case m of Done x \<Rightarrow> f x | Killed \<Rightarrow> Killed)"

lemma bind_outcome_simps [simp]: "bind_outcome (Done x) f = f x" "bind_outcome Killed f = Killed"
  by (simp_all add: bind_outcome_def)

lemma bind_outcome_Done: "bind_outcome m f = Done y \<longleftrightarrow> (\<exists>x. m = Done x \<and> f x = Done y)"
  by (cases m) simp_all

subsection \<open>Decisions\<close>

record due_decision =
  dd_task :: scheduled_task_id
  dd_due :: bool
  dd_key :: "string option"

definition key_prefix :: "ext \<Rightarrow> scheduled_task_id \<Rightarrow> string" where
  "key_prefix X i = ''schedule-'' @ show_uuid X i @ ''-''"

definition firing_key :: "ext \<Rightarrow> scheduled_task_id \<Rightarrow> duration \<Rightarrow> timestamp \<Rightarrow> string" where
  "firing_key X i interval now =
     (let interval_secs = max (num_seconds interval) 1; bucket = unix_seconds now div interval_secs
      in key_prefix X i @ show_int bucket)"

record 'c cron_ext =
  cron_from_str :: "string \<Rightarrow> 'c option"
  cron_previous :: "'c \<Rightarrow> timestamp \<Rightarrow> bool \<Rightarrow> timestamp option"

definition parse_cron :: "'c cron_ext \<Rightarrow> string \<Rightarrow> 'c option" where
  "parse_cron C expression = cron_from_str C expression"

definition cron_occurrence_at :: "'c cron_ext \<Rightarrow> string \<Rightarrow> timestamp \<Rightarrow> timestamp option" where
  "cron_occurrence_at C expression now =
     (case parse_cron C expression of None \<Rightarrow> None | Some cron \<Rightarrow> cron_previous C cron now True)"

definition is_due_cron :: "'c cron_ext \<Rightarrow> string \<Rightarrow> timestamp option \<Rightarrow> timestamp \<Rightarrow> bool" where
  "is_due_cron C expression last_fired now =
     (case cron_occurrence_at C expression now of
        None \<Rightarrow> False
      | Some occurrence \<Rightarrow> (case last_fired of None \<Rightarrow> True | Some l \<Rightarrow> l < occurrence))"

definition cron_firing_key :: "ext \<Rightarrow> 'c cron_ext \<Rightarrow> scheduled_task_id \<Rightarrow> string \<Rightarrow> timestamp \<Rightarrow> string" where
  "cron_firing_key X C i expression now =
     (case cron_occurrence_at C expression now of
        Some occurrence \<Rightarrow> key_prefix X i @ show_int (unix_seconds occurrence)
      | None \<Rightarrow> key_prefix X i @ ''invalid'')"

definition is_due :: "ext \<Rightarrow> duration \<Rightarrow> timestamp option \<Rightarrow> timestamp \<Rightarrow> bool outcome" where
  "is_due X interval last_fired now =
     (if interval \<le> 0 then Done True
      else case last_fired of
             None \<Rightarrow> Done True
           | Some l \<Rightarrow> bind_outcome (add_duration X l interval) (\<lambda>t. Done (t \<le> now)))"

definition idle_expired :: "ext \<Rightarrow> duration option \<Rightarrow> timestamp option \<Rightarrow> timestamp \<Rightarrow> bool outcome" where
  "idle_expired X expire_after_idle last_human_activity now =
     (case expire_after_idle of
        None \<Rightarrow> Done False
      | Some idle \<Rightarrow>
          (if idle \<le> 0 then Done False
           else case last_human_activity of
                  None \<Rightarrow> Done True
                | Some l \<Rightarrow> bind_outcome (add_duration X l idle) (\<lambda>t. Done (t < now))))"

definition decide ::
  "ext \<Rightarrow> 'c cron_ext \<Rightarrow> scheduled_task \<Rightarrow> timestamp option \<Rightarrow> timestamp option \<Rightarrow> timestamp \<Rightarrow>
   due_decision outcome" where
  "decide X C task last_fired last_human_activity now =
     bind_outcome
       (case sk_cron task of
          Some cron \<Rightarrow> Done (is_due_cron C cron last_fired now)
        | None \<Rightarrow> is_due X (sk_interval task) last_fired now) (\<lambda>schedule_due.
     bind_outcome
       (if sk_enabled task
        then bind_outcome (idle_expired X (sk_idle task) last_human_activity now)
               (\<lambda>expired. Done (\<not> expired \<and> schedule_due))
        else Done False) (\<lambda>due.
     Done \<lparr>dd_task = sk_id task, dd_due = due,
           dd_key = (if due then Some (case sk_cron task of
                       Some cron \<Rightarrow> cron_firing_key X C (sk_id task) cron now
                     | None \<Rightarrow> firing_key X (sk_id task) (sk_interval task) now) else None)\<rparr>))"

fun decide_all ::
  "ext \<Rightarrow> 'c cron_ext \<Rightarrow> scheduled_task list \<Rightarrow> (scheduled_task_id \<Rightarrow> timestamp option) \<Rightarrow> timestamp option \<Rightarrow>
   timestamp \<Rightarrow> due_decision list outcome" where
  "decide_all X C [] last_fired human now = Done []"
| "decide_all X C (t # ts) last_fired human now =
     bind_outcome (decide X C t (last_fired (sk_id t)) human now) (\<lambda>d.
     bind_outcome (decide_all X C ts last_fired human now) (\<lambda>ds. Done (d # ds)))"

definition due_tasks ::
  "ext \<Rightarrow> 'c cron_ext \<Rightarrow> scheduled_task list \<Rightarrow> (scheduled_task_id \<Rightarrow> timestamp option) \<Rightarrow> timestamp option \<Rightarrow>
   timestamp \<Rightarrow> due_decision list outcome" where
  "due_tasks X C tasks last_fired human now =
     bind_outcome (decide_all X C tasks last_fired human now) (\<lambda>ds. Done (filter dd_due ds))"

subsection \<open>Keys\<close>

lemma show_nat_inj: "show_nat m = show_nat n \<Longrightarrow> m = n"
  by (metis digits_value_show_nat option.inject)

lemma show_nat_no_minus: "show_nat n \<noteq> CHR ''-'' # s"
  using hd_show_nat[of n "CHR ''-''" s] by (auto simp: is_digit_def)

lemma show_int_inj: "show_int m = show_int n \<longleftrightarrow> m = n"
proof
  assume e: "show_int m = show_int n"
  have "(m < 0) = (n < 0)"
    using e show_nat_no_minus[of "nat n" "show_nat (nat (- m))"] show_nat_no_minus[of "nat m" "show_nat (nat (- n))"]
    by (cases "m < 0"; cases "n < 0") (simp_all add: show_int_def)
  then show "m = n"
    using e show_nat_inj[of "nat (- m)" "nat (- n)"] show_nat_inj[of "nat m" "nat n"]
    by (cases "m < 0") (simp_all add: show_int_def)
qed simp

text \<open>The window of an interval task.\<close>

definition window :: "duration \<Rightarrow> timestamp \<Rightarrow> int" where
  "window interval now = unix_seconds now div max (num_seconds interval) 1"

lemma firing_key_eq: "firing_key X i interval now = firing_key X i interval now' \<longleftrightarrow>
    window interval now = window interval now'"
  by (simp add: firing_key_def window_def Let_def show_int_inj)

lemma unix_seconds_mono: "s \<le> t \<Longrightarrow> unix_seconds s \<le> unix_seconds t"
  by (simp add: unix_seconds_def zdiv_mono1)

lemma window_mono: "s \<le> t \<Longrightarrow> window interval s \<le> window interval t"
  unfolding window_def by (intro zdiv_mono1 unix_seconds_mono) auto

lemma window_next:
  assumes "1000000000 \<le> interval" "t + interval \<le> now"
  shows "window interval t < window interval now"
proof -
  let ?n = "interval div 1000000000"
  have n: "0 < ?n" using assms(1) by simp
  have "unix_seconds t + ?n = (t + ?n * 1000000000) div 1000000000" by (simp add: unix_seconds_def)
  also have "\<dots> \<le> unix_seconds now"
    unfolding unix_seconds_def using assms by (intro zdiv_mono1) (auto simp: minus_mod_eq_div_mult[symmetric])
  finally have "(unix_seconds t + 1 * ?n) div ?n \<le> unix_seconds now div ?n"
    using n by (intro zdiv_mono1) simp_all
  moreover have "(unix_seconds t + 1 * ?n) div ?n = unix_seconds t div ?n + 1"
    using n by (subst div_mult_self1) simp_all
  moreover have "max (num_seconds interval) 1 = ?n" using n assms(1) by (simp add: num_seconds_def)
  ultimately show ?thesis by (simp add: window_def)
qed

end
