(* ===== verification/Atomic_File.thy ===== *)
theory Atomic_File
  imports File_Journal
begin

section \<open>Replacing a file through a temporary one\<close>

text \<open>
  The idiom of \<^verbatim>\<open>AgencyConfig::save\<close> and \<^verbatim>\<open>IdempotencyStore::put\<close>: write the whole text to
  a temporary file beside the target, then rename it over the target. An error leaves the temporary
  file behind. The faults are those of the journal's compaction; there is no handle to reopen.
\<close>

definition after_last :: "char \<Rightarrow> string \<Rightarrow> string" where
  "after_last c s = rev (takeWhile (\<lambda>x. x \<noteq> c) (rev s))"

definition upto_last :: "char \<Rightarrow> string \<Rightarrow> string" where
  "upto_last c s = rev (dropWhile (\<lambda>x. x \<noteq> c) (rev s))"

text \<open>\<^verbatim>\<open>Path::with_extension\<close>: a name that starts with its only dot has no extension.\<close>

definition with_extension :: "path \<Rightarrow> string \<Rightarrow> path" where
  "with_extension p e =
     (let name = after_last (CHR ''/'') p; upto = upto_last (CHR ''.'') name;
          stem = (if length upto \<le> 1 then name else butlast upto)
      in upto_last (CHR ''/'') p @ stem @ CHR ''.'' # e)"

datatype replace_step = AtWrite | AtRename

definition replace_file ::
  "swap_fault \<Rightarrow> path \<Rightarrow> path \<Rightarrow> string \<Rightarrow> fs \<Rightarrow> (replace_step + unit) outcome \<times> fs" where
  "replace_file sf tmp p text d =
     (case sf of
        TmpErr n \<Rightarrow> (Done (Inl AtWrite), d(tmp \<mapsto> take n text))
      | TmpKill n \<Rightarrow> (Killed, d(tmp \<mapsto> take n text))
      | RenameErr \<Rightarrow> (Done (Inl AtRename), d(tmp \<mapsto> text))
      | RenameKill \<Rightarrow> (Killed, d(tmp \<mapsto> text))
      | SwappedKill \<Rightarrow> (Killed, d(tmp := None, p \<mapsto> text))
      | _ \<Rightarrow> (Done (Inr ()), d(tmp := None, p \<mapsto> text)))"

lemma upto_after_last: "upto_last c s @ after_last c s = s"
  by (metis after_last_def rev_append rev_rev_ident takeWhile_dropWhile_id upto_last_def)

text \<open>The target holds the old or the whole new text; success means the new one.\<close>

lemma replace_file_target:
  assumes "tmp \<noteq> p" "replace_file sf tmp p text d = (r, d')"
  shows "d' p \<in> {d p, Some text}" "r = Done (Inr ()) \<Longrightarrow> d' p = Some text"
    "r = Done (Inl e) \<Longrightarrow> d' p = d p"
    "q \<noteq> tmp \<Longrightarrow> q \<noteq> p \<Longrightarrow> d' q = d q"
  using assms by (auto simp: replace_file_def split: swap_fault.splits)

lemma replace_file_ok:
  "replace_file SwapOk tmp p text d = (Done (Inr ()), d(tmp := None, p \<mapsto> text))"
  by (simp add: replace_file_def)

end
