(* ===== verification/Json_Members.thy ===== *)
theory Json_Members
  imports Prelude "HOL-Library.Char_ord" "HOL-Library.List_Lexorder"
begin

section \<open>Members of JSON objects\<close>

text \<open>
  \<^verbatim>\<open>serde_json\<close> keeps the members of an object in the order of their keys, which compare byte by byte.
\<close>

text \<open>\<^verbatim>\<open>serde_json::Map::insert\<close>: members are kept in the order of their keys.\<close>

fun json_insert :: "string \<Rightarrow> json \<Rightarrow> (string \<times> json) list \<Rightarrow> (string \<times> json) list" where
  "json_insert k v [] = [(k, v)]"
| "json_insert k v ((k', v') # kvs) =
     (if k = k' then (k, v) # kvs
      else if k < k' then (k, v) # (k', v') # kvs
      else (k', v') # json_insert k v kvs)"

text \<open>\<^verbatim>\<open>Map::get\<close>, and the object that \<^verbatim>\<open>json!\<close> builds.\<close>

fun json_get :: "string \<Rightarrow> json \<Rightarrow> json option" where
  "json_get k (JObj kvs) = map_of kvs k"
| "json_get k _ = None"

definition json_object :: "(string \<times> json) list \<Rightarrow> json" where
  "json_object kvs = JObj (foldl (\<lambda>m (k, v). json_insert k v m) [] kvs)"

lemma map_of_json_insert: "sorted_wrt (\<lambda>a b. fst a < fst b) kvs \<Longrightarrow> map_of (json_insert k v kvs) = (map_of kvs)(k \<mapsto> v)"
  by (induction k v kvs rule: json_insert.induct) (auto simp: fun_eq_iff)

lemma set_json_insert: "set (json_insert k v kvs) \<subseteq> insert (k, v) (set kvs)"
  by (induction k v kvs rule: json_insert.induct) auto

lemma sorted_json_insert:
  "sorted_wrt (\<lambda>a b. fst a < fst b) kvs \<Longrightarrow> sorted_wrt (\<lambda>a b. fst a < fst b) (json_insert k v kvs)"
proof (induction k v kvs rule: json_insert.induct)
  case (2 k v k' v' kvs)
  then have "\<forall>x \<in> set (json_insert k v kvs). k' < fst x" if "k' < k"
    using set_json_insert[of k v kvs] that by fastforce
  with 2 show ?case by (auto simp: neq_iff)
qed simp

lemma json_object_snoc:
  "json_object (kvs @ [(k, v)]) = (case json_object kvs of JObj m \<Rightarrow> JObj (json_insert k v m) | x \<Rightarrow> x)"
  by (simp add: json_object_def)

lemma json_object_get: "json_get k (json_object kvs) = map_of (rev kvs) k"
proof -
  have "\<exists>m. json_object kvs = JObj m \<and> sorted_wrt (\<lambda>a b. fst a < fst b) m \<and> map_of m = map_of (rev kvs)"
  proof (induction kvs rule: rev_induct)
    case (snoc kv kvs)
    then obtain m where m: "json_object kvs = JObj m" "sorted_wrt (\<lambda>a b. fst a < fst b) m" "map_of m = map_of (rev kvs)"
      by blast
    obtain a b where kv: "kv = (a, b)" by (rule prod.exhaust)
    show ?case
      using m kv by (auto simp: json_object_snoc map_of_json_insert sorted_json_insert)
  qed (simp add: json_object_def)
  then show ?thesis by auto
qed

end
