(* ===== verification/Scheduler.thy ===== *)
theory Scheduler
  imports Schedule Atomic_File Json_Members Facade
begin

section \<open>The scheduler\<close>

text \<open>
  Models \<^verbatim>\<open>crates/familyclaw-scheduler/src/dispatch.rs\<close> and \<^verbatim>\<open>persistence.rs\<close>: the registered
  tasks with their last firings, the collection of due dispatches, the tick that submits them to the
  action runtime, and the agency file with the kill switches and the configured tasks.
\<close>

definition FILE_WRITE_SKILL :: skill_id where
  "FILE_WRITE_SKILL = 0x99999999999949998999999999999999"

definition SHELL_EXEC_SKILL :: skill_id where
  "SHELL_EXEC_SKILL = 0xbbbbbbbbbbbb4bbb8bbbbbbbbbbbbbbb"

definition supports_tool_idempotency :: "skill_id \<Rightarrow> bool" where
  "supports_tool_idempotency i \<longleftrightarrow> i = FILE_WRITE_SKILL \<or> i = SHELL_EXEC_SKILL"

definition tool_idempotency_key :: "ext \<Rightarrow> scheduled_task_id \<Rightarrow> string \<Rightarrow> string" where
  "tool_idempotency_key X i key = ''schedule:'' @ show_uuid X i @ '':'' @ after_last (CHR ''-'') key"

definition inject_idempotency_key :: "json \<Rightarrow> string \<Rightarrow> json" where
  "inject_idempotency_key payload key =
     (let object = (case payload of JObj kvs \<Rightarrow> kvs | other \<Rightarrow> json_insert ''payload'' other [])
      in JObj (json_insert ''idempotency_key'' (JStr key) object))"

record dispatch_summary =
  ds_fired :: "(scheduled_task_id \<times> string \<times> submit_outcome) list"

definition fired_count :: "dispatch_summary \<Rightarrow> nat" where
  "fired_count d = length (ds_fired d)"

record due_dispatch =
  du_task :: scheduled_task_id
  du_key :: string
  du_being :: string
  du_skill :: skill_id
  du_payload :: json

record scheduler =
  sc_tasks :: "scheduled_task list"
  sc_last :: "(scheduled_task_id, timestamp) hashmap"
  sc_human :: "timestamp option"

definition scheduler_new :: scheduler where
  "scheduler_new = \<lparr>sc_tasks = [], sc_last = [], sc_human = None\<rparr>"

text \<open>The first element with the same key is replaced, or the new one is added at the end.\<close>

fun upsert_by :: "('a \<Rightarrow> 'k) \<Rightarrow> 'a \<Rightarrow> 'a list \<Rightarrow> 'a list" where
  "upsert_by key x [] = [x]"
| "upsert_by key x (y # ys) = (if key y = key x then x # ys else y # upsert_by key x ys)"

definition sched_register :: "scheduled_task \<Rightarrow> scheduler \<Rightarrow> scheduler" where
  "sched_register t s = s\<lparr>sc_tasks := upsert_by sk_id t (sc_tasks s)\<rparr>"

definition find_task :: "scheduled_task_id \<Rightarrow> scheduler \<Rightarrow> scheduled_task option" where
  "find_task i s = List.find (\<lambda>t. sk_id t = i) (sc_tasks s)"

definition set_task_enabled :: "scheduled_task_id \<Rightarrow> bool \<Rightarrow> scheduler \<Rightarrow> bool \<times> scheduler" where
  "set_task_enabled i b s =
     (case find_task i s of
        None \<Rightarrow> (False, s)
      | Some t \<Rightarrow> (True, s\<lparr>sc_tasks := upsert_by sk_id (t\<lparr>sk_enabled := b\<rparr>) (sc_tasks s)\<rparr>))"

definition task_enabled :: "scheduled_task_id \<Rightarrow> scheduler \<Rightarrow> bool option" where
  "task_enabled i s = map_option sk_enabled (find_task i s)"

definition task_ids :: "scheduler \<Rightarrow> scheduled_task_id list" where
  "task_ids s = map sk_id (sc_tasks s)"

definition note_human_activity :: "timestamp \<Rightarrow> scheduler \<Rightarrow> scheduler" where
  "note_human_activity at s =
     (case sc_human s of
        Some prev \<Rightarrow> if at \<le> prev then s else s\<lparr>sc_human := Some at\<rparr>
      | None \<Rightarrow> s\<lparr>sc_human := Some at\<rparr>)"

definition sched_len :: "scheduler \<Rightarrow> nat" where
  "sched_len s = length (sc_tasks s)"

definition sched_is_empty :: "scheduler \<Rightarrow> bool" where
  "sched_is_empty s \<longleftrightarrow> sc_tasks s = []"

definition last_fired :: "scheduler \<Rightarrow> scheduled_task_id \<Rightarrow> timestamp option" where
  "last_fired s i = hm_get (sc_last s) i"

definition due_now :: "ext \<Rightarrow> 'c cron_ext \<Rightarrow> scheduler \<Rightarrow> timestamp \<Rightarrow> due_decision list outcome" where
  "due_now X C s now = due_tasks X C (sc_tasks s) (last_fired s) (sc_human s) now"

definition due_payload :: "ext \<Rightarrow> scheduled_task \<Rightarrow> string \<Rightarrow> json" where
  "due_payload X t key =
     (if supports_tool_idempotency (sk_skill t)
      then inject_idempotency_key (sk_payload t) (tool_idempotency_key X (sk_id t) key)
      else sk_payload t)"

definition dispatch_of :: "ext \<Rightarrow> scheduler \<Rightarrow> due_decision \<Rightarrow> due_dispatch option" where
  "dispatch_of X s d =
     (case dd_key d of
        None \<Rightarrow> None
      | Some key \<Rightarrow>
          (case find_task (dd_task d) s of
             None \<Rightarrow> None
           | Some t \<Rightarrow> Some \<lparr>du_task = sk_id t, du_key = key, du_being = sk_being t, du_skill = sk_skill t,
                             du_payload = due_payload X t key\<rparr>))"

definition collect_due :: "ext \<Rightarrow> 'c cron_ext \<Rightarrow> scheduler \<Rightarrow> timestamp \<Rightarrow> due_dispatch list outcome" where
  "collect_due X C s now =
     bind_outcome (due_now X C s now) (\<lambda>ds. Done (List.map_filter (dispatch_of X s) ds))"

definition record_fired :: "scheduled_task_id \<Rightarrow> timestamp \<Rightarrow> scheduler \<Rightarrow> scheduler" where
  "record_fired i now s = s\<lparr>sc_last := hm_insert i now (sc_last s)\<rparr>"

definition decision_for ::
  "ext \<Rightarrow> 'c cron_ext \<Rightarrow> scheduler \<Rightarrow> scheduled_task_id \<Rightarrow> timestamp \<Rightarrow> due_decision option outcome" where
  "decision_for X C s i now =
     (case find_task i s of
        None \<Rightarrow> Done None
      | Some t \<Rightarrow> bind_outcome (decide X C t (last_fired s i) (sc_human s) now) (\<lambda>d. Done (Some d)))"

subsection \<open>A tick\<close>

definition submit_due ::
  "('p, 'o) rt_config \<Rightarrow> call_env \<Rightarrow> due_dispatch \<Rightarrow> timestamp \<Rightarrow> (('p, 'o, 'w) runtime, submit_outcome) act" where
  "submit_due R env d now = submit_task_idempotent R env (du_key d) (du_being d) (du_skill d) (du_payload d) now"

fun tick_loop ::
  "('p, 'o) rt_config \<Rightarrow> (nat \<Rightarrow> call_env) \<Rightarrow> nat \<Rightarrow> due_dispatch list \<Rightarrow> timestamp \<Rightarrow> dispatch_summary \<Rightarrow>
   scheduler \<Rightarrow> ('p, 'o, 'w) runtime \<Rightarrow>
   (action_error + dispatch_summary) outcome \<times> scheduler \<times> ('p, 'o, 'w) runtime" where
  "tick_loop R envs n [] now summary sch s = (Done (Inr summary), sch, s)"
| "tick_loop R envs n (d # ds) now summary sch s =
     (case submit_due R (envs n) d now s of
        (Killed, s') \<Rightarrow> (Killed, sch, s')
      | (Done (Inl e), s') \<Rightarrow> (Done (Inl e), sch, s')
      | (Done (Inr out), s') \<Rightarrow>
          tick_loop R envs (Suc n) ds now
            \<lparr>ds_fired = ds_fired summary @ [(du_task d, du_key d, out)]\<rparr> (record_fired (du_task d) now sch) s')"

definition sched_tick ::
  "('p, 'o) rt_config \<Rightarrow> 'c cron_ext \<Rightarrow> (nat \<Rightarrow> call_env) \<Rightarrow> timestamp \<Rightarrow> scheduler \<Rightarrow> ('p, 'o, 'w) runtime \<Rightarrow>
   (action_error + dispatch_summary) outcome \<times> scheduler \<times> ('p, 'o, 'w) runtime" where
  "sched_tick R C envs now sch s =
     (case collect_due (rc_ext R) C sch now of
        Killed \<Rightarrow> (Killed, sch, s)
      | Done ds \<Rightarrow> tick_loop R envs 0 ds now \<lparr>ds_fired = []\<rparr> sch s)"

text \<open>
  One round of the shared loop (\<^verbatim>\<open>SchedulerRunner::run_shared\<close>): an error is logged and the round
  goes on with the next dispatch.
\<close>

fun shared_round ::
  "('p, 'o) rt_config \<Rightarrow> (nat \<Rightarrow> call_env) \<Rightarrow> nat \<Rightarrow> due_dispatch list \<Rightarrow> timestamp \<Rightarrow>
   scheduler \<Rightarrow> ('p, 'o, 'w) runtime \<Rightarrow> unit outcome \<times> scheduler \<times> ('p, 'o, 'w) runtime" where
  "shared_round R envs n [] now sch s = (Done (), sch, s)"
| "shared_round R envs n (d # ds) now sch s =
     (case submit_due R (envs n) d now s of
        (Killed, s') \<Rightarrow> (Killed, sch, s')
      | (Done (Inl e), s') \<Rightarrow> shared_round R envs (Suc n) ds now sch s'
      | (Done (Inr out), s') \<Rightarrow> shared_round R envs (Suc n) ds now (record_fired (du_task d) now sch) s')"

subsection \<open>The agency file\<close>

record agency_task =
  at_id :: string
  at_skill :: string
  at_payload :: json
  at_cron :: "string option"
  at_interval :: "int option"
  at_being :: string
  at_enabled :: bool

definition default_being_id :: string where
  "default_being_id = ''operator''"

definition default_task_enabled :: bool where
  "default_task_enabled = True"

record agency_config =
  ac_disabled :: "string list"
  ac_tasks :: "agency_task list"

definition agency_default :: agency_config where
  "agency_default = \<lparr>ac_disabled = [], ac_tasks = []\<rparr>"

text \<open>\<open>parse_uuid\<close> is \<^verbatim>\<open>Uuid::parse_str\<close>; an interval out of the range of durations panics.\<close>

definition to_scheduled_task ::
  "(string \<Rightarrow> string + uuid) \<Rightarrow> agency_task \<Rightarrow> (string + scheduled_task) outcome" where
  "to_scheduled_task parse_uuid a =
     (case parse_uuid (at_id a) of
        Inl e \<Rightarrow> Done (Inl (''invalid task id '' @ at_id a @ '': '' @ e))
      | Inr i \<Rightarrow>
          (case parse_uuid (at_skill a) of
             Inl e \<Rightarrow> Done (Inl (''invalid skill id '' @ at_skill a @ '': '' @ e))
           | Inr skill \<Rightarrow>
               bind_outcome (duration_seconds (case at_interval a of None \<Rightarrow> 60 | Some n \<Rightarrow> n)) (\<lambda>interval.
               let t = with_enabled (at_enabled a) (scheduled_with_id i skill (at_payload a) interval (at_being a))
               in case at_cron a of
                    Some cron \<Rightarrow> Done (Inr (with_cron_expression cron t))
                  | None \<Rightarrow>
                      (if at_interval a = None
                       then Done (Inl ''scheduled task needs cron_expression or interval_secs'')
                       else Done (Inr t)))))"

definition is_disabled :: "ext \<Rightarrow> agency_config \<Rightarrow> scheduled_task_id \<Rightarrow> bool" where
  "is_disabled X c i \<longleftrightarrow> show_uuid X i \<in> set (ac_disabled c)"

definition agency_set :: "ext \<Rightarrow> scheduled_task_id \<Rightarrow> bool \<Rightarrow> agency_config \<Rightarrow> agency_config" where
  "agency_set X i enabled c =
     (if enabled then c\<lparr>ac_disabled := filter (\<lambda>d. d \<noteq> show_uuid X i) (ac_disabled c)\<rparr>
      else if show_uuid X i \<in> set (ac_disabled c) then c
      else c\<lparr>ac_disabled := ac_disabled c @ [show_uuid X i]\<rparr>)"

definition upsert_scheduled_task :: "agency_task \<Rightarrow> agency_config \<Rightarrow> agency_config" where
  "upsert_scheduled_task t c = c\<lparr>ac_tasks := upsert_by at_id t (ac_tasks c)\<rparr>"

fun register_entries ::
  "(string \<Rightarrow> string + uuid) \<Rightarrow> agency_task list \<Rightarrow> scheduler \<Rightarrow> unit outcome \<times> scheduler" where
  "register_entries parse_uuid [] s = (Done (), s)"
| "register_entries parse_uuid (a # es) s =
     (case to_scheduled_task parse_uuid a of
        Killed \<Rightarrow> (Killed, s)
      | Done (Inl _) \<Rightarrow> register_entries parse_uuid es s
      | Done (Inr t) \<Rightarrow> register_entries parse_uuid es (sched_register t s))"

definition register_scheduled_tasks ::
  "(string \<Rightarrow> string + uuid) \<Rightarrow> agency_config \<Rightarrow> scheduler \<Rightarrow> unit outcome \<times> scheduler" where
  "register_scheduled_tasks parse_uuid c s = register_entries parse_uuid (ac_tasks c) s"

definition apply_agency_config :: "ext \<Rightarrow> agency_config \<Rightarrow> scheduler \<Rightarrow> scheduler" where
  "apply_agency_config X c s =
     s\<lparr>sc_tasks := map (\<lambda>t. t\<lparr>sk_enabled := \<not> is_disabled X c (sk_id t)\<rparr>) (sc_tasks s)\<rparr>"

text \<open>The file: \<open>ag_print\<close> and \<open>ag_parse\<close> are \<^verbatim>\<open>serde_json\<close>.\<close>

record agency_codec =
  ag_print :: "agency_config \<Rightarrow> string + string"
  ag_parse :: "string \<Rightarrow> string + agency_config"

datatype io_error = InvalidData string | OtherIo string

definition agency_load :: "agency_codec \<Rightarrow> path \<Rightarrow> fs \<Rightarrow> io_error + agency_config" where
  "agency_load A p d =
     (case d p of
        None \<Rightarrow> Inr agency_default
      | Some raw \<Rightarrow>
          (if utf8_valid raw then (case ag_parse A raw of Inl e \<Rightarrow> Inl (InvalidData e) | Inr c \<Rightarrow> Inr c)
           else Inl (InvalidData ''stream did not contain valid UTF-8'')))"

text \<open>\<open>mkdir\<close> is the error of creating the parent directory, if it fails.\<close>

definition agency_save ::
  "agency_codec \<Rightarrow> string option \<Rightarrow> swap_fault \<Rightarrow> path \<Rightarrow> agency_config \<Rightarrow> fs \<Rightarrow> (io_error + unit) outcome \<times> fs" where
  "agency_save A mkdir sf p c d =
     (case mkdir of
        Some e \<Rightarrow> (Done (Inl (OtherIo e)), d)
      | None \<Rightarrow>
          (case ag_print A c of
             Inl e \<Rightarrow> (Done (Inl (InvalidData e)), d)
           | Inr text \<Rightarrow>
               (case replace_file sf (with_extension p ''json.tmp'') p text d of
                  (Done (Inl AtWrite), d') \<Rightarrow> (Done (Inl (OtherIo ''write'')), d')
                | (Done (Inl AtRename), d') \<Rightarrow> (Done (Inl (OtherIo ''rename'')), d')
                | (Done (Inr _), d') \<Rightarrow> (Done (Inr ()), d')
                | (Killed, d') \<Rightarrow> (Killed, d'))))"


subsection \<open>Finding tasks\<close>

lemma find_upsert:
  "List.find (\<lambda>y. key y = k) (upsert_by key x ys) =
     (if key x = k then Some x else List.find (\<lambda>y. key y = k) ys)"
  by (induction ys) auto

lemma upsert_keys: "map key (upsert_by key x ys) = map key ys \<or> map key (upsert_by key x ys) = map key ys @ [key x]"
  by (induction ys) auto

lemma upsert_distinct: "distinct (map key ys) \<Longrightarrow> distinct (map key (upsert_by key x ys))"
proof (induction ys)
  case (Cons y ys)
  have "key ` set (upsert_by key x ys) \<subseteq> insert (key x) (key ` set ys)"
    by (induction ys) auto
  with Cons show ?case by auto
qed simp

lemma find_distinct:
  "distinct (map key ys) \<Longrightarrow> y \<in> set ys \<Longrightarrow> List.find (\<lambda>z. key z = key y) ys = Some y"
  by (induction ys) auto

lemma find_key: "List.find (\<lambda>z. key z = k) ys = Some y \<Longrightarrow> key y = k \<and> y \<in> set ys"
  by (metis (mono_tags, lifting) find_Some_iff nth_mem)

definition sched_ok :: "scheduler \<Rightarrow> bool" where
  "sched_ok s \<longleftrightarrow> distinct (task_ids s)"

lemma find_task_ok: "sched_ok s \<Longrightarrow> t \<in> set (sc_tasks s) \<Longrightarrow> find_task (sk_id t) s = Some t"
  unfolding sched_ok_def task_ids_def find_task_def by (rule find_distinct)

lemma find_task_iff: "sched_ok s \<Longrightarrow> find_task i s = Some t \<longleftrightarrow> t \<in> set (sc_tasks s) \<and> sk_id t = i"
  using find_task_ok[of s t] find_key[of sk_id i "sc_tasks s" t] by (auto simp: find_task_def)

lemma find_task_register: "find_task i (sched_register t s) = (if sk_id t = i then Some t else find_task i s)"
  by (simp add: find_task_def sched_register_def find_upsert)

lemma find_task_set:
  "find_task j (snd (set_task_enabled i b s)) =
     (if j = i then map_option (sk_enabled_update (\<lambda>_. b)) (find_task i s) else find_task j s)"
proof (cases "find_task i s")
  case (Some t)
  then have "sk_id t = i" using find_key[of sk_id i "sc_tasks s" t] by (simp add: find_task_def)
  with Some show ?thesis
    by (auto simp: set_task_enabled_def find_task_def find_upsert)
qed (auto simp: set_task_enabled_def)

lemma find_task_apply:
  "find_task i (apply_agency_config X c s) =
     map_option (sk_enabled_update (\<lambda>_. \<not> is_disabled X c i)) (find_task i s)"
proof -
  have "List.find (\<lambda>t. sk_id t = i) (map (\<lambda>t. t\<lparr>sk_enabled := \<not> is_disabled X c (sk_id t)\<rparr>) ts) =
      map_option (sk_enabled_update (\<lambda>_. \<not> is_disabled X c i)) (List.find (\<lambda>t. sk_id t = i) ts)" for ts
    by (induction ts) auto
  then show ?thesis by (simp add: find_task_def apply_agency_config_def)
qed

lemma find_task_frames [simp]:
  "find_task i (note_human_activity at s) = find_task i s" "find_task i (record_fired j now s) = find_task i s"
  by (auto simp: find_task_def note_human_activity_def record_fired_def split: option.split)

lemma task_enabled_set: "task_enabled i (snd (set_task_enabled i b s)) = map_option (\<lambda>_. b) (find_task i s)"
  by (cases "find_task i s") (simp_all add: task_enabled_def find_task_set)

lemma task_enabled_apply: "task_enabled i (apply_agency_config X c s) = map_option (\<lambda>_. \<not> is_disabled X c i) (find_task i s)"
  by (cases "find_task i s") (simp_all add: task_enabled_def find_task_apply)

subsection \<open>The operations of an operator\<close>

datatype sched_op =
    OpRegister scheduled_task
  | OpEnable scheduled_task_id bool
  | OpApply agency_config
  | OpHuman timestamp
  | OpFired scheduled_task_id timestamp

fun sched_step :: "ext \<Rightarrow> scheduler \<Rightarrow> sched_op \<Rightarrow> scheduler" where
  "sched_step X s (OpRegister t) = sched_register t s"
| "sched_step X s (OpEnable i b) = snd (set_task_enabled i b s)"
| "sched_step X s (OpApply c) = apply_agency_config X c s"
| "sched_step X s (OpHuman at) = note_human_activity at s"
| "sched_step X s (OpFired i now) = record_fired i now s"

definition sched_run :: "ext \<Rightarrow> scheduler \<Rightarrow> sched_op list \<Rightarrow> scheduler" where
  "sched_run X = foldl (sched_step X)"

lemma sched_step_ok: "sched_ok s \<Longrightarrow> sched_ok (sched_step X s op)"
  unfolding sched_ok_def task_ids_def
  by (cases op)
    (auto simp: sched_register_def set_task_enabled_def apply_agency_config_def note_human_activity_def record_fired_def
      comp_def intro!: upsert_distinct split: option.splits)

lemma sched_run_ok: "sched_ok s \<Longrightarrow> sched_ok (sched_run X s ops)"
  unfolding sched_run_def by (induction ops arbitrary: s) (auto intro: sched_step_ok)

text \<open>Operations that leave a disabled task disabled.\<close>

fun leaves_disabled :: "ext \<Rightarrow> scheduled_task_id \<Rightarrow> sched_op \<Rightarrow> bool" where
  "leaves_disabled X i (OpRegister t) \<longleftrightarrow> sk_id t = i \<longrightarrow> \<not> sk_enabled t"
| "leaves_disabled X i (OpEnable j b) \<longleftrightarrow> j = i \<longrightarrow> \<not> b"
| "leaves_disabled X i (OpApply c) \<longleftrightarrow> is_disabled X c i"
| "leaves_disabled X i _ \<longleftrightarrow> True"

definition switched_off :: "scheduled_task_id \<Rightarrow> scheduler \<Rightarrow> bool" where
  "switched_off i s \<longleftrightarrow> sched_ok s \<and> task_enabled i s \<noteq> Some True"

lemma switched_off_step: "switched_off i s \<Longrightarrow> leaves_disabled X i op \<Longrightarrow> switched_off i (sched_step X s op)"
  using sched_step_ok[of s X op]
  by (cases op) (auto simp: switched_off_def task_enabled_def find_task_register find_task_set find_task_apply)

lemma switched_off_run: "switched_off i s \<Longrightarrow> list_all (leaves_disabled X i) ops \<Longrightarrow> switched_off i (sched_run X s ops)"
  unfolding sched_run_def by (induction ops arbitrary: s) (simp_all add: switched_off_step)

subsection \<open>What is collected\<close>

text \<open>The schedule of a task as the documentation states it.\<close>

definition schedule_due :: "ext \<Rightarrow> 'c cron_ext \<Rightarrow> scheduled_task \<Rightarrow> timestamp option \<Rightarrow> timestamp \<Rightarrow> bool" where
  "schedule_due X C t fired now \<longleftrightarrow>
     (case sk_cron t of
        Some cron \<Rightarrow> is_due_cron C cron fired now
      | None \<Rightarrow> sk_interval t \<le> 0 \<or> (case fired of None \<Rightarrow> True | Some l \<Rightarrow> l + sk_interval t \<le> now))"

definition awake :: "scheduled_task \<Rightarrow> timestamp option \<Rightarrow> timestamp \<Rightarrow> bool" where
  "awake t human now \<longleftrightarrow>
     (case sk_idle t of None \<Rightarrow> True | Some idle \<Rightarrow> idle \<le> 0 \<or> (case human of None \<Rightarrow> False | Some l \<Rightarrow> now \<le> l + idle))"

definition fires :: "ext \<Rightarrow> 'c cron_ext \<Rightarrow> scheduler \<Rightarrow> timestamp \<Rightarrow> scheduled_task \<Rightarrow> bool" where
  "fires X C s now t \<longleftrightarrow> sk_enabled t \<and> awake t (sc_human s) now \<and> schedule_due X C t (last_fired s (sk_id t)) now"

definition task_key :: "ext \<Rightarrow> 'c cron_ext \<Rightarrow> scheduled_task \<Rightarrow> timestamp \<Rightarrow> string" where
  "task_key X C t now =
     (case sk_cron t of
        Some cron \<Rightarrow> cron_firing_key X C (sk_id t) cron now
      | None \<Rightarrow> firing_key X (sk_id t) (sk_interval t) now)"

lemma is_due_Done:
  "is_due X interval fired now = Done b \<Longrightarrow>
     b = (interval \<le> 0 \<or> (case fired of None \<Rightarrow> True | Some l \<Rightarrow> l + interval \<le> now))"
  by (auto simp: is_due_def add_duration_def split: if_splits option.splits)

lemma idle_expired_Done:
  "idle_expired X (sk_idle t) human now = Done b \<Longrightarrow> b = (\<not> awake t human now)"
  by (auto simp: idle_expired_def awake_def add_duration_def split: if_splits option.splits)

lemma decide_Done:
  assumes "decide X C t fired human now = Done d"
  shows "d = \<lparr>dd_task = sk_id t,
    dd_due = (sk_enabled t \<and> awake t human now \<and> schedule_due X C t fired now),
    dd_key = (if sk_enabled t \<and> awake t human now \<and> schedule_due X C t fired now then Some (task_key X C t now) else None)\<rparr>"
  using assms unfolding decide_def bind_outcome_Done
  by (auto simp: schedule_due_def task_key_def bind_outcome_Done dest!: is_due_Done idle_expired_Done
      split: if_splits option.splits)

lemma decide_all_Done:
  "decide_all X C ts f human now = Done ds \<Longrightarrow>
     list_all2 (\<lambda>t d. decide X C t (f (sk_id t)) human now = Done d) ts ds"
  by (induction ts arbitrary: ds) (auto simp: bind_outcome_Done)

lemma map_filter_due:
  assumes "list_all2 (\<lambda>t d. decide X C t (last_fired s (sk_id t)) (sc_human s) now = Done d) ts ds"
    and "sched_ok s" "set ts \<subseteq> set (sc_tasks s)"
  shows "List.map_filter (dispatch_of X s) (filter dd_due ds) =
    map (\<lambda>t. \<lparr>du_task = sk_id t, du_key = task_key X C t now, du_being = sk_being t, du_skill = sk_skill t,
             du_payload = due_payload X t (task_key X C t now)\<rparr>) (filter (fires X C s now) ts)"
  using assms(1,3)
proof (induction rule: list_all2_induct)
  case (Cons t ts d ds)
  have d: "dd_due d = fires X C s now t"
    "fires X C s now t \<Longrightarrow> dispatch_of X s d = Some \<lparr>du_task = sk_id t, du_key = task_key X C t now,
       du_being = sk_being t, du_skill = sk_skill t, du_payload = due_payload X t (task_key X C t now)\<rparr>"
    using decide_Done[OF Cons.hyps(1)] Cons.prems find_task_ok[OF assms(2), of t]
    by (auto simp: fires_def dispatch_of_def)
  show ?case using Cons.IH Cons.prems d by (simp add: map_filter_simps)
qed (simp add: map_filter_simps)

lemma collect_due_Done:
  assumes "sched_ok s" "collect_due X C s now = Done ds"
  shows "ds = map (\<lambda>t. \<lparr>du_task = sk_id t, du_key = task_key X C t now, du_being = sk_being t, du_skill = sk_skill t,
     du_payload = due_payload X t (task_key X C t now)\<rparr>) (filter (fires X C s now) (sc_tasks s))"
proof -
  obtain dd where dd: "decide_all X C (sc_tasks s) (last_fired s) (sc_human s) now = Done dd"
      "ds = List.map_filter (dispatch_of X s) (filter dd_due dd)"
    using assms(2) by (auto simp: collect_due_def due_now_def due_tasks_def bind_outcome_Done)
  from map_filter_due[OF decide_all_Done[OF dd(1)] assms(1) order_refl] dd(2) show ?thesis by simp
qed

lemma collected_not_switched_off:
  assumes "switched_off i s" "collect_due X C s now = Done ds"
  shows "i \<notin> du_task ` set ds"
  using collect_due_Done[OF _ assms(2)] assms(1) find_task_ok[of s]
  by (fastforce simp: switched_off_def task_enabled_def fires_def)

subsection \<open>The clock of a scheduler\<close>

text \<open>No deadline of a task lies outside the clock.\<close>

definition in_clock :: "ext \<Rightarrow> scheduler \<Rightarrow> bool" where
  "in_clock X s \<longleftrightarrow> (\<forall>t \<in> set (sc_tasks s).
     (\<forall>l. last_fired s (sk_id t) = Some l \<longrightarrow> sk_cron t = None \<longrightarrow> 0 < sk_interval t \<longrightarrow>
        ts_min X \<le> l \<and> l + sk_interval t \<le> ts_max X) \<and>
     (\<forall>l idle. sc_human s = Some l \<longrightarrow> sk_idle t = Some idle \<longrightarrow> 0 < idle \<longrightarrow>
        ts_min X \<le> l \<and> l + idle \<le> ts_max X))"

lemma decide_total:
  assumes "in_clock X s" "t \<in> set (sc_tasks s)"
  shows "\<exists>d. decide X C t (last_fired s (sk_id t)) (sc_human s) now = Done d"
proof -
  have "is_due X (sk_interval t) (last_fired s (sk_id t)) now \<noteq> Killed" if "sk_cron t = None"
    using assms that by (auto simp: in_clock_def is_due_def add_duration_def split: option.split)
  moreover have "idle_expired X (sk_idle t) (sc_human s) now \<noteq> Killed"
    using assms by (auto simp: in_clock_def idle_expired_def add_duration_def split: option.split)
  ultimately show ?thesis
    unfolding decide_def
    by (cases "sk_cron t"; cases "is_due X (sk_interval t) (last_fired s (sk_id t)) now";
        cases "idle_expired X (sk_idle t) (sc_human s) now") auto
qed

lemma collect_due_total:
  assumes "in_clock X s"
  shows "\<exists>ds. collect_due X C s now = Done ds"
proof -
  have "\<exists>ds. decide_all X C ts (last_fired s) (sc_human s) now = Done ds" if "set ts \<subseteq> set (sc_tasks s)" for ts
    using that by (induction ts) (auto dest!: decide_total[OF assms, of _ C now])
  from this[of "sc_tasks s"] show ?thesis by (auto simp: collect_due_def due_now_def due_tasks_def)
qed

lemma decide_all_killed:
  "t \<in> set ts \<Longrightarrow> decide X C t (f (sk_id t)) human now = Killed \<Longrightarrow> decide_all X C ts f human now = Killed"
proof (induction ts)
  case (Cons u ts)
  then show ?case by (cases "decide X C u (f (sk_id u)) human now") auto
qed simp

subsection \<open>The agency file\<close>

lemma is_disabled_set:
  "is_disabled X (agency_set X i enabled c) i \<longleftrightarrow> \<not> enabled"
  by (simp add: is_disabled_def agency_set_def)

lemma agency_save_load:
  assumes "\<And>c text. ag_print A c = Inr text \<Longrightarrow> utf8_valid text \<and> ag_parse A text = Inr c"
    and "with_extension p ''json.tmp'' \<noteq> p" "agency_save A mkdir sf p c d = (r, d')"
  shows "agency_load A p d' \<in> {agency_load A p d, Inr c}" "r = Done (Inr ()) \<Longrightarrow> agency_load A p d' = Inr c"
proof -
  have "(r \<noteq> Done (Inr ()) \<and> d' = d) \<or> (\<exists>text r0. ag_print A c = Inr text \<and>
      replace_file sf (with_extension p ''json.tmp'') p text d = (r0, d') \<and> (r = Done (Inr ()) \<longrightarrow> r0 = Done (Inr ())))"
    using assms(3) unfolding agency_save_def
    by (auto split: option.splits sum.splits prod.splits outcome.splits replace_step.splits)
  then consider "r \<noteq> Done (Inr ())" "d' = d" | b r0 where "ag_print A c = Inr b"
      "replace_file sf (with_extension p ''json.tmp'') p b d = (r0, d')" "r = Done (Inr ()) \<Longrightarrow> r0 = Done (Inr ())"
    by blast
  then have "agency_load A p d' \<in> {agency_load A p d, Inr c} \<and> (r = Done (Inr ()) \<longrightarrow> agency_load A p d' = Inr c)"
  proof cases
    case 2
    from assms(1)[OF 2(1)] replace_file_target(1,2)[OF assms(2) 2(2)] 2(3) show ?thesis
      by (auto simp: agency_load_def)
  qed auto
  then show "agency_load A p d' \<in> {agency_load A p d, Inr c}" "r = Done (Inr ()) \<Longrightarrow> agency_load A p d' = Inr c"
    by auto
qed

lemma register_entries_ok: "sched_ok s \<Longrightarrow> register_entries pu es s = (r, s') \<Longrightarrow> sched_ok s'"
proof (induction es arbitrary: s)
  case (Cons a es)
  have "sched_ok (sched_register t s)" for t using sched_step_ok[OF Cons.prems(1), of _ "OpRegister t"] by simp
  with Cons show ?case by (auto split: outcome.splits sum.splits)
qed simp

lemma apply_switches_off: "sched_ok s \<Longrightarrow> is_disabled X c i \<Longrightarrow> switched_off i (apply_agency_config X c s)"
  using sched_step_ok[of s X "OpApply c"] by (cases "find_task i s") (simp_all add: switched_off_def task_enabled_apply)

subsection \<open>Properties\<close>

definition sample_schedule :: scheduled_task where
  "sample_schedule = scheduled_with_id 5 7 (JStr ''p'') (secs 60) ''b''"

definition no_cron :: "unit cron_ext" where
  "no_cron = \<lparr>cron_from_str = (\<lambda>_. None), cron_previous = (\<lambda>_ _ _. None)\<rparr>"

definition sample_scheduler :: scheduler where
  "sample_scheduler = \<lparr>sc_tasks = [sample_schedule], sc_last = [], sc_human = None\<rparr>"

lemma sample_scheduler_ok: "sched_ok sample_scheduler" "in_clock X sample_scheduler"
  by (simp_all add: sched_ok_def task_ids_def sample_scheduler_def in_clock_def last_fired_def)

text \<open>As long as no deadline of a task lies outside the clock, a collection returns, and it is
  exactly what the documentation says: one dispatch, in the order of registration, for every enabled
  task whose schedule is due and whose idle limit has not passed, with the task's key, being, skill
  and payload.\<close>

theorem collect_due_exact:
  assumes "sched_ok s" "in_clock X s"
  shows "collect_due X C s now = Done
    (map (\<lambda>t. \<lparr>du_task = sk_id t, du_key = task_key X C t now, du_being = sk_being t, du_skill = sk_skill t,
              du_payload = due_payload X t (task_key X C t now)\<rparr>) (filter (fires X C s now) (sc_tasks s)))"
proof -
  obtain ds where "collect_due X C s now = Done ds" using collect_due_total[OF assms(2)] by blast
  with collect_due_Done[OF assms(1) this] show ?thesis by simp
qed

theorem collect_due_exact_witness:
  "collect_due sample_ext no_cron sample_scheduler (secs 90) = Done
     [\<lparr>du_task = 5, du_key = ''schedule-'' @ show_uuid sample_ext 5 @ ''-'' @ show_int 1, du_being = ''b'', du_skill = 7,
       du_payload = JStr ''p''\<rparr>]"
proof -
  have "fires sample_ext no_cron sample_scheduler (secs 90) sample_schedule"
    by (simp add: fires_def awake_def schedule_due_def sample_schedule_def scheduled_with_id_def last_fired_def
        sample_scheduler_def secs_def)
  moreover have "task_key sample_ext no_cron sample_schedule (secs 90) =
      ''schedule-'' @ show_uuid sample_ext 5 @ ''-'' @ show_int 1"
    by (simp add: task_key_def sample_schedule_def scheduled_with_id_def firing_key_def key_prefix_def num_seconds_def
        unix_seconds_def secs_def)
  ultimately show ?thesis
    using collect_due_exact[OF sample_scheduler_ok, of sample_ext no_cron "secs 90"]
    by (simp add: sample_scheduler_def) (simp add: sample_schedule_def scheduled_with_id_def due_payload_def
        supports_tool_idempotency_def FILE_WRITE_SKILL_def SHELL_EXEC_SKILL_def)
qed

text \<open>A task never fires twice under one key while the scheduler remembers its last firing: when an
  interval task (of a second or more) or a cron task (occurrences are whole seconds, not in the
  future) fires again, its key differs from the key of the remembered firing.\<close>

theorem firings_have_fresh_keys:
  assumes "last_fired s (sk_id t) = Some l" "fires X C s now t"
    and "sk_cron t = None \<Longrightarrow> 1000000000 \<le> sk_interval t"
    and "\<And>c u v. cron_previous C c u True = Some v \<Longrightarrow> v \<le> u \<and> v mod 1000000000 = 0"
  shows "task_key X C t l \<noteq> task_key X C t now"
proof (cases "sk_cron t")
  case None
  then have "l + sk_interval t \<le> now" using assms(1-3) by (auto simp: fires_def schedule_due_def)
  from window_next[OF assms(3)[OF None] this] None show ?thesis by (simp add: task_key_def firing_key_eq)
next
  case (Some cron)
  then obtain v where v: "cron_occurrence_at C cron now = Some v" "l < v"
    using assms(1,2) by (auto simp: fires_def schedule_due_def is_due_cron_def split: option.splits)
  have occ: "u' \<le> u \<and> u' mod 1000000000 = 0" if "cron_occurrence_at C cron u = Some u'" for u u'
    using that assms(4) by (auto simp: cron_occurrence_at_def split: option.splits)
  show ?thesis
  proof (cases "cron_occurrence_at C cron l")
    case None
    have "show_int n \<noteq> ''invalid''" for n
      using hd_show_nat[of "nat n" "CHR ''i''"] by (auto simp: show_int_def is_digit_def)
    from this this[symmetric] show ?thesis
      using \<open>sk_cron t = Some cron\<close> None v(1) by (simp add: task_key_def cron_firing_key_def)
  next
    case (Some w)
    have "w < v" using occ[OF Some] v(2) by linarith
    then have "unix_seconds w \<noteq> unix_seconds v"
      using occ[OF Some] occ[OF v(1)] by (metis less_irrefl minus_mod_eq_div_mult unix_seconds_def diff_zero)
    then show ?thesis using \<open>sk_cron t = Some cron\<close> Some v(1)
      by (simp add: task_key_def cron_firing_key_def show_int_inj)
  qed
qed

theorem firings_have_fresh_keys_witness:
  "task_key sample_ext no_cron sample_schedule (secs 59) \<noteq> task_key sample_ext no_cron sample_schedule (secs 119)"
proof -
  let ?s = "record_fired 5 (secs 59) sample_scheduler"
  have "last_fired ?s (sk_id sample_schedule) = Some (secs 59)"
    by (simp add: last_fired_def record_fired_def sample_schedule_def scheduled_with_id_def)
  moreover have "fires sample_ext no_cron ?s (secs 119) sample_schedule"
    by (simp add: fires_def awake_def schedule_due_def sample_schedule_def scheduled_with_id_def last_fired_def
        record_fired_def sample_scheduler_def secs_def)
  moreover have "1000000000 \<le> sk_interval sample_schedule"
    by (simp add: sample_schedule_def scheduled_with_id_def secs_def)
  ultimately show ?thesis by (rule firings_have_fresh_keys) (simp add: no_cron_def)
qed

text \<open>C18: the kill switch holds: after a task is switched off, no collection dispatches it, whatever is
  registered, fired, noted or applied in between, until an operation switches this task on again.\<close>

theorem kill_switch_holds:
  assumes "sched_ok s" "list_all (leaves_disabled X i) ops"
    and "collect_due X C (sched_run X (snd (set_task_enabled i False s)) ops) now = Done ds"
  shows "i \<notin> du_task ` set ds"
proof -
  have "switched_off i (snd (set_task_enabled i False s))"
    using sched_step_ok[OF assms(1), of X "OpEnable i False"]
    by (cases "find_task i s") (simp_all add: switched_off_def task_enabled_set)
  from collected_not_switched_off[OF switched_off_run[OF this assms(2)] assms(3)] show ?thesis .
qed

theorem kill_switch_holds_witness:
  "\<exists>ds. collect_due sample_ext no_cron (sched_run sample_ext (snd (set_task_enabled 5 False sample_scheduler))
       [OpHuman 3, OpRegister (sample_schedule\<lparr>sk_enabled := False\<rparr>)]) (secs 90) = Done ds \<and> 5 \<notin> du_task ` set ds"
proof -
  let ?ops = "[OpHuman 3, OpRegister (sample_schedule\<lparr>sk_enabled := False\<rparr>)]"
  let ?s = "sched_run sample_ext (snd (set_task_enabled 5 False sample_scheduler)) ?ops"
  have "in_clock sample_ext ?s"
    by (simp add: sched_run_def set_task_enabled_def find_task_def sample_scheduler_def sample_schedule_def
        scheduled_with_id_def note_human_activity_def sched_register_def in_clock_def last_fired_def)
  then obtain ds where "collect_due sample_ext no_cron ?s (secs 90) = Done ds" using collect_due_total by blast
  moreover have "list_all (leaves_disabled sample_ext 5) ?ops" by simp
  ultimately show ?thesis using kill_switch_holds[OF sample_scheduler_ok(1)] by blast
qed

text \<open>The kill switch survives a restart: saving a configuration that switches a task off leaves, wherever
  the save fails or the process dies, a file that loads as the old or as the new configuration, and as
  the new one when the save reported success; a boot from the new one, whatever tasks its entries
  register, collects no dispatch of the task.\<close>

theorem kill_switch_survives_restart:
  assumes "\<And>c text. ag_print A c = Inr text \<Longrightarrow> utf8_valid text \<and> ag_parse A text = Inr c"
    and "with_extension p ''json.tmp'' \<noteq> p" "agency_load A p d = Inr c"
    and "agency_save A mkdir sf p (agency_set X i False c) d = (r, d')"
  shows "agency_load A p d' \<in> {Inr c, Inr (agency_set X i False c)} \<and>
    (r = Done (Inr ()) \<longrightarrow> agency_load A p d' = Inr (agency_set X i False c)) \<and>
    (\<forall>s s1 ds. sched_ok s \<longrightarrow> register_scheduled_tasks pu (agency_set X i False c) s = (Done (), s1) \<longrightarrow>
       collect_due X C (apply_agency_config X (agency_set X i False c) s1) now = Done ds \<longrightarrow> i \<notin> du_task ` set ds)"
proof (intro conjI allI impI)
  show "agency_load A p d' \<in> {Inr c, Inr (agency_set X i False c)}"
    using agency_save_load(1)[OF assms(1,2,4)] assms(3) by simp
  show "agency_load A p d' = Inr (agency_set X i False c)" if "r = Done (Inr ())"
    by (rule agency_save_load(2)[OF assms(1,2,4) that])
  fix s s1 ds
  assume s: "sched_ok s" "register_scheduled_tasks pu (agency_set X i False c) s = (Done (), s1)"
    "collect_due X C (apply_agency_config X (agency_set X i False c) s1) now = Done ds"
  have "sched_ok s1" by (rule register_entries_ok[OF s(1) s(2)[unfolded register_scheduled_tasks_def]])
  then have "switched_off i (apply_agency_config X (agency_set X i False c) s1)"
    by (rule apply_switches_off) (simp add: is_disabled_set)
  from collected_not_switched_off[OF this s(3)] show "i \<notin> du_task ` set ds" .
qed

theorem kill_switch_survives_restart_witness:
  "\<exists>A d'. agency_save A None (TmpKill 3) ''a.json'' (agency_set sample_ext 5 False agency_default) (\<lambda>_. None) = (Killed, d') \<and>
     agency_load A ''a.json'' d' \<in> {Inr agency_default, Inr (agency_set sample_ext 5 False agency_default)}"
proof -
  let ?new = "agency_set sample_ext 5 False agency_default"
  let ?A = "\<lparr>ag_print = (\<lambda>c. if c = ?new then Inr ''{off}'' else Inl ''no''), ag_parse = (\<lambda>_. Inr ?new)\<rparr>"
  have codec: "ag_print ?A c = Inr b \<Longrightarrow> utf8_valid b \<and> ag_parse ?A b = Inr c" for c b
    by (auto simp: utf8_ascii split: if_splits)
  have ext: "with_extension ''a.json'' ''json.tmp'' \<noteq> ''a.json''"
    by (simp add: with_extension_def after_last_def upto_last_def Let_def)
  have old: "agency_load ?A ''a.json'' (\<lambda>_. None) = Inr agency_default" by (simp add: agency_load_def)
  obtain r d' where save: "agency_save ?A None (TmpKill 3) ''a.json'' ?new (\<lambda>_. None) = (r, d')" by (rule prod.exhaust)
  then have "r = Killed" by (auto simp: agency_save_def replace_file_def)
  with kill_switch_survives_restart[OF codec ext old save] save show ?thesis by blast
qed

text \<open>An entry of the agency file that is configured as not enabled is switched on by the boot: the
  registration takes it over as disabled, and applying the file then enables it, because only the list
  of disabled tasks is looked at.\<close>

theorem disabled_entry_is_enabled:
  assumes "ac_tasks c = [a]" "\<not> at_enabled a" "at_interval a = Some n" "\<bar>n\<bar> * 1000 < 2 ^ 63"
    and "pu (at_id a) = Inr i" "pu (at_skill a) = Inr k" "\<not> is_disabled X c i"
  shows "\<exists>s1. register_scheduled_tasks pu c s = (Done (), s1) \<and> task_enabled i s1 = Some False \<and>
    task_enabled i (apply_agency_config X c s1) = Some True"
proof -
  let ?t = "with_enabled (at_enabled a) (scheduled_with_id i k (at_payload a) (secs n) (at_being a))"
  let ?t' = "case at_cron a of None \<Rightarrow> ?t | Some cron \<Rightarrow> with_cron_expression cron ?t"
  obtain t where t: "to_scheduled_task pu a = Done (Inr t)" "sk_id t = i" "\<not> sk_enabled t"
  proof
    show "to_scheduled_task pu a = Done (Inr ?t')"
      using assms(3-6) by (simp add: to_scheduled_task_def duration_seconds_def Let_def split: option.split)
    show "sk_id ?t' = i" "\<not> sk_enabled ?t'" using assms(2)
      by (simp_all add: with_enabled_def scheduled_with_id_def with_cron_expression_def split: option.split)
  qed
  have "register_scheduled_tasks pu c s = (Done (), sched_register t s)"
    using assms(1) t(1) by (simp add: register_scheduled_tasks_def)
  then show ?thesis using t(2,3) assms(7)
    by (simp add: task_enabled_def find_task_apply find_task_register)
qed

theorem disabled_entry_is_enabled_witness:
  "\<exists>c s1. ac_disabled c = [] \<and>
     register_scheduled_tasks (\<lambda>s. Inr (of_nat (length s))) c scheduler_new = (Done (), s1) \<and>
     task_enabled 5 (apply_agency_config sample_ext c s1) = Some True"
proof -
  let ?a = "\<lparr>at_id = ''abcde'', at_skill = ''k'', at_payload = JNull, at_cron = None, at_interval = Some 60,
    at_being = ''b'', at_enabled = False\<rparr>"
  let ?c = "\<lparr>ac_disabled = [], ac_tasks = [?a]\<rparr>"
  from disabled_entry_is_enabled[of ?c ?a 60 "\<lambda>s. Inr (of_nat (length s))" 5 1 sample_ext scheduler_new]
  show ?thesis by (intro exI[of _ ?c]) (auto simp: is_disabled_def)
qed

text \<open>One entry of the agency file can stop everything: an interval of more seconds than a duration
  holds kills the boot that reads it, instead of being skipped; and an interval task that has fired
  and whose next deadline lies beyond the clock makes every later collection panic, also when the
  task is switched off.\<close>

theorem huge_interval_panics:
  assumes "pu (at_id a) = Inr i" "pu (at_skill a) = Inr k" "at_interval a = Some n" "2 ^ 63 \<le> \<bar>n\<bar> * 1000"
    and "t \<in> set (sc_tasks s)" "sk_cron t = None" "0 < sk_interval t" "last_fired s (sk_id t) = Some l"
    and "ts_max X < l + sk_interval t"
  shows "fst (register_entries pu (a # es) s) = Killed \<and> collect_due X C s now = Killed"
proof
  show "fst (register_entries pu (a # es) s) = Killed"
    using assms(1-4) by (simp add: to_scheduled_task_def duration_seconds_def)
  have "decide X C t (last_fired s (sk_id t)) (sc_human s) now = Killed"
    using assms(6-9) by (simp add: decide_def is_due_def add_duration_def)
  from decide_all_killed[where f = "last_fired s", OF assms(5) this] show "collect_due X C s now = Killed"
    by (simp add: collect_due_def due_now_def due_tasks_def)
qed

theorem huge_interval_panics_witness:
  "collect_due sample_ext no_cron (record_fired 5 (ts_max sample_ext) (snd (set_task_enabled 5 False sample_scheduler))) 0 = Killed"
proof -
  let ?s = "record_fired 5 (ts_max sample_ext) (snd (set_task_enabled 5 False sample_scheduler))"
  let ?t = "sample_schedule\<lparr>sk_enabled := False\<rparr>"
  let ?a = "\<lparr>at_id = ''abcde'', at_skill = ''k'', at_payload = JNull, at_cron = None, at_interval = Some (2 ^ 63),
    at_being = ''b'', at_enabled = False\<rparr>"
  have t: "?t \<in> set (sc_tasks ?s)" "sk_cron ?t = None" "0 < sk_interval ?t" "sk_id ?t = 5"
    by (simp_all add: record_fired_def set_task_enabled_def find_task_def sample_scheduler_def sample_schedule_def
        scheduled_with_id_def secs_def)
  have l: "last_fired ?s (sk_id ?t) = Some (ts_max sample_ext)"
    unfolding t(4) by (simp add: last_fired_def record_fired_def)
  have m: "ts_max sample_ext < ts_max sample_ext + sk_interval ?t" using t(3) by simp
  show ?thesis
    using huge_interval_panics[where pu = "\<lambda>_. Inr 1" and a = ?a and i = 1 and k = 1 and n = "2 ^ 63" and es = "[]",
        OF refl refl _ _ t(1-3) l m, of no_cron 0] by simp
qed

end
