(* ===== verification/Scheduler_Runs.thy ===== *)
theory Scheduler_Runs
  imports Runtime_Machine Scheduler
begin

section \<open>The scheduler over the durable runtime\<close>

text \<open>
  Models the loops of \<^verbatim>\<open>crates/familyclaw-scheduler/src/runner.rs\<close> over the runtime that keeps its
  stores on disk, as a step relation: a collection under the lock, one dispatch at a time without it,
  any operation of the operator in between, any other call of the runtime, deaths of the process
  within and between calls, and restarts with a scheduler that remembers no firing. A panic in a
  collection ends the loop: the relation has no further collection then. Timers and the cancellation
  channel are not modelled; every moment of cancellation is a moment between two steps. A step that
  changed the world is labelled by what did it: \<open>Fired\<close>, the scheduled task as it was when it was
  collected and the time of that collection, or \<open>Ran\<close>, the key of another call. For these labels the
  state remembers the scheduler of the last collection (\<open>rn_collected\<close>), which no step reads otherwise.
\<close>

record 'w runner =
  rn_shared :: bool             \<comment> \<open>\<^verbatim>\<open>run_shared\<close>, or \<^verbatim>\<open>run\<close>, which gives up a tick at the first error\<close>
  rn_sched :: scheduler
  rn_queue :: "due_dispatch list"
  rn_now :: timestamp
  rn_collected :: scheduler
  rn_machine :: "'w machine"

definition runner_new :: "bool \<Rightarrow> scheduler \<Rightarrow> (jp_state, jo_state, 'w) runtime \<Rightarrow> 'w runner" where
  "runner_new shared sch s = \<lparr>rn_shared = shared, rn_sched = sch, rn_queue = [], rn_now = 0, rn_collected = sch, rn_machine = Up s\<rparr>"

definition after_dispatch :: "due_dispatch \<Rightarrow> due_dispatch list \<Rightarrow> (action_error + submit_outcome) outcome \<Rightarrow> 'w runner \<Rightarrow> 'w runner" where
  "after_dispatch d ds x r =
     (case x of
        Done (Inr _) \<Rightarrow> r\<lparr>rn_sched := record_fired (du_task d) (rn_now r) (rn_sched r), rn_queue := ds\<rparr>
      | Done (Inl _) \<Rightarrow> r\<lparr>rn_queue := (if rn_shared r then ds else [])\<rparr>
      | Killed \<Rightarrow> r\<lparr>rn_queue := []\<rparr>)"

text \<open>The key of a command that changed the world.\<close>

definition ran_keys :: "durable_config \<Rightarrow> 'w machine \<Rightarrow> 'w command \<Rightarrow> string list" where
  "ran_keys D m c =
     (case dispatch_key D c of
        None \<Rightarrow> []
      | Some k \<Rightarrow> if machine_world (machine_step D m c) \<noteq> machine_world m then [k] else [])"

definition due_command :: "call_env \<Rightarrow> due_dispatch \<Rightarrow> timestamp \<Rightarrow> 'w command" where
  "due_command env d now = CSubmitKeyed env (du_key d) (du_being d) (du_skill d) (du_payload d) now"

datatype run_event = Fired scheduled_task timestamp | Ran string

definition event_of :: "'w runner \<Rightarrow> due_dispatch \<Rightarrow> string \<Rightarrow> run_event" where
  "event_of r d k = (case find_task (du_task d) (rn_collected r) of Some t \<Rightarrow> Fired t (rn_now r) | None \<Rightarrow> Ran k)"

inductive runner_step :: "durable_config \<Rightarrow> 'c cron_ext \<Rightarrow> 'w runner \<Rightarrow> run_event list \<Rightarrow> 'w runner \<Rightarrow> bool"
  for D C where
  collect: "rn_queue r = [] \<Longrightarrow> rn_machine r = Up s \<Longrightarrow> collect_due (dc_ext D) C (rn_sched r) now = Done ds \<Longrightarrow>
     runner_step D C r [] (r\<lparr>rn_queue := ds, rn_now := now, rn_collected := rn_sched r\<rparr>)"
| dispatch: "rn_queue r = d # ds \<Longrightarrow> rn_machine r = Up s \<Longrightarrow>
     submit_due (durable_rt D) env d (rn_now r) s = (x, s') \<Longrightarrow>
     runner_step D C r (map (event_of r d) (ran_keys D (Up s) (due_command env d (rn_now r))))
       (after_dispatch d ds x (r\<lparr>rn_machine := settle (x, s')\<rparr>))"
| operator: "runner_step D C r [] (r\<lparr>rn_sched := sched_step (dc_ext D) (rn_sched r) op\<rparr>)"
| call: "runner_step D C r (map Ran (ran_keys D (rn_machine r) c)) (r\<lparr>rn_machine := machine_step D (rn_machine r) c\<rparr>)"
| restart: "rn_machine r = Down dk w \<Longrightarrow> sched_ok sch \<Longrightarrow> runner_step D C r [] (r\<lparr>rn_sched := sch, rn_queue := []\<rparr>)"

inductive runner_run :: "durable_config \<Rightarrow> 'c cron_ext \<Rightarrow> 'w runner \<Rightarrow> run_event list \<Rightarrow> 'w runner \<Rightarrow> bool"
  for D C where
  stop: "runner_run D C r [] r"
| go: "runner_step D C r ls r1 \<Longrightarrow> runner_run D C r1 es r2 \<Longrightarrow> runner_run D C r (ls @ es) r2"

inductive_cases runner_runE: "runner_run D C r es r'"

subsection \<open>Windows\<close>

text \<open>
  The key of an event, and when two moments lie in one window of a task: one interval, counted from the
  epoch, or one occurrence of its cron expression.
\<close>

fun event_key :: "ext \<Rightarrow> 'c cron_ext \<Rightarrow> run_event \<Rightarrow> string" where
  "event_key X C (Fired t now) = task_key X C t now"
| "event_key X C (Ran k) = k"

definition same_window :: "'c cron_ext \<Rightarrow> scheduled_task \<Rightarrow> timestamp \<Rightarrow> scheduled_task \<Rightarrow> timestamp \<Rightarrow> bool" where
  "same_window C t now t' now' \<longleftrightarrow>
     (case (sk_cron t, sk_cron t') of
        (None, None) \<Rightarrow> sk_interval t' = sk_interval t \<and> window (sk_interval t) now' = window (sk_interval t) now
      | (Some e, Some e') \<Rightarrow> e' = e \<and>
          map_option unix_seconds (cron_occurrence_at C e now') = map_option unix_seconds (cron_occurrence_at C e now)
      | _ \<Rightarrow> False)"

lemma same_window_key:
  assumes "same_window C t now t' now'" "sk_id t' = sk_id t"
  shows "task_key X C t' now' = task_key X C t now"
proof (cases "sk_cron t")
  case None
  then show ?thesis using assms by (auto simp: same_window_def task_key_def firing_key_eq split: option.splits)
next
  case (Some e)
  then have e: "sk_cron t' = Some e"
    "map_option unix_seconds (cron_occurrence_at C e now') = map_option unix_seconds (cron_occurrence_at C e now)"
    using assms(1) by (auto simp: same_window_def split: option.splits)
  then have "cron_firing_key X C (sk_id t) e now' = cron_firing_key X C (sk_id t) e now"
    by (cases "cron_occurrence_at C e now'"; cases "cron_occurrence_at C e now") (simp_all add: cron_firing_key_def)
  then show ?thesis using Some e(1) assms(2) by (simp add: task_key_def)
qed

text \<open>What is queued carries the key of its task at the moment of the collection.\<close>

definition dispatches_ok :: "durable_config \<Rightarrow> 'c cron_ext \<Rightarrow> 'w runner \<Rightarrow> bool" where
  "dispatches_ok D C r \<longleftrightarrow> sched_ok (rn_sched r) \<and> (\<forall>d \<in> set (rn_queue r). \<exists>t.
     find_task (du_task d) (rn_collected r) = Some t \<and> du_key d = task_key (dc_ext D) C t (rn_now r))"

lemma dispatches_ok_step:
  assumes "dispatches_ok D C r" "runner_step D C r ls r'"
  shows "dispatches_ok D C r'"
  using assms(2)
proof cases
  case (collect s now ds)
  have "sched_ok (rn_sched r)" using assms(1) by (simp add: dispatches_ok_def)
  then show ?thesis
    using collect_due_Done[OF _ collect(5)] find_task_ok[of "rn_sched r"] collect(2) by (auto simp: dispatches_ok_def)
next
  case (dispatch d ds s env x s')
  have "sched_ok (record_fired i now (rn_sched r))" for i now
    using assms(1) sched_step_ok[of "rn_sched r" "dc_ext D" "OpFired i now"] by (simp add: dispatches_ok_def)
  then show ?thesis
    using assms(1) dispatch(2,3) by (auto simp: dispatches_ok_def after_dispatch_def split: outcome.splits sum.splits)
next
  case (operator op)
  then show ?thesis using assms(1) sched_step_ok[of "rn_sched r" "dc_ext D" op] by (simp add: dispatches_ok_def)
qed (use assms(1) in \<open>simp_all add: dispatches_ok_def\<close>)

subsection \<open>Steps are steps of the machine\<close>

lemma after_dispatch_machine [simp]: "rn_machine (after_dispatch d ds x r) = rn_machine r"
  by (simp add: after_dispatch_def split: outcome.split sum.split)

lemma due_command_ran: "k \<in> set (ran_keys D m (due_command env d now)) \<Longrightarrow> k = du_key d"
  by (simp add: ran_keys_def due_command_def split: if_splits)

lemma runner_step_machine:
  assumes "dispatches_ok D C r" "runner_step D C r ls r'"
  shows "(ls = [] \<and> rn_machine r' = rn_machine r) \<or>
    (\<exists>c. rn_machine r' = machine_step D (rn_machine r) c \<and> map (event_key (dc_ext D) C) ls = ran_keys D (rn_machine r) c)"
  using assms(2)
proof cases
  case (dispatch d ds s env x s')
  obtain t where t: "find_task (du_task d) (rn_collected r) = Some t" "du_key d = task_key (dc_ext D) C t (rn_now r)"
    using assms(1) dispatch(3) by (auto simp: dispatches_ok_def)
  have "map (event_key (dc_ext D) C) ls = ran_keys D (Up s) (due_command env d (rn_now r))"
    unfolding dispatch(1) using t due_command_ran[of _ D "Up s" env d "rn_now r"]
    by (auto simp: event_of_def map_idI)
  moreover have "rn_machine r' = machine_step D (rn_machine r) (due_command env d (rn_now r))"
    using dispatch by (simp add: due_command_def submit_due_def)
  ultimately show ?thesis using dispatch(4) by auto
next
  case (call c)
  then show ?thesis by (auto simp: comp_def)
qed auto

text \<open>What a run may count on: the outbox file is well formed and has the intent of every key that ran.\<close>

definition keys_kept :: "durable_config \<Rightarrow> string set \<Rightarrow> 'w runner \<Rightarrow> bool" where
  "keys_kept D K r \<longleftrightarrow> jo_wf (dc_outbox D) (machine_outbox (rn_machine r)) \<and>
     (\<forall>k \<in> K. jo_intended (dc_outbox D) k (machine_outbox (rn_machine r)))"

lemma keys_kept_step:
  assumes "keys_kept D K r" "dispatches_ok D C r" "runner_step D C r es r'"
  defines "ls \<equiv> map (event_key (dc_ext D) C) es"
  shows "set ls \<inter> K = {} \<and> length ls \<le> 1 \<and> keys_kept D (K \<union> set ls) r'"
  using runner_step_machine[OF assms(2,3)]
proof (elim disjE exE conjE)
  assume "es = []" "rn_machine r' = rn_machine r"
  then show ?thesis using assms(1) by (simp add: keys_kept_def ls_def)
next
  fix c assume "rn_machine r' = machine_step D (rn_machine r) c" "map (event_key (dc_ext D) C) es = ran_keys D (rn_machine r) c"
  then have c: "rn_machine r' = machine_step D (rn_machine r) c" "ls = ran_keys D (rn_machine r) c" by (simp_all add: ls_def)
  let ?m = "rn_machine r"
  have K: "jo_wf (dc_outbox D) (machine_outbox ?m)" "\<And>k. k \<in> K \<Longrightarrow> jo_intended (dc_outbox D) k (machine_outbox ?m)"
    using assms(1) by (auto simp: keys_kept_def)
  have after: "jo_wf (dc_outbox D) (machine_outbox (machine_step D ?m c))"
    "\<And>k. k \<in> K \<Longrightarrow> jo_intended (dc_outbox D) k (machine_outbox (machine_step D ?m c))"
    by (rule machine_step_file[OF file_property_wf K(1)]) (rule machine_step_file[OF file_property_intended K(2)])
  show ?thesis
  proof (cases "ls = []")
    case True
    then show ?thesis using after c by (simp add: keys_kept_def)
  next
    case False
    then obtain k where k: "dispatch_key D c = Some k" "ls = [k]"
      "machine_world (machine_step D ?m c) \<noteq> machine_world ?m"
      using c(2) by (auto simp: ran_keys_def split: option.splits if_splits)
    have "k \<notin> K" using machine_key_blocks[OF K(2) k(1)] k(3) by blast
    with after machine_key_recorded[OF K(1) k(1,3)] c(1) show ?thesis unfolding k(2) by (simp add: keys_kept_def)
  qed
qed

lemma keys_kept_run:
  assumes "runner_run D C r es r'" "keys_kept D K r" "dispatches_ok D C r"
  shows "distinct (map (event_key (dc_ext D) C) es) \<and> event_key (dc_ext D) C ` set es \<inter> K = {}"
  using assms
proof (induction arbitrary: K rule: runner_run.induct)
  case (stop r)
  then show ?case by simp
next
  case (go r ls r1 es r2)
  let ?ls = "map (event_key (dc_ext D) C) ls"
  from keys_kept_step[OF go.prems(1,2) go.hyps(1)] have s: "set ?ls \<inter> K = {}" "length ?ls \<le> 1" "keys_kept D (K \<union> set ?ls) r1"
    by auto
  moreover have "distinct ?ls" using s(2) by (cases ?ls) auto
  ultimately show ?case using go.IH[OF s(3) dispatches_ok_step[OF go.prems(2) go.hyps(1)]] by auto
qed

subsection \<open>A failed dispatch\<close>

lemma on_pipe_outbox: "rt_outbox (snd (on_pipe f s)) = rt_outbox s"
  by (rule on_pipe_frame)

lemma submit_keeps_outbox: "submit_task_as R env being k v now s = (r, s') \<Longrightarrow> rt_outbox s' = rt_outbox s"
  using preservesD[OF carried_submit[of "\<lambda>x. x = rt_outbox s" R env being k v now]] by blast

definition mark_of :: "action_error + submit_outcome \<Rightarrow> dispatched_outcome" where
  "mark_of result = (case result of Inr out \<Rightarrow> from_submit out | Inl e \<Rightarrow> from_error (show_error e))"

text \<open>A keyed submission under a fresh key, its markers written: the submission, and its outcome kept for the key.\<close>

lemma keyed_computes:
  assumes inv: "jo_inv (dc_outbox D) (rt_outbox s)"
    and new: "jo_entry (dc_outbox D) (rt_outbox s) key = ks_default"
    and env: "snd (ce_intent env) = NoFault" "snd (ce_commit env) = NoFault"
  obtains x where "\<And>s2. submit_task_as (durable_rt D) env being k v now (s\<lparr>rt_outbox := x\<rparr>) = (Killed, s2) \<Longrightarrow>
      submit_task_idempotent (durable_rt D) env key being k v now s = (Killed, s2)"
    and "\<And>result s2. submit_task_as (durable_rt D) env being k v now (s\<lparr>rt_outbox := x\<rparr>) = (Done result, s2) \<Longrightarrow>
      \<exists>y. submit_task_idempotent (durable_rt D) env key being k v now s = (Done result, s2\<lparr>rt_outbox := y\<rparr>) \<and>
        jo_lookup (dc_outbox D) y key = Inr (Committed (mark_of result))"
proof -
  let ?R = "durable_rt D"
  have look: "lookup_key ?R key s = (Done (Inr NotStarted), s)"
    using joc.lookup_state[OF inv, of key] new by (simp add: lookup_key_def reading_def ks_lookup_def ks_default_def)
  obtain t1 where t1: "ce_intent env = (t1, NoFault)" using env(1) by (cases "ce_intent env") auto
  obtain t2 where t2: "ce_commit env = (t2, NoFault)" using env(2) by (cases "ce_commit env") auto
  have R: "rc_outbox ?R = journal_outbox (dc_outbox D)" by simp
  obtain x where x: "on_outbox (\<lambda>x. ob_intent (rc_outbox ?R) (t1, NoFault) x key) s = (Done (Inr ()), s\<lparr>rt_outbox := x\<rparr>)"
    "jo_inv (dc_outbox D) x"
    using rts.marked_intent[OF R inv, of t1 key] by blast
  let ?s1 = "s\<lparr>rt_outbox := x\<rparr>" and ?sub = "submit_task_as ?R env being k v now"
  have keyed: "submit_task_idempotent ?R env key being k v now s = andthen (attempt ?sub) (\<lambda>result.
      andthen (on_outbox (\<lambda>x. ob_committed (rc_outbox ?R) (t2, NoFault) x key (mark_of result))) (\<lambda>_. of_result result)) ?s1"
    unfolding submit_task_idempotent_def t1 t2 mark_of_def
      andthen_ok[where m = "lookup_key ?R key", OF look] dispatch_lookup.case
      andthen_ok[where m = "on_outbox (\<lambda>x. ob_intent (rc_outbox ?R) (t1, NoFault) x key)", OF x(1)] ..
  show thesis
  proof (rule that)
    fix s2 assume "?sub ?s1 = (Killed, s2)"
    then show "submit_task_idempotent ?R env key being k v now s = (Killed, s2)"
      by (simp add: keyed andthen_def attempt_def)
  next
    fix result s2 assume sub: "?sub ?s1 = (Done result, s2)"
    then have att: "attempt ?sub ?s1 = (Done (Inr result), s2)" by (simp add: attempt_def)
    have s2: "rt_outbox s2 = x" using submit_keeps_outbox[OF sub] by simp
    obtain y where y: "on_outbox (\<lambda>x. ob_committed (rc_outbox ?R) (t2, NoFault) x key (mark_of result)) s2 =
        (Done (Inr ()), s2\<lparr>rt_outbox := y\<rparr>)" "jo_inv (dc_outbox D) y"
      "jo_entry (dc_outbox D) y = (jo_entry (dc_outbox D) x)
         (key := (jo_entry (dc_outbox D) x key)\<lparr>ks_intent := True, ks_committed := Some (mark_of result)\<rparr>)"
      using rts.marked_committed[OF R, where s = s2 and t = t2 and key = key and outcome = "mark_of result"] x(2) s2 by auto
    have "submit_task_idempotent ?R env key being k v now s = (Done result, s2\<lparr>rt_outbox := y\<rparr>)"
      unfolding keyed andthen_ok[where m = "attempt ?sub", OF att]
        andthen_ok[where m = "on_outbox (\<lambda>x. ob_committed (rc_outbox ?R) (t2, NoFault) x key (mark_of result))", OF y(1)]
      by (simp add: of_result_def)
    moreover have "jo_lookup (dc_outbox D) y key = Inr (Committed (mark_of result))"
      using joc.lookup_state[OF y(2), of key] y(3) by (simp add: ks_lookup_def)
    ultimately show "\<exists>y. submit_task_idempotent ?R env key being k v now s = (Done result, s2\<lparr>rt_outbox := y\<rparr>) \<and>
        jo_lookup (dc_outbox D) y key = Inr (Committed (mark_of result))" by blast
  qed
qed

lemma failed_submit_committed:
  assumes "jo_inv (dc_outbox D) (rt_outbox s)" "jo_entry (dc_outbox D) (rt_outbox s) key = ks_default"
    and "snd (ce_intent env) = NoFault" "snd (ce_commit env) = NoFault"
    and sub: "submit_task_idempotent (durable_rt D) env key being k v now s = (Done (Inl e), s')"
  shows "jo_lookup (dc_outbox D) (rt_outbox s') key = Inr (Committed (from_error (show_error e)))"
proof (rule keyed_computes[OF assms(1-4), of being k v now])
  fix x
  assume killed: "\<And>s2. submit_task_as (durable_rt D) env being k v now (s\<lparr>rt_outbox := x\<rparr>) = (Killed, s2) \<Longrightarrow>
      submit_task_idempotent (durable_rt D) env key being k v now s = (Killed, s2)"
    and fin: "\<And>result s2. submit_task_as (durable_rt D) env being k v now (s\<lparr>rt_outbox := x\<rparr>) = (Done result, s2) \<Longrightarrow>
      \<exists>y. submit_task_idempotent (durable_rt D) env key being k v now s = (Done result, s2\<lparr>rt_outbox := y\<rparr>) \<and>
        jo_lookup (dc_outbox D) y key = Inr (Committed (mark_of result))"
  obtain r2 s2 where r2: "submit_task_as (durable_rt D) env being k v now (s\<lparr>rt_outbox := x\<rparr>) = (r2, s2)" by (rule prod.exhaust)
  show ?thesis
  proof (cases r2)
    case (Done result)
    from fin[OF r2[unfolded Done]] sub show ?thesis by (auto simp: mark_of_def)
  next
    case Killed
    from killed[OF r2[unfolded Killed]] sub show ?thesis by simp
  qed
qed

lemma unknown_skill_submit:
  "hm_get (rt_executors s) k = None \<Longrightarrow>
     submit_task_as R env being k v now s = (Done (Inl (UnknownSkill (show_uuid (rc_ext R) k))), s)"
  by (simp add: submit_task_as_def reading_def andthen_def)

lemma committed_error_answers:
  assumes "jo_lookup (dc_outbox D) (rt_outbox s) key = Inr (Committed (from_error m))"
  shows "submit_task_idempotent (durable_rt D) env key being k v now s = (Done (Inl (ExecutionFailed m)), s)"
proof -
  have look: "lookup_key (durable_rt D) key s = (Done (Inr (Committed (from_error m))), s)"
    using assms by (simp add: lookup_key_def reading_def)
  show ?thesis
    unfolding submit_task_idempotent_def andthen_ok[where m = "lookup_key (durable_rt D) key", OF look]
    by (simp add: of_result_def into_result_def from_error_def)
qed

lemma unknown_skill_keyed:
  assumes "hm_get (rt_executors s) k = None"
    and "\<And>x. ob_lookup (rc_outbox R) (rt_outbox s) key = Inr (Committed x) \<Longrightarrow> do_error x \<noteq> None"
    and "submit_task_idempotent R env key being k v now s = (r, s')"
  shows "rt_world s' = rt_world s \<and> rt_pipe s' = rt_pipe s \<and> rt_executors s' = rt_executors s \<and> (\<forall>out. r \<noteq> Done (Inr out))"
proof -
  have sub: "submit_task_as R env being k v now (s\<lparr>rt_outbox := x\<rparr>) =
      (Done (Inl (UnknownSkill (show_uuid (rc_ext R) k))), s\<lparr>rt_outbox := x\<rparr>)" for x
    by (rule unknown_skill_submit) (simp add: assms(1))
  show ?thesis
    using assms(2,3)
    by (auto simp: submit_task_idempotent_def andthen_def lookup_key_def reading_def of_result_def throw_def into_result_def
        on_outbox_def attempt_def sub split: prod.splits outcome.splits sum.splits dispatch_lookup.splits option.splits)
qed

subsection \<open>Properties\<close>

text \<open>C9: a scheduled task runs at most once in a window. Start the loop with an empty queue and a
  scheduler without duplicate identifiers. Over any history of collections, dispatches, operator
  actions (new or changed tasks included), other calls of the runtime, write errors, deaths and restarts
  that forget every firing: no two dispatches of one task that were collected in the same interval of the
  task, or for the same occurrence of its cron expression, both change the world; and no dispatch shares
  its key with another call that changed the world.\<close>

theorem scheduled_runs_once:
  assumes "jo_wf (dc_outbox D) (machine_outbox (rn_machine r))" "sched_ok (rn_sched r)" "rn_queue r = []"
    and "runner_run D C r es r'"
  shows "distinct (map (event_key (dc_ext D) C) es) \<and>
    (\<forall>i j t now t' now'. i < j \<and> j < length es \<and> es ! i = Fired t now \<and> es ! j = Fired t' now' \<and> sk_id t' = sk_id t \<longrightarrow>
       \<not> same_window C t now t' now')"
proof -
  have d: "distinct (map (event_key (dc_ext D) C) es)"
    using keys_kept_run[OF assms(4), of "{}"] assms(1-3) by (simp add: keys_kept_def dispatches_ok_def)
  have "\<not> same_window C t now t' now'"
    if "i < j" "j < length es" "es ! i = Fired t now" "es ! j = Fired t' now'" "sk_id t' = sk_id t" for i j t now t' now'
    using nth_eq_iff_index_eq[OF d, of i j] same_window_key[of C t now t' now' "dc_ext D"] that by auto
  with d show ?thesis by blast
qed

text \<open>
  The example: a dispatch runs, but the snapshot of its task cannot be written, so the firing is not
  remembered; the next tick, in the same window, collects the task again.
\<close>

lemma sample_pipe_runs:
  obtains po p' t where
    "pipe_run sample_ext (shift_ids 1 (ce_ids sample_call)) sample_executor (task_new (ce_ids sample_call 0) 7 (JStr ''p'') 100) 100
       (sample_pipe ReadOnly, 0) = (Done (Inr po), (p', Suc 0))"
    "\<not> po_awaiting po" "hm_get (pl_queue p') 5 = Some t"
proof -
  let ?ids = "shift_ids 1 (ce_ids sample_call)"
  let ?q = "hm_insert 5 (pipe_task\<lparr>t_status := Running, t_updated := 100\<rparr>)
      (hm_insert 5 (pipe_task\<lparr>t_status := Ready, t_updated := 100\<rparr>) (hm_insert 5 pipe_task (pl_queue (sample_pipe ReadOnly))))"
  let ?p = "(sample_pipe ReadOnly)\<lparr>pl_queue := ?q\<rparr>"
  have "run_with_input_taint sample_ext ?ids sample_executor pipe_task 100 False (sample_pipe ReadOnly, 0) =
      execute_and_finalize sample_ext ?ids sample_executor 5 (?ids 0) (t_payload pipe_task) 100 False (?p, 0)"
    using run_setup[OF sample_registry sample_pipe_facts(1-3), where X = sample_ext and ids = ?ids and
        exe = sample_executor and now = 100 and tainted = False and w = 0, of ReadOnly]
    by (simp only: sample_pipe_facts(4,7)) simp
  moreover have t: "hm_get (pl_queue ?p) 5 = Some (pipe_task\<lparr>t_status := Running, t_updated := 100\<rparr>)" by simp
  have tr: "can_transition_to (t_status (pipe_task\<lparr>t_status := Running, t_updated := 100\<rparr>)) TaskDone"
    "can_transition_to (t_status (pipe_task\<lparr>t_status := Running, t_updated := 100\<rparr>)) Failed"
    by (simp_all add: can_transition_to_def)
  obtain po p' where ex: "execute_and_finalize sample_ext ?ids sample_executor 5 (?ids 0) (t_payload pipe_task) 100 False (?p, 0) =
      (Done (Inr po), (p', Suc 0))"
    by (rule execute_computes[where p = ?p and i = 5 and exe = sample_executor and w = 0 and ids = ?ids and a = "?ids 0" and
        now = 100 and tainted = False, OF t tr sample_runs(1) sample_pipe_facts(6)])
  moreover from ex have "\<not> po_awaiting po \<and> (\<exists>t. hm_get (pl_queue p') 5 = Some t)"
    by (rule execute_success) simp
  ultimately show ?thesis using that by (auto simp: pipe_run_def sample_call_def pipe_task_def)
qed

definition full_disk_call :: call_env where
  "full_disk_call = sample_call\<lparr>ce_task := WriteErr 0\<rparr>"

lemma full_disk_submit:
  "\<exists>e s'. submit_task_idempotent (durable_rt sample_durable) full_disk_call key ''b'' 7 (JStr ''p'') 100
     (sample_runtime (sample_pipe ReadOnly) empty_pending) = (Done (Inl e), s') \<and> rt_world s' = 1"
proof -
  let ?s = "sample_runtime (sample_pipe ReadOnly) empty_pending" and ?R = "durable_rt sample_durable"
  obtain po p' t where run: "pipe_run sample_ext (shift_ids 1 (ce_ids sample_call)) sample_executor
      (task_new (ce_ids sample_call 0) 7 (JStr ''p'') 100) 100 (sample_pipe ReadOnly, 0) = (Done (Inr po), (p', Suc 0))"
    "\<not> po_awaiting po" "hm_get (pl_queue p') 5 = Some t" by (rule sample_pipe_runs)
  have env: "ce_ids full_disk_call = ce_ids sample_call" "ce_task full_disk_call = WriteErr 0" "rc_ext ?R = sample_ext"
    by (simp_all add: full_disk_call_def sample_durable_def)
  let ?t = "task_new (ce_ids sample_call 0) 7 (JStr ''p'') 100"
  have id: "t_id ?t = 5" by (simp add: task_new_def sample_call_def)
  have sub: "\<exists>e s'. submit_task_as ?R full_disk_call ''b'' 7 (JStr ''p'') 100 (?s\<lparr>rt_outbox := x\<rparr>) = (Done (Inl e), s') \<and> rt_world s' = 1"
    for x
  proof -
    let ?s0 = "?s\<lparr>rt_outbox := x\<rparr>" and ?s1 = "?s\<lparr>rt_outbox := x, rt_pipe := p', rt_world := Suc 0\<rparr>"
    have 1: "reading (\<lambda>s. case hm_get (rt_executors s) 7 of None \<Rightarrow> Inl (UnknownSkill (show_uuid sample_ext 7))
        | Some exe \<Rightarrow> Inr exe) ?s0 = (Done (Inr sample_executor), ?s0)"
      by (simp add: reading_def sample_runtime_def)
    have 2: "on_pipe (pipe_run sample_ext (shift_ids 1 (ce_ids sample_call)) sample_executor ?t 100) ?s0 = (Done (Inr po), ?s1)"
      using run(1) by (simp add: on_pipe_def sample_runtime_def)
    obtain s2 where 3: "keep_proof 5 (po_proof po) ?s1 = (Done (Inr ()), s2)" "rt_pipe s2 = p'" "rt_world s2 = Suc 0"
      by (cases "po_proof po") (auto simp: keep_proof_def change_def)
    obtain e d where "task_append (dc_tasks sample_durable) (dc_task_path sample_durable) (WriteErr 0) (rt_tasks s2) t = (Done (Inl e), d)"
      by (cases "task_validate t"; cases "task_to_string (dc_tasks sample_durable) t") (auto simp: task_append_def)
    then have 4: "snapshot_task_if_durable ?R full_disk_call 5 s2 = (Done (Inl e), s2\<lparr>rt_tasks := d\<rparr>)"
      using run(3) 3(2) env(2) by (simp add: snapshot_task_if_durable_def queue_get_def del: map_of_eq_Some_iff)
    have "submit_task_as ?R full_disk_call ''b'' 7 (JStr ''p'') 100 ?s0 = (Done (Inl e), s2\<lparr>rt_tasks := d\<rparr>)"
      unfolding submit_task_as_def Let_def env(1,3) id andthen_ok[where m = "reading h" for h, OF 1]
        andthen_ok[where m = "on_pipe f" for f, OF 2] andthen_ok[where m = "keep_proof i b" for i b, OF 3(1)]
      using run(2) 4 by (simp add: andthen_def)
    then show ?thesis using 3(3) by auto
  qed
  have inv: "jo_inv (dc_outbox sample_durable) (rt_outbox ?s)" "jo_entry (dc_outbox sample_durable) (rt_outbox ?s) key = ks_default"
    "snd (ce_intent full_disk_call) = NoFault" "snd (ce_commit full_disk_call) = NoFault"
    using sample_jo_fresh(2,3) by (simp_all add: sample_durable_def sample_runtime_def full_disk_call_def sample_call_def)
  show ?thesis
  proof (rule keyed_computes[OF inv, of "''b''" 7 "JStr ''p''" 100])
    fix x
    assume fin: "\<And>result s2. submit_task_as ?R full_disk_call ''b'' 7 (JStr ''p'') 100 (?s\<lparr>rt_outbox := x\<rparr>) = (Done result, s2) \<Longrightarrow>
      \<exists>y. submit_task_idempotent ?R full_disk_call key ''b'' 7 (JStr ''p'') 100 ?s = (Done result, s2\<lparr>rt_outbox := y\<rparr>) \<and>
        jo_lookup (dc_outbox sample_durable) y key = Inr (Committed (mark_of result))"
    obtain e s' where "submit_task_as ?R full_disk_call ''b'' 7 (JStr ''p'') 100 (?s\<lparr>rt_outbox := x\<rparr>) = (Done (Inl e), s')"
      "rt_world s' = 1" using sub by blast
    with fin show ?thesis by fastforce
  qed
qed

lemma sample_collect:
  assumes "0 \<le> now" "now < secs 60"
  shows "collect_due sample_ext no_cron sample_scheduler now = Done
    [\<lparr>du_task = 5, du_key = task_key sample_ext no_cron sample_schedule now, du_being = ''b'', du_skill = 7, du_payload = JStr ''p''\<rparr>]"
proof -
  obtain ds where ds: "collect_due sample_ext no_cron sample_scheduler now = Done ds"
    using collect_due_total[OF sample_scheduler_ok(2)] by blast
  have "fires sample_ext no_cron sample_scheduler now sample_schedule"
    by (simp add: fires_def awake_def schedule_due_def sample_schedule_def scheduled_with_id_def last_fired_def sample_scheduler_def)
  then show ?thesis
    using ds collect_due_Done[OF sample_scheduler_ok(1) ds]
    by (simp add: sample_scheduler_def) (simp add: sample_schedule_def scheduled_with_id_def due_payload_def
        supports_tool_idempotency_def FILE_WRITE_SKILL_def SHELL_EXEC_SKILL_def)
qed

theorem scheduled_runs_once_witness:
  "\<exists>es r'. runner_run sample_durable no_cron
     (runner_new True sample_scheduler (sample_runtime (sample_pipe ReadOnly) empty_pending)) (Fired sample_schedule 100 # es) r' \<and>
     rn_queue r' = [] \<and> rn_now r' = 200 \<and> Fired sample_schedule 200 \<notin> set es"
proof -
  let ?s = "sample_runtime (sample_pipe ReadOnly) empty_pending" and ?D = sample_durable and ?sch = sample_scheduler
  let ?r0 = "runner_new True ?sch ?s"
  let ?key = "task_key sample_ext no_cron sample_schedule"
  let ?d = "\<lambda>now. \<lparr>du_task = 5, du_key = ?key now, du_being = ''b'', du_skill = 7, du_payload = JStr ''p''\<rparr>"
  have X: "dc_ext ?D = sample_ext" by (simp add: sample_durable_def)
  have find: "find_task 5 ?sch = Some sample_schedule"
    by (simp add: find_task_def sample_scheduler_def) (simp add: sample_schedule_def scheduled_with_id_def)
  have c: "collect_due (dc_ext ?D) no_cron ?sch 100 = Done [?d 100]" "collect_due (dc_ext ?D) no_cron ?sch 200 = Done [?d 200]"
    unfolding X by (rule sample_collect; simp add: secs_def)+
  obtain e s1 where sub: "submit_due (durable_rt ?D) full_disk_call (?d 100) 100 ?s = (Done (Inl e), s1)" "rt_world s1 = 1"
    using full_disk_submit unfolding submit_due_def by fastforce
  let ?r1 = "?r0\<lparr>rn_queue := [?d 100], rn_now := 100, rn_collected := ?sch\<rparr>"
  have step1: "runner_step ?D no_cron ?r0 [] ?r1"
    using collect[of ?r0 ?s ?D no_cron 100] c(1) by (simp add: runner_new_def)
  let ?r2 = "after_dispatch (?d 100) [] (Done (Inl e)) (?r1\<lparr>rn_machine := settle (Done (Inl e) :: (action_error + submit_outcome) outcome, s1)\<rparr>)"
  have "ran_keys ?D (Up ?s) (due_command full_disk_call (?d 100) 100) = [?key 100]"
    using sub by (simp add: ran_keys_def due_command_def submit_due_def settle_def) (simp add: sample_runtime_def)
  then have step2: "runner_step ?D no_cron ?r1 [Fired sample_schedule 100] ?r2"
    using dispatch[of ?r1 "?d 100" "[]" ?s ?D full_disk_call "Done (Inl e)" s1 no_cron] sub(1) find
    by (simp add: event_of_def runner_new_def)
  have r2: "rn_queue ?r2 = []" "rn_machine ?r2 = Up s1" "rn_sched ?r2 = ?sch"
    by (simp_all add: after_dispatch_def settle_def runner_new_def)
  let ?r3 = "?r2\<lparr>rn_queue := [?d 200], rn_now := 200, rn_collected := ?sch\<rparr>"
  have step3: "runner_step ?D no_cron ?r2 [] ?r3"
    using collect[of ?r2 s1 ?D no_cron 200 "[?d 200]"] r2 c(2) by simp
  obtain y s2 where sub2: "submit_due (durable_rt ?D) sample_call (?d 200) 200 s1 = (y, s2)" by (rule prod.exhaust)
  let ?es = "map (event_of ?r3 (?d 200)) (ran_keys ?D (Up s1) (due_command sample_call (?d 200) 200))"
  let ?r4 = "after_dispatch (?d 200) [] y (?r3\<lparr>rn_machine := settle (y, s2)\<rparr>)"
  have step4: "runner_step ?D no_cron ?r3 ?es ?r4"
    using dispatch[of ?r3 "?d 200" "[]" s1 ?D sample_call y s2 no_cron] sub2 r2(2) by simp
  have "runner_run ?D no_cron ?r0 ([] @ [Fired sample_schedule 100] @ [] @ ?es @ []) ?r4"
    by (intro go[OF step1] go[OF step2] go[OF step3] go[OF step4] stop)
  then have run: "runner_run ?D no_cron ?r0 (Fired sample_schedule 100 # ?es) ?r4" by simp
  have wf: "jo_wf (dc_outbox ?D) (machine_outbox (rn_machine ?r0))"
    using jo_inv_wf[OF sample_jo_fresh(2)] by (simp add: sample_durable_def sample_runtime_def runner_new_def)
  have ok: "sched_ok (rn_sched ?r0)" "rn_queue ?r0 = []" using sample_scheduler_ok(1) by (simp_all add: runner_new_def)
  have same: "same_window no_cron sample_schedule 100 sample_schedule 200"
    by (simp add: same_window_def sample_schedule_def scheduled_with_id_def window_def num_seconds_def unix_seconds_def secs_def)
  have "Fired sample_schedule 200 \<notin> set ?es"
  proof
    assume "Fired sample_schedule 200 \<in> set ?es"
    then obtain j where "j < length ?es" "?es ! j = Fired sample_schedule 200" by (metis in_set_conv_nth)
    then have "Suc j < length (Fired sample_schedule 100 # ?es)" "(Fired sample_schedule 100 # ?es) ! Suc j = Fired sample_schedule 200"
      by simp_all
    with scheduled_runs_once[OF wf ok run] same show False by (metis nth_Cons_0 zero_less_Suc)
  qed
  moreover have "rn_queue ?r4 = []" "rn_now ?r4 = 200"
    by (simp_all add: after_dispatch_def split: outcome.split sum.split)
  ultimately show ?thesis using run by blast
qed

text \<open>A failed firing uses up its window: when the dispatch of a tick fails and its markers are
  written, the firing is not recorded, and every later tick or round that collects the same key, with
  any payload and environment, gets the stored error back without running anything.\<close>

theorem failed_firing_not_retried:
  assumes "jo_inv (dc_outbox D) (rt_outbox s)" "jo_entry (dc_outbox D) (rt_outbox s) (du_key d) = ks_default"
    and "snd (ce_intent (envs 0)) = NoFault" "snd (ce_commit (envs 0)) = NoFault"
    and "collect_due (dc_ext D) C sch now = Done [d]"
    and "sched_tick (durable_rt D) C envs now sch s = (Done (Inl e), sch', s')"
    and "collect_due (dc_ext D) C sch' now' = Done [d']" "du_key d' = du_key d"
  shows "sch' = sch \<and>
    sched_tick (durable_rt D) C envs' now' sch' s' = (Done (Inl (ExecutionFailed (show_error e))), sch, s') \<and>
    shared_round (durable_rt D) envs' 0 [d'] now' sch' s' = (Done (), sch, s')"
proof -
  have t: "submit_due (durable_rt D) (envs 0) d now s = (Done (Inl e), s')" "sch' = sch"
    using assms(5,6) by (auto simp: sched_tick_def split: prod.splits outcome.splits sum.splits)
  from failed_submit_committed[OF assms(1-4) t(1)[unfolded submit_due_def]]
  have "submit_due (durable_rt D) env d' now' s' = (Done (Inl (ExecutionFailed (show_error e))), s')" for env
    unfolding submit_due_def assms(8) by (rule committed_error_answers)
  then show ?thesis using t(2) assms(7) by (simp add: sched_tick_def)
qed

definition unknown_scheduler :: scheduler where
  "unknown_scheduler = \<lparr>sc_tasks = [sample_schedule\<lparr>sk_skill := 8\<rparr>], sc_last = [], sc_human = None\<rparr>"

lemma unknown_collect:
  "\<exists>d. collect_due sample_ext no_cron unknown_scheduler (secs 90) = Done [d] \<and> du_skill d = 8 \<and>
     du_key d = ''schedule-'' @ show_uuid sample_ext 5 @ ''-'' @ show_int 1"
proof -
  have ok: "sched_ok unknown_scheduler" "in_clock sample_ext unknown_scheduler"
    by (simp_all add: sched_ok_def task_ids_def unknown_scheduler_def in_clock_def last_fired_def)
  obtain ds where ds: "collect_due sample_ext no_cron unknown_scheduler (secs 90) = Done ds"
    using collect_due_total[OF ok(2)] by blast
  have "fires sample_ext no_cron unknown_scheduler (secs 90) (sample_schedule\<lparr>sk_skill := 8\<rparr>)"
    by (simp add: fires_def awake_def schedule_due_def sample_schedule_def scheduled_with_id_def last_fired_def
        unknown_scheduler_def)
  moreover have "task_key sample_ext no_cron (sample_schedule\<lparr>sk_skill := 8\<rparr>) (secs 90) =
      ''schedule-'' @ show_uuid sample_ext 5 @ ''-'' @ show_int 1"
    by (simp add: task_key_def sample_schedule_def scheduled_with_id_def firing_key_def key_prefix_def num_seconds_def
        unix_seconds_def secs_def)
  ultimately show ?thesis
    using ds collect_due_Done[OF ok(1) ds] by (simp add: unknown_scheduler_def)
qed

theorem failed_firing_not_retried_witness:
  "\<exists>e s'. sched_tick (durable_rt sample_durable) no_cron (\<lambda>_. sample_call) (secs 90) unknown_scheduler
       (sample_runtime (sample_pipe ReadOnly) empty_pending) = (Done (Inl e), unknown_scheduler, s') \<and>
     sched_tick (durable_rt sample_durable) no_cron (\<lambda>_. sample_call) (secs 90) unknown_scheduler s' =
       (Done (Inl (ExecutionFailed (show_error e))), unknown_scheduler, s')"
proof -
  let ?s = "sample_runtime (sample_pipe ReadOnly) empty_pending" and ?D = sample_durable and ?sch = unknown_scheduler
  have X: "dc_ext ?D = sample_ext" by (simp add: sample_durable_def)
  obtain d where d: "collect_due (dc_ext ?D) no_cron ?sch (secs 90) = Done [d]" "du_skill d = 8"
    using unknown_collect unfolding X by blast
  have inv: "jo_inv (dc_outbox ?D) (rt_outbox ?s)" "jo_entry (dc_outbox ?D) (rt_outbox ?s) (du_key d) = ks_default"
    using sample_jo_fresh(2,3) by (simp_all add: sample_durable_def sample_runtime_def)
  have env: "snd (ce_intent sample_call) = NoFault" "snd (ce_commit sample_call) = NoFault"
    by (simp_all add: sample_call_def)
  have no: "hm_get (rt_executors ?s) (du_skill d) = None" using d(2) by (simp add: sample_runtime_def)
  obtain s' where sub: "submit_due (durable_rt ?D) sample_call d (secs 90) ?s =
      (Done (Inl (UnknownSkill (show_uuid (rc_ext (durable_rt ?D)) (du_skill d)))), s')"
  proof (rule keyed_computes[OF inv env, of "du_being d" "du_skill d" "du_payload d" "secs 90"])
    fix x
    assume fin: "\<And>result s2. submit_task_as (durable_rt ?D) sample_call (du_being d) (du_skill d) (du_payload d) (secs 90)
        (?s\<lparr>rt_outbox := x\<rparr>) = (Done result, s2) \<Longrightarrow>
      \<exists>y. submit_task_idempotent (durable_rt ?D) sample_call (du_key d) (du_being d) (du_skill d) (du_payload d) (secs 90) ?s =
        (Done result, s2\<lparr>rt_outbox := y\<rparr>) \<and> jo_lookup (dc_outbox ?D) y (du_key d) = Inr (Committed (mark_of result))"
    have "hm_get (rt_executors (?s\<lparr>rt_outbox := x\<rparr>)) (du_skill d) = None" using no by simp
    from fin[OF unknown_skill_submit[OF this]] show ?thesis using that unfolding submit_due_def by blast
  qed
  have tick: "sched_tick (durable_rt ?D) no_cron (\<lambda>_. sample_call) (secs 90) ?sch ?s =
      (Done (Inl (UnknownSkill (show_uuid (rc_ext (durable_rt ?D)) (du_skill d)))), ?sch, s')"
    using d(1) sub by (simp add: sched_tick_def)
  from failed_firing_not_retried[where envs = "\<lambda>_. sample_call", OF inv env d(1) tick d(1) refl] tick show ?thesis by blast
qed

text \<open>In the loop that owns its scheduler, a task whose skill is not registered starves every task
  behind it: as long as it is the first due task, no tick dispatches any other task, records a firing
  or changes the world, however often it is repeated.\<close>

theorem tick_starves:
  assumes "collect_due (rc_ext R) C sch now = Done (d # ds)" "hm_get (rt_executors s) (du_skill d) = None"
    and "\<And>x. ob_lookup (rc_outbox R) (rt_outbox s) (du_key d) = Inr (Committed x) \<Longrightarrow> do_error x \<noteq> None"
  shows "case sched_tick R C envs now sch s of (r, sch', s') \<Rightarrow>
    sch' = sch \<and> rt_world s' = rt_world s \<and> rt_pipe s' = rt_pipe s \<and> rt_executors s' = rt_executors s \<and>
    (\<forall>summary. r \<noteq> Done (Inr summary))"
proof -
  obtain r s' where sub: "submit_due R (envs 0) d now s = (r, s')" by (rule prod.exhaust)
  from unknown_skill_keyed[OF assms(2,3) sub[unfolded submit_due_def]] sub assms(1) show ?thesis
    by (cases r) (auto simp: sched_tick_def split: sum.splits)
qed

theorem tick_starves_witness:
  "rt_world (snd (snd (sched_tick (durable_rt sample_durable) no_cron (\<lambda>_. sample_call) (secs 90)
     (sched_register (sample_schedule\<lparr>sk_id := 6\<rparr>) unknown_scheduler)
     (sample_runtime (sample_pipe ReadOnly) empty_pending)))) = 0"
proof -
  let ?s = "sample_runtime (sample_pipe ReadOnly) empty_pending" and ?R = "durable_rt sample_durable"
  let ?sch = "sched_register (sample_schedule\<lparr>sk_id := 6\<rparr>) unknown_scheduler"
  have tasks: "sc_tasks ?sch = [sample_schedule\<lparr>sk_skill := 8\<rparr>, sample_schedule\<lparr>sk_id := 6\<rparr>]"
    by (simp add: sched_register_def unknown_scheduler_def sample_schedule_def scheduled_with_id_def)
  have last: "last_fired ?sch i = None" "sc_human ?sch = None" for i
    by (simp_all add: last_fired_def sched_register_def unknown_scheduler_def)
  have ok: "sched_ok ?sch" "in_clock sample_ext ?sch"
    by (simp_all add: sched_ok_def task_ids_def tasks in_clock_def last) (simp add: sample_schedule_def scheduled_with_id_def)
  obtain ds where ds: "collect_due sample_ext no_cron ?sch (secs 90) = Done ds"
    using collect_due_total[OF ok(2)] by blast
  have "fires sample_ext no_cron ?sch (secs 90) (sample_schedule\<lparr>sk_skill := 8\<rparr>)"
    by (simp add: fires_def awake_def schedule_due_def last) (simp add: sample_schedule_def scheduled_with_id_def)
  with collect_due_Done[OF ok(1) ds] obtain d ds' where d: "ds = d # ds'" "du_skill d = 8" by (auto simp: tasks)
  have c: "collect_due (rc_ext ?R) no_cron ?sch (secs 90) = Done (d # ds')" using ds d(1) by (simp add: sample_durable_def)
  have n: "hm_get (rt_executors ?s) (du_skill d) = None" using d(2) by (simp add: sample_runtime_def)
  have "jo_inv (dc_outbox sample_durable) (rt_outbox ?s)" "jo_entry (dc_outbox sample_durable) (rt_outbox ?s) k = ks_default" for k
    using sample_jo_fresh(2,3) by (simp_all add: sample_durable_def sample_runtime_def)
  then have "ob_lookup (rc_outbox ?R) (rt_outbox ?s) (du_key d) = Inr NotStarted"
    using joc.lookup_state by (simp add: ks_lookup_def ks_default_def)
  then have l: "ob_lookup (rc_outbox ?R) (rt_outbox ?s) (du_key d) = Inr (Committed x) \<Longrightarrow> do_error x \<noteq> None" for x by simp
  from tick_starves[OF c n l, of "\<lambda>_. sample_call"] show ?thesis
    by (auto simp: sample_runtime_def split: prod.splits)
qed

end
