(* ===== verification/Time_Machine.thy ===== *)
theory Time_Machine
  imports Action_Base
begin

section \<open>Inspecting, forking and comparing timelines\<close>

text \<open>
  Models \<^verbatim>\<open>crates/familyclaw-durable/src/time_machine.rs\<close>. A timeline lists the steps of a journal;
  a fork copies the start of a journal into an empty one and marks it; a comparison goes through two
  timelines by position. \<open>show_json\<close> is the \<^verbatim>\<open>Display\<close> of \<^verbatim>\<open>serde_json\<close>.
\<close>

definition FORK_MARKER :: string where
  "FORK_MARKER = ''timeline_forked''"

datatype step_outcome = OutCompleted json | OutFailed string

fun is_completed :: "step_outcome \<Rightarrow> bool" where
  "is_completed (OutCompleted _) = True"
| "is_completed _ = False"

record timeline_step =
  ts_position :: nat
  ts_step_id :: step_id
  ts_name :: string
  ts_outcome :: step_outcome
  ts_timestamp :: timestamp

record timeline =
  tl_steps :: "timeline_step list"
  tl_markers :: nat
  tl_snapshots :: nat

subsection \<open>Inspecting\<close>

definition push_step :: "journal_entry \<Rightarrow> string \<Rightarrow> step_outcome \<Rightarrow> timeline \<Rightarrow> timeline" where
  "push_step e name out v =
     v\<lparr>tl_steps := tl_steps v @
       [\<lparr>ts_position = length (tl_steps v), ts_step_id = je_step_id e, ts_name = name, ts_outcome = out,
         ts_timestamp = je_timestamp e\<rparr>]\<rparr>"

fun timeline_loop :: "journal_entry list \<Rightarrow> timeline \<Rightarrow> timeline" where
  "timeline_loop [] v = v"
| "timeline_loop (e # es) v =
     timeline_loop es
       (case je_kind e of
          StepCompleted name output \<Rightarrow> push_step e name (OutCompleted output) v
        | StepFailed name err \<Rightarrow> push_step e name (OutFailed err) v
        | kind \<Rightarrow>
            if is_snapshot kind then v\<lparr>tl_snapshots := tl_snapshots v + 1\<rparr>
            else v\<lparr>tl_markers := tl_markers v + 1\<rparr>)"

definition from_journal :: "'j journal_trait \<Rightarrow> 'j \<Rightarrow> durable_error + timeline" where
  "from_journal J j =
     (case tr_replay_all J j of
        Inl e \<Rightarrow> Inl e
      | Inr es \<Rightarrow> Inr (timeline_loop es \<lparr>tl_steps = [], tl_markers = 0, tl_snapshots = 0\<rparr>))"

definition tl_len :: "timeline \<Rightarrow> nat" where
  "tl_len v = length (tl_steps v)"

definition tl_is_empty :: "timeline \<Rightarrow> bool" where
  "tl_is_empty v \<longleftrightarrow> tl_steps v = []"

definition tl_step :: "timeline \<Rightarrow> nat \<Rightarrow> timeline_step option" where
  "tl_step v i = vec_get (tl_steps v) i"

definition tl_find :: "timeline \<Rightarrow> string \<Rightarrow> timeline_step option" where
  "tl_find v name = List.find (\<lambda>s. ts_name s = name) (tl_steps v)"

definition tick :: string where
  "tick = [CHR 0x60]"

definition arrow :: string where
  "arrow = [char_of (0xE2 :: nat), char_of (0x86 :: nat), char_of (0x92 :: nat)]"

definition tl_render_markdown :: "(json \<Rightarrow> string) \<Rightarrow> timeline \<Rightarrow> string" where
  "tl_render_markdown show_json v =
     ''# Timeline '' @ emdash @ '' '' @ show_nat (length (tl_steps v)) @ '' step(s), '' @ show_nat (tl_markers v) @
     '' marker(s), '' @ show_nat (tl_snapshots v) @ '' snapshot(s)'' @ [nl, nl] @
     ''| # | step | outcome |'' @ [nl] @ ''|---|------|---------|'' @ [nl] @
     concat (map (\<lambda>s.
       ''| '' @ show_nat (ts_position s) @ '' | '' @ tick @ ts_name s @ tick @ '' | '' @
       (case ts_outcome s of
          OutCompleted output \<Rightarrow> ''ok: '' @ tick @ show_json output @ tick
        | OutFailed err \<Rightarrow> ''FAILED: '' @ err) @ '' |'' @ [nl]) (tl_steps v))"

subsection \<open>Comparing\<close>

datatype step_diff =
    Unchanged nat string
  | Changed nat string step_outcome step_outcome
  | Diverged nat string string
  | OnlyInBefore nat string
  | OnlyInAfter nat string

type_synonym timeline_diff = "step_diff list"

definition compare_at :: "nat \<Rightarrow> timeline_step \<Rightarrow> timeline_step \<Rightarrow> step_diff" where
  "compare_at position b a =
     (if ts_name b \<noteq> ts_name a then Diverged position (ts_name b) (ts_name a)
      else if ts_outcome b = ts_outcome a then Unchanged position (ts_name b)
      else Changed position (ts_name b) (ts_outcome b) (ts_outcome a))"

definition from_timelines :: "timeline \<Rightarrow> timeline \<Rightarrow> timeline_diff" where
  "from_timelines before after =
     (let shared = min (tl_len before) (tl_len after)
      in map (\<lambda>i. compare_at i (tl_steps before ! i) (tl_steps after ! i)) [0..<shared] @
         map (\<lambda>s. OnlyInBefore (ts_position s) (ts_name s)) (drop shared (tl_steps before)) @
         map (\<lambda>s. OnlyInAfter (ts_position s) (ts_name s)) (drop shared (tl_steps after)))"

fun is_unchanged :: "step_diff \<Rightarrow> bool" where
  "is_unchanged (Unchanged _ _) = True"
| "is_unchanged _ = False"

definition is_identical :: "timeline_diff \<Rightarrow> bool" where
  "is_identical d \<longleftrightarrow> list_all is_unchanged d"

fun is_changed :: "step_diff \<Rightarrow> bool" where
  "is_changed (Changed _ _ _ _) = True"
| "is_changed _ = False"

definition changed_count :: "timeline_diff \<Rightarrow> nat" where
  "changed_count d = length (filter is_changed d)"

fun is_tail :: "step_diff \<Rightarrow> bool" where
  "is_tail (OnlyInBefore _ _) = True"
| "is_tail (OnlyInAfter _ _) = True"
| "is_tail _ = False"

definition tail_count :: "timeline_diff \<Rightarrow> nat" where
  "tail_count d = length (filter is_tail d)"

fun first_divergence :: "timeline_diff \<Rightarrow> nat option" where
  "first_divergence [] = None"
| "first_divergence (Diverged position _ _ # ds) = Some position"
| "first_divergence (_ # ds) = first_divergence ds"

fun render_outcome :: "(json \<Rightarrow> string) \<Rightarrow> step_outcome \<Rightarrow> string" where
  "render_outcome show_json (OutCompleted output) = ''ok '' @ tick @ show_json output @ tick"
| "render_outcome show_json (OutFailed err) = ''FAILED ('' @ err @ '')''"

definition show_bool :: "bool \<Rightarrow> string" where
  "show_bool b = (if b then ''true'' else ''false'')"

fun render_diff :: "(json \<Rightarrow> string) \<Rightarrow> step_diff \<Rightarrow> string" where
  "render_diff sj (Unchanged i name) =
     ''- '' @ tick @ ''#'' @ show_nat i @ tick @ '' '' @ tick @ name @ tick @ '' '' @ emdash @ '' unchanged''"
| "render_diff sj (Changed i name b a) =
     ''- '' @ tick @ ''#'' @ show_nat i @ tick @ '' '' @ tick @ name @ tick @ '' '' @ emdash @ '' **changed**: '' @
     render_outcome sj b @ '' '' @ arrow @ '' '' @ render_outcome sj a"
| "render_diff sj (Diverged i b a) =
     ''- '' @ tick @ ''#'' @ show_nat i @ tick @ '' '' @ emdash @ '' **diverged**: '' @ tick @ b @ tick @ '' vs '' @
     tick @ a @ tick"
| "render_diff sj (OnlyInBefore i name) =
     ''- '' @ tick @ ''#'' @ show_nat i @ tick @ '' '' @ tick @ name @ tick @ '' '' @ emdash @ '' only in BEFORE''"
| "render_diff sj (OnlyInAfter i name) =
     ''- '' @ tick @ ''#'' @ show_nat i @ tick @ '' '' @ tick @ name @ tick @ '' '' @ emdash @ '' only in AFTER''"

definition diff_render_markdown :: "(json \<Rightarrow> string) \<Rightarrow> timeline_diff \<Rightarrow> string" where
  "diff_render_markdown sj d =
     ''# Timeline diff '' @ emdash @ '' '' @ show_nat (length d) @ '' step(s): '' @ show_nat (changed_count d) @
     '' changed, '' @ show_nat (tail_count d) @ '' tail-only, identical: '' @ show_bool (is_identical d) @ [nl, nl] @
     concat (map (\<lambda>x. render_diff sj x @ [nl]) d)"

subsection \<open>Recording intents\<close>

record recorded_intent =
  ri_step :: string
  ri_payload :: json

type_synonym dry_run_recorder = "recorded_intent list"

definition recorder_record :: "string \<Rightarrow> json \<Rightarrow> dry_run_recorder \<Rightarrow> dry_run_recorder" where
  "recorder_record name payload r = r @ [\<lparr>ri_step = name, ri_payload = payload\<rparr>]"

definition recorder_len :: "dry_run_recorder \<Rightarrow> nat" where
  "recorder_len r = length r"

definition recorder_is_empty :: "dry_run_recorder \<Rightarrow> bool" where
  "recorder_is_empty r \<longleftrightarrow> recorder_len r = 0"

subsection \<open>Forking\<close>

text \<open>
  The copy loop: \<open>fl i\<close> is the fault of the \<open>i\<close>-th append. It ends with the number of steps kept and
  the number of appends done.
\<close>

fun copy_rows ::
  "'t journal_trait \<Rightarrow> (nat \<Rightarrow> fault) \<Rightarrow> nat \<Rightarrow> nat \<Rightarrow> nat \<Rightarrow> journal_entry list \<Rightarrow> 't \<Rightarrow>
   (durable_error + nat \<times> nat) outcome \<times> 't" where
  "copy_rows T fl keep kept i [] t = (Done (Inr (kept, i)), t)"
| "copy_rows T fl keep kept i (e # es) t =
     (if is_step (je_kind e) \<and> kept = keep then (Done (Inr (kept, i)), t)
      else case tr_append T (fl i) t e of
             (Killed, t') \<Rightarrow> (Killed, t')
           | (Done (Inl x), t') \<Rightarrow> (Done (Inl x), t')
           | (Done (Inr _), t') \<Rightarrow>
               copy_rows T fl keep (if is_step (je_kind e) then kept + 1 else kept) (i + 1) es t')"

definition fork_payload :: "nat \<Rightarrow> nat \<Rightarrow> json" where
  "fork_payload kept total_steps =
     JObj [(''kept_steps'', JNum (PosInt kept)), (''source_steps'', JNum (PosInt total_steps))]"

definition fork_into ::
  "'s journal_trait \<Rightarrow> 't journal_trait \<Rightarrow> (nat \<Rightarrow> fault) \<Rightarrow> timestamp \<Rightarrow> 's \<Rightarrow> nat \<Rightarrow> 't \<Rightarrow>
   (durable_error + nat) outcome \<times> 't" where
  "fork_into S T fl now source keep_steps target =
     (case journal_is_empty T target of
        Inl e \<Rightarrow> (Done (Inl e), target)
      | Inr False \<Rightarrow> (Done (Inl (invalid_fork ''fork target journal must be empty'')), target)
      | Inr True \<Rightarrow>
          (case tr_replay_all S source of
             Inl e \<Rightarrow> (Done (Inl e), target)
           | Inr all \<Rightarrow>
               (let total_steps = length (filter (\<lambda>e. is_step (je_kind e)) all)
                in if total_steps < keep_steps
                   then (Done (Inl (invalid_fork (''cannot keep '' @ show_nat keep_steps @
                           '' step(s): source timeline has only '' @ show_nat total_steps))), target)
                   else case copy_rows T fl keep_steps 0 0 all target of
                          (Killed, t') \<Rightarrow> (Killed, t')
                        | (Done (Inl e), t') \<Rightarrow> (Done (Inl e), t')
                        | (Done (Inr (kept, i)), t') \<Rightarrow>
                            (case tr_append T (fl i) t'
                                    (marker now (of_nat kept) FORK_MARKER (fork_payload kept total_steps)) of
                               (Killed, t'') \<Rightarrow> (Killed, t'')
                             | (Done (Inl e), t'') \<Rightarrow> (Done (Inl e), t'')
                             | (Done (Inr _), t'') \<Rightarrow> (Done (Inr kept), t'')))))"

definition fork ::
  "'s journal_trait \<Rightarrow> (nat \<Rightarrow> fault) \<Rightarrow> timestamp \<Rightarrow> 's \<Rightarrow> nat \<Rightarrow> (durable_error + in_memory_journal) outcome" where
  "fork S fl now source keep_steps =
     (case fork_into S in_memory fl now source keep_steps mem_new of
        (Killed, _) \<Rightarrow> Killed
      | (Done (Inl e), _) \<Rightarrow> Done (Inl e)
      | (Done (Inr _), target) \<Rightarrow> Done (Inr target))"

definition inspect :: "'j journal_trait \<Rightarrow> 'j \<Rightarrow> durable_error + timeline" where
  "inspect = from_journal"

definition timeline_compare ::
  "'a journal_trait \<Rightarrow> 'b journal_trait \<Rightarrow> 'a \<Rightarrow> 'b \<Rightarrow> durable_error + timeline_diff" where
  "timeline_compare A B before after =
     (case from_journal A before of
        Inl e \<Rightarrow> Inl e
      | Inr b \<Rightarrow> (case from_journal B after of Inl e \<Rightarrow> Inl e | Inr a \<Rightarrow> Inr (from_timelines b a)))"


subsection \<open>The steps of a timeline\<close>

fun outcome_of :: "entry_kind \<Rightarrow> step_outcome" where
  "outcome_of (StepCompleted _ output) = OutCompleted output"
| "outcome_of (StepFailed _ err) = OutFailed err"
| "outcome_of _ = OutFailed []"

definition step_of :: "nat \<times> journal_entry \<Rightarrow> timeline_step" where
  "step_of x = \<lparr>ts_position = fst x, ts_step_id = je_step_id (snd x),
     ts_name = the (entry_step_name (snd x)), ts_outcome = outcome_of (je_kind (snd x)),
     ts_timestamp = je_timestamp (snd x)\<rparr>"

lemma timeline_loop_steps:
  "tl_steps (timeline_loop es v) =
     tl_steps v @ map step_of (enumerate (length (tl_steps v)) (step_rows es))"
proof (induction es arbitrary: v)
  case (Cons e es)
  then show ?case
    by (cases "je_kind e")
      (simp_all add: push_step_def step_of_def entry_step_name_def)
qed simp

lemma timeline_loop_counts:
  "length (tl_steps (timeline_loop es v)) + tl_markers (timeline_loop es v) + tl_snapshots (timeline_loop es v) =
     length (tl_steps v) + tl_markers v + tl_snapshots v + length es"
  by (induction es arbitrary: v) (auto simp: push_step_def split: entry_kind.splits)

definition timeline_of :: "journal_entry list \<Rightarrow> timeline" where
  "timeline_of es = timeline_loop es \<lparr>tl_steps = [], tl_markers = 0, tl_snapshots = 0\<rparr>"

lemma timeline_of_steps: "tl_steps (timeline_of es) = map step_of (enumerate 0 (step_rows es))"
  by (simp add: timeline_of_def timeline_loop_steps)

lemma timeline_of_len [simp]: "tl_len (timeline_of es) = length (step_rows es)"
  by (simp add: tl_len_def timeline_of_steps)

lemma timeline_of_nth:
  "i < length (step_rows es) \<Longrightarrow> tl_steps (timeline_of es) ! i = step_of (i, step_rows es ! i)"
  by (simp add: timeline_of_steps nth_enumerate_eq)

lemma step_kind_eq:
  "is_step a \<Longrightarrow> is_step b \<Longrightarrow> step_name a = step_name b \<and> outcome_of a = outcome_of b \<longleftrightarrow> a = b"
  by (cases a; cases b) auto

lemma step_rows_nth: "i < length (step_rows es) \<Longrightarrow> is_step (je_kind (step_rows es ! i))"
  by (metis (mono_tags, lifting) mem_Collect_eq nth_mem set_filter)

lemma compare_unchanged:
  assumes "is_step (je_kind a)" "is_step (je_kind b)"
  shows "is_unchanged (compare_at i (step_of (i, a)) (step_of (i, b))) \<longleftrightarrow> je_kind a = je_kind b"
proof -
  obtain m n where "step_name (je_kind a) = Some m" "step_name (je_kind b) = Some n"
    using assms by (auto simp: is_step_iff_name)
  with step_kind_eq[OF assms] show ?thesis
    by (auto simp: compare_at_def step_of_def entry_step_name_def)
qed

lemma from_timelines_of:
  fixes es es' :: "journal_entry list"
  defines "n \<equiv> length (step_rows es)" and "m \<equiv> length (step_rows es')"
  shows "from_timelines (timeline_of es) (timeline_of es') =
    map (\<lambda>i. compare_at i (step_of (i, step_rows es ! i)) (step_of (i, step_rows es' ! i))) [0..<min n m] @
    map (\<lambda>i. OnlyInBefore i (ts_name (step_of (i, step_rows es ! i)))) [m..<n] @
    map (\<lambda>i. OnlyInAfter i (ts_name (step_of (i, step_rows es' ! i)))) [n..<m]"
proof -
  have tail: "map (\<lambda>s. g (ts_position s) (ts_name s)) (drop k (tl_steps (timeline_of xs))) =
      map (\<lambda>i. g i (ts_name (step_of (i, step_rows xs ! i)))) [k..<length (step_rows xs)]"
    for g :: "nat \<Rightarrow> string \<Rightarrow> step_diff" and k and xs :: "journal_entry list"
    by (rule nth_equalityI)
      (auto simp: timeline_of_steps drop_map[symmetric] nth_enumerate_eq step_of_def simp del: drop_map)
  have "map (\<lambda>i. compare_at i (tl_steps (timeline_of es) ! i) (tl_steps (timeline_of es') ! i)) [0..<min n m] =
      map (\<lambda>i. compare_at i (step_of (i, step_rows es ! i)) (step_of (i, step_rows es' ! i))) [0..<min n m]"
    by (rule map_cong[OF refl]) (simp add: timeline_of_nth n_def m_def)
  moreover have "[min n m..<n] = [m..<n]" "[min n m..<m] = [n..<m]" by (auto simp: min_def)
  ultimately show ?thesis
    by (simp add: from_timelines_def tail n_def m_def)
qed

lemma is_identical_timelines:
  "is_identical (from_timelines (timeline_of es) (timeline_of es')) \<longleftrightarrow>
     map je_kind (step_rows es) = map je_kind (step_rows es')"
proof -
  let ?n = "length (step_rows es)" and ?m = "length (step_rows es')"
  have lists: "list_all is_unchanged (map f [0..<k]) \<longleftrightarrow> (\<forall>i < k. is_unchanged (f i))"
    "list_all is_unchanged (map (\<lambda>i. OnlyInBefore i (g i)) xs) \<longleftrightarrow> xs = []"
    "list_all is_unchanged (map (\<lambda>i. OnlyInAfter i (g i)) xs) \<longleftrightarrow> xs = []"
    for f and g :: "nat \<Rightarrow> string" and k and xs :: "nat list"
    by (auto simp: list_all_iff)
  have "is_identical (from_timelines (timeline_of es) (timeline_of es')) \<longleftrightarrow>
      (\<forall>i < min ?n ?m. is_unchanged (compare_at i (step_of (i, step_rows es ! i)) (step_of (i, step_rows es' ! i))))
      \<and> ?n \<le> ?m \<and> ?m \<le> ?n"
    by (simp only: is_identical_def from_timelines_of list_all_append lists upt_eq_Nil_conv) auto
  also have "\<dots> \<longleftrightarrow> (\<forall>i < min ?n ?m. je_kind (step_rows es ! i) = je_kind (step_rows es' ! i)) \<and> ?n = ?m"
    using compare_unchanged[OF step_rows_nth step_rows_nth] by (simp add: eq_iff[of ?n ?m] cong: conj_cong)
  also have "\<dots> \<longleftrightarrow> map je_kind (step_rows es) = map je_kind (step_rows es')"
    by (auto simp: list_eq_iff_nth_eq)
  finally show ?thesis .
qed

subsection \<open>What a fork holds\<close>

lemma copy_rows_go:
  assumes "\<not> (is_step (je_kind e) \<and> kept = keep)" "tr_append T (fl i) t e = (Done (Inr u), t1)"
  shows "copy_rows T fl keep kept i (e # es) t =
    copy_rows T fl keep (if is_step (je_kind e) then kept + 1 else kept) (i + 1) es t1"
  unfolding copy_rows.simps(2) if_not_P[OF assms(1)] assms(2) by simp

text \<open>
  The rows before the \<open>k + 1\<close>-st step, markers and snapshots included, and the whole log of a fork.
\<close>

fun fork_prefix :: "nat \<Rightarrow> journal_entry list \<Rightarrow> journal_entry list" where
  "fork_prefix k [] = []"
| "fork_prefix k (e # es) =
     (if is_step (je_kind e) then (case k of 0 \<Rightarrow> [] | Suc k' \<Rightarrow> e # fork_prefix k' es)
      else e # fork_prefix k es)"

definition fork_rows :: "nat \<Rightarrow> timestamp \<Rightarrow> journal_entry list \<Rightarrow> journal_entry list" where
  "fork_rows k now es =
     fork_prefix k es @ [marker now (of_nat k) FORK_MARKER (fork_payload k (length (step_rows es)))]"

lemma fork_prefix_prefix: "\<exists>rest. es = fork_prefix k es @ rest"
  by (induction k es rule: fork_prefix.induct) (auto split: nat.splits)

lemma fork_prefix_Cons:
  assumes "is_step (je_kind e) \<Longrightarrow> kept < keep"
  shows "fork_prefix (keep - kept) (e # es) =
    e # fork_prefix (keep - (if is_step (je_kind e) then kept + 1 else kept)) es"
proof (cases "is_step (je_kind e)")
  case True
  then have "keep - kept = Suc (keep - Suc kept)" using assms by simp
  then show ?thesis using True by simp
qed simp

lemma fork_prefix_steps: "step_rows (fork_prefix k es) = take k (step_rows es)"
  by (induction k es rule: fork_prefix.induct) (auto split: nat.splits)

lemma fork_rows_steps [simp]: "step_rows (fork_rows k now es) = take k (step_rows es)"
  by (simp add: fork_rows_def fork_prefix_steps)

lemma fork_unchanged:
  "k \<le> length (step_rows es) \<Longrightarrow>
   from_timelines (timeline_of es) (timeline_of (fork_rows k now es)) =
     map (\<lambda>i. Unchanged i (ts_name (step_of (i, step_rows es ! i)))) [0..<k] @
     map (\<lambda>i. OnlyInBefore i (ts_name (step_of (i, step_rows es ! i)))) [k..<length (step_rows es)]"
  by (auto simp: from_timelines_of compare_at_def)

context journal begin

lemma from_journal_rows: "jinv j \<Longrightarrow> from_journal J j = Inr (timeline_of (rows j))"
  by (simp add: from_journal_def replay_all_rows timeline_of_def)

lemma copy_rows_ok:
  assumes "jinv t" "\<forall>e \<in> set (fork_prefix (keep - kept) es). storable t e" "\<forall>i. fl i = NoFault"
    and "kept \<le> keep" "keep \<le> kept + length (step_rows es)"
  shows "\<exists>t' i'. copy_rows J fl keep kept i es t = (Done (Inr (keep, i')), t') \<and> jinv t' \<and>
    storable t' = storable t \<and> rows t' = rows t @ fork_prefix (keep - kept) es"
  using assms
proof (induction es arbitrary: kept i t)
  case Nil
  then show ?case by simp
next
  case (Cons e es)
  show ?case
  proof (cases "is_step (je_kind e) \<and> kept = keep")
    case True
    then show ?thesis using Cons.prems(1) by simp
  next
    case False
    let ?kept = "if is_step (je_kind e) then kept + 1 else kept"
    have p: "fork_prefix (keep - kept) (e # es) = e # fork_prefix (keep - ?kept) es"
      by (rule fork_prefix_Cons) (use False Cons.prems(4) in auto)
    obtain t1 where t1: "tr_append J NoFault t e = (Done (Inr ()), t1)" "jinv t1" "rows t1 = rows t @ [e]"
      using append_ok[OF Cons.prems(1), of e] Cons.prems(2) p by auto
    have st: "storable t1 = storable t" by (rule append_storable[OF Cons.prems(1) t1(1)])
    have "?kept \<le> keep" "keep \<le> ?kept + length (step_rows es)"
      using False Cons.prems(4,5) by (auto split: if_splits)
    then obtain t' i' where "copy_rows J fl keep ?kept (i + 1) es t1 = (Done (Inr (keep, i')), t')"
        "jinv t'" "storable t' = storable t1" "rows t' = rows t1 @ fork_prefix (keep - ?kept) es"
      using Cons.IH[OF t1(2) _ Cons.prems(3), of ?kept "i + 1"] Cons.prems(2) unfolding p st by fastforce
    then show ?thesis
      unfolding p copy_rows_go[where fl = fl and i = i, OF False t1(1)[folded spec[OF Cons.prems(3), of i]]] using t1 st
      by (simp del: fork_prefix.simps)
  qed
qed

lemma fork_into_ok:
  assumes "jinv t" "rows t = []" "tr_replay_all S source = Inr es" "keep \<le> length (step_rows es)"
    and "\<forall>e \<in> set (fork_rows keep now es). storable t e" "\<forall>i. fl i = NoFault"
  shows "\<exists>t'. fork_into S J fl now source keep t = (Done (Inr keep), t') \<and> jinv t' \<and>
    storable t' = storable t \<and> rows t' = fork_rows keep now es"
proof -
  obtain t1 i where c: "copy_rows J fl keep 0 0 es t = (Done (Inr (keep, i)), t1)" "jinv t1"
      "storable t1 = storable t" "rows t1 = fork_prefix keep es"
    using copy_rows_ok[of t keep 0 es fl 0] assms by (auto simp: fork_rows_def)
  let ?m = "marker now (of_nat keep) FORK_MARKER (fork_payload keep (length (step_rows es)))"
  obtain t2 where "tr_append J NoFault t1 ?m = (Done (Inr ()), t2)" "jinv t2" "rows t2 = rows t1 @ [?m]"
    using append_ok[OF c(2), of ?m] c(3) assms(5) by (auto simp: fork_rows_def)
  moreover from append_storable[OF c(2) this(1)] have "storable t2 = storable t" using c(3) by simp
  ultimately show ?thesis
    using assms(3,4,6) c is_empty_rows[OF assms(1)] assms(2)
    by (simp add: fork_into_def Let_def fork_rows_def not_less[symmetric])
qed

lemma fork_into_refused:
  assumes "jinv t"
  shows "rows t \<noteq> [] \<Longrightarrow> fork_into S J fl now source keep t =
      (Done (Inl (InvalidFork ''fork target journal must be empty'')), t)"
    and "rows t = [] \<Longrightarrow> tr_replay_all S source = Inl x \<Longrightarrow>
      fork_into S J fl now source keep t = (Done (Inl x), t)"
    and "rows t = [] \<Longrightarrow> tr_replay_all S source = Inr es \<Longrightarrow> length (step_rows es) < keep \<Longrightarrow>
      fork_into S J fl now source keep t =
        (Done (Inl (InvalidFork (''cannot keep '' @ show_nat keep @
           '' step(s): source timeline has only '' @ show_nat (length (step_rows es))))), t)"
  using is_empty_rows[OF assms] by (simp_all add: fork_into_def invalid_fork_def)

end

context crash_journal begin

lemma copy_rows_crash:
  assumes "jinv t" "kept \<le> keep" "copy_rows J fl keep kept i es t = (r, t')"
  shows "jinv (reopen t') \<and> (\<exists>n. rows (reopen t') = rows t @ take n (fork_prefix (keep - kept) es)) \<and>
    (\<forall>x. r = Done (Inr x) \<longrightarrow> jinv t' \<and> rows t' = rows t @ fork_prefix (keep - kept) es \<and>
       fst x = min keep (kept + length (step_rows es)))"
  using assms
proof (induction es arbitrary: kept i t)
  case Nil
  then show ?case by (auto simp: reopen_id)
next
  case (Cons e es)
  show ?case
  proof (cases "is_step (je_kind e) \<and> kept = keep")
    case True
    then show ?thesis using Cons.prems by (auto simp: reopen_id)
  next
    case False
    let ?kept = "if is_step (je_kind e) then kept + 1 else kept"
    have p: "fork_prefix (keep - kept) (e # es) = e # fork_prefix (keep - ?kept) es"
      by (rule fork_prefix_Cons) (use False Cons.prems(2) in auto)
    obtain a t1 where a: "tr_append J (fl i) t e = (a, t1)" by (cases "tr_append J (fl i) t e")
    show ?thesis
    proof (cases "a = Done (Inr ())")
      case True
      note t1 = append_success[OF Cons.prems(1) a[unfolded True]]
      have run: "copy_rows J fl keep ?kept (i + 1) es t1 = (r, t')"
        using copy_rows_go[where fl = fl and i = i, OF False a[unfolded True], of es] Cons.prems(3) by simp
      have k: "?kept \<le> keep" using False Cons.prems(2) by auto
      from Cons.IH[OF conjunct1[OF t1] k run] obtain n where
        n: "rows (reopen t') = rows t1 @ take n (fork_prefix (keep - ?kept) es)" by blast
      have "rows (reopen t') = rows t @ take (Suc n) (fork_prefix (keep - kept) (e # es))"
        unfolding p using n t1 by simp
      moreover have "\<exists>m. e # take n xs = take m (e # xs)" for n and xs :: "journal_entry list"
        by (rule exI[of _ "Suc n"]) simp
      ultimately show ?thesis using Cons.IH[OF conjunct1[OF t1] k run] t1 unfolding p by auto
    next
      case nok: False
      then have "t' = t1 \<and> (\<forall>x. r \<noteq> Done (Inr x))"
        using False Cons.prems(3) a by (cases a) (auto split: sum.splits)
      moreover from crash_append[OF Cons.prems(1) a]
      have "jinv (reopen t1) \<and> (\<exists>n. rows (reopen t1) = rows t @ take n (fork_prefix (keep - kept) (e # es)))"
        unfolding p by (metis append_Nil2 take_0 take_Suc_Cons)
      ultimately show ?thesis by auto
    qed
  qed
qed

lemma fork_into_crash:
  assumes "jinv t" "rows t = []" "tr_replay_all S source = Inr es" "keep \<le> length (step_rows es)"
    and "fork_into S J fl now source keep t = (r, t')"
  shows "jinv (reopen t') \<and> (\<exists>n. rows (reopen t') = take n (fork_rows keep now es)) \<and>
    (\<forall>k. r = Done (Inr k) \<longrightarrow> k = keep \<and> rows (reopen t') = fork_rows keep now es)"
proof -
  obtain a t1 where c: "copy_rows J fl keep 0 0 es t = (a, t1)" by (cases "copy_rows J fl keep 0 0 es t")
  note cr = copy_rows_crash[OF assms(1) le0 c, simplified, unfolded assms(2) append_Nil]
  have f: "(case a of Killed \<Rightarrow> (Killed, t1) | Done (Inl x) \<Rightarrow> (Done (Inl x), t1)
      | Done (Inr (kept, i)) \<Rightarrow>
          (case tr_append J (fl i) t1 (marker now (of_nat kept) FORK_MARKER
                  (fork_payload kept (length (step_rows es)))) of
             (Killed, t'') \<Rightarrow> (Killed, t'') | (Done (Inl x), t'') \<Rightarrow> (Done (Inl x), t'')
           | (Done (Inr _), t'') \<Rightarrow> (Done (Inr kept), t''))) = (r, t')"
    using assms c is_empty_rows[OF assms(1)] by (cases a)
      (auto simp: fork_into_def Let_def not_less[symmetric] split: sum.splits prod.splits)
  show ?thesis
  proof (cases "\<exists>x. a = Done (Inr x)")
    case False
    then have "t' = t1 \<and> (\<forall>k. r \<noteq> Done (Inr k))" using f by (cases a) (auto split: sum.splits)
    moreover from cr obtain n where n: "rows (reopen t1) = take n (fork_prefix keep es)" by blast
    from n have "rows (reopen t1) = take (min n (length (fork_prefix keep es))) (fork_rows keep now es)"
      by (simp add: fork_rows_def min_def)
    ultimately show ?thesis using cr by blast
  next
    case True
    then obtain i where a: "a = Done (Inr (keep, i))" using cr assms(4) by (auto simp: min_def)
    let ?m = "marker now (of_nat keep) FORK_MARKER (fork_payload keep (length (step_rows es)))"
    obtain b t2 where b: "tr_append J (fl i) t1 ?m = (b, t2)" by (cases "tr_append J (fl i) t1 ?m")
    have t1: "jinv t1" "rows t1 = fork_prefix keep es" using cr a by auto
    have rt: "t' = t2" "\<And>k. r = Done (Inr k) \<Longrightarrow> b = Done (Inr ()) \<and> k = keep"
      using f a b by (cases b; auto split: sum.splits)+
    from crash_append[OF t1(1) b] t1(2)
    have "jinv (reopen t2) \<and> (\<exists>n. rows (reopen t2) = take n (fork_rows keep now es))"
      by (auto simp: fork_rows_def intro: exI[of _ "length (fork_prefix keep es)"]
          exI[of _ "Suc (length (fork_prefix keep es))"])
    moreover have "b = Done (Inr ()) \<Longrightarrow> rows (reopen t2) = fork_rows keep now es"
      using crash_append_success[OF t1(1)] b t1(2) by (auto simp: fork_rows_def)
    ultimately show ?thesis using rt by auto
  qed
qed

end

subsection \<open>Properties\<close>

definition alternative_prog :: "(nat, nat) workflow" where
  "alternative_prog = Step ''a'' (\<lambda>w. (Inr w, w + 1)) (\<lambda>_. Step ''c'' (\<lambda>w. (Inr (w * 2), w + 5)) (\<lambda>_. Finish))"

text \<open>C19: a fork that keeps \<open>k\<close> steps of a readable journal holds exactly the source's rows
  before its next step, and the audit marker. Any program that goes along the kept steps, run on
  the fork, gets the recorded answers of these steps without running them again, and then behaves
  as the rest of the program run directly: the world changes by that rest only.\<close>

theorem fork_runs_alternative:
  assumes "value_codec tv fv" "tr_replay_all S source = Inr es" "k \<le> length (step_rows es)"
    and "follow fv prog (take k (step_rows es)) = Some (rs, rest)" "direct rest w = (bs, w')"
    and "\<forall>i. fl i = NoFault" "\<forall>x \<in> set env. fst x = NoFault"
  shows "fork S fl now source k = Done (Inr (fork_rows k now es)) \<and>
    (\<exists>c c'. ctx_new in_memory (fork_rows k now es) = Inr c \<and>
       run_workflow in_memory tv fv prog env c w = (Done (Inr (rs @ bs)), c', w') \<and>
       ctx_journal c' = fork_rows k now es @ workflow_rows tv rest (drop k env) k w)"
proof
  show "fork S fl now source k = Done (Inr (fork_rows k now es))"
    using mem.fork_into_ok[of mem_new S source es k now fl] assms by (auto simp: fork_def mem_new_def)
  obtain c where c: "ctx_new in_memory (fork_rows k now es) = Inr c"
    using mem.ctx_new_rows by auto
  have k: "length (take k (step_rows es)) = k" using assms(3) by simp
  from mem.lives_finish[OF assms(1) TrueI _ c assms(5,7), of prog rs, unfolded fork_rows_steps k]
  show "\<exists>c c'. ctx_new in_memory (fork_rows k now es) = Inr c \<and>
       run_workflow in_memory tv fv prog env c w = (Done (Inr (rs @ bs)), c', w') \<and>
       ctx_journal c' = fork_rows k now es @ workflow_rows tv rest (drop k env) k w"
    using c assms(4) by blast
qed

theorem fork_runs_alternative_witness:
  "fork in_memory (\<lambda>_. NoFault) 9 [row_a, row_b] 1 = Done (Inr (fork_rows 1 9 [row_a, row_b])) \<and>
   (\<exists>c c'. ctx_new in_memory (fork_rows 1 9 [row_a, row_b]) = Inr c \<and>
      run_workflow in_memory nat_to_value nat_from_value alternative_prog [] c 11 =
        (Done (Inr [Inr 0, Inr 22]), c', 16))"
proof -
  have f: "follow nat_from_value alternative_prog (take 1 (step_rows [row_a, row_b])) =
      Some ([Inr 0], Step ''c'' (\<lambda>w. (Inr (w * 2), w + 5)) (\<lambda>_. Finish))"
    by (simp add: alternative_prog_def row_a_def completed_def nat_from_value_def)
  have r: "tr_replay_all in_memory [row_a, row_b] = Inr [row_a, row_b]" by (simp add: mem_replay_all_def)
  have k: "1 \<le> length (step_rows [row_a, row_b])" by (simp add: row_a_def row_b_def)
  from fork_runs_alternative[OF nat_value_codec r k f, of 11 "[Inr 22]" 16 "\<lambda>_. NoFault" "[]" 9]
  show ?thesis by auto
qed

text \<open>Forking into an empty file journal, whatever write fails and wherever the process dies: the
  reopened target is a well-formed journal that holds a start of the complete fork, the audit
  marker last, and it holds all of it when the fork reported success. A target that got any row is
  refused by every later fork and stays as it is.\<close>

theorem fork_interrupted:
  assumes "file_inv C p d" "file_rows C p d = []" "tr_replay_all S source = Inr es"
    and "k \<le> length (step_rows es)"
    and "fork_into S (file_journal C p) fl now source k d = (r, d')"
  shows "file_inv C p (file_open C d' p) \<and>
    (\<exists>n. file_rows C p (file_open C d' p) = take n (fork_rows k now es)) \<and>
    (\<forall>m. r = Done (Inr m) \<longrightarrow> m = k \<and> file_rows C p (file_open C d' p) = fork_rows k now es) \<and>
    (file_rows C p (file_open C d' p) \<noteq> [] \<longrightarrow>
       fork_into S (file_journal C p) fl' now' source k' (file_open C d' p) =
         (Done (Inl (InvalidFork ''fork target journal must be empty'')), file_open C d' p))"
  using filec.fork_into_crash[OF assms] by (simp add: filej.fork_into_refused(1))

theorem fork_interrupted_witness:
  "\<exists>n. file_rows sample_codec ''j'' (file_open sample_codec
       (snd (fork_into in_memory (file_journal sample_codec ''j'') (\<lambda>i. if i = 0 then NoFault else Kill 1)
          9 [sample_row, sample_row2] 0 sample_fs)) ''j'') =
     take n (fork_rows 0 9 [sample_row, sample_row2])"
proof -
  have r: "tr_replay_all in_memory [sample_row, sample_row2] = Inr [sample_row, sample_row2]"
    by (simp add: mem_replay_all_def)
  from fork_interrupted[OF sample_fs_inv r le0 prod.collapse[symmetric]] show ?thesis by blast
qed

text \<open>Comparing two well-formed journals never fails, and reports them identical exactly when
  their step rows agree, position by position, in kind, name and outcome, whatever their
  timestamps, step numbers, markers and snapshots are.\<close>

theorem diff_identical_iff:
  assumes "file_inv C p d" "file_inv C' p' d'"
  shows "\<exists>diff. timeline_compare (file_journal C p) (file_journal C' p') d d' = Inr diff \<and>
    (is_identical diff \<longleftrightarrow>
       map je_kind (step_rows (file_rows C p d)) = map je_kind (step_rows (file_rows C' p' d')))"
  by (simp add: timeline_compare_def filej.from_journal_rows assms is_identical_timelines)

theorem diff_identical_iff_witness:
  "\<exists>diff. timeline_compare (file_journal steps_codec ''j'') (file_journal sample_codec ''j'')
       steps_fs sample_fs = Inr diff \<and> \<not> is_identical diff"
  using diff_identical_iff[OF steps_fs_inv(1) sample_fs_inv(1)]
  by (auto simp: steps_fs_inv(2) sample_fs_inv(2) row_a_def)

text \<open>Comparing a journal with its fork reports the kept steps as unchanged, and every later step,
  at its own position, as present in the source only: a fork never shows as changed or diverged.\<close>

theorem fork_diff:
  assumes "tr_replay_all S source = Inr es" "k \<le> length (step_rows es)"
    and "\<forall>i. fl i = NoFault" "fork S fl now source k = Done (Inr target)"
  shows "timeline_compare S in_memory source target = Inr
    (map (\<lambda>i. Unchanged i (the (entry_step_name (step_rows es ! i)))) [0..<k] @
     map (\<lambda>i. OnlyInBefore i (the (entry_step_name (step_rows es ! i)))) [k..<length (step_rows es)])"
proof -
  have "target = fork_rows k now es"
    using mem.fork_into_ok[of mem_new S source es k now fl] assms by (auto simp: fork_def mem_new_def)
  moreover have "from_journal S source = Inr (timeline_of es)"
    by (simp add: from_journal_def assms(1) timeline_of_def)
  ultimately show ?thesis
    using fork_unchanged[OF assms(2), of now] mem.from_journal_rows
    by (simp add: timeline_compare_def step_of_def)
qed

theorem fork_diff_witness:
  "\<exists>target. fork in_memory (\<lambda>_. NoFault) 9 [row_a, row_b] 1 = Done (Inr target) \<and>
     timeline_compare in_memory in_memory [row_a, row_b] target =
       Inr [Unchanged 0 ''a'', OnlyInBefore 1 ''b'']"
proof -
  let ?s = "[row_a, row_b]"
  have rows: "step_rows ?s = ?s" by (simp add: row_a_def row_b_def)
  have r: "tr_replay_all in_memory ?s = Inr ?s" by (simp add: mem_replay_all_def)
  have k: "1 \<le> length (step_rows ?s)" unfolding rows by simp
  obtain t where t: "fork in_memory (\<lambda>_. NoFault) 9 ?s 1 = Done (Inr t)"
    using mem.fork_into_ok[of mem_new in_memory ?s ?s 1 9 "\<lambda>_. NoFault"] r k by (auto simp: fork_def mem_new_def)
  have names: "entry_step_name row_a = Some ''a''" "entry_step_name row_b = Some ''b''"
    by (simp_all add: row_a_def row_b_def entry_defs)
  from fork_diff[OF r k _ t] t show ?thesis unfolding rows by (simp add: names upt_rec)
qed

end
