(* ===== verification/Resource_Budget.thy ===== *)
theory Resource_Budget
  imports Action_Base
begin

section \<open>Resource budgets and leases\<close>

text \<open>
  Models \<^verbatim>\<open>crates/familyclaw-actions/src/resource_budget.rs\<close>. The counters are shared behind a
  mutex, so every operation is one transformer of them; a lease is released explicitly or when it is
  dropped, which the language does on every way out of its scope, panics included. The section at the
  end runs any number of leases over one budget.
\<close>

record budget_limits =
  bl_max_concurrent :: "nat option"
  bl_per_skill :: "nat option"
  bl_max_queue_len :: "nat option"

definition unbounded :: budget_limits where
  "unbounded = \<lparr>bl_max_concurrent = None, bl_per_skill = None, bl_max_queue_len = None\<rparr>"

record budget_state =
  bs_total :: nat
  bs_per_skill :: "(skill_id, nat) hashmap"

definition budget_default :: budget_state where
  "budget_default = \<lparr>bs_total = 0, bs_per_skill = []\<rparr>"

record resource_lease =
  le_skill :: skill_id
  le_released :: bool

datatype acquire_outcome = Granted resource_lease | Unavailable string

definition active_count :: "budget_state \<Rightarrow> nat" where
  "active_count s = bs_total s"

definition active_for_skill :: "budget_state \<Rightarrow> skill_id \<Rightarrow> nat" where
  "active_for_skill s i = (case hm_get (bs_per_skill s) i of None \<Rightarrow> 0 | Some n \<Rightarrow> n)"

definition reached :: "nat option \<Rightarrow> nat \<Rightarrow> bool" where
  "reached cap n \<longleftrightarrow> (case cap of None \<Rightarrow> False | Some m \<Rightarrow> m \<le> n)"

definition exhausted :: "string \<Rightarrow> nat \<Rightarrow> nat option \<Rightarrow> acquire_outcome" where
  "exhausted what n cap =
     Unavailable (what @ '' budget exhausted ('' @ show_nat n @ ''/'' @
       (case cap of None \<Rightarrow> [] | Some m \<Rightarrow> show_nat m) @ '')'')"

definition try_acquire ::
  "budget_limits \<Rightarrow> skill_id \<Rightarrow> nat \<Rightarrow> budget_state \<Rightarrow> acquire_outcome \<times> budget_state" where
  "try_acquire L i queue_len s =
     (if reached (bl_max_queue_len L) queue_len then (exhausted ''queue_length'' queue_len (bl_max_queue_len L), s)
      else if reached (bl_max_concurrent L) (bs_total s)
        then (exhausted ''max_concurrent'' (bs_total s) (bl_max_concurrent L), s)
      else if reached (bl_per_skill L) (active_for_skill s i)
        then (exhausted ''per_skill_concurrency'' (active_for_skill s i) (bl_per_skill L), s)
      else (Granted \<lparr>le_skill = i, le_released = False\<rparr>,
            \<lparr>bs_total = bs_total s + 1,
             bs_per_skill = hm_insert i (active_for_skill s i + 1) (bs_per_skill s)\<rparr>))"

definition lease_release :: "resource_lease \<Rightarrow> budget_state \<Rightarrow> resource_lease \<times> budget_state" where
  "lease_release l s =
     (if le_released l then (l, s)
      else (l\<lparr>le_released := True\<rparr>,
            \<lparr>bs_total = bs_total s - 1,
             bs_per_skill =
               (case hm_get (bs_per_skill s) (le_skill l) of
                  None \<Rightarrow> bs_per_skill s
                | Some active \<Rightarrow>
                    (if active - 1 = 0 then hm_remove (le_skill l) (bs_per_skill s)
                     else hm_insert (le_skill l) (active - 1) (bs_per_skill s)))\<rparr>))"

definition lease_drop :: "resource_lease \<Rightarrow> budget_state \<Rightarrow> budget_state" where
  "lease_drop l s = snd (lease_release l s)"

subsection \<open>Any number of leases over one budget\<close>

text \<open>\<open>held\<close> are the leases that exist, in the order they were granted.\<close>

datatype budget_op =
    Acquire skill_id nat
  | Release nat
  | DropLease nat

fun budget_step :: "budget_limits \<Rightarrow> resource_lease list \<times> budget_state \<Rightarrow> budget_op \<Rightarrow> resource_lease list \<times> budget_state" where
  "budget_step L (held, s) (Acquire i q) =
     (case try_acquire L i q s of
        (Granted l, s') \<Rightarrow> (held @ [l], s')
      | (Unavailable _, s') \<Rightarrow> (held, s'))"
| "budget_step L (held, s) (Release n) =
     (if n < length held then case lease_release (held ! n) s of (l, s') \<Rightarrow> (held[n := l], s') else (held, s))"
| "budget_step L (held, s) (DropLease n) =
     (if n < length held then (take n held @ drop (Suc n) held, lease_drop (held ! n) s) else (held, s))"

definition budget_run :: "budget_limits \<Rightarrow> budget_op list \<Rightarrow> resource_lease list \<times> budget_state" where
  "budget_run L ops = foldl (budget_step L) ([], budget_default) ops"

abbreviation live :: "resource_lease list \<Rightarrow> resource_lease list" where
  "live held \<equiv> filter (\<lambda>l. \<not> le_released l) held"

definition live_of :: "skill_id \<Rightarrow> resource_lease list \<Rightarrow> nat" where
  "live_of i held = length (filter (\<lambda>l. le_skill l = i) (live held))"

definition budget_inv :: "budget_limits \<Rightarrow> resource_lease list \<times> budget_state \<Rightarrow> bool" where
  "budget_inv L x \<longleftrightarrow> (case x of (held, s) \<Rightarrow>
     bs_total s = length (live held) \<and> hm_ok (bs_per_skill s) \<and>
     (\<forall>i. hm_get (bs_per_skill s) i = (if live_of i held = 0 then None else Some (live_of i held))) \<and>
     (\<forall>m. bl_max_concurrent L = Some m \<longrightarrow> bs_total s \<le> m) \<and>
     (\<forall>m i. bl_per_skill L = Some m \<longrightarrow> live_of i held \<le> m))"

lemma live_of_append: "live_of i (xs @ ys) = live_of i xs + live_of i ys"
  by (simp add: live_of_def)

lemma live_of_Cons: "live_of i (l # ls) = (if \<not> le_released l \<and> le_skill l = i then 1 else 0) + live_of i ls"
  by (simp add: live_of_def)

lemma live_of_cong: "live zs = live held \<Longrightarrow> live_of i zs = live_of i held"
  unfolding live_of_def by (rule arg_cong)

lemma active_live: "budget_inv L (held, s) \<Longrightarrow> active_for_skill s i = live_of i held"
  by (simp add: budget_inv_def active_for_skill_def del: map_of_eq_Some_iff)

lemma budget_inv_acquire:
  assumes "budget_inv L (held, s)" "try_acquire L i q s = (Granted l, s')"
  shows "budget_inv L (held @ [l], s')"
proof -
  have room: "\<not> reached (bl_max_concurrent L) (bs_total s)" "\<not> reached (bl_per_skill L) (live_of i held)"
    "l = \<lparr>le_skill = i, le_released = False\<rparr>"
    "s' = \<lparr>bs_total = bs_total s + 1, bs_per_skill = hm_insert i (live_of i held + 1) (bs_per_skill s)\<rparr>"
    using assms(2) active_live[OF assms(1), of i] by (auto simp: try_acquire_def exhausted_def split: if_splits)
  have "live_of j (held @ [l]) = (if j = i then live_of i held + 1 else live_of j held)" for j
    by (simp add: live_of_append live_of_Cons room(3)) (simp add: live_of_def)
  then show ?thesis
    using assms(1) room by (auto simp: budget_inv_def reached_def simp del: map_of_eq_Some_iff)
qed

lemma budget_inv_released:
  assumes inv: "budget_inv L (xs @ l # ys, s)" and live: "\<not> le_released l"
    and zs: "live zs = live (xs @ ys)"
  shows "budget_inv L (zs, snd (lease_release l s))"
proof -
  have n: "live_of i zs = live_of i (xs @ ys)" for i by (simp add: live_of_def zs)
  have o1: "live_of i (xs @ l # ys) = (if i = le_skill l then Suc (live_of i zs) else live_of i zs)" for i
    using live by (simp add: n live_of_append live_of_Cons)
  have t: "length (live (xs @ l # ys)) = Suc (length (live zs))" using live by (simp add: zs)
  have get: "hm_get (bs_per_skill s) (le_skill l) = Some (Suc (live_of (le_skill l) zs))"
    using inv by (simp add: budget_inv_def o1 del: map_of_eq_Some_iff)
  have r: "snd (lease_release l s) = \<lparr>bs_total = bs_total s - 1, bs_per_skill =
      (if live_of (le_skill l) zs = 0 then hm_remove (le_skill l) (bs_per_skill s)
       else hm_insert (le_skill l) (live_of (le_skill l) zs) (bs_per_skill s))\<rparr>"
    using live get by (simp add: lease_release_def del: map_of_eq_Some_iff)
  have tot: "bs_total s - 1 = length (live zs)" and ok: "hm_ok (bs_per_skill s)"
    and look: "hm_get (bs_per_skill s) i = (if live_of i (xs @ l # ys) = 0 then None else Some (live_of i (xs @ l # ys)))"
    and cap: "bl_max_concurrent L = Some m \<Longrightarrow> bs_total s \<le> m"
    and percap: "bl_per_skill L = Some m \<Longrightarrow> live_of i (xs @ l # ys) \<le> m" for i m
    using inv t unfolding budget_inv_def by (simp_all del: map_of_eq_Some_iff filter_append)
  have percap': "bl_per_skill L = Some m \<Longrightarrow> live_of i zs \<le> m" for i m
    using percap[of m i] by (simp add: o1 split: if_splits)
  have cap': "bl_max_concurrent L = Some m \<Longrightarrow> bs_total s - 1 \<le> m" for m
    using cap[of m] by simp
  show ?thesis unfolding r budget_inv_def
    using tot ok look cap' percap' by (simp add: o1 del: map_of_eq_Some_iff)
qed

lemma budget_inv_unreleased:
  assumes "budget_inv L (held, s)" "live zs = live held"
  shows "budget_inv L (zs, s)"
  using assms(1) by (auto simp: budget_inv_def live_of_cong[OF assms(2)] assms(2) simp del: map_of_eq_Some_iff)

lemma budget_step_inv: "budget_inv L x \<Longrightarrow> budget_inv L (budget_step L x op)"
proof (cases x)
  case (Pair held s)
  assume inv: "budget_inv L x"
  show ?thesis
  proof (cases op)
    case (Acquire i q)
    obtain a s' where a: "try_acquire L i q s = (a, s')" by (rule prod.exhaust)
    show ?thesis
    proof (cases a)
      case (Granted l)
      from budget_inv_acquire[OF inv[unfolded Pair] a[unfolded Granted]] show ?thesis
        using Pair Acquire a Granted by simp
    next
      case (Unavailable why)
      then have "s' = s" using a by (auto simp: try_acquire_def split: if_splits)
      then show ?thesis using inv Pair Acquire a Unavailable by simp
    qed
  next
    case (Release n)
    show ?thesis
    proof (cases "n < length held")
      case True
      let ?l = "held ! n"
      note id = id_take_nth_drop[OF True]
      obtain l' s' where r: "lease_release ?l s = (l', s')" by (rule prod.exhaust)
      have upd: "held[n := l'] = take n held @ l' # drop (Suc n) held" by (rule upd_conv_take_nth_drop[OF True])
      show ?thesis
      proof (cases "le_released ?l")
        case True
        then have "l' = ?l" "s' = s" using r by (auto simp: lease_release_def)
        then show ?thesis using inv Pair Release r \<open>n < length held\<close> by simp
      next
        case False
        then have l': "le_released l'" using r by (auto simp: lease_release_def)
        have "budget_inv L (take n held @ ?l # drop (Suc n) held, s)" using inv Pair id by simp
        from budget_inv_released[OF this False, of "held[n := l']"] show ?thesis
          using Pair Release r \<open>n < length held\<close> l' by (simp add: upd)
      qed
    qed (use inv Pair Release in simp)
  next
    case (DropLease n)
    show ?thesis
    proof (cases "n < length held")
      case True
      let ?l = "held ! n" and ?zs = "take n held @ drop (Suc n) held"
      note id = id_take_nth_drop[OF True]
      have inv': "budget_inv L (take n held @ ?l # drop (Suc n) held, s)" using inv Pair id by simp
      show ?thesis
      proof (cases "le_released ?l")
        case True
        have "live ?zs = live held" by (subst (3) id) (simp add: True)
        from budget_inv_unreleased[OF inv[unfolded Pair] this] show ?thesis
          using Pair DropLease \<open>n < length held\<close> True by (simp add: lease_drop_def lease_release_def)
      next
        case False
        from budget_inv_released[OF inv' False, of ?zs] show ?thesis
          using Pair DropLease \<open>n < length held\<close> by (simp add: lease_drop_def)
      qed
    qed (use inv Pair DropLease in simp)
  qed
qed

lemma budget_run_inv: "budget_inv L (budget_run L ops)"
proof -
  have "budget_inv L x \<Longrightarrow> budget_inv L (foldl (budget_step L) x ops)" for x
    by (induction ops arbitrary: x) (simp_all add: budget_step_inv)
  moreover have "budget_inv L ([], budget_default)"
    by (simp add: budget_inv_def budget_default_def live_of_def)
  ultimately show ?thesis by (simp add: budget_run_def)
qed

text \<open>C40: over any sequence of acquisitions, explicit and repeated releases and drops, the budget counts
  exactly the leases that are granted and not yet released, in total and for every skill, and never
  more than the caps allow; when every lease is gone the counters are back at the start, so no
  capacity leaks.\<close>

theorem budget_counts_leases:
  "case budget_run L ops of (held, s) \<Rightarrow>
     active_count s = length (live held) \<and> (\<forall>i. active_for_skill s i = live_of i held) \<and>
     \<not> (\<exists>m. bl_max_concurrent L = Some m \<and> m < active_count s) \<and>
     \<not> (\<exists>m i. bl_per_skill L = Some m \<and> m < active_for_skill s i) \<and>
     (live held = [] \<longrightarrow> s = budget_default)"
proof -
  obtain held s where r: "budget_run L ops = (held, s)" by (rule prod.exhaust)
  then have inv: "budget_inv L (held, s)" using budget_run_inv[of L ops] by simp
  have "s = budget_default" if "live held = []"
  proof -
    have none: "hm_get (bs_per_skill s) i = None" for i
      using inv live_of_cong[of held "[]" i] that by (simp add: budget_inv_def live_of_def[of i "[]"])
    have "bs_per_skill s = []" using none[of "fst (hd (bs_per_skill s))"] by (cases "bs_per_skill s") auto
    then show ?thesis using inv that by (simp add: budget_inv_def budget_default_def)
  qed
  then show ?thesis
    using inv active_live[OF inv] r by (auto simp: budget_inv_def active_count_def not_less simp del: map_of_eq_Some_iff)
qed

theorem budget_counts_leases_witness:
  "snd (budget_run unbounded [Acquire 7 0, Acquire 8 0, Release 0, Release 0, DropLease 1]) = budget_default"
proof -
  let ?ops = "[Acquire 7 0, Acquire 8 0, Release 0, Release 0, DropLease 1]"
  obtain held s where r: "budget_run unbounded ?ops = (held, s)" by (rule prod.exhaust)
  then have "live held = []"
    by (auto simp: budget_run_def try_acquire_def lease_release_def lease_drop_def reached_def unbounded_def budget_default_def)
  then have "s = budget_default" using budget_counts_leases[of unbounded ?ops] unfolding r by simp
  then show ?thesis unfolding r by simp
qed

end
