(* ===== verification/Harness.thy ===== *)
theory Harness
  imports Rust_Std Entry
begin

section \<open>Dependability receipts\<close>

text \<open>
  Models \<^verbatim>\<open>crates/familyclaw-harness/src/lib.rs\<close>: evidence checks, the policy of required
  dimensions and the gate that turns checks and a policy into a receipt. The two ordered enums are
  instances of \<open>linorder\<close>, so that \<^verbatim>\<open>Iterator::max\<close> is \<open>Max\<close>; a \<^verbatim>\<open>BTreeMap\<close> is an
  association list in key order.
\<close>

datatype dependability_dimension =
    CtxDim            \<comment> \<open>Context\<close>
  | RetrievalDim | MemoryDim | ModelDim | ToolDim | ValidationDim | RecoveryDim | GovernanceDim
  | ObservabilityDim

fun dim_rank :: "dependability_dimension \<Rightarrow> nat" where
  "dim_rank CtxDim = 0"
| "dim_rank RetrievalDim = 1"
| "dim_rank MemoryDim = 2"
| "dim_rank ModelDim = 3"
| "dim_rank ToolDim = 4"
| "dim_rank ValidationDim = 5"
| "dim_rank RecoveryDim = 6"
| "dim_rank GovernanceDim = 7"
| "dim_rank ObservabilityDim = 8"

fun show_dimension :: "dependability_dimension \<Rightarrow> string" where
  "show_dimension CtxDim = ''Context''"
| "show_dimension RetrievalDim = ''Retrieval''"
| "show_dimension MemoryDim = ''Memory''"
| "show_dimension ModelDim = ''Model''"
| "show_dimension ToolDim = ''Tool''"
| "show_dimension ValidationDim = ''Validation''"
| "show_dimension RecoveryDim = ''Recovery''"
| "show_dimension GovernanceDim = ''Governance''"
| "show_dimension ObservabilityDim = ''Observability''"

lemma dim_rank_inj: "dim_rank a = dim_rank b \<Longrightarrow> a = b"
  by (cases a; cases b) simp_all

instantiation dependability_dimension :: linorder
begin

definition less_eq_dependability_dimension :: "dependability_dimension \<Rightarrow> dependability_dimension \<Rightarrow> bool" where
  "less_eq_dependability_dimension a b \<longleftrightarrow> dim_rank a \<le> dim_rank b"

definition less_dependability_dimension :: "dependability_dimension \<Rightarrow> dependability_dimension \<Rightarrow> bool" where
  "less_dependability_dimension a b \<longleftrightarrow> dim_rank a < dim_rank b"

instance
  by standard (auto simp: less_eq_dependability_dimension_def less_dependability_dimension_def intro: dim_rank_inj)

end

datatype evidence_strength = Claimed | Structural | Independent

fun strength_rank :: "evidence_strength \<Rightarrow> nat" where
  "strength_rank Claimed = 0"
| "strength_rank Structural = 1"
| "strength_rank Independent = 2"

fun show_strength :: "evidence_strength \<Rightarrow> string" where
  "show_strength Claimed = ''Claimed''"
| "show_strength Structural = ''Structural''"
| "show_strength Independent = ''Independent''"

instantiation evidence_strength :: linorder
begin

definition less_eq_evidence_strength :: "evidence_strength \<Rightarrow> evidence_strength \<Rightarrow> bool" where
  "less_eq_evidence_strength a b \<longleftrightarrow> strength_rank a \<le> strength_rank b"

definition less_evidence_strength :: "evidence_strength \<Rightarrow> evidence_strength \<Rightarrow> bool" where
  "less_evidence_strength a b \<longleftrightarrow> strength_rank a < strength_rank b"

instance
proof
  fix a b :: evidence_strength
  assume "a \<le> b" "b \<le> a"
  then show "a = b" by (cases a; cases b) (simp_all add: less_eq_evidence_strength_def)
qed (auto simp: less_eq_evidence_strength_def less_evidence_strength_def)

end

datatype evidence_state = EvPassed | EvFailed | EvNotApplicable

record evidence_check =
  ec_dimension :: dependability_dimension
  ec_strength :: "evidence_strength option"
  ec_name :: string
  ec_summary :: string
  ec_state :: evidence_state
  ec_refs :: "string list"

definition check_passed :: "dependability_dimension \<Rightarrow> evidence_strength \<Rightarrow> string \<Rightarrow> string \<Rightarrow> evidence_check" where
  "check_passed d s name summary =
     \<lparr>ec_dimension = d, ec_strength = Some s, ec_name = name, ec_summary = summary, ec_state = EvPassed, ec_refs = []\<rparr>"

definition check_failed :: "dependability_dimension \<Rightarrow> evidence_strength \<Rightarrow> string \<Rightarrow> string \<Rightarrow> evidence_check" where
  "check_failed d s name summary =
     \<lparr>ec_dimension = d, ec_strength = Some s, ec_name = name, ec_summary = summary, ec_state = EvFailed, ec_refs = []\<rparr>"

definition not_applicable :: "dependability_dimension \<Rightarrow> string \<Rightarrow> string \<Rightarrow> evidence_check" where
  "not_applicable d name summary =
     \<lparr>ec_dimension = d, ec_strength = None, ec_name = name, ec_summary = summary, ec_state = EvNotApplicable, ec_refs = []\<rparr>"

definition with_evidence_ref :: "string \<Rightarrow> evidence_check \<Rightarrow> evidence_check" where
  "with_evidence_ref r c = c\<lparr>ec_refs := ec_refs c @ [r]\<rparr>"

text \<open>\<^verbatim>\<open>BTreeMap::insert\<close>.\<close>

fun bt_insert :: "'k::linorder \<Rightarrow> 'v \<Rightarrow> ('k \<times> 'v) list \<Rightarrow> ('k \<times> 'v) list" where
  "bt_insert k v [] = [(k, v)]"
| "bt_insert k v ((k', v') # m) =
     (if k < k' then (k, v) # (k', v') # m
      else if k = k' then (k, v) # m
      else (k', v') # bt_insert k v m)"

type_synonym dependability_policy = "(dependability_dimension \<times> evidence_strength) list"

definition policy_new :: dependability_policy where
  "policy_new = []"

definition policy_require :: "dependability_dimension \<Rightarrow> evidence_strength \<Rightarrow> dependability_policy \<Rightarrow> dependability_policy" where
  "policy_require d minimum P = bt_insert d minimum P"

lemma map_of_bt_insert: "sorted_wrt (\<lambda>a b. fst a < fst b) m \<Longrightarrow> map_of (bt_insert k v m) = (map_of m)(k \<mapsto> v)"
  by (induction k v m rule: bt_insert.induct) (auto simp: fun_eq_iff)

lemma set_bt_insert: "set (bt_insert k v m) \<subseteq> insert (k, v) (set m)"
  by (induction k v m rule: bt_insert.induct) auto

lemma sorted_bt_insert:
  "sorted_wrt (\<lambda>a b. fst a < fst b) m \<Longrightarrow> sorted_wrt (\<lambda>a b. fst a < fst b) (bt_insert k v m)"
proof (induction k v m rule: bt_insert.induct)
  case (2 k v k' v' m)
  then have "\<forall>x \<in> set (bt_insert k v m). k' < fst x" if "k' < k"
    using set_bt_insert[of k v m] that by fastforce
  with 2 show ?case by auto
qed simp

datatype failure_code = InvalidIdentity | MissingDimension | InsufficientEvidence | FailedCheck

record gate_failure =
  gf_code :: failure_code
  gf_dimension :: "dependability_dimension option"
  gf_check :: "string option"
  gf_summary :: string

datatype gate_status = GatePassed | GateBlocked

record receipt =
  rc_schema :: nat
  rc_subject :: string
  rc_trace :: string
  rc_generated :: timestamp
  rc_status :: gate_status
  rc_checks :: "evidence_check list"
  rc_failures :: "gate_failure list"

definition RECEIPT_SCHEMA_VERSION :: nat where
  "RECEIPT_SCHEMA_VERSION = 1"

definition identity_failures :: "string \<Rightarrow> string \<Rightarrow> gate_failure list" where
  "identity_failures field v =
     (if str_blank v then
        [\<lparr>gf_code = InvalidIdentity, gf_dimension = None, gf_check = Some field,
          gf_summary = ''receipt '' @ field @ '' must not be empty''\<rparr>]
      else [])"

definition failed_failures :: "evidence_check list \<Rightarrow> gate_failure list" where
  "failed_failures checks =
     map (\<lambda>c. \<lparr>gf_code = FailedCheck, gf_dimension = Some (ec_dimension c), gf_check = Some (ec_name c),
               gf_summary = ec_summary c\<rparr>)
       (filter (\<lambda>c. ec_state c = EvFailed) checks)"

definition strongest :: "dependability_dimension \<Rightarrow> evidence_check list \<Rightarrow> evidence_strength option" where
  "strongest d checks =
     (let ss = List.map_filter ec_strength (filter (\<lambda>c. ec_dimension c = d \<and> ec_state c = EvPassed) checks)
      in if ss = [] then None else Some (Max (set ss)))"

definition requirement_failures ::
  "evidence_check list \<Rightarrow> dependability_dimension \<times> evidence_strength \<Rightarrow> gate_failure list" where
  "requirement_failures checks = (\<lambda>(d, minimum).
     (case strongest d checks of
        None \<Rightarrow> [\<lparr>gf_code = MissingDimension, gf_dimension = Some d, gf_check = None,
                  gf_summary = ''required '' @ show_dimension d @ '' evidence is missing''\<rparr>]
      | Some actual \<Rightarrow>
          (if actual < minimum then
             [\<lparr>gf_code = InsufficientEvidence, gf_dimension = Some d, gf_check = None,
               gf_summary = ''required '' @ show_dimension d @ '' evidence strength is '' @ show_strength minimum @
                 '', strongest is '' @ show_strength actual\<rparr>]
           else [])))"

definition evaluate ::
  "string \<Rightarrow> string \<Rightarrow> timestamp \<Rightarrow> evidence_check list \<Rightarrow> dependability_policy \<Rightarrow> receipt" where
  "evaluate subject trace at checks P =
     (let failures = identity_failures ''subject_id'' subject @ identity_failures ''trace_id'' trace @
            failed_failures checks @ concat (map (requirement_failures checks) P)
      in \<lparr>rc_schema = RECEIPT_SCHEMA_VERSION, rc_subject = subject, rc_trace = trace, rc_generated = at,
          rc_status = (if failures = [] then GatePassed else GateBlocked),
          rc_checks = checks, rc_failures = failures\<rparr>)"

definition proves :: "evidence_check list \<Rightarrow> dependability_dimension \<Rightarrow> evidence_strength \<Rightarrow> bool" where
  "proves checks d minimum \<longleftrightarrow>
     (\<exists>c \<in> set checks. ec_dimension c = d \<and> ec_state c = EvPassed \<and>
        (case ec_strength c of None \<Rightarrow> False | Some s \<Rightarrow> minimum \<le> s))"

lemma strongest_iff:
  "requirement_failures checks (d, minimum) = [] \<longleftrightarrow> proves checks d minimum"
proof -
  let ?ss = "List.map_filter ec_strength (filter (\<lambda>c. ec_dimension c = d \<and> ec_state c = EvPassed) checks)"
  have ss: "s \<in> set ?ss \<longleftrightarrow> (\<exists>c \<in> set checks. ec_dimension c = d \<and> ec_state c = EvPassed \<and> ec_strength c = Some s)" for s
    by (force simp: List.map_filter_def)
  have "requirement_failures checks (d, minimum) = [] \<longleftrightarrow> (\<exists>s \<in> set ?ss. minimum \<le> s)"
    by (cases "?ss = []") (auto simp: requirement_failures_def strongest_def Let_def Max_ge_iff not_less)
  also have "\<dots> \<longleftrightarrow> proves checks d minimum"
    unfolding Bex_def ss proves_def by (fastforce split: option.splits)
  finally show ?thesis .
qed

lemma identity_failures_empty [simp]: "identity_failures f v = [] \<longleftrightarrow> \<not> str_blank v"
  by (simp add: identity_failures_def)

lemma failed_failures_empty [simp]: "failed_failures checks = [] \<longleftrightarrow> (\<forall>c \<in> set checks. ec_state c \<noteq> EvFailed)"
  by (simp add: failed_failures_def filter_empty_conv)

lemma evaluate_failures:
  "rc_failures (evaluate u v at checks P) = [] \<longleftrightarrow>
     \<not> str_blank u \<and> \<not> str_blank v \<and> (\<forall>c \<in> set checks. ec_state c \<noteq> EvFailed) \<and>
     (\<forall>(d, m) \<in> set P. proves checks d m)"
  by (auto simp: evaluate_def Let_def strongest_iff[symmetric])

lemma evaluate_status: "rc_status (evaluate u v at checks P) = GatePassed \<longleftrightarrow> rc_failures (evaluate u v at checks P) = []"
  by (simp add: evaluate_def Let_def)

lemma evaluate_keeps:
  "rc_checks (evaluate u v at checks P) = checks" "rc_subject (evaluate u v at checks P) = u"
  by (simp_all add: evaluate_def Let_def)

text \<open>The policies that can be built.\<close>

definition policy_of :: "(dependability_dimension \<times> evidence_strength) list \<Rightarrow> dependability_policy" where
  "policy_of rs = foldl (\<lambda>P (d, m). policy_require d m P) policy_new rs"

lemma policy_of_snoc: "policy_of (rs @ [(d, m)]) = policy_require d m (policy_of rs)"
  by (simp add: policy_of_def)

lemma policy_of_map:
  "sorted_wrt (\<lambda>a b. fst a < fst b) (policy_of rs) \<and> map_of (policy_of rs) = map_of (rev rs)"
proof (induction rs rule: rev_induct)
  case (snoc r rs)
  then show ?case
    by (cases r) (auto simp: policy_of_snoc policy_require_def map_of_bt_insert sorted_bt_insert)
qed (simp add: policy_of_def policy_new_def)

lemma policy_of_set: "(d, m) \<in> set (policy_of rs) \<longleftrightarrow> map_of (rev rs) d = Some m"
proof -
  have "distinct (map fst (policy_of rs))"
    using policy_of_map[of rs] strict_sorted_iff[of "map fst (policy_of rs)"] by (simp add: sorted_wrt_map)
  then show ?thesis using policy_of_map[of rs] by (metis map_of_eq_Some_iff)
qed

text \<open>The gate is exact. For a policy built by any sequence of requirements, in which a later
  requirement of a dimension replaces an earlier one, a receipt passes exactly when both identifiers
  are not blank, no check failed, and every required dimension has a passed check at least as strong
  as required; what is blocked always carries a reason.\<close>

theorem gate_exact:
  "(rc_status (evaluate subject trace at checks (policy_of rs)) = GatePassed \<longleftrightarrow>
      \<not> str_blank subject \<and> \<not> str_blank trace \<and> \<not> (\<exists>c \<in> set checks. ec_state c = EvFailed) \<and>
      \<not> (\<exists>d m. map_of (rev rs) d = Some m \<and> \<not> proves checks d m)) \<and>
   (rc_status (evaluate subject trace at checks (policy_of rs)) = GateBlocked \<longleftrightarrow>
      rc_failures (evaluate subject trace at checks (policy_of rs)) \<noteq> [])"
proof
  have "(\<forall>(d, m) \<in> set (policy_of rs). proves checks d m) \<longleftrightarrow>
      \<not> (\<exists>d m. map_of (rev rs) d = Some m \<and> \<not> proves checks d m)"
    by (auto simp: policy_of_set)
  then show "rc_status (evaluate subject trace at checks (policy_of rs)) = GatePassed \<longleftrightarrow>
      \<not> str_blank subject \<and> \<not> str_blank trace \<and> \<not> (\<exists>c \<in> set checks. ec_state c = EvFailed) \<and>
      \<not> (\<exists>d m. map_of (rev rs) d = Some m \<and> \<not> proves checks d m)"
    unfolding evaluate_status evaluate_failures by blast
  show "rc_status (evaluate subject trace at checks (policy_of rs)) = GateBlocked \<longleftrightarrow>
      rc_failures (evaluate subject trace at checks (policy_of rs)) \<noteq> []"
    by (simp add: evaluate_def Let_def)
qed

end
