(* ===== verification/Dependability.thy ===== *)
theory Dependability
  imports Harness Pipeline
begin

section \<open>The dependability gate of an action\<close>

text \<open>
  Models \<^verbatim>\<open>crates/familyclaw-actions/src/dependability.rs\<close>: the two policies and the evidence that
  an outcome of the pipeline yields.
\<close>

definition read_only_action_policy :: dependability_policy where
  "read_only_action_policy =
     policy_require ObservabilityDim Structural (policy_require ValidationDim Claimed
       (policy_require ToolDim Structural policy_new))"

definition critical_action_policy :: dependability_policy where
  "critical_action_policy =
     policy_require ObservabilityDim Structural (policy_require RecoveryDim Structural
       (policy_require GovernanceDim Structural (policy_require ValidationDim Independent
         (policy_require ToolDim Structural policy_new))))"

definition governance_checks :: "pipeline_outcome \<Rightarrow> evidence_check list" where
  "governance_checks po =
     (if po_awaiting po \<or> po_status po = NeedsApproval then
        [check_passed GovernanceDim Structural ''policy_paused_for_approval''
           ''policy prevented execution until human approval'']
      else [])"

definition identity_matches :: "pipeline_outcome \<Rightarrow> proof_bundle \<Rightarrow> bool" where
  "identity_matches po b \<longleftrightarrow>
     pb_task b = po_task po \<and> pb_action b = po_action po \<and> pb_status b = Succeeded \<and> po_status po = TaskDone"

definition tool_check :: "pipeline_outcome \<Rightarrow> proof_bundle \<Rightarrow> evidence_check" where
  "tool_check po b =
     (if identity_matches po b
      then check_passed ToolDim Structural ''pipeline_completion_contract''
             ''task/action identifiers and successful terminal states agree''
      else check_failed ToolDim Structural ''pipeline_completion_contract''
             ''proof identity or terminal state does not match the pipeline outcome'')"

definition validation_check :: "proof_bundle \<Rightarrow> evidence_check" where
  "validation_check b =
     (if vr_verified (pb_verification b)
      then check_passed ValidationDim Claimed ''executor_status_verification''
             ''executor success status passed the current pipeline verification''
      else check_failed ValidationDim Claimed ''executor_status_verification''
             ''current pipeline verification failed'')"

definition audit_check :: "ext \<Rightarrow> proof_bundle \<Rightarrow> evidence_check" where
  "audit_check X b =
     (if pb_audit b = []
      then check_failed ObservabilityDim Structural ''action_audit_correlation''
             ''proof bundle has no correlated audit events''
      else foldl (\<lambda>c i. with_evidence_ref (''audit:'' @ show_uuid X i) c)
             (check_passed ObservabilityDim Structural ''action_audit_correlation''
                ''proof bundle references correlated action audit events'')
             (pb_audit b))"

definition proof_checks :: "ext \<Rightarrow> pipeline_outcome \<Rightarrow> evidence_check list" where
  "proof_checks X po =
     (case po_proof po of
        None \<Rightarrow> [check_failed ToolDim Structural ''proof_bundle_missing'' ''action outcome has no proof bundle'']
      | Some b \<Rightarrow>
          (let proof_ref = ''proof:'' @ show_uuid X (pb_id b)
           in [with_evidence_ref proof_ref (tool_check po b), with_evidence_ref proof_ref (validation_check b),
               audit_check X b]))"

definition action_dependability_receipt ::
  "ext \<Rightarrow> pipeline_outcome \<Rightarrow> string \<Rightarrow> timestamp \<Rightarrow> dependability_policy \<Rightarrow> receipt" where
  "action_dependability_receipt X po trace at P =
     evaluate (show_uuid X (po_task po)) trace at (governance_checks po @ proof_checks X po) P"

lemma ref_fields [simp]:
  "ec_dimension (with_evidence_ref r c) = ec_dimension c"
  "ec_strength (with_evidence_ref r c) = ec_strength c"
  "ec_state (with_evidence_ref r c) = ec_state c"
  by (simp_all add: with_evidence_ref_def)

lemma refs_fields [simp]:
  "ec_dimension (foldl (\<lambda>c i. with_evidence_ref (f i) c) c is) = ec_dimension c"
  "ec_strength (foldl (\<lambda>c i. with_evidence_ref (f i) c) c is) = ec_strength c"
  "ec_state (foldl (\<lambda>c i. with_evidence_ref (f i) c) c is) = ec_state c"
  by (induction "is" arbitrary: c) simp_all

lemmas check_defs = governance_checks_def proof_checks_def tool_check_def validation_check_def audit_check_def
  check_passed_def check_failed_def Let_def

lemma no_independent: "\<not> proves (governance_checks po @ proof_checks X po) ValidationDim Independent"
  by (auto simp: proves_def check_defs less_eq_evidence_strength_def split: option.splits if_splits)

lemma critical_set: "(ValidationDim, Independent) \<in> set critical_action_policy"
  by (simp add: critical_action_policy_def policy_require_def policy_new_def less_dependability_dimension_def)

lemma read_only_set:
  "set read_only_action_policy = {(ToolDim, Structural), (ValidationDim, Claimed), (ObservabilityDim, Structural)}"
  by (auto simp: read_only_action_policy_def policy_require_def policy_new_def less_dependability_dimension_def)

definition fully_proved :: "pipeline_outcome \<Rightarrow> bool" where
  "fully_proved po \<longleftrightarrow>
     (case po_proof po of None \<Rightarrow> False
      | Some b \<Rightarrow> identity_matches po b \<and> vr_verified (pb_verification b) \<and> pb_audit b \<noteq> [])"

lemma proved_checks:
  "(\<forall>c \<in> set (governance_checks po @ proof_checks X po). ec_state c \<noteq> EvFailed) \<longleftrightarrow> fully_proved po"
  by (auto simp: fully_proved_def check_defs split: option.splits if_splits)

lemma proved_requirements:
  "fully_proved po \<Longrightarrow> \<forall>(d, m) \<in> set read_only_action_policy. proves (governance_checks po @ proof_checks X po) d m"
  by (auto simp: read_only_set fully_proved_def proves_def check_defs less_eq_evidence_strength_def
      split: option.splits if_splits)

text \<open>The read-only gate passes exactly for a finished task whose proof bundle belongs to that task
  and that action, records success, is verified and names audit events; and nothing the pipeline can
  report passes the critical gate, which wants independent validation: the executor's word is never
  enough.\<close>

theorem action_gate_exact:
  "(rc_status (action_dependability_receipt X po trace at read_only_action_policy) = GatePassed \<longleftrightarrow>
      \<not> str_blank (show_uuid X (po_task po)) \<and> \<not> str_blank trace \<and>
      (case po_proof po of None \<Rightarrow> False
       | Some b \<Rightarrow> pb_task b = po_task po \<and> pb_action b = po_action po \<and> pb_status b = Succeeded \<and>
           po_status po = TaskDone \<and> vr_verified (pb_verification b) \<and> pb_audit b \<noteq> [])) \<and>
   rc_status (action_dependability_receipt X po trace at critical_action_policy) = GateBlocked"
proof
  show "rc_status (action_dependability_receipt X po trace at read_only_action_policy) = GatePassed \<longleftrightarrow>
      \<not> str_blank (show_uuid X (po_task po)) \<and> \<not> str_blank trace \<and>
      (case po_proof po of None \<Rightarrow> False
       | Some b \<Rightarrow> pb_task b = po_task po \<and> pb_action b = po_action po \<and> pb_status b = Succeeded \<and>
           po_status po = TaskDone \<and> vr_verified (pb_verification b) \<and> pb_audit b \<noteq> [])"
    unfolding action_dependability_receipt_def evaluate_status evaluate_failures proved_checks
    using proved_requirements[of po X] by (auto simp: fully_proved_def identity_matches_def split: option.splits)
  have "rc_failures (action_dependability_receipt X po trace at critical_action_policy) \<noteq> []"
    unfolding action_dependability_receipt_def evaluate_failures using no_independent[of po X] critical_set by blast
  then show "rc_status (action_dependability_receipt X po trace at critical_action_policy) = GateBlocked"
    by (simp add: action_dependability_receipt_def evaluate_def Let_def)
qed

end
