(* ===== verification/Symlink_Fs.thy ===== *)
theory Symlink_Fs
  imports Rust_Std Journal "HOL-Library.Sublist"
begin

section \<open>A file system with directories and symbolic links\<close>

text \<open>
  What the file skills use of \<^verbatim>\<open>std::fs\<close> and \<^verbatim>\<open>std::path\<close> on a POSIX host: \<^verbatim>\<open>Path::components\<close> and
  \<^verbatim>\<open>Path::parent\<close>, \<^verbatim>\<open>canonicalize\<close>, \<^verbatim>\<open>create_dir_all\<close>, \<^verbatim>\<open>read\<close>, \<^verbatim>\<open>write\<close> and appending. A node is
  addressed by the list of names from the root, so a canonical path is such a list. Resolving a path
  follows at most 40 links (the limit of the host), which is the fuel of \<open>walk\<close>. Limits on the length
  of names and hard links are not modelled; no other process changes the tree during a call.
\<close>

type_synonym names = "string list"

datatype fs_node = FileN string | DirN | LinkN string

datatype io_kind =
    IoNotFound | IoNotADirectory | IoIsADirectory | IoLoop | IoPermission | IoExists | IoInvalidInput
  | IoOther string

fun show_io :: "io_kind \<Rightarrow> string" where
  "show_io IoNotFound = ''No such file or directory (os error 2)''"
| "show_io IoNotADirectory = ''Not a directory (os error 20)''"
| "show_io IoIsADirectory = ''Is a directory (os error 21)''"
| "show_io IoLoop = ''Too many levels of symbolic links (os error 40)''"
| "show_io IoPermission = ''Permission denied (os error 13)''"
| "show_io IoExists = ''File exists (os error 17)''"
| "show_io IoInvalidInput = ''file name contained an unexpected NUL byte''"
| "show_io (IoOther m) = m"

record host =
  h_tree :: "(names, fs_node) hashmap"
  h_cwd :: names
  h_blocked :: "names list"   \<comment> \<open>directories the process may not search\<close>

definition node :: "host \<Rightarrow> names \<Rightarrow> fs_node option" where
  "node h p = hm_get (h_tree h) p"

definition set_node :: "names \<Rightarrow> fs_node \<Rightarrow> host \<Rightarrow> host" where
  "set_node p n h = h\<lparr>h_tree := hm_insert p n (h_tree h)\<rparr>"

lemma node_set_node [simp]: "node (set_node p n h) q = (if q = p then Some n else node h q)"
  by (simp add: node_def set_node_def)

lemma blocked_set_node [simp]: "h_blocked (set_node p n h) = h_blocked h" "h_cwd (set_node p n h) = h_cwd h"
  by (simp_all add: set_node_def)

subsection \<open>Resolving paths\<close>

definition absolute :: "string \<Rightarrow> bool" where
  "absolute p \<longleftrightarrow> starts_with ''/'' p"

definition segments :: "string \<Rightarrow> string list" where
  "segments p = split_on (\<lambda>c. c = CHR ''/'') p"

definition normal_name :: "string \<Rightarrow> bool" where
  "normal_name s \<longleftrightarrow> s \<noteq> [] \<and> s \<noteq> ''.'' \<and> s \<noteq> ''..''"

text \<open>Where a path leads: to a node, to a free name in an existing directory, or to an error.\<close>

datatype walked = Reached names | Absent names | Stuck io_kind

function walk :: "host \<Rightarrow> nat \<Rightarrow> names \<Rightarrow> string list \<Rightarrow> walked" where
  "walk h n cur [] = Reached cur"
| "walk h n cur (s # ss) =
     (case node h cur of
        None \<Rightarrow> Stuck IoNotFound
      | Some (FileN _) \<Rightarrow> Stuck IoNotADirectory
      | Some (LinkN _) \<Rightarrow> Stuck IoNotADirectory
      | Some DirN \<Rightarrow>
          (if cur \<in> set (h_blocked h) then Stuck IoPermission
           else if s = [] \<or> s = ''.'' then walk h n cur ss
           else if s = ''..'' then walk h n (butlast cur) ss
           else (case node h (cur @ [s]) of
                   None \<Rightarrow> (if ss = [] then Absent (cur @ [s]) else Stuck IoNotFound)
                 | Some (LinkN t) \<Rightarrow>
                     (if n = 0 then Stuck IoLoop
                      else walk h (n - 1) (if absolute t then [] else cur) (segments t @ ss))
                 | Some _ \<Rightarrow> walk h n (cur @ [s]) ss)))"
  by pat_completeness auto
termination
  by (relation "measures [\<lambda>(h, n, cur, ss). n, \<lambda>(h, n, cur, ss). length ss]") auto

definition MAX_LINKS :: nat where
  "MAX_LINKS = 40"

definition found :: "walked \<Rightarrow> io_kind + names" where
  "found w = (case w of Reached p \<Rightarrow> Inr p | Absent _ \<Rightarrow> Inl IoNotFound | Stuck e \<Rightarrow> Inl e)"

datatype component = RootDir | CurDir | ParentDir | Normal string

text \<open>\<^verbatim>\<open>Path::components\<close>: separators are merged and \<^verbatim>\<open>.\<close> stays only at the start.\<close>

definition components :: "string \<Rightarrow> component list" where
  "components p =
     (if absolute p then [RootDir] else if hd (segments p) = ''.'' then [CurDir] else []) @
     map (\<lambda>s. if s = ''..'' then ParentDir else Normal s) (filter (\<lambda>s. s \<noteq> [] \<and> s \<noteq> ''.'') (segments p))"

fun component_segment :: "component \<Rightarrow> string" where
  "component_segment RootDir = []"
| "component_segment CurDir = ''.''"
| "component_segment ParentDir = ''..''"
| "component_segment (Normal s) = s"

text \<open>\<^verbatim>\<open>std::fs::canonicalize\<close>, of a path as given and of the path that components make up.\<close>

definition canonicalize :: "host \<Rightarrow> string \<Rightarrow> io_kind + names" where
  "canonicalize h p =
     (if p = [] then Inl IoNotFound
      else if CHR 0x00 \<in> set p then Inl IoInvalidInput
      else found (walk h MAX_LINKS (if absolute p then [] else h_cwd h) (segments p)))"

definition canonicalize_components :: "host \<Rightarrow> component list \<Rightarrow> io_kind + names" where
  "canonicalize_components h cs =
     (if cs = [] then Inl IoNotFound
      else if CHR 0x00 \<in> set (concat (map component_segment cs)) then Inl IoInvalidInput
      else found (walk h MAX_LINKS (if hd cs = RootDir then [] else h_cwd h) (map component_segment cs)))"

text \<open>How a canonical path prints.\<close>

definition path_str :: "names \<Rightarrow> string" where
  "path_str p = (if p = [] then ''/'' else concat (map (\<lambda>s. CHR ''/'' # s) p))"

subsection \<open>Reading and writing\<close>

definition is_dir :: "host \<Rightarrow> names \<Rightarrow> bool" where
  "is_dir h p \<longleftrightarrow> (case walk h MAX_LINKS [] p of Reached q \<Rightarrow> node h q = Some DirN | _ \<Rightarrow> False)"

definition read_bytes :: "io_kind option \<Rightarrow> host \<Rightarrow> names \<Rightarrow> io_kind + string" where
  "read_bytes e h p =
     (case walk h MAX_LINKS [] p of
        Reached q \<Rightarrow> (case e of Some k \<Rightarrow> Inl k
                   | None \<Rightarrow> (case node h q of Some (FileN s) \<Rightarrow> Inr s | Some DirN \<Rightarrow> Inl IoIsADirectory | _ \<Rightarrow> Inl IoNotFound))
      | Absent _ \<Rightarrow> Inl IoNotFound
      | Stuck k \<Rightarrow> Inl k)"

text \<open>
  Opening with \<^verbatim>\<open>O_CREAT\<close> follows a link at the end of the path, also one that leads to a free name.
\<close>

definition open_target :: "host \<Rightarrow> names \<Rightarrow> io_kind + names" where
  "open_target h p =
     (case walk h MAX_LINKS [] p of
        Reached q \<Rightarrow> (case node h q of Some (FileN _) \<Rightarrow> Inr q | _ \<Rightarrow> Inl IoIsADirectory)
      | Absent q \<Rightarrow> Inr q
      | Stuck k \<Rightarrow> Inl k)"

definition file_text :: "host \<Rightarrow> names \<Rightarrow> string" where
  "file_text h p = (case node h p of Some (FileN s) \<Rightarrow> s | _ \<Rightarrow> [])"

text \<open>
  The fault of one write: none, a failing open, an error after so many bytes, the death of the process
  after so many bytes.
\<close>

datatype write_fault = WriteOk | OpenErr io_kind | WriteErr nat io_kind | WriteKill nat

definition write_from ::
  "string \<Rightarrow> write_fault \<Rightarrow> names \<Rightarrow> string \<Rightarrow> host \<Rightarrow> (io_kind + unit) outcome \<times> host" where
  "write_from old f q text h =
     (case f of
        WriteOk \<Rightarrow> (Done (Inr ()), set_node q (FileN (old @ text)) h)
      | OpenErr k \<Rightarrow> (Done (Inl k), h)
      | WriteErr n k \<Rightarrow> (Done (Inl k), set_node q (FileN (old @ take n text)) h)
      | WriteKill n \<Rightarrow> (Killed, set_node q (FileN (old @ take n text)) h))"

definition host_write :: "write_fault \<Rightarrow> names \<Rightarrow> string \<Rightarrow> host \<Rightarrow> (io_kind + unit) outcome \<times> host" where
  "host_write f p text h =
     (case open_target h p of Inl k \<Rightarrow> (Done (Inl k), h) | Inr q \<Rightarrow> write_from [] f q text h)"

definition host_append :: "write_fault \<Rightarrow> names \<Rightarrow> string \<Rightarrow> host \<Rightarrow> (io_kind + unit) outcome \<times> host" where
  "host_append f p text h =
     (case open_target h p of Inl k \<Rightarrow> (Done (Inl k), h) | Inr q \<Rightarrow> write_from (file_text h q) f q text h)"

text \<open>\<open>refuse\<close> gives the errors with which the host refuses to make a directory.\<close>

definition mkdir :: "(names \<Rightarrow> io_kind option) \<Rightarrow> names \<Rightarrow> host \<Rightarrow> (io_kind + unit) \<times> host" where
  "mkdir refuse p h =
     (if p = [] then (Inl IoExists, h)
      else case walk h MAX_LINKS [] (butlast p) of
             Reached d \<Rightarrow>
               (if node h d \<noteq> Some DirN then (Inl IoNotADirectory, h)
                else if d \<in> set (h_blocked h) then (Inl IoPermission, h)
                else if node h (d @ [last p]) \<noteq> None then (Inl IoExists, h)
                else case refuse (d @ [last p]) of
                       Some k \<Rightarrow> (Inl k, h)
                     | None \<Rightarrow> (Inr (), set_node (d @ [last p]) DirN h))
           | Absent _ \<Rightarrow> (Inl IoNotFound, h)
           | Stuck k \<Rightarrow> (Inl k, h))"

text \<open>\<^verbatim>\<open>create_dir_all\<close>, on the path of which \<open>rp\<close> is the reverse.\<close>

fun create_dirs :: "(names \<Rightarrow> io_kind option) \<Rightarrow> names \<Rightarrow> host \<Rightarrow> (io_kind + unit) \<times> host" where
  "create_dirs refuse [] h =
     (case mkdir refuse [] h of
        (Inr u, h') \<Rightarrow> (Inr u, h')
      | (Inl k, h') \<Rightarrow> (if is_dir h' [] then (Inr (), h') else (Inl k, h')))"
| "create_dirs refuse (s # rp) h =
     (let p = rev (s # rp) in
      case mkdir refuse p h of
        (Inr u, h') \<Rightarrow> (Inr u, h')
      | (Inl k, h') \<Rightarrow>
          (if k \<noteq> IoNotFound then (if is_dir h' p then (Inr (), h') else (Inl k, h'))
           else case create_dirs refuse rp h' of
                  (Inl k2, h2) \<Rightarrow> (Inl k2, h2)
                | (Inr _, h2) \<Rightarrow>
                    (case mkdir refuse p h2 of
                       (Inr u, h3) \<Rightarrow> (Inr u, h3)
                     | (Inl k3, h3) \<Rightarrow> (if is_dir h3 p then (Inr (), h3) else (Inl k3, h3)))))"

definition create_dir_all :: "(names \<Rightarrow> io_kind option) \<Rightarrow> names \<Rightarrow> host \<Rightarrow> (io_kind + unit) \<times> host" where
  "create_dir_all refuse p h = create_dirs refuse (rev p) h"

subsection \<open>Canonical paths\<close>

text \<open>What resolving yields is canonical: a node that is there, reached over directories only.\<close>

definition real :: "host \<Rightarrow> names \<Rightarrow> bool" where
  "real h p \<longleftrightarrow> (\<forall>q. strict_prefix q p \<longrightarrow> node h q = Some DirN) \<and> (\<forall>s \<in> set p. normal_name s) \<and>
     (case node h p of None \<Rightarrow> p = [] | Some (LinkN _) \<Rightarrow> p = [] | _ \<Rightarrow> True)"

lemma real_Nil [simp]: "real h []"
  by (simp add: real_def split: option.splits fs_node.splits)

lemma real_butlast: "real h p \<Longrightarrow> node h p = Some DirN \<Longrightarrow> real h (butlast p)"
proof (cases "p = []")
  case False
  assume r: "real h p"
  then have "strict_prefix (butlast p) p" using False
    by (metis append_butlast_last_id strict_prefix_def prefixeq_butlast append_self_conv not_Cons_self2)
  then have "node h (butlast p) = Some DirN" using r by (simp add: real_def)
  moreover have "strict_prefix q p" if "strict_prefix q (butlast p)" for q
    using that \<open>strict_prefix (butlast p) p\<close> by (rule prefix_order.less_trans)
  ultimately show ?thesis using r by (auto simp: real_def dest: in_set_butlastD)
qed simp

lemma real_snoc:
  assumes "real h p" "node h p = Some DirN" "normal_name s" "node h (p @ [s]) = Some n" "\<And>t. n \<noteq> LinkN t"
  shows "real h (p @ [s])"
proof -
  have "node h q = Some DirN" if "strict_prefix q (p @ [s])" for q
    using that assms(1,2) unfolding real_def
    by (metis prefix_snoc prefix_order.le_less strict_prefix_def)
  with assms show ?thesis by (auto simp: real_def split: fs_node.splits)
qed

lemma walk_real: "real h cur \<Longrightarrow> walk h n cur ss = Reached p \<Longrightarrow> real h p"
proof (induction h n cur ss rule: walk.induct)
  case (2 h n cur s ss)
  have dir: "node h cur = Some DirN" "cur \<notin> set (h_blocked h)"
    using "2.prems"(2) by (auto split: option.splits fs_node.splits if_splits)
  consider "s = [] \<or> s = ''.''" | "s = ''..''" | "normal_name s" by (auto simp: normal_name_def)
  then show ?case
  proof cases
    case 1
    then show ?thesis using 2(1) "2.prems" dir by auto
  next
    case 2
    then show ?thesis using "2.IH"(2) "2.prems" dir real_butlast[OF "2.prems"(1)] by simp
  next
    case 3
    then have s: "s \<noteq> []" "s \<noteq> ''.''" "s \<noteq> ''..''" by (auto simp: normal_name_def)
    show ?thesis
    proof (cases "node h (cur @ [s])")
      case None
      then show ?thesis using "2.prems"(2) dir s by (auto split: if_splits)
    next
      case (Some n')
      show ?thesis
      proof (cases n')
        case (FileN x)
        then show ?thesis
          using "2.IH"(3)[of DirN n' x] "2.prems" dir s Some real_snoc[OF "2.prems"(1) dir(1) 3 Some] by simp
      next
        case DirN
        then show ?thesis
          using "2.IH"(4)[of DirN n'] "2.prems" dir s Some real_snoc[OF "2.prems"(1) dir(1) 3 Some] by simp
      next
        case (LinkN t)
        then show ?thesis using "2.IH"(5)[of DirN n' t] "2.prems" dir s Some by (simp split: if_splits)
      qed
    qed
  qed
qed simp

subsection \<open>Paths without links\<close>

definition plain :: "host \<Rightarrow> names \<Rightarrow> bool" where
  "plain h p \<longleftrightarrow> (\<forall>q t. prefix q p \<longrightarrow> node h q \<noteq> Some (LinkN t)) \<and> (\<forall>s \<in> set p. normal_name s)"

text \<open>\<open>h'\<close> is \<open>h\<close> with some missing directories on the way to \<open>p\<close>.\<close>

definition grown :: "names \<Rightarrow> host \<Rightarrow> host \<Rightarrow> bool" where
  "grown p h h' \<longleftrightarrow> (\<forall>q. node h' q \<noteq> node h q \<longrightarrow> prefix q p \<and> node h q = None \<and> node h' q = Some DirN)"

lemma grown_refl [simp]: "grown p h h"
  by (simp add: grown_def)

lemma grown_trans: "grown p h h1 \<Longrightarrow> grown p h1 h2 \<Longrightarrow> grown p h h2"
  unfolding grown_def by metis

lemma grown_mono: "grown p h h' \<Longrightarrow> prefix p p' \<Longrightarrow> grown p' h h'"
  unfolding grown_def by (meson prefix_order.trans)

lemma plain_grown: "plain h p \<Longrightarrow> grown p' h h' \<Longrightarrow> plain h' p"
  unfolding plain_def grown_def by (metis fs_node.distinct(5) option.inject)

lemma plain_prefix: "plain h p \<Longrightarrow> prefix q p \<Longrightarrow> plain h q"
  unfolding plain_def by (meson prefix_order.trans set_mono_prefix subsetD)

lemma plain_real: "real h p \<Longrightarrow> node h p \<noteq> None \<Longrightarrow> p \<noteq> [] \<Longrightarrow> plain h p"
  unfolding real_def plain_def by (auto simp: prefix_order.le_less split: fs_node.splits)

lemma walk_plain:
  "plain h (cur @ ss) \<Longrightarrow>
     (case walk h n cur ss of Reached p \<Rightarrow> p = cur @ ss | Absent p \<Rightarrow> p = cur @ ss \<and> node h p = None | Stuck _ \<Rightarrow> True)"
proof (induction ss arbitrary: cur)
  case (Cons s ss)
  have "normal_name s" "node h (cur @ [s]) \<noteq> Some (LinkN t)" for t
    using Cons.prems by (auto simp: plain_def)
  moreover have "plain h ((cur @ [s]) @ ss)" using Cons.prems by simp
  ultimately show ?case using Cons.IH[of "cur @ [s]", simplified]
    by (auto simp: normal_name_def split: option.splits fs_node.splits walked.splits)
qed simp

lemma mkdir_plain:
  assumes "plain h p" "mkdir refuse p h = (r, h')"
  shows "grown p h h'"
proof (cases "p = []")
  case False
  have "plain h (butlast p)" using plain_prefix[OF assms(1)] by (simp add: prefixeq_butlast)
  from walk_plain[of h "[]" "butlast p" MAX_LINKS] this
  have d: "walk h MAX_LINKS [] (butlast p) = Reached d \<Longrightarrow> d @ [last p] = p" for d
    using False by simp
  show ?thesis
    using assms(2) False d by (auto simp: mkdir_def grown_def split: walked.splits if_splits option.splits)
qed (use assms in \<open>simp add: mkdir_def\<close>)

lemma create_dirs_plain:
  "plain h (rev rp) \<Longrightarrow> create_dirs refuse rp h = (r, h') \<Longrightarrow> grown (rev rp) h h'"
proof (induction rp arbitrary: h r h')
  case Nil
  then show ?case using mkdir_plain[of h "[]" refuse] by (auto split: prod.splits sum.splits if_splits)
next
  case (Cons s rp)
  let ?p = "rev (s # rp)"
  obtain r1 h1 where m1: "mkdir refuse ?p h = (r1, h1)" by (rule prod.exhaust)
  note g1 = mkdir_plain[OF Cons.prems(1) m1]
  obtain r2 h2 where c2: "create_dirs refuse rp h1 = (r2, h2)" by (rule prod.exhaust)
  have "plain h1 (rev rp)" using plain_grown[OF Cons.prems(1) g1] by (rule plain_prefix) simp
  from grown_mono[OF Cons.IH[OF this c2], of ?p] have g2: "grown ?p h1 h2" by simp
  obtain r3 h3 where m3: "mkdir refuse ?p h2 = (r3, h3)" by (rule prod.exhaust)
  note g3 = mkdir_plain[OF plain_grown[OF plain_grown[OF Cons.prems(1) g1] g2] m3]
  have "h' \<in> {h1, h2, h3}"
    using Cons.prems(2) m1 c2 m3 by (auto simp: Let_def split: sum.splits if_splits)
  then show ?case using g1 g2 g3 by (auto intro: grown_trans)
qed

lemma create_dir_all_plain: "plain h p \<Longrightarrow> create_dir_all refuse p h = (r, h') \<Longrightarrow> grown p h h'"
  using create_dirs_plain[of h "rev p"] by (simp add: create_dir_all_def)

lemma open_target_plain: "plain h p \<Longrightarrow> open_target h p = Inr q \<Longrightarrow> q = p"
  using walk_plain[of h "[]" p MAX_LINKS] by (auto simp: open_target_def split: walked.splits option.splits fs_node.splits)

lemma write_from_node:
  "write_from old f q text h = (r, h') \<Longrightarrow> node h' p \<noteq> node h p \<Longrightarrow> p = q"
  by (auto simp: write_from_def split: write_fault.splits if_splits)

lemma host_write_plain: "plain h p \<Longrightarrow> host_write f p text h = (r, h') \<Longrightarrow> node h' q \<noteq> node h q \<Longrightarrow> q = p"
  unfolding host_write_def
  by (cases "open_target h p") (auto dest: open_target_plain write_from_node)

lemma host_append_plain: "plain h p \<Longrightarrow> host_append f p text h = (r, h') \<Longrightarrow> node h' q \<noteq> node h q \<Longrightarrow> q = p"
  unfolding host_append_def
  by (cases "open_target h p") (auto dest: open_target_plain write_from_node)

end
