(* ===== verification/Idempotency.thy ===== *)
theory Idempotency
  imports Atomic_File Approval Sample_Codec "HOL-Library.Countable"
begin

section \<open>The idempotency store\<close>

text \<open>
  Models \<^verbatim>\<open>crates/familyclaw-actions/src/idempotency.rs\<close>: one JSON file per tool and key, replaced
  through a temporary file. \<^verbatim>\<open>serde_json\<close> is the record \<open>idem_codec\<close>; an \<open>idem_env\<close> holds the
  clock and the faults of one call. Environment variables are read by the caller of \<open>idem_store_new\<close>.
\<close>

definition DEFAULT_TTL_SECS :: nat where
  "DEFAULT_TTL_SECS = 7 * 24 * 3600"

definition IN_FLIGHT_WAIT_SECS :: nat where
  "IN_FLIGHT_WAIT_SECS = 30"

definition MAX_KEY_LEN :: nat where
  "MAX_KEY_LEN = 128"

datatype idem_state =
    InFlight
  | IdemCompleted  \<comment> \<open>Completed\<close>
  | IdemFailed     \<comment> \<open>Failed\<close>

record idem_record =
  ir_key :: string
  ir_tool :: string
  ir_state :: idem_state
  ir_created :: string
  ir_completed :: "string option"
  ir_ttl :: string
  ir_request :: json
  ir_response :: json
  ir_error :: "string option"

record idem_codec =
  ic_print :: "idem_record \<Rightarrow> string + string"  \<comment> \<open>serde_json::to_string\<close>
  ic_parse :: "string \<Rightarrow> string + idem_record"  \<comment> \<open>serde_json::from_str\<close>

record idem_env =
  ie_now :: nat                \<comment> \<open>seconds since the epoch\<close>
  ie_read :: "string option"   \<comment> \<open>a read error\<close>
  ie_remove :: "string option" \<comment> \<open>an error of removing a file\<close>
  ie_mkdir :: "string option"  \<comment> \<open>an error of creating the directory\<close>
  ie_swap :: swap_fault
  ie_io :: string              \<comment> \<open>how the error of \<open>ie_swap\<close> prints\<close>

definition path_join :: "path \<Rightarrow> path \<Rightarrow> path" where
  "path_join p q =
     (if starts_with ''/'' q then q
      else if p = [] \<or> List.last p = CHR ''/'' then p @ q
      else p @ CHR ''/'' # q)"

definition idem_store_new :: "path \<Rightarrow> path" where
  "idem_store_new data_dir = path_join data_dir ''idempotency''"

text \<open>\<^verbatim>\<open>str::split_once\<close>.\<close>

definition split_once :: "char \<Rightarrow> string \<Rightarrow> (string \<times> string) option" where
  "split_once c s = (if c \<in> set s then Some (takeWhile (\<lambda>x. x \<noteq> c) s, List.tl (dropWhile (\<lambda>x. x \<noteq> c) s)) else None)"

definition key_char :: "char \<Rightarrow> bool" where
  "key_char c \<longleftrightarrow> is_alnum c \<or> c \<in> set ''-_.:@''"

text \<open>\<^verbatim>\<open>{:?}\<close> of the first character: its bytes, quoted, control characters escaped.\<close>

definition hex_short :: "nat \<Rightarrow> string" where
  "hex_short n = (if n < 16 then [hex_digit n] else [hex_digit (n div 16), hex_digit (n mod 16)])"

definition debug_char :: "string \<Rightarrow> string" where
  "debug_char s =
     (case s of [] \<Rightarrow> []
      | c # r \<Rightarrow>
          [CHR 0x27] @
          (if c = CHR 0x27 \<or> c = CHR 0x5C then [CHR 0x5C, c]
           else if c = nl then [CHR 0x5C, CHR ''n'']
           else if c = cr then [CHR 0x5C, CHR ''r'']
           else if c = CHR 0x09 then [CHR 0x5C, CHR ''t'']
           else if c = CHR 0x00 then [CHR 0x5C, CHR ''0'']
           else if of_char c < (32::nat) \<or> of_char c = (127::nat)
             then [CHR 0x5C, CHR ''u'', CHR ''{''] @ hex_short (of_char c) @ ''}''
           else c # takeWhile (\<lambda>b. utf8_cont (of_char b)) r) @
          [CHR 0x27])"

definition normalize_key :: "string \<Rightarrow> action_error + string" where
  "normalize_key raw =
     (let trimmed = trim raw in
      if trimmed = [] then Inl (Proof ''idempotency_key must not be empty'')
      else if MAX_KEY_LEN < length trimmed
        then Inl (Proof (''idempotency_key too long (max '' @ show_nat MAX_KEY_LEN @ '')''))
      else case (case split_once (CHR '':'') trimmed of
                   Some (s, i) \<Rightarrow> (to_lower (trim s), trim i)
                 | None \<Rightarrow> (''default'', trimmed)) of
             (scope, i) \<Rightarrow>
               (if \<forall>c \<in> set i. key_char c then Inr (scope @ '':'' @ i)
                else Inl (Proof (''invalid character in idempotency_key stable-id: '' @
                            debug_char (dropWhile key_char i)))))"

definition record_path :: "ext \<Rightarrow> path \<Rightarrow> string \<Rightarrow> string \<Rightarrow> path" where
  "record_path X root tool key =
     (let hash = sha256_hex X key
      in path_join (path_join (path_join root tool) (take 2 hash)) (hash @ ''.json''))"

definition now_iso :: "nat \<Rightarrow> string" where
  "now_iso secs = show_nat secs @ ''Z''"

text \<open>\<^verbatim>\<open>trim_end_matches('Z')\<close>, then \<^verbatim>\<open>parse::<u64>().unwrap_or(0)\<close>.\<close>

definition iso_secs :: "string \<Rightarrow> nat" where
  "iso_secs t = (case parse_u64 (rev (dropWhile (\<lambda>c. c = CHR ''Z'') (rev t))) of None \<Rightarrow> 0 | Some n \<Rightarrow> n)"

text \<open>The addition is one of unsigned 64-bit numbers.\<close>

definition ttl_iso :: "string \<Rightarrow> nat \<Rightarrow> string" where
  "ttl_iso now ttl_secs = show_nat ((iso_secs now + ttl_secs) mod 2 ^ 64) @ ''Z''"

definition idem_expired :: "nat \<Rightarrow> string \<Rightarrow> bool" where
  "idem_expired now ttl \<longleftrightarrow> iso_secs ttl < now"

definition idem_lookup ::
  "ext \<Rightarrow> idem_codec \<Rightarrow> path \<Rightarrow> idem_env \<Rightarrow> string \<Rightarrow> string \<Rightarrow> fs \<Rightarrow> (action_error + idem_record option) \<times> fs" where
  "idem_lookup X I root v tool key d =
     (let p = record_path X root tool key in
      case d p of
        None \<Rightarrow> (Inr None, d)
      | Some raw \<Rightarrow>
          (case ie_read v of
             Some e \<Rightarrow> (Inl (ExecutionFailed (''idempotency read failed: '' @ e)), d)
           | None \<Rightarrow>
               (if \<not> utf8_valid raw
                then (Inl (ExecutionFailed ''idempotency read failed: stream did not contain valid UTF-8''), d)
                else case ic_parse I raw of
                       Inl e \<Rightarrow> (Inl (ExecutionFailed (''idempotency parse failed: '' @ e)), d)
                     | Inr r \<Rightarrow>
                         (if idem_expired (ie_now v) (ir_ttl r)
                          then (Inr None, if ie_remove v = None then d(p := None) else d)
                          else (Inr (Some r), d)))))"

definition idem_put ::
  "ext \<Rightarrow> idem_codec \<Rightarrow> path \<Rightarrow> idem_env \<Rightarrow> string \<Rightarrow> idem_record \<Rightarrow> fs \<Rightarrow> (action_error + unit) outcome \<times> fs" where
  "idem_put X I root v tool r d =
     (let p = record_path X root tool (ir_key r) in
      case ie_mkdir v of
        Some e \<Rightarrow> (Done (Inl (ExecutionFailed (''idempotency dir create failed: '' @ e))), d)
      | None \<Rightarrow>
          (case ic_print I r of
             Inl e \<Rightarrow> (Done (Inl (ExecutionFailed (''idempotency serialize failed: '' @ e))), d)
           | Inr text \<Rightarrow>
               (case replace_file (ie_swap v) (with_extension p ''json.tmp'') p text d of
                  (Done (Inl AtWrite), d') \<Rightarrow> (Done (Inl (ExecutionFailed (''idempotency write failed: '' @ ie_io v))), d')
                | (Done (Inl AtRename), d') \<Rightarrow> (Done (Inl (ExecutionFailed (''idempotency rename failed: '' @ ie_io v))), d')
                | (Done (Inr _), d') \<Rightarrow> (Done (Inr ()), d')
                | (Killed, d') \<Rightarrow> (Killed, d'))))"

definition complete_record :: "nat \<Rightarrow> string \<Rightarrow> string \<Rightarrow> json \<Rightarrow> json \<Rightarrow> nat \<Rightarrow> idem_record" where
  "complete_record secs tool key request response ttl_secs =
     \<lparr>ir_key = key, ir_tool = tool, ir_state = IdemCompleted, ir_created = now_iso secs,
      ir_completed = Some (now_iso secs), ir_ttl = ttl_iso (now_iso secs) ttl_secs,
      ir_request = request, ir_response = response, ir_error = None\<rparr>"

definition idem_complete ::
  "ext \<Rightarrow> idem_codec \<Rightarrow> path \<Rightarrow> idem_env \<Rightarrow> string \<Rightarrow> string \<Rightarrow> json \<Rightarrow> json \<Rightarrow> nat \<Rightarrow> fs \<Rightarrow>
   (action_error + unit) outcome \<times> fs" where
  "idem_complete X I root v tool key request response ttl_secs d =
     idem_put X I root v tool (complete_record (ie_now v) tool key request response ttl_secs) d"

definition idem_begin ::
  "ext \<Rightarrow> idem_codec \<Rightarrow> path \<Rightarrow> idem_env \<Rightarrow> string \<Rightarrow> string \<Rightarrow> json \<Rightarrow> nat \<Rightarrow> fs \<Rightarrow> (action_error + unit) outcome \<times> fs" where
  "idem_begin X I root v tool key request ttl_secs d =
     idem_put X I root v tool
       \<lparr>ir_key = key, ir_tool = tool, ir_state = InFlight, ir_created = now_iso (ie_now v), ir_completed = None,
        ir_ttl = ttl_iso (now_iso (ie_now v)) ttl_secs, ir_request = request, ir_response = JNull, ir_error = None\<rparr> d"

definition fail_record :: "nat \<Rightarrow> string \<Rightarrow> string \<Rightarrow> json \<Rightarrow> string \<Rightarrow> bool \<Rightarrow> nat \<Rightarrow> idem_record" where
  "fail_record secs tool key request error cacheable ttl_secs =
     \<lparr>ir_key = key, ir_tool = tool, ir_state = (if cacheable then IdemFailed else IdemCompleted),
      ir_created = now_iso secs, ir_completed = Some (now_iso secs), ir_ttl = ttl_iso (now_iso secs) ttl_secs,
      ir_request = request, ir_response = JNull, ir_error = Some error\<rparr>"

definition idem_fail ::
  "ext \<Rightarrow> idem_codec \<Rightarrow> path \<Rightarrow> idem_env \<Rightarrow> string \<Rightarrow> string \<Rightarrow> json \<Rightarrow> string \<Rightarrow> bool \<Rightarrow> nat \<Rightarrow> fs \<Rightarrow>
   (action_error + unit) outcome \<times> fs" where
  "idem_fail X I root v tool key request error cacheable ttl_secs d =
     idem_put X I root v tool (fail_record (ie_now v) tool key request error cacheable ttl_secs) d"

definition idem_delete ::
  "ext \<Rightarrow> path \<Rightarrow> idem_env \<Rightarrow> string \<Rightarrow> string \<Rightarrow> fs \<Rightarrow> (action_error + unit) \<times> fs" where
  "idem_delete X root v tool key d =
     (let p = record_path X root tool key in
      if d p = None then (Inr (), d)
      else case ie_remove v of
             Some e \<Rightarrow> (Inl (ExecutionFailed (''idempotency delete failed: '' @ e)), d)
           | None \<Rightarrow> (Inr (), d(p := None)))"

subsection \<open>Clock texts\<close>

lemma hd_rev_show_nat: "rev (show_nat n) = c # r \<Longrightarrow> is_digit c"
  using show_nat_digits[of c n] by (metis list.set_intros(1) set_rev)

lemma iso_secs_show [simp]: "n < 2 ^ 64 \<Longrightarrow> iso_secs (show_nat n @ ''Z'') = n"
proof -
  assume n: "n < 2 ^ 64"
  have "dropWhile (\<lambda>c. c = CHR ''Z'') (rev (show_nat n)) = rev (show_nat n)"
    using hd_rev_show_nat[of n] by (cases "rev (show_nat n)") (auto simp: is_digit_def)
  then show ?thesis using n by (simp add: iso_secs_def parse_u64_show_nat)
qed

lemma ttl_expired:
  assumes "secs + ttl < 2 ^ 64"
  shows "idem_expired now (ttl_iso (now_iso secs) ttl) \<longleftrightarrow> secs + ttl < now"
  using assms by (simp add: idem_expired_def ttl_iso_def now_iso_def)

subsection \<open>Looking up what was put\<close>

text \<open>What the store needs of the codec, and what a record must satisfy to be read back.\<close>

definition codec_reads_back :: "idem_codec \<Rightarrow> bool" where
  "codec_reads_back I \<longleftrightarrow> (\<forall>r text. ic_print I r = Inr text \<longrightarrow> utf8_valid text \<and> ic_parse I text = Inr r)"

lemma record_path_tmp: "with_extension (record_path X root tool key) e \<noteq> record_path X root tool key" if "e = ''json.tmp''"
proof
  assume "with_extension (record_path X root tool key) e = record_path X root tool key"
  then have "List.last (with_extension (record_path X root tool key) e) = List.last (record_path X root tool key)" by simp
  then show False using that by (simp add: with_extension_def record_path_def path_join_def Let_def starts_with_def split: if_splits)
qed

text \<open>The record that a lookup would find, if it is not expired.\<close>

definition stored :: "ext \<Rightarrow> idem_codec \<Rightarrow> path \<Rightarrow> string \<Rightarrow> string \<Rightarrow> fs \<Rightarrow> idem_record \<Rightarrow> bool" where
  "stored X I root tool key d r \<longleftrightarrow>
     (case d (record_path X root tool key) of None \<Rightarrow> False | Some raw \<Rightarrow> utf8_valid raw \<and> ic_parse I raw = Inr r)"

lemma lookup_stored:
  assumes "stored X I root tool key d r" "ie_read v = None" "\<not> idem_expired (ie_now v) (ir_ttl r)"
  shows "idem_lookup X I root v tool key d = (Inr (Some r), d)"
  using assms by (auto simp: stored_def idem_lookup_def Let_def split: option.splits)

lemma lookup_expired:
  assumes "stored X I root tool key d r" "ie_read v = None" "idem_expired (ie_now v) (ir_ttl r)"
  shows "fst (idem_lookup X I root v tool key d) = Inr None"
  using assms by (auto simp: stored_def idem_lookup_def Let_def split: option.splits)

lemma put_stored:
  assumes "codec_reads_back I" "idem_put X I root v tool r d = (Done (Inr ()), d')"
  shows "stored X I root tool (ir_key r) d' r"
proof -
  let ?p = "record_path X root tool (ir_key r)"
  obtain raw where t: "ic_print I r = Inr raw" and
    rf: "replace_file (ie_swap v) (with_extension ?p ''json.tmp'') ?p raw d = (Done (Inr ()), d')"
    using assms(2) by (auto simp: idem_put_def Let_def split: option.splits sum.splits prod.splits outcome.splits replace_step.splits)
  from replace_file_target(2)[OF record_path_tmp[OF refl] rf] have "d' ?p = Some raw" by simp
  then show ?thesis using assms(1) t by (auto simp: stored_def codec_reads_back_def)
qed

lemma put_keeps_or_replaces:
  assumes "codec_reads_back I" "idem_put X I root v tool r d = (res, d')"
  shows "d' (record_path X root tool (ir_key r)) = d (record_path X root tool (ir_key r)) \<or> stored X I root tool (ir_key r) d' r"
proof (cases "ie_mkdir v = None \<and> (\<exists>text. ic_print I r = Inr text)")
  case True
  then obtain raw where t: "ie_mkdir v = None" "ic_print I r = Inr raw" by blast
  let ?p = "record_path X root tool (ir_key r)"
  obtain x d2 where rf: "replace_file (ie_swap v) (with_extension ?p ''json.tmp'') ?p raw d = (x, d2)" by (rule prod.exhaust)
  have "d2 = d'" using assms(2) t rf by (auto simp: idem_put_def Let_def split: sum.splits outcome.splits replace_step.splits)
  with replace_file_target(1)[OF record_path_tmp[OF refl] rf] show ?thesis
    using assms(1) t by (auto simp: stored_def codec_reads_back_def)
next
  case False
  then show ?thesis using assms(2) by (auto simp: idem_put_def Let_def split: option.splits sum.splits)
qed

text \<open>A record that was put is found again until its time to live has passed, and not after it; if
  putting it fails or the process dies in it, the file of that key holds the old text or the whole
  new record, never a part of it.\<close>

theorem put_then_lookup:
  assumes "codec_reads_back I" and "secs + ttl < 2 ^ 64" and "ir_ttl r = ttl_iso (now_iso secs) ttl"
    and "idem_put X I root v tool r d = (res, d')" and "ie_read w = None"
  shows "(res = Done (Inr ()) \<longrightarrow>
      fst (idem_lookup X I root w tool (ir_key r) d') = (if ie_now w \<le> secs + ttl then Inr (Some r) else Inr None)) \<and>
    (d' (record_path X root tool (ir_key r)) = d (record_path X root tool (ir_key r)) \<or> stored X I root tool (ir_key r) d' r)"
proof
  show "d' (record_path X root tool (ir_key r)) = d (record_path X root tool (ir_key r)) \<or> stored X I root tool (ir_key r) d' r"
    by (rule put_keeps_or_replaces[OF assms(1,4)])
  show "res = Done (Inr ()) \<longrightarrow>
      fst (idem_lookup X I root w tool (ir_key r) d') = (if ie_now w \<le> secs + ttl then Inr (Some r) else Inr None)"
    using put_stored[OF assms(1), of X root v tool r d d'] assms(4) ttl_expired[OF assms(2), of "ie_now w"] assms(3,5)
      lookup_stored[of X I root tool "ir_key r" d' r w] lookup_expired[of X I root tool "ir_key r" d' r w]
    by (auto simp: not_le)
qed

text \<open>
  A codec and an environment for the examples: records are countable, so a number in decimal can stand
  for a record.
\<close>

instance jnumber :: countable by countable_datatype

instance json :: countable by countable_datatype

instance idem_state :: countable by countable_datatype

definition record_tuple :: "idem_record \<Rightarrow>
    string \<times> string \<times> idem_state \<times> string \<times> string option \<times> string \<times> json \<times> json \<times> string option" where
  "record_tuple r = (ir_key r, ir_tool r, ir_state r, ir_created r, ir_completed r, ir_ttl r, ir_request r,
     ir_response r, ir_error r)"

definition sample_idem_codec :: idem_codec where
  "sample_idem_codec =
     \<lparr>ic_print = (\<lambda>r. Inr (show_nat (to_nat (record_tuple r)))),
      ic_parse = (\<lambda>s. case digits_value 0 s of None \<Rightarrow> Inl ''no''
                   | Some n \<Rightarrow> (case from_nat n of (k, t, st, c, co, ttl, rq, rs, e) \<Rightarrow>
                       Inr \<lparr>ir_key = k, ir_tool = t, ir_state = st, ir_created = c, ir_completed = co, ir_ttl = ttl,
                            ir_request = rq, ir_response = rs, ir_error = e\<rparr>))\<rparr>"

definition good_env :: "nat \<Rightarrow> idem_env" where
  "good_env secs = \<lparr>ie_now = secs, ie_read = None, ie_remove = None, ie_mkdir = None, ie_swap = SwapOk, ie_io = []\<rparr>"

lemma sample_codec_reads_back: "codec_reads_back sample_idem_codec"
proof -
  have "utf8_valid (show_nat n)" for n
    using show_nat_digits[of _ n] by (intro utf8_ascii) (fastforce simp: is_digit_def)
  then show ?thesis
    by (simp add: codec_reads_back_def sample_idem_codec_def digits_value_show_nat record_tuple_def)
qed

lemma sample_codec_prints: "\<exists>raw. ic_print sample_idem_codec r = Inr raw"
  by (simp add: sample_idem_codec_def)

theorem put_then_lookup_witness:
  "fst (idem_lookup sample_ext sample_idem_codec ''r'' (good_env 7) ''t'' ''k''
      (snd (idem_put sample_ext sample_idem_codec ''r'' (good_env 5) ''t'' (complete_record 5 ''t'' ''k'' JNull JNull 10) Map.empty))) =
    Inr (Some (complete_record 5 ''t'' ''k'' JNull JNull 10))"
proof -
  let ?r = "complete_record 5 ''t'' ''k'' JNull JNull 10"
  obtain res d' where p: "idem_put sample_ext sample_idem_codec ''r'' (good_env 5) ''t'' ?r Map.empty = (res, d')"
    by (rule prod.exhaust)
  then have "res = Done (Inr ())"
    by (auto simp: idem_put_def sample_idem_codec_def good_env_def replace_file_ok Let_def complete_record_def)
  with put_then_lookup[OF sample_codec_reads_back, of 5 10 ?r sample_ext "''r''" "good_env 5" "''t''" Map.empty res d' "good_env 7"] p
  show ?thesis by (simp add: complete_record_def good_env_def)
qed

end
