(* ===== verification/File_Write.thy ===== *)
theory File_Write
  imports Symlink_Fs Idempotency Json_Members Redaction
begin

section \<open>Writing files under an allowlist\<close>

text \<open>
  Models \<^verbatim>\<open>crates/familyclaw-actions/src/skills/file_write.rs\<close>: the resolution of the requested path,
  the allowlist check, the write and the idempotency protocol around it, over the file system of
  \<open>Symlink_Fs\<close> and the store of \<open>Idempotency\<close>. The world of the executor holds both; the directory of
  the store is taken to lie outside the allowed roots. \<open>fw_env\<close> holds the faults of one call. Names of
  files are taken to be UTF-8, so \<^verbatim>\<open>to_string_lossy\<close> does not change them.
\<close>

subsection \<open>Resolving a target that need not exist\<close>

text \<open>
  \<^verbatim>\<open>canonicalize_target\<close>: the path as it is when it exists, otherwise the nearest ancestor that can be
  resolved, with the names below it appended; \<open>rcs\<close> are the components from the last one on. The
  messages of the two callers differ.
\<close>

fun climb :: "string \<Rightarrow> string \<Rightarrow> host \<Rightarrow> component list \<Rightarrow> names \<Rightarrow> action_error + names" where
  "climb dotdot stuck h [] below = Inl (PolicyDeniedErr stuck)"
| "climb dotdot stuck h (c # rcs) below =
     (if c = RootDir then Inl (PolicyDeniedErr stuck)
      else if c = ParentDir then Inl (PolicyDeniedErr dotdot)
      else let below' = (case c of Normal s \<Rightarrow> s # below | _ \<Rightarrow> below) in
           case canonicalize_components h (rev rcs) of
             Inr base \<Rightarrow> Inr (base @ below')
           | Inl _ \<Rightarrow> climb dotdot stuck h rcs below')"

definition resolve_target :: "string \<Rightarrow> string \<Rightarrow> host \<Rightarrow> string \<Rightarrow> action_error + names" where
  "resolve_target dotdot stuck h requested =
     (case canonicalize h requested of
        Inr c \<Rightarrow> Inr c
      | Inl _ \<Rightarrow> climb dotdot stuck h (rev (components requested)) [])"

definition canonicalize_target :: "host \<Rightarrow> string \<Rightarrow> action_error + names" where
  "canonicalize_target =
     resolve_target (sq @ ''..'' @ sq @ '' kohdepolun lopussa ei sallittu (hyl'' @ ae @ ''tty)'')
       (''kohdepolun esivanhempaa ei voi kanonisoida (hyl'' @ ae @ ''tty)'')"

definition path_is_under_any :: "names \<Rightarrow> names list \<Rightarrow> bool" where
  "path_is_under_any p roots \<longleftrightarrow> (\<exists>r \<in> set roots. prefix r p)"

type_synonym file_write_config = "string list"  \<comment> \<open>allow_roots\<close>

definition allow_root :: "string \<Rightarrow> file_write_config \<Rightarrow> file_write_config" where
  "allow_root root c = c @ [root]"

definition canonical_roots :: "string list \<Rightarrow> host \<Rightarrow> names list" where
  "canonical_roots roots h = List.map_filter (\<lambda>r. case canonicalize h r of Inl _ \<Rightarrow> None | Inr c \<Rightarrow> Some c) roots"

definition guard_roots :: "string \<Rightarrow> string \<Rightarrow> string list \<Rightarrow> (host \<Rightarrow> string \<Rightarrow> action_error + names) \<Rightarrow>
    host \<Rightarrow> string \<Rightarrow> action_error + names" where
  "guard_roots none outside roots target h requested =
     (let rs = canonical_roots roots h in
      if rs = [] then Inl (PolicyDeniedErr none)
      else case target h requested of
             Inl e \<Rightarrow> Inl e
           | Inr c \<Rightarrow> if path_is_under_any c rs then Inr c else Inl (PolicyDeniedErr outside))"

definition resolve_allowed :: "file_write_config \<Rightarrow> host \<Rightarrow> string \<Rightarrow> action_error + names" where
  "resolve_allowed roots =
     guard_roots (''ei sallittuja juuria '' @ emdash @ '' kaikki polut hyl'' @ ae @ ''t'' @ ae @ ae @ ''n (fail-closed)'')
       (''kanoninen kohde on allowlistin ulkopuolella (hyl'' @ ae @ ''tty)'') roots canonicalize_target"

subsection \<open>The write\<close>

datatype write_mode = Overwrite | Append

fun mode_str :: "write_mode \<Rightarrow> string" where
  "mode_str Overwrite = ''overwrite''"
| "mode_str Append = ''append''"

record file_write_input =
  fi_path :: string
  fi_content :: string
  fi_mode :: write_mode
  fi_key :: "string option"

record file_write_output =
  fo_hash :: string
  fo_bytes :: nat
  fo_mode :: string

record fw_env =
  fv_refuse :: "names \<Rightarrow> io_kind option"  \<comment> \<open>directories the host does not make\<close>
  fv_write :: write_fault
  fv_flush :: bool                          \<comment> \<open>an append error shows in the flush\<close>
  fv_idem :: "nat \<Rightarrow> idem_env"             \<comment> \<open>the calls of the store, in their order\<close>

record fw_world =
  fw_host :: host
  fw_store :: fs

definition hash_path :: "ext \<Rightarrow> names \<Rightarrow> string" where
  "hash_path X p = sha256_hex X (path_str p)"

definition failed_suffix :: string where
  "failed_suffix = '' ep'' @ ae @ ''onnistui: ''"

definition append_stage :: "fw_env \<Rightarrow> host \<Rightarrow> names \<Rightarrow> string" where
  "append_stage v h c =
     (case open_target h c of
        Inl _ \<Rightarrow> ''tiedoston avaus (append)''
      | Inr _ \<Rightarrow>
          (case fv_write v of
             OpenErr _ \<Rightarrow> ''tiedoston avaus (append)''
           | _ \<Rightarrow> if fv_flush v then ''tiedoston huuhtelu'' else ''tiedoston lis'' @ ae @ ''ys''))"

definition write_proof ::
  "ext \<Rightarrow> fw_env \<Rightarrow> names \<Rightarrow> string \<Rightarrow> write_mode \<Rightarrow> host \<Rightarrow> (action_error + file_write_output) outcome \<times> host" where
  "write_proof X v c body mode h =
     (case (if c = [] then (Inr (), h) else create_dir_all (fv_refuse v) (butlast c) h) of
        (Inl k, h1) \<Rightarrow> (Done (Inl (ExecutionFailed (''vanhempihakemiston luonti'' @ failed_suffix @ show_io k))), h1)
      | (Inr _, h1) \<Rightarrow>
          (case (case mode of Overwrite \<Rightarrow> host_write (fv_write v) c body h1
                            | Append \<Rightarrow> host_append (fv_write v) c body h1) of
             (Killed, h2) \<Rightarrow> (Killed, h2)
           | (Done (Inl k), h2) \<Rightarrow>
               (Done (Inl (ExecutionFailed
                  ((case mode of Overwrite \<Rightarrow> ''tiedoston kirjoitus'' | Append \<Rightarrow> append_stage v h1 c) @
                   failed_suffix @ show_io k))), h2)
           | (Done (Inr _), h2) \<Rightarrow>
               (Done (Inr \<lparr>fo_hash = hash_path X c, fo_bytes = length body, fo_mode = mode_str mode\<rparr>), h2)))"

definition FILE_WRITE_TOOL :: string where
  "FILE_WRITE_TOOL = ''file_write_allowlisted''"

definition output_members :: "file_write_output \<Rightarrow> (string \<times> json) list" where
  "output_members out =
     [(''path_hash'', JStr (fo_hash out)), (''bytes_written'', JNum (PosInt (fo_bytes out))), (''mode'', JStr (fo_mode out))]"

definition keyed_output :: "file_write_output \<Rightarrow> string \<Rightarrow> json" where
  "keyed_output out key =
     json_object (output_members out @ [(''idempotency_key'', JStr key), (''idempotency_status'', JStr ''completed'')])"

definition wrote_summary :: "file_write_output \<Rightarrow> string" where
  "wrote_summary out =
     ''wrote '' @ show_nat (fo_bytes out) @ '' byte(s) to allowlisted path ('' @ fo_mode out @ '')''"

definition cached_response :: "string \<Rightarrow> json \<Rightarrow> json" where
  "cached_response key response =
     (case response of
        JObj kvs \<Rightarrow> JObj (json_insert ''idempotency_status'' (JStr ''cached'') (json_insert ''idempotency_key'' (JStr key) kvs))
      | other \<Rightarrow> other)"

text \<open>The write between \<^verbatim>\<open>begin\<close> and \<^verbatim>\<open>complete\<close> or \<^verbatim>\<open>fail\<close>.\<close>

definition keyed_write ::
  "ext \<Rightarrow> idem_codec \<Rightarrow> path \<Rightarrow> fw_env \<Rightarrow> action_request \<Rightarrow> file_write_input \<Rightarrow> names \<Rightarrow> string \<Rightarrow> fw_world \<Rightarrow>
   (action_error + action_result) outcome \<times> fw_world" where
  "keyed_write X I root v rq inp c key w =
     (case idem_begin X I root (fv_idem v 2) FILE_WRITE_TOOL key (rq_payload rq) 0 (fw_store w) of
        (Killed, d) \<Rightarrow> (Killed, w\<lparr>fw_store := d\<rparr>)
      | (Done (Inl e), d) \<Rightarrow> (Done (Inl (Proof (''idempotency begin failed: '' @ show_error e))), w\<lparr>fw_store := d\<rparr>)
      | (Done (Inr _), d) \<Rightarrow>
          (case write_proof X v c (fi_content inp) (fi_mode inp) (fw_host w) of
             (Killed, h) \<Rightarrow> (Killed, \<lparr>fw_host = h, fw_store = d\<rparr>)
           | (Done (Inr out), h) \<Rightarrow>
               (case idem_complete X I root (fv_idem v 3) FILE_WRITE_TOOL key (rq_payload rq) (keyed_output out key)
                       DEFAULT_TTL_SECS d of
                  (Killed, d') \<Rightarrow> (Killed, \<lparr>fw_host = h, fw_store = d'\<rparr>)
                | (Done _, d') \<Rightarrow>
                    (Done (Inr (result_success (wrote_summary out) (keyed_output out key) (rq_now rq))),
                     \<lparr>fw_host = h, fw_store = d'\<rparr>))
           | (Done (Inl e), h) \<Rightarrow>
               (case idem_fail X I root (fv_idem v 3) FILE_WRITE_TOOL key (rq_payload rq) (show_error e) False
                       DEFAULT_TTL_SECS d of
                  (Killed, d') \<Rightarrow> (Killed, \<lparr>fw_host = h, fw_store = d'\<rparr>)
                | (Done _, d') \<Rightarrow>
                    (Done (Inr (result_failure (show_error e) (rq_now rq))), \<lparr>fw_host = h, fw_store = d'\<rparr>))))"

definition plain_write ::
  "ext \<Rightarrow> fw_env \<Rightarrow> action_request \<Rightarrow> file_write_input \<Rightarrow> names \<Rightarrow> fw_world \<Rightarrow>
   (action_error + action_result) outcome \<times> fw_world" where
  "plain_write X v rq inp c w =
     (case write_proof X v c (fi_content inp) (fi_mode inp) (fw_host w) of
        (Killed, h) \<Rightarrow> (Killed, w\<lparr>fw_host := h\<rparr>)
      | (Done (Inl e), h) \<Rightarrow> (Done (Inr (result_failure (show_error e) (rq_now rq))), w\<lparr>fw_host := h\<rparr>)
      | (Done (Inr out), h) \<Rightarrow>
          (Done (Inr (result_success (wrote_summary out) (json_object (output_members out)) (rq_now rq))),
           w\<lparr>fw_host := h\<rparr>))"

definition file_write_execute ::
  "ext \<Rightarrow> idem_codec \<Rightarrow> (json \<Rightarrow> string + file_write_input) \<Rightarrow> file_write_config \<Rightarrow> path \<Rightarrow> fw_env \<Rightarrow> fw_world executor" where
  "file_write_execute X I parse roots data v rq w =
     (case parse (rq_payload rq) of
        Inl e \<Rightarrow> (Done (Inr (result_failure (''invalid file_write input: '' @ e) (rq_now rq))), w)
      | Inr inp \<Rightarrow>
          (case resolve_allowed roots (fw_host w) (fi_path inp) of
             Inl e \<Rightarrow> (Done (Inr (result_failure (''path rejected: '' @ show_error e) (rq_now rq))), w)
           | Inr c \<Rightarrow>
               (case fi_key inp of
                  None \<Rightarrow> plain_write X v rq inp c w
                | Some raw \<Rightarrow>
                    (case normalize_key raw of
                       Inl e \<Rightarrow> (Done (Inr (result_failure (''idempotency_key invalid: '' @ show_error e) (rq_now rq))), w)
                     | Inr key \<Rightarrow>
                         (let root = idem_store_new data in
                          case idem_lookup X I root (fv_idem v 0) FILE_WRITE_TOOL key (fw_store w) of
                            (Inl e, d) \<Rightarrow> (Done (Inl (Proof (''idempotency lookup failed: '' @ show_error e))), w\<lparr>fw_store := d\<rparr>)
                          | (Inr None, d) \<Rightarrow> keyed_write X I root v rq inp c key (w\<lparr>fw_store := d\<rparr>)
                          | (Inr (Some r), d) \<Rightarrow>
                              (if ir_state r = IdemCompleted
                               then (Done (Inr (result_success ''cached idempotent file_write response''
                                       (cached_response key (ir_response r)) (rq_now rq))), w\<lparr>fw_store := d\<rparr>)
                               else keyed_write X I root v rq inp c key
                                      (w\<lparr>fw_store := snd (idem_delete X root (fv_idem v 1) FILE_WRITE_TOOL key d)\<rparr>)))))))"

subsection \<open>Targets under a root\<close>

lemma components_normal: "Normal s \<in> set (components p) \<Longrightarrow> normal_name s"
  by (auto simp: components_def normal_name_def split: if_splits)

lemma found_iff: "found w = Inr p \<longleftrightarrow> w = Reached p"
  by (cases w) (simp_all add: found_def)

lemma canonicalize_real: "real h (h_cwd h) \<Longrightarrow> canonicalize h p = Inr c \<Longrightarrow> real h c"
  by (auto simp: canonicalize_def found_iff split: if_splits intro: walk_real walk_real[OF real_Nil])

lemma canonicalize_components_real:
  "real h (h_cwd h) \<Longrightarrow> canonicalize_components h cs = Inr c \<Longrightarrow> real h c"
  by (auto simp: canonicalize_components_def found_iff split: if_splits intro: walk_real walk_real[OF real_Nil])

definition real_then_names :: "host \<Rightarrow> names \<Rightarrow> bool" where
  "real_then_names h c \<longleftrightarrow> (\<exists>base below. c = base @ below \<and> real h base \<and> (\<forall>s \<in> set below. normal_name s))"

lemma climb_real:
  "real h (h_cwd h) \<Longrightarrow> climb dd st h rcs below = Inr c \<Longrightarrow> \<forall>s. Normal s \<in> set rcs \<longrightarrow> normal_name s \<Longrightarrow>
     \<forall>s \<in> set below. normal_name s \<Longrightarrow> real_then_names h c"
proof (induction dd st h rcs below rule: climb.induct)
  case (2 dd st h x rcs below)
  let ?below = "case x of Normal s \<Rightarrow> s # below | _ \<Rightarrow> below"
  have below: "\<forall>s \<in> set ?below. normal_name s" using "2.prems"(3,4) by (auto split: component.splits)
  have x: "x \<noteq> RootDir" "x \<noteq> ParentDir" using "2.prems"(2) by (auto split: if_splits)
  show ?case
  proof (cases "canonicalize_components h (rev rcs)")
    case (Inl e)
    then show ?thesis
      using "2.IH"[OF x refl Inl "2.prems"(1) _ _ below] "2.prems"(2,3) x by (simp add: Let_def)
  next
    case (Inr base)
    then have "c = base @ ?below" using "2.prems"(2) x by (simp add: Let_def)
    then show ?thesis
      using canonicalize_components_real[OF "2.prems"(1) Inr] below unfolding real_then_names_def by blast
  qed
qed simp

lemma resolve_target_real:
  assumes "real h (h_cwd h)" "resolve_target dd st h requested = Inr c"
  shows "real_then_names h c"
proof (cases "canonicalize h requested")
  case (Inl e)
  then show ?thesis
    using climb_real[OF assms(1), of dd st "rev (components requested)" "[]" c] assms(2) components_normal
    by (auto simp: resolve_target_def)
next
  case (Inr b)
  then have "c = b @ []" "real h b" using canonicalize_real[OF assms(1) Inr] assms(2) by (simp_all add: resolve_target_def)
  then show ?thesis unfolding real_then_names_def by (intro exI[of _ b] exI[of _ "[]"]) simp
qed

lemma canonical_roots_real: "real h (h_cwd h) \<Longrightarrow> r \<in> set (canonical_roots roots h) \<Longrightarrow> real h r"
proof -
  assume cwd: "real h (h_cwd h)" and "r \<in> set (canonical_roots roots h)"
  then obtain p where "canonicalize h p = Inr r"
    by (auto simp: canonical_roots_def List.map_filter_def split: sum.splits)
  then show ?thesis by (rule canonicalize_real[OF cwd])
qed

definition link_free :: "host \<Rightarrow> names list \<Rightarrow> bool" where
  "link_free h roots \<longleftrightarrow> (\<forall>(q, n) \<in> set (h_tree h). path_is_under_any q roots \<longrightarrow> (\<forall>t. n \<noteq> LinkN t))"

text \<open>
  What the skills that touch files expect of their path guard: a path that it lets through lies under a
  root, and leads from a directory that is really there over plain names.
\<close>

locale path_guard =
  fixes resolve :: "host \<Rightarrow> string \<Rightarrow> action_error + names"
    and roots_of :: "host \<Rightarrow> names list"
  assumes under: "resolve h p = Inr c \<Longrightarrow> path_is_under_any c (roots_of h)"
    and target: "real h (h_cwd h) \<Longrightarrow> resolve h p = Inr c \<Longrightarrow> real_then_names h c"
    and roots: "real h (h_cwd h) \<Longrightarrow> r \<in> set (roots_of h) \<Longrightarrow> real h r"
begin

lemma plain_target:
  assumes cwd: "real h (h_cwd h)" and free: "link_free h (roots_of h)" and c: "resolve h p = Inr c"
  shows "plain h c"
proof -
  obtain r where r: "r \<in> set (roots_of h)" "prefix r c" using under[OF c] by (auto simp: path_is_under_any_def)
  have "normal_name s" if "s \<in> set c" for s
    using target[OF cwd c] that unfolding real_then_names_def real_def by auto
  moreover have "node h q \<noteq> Some (LinkN t)" if q: "prefix q c" for q t
  proof (cases "prefix r q")
    case True
    then show ?thesis using free r(1) hm_get_mem[of "h_tree h" q] unfolding link_free_def path_is_under_any_def node_def by fastforce
  next
    case False
    then have "strict_prefix q r" using q r(2) by (metis prefix_same_cases strict_prefix_def prefix_order.refl)
    then show ?thesis using roots[OF cwd r(1)] by (simp add: real_def)
  qed
  ultimately show ?thesis by (simp add: plain_def)
qed

text \<open>Making the missing parents of a target changes nothing outside the roots.\<close>

lemma parents_under:
  assumes cwd: "real h (h_cwd h)" and free: "link_free h (roots_of h)" and c: "resolve h p = Inr c"
    and made: "grown (butlast c) h h'" and q: "node h' q \<noteq> node h q"
  shows "path_is_under_any q (roots_of h)"
proof -
  obtain r where r: "r \<in> set (roots_of h)" "prefix r c" using under[OF c] by (auto simp: path_is_under_any_def)
  have q': "prefix q c" "node h q = None"
    using made q prefix_order.trans[OF _ prefixeq_butlast] unfolding grown_def by blast+
  have "\<not> strict_prefix q r" using roots[OF cwd r(1)] q'(2) by (auto simp: real_def)
  then have "prefix r q" using q'(1) r(2) by (metis prefix_same_cases strict_prefix_def prefix_order.refl)
  then show ?thesis using r(1) by (auto simp: path_is_under_any_def)
qed

end

lemma guard_roots_under: "guard_roots none out roots f h p = Inr c \<Longrightarrow>
   path_is_under_any c (canonical_roots roots h) \<and> f h p = Inr c"
  by (auto simp: guard_roots_def Let_def split: if_splits sum.splits)

interpretation writer: path_guard "resolve_allowed roots" "canonical_roots roots" for roots
proof
  fix h :: host and p c r
  show "path_is_under_any c (canonical_roots roots h)" if "resolve_allowed roots h p = Inr c"
    using that guard_roots_under by (simp add: resolve_allowed_def)
  show "real_then_names h c" if "real h (h_cwd h)" "resolve_allowed roots h p = Inr c"
    using resolve_target_real[OF that(1)] guard_roots_under that(2)
    unfolding resolve_allowed_def canonicalize_target_def by blast
  show "real h r" if "real h (h_cwd h)" "r \<in> set (canonical_roots roots h)"
    by (rule canonical_roots_real[OF that])
qed

lemma write_proof_under:
  assumes cwd: "real h (h_cwd h)" and free: "link_free h (canonical_roots roots h)"
    and c: "resolve_allowed roots h p = Inr c" and w: "write_proof X v c body mode h = (r, h')"
    and q: "node h' q \<noteq> node h q"
  shows "path_is_under_any q (canonical_roots roots h)"
proof -
  note plain = writer.plain_target[OF cwd free c]
  have pb: "plain h (butlast c)" by (rule plain_prefix[OF plain prefixeq_butlast])
  obtain x h1 where m: "(if c = [] then (Inr (), h) else create_dir_all (fv_refuse v) (butlast c) h) = (x, h1)"
    by (rule prod.exhaust)
  then have g: "grown (butlast c) h h1" using create_dir_all_plain[OF pb] by (auto split: if_splits)
  note plain1 = plain_grown[OF plain g]
  show ?thesis
  proof (cases "node h1 q = node h q")
    case False
    then show ?thesis by (rule writer.parents_under[OF cwd free c g])
  next
    case True
    have "h' = h1 \<or> (\<exists>y. host_write (fv_write v) c body h1 = (y, h')) \<or> (\<exists>y. host_append (fv_write v) c body h1 = (y, h'))"
      using w m by (auto simp: write_proof_def split: sum.splits write_mode.splits prod.splits outcome.splits)
    then have "q = c" using q True host_write_plain[OF plain1] host_append_plain[OF plain1] by metis
    then show ?thesis using writer.under[OF c] by simp
  qed
qed

text \<open>Whatever the executor does to the files, it does by one \<open>write_proof\<close> at a resolved path.\<close>

lemma keyed_write_host:
  "keyed_write X I root v rq inp c key w = (r, w') \<Longrightarrow>
     fw_host w' = fw_host w \<or> (\<exists>x. write_proof X v c (fi_content inp) (fi_mode inp) (fw_host w) = (x, fw_host w'))"
  by (auto simp: keyed_write_def split: prod.splits outcome.splits sum.splits)

lemma plain_write_host:
  "plain_write X v rq inp c w = (r, w') \<Longrightarrow>
     \<exists>x. write_proof X v c (fi_content inp) (fi_mode inp) (fw_host w) = (x, fw_host w')"
  by (auto simp: plain_write_def split: prod.splits outcome.splits sum.splits)

lemma execute_host:
  assumes e: "file_write_execute X I parse roots data v rq w = (r, w')"
  shows "fw_host w' = fw_host w \<or>
    (\<exists>(inp::file_write_input) c x. resolve_allowed roots (fw_host w) (fi_path inp) = Inr c \<and>
       write_proof X v c (fi_content inp) (fi_mode inp) (fw_host w) = (x, fw_host w'))"
proof (cases "parse (rq_payload rq)")
  case (Inr inp)
  show ?thesis
  proof (cases "resolve_allowed roots (fw_host w) (fi_path inp)")
    case (Inr c)
    note here = \<open>parse (rq_payload rq) = Inr inp\<close> Inr
    show ?thesis
    proof (cases "fi_key inp")
      case None
      then have "plain_write X v rq inp c w = (r, w')" using e here by (simp add: file_write_execute_def)
      then show ?thesis using plain_write_host here(2) by blast
    next
      case (Some raw)
      show ?thesis
      proof (cases "normalize_key raw")
        case (Inl err)
        then show ?thesis using e here Some by (simp add: file_write_execute_def)
      next
        case (Inr key)
        obtain y d where l: "idem_lookup X I (idem_store_new data) (fv_idem v 0) FILE_WRITE_TOOL key (fw_store w) = (y, d)"
          by (rule prod.exhaust)
        have "fw_host w' = fw_host w \<or> (\<exists>d. keyed_write X I (idem_store_new data) v rq inp c key (w\<lparr>fw_store := d\<rparr>) = (r, w'))"
          using e here Some Inr l by (auto simp: file_write_execute_def Let_def split: sum.splits option.splits if_splits)
        then show ?thesis
        proof
          assume "\<exists>d. keyed_write X I (idem_store_new data) v rq inp c key (w\<lparr>fw_store := d\<rparr>) = (r, w')"
          then obtain d where "keyed_write X I (idem_store_new data) v rq inp c key (w\<lparr>fw_store := d\<rparr>) = (r, w')" ..
          from keyed_write_host[OF this] have "fw_host w' = fw_host w \<or>
              (\<exists>x. write_proof X v c (fi_content inp) (fi_mode inp) (fw_host w) = (x, fw_host w'))" by simp
          then show ?thesis using here(2) by blast
        qed simp
      qed
    qed
  qed (use e Inr in \<open>simp add: file_write_execute_def\<close>)
qed (use e in \<open>simp add: file_write_execute_def\<close>)

subsection \<open>Replaying a key\<close>

lemma cached_replay:
  assumes "parse (rq_payload rq) = Inr inp" "resolve_allowed roots (fw_host w) (fi_path inp) = Inr c"
    and "fi_key inp = Some raw" "normalize_key raw = Inr key"
    and "stored X I (idem_store_new data) FILE_WRITE_TOOL key (fw_store w) r" "ir_state r = IdemCompleted"
    and "ie_read (fv_idem v 0) = None" "\<not> idem_expired (ie_now (fv_idem v 0)) (ir_ttl r)"
  shows "file_write_execute X I parse roots data v rq w =
    (Done (Inr (result_success ''cached idempotent file_write response'' (cached_response key (ir_response r)) (rq_now rq))), w)"
  using lookup_stored[OF assms(5,7,8)] assms(1-4,6) by (simp add: file_write_execute_def Let_def)

definition store_works :: "idem_codec \<Rightarrow> idem_env \<Rightarrow> bool" where
  "store_works I e \<longleftrightarrow> ie_mkdir e = None \<and> ie_swap e = SwapOk \<and> (\<forall>r. \<exists>raw. ic_print I r = Inr raw)"

lemma working_put: "store_works I e \<Longrightarrow> \<exists>d'. idem_put X I root e tool r d = (Done (Inr ()), d')"
proof -
  assume e: "store_works I e"
  then obtain raw where "ic_print I r = Inr raw" unfolding store_works_def by blast
  then show ?thesis using e by (simp add: store_works_def idem_put_def Let_def replace_file_ok)
qed

text \<open>What the store holds after a write under a key was attempted.\<close>

lemma keyed_write_stores:
  assumes I: "codec_reads_back I" and works: "store_works I (fv_idem v 3)"
    and k: "keyed_write X I root v rq inp c key w = (Done (Inr res), w')"
  shows "\<exists>r. stored X I root FILE_WRITE_TOOL key (fw_store w') r \<and> ir_state r = IdemCompleted \<and>
    ir_ttl r = ttl_iso (now_iso (ie_now (fv_idem v 3))) DEFAULT_TTL_SECS \<and>
    ir_response r = (if rs_status res = Succeeded then rs_output res else JNull)"
proof -
  obtain b d where b: "idem_begin X I root (fv_idem v 2) FILE_WRITE_TOOL key (rq_payload rq) 0 (fw_store w) = (b, d)"
    by (rule prod.exhaust)
  obtain x h where x: "write_proof X v c (fi_content inp) (fi_mode inp) (fw_host w) = (x, h)" by (rule prod.exhaust)
  let ?e = "fv_idem v 3"
  have put: "\<exists>d'. idem_put X I root ?e FILE_WRITE_TOOL r d = (Done (Inr ()), d') \<and> stored X I root FILE_WRITE_TOOL (ir_key r) d' r" for r
    using working_put[OF works, of X root FILE_WRITE_TOOL r d] put_stored[OF I] by blast
  have b': "b = Done (Inr ())" using k b by (auto simp: keyed_write_def split: outcome.splits sum.splits)
  show ?thesis
  proof (cases x)
    case (Done y)
    show ?thesis
    proof (cases y)
      case (Inl e)
      from put[of "fail_record (ie_now ?e) FILE_WRITE_TOOL key (rq_payload rq) (show_error e) False DEFAULT_TTL_SECS"]
      obtain d' where d': "idem_fail X I root ?e FILE_WRITE_TOOL key (rq_payload rq) (show_error e) False DEFAULT_TTL_SECS d =
          (Done (Inr ()), d')"
        and st: "stored X I root FILE_WRITE_TOOL key d'
          (fail_record (ie_now ?e) FILE_WRITE_TOOL key (rq_payload rq) (show_error e) False DEFAULT_TTL_SECS)"
        unfolding idem_fail_def by (auto simp: fail_record_def)
      have "w' = \<lparr>fw_host = h, fw_store = d'\<rparr>" "res = result_failure (show_error e) (rq_now rq)"
        using k b b' x Done Inl d' by (simp_all add: keyed_write_def)
      then show ?thesis using st by (intro exI[of _ "fail_record (ie_now ?e) FILE_WRITE_TOOL key (rq_payload rq) (show_error e) False DEFAULT_TTL_SECS"])
          (simp add: fail_record_def result_failure_def)
    next
      case (Inr out)
      let ?r = "complete_record (ie_now ?e) FILE_WRITE_TOOL key (rq_payload rq) (keyed_output out key) DEFAULT_TTL_SECS"
      from put[of ?r]
      obtain d' where d': "idem_complete X I root ?e FILE_WRITE_TOOL key (rq_payload rq) (keyed_output out key) DEFAULT_TTL_SECS d =
          (Done (Inr ()), d')" and st: "stored X I root FILE_WRITE_TOOL key d' ?r"
        unfolding idem_complete_def by (auto simp: complete_record_def)
      have "w' = \<lparr>fw_host = h, fw_store = d'\<rparr>" "res = result_success (wrote_summary out) (keyed_output out key) (rq_now rq)"
        using k b b' x Done Inr d' by (simp_all add: keyed_write_def)
      then show ?thesis using st by (intro exI[of _ ?r]) (simp add: complete_record_def result_success_def)
    qed
  qed (use k b b' x in \<open>simp add: keyed_write_def\<close>)
qed

subsection \<open>Records of different keys\<close>

lemma after_last_alone: "c \<notin> set q \<Longrightarrow> after_last c q = q"
proof -
  assume "c \<notin> set q"
  then have "takeWhile (\<lambda>x. x \<noteq> c) (rev q) = rev q" by (simp only: takeWhile_eq_all_conv) auto
  then show ?thesis unfolding after_last_def by (simp only: rev_rev_ident)
qed

lemma after_last_base: "c \<notin> set q \<Longrightarrow> after_last c (p @ c # q) = q"
proof -
  assume "c \<notin> set q"
  then have "takeWhile (\<lambda>x. x \<noteq> c) (rev q @ [c] @ rev p) = rev q" by (subst takeWhile_append2) auto
  then show ?thesis by (simp add: after_last_def)
qed

lemma after_last_join:
  assumes "CHR ''/'' \<notin> set q" "q \<noteq> []"
  shows "after_last (CHR ''/'') (path_join p q) = q"
proof -
  have n: "\<not> starts_with ''/'' q" using assms by (cases q) (auto simp: starts_with_def)
  show ?thesis
  proof (cases "p = [] \<or> List.last p \<noteq> CHR ''/''")
    case True
    then show ?thesis using n after_last_alone[OF assms(1)] after_last_base[OF assms(1)] by (auto simp: path_join_def)
  next
    case False
    then have "p @ q = butlast p @ CHR ''/'' # q" by (metis append.assoc append_Cons append_Nil append_butlast_last_id)
    then have "after_last (CHR ''/'') (p @ q) = q" by (simp only: after_last_base[OF assms(1)])
    then show ?thesis using n False by (simp add: path_join_def)
  qed
qed

lemma sha256_hex_name: "CHR ''/'' \<notin> set (sha256_hex X key)"
proof -
  have dig: "hex_digit n \<noteq> CHR ''/''" if "n < 16" for n
  proof -
    have "\<forall>n \<in> set [0..<16]. hex_digit n \<noteq> CHR ''/''" by code_simp
    with that show ?thesis by simp
  qed
  have "of_char c < (256::nat)" for c :: char by simp
  then have "of_char c div 16 < (16::nat)" for c :: char by (simp add: less_mult_imp_div_less)
  then have "CHR ''/'' \<notin> set (hex_byte c)" for c using dig[of "of_char c div 16"] dig[of "of_char c mod 16"] by (simp add: hex_byte_def)
  then show ?thesis by (auto simp: sha256_hex_def)
qed

lemma record_path_last: "after_last (CHR ''/'') (record_path X root tool key) = sha256_hex X key @ ''.json''"
  unfolding record_path_def Let_def by (rule after_last_join) (use sha256_hex_name[of X key] in auto)

lemma record_path_other:
  "sha256_hex X k \<noteq> sha256_hex X key \<Longrightarrow> record_path X root tool k \<noteq> record_path X root tool key"
  by (metis record_path_last append_same_eq)

lemma record_path_ends: "List.last (record_path X root tool key) = CHR ''n''"
  by (simp add: record_path_def path_join_def Let_def starts_with_def)

lemma tmp_other: "with_extension p ''json.tmp'' \<noteq> record_path X root tool key"
proof
  assume "with_extension p ''json.tmp'' = record_path X root tool key"
  then have "List.last (with_extension p ''json.tmp'') = CHR ''n''" by (simp add: record_path_ends)
  then show False by (simp add: with_extension_def Let_def)
qed

text \<open>A call of the store under another key leaves the file of a key alone.\<close>

lemma lookup_other:
  assumes "idem_lookup X I root v tool k d = (r, d')" "sha256_hex X k \<noteq> sha256_hex X key"
  shows "d' (record_path X root tool key) = d (record_path X root tool key)"
  using assms(1) record_path_other[OF assms(2), of root tool] by (auto simp: idem_lookup_def Let_def split: option.splits if_splits sum.splits)

lemma delete_other:
  assumes "sha256_hex X k \<noteq> sha256_hex X key"
  shows "snd (idem_delete X root v tool k d) (record_path X root tool key) = d (record_path X root tool key)"
  using record_path_other[OF assms, of root tool] by (auto simp: idem_delete_def Let_def split: option.splits)

lemma put_other:
  assumes "idem_put X I root v tool r d = (x, d')" "sha256_hex X (ir_key r) \<noteq> sha256_hex X key"
  shows "d' (record_path X root tool key) = d (record_path X root tool key)"
  using assms(1) record_path_other[OF assms(2), of root tool] tmp_other[of "record_path X root tool (ir_key r)" X root tool key]
  by (auto simp: idem_put_def Let_def replace_file_def split: option.splits sum.splits swap_fault.splits)

lemma keyed_write_other:
  assumes "keyed_write X I root v rq inp c k w = (r, w')" "sha256_hex X k \<noteq> sha256_hex X key"
  shows "fw_store w' (record_path X root FILE_WRITE_TOOL key) = fw_store w (record_path X root FILE_WRITE_TOOL key)"
proof -
  note put = put_other[where X = X and I = I and root = root and tool = FILE_WRITE_TOOL and key = key]
  have b: "d' (record_path X root FILE_WRITE_TOOL key) = d (record_path X root FILE_WRITE_TOOL key)"
    if "idem_begin X I root e FILE_WRITE_TOOL k q 0 d = (x, d')" for e q d x d'
    by (rule put[OF that[unfolded idem_begin_def]]) (simp add: assms(2))
  have c: "d' (record_path X root FILE_WRITE_TOOL key) = d (record_path X root FILE_WRITE_TOOL key)"
    if "idem_complete X I root e FILE_WRITE_TOOL k q s n d = (x, d')" for e q s n d x d'
    by (rule put[OF that[unfolded idem_complete_def]]) (simp add: assms(2) complete_record_def)
  have f: "d' (record_path X root FILE_WRITE_TOOL key) = d (record_path X root FILE_WRITE_TOOL key)"
    if "idem_fail X I root e FILE_WRITE_TOOL k q s u n d = (x, d')" for e q s u n d x d'
    by (rule put[OF that[unfolded idem_fail_def]]) (simp add: assms(2) fail_record_def)
  obtain x1 d1 where b1: "idem_begin X I root (fv_idem v 2) FILE_WRITE_TOOL k (rq_payload rq) 0 (fw_store w) = (x1, d1)"
    by (rule prod.exhaust)
  obtain x2 h2 where p: "write_proof X v c (fi_content inp) (fi_mode inp) (fw_host w) = (x2, h2)" by (rule prod.exhaust)
  define x3 d3 where "x3 = (\<lambda>out. fst (idem_complete X I root (fv_idem v 3) FILE_WRITE_TOOL k (rq_payload rq) (keyed_output out k)
      DEFAULT_TTL_SECS d1))" and "d3 = (\<lambda>out. snd (idem_complete X I root (fv_idem v 3) FILE_WRITE_TOOL k (rq_payload rq) (keyed_output out k)
      DEFAULT_TTL_SECS d1))"
  then have c1: "idem_complete X I root (fv_idem v 3) FILE_WRITE_TOOL k (rq_payload rq) (keyed_output out k)
      DEFAULT_TTL_SECS d1 = (x3 out, d3 out)" for out by simp
  define x4 d4 where "x4 = (\<lambda>e. fst (idem_fail X I root (fv_idem v 3) FILE_WRITE_TOOL k (rq_payload rq) (show_error e) False
      DEFAULT_TTL_SECS d1))" and "d4 = (\<lambda>e. snd (idem_fail X I root (fv_idem v 3) FILE_WRITE_TOOL k (rq_payload rq) (show_error e) False
      DEFAULT_TTL_SECS d1))"
  then have f1: "idem_fail X I root (fv_idem v 3) FILE_WRITE_TOOL k (rq_payload rq) (show_error e) False
      DEFAULT_TTL_SECS d1 = (x4 e, d4 e)" for e by simp
  have "fw_store w' = fw_store w \<or> fw_store w' = d1 \<or> (\<exists>out. fw_store w' = d3 out) \<or> (\<exists>e. fw_store w' = d4 e)"
    using assms(1) by (auto simp: keyed_write_def b1 p c1 f1 split: outcome.splits sum.splits)
  then show ?thesis using b[OF b1] c[OF c1] f[OF f1] by auto
qed

subsection \<open>Requests in between\<close>

text \<open>
  Any requests of the skill, one after the other, each with its own faults and clock; a process death in
  one of them leaves what it had done.
\<close>

definition write_run ::
  "ext \<Rightarrow> idem_codec \<Rightarrow> (json \<Rightarrow> string + file_write_input) \<Rightarrow> file_write_config \<Rightarrow> path \<Rightarrow>
   (fw_env \<times> action_request) list \<Rightarrow> fw_world \<Rightarrow> fw_world" where
  "write_run X I parse roots data rqs w =
     foldl (\<lambda>w (v, rq). snd (file_write_execute X I parse roots data v rq w)) w rqs"

text \<open>The normalised key of a request, if it has one.\<close>

definition request_key :: "(json \<Rightarrow> string + file_write_input) \<Rightarrow> action_request \<Rightarrow> string option" where
  "request_key parse rq =
     (case parse (rq_payload rq) of
        Inl _ \<Rightarrow> None
      | Inr inp \<Rightarrow> (case fi_key inp of None \<Rightarrow> None | Some raw \<Rightarrow> (case normalize_key raw of Inl _ \<Rightarrow> None | Inr key \<Rightarrow> Some key)))"

definition completed_until :: "ext \<Rightarrow> idem_codec \<Rightarrow> path \<Rightarrow> string \<Rightarrow> nat \<Rightarrow> json \<Rightarrow> fw_world \<Rightarrow> bool" where
  "completed_until X I data key limit response w \<longleftrightarrow>
     (\<exists>r. stored X I (idem_store_new data) FILE_WRITE_TOOL key (fw_store w) r \<and> ir_state r = IdemCompleted \<and>
        (\<forall>now \<le> limit. \<not> idem_expired now (ir_ttl r)) \<and> ir_response r = response)"

lemma execute_keeps_record:
  assumes "completed_until X I data key limit response w"
    and "case request_key parse rq of None \<Rightarrow> True
         | Some k \<Rightarrow> if k = key then ie_now (fv_idem v 0) \<le> limit else sha256_hex X k \<noteq> sha256_hex X key"
    and e: "file_write_execute X I parse roots data v rq w = (x, w')"
  shows "completed_until X I data key limit response w' \<and> (request_key parse rq = Some key \<longrightarrow> w' = w)"
proof -
  let ?root = "idem_store_new data"
  let ?p = "record_path X ?root FILE_WRITE_TOOL key"
  obtain r where r: "stored X I ?root FILE_WRITE_TOOL key (fw_store w) r" "ir_state r = IdemCompleted"
      "\<forall>now \<le> limit. \<not> idem_expired now (ir_ttl r)" "ir_response r = response"
    using assms(1) by (auto simp: completed_until_def)
  have same: "completed_until X I data key limit response w'" if "fw_store w' ?p = fw_store w ?p"
    using assms(1) that by (simp add: completed_until_def stored_def)
  consider (out) "w' = w" | (plain) inp c where "parse (rq_payload rq) = Inr inp" "fi_key inp = None" "plain_write X v rq inp c w = (x, w')"
    | (keyed) inp c raw k where "parse (rq_payload rq) = Inr inp" "resolve_allowed roots (fw_host w) (fi_path inp) = Inr c"
        "fi_key inp = Some raw" "normalize_key raw = Inr k"
    using e by (auto simp: file_write_execute_def split: sum.splits option.splits)
  then show ?thesis
  proof cases
    case out
    then show ?thesis using assms(1) by simp
  next
    case plain
    then have "fw_store w' = fw_store w" by (auto simp: plain_write_def split: prod.splits outcome.splits sum.splits)
    then show ?thesis using same plain by (simp add: request_key_def)
  next
    case keyed
    then have rk: "request_key parse rq = Some k" by (simp add: request_key_def)
    obtain y d where l: "idem_lookup X I ?root (fv_idem v 0) FILE_WRITE_TOOL k (fw_store w) = (y, d)" by (rule prod.exhaust)
    show ?thesis
    proof (cases "k = key")
      case True
      have "w' = w"
      proof (cases "ie_read (fv_idem v 0)")
        case None
        have "\<not> idem_expired (ie_now (fv_idem v 0)) (ir_ttl r)" using assms(2) rk True r(3) by simp
        from cached_replay[where parse = parse and rq = rq and inp = inp, OF keyed(1-3) keyed(4)[unfolded True] r(1,2) None this] e
        show ?thesis by simp
      next
        case (Some m)
        then have "idem_lookup X I ?root (fv_idem v 0) FILE_WRITE_TOOL key (fw_store w) =
            (Inl (ExecutionFailed (''idempotency read failed: '' @ m)), fw_store w)"
          using r(1) by (auto simp: stored_def idem_lookup_def Let_def split: option.splits)
        then show ?thesis using e keyed True by (simp add: file_write_execute_def Let_def)
      qed
      then show ?thesis using assms(1) by simp
    next
      case False
      then have o: "sha256_hex X k \<noteq> sha256_hex X key" using assms(2) rk by simp
      have d: "d ?p = fw_store w ?p" by (rule lookup_other[OF l o])
      have "fw_store w' ?p = fw_store w ?p"
        using e keyed l d keyed_write_other[OF _ o] delete_other[OF o]
        by (fastforce simp: file_write_execute_def Let_def split: sum.splits option.splits if_splits)
      then show ?thesis using same rk False by simp
    qed
  qed
qed

lemma write_run_keeps:
  assumes "completed_until X I data key limit response w"
    and "\<forall>(v, rq) \<in> set rqs. case request_key parse rq of None \<Rightarrow> True
         | Some k \<Rightarrow> if k = key then ie_now (fv_idem v 0) \<le> limit else sha256_hex X k \<noteq> sha256_hex X key"
  shows "completed_until X I data key limit response (write_run X I parse roots data rqs w)"
  using assms
proof (induction rqs arbitrary: w)
  case (Cons x rqs)
  obtain v rq where x: "x = (v, rq)" by (rule prod.exhaust)
  have "completed_until X I data key limit response (snd (file_write_execute X I parse roots data v rq w))"
    using execute_keeps_record[OF Cons.prems(1) _ prod.collapse[symmetric]] Cons.prems(2) x by auto
  from Cons.IH[OF this] Cons.prems(2) x show ?case by (simp add: write_run_def)
qed (simp add: write_run_def)

subsection \<open>Properties\<close>

text \<open>C24: the write stays under the allowlist. If no symbolic link lies inside an allowed root, then
  whatever the request, the faults and the outcome, a run changes no file or directory outside the
  canonical allowed roots; and where no root can be resolved it changes nothing at all.\<close>

theorem file_write_confined:
  assumes "real (fw_host w) (h_cwd (fw_host w))" and "link_free (fw_host w) (canonical_roots roots (fw_host w))"
    and "file_write_execute X I parse roots data v rq w = (r, w')"
  shows "(\<forall>q. node (fw_host w') q \<noteq> node (fw_host w) q \<longrightarrow> path_is_under_any q (canonical_roots roots (fw_host w))) \<and>
    (canonical_roots roots (fw_host w) = [] \<longrightarrow> fw_host w' = fw_host w)"
proof (intro conjI allI impI)
  fix q
  assume q: "node (fw_host w') q \<noteq> node (fw_host w) q"
  then obtain inp :: file_write_input and c x where "resolve_allowed roots (fw_host w) (fi_path inp) = Inr c"
    "write_proof X v c (fi_content inp) (fi_mode inp) (fw_host w) = (x, fw_host w')"
    using execute_host[OF assms(3)] by force
  then show "path_is_under_any q (canonical_roots roots (fw_host w))"
    using write_proof_under[OF assms(1,2) _ _ q] by blast
next
  assume "canonical_roots roots (fw_host w) = []"
  then show "fw_host w' = fw_host w"
    using execute_host[OF assms(3)] writer.under by (fastforce simp: path_is_under_any_def)
qed

definition sample_host :: host where
  "sample_host = \<lparr>h_tree = [([], DirN), ([''a''], DirN), ([''a'', ''l''], LinkN ''/b'')], h_cwd = [], h_blocked = []\<rparr>"

definition plain_host :: host where
  "plain_host = \<lparr>h_tree = [([], DirN), ([''a''], DirN)], h_cwd = [], h_blocked = []\<rparr>"

definition ok_env :: fw_env where
  "ok_env = \<lparr>fv_refuse = (\<lambda>_. None), fv_write = WriteOk, fv_flush = False, fv_idem = (\<lambda>_. good_env 5)\<rparr>"

definition sample_parse :: "json \<Rightarrow> string + file_write_input" where
  "sample_parse j =
     (case j of JStr p \<Rightarrow> Inr \<lparr>fi_path = p, fi_content = ''x'', fi_mode = Overwrite, fi_key = None\<rparr>
      | JBool _ \<Rightarrow> Inr \<lparr>fi_path = ''/a/m'', fi_content = ''y'', fi_mode = Overwrite, fi_key = Some ''j''\<rparr>
      | _ \<Rightarrow> Inr \<lparr>fi_path = ''/a/n'', fi_content = ''x'', fi_mode = Overwrite, fi_key = Some ''k''\<rparr>)"

lemmas fs_eval = canonicalize_def canonicalize_components_def resolve_target_def canonicalize_target_def components_def
  canonical_roots_def guard_roots_def resolve_allowed_def path_is_under_any_def found_def segments_def absolute_def
  node_def List.map_filter_def MAX_LINKS_def open_target_def

lemma sample_roots: "canonical_roots [''/a''] sample_host = [[''a'']]" "canonical_roots [''/a''] plain_host = [[''a'']]"
  by (simp_all add: fs_eval sample_host_def plain_host_def starts_with_def)

theorem file_write_confined_witness:
  "node (fw_host (snd (file_write_execute sample_ext sample_idem_codec sample_parse [''/a''] ''d'' ok_env
      (request_new 4 7 5 (JStr ''/b'') 10) \<lparr>fw_host = plain_host, fw_store = Map.empty\<rparr>))) [''b''] = None"
proof -
  let ?w = "\<lparr>fw_host = plain_host, fw_store = Map.empty\<rparr>"
  obtain r w' where e: "file_write_execute sample_ext sample_idem_codec sample_parse [''/a''] ''d'' ok_env
      (request_new 4 7 5 (JStr ''/b'') 10) ?w = (r, w')" by (rule prod.exhaust)
  have "h_cwd plain_host = []" by (simp add: plain_host_def)
  then have "real (fw_host ?w) (h_cwd (fw_host ?w))" by simp
  moreover have "link_free (fw_host ?w) (canonical_roots [''/a''] (fw_host ?w))"
    by (simp add: link_free_def plain_host_def)
  ultimately have "\<forall>q. node (fw_host w') q \<noteq> node plain_host q \<longrightarrow> path_is_under_any q [[''a'']]"
    using file_write_confined[OF _ _ e] by (simp add: sample_roots)
  moreover have "node plain_host [''b''] = None" "\<not> path_is_under_any [''b''] [[''a'']]"
    by (simp_all add: node_def plain_host_def path_is_under_any_def)
  ultimately show ?thesis using e by (metis snd_conv)
qed

text \<open>Without that condition it does not stay there. A link inside an allowed root that leads to a
  free name outside passes the check, because it cannot be canonicalized and its name is only
  appended to its directory, and the write then follows it and creates the file outside.\<close>

lemma dangling_link_escapes:
  "(let w = \<lparr>fw_host = sample_host, fw_store = Map.empty\<rparr>;
        w' = snd (file_write_execute sample_ext sample_idem_codec sample_parse [''/a''] ''d'' ok_env
               (request_new 4 7 5 (JStr ''/a/l'') 10) w)
    in canonical_roots [''/a''] (fw_host w) = [[''a'']] \<and> node (fw_host w) [''b''] = None \<and>
       node (fw_host w') [''b''] = Some (FileN ''x''))"
proof -
  have "resolve_allowed [''/a''] sample_host ''/a/l'' = Inr [''a'', ''l'']"
    by (simp add: fs_eval sample_host_def starts_with_def)
  moreover have "create_dir_all (fv_refuse ok_env) [''a''] sample_host = (Inr (), sample_host)"
    by (simp add: create_dir_all_def mkdir_def is_dir_def fs_eval sample_host_def Let_def)
  moreover have "host_write WriteOk [''a'', ''l''] ''x'' sample_host = (Done (Inr ()), set_node [''b''] (FileN ''x'') sample_host)"
    by (simp add: host_write_def write_from_def fs_eval sample_host_def starts_with_def)
  ultimately show ?thesis
    by (simp add: Let_def sample_roots file_write_execute_def sample_parse_def request_new_def plain_write_def write_proof_def
        ok_env_def) (simp add: node_def sample_host_def)
qed

text \<open>C23: a key runs once. Take a keyed write whose path is allowed, for whose key the store has no live
  record, that returns a result and whose outcome could be stored. Then for seven days, whatever requests
  of the skill come in between, with other keys or none, with any faults and process deaths, every request
  under a key that normalises to the same one, whose path is allowed and for which the record can be read,
  is answered without touching the files or the store: with the stored response if the write had
  succeeded, and also with success, but an empty output, if the write had failed. Of SHA-256 it is used
  that no other key that is written in between has the same hash.\<close>

theorem keyed_write_runs_once:
  assumes "codec_reads_back I" "store_works I (fv_idem v 3)" "ie_now (fv_idem v 3) + DEFAULT_TTL_SECS < 2 ^ 64"
    and "request_key parse rq = Some key"
    and "parse (rq_payload rq) = Inr inp" "resolve_allowed roots (fw_host w) (fi_path inp) = Inr c"
    and "fst (idem_lookup X I (idem_store_new data) (fv_idem v 0) FILE_WRITE_TOOL key (fw_store w)) = Inr None"
    and "file_write_execute X I parse roots data v rq w = (Done (Inr res), w1)"
    and "\<forall>(v', rq') \<in> set between. case request_key parse rq' of None \<Rightarrow> True
         | Some k \<Rightarrow> if k = key then ie_now (fv_idem v' 0) \<le> ie_now (fv_idem v 3) + DEFAULT_TTL_SECS
                    else sha256_hex X k \<noteq> sha256_hex X key"
    and "w2 = write_run X I parse roots data between w1"
    and "request_key parse rq2 = Some key"
    and "parse (rq_payload rq2) = Inr inp2" "resolve_allowed roots (fw_host w2) (fi_path inp2) = Inr c2"
    and "ie_read (fv_idem v2 0) = None" "ie_now (fv_idem v2 0) \<le> ie_now (fv_idem v 3) + DEFAULT_TTL_SECS"
  shows "file_write_execute X I parse roots data v2 rq2 w2 =
    (Done (Inr (result_success ''cached idempotent file_write response''
       (if rs_status res = Succeeded then cached_response key (rs_output res) else JNull) (rq_now rq2))), w2)"
proof -
  let ?root = "idem_store_new data" and ?limit = "ie_now (fv_idem v 3) + DEFAULT_TTL_SECS"
  have key: "\<exists>raw. fi_key i = Some raw \<and> normalize_key raw = Inr key"
    if "request_key parse q = Some key" "parse (rq_payload q) = Inr i" for q i
    using that by (auto simp: request_key_def split: option.splits sum.splits)
  obtain raw where raw: "fi_key inp = Some raw" "normalize_key raw = Inr key" using key[OF assms(4,5)] by blast
  obtain raw2 where raw2: "fi_key inp2 = Some raw2" "normalize_key raw2 = Inr key" using key[OF assms(11,12)] by blast
  obtain d where "idem_lookup X I ?root (fv_idem v 0) FILE_WRITE_TOOL key (fw_store w) = (Inr None, d)"
    using assms(7) by (metis prod.collapse)
  then have "keyed_write X I ?root v rq inp c key (w\<lparr>fw_store := d\<rparr>) = (Done (Inr res), w1)"
    using assms(5,6,8) raw by (simp add: file_write_execute_def Let_def)
  from keyed_write_stores[OF assms(1,2) this] obtain r where
    r: "stored X I ?root FILE_WRITE_TOOL key (fw_store w1) r" "ir_state r = IdemCompleted"
      "ir_ttl r = ttl_iso (now_iso (ie_now (fv_idem v 3))) DEFAULT_TTL_SECS"
      "ir_response r = (if rs_status res = Succeeded then rs_output res else JNull)" by blast
  have "completed_until X I data key ?limit (if rs_status res = Succeeded then rs_output res else JNull) w1"
    using r ttl_expired[OF assms(3)] by (auto simp: completed_until_def not_less)
  from write_run_keeps[where roots = roots, OF this assms(9)] obtain r2 where
    r2: "stored X I ?root FILE_WRITE_TOOL key (fw_store w2) r2" "ir_state r2 = IdemCompleted"
      "\<forall>now \<le> ?limit. \<not> idem_expired now (ir_ttl r2)"
      "ir_response r2 = (if rs_status res = Succeeded then rs_output res else JNull)"
    unfolding assms(10) completed_until_def by blast
  have "\<not> idem_expired (ie_now (fv_idem v2 0)) (ir_ttl r2)" using r2(3) assms(15) by simp
  from cached_replay[where parse = parse and inp = inp2, OF assms(12,13) raw2 r2(1,2) assms(14) this] show ?thesis
    by (simp add: r2(4) cached_response_def)
qed

definition failing_env :: fw_env where
  "failing_env = ok_env\<lparr>fv_write := WriteErr 0 (IoOther ''disk full'')\<rparr>"

text \<open>
  The example: the disk is full and the file stays empty; another file is written under another key, and
  the retry of the first write reports success.
\<close>

theorem keyed_write_runs_once_witness:
  "(let rq = request_new 4 7 5 JNull 10;
        exec = file_write_execute sample_ext sample_idem_codec sample_parse [''/a''] ''d'';
        (r1, w1) = exec failing_env rq \<lparr>fw_host = plain_host, fw_store = Map.empty\<rparr>
    in r1 = Done (Inr (result_failure (''execution failed: tiedoston kirjoitus'' @ failed_suffix @ ''disk full'') 10)) \<and>
       node (fw_host w1) [''a'', ''n''] = Some (FileN []) \<and>
       (let w2 = snd (exec ok_env (request_new 4 7 5 (JBool True) 10) w1)
        in exec ok_env rq w2 = (Done (Inr (result_success ''cached idempotent file_write response'' JNull 10)), w2)))"
proof -
  let ?w = "\<lparr>fw_host = plain_host, fw_store = Map.empty\<rparr>" and ?rq = "request_new 4 7 5 JNull 10"
  let ?exec = "file_write_execute sample_ext sample_idem_codec sample_parse [''/a''] ''d''"
  let ?inp = "\<lparr>fi_path = ''/a/n'', fi_content = ''x'', fi_mode = Overwrite, fi_key = Some ''k''\<rparr>"
  let ?h1 = "set_node [''a'', ''n''] (FileN []) plain_host"
  have parse: "sample_parse (rq_payload ?rq) = Inr ?inp" by (simp add: sample_parse_def request_new_def)
  have res: "resolve_allowed [''/a''] plain_host ''/a/n'' = Inr [''a'', ''n'']"
    "resolve_allowed [''/a''] ?h1 ''/a/n'' = Inr [''a'', ''n'']"
    by (simp_all add: fs_eval plain_host_def set_node_def starts_with_def)
  have key: "normalize_key ''k'' = Inr ''default:k''" and keyj: "normalize_key ''j'' = Inr ''default:j''" by code_simp+
  have other: "sha256_hex sample_ext ''default:j'' \<noteq> sha256_hex sample_ext ''default:k''" by code_simp
  have store: "store_works sample_idem_codec (good_env 5)"
    by (simp add: store_works_def good_env_def sample_codec_prints)
  have mk: "create_dir_all (fv_refuse failing_env) [''a''] plain_host = (Inr (), plain_host)"
    by (simp add: create_dir_all_def mkdir_def is_dir_def fs_eval plain_host_def Let_def)
  have wr: "host_write (WriteErr 0 (IoOther ''disk full'')) [''a'', ''n''] ''x'' plain_host =
      (Done (Inl (IoOther ''disk full'')), ?h1)"
    by (simp add: host_write_def write_from_def fs_eval plain_host_def starts_with_def)
  have wp: "write_proof sample_ext failing_env [''a'', ''n''] ''x'' Overwrite plain_host =
      (Done (Inl (ExecutionFailed (''tiedoston kirjoitus'' @ failed_suffix @ ''disk full''))), ?h1)"
    using mk wr by (simp add: write_proof_def failing_env_def)
  have look: "idem_lookup sample_ext sample_idem_codec (idem_store_new ''d'') (fv_idem failing_env 0) FILE_WRITE_TOOL
      ''default:k'' Map.empty = (Inr None, Map.empty)" by (simp add: idem_lookup_def Let_def)
  have idem: "fv_idem failing_env n = good_env 5" for n by (simp add: failing_env_def ok_env_def)
  obtain d where d: "idem_begin sample_ext sample_idem_codec (idem_store_new ''d'') (good_env 5) FILE_WRITE_TOOL
      ''default:k'' JNull 0 Map.empty = (Done (Inr ()), d)"
    using working_put[OF store] unfolding idem_begin_def by blast
  obtain d' where d': "idem_fail sample_ext sample_idem_codec (idem_store_new ''d'') (good_env 5) FILE_WRITE_TOOL
      ''default:k'' JNull (show_error (ExecutionFailed (''tiedoston kirjoitus'' @ failed_suffix @ ''disk full'')))
      False DEFAULT_TTL_SECS d = (Done (Inr ()), d')"
    using working_put[OF store] unfolding idem_fail_def by blast
  let ?r1 = "result_failure (show_error (ExecutionFailed (''tiedoston kirjoitus'' @ failed_suffix @ ''disk full''))) 10"
  have first: "?exec failing_env ?rq ?w = (Done (Inr ?r1), \<lparr>fw_host = ?h1, fw_store = d'\<rparr>)"
    using parse res(1) key look idem d d' wp
    by (simp add: file_write_execute_def keyed_write_def Let_def request_new_def)
  let ?w1 = "\<lparr>fw_host = ?h1, fw_store = d'\<rparr>" and ?rqj = "request_new 4 7 5 (JBool True) 10"
  let ?w2 = "snd (?exec ok_env ?rqj ?w1)"
  let ?root = "idem_store_new ''d''" and ?h2 = "set_node [''a'', ''m''] (FileN ''y'') ?h1"
  have "d (record_path sample_ext ?root FILE_WRITE_TOOL ''default:j'') = None"
    using put_other[OF d[unfolded idem_begin_def], of "''default:j''"] other by simp
  then have "d' (record_path sample_ext ?root FILE_WRITE_TOOL ''default:j'') = None"
    using put_other[OF d'[unfolded idem_fail_def], of "''default:j''"] other by (simp add: fail_record_def)
  then have lookj: "idem_lookup sample_ext sample_idem_codec ?root (good_env 5) FILE_WRITE_TOOL ''default:j'' d' = (Inr None, d')"
    by (simp add: idem_lookup_def Let_def good_env_def)
  obtain e where e: "idem_begin sample_ext sample_idem_codec ?root (good_env 5) FILE_WRITE_TOOL
      ''default:j'' (JBool True) 0 d' = (Done (Inr ()), e)"
    using working_put[OF store] unfolding idem_begin_def by blast
  have "create_dir_all (fv_refuse ok_env) [''a''] ?h1 = (Inr (), ?h1)"
    by (simp add: create_dir_all_def mkdir_def is_dir_def fs_eval plain_host_def set_node_def Let_def)
  moreover have "host_write WriteOk [''a'', ''m''] ''y'' ?h1 = (Done (Inr ()), ?h2)"
    by (simp add: host_write_def write_from_def fs_eval plain_host_def set_node_def starts_with_def)
  ultimately have wj: "\<exists>out. write_proof sample_ext ok_env [''a'', ''m''] ''y'' Overwrite ?h1 = (Done (Inr out), ?h2)"
    by (simp add: write_proof_def ok_env_def)
  have "resolve_allowed [''/a''] ?h1 ''/a/m'' = Inr [''a'', ''m'']"
    by (simp add: fs_eval plain_host_def set_node_def starts_with_def)
  with wj lookj e keyj idem have host2: "fw_host ?w2 = ?h2"
    by (auto simp: file_write_execute_def keyed_write_def Let_def request_new_def sample_parse_def ok_env_def
        split: prod.splits outcome.splits)
  have after: "resolve_allowed [''/a''] (fw_host ?w2) ''/a/n'' = Inr [''a'', ''n'']"
    unfolding host2 by (simp add: fs_eval plain_host_def set_node_def starts_with_def)
  have run: "?w2 = write_run sample_ext sample_idem_codec sample_parse [''/a''] ''d'' [(ok_env, ?rqj)] ?w1"
    by (simp add: write_run_def)
  have rk: "request_key sample_parse ?rq = Some ''default:k''" "request_key sample_parse ?rqj = Some ''default:j''"
    by (simp_all add: request_key_def request_new_def sample_parse_def key keyj)
  have times: "ie_now (fv_idem ok_env n) = 5" "ie_read (fv_idem ok_env n) = None" for n
    by (simp_all add: ok_env_def good_env_def)
  have "?exec ok_env ?rq ?w2 =
    (Done (Inr (result_success ''cached idempotent file_write response''
       (if rs_status ?r1 = Succeeded then cached_response ''default:k'' (rs_output ?r1) else JNull) (rq_now ?rq))), ?w2)"
    by (rule keyed_write_runs_once[where parse = sample_parse and inp = ?inp and ?inp2.0 = ?inp and v = failing_env and
          between = "[(ok_env, ?rqj)]", OF sample_codec_reads_back _ _ rk(1) parse _ _ first _ run rk(1) parse])
      (use res look idem store times other rk(2) after in \<open>simp_all add: good_env_def DEFAULT_TTL_SECS_def\<close>)
  then show ?thesis
    using first by (simp add: result_failure_def request_new_def Let_def)
qed

end
