(* ===== verification/File_Patch.thy ===== *)
theory File_Patch
  imports File_Write
begin

section \<open>Applying patches under an allowlist\<close>

text \<open>
  Models \<^verbatim>\<open>crates/familyclaw-actions/src/skills/file_patch_apply.rs\<close>: the application of a diff to the
  lines of a file and the executor around it, with the path guard that this skill shares, except for
  its messages, with \<open>File_Write\<close>.
\<close>

definition patch_target :: "host \<Rightarrow> string \<Rightarrow> action_error + names" where
  "patch_target =
     resolve_target (sq @ ''..'' @ sq @ '' at the end of the target path is not allowed (rejected)'')
       ''cannot canonicalize an ancestor of the target path (rejected)''"

definition patch_resolve_allowed :: "file_write_config \<Rightarrow> host \<Rightarrow> string \<Rightarrow> action_error + names" where
  "patch_resolve_allowed roots =
     guard_roots (''no allowed roots '' @ emdash @ '' patch rejected (fail-closed)'')
       ''patch target is outside the allowlist (rejected)'' roots patch_target"

subsection \<open>The patch\<close>

text \<open>\<^verbatim>\<open>slice::join\<close>.\<close>

fun join_lines :: "string list \<Rightarrow> string" where
  "join_lines [] = []"
| "join_lines [l] = l"
| "join_lines (l # ls) = l @ nl # join_lines ls"

fun patch_line :: "string list \<Rightarrow> string \<Rightarrow> string list" where
  "patch_line ls [] = ls"
| "patch_line ls (c # rest) =
     (if c = CHR ''+'' then ls @ [rest]
      else if c = CHR ''-'' then remove1 rest ls
      else if c = CHR '' '' then (if rest \<in> set ls then ls else ls @ [rest])
      else ls)"

text \<open>The inner loop runs to the next hunk header, the outer one looks for headers.\<close>

fun hunk_body :: "string list \<Rightarrow> string list \<Rightarrow> string list \<times> string list" where
  "hunk_body ls [] = (ls, [])"
| "hunk_body ls (p # ps) = (if starts_with ''@@'' p then (ls, p # ps) else hunk_body (patch_line ls p) ps)"

lemma hunk_body_shorter: "hunk_body ls ps = (ls', rest) \<Longrightarrow> length rest \<le> length ps"
  by (induction ls ps arbitrary: ls' rest rule: hunk_body.induct) (fastforce split: if_splits)+

function patch_loop :: "string list \<Rightarrow> string list \<Rightarrow> string list" where
  "patch_loop ls [] = ls"
| "patch_loop ls (p # ps) =
     (if starts_with ''@@'' p then (case hunk_body ls ps of (ls', rest) \<Rightarrow> patch_loop ls' rest)
      else patch_loop ls ps)"
  by pat_completeness auto
termination
  by (relation "measure (\<lambda>(ls, ps). length ps)") (auto split: prod.split dest: hunk_body_shorter simp: less_Suc_eq_le)

definition apply_patch :: "string \<Rightarrow> string \<Rightarrow> string" where
  "apply_patch original patch = join_lines (patch_loop (buf_lines original) (buf_lines patch))"

subsection \<open>The executor\<close>

record file_patch_input =
  pi_path :: string
  pi_patch :: string

record fp_env =
  fq_read :: "io_kind option"
  fq_write :: write_fault

definition abs_diff :: "nat \<Rightarrow> nat \<Rightarrow> nat" where
  "abs_diff a b = (if a < b then b - a else a - b)"

definition patch_output :: "string \<Rightarrow> nat \<Rightarrow> json" where
  "patch_output hash changed =
     json_object [(''path_hash'', JStr hash), (''applied'', JBool True), (''lines_changed'', JNum (PosInt changed))]"

definition file_patch_execute ::
  "ext \<Rightarrow> (json \<Rightarrow> string + file_patch_input) \<Rightarrow> file_write_config \<Rightarrow> fp_env \<Rightarrow> host executor" where
  "file_patch_execute X parse roots v rq h =
     (case parse (rq_payload rq) of
        Inl e \<Rightarrow> (Done (Inr (result_failure (''invalid file_patch_apply input: '' @ e) (rq_now rq))), h)
      | Inr inp \<Rightarrow>
          (case patch_resolve_allowed roots h (pi_path inp) of
             Inl e \<Rightarrow> (Done (Inr (result_failure (''path rejected: '' @ show_error e) (rq_now rq))), h)
           | Inr c \<Rightarrow>
               (case (case read_bytes (fq_read v) h c of
                        Inr raw \<Rightarrow>
                          (if utf8_valid raw then Inr raw else Inl (IoOther ''stream did not contain valid UTF-8''))
                      | Inl k \<Rightarrow> (if k = IoNotFound then Inr [] else Inl k)) of
                  Inl k \<Rightarrow> (Done (Inr (result_failure (''read of allowlisted file failed: '' @ show_io k) (rq_now rq))), h)
                | Inr original \<Rightarrow>
                    (let patched = apply_patch original (pi_patch inp);
                         changed = abs_diff (length (buf_lines patched)) (length (buf_lines original))
                     in case host_write (fq_write v) c patched h of
                          (Killed, h') \<Rightarrow> (Killed, h')
                        | (Done (Inl k), h') \<Rightarrow>
                            (Done (Inr (result_failure (''patch write failed: '' @ show_io k) (rq_now rq))), h')
                        | (Done (Inr _), h') \<Rightarrow>
                            (Done (Inr (result_success
                               (''applied unified patch to allowlisted file ('' @ show_nat changed @ '' line(s) changed)'')
                               (patch_output (hash_path X c) changed) (rq_now rq))), h')))))"

interpretation patcher: path_guard "patch_resolve_allowed roots" "canonical_roots roots" for roots
proof
  fix h :: host and p c r
  show "path_is_under_any c (canonical_roots roots h)" if "patch_resolve_allowed roots h p = Inr c"
    using that guard_roots_under by (simp add: patch_resolve_allowed_def)
  show "real_then_names h c" if "real h (h_cwd h)" "patch_resolve_allowed roots h p = Inr c"
    using resolve_target_real[OF that(1)] guard_roots_under that(2)
    unfolding patch_resolve_allowed_def patch_target_def by blast
  show "real h r" if "real h (h_cwd h)" "r \<in> set (canonical_roots roots h)"
    by (rule canonical_roots_real[OF that])
qed

lemma patch_host:
  assumes "file_patch_execute X parse roots v rq h = (r, h')"
  shows "h' = h \<or> (\<exists>(inp::file_patch_input) c x patched. parse (rq_payload rq) = Inr inp \<and>
    patch_resolve_allowed roots h (pi_path inp) = Inr c \<and> host_write (fq_write v) c patched h = (x, h'))"
proof (cases "parse (rq_payload rq)")
  case (Inr inp)
  show ?thesis
  proof (cases "patch_resolve_allowed roots h (pi_path inp)")
    case (Inr c)
    have "h' = h \<or> (\<exists>x patched. host_write (fq_write v) c patched h = (x, h'))"
      using assms \<open>parse (rq_payload rq) = Inr inp\<close> Inr
      by (auto simp: file_patch_execute_def Let_def split: sum.splits if_splits prod.splits outcome.splits)
    then show ?thesis using \<open>parse (rq_payload rq) = Inr inp\<close> Inr by blast
  qed (use assms Inr in \<open>simp add: file_patch_execute_def\<close>)
qed (use assms in \<open>simp add: file_patch_execute_def\<close>)

subsection \<open>What a patch does to the lines\<close>

text \<open>The lines of the patch that lie in a hunk, and what they ask for.\<close>

fun hunk_lines :: "bool \<Rightarrow> string list \<Rightarrow> string list" where
  "hunk_lines _ [] = []"
| "hunk_lines inside (p # ps) =
     (if starts_with ''@@'' p then hunk_lines True ps
      else if inside then p # hunk_lines True ps else hunk_lines False ps)"

definition marked :: "char \<Rightarrow> string list \<Rightarrow> string list" where
  "marked c ps = List.map_filter (\<lambda>p. case p of [] \<Rightarrow> None | x # rest \<Rightarrow> if x = c then Some rest else None) ps"

lemma hunk_body_lines:
  "hunk_body ls ps = (ls', rest) \<Longrightarrow>
     foldl patch_line ls (hunk_lines True ps) = foldl patch_line ls' (hunk_lines False rest)"
  by (induction ls ps arbitrary: ls' rest rule: hunk_body.induct) (auto split: if_splits)

lemma patch_loop_lines: "patch_loop ls ps = foldl patch_line ls (hunk_lines False ps)"
proof (induction ls ps rule: patch_loop.induct)
  case (2 ls p ps)
  obtain ls' rest where h: "hunk_body ls ps = (ls', rest)" by (rule prod.exhaust)
  then show ?case using 2 hunk_body_lines[OF h] by (simp add: h)
qed simp

lemma marked_Cons: "marked c (p # ps) = (case p of [] \<Rightarrow> [] | x # rest \<Rightarrow> if x = c then [rest] else []) @ marked c ps"
  by (simp add: marked_def List.map_filter_def split: list.splits)

lemma filter_remove1_out: "x \<notin> set (filter P ls) \<Longrightarrow> \<not> P x \<Longrightarrow> filter P (remove1 x ls) = filter P ls"
  by (induction ls) auto

lemma foldl_patch:
  assumes "set (marked (CHR ''-'') ps) \<subseteq> R" "set (marked (CHR '' '') ps) \<subseteq> set ls - R"
  shows "filter (\<lambda>l. l \<notin> R) (foldl patch_line ls ps) =
    filter (\<lambda>l. l \<notin> R) ls @ filter (\<lambda>l. l \<notin> R) (marked (CHR ''+'') ps)"
  using assms
proof (induction ps arbitrary: ls)
  case (Cons p ps)
  let ?f = "filter (\<lambda>l. l \<notin> R)"
  have keep: "set ls - R \<subseteq> set (patch_line ls p) - R"
    using Cons.prems(1) by (cases p) (auto simp: marked_Cons split: if_splits dest: in_set_remove1[THEN iffD2, rotated])
  have step: "?f (patch_line ls p) = ?f ls @ ?f (case p of [] \<Rightarrow> [] | x # rest \<Rightarrow> if x = CHR ''+'' then [rest] else [])"
    using Cons.prems by (cases p) (auto simp: marked_Cons filter_remove1_out split: if_splits)
  have "set (marked (CHR ''-'') ps) \<subseteq> R" "set (marked (CHR '' '') ps) \<subseteq> set (patch_line ls p) - R"
    using Cons.prems keep by (auto simp: marked_Cons)
  from Cons.IH[OF this] step show ?case by (simp add: marked_Cons)
qed (simp add: marked_def List.map_filter_def)

text \<open>What a patch does. If the context lines of its hunks occur in the file and are not removed by
  it, then, the removed lines aside, the new file is the old lines in their order followed by all the
  added lines: a line added in the middle by the diff lands at the end, wherever its hunk says. And of
  two patches with the same lines inside hunks, whatever their headers say, the results agree.\<close>

theorem patch_appends:
  assumes "set (marked (CHR '' '') (hunk_lines False (buf_lines patch))) \<subseteq>
      set (buf_lines original) - set (marked (CHR ''-'') (hunk_lines False (buf_lines patch)))"
  shows "(\<exists>ls. apply_patch original patch = join_lines ls \<and>
      filter (\<lambda>l. l \<notin> set (marked (CHR ''-'') (hunk_lines False (buf_lines patch)))) ls =
        filter (\<lambda>l. l \<notin> set (marked (CHR ''-'') (hunk_lines False (buf_lines patch)))) (buf_lines original) @
        filter (\<lambda>l. l \<notin> set (marked (CHR ''-'') (hunk_lines False (buf_lines patch))))
          (marked (CHR ''+'') (hunk_lines False (buf_lines patch)))) \<and>
    (\<forall>patch2. hunk_lines False (buf_lines patch2) = hunk_lines False (buf_lines patch) \<longrightarrow>
       apply_patch original patch2 = apply_patch original patch)"
  using foldl_patch[OF subset_refl assms] by (auto simp: apply_patch_def patch_loop_lines)

text \<open>The example: a diff that inserts between two lines.\<close>

theorem patch_appends_witness:
  "apply_patch (''a'' @ nl # ''c'' @ [nl])
     (''@@ -1,2 +1,3 @@'' @ nl # '' a'' @ nl # ''+b'' @ nl # '' c'' @ [nl]) = ''a'' @ nl # ''c'' @ nl # ''b'' \<and>
   (\<exists>ls. join_lines ls = ''a'' @ nl # ''c'' @ nl # ''b'' \<and> filter (\<lambda>l. l \<notin> {}) ls = [''a'', ''c''] @ [''b''])"
proof -
  let ?o = "''a'' @ nl # ''c'' @ [nl]" and ?p = "''@@ -1,2 +1,3 @@'' @ nl # '' a'' @ nl # ''+b'' @ nl # '' c'' @ [nl]"
  have l: "buf_lines ?o = [''a'', ''c'']" "hunk_lines False (buf_lines ?p) = ['' a'', ''+b'', '' c'']"
    "marked (CHR '' '') ['' a'', ''+b'', '' c''] = [''a'', ''c'']" "marked (CHR ''-'') ['' a'', ''+b'', '' c''] = []"
    "marked (CHR ''+'') ['' a'', ''+b'', '' c''] = [''b'']" "apply_patch ?o ?p = ''a'' @ nl # ''c'' @ nl # ''b''"
    by code_simp+
  have "set (marked (CHR '' '') (hunk_lines False (buf_lines ?p))) \<subseteq>
      set (buf_lines ?o) - set (marked (CHR ''-'') (hunk_lines False (buf_lines ?p)))"
    unfolding l by simp
  from patch_appends[OF this] show ?thesis unfolding l by auto
qed

text \<open>The patch skill writes under the allowlist. If no symbolic link lies inside an allowed root,
  a run changes at most the file that the requested path resolves to, which lies under a canonical
  root, and makes no directory.\<close>

theorem file_patch_confined:
  assumes "real h (h_cwd h)" and "link_free h (canonical_roots roots h)"
    and "file_patch_execute X parse roots v rq h = (r, h')"
  shows "\<forall>q. node h' q \<noteq> node h q \<longrightarrow> path_is_under_any q (canonical_roots roots h) \<and>
    (\<exists>inp t. parse (rq_payload rq) = Inr inp \<and> patch_resolve_allowed roots h (pi_path inp) = Inr q \<and>
       node h' q = Some (FileN t))"
proof (intro allI impI)
  fix q
  assume q: "node h' q \<noteq> node h q"
  then obtain inp :: file_patch_input and c x patched where i: "parse (rq_payload rq) = Inr inp"
    "patch_resolve_allowed roots h (pi_path inp) = Inr c" "host_write (fq_write v) c patched h = (x, h')"
    using patch_host[OF assms(3)] by blast
  have "q = c" by (rule host_write_plain[OF patcher.plain_target[OF assms(1,2) i(2)] i(3) q])
  moreover have "\<exists>t. node h' q = Some (FileN t)"
    using i(3) q by (auto simp: host_write_def write_from_def split: sum.splits write_fault.splits if_splits)
  ultimately show "path_is_under_any q (canonical_roots roots h) \<and>
    (\<exists>inp t. parse (rq_payload rq) = Inr inp \<and> patch_resolve_allowed roots h (pi_path inp) = Inr q \<and>
       node h' q = Some (FileN t))" using i patcher.under[OF i(2)] by auto
qed

theorem file_patch_confined_witness:
  "node (snd (file_patch_execute sample_ext (\<lambda>_. Inr \<lparr>pi_path = ''/b'', pi_patch = ''x''\<rparr>) [''/a'']
      \<lparr>fq_read = None, fq_write = WriteOk\<rparr> (request_new 4 7 5 JNull 10) plain_host)) [''b''] = None"
proof -
  let ?parse = "\<lambda>_::json. Inr \<lparr>pi_path = ''/b'', pi_patch = ''x''\<rparr> :: string + file_patch_input"
  obtain r h' where e: "file_patch_execute sample_ext ?parse [''/a''] \<lparr>fq_read = None, fq_write = WriteOk\<rparr>
      (request_new 4 7 5 JNull 10) plain_host = (r, h')" by (rule prod.exhaust)
  have "real plain_host (h_cwd plain_host)" by (simp add: plain_host_def)
  moreover have "link_free plain_host (canonical_roots [''/a''] plain_host)" by (simp add: link_free_def plain_host_def)
  ultimately have "\<forall>q. node h' q \<noteq> node plain_host q \<longrightarrow> path_is_under_any q [[''a'']]"
    using file_patch_confined[OF _ _ e] by (simp add: sample_roots)
  moreover have "node plain_host [''b''] = None" "\<not> path_is_under_any [''b''] [[''a'']]"
    by (simp_all add: node_def plain_host_def path_is_under_any_def)
  ultimately show ?thesis using e by (metis snd_conv)
qed

end
