(* ===== verification/Fs_Read.thy ===== *)
theory Fs_Read
  imports File_Write
begin

section \<open>Reading files under an allowlist\<close>

text \<open>
  Models \<^verbatim>\<open>crates/familyclaw-actions/src/skills/fs_read.rs\<close>: the path guard, the reading of files and
  directories, the summaries and the executor, over the file system of \<open>Symlink_Fs\<close>. \<open>fr_env\<close> holds the
  faults of one call.
\<close>

definition SUMMARY_MAX_BYTES :: nat where
  "SUMMARY_MAX_BYTES = 120"

definition DIR_LIST_MAX_ENTRIES :: nat where
  "DIR_LIST_MAX_ENTRIES = 64"

definition FULL_CONTENT_MAX_BYTES :: nat where
  "FULL_CONTENT_MAX_BYTES = 64 * 1024"

record fs_read_input =
  ri_path :: string
  ri_full :: bool

record fs_read_output =
  ro_hash :: string
  ro_size :: nat
  ro_summary :: string
  ro_trusted :: bool
  ro_listing :: "string option"

record fs_read_config =
  rd_allow :: "string list"
  rd_trusted :: "string list"

definition fs_read_new :: fs_read_config where
  "fs_read_new = \<lparr>rd_allow = [], rd_trusted = []\<rparr>"

definition read_allow_root :: "string \<Rightarrow> fs_read_config \<Rightarrow> fs_read_config" where
  "read_allow_root root c = c\<lparr>rd_allow := rd_allow c @ [root]\<rparr>"

definition trusted_root :: "string \<Rightarrow> fs_read_config \<Rightarrow> fs_read_config" where
  "trusted_root root c = c\<lparr>rd_allow := rd_allow c @ [root], rd_trusted := rd_trusted c @ [root]\<rparr>"

definition read_resolve_allowed :: "fs_read_config \<Rightarrow> host \<Rightarrow> string \<Rightarrow> action_error + names" where
  "read_resolve_allowed cfg h requested =
     (let rs = canonical_roots (rd_allow cfg) h in
      if rs = [] then Inl (PolicyDeniedErr (''fs_read allowlist is empty (fail-closed default) '' @ emdash @
                             '' the operator must configure allowed roots''))
      else case canonicalize h requested of
             Inl k \<Rightarrow> Inl (PolicyDeniedErr (''path does not exist or could not be resolved (rejected): '' @ show_io k))
           | Inr c \<Rightarrow>
               (if path_is_under_any c rs then Inr c
                else Inl (PolicyDeniedErr (''path is outside all '' @ show_nat (length rs) @ '' allowlisted root(s) '' @
                       emdash @ '' ask the operator to extend the fs_read allowlist''))))"

subsection \<open>Text\<close>

definition replacement :: "nat list" where
  "replacement = [0xEF, 0xBF, 0xBD]"

text \<open>
  The character at the front of some bytes: its length, or the length of the longest prefix of a
  character that cannot be continued (\<open>Inl\<close>).
\<close>

fun utf8_step :: "nat list \<Rightarrow> nat + nat" where
  "utf8_step [] = Inl 1"
| "utf8_step (b # bs) =
     (if b < 0x80 then Inr 1
      else if 0xC2 \<le> b \<and> b \<le> 0xDF then
        (case bs of c # _ \<Rightarrow> if utf8_cont c then Inr 2 else Inl 1 | [] \<Rightarrow> Inl 1)
      else if 0xE0 \<le> b \<and> b \<le> 0xEF then
        (case bs of
           c # r \<Rightarrow>
             (if utf8_cont c \<and> (b = 0xE0 \<longrightarrow> 0xA0 \<le> c) \<and> (b = 0xED \<longrightarrow> c \<le> 0x9F)
              then (case r of d # _ \<Rightarrow> if utf8_cont d then Inr 3 else Inl 2 | [] \<Rightarrow> Inl 2)
              else Inl 1)
         | [] \<Rightarrow> Inl 1)
      else if 0xF0 \<le> b \<and> b \<le> 0xF4 then
        (case bs of
           c # r \<Rightarrow>
             (if utf8_cont c \<and> (b = 0xF0 \<longrightarrow> 0x90 \<le> c) \<and> (b = 0xF4 \<longrightarrow> c \<le> 0x8F)
              then (case r of
                      d # r' \<Rightarrow>
                        (if utf8_cont d
                         then (case r' of e # _ \<Rightarrow> if utf8_cont e then Inr 4 else Inl 3 | [] \<Rightarrow> Inl 3)
                         else Inl 2)
                    | [] \<Rightarrow> Inl 2)
              else Inl 1)
         | [] \<Rightarrow> Inl 1)
      else Inl 1)"

lemma utf8_step_pos: "utf8_step bs = Inl n \<Longrightarrow> 0 < n" "utf8_step bs = Inr n \<Longrightarrow> 0 < n"
  by (cases bs; auto split: list.splits if_splits)+

text \<open>\<^verbatim>\<open>String::from_utf8_lossy\<close>: such a prefix becomes one replacement character.\<close>

function lossy :: "nat list \<Rightarrow> nat list" where
  "lossy [] = []"
| "lossy (b # bs) =
     (case utf8_step (b # bs) of
        Inr n \<Rightarrow> take n (b # bs) @ lossy (drop n (b # bs))
      | Inl n \<Rightarrow> replacement @ lossy (drop n (b # bs)))"
  by pat_completeness auto
termination
proof (relation "measure length")
  show "(drop n (b # bs), b # bs) \<in> measure length" if "utf8_step (b # bs) = Inr n" for b bs n
    using utf8_step_pos(2)[OF that] by simp
  show "(drop n (b # bs), b # bs) \<in> measure length" if "utf8_step (b # bs) = Inl n" for b bs n
    using utf8_step_pos(1)[OF that] by simp
qed simp

definition from_utf8_lossy :: "string \<Rightarrow> string" where
  "from_utf8_lossy s = map char_of (lossy (map of_char s))"

text \<open>\<^verbatim>\<open>str::is_char_boundary\<close> inside a text, and the loop of \<^verbatim>\<open>truncate_utf8\<close>.\<close>

fun boundary_below :: "string \<Rightarrow> nat \<Rightarrow> nat" where
  "boundary_below s 0 = 0"
| "boundary_below s (Suc n) = (if utf8_cont (of_char (s ! Suc n)) then boundary_below s n else Suc n)"

definition truncate_utf8 :: "nat \<Rightarrow> string \<Rightarrow> string" where
  "truncate_utf8 max_bytes s = (if length s \<le> max_bytes then s else take (boundary_below s max_bytes) s)"

text \<open>Without the control characters, which UTF-8 writes as one byte, or as C2 and one byte.\<close>

fun drop_controls :: "nat list \<Rightarrow> nat list" where
  "drop_controls [] = []"
| "drop_controls (b # bs) =
     (if b < 0x20 \<or> b = 0x7F then drop_controls bs
      else if b = 0xC2 then
        (case bs of
           c # r \<Rightarrow> if 0x80 \<le> c \<and> c \<le> 0x9F then drop_controls r else b # drop_controls bs
         | [] \<Rightarrow> [b])
      else b # drop_controls bs)"

definition summarize :: "string \<Rightarrow> string" where
  "summarize bytes =
     (let first_line = (case buf_lines (from_utf8_lossy bytes) of [] \<Rightarrow> [] | l # _ \<Rightarrow> l)
      in trim (truncate_utf8 SUMMARY_MAX_BYTES (map char_of (drop_controls (map of_char first_line)))))"

subsection \<open>Reading\<close>

record fr_env =
  fr_meta :: "io_kind option"
  fr_read :: "io_kind option"
  fr_again :: "io_kind option"   \<comment> \<open>the second read, of the full content\<close>
  fr_dir :: "io_kind option"
  fr_untyped :: "string list"     \<comment> \<open>entries whose type cannot be read\<close>

definition map_fs_error :: "names \<Rightarrow> io_kind \<Rightarrow> action_error" where
  "map_fs_error p k =
     ExecutionFailed
       (if k = IoNotFound then ''path not found: '' @ path_str p @ '' (check the path or create the file with file_write)''
        else if k = IoPermission then ''access denied for path '' @ path_str p @ '' '' @ emdash @
          '' check that the path is on the allowlist and does not point to a forbidden root''
        else ''file read failed ('' @ path_str p @ ''): '' @ show_io k)"

definition dir_entries :: "host \<Rightarrow> names \<Rightarrow> string list" where
  "dir_entries h p =
     sort (map List.last (filter (\<lambda>q. q \<noteq> [] \<and> butlast q = p) (map fst (h_tree h))))"

fun join_with :: "string \<Rightarrow> string list \<Rightarrow> string" where
  "join_with sep [] = []"
| "join_with sep [l] = l"
| "join_with sep (l # ls) = l @ sep @ join_with sep ls"

definition ellipsis :: string where
  "ellipsis = [char_of (0xE2 :: nat), char_of (0x80 :: nat), char_of (0xA6 :: nat)]"

definition dir_listing :: "fr_env \<Rightarrow> host \<Rightarrow> names \<Rightarrow> string" where
  "dir_listing v h p =
     (let entries = dir_entries h p;
          ns = map (\<lambda>n. if n \<notin> set (fr_untyped v) \<and> node h (p @ [n]) = Some DirN then n @ ''/'' else n)
                 (take DIR_LIST_MAX_ENTRIES entries)
      in (if ns = [] then ''[empty directory]'' else ''dir: '' @ join_with '', '' ns) @
         (if DIR_LIST_MAX_ENTRIES < length entries
          then '' '' @ ellipsis @ '' and '' @ show_nat (length entries - DIR_LIST_MAX_ENTRIES) @ '' more'' else []))"

definition read_directory_proof ::
  "ext \<Rightarrow> fs_read_config \<Rightarrow> fr_env \<Rightarrow> host \<Rightarrow> names \<Rightarrow> action_error + fs_read_output" where
  "read_directory_proof X cfg v h c =
     (case fr_dir v of
        Some k \<Rightarrow> Inl (map_fs_error c k)
      | None \<Rightarrow>
          (let listing = dir_listing v h c
           in Inr \<lparr>ro_hash = hash_path X c, ro_size = length (dir_entries h c),
                   ro_summary = truncate_utf8 SUMMARY_MAX_BYTES listing,
                   ro_trusted = path_is_under_any c (canonical_roots (rd_trusted cfg) h),
                   ro_listing = Some listing\<rparr>))"

definition read_proof :: "ext \<Rightarrow> fs_read_config \<Rightarrow> fr_env \<Rightarrow> host \<Rightarrow> names \<Rightarrow> action_error + fs_read_output" where
  "read_proof X cfg v h c =
     (case fr_meta v of
        Some k \<Rightarrow> Inl (map_fs_error c k)
      | None \<Rightarrow>
          (if is_dir h c then read_directory_proof X cfg v h c
           else case read_bytes (fr_read v) h c of
                  Inl k \<Rightarrow> Inl (map_fs_error c k)
                | Inr bytes \<Rightarrow>
                    Inr \<lparr>ro_hash = hash_path X c, ro_size = length bytes, ro_summary = summarize bytes,
                         ro_trusted = path_is_under_any c (canonical_roots (rd_trusted cfg) h), ro_listing = None\<rparr>))"

definition read_members :: "fr_env \<Rightarrow> host \<Rightarrow> names \<Rightarrow> bool \<Rightarrow> fs_read_output \<Rightarrow> (string \<times> json) list" where
  "read_members v h c full out =
     [(''path_hash'', JStr (ro_hash out)), (''size'', JNum (PosInt (ro_size out))),
      (''summary'', JStr (ro_summary out)), (''trusted'', JBool (ro_trusted out))] @
     (if is_dir h c then (case ro_listing out of None \<Rightarrow> [] | Some l \<Rightarrow> [(''content'', JStr l)])
      else if full then
        (case read_bytes (fr_again v) h c of
           Inl _ \<Rightarrow> []
         | Inr bytes \<Rightarrow> [(''content'', JStr (truncate_utf8 FULL_CONTENT_MAX_BYTES (from_utf8_lossy bytes)))])
      else [])"

definition read_summary :: "fs_read_output \<Rightarrow> string" where
  "read_summary out =
     (if starts_with ''dir:'' (ro_summary out) \<or> ro_summary out = ''[empty directory]''
      then ''listed '' @ show_nat (ro_size out) @ '' entries in allowlisted directory''
      else ''read '' @ show_nat (ro_size out) @ '' byte(s) from allowlisted path'')"

definition fs_read_execute ::
  "ext \<Rightarrow> (json \<Rightarrow> string + fs_read_input) \<Rightarrow> fs_read_config \<Rightarrow> fr_env \<Rightarrow> host executor" where
  "fs_read_execute X parse cfg v rq h =
     (Done (Inr
        (case parse (rq_payload rq) of
           Inl e \<Rightarrow> result_failure (''invalid fs_read input: '' @ e) (rq_now rq)
         | Inr inp \<Rightarrow>
             (case read_resolve_allowed cfg h (ri_path inp) of
                Inl e \<Rightarrow> result_failure (''path rejected: '' @ show_error e) (rq_now rq)
              | Inr c \<Rightarrow>
                  (case read_proof X cfg v h c of
                     Inl e \<Rightarrow> result_failure (show_error e) (rq_now rq)
                   | Inr out \<Rightarrow>
                       (let result = result_success (read_summary out)
                              (json_object (read_members v h c (ri_full inp) out)) (rq_now rq)
                        in if ro_trusted out then result_trusted result else result))))), h)"

subsection \<open>Bounds and valid text\<close>

lemma boundary_below_le: "boundary_below s n \<le> n"
  by (induction n) auto

lemma truncate_bound: "length (truncate_utf8 m s) \<le> m"
  using boundary_below_le[of s m] by (simp add: truncate_utf8_def)

lemma truncate_keeps: "length s \<le> m \<Longrightarrow> truncate_utf8 m s = s"
  by (simp add: truncate_utf8_def)

lemma truncate_prefix: "prefix (truncate_utf8 m s) s"
  by (simp add: truncate_utf8_def take_is_prefix)

lemma utf8_ok_step:
  assumes "utf8_ok (b # bs)"
  shows "\<exists>n. utf8_step (b # bs) = Inr n \<and> utf8_ok (drop n (b # bs))"
proof -
  consider "b < 0x80" | c r where "0xC2 \<le> b" "b \<le> 0xDF" "bs = c # r"
    | c d r where "0xE0 \<le> b" "b \<le> 0xEF" "bs = c # d # r"
    | c d e r where "0xF0 \<le> b" "b \<le> 0xF4" "bs = c # d # e # r"
  proof -
    have lengths: "b < 0x80 \<or> (0xC2 \<le> b \<and> b \<le> 0xDF \<and> 1 \<le> length bs) \<or> (0xE0 \<le> b \<and> b \<le> 0xEF \<and> 2 \<le> length bs) \<or>
        (0xF0 \<le> b \<and> b \<le> 0xF4 \<and> 3 \<le> length bs)"
      using assms by (simp split: if_splits list.splits)
    have "1 \<le> length bs \<Longrightarrow> \<exists>c r. bs = c # r" "2 \<le> length bs \<Longrightarrow> \<exists>c d r. bs = c # d # r"
      "3 \<le> length bs \<Longrightarrow> \<exists>c d e r. bs = c # d # e # r"
      by (cases bs; simp; cases "List.tl bs"; simp; cases "List.tl (List.tl bs)"; simp)+
    then show thesis using lengths that by blast
  qed
  then show ?thesis using assms by cases auto
qed

lemma lossy_valid: "utf8_ok bs \<Longrightarrow> lossy bs = bs"
proof (induction bs rule: lossy.induct)
  case (2 b bs)
  then obtain n where n: "utf8_step (b # bs) = Inr n" "utf8_ok (drop n (b # bs))" using utf8_ok_step by blast
  then show ?case using "2.IH"(2)[OF n] by (simp del: utf8_step.simps)
qed simp

lemma lossy_text: "utf8_valid s \<Longrightarrow> from_utf8_lossy s = s"
  by (simp add: utf8_valid_def from_utf8_lossy_def lossy_valid o_def)

lemma trim_start_shorter: "length (trim_start_codes s) \<le> length s"
proof (induction s rule: trim_start_codes.induct)
  case (1 s)
  then show ?case by (subst trim_start_codes.simps) auto
qed

lemma trim_end_shorter: "length (trim_end_codes s) \<le> length s"
proof (induction s rule: trim_end_codes.induct)
  case (1 s)
  then show ?case by (subst trim_end_codes.simps) auto
qed

lemma trim_shorter: "length (trim s) \<le> length s"
proof -
  have "length (trim_end t) \<le> length t" "length (trim_start t) \<le> length t" for t
    using trim_end_shorter[of "rev (map of_char t)"] trim_start_shorter[of "map of_char t"]
    by (simp_all add: trim_end_def trim_start_def)
  then show ?thesis unfolding trim_def by (rule order_trans)
qed

subsection \<open>What a read reveals\<close>

interpretation reader: path_guard "read_resolve_allowed cfg" "canonical_roots (rd_allow cfg)" for cfg
proof
  fix h :: host and p c r
  have rd: "path_is_under_any c (canonical_roots (rd_allow cfg) h) \<and> canonicalize h p = Inr c"
    if "read_resolve_allowed cfg h p = Inr c"
    using that by (auto simp: read_resolve_allowed_def Let_def split: if_splits sum.splits)
  show "path_is_under_any c (canonical_roots (rd_allow cfg) h)" if "read_resolve_allowed cfg h p = Inr c"
    using rd[OF that] by simp
  show "real_then_names h c" if "real h (h_cwd h)" "read_resolve_allowed cfg h p = Inr c"
  proof -
    have "real h c" using canonicalize_real[OF that(1)] rd[OF that(2)] by blast
    then have "c = c @ [] \<and> real h c \<and> (\<forall>s \<in> set []. normal_name s)" by simp
    then show ?thesis unfolding real_then_names_def by blast
  qed
  show "real h r" if "real h (h_cwd h)" "r \<in> set (canonical_roots (rd_allow cfg) h)"
    by (rule canonical_roots_real[OF that])
qed

lemma walk_canonical: "real h c \<Longrightarrow> walk h n [] c = Reached p \<Longrightarrow> p = c"
proof (cases "c = [] \<or> node h c = None")
  case False
  assume "real h c" "walk h n [] c = Reached p"
  then show ?thesis using plain_real[of h c] False walk_plain[of h "[]" c n] by simp
qed (auto simp: real_def)

lemma read_canonical: "real h c \<Longrightarrow> read_bytes e h c = Inr s \<Longrightarrow> node h c = Some (FileN s)"
  using walk_canonical[of h c MAX_LINKS]
  by (auto simp: read_bytes_def split: walked.splits option.splits fs_node.splits)

lemma dir_canonical: "real h c \<Longrightarrow> is_dir h c \<Longrightarrow> node h c = Some DirN"
  using walk_canonical[of h c MAX_LINKS] by (auto simp: is_dir_def split: walked.splits)

lemma members_get:
  "json_get ''size'' (json_object (read_members v h c full out)) = Some (JNum (PosInt (ro_size out)))"
  "json_get ''summary'' (json_object (read_members v h c full out)) = Some (JStr (ro_summary out))"
  "json_get ''content'' (json_object (read_members v h c full out)) =
     (if is_dir h c then map_option JStr (ro_listing out)
      else if full then (case read_bytes (fr_again v) h c of Inl _ \<Rightarrow> None
        | Inr b \<Rightarrow> Some (JStr (truncate_utf8 FULL_CONTENT_MAX_BYTES (from_utf8_lossy b))))
      else None)"
  unfolding json_object_get read_members_def
  by (cases "is_dir h c"; cases full; cases "ro_listing out"; cases "read_bytes (fr_again v) h c";
      simp add: map_add_def del: map_of_eq_Some_iff map_of_eq_None_iff)+

text \<open>C25: a successful read shows the file or the directory that the path really leads to, and nothing
  else: its place is reached over directories only, it lies under a canonical allowed root, the size
  and summary are those of its bytes, the content is there only when asked for and is the decoded
  text cut to the bound, a directory gives the listing of its entries, and the result is untrusted
  unless that place lies under a trusted root. The files are not changed.\<close>

theorem fs_read_reveals:
  assumes "real h (h_cwd h)" and "fs_read_execute X parse cfg v rq h = (Done (Inr res), h')" and "rs_status res = Succeeded"
  shows "h' = h \<and> (\<exists>inp c. parse (rq_payload rq) = Inr inp \<and> canonicalize h (ri_path inp) = Inr c \<and> real h c \<and>
    path_is_under_any c (canonical_roots (rd_allow cfg) h) \<and>
    (rs_untrusted res \<longleftrightarrow> \<not> path_is_under_any c (canonical_roots (rd_trusted cfg) h)) \<and>
    (case node h c of
       Some (FileN bytes) \<Rightarrow>
         json_get ''size'' (rs_output res) = Some (JNum (PosInt (length bytes))) \<and>
         json_get ''summary'' (rs_output res) = Some (JStr (summarize bytes)) \<and>
         (json_get ''content'' (rs_output res) = None \<or>
          ri_full inp \<and> json_get ''content'' (rs_output res) =
            Some (JStr (truncate_utf8 FULL_CONTENT_MAX_BYTES (from_utf8_lossy bytes))))
     | Some DirN \<Rightarrow> json_get ''content'' (rs_output res) = Some (JStr (dir_listing v h c))
     | _ \<Rightarrow> False))"
proof -
  have "h' = h" using assms(2) by (simp add: fs_read_execute_def)
  obtain inp where inp: "parse (rq_payload rq) = Inr inp"
    using assms(2,3) by (cases "parse (rq_payload rq)") (auto simp: fs_read_execute_def result_failure_def)
  obtain c where c: "read_resolve_allowed cfg h (ri_path inp) = Inr c"
    using assms(2,3) inp by (cases "read_resolve_allowed cfg h (ri_path inp)") (auto simp: fs_read_execute_def result_failure_def)
  obtain out where out: "read_proof X cfg v h c = Inr out"
    using assms(2,3) inp c by (cases "read_proof X cfg v h c") (auto simp: fs_read_execute_def result_failure_def)
  have res: "rs_output res = json_object (read_members v h c (ri_full inp) out)" "rs_untrusted res \<longleftrightarrow> \<not> ro_trusted out"
    using assms(2) inp c out by (auto simp: fs_read_execute_def Let_def result_trusted_def result_success_def)
  have can: "canonicalize h (ri_path inp) = Inr c"
    using c by (auto simp: read_resolve_allowed_def Let_def split: if_splits sum.splits)
  note real = canonicalize_real[OF assms(1) can]
  have trusted: "ro_trusted out \<longleftrightarrow> path_is_under_any c (canonical_roots (rd_trusted cfg) h)"
    using out by (auto simp: read_proof_def read_directory_proof_def Let_def split: option.splits if_splits sum.splits)
  have "case node h c of
       Some (FileN bytes) \<Rightarrow>
         json_get ''size'' (rs_output res) = Some (JNum (PosInt (length bytes))) \<and>
         json_get ''summary'' (rs_output res) = Some (JStr (summarize bytes)) \<and>
         (json_get ''content'' (rs_output res) = None \<or>
          ri_full inp \<and> json_get ''content'' (rs_output res) =
            Some (JStr (truncate_utf8 FULL_CONTENT_MAX_BYTES (from_utf8_lossy bytes))))
     | Some DirN \<Rightarrow> json_get ''content'' (rs_output res) = Some (JStr (dir_listing v h c))
     | _ \<Rightarrow> False"
  proof (cases "is_dir h c")
    case True
    then have "ro_listing out = Some (dir_listing v h c)"
      using out by (auto simp: read_proof_def read_directory_proof_def Let_def split: option.splits)
    then show ?thesis using dir_canonical[OF real True] True by (simp add: res(1) members_get)
  next
    case False
    then obtain bytes where b: "read_bytes (fr_read v) h c = Inr bytes" "ro_size out = length bytes" "ro_summary out = summarize bytes"
      using out by (auto simp: read_proof_def split: option.splits sum.splits)
    then have n: "node h c = Some (FileN bytes)" using read_canonical[OF real] by blast
    have again: "bytes2 = bytes" if "read_bytes (fr_again v) h c = Inr bytes2" for bytes2
      using read_canonical[OF real that] n by simp
    show ?thesis
    proof (cases "read_bytes (fr_again v) h c")
      case (Inl k)
      then show ?thesis using False b n by (simp add: res(1) members_get)
    next
      case (Inr bytes2)
      then show ?thesis using again[OF Inr] False b n by (simp add: res(1) members_get)
    qed
  qed
  then show ?thesis using \<open>h' = h\<close> inp can real reader.under[OF c] res(2) trusted by blast
qed

definition read_host :: host where
  "read_host = \<lparr>h_tree = [([], DirN), ([''a''], DirN), ([''a'', ''f''], FileN ''hi''), ([''l''], LinkN ''a'')],
     h_cwd = [], h_blocked = []\<rparr>"

theorem fs_read_reveals_witness:
  "\<exists>res. fs_read_execute sample_ext (\<lambda>_. Inr \<lparr>ri_path = ''/l/f'', ri_full = True\<rparr>)
      (trusted_root ''/a'' fs_read_new) \<lparr>fr_meta = None, fr_read = None, fr_again = None, fr_dir = None, fr_untyped = []\<rparr>
      (request_new 4 7 5 JNull 10) read_host = (Done (Inr res), read_host) \<and> \<not> rs_untrusted res"
proof -
  let ?v = "\<lparr>fr_meta = None, fr_read = None, fr_again = None, fr_dir = None, fr_untyped = []\<rparr>"
  let ?cfg = "trusted_root ''/a'' fs_read_new" and ?rq = "request_new 4 7 5 JNull 10"
  let ?parse = "\<lambda>_::json. Inr \<lparr>ri_path = ''/l/f'', ri_full = True\<rparr> :: string + fs_read_input"
  have roots: "canonical_roots [''/a''] read_host = [[''a'']]" and can: "canonicalize read_host ''/l/f'' = Inr [''a'', ''f'']"
    by (simp_all add: fs_eval read_host_def starts_with_def)
  have "read_resolve_allowed ?cfg read_host ''/l/f'' = Inr [''a'', ''f'']"
    by (simp add: read_resolve_allowed_def trusted_root_def fs_read_new_def roots can path_is_under_any_def Let_def)
  moreover have "\<exists>out. read_proof sample_ext ?cfg ?v read_host [''a'', ''f''] = Inr out"
    by (simp add: read_proof_def is_dir_def read_bytes_def fs_eval read_host_def)
  ultimately obtain res where e: "fs_read_execute sample_ext ?parse ?cfg ?v ?rq read_host = (Done (Inr res), read_host)"
      "rs_status res = Succeeded"
    by (auto simp: fs_read_execute_def Let_def result_success_def result_trusted_def)
  have "real read_host (h_cwd read_host)" by (simp add: read_host_def)
  from fs_read_reveals[OF this e] have "\<not> rs_untrusted res"
    by (auto simp: can roots trusted_root_def fs_read_new_def path_is_under_any_def)
  with e(1) show ?thesis by blast
qed

text \<open>What a read reveals is bounded. The summary has at most 120 bytes and the content at most 64
  KiB, the content is the start of the decoded file, and a UTF-8 file that fits is returned unchanged.\<close>

theorem fs_read_bounds:
  "length (summarize bytes) \<le> 120 \<and>
   length (truncate_utf8 FULL_CONTENT_MAX_BYTES (from_utf8_lossy bytes)) \<le> 65536 \<and>
   prefix (truncate_utf8 FULL_CONTENT_MAX_BYTES (from_utf8_lossy bytes)) (from_utf8_lossy bytes) \<and>
   (utf8_valid bytes \<and> length bytes \<le> 65536 \<longrightarrow> truncate_utf8 FULL_CONTENT_MAX_BYTES (from_utf8_lossy bytes) = bytes)"
proof (intro conjI impI)
  show "length (summarize bytes) \<le> 120"
    unfolding summarize_def Let_def
    by (rule order_trans[OF trim_shorter]) (use truncate_bound[of SUMMARY_MAX_BYTES] in \<open>simp add: SUMMARY_MAX_BYTES_def\<close>)
  show "length (truncate_utf8 FULL_CONTENT_MAX_BYTES (from_utf8_lossy bytes)) \<le> 65536"
    using truncate_bound[of FULL_CONTENT_MAX_BYTES] by (simp add: FULL_CONTENT_MAX_BYTES_def)
qed (auto simp: truncate_prefix lossy_text truncate_keeps FULL_CONTENT_MAX_BYTES_def)

theorem fs_read_bounds_witness: "truncate_utf8 FULL_CONTENT_MAX_BYTES (from_utf8_lossy ''hi'') = ''hi''"
  using fs_read_bounds[of "''hi''"] by (simp add: utf8_valid_def)

end
