(* ===== verification/Llm_Error.thy ===== *)
theory Llm_Error
  imports Action_Base
begin

section \<open>Errors of language model calls\<close>

text \<open>
  Models the error type of \<^verbatim>\<open>crates/familyclaw-agent/src/llm.rs\<close> with its classification, the
  configuration of an endpoint, and the part of it that turns an HTTP status into an error. The HTTP
  client itself is the parameter \<open>provider\<close> of the failover chain.
\<close>

datatype wire_format = OpenAiChat | GeminiGenerate | AnthropicMessages | Bedrock

fun wire_word :: "wire_format \<Rightarrow> string" where
  "wire_word OpenAiChat = ''openai_chat''"
| "wire_word GeminiGenerate = ''gemini_generate''"
| "wire_word AnthropicMessages = ''anthropic_messages''"
| "wire_word Bedrock = ''bedrock''"

record llm_config =
  lc_base :: string
  lc_key :: string
  lc_model :: string
  lc_max_tokens :: nat
  lc_format :: wire_format
  lc_request_timeout :: "nat option"
  lc_connect_timeout :: "nat option"

definition DEFAULT_MAX_TOKENS :: nat where
  "DEFAULT_MAX_TOKENS = 4096"

definition llm_config_new :: "string \<Rightarrow> string \<Rightarrow> string \<Rightarrow> llm_config" where
  "llm_config_new base key model =
     \<lparr>lc_base = base, lc_key = key, lc_model = model, lc_max_tokens = DEFAULT_MAX_TOKENS, lc_format = OpenAiChat,
      lc_request_timeout = None, lc_connect_timeout = None\<rparr>"

datatype llm_error =
    HttpErr string
  | TimeoutErr string
  | RateLimited string "nat option"  \<comment> \<open>message, Retry-After in seconds\<close>
  | AuthFailed string
  | Overloaded string
  | ModelNotFound string             \<comment> \<open>NotFound\<close>
  | ParseErr string
  | NoContentErr                     \<comment> \<open>NoContent\<close>
  | InvalidTool string

datatype failure_class =
    ClassRateLimited | ClassAuthFailed | ClassOverloaded | ClassProviderNotFound | ClassTimeout | ClassHttp
  | ClassNoContent | ClassParse | ClassInvalidTool

fun class_word :: "failure_class \<Rightarrow> string" where
  "class_word ClassRateLimited = ''rate_limited''"
| "class_word ClassAuthFailed = ''auth_failed''"
| "class_word ClassOverloaded = ''overloaded''"
| "class_word ClassProviderNotFound = ''provider_not_found''"
| "class_word ClassTimeout = ''timeout''"
| "class_word ClassHttp = ''http_error''"
| "class_word ClassNoContent = ''no_content''"
| "class_word ClassParse = ''parse_error''"
| "class_word ClassInvalidTool = ''invalid_tool''"

fun is_retryable :: "llm_error \<Rightarrow> bool" where
  "is_retryable (ParseErr _) = False"
| "is_retryable (InvalidTool _) = False"
| "is_retryable _ = True"

fun class_of_error :: "llm_error \<Rightarrow> failure_class" where
  "class_of_error (RateLimited _ _) = ClassRateLimited"
| "class_of_error (AuthFailed _) = ClassAuthFailed"
| "class_of_error (Overloaded _) = ClassOverloaded"
| "class_of_error (ModelNotFound _) = ClassProviderNotFound"
| "class_of_error (TimeoutErr _) = ClassTimeout"
| "class_of_error (HttpErr _) = ClassHttp"
| "class_of_error NoContentErr = ClassNoContent"
| "class_of_error (ParseErr _) = ClassParse"
| "class_of_error (InvalidTool _) = ClassInvalidTool"

definition DEFAULT_RATE_LIMIT_COOLDOWN :: nat where
  "DEFAULT_RATE_LIMIT_COOLDOWN = 5"

definition DEFAULT_OVERLOAD_COOLDOWN :: nat where
  "DEFAULT_OVERLOAD_COOLDOWN = 2"

text \<open>In seconds.\<close>

fun cooldown_hint :: "llm_error \<Rightarrow> nat option" where
  "cooldown_hint (RateLimited _ retry_after) =
     Some (case retry_after of None \<Rightarrow> DEFAULT_RATE_LIMIT_COOLDOWN | Some s \<Rightarrow> s)"
| "cooldown_hint (Overloaded _) = Some DEFAULT_OVERLOAD_COOLDOWN"
| "cooldown_hint _ = None"

definition str_contains :: "string \<Rightarrow> string \<Rightarrow> bool" where
  "str_contains s p \<longleftrightarrow> str_find p s \<noteq> None"

definition looks_like_model_not_found :: "string \<Rightarrow> bool" where
  "looks_like_model_not_found detail =
     (let lower = to_lower detail in
      (str_contains lower ''model'' \<or> str_contains lower ''function id'') \<and>
      (str_contains lower ''not found'' \<or> str_contains lower ''not_found'' \<or>
       str_contains lower ''does not exist'' \<or> str_contains lower ''unknown model''))"

definition from_status :: "nat \<Rightarrow> string \<Rightarrow> nat option \<Rightarrow> llm_error" where
  "from_status status detail retry_after =
     (let msg = ''HTTP '' @ show_nat status @ '': '' @ detail in
      if status = 429 then RateLimited msg retry_after
      else if status = 401 \<or> status = 403 then AuthFailed msg
      else if status = 503 \<or> status = 529 then Overloaded msg
      else if status = 404 then ModelNotFound msg
      else if status = 400 \<and> looks_like_model_not_found detail then ModelNotFound msg
      else HttpErr msg)"

fun status_message :: "llm_error \<Rightarrow> string option" where
  "status_message (ModelNotFound m) = Some m"
| "status_message (AuthFailed m) = Some m"
| "status_message (Overloaded m) = Some m"
| "status_message (HttpErr m) = Some m"
| "status_message (RateLimited m _) = Some m"
| "status_message _ = None"

text \<open>The digits are read as an unsigned 16-bit number.\<close>

definition http_status_code :: "llm_error \<Rightarrow> nat option" where
  "http_status_code e =
     (case status_message e of
        None \<Rightarrow> None
      | Some m \<Rightarrow>
          (case strip_prefix ''HTTP '' m of
             None \<Rightarrow> None
           | Some rest \<Rightarrow>
               (let ds = takeWhile is_digit rest in
                if ds = [] then None
                else case digits_value 0 ds of None \<Rightarrow> None | Some v \<Rightarrow> if v < 2 ^ 16 then Some v else None)))"

definition redacted_status_line :: "llm_error \<Rightarrow> string" where
  "redacted_status_line e =
     (case http_status_code e of
        Some code \<Rightarrow> ''HTTP '' @ show_nat code
      | None \<Rightarrow> class_word (class_of_error e))"

definition parse_retry_after :: "string option \<Rightarrow> nat option" where
  "parse_retry_after v = (case v of None \<Rightarrow> None | Some s \<Rightarrow> parse_u64 (trim s))"

fun show_llm_error :: "llm_error \<Rightarrow> string" where
  "show_llm_error (HttpErr m) = ''HTTP error: '' @ m"
| "show_llm_error (TimeoutErr m) = ''Timeout error: '' @ m"
| "show_llm_error (RateLimited m (Some s)) = ''Rate limited (retry after '' @ show_nat s @ ''s): '' @ m"
| "show_llm_error (RateLimited m None) = ''Rate limited: '' @ m"
| "show_llm_error (AuthFailed m) = ''Auth failed: '' @ m"
| "show_llm_error (Overloaded m) = ''Provider overloaded: '' @ m"
| "show_llm_error (ModelNotFound m) = ''Model/provider not found: '' @ m"
| "show_llm_error (ParseErr m) = ''Parse error: '' @ m"
| "show_llm_error NoContentErr = ''No content in response''"
| "show_llm_error (InvalidTool m) = ''Invalid tool definition: '' @ m"

subsection \<open>Status lines\<close>

lemma takeWhile_digits: "takeWhile is_digit (show_nat n @ CHR '':'' # r) = show_nat n"
  using show_nat_digits[of _ n] by (simp add: takeWhile_append is_digit_def)

lemma status_of_from_status: "status_message (from_status s d r) = Some (''HTTP '' @ show_nat s @ '': '' @ d)"
  by (simp add: from_status_def Let_def)

text \<open>An error line shown to users carries nothing of the provider's response. For an error made
  from a status it is that status, and for any error it is the word of its class or a status number,
  so that errors of one class and one status show the same line whatever their bodies.\<close>

theorem status_line_hides_body:
  assumes "status < 2 ^ 16"
  shows "redacted_status_line (from_status status detail retry_after) = ''HTTP '' @ show_nat status \<and>
    redacted_status_line e \<in> insert (class_word (class_of_error e)) {''HTTP '' @ show_nat n |n. n < 2 ^ 16}"
proof
  have "http_status_code (from_status status detail retry_after) = Some status"
    using assms takeWhile_digits[of status "'' '' @ detail"]
    by (simp add: http_status_code_def status_of_from_status digits_value_show_nat Let_def)
  then show "redacted_status_line (from_status status detail retry_after) = ''HTTP '' @ show_nat status"
    by (simp add: redacted_status_line_def)
  show "redacted_status_line e \<in> insert (class_word (class_of_error e)) {''HTTP '' @ show_nat n |n. n < 2 ^ 16}"
    by (auto simp: redacted_status_line_def http_status_code_def Let_def split: option.splits if_splits)
qed

theorem status_line_hides_body_witness:
  "redacted_status_line (from_status 401 ''account 42 is blocked'' None) = ''HTTP '' @ show_nat 401"
  using status_line_hides_body[of 401 "''account 42 is blocked''" None] by simp

end
