(* ===== verification/Failover.thy ===== *)
theory Failover
  imports Llm_Error Journal
begin

section \<open>The chain of language models\<close>

text \<open>
  Models \<^verbatim>\<open>crates/familyclaw-agent/src/llm_chain.rs\<close> and \<^verbatim>\<open>ModelConfig\<close> of
  \<^verbatim>\<open>crates/familyclaw-core/src/config.rs\<close>: the resolver of endpoints, the construction of the chain,
  the cooldowns and key rotation, and the completion over two passes. The HTTP client and the clock
  are the record \<open>provider\<close> over a world \<open>'w\<close>. A client holds the configuration it was built from.
  A panic is the outcome \<open>Killed\<close>; it happens while the state is locked, which poisons the lock, and
  every later operation sees that. Calls of several turns are one after another here.
\<close>

subsection \<open>Model configuration (config.rs)\<close>

record model_config =
  mc_primary :: string
  mc_fallbacks :: "string list"

definition model_config_new :: "string \<Rightarrow> model_config" where
  "model_config_new primary = \<lparr>mc_primary = primary, mc_fallbacks = []\<rparr>"

definition with_fallback :: "string \<Rightarrow> model_config \<Rightarrow> model_config" where
  "with_fallback model c = c\<lparr>mc_fallbacks := mc_fallbacks c @ [model]\<rparr>"

definition preference_order :: "model_config \<Rightarrow> string list" where
  "preference_order c = mc_primary c # mc_fallbacks c"

datatype chain_error = ConfigError string

definition model_config_validate :: "model_config \<Rightarrow> chain_error + unit" where
  "model_config_validate c =
     (if str_blank (mc_primary c) then Inl (ConfigError ''model primary must not be empty'')
      else if \<exists>m \<in> set (mc_fallbacks c). str_blank m
        then Inl (ConfigError ''model fallback entries must not be empty'')
      else Inr ())"

subsection \<open>Endpoints\<close>

record resolved_entry =
  re_provider :: string
  re_template :: llm_config
  re_keys :: "string list"

text \<open>\<open>er_env\<close> is the environment: \<^verbatim>\<open>std::env::var(e).unwrap_or_default()\<close>.\<close>

record endpoint_resolver =
  er_providers :: "(string, string \<times> string list \<times> wire_format) hashmap"
  er_max_tokens :: "nat option"
  er_request_timeout :: "nat option"
  er_connect_timeout :: "nat option"

definition resolver_new :: endpoint_resolver where
  "resolver_new = \<lparr>er_providers = [], er_max_tokens = None, er_request_timeout = None, er_connect_timeout = None\<rparr>"

definition with_provider_keys_format ::
  "string \<Rightarrow> string \<Rightarrow> string list \<Rightarrow> wire_format \<Rightarrow> endpoint_resolver \<Rightarrow> endpoint_resolver" where
  "with_provider_keys_format prefix base key_envs f r =
     r\<lparr>er_providers := hm_insert prefix (base, if key_envs = [] then [[]] else key_envs, f) (er_providers r)\<rparr>"

definition with_provider_keys :: "string \<Rightarrow> string \<Rightarrow> string list \<Rightarrow> endpoint_resolver \<Rightarrow> endpoint_resolver" where
  "with_provider_keys prefix base key_envs r = with_provider_keys_format prefix base key_envs OpenAiChat r"

definition with_provider_format ::
  "string \<Rightarrow> string \<Rightarrow> string \<Rightarrow> wire_format \<Rightarrow> endpoint_resolver \<Rightarrow> endpoint_resolver" where
  "with_provider_format prefix base key_env f r =
     r\<lparr>er_providers := hm_insert prefix (base, [key_env], f) (er_providers r)\<rparr>"

definition with_provider :: "string \<Rightarrow> string \<Rightarrow> string \<Rightarrow> endpoint_resolver \<Rightarrow> endpoint_resolver" where
  "with_provider prefix base key_env r = with_provider_format prefix base key_env OpenAiChat r"

definition split_model :: "string \<Rightarrow> string \<times> string" where
  "split_model m =
     (if CHR ''/'' \<in> set m
      then (takeWhile (\<lambda>c. c \<noteq> CHR ''/'') m, List.tl (dropWhile (\<lambda>c. c \<noteq> CHR ''/'') m))
      else (m, m))"

definition apply_tunings :: "endpoint_resolver \<Rightarrow> llm_config \<Rightarrow> llm_config" where
  "apply_tunings r c =
     (let c = (case er_max_tokens r of None \<Rightarrow> c | Some n \<Rightarrow> c\<lparr>lc_max_tokens := n\<rparr>);
          c = (case er_request_timeout r of None \<Rightarrow> c | Some ms \<Rightarrow> c\<lparr>lc_request_timeout := Some ms\<rparr>)
      in (case er_connect_timeout r of None \<Rightarrow> c | Some ms \<Rightarrow> c\<lparr>lc_connect_timeout := Some ms\<rparr>))"

definition unknown_prefix :: "string \<Rightarrow> chain_error" where
  "unknown_prefix m = ConfigError (''unknown provider prefix for model '' @ sq @ m @ sq)"

definition resolve :: "(string \<Rightarrow> string) \<Rightarrow> endpoint_resolver \<Rightarrow> string \<Rightarrow> chain_error + llm_config" where
  "resolve env r m =
     (case split_model m of (provider, model) \<Rightarrow>
        (case hm_get (er_providers r) provider of
           None \<Rightarrow> Inl (unknown_prefix m)
         | Some (base, key_envs, f) \<Rightarrow>
             Inr (apply_tunings r
               ((llm_config_new base (case key_envs of [] \<Rightarrow> [] | e # _ \<Rightarrow> env e) model)\<lparr>lc_format := f\<rparr>))))"

definition resolve_entry :: "(string \<Rightarrow> string) \<Rightarrow> endpoint_resolver \<Rightarrow> string \<Rightarrow> chain_error + resolved_entry" where
  "resolve_entry env r m =
     (case split_model m of (provider, model) \<Rightarrow>
        (case hm_get (er_providers r) provider of
           None \<Rightarrow> Inl (unknown_prefix m)
         | Some (base, key_envs, f) \<Rightarrow>
             Inr \<lparr>re_provider = provider, re_template = apply_tunings r ((llm_config_new base [] model)\<lparr>lc_format := f\<rparr>),
                  re_keys = map env key_envs\<rparr>))"

subsection \<open>The chain\<close>

record entry_health =
  eh_cooled :: "timestamp option"
  eh_strike :: nat
  eh_auth :: nat

definition health_default :: entry_health where
  "health_default = \<lparr>eh_cooled = None, eh_strike = 0, eh_auth = 0\<rparr>"

record chain_entry =
  ce_provider :: string
  ce_template :: llm_config
  ce_keys :: "string list"
  ce_cursor :: nat
  ce_health :: entry_health

definition from_resolved :: "resolved_entry \<Rightarrow> chain_entry" where
  "from_resolved r =
     \<lparr>ce_provider = re_provider r, ce_template = re_template r,
      ce_keys = (if re_keys r = [] then [[]] else re_keys r), ce_cursor = 0, ce_health = health_default\<rparr>"

definition config_with_key :: "llm_config \<Rightarrow> string \<Rightarrow> llm_config" where
  "config_with_key template key = template\<lparr>lc_key := key\<rparr>"

definition effective_config :: "chain_entry \<Rightarrow> llm_config" where
  "effective_config e = config_with_key (ce_template e) (ce_keys e ! ce_cursor e)"

definition switch_to_key :: "nat \<Rightarrow> chain_entry \<Rightarrow> chain_entry" where
  "switch_to_key k e = e\<lparr>ce_cursor := k\<rparr>"

definition mark_healthy :: "chain_entry \<Rightarrow> chain_entry" where
  "mark_healthy e = e\<lparr>ce_health := health_default\<rparr>"

record turn_summary =
  ts_model :: "string option"
  ts_failovers :: nat
  ts_class :: "string option"

record failover =
  fo_entries :: "chain_entry list"
  fo_primary :: string
  fo_last :: "turn_summary option"
  fo_poisoned :: bool

text \<open>In seconds.\<close>

definition COOLDOWN_LADDER :: "nat list" where
  "COOLDOWN_LADDER = [60, 300, 1500, 3600]"

definition AUTH_COOLDOWN_LADDER :: "nat list" where
  "AUTH_COOLDOWN_LADDER = [300, 1800, 7200, 21600]"

definition ladder_at :: "nat list \<Rightarrow> nat \<Rightarrow> nat" where
  "ladder_at ladder strike = ladder ! min (strike - 1) (length ladder - 1)"

definition general_cooldown :: "llm_error \<Rightarrow> nat \<Rightarrow> nat" where
  "general_cooldown e strike =
     (let rung = ladder_at COOLDOWN_LADDER strike
      in case cooldown_hint e of None \<Rightarrow> rung | Some hint \<Rightarrow> max hint rung)"

text \<open>\<^verbatim>\<open>chrono::Duration::from_std\<close> fails above \<^verbatim>\<open>i64::MAX\<close> milliseconds.\<close>

definition chrono_dur :: "nat \<Rightarrow> int" where
  "chrono_dur secs = int (min secs ((2 ^ 63 - 1) div 1000)) * 10 ^ 9"

definition sat_u8 :: "nat \<Rightarrow> nat" where
  "sat_u8 n = min 255 (n + 1)"

text \<open>The cooldown of an entry; adding it to the clock may panic, after the strike was counted.\<close>

definition cool_until :: "ext \<Rightarrow> timestamp \<Rightarrow> nat \<Rightarrow> chain_entry \<Rightarrow> unit outcome \<times> chain_entry" where
  "cool_until X now secs e =
     (let t = now + chrono_dur secs in
      if ts_min X \<le> t \<and> t \<le> ts_max X
      then (Done (), e\<lparr>ce_health := (ce_health e)\<lparr>eh_cooled := Some t\<rparr>\<rparr>)
      else (Killed, e))"

definition cool_auth :: "ext \<Rightarrow> timestamp \<Rightarrow> chain_entry \<Rightarrow> unit outcome \<times> chain_entry" where
  "cool_auth X now e =
     (let n = sat_u8 (eh_auth (ce_health e))
      in cool_until X now (ladder_at AUTH_COOLDOWN_LADDER n) (e\<lparr>ce_health := (ce_health e)\<lparr>eh_auth := n\<rparr>\<rparr>))"

definition cool_general :: "ext \<Rightarrow> timestamp \<Rightarrow> llm_error \<Rightarrow> chain_entry \<Rightarrow> unit outcome \<times> chain_entry" where
  "cool_general X now err e =
     (let n = sat_u8 (eh_strike (ce_health e))
      in cool_until X now (general_cooldown err n) (e\<lparr>ce_health := (ce_health e)\<lparr>eh_strike := n\<rparr>\<rparr>))"

fun cool_provider :: "ext \<Rightarrow> string \<Rightarrow> timestamp \<Rightarrow> chain_entry list \<Rightarrow> unit outcome \<times> chain_entry list" where
  "cool_provider X provider now [] = (Done (), [])"
| "cool_provider X provider now (e # es) =
     (if ce_provider e = provider
      then (case cool_auth X now e of
              (Killed, e') \<Rightarrow> (Killed, e' # es)
            | (Done _, e') \<Rightarrow> (case cool_provider X provider now es of (r, es') \<Rightarrow> (r, e' # es')))
      else (case cool_provider X provider now es of (r, es') \<Rightarrow> (r, e # es')))"

definition is_cooled :: "timestamp \<Rightarrow> entry_health \<Rightarrow> bool" where
  "is_cooled now h \<longleftrightarrow> (case eh_cooled h of None \<Rightarrow> False | Some until \<Rightarrow> now < until)"

datatype failure_step = NextEntry llm_error | RetrySameEntry | FatalStep llm_error

text \<open>Storing an entry that was changed under the lock; a panic poisons it.\<close>

definition put_entries :: "unit outcome \<Rightarrow> chain_entry list \<Rightarrow> failover \<Rightarrow> failover" where
  "put_entries r es st = st\<lparr>fo_entries := es, fo_poisoned := (case r of Killed \<Rightarrow> True | Done _ \<Rightarrow> fo_poisoned st)\<rparr>"

definition next_step :: "unit outcome \<Rightarrow> llm_error \<Rightarrow> failure_step outcome" where
  "next_step r err = (case r of Killed \<Rightarrow> Killed | Done _ \<Rightarrow> Done (NextEntry err))"

definition record_success :: "nat \<Rightarrow> failover \<Rightarrow> failover" where
  "record_success idx st =
     (if fo_poisoned st \<or> length (fo_entries st) \<le> idx then st
      else st\<lparr>fo_entries := (fo_entries st)[idx := mark_healthy (fo_entries st ! idx)]\<rparr>)"

definition untried_key :: "nat list \<Rightarrow> chain_entry \<Rightarrow> nat option" where
  "untried_key tried e = List.find (\<lambda>k. k \<notin> set tried) [0..<length (ce_keys e)]"

definition record_failure ::
  "ext \<Rightarrow> timestamp \<Rightarrow> nat \<Rightarrow> llm_error \<Rightarrow> nat list \<Rightarrow> failover \<Rightarrow> failure_step outcome \<times> nat list \<times> failover" where
  "record_failure X now idx err tried st =
     (if \<not> is_retryable err then (Done (FatalStep err), tried, st)
      else if fo_poisoned st \<or> length (fo_entries st) \<le> idx then (Done (NextEntry err), tried, st)
      else let e = fo_entries st ! idx in
        (case err of
           AuthFailed _ \<Rightarrow>
             (let tried' = List.insert (ce_cursor e) tried in
              case untried_key tried' e of
                Some k \<Rightarrow> (Done RetrySameEntry, tried', st\<lparr>fo_entries := (fo_entries st)[idx := switch_to_key k e]\<rparr>)
              | None \<Rightarrow>
                  (case cool_provider X (ce_provider e) now (fo_entries st) of
                     (r, es) \<Rightarrow> (next_step r err, tried', put_entries r es st)))
         | ModelNotFound _ \<Rightarrow>
             (case cool_auth X now e of
                (r, e') \<Rightarrow> (next_step r err, tried, put_entries r ((fo_entries st)[idx := e']) st))
         | _ \<Rightarrow>
             (case cool_general X now err e of
                (r, e') \<Rightarrow> (next_step r err, tried, put_entries r ((fo_entries st)[idx := e']) st))))"

definition snapshot_clients :: "timestamp \<Rightarrow> bool \<Rightarrow> failover \<Rightarrow> (nat \<times> llm_config) list" where
  "snapshot_clients now only_healthy st =
     (if fo_poisoned st then []
      else map (\<lambda>(i, e). (i, effective_config e))
             (filter (\<lambda>(i, e). \<not> only_healthy \<or> \<not> is_cooled now (ce_health e))
                (zip [0..<length (fo_entries st)] (fo_entries st))))"

definition client_at :: "nat \<Rightarrow> failover \<Rightarrow> llm_config option" where
  "client_at idx st =
     (if fo_poisoned st \<or> length (fo_entries st) \<le> idx then None else Some (effective_config (fo_entries st ! idx)))"

definition record_turn_summary :: "nat option \<Rightarrow> nat \<Rightarrow> string option \<Rightarrow> failover \<Rightarrow> failover" where
  "record_turn_summary success failovers c st =
     st\<lparr>fo_last := Some \<lparr>ts_model =
            (case success of None \<Rightarrow> None
             | Some idx \<Rightarrow>
                 if fo_poisoned st \<or> length (fo_entries st) \<le> idx then None
                 else Some (ce_provider (fo_entries st ! idx) @ ''/'' @ lc_model (ce_template (fo_entries st ! idx)))),
          ts_failovers = failovers, ts_class = c\<rparr>\<rparr>"

definition take_last_turn_summary :: "failover \<Rightarrow> turn_summary option \<times> failover" where
  "take_last_turn_summary st = (fo_last st, st\<lparr>fo_last := None\<rparr>)"

subsection \<open>Completing\<close>

record ('w, 'r) provider =
  lp_call :: "llm_config \<Rightarrow> 'w \<Rightarrow> (llm_error + 'r) \<times> 'w"
  lp_now :: "'w \<Rightarrow> timestamp"

datatype 'r entry_result =
    Answered 'r
  | Moved llm_error
  | GaveUp              \<comment> \<open>the entry has gone: the loop breaks without an error\<close>
  | FatalEntry llm_error
  | Panicked

definition untried :: "nat list \<Rightarrow> nat \<Rightarrow> failover \<Rightarrow> nat" where
  "untried tried idx st =
     (if idx < length (fo_entries st)
      then length (filter (\<lambda>k. k \<notin> set tried) [0..<length (ce_keys (fo_entries st ! idx))]) else 0)"

definition stale :: "nat list \<Rightarrow> nat \<Rightarrow> failover \<Rightarrow> nat" where
  "stale tried idx st =
     (if idx < length (fo_entries st) \<and> ce_cursor (fo_entries st ! idx) < length (ce_keys (fo_entries st ! idx)) \<and>
         ce_cursor (fo_entries st ! idx) \<notin> set tried then 0 else 1)"

lemma untried_key_Some: "untried_key tried e = Some k \<Longrightarrow> k < length (ce_keys e) \<and> k \<notin> set tried"
  by (auto simp: untried_key_def find_Some_iff)

lemma record_failure_retry:
  assumes "record_failure X now idx err tried st = (Done RetrySameEntry, tried', st')"
  shows "\<exists>k. idx < length (fo_entries st) \<and> tried' = List.insert (ce_cursor (fo_entries st ! idx)) tried \<and>
    k < length (ce_keys (fo_entries st ! idx)) \<and> k \<notin> set tried' \<and>
    st' = st\<lparr>fo_entries := (fo_entries st)[idx := switch_to_key k (fo_entries st ! idx)]\<rparr>"
proof -
  have no: "next_step r err \<noteq> Done RetrySameEntry" for r by (cases r) (simp_all add: next_step_def)
  have "\<exists>k. idx < length (fo_entries st) \<and> tried' = List.insert (ce_cursor (fo_entries st ! idx)) tried \<and>
      untried_key tried' (fo_entries st ! idx) = Some k \<and>
      st' = st\<lparr>fo_entries := (fo_entries st)[idx := switch_to_key k (fo_entries st ! idx)]\<rparr>"
    using assms no by (auto simp: record_failure_def Let_def split: if_splits llm_error.splits option.splits prod.splits)
  then show ?thesis using untried_key_Some by blast
qed

lemma filter_insert_le: "length (filter (\<lambda>k. k \<notin> set (List.insert c tried)) xs) \<le> length (filter (\<lambda>k. k \<notin> set tried) xs)"
  by (induction xs) auto

lemma filter_insert_less:
  "c \<in> set xs \<Longrightarrow> c \<notin> set tried \<Longrightarrow>
     length (filter (\<lambda>k. k \<notin> set (List.insert c tried)) xs) < length (filter (\<lambda>k. k \<notin> set tried) xs)"
proof (induction xs)
  case (Cons x xs)
  then show ?case using filter_insert_le[of c tried xs] by (cases "x = c") auto
qed simp

lemma retry_decreases:
  assumes "record_failure X now idx err tried st = (Done RetrySameEntry, tried', st')"
  shows "untried tried' idx st' < untried tried idx st \<or>
    untried tried' idx st' = untried tried idx st \<and> stale tried' idx st' < stale tried idx st"
proof -
  obtain k where k: "idx < length (fo_entries st)" "tried' = List.insert (ce_cursor (fo_entries st ! idx)) tried"
      "k < length (ce_keys (fo_entries st ! idx))" "k \<notin> set tried'"
      "st' = st\<lparr>fo_entries := (fo_entries st)[idx := switch_to_key k (fo_entries st ! idx)]\<rparr>"
    using record_failure_retry[OF assms] by blast
  let ?e = "fo_entries st ! idx"
  have now_fresh: "stale tried' idx st' = 0" using k by (simp add: stale_def switch_to_key_def)
  have u: "untried tried' idx st' = length (filter (\<lambda>j. j \<notin> set tried') [0..<length (ce_keys ?e)])"
    using k by (simp add: untried_def switch_to_key_def)
  show ?thesis
  proof (cases "ce_cursor ?e < length (ce_keys ?e) \<and> ce_cursor ?e \<notin> set tried")
    case True
    then show ?thesis using filter_insert_less[of "ce_cursor ?e" "[0..<length (ce_keys ?e)]" tried] k u
      by (simp add: untried_def)
  next
    case False
    then have "stale tried idx st = 1" by (auto simp: stale_def)
    moreover have "untried tried' idx st' \<le> untried tried idx st"
      using filter_insert_le[of "ce_cursor ?e" tried "[0..<length (ce_keys ?e)]"] k u by (simp add: untried_def)
    ultimately show ?thesis using now_fresh by linarith
  qed
qed

text \<open>The loop over the keys of one entry.\<close>

function entry_loop ::
  "ext \<Rightarrow> ('w, 'r) provider \<Rightarrow> nat \<Rightarrow> llm_config \<Rightarrow> nat list \<Rightarrow> failover \<Rightarrow> 'w \<Rightarrow> 'r entry_result \<times> failover \<times> 'w" where
  "entry_loop X P idx client tried st w =
     (case lp_call P client w of
        (Inr r, w') \<Rightarrow> (Answered r, record_success idx st, w')
      | (Inl err, w') \<Rightarrow>
          (case record_failure X (lp_now P w') idx err tried st of
             (Killed, _, st') \<Rightarrow> (Panicked, st', w')
           | (Done (NextEntry e), _, st') \<Rightarrow> (Moved e, st', w')
           | (Done (FatalStep e), _, st') \<Rightarrow> (FatalEntry e, st', w')
           | (Done RetrySameEntry, tried', st') \<Rightarrow>
               (case client_at idx st' of
                  None \<Rightarrow> (GaveUp, st', w')
                | Some c \<Rightarrow> entry_loop X P idx c tried' st' w')))"
  by pat_completeness auto
termination
  by (relation "measures [\<lambda>(X, P, idx, client, tried, st, w). untried tried idx st,
                          \<lambda>(X, P, idx, client, tried, st, w). stale tried idx st]")
    (auto dest: retry_decreases[OF sym])

declare entry_loop.simps [simp del]

datatype 'r pass_result = PassOk 'r | PassFatal llm_error | PassOn "llm_error option" nat | PassPanic

text \<open>One pass over the clients of a snapshot; \<open>attempted\<close> entries were tried before it.\<close>

fun run_pass ::
  "ext \<Rightarrow> ('w, 'r) provider \<Rightarrow> (nat \<times> llm_config) list \<Rightarrow> nat \<Rightarrow> llm_error option \<Rightarrow> failover \<Rightarrow> 'w \<Rightarrow>
   'r pass_result \<times> failover \<times> 'w" where
  "run_pass X P [] attempted last_err st w = (PassOn last_err attempted, st, w)"
| "run_pass X P ((idx, client) # cs) attempted last_err st w =
     (case entry_loop X P idx client [] st w of
        (Answered r, st', w') \<Rightarrow> (PassOk r, record_turn_summary (Some idx) attempted None st', w')
      | (Moved e, st', w') \<Rightarrow> run_pass X P cs (attempted + 1) (Some e) st' w'
      | (GaveUp, st', w') \<Rightarrow> run_pass X P cs (attempted + 1) last_err st' w'
      | (FatalEntry e, st', w') \<Rightarrow>
          (PassFatal e, record_turn_summary None attempted (Some (class_word (class_of_error e))) st', w')
      | (Panicked, st', w') \<Rightarrow> (PassPanic, st', w'))"

definition last_resort :: "llm_error option \<Rightarrow> llm_error" where
  "last_resort last_err = (case last_err of None \<Rightarrow> NoContentErr | Some e \<Rightarrow> e)"

definition chain_complete ::
  "ext \<Rightarrow> ('w, 'r) provider \<Rightarrow> failover \<Rightarrow> 'w \<Rightarrow> (llm_error + 'r) outcome \<times> failover \<times> 'w" where
  "chain_complete X P st w =
     (case run_pass X P (snapshot_clients (lp_now P w) True st) 0 None st w of
        (PassOk r, st', w') \<Rightarrow> (Done (Inr r), st', w')
      | (PassFatal e, st', w') \<Rightarrow> (Done (Inl e), st', w')
      | (PassPanic, st', w') \<Rightarrow> (Killed, st', w')
      | (PassOn last_err n, st', w') \<Rightarrow>
          (case run_pass X P (snapshot_clients (lp_now P w') False st') n last_err st' w' of
             (PassOk r, st2, w2) \<Rightarrow> (Done (Inr r), st2, w2)
           | (PassFatal e, st2, w2) \<Rightarrow> (Done (Inl e), st2, w2)
           | (PassPanic, st2, w2) \<Rightarrow> (Killed, st2, w2)
           | (PassOn last2 n2, st2, w2) \<Rightarrow>
               (Done (Inl (last_resort last2)),
                record_turn_summary None (n2 - 1) (Some (class_word (class_of_error (last_resort last2)))) st2, w2)))"

text \<open>Both completions have this control flow; \<open>'r\<close> is the text or the result with tool calls.\<close>

definition complete_text :: "ext \<Rightarrow> ('w, string) provider \<Rightarrow> failover \<Rightarrow> 'w \<Rightarrow> (llm_error + string) outcome \<times> failover \<times> 'w" where
  "complete_text = chain_complete"

definition complete_with_tools_choice ::
  "ext \<Rightarrow> ('w, 'r) provider \<Rightarrow> failover \<Rightarrow> 'w \<Rightarrow> (llm_error + 'r) outcome \<times> failover \<times> 'w" where
  "complete_with_tools_choice = chain_complete"

text \<open>Streams: one call per entry, keys are switched but not retried, the second pass records nothing.\<close>

fun stream_first ::
  "ext \<Rightarrow> ('w, 'r) provider \<Rightarrow> (nat \<times> llm_config) list \<Rightarrow> llm_error option \<Rightarrow> failover \<Rightarrow> 'w \<Rightarrow>
   'r pass_result \<times> failover \<times> 'w" where
  "stream_first X P [] last_err st w = (PassOn last_err 0, st, w)"
| "stream_first X P ((idx, client) # cs) last_err st w =
     (case lp_call P client w of
        (Inr r, w') \<Rightarrow> (PassOk r, record_success idx st, w')
      | (Inl e, w') \<Rightarrow>
          (if \<not> is_retryable e then (PassFatal e, st, w')
           else case record_failure X (lp_now P w') idx e [] st of
                  (Killed, _, st') \<Rightarrow> (PassPanic, st', w')
                | (Done _, _, st') \<Rightarrow> stream_first X P cs (Some e) st' w'))"

fun stream_again ::
  "('w, 'r) provider \<Rightarrow> (nat \<times> llm_config) list \<Rightarrow> llm_error option \<Rightarrow> failover \<Rightarrow> 'w \<Rightarrow> 'r pass_result \<times> failover \<times> 'w" where
  "stream_again P [] last_err st w = (PassOn last_err 0, st, w)"
| "stream_again P ((idx, client) # cs) last_err st w =
     (case lp_call P client w of
        (Inr r, w') \<Rightarrow> (PassOk r, record_success idx st, w')
      | (Inl e, w') \<Rightarrow> (if \<not> is_retryable e then (PassFatal e, st, w') else stream_again P cs (Some e) st w'))"

definition complete_stream ::
  "ext \<Rightarrow> ('w, 'r) provider \<Rightarrow> failover \<Rightarrow> 'w \<Rightarrow> (llm_error + 'r) outcome \<times> failover \<times> 'w" where
  "complete_stream X P st w =
     (case stream_first X P (snapshot_clients (lp_now P w) True st) None st w of
        (PassOk r, st', w') \<Rightarrow> (Done (Inr r), st', w')
      | (PassFatal e, st', w') \<Rightarrow> (Done (Inl e), st', w')
      | (PassPanic, st', w') \<Rightarrow> (Killed, st', w')
      | (PassOn last_err _, st', w') \<Rightarrow>
          (case stream_again P (snapshot_clients (lp_now P w') False st') last_err st' w' of
             (PassOk r, st2, w2) \<Rightarrow> (Done (Inr r), st2, w2)
           | (PassFatal e, st2, w2) \<Rightarrow> (Done (Inl e), st2, w2)
           | (PassPanic, st2, w2) \<Rightarrow> (Killed, st2, w2)
           | (PassOn last2 _, st2, w2) \<Rightarrow> (Done (Inl (last_resort last2)), st2, w2)))"

subsection \<open>Building a chain and looking at it\<close>

definition failover_single :: "llm_config \<Rightarrow> failover" where
  "failover_single c =
     \<lparr>fo_entries = [from_resolved \<lparr>re_provider = fst (split_model (lc_model c)), re_template = c, re_keys = [lc_key c]\<rparr>],
      fo_primary = lc_model c, fo_last = None, fo_poisoned = False\<rparr>"

definition build_llm_chain ::
  "(string \<Rightarrow> chain_error + resolved_entry) \<Rightarrow> model_config \<Rightarrow> chain_error + failover" where
  "build_llm_chain resolver c =
     (case model_config_validate c of
        Inl e \<Rightarrow> Inl e
      | Inr _ \<Rightarrow>
          (let entries = List.map_filter (\<lambda>m. case resolver m of Inl _ \<Rightarrow> None | Inr r \<Rightarrow> Some (from_resolved r))
                 (preference_order c)
           in if entries = []
              then Inl (ConfigError (''no usable model: none of '' @ sq @ mc_primary c @ sq @ '' (+'' @
                     show_nat (length (mc_fallbacks c)) @ '' fallbacks) resolved to an endpoint''))
              else Inr \<lparr>fo_entries = entries, fo_primary = mc_primary c, fo_last = None, fo_poisoned = False\<rparr>))"

definition fo_len :: "failover \<Rightarrow> nat" where
  "fo_len st = (if fo_poisoned st then 0 else length (fo_entries st))"

definition primary_config :: "failover \<Rightarrow> llm_config option" where
  "primary_config st =
     (if fo_poisoned st then None else case fo_entries st of [] \<Rightarrow> None | e # _ \<Rightarrow> Some (effective_config e))"

definition primary_llm_config ::
  "(string \<Rightarrow> chain_error + resolved_entry) \<Rightarrow> model_config \<Rightarrow> chain_error + llm_config" where
  "primary_llm_config resolver c =
     (case build_llm_chain resolver c of
        Inl e \<Rightarrow> Inl e
      | Inr st \<Rightarrow> (case primary_config st of None \<Rightarrow> Inl (ConfigError ''empty llm chain has no primary config'')
                   | Some cfg \<Rightarrow> Inr cfg))"

record health_snapshot =
  hs_provider :: string
  hs_model :: string
  hs_healthy :: bool
  hs_cooled :: "timestamp option"
  hs_strike :: nat
  hs_auth :: nat
  hs_pool :: nat
  hs_active :: nat

definition health_snapshots :: "timestamp \<Rightarrow> failover \<Rightarrow> health_snapshot list" where
  "health_snapshots now st =
     (if fo_poisoned st then []
      else map (\<lambda>e. \<lparr>hs_provider = ce_provider e, hs_model = lc_model (ce_template e),
               hs_healthy = (\<not> is_cooled now (ce_health e)), hs_cooled = eh_cooled (ce_health e),
               hs_strike = eh_strike (ce_health e), hs_auth = eh_auth (ce_health e),
               hs_pool = length (ce_keys e), hs_active = ce_cursor e\<rparr>) (fo_entries st))"

end
