(* ===== verification/Failover_Laws.thy ===== *)
theory Failover_Laws
  imports Failover
begin

section \<open>What the chain of models guarantees\<close>

text \<open>
  The invariant of the chain, how many calls a completion makes, when it answers, and the two ways in
  which the cooldowns go wrong.
\<close>

subsection \<open>The invariant\<close>

text \<open>The counters are 8 bits wide, and the cursor points into the pool of keys.\<close>

definition entry_ok :: "chain_entry \<Rightarrow> bool" where
  "entry_ok e \<longleftrightarrow> ce_cursor e < length (ce_keys e) \<and> eh_strike (ce_health e) < 2 ^ 8 \<and> eh_auth (ce_health e) < 2 ^ 8"

definition chain_ok :: "failover \<Rightarrow> bool" where
  "chain_ok st \<longleftrightarrow> (\<forall>e \<in> set (fo_entries st). entry_ok e)"

definition entry_shape :: "chain_entry \<Rightarrow> string \<times> llm_config \<times> string list" where
  "entry_shape e = (ce_provider e, ce_template e, ce_keys e)"

definition shape :: "failover \<Rightarrow> (string \<times> llm_config \<times> string list) list" where
  "shape st = map entry_shape (fo_entries st)"

text \<open>What an operation at \<open>idx\<close> keeps: the shape, the invariant, the cursors of the other entries.\<close>

definition keeps :: "nat \<Rightarrow> failover \<Rightarrow> failover \<Rightarrow> bool" where
  "keeps idx st st' \<longleftrightarrow> shape st' = shape st \<and> (chain_ok st \<longrightarrow> chain_ok st') \<and>
     (\<forall>j < length (fo_entries st). j \<noteq> idx \<longrightarrow> ce_cursor (fo_entries st' ! j) = ce_cursor (fo_entries st ! j))"

lemma shape_length: "shape st' = shape st \<Longrightarrow> length (fo_entries st') = length (fo_entries st)"
  by (metis shape_def length_map)

lemma shape_nth:
  "shape st' = shape st \<Longrightarrow> j < length (fo_entries st) \<Longrightarrow>
     ce_keys (fo_entries st' ! j) = ce_keys (fo_entries st ! j) \<and> ce_template (fo_entries st' ! j) = ce_template (fo_entries st ! j)"
  by (metis (no_types, lifting) shape_def shape_length nth_map entry_shape_def prod.inject)

lemma keeps_refl [simp]: "keeps idx st st"
  by (simp add: keeps_def)

lemma keeps_trans: "keeps idx st st1 \<Longrightarrow> keeps idx st1 st2 \<Longrightarrow> keeps idx st st2"
  unfolding keeps_def using shape_length by metis

lemma keeps_update:
  assumes "entry_shape e' = entry_shape (fo_entries st ! idx)" "entry_ok (fo_entries st ! idx) \<Longrightarrow> entry_ok e'"
    and "fo_entries st' = (fo_entries st)[idx := e']"
  shows "keeps idx st st'"
proof (cases "idx < length (fo_entries st)")
  case True
  have "shape st' = shape st"
    using assms(1,3) True by (simp add: shape_def map_update) (metis list_update_id map_update nth_map)
  moreover have "chain_ok st'" if "chain_ok st"
    using that assms(2,3) True set_update_subset_insert[of "fo_entries st" idx e']
    by (auto simp: chain_ok_def)
  ultimately show ?thesis using assms(3) by (simp add: keeps_def)
next
  case False
  then have "fo_entries st' = fo_entries st" using assms(3) by (simp add: list_update_beyond not_less)
  then show ?thesis by (simp add: keeps_def shape_def chain_ok_def)
qed

lemma sat_u8_less: "sat_u8 n < 2 ^ 8"
  by (simp add: sat_u8_def)

lemma cool_auth_entry:
  "cool_auth X now e = (r, e') \<Longrightarrow> entry_shape e' = entry_shape e \<and> ce_cursor e' = ce_cursor e \<and> (entry_ok e \<longrightarrow> entry_ok e')"
  using sat_u8_less by (auto simp: cool_auth_def cool_until_def Let_def entry_shape_def entry_ok_def split: if_splits)

lemma cool_general_entry:
  "cool_general X now err e = (r, e') \<Longrightarrow> entry_shape e' = entry_shape e \<and> ce_cursor e' = ce_cursor e \<and> (entry_ok e \<longrightarrow> entry_ok e')"
  using sat_u8_less by (auto simp: cool_general_def cool_until_def Let_def entry_shape_def entry_ok_def split: if_splits)

lemma cool_provider_entries:
  "cool_provider X p now es = (r, es') \<Longrightarrow>
     list_all2 (\<lambda>e e'. entry_shape e' = entry_shape e \<and> ce_cursor e' = ce_cursor e \<and> (entry_ok e \<longrightarrow> entry_ok e')) es es'"
proof (induction X p now es arbitrary: r es' rule: cool_provider.induct)
  case (2 X p now e es)
  obtain r1 e1 where c: "cool_auth X now e = (r1, e1)" by (rule prod.exhaust)
  obtain r2 es2 where rest: "cool_provider X p now es = (r2, es2)" by (rule prod.exhaust)
  have refl: "list_all2 (\<lambda>e e'. entry_shape e' = entry_shape e \<and> ce_cursor e' = ce_cursor e \<and> (entry_ok e \<longrightarrow> entry_ok e')) es es"
    by (simp add: list_all2_same)
  show ?case
  proof (cases "ce_provider e = p")
    case True
    then show ?thesis using 2 c rest refl cool_auth_entry[OF c] by (cases r1) auto
  next
    case False
    then show ?thesis using 2 rest by auto
  qed
qed simp

lemma record_failure_keeps:
  assumes "record_failure X now idx err tried st = (r, tried', st')"
  shows "keeps idx st st'"
proof (cases "is_retryable err \<and> \<not> fo_poisoned st \<and> idx < length (fo_entries st)")
  case False
  then show ?thesis using assms by (auto simp: record_failure_def split: if_splits)
next
  case True
  let ?e = "fo_entries st ! idx"
  have cooled: "keeps idx st (put_entries r1 ((fo_entries st)[idx := e1]) st)"
    if "entry_shape e1 = entry_shape ?e" "entry_ok ?e \<longrightarrow> entry_ok e1" for r1 e1
    using that by (intro keeps_update[where e' = e1]) (auto simp: put_entries_def)
  consider m where "err = AuthFailed m" | m where "err = ModelNotFound m"
    | "\<nexists>m. err = AuthFailed m" "\<nexists>m. err = ModelNotFound m" by blast
  then show ?thesis
  proof cases
    case 1
    let ?t = "List.insert (ce_cursor ?e) tried"
    show ?thesis
    proof (cases "untried_key ?t ?e")
      case None
      obtain r1 es where c: "cool_provider X (ce_provider ?e) now (fo_entries st) = (r1, es)" by (rule prod.exhaust)
      note rel = cool_provider_entries[OF c]
      have st': "fo_entries st' = es" using assms True 1 None c by (auto simp: record_failure_def put_entries_def Let_def)
      have "map entry_shape es = map entry_shape (fo_entries st)"
        using rel by (intro nth_equalityI) (auto simp: list_all2_conv_all_nth)
      moreover have "entry_ok x" if "chain_ok st" "x \<in> set es" for x
        using rel that unfolding chain_ok_def list_all2_conv_all_nth by (metis in_set_conv_nth)
      ultimately show ?thesis using rel by (auto simp: keeps_def shape_def chain_ok_def st' list_all2_conv_all_nth)
    next
      case (Some k)
      then have "fo_entries st' = (fo_entries st)[idx := switch_to_key k ?e]"
        using assms True 1 by (auto simp: record_failure_def Let_def)
      then show ?thesis
        using untried_key_Some[OF Some] by (intro keeps_update[where e' = "switch_to_key k ?e"]) (auto simp: switch_to_key_def entry_shape_def entry_ok_def)
    qed
  next
    case 2
    then show ?thesis using assms True cooled cool_auth_entry[of X now ?e]
      by (auto simp: record_failure_def Let_def split: prod.splits)
  next
    case 3
    obtain r1 e1 where c: "cool_general X now err ?e = (r1, e1)" by (rule prod.exhaust)
    then have "st' = put_entries r1 ((fo_entries st)[idx := e1]) st"
      using assms True 3 by (cases err) (auto simp: record_failure_def Let_def)
    then show ?thesis using cooled cool_general_entry[OF c] by blast
  qed
qed

lemma record_success_keeps: "keeps idx st (record_success idx st)"
  unfolding record_success_def
  by (auto intro!: keeps_update[where e' = "mark_healthy (fo_entries st ! idx)"]
      simp: mark_healthy_def health_default_def entry_shape_def entry_ok_def)

text \<open>Induction over the loop of one entry: an answer, an end, or one more key.\<close>

fun stop_result :: "failure_step outcome \<Rightarrow> 'r entry_result" where
  "stop_result Killed = Panicked"
| "stop_result (Done (NextEntry e)) = Moved e"
| "stop_result (Done (FatalStep e)) = FatalEntry e"
| "stop_result (Done RetrySameEntry) = GaveUp"

lemma entry_loop_rule [consumes 1, case_names answer stop gone again]:
  assumes "entry_loop X P idx client tried st w = (res, st', w')"
    and answer: "\<And>client tried st w r w1. lp_call P client w = (Inr r, w1) \<Longrightarrow>
      Q client tried st w (Answered r) (record_success idx st) w1"
    and stop: "\<And>client tried st w err w1 s t st1. lp_call P client w = (Inl err, w1) \<Longrightarrow>
      record_failure X (lp_now P w1) idx err tried st = (s, t, st1) \<Longrightarrow> s \<noteq> Done RetrySameEntry \<Longrightarrow>
      Q client tried st w (stop_result s) st1 w1"
    and gone: "\<And>client tried st w err w1 t st1. lp_call P client w = (Inl err, w1) \<Longrightarrow>
      record_failure X (lp_now P w1) idx err tried st = (Done RetrySameEntry, t, st1) \<Longrightarrow> client_at idx st1 = None \<Longrightarrow>
      Q client tried st w GaveUp st1 w1"
    and again: "\<And>client tried st w err w1 t st1 c res st' w'. lp_call P client w = (Inl err, w1) \<Longrightarrow>
      record_failure X (lp_now P w1) idx err tried st = (Done RetrySameEntry, t, st1) \<Longrightarrow> client_at idx st1 = Some c \<Longrightarrow>
      Q c t st1 w1 res st' w' \<Longrightarrow> Q client tried st w res st' w'"
  shows "Q client tried st w res st' w'"
  using assms(1)
proof (induction "2 * untried tried idx st + stale tried idx st" arbitrary: client tried st w rule: less_induct)
  case less
  obtain a w1 where a: "lp_call P client w = (a, w1)" by (rule prod.exhaust)
  show ?case
  proof (cases a)
    case (Inr r)
    then show ?thesis using less.prems a answer[of client w r w1 tried st] by (simp add: entry_loop.simps[of X P idx client])
  next
    case (Inl err)
    obtain s t st1 where f: "record_failure X (lp_now P w1) idx err tried st = (s, t, st1)" by (metis prod.exhaust)
    note a' = a[unfolded Inl]
    show ?thesis
    proof (cases "s = Done RetrySameEntry")
      case False
      then have "res = stop_result s" "st' = st1" "w' = w1"
        using less.prems a' f by (auto simp: entry_loop.simps[of X P idx client] split: outcome.splits failure_step.splits)
      then show ?thesis using stop[OF a' f False] by simp
    next
      case True
      note f' = f[unfolded True]
      show ?thesis
      proof (cases "client_at idx st1")
        case None
        then show ?thesis using less.prems a' f' gone[OF a' f' None] by (simp add: entry_loop.simps[of X P idx client])
      next
        case (Some c)
        have "stale t idx st1 \<le> 1" by (simp add: stale_def)
        then have "2 * untried t idx st1 + stale t idx st1 < 2 * untried tried idx st + stale tried idx st"
          using retry_decreases[OF f'] by linarith
        moreover have "entry_loop X P idx c t st1 w1 = (res, st', w')"
          using less.prems a' f' Some by (simp add: entry_loop.simps[of X P idx client])
        ultimately have "Q c t st1 w1 res st' w'" by (rule less.hyps)
        then show ?thesis by (rule again[OF a' f' Some])
      qed
    qed
  qed
qed

lemma entry_loop_keeps: "entry_loop X P idx client tried st w = (r, st', w') \<Longrightarrow> keeps idx st st'"
  by (induction rule: entry_loop_rule) (auto intro: record_success_keeps dest: record_failure_keeps keeps_trans)

lemma keeps_shape: "keeps idx st st' \<Longrightarrow> shape st' = shape st"
  by (simp add: keeps_def)

lemma shape_entry:
  "shape st' = shape st \<Longrightarrow> i < length (fo_entries st) \<Longrightarrow> entry_shape (fo_entries st' ! i) = entry_shape (fo_entries st ! i)"
  by (metis shape_def shape_length nth_map)

lemma keeps_ok: "keeps idx st st' \<Longrightarrow> chain_ok st \<Longrightarrow> chain_ok st'"
  by (simp add: keeps_def)

text \<open>A step of a pass: it ends at an entry, or goes on from one that did not answer.\<close>

lemma run_pass_step:
  assumes "run_pass X P ((idx, client) # cs) n last_err st w = (res, st', w')"
  obtains r st1 where "entry_loop X P idx client [] st w = (r, st1, w')" "fo_entries st' = fo_entries st1"
      "fo_poisoned st' = fo_poisoned st1" "\<And>x. r = Answered x \<Longrightarrow> res = PassOk x" "\<And>e. r \<noteq> Moved e" "r \<noteq> GaveUp"
    | r st1 w1 l2 where "entry_loop X P idx client [] st w = (r, st1, w1)" "(\<exists>e. r = Moved e) \<or> r = GaveUp"
      "run_pass X P cs (n + 1) l2 st1 w1 = (res, st', w')"
proof -
  obtain r st1 w1 where l: "entry_loop X P idx client [] st w = (r, st1, w1)" by (metis prod.exhaust)
  show ?thesis
  proof (cases "(\<exists>e. r = Moved e) \<or> r = GaveUp")
    case True
    then obtain l2 where "run_pass X P cs (n + 1) l2 st1 w1 = (res, st', w')"
      using assms l by auto
    then show ?thesis using that(2) l True by blast
  next
    case False
    then show ?thesis using assms l by (intro that(1)[of r st1]) (cases r; auto simp: record_turn_summary_def)+
  qed
qed

lemma same_entries: "fo_entries a = fo_entries b \<Longrightarrow> shape a = shape b \<and> chain_ok a = chain_ok b"
  by (simp add: shape_def chain_ok_def)

lemma run_pass_keeps:
  "run_pass X P cs n last_err st w = (res, st', w') \<Longrightarrow> shape st' = shape st \<and> (chain_ok st \<longrightarrow> chain_ok st')"
proof (induction cs arbitrary: n last_err st w)
  case (Cons c cs)
  obtain idx client where c: "c = (idx, client)" by (rule prod.exhaust)
  show ?case using Cons.prems[unfolded c]
  proof (cases rule: run_pass_step)
    case (1 r st1)
    then show ?thesis using entry_loop_keeps[OF 1(1)] same_entries[OF 1(2)] by (auto simp: keeps_def)
  next
    case (2 r st1 w1 l2)
    then show ?thesis using entry_loop_keeps[OF 2(1)] Cons.IH[OF 2(3)] by (auto simp: keeps_def)
  qed
qed simp

text \<open>A completion is a pass, or a pass and then another one.\<close>

lemma chain_complete_passes:
  assumes "chain_complete X P st w = (res, st', w')"
  obtains p st1 where "run_pass X P (snapshot_clients (lp_now P w) True st) 0 None st w = (p, st1, w')"
      "fo_entries st' = fo_entries st1" "fo_poisoned st' = fo_poisoned st1"
    | e1 n1 st1 w1 p2 st2 where "run_pass X P (snapshot_clients (lp_now P w) True st) 0 None st w = (PassOn e1 n1, st1, w1)"
      "run_pass X P (snapshot_clients (lp_now P w1) False st1) n1 e1 st1 w1 = (p2, st2, w')"
      "fo_entries st' = fo_entries st2" "fo_poisoned st' = fo_poisoned st2"
  using assms unfolding chain_complete_def
  by (auto simp: record_turn_summary_def split: prod.splits pass_result.splits)

text \<open>C39: a completion keeps the invariant and the shape of the chain. The cursor of every entry stays
  inside its pool of keys, the strike counters stay bytes, and the providers, templates and pools of
  keys are never changed, whatever the providers answer.\<close>

theorem chain_complete_keeps:
  assumes "chain_ok st"
  shows "case chain_complete X P st w of (res, st', w') \<Rightarrow> chain_ok st' \<and> shape st' = shape st"
proof -
  obtain res st' w' where c: "chain_complete X P st w = (res, st', w')" by (metis prod.exhaust)
  then have "chain_ok st' \<and> shape st' = shape st"
  proof (cases rule: chain_complete_passes)
    case 1
    then show ?thesis using run_pass_keeps[OF 1(1)] same_entries[OF 1(2)] assms by simp
  next
    case 2
    then show ?thesis using run_pass_keeps[OF 2(1)] run_pass_keeps[OF 2(2)] same_entries[OF 2(3)] assms by simp
  qed
  then show ?thesis using c by simp
qed

subsection \<open>How many calls\<close>

lemma retry_fresh:
  assumes "record_failure X now idx err tried st = (Done RetrySameEntry, tried', st')" "stale tried idx st = 0"
  shows "untried tried' idx st' < untried tried idx st \<and> stale tried' idx st' = 0"
proof -
  have "stale tried' idx st' = 0"
    using record_failure_retry[OF assms(1)] by (auto simp: stale_def switch_to_key_def)
  then show ?thesis using retry_decreases[OF assms(1)] assms(2) by auto
qed

lemma untried_pos: "stale tried idx st = 0 \<Longrightarrow> 1 \<le> untried tried idx st"
  by (force simp: stale_def untried_def Suc_le_eq filter_empty_conv split: if_splits)

lemma entry_loop_calls:
  assumes "entry_loop X P idx client tried st w = (res, st', w')"
    and "\<And>c v. cnt (snd (lp_call P c v)) = Suc (cnt v)" "stale tried idx st = 0"
  shows "cnt w' \<le> cnt w + untried tried idx st"
proof -
  have one: "cnt w1 = Suc (cnt v)" if "lp_call P c v = (a, w1)" for c v a w1
    using assms(2)[of c v] that by simp
  have "stale tried idx st = 0 \<longrightarrow> cnt w' \<le> cnt w + untried tried idx st"
    using assms(1)
  proof (induction rule: entry_loop_rule)
    case (again client tried st w err w1 t st1 c res st' w')
    then show ?case using retry_fresh[OF again(2)] one[OF again(1)] by auto
  qed (auto dest!: one untried_pos)
  then show ?thesis using assms(3) by simp
qed

definition pool_of :: "failover \<Rightarrow> nat \<times> llm_config \<Rightarrow> nat" where
  "pool_of st c = length (ce_keys (fo_entries st ! fst c))"

definition all_keys :: "failover \<Rightarrow> nat" where
  "all_keys st = sum_list (map (\<lambda>e. length (ce_keys e)) (fo_entries st))"

lemma pool_of_shape:
  "shape st' = shape st \<Longrightarrow> \<forall>c \<in> set cs. fst c < length (fo_entries st) \<Longrightarrow> map (pool_of st') cs = map (pool_of st) cs"
  using shape_nth[of st' st] by (auto simp: pool_of_def)

lemma all_keys_shape: "shape st' = shape st \<Longrightarrow> all_keys st' = all_keys st"
proof -
  have "all_keys s = sum_list (map (\<lambda>(p, t, ks). length ks) (shape s))" for s
    by (simp add: all_keys_def shape_def entry_shape_def comp_def)
  then show "shape st' = shape st \<Longrightarrow> all_keys st' = all_keys st" by simp
qed

lemma fresh_start: "chain_ok st \<Longrightarrow> idx < length (fo_entries st) \<Longrightarrow>
    stale [] idx st = 0 \<and> untried [] idx st = length (ce_keys (fo_entries st ! idx))"
  by (auto simp: stale_def untried_def chain_ok_def entry_ok_def)

lemma run_pass_calls:
  assumes "run_pass X P cs n last_err st w = (res, st', w')" "\<forall>c \<in> set cs. fst c < length (fo_entries st)" "chain_ok st"
    and cnt: "\<And>c v. cnt (snd (lp_call P c v)) = Suc (cnt v)"
  shows "cnt w' \<le> cnt w + sum_list (map (pool_of st) cs)"
  using assms(1-3)
proof (induction cs arbitrary: n last_err st w)
  case (Cons c cs)
  obtain idx client where c: "c = (idx, client)" by (rule prod.exhaust)
  have idx: "idx < length (fo_entries st)" using Cons.prems(2) c by simp
  have loop: "cnt w1 \<le> cnt w + pool_of st c" if "entry_loop X P idx client [] st w = (r, st1, w1)" for r st1 w1
    using entry_loop_calls[where cnt = cnt, OF that cnt] fresh_start[OF Cons.prems(3) idx] by (simp add: pool_of_def c)
  show ?case using Cons.prems(1)[unfolded c]
  proof (cases rule: run_pass_step)
    case (1 r st1)
    then show ?thesis using loop[OF 1(1)] by simp
  next
    case (2 r st1 w1 l2)
    note k = entry_loop_keeps[OF 2(1)]
    have "cnt w' \<le> cnt w1 + sum_list (map (pool_of st1) cs)"
      using Cons.prems(2,3) shape_length[OF keeps_shape[OF k]] keeps_ok[OF k] by (intro Cons.IH[OF 2(3)]) auto
    then show ?thesis using loop[OF 2(1)] pool_of_shape[OF keeps_shape[OF k], of cs] Cons.prems(2) by simp
  qed
qed simp

lemma snapshot_calls: "sum_list (map (pool_of st) (snapshot_clients now h st)) \<le> all_keys st"
proof -
  have filtered: "sum_list (map f (filter Q xs)) \<le> sum_list (map f xs)" for f :: "'a \<Rightarrow> nat" and Q xs
    by (induction xs) auto
  let ?xs = "zip [0..<length (fo_entries st)] (fo_entries st)"
  have "map (\<lambda>(i, e). length (ce_keys (fo_entries st ! i))) ?xs = map (\<lambda>e. length (ce_keys e)) (fo_entries st)"
    by (intro nth_equalityI) auto
  then have sum: "sum_list (map (\<lambda>(i, e). length (ce_keys (fo_entries st ! i))) ?xs) = all_keys st"
    by (simp add: all_keys_def)
  have "map (pool_of st) (map (\<lambda>(i, e). (i, effective_config e)) ys) = map (\<lambda>(i, e). length (ce_keys (fo_entries st ! i))) ys" for ys
    by (auto simp: pool_of_def)
  then show ?thesis
    using filtered[of "\<lambda>(i, e). length (ce_keys (fo_entries st ! i))" "\<lambda>(i, e). \<not> h \<or> \<not> is_cooled now (ce_health e)" ?xs] sum
    by (simp add: snapshot_clients_def del: map_map)
qed

lemma snapshot_range: "c \<in> set (snapshot_clients now h st) \<Longrightarrow> fst c < length (fo_entries st)"
  by (auto simp: snapshot_clients_def dest: set_zip_leftD split: if_splits)

text \<open>C38: a completion ends after at most two calls for every key of the chain, whatever the providers
  answer. Each pass tries every key of an entry at most once, so a chain with \<open>k\<close> keys in all makes at
  most \<open>2 k\<close> calls; \<open>cnt\<close> is any measure of the world that one call raises by one.\<close>

theorem chain_complete_calls:
  assumes "chain_ok st" "\<And>c v. cnt (snd (lp_call P c v)) = Suc (cnt v)"
  shows "cnt (snd (snd (chain_complete X P st w))) \<le> cnt w + 2 * all_keys st"
proof -
  have pass: "cnt w2 \<le> cnt w1 + all_keys s"
    if "run_pass X P (snapshot_clients t h s) n l s w1 = (p, s2, w2)" "chain_ok s" for t h s n l p s2 w1 w2
    using run_pass_calls[where cnt = cnt, OF that(1) _ that(2) assms(2)] snapshot_range snapshot_calls[of s t h]
    by (meson add_left_mono le_trans)
  obtain res st' w' where c: "chain_complete X P st w = (res, st', w')" by (metis prod.exhaust)
  then have "cnt w' \<le> cnt w + 2 * all_keys st"
  proof (cases rule: chain_complete_passes)
    case 1
    then show ?thesis using pass[OF 1(1) assms(1)] by simp
  next
    case (2 e1 n1 st1 w1 p2 st2)
    note k = run_pass_keeps[OF 2(1)]
    then show ?thesis using pass[OF 2(1) assms(1)] pass[OF 2(2)] all_keys_shape[of st1 st] assms(1) by simp
  qed
  then show ?thesis by (simp add: c)
qed

end
