(* ===== verification/Failover_Answers.thy ===== *)
theory Failover_Answers
  imports Failover_Laws
begin

section \<open>When the chain of models answers, and when it stops answering\<close>

text \<open>
  A completion finds a working model whenever there is one; the two ways in which the cooldowns of
  \<^verbatim>\<open>llm_chain.rs\<close> go wrong; and the examples of the chain.
\<close>

subsection \<open>An answer is found\<close>

text \<open>
  \<open>answer c\<close> holds the answers a call with the configuration \<open>c\<close> can get, one or another at each call.
  \<open>calm\<close> says that no answer to a key of the chain is fatal and that no cooldown that follows one leaves
  the range of the clock.
\<close>

definition fits :: "ext \<Rightarrow> ('w, 'r) provider \<Rightarrow> nat \<Rightarrow> bool" where
  "fits X P secs \<longleftrightarrow> (\<forall>w. ts_min X \<le> lp_now P w + chrono_dur secs \<and> lp_now P w + chrono_dur secs \<le> ts_max X)"

definition tame :: "ext \<Rightarrow> ('w, 'r) provider \<Rightarrow> llm_error + 'r \<Rightarrow> bool" where
  "tame X P a \<longleftrightarrow> (\<forall>err. a = Inl err \<longrightarrow> is_retryable err \<and> (\<forall>n. fits X P (general_cooldown err n)))"

definition calm :: "ext \<Rightarrow> ('w, 'r) provider \<Rightarrow> (llm_config \<Rightarrow> (llm_error + 'r) set) \<Rightarrow> failover \<Rightarrow> bool" where
  "calm X P answer st \<longleftrightarrow> (\<forall>c w. fst (lp_call P c w) \<in> answer c) \<and>
     (\<forall>e \<in> set (fo_entries st). \<forall>k \<in> set (ce_keys e). Ball (answer (config_with_key (ce_template e) k)) (tame X P)) \<and>
     (\<forall>n. fits X P (ladder_at AUTH_COOLDOWN_LADDER n))"

text \<open>An entry that has a key that is always accepted, and whose keys fail only by being refused as keys.\<close>

definition good_entry :: "(llm_config \<Rightarrow> (llm_error + 'r) set) \<Rightarrow> chain_entry \<Rightarrow> bool" where
  "good_entry answer e \<longleftrightarrow>
     (\<exists>k \<in> set (ce_keys e). \<forall>a \<in> answer (config_with_key (ce_template e) k). \<exists>r. a = Inr r) \<and>
     (\<forall>k \<in> set (ce_keys e). \<forall>a \<in> answer (config_with_key (ce_template e) k).
        case a of Inr _ \<Rightarrow> True | Inl (AuthFailed _) \<Rightarrow> True | _ \<Rightarrow> False)"

lemma cool_provider_done:
  "(\<And>e. fst (cool_auth X now e) = Done ()) \<Longrightarrow> fst (cool_provider X p now es) = Done ()"
proof (induction es)
  case (Cons e es)
  then show ?case by (auto split: prod.splits outcome.splits) (metis fst_conv outcome.distinct(1))+
qed simp

lemma calm_record_failure:
  assumes "record_failure X (lp_now P w) idx err tried st = (s, t, st1)"
    and "tame X P (Inl err :: llm_error + 'r)" "\<And>n. fits X P (ladder_at AUTH_COOLDOWN_LADDER n)"
    and "\<not> fo_poisoned st" "idx < length (fo_entries st)"
  shows "\<not> fo_poisoned st1 \<and> (s = Done RetrySameEntry \<or> (\<exists>e. s = Done (NextEntry e)))"
proof -
  have a: "fst (cool_auth X (lp_now P w) e) = Done ()" for e
    using assms(3) by (simp add: cool_auth_def cool_until_def fits_def Let_def)
  have g: "fst (cool_general X (lp_now P w) err e) = Done ()" for e
    using assms(2) by (simp add: cool_general_def cool_until_def fits_def tame_def Let_def)
  note p = cool_provider_done[of X "lp_now P w" p es for p es, OF a]
  show ?thesis
    using assms(1,2,4,5) a[of "fo_entries st ! idx"] g[of "fo_entries st ! idx"] p[of "ce_provider (fo_entries st ! idx)" "fo_entries st"]
    by (cases err) (auto simp: record_failure_def tame_def put_entries_def next_step_def Let_def split: option.splits prod.splits)
qed

lemma calm_shape:
  assumes "shape st' = shape st"
  shows "calm X P answer st' = calm X P answer st"
proof -
  have eq: "(\<forall>e \<in> set (fo_entries s). \<forall>k \<in> set (ce_keys e). R (config_with_key (ce_template e) k)) =
      (\<forall>(p, t, ks) \<in> set (shape s). \<forall>k \<in> set ks. R (config_with_key t k))" for s R
    by (auto simp: shape_def entry_shape_def)
  show ?thesis
    unfolding calm_def eq[of _ "\<lambda>c. Ball (answer c) (tame X P)"] assms ..
qed

text \<open>A state in which the loop of entry \<open>idx\<close> may start.\<close>

definition at_entry :: "nat \<Rightarrow> failover \<Rightarrow> bool" where
  "at_entry idx st \<longleftrightarrow> chain_ok st \<and> \<not> fo_poisoned st \<and> idx < length (fo_entries st)"

lemma at_entry_call:
  assumes "calm X P answer st" "at_entry idx st" "lp_call P (effective_config (fo_entries st ! idx)) w = (a, w1)"
  shows "a \<in> answer (config_with_key (ce_template (fo_entries st ! idx)) (ce_keys (fo_entries st ! idx) ! ce_cursor (fo_entries st ! idx))) \<and>
    ce_cursor (fo_entries st ! idx) < length (ce_keys (fo_entries st ! idx)) \<and> fo_entries st ! idx \<in> set (fo_entries st)"
proof -
  have "a \<in> answer (effective_config (fo_entries st ! idx))"
    using assms(1) assms(3) unfolding calm_def by (metis fst_conv)
  then show ?thesis using assms(2) by (simp add: at_entry_def chain_ok_def entry_ok_def effective_config_def)
qed

lemma at_entry_failure:
  assumes "calm X P answer st" "at_entry idx st" "lp_call P (effective_config (fo_entries st ! idx)) w = (Inl err, w1)"
    and "record_failure X (lp_now P w1) idx err tried st = (s, t, st1)"
  shows "calm X P answer st1 \<and> at_entry idx st1 \<and> shape st1 = shape st \<and> (s = Done RetrySameEntry \<or> (\<exists>e. s = Done (NextEntry e)))"
proof -
  note k = record_failure_keeps[OF assms(4)]
  note call = at_entry_call[OF assms(1-3)]
  have "tame X P (Inl err :: llm_error + 'b)"
    using assms(1) call unfolding calm_def by (metis nth_mem)
  then have "\<not> fo_poisoned st1 \<and> (s = Done RetrySameEntry \<or> (\<exists>e. s = Done (NextEntry e)))"
    using assms(1,2) by (intro calm_record_failure[OF assms(4)]) (auto simp: calm_def at_entry_def)
  then show ?thesis
    using assms(1,2) calm_shape[OF keeps_shape[OF k], of X P answer] keeps_shape[OF k] keeps_ok[OF k]
      shape_length[OF keeps_shape[OF k]]
    by (simp add: at_entry_def)
qed

lemma client_at_Some: "client_at idx st = Some c \<Longrightarrow> c = effective_config (fo_entries st ! idx)"
  by (simp add: client_at_def split: if_splits)

lemma client_at_None: "at_entry idx st \<Longrightarrow> client_at idx st \<noteq> None"
  by (simp add: client_at_def at_entry_def)

lemma calm_entry_loop:
  assumes "entry_loop X P idx client tried st w = (res, st', w')"
    and "calm X P answer st" "at_entry idx st" "client = effective_config (fo_entries st ! idx)"
  shows "\<not> fo_poisoned st' \<and> ((\<exists>r. res = Answered r) \<or> (\<exists>e. res = Moved e))"
proof -
  have "calm X P answer st \<longrightarrow> at_entry idx st \<longrightarrow> client = effective_config (fo_entries st ! idx) \<longrightarrow>
      \<not> fo_poisoned st' \<and> ((\<exists>r. res = Answered r) \<or> (\<exists>e. res = Moved e))"
    using assms(1)
  proof (induction rule: entry_loop_rule)
    case (answer client tried st w r w1)
    then show ?case by (simp add: record_success_def at_entry_def)
  next
    case (stop client tried st w err w1 s t st1)
    then show ?case using at_entry_failure[of X P answer st idx w err w1 tried s t st1] by (auto simp: at_entry_def)
  next
    case (gone client tried st w err w1 t st1)
    then show ?case
      using at_entry_failure[of X P answer st idx w err w1 tried _ t st1] client_at_None[of idx st1] by auto
  next
    case (again client tried st w err w1 t st1 c res st' w')
    then show ?case using at_entry_failure[of X P answer st idx w err w1 tried _ t st1] client_at_Some[OF again(3)] by auto
  qed
  then show ?thesis using assms(2-4) by blast
qed

lemma good_entry_shape: "entry_shape e' = entry_shape e \<Longrightarrow> good_entry answer e' = good_entry answer e"
  by (simp add: good_entry_def entry_shape_def)

text \<open>The keys tried so far can be refused.\<close>

definition refused :: "(llm_config \<Rightarrow> (llm_error + 'r) set) \<Rightarrow> chain_entry \<Rightarrow> nat list \<Rightarrow> bool" where
  "refused answer e tried \<longleftrightarrow> (\<forall>k \<in> set tried. \<exists>err. Inl err \<in> answer (config_with_key (ce_template e) (ce_keys e ! k)))"

lemma good_failure_retries:
  assumes "good_entry answer (fo_entries st ! idx)" "at_entry idx st" "refused answer (fo_entries st ! idx) tried"
    and err: "Inl err \<in> answer (effective_config (fo_entries st ! idx))"
    and f: "record_failure X now idx err tried st = (s, t, st1)"
  shows "s = Done RetrySameEntry \<and> refused answer (fo_entries st1 ! idx) t"
proof -
  let ?e = "fo_entries st ! idx"
  have "ce_keys ?e ! ce_cursor ?e \<in> set (ce_keys ?e)"
    using assms(2) by (simp add: at_entry_def chain_ok_def entry_ok_def)
  then obtain m where m: "err = AuthFailed m"
    using assms(1) err unfolding good_entry_def effective_config_def
    by (fastforce split: llm_error.splits)
  have r: "refused answer ?e (List.insert (ce_cursor ?e) tried)"
    using assms(3) err by (auto simp: refused_def effective_config_def)
  obtain k where k: "k < length (ce_keys ?e)" "\<forall>a \<in> answer (config_with_key (ce_template ?e) (ce_keys ?e ! k)). \<exists>r. a = Inr r"
    using assms(1) unfolding good_entry_def by (metis in_set_conv_nth)
  then have "k \<notin> set (List.insert (ce_cursor ?e) tried)" using r unfolding refused_def by (metis Inl_Inr_False)
  then have "untried_key (List.insert (ce_cursor ?e) tried) ?e \<noteq> None"
    using k(1) by (auto simp: untried_key_def find_None_iff)
  then show ?thesis
    using f assms(2) r
    by (auto simp: m record_failure_def at_entry_def refused_def switch_to_key_def Let_def split: if_splits) blast+
qed

lemma good_entry_loop:
  assumes "entry_loop X P idx client tried st w = (res, st', w')"
    and "calm X P answer st" "at_entry idx st" "client = effective_config (fo_entries st ! idx)"
      "good_entry answer (fo_entries st ! idx)" "refused answer (fo_entries st ! idx) tried"
  shows "\<exists>r. res = Answered r"
proof -
  have shape_good: "good_entry answer (fo_entries st1 ! idx) = good_entry answer (fo_entries st ! idx)"
    if "shape st1 = shape st" "at_entry idx st" for st1 st
    using that by (intro good_entry_shape shape_entry) (auto simp: at_entry_def)
  have "calm X P answer st \<longrightarrow> at_entry idx st \<longrightarrow> client = effective_config (fo_entries st ! idx) \<longrightarrow>
      good_entry answer (fo_entries st ! idx) \<longrightarrow> refused answer (fo_entries st ! idx) tried \<longrightarrow> (\<exists>r. res = Answered r)"
    using assms(1)
  proof (induction rule: entry_loop_rule)
    case (stop client tried st w err w1 s t st1)
    show ?case
    proof (intro impI)
      assume A: "calm X P answer st" "at_entry idx st" "client = effective_config (fo_entries st ! idx)"
        "good_entry answer (fo_entries st ! idx)" "refused answer (fo_entries st ! idx) tried"
      have err: "Inl err \<in> answer (effective_config (fo_entries st ! idx))"
        using A(1,3) stop(1) unfolding calm_def by (metis fst_conv)
      note g = good_failure_retries[OF A(4,2,5) err stop(2)]
      note f = at_entry_failure[OF A(1,2) stop(1)[unfolded A(3)] stop(2)]
      show "\<exists>r. stop_result s = Answered r" using g stop(3) by simp
    qed
  next
    case (gone client tried st w err w1 t st1)
    show ?case
    proof (intro impI)
      assume A: "calm X P answer st" "at_entry idx st" "client = effective_config (fo_entries st ! idx)"
        "good_entry answer (fo_entries st ! idx)" "refused answer (fo_entries st ! idx) tried"
      have err: "Inl err \<in> answer (effective_config (fo_entries st ! idx))"
        using A(1,3) gone(1) unfolding calm_def by (metis fst_conv)
      note g = good_failure_retries[OF A(4,2,5) err gone(2)]
      note f = at_entry_failure[OF A(1,2) gone(1)[unfolded A(3)] gone(2)]
      show "\<exists>r. GaveUp = Answered r" using f client_at_None[of idx st1] gone(3) by simp
    qed
  next
    case (again client tried st w err w1 t st1 c res st' w')
    show ?case
    proof (intro impI)
      assume A: "calm X P answer st" "at_entry idx st" "client = effective_config (fo_entries st ! idx)"
        "good_entry answer (fo_entries st ! idx)" "refused answer (fo_entries st ! idx) tried"
      have err: "Inl err \<in> answer (effective_config (fo_entries st ! idx))"
        using A(1,3) again(1) unfolding calm_def by (metis fst_conv)
      note g = good_failure_retries[OF A(4,2,5) err again(2)]
      note f = at_entry_failure[OF A(1,2) again(1)[unfolded A(3)] again(2)]
      show "\<exists>r. res = Answered r"
        using again(4) f g client_at_Some[OF again(3)] shape_good[of st1 st] A(2,4) by simp
    qed
  qed simp
  then show ?thesis using assms(2-6) by blast
qed

text \<open>The clients of a snapshot, as long as their entries were not tried.\<close>

definition fresh_clients :: "failover \<Rightarrow> (nat \<times> llm_config) list \<Rightarrow> bool" where
  "fresh_clients st cs \<longleftrightarrow> distinct (map fst cs) \<and>
     (\<forall>(i, c) \<in> set cs. i < length (fo_entries st) \<and> c = effective_config (fo_entries st ! i))"

lemma fresh_clients_keeps:
  assumes "fresh_clients st ((idx, c) # cs)" "keeps idx st st1"
  shows "fresh_clients st1 cs"
proof -
  have "effective_config (fo_entries st1 ! j) = effective_config (fo_entries st ! j)" if "j \<noteq> idx" "j < length (fo_entries st)" for j
    using assms(2) shape_nth[OF keeps_shape[OF assms(2)] that(2)] that by (simp add: keeps_def effective_config_def)
  then show ?thesis
    using assms(1) shape_length[OF keeps_shape[OF assms(2)]] unfolding fresh_clients_def by (force simp: image_iff)
qed

lemma snapshot_all:
  assumes "i < length (fo_entries st)" "\<not> fo_poisoned st"
  shows "(i, effective_config (fo_entries st ! i)) \<in> set (snapshot_clients now False st)"
proof -
  have "(i, fo_entries st ! i) \<in> set (zip [0..<length (fo_entries st)] (fo_entries st))"
    using assms(1) by (auto simp: set_zip intro: exI[where x = i])
  then show ?thesis using assms(2) by (force simp: snapshot_clients_def)
qed

lemma snapshot_fresh: "fresh_clients st (snapshot_clients now h st)"
proof -
  let ?xs = "zip [0..<length (fo_entries st)] (fo_entries st)"
  have "map fst (map (\<lambda>(i, e). (i, effective_config e)) ys) = map fst ys" for ys :: "(nat \<times> chain_entry) list" by auto
  moreover have "distinct (map fst (filter Q ?xs))" for Q by (simp add: distinct_map_filter)
  ultimately show ?thesis
    by (auto simp: fresh_clients_def snapshot_clients_def set_zip simp del: map_map)
qed

definition answers_or_moves :: "'r pass_result \<Rightarrow> bool" where
  "answers_or_moves p \<longleftrightarrow> (\<exists>r. p = PassOk r) \<or> (\<exists>e n. p = PassOn e n)"

lemma calm_run_pass:
  assumes "run_pass X P cs n last_err st w = (p, st', w')" "calm X P answer st" "chain_ok st" "\<not> fo_poisoned st" "fresh_clients st cs"
  shows "answers_or_moves p \<and> \<not> fo_poisoned st' \<and>
    ((\<exists>d \<in> set cs. good_entry answer (fo_entries st ! fst d)) \<longrightarrow> (\<exists>r. p = PassOk r))"
  using assms
proof (induction cs arbitrary: n last_err st w)
  case (Cons c cs)
  obtain idx client where c: "c = (idx, client)" by (rule prod.exhaust)
  have at: "at_entry idx st" "client = effective_config (fo_entries st ! idx)"
    using Cons.prems(3-5) by (auto simp: c at_entry_def fresh_clients_def)
  show ?case using Cons.prems(1)[unfolded c]
  proof (cases rule: run_pass_step)
    case (1 r st1)
    then show ?thesis using calm_entry_loop[OF 1(1) Cons.prems(2) at] by (auto simp: answers_or_moves_def)
  next
    case (2 r st1 w1 l2)
    note k = entry_loop_keeps[OF 2(1)]
    note sh = keeps_shape[OF k]
    have bad: "\<not> good_entry answer (fo_entries st ! idx)"
      using good_entry_loop[OF 2(1) Cons.prems(2) at] 2(2) by (auto simp: refused_def)
    have "good_entry answer (fo_entries st1 ! fst d) = good_entry answer (fo_entries st ! fst d)" if "d \<in> set cs" for d
      using that Cons.prems(5) by (intro good_entry_shape shape_entry[OF sh]) (auto simp: fresh_clients_def)
    then have same: "(\<exists>d \<in> set cs. good_entry answer (fo_entries st1 ! fst d)) = (\<exists>d \<in> set cs. good_entry answer (fo_entries st ! fst d))"
      by (rule bex_cong[OF refl])
    show ?thesis
      using Cons.IH[OF 2(3)] calm_shape[OF sh, of X P answer] Cons.prems(2,3) keeps_ok[OF k] bad same
        calm_entry_loop[OF 2(1) Cons.prems(2) at] fresh_clients_keeps[OF Cons.prems(5)[unfolded c] k]
      by (auto simp: c)
  qed
qed (auto simp: answers_or_moves_def)

text \<open>C37: a completion finds a model that works. Let some entry have a key that its provider always
  accepts, and let its keys fail only by being refused as keys; let every error that any key of the
  chain can get be retryable, with a cooldown (a \<^verbatim>\<open>Retry-After\<close> among them) that stays in the range of
  the clock; and let the cursors be in range and the lock not be poisoned. Then a completion answers,
  whatever cooldowns the entries are in and whichever of these answers each call gets: the first pass may
  skip the entry, the second does not, and in the loop of the entry every refused key gives way to one
  not tried yet.\<close>

theorem chain_complete_answers:
  assumes "chain_ok st" "\<not> fo_poisoned st" "calm X P answer st" "e \<in> set (fo_entries st)" "good_entry answer e"
  shows "\<exists>r. fst (chain_complete X P st w) = Done (Inr r)"
proof -
  obtain p1 st1 w1 where p1: "run_pass X P (snapshot_clients (lp_now P w) True st) 0 None st w = (p1, st1, w1)"
    by (metis prod.exhaust)
  note first = calm_run_pass[OF p1 assms(3,1,2) snapshot_fresh] and k = run_pass_keeps[OF p1]
  show ?thesis
  proof (cases p1)
    case (PassOn e1 n1)
    obtain p2 st2 w2 where p2: "run_pass X P (snapshot_clients (lp_now P w1) False st1) n1 e1 st1 w1 = (p2, st2, w2)"
      by (metis prod.exhaust)
    obtain i where i: "i < length (fo_entries st)" "fo_entries st ! i = e" using assms(4) by (metis in_set_conv_nth)
    have "entry_shape (fo_entries st1 ! i) = entry_shape e"
      using k i shape_entry by blast
    then have "good_entry answer (fo_entries st1 ! i)" using assms(5) good_entry_shape by blast
    moreover have "(i, effective_config (fo_entries st1 ! i)) \<in> set (snapshot_clients (lp_now P w1) False st1)"
      using first i shape_length[of st1 st] k by (intro snapshot_all) auto
    moreover have "calm X P answer st1" "chain_ok st1" using k calm_shape[of st1 st X P answer] assms by simp_all
    ultimately have "\<exists>r. p2 = PassOk r"
      using calm_run_pass[OF p2 _ _ _ snapshot_fresh] first by (metis fst_conv)
    then show ?thesis using p1 p2 PassOn by (auto simp: chain_complete_def)
  qed (use first p1 in \<open>auto simp: chain_complete_def answers_or_moves_def\<close>)
qed

subsection \<open>How the cooldowns go wrong\<close>

lemma ladder_bound: "ladder_at AUTH_COOLDOWN_LADDER n \<le> 21600" "ladder_at COOLDOWN_LADDER n \<le> 3600"
proof -
  have small: "min (n - 1) 3 = 0 \<or> min (n - 1) 3 = 1 \<or> min (n - 1) 3 = 2 \<or> min (n - 1) 3 = 3" by arith
  then show "ladder_at AUTH_COOLDOWN_LADDER n \<le> 21600" "ladder_at COOLDOWN_LADDER n \<le> 3600"
    by (auto simp: ladder_at_def AUTH_COOLDOWN_LADDER_def COOLDOWN_LADDER_def)
qed

text \<open>Two entries of one provider with one key each, after \<open>n\<close> strikes.\<close>

definition struck :: "timestamp \<Rightarrow> nat \<Rightarrow> failover \<Rightarrow> bool" where
  "struck now n st \<longleftrightarrow> (\<exists>a b. fo_entries st = [a, b] \<and> ce_provider b = ce_provider a \<and> length (ce_keys a) = 1 \<and>
     length (ce_keys b) = 1 \<and> ce_cursor a = 0 \<and> ce_cursor b = 0 \<and> \<not> fo_poisoned st \<and>
     (\<forall>h \<in> {ce_health a, ce_health b}. h = (if n = 0 then health_default
        else \<lparr>eh_cooled = Some (now + chrono_dur (ladder_at AUTH_COOLDOWN_LADDER n)), eh_strike = 0, eh_auth = n\<rparr>)))"

lemma struck_loop:
  assumes "struck now n st" "n < 4" "idx < 2" "\<exists>m. fst (lp_call P c w) = Inl (AuthFailed m)" "\<And>v. lp_now P v = now"
    and "ts_min X \<le> now" "now + 21600 * 10 ^ 9 \<le> ts_max X"
  shows "\<exists>e st' w'. entry_loop X P idx c [] st w = (Moved e, st', w') \<and> struck now (n + 1) st'"
proof -
  obtain a b where ab: "fo_entries st = [a, b]" "ce_provider b = ce_provider a" "length (ce_keys a) = 1" "length (ce_keys b) = 1"
      "ce_cursor a = 0" "ce_cursor b = 0" "\<not> fo_poisoned st"
    and h: "\<forall>h \<in> {ce_health a, ce_health b}. h = (if n = 0 then health_default
        else \<lparr>eh_cooled = Some (now + chrono_dur (ladder_at AUTH_COOLDOWN_LADDER n)), eh_strike = 0, eh_auth = n\<rparr>)"
    using assms(1) unfolding struck_def by blast
  let ?h = "\<lparr>eh_cooled = Some (now + chrono_dur (ladder_at AUTH_COOLDOWN_LADDER (n + 1))), eh_strike = 0, eh_auth = n + 1\<rparr>"
  have eh: "eh_auth (ce_health a) = n" "eh_auth (ce_health b) = n" "eh_strike (ce_health a) = 0" "eh_strike (ce_health b) = 0"
    using h by (simp_all add: health_default_def split: if_splits)
  have cool: "cool_auth X now e = (Done (), e\<lparr>ce_health := ?h\<rparr>)"
    if "eh_auth (ce_health e) = n" "eh_strike (ce_health e) = 0" for e
  proof -
    have "sat_u8 n = n + 1" using assms(2) by (simp add: sat_u8_def)
    moreover have "chrono_dur (ladder_at AUTH_COOLDOWN_LADDER (n + 1)) \<le> 21600 * 10 ^ 9"
      using ladder_bound(1)[of "n + 1"] by (simp add: chrono_dur_def)
    moreover have "0 \<le> chrono_dur (ladder_at AUTH_COOLDOWN_LADDER (n + 1))" by (simp add: chrono_dur_def)
    ultimately show ?thesis using that assms(6,7) by (cases "ce_health e") (simp add: cool_auth_def cool_until_def Let_def)
  qed
  obtain m w1 where call: "lp_call P c w = (Inl (AuthFailed m), w1)" using assms(4) by (metis prod.collapse)
  let ?st = "st\<lparr>fo_entries := [a\<lparr>ce_health := ?h\<rparr>, b\<lparr>ce_health := ?h\<rparr>]\<rparr>"
  have "cool_provider X (ce_provider a) now [a, b] = (Done (), [a\<lparr>ce_health := ?h\<rparr>, b\<lparr>ce_health := ?h\<rparr>])"
    using cool[OF eh(1,3)] cool[OF eh(2,4)] ab(2) by simp
  moreover have "untried_key (List.insert 0 []) a = None" "untried_key (List.insert 0 []) b = None"
    using ab(3,4) by (auto simp: untried_key_def find_None_iff)
  ultimately have "record_failure X now idx (AuthFailed m) [] st = (Done (NextEntry (AuthFailed m)), [0], ?st)"
    using ab assms(3) by (auto simp: less_2_cases_iff record_failure_def put_entries_def next_step_def Let_def)
  then have "entry_loop X P idx c [] st w = (Moved (AuthFailed m), ?st, w1)"
    using call assms(5) by (simp add: entry_loop.simps)
  moreover have "struck now (n + 1) ?st" using ab by (simp add: struck_def)
  ultimately show ?thesis by blast
qed

lemma struck_pass:
  assumes "struck now n st" "n + length cs \<le> 4" "\<forall>c \<in> set cs. fst c < 2" "\<And>c v. \<exists>m. fst (lp_call P c v) = Inl (AuthFailed m)"
    and "\<And>v. lp_now P v = now" "ts_min X \<le> now" "now + 21600 * 10 ^ 9 \<le> ts_max X"
  shows "\<exists>e k st' w'. run_pass X P cs j l st w = (PassOn e k, st', w') \<and> struck now (n + length cs) st'"
  using assms(1-3)
proof (induction cs arbitrary: n j l st w)
  case (Cons c cs)
  obtain idx client where c: "c = (idx, client)" by (rule prod.exhaust)
  obtain e st1 w1 where l: "entry_loop X P idx client [] st w = (Moved e, st1, w1)" "struck now (n + 1) st1"
    using struck_loop[OF Cons.prems(1) _ _ assms(4-7), of idx client w] Cons.prems(2,3) by (auto simp: c)
  show ?case using Cons.IH[OF l(2), of "j + 1" "Some e" w1] Cons.prems(2,3) l(1) by (simp add: c)
qed simp

lemma struck_snapshot:
  assumes "struck now n st" "h \<longrightarrow> n = 0"
  shows "length (snapshot_clients now h st) = 2 \<and> (\<forall>c \<in> set (snapshot_clients now h st). fst c < 2)"
proof -
  obtain a b where "fo_entries st = [a, b]" "\<not> fo_poisoned st" "h \<longrightarrow> ce_health a = health_default \<and> ce_health b = health_default"
    using assms unfolding struck_def by auto
  then show ?thesis by (auto simp: snapshot_clients_def is_cooled_def health_default_def upt_rec)
qed

text \<open>One refused key sends its provider to the last rung of the ladder. Two models of one provider
  share a dead key; after one completion both have counted four strikes and are cooled for six hours,
  because every entry of every pass cools all entries of the provider. The ladder of five minutes,
  thirty minutes, two hours and six hours is meant to be climbed by one failure at a time.\<close>

theorem dead_key_climbs_ladder:
  assumes "fo_entries st = [a, b]" "ce_provider b = ce_provider a" "length (ce_keys a) = 1" "length (ce_keys b) = 1"
    and "ce_health a = health_default" "ce_health b = health_default" "ce_cursor a = 0" "ce_cursor b = 0" "\<not> fo_poisoned st"
    and "\<And>c v. \<exists>m. fst (lp_call P c v) = Inl (AuthFailed m)" "\<And>v. lp_now P v = now"
    and "ts_min X \<le> now" "now + 21600 * 10 ^ 9 \<le> ts_max X"
  shows "map ce_health (fo_entries (fst (snd (chain_complete X P st w)))) =
    replicate 2 \<lparr>eh_cooled = Some (now + 21600 * 10 ^ 9), eh_strike = 0, eh_auth = 4\<rparr>"
proof -
  have start: "struck now 0 st" using assms(1-9) by (simp add: struck_def)
  note pass = struck_pass[OF _ _ _ assms(10-13)]
  obtain e1 n1 st1 w1 where p1: "run_pass X P (snapshot_clients now True st) 0 None st w = (PassOn e1 n1, st1, w1)" "struck now 2 st1"
    using pass[OF start, of "snapshot_clients now True st" 0 None w] struck_snapshot[OF start, of True] by (auto simp: numeral_2_eq_2)
  obtain e2 n2 st2 w2 where p2: "run_pass X P (snapshot_clients now False st1) n1 e1 st1 w1 = (PassOn e2 n2, st2, w2)" "struck now 4 st2"
    using pass[OF p1(2), of "snapshot_clients now False st1" n1 e1 w1] struck_snapshot[OF p1(2), of False] by (auto simp: eval_nat_numeral)
  have "fo_entries (fst (snd (chain_complete X P st w))) = fo_entries st2"
    using p1(1) p2(1) assms(11) by (simp add: chain_complete_def record_turn_summary_def)
  moreover have "chrono_dur (ladder_at AUTH_COOLDOWN_LADDER 4) = 21600 * 10 ^ 9"
    by (simp add: chrono_dur_def ladder_at_def AUTH_COOLDOWN_LADDER_def)
  ultimately show ?thesis using p2(2) by (auto simp: struck_def numeral_2_eq_2)
qed

text \<open>An answer of the provider can end the chain for good. \<^verbatim>\<open>Retry-After\<close> is any 64-bit number;
  when adding it to the clock leaves the range of \<^verbatim>\<open>chrono\<close>, the addition panics while the state is
  locked. The turn dies, and every later completion finds the lock poisoned and says that there is no
  content, without calling any provider.\<close>

theorem huge_retry_after_poisons:
  assumes "fo_entries st = e # es" "\<not> fo_poisoned st" "\<not> is_cooled (lp_now P w) (ce_health e)"
    and "lp_call P (effective_config e) w = (Inl (RateLimited m (Some secs)), w1)"
    and "ts_max X < lp_now P w1 + chrono_dur secs"
  shows "\<exists>st1. chain_complete X P st w = (Killed, st1, w1) \<and>
    (\<forall>w2. case chain_complete X P st1 w2 of (res, st2, w3) \<Rightarrow> res = Done (Inl NoContentErr) \<and> w3 = w2)"
proof -
  have mono: "chrono_dur secs \<le> chrono_dur (max secs n)" for n
    by (simp add: chrono_dur_def)
  have killed: "\<exists>st1. record_failure X (lp_now P w1) 0 (RateLimited m (Some secs)) [] st = (Killed, [], st1) \<and> fo_poisoned st1"
    using assms(1,2,5) mono[of "ladder_at COOLDOWN_LADDER (sat_u8 (eh_strike (ce_health e)))"]
    by (simp add: record_failure_def cool_general_def cool_until_def general_cooldown_def put_entries_def next_step_def Let_def)
  then obtain st1 where f: "record_failure X (lp_now P w1) 0 (RateLimited m (Some secs)) [] st = (Killed, [], st1)" "fo_poisoned st1"
    by blast
  have "\<exists>cs. snapshot_clients (lp_now P w) True st = (0, effective_config e) # cs"
    using assms(1-3) by (simp add: snapshot_clients_def upt_conv_Cons del: upt_Suc)
  then have "chain_complete X P st w = (Killed, st1, w1)"
    using assms(4) f(1) by (auto simp: chain_complete_def entry_loop.simps)
  moreover have "case chain_complete X P st1 w2 of (res, st2, w3) \<Rightarrow> res = Done (Inl NoContentErr) \<and> w3 = w2" for w2
    using f(2) by (simp add: chain_complete_def snapshot_clients_def last_resort_def)
  ultimately show ?thesis by blast
qed

subsection \<open>Examples\<close>

definition sample_entry :: "string list \<Rightarrow> chain_entry" where
  "sample_entry keys = from_resolved \<lparr>re_provider = ''p'', re_template = llm_config_new ''u'' [] ''m'', re_keys = keys\<rparr>"

definition sample_chain :: "chain_entry list \<Rightarrow> failover" where
  "sample_chain es = \<lparr>fo_entries = es, fo_primary = ''p/m'', fo_last = None, fo_poisoned = False\<rparr>"

text \<open>A provider that knows one key; the world counts the calls.\<close>

definition sample_provider :: "llm_error \<Rightarrow> (nat, string) provider" where
  "sample_provider err = \<lparr>lp_call = (\<lambda>c w. (if lc_key c = ''k2'' then Inr ''hi'' else Inl err, Suc w)), lp_now = (\<lambda>w. 0)\<rparr>"

definition wide_clock :: ext where
  "wide_clock = \<lparr>show_uuid = (\<lambda>u. []), sha256 = (\<lambda>s. s), json_bytes = (\<lambda>v. Inr []), ts_min = 0, ts_max = 10 ^ 20\<rparr>"

lemmas sample_simps = sample_entry_def sample_chain_def sample_provider_def wide_clock_def from_resolved_def
  health_default_def llm_config_new_def

lemma sample_chain_ok: "chain_ok (sample_chain [sample_entry [''k1'', ''k2'']])"
  by (simp add: sample_simps chain_ok_def entry_ok_def)

theorem chain_complete_keeps_witness:
  "case chain_complete wide_clock (sample_provider (AuthFailed [])) (sample_chain [sample_entry [''k1'', ''k2'']]) 0 of
     (res, st', w') \<Rightarrow> chain_ok st' \<and> shape st' = shape (sample_chain [sample_entry [''k1'', ''k2'']])"
  by (rule chain_complete_keeps[OF sample_chain_ok])

theorem chain_complete_calls_witness:
  "snd (snd (chain_complete wide_clock (sample_provider (AuthFailed [])) (sample_chain [sample_entry [''k1'', ''k2'']]) 0)) \<le> 4"
  using chain_complete_calls[OF sample_chain_ok, of id "sample_provider (AuthFailed [])" wide_clock 0]
  by (simp add: sample_simps all_keys_def)

theorem chain_complete_answers_witness:
  "\<exists>r. fst (chain_complete wide_clock (sample_provider (AuthFailed [])) (sample_chain [sample_entry [''k1'', ''k2'']]) 0) = Done (Inr r)"
proof (rule chain_complete_answers[OF sample_chain_ok, where answer = "\<lambda>c. {fst (lp_call (sample_provider (AuthFailed [])) c 0)}"])
  have "chrono_dur n \<le> 21600 * 10 ^ 9" if "n \<le> 21600" for n using that by (simp add: chrono_dur_def)
  then have fits: "fits wide_clock (sample_provider (AuthFailed [])) n" if "n \<le> 21600" for n
    using that by (fastforce simp: fits_def sample_simps chrono_dur_def)
  have "general_cooldown (AuthFailed []) n \<le> 21600" for n
    using ladder_bound(2)[of n] by (simp add: general_cooldown_def Let_def)
  then show "calm wide_clock (sample_provider (AuthFailed [])) (\<lambda>c. {fst (lp_call (sample_provider (AuthFailed [])) c 0)})
      (sample_chain [sample_entry [''k1'', ''k2'']])"
    using fits ladder_bound(1) by (auto simp: calm_def tame_def sample_provider_def)
qed (auto simp: sample_simps good_entry_def config_with_key_def)

theorem huge_retry_after_poisons_witness:
  "fst (chain_complete wide_clock (sample_provider (RateLimited [] (Some (10 ^ 14)))) (sample_chain [sample_entry [''k1'']]) 0) = Killed"
  using huge_retry_after_poisons[of "sample_chain [sample_entry [''k1'']]" "sample_entry [''k1'']" "[]"
      "sample_provider (RateLimited [] (Some (10 ^ 14)))" 0 "[]" "10 ^ 14" 1 wide_clock]
  by (auto simp: sample_simps is_cooled_def effective_config_def config_with_key_def chrono_dur_def)

definition dead_provider :: "(nat, string) provider" where
  "dead_provider = \<lparr>lp_call = (\<lambda>c w. (Inl (AuthFailed []), Suc w)), lp_now = (\<lambda>w. 0)\<rparr>"

theorem dead_key_climbs_ladder_witness:
  "map ce_health (fo_entries (fst (snd (chain_complete wide_clock dead_provider
       (sample_chain [sample_entry [''k1''], sample_entry [''k1'']]) 0)))) =
     replicate 2 \<lparr>eh_cooled = Some (0 + 21600 * 10 ^ 9), eh_strike = 0, eh_auth = 4\<rparr>"
  by (rule dead_key_climbs_ladder[of _ "sample_entry [''k1'']" "sample_entry [''k1'']"])
    (simp_all add: sample_simps dead_provider_def)

end
