(* ===== verification/Contract.thy ===== *)
theory Contract
  imports Action_Base Json_Members
begin

section \<open>Contracts between agents\<close>

text \<open>
  Models \<^verbatim>\<open>crates/familyclaw-bridge/src/contract.rs\<close> and \<^verbatim>\<open>contract_bus.rs\<close>, and the error type of
  \<^verbatim>\<open>crates/familyclaw-core/src/error.rs\<close>: schemas, clauses, capabilities, the registry of capabilities,
  and the board on which a contract is proposed, accepted or rejected, and fulfilled or failed. The
  comparison of floating-point numbers and the text of JSON values are the record \<open>json_env\<close>. A fresh
  identifier is an argument of the operation that draws it; every operation holds the lock of its
  board for its whole run, so operations come one after another.
\<close>

subsection \<open>Errors of the platform\<close>

datatype core_error =
    ConfigErr string
  | IoErr string
  | SerdeErr string
  | BusErr string
  | MemoryErr string
  | NotFoundErr string
  | InvalidInputErr string
  | LlmErr string
  | SandboxErr string

fun show_core_error :: "core_error \<Rightarrow> string" where
  "show_core_error (ConfigErr m) = ''config error: '' @ m"
| "show_core_error (IoErr m) = ''io error: '' @ m"
| "show_core_error (SerdeErr m) = ''serde error: '' @ m"
| "show_core_error (BusErr m) = ''bus error: '' @ m"
| "show_core_error (MemoryErr m) = ''memory error: '' @ m"
| "show_core_error (NotFoundErr m) = ''not found: '' @ m"
| "show_core_error (InvalidInputErr m) = ''invalid input: '' @ m"
| "show_core_error (LlmErr m) = ''llm error: '' @ m"
| "show_core_error (SandboxErr m) = ''sandbox error: '' @ m"

subsection \<open>Schemas\<close>

record json_env =
  je_ge :: "jnumber \<Rightarrow> jnumber \<Rightarrow> bool"  \<comment> \<open>\<^verbatim>\<open>as_f64\<close> of both, then \<^verbatim>\<open>>=\<close>\<close>
  je_le :: "jnumber \<Rightarrow> jnumber \<Rightarrow> bool"
  je_text :: "json \<Rightarrow> string"            \<comment> \<open>\<^verbatim>\<open>Display\<close> of a value\<close>
  je_parse :: "string \<Rightarrow> json option"   \<comment> \<open>\<^verbatim>\<open>serde_json::from_str\<close>\<close>

datatype field_type = FieldStr | FieldInt | FieldBool | FieldArr | FieldObj

fun type_matches :: "field_type \<Rightarrow> json \<Rightarrow> bool" where
  "type_matches FieldStr v = (case v of JStr _ \<Rightarrow> True | _ \<Rightarrow> False)"
| "type_matches FieldInt v = (case v of JNum _ \<Rightarrow> True | _ \<Rightarrow> False)"
| "type_matches FieldBool v = (case v of JBool _ \<Rightarrow> True | _ \<Rightarrow> False)"
| "type_matches FieldArr v = (case v of JArr _ \<Rightarrow> True | _ \<Rightarrow> False)"
| "type_matches FieldObj v = (case v of JObj _ \<Rightarrow> True | _ \<Rightarrow> False)"

fun type_word :: "field_type \<Rightarrow> string" where
  "type_word FieldStr = ''string''"
| "type_word FieldInt = ''number''"
| "type_word FieldBool = ''bool''"
| "type_word FieldArr = ''array''"
| "type_word FieldObj = ''object''"

record schema_field =
  sf_name :: string
  sf_type :: field_type
  sf_required :: bool

type_synonym schema = "schema_field list"

definition required_field :: "string \<Rightarrow> field_type \<Rightarrow> schema_field" where
  "required_field name ty = \<lparr>sf_name = name, sf_type = ty, sf_required = True\<rparr>"

definition optional_field :: "string \<Rightarrow> field_type \<Rightarrow> schema_field" where
  "optional_field name ty = \<lparr>sf_name = name, sf_type = ty, sf_required = False\<rparr>"

record violation =
  vi_field :: string
  vi_reason :: string

definition field_violation :: "(string \<times> json) list \<Rightarrow> schema_field \<Rightarrow> violation option" where
  "field_violation members f =
     (case map_of members (sf_name f) of
        None \<Rightarrow> (if sf_required f then Some \<lparr>vi_field = sf_name f, vi_reason = ''missing required field''\<rparr> else None)
      | Some v \<Rightarrow>
          (if v = JNull \<and> sf_required f then Some \<lparr>vi_field = sf_name f, vi_reason = ''required field is null''\<rparr>
           else if \<not> type_matches (sf_type f) v
             then Some \<lparr>vi_field = sf_name f, vi_reason = ''expected '' @ type_word (sf_type f)\<rparr>
           else None))"

definition schema_check :: "schema \<Rightarrow> json \<Rightarrow> violation list" where
  "schema_check s v =
     (case v of
        JObj members \<Rightarrow> List.map_filter (field_violation members) s
      | _ \<Rightarrow> [\<lparr>vi_field = ''$root'', vi_reason = ''expected object''\<rparr>])"

definition schema_valid :: "schema \<Rightarrow> json \<Rightarrow> bool" where
  "schema_valid s v \<longleftrightarrow> schema_check s v = []"

subsection \<open>Clauses\<close>

datatype clause_op = OpPresent | OpNonEmpty | OpEq | OpGte | OpLte | OpMinLen | OpMaxLen

record clause =
  cl_field :: string
  cl_op :: clause_op
  cl_value :: json

text \<open>\<^verbatim>\<open>chars().count()\<close>: the bytes that do not continue a character.\<close>

definition char_count :: "string \<Rightarrow> nat" where
  "char_count s = length (filter (\<lambda>c. \<not> (128 \<le> (of_char c :: nat) \<and> (of_char c :: nat) < 192)) s)"

definition value_length :: "json option \<Rightarrow> nat option" where
  "value_length v =
     (case v of
        Some (JStr s) \<Rightarrow> Some (char_count s)
      | Some (JArr a) \<Rightarrow> Some (length a)
      | Some (JObj m) \<Rightarrow> Some (length m)
      | _ \<Rightarrow> None)"

fun as_number :: "json \<Rightarrow> jnumber option" where
  "as_number (JNum n) = Some n"
| "as_number _ = None"

fun as_u64 :: "json \<Rightarrow> nat option" where
  "as_u64 (JNum (PosInt n)) = Some n"
| "as_u64 _ = None"

definition compare_with :: "(jnumber \<Rightarrow> jnumber \<Rightarrow> bool) \<Rightarrow> json option \<Rightarrow> json \<Rightarrow> bool" where
  "compare_with cmp field v =
     (case (Option.bind field as_number, as_number v) of (Some a, Some b) \<Rightarrow> cmp a b | _ \<Rightarrow> False)"

definition clause_eval :: "json_env \<Rightarrow> clause \<Rightarrow> json \<Rightarrow> bool" where
  "clause_eval E c v =
     (let field = json_get (cl_field c) v in
      case cl_op c of
        OpPresent \<Rightarrow> (case field of None \<Rightarrow> False | Some x \<Rightarrow> x \<noteq> JNull)
      | OpNonEmpty \<Rightarrow> (case field of Some (JStr s) \<Rightarrow> s \<noteq> [] | Some (JArr a) \<Rightarrow> a \<noteq> [] | Some (JObj m) \<Rightarrow> m \<noteq> [] | _ \<Rightarrow> False)
      | OpEq \<Rightarrow> field = Some (cl_value c)
      | OpGte \<Rightarrow> compare_with (je_ge E) field (cl_value c)
      | OpLte \<Rightarrow> compare_with (je_le E) field (cl_value c)
      | OpMinLen \<Rightarrow> (case (value_length field, as_u64 (cl_value c)) of (Some len, Some lo) \<Rightarrow> lo \<le> len | _ \<Rightarrow> False)
      | OpMaxLen \<Rightarrow> (case (value_length field, as_u64 (cl_value c)) of (Some len, Some hi) \<Rightarrow> len \<le> hi | _ \<Rightarrow> False))"

definition clause_describe :: "json_env \<Rightarrow> clause \<Rightarrow> string" where
  "clause_describe E c =
     (case cl_op c of
        OpPresent \<Rightarrow> cl_field c @ '' present''
      | OpNonEmpty \<Rightarrow> cl_field c @ '' non-empty''
      | OpEq \<Rightarrow> cl_field c @ '' == '' @ je_text E (cl_value c)
      | OpGte \<Rightarrow> cl_field c @ '' >= '' @ je_text E (cl_value c)
      | OpLte \<Rightarrow> cl_field c @ '' <= '' @ je_text E (cl_value c)
      | OpMinLen \<Rightarrow> ''len('' @ cl_field c @ '') >= '' @ je_text E (cl_value c)
      | OpMaxLen \<Rightarrow> ''len('' @ cl_field c @ '') <= '' @ je_text E (cl_value c))"

subsection \<open>Capabilities\<close>

record capability =
  cp_id :: uuid
  cp_name :: string
  cp_input :: schema
  cp_output :: schema
  cp_pre :: "clause list"
  cp_post :: "clause list"

definition capability_new :: "uuid \<Rightarrow> string \<Rightarrow> schema \<Rightarrow> schema \<Rightarrow> capability" where
  "capability_new i name input output =
     \<lparr>cp_id = i, cp_name = name, cp_input = input, cp_output = output, cp_pre = [], cp_post = []\<rparr>"

type_synonym capability_registry = "(uuid, capability) hashmap"

definition advertise :: "capability \<Rightarrow> capability_registry \<Rightarrow> uuid \<times> capability_registry" where
  "advertise c r = (cp_id c, hm_insert (cp_id c) c r)"

definition find_by_name :: "string \<Rightarrow> capability_registry \<Rightarrow> capability list" where
  "find_by_name name r = sort_key cp_id (filter (\<lambda>c. cp_name c = name) (hm_values r))"

subsection \<open>Contracts\<close>

datatype contract_status = StProposed | StAccepted | StRejected | StFulfilled | StFailed

fun contract_terminal :: "contract_status \<Rightarrow> bool" where
  "contract_terminal StProposed = False"
| "contract_terminal StAccepted = False"
| "contract_terminal _ = True"

fun contract_can :: "contract_status \<Rightarrow> contract_status \<Rightarrow> bool" where
  "contract_can StProposed StAccepted = True"
| "contract_can StProposed StRejected = True"
| "contract_can StAccepted StFulfilled = True"
| "contract_can StAccepted StFailed = True"
| "contract_can _ _ = False"

fun show_contract_status :: "contract_status \<Rightarrow> string" where
  "show_contract_status StProposed = ''Proposed''"
| "show_contract_status StAccepted = ''Accepted''"
| "show_contract_status StRejected = ''Rejected''"
| "show_contract_status StFulfilled = ''Fulfilled''"
| "show_contract_status StFailed = ''Failed''"

record deliverable =
  dv_from :: uuid
  dv_payload :: json
  dv_at :: timestamp

record contract =
  ct_id :: uuid
  ct_capability :: capability
  ct_requester :: uuid
  ct_provider :: uuid
  ct_input :: json
  ct_output :: schema
  ct_post :: "clause list"
  ct_status :: contract_status
  ct_deliverable :: "deliverable option"
  ct_link :: "uuid option"
  ct_created :: timestamp
  ct_updated :: timestamp

definition with_link :: "uuid \<Rightarrow> contract \<Rightarrow> contract" where
  "with_link t c = c\<lparr>ct_link := Some t\<rparr>"

datatype contract_error =
    InputSchemaViolation "violation list"
  | PreconditionFailed string
  | OutputSchemaViolation "violation list"
  | PostconditionBreach string
  | IllegalContractTransition contract_status contract_status
  | ContractNotFound string
  | ContractRejected string

fun join_violations :: "violation list \<Rightarrow> string" where
  "join_violations [] = []"
| "join_violations [v] = vi_field v @ '': '' @ vi_reason v"
| "join_violations (v # vs) = vi_field v @ '': '' @ vi_reason v @ ''; '' @ join_violations vs"

fun show_contract_error :: "contract_error \<Rightarrow> string" where
  "show_contract_error (InputSchemaViolation v) = ''input schema violation: '' @ join_violations v"
| "show_contract_error (PreconditionFailed c) = ''precondition failed: '' @ c"
| "show_contract_error (OutputSchemaViolation v) = ''output schema violation: '' @ join_violations v"
| "show_contract_error (PostconditionBreach c) = ''postcondition breach: '' @ c"
| "show_contract_error (IllegalContractTransition a b) =
     ''illegal contract transition: '' @ show_contract_status a @ '' -> '' @ show_contract_status b"
| "show_contract_error (ContractNotFound what) = ''contract not found: '' @ what"
| "show_contract_error (ContractRejected reason) = ''contract rejected: '' @ reason"

fun core_of_contract_error :: "contract_error \<Rightarrow> core_error" where
  "core_of_contract_error (ContractNotFound what) = NotFoundErr what"
| "core_of_contract_error other = InvalidInputErr (show_contract_error other)"

subsection \<open>The board\<close>

type_synonym contract_board = "(uuid, contract) hashmap"
type_synonym contract_result = "(contract_error + contract) \<times> contract_board"

definition propose ::
  "uuid \<Rightarrow> capability \<Rightarrow> uuid \<Rightarrow> uuid \<Rightarrow> json \<Rightarrow> timestamp \<Rightarrow> contract_board \<Rightarrow> contract_result" where
  "propose i cap requester provider input now b =
     (if schema_check (cp_input cap) input \<noteq> [] then (Inl (InputSchemaViolation (schema_check (cp_input cap) input)), b)
      else let c = \<lparr>ct_id = i, ct_capability = cap, ct_requester = requester, ct_provider = provider, ct_input = input,
             ct_output = cp_output cap, ct_post = cp_post cap, ct_status = StProposed, ct_deliverable = None,
             ct_link = None, ct_created = now, ct_updated = now\<rparr>
           in (Inr c, hm_insert i c b))"

definition contract_insert :: "contract \<Rightarrow> contract_board \<Rightarrow> contract_board" where
  "contract_insert c b = hm_insert (ct_id c) c b"

text \<open>An operation on one contract of the board; it may change the contract and still fail.\<close>

definition on_contract ::
  "ext \<Rightarrow> uuid \<Rightarrow> (contract \<Rightarrow> contract_error option \<times> contract) \<Rightarrow> contract_board \<Rightarrow> contract_result" where
  "on_contract X i f b =
     (case hm_get b i of
        None \<Rightarrow> (Inl (ContractNotFound (show_uuid X i)), b)
      | Some c \<Rightarrow>
          (case f c of
             (Some e, c') \<Rightarrow> (Inl e, hm_insert i c' b)
           | (None, c') \<Rightarrow> (Inr c', hm_insert i c' b)))"

definition move_to :: "contract_status \<Rightarrow> timestamp \<Rightarrow> contract \<Rightarrow> contract" where
  "move_to s now c = c\<lparr>ct_status := s, ct_updated := now\<rparr>"

definition accept_contract :: "json_env \<Rightarrow> timestamp \<Rightarrow> contract \<Rightarrow> contract_error option \<times> contract" where
  "accept_contract E now c =
     (if \<not> contract_can (ct_status c) StAccepted then (Some (IllegalContractTransition (ct_status c) StAccepted), c)
      else case List.find (\<lambda>cl. \<not> clause_eval E cl (ct_input c)) (cp_pre (ct_capability c)) of
             Some cl \<Rightarrow> (Some (PreconditionFailed (clause_describe E cl)), c)
           | None \<Rightarrow> (None, move_to StAccepted now c))"

definition end_contract :: "contract_status \<Rightarrow> timestamp \<Rightarrow> contract \<Rightarrow> contract_error option \<times> contract" where
  "end_contract s now c =
     (if \<not> contract_can (ct_status c) s then (Some (IllegalContractTransition (ct_status c) s), c)
      else (None, move_to s now c))"

definition fulfill_contract ::
  "json_env \<Rightarrow> deliverable \<Rightarrow> timestamp \<Rightarrow> contract \<Rightarrow> contract_error option \<times> contract" where
  "fulfill_contract E d now c =
     (if ct_status c \<noteq> StAccepted then (Some (IllegalContractTransition (ct_status c) StFulfilled), c)
      else if schema_check (ct_output c) (dv_payload d) \<noteq> []
        then (Some (OutputSchemaViolation (schema_check (ct_output c) (dv_payload d))),
              move_to StFailed now (c\<lparr>ct_deliverable := Some d\<rparr>))
      else case List.find (\<lambda>cl. \<not> clause_eval E cl (dv_payload d)) (ct_post c) of
             Some cl \<Rightarrow> (Some (PostconditionBreach (clause_describe E cl)), move_to StFailed now (c\<lparr>ct_deliverable := Some d\<rparr>))
           | None \<Rightarrow> (None, move_to StFulfilled now (c\<lparr>ct_deliverable := Some d\<rparr>)))"

definition contract_accept :: "json_env \<Rightarrow> ext \<Rightarrow> uuid \<Rightarrow> timestamp \<Rightarrow> contract_board \<Rightarrow> contract_result" where
  "contract_accept E X i now b = on_contract X i (accept_contract E now) b"

definition contract_reject :: "ext \<Rightarrow> uuid \<Rightarrow> timestamp \<Rightarrow> contract_board \<Rightarrow> contract_result" where
  "contract_reject X i now b = on_contract X i (end_contract StRejected now) b"

definition contract_fulfill ::
  "json_env \<Rightarrow> ext \<Rightarrow> uuid \<Rightarrow> deliverable \<Rightarrow> timestamp \<Rightarrow> contract_board \<Rightarrow> contract_result" where
  "contract_fulfill E X i d now b = on_contract X i (fulfill_contract E d now) b"

definition contract_fail :: "ext \<Rightarrow> uuid \<Rightarrow> timestamp \<Rightarrow> contract_board \<Rightarrow> contract_result" where
  "contract_fail X i now b = on_contract X i (end_contract StFailed now) b"

definition list_contracts :: "(contract \<Rightarrow> bool) \<Rightarrow> contract_board \<Rightarrow> contract list" where
  "list_contracts p b = sort_key ct_id (filter p (hm_values b))"

definition contract_list :: "contract_board \<Rightarrow> contract list" where
  "contract_list b = list_contracts (\<lambda>_. True) b"

definition list_for_provider :: "uuid \<Rightarrow> contract_board \<Rightarrow> contract list" where
  "list_for_provider p b = list_contracts (\<lambda>c. ct_provider c = p) b"

definition list_by_contract_status :: "contract_status \<Rightarrow> contract_board \<Rightarrow> contract list" where
  "list_by_contract_status s b = list_contracts (\<lambda>c. ct_status c = s) b"

definition list_for_task :: "uuid \<Rightarrow> contract_board \<Rightarrow> contract list" where
  "list_for_task t b = list_contracts (\<lambda>c. ct_link c = Some t) b"

subsection \<open>Messages about contracts (contract\_bus.rs)\<close>

datatype contract_message =
    MsgPropose uuid uuid uuid string json
  | MsgAccept uuid uuid
  | MsgReject uuid uuid string
  | MsgFulfill uuid deliverable
  | MsgFail uuid string
  | MsgBreach uuid string

fun message_contract_id :: "contract_message \<Rightarrow> uuid" where
  "message_contract_id (MsgPropose i _ _ _ _) = i"
| "message_contract_id (MsgAccept i _) = i"
| "message_contract_id (MsgReject i _ _) = i"
| "message_contract_id (MsgFulfill i _) = i"
| "message_contract_id (MsgFail i _) = i"
| "message_contract_id (MsgBreach i _) = i"

fun message_op :: "contract_message \<Rightarrow> string" where
  "message_op (MsgPropose _ _ _ _ _) = ''propose''"
| "message_op (MsgAccept _ _) = ''accept''"
| "message_op (MsgReject _ _ _) = ''reject''"
| "message_op (MsgFulfill _ _) = ''fulfill''"
| "message_op (MsgFail _ _) = ''fail''"
| "message_op (MsgBreach _ _) = ''breach''"

definition propose_from :: "contract \<Rightarrow> contract_message" where
  "propose_from c = MsgPropose (ct_id c) (ct_requester c) (ct_provider c) (cp_name (ct_capability c)) (ct_input c)"

definition from_contract_status :: "contract \<Rightarrow> contract_message option" where
  "from_contract_status c =
     (case ct_status c of
        StFulfilled \<Rightarrow> map_option (MsgFulfill (ct_id c)) (ct_deliverable c)
      | StRejected \<Rightarrow> Some (MsgReject (ct_id c) (ct_provider c) ''rejected'')
      | StFailed \<Rightarrow> Some (MsgFail (ct_id c) ''failed'')
      | _ \<Rightarrow> None)"

subsection \<open>What a contract promises\<close>

datatype contract_op =
    DoPropose uuid capability uuid uuid json timestamp
  | DoAccept uuid timestamp
  | DoReject uuid timestamp
  | DoFulfill uuid deliverable timestamp
  | DoFail uuid timestamp
  | DoInsert contract

fun contract_apply :: "json_env \<Rightarrow> ext \<Rightarrow> contract_op \<Rightarrow> contract_board \<Rightarrow> contract_board" where
  "contract_apply E X (DoPropose i cap r p input now) b = snd (propose i cap r p input now b)"
| "contract_apply E X (DoAccept i now) b = snd (contract_accept E X i now b)"
| "contract_apply E X (DoReject i now) b = snd (contract_reject X i now b)"
| "contract_apply E X (DoFulfill i d now) b = snd (contract_fulfill E X i d now b)"
| "contract_apply E X (DoFail i now) b = snd (contract_fail X i now b)"
| "contract_apply E X (DoInsert c) b = contract_insert c b"

definition contract_run :: "json_env \<Rightarrow> ext \<Rightarrow> contract_op list \<Rightarrow> contract_board \<Rightarrow> contract_board" where
  "contract_run E X ops b = foldl (\<lambda>b op. contract_apply E X op b) b ops"

fun proposed_id :: "contract_op \<Rightarrow> uuid option" where
  "proposed_id (DoPropose i _ _ _ _ _) = Some i"
| "proposed_id (DoInsert c) = Some (ct_id c)"
| "proposed_id _ = None"

text \<open>A contract keeps its word: what its status claims about input and deliverable is true.\<close>

definition meets :: "json_env \<Rightarrow> schema \<Rightarrow> clause list \<Rightarrow> json \<Rightarrow> bool" where
  "meets E s cls v \<longleftrightarrow> schema_valid s v \<and> list_all (\<lambda>cl. clause_eval E cl v) cls"

definition contract_sound :: "json_env \<Rightarrow> contract \<Rightarrow> bool" where
  "contract_sound E c \<longleftrightarrow>
     ct_output c = cp_output (ct_capability c) \<and> ct_post c = cp_post (ct_capability c) \<and>
     schema_valid (cp_input (ct_capability c)) (ct_input c) \<and>
     (ct_status c \<in> {StAccepted, StFulfilled, StFailed} \<longrightarrow> meets E (cp_input (ct_capability c)) (cp_pre (ct_capability c)) (ct_input c)) \<and>
     (case ct_deliverable c of
        None \<Rightarrow> ct_status c \<noteq> StFulfilled
      | Some d \<Rightarrow> (if meets E (cp_output (ct_capability c)) (cp_post (ct_capability c)) (dv_payload d)
                  then ct_status c = StFulfilled else ct_status c = StFailed))"

definition same_terms :: "contract \<Rightarrow> contract \<Rightarrow> bool" where
  "same_terms c c' \<longleftrightarrow> ct_id c' = ct_id c \<and> ct_capability c' = ct_capability c \<and> ct_requester c' = ct_requester c \<and>
     ct_provider c' = ct_provider c \<and> ct_input c' = ct_input c \<and> ct_output c' = ct_output c \<and> ct_post c' = ct_post c \<and>
     ct_link c' = ct_link c \<and> ct_created c' = ct_created c"

text \<open>One operation on a contract: it stays, or takes one edge of its life.\<close>

definition contract_edge :: "contract \<Rightarrow> contract \<Rightarrow> bool" where
  "contract_edge c c' \<longleftrightarrow> c' = c \<or> same_terms c c' \<and> contract_can (ct_status c) (ct_status c')"

lemma contract_can_cases:
  "contract_can a b \<longleftrightarrow> a = StProposed \<and> b \<in> {StAccepted, StRejected} \<or> a = StAccepted \<and> b \<in> {StFulfilled, StFailed}"
  by (cases a; cases b) simp_all

lemma find_refuting: "List.find (\<lambda>cl. \<not> P cl) cls = None \<longleftrightarrow> list_all P cls"
  by (auto simp: find_None_iff list_all_iff)

lemma find_refuted: "List.find (\<lambda>cl. \<not> P cl) cls = Some cl \<Longrightarrow> \<not> list_all P cls"
  by (auto simp: find_Some_iff list_all_length)

lemma move_to_simps [simp]:
  "ct_status (move_to s now c) = s" "ct_deliverable (move_to s now c) = ct_deliverable c"
  "ct_capability (move_to s now c) = ct_capability c" "ct_input (move_to s now c) = ct_input c"
  "ct_output (move_to s now c) = ct_output c" "ct_post (move_to s now c) = ct_post c"
  "same_terms c (move_to s now c)" "same_terms c (move_to s now (c\<lparr>ct_deliverable := d\<rparr>))"
  by (simp_all add: move_to_def same_terms_def)

text \<open>An operation on one contract is a function on it that takes an edge and keeps its word.\<close>

definition keeps_word :: "json_env \<Rightarrow> (contract \<Rightarrow> contract) \<Rightarrow> bool" where
  "keeps_word E f \<longleftrightarrow> (\<forall>c. contract_edge c (f c) \<and> (contract_sound E c \<longrightarrow> contract_sound E (f c)))"

lemma accept_step: "keeps_word E (\<lambda>c. snd (accept_contract E now c))"
  by (auto simp: keeps_word_def accept_contract_def contract_edge_def contract_sound_def contract_can_cases find_refuting
      meets_def split: if_splits option.splits)

lemma end_step: "s \<in> {StRejected, StFailed} \<Longrightarrow> keeps_word E (\<lambda>c. snd (end_contract s now c))"
  by (auto simp: keeps_word_def end_contract_def contract_edge_def contract_sound_def contract_can_cases
      split: if_splits option.splits)

lemma fulfill_step: "keeps_word E (\<lambda>c. snd (fulfill_contract E d now c))"
  by (auto simp: keeps_word_def fulfill_contract_def contract_edge_def contract_sound_def contract_can_cases find_refuting
      meets_def schema_valid_def dest: find_refuted split: if_splits option.splits)

definition update_at :: "uuid \<Rightarrow> (contract \<Rightarrow> contract) \<Rightarrow> contract_board \<Rightarrow> contract_board" where
  "update_at i f b = (case hm_get b i of None \<Rightarrow> b | Some c \<Rightarrow> hm_insert i (f c) b)"

lemma on_contract_board: "snd (on_contract X i f b) = update_at i (\<lambda>c. snd (f c)) b"
  by (simp add: on_contract_def update_at_def split: option.splits prod.splits)

lemma contract_apply_cases:
  obtains (propose) i cap r p input now where "op = DoPropose i cap r p input now"
  | (insert) c where "op = DoInsert c"
  | (update) i f where "contract_apply E X op b = update_at i f b" "keeps_word E f" "proposed_id op = None"
  using accept_step end_step fulfill_step
  by (cases op) (auto simp: contract_accept_def contract_reject_def contract_fail_def contract_fulfill_def on_contract_board)

lemma update_at_get: "hm_get (update_at i f b) j = map_option (if i = j then f else id) (hm_get b j)"
  by (auto simp: update_at_def split: option.splits)

lemma contract_apply_edge:
  assumes "proposed_id op \<noteq> Some j" "hm_get b j = Some c"
  shows "\<exists>c'. hm_get (contract_apply E X op b) j = Some c' \<and> contract_edge c c'"
proof (cases rule: contract_apply_cases[where op = op and E = E and X = X and b = b])
  case (propose i cap r p input now)
  then show ?thesis using assms by (auto simp: propose_def contract_edge_def Let_def)
next
  case (insert c')
  then show ?thesis using assms by (auto simp: contract_insert_def contract_edge_def)
next
  case (update i f)
  then show ?thesis using assms by (auto simp: update_at_get keeps_word_def contract_edge_def)
qed

text \<open>The contract under an identifier keeps its word, if there is one.\<close>

definition sound_at :: "json_env \<Rightarrow> uuid \<Rightarrow> contract_board \<Rightarrow> bool" where
  "sound_at E i b \<longleftrightarrow> (case hm_get b i of None \<Rightarrow> True | Some c \<Rightarrow> contract_sound E c)"

fun inserts_sound :: "json_env \<Rightarrow> uuid \<Rightarrow> contract_op \<Rightarrow> bool" where
  "inserts_sound E i (DoInsert c) = (ct_id c = i \<longrightarrow> contract_sound E c)"
| "inserts_sound E i _ = True"

lemma contract_apply_sound:
  assumes "sound_at E i b" "inserts_sound E i op"
  shows "sound_at E i (contract_apply E X op b)"
proof (cases rule: contract_apply_cases[where op = op and E = E and X = X and b = b])
  case (propose j cap r p input now)
  then show ?thesis using assms(1)
    by (auto simp: sound_at_def propose_def contract_sound_def schema_valid_def Let_def)
next
  case (insert c)
  then show ?thesis using assms by (auto simp: sound_at_def contract_insert_def)
next
  case (update j f)
  then show ?thesis using assms(1) by (auto simp: sound_at_def update_at_get keeps_word_def split: option.splits)
qed

lemma contract_run_sound:
  assumes "sound_at E i b" "list_all (inserts_sound E i) ops"
  shows "sound_at E i (contract_run E X ops b)"
  using assms by (induction ops arbitrary: b) (simp_all add: contract_run_def contract_apply_sound)

lemma contract_edge_terminal: "contract_edge c c' \<Longrightarrow> contract_terminal (ct_status c) \<Longrightarrow> c' = c"
  by (cases "ct_status c") (auto simp: contract_edge_def)

text \<open>C36: a contract keeps its word. Take any board on which the contract under an identifier, if there is
  one, keeps its word, for example the empty board, and any sequence of proposals, acceptances,
  rejections, deliveries, failures and insertions, where what is inserted under that identifier keeps its
  word, since an insertion checks nothing. Then the contract under it afterwards has the terms of its
  capability and an input that meets its schema; if it was accepted, the input meets the preconditions;
  it is fulfilled exactly when it holds a deliverable that meets the schema and the postconditions; and a
  deliverable that does not is kept and the contract has failed.\<close>

theorem contracts_sound:
  assumes "sound_at E i b" "list_all (inserts_sound E i) ops" "hm_get (contract_run E X ops b) i = Some c"
  shows "contract_sound E c"
  using contract_run_sound[OF assms(1,2), of X] assms(3) by (simp add: sound_at_def)

text \<open>A contract moves along its life and stops. Over every sequence of operations that proposes
  nothing under its identifier, a contract stays on the board with its terms unchanged, its status is
  one that can be reached from the one it had, and a rejected, fulfilled or failed contract is never
  changed again, not even its deliverable or its time stamps.\<close>

theorem contract_life:
  assumes "hm_get b i = Some c" "\<forall>op \<in> set ops. proposed_id op \<noteq> Some i"
  shows "\<exists>c'. hm_get (contract_run E X ops b) i = Some c' \<and> same_terms c c' \<and>
    (\<lambda>s t. contract_can s t)\<^sup>*\<^sup>* (ct_status c) (ct_status c') \<and> (contract_terminal (ct_status c) \<longrightarrow> c' = c)"
  using assms(2)
proof (induction ops rule: rev_induct)
  case Nil
  then show ?case using assms(1) by (simp add: contract_run_def same_terms_def)
next
  case (snoc op ops)
  then obtain c1 where c1: "hm_get (contract_run E X ops b) i = Some c1" "same_terms c c1"
      "(\<lambda>s t. contract_can s t)\<^sup>*\<^sup>* (ct_status c) (ct_status c1)" "contract_terminal (ct_status c) \<longrightarrow> c1 = c" by auto
  obtain c2 where c2: "hm_get (contract_apply E X op (contract_run E X ops b)) i = Some c2" "contract_edge c1 c2"
    using contract_apply_edge[OF _ c1(1), of op E X] snoc.prems by auto
  have "same_terms c c2" using c1(2) c2(2) by (auto simp: contract_edge_def same_terms_def)
  moreover have "(\<lambda>s t. contract_can s t)\<^sup>*\<^sup>* (ct_status c) (ct_status c2)"
    using c1(3) c2(2) by (auto simp: contract_edge_def intro: rtranclp.rtrancl_into_rtrancl)
  moreover have "contract_terminal (ct_status c) \<longrightarrow> c2 = c" using c1(4) contract_edge_terminal[OF c2(2)] by auto
  ultimately show ?case using c2(1) by (auto simp: contract_run_def)
qed

definition sample_env :: json_env where
  "sample_env = \<lparr>je_ge = (\<lambda>a b. a = b), je_le = (\<lambda>a b. a = b), je_text = (\<lambda>v. []), je_parse = (\<lambda>s. None)\<rparr>"

definition bare_ext :: ext where
  "bare_ext = \<lparr>show_uuid = (\<lambda>u. []), sha256 = (\<lambda>s. s), json_bytes = (\<lambda>v. Inr []), ts_min = 0, ts_max = 10\<rparr>"

definition sample_capability :: capability where
  "sample_capability = (capability_new 1 ''draft'' [required_field ''topic'' FieldStr] [required_field ''body'' FieldStr])
     \<lparr>cp_post := [\<lparr>cl_field = ''body'', cl_op = OpNonEmpty, cl_value = JNull\<rparr>]\<rparr>"

definition sample_ops :: "contract_op list" where
  "sample_ops = [DoPropose 7 sample_capability 2 3 (JObj [(''topic'', JStr ''cats'')]) 0, DoAccept 7 1,
     DoFulfill 7 \<lparr>dv_from = 3, dv_payload = JObj [(''body'', JStr ''meow'')], dv_at = 2\<rparr> 2]"

definition sample_contract :: contract where
  "sample_contract = \<lparr>ct_id = 7, ct_capability = sample_capability, ct_requester = 2, ct_provider = 3,
     ct_input = JObj [(''topic'', JStr ''dogs'')], ct_output = cp_output sample_capability, ct_post = cp_post sample_capability,
     ct_status = StProposed, ct_deliverable = None, ct_link = None, ct_created = 0, ct_updated = 0\<rparr>"

lemmas sample_contract_simps = contract_run_def sample_ops_def sample_capability_def capability_new_def required_field_def
  propose_def schema_check_def field_violation_def contract_accept_def contract_fulfill_def on_contract_def
  accept_contract_def fulfill_contract_def clause_eval_def move_to_def map_filter_simps Let_def

theorem contracts_sound_witness:
  "\<exists>c. hm_get (contract_run sample_env bare_ext (DoInsert sample_contract # sample_ops) []) 7 = Some c \<and>
     ct_status c = StFulfilled \<and> contract_sound sample_env c"
proof -
  have 1: "sound_at sample_env 7 []" "list_all (inserts_sound sample_env 7) (DoInsert sample_contract # sample_ops)"
    by (simp_all add: sound_at_def sample_ops_def contract_sound_def sample_contract_def sample_capability_def
        capability_new_def required_field_def schema_valid_def schema_check_def field_violation_def map_filter_simps)
  obtain c where c: "hm_get (contract_run sample_env bare_ext (DoInsert sample_contract # sample_ops) []) 7 = Some c"
      "ct_status c = StFulfilled"
    by (simp add: sample_contract_simps contract_insert_def)
  then show ?thesis using contracts_sound[OF 1 c(1)] by blast
qed

theorem contract_life_witness:
  "\<exists>c. hm_get (contract_run sample_env bare_ext [DoFail 7 5] (contract_run sample_env bare_ext sample_ops [])) 7 = Some c \<and>
     hm_get (contract_run sample_env bare_ext sample_ops []) 7 = Some c"
proof -
  obtain c where c: "hm_get (contract_run sample_env bare_ext sample_ops []) 7 = Some c" "ct_status c = StFulfilled"
    by (simp add: sample_contract_simps)
  then show ?thesis using contract_life[OF c(1), of "[DoFail 7 5]" sample_env bare_ext] by simp
qed

end
