(* ===== verification/Family_Bridge.thy ===== *)
theory Family_Bridge
  imports Contract "HOL-Library.Product_Lexorder"
begin

section \<open>Agents, tasks and events of the bridge\<close>

text \<open>
  Models \<^verbatim>\<open>agent.rs\<close>, \<^verbatim>\<open>task.rs\<close>, \<^verbatim>\<open>event.rs\<close> and \<^verbatim>\<open>bridge.rs\<close> of
  \<^verbatim>\<open>crates/familyclaw-bridge/src\<close>: the registry of agents with their heartbeats, the shared board of
  tasks, and the events that the bridge publishes about both. The three share one state here. The bus is
  the list of the events published so far; its subscribers are channels of the asynchronous runtime and
  are not modelled. The identifiers and clock readings that operations draw come from a \<open>source\<close>, in
  the order of the draws.
\<close>

subsection \<open>Agents (agent.rs)\<close>

datatype agent_role = RoleStrategy | RoleExecutor | RoleScout | RoleFieldOperator

datatype host_kind = HostLocal | HostWsl | HostHardware | HostBodySide

datatype liveness = Online | Offline | UnknownLive

record agent_info =
  ai_id :: uuid
  ai_name :: string
  ai_role :: agent_role
  ai_host :: host_kind
  ai_caps :: "string list"
  ai_model :: "string option"
  ai_registered :: timestamp
  ai_heartbeat :: "timestamp option"

definition agent_info_new :: "uuid \<Rightarrow> string \<Rightarrow> agent_role \<Rightarrow> host_kind \<Rightarrow> timestamp \<Rightarrow> agent_info" where
  "agent_info_new i name rl host now =
     \<lparr>ai_id = i, ai_name = name, ai_role = rl, ai_host = host, ai_caps = [], ai_model = None,
      ai_registered = now, ai_heartbeat = None\<rparr>"

definition agent_validate :: "agent_info \<Rightarrow> core_error + unit" where
  "agent_validate a =
     (if str_blank (ai_name a) then Inl (InvalidInputErr ''agent display_name must not be empty'')
      else if \<exists>c \<in> set (ai_caps a). str_blank c then Inl (InvalidInputErr ''agent capability entries must not be empty'')
      else Inr ())"

definition agent_liveness :: "timestamp \<Rightarrow> int \<Rightarrow> agent_info \<Rightarrow> liveness" where
  "agent_liveness now timeout a =
     (case ai_heartbeat a of None \<Rightarrow> UnknownLive | Some hb \<Rightarrow> if now - hb \<le> timeout then Online else Offline)"

text \<open>In nanoseconds.\<close>

definition DEFAULT_HEARTBEAT_TIMEOUT :: int where
  "DEFAULT_HEARTBEAT_TIMEOUT = 30 * 10 ^ 9"

subsection \<open>Tasks (task.rs)\<close>

datatype work_status = WorkPending | WorkActive | WorkDone | WorkHanded

fun work_terminal :: "work_status \<Rightarrow> bool" where
  "work_terminal WorkDone = True"
| "work_terminal _ = False"

fun work_can :: "work_status \<Rightarrow> work_status \<Rightarrow> bool" where
  "work_can WorkPending s = (s = WorkActive \<or> s = WorkHanded \<or> s = WorkDone)"
| "work_can WorkActive s = (s = WorkDone \<or> s = WorkHanded)"
| "work_can WorkHanded s = (s = WorkActive \<or> s = WorkDone)"
| "work_can WorkDone s = False"

fun show_work :: "work_status \<Rightarrow> string" where
  "show_work WorkPending = ''Pending''"
| "show_work WorkActive = ''Active''"
| "show_work WorkDone = ''Done''"
| "show_work WorkHanded = ''Handed''"

record work =
  wk_id :: uuid
  wk_title :: string
  wk_description :: string
  wk_assignee :: "uuid option"
  wk_status :: work_status
  wk_created :: timestamp
  wk_updated :: timestamp

definition work_new :: "uuid \<Rightarrow> string \<Rightarrow> uuid option \<Rightarrow> timestamp \<Rightarrow> work" where
  "work_new i title assignee now =
     \<lparr>wk_id = i, wk_title = title, wk_description = [], wk_assignee = assignee, wk_status = WorkPending,
      wk_created = now, wk_updated = now\<rparr>"

definition work_validate :: "work \<Rightarrow> core_error + unit" where
  "work_validate t = (if str_blank (wk_title t) then Inl (InvalidInputErr ''task title must not be empty'') else Inr ())"

subsection \<open>Events (event.rs)\<close>

datatype event_kind =
    AgentRegistered | AgentDeregistered | AgentHeartbeat | TaskCreated | TaskStatusChanged | TaskHandedOff | CustomEvent string

fun event_label :: "event_kind \<Rightarrow> string" where
  "event_label AgentRegistered = ''agent_registered''"
| "event_label AgentDeregistered = ''agent_deregistered''"
| "event_label AgentHeartbeat = ''agent_heartbeat''"
| "event_label TaskCreated = ''task_created''"
| "event_label TaskStatusChanged = ''task_status_changed''"
| "event_label TaskHandedOff = ''task_handed_off''"
| "event_label (CustomEvent name) = name"

record bus_event =
  ev_id :: uuid
  ev_kind :: event_kind
  ev_source :: "uuid option"
  ev_payload :: json
  ev_at :: timestamp

subsection \<open>The state of a bridge\<close>

record source =
  sr_id :: "nat \<Rightarrow> uuid"
  sr_now :: "nat \<Rightarrow> timestamp"

record bridge =
  br_agents :: "(uuid, agent_info) hashmap"
  br_timeout :: int
  br_tasks :: "(uuid, work) hashmap"
  br_events :: "bus_event list"
  br_drawn :: nat

definition bridge_new :: bridge where
  "bridge_new = \<lparr>br_agents = [], br_timeout = DEFAULT_HEARTBEAT_TIMEOUT, br_tasks = [], br_events = [], br_drawn = 0\<rparr>"

definition with_timeout :: "int \<Rightarrow> int" where
  "with_timeout t = (if t < 0 then 0 else t)"

definition draw :: "bridge \<Rightarrow> bridge" where
  "draw b = b\<lparr>br_drawn := br_drawn b + 1\<rparr>"

definition publish :: "source \<Rightarrow> event_kind \<Rightarrow> uuid option \<Rightarrow> json \<Rightarrow> bridge \<Rightarrow> bridge" where
  "publish S k src payload b =
     (draw b)\<lparr>br_events := br_events b @ [\<lparr>ev_id = sr_id S (br_drawn b), ev_kind = k, ev_source = src,
        ev_payload = payload, ev_at = sr_now S (br_drawn b)\<rparr>]\<rparr>"

subsection \<open>The registry\<close>

definition registry_register :: "agent_info \<Rightarrow> bridge \<Rightarrow> (core_error + unit) \<times> bridge" where
  "registry_register a b =
     (case agent_validate a of Inl e \<Rightarrow> (Inl e, b)
      | Inr _ \<Rightarrow> (Inr (), b\<lparr>br_agents := hm_insert (ai_id a) a (br_agents b)\<rparr>))"

definition agent_not_found :: "ext \<Rightarrow> uuid \<Rightarrow> core_error" where
  "agent_not_found X i = NotFoundErr (''agent '' @ show_uuid X i)"

definition registry_heartbeat :: "ext \<Rightarrow> uuid \<Rightarrow> timestamp \<Rightarrow> bridge \<Rightarrow> (core_error + unit) \<times> bridge" where
  "registry_heartbeat X i at b =
     (case hm_get (br_agents b) i of
        None \<Rightarrow> (Inl (agent_not_found X i), b)
      | Some a \<Rightarrow> (Inr (), b\<lparr>br_agents := hm_insert i (a\<lparr>ai_heartbeat := Some at\<rparr>) (br_agents b)\<rparr>))"

definition liveness_at :: "ext \<Rightarrow> uuid \<Rightarrow> timestamp \<Rightarrow> bridge \<Rightarrow> core_error + liveness" where
  "liveness_at X i now b =
     (case hm_get (br_agents b) i of
        None \<Rightarrow> Inl (agent_not_found X i)
      | Some a \<Rightarrow> Inr (agent_liveness now (br_timeout b) a))"

definition list_agents :: "bridge \<Rightarrow> agent_info list" where
  "list_agents b = sort_key ai_id (hm_values (br_agents b))"

definition online_at :: "timestamp \<Rightarrow> bridge \<Rightarrow> agent_info list" where
  "online_at now b = sort_key ai_id (filter (\<lambda>a. agent_liveness now (br_timeout b) a = Online) (hm_values (br_agents b)))"

subsection \<open>The board\<close>

definition board_create :: "source \<Rightarrow> string \<Rightarrow> uuid option \<Rightarrow> bridge \<Rightarrow> (core_error + work) \<times> bridge" where
  "board_create S title assignee b =
     (let t = work_new (sr_id S (br_drawn b)) title assignee (sr_now S (br_drawn b)) in
      case work_validate t of
        Inl e \<Rightarrow> (Inl e, draw b)
      | Inr _ \<Rightarrow> (Inr t, (draw b)\<lparr>br_tasks := hm_insert (wk_id t) t (br_tasks b)\<rparr>))"

definition board_insert :: "ext \<Rightarrow> work \<Rightarrow> bridge \<Rightarrow> (core_error + unit) \<times> bridge" where
  "board_insert X t b =
     (case work_validate t of
        Inl e \<Rightarrow> (Inl e, b)
      | Inr _ \<Rightarrow>
          (if hm_contains (br_tasks b) (wk_id t)
           then (Inl (InvalidInputErr (''task '' @ show_uuid X (wk_id t) @ '' already exists'')), b)
           else (Inr (), b\<lparr>br_tasks := hm_insert (wk_id t) t (br_tasks b)\<rparr>)))"

definition task_not_found :: "ext \<Rightarrow> uuid \<Rightarrow> core_error" where
  "task_not_found X i = NotFoundErr (''task '' @ show_uuid X i)"

text \<open>Storing a changed task, with the time of the change.\<close>

definition store_work :: "source \<Rightarrow> work \<Rightarrow> bridge \<Rightarrow> (core_error + work) \<times> bridge" where
  "store_work S t b =
     (let t' = t\<lparr>wk_updated := sr_now S (br_drawn b)\<rparr>
      in (Inr t', (draw b)\<lparr>br_tasks := hm_insert (wk_id t) t' (br_tasks b)\<rparr>))"

definition board_update_status :: "source \<Rightarrow> ext \<Rightarrow> uuid \<Rightarrow> work_status \<Rightarrow> bridge \<Rightarrow> (core_error + work) \<times> bridge" where
  "board_update_status S X i next_status b =
     (case hm_get (br_tasks b) i of
        None \<Rightarrow> (Inl (task_not_found X i), b)
      | Some t \<Rightarrow>
          (if wk_status t = next_status then (Inr t, b)
           else if \<not> work_can (wk_status t) next_status
             then (Inl (InvalidInputErr (''illegal task transition: '' @ show_work (wk_status t) @ '' -> '' @ show_work next_status)), b)
           else store_work S (t\<lparr>wk_status := next_status\<rparr>) b))"

definition board_handoff :: "source \<Rightarrow> ext \<Rightarrow> uuid \<Rightarrow> uuid \<Rightarrow> uuid \<Rightarrow> bridge \<Rightarrow> (core_error + work) \<times> bridge" where
  "board_handoff S X i src dst b =
     (if src = dst then (Inl (InvalidInputErr ''cannot hand off a task to the same agent''), b)
      else case hm_get (br_tasks b) i of
        None \<Rightarrow> (Inl (task_not_found X i), b)
      | Some t \<Rightarrow>
          (if work_terminal (wk_status t)
           then (Inl (InvalidInputErr (''cannot hand off a task in terminal status '' @ show_work (wk_status t))), b)
           else case wk_assignee t of
             None \<Rightarrow> (Inl (InvalidInputErr (''task '' @ show_uuid X i @ '' has no assignee; cannot hand off from '' @ show_uuid X src)), b)
           | Some current \<Rightarrow>
               (if current \<noteq> src
                then (Inl (InvalidInputErr (''handoff source '' @ show_uuid X src @ '' is not current assignee '' @ show_uuid X current)), b)
                else store_work S (t\<lparr>wk_assignee := Some dst, wk_status := WorkHanded\<rparr>) b)))"

definition board_assign :: "source \<Rightarrow> ext \<Rightarrow> uuid \<Rightarrow> uuid option \<Rightarrow> bridge \<Rightarrow> (core_error + work) \<times> bridge" where
  "board_assign S X i assignee b =
     (case hm_get (br_tasks b) i of
        None \<Rightarrow> (Inl (task_not_found X i), b)
      | Some t \<Rightarrow> (if wk_assignee t = assignee then (Inr t, b) else store_work S (t\<lparr>wk_assignee := assignee\<rparr>) b))"

definition board_list :: "(work \<Rightarrow> bool) \<Rightarrow> bridge \<Rightarrow> work list" where
  "board_list p b = sort_key (\<lambda>t. (wk_created t, wk_id t)) (filter p (hm_values (br_tasks b)))"

definition list_for_assignee :: "uuid \<Rightarrow> bridge \<Rightarrow> work list" where
  "list_for_assignee a b = board_list (\<lambda>t. wk_assignee t = Some a) b"

definition list_by_work_status :: "work_status \<Rightarrow> bridge \<Rightarrow> work list" where
  "list_by_work_status s b = board_list (\<lambda>t. wk_status t = s) b"

subsection \<open>The bridge (bridge.rs)\<close>

definition register_agent :: "source \<Rightarrow> agent_info \<Rightarrow> bridge \<Rightarrow> (core_error + unit) \<times> bridge" where
  "register_agent S a b =
     (case registry_register a b of
        (Inl e, b') \<Rightarrow> (Inl e, b')
      | (Inr _, b') \<Rightarrow> (Inr (), publish S AgentRegistered (Some (ai_id a)) JNull b'))"

definition deregister_agent :: "source \<Rightarrow> uuid \<Rightarrow> bridge \<Rightarrow> agent_info option \<times> bridge" where
  "deregister_agent S i b =
     (case hm_get (br_agents b) i of
        None \<Rightarrow> (None, b)
      | Some a \<Rightarrow> (Some a, publish S AgentDeregistered (Some i) JNull (b\<lparr>br_agents := hm_remove i (br_agents b)\<rparr>)))"

definition heartbeat :: "source \<Rightarrow> ext \<Rightarrow> uuid \<Rightarrow> timestamp \<Rightarrow> bridge \<Rightarrow> (core_error + unit) \<times> bridge" where
  "heartbeat S X i at b =
     (case registry_heartbeat X i at b of
        (Inl e, b') \<Rightarrow> (Inl e, b')
      | (Inr _, b') \<Rightarrow> (Inr (), publish S AgentHeartbeat (Some i) JNull b'))"

definition create_task :: "source \<Rightarrow> string \<Rightarrow> uuid option \<Rightarrow> bridge \<Rightarrow> (core_error + work) \<times> bridge" where
  "create_task S title assignee b =
     (case board_create S title assignee b of
        (Inl e, b') \<Rightarrow> (Inl e, b')
      | (Inr t, b') \<Rightarrow> (Inr t, publish S TaskCreated assignee JNull b'))"

definition status_payload :: "ext \<Rightarrow> uuid \<Rightarrow> work_status option \<Rightarrow> work_status \<Rightarrow> json" where
  "status_payload X i before after =
     json_object [(''task_id'', JStr (show_uuid X i)),
       (''from'', JStr (case before of None \<Rightarrow> ''unknown'' | Some s \<Rightarrow> show_work s)), (''to'', JStr (show_work after))]"

text \<open>
  The status before the change is read in a lock of its own. \<open>change_status\<close> is what follows; another
  operation may have come between, and then \<open>before\<close> is stale.
\<close>

definition change_status ::
  "source \<Rightarrow> ext \<Rightarrow> work_status option \<Rightarrow> uuid \<Rightarrow> work_status \<Rightarrow> bridge \<Rightarrow> (core_error + work) \<times> bridge" where
  "change_status S X before i next_status b =
     (case board_update_status S X i next_status b of
        (Inl e, b') \<Rightarrow> (Inl e, b')
      | (Inr t, b') \<Rightarrow>
          (if before \<noteq> Some (wk_status t)
           then (Inr t, publish S TaskStatusChanged (wk_assignee t) (status_payload X i before (wk_status t)) b')
           else (Inr t, b')))"

definition update_task_status :: "source \<Rightarrow> ext \<Rightarrow> uuid \<Rightarrow> work_status \<Rightarrow> bridge \<Rightarrow> (core_error + work) \<times> bridge" where
  "update_task_status S X i next_status b =
     change_status S X (map_option wk_status (hm_get (br_tasks b) i)) i next_status b"

definition handoff_task :: "source \<Rightarrow> ext \<Rightarrow> uuid \<Rightarrow> uuid \<Rightarrow> uuid \<Rightarrow> bridge \<Rightarrow> (core_error + work) \<times> bridge" where
  "handoff_task S X i src dst b =
     (case board_handoff S X i src dst b of
        (Inl e, b') \<Rightarrow> (Inl e, b')
      | (Inr t, b') \<Rightarrow> (Inr t, publish S TaskHandedOff (Some src)
          (json_object [(''task_id'', JStr (show_uuid X i)), (''from_agent'', JStr (show_uuid X src)),
             (''to_agent'', JStr (show_uuid X dst))]) b'))"

definition list_tasks :: "bridge \<Rightarrow> work list" where
  "list_tasks b = board_list (\<lambda>_. True) b"

subsection \<open>The life of a task\<close>

datatype bridge_op =
    OpRegister agent_info | OpDeregister uuid | OpHeartbeat uuid timestamp
  | OpCreate string "uuid option" | OpStatus uuid work_status | OpHandoff uuid uuid uuid | OpAssign uuid "uuid option"

fun bridge_apply :: "source \<Rightarrow> ext \<Rightarrow> bridge_op \<Rightarrow> bridge \<Rightarrow> bridge" where
  "bridge_apply S X (OpRegister a) b = snd (register_agent S a b)"
| "bridge_apply S X (OpDeregister i) b = snd (deregister_agent S i b)"
| "bridge_apply S X (OpHeartbeat i at) b = snd (heartbeat S X i at b)"
| "bridge_apply S X (OpCreate title assignee) b = snd (create_task S title assignee b)"
| "bridge_apply S X (OpStatus i s) b = snd (update_task_status S X i s b)"
| "bridge_apply S X (OpHandoff i src dst) b = snd (handoff_task S X i src dst b)"
| "bridge_apply S X (OpAssign i assignee) b = snd (board_assign S X i assignee b)"

definition bridge_run :: "source \<Rightarrow> ext \<Rightarrow> bridge_op list \<Rightarrow> bridge \<Rightarrow> bridge" where
  "bridge_run S X ops b = foldl (\<lambda>b op. bridge_apply S X op b) b ops"

text \<open>What one operation may do to a task.\<close>

definition work_edge :: "work \<Rightarrow> work \<Rightarrow> bool" where
  "work_edge t t' \<longleftrightarrow> wk_id t' = wk_id t \<and> wk_title t' = wk_title t \<and> wk_description t' = wk_description t \<and> wk_created t' = wk_created t \<and>
     (wk_status t' = wk_status t \<or> work_can (wk_status t) (wk_status t'))"

lemma work_edge_refl [simp]: "work_edge t t"
  by (simp add: work_edge_def)

lemma publish_simps [simp]:
  "br_agents (publish S k src v b) = br_agents b" "br_timeout (publish S k src v b) = br_timeout b"
  "br_tasks (publish S k src v b) = br_tasks b" "br_drawn (publish S k src v b) = br_drawn b + 1"
  by (simp_all add: publish_def draw_def)

lemma draw_simps [simp]:
  "br_agents (draw b) = br_agents b" "br_timeout (draw b) = br_timeout b" "br_tasks (draw b) = br_tasks b"
  "br_drawn (draw b) = br_drawn b + 1"
  by (simp_all add: draw_def)

definition tasks_ok :: "bridge \<Rightarrow> bool" where
  "tasks_ok b \<longleftrightarrow> keyed wk_id (br_tasks b) \<and> (\<forall>i t. hm_get (br_tasks b) i = Some t \<longrightarrow> \<not> str_blank (wk_title t))"

text \<open>The tasks after an operation: one of them may have taken an edge, or a new one is there.\<close>

definition board_step :: "source \<Rightarrow> bridge \<Rightarrow> bridge \<Rightarrow> bool" where
  "board_step S b b' \<longleftrightarrow> br_tasks b' = br_tasks b \<or>
     (\<exists>t. br_tasks b' = hm_insert (wk_id t) t (br_tasks b) \<and>
        ((\<exists>t0. hm_get (br_tasks b) (wk_id t) = Some t0 \<and> work_edge t0 t) \<or> wk_id t = sr_id S (br_drawn b) \<and> \<not> str_blank (wk_title t)))"

lemma store_work_step:
  assumes "hm_get (br_tasks b) i = Some t0" "work_edge t0 t" "wk_id t0 = i"
  shows "board_step S b (snd (store_work S t b))"
  unfolding board_step_def using assms
  by (intro disjI2 exI[of _ "t\<lparr>wk_updated := sr_now S (br_drawn b)\<rparr>"]) (auto simp: store_work_def work_edge_def Let_def)

lemma bridge_apply_step:
  assumes "tasks_ok b"
  shows "board_step S b (bridge_apply S X op b)"
proof -
  have id: "hm_get (br_tasks b) i = Some t \<Longrightarrow> wk_id t = i" for i t
    using assms by (auto simp: tasks_ok_def dest: keyed_get)
  have status: "board_step S b (snd (board_update_status S X i s b))" for i s
    using store_work_step[OF _ _ id] by (auto simp: board_update_status_def board_step_def[of S b b] work_edge_def split: option.splits)
  have handoff: "board_step S b (snd (board_handoff S X i src dst b))" for i src dst
  proof -
    have "work_edge t (t\<lparr>wk_assignee := Some dst, wk_status := WorkHanded\<rparr>)" if "\<not> work_terminal (wk_status t)" for t
      using that by (cases "wk_status t") (auto simp: work_edge_def)
    then show ?thesis
      using store_work_step[OF _ _ id] by (auto simp: board_handoff_def board_step_def[of S b b] split: option.splits)
  qed
  have assign: "board_step S b (snd (board_assign S X i a b))" for i a
    using store_work_step[OF _ _ id] by (auto simp: board_assign_def board_step_def[of S b b] work_edge_def split: option.splits)
  have pub: "board_step S b (publish S k src v c) = board_step S b c" for k src v c
    by (simp add: board_step_def)
  show ?thesis
  proof (cases op)
    case (OpCreate title assignee)
    let ?t = "work_new (sr_id S (br_drawn b)) title assignee (sr_now S (br_drawn b))"
    have "board_step S b (snd (board_create S title assignee b))"
    proof (cases "str_blank title")
      case True
      then show ?thesis by (simp add: board_create_def work_new_def work_validate_def board_step_def Let_def)
    next
      case False
      then show ?thesis unfolding board_step_def
        by (intro disjI2 exI[of _ ?t]) (simp add: board_create_def work_new_def work_validate_def Let_def)
    qed
    then show ?thesis using OpCreate by (auto simp: create_task_def pub split: prod.splits sum.splits)
  next
    case (OpStatus i s)
    then show ?thesis using status[of i s]
      by (auto simp: update_task_status_def change_status_def pub split: prod.splits sum.splits)
  next
    case (OpHandoff i src dst)
    then show ?thesis using handoff[of i src dst] by (auto simp: handoff_task_def pub split: prod.splits sum.splits)
  next
    case (OpAssign i a)
    then show ?thesis using assign by simp
  qed (auto simp: register_agent_def registry_register_def deregister_agent_def heartbeat_def registry_heartbeat_def
      board_step_def split: option.splits prod.splits sum.splits)
qed

lemma board_step_ok: "tasks_ok b \<Longrightarrow> board_step S b b' \<Longrightarrow> tasks_ok b'"
  unfolding tasks_ok_def board_step_def work_edge_def
  by (auto intro!: keyed_insert split: if_splits)

lemma board_step_get:
  assumes "board_step S b b'" "hm_get (br_tasks b) i = Some t" "i \<noteq> sr_id S (br_drawn b)"
  shows "\<exists>t'. hm_get (br_tasks b') i = Some t' \<and> work_edge t t'"
  using assms by (auto simp: board_step_def)

lemma bridge_apply_drawn: "br_drawn b \<le> br_drawn (bridge_apply S X op b)"
proof -
  have "br_drawn b \<le> br_drawn (snd (board_update_status S X i s b))" "br_drawn b \<le> br_drawn (snd (board_handoff S X i src dst b))"
      "br_drawn b \<le> br_drawn (snd (board_create S title assignee b))" for i s src dst title assignee
    by (auto simp: board_update_status_def board_handoff_def board_create_def store_work_def Let_def split: option.splits sum.splits)
  note ops = this
  show ?thesis
  proof (cases op)
    case (OpCreate title assignee)
    then show ?thesis using ops(3)[of title assignee] by (auto simp: create_task_def split: prod.splits sum.splits)
  next
    case (OpStatus i s)
    then show ?thesis using ops(1)[of i s] by (auto simp: update_task_status_def change_status_def split: prod.splits sum.splits)
  next
    case (OpHandoff i src dst)
    then show ?thesis using ops(2)[of i src dst] by (auto simp: handoff_task_def split: prod.splits sum.splits)
  qed (auto simp: register_agent_def registry_register_def deregister_agent_def heartbeat_def registry_heartbeat_def
      board_assign_def store_work_def Let_def split: option.splits prod.splits sum.splits)
qed

text \<open>A task lives by its rules. Over every sequence of operations of the bridge that does not draw
  its identifier again, a task stays on the board with its title, description and creation time; its status
  moves only along the allowed transitions, also by a handoff; a task that is done stays done; and the
  board never holds a task with a blank title or under another identifier than its own.\<close>

theorem work_life:
  assumes "tasks_ok b" "hm_get (br_tasks b) i = Some t" "\<And>k. br_drawn b \<le> k \<Longrightarrow> sr_id S k \<noteq> i"
  shows "tasks_ok (bridge_run S X ops b) \<and> (\<exists>t'. hm_get (br_tasks (bridge_run S X ops b)) i = Some t' \<and>
    wk_id t' = i \<and> wk_title t' = wk_title t \<and> wk_description t' = wk_description t \<and> wk_created t' = wk_created t \<and>
    work_can\<^sup>*\<^sup>* (wk_status t) (wk_status t') \<and> (wk_status t = WorkDone \<longrightarrow> wk_status t' = WorkDone))"
proof -
  have "tasks_ok (bridge_run S X ops b) \<and> br_drawn b \<le> br_drawn (bridge_run S X ops b) \<and>
    (\<exists>t'. hm_get (br_tasks (bridge_run S X ops b)) i = Some t' \<and> wk_id t' = i \<and> wk_title t' = wk_title t \<and>
       wk_description t' = wk_description t \<and> wk_created t' = wk_created t \<and> work_can\<^sup>*\<^sup>* (wk_status t) (wk_status t'))"
  proof (induction ops rule: rev_induct)
    case Nil
    then show ?case using assms by (auto simp: bridge_run_def tasks_ok_def dest: keyed_get)
  next
    case (snoc op ops)
    let ?c = "bridge_run S X ops b"
    obtain t1 where t1: "tasks_ok ?c" "br_drawn b \<le> br_drawn ?c" "hm_get (br_tasks ?c) i = Some t1" "wk_id t1 = i" "wk_title t1 = wk_title t"
        "wk_description t1 = wk_description t" "wk_created t1 = wk_created t" "work_can\<^sup>*\<^sup>* (wk_status t) (wk_status t1)"
      using snoc by blast
    note step = bridge_apply_step[OF t1(1), of S X op]
    have "i \<noteq> sr_id S (br_drawn ?c)" using assms(3)[OF t1(2)] by blast
    then obtain t2 where t2: "hm_get (br_tasks (bridge_apply S X op ?c)) i = Some t2" "work_edge t1 t2"
      using board_step_get[OF step t1(3)] by blast
    have "work_can\<^sup>*\<^sup>* (wk_status t) (wk_status t2)"
      using t1(8) t2(2) by (auto simp: work_edge_def intro: rtranclp.rtrancl_into_rtrancl)
    then show ?case
      using t1 t2 board_step_ok[OF t1(1) step] bridge_apply_drawn[of ?c S X op]
      by (auto simp: bridge_run_def work_edge_def)
  qed
  moreover have "work_can\<^sup>*\<^sup>* WorkDone s \<Longrightarrow> s = WorkDone" for s
    by (induction rule: rtranclp_induct) auto
  ultimately show ?thesis by metis
qed

definition constant_source :: source where
  "constant_source = \<lparr>sr_id = (\<lambda>n. 1), sr_now = (\<lambda>n. int n)\<rparr>"

theorem work_life_witness:
  "\<exists>t. hm_get (br_tasks (bridge_run constant_source bare_ext [OpStatus 2 WorkActive, OpCreate ''x'' None, OpHandoff 2 5 6]
     (bridge_new\<lparr>br_tasks := [(2, work_new 2 ''plan'' (Some 5) 0)]\<rparr>))) 2 = Some t \<and> wk_title t = ''plan''"
proof -
  have "\<not> str_blank ''plan''" by code_simp
  then have "tasks_ok (bridge_new\<lparr>br_tasks := [(2, work_new 2 ''plan'' (Some 5) 0)]\<rparr>)"
    by (auto simp: tasks_ok_def keyed_def work_new_def bridge_new_def split: if_splits)
  from work_life[OF this, of 2 "work_new 2 ''plan'' (Some 5) 0" constant_source bare_ext
      "[OpStatus 2 WorkActive, OpCreate ''x'' None, OpHandoff 2 5 6]"] show ?thesis
    by (auto simp: constant_source_def work_new_def)
qed

text \<open>
  The event of a change carries the status that was read before it, outside the lock. Of two changes to
  the same status whose reads come first, the second changes nothing and publishes the change again.
\<close>

theorem stale_read_publishes_twice:
  assumes "hm_get (br_tasks b) i = Some t" "wk_status t = WorkActive"
  shows "br_events (snd (change_status S X (Some WorkPending) i WorkActive b)) = br_events b @
    [\<lparr>ev_id = sr_id S (br_drawn b), ev_kind = TaskStatusChanged, ev_source = wk_assignee t,
      ev_payload = status_payload X i (Some WorkPending) WorkActive, ev_at = sr_now S (br_drawn b)\<rparr>]"
  using assms by (simp add: change_status_def board_update_status_def publish_def draw_def)

end
