(* ===== verification/Topo_Order.thy ===== *)
theory Topo_Order
  imports Prelude "HOL-Library.Char_ord" "HOL-Library.List_Lexorder"
begin

section \<open>The order of a plan\<close>

text \<open>
  Models \<^verbatim>\<open>OrchestrationPlan::topo_order\<close> of \<^verbatim>\<open>crates/familyclaw-bridge/src/orchestrator.rs\<close> over the
  identifiers of the nodes and their dependencies: Kahn's algorithm, with the ready nodes kept in the
  order of their names. The theorem of this theory is that it computes the smallest topological order,
  and that it fails exactly when there is none.
\<close>

type_synonym node_id = string
type_synonym deps = "(node_id \<times> node_id list) list"

datatype topo_error = UnknownDep node_id node_id | Cycle

definition node_ids :: "deps \<Rightarrow> node_id list" where
  "node_ids g = map fst g"

text \<open>Counting the dependencies of every node and the nodes that depend on it.\<close>

fun count_deps ::
  "node_id list \<Rightarrow> node_id \<Rightarrow> node_id list \<Rightarrow> (node_id, nat) hashmap \<Rightarrow> (node_id, node_id list) hashmap \<Rightarrow>
   topo_error + (node_id, nat) hashmap \<times> (node_id, node_id list) hashmap" where
  "count_deps index n [] indeg dependents = Inr (indeg, dependents)"
| "count_deps index n (d # ds) indeg dependents =
     (if d \<notin> set index then Inl (UnknownDep n d)
      else count_deps index n ds
        (case hm_get indeg n of None \<Rightarrow> indeg | Some k \<Rightarrow> hm_insert n (k + 1) indeg)
        (case hm_get dependents d of None \<Rightarrow> dependents | Some l \<Rightarrow> hm_insert d (l @ [n]) dependents))"

fun count_nodes ::
  "node_id list \<Rightarrow> deps \<Rightarrow> (node_id, nat) hashmap \<Rightarrow> (node_id, node_id list) hashmap \<Rightarrow>
   topo_error + (node_id, nat) hashmap \<times> (node_id, node_id list) hashmap" where
  "count_nodes index [] indeg dependents = Inr (indeg, dependents)"
| "count_nodes index ((n, ds) # g) indeg dependents =
     (case count_deps index n ds indeg dependents of
        Inl e \<Rightarrow> Inl e
      | Inr (indeg', dependents') \<Rightarrow> count_nodes index g indeg' dependents')"

text \<open>One dependency of every child is met; subtracting from zero would be a panic, here \<open>None\<close>.\<close>

fun relax :: "node_id list \<Rightarrow> (node_id, nat) hashmap \<Rightarrow> node_id list \<Rightarrow> ((node_id, nat) hashmap \<times> node_id list) option" where
  "relax [] indeg ready = Some (indeg, ready)"
| "relax (c # cs) indeg ready =
     (case hm_get indeg c of
        None \<Rightarrow> relax cs indeg ready
      | Some 0 \<Rightarrow> None
      | Some (Suc k) \<Rightarrow> relax cs (hm_insert c k indeg) (if k = 0 then ready @ [c] else ready))"

definition pending_deps :: "(node_id, nat) hashmap \<Rightarrow> nat" where
  "pending_deps indeg = sum_list (map snd indeg)"

lemma pending_hm_insert: "hm_get m k = Some v \<Longrightarrow> pending_deps (hm_insert k v' m) + v = pending_deps m + v'"
  by (induction m) (auto simp: pending_deps_def)

lemma relax_measure:
  "relax cs indeg ready = Some (indeg', ready') \<Longrightarrow> pending_deps indeg' + length ready' \<le> pending_deps indeg + length ready"
proof (induction cs indeg ready rule: relax.induct)
  case (2 c cs indeg ready)
  show ?case
  proof (cases "hm_get indeg c")
    case None
    then show ?thesis using 2 by simp
  next
    case (Some v)
    then obtain k where k: "v = Suc k" using "2.prems" by (cases v) auto
    then have "pending_deps (hm_insert c k indeg) + 1 = pending_deps indeg"
      using pending_hm_insert[OF Some, of k] by simp
    then show ?thesis using 2 Some k by (fastforce split: if_splits)
  qed
qed simp

text \<open>The loop; \<open>None\<close> is a panic.\<close>

function topo_loop ::
  "(node_id, node_id list) hashmap \<Rightarrow> node_id list \<Rightarrow> (node_id, nat) hashmap \<Rightarrow> node_id list \<Rightarrow> node_id list option" where
  "topo_loop dependents [] indeg order = Some order"
| "topo_loop dependents (n # queue) indeg order =
     (case (case hm_get dependents n of None \<Rightarrow> Some (indeg, []) | Some cs \<Rightarrow> relax cs indeg []) of
        None \<Rightarrow> None
      | Some (indeg', ready) \<Rightarrow>
          topo_loop dependents (if ready = [] then queue else sort (queue @ ready)) indeg' (order @ [n]))"
  by pat_completeness auto
termination
  by (relation "measure (\<lambda>(dependents, queue, indeg, order). pending_deps indeg + length queue)")
    (auto split: option.splits dest!: relax_measure)

declare topo_loop.simps [simp del]

text \<open>The maps are built from all nodes; of a repeated identifier the last one counts.\<close>

definition topo_order :: "deps \<Rightarrow> (topo_error + node_id list) option" where
  "topo_order g =
     (case count_nodes (node_ids g) g (foldl (\<lambda>m (n, _). hm_insert n 0 m) [] g) (foldl (\<lambda>m (n, _). hm_insert n [] m) [] g) of
        Inl e \<Rightarrow> Some (Inl e)
      | Inr (indeg, dependents) \<Rightarrow>
          (case topo_loop dependents (sort (map fst (filter (\<lambda>(_, d). d = 0) indeg))) indeg [] of
             None \<Rightarrow> None
           | Some order \<Rightarrow> Some (if length order \<noteq> length g then Inl Cycle else Inr order)))"

subsection \<open>The smallest topological order\<close>

definition deps_of :: "deps \<Rightarrow> node_id \<Rightarrow> node_id list" where
  "deps_of g x = (case map_of g x of None \<Rightarrow> [] | Some ds \<Rightarrow> ds)"

lemma deps_of_Cons [simp]: "deps_of ((n, ds) # g) x = (if x = n then ds else deps_of g x)" "deps_of [] x = []"
  by (simp_all add: deps_of_def)

lemma deps_of_unknown: "x \<notin> set (node_ids g) \<Longrightarrow> deps_of g x = []"
  by (induction g) (auto simp: node_ids_def)

fun in_order :: "deps \<Rightarrow> node_id set \<Rightarrow> node_id list \<Rightarrow> bool" where
  "in_order g done [] = True"
| "in_order g done (x # xs) = (set (deps_of g x) \<subseteq> done \<and> in_order g (insert x done) xs)"

definition topological :: "deps \<Rightarrow> node_id list \<Rightarrow> bool" where
  "topological g xs \<longleftrightarrow> distinct xs \<and> set xs = set (node_ids g) \<and> in_order g {} xs"

lemma in_order_append: "in_order g D (xs @ ys) \<longleftrightarrow> in_order g D xs \<and> in_order g (set xs \<union> D) ys"
  by (induction xs arbitrary: D) auto

text \<open>The children of a node, once for every time they name it.\<close>

definition children :: "deps \<Rightarrow> node_id \<Rightarrow> node_id list" where
  "children g d = concat (map (\<lambda>(n, ds). replicate (count_list ds d) n) g)"

lemma count_deps_result:
  "count_deps index n ds indeg dependents = r \<Longrightarrow>
     (if set ds \<subseteq> set index
      then \<exists>i' d'. r = Inr (i', d') \<and> map fst i' = map fst indeg \<and>
             hm_get i' = (hm_get indeg)(n := map_option (\<lambda>k. k + length ds) (hm_get indeg n)) \<and>
             (\<forall>d. hm_get d' d = map_option (\<lambda>l. l @ replicate (count_list ds d) n) (hm_get dependents d))
      else \<exists>e. r = Inl e)"
proof (induction index n ds indeg dependents arbitrary: r rule: count_deps.induct)
  case (1 index n indeg dependents)
  then show ?case by (auto simp: option.map_ident fun_upd_idem)
next
  case (2 index n d ds indeg dependents)
  show ?case
  proof (cases "d \<in> set index")
    case True
    let ?i = "case hm_get indeg n of None \<Rightarrow> indeg | Some k \<Rightarrow> hm_insert n (k + 1) indeg"
    let ?d = "case hm_get dependents d of None \<Rightarrow> dependents | Some l \<Rightarrow> hm_insert d (l @ [n]) dependents"
    have keys: "map fst ?i = map fst indeg"
      by (auto simp: update_keys map_of_eq_None_iff split: option.split dest: map_of_SomeD)
    have i: "hm_get ?i = (hm_get indeg)(n := map_option (\<lambda>k. k + 1) (hm_get indeg n))"
      by (auto split: option.split)
    have d: "hm_get ?d e = map_option (\<lambda>l. l @ replicate (count_list [d] e) n) (hm_get dependents e)" for e
      by (auto split: option.split)
    have rep: "replicate 1 n @ replicate k n = replicate (Suc k) n" for k by simp
    have "count_deps index n ds ?i ?d = r" using "2.prems" True by simp
    from "2.IH"[OF _ this] True show ?thesis
      by (auto simp: keys i d option.map_comp comp_def fun_eq_iff replicate_append_same split: if_splits)
  qed (use 2 in auto)
qed

lemma count_nodes_result:
  "count_nodes index g indeg dependents = r \<Longrightarrow> distinct (node_ids g) \<Longrightarrow>
     (if \<forall>(n, ds) \<in> set g. set ds \<subseteq> set index
      then \<exists>i' d'. r = Inr (i', d') \<and> map fst i' = map fst indeg \<and>
             (\<forall>x. hm_get i' x = map_option (\<lambda>k. k + length (deps_of g x)) (hm_get indeg x)) \<and>
             (\<forall>d. hm_get d' d = map_option (\<lambda>l. l @ children g d) (hm_get dependents d))
      else \<exists>e. r = Inl e)"
proof (induction index g indeg dependents arbitrary: r rule: count_nodes.induct)
  case (1 index indeg dependents)
  then show ?case by (auto simp: deps_of_def children_def option.map_ident)
next
  case (2 index n ds g indeg dependents)
  show ?case
  proof (cases "set ds \<subseteq> set index")
    case True
    then obtain i1 d1 where c: "count_deps index n ds indeg dependents = Inr (i1, d1)" "map fst i1 = map fst indeg"
        "hm_get i1 = (hm_get indeg)(n := map_option (\<lambda>k. k + length ds) (hm_get indeg n))"
        "\<forall>d. hm_get d1 d = map_option (\<lambda>l. l @ replicate (count_list ds d) n) (hm_get dependents d)"
      using count_deps_result[where index = index and n = n and ds = ds and indeg = indeg and dependents = dependents, OF refl] by auto
    have "deps_of g n = []" using "2.prems"(2) by (intro deps_of_unknown) (simp add: node_ids_def)
    moreover note ih = "2.IH"[OF c(1) refl, of "count_nodes index g i1 d1", OF refl]
    ultimately show ?thesis using "2.prems" c True
      by (cases "\<forall>(n, ds) \<in> set g. set ds \<subseteq> set index")
        (simp_all only: if_True if_False, auto simp: node_ids_def children_def option.map_comp comp_def)
  next
    case False
    then obtain e where "count_deps index n ds indeg dependents = Inl e"
      using count_deps_result[where index = index and n = n and ds = ds and indeg = indeg and dependents = dependents, OF refl] by auto
    then have "r = Inl e" using "2.prems"(1) by simp
    then show ?thesis using False by simp
  qed
qed

lemma count_children:
  "distinct (node_ids g) \<Longrightarrow> count_list (children g d) x = (if x \<in> set (node_ids g) then count_list (deps_of g x) d else 0)"
proof (induction g)
  case (Cons p g)
  obtain n ds where p: "p = (n, ds)" by (rule prod.exhaust)
  have rep: "count_list (replicate k n) x = (if x = n then k else 0)" for k by (induction k) auto
  show ?case using Cons p
    by (auto simp: children_def node_ids_def rep deps_of_unknown)
qed (simp add: children_def node_ids_def)

lemma relax_result:
  assumes "\<And>x. x \<in> set cs \<Longrightarrow> \<exists>k. hm_get indeg x = Some k \<and> count_list cs x \<le> k"
  shows "\<exists>indeg' new. relax cs indeg ready = Some (indeg', ready @ new) \<and>
    (\<forall>x. hm_get indeg' x = map_option (\<lambda>k. k - count_list cs x) (hm_get indeg x)) \<and>
    distinct new \<and> set new = {x \<in> set cs. hm_get indeg x = Some (count_list cs x)}"
  using assms
proof (induction cs arbitrary: indeg ready)
  case Nil
  then show ?case by (simp add: option.map_ident)
next
  case (Cons c cs)
  obtain k where "hm_get indeg c = Some k" "Suc (count_list cs c) \<le> k" using Cons.prems[of c] by auto
  then obtain j where j: "hm_get indeg c = Some (Suc j)" "count_list cs c \<le> j" by (cases k) auto
  let ?r = "if j = 0 then ready @ [c] else ready"
  have less: "\<exists>k. hm_get (hm_insert c j indeg) x = Some k \<and> count_list cs x \<le> k" if "x \<in> set cs" for x
    using Cons.prems[of x] that j by (auto split: if_splits)
  obtain indeg' new where r: "relax cs (hm_insert c j indeg) ?r = Some (indeg', ?r @ new)"
      "\<forall>x. hm_get indeg' x = map_option (\<lambda>k. k - count_list cs x) (hm_get (hm_insert c j indeg) x)"
      "distinct new" "set new = {x \<in> set cs. hm_get (hm_insert c j indeg) x = Some (count_list cs x)}"
    using Cons.IH[OF less, where ready = ?r] by blast
  show ?case
  proof (cases "j = 0")
    case True
    then have "c \<notin> set cs" using j(2) count_list_0_iff[of cs c] by simp
    then have zero: "c \<notin> set new" "count_list cs c = 0" using r(4) by (simp_all add: count_list_0_iff)
    have "x \<in> set (c # new) \<longleftrightarrow> x \<in> set (c # cs) \<and> hm_get indeg x = Some (count_list (c # cs) x)" for x
      by (cases "x = c") (simp_all add: r(4) j(1) zero True)
    then have "distinct (c # new)" "set (c # new) = {x \<in> set (c # cs). hm_get indeg x = Some (count_list (c # cs) x)}"
      using r(3) zero(1) by (simp, blast)
    moreover have "relax (c # cs) indeg ready = Some (indeg', ready @ c # new)"
      using j(1) r(1) True by simp
    moreover have "\<forall>x. hm_get indeg' x = map_option (\<lambda>k. k - count_list (c # cs) x) (hm_get indeg x)"
      using r(2) j(1) by auto
    ultimately show ?thesis by blast
  next
    case False
    have "x \<in> set new \<longleftrightarrow> x \<in> set (c # cs) \<and> hm_get indeg x = Some (count_list (c # cs) x)" for x
      using count_list_0_iff[of cs c] j(2) False by (cases "x = c") (auto simp: r(4) j(1))
    then have "set new = {x \<in> set (c # cs). hm_get indeg x = Some (count_list (c # cs) x)}" by blast
    moreover have "relax (c # cs) indeg ready = Some (indeg', ready @ new)"
      using j(1) r(1) False by simp
    moreover have "\<forall>x. hm_get indeg' x = map_option (\<lambda>k. k - count_list (c # cs) x) (hm_get indeg x)"
      using r(2) j(1) by auto
    ultimately show ?thesis using r(3) by blast
  qed
qed

text \<open>What is emitted so far comes before every topological order, or is the start of it.\<close>

definition leads :: "node_id list \<Rightarrow> node_id list \<Rightarrow> bool" where
  "leads done xs \<longleftrightarrow> (\<exists>v. xs = done @ v) \<or> (\<exists>u a v b w. done = u @ a # v \<and> xs = u @ b # w \<and> a < b)"

lemma leads_le:
  assumes "leads done xs"
  shows "done \<le> xs"
proof -
  have less: "x < y \<longleftrightarrow> (x, y) \<in> lexord {(u, v). u < v}" for x y :: "node_id list" by (simp add: list_less_def)
  consider v where "xs = done @ v" | u a v b w where "done = u @ a # v" "xs = u @ b # w" "a < b"
    using assms unfolding leads_def by blast
  then show ?thesis
  proof cases
    case 1
    then show ?thesis by (cases v) (simp_all add: less lexord_append_rightI order_less_imp_le)
  next
    case 2
    then have "done < xs" by (simp only: less) (rule lexord_append_left_rightI, simp)
    then show ?thesis by simp
  qed
qed

lemma leads_step:
  assumes "leads done xs" "\<And>v. xs = done @ v \<Longrightarrow> \<exists>b w. v = b # w \<and> a \<le> b"
  shows "leads (done @ [a]) xs"
proof -
  consider v where "xs = done @ v" | "\<exists>u c v b w. done = u @ c # v \<and> xs = u @ b # w \<and> c < b"
    using assms(1) unfolding leads_def by blast
  then show ?thesis
  proof cases
    case 1
    then obtain b w where "v = b # w" "a \<le> b" using assms(2) by blast
    then have "xs = (done @ [a]) @ w \<or> (done @ [a] = done @ a # [] \<and> xs = done @ b # w \<and> a < b)" using 1 by auto
    then show ?thesis unfolding leads_def by blast
  next
    case 2
    then obtain u c v b w where "done = u @ c # v" "xs = u @ b # w" "c < b" by blast
    then have "done @ [a] = u @ c # (v @ [a])" "xs = u @ b # w" "c < b" by simp_all
    then show ?thesis unfolding leads_def by blast
  qed
qed

text \<open>The invariant of the loop.\<close>

definition ready_set :: "deps \<Rightarrow> node_id list \<Rightarrow> node_id set" where
  "ready_set g done = {x \<in> set (node_ids g). x \<notin> set done \<and> set (deps_of g x) \<subseteq> set done}"

definition missing :: "deps \<Rightarrow> node_id list \<Rightarrow> node_id \<Rightarrow> nat" where
  "missing g done x = length (filter (\<lambda>d. d \<notin> set done) (deps_of g x))"

definition loop_inv :: "deps \<Rightarrow> node_id list \<Rightarrow> (node_id, nat) hashmap \<Rightarrow> node_id list \<Rightarrow> bool" where
  "loop_inv g queue indeg done \<longleftrightarrow> sorted queue \<and> distinct queue \<and> set queue = ready_set g done \<and>
     distinct done \<and> set done \<subseteq> set (node_ids g) \<and> in_order g {} done \<and>
     (\<forall>x. hm_get indeg x = (if x \<in> set (node_ids g) then Some (missing g done x) else None)) \<and>
     (\<forall>xs. topological g xs \<longrightarrow> leads done xs)"

lemma missing_step: "n \<notin> set done \<Longrightarrow> missing g (done @ [n]) x + count_list (deps_of g x) n = missing g done x"
proof -
  have "length (filter (\<lambda>d. d \<noteq> n \<and> d \<notin> set done) ds) + count_list ds n = length (filter (\<lambda>d. d \<notin> set done) ds)"
    if "n \<notin> set done" for ds
    using that by (induction ds) auto
  then show "n \<notin> set done \<Longrightarrow> ?thesis" by (simp add: missing_def)
qed

lemma loop_step:
  assumes inv: "loop_inv g (n # queue) indeg done" and ids: "distinct (node_ids g)"
    and dependents: "\<forall>d. hm_get dependents d = (if d \<in> set (node_ids g) then Some (children g d) else None)"
  shows "\<exists>indeg' new. (case hm_get dependents n of None \<Rightarrow> Some (indeg, []) | Some cs \<Rightarrow> relax cs indeg []) = Some (indeg', new) \<and>
    loop_inv g (if new = [] then queue else sort (queue @ new)) indeg' (done @ [n])"
proof -
  have n: "n \<in> ready_set g done" "n \<notin> set queue" "n \<in> set (node_ids g)" "n \<notin> set done" "set (deps_of g n) \<subseteq> set done"
    and least: "\<forall>m \<in> ready_set g done. n \<le> m"
    using inv unfolding loop_inv_def ready_set_def by auto
  have cnt: "count_list (children g n) x = (if x \<in> set (node_ids g) then count_list (deps_of g x) n else 0)" for x
    by (rule count_children[OF ids])
  have indeg: "hm_get indeg x = (if x \<in> set (node_ids g) then Some (missing g done x) else None)" for x
    using inv by (simp add: loop_inv_def)
  have miss: "missing g (done @ [n]) x + count_list (deps_of g x) n = missing g done x" for x
    by (rule missing_step[OF n(4)])
  have bound: "\<exists>k. hm_get indeg x = Some k \<and> count_list (children g n) x \<le> k" if "x \<in> set (children g n)" for x
  proof -
    have "x \<in> set (node_ids g)" using that cnt[of x] by (metis count_list_0_iff)
    then show ?thesis using indeg[of x] cnt[of x] miss[of x] by simp
  qed
  obtain indeg' new where r: "relax (children g n) indeg [] = Some (indeg', new)"
      "\<forall>x. hm_get indeg' x = map_option (\<lambda>k. k - count_list (children g n) x) (hm_get indeg x)"
      "distinct new" "set new = {x \<in> set (children g n). hm_get indeg x = Some (count_list (children g n) x)}"
    using relax_result[OF bound, where ready = "[]"] by auto
  have indeg': "hm_get indeg' x = (if x \<in> set (node_ids g) then Some (missing g (done @ [n]) x) else None)" for x
    using r(2) indeg[of x] cnt[of x] miss[of x, symmetric] by simp
  have zero: "missing g ds x = 0 \<longleftrightarrow> set (deps_of g x) \<subseteq> set ds" for ds x
    by (auto simp: missing_def filter_empty_conv)
  have new: "set new = {x \<in> set (node_ids g). n \<in> set (deps_of g x) \<and> set (deps_of g x) \<subseteq> set (done @ [n])}"
  proof -
    have "x \<in> set (children g n) \<longleftrightarrow> x \<in> set (node_ids g) \<and> n \<in> set (deps_of g x)" for x
      using cnt[of x] count_list_0_iff[of "children g n" x] count_list_0_iff[of "deps_of g x" n] by (auto split: if_splits)
    moreover have "hm_get indeg x = Some (count_list (children g n) x) \<longleftrightarrow> missing g (done @ [n]) x = 0" if "x \<in> set (node_ids g)" for x
      using that indeg[of x] cnt[of x] miss[of x] by auto
    ultimately show ?thesis using r(4) zero[of "done @ [n]"] by auto
  qed
  have done_closed: "set (deps_of g x) \<subseteq> set done" if mem: "x \<in> set done" for x
  proof -
    obtain u v where "done = u @ x # v" using split_list[OF mem] by blast
    then show ?thesis using inv by (auto simp: loop_inv_def in_order_append)
  qed
  have queue: "set queue = ready_set g done - {n}" using inv n(2) by (auto simp: loop_inv_def)
  have "n \<notin> set (deps_of g x)" if "x \<in> set done \<or> x = n" for x using done_closed n(4,5) that by blast
  then have next_ready: "ready_set g (done @ [n]) = set queue \<union> set new"
    using queue new n by (auto simp: ready_set_def)
  have "set queue \<inter> set new = {}" using queue new n(4) by (auto simp: ready_set_def)
  then have q': "sorted (if new = [] then queue else sort (queue @ new)) \<and> distinct (if new = [] then queue else sort (queue @ new)) \<and>
      set (if new = [] then queue else sort (queue @ new)) = ready_set g (done @ [n])"
    using inv r(3) next_ready by (auto simp: loop_inv_def)
  have lead: "leads (done @ [n]) xs" if "topological g xs" for xs
  proof (rule leads_step)
    show "leads done xs" using inv that by (simp add: loop_inv_def)
    fix v assume v: "xs = done @ v"
    then have "v \<noteq> []" using that n(3,4) by (auto simp: topological_def)
    then obtain b w where b: "v = b # w" by (cases v) auto
    then have "b \<in> ready_set g done" using that v by (auto simp: topological_def in_order_append ready_set_def)
    then show "\<exists>b w. v = b # w \<and> n \<le> b" using least b by blast
  qed
  have "in_order g {} (done @ [n])" "distinct (done @ [n])" "set (done @ [n]) \<subseteq> set (node_ids g)"
    using inv n by (auto simp: loop_inv_def in_order_append)
  then have "loop_inv g (if new = [] then queue else sort (queue @ new)) indeg' (done @ [n])"
    using q' indeg' lead unfolding loop_inv_def by simp
  moreover have "hm_get dependents n = Some (children g n)" using dependents n(3) by simp
  ultimately show ?thesis using r(1) by auto
qed

lemma topo_loop_end:
  "\<forall>d. hm_get dependents d = (if d \<in> set (node_ids g) then Some (children g d) else None) \<Longrightarrow>
    distinct (node_ids g) \<Longrightarrow> loop_inv g queue indeg done \<Longrightarrow>
    \<exists>order indeg'. topo_loop dependents queue indeg done = Some order \<and> loop_inv g [] indeg' order"
proof (induction dependents queue indeg "done" rule: topo_loop.induct)
  case (2 dependents n queue indeg "done")
  obtain indeg' new where r: "(case hm_get dependents n of None \<Rightarrow> Some (indeg, []) | Some cs \<Rightarrow> relax cs indeg []) = Some (indeg', new)"
      "loop_inv g (if new = [] then queue else sort (queue @ new)) indeg' (done @ [n])"
    using loop_step[OF "2.prems"(3,2,1)] by blast
  show ?case using "2.IH"[OF r(1) refl "2.prems"(1,2) r(2)] r(1) by (simp add: topo_loop.simps)
qed (auto simp: topo_loop.simps)

lemma loop_end:
  assumes "loop_inv g [] indeg order" "distinct (node_ids g)"
  shows "length order = length g \<longleftrightarrow> topological g order" and "topological g xs \<Longrightarrow> topological g order"
proof -
  have d: "distinct order" "set order \<subseteq> set (node_ids g)" "in_order g {} order" "ready_set g order = {}"
    using assms(1) by (auto simp: loop_inv_def)
  have "length order = length g \<longleftrightarrow> set order = set (node_ids g)"
  proof
    assume "length order = length g"
    then show "set order = set (node_ids g)"
      using d(1,2) distinct_card[OF d(1)] distinct_card[OF assms(2)] by (intro card_subset_eq) (auto simp: node_ids_def)
  next
    assume "set order = set (node_ids g)"
    then have "length order = length (node_ids g)" using d(1) assms(2) by (metis distinct_card)
    then show "length order = length g" by (simp add: node_ids_def)
  qed
  then show "length order = length g \<longleftrightarrow> topological g order" using d by (simp add: topological_def)
  show "topological g order" if xs: "topological g xs"
  proof -
    have "set order = set xs"
    proof (rule ccontr)
      assume "set order \<noteq> set xs"
      then have "\<exists>x \<in> set xs. x \<notin> set order" using d(2) xs by (auto simp: topological_def)
      then obtain u x v where x: "xs = u @ x # v" "x \<notin> set order" "\<forall>y \<in> set u. y \<in> set order"
        using split_list_first_prop[of xs "\<lambda>x. x \<notin> set order"] by blast
      then have "x \<in> ready_set g order" using xs by (auto simp: topological_def in_order_append ready_set_def)
      then show False using d(4) by simp
    qed
    then show ?thesis using d xs by (simp add: topological_def)
  qed
qed

lemma insert_all_fresh:
  "distinct (map fst g) \<Longrightarrow> fst ` set m \<inter> fst ` set g = {} \<Longrightarrow>
    foldl (\<lambda>m (n, _). hm_insert n v m) m g = m @ map (\<lambda>(n, _). (n, v)) g"
proof (induction g arbitrary: m)
  case (Cons p g)
  obtain n ds where p: "p = (n, ds)" by (rule prod.exhaust)
  have "hm_insert n v m = m @ [(n, v)]"
    using Cons.prems(2) p by (intro hm_insert_fresh) (auto simp: hm_contains_iff)
  then show ?case using Cons.IH[of "m @ [(n, v)]"] Cons.prems p by auto
qed simp

lemma topo_order_cases:
  assumes ids: "distinct (node_ids g)"
  obtains (unknown) e where "topo_order g = Some (Inl e)" "\<And>xs. \<not> topological g xs"
  | (looped) order indeg where "topo_order g = Some (if length order \<noteq> length g then Inl Cycle else Inr order)" "loop_inv g [] indeg order"
proof -
  let ?i = "map (\<lambda>(n, _). (n, 0 :: nat)) g" and ?d = "map (\<lambda>(n, _). (n, [] :: node_id list)) g"
  have init: "foldl (\<lambda>m (n, _). hm_insert n 0 m) [] g = ?i" "foldl (\<lambda>m (n, _). hm_insert n [] m) [] g = ?d"
    using insert_all_fresh[of g "[]"] ids by (auto simp: node_ids_def)
  have get_i: "hm_get ?i x = (if x \<in> set (node_ids g) then Some 0 else None)" for x
    by (induction g) (auto simp: node_ids_def)
  have get_d: "hm_get ?d x = (if x \<in> set (node_ids g) then Some [] else None)" for x
    by (induction g) (auto simp: node_ids_def)
  have keys: "map fst ?i = node_ids g" by (auto simp: node_ids_def)
  note counted = count_nodes_result[where index = "node_ids g" and indeg = ?i and dependents = ?d and g = g, OF refl ids]
  show thesis
  proof (cases "\<forall>(n, ds) \<in> set g. set ds \<subseteq> set (node_ids g)")
    case False
    from counted obtain e where "count_nodes (node_ids g) g ?i ?d = Inl e" by (simp only: False if_False) blast
    moreover have "\<not> topological g xs" for xs
    proof
      assume xs: "topological g xs"
      obtain n ds where n: "(n, ds) \<in> set g" "\<not> set ds \<subseteq> set (node_ids g)" using False by auto
      then have "deps_of g n = ds" using ids by (auto simp: deps_of_def node_ids_def)
      moreover have "n \<in> set xs" using n xs by (force simp: topological_def node_ids_def)
      then obtain u v where "xs = u @ n # v" by (meson split_list)
      ultimately show False using xs n(2) by (auto simp: topological_def in_order_append)
    qed
    ultimately show thesis using unknown by (simp add: topo_order_def init)
  next
    case True
    then obtain indeg dependents where c: "count_nodes (node_ids g) g ?i ?d = Inr (indeg, dependents)" "map fst indeg = node_ids g"
        "\<And>x. hm_get indeg x = map_option (\<lambda>k. k + length (deps_of g x)) (hm_get ?i x)"
        "\<And>d. hm_get dependents d = map_option (\<lambda>l. l @ children g d) (hm_get ?d d)"
      using counted keys by auto
    let ?q = "sort (map fst (filter (\<lambda>(_, d). d = 0) indeg))"
    have i: "hm_get indeg x = (if x \<in> set (node_ids g) then Some (length (deps_of g x)) else None)" for x
      using c(3)[of x] get_i[of x] by simp
    have "hm_ok indeg" using c(2) ids by simp
    then have "x \<in> set ?q \<longleftrightarrow> hm_get indeg x = Some 0" for x
      using hm_get_iff[of indeg x 0] by (force simp: image_iff)
    then have "set ?q = ready_set g []" unfolding set_eq_iff by (simp add: i ready_set_def)
    moreover have "distinct ?q" using c(2) ids by (simp add: distinct_map_filter)
    ultimately have start: "loop_inv g ?q indeg []"
      using i by (auto simp: loop_inv_def missing_def leads_def)
    have "\<forall>d. hm_get dependents d = (if d \<in> set (node_ids g) then Some (children g d) else None)"
      using c(4) get_d by simp
    then obtain order indeg' where "topo_loop dependents ?q indeg [] = Some order" "loop_inv g [] indeg' order"
      using topo_loop_end[OF _ ids start] by blast
    then show thesis using looped c(1) by (simp add: topo_order_def init)
  qed
qed

lemma topo_order_Inr:
  assumes "distinct (node_ids g)" "topo_order g = Some (Inr xs)"
  shows "topological g xs \<and> (\<forall>ys. topological g ys \<longrightarrow> xs \<le> ys)"
  using assms(1)
proof (cases rule: topo_order_cases)
  case (looped order indeg)
  then have xs: "xs = order" "length order = length g" using assms(2) by (auto split: if_splits)
  moreover have "\<forall>ys. topological g ys \<longrightarrow> order \<le> ys"
    using looped(2) by (auto intro: leads_le simp: loop_inv_def)
  ultimately show ?thesis using loop_end(1)[OF looped(2) assms(1)] by simp
qed (use assms(2) in auto)

lemma topo_order_exists:
  assumes "distinct (node_ids g)"
  shows "topo_order g \<noteq> None \<and> (\<forall>ys. topological g ys \<longrightarrow> (\<exists>xs. topo_order g = Some (Inr xs)))"
  using assms
proof (cases rule: topo_order_cases)
  case (looped order indeg)
  then show ?thesis using loop_end[OF looped(2) assms] by auto
qed auto

text \<open>C35: the order of a plan is the smallest one. For nodes with different names the algorithm never
  panics, it returns an order exactly when the dependencies can be met at all, and the order it returns
  is the least, in the dictionary order of names, among all orders that list every node once and after
  the nodes it depends on. So it depends on the graph only, not on the order of the nodes.\<close>

theorem topo_order_least:
  assumes "distinct (node_ids g)"
  shows "topo_order g \<noteq> None \<and> ((\<exists>xs. topo_order g = Some (Inr xs)) = (\<exists>xs. topological g xs)) \<and>
    (topo_order g = Some (Inr xs) \<longleftrightarrow> topological g xs \<and> (\<forall>ys. topological g ys \<longrightarrow> xs \<le> ys))"
proof -
  have "topo_order g = Some (Inr xs)" if xs: "topological g xs" "\<forall>ys. topological g ys \<longrightarrow> xs \<le> ys"
  proof -
    obtain zs where zs: "topo_order g = Some (Inr zs)" using topo_order_exists[OF assms] xs(1) by blast
    then have "zs = xs" using topo_order_Inr[OF assms zs] xs by (intro antisym) blast+
    then show ?thesis using zs by simp
  qed
  then show ?thesis using topo_order_exists[OF assms] topo_order_Inr[OF assms] by blast
qed

theorem topo_order_least_witness:
  "topological [(''b'', [''a'']), (''a'', [])] [''a'', ''b'']"
proof -
  have "topo_order [(''b'', [''a'']), (''a'', [])] = Some (Inr [''a'', ''b''])"
    by (simp add: topo_order_def topo_loop.simps node_ids_def)
  then show ?thesis using topo_order_least[of "[(''b'', [''a'']), (''a'', [])]" "[''a'', ''b'']"] by (simp add: node_ids_def)
qed

end
