(* ===== verification/Orchestrator.thy ===== *)
theory Orchestrator
  imports Family_Bridge Topo_Order
begin

section \<open>Orchestration of plans\<close>

text \<open>
  Models \<^verbatim>\<open>orchestrator.rs\<close>, \<^verbatim>\<open>executor.rs\<close> and \<^verbatim>\<open>work_executor.rs\<close> of \<^verbatim>\<open>crates/familyclaw-bridge/src\<close>:
  plans and their validation, the choice of a worker, the run of one node and the run of a plan. The
  executor is an argument: a function of the turn and of a world \<open>'w\<close>. It does not change the bridge,
  and nobody else does while a plan runs. Nothing is modelled of the traces an error leaves elsewhere.
\<close>

subsection \<open>Plans\<close>

record task_node =
  tn_id :: node_id
  tn_title :: string
  tn_description :: string
  tn_role :: "agent_role option"
  tn_caps :: "string list"
  tn_deps :: "node_id list"
  tn_pinned :: "uuid option"
  tn_capability :: "capability option"

definition task_node_new :: "node_id \<Rightarrow> string \<Rightarrow> string \<Rightarrow> task_node" where
  "task_node_new i title description =
     \<lparr>tn_id = i, tn_title = title, tn_description = description, tn_role = None, tn_caps = [], tn_deps = [],
      tn_pinned = None, tn_capability = None\<rparr>"

record plan =
  pn_id :: string
  pn_nodes :: "task_node list"

definition plan_node :: "plan \<Rightarrow> node_id \<Rightarrow> task_node option" where
  "plan_node p i = List.find (\<lambda>n. tn_id n = i) (pn_nodes p)"

fun first_duplicate :: "node_id list \<Rightarrow> node_id set \<Rightarrow> node_id option" where
  "first_duplicate [] seen = None"
| "first_duplicate (i # is) seen = (if i \<in> seen then Some i else first_duplicate is (insert i seen))"

definition unknown_dep :: "node_id \<Rightarrow> node_id \<Rightarrow> core_error" where
  "unknown_dep n d = InvalidInputErr (''node '' @ n @ '' depends on unknown node '' @ d)"

fun dep_error :: "node_id set \<Rightarrow> node_id \<Rightarrow> node_id list \<Rightarrow> core_error option" where
  "dep_error seen n [] = None"
| "dep_error seen n (d # ds) =
     (if d \<notin> seen then Some (unknown_dep n d)
      else if d = n then Some (InvalidInputErr (''node '' @ n @ '' depends on itself''))
      else dep_error seen n ds)"

fun deps_error :: "node_id set \<Rightarrow> task_node list \<Rightarrow> core_error option" where
  "deps_error seen [] = None"
| "deps_error seen (n # ns) = (case dep_error seen (tn_id n) (tn_deps n) of Some e \<Rightarrow> Some e | None \<Rightarrow> deps_error seen ns)"

definition plan_graph :: "plan \<Rightarrow> deps" where
  "plan_graph p = map (\<lambda>n. (tn_id n, tn_deps n)) (pn_nodes p)"

fun core_of_topo_error :: "topo_error \<Rightarrow> core_error" where
  "core_of_topo_error (UnknownDep n d) = unknown_dep n d"
| "core_of_topo_error Cycle = InvalidInputErr ''orchestration plan contains a cycle''"

definition plan_topo :: "plan \<Rightarrow> (core_error + node_id list) outcome" where
  "plan_topo p =
     (case topo_order (plan_graph p) of
        None \<Rightarrow> Killed | Some (Inl e) \<Rightarrow> Done (Inl (core_of_topo_error e)) | Some (Inr xs) \<Rightarrow> Done (Inr xs))"

definition plan_validate :: "plan \<Rightarrow> (core_error + unit) outcome" where
  "plan_validate p =
     (let ids = map tn_id (pn_nodes p) in
      case first_duplicate ids {} of
        Some i \<Rightarrow> Done (Inl (InvalidInputErr (''duplicate node id: '' @ i)))
      | None \<Rightarrow>
          (case deps_error (set ids) (pn_nodes p) of
             Some e \<Rightarrow> Done (Inl e)
           | None \<Rightarrow>
               (case plan_topo p of Killed \<Rightarrow> Killed | Done (Inl e) \<Rightarrow> Done (Inl e) | Done (Inr _) \<Rightarrow> Done (Inr ()))))"

subsection \<open>Turns and executors\<close>

record turn =
  ot_plan :: string
  ot_node :: node_id
  ot_task :: uuid
  ot_assignee :: uuid
  ot_title :: string
  ot_description :: string
  ot_input :: json
  ot_now :: timestamp

type_synonym 'w turn_executor = "turn \<Rightarrow> 'w \<Rightarrow> (core_error + deliverable) \<times> 'w"

datatype mock_failure = SchemaBreach | MockError

definition mock_success_payload :: "ext \<Rightarrow> turn \<Rightarrow> json" where
  "mock_success_payload X t =
     (let members = (case ot_input t of JObj m \<Rightarrow> m | _ \<Rightarrow> []);
          word = (\<lambda>k other. case map_of members k of Some (JStr s) \<Rightarrow> s | _ \<Rightarrow> other);
          brand = word ''brand'' ''Brand''; audience = word ''audience'' ''everyone'' in
      if map_of members ''brand'' \<noteq> None \<or> map_of members ''audience'' \<noteq> None
      then json_object
        [(''headline'', JStr (brand @ '' for '' @ audience)),
         (''sections'', JArr
            [json_object [(''kind'', JStr ''hero''), (''title'', JStr (''Welcome to '' @ brand))],
             json_object [(''kind'', JStr ''features''), (''title'', JStr ''Why us'')],
             json_object [(''kind'', JStr ''testimonials''), (''title'', JStr (''Loved by '' @ audience))]]),
         (''cta'', JStr (''Get started with '' @ brand))]
      else json_object [(''result'', ot_input t), (''assignee'', JStr (show_uuid X (ot_assignee t)))])"

definition mock_turn_executor :: "ext \<Rightarrow> mock_failure option \<Rightarrow> 'w turn_executor" where
  "mock_turn_executor X failure t w =
     ((case failure of
         Some MockError \<Rightarrow> Inl (LlmErr (''mock executor failed turn for node '' @ ot_node t))
       | Some SchemaBreach \<Rightarrow>
           Inr \<lparr>dv_from = ot_assignee t, dv_payload = json_object [(''sections'', JArr []), (''cta'', JStr [])], dv_at = ot_now t\<rparr>
       | None \<Rightarrow> Inr \<lparr>dv_from = ot_assignee t, dv_payload = mock_success_payload X t, dv_at = ot_now t\<rparr>), w)"

record work_outcome =
  wo_task :: uuid
  wo_output :: string
  wo_succeeded :: bool

definition simulate_work :: "work \<Rightarrow> core_error + work_outcome" where
  "simulate_work t = Inr \<lparr>wo_task = wk_id t, wo_output = ''simulated: '' @ wk_title t, wo_succeeded = True\<rparr>"

subsection \<open>The choice of a worker\<close>

definition in_flight :: "uuid \<Rightarrow> bridge \<Rightarrow> nat" where
  "in_flight a b = length (filter (\<lambda>t. \<not> work_terminal (wk_status t)) (list_for_assignee a b))"

definition eligible :: "ext \<Rightarrow> agent_role option \<Rightarrow> string list \<Rightarrow> timestamp \<Rightarrow> bridge \<Rightarrow> agent_info \<Rightarrow> bool" where
  "eligible X required needs now b a \<longleftrightarrow>
     (case required of None \<Rightarrow> True | Some r \<Rightarrow> ai_role a = r) \<and> (\<forall>c \<in> set needs. c \<in> set (ai_caps a)) \<and>
     liveness_at X (ai_id a) now b = Inr Online"

fun least_candidate :: "(nat \<times> uuid) list \<Rightarrow> (nat \<times> uuid) option" where
  "least_candidate [] = None"
| "least_candidate (c # cs) = Some (foldl (\<lambda>m x. if x < m then x else m) c cs)"

definition select_worker :: "ext \<Rightarrow> agent_role option \<Rightarrow> string list \<Rightarrow> timestamp \<Rightarrow> bridge \<Rightarrow> uuid option" where
  "select_worker X required needs now b =
     map_option snd (least_candidate (map (\<lambda>a. (in_flight (ai_id a) b, ai_id a)) (filter (eligible X required needs now b) (list_agents b))))"

subsection \<open>One node\<close>

definition STEP_ASSIGNED :: string where
  "STEP_ASSIGNED = ''orchestration.step_assigned''"

definition WORKFLOW_DONE :: string where
  "WORKFLOW_DONE = ''orchestration.workflow_done''"

definition STEP_FAILED :: string where
  "STEP_FAILED = ''orchestration.step_failed''"

definition MAX_DELEGATION_DEPTH :: nat where
  "MAX_DELEGATION_DEPTH = 4"

definition turn_input :: "json_env \<Rightarrow> task_node \<Rightarrow> json" where
  "turn_input E n =
     (let base = json_insert ''description'' (JStr (tn_description n)) (json_insert ''title'' (JStr (tn_title n)) []) in
      JObj (case je_parse E (tn_description n) of
              Some (JObj members) \<Rightarrow> foldl (\<lambda>m (k, v). json_insert k v m) base members
            | _ \<Rightarrow> base))"

definition deliverable_accepted ::
  "json_env \<Rightarrow> ext \<Rightarrow> uuid \<Rightarrow> capability option \<Rightarrow> deliverable \<Rightarrow> timestamp \<Rightarrow> bool" where
  "deliverable_accepted E X i cap d now =
     (case cap of
        None \<Rightarrow> True
      | Some c \<Rightarrow>
          (case propose i c (dv_from d) (dv_from d) (JObj []) now [] of
             (Inl _, _) \<Rightarrow> False
           | (Inr ct, board) \<Rightarrow>
               (case contract_accept E X (ct_id ct) now board of
                  (Inl _, _) \<Rightarrow> False
                | (Inr _, board') \<Rightarrow>
                    (case contract_fulfill E X (ct_id ct) d now board' of (Inl _, _) \<Rightarrow> False | (Inr _, _) \<Rightarrow> True))))"

datatype node_outcome = NodeCompleted uuid | NodeFailed

definition step_payload :: "ext \<Rightarrow> plan \<Rightarrow> node_id \<Rightarrow> uuid \<Rightarrow> uuid \<Rightarrow> json" where
  "step_payload X p i task assignee =
     json_object [(''plan_id'', JStr (pn_id p)), (''node_id'', JStr i), (''task_id'', JStr (show_uuid X task)),
       (''assignee'', JStr (show_uuid X assignee))]"

definition node_worker :: "ext \<Rightarrow> task_node \<Rightarrow> timestamp \<Rightarrow> bridge \<Rightarrow> core_error + uuid" where
  "node_worker X n now b =
     (case tn_pinned n of
        Some a \<Rightarrow> (if liveness_at X a now b = Inr Online then Inr a
                  else Inl (NotFoundErr (''pinned worker for node '' @ tn_id n @ '' is not online'')))
      | None \<Rightarrow> (case select_worker X (tn_role n) (tn_caps n) now b of
                  None \<Rightarrow> Inl (NotFoundErr (''no eligible worker for node '' @ tn_id n)) | Some a \<Rightarrow> Inr a))"

definition drive_node ::
  "source \<Rightarrow> json_env \<Rightarrow> ext \<Rightarrow> 'w turn_executor \<Rightarrow> plan \<Rightarrow> task_node \<Rightarrow> timestamp \<Rightarrow> bridge \<Rightarrow> 'w \<Rightarrow>
   (core_error + node_outcome) \<times> bridge \<times> 'w" where
  "drive_node S E X ex p n now b w =
     (case node_worker X n now b of
        Inl e \<Rightarrow> (Inl e, b, w)
      | Inr a \<Rightarrow>
          (case board_create S (tn_title n) (Some a) b of
             (Inl e, b1) \<Rightarrow> (Inl e, b1, w)
           | (Inr t, b1) \<Rightarrow>
               (case board_update_status S X (wk_id t) WorkActive b1 of
                  (Inl e, b2) \<Rightarrow> (Inl e, b2, w)
                | (Inr _, b2) \<Rightarrow>
                    (let b3 = publish S (CustomEvent STEP_ASSIGNED) (Some a) (step_payload X p (tn_id n) (wk_id t) a) b2;
                         turn = \<lparr>ot_plan = pn_id p, ot_node = tn_id n, ot_task = wk_id t, ot_assignee = a, ot_title = tn_title n,
                           ot_description = tn_description n, ot_input = turn_input E n, ot_now = now\<rparr> in
                     case ex turn w of
                       (r, w') \<Rightarrow>
                         (if (case r of Inl _ \<Rightarrow> False
                              | Inr d \<Rightarrow> deliverable_accepted E X (sr_id S (br_drawn b3)) (tn_capability n) d now)
                          then (case board_update_status S X (wk_id t) WorkDone (draw b3) of
                                  (Inl e, b4) \<Rightarrow> (Inl e, b4, w')
                                | (Inr _, b4) \<Rightarrow> (Inr (NodeCompleted (wk_id t)), b4, w'))
                          else (Inr NodeFailed,
                                publish S (CustomEvent STEP_FAILED) (Some a) (step_payload X p (tn_id n) (wk_id t) a) (draw b3), w'))))))"

subsection \<open>A plan\<close>

record run_report =
  rr_plan :: string
  rr_completed :: "(node_id \<times> uuid) list"

definition show_work_option :: "work_status option \<Rightarrow> string" where
  "show_work_option s = (case s of None \<Rightarrow> ''None'' | Some s \<Rightarrow> ''Some('' @ show_work s @ '')'')"

text \<open>The tasks of the dependencies must be known and done.\<close>

fun deps_done :: "bridge \<Rightarrow> (node_id, uuid) hashmap \<Rightarrow> node_id \<Rightarrow> node_id list \<Rightarrow> core_error option" where
  "deps_done b tasks i [] = None"
| "deps_done b tasks i (d # ds) =
     (case hm_get tasks d of
        None \<Rightarrow> Some (InvalidInputErr (''node '' @ i @ '' dependency '' @ d @ '' was not scheduled''))
      | Some t \<Rightarrow>
          (let s = map_option wk_status (hm_get (br_tasks b) t) in
           if s \<noteq> Some WorkDone
           then Some (InvalidInputErr (''node '' @ i @ '' dependency '' @ d @ '' is not Done (was '' @ show_work_option s @ '')''))
           else deps_done b tasks i ds))"

fun run_nodes ::
  "source \<Rightarrow> json_env \<Rightarrow> ext \<Rightarrow> 'w turn_executor \<Rightarrow> plan \<Rightarrow> timestamp \<Rightarrow> node_id list \<Rightarrow> (node_id, uuid) hashmap \<Rightarrow>
   (node_id \<times> uuid) list \<Rightarrow> node_id set \<Rightarrow> bridge \<Rightarrow> 'w \<Rightarrow> (core_error + (node_id \<times> uuid) list) \<times> bridge \<times> 'w" where
  "run_nodes S E X ex p now [] tasks finished broken b w = (Inr finished, b, w)"
| "run_nodes S E X ex p now (i # is) tasks finished broken b w =
     (case plan_node p i of
        None \<Rightarrow> (Inl (NotFoundErr (''node '' @ i @ '' vanished from plan'')), b, w)
      | Some n \<Rightarrow>
          (if \<exists>d \<in> set (tn_deps n). d \<in> broken then run_nodes S E X ex p now is tasks finished (insert i broken) b w
           else case deps_done b tasks i (tn_deps n) of
             Some e \<Rightarrow> (Inl e, b, w)
           | None \<Rightarrow>
               (case drive_node S E X ex p n now b w of
                  (Inl e, b', w') \<Rightarrow> (Inl e, b', w')
                | (Inr (NodeCompleted t), b', w') \<Rightarrow>
                    run_nodes S E X ex p now is (hm_insert i t tasks) (finished @ [(i, t)]) broken b' w'
                | (Inr NodeFailed, b', w') \<Rightarrow> run_nodes S E X ex p now is tasks finished (insert i broken) b' w')))"

definition run_nested_with ::
  "source \<Rightarrow> json_env \<Rightarrow> ext \<Rightarrow> 'w turn_executor \<Rightarrow> plan \<Rightarrow> timestamp \<Rightarrow> nat \<Rightarrow> bridge \<Rightarrow> 'w \<Rightarrow>
   (core_error + run_report) outcome \<times> bridge \<times> 'w" where
  "run_nested_with S E X ex p now depth b w =
     (if MAX_DELEGATION_DEPTH < depth
      then (Done (Inl (InvalidInputErr (''sub-delegation depth '' @ show_nat depth @ '' exceeds budget '' @ show_nat MAX_DELEGATION_DEPTH))), b, w)
      else case plan_validate p of
        Killed \<Rightarrow> (Killed, b, w)
      | Done (Inl e) \<Rightarrow> (Done (Inl e), b, w)
      | Done (Inr _) \<Rightarrow>
          (case plan_topo p of
             Killed \<Rightarrow> (Killed, b, w)
           | Done (Inl e) \<Rightarrow> (Done (Inl e), b, w)
           | Done (Inr order) \<Rightarrow>
               (case run_nodes S E X ex p now order [] [] {} b w of
                  (Inl e, b', w') \<Rightarrow> (Done (Inl e), b', w')
                | (Inr finished, b', w') \<Rightarrow>
                    (Done (Inr \<lparr>rr_plan = pn_id p, rr_completed = finished\<rparr>),
                     publish S (CustomEvent WORKFLOW_DONE) None
                       (json_object [(''plan_id'', JStr (pn_id p)), (''node_count'', JNum (PosInt (length finished)))]) b', w'))))"

definition run_with ::
  "source \<Rightarrow> json_env \<Rightarrow> ext \<Rightarrow> 'w turn_executor \<Rightarrow> plan \<Rightarrow> timestamp \<Rightarrow> bridge \<Rightarrow> 'w \<Rightarrow>
   (core_error + run_report) outcome \<times> bridge \<times> 'w" where
  "run_with S E X ex p now b w = run_nested_with S E X ex p now 0 b w"

definition run_plan ::
  "source \<Rightarrow> json_env \<Rightarrow> ext \<Rightarrow> plan \<Rightarrow> timestamp \<Rightarrow> bridge \<Rightarrow> (core_error + run_report) outcome \<times> bridge" where
  "run_plan S E X p now b = (case run_nested_with S E X (mock_turn_executor X None) p now 0 b () of (r, b', _) \<Rightarrow> (r, b'))"

end
