(* ===== verification/Orchestration_Laws.thy ===== *)
theory Orchestration_Laws
  imports Orchestrator
begin

section \<open>What an orchestration does\<close>

text \<open>
  The choice of a worker is the best one; a run drives exactly the nodes whose dependencies succeeded, in
  the least order of the plan, and completes exactly those with an accepted result; it returns whenever
  there are workers. And the check of deliverables refuses every result of a capability with an input.
\<close>

subsection \<open>The best worker\<close>

lemma foldl_min:
  fixes c :: "'a :: linorder"
  shows "foldl (\<lambda>m x. if x < m then x else m) c cs \<in> set (c # cs) \<and>
    (\<forall>x \<in> set (c # cs). foldl (\<lambda>m x. if x < m then x else m) c cs \<le> x)"
proof (induction cs arbitrary: c)
  case (Cons d cs)
  show ?case using Cons.IH[of d] Cons.IH[of c] by (cases "d < c") auto
qed simp

lemma least_candidate_le: "least_candidate cs = Some m \<Longrightarrow> m \<in> set cs \<and> (\<forall>x \<in> set cs. m \<le> x)"
  using foldl_min[of "hd cs" "List.tl cs"] by (cases cs) auto

lemma least_candidate_None: "least_candidate cs = None \<longleftrightarrow> cs = []"
  by (cases cs) auto

lemma list_agents_set: "set (list_agents b) = set (hm_values (br_agents b))"
  by (simp add: list_agents_def)

text \<open>The chosen worker is a registered agent that is online, has the role and all capabilities,
  and among all those it has the fewest open tasks, the smaller identifier deciding between equals;
  no worker is chosen only when no agent qualifies.\<close>

theorem select_worker_best:
  assumes "keyed ai_id (br_agents b)"
  shows "case select_worker X required needs now b of
     None \<Rightarrow> (\<forall>a \<in> ran (hm_get (br_agents b)). \<not> eligible X required needs now b a)
   | Some i \<Rightarrow> (\<exists>a. hm_get (br_agents b) i = Some a \<and> eligible X required needs now b a) \<and>
       (\<forall>a \<in> ran (hm_get (br_agents b)). eligible X required needs now b a \<longrightarrow>
          in_flight i b < in_flight (ai_id a) b \<or> in_flight i b = in_flight (ai_id a) b \<and> i \<le> ai_id a)"
proof -
  let ?cs = "map (\<lambda>a. (in_flight (ai_id a) b, ai_id a)) (filter (eligible X required needs now b) (list_agents b))"
  have agents: "set (list_agents b) = ran (hm_get (br_agents b))"
    by (simp only: list_agents_set keyed_values_ran[OF assms])
  show ?thesis
  proof (cases "least_candidate ?cs")
    case None
    then have "filter (eligible X required needs now b) (list_agents b) = []" by (simp only: least_candidate_None map_is_Nil_conv)
    then show ?thesis using None agents by (auto simp: select_worker_def filter_empty_conv)
  next
    case (Some m)
    note least = least_candidate_le[OF Some]
    then obtain a where a: "a \<in> ran (hm_get (br_agents b))" "eligible X required needs now b a"
        "m = (in_flight (ai_id a) b, ai_id a)"
      using agents by auto
    then have "hm_get (br_agents b) (ai_id a) = Some a"
      using keyed_get[OF assms] by (auto simp: ran_def)
    moreover have "in_flight (ai_id a) b < in_flight (ai_id c) b \<or> in_flight (ai_id a) b = in_flight (ai_id c) b \<and> ai_id a \<le> ai_id c"
      if "c \<in> ran (hm_get (br_agents b))" "eligible X required needs now b c" for c
    proof -
      have "m \<le> (in_flight (ai_id c) b, ai_id c)" using least that agents by auto
      then show ?thesis using a(3) by (auto simp: less_eq_prod_def)
    qed
    ultimately show ?thesis using Some a by (auto simp: select_worker_def)
  qed
qed

subsection \<open>Accepting a deliverable\<close>

definition accepts :: "json_env \<Rightarrow> capability option \<Rightarrow> deliverable \<Rightarrow> bool" where
  "accepts E cap d \<longleftrightarrow>
     (case cap of
        None \<Rightarrow> True
      | Some c \<Rightarrow> meets E (cp_input c) (cp_pre c) (JObj []) \<and> meets E (cp_output c) (cp_post c) (dv_payload d))"

lemma deliverable_accepted_iff: "deliverable_accepted E X i cap d now \<longleftrightarrow> accepts E cap d"
proof (cases cap)
  case (Some c)
  show ?thesis
    by (auto simp: Some deliverable_accepted_def accepts_def propose_def contract_accept_def contract_fulfill_def on_contract_def
        accept_contract_def fulfill_contract_def meets_def schema_valid_def move_to_def Let_def find_refuting
        dest: find_refuted split: option.splits if_splits)
qed (simp add: deliverable_accepted_def accepts_def)

lemma required_input_refused:
  assumes "f \<in> set (cp_input c)" "sf_required f"
  shows "\<not> accepts E (Some c) d"
proof -
  have "field_violation [] f \<noteq> None" using assms(2) by (simp add: field_violation_def)
  then have "schema_check (cp_input c) (JObj []) \<noteq> []"
    using assms(1) by (auto simp: schema_check_def map_filter_def filter_empty_conv)
  then show ?thesis by (simp add: accepts_def meets_def schema_valid_def)
qed

subsection \<open>One node\<close>

text \<open>The next \<open>k\<close> identifiers to be drawn are new and different.\<close>

definition fresh_ids :: "source \<Rightarrow> nat \<Rightarrow> bridge \<Rightarrow> bool" where
  "fresh_ids S k b \<longleftrightarrow> inj_on (sr_id S) {br_drawn b ..< br_drawn b + k} \<and>
     (\<forall>j \<in> {br_drawn b ..< br_drawn b + k}. hm_get (br_tasks b) (sr_id S j) = None)"

lemma fresh_ids_mono: "fresh_ids S k b \<Longrightarrow> j \<le> k \<Longrightarrow> fresh_ids S j b"
  unfolding fresh_ids_def by (auto elim!: inj_on_subset)

lemma fresh_ids_step:
  assumes "fresh_ids S (k + 5) b" "br_drawn b' = br_drawn b + 5" "hm_get (br_tasks b') = (hm_get (br_tasks b))(sr_id S (br_drawn b) \<mapsto> t)"
  shows "fresh_ids S k b'"
proof -
  have sub: "{br_drawn b' ..< br_drawn b' + k} \<subseteq> {br_drawn b ..< br_drawn b + (k + 5)}" using assms(2) by auto
  have "sr_id S j \<noteq> sr_id S (br_drawn b)" if "j \<in> {br_drawn b' ..< br_drawn b' + k}" for j
    using assms(1,2) that unfolding fresh_ids_def by (auto dest!: inj_onD)
  then show ?thesis
    using assms sub unfolding fresh_ids_def by (auto elim: inj_on_subset)
qed

text \<open>The same agents, later: the tasks that were there are still the same.\<close>

definition later :: "bridge \<Rightarrow> bridge \<Rightarrow> bool" where
  "later b b' \<longleftrightarrow> br_agents b' = br_agents b \<and> br_timeout b' = br_timeout b \<and>
     (\<forall>t k. hm_get (br_tasks b) t = Some k \<longrightarrow> hm_get (br_tasks b') t = Some k)"

lemma later_refl [simp]: "later b b"
  by (simp add: later_def)

lemma later_trans: "later a b \<Longrightarrow> later b c \<Longrightarrow> later a c"
  by (simp add: later_def)

lemma update_status_result:
  assumes "hm_get (br_tasks b) i = Some t" "work_can (wk_status t) s"
  shows "\<exists>t' b'. board_update_status S X i s b = (Inr t', b') \<and> br_agents b' = br_agents b \<and> br_timeout b' = br_timeout b \<and>
    br_drawn b' = br_drawn b + 1 \<and> hm_get (br_tasks b') = (hm_get (br_tasks b))(wk_id t \<mapsto> t') \<and>
    wk_status t' = s \<and> wk_title t' = wk_title t \<and> wk_assignee t' = wk_assignee t \<and> wk_id t' = wk_id t"
proof -
  have "wk_status t \<noteq> s" using assms(2) by (cases "wk_status t"; cases s) auto
  then show ?thesis using assms by (auto simp: board_update_status_def store_work_def Let_def)
qed

text \<open>What a run of one node does, whatever the executor answers.\<close>

definition good_answer :: "json_env \<Rightarrow> task_node \<Rightarrow> core_error + deliverable \<Rightarrow> bool" where
  "good_answer E n r \<longleftrightarrow> (case r of Inl _ \<Rightarrow> False | Inr d \<Rightarrow> accepts E (tn_capability n) d)"

definition holds_done :: "bridge \<Rightarrow> task_node \<Rightarrow> uuid \<Rightarrow> bool" where
  "holds_done b n t \<longleftrightarrow> (\<exists>k. hm_get (br_tasks b) t = Some k \<and> wk_status k = WorkDone \<and> wk_title k = tn_title n)"

lemma drive_node_result:
  assumes "fresh_ids S (k + 5) b" "node_worker X n now b = Inr a" "\<not> str_blank (tn_title n)"
  shows "\<exists>turn r out b' w'. ex turn w = (r, w') \<and> ot_node turn = tn_id n \<and> drive_node S E X ex p n now b w = (Inr out, b', w') \<and>
    fresh_ids S k b' \<and> later b b' \<and>
    (if good_answer E n r then \<exists>t. out = NodeCompleted t \<and> holds_done b' n t else out = NodeFailed)"
proof -
  let ?i = "sr_id S (br_drawn b)"
  let ?t = "work_new ?i (tn_title n) (Some a) (sr_now S (br_drawn b))"
  let ?b1 = "(draw b)\<lparr>br_tasks := hm_insert ?i ?t (br_tasks b)\<rparr>"
  have new: "hm_get (br_tasks b) ?i = None" using assms(1) by (simp add: fresh_ids_def)
  have create: "board_create S (tn_title n) (Some a) b = (Inr ?t, ?b1)"
    using assms(3) by (simp add: board_create_def work_validate_def work_new_def Let_def)
  have t1: "hm_get (br_tasks ?b1) ?i = Some ?t" "work_can (wk_status ?t) WorkActive" by (simp_all add: work_new_def)
  obtain t2 b2 where u: "board_update_status S X ?i WorkActive ?b1 = (Inr t2, b2)" "br_agents b2 = br_agents b" "br_timeout b2 = br_timeout b"
      "br_drawn b2 = br_drawn b + 2" "hm_get (br_tasks b2) = (hm_get (br_tasks b))(?i \<mapsto> t2)" "wk_status t2 = WorkActive"
      "wk_title t2 = tn_title n" "wk_id t2 = ?i"
    using update_status_result[OF t1, of S X] by (auto simp: work_new_def fun_eq_iff)
  let ?b3 = "publish S (CustomEvent STEP_ASSIGNED) (Some a) (step_payload X p (tn_id n) ?i a) b2"
  let ?turn = "\<lparr>ot_plan = pn_id p, ot_node = tn_id n, ot_task = ?i, ot_assignee = a, ot_title = tn_title n,
    ot_description = tn_description n, ot_input = turn_input E n, ot_now = now\<rparr>"
  obtain r w' where r: "ex ?turn w = (r, w')" by (rule prod.exhaust)
  have accepted: "(case r of Inl _ \<Rightarrow> False | Inr d \<Rightarrow> deliverable_accepted E X (sr_id S (br_drawn ?b3)) (tn_capability n) d now) \<longleftrightarrow> good_answer E n r"
    by (simp add: good_answer_def deliverable_accepted_iff split: sum.split)
  have id: "wk_id ?t = ?i" by (simp add: work_new_def)
  show ?thesis
  proof (cases "good_answer E n r")
    case True
    have t3: "hm_get (br_tasks (draw ?b3)) ?i = Some t2" "work_can (wk_status t2) WorkDone" using u by simp_all
    obtain t4 b4 where d: "board_update_status S X ?i WorkDone (draw ?b3) = (Inr t4, b4)" "br_agents b4 = br_agents b" "br_timeout b4 = br_timeout b"
        "br_drawn b4 = br_drawn b + 5" "hm_get (br_tasks b4) = (hm_get (br_tasks b))(?i \<mapsto> t4)" "wk_status t4 = WorkDone" "wk_title t4 = tn_title n"
      using update_status_result[OF t3, of S X] u by (auto simp: fun_eq_iff)
    have "drive_node S E X ex p n now b w = (Inr (NodeCompleted ?i), b4, w')"
      using assms(2) create u(1) r accepted True d(1) by (simp add: drive_node_def id Let_def)
    moreover have "fresh_ids S k b4" by (rule fresh_ids_step[OF assms(1) d(4,5)])
    moreover have "later b b4" using d(2,3,5) new by (auto simp: later_def)
    moreover have "holds_done b4 n ?i" using d(5-7) by (simp add: holds_done_def)
    ultimately show ?thesis using r True by (intro exI[of _ ?turn] exI[of _ r]) auto
  next
    case False
    let ?b4 = "publish S (CustomEvent STEP_FAILED) (Some a) (step_payload X p (tn_id n) ?i a) (draw ?b3)"
    have "drive_node S E X ex p n now b w = (Inr NodeFailed, ?b4, w')"
      using assms(2) create u(1) r accepted False by (simp add: drive_node_def id Let_def)
    moreover have "fresh_ids S k ?b4" using u(4,5) by (intro fresh_ids_step[OF assms(1), where t = t2]) (simp_all add: fun_eq_iff)
    moreover have "later b ?b4" using u(2,3,5) new by (auto simp: later_def)
    ultimately show ?thesis using r False by (intro exI[of _ ?turn] exI[of _ r]) auto
  qed
qed

lemma drive_node_Inr:
  assumes "drive_node S E X ex p n now b w = (Inr out, b', w')"
  shows "(\<exists>a. node_worker X n now b = Inr a) \<and> \<not> str_blank (tn_title n)"
  using assms by (auto simp: drive_node_def board_create_def work_validate_def work_new_def Let_def split: sum.splits if_splits)

subsection \<open>A run\<close>

text \<open>A node succeeds when its own answer is good and all nodes it depends on succeed.\<close>

inductive succeeds :: "plan \<Rightarrow> (task_node \<Rightarrow> bool) \<Rightarrow> node_id \<Rightarrow> bool" for p good where
  succeeds_node: "plan_node p i = Some n \<Longrightarrow> good n \<Longrightarrow> (\<And>d. d \<in> set (tn_deps n) \<Longrightarrow> succeeds p good d) \<Longrightarrow> succeeds p good i"

inductive_simps succeeds_iff: "succeeds p good i"

definition deps_succeed :: "plan \<Rightarrow> (task_node \<Rightarrow> bool) \<Rightarrow> node_id \<Rightarrow> bool" where
  "deps_succeed p good i \<longleftrightarrow> (case plan_node p i of None \<Rightarrow> False | Some n \<Rightarrow> \<forall>d \<in> set (tn_deps n). succeeds p good d)"

definition run_inv ::
  "source \<Rightarrow> nat \<Rightarrow> plan \<Rightarrow> (task_node \<Rightarrow> bool) \<Rightarrow> ('w \<Rightarrow> node_id list) \<Rightarrow> node_id list \<Rightarrow> node_id list \<Rightarrow> (node_id, uuid) hashmap \<Rightarrow>
   (node_id \<times> uuid) list \<Rightarrow> node_id set \<Rightarrow> bridge \<Rightarrow> 'w \<Rightarrow> bool" where
  "run_inv S k p good calls before pre tasks finished broken b w \<longleftrightarrow>
     fresh_ids S (5 * k) b \<and> map fst finished = filter (succeeds p good) pre \<and> broken = {i \<in> set pre. \<not> succeeds p good i} \<and>
     (\<forall>i \<in> set pre. succeeds p good i \<longrightarrow> (\<exists>t n. hm_get tasks i = Some t \<and> plan_node p i = Some n \<and> holds_done b n t)) \<and>
     (\<forall>(i, t) \<in> set finished. \<exists>n. plan_node p i = Some n \<and> holds_done b n t) \<and>
     calls w = before @ filter (deps_succeed p good) pre"

lemma holds_done_later: "later b b' \<Longrightarrow> holds_done b n t \<Longrightarrow> holds_done b' n t"
  by (auto simp: later_def holds_done_def)

lemma deps_done_None:
  "(\<forall>d \<in> set ds. \<exists>t n. hm_get tasks d = Some t \<and> holds_done b n t) \<Longrightarrow> deps_done b tasks i ds = None"
  by (induction ds) (fastforce simp: holds_done_def)+

lemma run_nodes_inv:
  assumes answer: "\<And>t w. fst (ex t w) = answer (ot_node t)" "\<And>t w. calls (snd (ex t w)) = calls w @ [ot_node t]"
    and good: "good = (\<lambda>n. good_answer E n (answer (tn_id n)))"
    and nodes: "\<And>i. i \<in> set (pre @ is) \<Longrightarrow> plan_node p i \<noteq> None"
    and order: "\<And>i n u v. pre @ is = u @ i # v \<Longrightarrow> plan_node p i = Some n \<Longrightarrow> set (tn_deps n) \<subseteq> set u" "distinct (pre @ is)"
    and inv: "run_inv S (length is) p good calls before pre tasks finished broken b w"
    and run: "run_nodes S E X ex p now is tasks finished broken b w = (Inr result, b', w')"
  shows "\<exists>tasks' broken'. run_inv S 0 p good calls before (pre @ is) tasks' result broken' b' w'"
  using nodes order inv run
proof (induction "is" arbitrary: pre tasks finished broken b w)
  case Nil
  then show ?case by auto
next
  case (Cons i "is")
  obtain n where n: "plan_node p i = Some n" using Cons.prems(1)[of i] by auto
  then have id: "tn_id n = i" by (auto simp: plan_node_def find_Some_iff)
  have deps: "set (tn_deps n) \<subseteq> set pre" using Cons.prems(2)[OF refl n] .
  have I: "fresh_ids S (5 * length is + 5) b" "map fst finished = filter (succeeds p good) pre" "broken = {i \<in> set pre. \<not> succeeds p good i}"
      "\<forall>i \<in> set pre. succeeds p good i \<longrightarrow> (\<exists>t n. hm_get tasks i = Some t \<and> plan_node p i = Some n \<and> holds_done b n t)"
      "\<forall>(i, t) \<in> set finished. \<exists>n. plan_node p i = Some n \<and> holds_done b n t" "calls w = before @ filter (deps_succeed p good) pre"
    using Cons.prems(4) by (simp_all add: run_inv_def add.commute)
  note less_ids = fresh_ids_mono[OF I(1), of "5 * length is"]
  have fresh_i: "i \<notin> set pre" using Cons.prems(3) by simp
  have suc: "succeeds p good i \<longleftrightarrow> good n \<and> deps_succeed p good i"
    using n by (subst succeeds_iff) (auto simp: deps_succeed_def)
  have dep_suc: "deps_succeed p good i \<longleftrightarrow> (\<forall>d \<in> set (tn_deps n). succeeds p good d)" using n by (simp add: deps_succeed_def)
  have next_nodes: "\<And>j. j \<in> set ((pre @ [i]) @ is) \<Longrightarrow> plan_node p j \<noteq> None" using Cons.prems(1) by simp
  have next_order: "\<And>j m u v. (pre @ [i]) @ is = u @ j # v \<Longrightarrow> plan_node p j = Some m \<Longrightarrow> set (tn_deps m) \<subseteq> set u"
    using Cons.prems(2) by simp
  have next_distinct: "distinct ((pre @ [i]) @ is)" using Cons.prems(3) by simp
  note go_on = Cons.IH[OF next_nodes next_order next_distinct]
  show ?case
  proof (cases "\<exists>d \<in> set (tn_deps n). d \<in> broken")
    case True
    then have "\<not> deps_succeed p good i" using I(3) by (auto simp: dep_suc)
    then have "run_inv S (length is) p good calls before (pre @ [i]) tasks finished (insert i broken) b w"
      using I less_ids suc fresh_i unfolding run_inv_def by auto
    then show ?thesis using go_on Cons.prems(5) n True by auto
  next
    case False
    then have ds: "deps_succeed p good i" using I(3) deps by (auto simp: dep_suc)
    then have "\<forall>d \<in> set (tn_deps n). \<exists>t n. hm_get tasks d = Some t \<and> holds_done b n t" using I(4) deps dep_suc by blast
    then have all_done: "deps_done b tasks i (tn_deps n) = None" by (rule deps_done_None)
    obtain r b1 w1 where d: "drive_node S E X ex p n now b w = (r, b1, w1)" by (metis prod.exhaust)
    then obtain out where out: "r = Inr out" using Cons.prems(5) n False all_done by (cases r) auto
    obtain a where a: "node_worker X n now b = Inr a" "\<not> str_blank (tn_title n)" using drive_node_Inr[OF d[unfolded out]] by blast
    obtain turn ans where D: "ex turn w = (ans, w1)" "ot_node turn = i" "fresh_ids S (5 * length is) b1" "later b b1"
        "if good_answer E n ans then \<exists>t. out = NodeCompleted t \<and> holds_done b1 n t else out = NodeFailed"
      using drive_node_result[OF I(1) a, where ex = ex and w = w and E = E and p = p] d out id by auto
    have ans: "ans = answer i" "calls w1 = calls w @ [i]" using answer[of turn w] D(1,2) by simp_all
    then have good_iff: "good_answer E n ans \<longleftrightarrow> succeeds p good i" using suc ds good id by simp
    have old: "\<forall>j \<in> set pre. succeeds p good j \<longrightarrow> (\<exists>t n. hm_get tasks j = Some t \<and> plan_node p j = Some n \<and> holds_done b1 n t)"
      "\<forall>(j, t) \<in> set finished. \<exists>n. plan_node p j = Some n \<and> holds_done b1 n t"
      using I(4,5) holds_done_later[OF D(4)] by blast+
    show ?thesis
    proof (cases "succeeds p good i")
      case True
      then obtain t where t: "out = NodeCompleted t" "holds_done b1 n t" using D(5) good_iff by auto
      have "run_inv S (length is) p good calls before (pre @ [i]) (hm_insert i t tasks) (finished @ [(i, t)]) broken b1 w1"
        using I old D(3) ans ds True t(2) n fresh_i unfolding run_inv_def by auto
      then show ?thesis using go_on Cons.prems(5) n False all_done d out t(1) by auto
    next
      case no: False
      then have "out = NodeFailed" using D(5) good_iff by auto
      moreover have "run_inv S (length is) p good calls before (pre @ [i]) tasks finished (insert i broken) b1 w1"
        using I old D(3) ans ds no fresh_i unfolding run_inv_def by auto
      ultimately show ?thesis using go_on Cons.prems(5) n False all_done d out by auto
    qed
  qed
qed

lemma first_duplicate_None: "first_duplicate xs seen = None \<longleftrightarrow> distinct xs \<and> set xs \<inter> seen = {}"
  by (induction xs arbitrary: seen) auto

lemma plan_node_None: "plan_node p i = None \<longleftrightarrow> i \<notin> set (node_ids (plan_graph p))"
  by (auto simp: plan_node_def find_None_iff node_ids_def plan_graph_def)

lemma plan_node_deps: "distinct (node_ids (plan_graph p)) \<Longrightarrow> plan_node p i = Some n \<Longrightarrow> deps_of (plan_graph p) i = tn_deps n"
proof -
  have "distinct (map tn_id ns) \<Longrightarrow> List.find (\<lambda>n. tn_id n = i) ns = Some n \<Longrightarrow> deps_of (map (\<lambda>n. (tn_id n, tn_deps n)) ns) i = tn_deps n" for ns
    by (induction ns) (auto split: if_splits)
  then show "distinct (node_ids (plan_graph p)) \<Longrightarrow> plan_node p i = Some n \<Longrightarrow> ?thesis"
    by (simp add: plan_node_def plan_graph_def node_ids_def comp_def)
qed

lemma plan_validate_ok:
  assumes "plan_validate p = Done (Inr ())"
  obtains order where "topo_order (plan_graph p) = Some (Inr order)" "distinct (node_ids (plan_graph p))"
proof -
  have "first_duplicate (map tn_id (pn_nodes p)) {} = None" "\<exists>xs. plan_topo p = Done (Inr xs)"
    using assms by (auto simp: plan_validate_def Let_def split: option.splits outcome.splits sum.splits)
  then have "distinct (node_ids (plan_graph p))" "\<exists>xs. topo_order (plan_graph p) = Some (Inr xs)"
    by (auto simp: first_duplicate_None node_ids_def plan_graph_def comp_def plan_topo_def split: option.splits sum.splits)
  then show thesis using that by blast
qed

lemma plan_order:
  assumes "topo_order (plan_graph p) = Some (Inr order)" "distinct (node_ids (plan_graph p))"
  shows "distinct order" and "i \<in> set order \<Longrightarrow> plan_node p i \<noteq> None"
    and "order = u @ i # v \<Longrightarrow> plan_node p i = Some n \<Longrightarrow> set (tn_deps n) \<subseteq> set u"
  using topo_order_Inr[OF assms(2,1)] plan_node_deps[OF assms(2), of i n] plan_node_None[of p i]
  by (auto simp: topological_def in_order_append)

lemma plan_order_length:
  assumes "topo_order (plan_graph p) = Some (Inr order)" "distinct (node_ids (plan_graph p))"
  shows "length order = length (pn_nodes p)"
proof -
  have "set order = set (node_ids (plan_graph p))" "distinct order"
    using topo_order_Inr[OF assms(2,1)] by (auto simp: topological_def)
  then have "length order = length (node_ids (plan_graph p))" using assms(2) by (metis distinct_card)
  then show ?thesis by (simp add: node_ids_def plan_graph_def)
qed

text \<open>C33: a run of a plan does what the plan says. Let \<open>answer\<close> be what the executor answers for each
  node. When a run returns a report, the plan has an order; the executor was called once for every node
  whose dependencies all succeed, in that order, and for no other; the report lists, in the order, exactly
  the nodes that succeed, that is, those with an accepted answer whose dependencies succeed; and each of
  them has a task on the board that is done and bears its title.\<close>

theorem run_exact:
  assumes "fresh_ids S (5 * length (pn_nodes p)) b" "\<And>t w. fst (ex t w) = answer (ot_node t)" "\<And>t w. calls (snd (ex t w)) = calls w @ [ot_node t]"
    and "run_with S E X ex p now b w = (Done (Inr report), b', w')"
  shows "\<exists>order. topo_order (plan_graph p) = Some (Inr order) \<and>
    calls w' = calls w @ filter (deps_succeed p (\<lambda>n. good_answer E n (answer (tn_id n)))) order \<and>
    map fst (rr_completed report) = filter (succeeds p (\<lambda>n. good_answer E n (answer (tn_id n)))) order \<and>
    (\<forall>(i, t) \<in> set (rr_completed report). \<exists>n. plan_node p i = Some n \<and> holds_done b' n t)"
proof -
  let ?good = "\<lambda>n. good_answer E n (answer (tn_id n))"
  have "plan_validate p = Done (Inr ())"
    using assms(4) by (auto simp: run_with_def run_nested_with_def split: outcome.splits sum.splits if_splits)
  then obtain order where order: "topo_order (plan_graph p) = Some (Inr order)" "distinct (node_ids (plan_graph p))"
    by (rule plan_validate_ok)
  then obtain result b1 where r: "run_nodes S E X ex p now order [] [] {} b w = (Inr result, b1, w')"
      "rr_completed report = result" "br_tasks b' = br_tasks b1"
    using assms(4) by (auto simp: run_with_def run_nested_with_def plan_topo_def split: outcome.splits sum.splits if_splits prod.splits)
  have "length order = length (pn_nodes p)" by (rule plan_order_length[OF order])
  then have start: "run_inv S (length order) p ?good calls (calls w) [] [] [] {} b w" using assms(1) by (simp add: run_inv_def)
  obtain tasks' broken' where "run_inv S 0 p ?good calls (calls w) order tasks' result broken' b1 w'"
    using run_nodes_inv[OF assms(2,3) refl _ _ _ start r(1)] plan_order[OF order] by auto
  then show ?thesis using order(1) r(2,3) by (auto simp: run_inv_def holds_done_def)
qed

subsection \<open>A run returns\<close>

definition has_worker :: "ext \<Rightarrow> task_node \<Rightarrow> timestamp \<Rightarrow> bridge \<Rightarrow> bool" where
  "has_worker X n now b \<longleftrightarrow> (\<exists>a. node_worker X n now b = Inr a) \<and> \<not> str_blank (tn_title n)"

lemma select_worker_None: "select_worker X r needs now b = None \<longleftrightarrow> filter (eligible X r needs now b) (list_agents b) = []"
  by (simp add: select_worker_def least_candidate_None)

lemma node_worker_ex:
  "(\<exists>a. node_worker X n now b = Inr a) \<longleftrightarrow>
    (case tn_pinned n of Some a \<Rightarrow> liveness_at X a now b = Inr Online | None \<Rightarrow> select_worker X (tn_role n) (tn_caps n) now b \<noteq> None)"
  by (auto simp: node_worker_def split: option.splits)

lemma has_worker_later:
  assumes "later b b'"
  shows "has_worker X n now b' = has_worker X n now b"
proof -
  have live: "liveness_at X a now b' = liveness_at X a now b" for a using assms by (simp add: liveness_at_def later_def split: option.split)
  moreover have "list_agents b' = list_agents b" using assms by (simp add: list_agents_def later_def)
  moreover from live have "eligible X r needs now b' = eligible X r needs now b" for r needs
    by (simp add: fun_eq_iff eligible_def)
  ultimately have "select_worker X r needs now b' = None \<longleftrightarrow> select_worker X r needs now b = None" for r needs
    by (simp add: select_worker_None)
  then show ?thesis using live by (simp add: has_worker_def node_worker_ex split: option.split)
qed

lemma run_nodes_return:
  assumes "\<forall>i \<in> set (pre @ is). plan_node p i \<noteq> None"
    and "\<forall>i n u v. pre @ is = u @ i # v \<longrightarrow> plan_node p i = Some n \<longrightarrow> set (tn_deps n) \<subseteq> set u"
    and "\<forall>i n. plan_node p i = Some n \<longrightarrow> has_worker X n now b" "fresh_ids S (5 * length is) b"
    and "\<forall>i \<in> set pre. i \<in> broken \<or> (\<exists>t n. hm_get tasks i = Some t \<and> holds_done b n t)"
  shows "\<exists>result b' w'. run_nodes S E X ex p now is tasks finished broken b w = (Inr result, b', w')"
  using assms
proof (induction "is" arbitrary: pre tasks finished broken b w)
  case (Cons i "is")
  obtain n where n: "plan_node p i = Some n" using Cons.prems(1) by auto
  have deps: "set (tn_deps n) \<subseteq> set pre" using Cons.prems(2) n by blast
  have next_nodes: "\<forall>j \<in> set ((pre @ [i]) @ is). plan_node p j \<noteq> None" using Cons.prems(1) by simp
  have next_order: "\<forall>j m u v. (pre @ [i]) @ is = u @ j # v \<longrightarrow> plan_node p j = Some m \<longrightarrow> set (tn_deps m) \<subseteq> set u"
    using Cons.prems(2) by simp
  have ids: "fresh_ids S (5 * length is + 5) b" using Cons.prems(4) by (simp add: add.commute)
  note go_on = Cons.IH[where pre = "pre @ [i]", OF next_nodes next_order]
  show ?case
  proof (cases "\<exists>d \<in> set (tn_deps n). d \<in> broken")
    case True
    then show ?thesis using go_on[OF Cons.prems(3) fresh_ids_mono[OF ids], where broken = "insert i broken" and tasks = tasks] Cons.prems(5) n by auto
  next
    case False
    have "\<forall>d \<in> set (tn_deps n). \<exists>t n. hm_get tasks d = Some t \<and> holds_done b n t" using Cons.prems(5) deps False by blast
    then have all_done: "deps_done b tasks i (tn_deps n) = None" by (rule deps_done_None)
    obtain a where a: "node_worker X n now b = Inr a" "\<not> str_blank (tn_title n)" using Cons.prems(3) n by (auto simp: has_worker_def)
    obtain turn ans out b1 w1 where D: "drive_node S E X ex p n now b w = (Inr out, b1, w1)" "fresh_ids S (5 * length is) b1" "later b b1"
        "if good_answer E n ans then \<exists>t. out = NodeCompleted t \<and> holds_done b1 n t else out = NodeFailed"
      using drive_node_result[OF ids a, where ex = ex and w = w and E = E and p = p] by blast
    have workers: "\<forall>j m. plan_node p j = Some m \<longrightarrow> has_worker X m now b1"
      using Cons.prems(3) has_worker_later[OF D(3)] by simp
    have old: "\<forall>j \<in> set pre. j \<in> broken \<or> (\<exists>t n. hm_get tasks j = Some t \<and> holds_done b1 n t)"
      using Cons.prems(5) holds_done_later[OF D(3)] by blast
    show ?thesis
    proof (cases out)
      case (NodeCompleted t)
      then have "holds_done b1 n t" using D(4) by (auto split: if_splits)
      then have "\<forall>j \<in> set (pre @ [i]). j \<in> broken \<or> (\<exists>t' n. hm_get (hm_insert i t tasks) j = Some t' \<and> holds_done b1 n t')"
        using old by auto
      then show ?thesis using go_on[OF workers D(2)] n False all_done D(1) NodeCompleted by simp
    next
      case NodeFailed
      have "\<forall>j \<in> set (pre @ [i]). j \<in> insert i broken \<or> (\<exists>t n. hm_get tasks j = Some t \<and> holds_done b1 n t)"
        using old by auto
      then show ?thesis using go_on[OF workers D(2)] n False all_done D(1) NodeFailed by simp
    qed
  qed
qed simp

text \<open>C34: a run returns a report. If the plan is valid and at the start every node has a worker, its
  pinned one online or some eligible one, and a title, then the run returns a report, whatever the
  executor answers: a failed node never stops it, no dependency is found undone, and no worker is lost
  on the way.\<close>

theorem run_returns:
  assumes "plan_validate p = Done (Inr ())" "\<forall>n \<in> set (pn_nodes p). has_worker X n now b" "fresh_ids S (5 * length (pn_nodes p)) b"
  shows "\<exists>report b' w'. run_with S E X ex p now b w = (Done (Inr report), b', w')"
proof -
  obtain order where order: "topo_order (plan_graph p) = Some (Inr order)" "distinct (node_ids (plan_graph p))"
    using assms(1) by (rule plan_validate_ok)
  have "\<forall>i n. plan_node p i = Some n \<longrightarrow> has_worker X n now b"
    using assms(2) by (auto simp: plan_node_def find_Some_iff)
  then obtain result b' w' where "run_nodes S E X ex p now order [] [] {} b w = (Inr result, b', w')"
    using run_nodes_return[of "[]" order p X now b S "{}" "[]" E ex "[]" w] plan_order[OF order] plan_order_length[OF order] assms(3) by auto
  then show ?thesis using assms(1) order(1)
    by (simp add: run_with_def run_nested_with_def plan_topo_def)
qed

lemma drive_node_accepts:
  "drive_node S E X ex p n now b w = (Inr (NodeCompleted t), b', w') \<Longrightarrow> \<exists>d. accepts E (tn_capability n) d"
  by (auto simp: drive_node_def deliverable_accepted_iff Let_def split: sum.splits prod.splits if_splits)

lemma run_nodes_accept:
  assumes "run_nodes S E X ex p now is tasks finished broken b w = (Inr result, b', w')" "(i, t) \<in> set result"
  shows "(i, t) \<in> set finished \<or> (\<exists>n d. plan_node p i = Some n \<and> accepts E (tn_capability n) d)"
  using assms
proof (induction "is" arbitrary: tasks finished broken b w)
  case (Cons j "is")
  obtain n where n: "plan_node p j = Some n" using Cons.prems(1) by (auto split: option.splits)
  show ?case
  proof (cases "(\<exists>d \<in> set (tn_deps n). d \<in> broken) \<or> (\<exists>b1 w1. drive_node S E X ex p n now b w = (Inr NodeFailed, b1, w1))")
    case True
    then show ?thesis using Cons.IH Cons.prems n by (auto split: option.splits if_splits)
  next
    case False
    then obtain t1 b1 w1 where d: "drive_node S E X ex p n now b w = (Inr (NodeCompleted t1), b1, w1)"
        "run_nodes S E X ex p now is (hm_insert j t1 tasks) (finished @ [(j, t1)]) broken b1 w1 = (Inr result, b', w')"
      using Cons.prems(1) n by (auto split: option.splits prod.splits sum.splits node_outcome.splits)
    then show ?thesis using Cons.IH[OF d(2) Cons.prems(2)] drive_node_accepts[OF d(1)] n by auto
  qed
qed simp

text \<open>A node whose capability takes an input cannot be completed. The deliverable is checked through
  a contract that is proposed with an empty input, so a required field of the input schema refuses every
  result: the node never appears in a report, whatever the executor delivers.\<close>

theorem required_input_never_completes:
  assumes "run_nested_with S E X ex p now depth b w = (Done (Inr report), b', w')"
    and "plan_node p i = Some n" "tn_capability n = Some c" "f \<in> set (cp_input c)" "sf_required f"
  shows "i \<notin> fst ` set (rr_completed report)"
proof
  assume "i \<in> fst ` set (rr_completed report)"
  then obtain t where t: "(i, t) \<in> set (rr_completed report)" by auto
  obtain order b1 where r: "run_nodes S E X ex p now order [] [] {} b w = (Inr (rr_completed report), b1, w')"
    using assms(1) by (auto simp: run_nested_with_def split: outcome.splits sum.splits if_splits prod.splits)
  obtain d where "accepts E (Some c) d"
    using run_nodes_accept[OF r t] assms(2,3) by auto
  then show False using required_input_refused[OF assms(4,5)] by blast
qed

subsection \<open>Examples\<close>

definition sample_source :: source where
  "sample_source = \<lparr>sr_id = (\<lambda>n. of_nat n), sr_now = (\<lambda>n. int n)\<rparr>"

definition sample_bridge :: bridge where
  "sample_bridge = bridge_new\<lparr>br_agents := [(9, (agent_info_new 9 ''ada'' RoleExecutor HostLocal 0)\<lparr>ai_heartbeat := Some 0\<rparr>)]\<rparr>"

definition sample_plan :: "capability option \<Rightarrow> plan" where
  "sample_plan cap = \<lparr>pn_id = ''p'', pn_nodes =
     [(task_node_new ''b'' ''build'' [])\<lparr>tn_deps := [''a'']\<rparr>, (task_node_new ''a'' ''ask'' [])\<lparr>tn_capability := cap\<rparr>]\<rparr>"

definition sample_turn_executor :: "node_id list turn_executor" where
  "sample_turn_executor t w = (Inr \<lparr>dv_from = 9, dv_payload = JObj [], dv_at = 5\<rparr>, w @ [ot_node t])"

lemmas sample_run_simps = sample_source_def sample_bridge_def sample_plan_def sample_turn_executor_def bridge_new_def
  agent_info_new_def task_node_new_def plan_validate_def plan_graph_def plan_topo_def topo_order_def topo_loop.simps node_ids_def
  Let_def plan_node_def

lemma sample_fresh: "fresh_ids sample_source 10 sample_bridge"
proof -
  have small: "unat (of_nat z :: uuid) = z" if "z \<in> {0 ..< 10}" for z :: nat using that by (simp add: unat_of_nat)
  have "inj_on (of_nat :: nat \<Rightarrow> uuid) {0 ..< 10}" by (rule inj_onI) (metis small)
  then show ?thesis by (simp add: fresh_ids_def sample_source_def sample_bridge_def bridge_new_def)
qed

lemma sample_valid: "plan_validate (sample_plan cap) = Done (Inr ())"
  by (simp add: sample_run_simps)

lemma sample_workers: "\<forall>n \<in> set (pn_nodes (sample_plan cap)). has_worker X n 5 sample_bridge"
proof -
  have "\<not> str_blank ''build''" "\<not> str_blank ''ask''" by code_simp+
  then show ?thesis
    by (auto simp: has_worker_def node_worker_ex select_worker_None eligible_def liveness_at_def list_agents_def agent_liveness_def
        sample_run_simps DEFAULT_HEARTBEAT_TIMEOUT_def)
qed

theorem run_returns_witness:
  "\<exists>report b' w'. run_with sample_source sample_env bare_ext sample_turn_executor (sample_plan None) 5 sample_bridge [] = (Done (Inr report), b', w')"
  by (rule run_returns[OF sample_valid sample_workers]) (use sample_fresh in \<open>simp add: sample_plan_def\<close>)

theorem select_worker_best_witness:
  "select_worker bare_ext None [] 5 sample_bridge \<noteq> None"
proof -
  let ?a = "(agent_info_new 9 ''ada'' RoleExecutor HostLocal 0)\<lparr>ai_heartbeat := Some 0\<rparr>"
  have "keyed ai_id (br_agents sample_bridge)" by (auto simp: keyed_def sample_run_simps split: if_splits)
  moreover have "?a \<in> ran (hm_get (br_agents sample_bridge))" by (rule ranI[of _ 9]) (simp add: sample_bridge_def)
  moreover have "eligible bare_ext None [] 5 sample_bridge ?a"
    by (simp add: eligible_def liveness_at_def agent_liveness_def sample_run_simps DEFAULT_HEARTBEAT_TIMEOUT_def)
  ultimately show ?thesis using select_worker_best[of sample_bridge bare_ext None "[]" 5]
    by (cases "select_worker bare_ext None [] 5 sample_bridge") auto
qed

definition sample_capability_in :: capability where
  "sample_capability_in = capability_new 1 ''draft'' [required_field ''topic'' FieldStr] []"

text \<open>Runs of the plan: both nodes are done, \<open>a\<close> first; and with a capability that takes an input, none.\<close>

lemma sample_plan_runs:
  "case run_with sample_source sample_env bare_ext sample_turn_executor (sample_plan None) 5 sample_bridge [] of
     (Done (Inr r), b, w) \<Rightarrow> map fst (rr_completed r) = [''a'', ''b''] \<and> w = [''a'', ''b''] | _ \<Rightarrow> False"
  "case run_with sample_source sample_env bare_ext sample_turn_executor (sample_plan (Some sample_capability_in)) 5 sample_bridge [] of
     (Done (Inr r), b, w) \<Rightarrow> rr_completed r = [] \<and> w = [''a''] | _ \<Rightarrow> False"
  by code_simp+

definition sample_answer :: "node_id \<Rightarrow> core_error + deliverable" where
  "sample_answer i = Inr \<lparr>dv_from = 9, dv_payload = JObj [], dv_at = 5\<rparr>"

theorem run_exact_witness:
  "\<exists>report b' w'. run_with sample_source sample_env bare_ext sample_turn_executor (sample_plan None) 5 sample_bridge [] = (Done (Inr report), b', w') \<and>
     map fst (rr_completed report) = filter (succeeds (sample_plan None) (\<lambda>n. good_answer sample_env n (sample_answer (tn_id n)))) [''a'', ''b'']"
proof -
  obtain report b' w' where r: "run_with sample_source sample_env bare_ext sample_turn_executor (sample_plan None) 5 sample_bridge [] = (Done (Inr report), b', w')"
    using sample_plan_runs(1) by (auto split: prod.splits outcome.splits sum.splits)
  have "topo_order (plan_graph (sample_plan None)) = Some (Inr [''a'', ''b''])" by (simp add: sample_run_simps)
  moreover have "fresh_ids sample_source (5 * length (pn_nodes (sample_plan None))) sample_bridge"
    using sample_fresh by (simp add: sample_plan_def)
  ultimately show ?thesis
    using run_exact[of sample_source "sample_plan None" sample_bridge sample_turn_executor sample_answer "\<lambda>w. w", OF _ _ _ r] r
    by (auto simp: sample_turn_executor_def sample_answer_def)
qed

theorem required_input_never_completes_witness:
  "\<exists>report b' w'. run_with sample_source sample_env bare_ext sample_turn_executor (sample_plan (Some sample_capability_in)) 5 sample_bridge [] =
     (Done (Inr report), b', w') \<and> ''a'' \<notin> fst ` set (rr_completed report)"
proof -
  obtain report b' w' where r: "run_with sample_source sample_env bare_ext sample_turn_executor (sample_plan (Some sample_capability_in)) 5 sample_bridge [] =
      (Done (Inr report), b', w')"
    using sample_plan_runs(2) by (auto split: prod.splits outcome.splits sum.splits)
  have "''a'' \<notin> fst ` set (rr_completed report)"
    by (rule required_input_never_completes[OF r[unfolded run_with_def], where c = sample_capability_in
          and n = "(task_node_new ''a'' ''ask'' [])\<lparr>tn_capability := Some sample_capability_in\<rparr>" and f = "required_field ''topic'' FieldStr"])
      (simp_all add: sample_run_simps sample_capability_in_def capability_new_def required_field_def)
  then show ?thesis using r by blast
qed

end
