(* ===== verification/Chat.thy ===== *)
theory Chat
  imports Llm_Error Json_Members
begin

section \<open>Messages, tool calls and tool definitions\<close>

text \<open>
  Models the data of \<^verbatim>\<open>crates/familyclaw-agent/src/llm.rs\<close>: the messages of a conversation, the
  calls a model asks for, the tools it is offered, and how they are written as JSON and read back. A
  struct is read from an object of its fields. \<^verbatim>\<open>serde_json\<close>'s printer and parser of JSON texts are
  the parameter \<open>json_text\<close>. Strings are their UTF-8 bytes.
\<close>

record json_text =
  jt_print :: "json \<Rightarrow> string"           \<comment> \<open>\<^verbatim>\<open>serde_json::to_string\<close> of a value\<close>
  jt_parse :: "string \<Rightarrow> string + json"   \<comment> \<open>\<^verbatim>\<open>serde_json::from_str\<close>\<close>

text \<open>What is relied on: a printed value is not blank and is read back.\<close>

definition reads_back :: "json_text \<Rightarrow> bool" where
  "reads_back T \<longleftrightarrow> (\<forall>v. trim (jt_print T v) \<noteq> [] \<and> jt_parse T (jt_print T v) = Inr v)"

subsection \<open>Tool calls\<close>

record tool_call =
  tl_id :: string
  tl_name :: string
  tl_args :: json

text \<open>The arguments are sent as the text of a JSON value; a model may answer with the value itself.\<close>

definition arguments_value :: "json_text \<Rightarrow> json \<Rightarrow> string + json" where
  "arguments_value T v =
     (case v of
        JStr s \<Rightarrow> if trim s = [] then Inr (JObj []) else jt_parse T s
      | _ \<Rightarrow> Inr v)"

definition tool_call_json :: "json_text \<Rightarrow> tool_call \<Rightarrow> json" where
  "tool_call_json T c =
     json_object [(''id'', JStr (tl_id c)), (''type'', JStr ''function''),
       (''function'', json_object [(''name'', JStr (tl_name c)), (''arguments'', JStr (jt_print T (tl_args c)))])]"

definition missing_field :: "string \<Rightarrow> string" where
  "missing_field k = ''missing field '' @ [CHR 0x60] @ k @ [CHR 0x60]"

definition invalid_type :: string where
  "invalid_type = ''invalid type''"

definition string_field :: "string \<Rightarrow> json \<Rightarrow> string + string" where
  "string_field k v =
     (case json_get k v of Some (JStr s) \<Rightarrow> Inr s | None \<Rightarrow> Inl (missing_field k) | Some _ \<Rightarrow> Inl invalid_type)"

text \<open>An \<^verbatim>\<open>Option\<close>: absent and null are none.\<close>

definition option_field :: "(json \<Rightarrow> string + 'a) \<Rightarrow> string \<Rightarrow> json \<Rightarrow> string + 'a option" where
  "option_field dec k v =
     (case json_get k v of
        None \<Rightarrow> Inr None
      | Some JNull \<Rightarrow> Inr None
      | Some x \<Rightarrow> (case dec x of Inl e \<Rightarrow> Inl e | Inr y \<Rightarrow> Inr (Some y)))"

definition text_value :: "json \<Rightarrow> string + string" where
  "text_value v = (case v of JStr s \<Rightarrow> Inr s | _ \<Rightarrow> Inl invalid_type)"

fun decode_all :: "(json \<Rightarrow> string + 'a) \<Rightarrow> json list \<Rightarrow> string + 'a list" where
  "decode_all dec [] = Inr []"
| "decode_all dec (x # xs) =
     (case dec x of
        Inl e \<Rightarrow> Inl e
      | Inr y \<Rightarrow> (case decode_all dec xs of Inl e \<Rightarrow> Inl e | Inr ys \<Rightarrow> Inr (y # ys)))"

definition list_value :: "(json \<Rightarrow> string + 'a) \<Rightarrow> json \<Rightarrow> string + 'a list" where
  "list_value dec v = (case v of JArr xs \<Rightarrow> decode_all dec xs | _ \<Rightarrow> Inl invalid_type)"

text \<open>The kind is ignored, but must be a string where it is given.\<close>

definition tool_call_of_json :: "json_text \<Rightarrow> json \<Rightarrow> string + tool_call" where
  "tool_call_of_json T v =
     (case string_field ''id'' v of
        Inl e \<Rightarrow> Inl e
      | Inr i \<Rightarrow>
          (case (case json_get ''type'' v of None \<Rightarrow> Inr [] | Some k \<Rightarrow> text_value k) of
             Inl e \<Rightarrow> Inl e
           | Inr _ \<Rightarrow>
               (case json_get ''function'' v of
                  None \<Rightarrow> Inl (missing_field ''function'')
                | Some f \<Rightarrow>
                    (case string_field ''name'' f of
                       Inl e \<Rightarrow> Inl e
                     | Inr name \<Rightarrow>
                         (case json_get ''arguments'' f of
                            None \<Rightarrow> Inl (missing_field ''arguments'')
                          | Some a \<Rightarrow>
                              (case arguments_value T a of
                                 Inl e \<Rightarrow> Inl e
                               | Inr args \<Rightarrow> Inr \<lparr>tl_id = i, tl_name = name, tl_args = args\<rparr>))))))"

lemma tool_call_roundtrip:
  "reads_back T \<Longrightarrow> tool_call_of_json T (tool_call_json T c) = Inr c"
  by (simp add: tool_call_of_json_def tool_call_json_def string_field_def json_object_get text_value_def
      arguments_value_def reads_back_def)

subsection \<open>Messages\<close>

datatype llm_role = RoleSystem | RoleUser | RoleAssistant | RoleTool

fun role_word :: "llm_role \<Rightarrow> string" where
  "role_word RoleSystem = ''system''"
| "role_word RoleUser = ''user''"
| "role_word RoleAssistant = ''assistant''"
| "role_word RoleTool = ''tool''"

definition role_of_word :: "string \<Rightarrow> string + llm_role" where
  "role_of_word s =
     (if s = ''system'' then Inr RoleSystem
      else if s = ''user'' then Inr RoleUser
      else if s = ''assistant'' then Inr RoleAssistant
      else if s = ''tool'' then Inr RoleTool
      else Inl (''unknown variant '' @ [CHR 0x60] @ s @ [CHR 0x60]))"

lemma role_roundtrip [simp]: "role_of_word (role_word r) = Inr r"
  by (cases r) (simp_all add: role_of_word_def)

record image_ref =
  ir_url :: string

definition from_base64 :: "string \<Rightarrow> string \<Rightarrow> image_ref" where
  "from_base64 mime_type data = \<lparr>ir_url = ''data:'' @ mime_type @ '';base64,'' @ data\<rparr>"

record llm_message =
  lm_role :: llm_role
  lm_content :: string
  lm_call_id :: "string option"
  lm_calls :: "tool_call list option"
  lm_images :: "image_ref list option"

definition plain_message :: "llm_role \<Rightarrow> string \<Rightarrow> llm_message" where
  "plain_message r s = \<lparr>lm_role = r, lm_content = s, lm_call_id = None, lm_calls = None, lm_images = None\<rparr>"

definition system_message :: "string \<Rightarrow> llm_message" where
  "system_message s = plain_message RoleSystem s"

definition user_message :: "string \<Rightarrow> llm_message" where
  "user_message s = plain_message RoleUser s"

definition assistant_message :: "string \<Rightarrow> llm_message" where
  "assistant_message s = plain_message RoleAssistant s"

definition tool_result :: "string \<Rightarrow> string \<Rightarrow> llm_message" where
  "tool_result i s = (plain_message RoleTool s)\<lparr>lm_call_id := Some i\<rparr>"

definition with_tool_calls :: "tool_call list \<Rightarrow> llm_message \<Rightarrow> llm_message" where
  "with_tool_calls calls m = m\<lparr>lm_calls := Some calls\<rparr>"

definition with_images :: "image_ref list \<Rightarrow> llm_message \<Rightarrow> llm_message" where
  "with_images images m = m\<lparr>lm_images := (if images = [] then None else Some images)\<rparr>"

definition has_tool_calls :: "llm_message \<Rightarrow> bool" where
  "has_tool_calls m = (case lm_calls m of None \<Rightarrow> False | Some c \<Rightarrow> c \<noteq> [])"

definition has_images :: "llm_message \<Rightarrow> bool" where
  "has_images m = (case lm_images m of None \<Rightarrow> False | Some i \<Rightarrow> i \<noteq> [])"

lemmas message_defs = plain_message_def system_message_def user_message_def assistant_message_def
  tool_result_def with_tool_calls_def

subsection \<open>Messages as JSON\<close>

text \<open>Content is a text, or with images a list of parts, where an empty text has no part.\<close>

definition text_part :: "string \<Rightarrow> json" where
  "text_part s = json_object [(''type'', JStr ''text''), (''text'', JStr s)]"

definition image_part :: "image_ref \<Rightarrow> json" where
  "image_part i = json_object [(''type'', JStr ''image_url''), (''image_url'', json_object [(''url'', JStr (ir_url i))])]"

definition content_json :: "llm_message \<Rightarrow> json" where
  "content_json m =
     (case lm_images m of
        Some (i # is) \<Rightarrow>
          JArr ((if lm_content m = [] then [] else [text_part (lm_content m)]) @ map image_part (i # is))
      | _ \<Rightarrow> JStr (lm_content m))"

definition optional_member :: "string \<Rightarrow> json option \<Rightarrow> (string \<times> json) list" where
  "optional_member k v = (case v of None \<Rightarrow> [] | Some x \<Rightarrow> [(k, x)])"

definition message_json :: "json_text \<Rightarrow> llm_message \<Rightarrow> json" where
  "message_json T m =
     json_object ([(''role'', JStr (role_word (lm_role m))), (''content'', content_json m)] @
       optional_member ''tool_call_id'' (map_option JStr (lm_call_id m)) @
       optional_member ''tool_calls'' (map_option (\<lambda>cs. JArr (map (tool_call_json T) cs)) (lm_calls m)))"

text \<open>A part is read by its tag.\<close>

definition content_part :: "json \<Rightarrow> string + (string + image_ref)" where
  "content_part v =
     (case string_field ''type'' v of
        Inl e \<Rightarrow> Inl e
      | Inr t \<Rightarrow>
          if t = ''text'' then (case string_field ''text'' v of Inl e \<Rightarrow> Inl e | Inr s \<Rightarrow> Inr (Inl s))
          else if t = ''image_url'' then
            (case json_get ''image_url'' v of
               None \<Rightarrow> Inl (missing_field ''image_url'')
             | Some u \<Rightarrow> (case string_field ''url'' u of Inl e \<Rightarrow> Inl e | Inr s \<Rightarrow> Inr (Inr \<lparr>ir_url = s\<rparr>)))
          else Inl (''unknown variant '' @ [CHR 0x60] @ t @ [CHR 0x60]))"

definition texts :: "(string + 'a) list \<Rightarrow> string" where
  "texts parts = concat (map (\<lambda>p. case p of Inl s \<Rightarrow> s | Inr _ \<Rightarrow> []) parts)"

definition images :: "(string + 'a) list \<Rightarrow> 'a list" where
  "images parts = List.map_filter (\<lambda>p. case p of Inl _ \<Rightarrow> None | Inr i \<Rightarrow> Some i) parts"

definition no_variant :: string where
  "no_variant = ''data did not match any variant of untagged enum ContentWireOwned''"

definition content_of_json :: "json \<Rightarrow> string + (string \<times> image_ref list option)" where
  "content_of_json v =
     (case v of
        JStr s \<Rightarrow> Inr (s, None)
      | JArr xs \<Rightarrow>
          (case decode_all content_part xs of
             Inl _ \<Rightarrow> Inl no_variant
           | Inr parts \<Rightarrow> Inr (texts parts, if images parts = [] then None else Some (images parts)))
      | _ \<Rightarrow> Inl no_variant)"

definition message_of_json :: "json_text \<Rightarrow> json \<Rightarrow> string + llm_message" where
  "message_of_json T v =
     (case string_field ''role'' v of
        Inl e \<Rightarrow> Inl e
      | Inr w \<Rightarrow>
          (case role_of_word w of
             Inl e \<Rightarrow> Inl e
           | Inr r \<Rightarrow>
               (case json_get ''content'' v of
                  None \<Rightarrow> Inl (missing_field ''content'')
                | Some c \<Rightarrow>
                    (case content_of_json c of
                       Inl e \<Rightarrow> Inl e
                     | Inr (s, imgs) \<Rightarrow>
                         (case option_field text_value ''tool_call_id'' v of
                            Inl e \<Rightarrow> Inl e
                          | Inr i \<Rightarrow>
                              (case option_field (list_value (tool_call_of_json T)) ''tool_calls'' v of
                                 Inl e \<Rightarrow> Inl e
                               | Inr calls \<Rightarrow>
                                   Inr \<lparr>lm_role = r, lm_content = s, lm_call_id = i, lm_calls = calls,
                                        lm_images = imgs\<rparr>))))))"

lemma decode_all_map: "(\<And>x. x \<in> set xs \<Longrightarrow> dec (enc x) = Inr x) \<Longrightarrow> decode_all dec (map enc xs) = Inr xs"
  by (induction xs) auto

lemma decode_all_append:
  "decode_all dec (xs @ ys) =
     (case decode_all dec xs of
        Inl e \<Rightarrow> Inl e
      | Inr a \<Rightarrow> (case decode_all dec ys of Inl e \<Rightarrow> Inl e | Inr b \<Rightarrow> Inr (a @ b)))"
  by (induction xs) (auto split: sum.splits)

lemma decode_images: "decode_all content_part (map image_part is) = Inr (map Inr is)"
  by (induction "is") (simp_all add: content_part_def image_part_def string_field_def json_object_get)

lemma parts_simps:
  "texts [] = []" "texts (Inl s # ps) = s @ texts ps" "texts (Inr i # ps) = texts ps"
  "images [] = []" "images (Inl s # ps) = images ps" "images (Inr i # ps) = i # images ps"
  by (simp_all add: texts_def images_def)

lemma parts_images: "texts (map Inr imgs) = []" "images (map Inr imgs) = imgs"
  by (induction imgs) (simp_all add: parts_simps)

lemma content_roundtrip:
  assumes "lm_images m \<noteq> Some []"
  shows "content_of_json (content_json m) = Inr (lm_content m, lm_images m)"
proof (cases "lm_images m")
  case (Some imgs)
  then obtain j js where e: "imgs = j # js" using assms by (cases imgs) auto
  have t: "content_part (text_part s) = Inr (Inl s)" for s
    by (simp add: content_part_def text_part_def string_field_def json_object_get)
  have d: "decode_all content_part (image_part j # map image_part js) = Inr (Inr j # map Inr js)"
    using decode_images[of "j # js"] by simp
  show ?thesis
    using Some e t d by (simp add: content_of_json_def content_json_def parts_simps parts_images)
qed (simp add: content_of_json_def content_json_def)

subsection \<open>Tool definitions\<close>

record tool_definition =
  tdf_name :: string
  tdf_description :: string
  tdf_schema :: json

fun json_is_object :: "json \<Rightarrow> bool" where
  "json_is_object (JObj _) = True"
| "json_is_object _ = False"

definition tool_name_ok :: "string \<Rightarrow> bool" where
  "tool_name_ok n \<longleftrightarrow> n \<noteq> [] \<and> length n \<le> 64 \<and> list_all (\<lambda>b. is_alnum b \<or> b = CHR ''_'' \<or> b = CHR ''-'') n"

definition validate_tool :: "tool_definition \<Rightarrow> llm_error + unit" where
  "validate_tool d =
     (if \<not> tool_name_ok (tdf_name d)
      then Inl (InvalidTool (''tool name '' @ debug_str (tdf_name d) @ '' must match ^[A-Za-z0-9_-]{1,64}$''))
      else if \<not> json_is_object (tdf_schema d)
      then Inl (InvalidTool (''tool '' @ debug_str (tdf_name d) @ '' input_schema root must be a JSON object''))
      else Inr ())"

definition tool_envelope :: "tool_definition \<Rightarrow> json" where
  "tool_envelope d =
     json_object [(''type'', JStr ''function''),
       (''function'', json_object [(''name'', JStr (tdf_name d)), (''description'', JStr (tdf_description d)),
          (''parameters'', tdf_schema d)])]"

subsection \<open>Completions\<close>

record completion =
  cp_content :: "string option"
  cp_calls :: "tool_call list option"

definition cp_text :: "completion \<Rightarrow> string" where
  "cp_text r = (case cp_content r of None \<Rightarrow> [] | Some s \<Rightarrow> s)"

definition cp_has_calls :: "completion \<Rightarrow> bool" where
  "cp_has_calls r = (case cp_calls r of None \<Rightarrow> False | Some c \<Rightarrow> c \<noteq> [])"

end
