(* ===== verification/Turn_Parts.thy ===== *)
theory Turn_Parts
  imports Chat Contract Facade
begin

section \<open>Parts of an agent's turn\<close>

text \<open>
  Models \<^verbatim>\<open>crates/familyclaw-agent/src/grounding.rs\<close> and the helpers of the tool loop in
  \<^verbatim>\<open>crates/familyclaw-agent/src/agent/helpers.rs\<close>. Unicode lower-casing is the parameter \<open>lower\<close>.
\<close>

subsection \<open>Grounding (grounding.rs)\<close>

text \<open>\<^verbatim>\<open>str::split_whitespace().count()\<close>; \<open>inside\<close> tells whether a word has begun.\<close>

function count_words :: "bool \<Rightarrow> nat list \<Rightarrow> nat" where
  "count_words inside s =
     (if s = [] then 0
      else if ws_prefix s \<noteq> 0 then count_words False (drop (ws_prefix s) s)
      else (if inside then 0 else 1) + count_words True (tl s))"
  by pat_completeness auto
termination by (relation "measure (length \<circ> snd)") (auto simp: neq_Nil_conv)

declare count_words.simps [simp del]

definition ACTION_QUERIES :: "string list" where
  "ACTION_QUERIES = [''toimitko?'', ''toimitko'', ''toimit?'', ''status'', ''raportti'', ''report'', ''working?'',
     ''are you working'']"

definition ACTION_NEEDLES :: "string list" where
  "ACTION_NEEDLES = [''tee '', ''kirjoita'', ''lue '', ''read '', ''write '', ''tutki'', ''research'', ''web_search'',
     ''file_write'', ''fs_read'', ''top 20'', ''top20'', ''memory'', ''muisti'', ''korjaa'', ''fix '', ''deploy'',
     ''analysoi'', ''analyze'']"

definition looks_like_action_request :: "(string \<Rightarrow> string) \<Rightarrow> string \<Rightarrow> bool" where
  "looks_like_action_request lower query =
     (let q = lower (trim query) in
      if q = [] \<or> 512 < length q then False
      else if count_words False (map of_char q) \<le> 2
      then q \<in> set ACTION_QUERIES \<or> str_contains q ''toimitko'' \<or> str_contains q (''pystytk'' @ oe) \<or>
        str_contains q ''pystyt nyt''
      else list_ex (str_contains q) ACTION_NEEDLES)"

definition warning_sign :: string where
  "warning_sign = map char_of [0xE2, 0x9A, 0xA0 :: nat]"

definition check_mark :: string where
  "check_mark = map char_of [0xE2, 0x9C, 0x85 :: nat]"

definition CLAIM_MARKERS :: "string list" where
  "CLAIM_MARKERS = [''done:'', check_mark, ''kirjoitin'', ''tallensin'', ''luotu'', ''generated'', ''updated:'',
     ''p'' @ ae @ ''ivitetty'', ''evidence:'', ''todiste:'', ''auto-updated'', ''functional'', ''operational'',
     ''fs_read_allowlisted'', ''file_write_allowlisted'', ''hyperframes'', ''agent_ledger'', ''hermes'', ''cron'']"

definition backslash :: char where
  "backslash = CHR 0x5C"

definition response_claims_tool_use :: "(string \<Rightarrow> string) \<Rightarrow> string \<Rightarrow> bool" where
  "response_claims_tool_use lower s =
     (let l = lower s in
      if str_contains l warning_sign \<and> str_contains l ''vahvistamaton'' then False
      else if \<not> list_ex (str_contains l) CLAIM_MARKERS then False
      else str_contains l ('':'' @ [backslash]) \<or> str_contains l ''e:/'' \<or> str_contains l (''e:'' @ [backslash, backslash]))"

definition unverified_notice :: string where
  "unverified_notice =
     [nl, nl] @ warning_sign @ '' **Vahvistamaton:** T'' @ ae @ ''ss'' @ ae @ '' vuorossa ei ajettu yht'' @ ae @ ae @
     ''n ty'' @ oe @ ''kalua (dispatch=0). Yll'' @ ae @ '' olevat teko-v'' @ ae @ ''itteet eiv'' @ ae @
     ''t ole journal-todistettuja.''"

definition apply_grounding_guard :: "(string \<Rightarrow> string) \<Rightarrow> string \<Rightarrow> nat \<Rightarrow> string" where
  "apply_grounding_guard lower answer dispatch_count =
     (if 0 < dispatch_count \<or> \<not> response_claims_tool_use lower answer then answer else answer @ unverified_notice)"

definition MEMORY_CLAIMS :: "string list" where
  "MEMORY_CLAIMS = [''agent_ledger'', ''hyperframes_integration'', ''research_log.json'', ''hermes cron'',
     ''hermes-cron'', ''auto-updated with research'', ''build execution'', ''operator status report'',
     ''executing full agent harness'']"

definition memory_is_unverified_tool_claim :: "(string \<Rightarrow> string) \<Rightarrow> string \<Rightarrow> bool" where
  "memory_is_unverified_tool_claim lower s = list_ex (str_contains (lower s)) MEMORY_CLAIMS"

subsection \<open>Texts for the model and the user (helpers.rs)\<close>

definition recovery_fallback_reply :: string where
  "recovery_fallback_reply =
     ''Anteeksi '' @ emdash @ '' en saanut viety'' @ ae @ '' pyynt'' @ oe @ oe @ '' loppuun (ty'' @ oe @
     ''kalu ep'' @ ae @ ''onnistui tai turvaraja t'' @ ae @ ''yttyi). Yrit'' @ ae @ '' uudelleen tai kerro tarkemmin mit'' @
     ae @ '' tarvitset.''"

definition LLM_CLASS_TAG_PREFIX :: string where
  "LLM_CLASS_TAG_PREFIX = ''llmclass:''"

definition tag_llm_error :: "llm_error \<Rightarrow> string" where
  "tag_llm_error e =
     LLM_CLASS_TAG_PREFIX @ class_word (class_of_error e) @ ''|'' @ redacted_status_line e @ ''|'' @ show_llm_error e"

text \<open>The class and the status line; \<^verbatim>\<open>splitn(3, '|')\<close> leaves the rest unsplit.\<close>

definition parse_llm_class_tag :: "string \<Rightarrow> (string \<times> string) option" where
  "parse_llm_class_tag msg =
     (case strip_prefix LLM_CLASS_TAG_PREFIX msg of
        None \<Rightarrow> None
      | Some rest \<Rightarrow>
          (case split_on (\<lambda>c. c = CHR ''|'') rest of c # l # _ \<Rightarrow> Some (c, l) | _ \<Rightarrow> None))"

definition recovery_fallback_reply_for_error :: "core_error \<Rightarrow> string" where
  "recovery_fallback_reply_for_error e =
     (case e of
        LlmErr msg \<Rightarrow>
          (case parse_llm_class_tag msg of
             None \<Rightarrow> recovery_fallback_reply
           | Some (c, line) \<Rightarrow>
               if c = class_word ClassProviderNotFound
               then ''LLM-palveluihin ei saatu yhteytt'' @ ae @ '' (viimeisin virhe: '' @ line @ '' '' @ emdash @
                 '' malli on mahdollisesti poistettu). Tarkista FAMILYCLAW_PROVIDER_MODEL / provider-konfiguraatio.''
               else ''Anteeksi '' @ emdash @ '' en saanut viety'' @ ae @ '' pyynt'' @ oe @ oe @
                 '' loppuun (LLM-palveluvirhe: '' @ line @ ''). Yrit'' @ ae @
                 '' hetken kuluttua uudelleen tai tarkista provider-konfiguraatio.'')
      | _ \<Rightarrow> recovery_fallback_reply)"

definition tool_progress_label :: "string \<Rightarrow> string" where
  "tool_progress_label n =
     (if str_contains n ''file_write'' then ''Writing files''
      else if str_contains n ''file_patch'' then ''Applying patch''
      else if str_contains n ''fs_read'' then ''Reading files''
      else if str_contains n ''web_search'' \<or> str_contains n ''research'' then ''Searching the web''
      else if str_contains n ''web_fetch'' then ''Fetching a page''
      else if str_contains n ''github'' then ''Working with GitHub''
      else if str_contains n ''email'' \<or> str_contains n ''discord'' then ''Calling an integration''
      else ''Running a tool'')"

definition suspended_approval_user_reply :: "ext \<Rightarrow> approval_id \<Rightarrow> string \<Rightarrow> string" where
  "suspended_approval_user_reply X i summary =
     (let u = show_uuid X i; tick = [CHR 0x60] in
      ''BLOCKED (hyv'' @ ae @ ''ksynt'' @ ae @ ''): '' @ summary @ [nl] @ ''ID: '' @ tick @ u @ tick @ [nl] @
      ''Operaattori Discordissa: '' @ tick @ ''APPROVE '' @ u @ tick @ '' tai '' @ tick @ ''DENY '' @ u @ tick @ [nl] @
      ''Tai gateway: POST /approvals/'' @ u @ ''/approve'')"

definition format_tool_failure_for_model :: "string \<Rightarrow> string \<Rightarrow> string" where
  "format_tool_failure_for_model tool e =
     ''SYSTEM: Your previous action '' @ sq @ tool @ sq @ '' failed with error: '' @ e @
     ''. Acknowledge this failure to the user, explain what went wrong in plain language, '' @
     ''and suggest a corrected approach. Do not silently stop.''"

definition RECOVERY_REQUEST :: string where
  "RECOVERY_REQUEST =
     ''SYSTEM: Your previous tool calls failed or the turn hit the iteration limit. '' @
     ''Reply to the user in plain language: acknowledge the failure, summarize errors '' @
     ''from the tool results above, and suggest next steps. Do not call more tools.''"

definition build_message_stack :: "string \<Rightarrow> llm_message list \<Rightarrow> string \<Rightarrow> llm_message list" where
  "build_message_stack system_prompt history query =
     [system_message system_prompt] @ history @ [user_message query]"

definition build_tool_definitions :: "mcp_descriptor list \<Rightarrow> tool_definition list" where
  "build_tool_definitions ds =
     List.map_filter (\<lambda>d.
       let def = \<lparr>tdf_name = td_name d, tdf_description = td_description d, tdf_schema = td_schema d\<rparr>
       in case validate_tool def of Inr _ \<Rightarrow> Some def | Inl _ \<Rightarrow> None) ds"

definition redact_call :: "tool_call \<Rightarrow> tool_call" where
  "redact_call c = c\<lparr>tl_args := fst (redact_value_deep (tl_args c))\<rparr>"

definition redact_messages_for_resume :: "llm_message list \<Rightarrow> llm_message list" where
  "redact_messages_for_resume ms =
     map (\<lambda>m. m\<lparr>lm_content := fst (redact_free_text (lm_content m)),
              lm_calls := map_option (map redact_call) (lm_calls m)\<rparr>) ms"

definition tool_result_text_for ::
  "json_text \<Rightarrow> ('p, 'o, 'w) runtime \<Rightarrow> task_id \<Rightarrow> task_status \<Rightarrow> string" where
  "tool_result_text_for T rt i status =
     (case rt_proof rt i of
        Some b \<Rightarrow>
          (if status = Failed then ''FAILED: '' else []) @ ''status='' @ show_status status @ ''; '' @ pb_summary b @
          ''; output='' @ jt_print T (pb_output b)
      | None \<Rightarrow>
          if status = Failed
          then ''FAILED: status='' @ show_status status @ ''; action did not succeed (no proof bundle)''
          else ''status='' @ show_status status @ ''; no proof produced'')"

subsection \<open>Records of dispatches (helpers.rs)\<close>

record dispatch_record =
  dr_task :: task_id
  dr_status :: task_status
  dr_pending :: "approval_id option"
  dr_error :: "string option"

definition from_outcome :: "action_error + submit_outcome \<Rightarrow> dispatch_record" where
  "from_outcome r =
     (case r of
        Inr o1 \<Rightarrow> \<lparr>dr_task = so_task o1, dr_status = so_status o1, dr_pending = so_pending o1, dr_error = None\<rparr>
      | Inl e \<Rightarrow> \<lparr>dr_task = nil_id, dr_status = Failed, dr_pending = None, dr_error = Some (show_error e)\<rparr>)"

subsection \<open>Progress (helpers.rs)\<close>

text \<open>Instants are milliseconds of the monotonic clock.\<close>

record progress_gate =
  pg_sent :: nat
  pg_last :: "int option"

definition MAX_PROGRESS_PER_TURN :: nat where
  "MAX_PROGRESS_PER_TURN = 5"

definition PROGRESS_MIN_INTERVAL :: int where
  "PROGRESS_MIN_INTERVAL = 4000"

definition gate_new :: progress_gate where
  "gate_new = \<lparr>pg_sent = 0, pg_last = None\<rparr>"

definition gate_allow :: "int \<Rightarrow> progress_gate \<Rightarrow> bool" where
  "gate_allow now g \<longleftrightarrow>
     pg_sent g < MAX_PROGRESS_PER_TURN \<and>
     (case pg_last g of None \<Rightarrow> True | Some t \<Rightarrow> \<not> now - t < PROGRESS_MIN_INTERVAL)"

definition gate_record :: "int \<Rightarrow> progress_gate \<Rightarrow> progress_gate" where
  "gate_record now g = \<lparr>pg_sent = pg_sent g + 1, pg_last = Some now\<rparr>"

definition TOOL_BUDGET_PER_NAME :: nat where
  "TOOL_BUDGET_PER_NAME = 8"

definition TOOL_BUDGET_FS_READ :: nat where
  "TOOL_BUDGET_FS_READ = 16"

text \<open>\<^verbatim>\<open>str::parse::<u32>\<close> of an environment variable, with its default.\<close>

definition parse_u32 :: "string \<Rightarrow> nat option" where
  "parse_u32 s = (case parse_u64 s of None \<Rightarrow> None | Some v \<Rightarrow> if v < 2 ^ 32 then Some v else None)"

definition env_u32 :: "nat \<Rightarrow> string option \<Rightarrow> nat" where
  "env_u32 d env =
     (case env of None \<Rightarrow> d | Some v \<Rightarrow> (case parse_u32 v of None \<Rightarrow> d | Some n \<Rightarrow> n))"

definition tool_budget_per_name :: "string option \<Rightarrow> nat" where
  "tool_budget_per_name env = env_u32 TOOL_BUDGET_PER_NAME env"

definition tool_budget_fs_read :: "string option \<Rightarrow> nat" where
  "tool_budget_fs_read env = env_u32 TOOL_BUDGET_FS_READ env"

subsection \<open>What the guard gives\<close>

text \<open>What is relied on of lower-casing: line ends, blanks and asterisks separate, and the words of the notice are kept.\<close>

definition lower_ok :: "(string \<Rightarrow> string) \<Rightarrow> bool" where
  "lower_ok lower \<longleftrightarrow>
     (\<forall>a b c. c \<in> {nl, CHR '' '', CHR ''*''} \<longrightarrow> lower (a @ c # b) = lower a @ c # lower b) \<and>
     lower warning_sign = warning_sign \<and> lower ''Vahvistamaton:'' = ''vahvistamaton:''"

lemma str_contains_append: "str_contains (a @ p @ b) p"
proof -
  have "str_find p (a @ p @ b) \<noteq> None"
  proof (induction a)
    case Nil
    show ?case using starts_with_append[of p b] by (cases "p @ b") auto
  qed auto
  then show ?thesis by (simp add: str_contains_def)
qed

lemma notice_silences:
  assumes "lower_ok lower"
  shows "\<not> response_claims_tool_use lower (a @ unverified_notice)"
proof -
  note sep = assms[unfolded lower_ok_def, THEN conjunct1, rule_format]
  note word = assms[unfolded lower_ok_def, THEN conjunct2]
  define x5 where "x5 = drop (9 + length ''Vahvistamaton:'') unverified_notice"
  define x4 where "x4 = ''Vahvistamaton:'' @ CHR ''*'' # x5"
  define x3 where "x3 = [] @ CHR ''*'' # x4"
  define x2 where "x2 = [] @ CHR ''*'' # x3"
  define x1 where "x1 = warning_sign @ CHR '' '' # x2"
  have n: "a @ unverified_notice = (a @ [nl]) @ nl # x1"
    by (simp add: unverified_notice_def x1_def x2_def x3_def x4_def x5_def nl_def warning_sign_def)
  have s: "lower x4 = ''vahvistamaton:'' @ CHR ''*'' # lower x5" "lower x3 = lower [] @ CHR ''*'' # lower x4"
    "lower x2 = lower [] @ CHR ''*'' # lower x3" "lower x1 = warning_sign @ CHR '' '' # lower x2"
    unfolding x4_def x3_def x2_def x1_def by (simp_all only: sep insert_iff word simp_thms)
  have l: "lower (a @ unverified_notice) = lower (a @ [nl]) @ nl # warning_sign @ CHR '' '' # lower [] @ CHR ''*'' #
      lower [] @ CHR ''*'' # ''vahvistamaton:'' @ CHR ''*'' # lower x5"
    unfolding n by (simp only: sep insert_iff simp_thms s)
  have "str_contains (lower (a @ unverified_notice)) warning_sign"
    using str_contains_append[of "lower (a @ [nl]) @ [nl]" warning_sign] unfolding l by simp
  moreover have "str_contains (lower (a @ unverified_notice)) ''vahvistamaton''"
    using str_contains_append[of "lower (a @ [nl]) @ nl # warning_sign @ CHR '' '' # lower [] @ CHR ''*'' # lower [] @ [CHR ''*'']"
        "''vahvistamaton''"] unfolding l by simp
  ultimately show ?thesis by (simp add: response_claims_tool_use_def Let_def)
qed

lemma guard_grounds:
  "lower_ok lower \<Longrightarrow> \<not> response_claims_tool_use lower (apply_grounding_guard lower a 0)"
  by (simp add: apply_grounding_guard_def notice_silences)

end
