(* ===== verification/Turn_Loop.thy ===== *)
theory Turn_Loop
  imports Turn_Parts Context Failover
begin

section \<open>The tool loop\<close>

text \<open>
  Models \<^verbatim>\<open>drive_tool_loop_durable\<close> of \<^verbatim>\<open>crates/familyclaw-agent/src/agent/turn.rs\<close>, the tool loop of a
  turn, which journals every answer of the model and every dispatch. The state joins the chain of models with its part of the outside world, the action runtime,
  the durable context, and what the loop reports: audit events, counted dispatches, progress messages.
  The runtime's lock is free whenever the loop takes it. The counters are natural numbers; only the
  dispatch count saturates.
\<close>

text \<open>The clients of one endpoint, and the clock (\<^verbatim>\<open>LlmClient\<close>); \<open>'n\<close> is the world they act on.\<close>

record 'n models =
  md_chat :: "llm_config \<Rightarrow> llm_message list \<Rightarrow> tool_definition list \<Rightarrow> string option \<Rightarrow> 'n \<Rightarrow> (llm_error + completion) \<times> 'n"
  md_text :: "llm_config \<Rightarrow> llm_message list \<Rightarrow> 'n \<Rightarrow> (llm_error + string) \<times> 'n"
  md_now :: "'n \<Rightarrow> timestamp"

text \<open>Encoders of a step's result: the \<^verbatim>\<open>serde\<close> forms of a dispatch record.\<close>

record 'a step_codec =
  sc_enc :: "'a \<Rightarrow> string + json"
  sc_dec :: "json \<Rightarrow> string + 'a"

record ('p, 'o, 'j, 'n) turn_config =
  tc_rt :: "('p, 'o) rt_config"
  tc_journal :: "'j journal_trait"
  tc_models :: "'n models"
  tc_json :: json_text
  tc_record :: "dispatch_record step_codec"
  tc_lower :: "string \<Rightarrow> string"
  tc_being :: string
  tc_audit :: bool              \<comment> \<open>an audit collector is installed\<close>
  tc_metrics :: bool            \<comment> \<open>a metric sink is installed\<close>
  tc_target :: "string option"  \<comment> \<open>where progress goes\<close>
  tc_per_name :: nat
  tc_fs_read :: nat

record turn_args =
  ta_turn :: nat
  ta_base :: nat
  ta_now :: timestamp
  ta_id :: action_id
  ta_query :: string

text \<open>What the machine does: clocks, faults and fresh identifiers, by round, by dispatch and by event.\<close>

record turn_env =
  te_llm :: "nat \<Rightarrow> row_env"
  te_call :: "nat \<Rightarrow> call_env"
  te_row :: "nat \<Rightarrow> row_env"
  te_instant :: "nat \<Rightarrow> int \<times> int"
  te_event :: "nat \<Rightarrow> event_id"

record ('p, 'o, 'w, 'j, 'n) turn_state =
  tu_llm :: failover
  tu_net :: 'n
  tu_rt :: "('p, 'o, 'w) runtime"
  tu_ctx :: "'j durable_context"
  tu_audit :: audit_collector
  tu_metrics :: nat
  tu_progress :: "(string \<times> string) list"

type_synonym ('s, 'a) turn_act = "'s \<Rightarrow> (core_error + 'a) outcome \<times> 's"

definition turn_ret :: "'a \<Rightarrow> ('s, 'a) turn_act" where
  "turn_ret x s = (Done (Inr x), s)"

definition turn_throw :: "core_error \<Rightarrow> ('s, 'a) turn_act" where
  "turn_throw e s = (Done (Inl e), s)"

definition turn_then :: "('s, 'a) turn_act \<Rightarrow> ('a \<Rightarrow> ('s, 'b) turn_act) \<Rightarrow> ('s, 'b) turn_act" where
  "turn_then m f s =
     (case m s of
        (Done (Inr x), s') \<Rightarrow> f x s'
      | (Done (Inl e), s') \<Rightarrow> (Done (Inl e), s')
      | (Killed, s') \<Rightarrow> (Killed, s'))"

datatype loop_outcome =
    Answer string
  | AwaitingApproval string approval_id string "llm_message list" string json
      \<comment> \<open>tool, approval, redacted summary, messages, tool call id, arguments\<close>
  | MaxIterations nat

record loop_vars =
  lo_messages :: "llm_message list"
  lo_last :: string
  lo_index :: nat
  lo_count :: nat
  lo_uses :: "(string, nat) hashmap"
  lo_reads :: nat
  lo_label :: "string option"
  lo_gate :: progress_gate

definition loop_start :: "llm_message list \<Rightarrow> string \<Rightarrow> nat \<Rightarrow> loop_vars" where
  "loop_start messages last_text base =
     \<lparr>lo_messages = messages, lo_last = last_text, lo_index = base, lo_count = 0, lo_uses = [], lo_reads = 0,
      lo_label = None, lo_gate = gate_new\<rparr>"

definition push :: "llm_message \<Rightarrow> loop_vars \<Rightarrow> loop_vars" where
  "push m lo = lo\<lparr>lo_messages := lo_messages lo @ [m]\<rparr>"

subsection \<open>Reports\<close>

definition record_turn_audit_into ::
  "bool \<Rightarrow> turn_env \<Rightarrow> action_id \<Rightarrow> audit_kind \<Rightarrow> timestamp \<Rightarrow> string \<Rightarrow>
   ('p, 'o, 'w, 'j, 'n) turn_state \<Rightarrow> ('p, 'o, 'w, 'j, 'n) turn_state" where
  "record_turn_audit_into installed E i kind at detail s =
     (if installed
      then s\<lparr>tu_audit := snd (collector_record (tu_audit s)
               (exec_event_new (te_event E (length (tu_audit s))) kind i at (fst (redact_free_text detail))))\<rparr>
      else s)"

definition emit_tool ::
  "bool \<Rightarrow> bool \<Rightarrow> ('p, 'o, 'w, 'j, 'n) turn_state \<Rightarrow> ('p, 'o, 'w, 'j, 'n) turn_state" where
  "emit_tool sink replaying s = (if \<not> replaying \<and> sink then s\<lparr>tu_metrics := tu_metrics s + 1\<rparr> else s)"

definition tool_note ::
  "('p, 'o, 'j, 'n) turn_config \<Rightarrow> turn_args \<Rightarrow> turn_env \<Rightarrow> string \<Rightarrow>
   ('p, 'o, 'w, 'j, 'n) turn_state \<Rightarrow> ('p, 'o, 'w, 'j, 'n) turn_state" where
  "tool_note C A E detail = record_turn_audit_into (tc_audit C) E (ta_id A) ToolDispatched (ta_now A) detail"

definition progress_body :: "nat \<Rightarrow> string \<Rightarrow> string" where
  "progress_body k label =
     map char_of [0xE2, 0x86, 0xB3 :: nat] @ '' Step '' @ show_nat k @ '' '' @ map char_of [0xC2, 0xB7 :: nat] @ '' '' @ label"

text \<open>\<^verbatim>\<open>OutboundMessage::progress\<close> refuses a blank target; the body is never empty here.\<close>

definition emit_progress ::
  "('p, 'o, 'j, 'n) turn_config \<Rightarrow> turn_env \<Rightarrow> bool \<Rightarrow> string \<Rightarrow> loop_vars \<Rightarrow>
   ('p, 'o, 'w, 'j, 'n) turn_state \<Rightarrow> loop_vars \<times> ('p, 'o, 'w, 'j, 'n) turn_state" where
  "emit_progress C E replaying tool lo s =
     (case tc_target C of
        None \<Rightarrow> (lo, s)
      | Some target \<Rightarrow>
          (let label = tool_progress_label tool; k = lo_index lo; t = te_instant E k in
           if replaying \<or> lo_label lo = Some label \<or> \<not> gate_allow (fst t) (lo_gate lo) then (lo, s)
           else if str_blank target then (lo\<lparr>lo_label := Some label\<rparr>, s)
           else (lo\<lparr>lo_label := Some label, lo_gate := gate_record (snd t) (lo_gate lo)\<rparr>,
                 s\<lparr>tu_progress := tu_progress s @ [(target, progress_body k label)]\<rparr>)))"

subsection \<open>Asking the model\<close>

definition ask_tools ::
  "('p, 'o, 'j, 'n) turn_config \<Rightarrow> llm_message list \<Rightarrow> tool_definition list \<Rightarrow> string option \<Rightarrow>
   (('p, 'o, 'w, 'j, 'n) turn_state, completion) turn_act" where
  "ask_tools C messages tools choice s =
     (case complete_with_tools_choice (rc_ext (tc_rt C))
             \<lparr>lp_call = (\<lambda>c. md_chat (tc_models C) c messages tools choice), lp_now = md_now (tc_models C)\<rparr>
             (tu_llm s) (tu_net s) of
        (r, st, n) \<Rightarrow>
          (case r of
             Killed \<Rightarrow> Killed
           | Done (Inl e) \<Rightarrow> Done (Inl (LlmErr (tag_llm_error e)))
           | Done (Inr x) \<Rightarrow> Done (Inr x),
           s\<lparr>tu_llm := st, tu_net := n\<rparr>))"

definition recover_user_visible_reply ::
  "('p, 'o, 'j, 'n) turn_config \<Rightarrow> llm_message list \<Rightarrow> (('p, 'o, 'w, 'j, 'n) turn_state, string option) turn_act" where
  "recover_user_visible_reply C messages s =
     (case complete_text (rc_ext (tc_rt C))
             \<lparr>lp_call = (\<lambda>c. md_text (tc_models C) c (messages @ [user_message RECOVERY_REQUEST])),
              lp_now = md_now (tc_models C)\<rparr> (tu_llm s) (tu_net s) of
        (r, st, n) \<Rightarrow>
          (case r of
             Killed \<Rightarrow> Killed
           | Done (Inr t) \<Rightarrow> Done (Inr (if str_blank t then None else Some t))
           | Done (Inl e) \<Rightarrow> Done (Inr None),
           s\<lparr>tu_llm := st, tu_net := n\<rparr>))"

text \<open>Tools are read from the runtime before every call.\<close>

definition offered :: "('p, 'o, 'w, 'j, 'n) turn_state \<Rightarrow> tool_definition list" where
  "offered s = build_tool_definitions (tool_definitions (tu_rt s))"

subsection \<open>Steps of the durable context\<close>

definition durable_step ::
  "('p, 'o, 'j, 'n) turn_config \<Rightarrow> string \<Rightarrow> ('a \<Rightarrow> string + json) \<Rightarrow> (json \<Rightarrow> string + 'a) \<Rightarrow> row_env \<Rightarrow> string \<Rightarrow>
   (string + 'a) \<Rightarrow> (('p, 'o, 'w, 'j, 'n) turn_state, 'a) turn_act" where
  "durable_step C what tv fv row name value s =
     (case step (tc_journal C) tv fv (snd row) (fst row) name (\<lambda>w. (value, w)) (tu_ctx s) () of
        (r, c, _) \<Rightarrow>
          (case r of
             Killed \<Rightarrow> Killed
           | Done (Inl e) \<Rightarrow> Done (Inl (BusErr (what @ show_durable_error e)))
           | Done (Inr x) \<Rightarrow> Done (Inr x),
           s\<lparr>tu_ctx := c\<rparr>))"

text \<open>The journaled form of an answer: a pair, as \<^verbatim>\<open>serde\<close> writes tuples.\<close>

type_synonym projection = "string option \<times> tool_call list option"

definition or_null :: "json option \<Rightarrow> json" where
  "or_null v = (case v of None \<Rightarrow> JNull | Some x \<Rightarrow> x)"

definition projection_json :: "json_text \<Rightarrow> projection \<Rightarrow> string + json" where
  "projection_json T p =
     Inr (JArr [or_null (map_option JStr (fst p)), or_null (map_option (\<lambda>cs. JArr (map (tool_call_json T) cs)) (snd p))])"

definition nullable :: "(json \<Rightarrow> string + 'a) \<Rightarrow> json \<Rightarrow> string + 'a option" where
  "nullable dec v =
     (case v of JNull \<Rightarrow> Inr None | _ \<Rightarrow> (case dec v of Inl e \<Rightarrow> Inl e | Inr x \<Rightarrow> Inr (Some x)))"

definition projection_of_json :: "json_text \<Rightarrow> json \<Rightarrow> string + projection" where
  "projection_of_json T v =
     (case v of
        JArr [a, b] \<Rightarrow>
          (case nullable text_value a of
             Inl e \<Rightarrow> Inl e
           | Inr c \<Rightarrow>
               (case nullable (list_value (tool_call_of_json T)) b of Inl e \<Rightarrow> Inl e | Inr calls \<Rightarrow> Inr (c, calls)))
      | _ \<Rightarrow> Inl invalid_type)"

lemma projection_roundtrip:
  assumes "reads_back T"
  shows "\<exists>v. projection_json T p = Inr v \<and> projection_of_json T v = Inr p"
proof -
  have "decode_all (tool_call_of_json T) (map (tool_call_json T) cs) = Inr cs" for cs
    using assms by (simp add: decode_all_map tool_call_roundtrip)
  then show ?thesis
    by (cases p; cases "fst p"; cases "snd p")
      (auto simp: projection_json_def projection_of_json_def or_null_def nullable_def text_value_def list_value_def)
qed

definition llm_step_name :: "nat \<Rightarrow> nat \<Rightarrow> string" where
  "llm_step_name turn iteration = ''turn-'' @ show_nat turn @ ''-llm-'' @ show_nat iteration"

definition dispatch_step_name :: "nat \<Rightarrow> nat \<Rightarrow> string" where
  "dispatch_step_name turn k = ''turn-'' @ show_nat turn @ ''-dispatch-'' @ show_nat k"

definition no_calls :: "tool_call list option \<Rightarrow> bool" where
  "no_calls calls \<longleftrightarrow> (case calls of None \<Rightarrow> True | Some cs \<Rightarrow> cs = [])"

text \<open>The model's answer of a round: from the journal, or asked for (twice, when a request for action got
  no tool call in the first round) and journaled.\<close>

definition fresh_answer ::
  "('p, 'o, 'j, 'n) turn_config \<Rightarrow> turn_args \<Rightarrow> nat \<Rightarrow> loop_vars \<Rightarrow>
   (('p, 'o, 'w, 'j, 'n) turn_state, projection) turn_act" where
  "fresh_answer C A iteration lo s =
     (let tools = offered s in
      turn_then (ask_tools C (lo_messages lo) tools None) (\<lambda>r.
        if no_calls (cp_calls r) \<and> iteration = 0 \<and> lo_index lo = ta_base A \<and> tools \<noteq> [] \<and>
           looks_like_action_request (tc_lower C) (ta_query A)
        then turn_then (ask_tools C (lo_messages lo) tools (Some ''required'')) (\<lambda>r2.
               turn_ret (cp_content r2, cp_calls r2))
        else turn_ret (cp_content r, cp_calls r)) s)"

definition model_answer ::
  "('p, 'o, 'j, 'n) turn_config \<Rightarrow> turn_args \<Rightarrow> turn_env \<Rightarrow> nat \<Rightarrow> loop_vars \<Rightarrow>
   (('p, 'o, 'w, 'j, 'n) turn_state, projection) turn_act" where
  "model_answer C A E iteration lo s =
     (let name = llm_step_name (ta_turn A) iteration; T = tc_json C;
          journaled = (\<lambda>what. durable_step C what (projection_json T) (projection_of_json T) (te_llm E iteration) name)
      in if is_replaying (tu_ctx s)
         then journaled ''durable llm replay failed: '' (Inl ''unreachable: replay returns journaled LLM result'') s
         else turn_then (fresh_answer C A iteration lo) (\<lambda>p.
                turn_then (journaled ''durable llm step failed: '' (Inr p)) (\<lambda>_. turn_ret p)) s)"

subsection \<open>One tool call\<close>

definition BUDGET_EXCEEDED :: string where
  "BUDGET_EXCEEDED = ''SYSTEM: Tool budget exceeded for this turn. Reply to the operator now with your best answer '' @
     emdash @ '' do not call more tools.''"

definition count_use :: "string \<Rightarrow> loop_vars \<Rightarrow> loop_vars" where
  "count_use name lo =
     lo\<lparr>lo_uses := hm_insert name ((case hm_get (lo_uses lo) name of None \<Rightarrow> 0 | Some n \<Rightarrow> n) + 1) (lo_uses lo),
        lo_reads := (if str_contains name ''fs_read'' then lo_reads lo + 1 else lo_reads lo)\<rparr>"

definition uses :: "string \<Rightarrow> loop_vars \<Rightarrow> nat" where
  "uses name lo = (case hm_get (lo_uses lo) name of None \<Rightarrow> 0 | Some n \<Rightarrow> n)"

definition over_budget :: "('p, 'o, 'j, 'n) turn_config \<Rightarrow> string \<Rightarrow> loop_vars \<Rightarrow> bool" where
  "over_budget C name lo \<longleftrightarrow>
     tc_per_name C < uses name lo \<or> (str_contains name ''fs_read'' \<and> tc_fs_read C < lo_reads lo)"

text \<open>A step on the runtime whose error the loop looks at; a panic ends the turn.\<close>

definition on_runtime ::
  "(('p, 'o, 'w) runtime, 'a) act \<Rightarrow> (('p, 'o, 'w, 'j, 'n) turn_state, action_error + 'a) turn_act" where
  "on_runtime m s =
     (case m (tu_rt s) of
        (Done r, rt) \<Rightarrow> (Done (Inr r), s\<lparr>tu_rt := rt\<rparr>)
      | (Killed, rt) \<Rightarrow> (Killed, s\<lparr>tu_rt := rt\<rparr>))"

definition unreachable_record :: dispatch_record where
  "unreachable_record = \<lparr>dr_task = nil_id, dr_status = Failed, dr_pending = None,
     dr_error = Some ''unreachable: replay returns journaled value''\<rparr>"

text \<open>The record of dispatch \<open>k\<close>: from the journal, or of a keyed submission, journaled after it.\<close>

definition dispatch_tool ::
  "('p, 'o, 'j, 'n) turn_config \<Rightarrow> turn_args \<Rightarrow> turn_env \<Rightarrow> nat \<Rightarrow> skill_id \<Rightarrow> json \<Rightarrow>
   (('p, 'o, 'w, 'j, 'n) turn_state, dispatch_record) turn_act" where
  "dispatch_tool C A E k skill args s =
     (let name = dispatch_step_name (ta_turn A) k; K = tc_record C;
          journaled = (\<lambda>what x. durable_step C what (sc_enc K) (sc_dec K) (te_row E k) name (Inr x))
      in if is_replaying (tu_ctx s) then journaled ''durable dispatch replay failed: '' unreachable_record s
         else turn_then (on_runtime (submit_task_idempotent (tc_rt C) (te_call E k) name (tc_being C) skill args (ta_now A)))
                (\<lambda>outcome. journaled ''durable dispatch step failed: '' (from_outcome outcome)) s)"

definition awaiting_text :: "string \<Rightarrow> string" where
  "awaiting_text tool = ''tool '' @ sq @ tool @ sq @ '' awaiting human approval''"

definition sat_u32 :: "nat \<Rightarrow> nat" where
  "sat_u32 n = min (2 ^ 32 - 1) (n + 1)"

text \<open>What a dispatched call leads to: an error or a result for the model, or a wait for approval.\<close>

definition settle_dispatch ::
  "('p, 'o, 'j, 'n) turn_config \<Rightarrow> turn_args \<Rightarrow> turn_env \<Rightarrow> bool \<Rightarrow> tool_call \<Rightarrow> loop_vars \<Rightarrow> dispatch_record \<Rightarrow>
   (('p, 'o, 'w, 'j, 'n) turn_state, (loop_outcome \<times> nat) + loop_vars) turn_act" where
  "settle_dispatch C A E replaying call lo d s =
     (let quoted = ''tool '' @ sq @ tl_name call @ sq; met = emit_tool (tc_metrics C) replaying s in
      case dr_error d of
        Some e \<Rightarrow>
          turn_ret (Inr (push (tool_result (tl_id call) (format_tool_failure_for_model (tl_name call) e)) lo))
            (tool_note C A E (quoted @ '' dispatched: failed: '' @ e) met)
      | None \<Rightarrow>
          (case dr_pending d of
             Some i \<Rightarrow>
               (let summary = (case pending_summary_for (tc_rt C) (tu_rt s) i of
                                 Some x \<Rightarrow> x | None \<Rightarrow> awaiting_text (tl_name call))
                in turn_ret (Inl (AwaitingApproval (tl_name call) i summary (lo_messages lo) (tl_id call) (tl_args call),
                                  lo_count lo))
                     (tool_note C A E (quoted @ '' dispatched: awaiting approval ('' @ summary @ '')'') met))
           | None \<Rightarrow>
               (let out = tool_result_text_for (tc_json C) (tu_rt s) (dr_task d) (dr_status d)
                in turn_ret (Inr (push (tool_result (tl_id call) out) (lo\<lparr>lo_count := sat_u32 (lo_count lo)\<rparr>)))
                     (tool_note C A E (quoted @ '' dispatched: '' @ out) met))))"

definition run_call ::
  "('p, 'o, 'j, 'n) turn_config \<Rightarrow> turn_args \<Rightarrow> turn_env \<Rightarrow> tool_call \<Rightarrow> loop_vars \<Rightarrow>
   (('p, 'o, 'w, 'j, 'n) turn_state, (loop_outcome \<times> nat) + loop_vars) turn_act" where
  "run_call C A E call lo0 s =
     (let name = tl_name call; lo = count_use name lo0; quoted = ''tool '' @ sq @ name @ sq;
          met = emit_tool (tc_metrics C) (is_replaying (tu_ctx s)) s
      in if over_budget C name lo
         then turn_ret (Inr (push (tool_result (tl_id call) BUDGET_EXCEEDED) lo))
                (tool_note C A E (quoted @ '' skipped: per-turn budget exceeded'') met)
         else case map_name_to_skill name (tu_rt s) of
                None \<Rightarrow>
                  turn_ret (Inr (push (tool_result (tl_id call) (''error: unknown '' @ quoted)) lo))
                    (tool_note C A E (quoted @ '' dispatched: unknown tool'') met)
              | Some skill \<Rightarrow>
                  (let k = lo_index lo; replaying = is_replaying (tu_ctx s) in
                   case emit_progress C E replaying name (lo\<lparr>lo_index := k + 1\<rparr>) s of
                     (lo1, s1) \<Rightarrow>
                       turn_then (dispatch_tool C A E k skill (tl_args call)) (settle_dispatch C A E replaying call lo1) s1))"

fun run_calls ::
  "('p, 'o, 'j, 'n) turn_config \<Rightarrow> turn_args \<Rightarrow> turn_env \<Rightarrow> tool_call list \<Rightarrow> loop_vars \<Rightarrow>
   (('p, 'o, 'w, 'j, 'n) turn_state, (loop_outcome \<times> nat) + loop_vars) turn_act" where
  "run_calls C A E [] lo = turn_ret (Inr lo)"
| "run_calls C A E (call # calls) lo =
     turn_then (run_call C A E call lo) (\<lambda>r. case r of Inl out \<Rightarrow> turn_ret (Inl out) | Inr lo' \<Rightarrow> run_calls C A E calls lo')"

subsection \<open>The rounds\<close>

definition guarded :: "('p, 'o, 'j, 'n) turn_config \<Rightarrow> string \<Rightarrow> nat \<Rightarrow> loop_outcome \<times> nat" where
  "guarded C answer n = (Answer (apply_grounding_guard (tc_lower C) answer n), n)"

text \<open>After the last round.\<close>

definition rounds_over ::
  "('p, 'o, 'j, 'n) turn_config \<Rightarrow> nat \<Rightarrow> loop_vars \<Rightarrow> (('p, 'o, 'w, 'j, 'n) turn_state, loop_outcome \<times> nat) turn_act" where
  "rounds_over C budget lo =
     (if lo_last lo = []
      then turn_then (recover_user_visible_reply C (lo_messages lo)) (\<lambda>recovered.
             turn_ret (case recovered of
                         Some t \<Rightarrow> guarded C t (lo_count lo) | None \<Rightarrow> (MaxIterations budget, lo_count lo)))
      else turn_ret (guarded C (lo_last lo) (lo_count lo)))"

text \<open>An answer without calls ends the turn (\<open>Inl\<close>); calls are appended to the messages and run.\<close>

definition hear :: "projection \<Rightarrow> loop_vars \<Rightarrow> loop_vars" where
  "hear p lo = (case fst p of Some (c # cs) \<Rightarrow> lo\<lparr>lo_last := c # cs\<rparr> | _ \<Rightarrow> lo)"

definition said :: "projection \<Rightarrow> loop_vars \<Rightarrow> string" where
  "said p lo = (case fst p of Some (c # cs) \<Rightarrow> c # cs | _ \<Rightarrow> lo_last lo)"

definition assistant_turn :: "projection \<Rightarrow> tool_call list \<Rightarrow> llm_message" where
  "assistant_turn p calls = with_tool_calls calls (assistant_message (case fst p of None \<Rightarrow> [] | Some c \<Rightarrow> c))"

fun rounds ::
  "('p, 'o, 'j, 'n) turn_config \<Rightarrow> turn_args \<Rightarrow> turn_env \<Rightarrow> nat \<Rightarrow> nat \<Rightarrow> loop_vars \<Rightarrow>
   (('p, 'o, 'w, 'j, 'n) turn_state, loop_outcome \<times> nat) turn_act" where
  "rounds C A E budget 0 lo = rounds_over C budget lo"
| "rounds C A E budget (Suc left) lo =
     turn_then (model_answer C A E (budget - Suc left) lo) (\<lambda>p.
       let lo1 = hear p lo in
       case snd p of
         Some (call # calls) \<Rightarrow>
           turn_then (run_calls C A E (call # calls) (push (assistant_turn p (call # calls)) lo1)) (\<lambda>r.
             case r of Inl out \<Rightarrow> turn_ret out | Inr lo2 \<Rightarrow> rounds C A E budget left lo2)
       | _ \<Rightarrow> turn_ret (guarded C (said p lo1) (lo_count lo1)))"

definition drive_tool_loop_durable ::
  "('p, 'o, 'j, 'n) turn_config \<Rightarrow> turn_args \<Rightarrow> turn_env \<Rightarrow> nat \<Rightarrow> llm_message list \<Rightarrow> string \<Rightarrow>
   (('p, 'o, 'w, 'j, 'n) turn_state, loop_outcome \<times> nat) turn_act" where
  "drive_tool_loop_durable C A E budget messages last_text =
     rounds C A E budget budget (loop_start messages last_text (ta_base A))"

end
