(* ===== verification/Resumable.thy ===== *)
theory Resumable
  imports Chat Pending_Store
begin

section \<open>Turns that wait\<close>

text \<open>
  Models the turn of \<^verbatim>\<open>crates/familyclaw-agent/src/resumable.rs\<close>, what is kept of a turn that waits for an
  approval, with the store trait and the store in memory. The store's contract is the locale
  \<open>resumable_store\<close>.
\<close>

record message_origin =
  og_channel :: string
  og_conversation :: string
  og_sender :: string

definition origin_new :: "string \<Rightarrow> string \<Rightarrow> string \<Rightarrow> message_origin" where
  "origin_new channel conversation sender =
     \<lparr>og_channel = channel, og_conversation = conversation, og_sender = sender\<rparr>"

definition reply_target :: "message_origin \<Rightarrow> string" where
  "reply_target og = og_conversation og"

datatype resumable_error =
    RzJournal string
  | RzSerde string
  | RzNotFound approval_id
  | RzExpired approval_id

fun show_resumable_error :: "ext \<Rightarrow> resumable_error \<Rightarrow> string" where
  "show_resumable_error X (RzJournal m) = ''resumable journal error: '' @ m"
| "show_resumable_error X (RzSerde m) = ''resumable serde error: '' @ m"
| "show_resumable_error X (RzNotFound i) = ''resumable turn not found for approval '' @ show_uuid X i"
| "show_resumable_error X (RzExpired i) = ''resumable turn expired for approval '' @ show_uuid X i"

record resumable_turn =
  rz_approval :: approval_id
  rz_being :: string
  rz_origin :: "message_origin option"
  rz_messages :: "llm_message list"
  rz_call :: string
  rz_tool :: string
  rz_hash :: string
  rz_summary :: string
  rz_created :: timestamp
  rz_expires :: timestamp
  rz_policy :: string
  rz_audit :: "string list"
  rz_turn :: nat
  rz_cursor :: nat

text \<open>The arguments are only hashed; what cannot be serialized is hashed as no bytes.\<close>

definition resumable_new ::
  "ext \<Rightarrow> approval_id \<Rightarrow> string \<Rightarrow> message_origin option \<Rightarrow> llm_message list \<Rightarrow> string \<Rightarrow> string \<Rightarrow> json \<Rightarrow> string \<Rightarrow>
   timestamp \<Rightarrow> timestamp \<Rightarrow> resumable_turn" where
  "resumable_new X i being origin messages call tool args summary created expires =
     \<lparr>rz_approval = i, rz_being = being, rz_origin = origin, rz_messages = messages, rz_call = call, rz_tool = tool,
      rz_hash = sha256_hex X (case json_bytes X args of Inl _ \<Rightarrow> [] | Inr bytes \<Rightarrow> bytes), rz_summary = summary,
      rz_created = created, rz_expires = expires, rz_policy = [], rz_audit = [], rz_turn = 0, rz_cursor = 0\<rparr>"

definition with_policy_snapshot :: "string \<Rightarrow> resumable_turn \<Rightarrow> resumable_turn" where
  "with_policy_snapshot snapshot t = t\<lparr>rz_policy := snapshot\<rparr>"

definition with_audit_ids :: "string list \<Rightarrow> resumable_turn \<Rightarrow> resumable_turn" where
  "with_audit_ids ids t = t\<lparr>rz_audit := ids\<rparr>"

definition with_durable_position :: "nat \<Rightarrow> nat \<Rightarrow> resumable_turn \<Rightarrow> resumable_turn" where
  "with_durable_position turn pos t = t\<lparr>rz_turn := turn, rz_cursor := pos\<rparr>"

definition rz_expired :: "timestamp \<Rightarrow> resumable_turn \<Rightarrow> bool" where
  "rz_expired now t \<longleftrightarrow> rz_expires t < now"

subsection \<open>The store\<close>

record 'r resumable_trait =
  rs_put :: "store_env \<Rightarrow> 'r \<Rightarrow> resumable_turn \<Rightarrow> (resumable_error + unit) outcome \<times> 'r"
  rs_get :: "'r \<Rightarrow> approval_id \<Rightarrow> resumable_error + resumable_turn option"
  rs_remove :: "store_env \<Rightarrow> 'r \<Rightarrow> approval_id \<Rightarrow> (resumable_error + resumable_turn option) outcome \<times> 'r"
  rs_len :: "'r \<Rightarrow> resumable_error + nat"
  rs_evict :: "store_env \<Rightarrow> 'r \<Rightarrow> timestamp \<Rightarrow> (resumable_error + nat) outcome \<times> 'r"

definition rs_is_empty :: "'r resumable_trait \<Rightarrow> 'r \<Rightarrow> resumable_error + bool" where
  "rs_is_empty S s = (case rs_len S s of Inl e \<Rightarrow> Inl e | Inr n \<Rightarrow> Inr (n = 0))"

type_synonym mem_resumable = "(approval_id, resumable_turn) hashmap"

definition mr_put ::
  "store_env \<Rightarrow> mem_resumable \<Rightarrow> resumable_turn \<Rightarrow> (resumable_error + unit) outcome \<times> mem_resumable" where
  "mr_put env m t = (Done (Inr ()), hm_insert (rz_approval t) t m)"

definition mr_get :: "mem_resumable \<Rightarrow> approval_id \<Rightarrow> resumable_error + resumable_turn option" where
  "mr_get m i = Inr (hm_get m i)"

definition mr_remove ::
  "store_env \<Rightarrow> mem_resumable \<Rightarrow> approval_id \<Rightarrow> (resumable_error + resumable_turn option) outcome \<times> mem_resumable" where
  "mr_remove env m i = (Done (Inr (hm_get m i)), hm_remove i m)"

definition mr_len :: "mem_resumable \<Rightarrow> resumable_error + nat" where
  "mr_len m = Inr (length m)"

definition mr_evict ::
  "store_env \<Rightarrow> mem_resumable \<Rightarrow> timestamp \<Rightarrow> (resumable_error + nat) outcome \<times> mem_resumable" where
  "mr_evict env m now =
     (let m' = hm_retain (\<lambda>t. \<not> rz_expired now t) m in (Done (Inr (length m - length m')), m'))"

definition mem_resumable_store :: "mem_resumable resumable_trait" where
  "mem_resumable_store =
     \<lparr>rs_put = mr_put, rs_get = mr_get, rs_remove = mr_remove, rs_len = mr_len, rs_evict = mr_evict\<rparr>"

lemma mem_resumable_sel [simp]:
  "rs_put mem_resumable_store = mr_put" "rs_get mem_resumable_store = mr_get"
  "rs_remove mem_resumable_store = mr_remove" "rs_len mem_resumable_store = mr_len"
  "rs_evict mem_resumable_store = mr_evict"
  by (simp_all add: mem_resumable_store_def)

subsection \<open>The contract\<close>

text \<open>
  \<open>rmap\<close> is the map a state holds, \<open>fits\<close> the turns the store can write so that they are read back,
  \<open>usable\<close> the environments after which a store that reported success can be used further. A turn
  reported as stored is found, and an operation that failed or died leaves a store that opens with the
  old contents or the new ones.
\<close>

locale resumable_store =
  fixes S :: "'r resumable_trait"
    and rmap :: "'r \<Rightarrow> approval_id \<Rightarrow> resumable_turn option"
    and rinv :: "'r \<Rightarrow> bool"
    and fits :: "resumable_turn \<Rightarrow> bool"
    and usable :: "store_env \<Rightarrow> bool"
  assumes get_turn: "rinv s \<Longrightarrow> rs_get S s i = Inr (rmap s i)"
    and put_turn: "rinv s \<Longrightarrow> usable env \<Longrightarrow> fits t \<Longrightarrow> rs_put S env s t = (Done (Inr ()), s') \<Longrightarrow>
      rinv s' \<and> rmap s' = (rmap s)(rz_approval t \<mapsto> t)"
    and remove_turn: "rinv s \<Longrightarrow> usable env \<Longrightarrow> rs_remove S env s i = (Done (Inr x), s') \<Longrightarrow>
      rinv s' \<and> x = rmap s i \<and> rmap s' = (rmap s)(i := None)"
begin

lemma put_get:
  "rinv s \<Longrightarrow> usable env \<Longrightarrow> fits t \<Longrightarrow> rs_put S env s t = (Done (Inr ()), s') \<Longrightarrow>
     rs_get S s' (rz_approval t) = Inr (Some t)"
  using put_turn get_turn by auto

lemma remove_get: "rinv s \<Longrightarrow> usable env \<Longrightarrow> rs_remove S env s i = (Done (Inr x), s') \<Longrightarrow> rs_get S s' i = Inr None"
  using remove_turn get_turn by auto

end

locale crash_resumable_store = resumable_store S rmap rinv fits usable
  for S :: "'r resumable_trait"
    and rmap :: "'r \<Rightarrow> approval_id \<Rightarrow> resumable_turn option"
    and rinv :: "'r \<Rightarrow> bool"
    and fits :: "resumable_turn \<Rightarrow> bool"
    and usable :: "store_env \<Rightarrow> bool" +
  fixes reopen :: "'r \<Rightarrow> resumable_error + 'r"
  assumes put_crash: "rinv s \<Longrightarrow> usable env \<Longrightarrow> fits t \<Longrightarrow> rs_put S env s t = (res, s') \<Longrightarrow>
      \<exists>s2. reopen s' = Inr s2 \<and> rinv s2 \<and> (rmap s2 = rmap s \<or> rmap s2 = (rmap s)(rz_approval t \<mapsto> t)) \<and>
        (res = Done (Inr ()) \<longrightarrow> rmap s2 = (rmap s)(rz_approval t \<mapsto> t))"
    and remove_crash: "rinv s \<Longrightarrow> usable env \<Longrightarrow> rs_remove S env s i = (ans, s') \<Longrightarrow>
      \<exists>s2. reopen s' = Inr s2 \<and> rinv s2 \<and> (rmap s2 = rmap s \<or> rmap s2 = (rmap s)(i := None)) \<and>
        (\<forall>x. ans = Done (Inr x) \<longrightarrow> rmap s2 = (rmap s)(i := None))"

interpretation mrs: resumable_store mem_resumable_store hm_get "\<lambda>_. True" "\<lambda>_. True" "\<lambda>_. True"
  by unfold_locales (auto simp: mr_put_def mr_get_def mr_remove_def fun_eq_iff)

end
