(* ===== verification/Resume.thy ===== *)
theory Resume
  imports Turn_Loop Resumable
begin

section \<open>Suspending and resuming a turn\<close>

text \<open>
  Models \<^verbatim>\<open>drive_tool_loop\<close>, \<^verbatim>\<open>persist_resumable_or_abort_pending\<close>, the end of
  \<^verbatim>\<open>think_actions_durable\<close> and \<^verbatim>\<open>resume_approved\<close> of \<^verbatim>\<open>crates/familyclaw-agent/src/agent/turn.rs\<close>: a turn
  whose tool needs an approval is stored, and continued when the approval is granted. The plain loop
  writes no journal; of the variables of a loop it uses the messages, the last text and the number of
  the next dispatch.
\<close>

subsection \<open>The plain loop\<close>

definition resume_key :: "string \<Rightarrow> nat \<Rightarrow> string" where
  "resume_key prefix k = prefix @ ''-dispatch-'' @ show_nat k"

definition dispatch_plain ::
  "('p, 'o, 'j, 'n) turn_config \<Rightarrow> turn_args \<Rightarrow> turn_env \<Rightarrow> string option \<Rightarrow> nat \<Rightarrow> skill_id \<Rightarrow> json \<Rightarrow>
   (('p, 'o, 'w, 'j, 'n) turn_state, action_error + submit_outcome) turn_act" where
  "dispatch_plain C A E keys k skill args =
     on_runtime (case keys of
       Some prefix \<Rightarrow> submit_task_idempotent (tc_rt C) (te_call E k) (resume_key prefix k) (tc_being C) skill args (ta_now A)
     | None \<Rightarrow> submit_task_as (tc_rt C) (te_call E k) (tc_being C) skill args (ta_now A))"

definition settle_plain ::
  "('p, 'o, 'j, 'n) turn_config \<Rightarrow> turn_args \<Rightarrow> turn_env \<Rightarrow> tool_call \<Rightarrow> loop_vars \<Rightarrow> action_error + submit_outcome \<Rightarrow>
   (('p, 'o, 'w, 'j, 'n) turn_state, loop_outcome + loop_vars) turn_act" where
  "settle_plain C A E call lo r s =
     (let quoted = ''tool '' @ sq @ tl_name call @ sq in
      case r of
        Inl e \<Rightarrow>
          turn_ret (Inr (push (tool_result (tl_id call) (format_tool_failure_for_model (tl_name call) (show_error e))) lo))
            (tool_note C A E (quoted @ '' dispatched: failed: '' @ show_error e) s)
      | Inr sub \<Rightarrow>
          (case so_pending sub of
             Some i \<Rightarrow>
               (let summary = (case pending_summary_for (tc_rt C) (tu_rt s) i of
                                 Some x \<Rightarrow> x | None \<Rightarrow> awaiting_text (tl_name call))
                in turn_ret (Inl (AwaitingApproval (tl_name call) i summary (lo_messages lo) (tl_id call) (tl_args call)))
                     (tool_note C A E (quoted @ '' dispatched: awaiting approval ('' @ summary @ '')'') s))
           | None \<Rightarrow>
               (let out = tool_result_text_for (tc_json C) (tu_rt s) (so_task sub) (so_status sub)
                in turn_ret (Inr (push (tool_result (tl_id call) out) lo))
                     (tool_note C A E (quoted @ '' dispatched: '' @ out) s))))"

definition call_plain ::
  "('p, 'o, 'j, 'n) turn_config \<Rightarrow> turn_args \<Rightarrow> turn_env \<Rightarrow> string option \<Rightarrow> tool_call \<Rightarrow> loop_vars \<Rightarrow>
   (('p, 'o, 'w, 'j, 'n) turn_state, loop_outcome + loop_vars) turn_act" where
  "call_plain C A E keys call lo s =
     (let quoted = ''tool '' @ sq @ tl_name call @ sq in
      case map_name_to_skill (tl_name call) (tu_rt s) of
        None \<Rightarrow>
          turn_ret (Inr (push (tool_result (tl_id call) (''error: unknown '' @ quoted)) lo))
            (tool_note C A E (quoted @ '' dispatched: unknown tool'') s)
      | Some skill \<Rightarrow>
          turn_then (dispatch_plain C A E keys (lo_index lo) skill (tl_args call))
            (settle_plain C A E call (lo\<lparr>lo_index := lo_index lo + 1\<rparr>)) s)"

fun calls_plain ::
  "('p, 'o, 'j, 'n) turn_config \<Rightarrow> turn_args \<Rightarrow> turn_env \<Rightarrow> string option \<Rightarrow> tool_call list \<Rightarrow> loop_vars \<Rightarrow>
   (('p, 'o, 'w, 'j, 'n) turn_state, loop_outcome + loop_vars) turn_act" where
  "calls_plain C A E keys [] lo = turn_ret (Inr lo)"
| "calls_plain C A E keys (call # calls) lo =
     turn_then (call_plain C A E keys call lo) (\<lambda>r.
       case r of Inl out \<Rightarrow> turn_ret (Inl out) | Inr lo' \<Rightarrow> calls_plain C A E keys calls lo')"

definition ask_plain ::
  "('p, 'o, 'j, 'n) turn_config \<Rightarrow> loop_vars \<Rightarrow> (('p, 'o, 'w, 'j, 'n) turn_state, projection) turn_act" where
  "ask_plain C lo s =
     turn_then (ask_tools C (lo_messages lo) (offered s) None) (\<lambda>r. turn_ret (cp_content r, cp_calls r)) s"

fun rounds_plain ::
  "('p, 'o, 'j, 'n) turn_config \<Rightarrow> turn_args \<Rightarrow> turn_env \<Rightarrow> string option \<Rightarrow> nat \<Rightarrow> nat \<Rightarrow> loop_vars \<Rightarrow>
   (('p, 'o, 'w, 'j, 'n) turn_state, loop_outcome) turn_act" where
  "rounds_plain C A E keys budget 0 lo =
     (if lo_last lo = []
      then turn_then (recover_user_visible_reply C (lo_messages lo)) (\<lambda>recovered.
             turn_ret (case recovered of Some t \<Rightarrow> Answer t | None \<Rightarrow> MaxIterations budget))
      else turn_ret (Answer (lo_last lo)))"
| "rounds_plain C A E keys budget (Suc left) lo =
     turn_then (ask_plain C lo) (\<lambda>p.
       let lo1 = hear p lo in
       case snd p of
         Some (call # calls) \<Rightarrow>
           turn_then (calls_plain C A E keys (call # calls) (push (assistant_turn p (call # calls)) lo1)) (\<lambda>r.
             case r of Inl out \<Rightarrow> turn_ret out | Inr lo2 \<Rightarrow> rounds_plain C A E keys budget left lo2)
       | _ \<Rightarrow> turn_ret (Answer (said p lo1)))"

definition drive_tool_loop ::
  "('p, 'o, 'j, 'n) turn_config \<Rightarrow> turn_args \<Rightarrow> turn_env \<Rightarrow> nat \<Rightarrow> string option \<Rightarrow> llm_message list \<Rightarrow> string \<Rightarrow>
   (('p, 'o, 'w, 'j, 'n) turn_state, loop_outcome) turn_act" where
  "drive_tool_loop C A E budget keys messages last_text =
     rounds_plain C A E keys budget budget (loop_start messages last_text 0)"

subsection \<open>The agent\<close>

text \<open>The parts of \<^verbatim>\<open>Agent\<close> that suspending and resuming use, and what the machine does to one such call.\<close>

record ('p, 'o, 'j, 'n, 'r) agent_config =
  ac_turn :: "('p, 'o, 'j, 'n) turn_config"
  ac_store :: "'r resumable_trait"
  ac_rounds :: nat
  ac_llm :: bool       \<comment> \<open>a chain of models is installed\<close>
  ac_actions :: bool   \<comment> \<open>an action runtime is installed\<close>
  ac_counter :: nat    \<comment> \<open>turns processed\<close>

record ('p, 'o, 'w, 'j, 'n, 'r) agent_state =
  ag_turn :: "('p, 'o, 'w, 'j, 'n) turn_state"
  ag_resumable :: 'r

record agent_env =
  ae_turn :: turn_env
  ae_approve :: call_env
  ae_abort :: call_env
  ae_put :: store_env
  ae_remove :: store_env
  ae_cleanup :: store_env

datatype think_outcome =
    Reply string
  | SuspendedOn approval_id string   \<comment> \<open>Suspended\<close>
  | NoReply

definition on_turn ::
  "(('p, 'o, 'w, 'j, 'n) turn_state, 'a) turn_act \<Rightarrow> (('p, 'o, 'w, 'j, 'n, 'r) agent_state, 'a) turn_act" where
  "on_turn m a = (case m (ag_turn a) of (r, s) \<Rightarrow> (r, a\<lparr>ag_turn := s\<rparr>))"

text \<open>A step on the store of turns whose error the caller looks at.\<close>

definition on_store ::
  "('r \<Rightarrow> 'a outcome \<times> 'r) \<Rightarrow> (('p, 'o, 'w, 'j, 'n, 'r) agent_state, 'a) turn_act" where
  "on_store f a =
     (case f (ag_resumable a) of
        (Done x, r) \<Rightarrow> (Done (Inr x), a\<lparr>ag_resumable := r\<rparr>)
      | (Killed, r) \<Rightarrow> (Killed, a\<lparr>ag_resumable := r\<rparr>))"

definition agent_note ::
  "('p, 'o, 'j, 'n, 'r) agent_config \<Rightarrow> turn_args \<Rightarrow> agent_env \<Rightarrow> audit_kind \<Rightarrow> string \<Rightarrow>
   (('p, 'o, 'w, 'j, 'n, 'r) agent_state, unit) turn_act" where
  "agent_note AC A E kind detail =
     on_turn (\<lambda>s. turn_ret () (record_turn_audit_into (tc_audit (ac_turn AC)) (ae_turn E) (ta_id A) kind (ta_now A) detail s))"

abbreviation ac_ext :: "('p, 'o, 'j, 'n, 'r) agent_config \<Rightarrow> ext" where
  "ac_ext AC \<equiv> rc_ext (tc_rt (ac_turn AC))"

subsection \<open>Making the wait durable\<close>

definition rollback_note :: "string \<Rightarrow> 'e + 'a \<Rightarrow> ('e \<Rightarrow> string) \<Rightarrow> string option" where
  "rollback_note what r show_it = (case r of Inl e \<Rightarrow> Some (what @ show_it e) | Inr _ \<Rightarrow> None)"

definition rollback_non_durable_suspend ::
  "('p, 'o, 'j, 'n, 'r) agent_config \<Rightarrow> agent_env \<Rightarrow> approval_id \<Rightarrow> timestamp \<Rightarrow>
   (('p, 'o, 'w, 'j, 'n, 'r) agent_state, string option) turn_act" where
  "rollback_non_durable_suspend AC E i now =
     turn_then (on_turn (on_runtime (abort_pending_after_continuation_failure (tc_rt (ac_turn AC)) (ae_abort E) i now))) (\<lambda>aborted.
     turn_then (on_store (\<lambda>r. rs_remove (ac_store AC) (ae_cleanup E) r i)) (\<lambda>removed.
     turn_ret (case (rollback_note ''approval rollback failed: '' aborted show_error,
                     rollback_note ''resumable cleanup failed: '' removed (show_resumable_error (ac_ext AC))) of
       (None, None) \<Rightarrow> None
     | (Some e, None) \<Rightarrow> Some e
     | (None, Some e) \<Rightarrow> Some e
     | (Some e, Some f) \<Rightarrow> Some (e @ ''; '' @ f))))"

definition rolled_back ::
  "('p, 'o, 'j, 'n, 'r) agent_config \<Rightarrow> agent_env \<Rightarrow> approval_id \<Rightarrow> timestamp \<Rightarrow> string \<Rightarrow> string \<Rightarrow>
   (('p, 'o, 'w, 'j, 'n, 'r) agent_state, 'a) turn_act" where
  "rolled_back AC E i now what tidy =
     turn_then (rollback_non_durable_suspend AC E i now) (\<lambda>cleanup.
     turn_throw (BusErr (what @ (case cleanup of None \<Rightarrow> tidy | Some e \<Rightarrow> ''rollback also failed: '' @ e))))"

definition persist_resumable_or_abort_pending ::
  "('p, 'o, 'j, 'n, 'r) agent_config \<Rightarrow> agent_env \<Rightarrow> approval_id \<Rightarrow> resumable_turn \<Rightarrow> timestamp \<Rightarrow>
   (('p, 'o, 'w, 'j, 'n, 'r) agent_state, unit) turn_act" where
  "persist_resumable_or_abort_pending AC E i t now a =
     (case try_pending_approvals (tc_rt (ac_turn AC)) (tu_rt (ag_turn a)) of
        Inl e \<Rightarrow> rolled_back AC E i now (''pending approval check failed: '' @ show_error e @ ''; '') ''approval quarantined'' a
      | Inr ps \<Rightarrow>
          if \<not> (\<exists>p \<in> set ps. pa_approval p = i)
          then rolled_back AC E i now
                 (''resumable persist refused: approval '' @ show_uuid (ac_ext AC) i @ '' is no longer pending; '')
                 ''approval already closed and continuation cleaned'' a
          else turn_then (on_store (\<lambda>r. rs_put (ac_store AC) (ae_put E) r t)) (\<lambda>written.
                 case written of
                   Inl e \<Rightarrow> rolled_back AC E i now
                     (''resumable persist failed: '' @ show_resumable_error (ac_ext AC) e @ ''; '')
                     ''orphan approval quarantined and cleaned''
                 | Inr _ \<Rightarrow> turn_ret ()) a)"

definition RESUMABLE_DEFAULT_TTL_MINUTES :: int where
  "RESUMABLE_DEFAULT_TTL_MINUTES = 60"

text \<open>The expiry of the approval, or one hour; a time that leaves the clock's range panics.\<close>

definition waiting_expiry ::
  "('p, 'o, 'j, 'n, 'r) agent_config \<Rightarrow> turn_args \<Rightarrow> approval_id \<Rightarrow> (('p, 'o, 'w, 'j, 'n, 'r) agent_state, timestamp) turn_act" where
  "waiting_expiry AC A i a =
     (case pending_expiry_for (tc_rt (ac_turn AC)) (tu_rt (ag_turn a)) i of
        Some t \<Rightarrow> turn_ret t a
      | None \<Rightarrow>
          (let t = ta_now A + secs (60 * RESUMABLE_DEFAULT_TTL_MINUTES)
           in if ts_max (ac_ext AC) < t then (Killed, a) else turn_ret t a))"

text \<open>The turn that is stored, and its storing.\<close>

definition suspend_turn ::
  "('p, 'o, 'j, 'n, 'r) agent_config \<Rightarrow> turn_args \<Rightarrow> agent_env \<Rightarrow> message_origin option \<Rightarrow> nat \<Rightarrow> string \<Rightarrow> approval_id \<Rightarrow>
   string \<Rightarrow> llm_message list \<Rightarrow> string \<Rightarrow> json \<Rightarrow> (('p, 'o, 'w, 'j, 'n, 'r) agent_state, unit) turn_act" where
  "suspend_turn AC A E origin turn tool i summary messages call args =
     turn_then (waiting_expiry AC A i) (\<lambda>expires.
     persist_resumable_or_abort_pending AC E i
       (with_durable_position turn 0
         (with_policy_snapshot (''tool '' @ sq @ tool @ sq @ '' requires human approval'')
           (resumable_new (ac_ext AC) i (tc_being (ac_turn AC)) origin (redact_messages_for_resume messages) call tool args
              summary (ta_now A) expires)))
       (ta_now A))"

definition suspended_detail :: "ext \<Rightarrow> approval_id \<Rightarrow> string \<Rightarrow> string" where
  "suspended_detail X i summary = ''suspended awaiting approval '' @ show_uuid X i @ '': '' @ summary"

definition answered_detail :: "string \<Rightarrow> string" where
  "answered_detail t = ''answered ('' @ show_nat (char_count t) @ '' chars)''"

definition exhausted_detail :: "nat \<Rightarrow> string" where
  "exhausted_detail n = ''reached max iterations ('' @ show_nat n @ '') without answer''"

subsection \<open>A turn with tools\<close>

definition ignoring :: "('s, 'a) turn_act \<Rightarrow> ('s, unit) turn_act" where
  "ignoring m s = (case m s of (Done _, s') \<Rightarrow> (Done (Inr ()), s') | (Killed, s') \<Rightarrow> (Killed, s'))"

definition think_step :: "nat \<Rightarrow> string" where
  "think_step turn = ''turn-'' @ show_nat turn @ ''-think''"

definition suspend_step :: "nat \<Rightarrow> string" where
  "suspend_step turn = ''turn-'' @ show_nat turn @ ''-suspend''"

record think_env =
  th_agent :: agent_env
  th_think :: row_env
  th_suspend :: row_env

definition text_step ::
  "('p, 'o, 'j, 'n, 'r) agent_config \<Rightarrow> string \<Rightarrow> row_env \<Rightarrow> string \<Rightarrow> string \<Rightarrow> (('p, 'o, 'w, 'j, 'n, 'r) agent_state, string) turn_act" where
  "text_step AC what row name t = on_turn (durable_step (ac_turn AC) what (\<lambda>x. Inr (JStr x)) text_value row name (Inr t))"

definition nonempty :: "string \<Rightarrow> string option" where
  "nonempty t = (if t = [] then None else Some t)"

definition closed_with ::
  "('p, 'o, 'j, 'n, 'r) agent_config \<Rightarrow> turn_args \<Rightarrow> think_env \<Rightarrow> string \<Rightarrow>
   (('p, 'o, 'w, 'j, 'n, 'r) agent_state, string option \<times> (approval_id \<times> string) option) turn_act" where
  "closed_with AC A E t =
     turn_then (text_step AC ''durable think step failed: '' (th_think E) (think_step (ta_turn A)) t) (\<lambda>thought.
     turn_ret (nonempty thought, None))"

text \<open>A turn whose call waits: it is stored unless it is already, and the wait is journaled.\<close>

definition await_approval ::
  "('p, 'o, 'j, 'n, 'r) agent_config \<Rightarrow> (audit_kind \<Rightarrow> string \<Rightarrow> (('p, 'o, 'w, 'j, 'n, 'r) agent_state, unit) turn_act) \<Rightarrow>
   turn_args \<Rightarrow> think_env \<Rightarrow> message_origin option \<Rightarrow> string \<Rightarrow> approval_id \<Rightarrow> string \<Rightarrow> llm_message list \<Rightarrow> string \<Rightarrow> json \<Rightarrow>
   (('p, 'o, 'w, 'j, 'n, 'r) agent_state, string option \<times> (approval_id \<times> string) option) turn_act" where
  "await_approval AC note A E origin tool i summary ms call args =
     turn_then (\<lambda>a. case rs_get (ac_store AC) (ag_resumable a) i of
         Inl e \<Rightarrow> turn_throw (BusErr (''resumable lookup failed: '' @ show_resumable_error (ac_ext AC) e)) a
       | Inr t \<Rightarrow> turn_ret (t \<noteq> None) a) (\<lambda>already.
     turn_then (if already then turn_ret ()
                else suspend_turn AC A (th_agent E) origin (ta_turn A) tool i summary ms call args) (\<lambda>_.
     turn_then (text_step AC ''durable think step failed: '' (th_think E) (think_step (ta_turn A)) []) (\<lambda>_.
     turn_then (note TurnSuspended (suspended_detail (ac_ext AC) i summary)) (\<lambda>_.
     turn_then (ignoring (text_step AC [] (th_suspend E) (suspend_step (ta_turn A))
                  (show_uuid (ac_ext AC) i @ ''|'' @ summary))) (\<lambda>_.
     turn_ret (None, Some (i, summary)))))))"

definition think_end ::
  "('p, 'o, 'j, 'n, 'r) agent_config \<Rightarrow> (audit_kind \<Rightarrow> string \<Rightarrow> (('p, 'o, 'w, 'j, 'n, 'r) agent_state, unit) turn_act) \<Rightarrow>
   turn_args \<Rightarrow> think_env \<Rightarrow> message_origin option \<Rightarrow> loop_outcome \<Rightarrow>
   (('p, 'o, 'w, 'j, 'n, 'r) agent_state, string option \<times> (approval_id \<times> string) option) turn_act" where
  "think_end AC note A E origin out =
     (case out of
        Answer t \<Rightarrow> turn_then (note TurnAnswered (answered_detail t)) (\<lambda>_. closed_with AC A E t)
      | AwaitingApproval tool i summary ms call args \<Rightarrow> await_approval AC note A E origin tool i summary ms call args
      | MaxIterations n \<Rightarrow>
          turn_then (note TurnMaxIterations (exhausted_detail n)) (\<lambda>_. closed_with AC A E recovery_fallback_reply))"

text \<open>The turn after its prompt was built; a memory of what the tools did is not kept here.\<close>

definition think_actions_durable ::
  "('p, 'o, 'j, 'n, 'r) agent_config \<Rightarrow> turn_args \<Rightarrow> think_env \<Rightarrow> message_origin option \<Rightarrow> llm_message list \<Rightarrow>
   (('p, 'o, 'w, 'j, 'n, 'r) agent_state, string option \<times> (approval_id \<times> string) option) turn_act" where
  "think_actions_durable AC A E origin messages a =
     (if \<not> ac_actions AC then turn_ret (None, None) a
      else
        let audited = (if is_replaying (tu_ctx (ag_turn a)) then AC\<lparr>ac_turn := (ac_turn AC)\<lparr>tc_audit := False\<rparr>\<rparr> else AC);
            note = agent_note audited A (th_agent E)
        in turn_then (note TurnStarted ''turn started'') (\<lambda>_.
           if \<not> ac_llm AC then turn_ret (None, None)
           else turn_then (on_turn (drive_tool_loop_durable (ac_turn AC) (A\<lparr>ta_base := 0\<rparr>) (ae_turn (th_agent E)) (ac_rounds AC) messages []))
             (\<lambda>out. think_end AC note A E origin (fst out))) a)"

subsection \<open>Resuming\<close>

definition stored_turn ::
  "('p, 'o, 'j, 'n, 'r) agent_config \<Rightarrow> approval_id \<Rightarrow> (('p, 'o, 'w, 'j, 'n, 'r) agent_state, resumable_turn) turn_act" where
  "stored_turn AC i a =
     (case rs_get (ac_store AC) (ag_resumable a) i of
        Inl e \<Rightarrow> turn_throw (InvalidInputErr (''resumable load failed: '' @ show_resumable_error (ac_ext AC) e)) a
      | Inr None \<Rightarrow> turn_throw (InvalidInputErr (''no resumable turn for approval '' @ show_uuid (ac_ext AC) i @
                      '' (unknown or already resumed)'')) a
      | Inr (Some t) \<Rightarrow> turn_ret t a)"

definition granted ::
  "('p, 'o, 'j, 'n, 'r) agent_config \<Rightarrow> agent_env \<Rightarrow> approval_id \<Rightarrow> timestamp \<Rightarrow>
   (('p, 'o, 'w, 'j, 'n, 'r) agent_state, submit_outcome) turn_act" where
  "granted AC E i now =
     turn_then (on_turn (on_runtime (approve (tc_rt (ac_turn AC)) (ae_approve E) i now))) (\<lambda>r.
     case r of
       Inl e \<Rightarrow> turn_throw (InvalidInputErr (''approve failed: '' @ show_error e))
     | Inr sub \<Rightarrow> turn_ret sub)"

definition resume_prefix :: "ext \<Rightarrow> approval_id \<Rightarrow> string" where
  "resume_prefix X i = ''resume-'' @ show_uuid X i"

definition continue_turn ::
  "('p, 'o, 'j, 'n, 'r) agent_config \<Rightarrow> turn_args \<Rightarrow> agent_env \<Rightarrow> approval_id \<Rightarrow> message_origin option \<Rightarrow> llm_message list \<Rightarrow>
   (('p, 'o, 'w, 'j, 'n, 'r) agent_state, think_outcome) turn_act" where
  "continue_turn AC A E i origin messages =
     turn_then (on_turn (drive_tool_loop (ac_turn AC) A (ae_turn E) (ac_rounds AC) (Some (resume_prefix (ac_ext AC) i)) messages []))
       (\<lambda>out. case out of
          Answer t \<Rightarrow> turn_then (agent_note AC A E TurnAnswered (answered_detail t)) (\<lambda>_. turn_ret (Reply t))
        | AwaitingApproval tool next summary ms call args \<Rightarrow>
            turn_then (suspend_turn AC A E origin (ac_counter AC) tool next summary ms call args) (\<lambda>_.
            turn_then (agent_note AC A E TurnSuspended (suspended_detail (ac_ext AC) next summary)) (\<lambda>_.
            turn_ret (SuspendedOn next summary)))
        | MaxIterations n \<Rightarrow>
            turn_then (agent_note AC A E TurnMaxIterations (exhausted_detail n)) (\<lambda>_. turn_ret (Reply recovery_fallback_reply)))"

text \<open>Resuming an owned, unexpired turn.\<close>

definition resumed ::
  "('p, 'o, 'j, 'n, 'r) agent_config \<Rightarrow> turn_args \<Rightarrow> agent_env \<Rightarrow> approval_id \<Rightarrow> resumable_turn \<Rightarrow>
   (('p, 'o, 'w, 'j, 'n, 'r) agent_state, think_outcome) turn_act" where
  "resumed AC A E i turn =
     turn_then (granted AC E i (ta_now A)) (\<lambda>sub.
     turn_then (\<lambda>a. turn_ret (tool_result_text_for (tc_json (ac_turn AC)) (tu_rt (ag_turn a)) (so_task sub) (so_status sub)) a) (\<lambda>text.
     turn_then (on_store (\<lambda>r. rs_remove (ac_store AC) (ae_remove E) r i)) (\<lambda>_.
     turn_then (agent_note AC A E TurnResumed (''turn resumed after approval '' @ show_uuid (ac_ext AC) i)) (\<lambda>_.
     if \<not> ac_llm AC then turn_ret NoReply
     else continue_turn AC A E i (rz_origin turn) (rz_messages turn @ [tool_result (rz_call turn) text])))))"

definition resume_approved ::
  "('p, 'o, 'j, 'n, 'r) agent_config \<Rightarrow> turn_args \<Rightarrow> agent_env \<Rightarrow> approval_id \<Rightarrow>
   (('p, 'o, 'w, 'j, 'n, 'r) agent_state, think_outcome) turn_act" where
  "resume_approved AC A E i =
     turn_then (stored_turn AC i) (\<lambda>turn.
     if rz_being turn \<noteq> tc_being (ac_turn AC)
     then turn_throw (InvalidInputErr (''resumable turn for approval '' @ show_uuid (ac_ext AC) i @
            '' belongs to another being (owner mismatch) '' @ emdash @ '' refusing to resume across beings''))
     else if rz_expired (ta_now A) turn
     then turn_throw (InvalidInputErr (''resumable turn for approval '' @ show_uuid (ac_ext AC) i @ '' expired''))
     else if \<not> ac_actions AC
     then turn_throw (InvalidInputErr ''resume_approved requires an ActionRuntime (call with_actions first)'')
     else resumed AC A E i turn)"

end
