(* ===== verification/Turn_Effects.thy ===== *)
theory Turn_Effects
  imports Turn_Loop Runtime_Machine Failover_Answers
begin

section \<open>What a turn does to the tools' world\<close>

text \<open>
  The durable tool loop reaches the runtime only through keyed submissions, one for each dispatch it
  did not find in its journal, with keys numbered upwards through the turn. With the outbox this gives
  that a dispatch of a turn runs its executor at most once, however often the turn is run again.
\<close>

named_theorems turn_frames \<open>what a step of the loop leaves alone\<close>

lemma turn_then_cases:
  assumes "turn_then m f s = (r, s')"
  obtains x s1 where "m s = (Done (Inr x), s1)" "f x s1 = (r, s')"
  | e where "m s = (Done (Inl e), s')" "r = Done (Inl e)"
  | "m s = (Killed, s')" "r = Killed"
  using assms by (auto simp: turn_then_def split: prod.splits outcome.splits sum.splits)

lemma turn_then_ok: "m s = (Done (Inr x), s1) \<Longrightarrow> turn_then m f s = f x s1"
  by (simp add: turn_then_def)

lemma turn_then_killed: "m s = (Killed, s1) \<Longrightarrow> turn_then m f s = (Killed, s1)"
  by (simp add: turn_then_def)

text \<open>A round in which the model calls tools.\<close>

lemma rounds_calling:
  assumes "model_answer C A E (budget - Suc left) lo s = (Done (Inr p), s1)" "snd p = Some (call # calls)"
  shows "rounds C A E budget (Suc left) lo s =
    turn_then (run_calls C A E (call # calls) (push (assistant_turn p (call # calls)) (hear p lo)))
      (\<lambda>r. case r of Inl out \<Rightarrow> turn_ret out | Inr lo2 \<Rightarrow> rounds C A E budget left lo2) s1"
  unfolding rounds.simps turn_then_ok[where m = "model_answer C A E n q" for n q, OF assms(1)]
  by (simp add: assms(2) Let_def)

lemma durable_step_rt [turn_frames]: "durable_step C w tv fv row name v s = (r, s') \<Longrightarrow> tu_rt s' = tu_rt s"
  by (auto simp: durable_step_def split: prod.splits)

lemma ask_tools_rt [turn_frames]: "ask_tools C ms ts ch s = (r, s') \<Longrightarrow> tu_rt s' = tu_rt s"
  by (auto simp: ask_tools_def split: prod.splits)

lemma recover_rt [turn_frames]: "recover_user_visible_reply C ms s = (r, s') \<Longrightarrow> tu_rt s' = tu_rt s"
  by (auto simp: recover_user_visible_reply_def split: prod.splits)

lemma note_rt [simp]:
  "tu_rt (tool_note C A E d s) = tu_rt s" "tu_rt (emit_tool b c s) = tu_rt s"
  by (simp_all add: tool_note_def record_turn_audit_into_def emit_tool_def)

lemma progress_rt [turn_frames]:
  "emit_progress C E b t lo s = (lo', s') \<Longrightarrow> tu_rt s' = tu_rt s \<and> lo_index lo' = lo_index lo"
  by (auto simp: emit_progress_def Let_def split: option.splits if_splits)

lemma push_index [simp]: "lo_index (push m lo) = lo_index lo"
  by (simp add: push_def)

lemma count_use_index [simp]: "lo_index (count_use n lo) = lo_index lo"
  by (simp add: count_use_def)

lemma hear_index [simp]: "lo_index (hear p lo) = lo_index lo"
  by (simp add: hear_def split: option.splits list.splits)

lemma settle_dispatch_rt [turn_frames]:
  "settle_dispatch C A E b call lo d s = (r, s') \<Longrightarrow>
     tu_rt s' = tu_rt s \<and> r \<noteq> Killed \<and> (\<forall>lo'. r = Done (Inr (Inr lo')) \<longrightarrow> lo_index lo' = lo_index lo)"
  by (auto simp: settle_dispatch_def turn_ret_def Let_def split: option.splits)

lemma fresh_answer_rt [turn_frames]: "fresh_answer C A i lo s = (r, s') \<Longrightarrow> tu_rt s' = tu_rt s"
  by (auto simp: fresh_answer_def Let_def turn_ret_def elim!: turn_then_cases split: if_splits dest!: ask_tools_rt)

lemma model_answer_rt [turn_frames]: "model_answer C A E i lo s = (r, s') \<Longrightarrow> tu_rt s' = tu_rt s"
  by (auto simp: model_answer_def Let_def turn_ret_def elim!: turn_then_cases split: if_splits
      dest!: fresh_answer_rt durable_step_rt)

subsection \<open>Keyed submissions in order\<close>

text \<open>The commands of one life of a turn, the numbers of their dispatches under a family of keys, and the
  runtime it leaves, alive or on disk.\<close>

definition turn_life ::
  "durable_config \<Rightarrow> (nat \<Rightarrow> string) \<Rightarrow> 'w command list \<Rightarrow> nat list \<Rightarrow> (jp_state, jo_state, 'w) runtime \<Rightarrow>
   (jp_state, jo_state, 'w) runtime \<Rightarrow> bool" where
  "turn_life D key cs ks rt rt' \<longleftrightarrow>
     map (dispatch_key D) cs = map (\<lambda>k. Some (key k)) ks \<and> sorted_wrt (<) ks \<and>
     machine_run D (Up rt) cs \<in> {Up rt', Down (rt_disks rt') (rt_world rt')}"

definition turn_moves ::
  "durable_config \<Rightarrow> (nat \<Rightarrow> string) \<Rightarrow> nat \<Rightarrow> nat \<Rightarrow> bool \<Rightarrow> (jp_state, jo_state, 'w) runtime \<Rightarrow>
   (jp_state, jo_state, 'w) runtime \<Rightarrow> bool" where
  "turn_moves D key n n' up rt rt' \<longleftrightarrow>
     (\<exists>cs ks. turn_life D key cs ks rt rt' \<and> (\<forall>k \<in> set ks. n \<le> k \<and> k < n') \<and>
        (up \<longrightarrow> machine_run D (Up rt) cs = Up rt'))"

lemma moves_refl: "turn_moves D key n n' up rt rt"
  unfolding turn_moves_def turn_life_def by (intro exI[of _ "[]"]) (simp add: machine_run_def)

lemma moves_trans:
  assumes "turn_moves D key n m True a b" "turn_moves D key m n' up b c" "n \<le> m" "m \<le> n'"
  shows "turn_moves D key n n' up a c"
proof -
  obtain cs ks where 1: "turn_life D key cs ks a b" "\<forall>k \<in> set ks. n \<le> k \<and> k < m" "machine_run D (Up a) cs = Up b"
    using assms(1) unfolding turn_moves_def by auto
  obtain ds ls where 2: "turn_life D key ds ls b c" "\<forall>k \<in> set ls. m \<le> k \<and> k < n'"
      "up \<longrightarrow> machine_run D (Up b) ds = Up c"
    using assms(2) unfolding turn_moves_def by auto
  have "machine_run D (Up a) (cs @ ds) = machine_run D (Up b) ds" using 1(3) by (simp add: machine_run_def)
  with 1 2 assms(3,4) show ?thesis
    unfolding turn_moves_def turn_life_def
    by (intro exI[of _ "cs @ ds"] exI[of _ "ks @ ls"]) (fastforce simp: sorted_wrt_append)
qed

lemma moves_one:
  assumes "submit_task_idempotent (durable_rt D) env (key k) being skill args now rt = (r, rt')"
  shows "turn_moves D key k (Suc k) (r \<noteq> Killed) rt rt'"
proof -
  let ?c = "CSubmitKeyed env (key k) being skill args now"
  have "machine_run D (Up rt) [?c] = settle (r, rt')" using assms by (simp add: machine_run_def)
  then show ?thesis
    unfolding turn_moves_def turn_life_def
    by (intro exI[of _ "[?c]"] exI[of _ "[k]"]) (cases r; simp add: settle_def)
qed

lemma moves_killed: "turn_moves D key n n' True a b \<Longrightarrow> turn_moves D key n n' up a b"
  unfolding turn_moves_def by auto

lemma dispatch_moves:
  assumes "tc_rt C = durable_rt D" "dispatch_tool C A E k skill args s = (r, s')"
  shows "turn_moves D (dispatch_step_name (ta_turn A)) k (Suc k) (r \<noteq> Killed) (tu_rt s) (tu_rt s')"
proof (cases "is_replaying (tu_ctx s)")
  case True
  then show ?thesis
    using assms(2) by (auto simp: dispatch_tool_def Let_def moves_refl dest!: durable_step_rt)
next
  case False
  obtain q rt where q: "submit_task_idempotent (durable_rt D) (te_call E k) (dispatch_step_name (ta_turn A) k)
      (tc_being C) skill args (ta_now A) (tu_rt s) = (q, rt)" by (rule prod.exhaust)
  note one = moves_one[where key = "dispatch_step_name (ta_turn A)" and k = k, OF q]
  show ?thesis
  proof (cases q)
    case Killed
    with assms q False have "tu_rt s' = rt" "r = Killed"
      by (auto simp: dispatch_tool_def Let_def turn_then_def on_runtime_def split: prod.splits)
    with one Killed show ?thesis by (auto simp: turn_moves_def)
  next
    case (Done x)
    with assms q False have "tu_rt s' = rt"
      by (auto simp: dispatch_tool_def Let_def turn_then_def on_runtime_def dest: durable_step_rt)
    with one Done show ?thesis by (auto intro: moves_killed)
  qed
qed

lemma run_call_moves:
  assumes "tc_rt C = durable_rt D" "run_call C A E call lo s = (r, s')"
  shows "\<exists>n. lo_index lo \<le> n \<and> turn_moves D (dispatch_step_name (ta_turn A)) (lo_index lo) n (r \<noteq> Killed) (tu_rt s) (tu_rt s') \<and>
    (\<forall>lo'. r = Done (Inr (Inr lo')) \<longrightarrow> lo_index lo' = n)"
proof -
  let ?lo = "count_use (tl_name call) lo"
  consider (skipped) "over_budget C (tl_name call) ?lo"
    | (unknown) "\<not> over_budget C (tl_name call) ?lo" "map_name_to_skill (tl_name call) (tu_rt s) = None"
    | (known) skill where "\<not> over_budget C (tl_name call) ?lo" "map_name_to_skill (tl_name call) (tu_rt s) = Some skill"
    by blast
  then show ?thesis
  proof cases
    case known
    obtain lo1 s1 where p: "emit_progress C E (is_replaying (tu_ctx s)) (tl_name call) (?lo\<lparr>lo_index := lo_index lo + 1\<rparr>) s = (lo1, s1)"
      by (rule prod.exhaust)
    have f: "tu_rt s1 = tu_rt s" "lo_index lo1 = Suc (lo_index lo)" using progress_rt[OF p] by auto
    have t: "turn_then (dispatch_tool C A E (lo_index lo) skill (tl_args call))
        (settle_dispatch C A E (is_replaying (tu_ctx s)) call lo1) s1 = (r, s')"
      using assms(2) known p by (simp add: run_call_def Let_def)
    then show ?thesis
    proof (cases rule: turn_then_cases)
      case (1 d s2)
      from dispatch_moves[OF assms(1) 1(1)] settle_dispatch_rt[OF 1(2)] f show ?thesis
        by (intro exI[of _ "Suc (lo_index lo)"]) (auto intro: moves_killed)
    next
      case 2
      from dispatch_moves[OF assms(1) 2(1)] 2(2) f show ?thesis
        by (intro exI[of _ "Suc (lo_index lo)"]) (auto intro: moves_killed)
    next
      case 3
      from dispatch_moves[OF assms(1) 3(1)] 3(2) f show ?thesis
        by (intro exI[of _ "Suc (lo_index lo)"]) (auto simp: turn_moves_def)
    qed
  qed (use assms(2) in \<open>auto simp: run_call_def Let_def turn_ret_def intro: moves_refl\<close>)
qed

lemma run_calls_moves:
  assumes "tc_rt C = durable_rt D" "run_calls C A E calls lo s = (r, s')"
  shows "\<exists>n. lo_index lo \<le> n \<and> turn_moves D (dispatch_step_name (ta_turn A)) (lo_index lo) n (r \<noteq> Killed) (tu_rt s) (tu_rt s') \<and>
    (\<forall>lo'. r = Done (Inr (Inr lo')) \<longrightarrow> lo_index lo' = n)"
  using assms(2)
proof (induction calls arbitrary: lo s)
  case Nil
  then show ?case by (auto simp: turn_ret_def intro: moves_refl)
next
  case (Cons call calls)
  from Cons.prems[unfolded run_calls.simps] show ?case
  proof (cases rule: turn_then_cases)
    case (1 x s1)
    obtain n where n: "lo_index lo \<le> n" "turn_moves D (dispatch_step_name (ta_turn A)) (lo_index lo) n True (tu_rt s) (tu_rt s1)"
        "\<forall>lo'. x = Inr lo' \<longrightarrow> lo_index lo' = n"
      using run_call_moves[OF assms(1) 1(1)] by fastforce
    show ?thesis
    proof (cases x)
      case (Inl out)
      with 1(2) n show ?thesis by (intro exI[of _ n]) (auto simp: turn_ret_def intro: moves_killed)
    next
      case (Inr lo')
      then obtain m where "n \<le> m" "turn_moves D (dispatch_step_name (ta_turn A)) n m (r \<noteq> Killed) (tu_rt s1) (tu_rt s')"
          "\<forall>lo''. r = Done (Inr (Inr lo'')) \<longrightarrow> lo_index lo'' = m"
        using Cons.IH[of lo' s1] 1(2) n(3)[rule_format] Inr by auto
      with n(1) moves_trans[OF n(2)] show ?thesis by (intro exI[of _ m]) auto
    qed
  next
    case 2
    from run_call_moves[OF assms(1) 2(1)] 2(2) show ?thesis by (auto intro: moves_killed)
  next
    case 3
    from run_call_moves[OF assms(1) 3(1)] 3(2) show ?thesis by (auto simp: turn_moves_def)
  qed
qed

lemma rounds_moves:
  assumes "tc_rt C = durable_rt D" "rounds C A E budget left lo s = (r, s')"
  shows "\<exists>n. lo_index lo \<le> n \<and> turn_moves D (dispatch_step_name (ta_turn A)) (lo_index lo) n (r \<noteq> Killed) (tu_rt s) (tu_rt s')"
  using assms(2)
proof (induction left arbitrary: lo s)
  case 0
  then have "tu_rt s' = tu_rt s"
    by (auto simp: rounds_over_def turn_ret_def elim!: turn_then_cases split: if_splits dest: recover_rt)
  then show ?case by (auto intro: moves_refl)
next
  case (Suc left)
  from Suc.prems[unfolded rounds.simps Let_def] show ?case
  proof (cases rule: turn_then_cases)
    case (1 p s1)
    note rt = model_answer_rt[OF 1(1)]
    show ?thesis
    proof (cases "snd p")
      case None
      with 1(2) rt show ?thesis by (auto simp: turn_ret_def intro: moves_refl)
    next
      case (Some cs)
      show ?thesis
      proof (cases cs)
        case Nil
        with Some 1(2) rt show ?thesis by (auto simp: turn_ret_def intro: moves_refl)
      next
        case (Cons call calls)
        define lo1 where "lo1 = push (assistant_turn p cs) (hear p lo)"
        have "turn_then (run_calls C A E cs lo1)
            (\<lambda>x. case x of Inl out \<Rightarrow> turn_ret out | Inr lo2 \<Rightarrow> rounds C A E budget left lo2) s1 = (r, s')"
          using 1(2) Some Cons by (simp add: lo1_def)
        then show ?thesis
        proof (cases rule: turn_then_cases)
          case (1 x s2)
          have "\<exists>n. lo_index lo \<le> n \<and> turn_moves D (dispatch_step_name (ta_turn A)) (lo_index lo) n True (tu_rt s) (tu_rt s2) \<and>
              (\<forall>lo'. x = Inr lo' \<longrightarrow> lo_index lo' = n)"
            using run_calls_moves[OF assms(1) 1(1)] by (simp add: lo1_def rt)
          then obtain n where n: "lo_index lo \<le> n" "turn_moves D (dispatch_step_name (ta_turn A)) (lo_index lo) n True (tu_rt s) (tu_rt s2)"
              "\<forall>lo'. x = Inr lo' \<longrightarrow> lo_index lo' = n"
            by blast
          show ?thesis
          proof (cases x)
            case (Inl out)
            with 1(2) n show ?thesis by (intro exI[of _ n]) (auto simp: turn_ret_def intro: moves_killed)
          next
            case (Inr lo2)
            then obtain m where "n \<le> m" "turn_moves D (dispatch_step_name (ta_turn A)) n m (r \<noteq> Killed) (tu_rt s2) (tu_rt s')"
              using Suc.IH[of lo2 s2] 1(2) n(3)[rule_format] Inr by auto
            with n(1) moves_trans[OF n(2)] show ?thesis by (intro exI[of _ m]) auto
          qed
        next
          case 2
          from run_calls_moves[OF assms(1) 2(1)] 2(2) rt show ?thesis by (auto simp: lo1_def intro: moves_killed)
        next
          case 3
          from run_calls_moves[OF assms(1) 3(1)] 3(2) rt show ?thesis by (auto simp: lo1_def turn_moves_def)
        qed
      qed
    qed
  next
    case 2
    with model_answer_rt[OF 2(1)] show ?thesis by (auto intro: moves_refl)
  next
    case 3
    with model_answer_rt[OF 3(1)] show ?thesis by (auto intro: moves_refl)
  qed
qed

subsection \<open>At most once\<close>

definition moved :: "durable_config \<Rightarrow> 'w machine \<Rightarrow> 'w command list \<Rightarrow> nat \<Rightarrow> bool" where
  "moved D m cs i \<longleftrightarrow> machine_world (machine_run D m (take (Suc i) cs)) \<noteq> machine_world (machine_run D m (take i cs))"

lemma machine_run_append: "machine_run D m (cs @ ds) = machine_run D (machine_run D m cs) ds"
  by (simp add: machine_run_def)

lemma life_key: "turn_life D key cs ks rt rt' \<Longrightarrow> i < length ks \<Longrightarrow>
    i < length cs \<and> dispatch_key D (cs ! i) = Some (key (ks ! i))"
  unfolding turn_life_def by (metis length_map nth_map)

text \<open>A key that moved the world once does not move it again.\<close>

lemma moved_blocks:
  assumes "jo_wf (dc_outbox D) (machine_outbox m)" "i < length cs" "j < length ds"
    and "dispatch_key D (cs ! i) = Some k" "dispatch_key D (ds ! j) = Some k"
    and "moved D m cs i" "machine_run D (machine_run D m cs) es = m'"
  shows "\<not> moved D m' ds j"
proof -
  let ?m = "machine_run D m (take i cs)"
  have wf: "jo_wf (dc_outbox D) (machine_outbox ?m)" by (rule machine_run_file[OF file_property_wf assms(1)])
  have one: "machine_run D m (take (Suc i) cs) = machine_step D ?m (cs ! i)"
    using assms(2) by (simp add: take_Suc_conv_app_nth machine_run_def)
  have two: "machine_run D m' (take (Suc j) ds) = machine_step D (machine_run D m' (take j ds)) (ds ! j)"
    using assms(3) by (simp add: take_Suc_conv_app_nth machine_run_def)
  have "jo_intended (dc_outbox D) k (machine_outbox (machine_step D ?m (cs ! i)))"
    using machine_key_recorded[OF wf assms(4)] assms(6) unfolding moved_def one by blast
  from machine_run_file[OF file_property_intended this]
  have "jo_intended (dc_outbox D) k (machine_outbox (machine_run D (machine_step D ?m (cs ! i)) (drop (Suc i) cs @ es @ take j ds)))"
    by blast
  moreover have "machine_run D (machine_step D ?m (cs ! i)) (drop (Suc i) cs @ es @ take j ds) = machine_run D m' (take j ds)"
    unfolding one[symmetric] assms(7)[symmetric] machine_run_append[symmetric] append.assoc[symmetric] append_take_drop_id ..
  ultimately show ?thesis using machine_key_blocks[OF _ assms(5)] unfolding moved_def two by metis
qed

lemma durable_loop_life:
  assumes "tc_rt C = durable_rt D" "drive_tool_loop_durable C A E budget ms t s = (r, s')"
  obtains cs ks es where "turn_life D (dispatch_step_name (ta_turn A)) cs ks (tu_rt s) (tu_rt s')"
    "machine_run D (machine_run D (Up (tu_rt s)) cs) es = settle (r, tu_rt s')"
proof -
  obtain cs ks where l: "turn_life D (dispatch_step_name (ta_turn A)) cs ks (tu_rt s) (tu_rt s')"
      "r \<noteq> Killed \<longrightarrow> machine_run D (Up (tu_rt s)) cs = Up (tu_rt s')"
    using rounds_moves[OF assms(1) assms(2)[unfolded drive_tool_loop_durable_def]] unfolding turn_moves_def by blast
  have "\<exists>es. machine_run D (machine_run D (Up (tu_rt s)) cs) es = settle (r, tu_rt s')"
  proof (cases r)
    case Killed
    with l(1) show ?thesis by (intro exI[of _ "[CCrash]"]) (auto simp: turn_life_def machine_run_def settle_def)
  next
    case (Done x)
    with l(2) show ?thesis by (intro exI[of _ "[]"]) (simp add: machine_run_def settle_def)
  qed
  with l(1) that show ?thesis by blast
qed

text \<open>C2: a turn is run to any end, its process dying or not; anything may happen between; then the turn is
  run again, over whatever journal, models and messages. Both lives act on the runtime through keyed
  dispatches with rising numbers, and a dispatch that changed the world in the first life does not
  change it in the second.
\<close>

theorem turn_effects_once:
  assumes "tc_rt C = durable_rt D" "tc_rt C' = durable_rt D" "ta_turn A' = ta_turn A"
    and "jo_wf (dc_outbox D) (rt_outbox (tu_rt s))"
    and "drive_tool_loop_durable C A E budget ms t s = (r, s1)"
    and "machine_run D (settle (r, tu_rt s1)) between = Up (tu_rt s2)"
    and "drive_tool_loop_durable C' A' E' budget' ms' t' s2 = (r', s3)"
  shows "\<exists>cs ks cs' ks'. turn_life D (dispatch_step_name (ta_turn A)) cs ks (tu_rt s) (tu_rt s1) \<and>
    turn_life D (dispatch_step_name (ta_turn A)) cs' ks' (tu_rt s2) (tu_rt s3) \<and>
    (\<forall>i j. i < length ks \<and> j < length ks' \<and> ks ! i = ks' ! j \<and> moved D (Up (tu_rt s)) cs i \<longrightarrow>
       \<not> moved D (Up (tu_rt s2)) cs' j)"
proof -
  obtain cs ks es where 1: "turn_life D (dispatch_step_name (ta_turn A)) cs ks (tu_rt s) (tu_rt s1)"
      "machine_run D (machine_run D (Up (tu_rt s)) cs) es = settle (r, tu_rt s1)"
    by (rule durable_loop_life[OF assms(1,5)])
  obtain cs' ks' where 2: "turn_life D (dispatch_step_name (ta_turn A)) cs' ks' (tu_rt s2) (tu_rt s3)"
    using durable_loop_life[OF assms(2,7)] unfolding assms(3) by blast
  have between: "machine_run D (machine_run D (Up (tu_rt s)) cs) (es @ between) = Up (tu_rt s2)"
    unfolding machine_run_append 1(2) by (rule assms(6))
  have "\<not> moved D (Up (tu_rt s2)) cs' j"
    if "i < length ks" "j < length ks'" "ks ! i = ks' ! j" "moved D (Up (tu_rt s)) cs i" for i j
  proof (rule moved_blocks[OF _ _ _ _ _ that(4) between])
    show "jo_wf (dc_outbox D) (machine_outbox (Up (tu_rt s)))" using assms(4) by simp
    show "i < length cs" "dispatch_key D (cs ! i) = Some (dispatch_step_name (ta_turn A) (ks ! i))"
      using life_key[OF 1(1) that(1)] by auto
    show "j < length cs'" "dispatch_key D (cs' ! j) = Some (dispatch_step_name (ta_turn A) (ks ! i))"
      using life_key[OF 2 that(2)] that(3) by auto
  qed
  with 1(1) 2 show ?thesis by blast
qed

subsection \<open>A sample turn\<close>

text \<open>A tool that changes the world and then takes the process with it, and a model that calls it.\<close>

definition dying_executor :: "nat executor" where
  "dying_executor rq n = (Killed, Suc n)"

definition dying_runtime :: "jp_state \<Rightarrow> (jp_state, jo_state, nat) runtime" where
  "dying_runtime P = (sample_runtime (sample_pipe ReadOnly) P)\<lparr>rt_executors := [(7, dying_executor)]\<rparr>"

definition sample_call_a :: tool_call where
  "sample_call_a = \<lparr>tl_id = ''c1'', tl_name = ''a'', tl_args = JStr ''p''\<rparr>"

definition calling_models :: "nat models" where
  "calling_models =
     \<lparr>md_chat = (\<lambda>c ms ts ch n. (Inr \<lparr>cp_content = None, cp_calls = Some [sample_call_a]\<rparr>, Suc n)),
      md_text = (\<lambda>c ms n. (Inr ''hi'', Suc n)), md_now = (\<lambda>n. 0)\<rparr>"

definition sample_text :: json_text where
  "sample_text = \<lparr>jt_print = (\<lambda>v. ''{}''), jt_parse = (\<lambda>s. Inr (JObj []))\<rparr>"

definition sample_record_codec :: "dispatch_record step_codec" where
  "sample_record_codec = \<lparr>sc_enc = (\<lambda>d. Inr JNull), sc_dec = (\<lambda>v. Inl ''no record'')\<rparr>"

definition sample_turn_config ::
  "(jp_state, jo_state) rt_config \<Rightarrow> (jp_state, jo_state, in_memory_journal, nat) turn_config" where
  "sample_turn_config R =
     \<lparr>tc_rt = R, tc_journal = in_memory, tc_models = calling_models, tc_json = sample_text,
      tc_record = sample_record_codec, tc_lower = to_lower, tc_being = ''b'', tc_audit = False, tc_metrics = False,
      tc_target = None, tc_per_name = TOOL_BUDGET_PER_NAME, tc_fs_read = TOOL_BUDGET_FS_READ\<rparr>"

definition sample_args :: turn_args where
  "sample_args = \<lparr>ta_turn = 4, ta_base = 0, ta_now = 100, ta_id = 9, ta_query = []\<rparr>"

definition sample_turn_env :: turn_env where
  "sample_turn_env = \<lparr>te_llm = (\<lambda>_. (0, NoFault)), te_call = (\<lambda>_. sample_call), te_row = (\<lambda>_. (0, NoFault)),
     te_instant = (\<lambda>_. (0, 0)), te_event = (\<lambda>_. 0)\<rparr>"

definition sample_turn ::
  "(jp_state, jo_state, nat) runtime \<Rightarrow> (jp_state, jo_state, nat, in_memory_journal, nat) turn_state" where
  "sample_turn rt =
     \<lparr>tu_llm = sample_chain [sample_entry [''k'']], tu_net = 0, tu_rt = rt,
      tu_ctx = \<lparr>ctx_journal = [], replay = [], cursor = 0\<rparr>, tu_audit = [], tu_metrics = 0, tu_progress = []\<rparr>"

lemma andthen_killed: "m s = (Killed, s') \<Longrightarrow> andthen m f s = (Killed, s')"
  by (simp add: andthen_def)

lemma dying_submit:
  "\<exists>o1 p'. submit_task_idempotent (durable_rt sample_durable) sample_call key being 7 (JStr ''p'') 100 (dying_runtime P) =
     (Killed, (dying_runtime P)\<lparr>rt_outbox := o1, rt_pipe := p', rt_world := 1\<rparr>) \<and> jo_inv sample_jo o1"
proof -
  let ?s = "dying_runtime P" and ?R = "durable_rt sample_durable" and ?ids = "shift_ids 1 (ce_ids sample_call)"
  have l: "lookup_key ?R key ?s = (Done (Inr NotStarted), ?s)"
    using joc.lookup_state[OF sample_jo_fresh(2), of key] sample_jo_fresh(3)
    by (simp add: sample_durable_def sample_runtime_def dying_runtime_def ks_lookup_def ks_default_def lookup_key_def reading_def)
  obtain o1 where o1: "jo_intent sample_jo (ce_intent sample_call) jo_fresh key = (Done (Inr ()), o1)" "jo_inv sample_jo o1"
    using jo_intent_ok[OF sample_jo_fresh(2), of 1 key] by (auto simp: sample_call_def)
  then have i: "on_outbox (\<lambda>x. ob_intent (rc_outbox ?R) (ce_intent sample_call) x key) ?s = (Done (Inr ()), ?s\<lparr>rt_outbox := o1\<rparr>)"
    by (simp add: on_outbox_def dying_runtime_def sample_runtime_def sample_durable_def)
  let ?q = "hm_insert 5 (pipe_task\<lparr>t_status := Running, t_updated := 100\<rparr>)
      (hm_insert 5 (pipe_task\<lparr>t_status := Ready, t_updated := 100\<rparr>) (hm_insert 5 pipe_task (pl_queue (sample_pipe ReadOnly))))"
  let ?p = "(sample_pipe ReadOnly)\<lparr>pl_queue := ?q\<rparr>"
  have "run_with_input_taint sample_ext ?ids dying_executor pipe_task 100 False (sample_pipe ReadOnly, 0) =
      execute_and_finalize sample_ext ?ids dying_executor 5 (?ids 0) (t_payload pipe_task) 100 False (?p, 0)"
    using run_setup[OF sample_registry sample_pipe_facts(1-3), where X = sample_ext and ids = ?ids and
        exe = dying_executor and now = 100 and tainted = False and w = 0, of ReadOnly]
    by (simp only: sample_pipe_facts(4,7)) simp
  also have "\<exists>p'. \<dots> = (Killed, (p', 1))"
    by (simp add: execute_and_finalize_def andthen_def task_or_missing_def reading_def queue_get_def record_event_def
        run_executor_def dying_executor_def Let_def)
  finally obtain p' where "pipe_run (rc_ext ?R) ?ids dying_executor (task_new (ce_ids sample_call 0) 7 (JStr ''p'') 100) 100
      (rt_pipe (?s\<lparr>rt_outbox := o1\<rparr>), rt_world (?s\<lparr>rt_outbox := o1\<rparr>)) = (Killed, (p', 1))"
    by (auto simp: pipe_run_def sample_runtime_def dying_runtime_def sample_durable_def sample_call_def pipe_task_def)
  then have on: "on_pipe (pipe_run (rc_ext ?R) ?ids dying_executor (task_new (ce_ids sample_call 0) 7 (JStr ''p'') 100) 100)
      (?s\<lparr>rt_outbox := o1\<rparr>) = (Killed, ?s\<lparr>rt_outbox := o1, rt_pipe := p', rt_world := 1\<rparr>)"
    by (simp add: on_pipe_def)
  have exe: "reading (\<lambda>s. case hm_get (rt_executors s) 7 of None \<Rightarrow> Inl (UnknownSkill (show_uuid (rc_ext ?R) 7))
      | Some exe \<Rightarrow> Inr exe) (?s\<lparr>rt_outbox := o1\<rparr>) = (Done (Inr dying_executor), ?s\<lparr>rt_outbox := o1\<rparr>)"
    by (simp add: reading_def dying_runtime_def)
  have "submit_task_as ?R sample_call being 7 (JStr ''p'') 100 (?s\<lparr>rt_outbox := o1\<rparr>) =
      (Killed, ?s\<lparr>rt_outbox := o1, rt_pipe := p', rt_world := 1\<rparr>)"
    unfolding submit_task_as_def Let_def andthen_ok[where m = "reading h" for h, OF exe] by (rule andthen_killed[where m = "on_pipe h" for h, OF on])
  then have "submit_task_idempotent ?R sample_call key being 7 (JStr ''p'') 100 ?s =
      (Killed, ?s\<lparr>rt_outbox := o1, rt_pipe := p', rt_world := 1\<rparr>)"
    unfolding submit_task_idempotent_def andthen_ok[where m = "lookup_key R k" for R k, OF l] dispatch_lookup.case
      andthen_ok[where m = "on_outbox h" for h, OF i]
    by (simp add: andthen_def attempt_def)
  with o1(2) show ?thesis by blast
qed

text \<open>The model's first answer in the sample turn, whatever the runtime.\<close>

lemma sample_answer:
  "\<exists>s1. model_answer (sample_turn_config (durable_rt sample_durable)) sample_args sample_turn_env 0 lo (sample_turn rt) =
     (Done (Inr (None, Some [sample_call_a])), s1) \<and> tu_rt s1 = rt \<and> \<not> is_replaying (tu_ctx s1)"
proof -
  have "\<not> is_replaying (tu_ctx (sample_turn rt))" by (simp add: sample_turn_def is_replaying_def)
  then show ?thesis
    by (simp add: model_answer_def fresh_answer_def turn_then_def ask_tools_def turn_ret_def Let_def no_calls_def
        complete_with_tools_choice_def chain_complete_def run_pass.simps entry_loop.simps snapshot_clients_def
        sample_turn_config_def sample_turn_def sample_chain_def sample_entry_def from_resolved_def calling_models_def
        health_default_def is_cooled_def durable_step_def step_def vec_get_def projection_json_def sample_turn_env_def
        is_replaying_def advance_def split: prod.split)
qed

text \<open>The sample turn dies in its first dispatch, whose key is in the outbox then.\<close>

lemma sample_turn_dies:
  "\<exists>s1. drive_tool_loop_durable (sample_turn_config (durable_rt sample_durable)) sample_args sample_turn_env (Suc 0) [] []
     (sample_turn (dying_runtime P)) = (Killed, s1) \<and> rt_world (tu_rt s1) = 1 \<and> jo_inv sample_jo (rt_outbox (tu_rt s1)) \<and>
     rt_pending (tu_rt s1) = P \<and> rt_tasks (tu_rt s1) = (\<lambda>_. None)"
proof -
  let ?C = "sample_turn_config (durable_rt sample_durable)" and ?s = "sample_turn (dying_runtime P)"
  let ?A = sample_args and ?E = sample_turn_env
  obtain s1 where m: "model_answer ?C ?A ?E 0 (loop_start [] [] 0) ?s = (Done (Inr (None, Some [sample_call_a])), s1)"
      and s1: "tu_rt s1 = dying_runtime P" "\<not> is_replaying (tu_ctx s1)"
    using sample_answer[of "loop_start [] [] 0" "dying_runtime P"] by blast
  obtain o1 p' where sub: "submit_task_idempotent (durable_rt sample_durable) sample_call (dispatch_step_name 4 0) ''b'' 7
      (JStr ''p'') 100 (dying_runtime P) = (Killed, (dying_runtime P)\<lparr>rt_outbox := o1, rt_pipe := p', rt_world := 1\<rparr>)"
      and o1: "jo_inv sample_jo o1"
    using dying_submit by blast
  let ?s2 = "s1\<lparr>tu_rt := (dying_runtime P)\<lparr>rt_outbox := o1, rt_pipe := p', rt_world := 1\<rparr>\<rparr>"
  have d: "dispatch_tool ?C ?A ?E 0 7 (JStr ''p'') s1 = (Killed, ?s2)"
    using sub s1 by (simp add: dispatch_tool_def Let_def turn_then_def on_runtime_def sample_turn_config_def sample_args_def
        sample_turn_env_def)
  have skill: "map_name_to_skill ''a'' (dying_runtime P) = Some 7"
    by (simp add: map_name_to_skill_def dying_runtime_def sample_runtime_def sample_pipe_def registry_list_def
        sample_manifest_def)
  define lo where "lo = push (assistant_turn (None, Some [sample_call_a]) [sample_call_a])
      (hear (None, Some [sample_call_a]) (loop_start [] [] 0))"
  have lo: "lo_index lo = 0" "lo_uses lo = []" "lo_reads lo = 0"
    by (simp_all add: lo_def push_def hear_def loop_start_def)
  have c: "run_call ?C ?A ?E sample_call_a lo s1 = (Killed, ?s2)"
    using lo s1 skill turn_then_killed[where m = "dispatch_tool C A E k q v" for C A E k q v, OF d]
    by (simp add: run_call_def Let_def sample_call_a_def over_budget_def count_use_def uses_def emit_progress_def
        sample_turn_config_def TOOL_BUDGET_PER_NAME_def str_contains_def starts_with_def)
  have "drive_tool_loop_durable ?C ?A ?E (Suc 0) [] [] ?s = (Killed, ?s2)"
  proof -
    have "rounds ?C ?A ?E (Suc 0) (Suc 0) (loop_start [] [] 0) ?s =
        turn_then (run_calls ?C ?A ?E [sample_call_a] lo)
          (\<lambda>r. case r of Inl out \<Rightarrow> turn_ret out | Inr lo2 \<Rightarrow> rounds ?C ?A ?E (Suc 0) 0 lo2) s1"
      unfolding lo_def by (rule rounds_calling) (simp_all add: m)
    also have "\<dots> = (Killed, ?s2)"
      by (rule turn_then_killed) (simp add: turn_then_killed[where m = "run_call C A E k q" for C A E k q, OF c])
    finally show ?thesis by (simp add: drive_tool_loop_durable_def sample_args_def)
  qed
  then show ?thesis using o1 by (auto simp: dying_runtime_def sample_runtime_def)
qed

text \<open>It runs again after a restart, where the key keeps its tool from running a second time.\<close>

theorem turn_effects_once_witness:
  "\<exists>P s1 rt2 r' s3 cs ks cs' ks'.
     drive_tool_loop_durable (sample_turn_config (durable_rt sample_durable)) sample_args sample_turn_env (Suc 0) [] []
       (sample_turn (dying_runtime P)) = (Killed, s1) \<and> rt_world (tu_rt s1) = 1 \<and>
     machine_run sample_durable (settle (Killed :: nat outcome, tu_rt s1)) [CBoot] = Up rt2 \<and>
     drive_tool_loop_durable (sample_turn_config (durable_rt sample_durable)) sample_args sample_turn_env (Suc 0) [] []
       (sample_turn rt2) = (r', s3) \<and>
     turn_life sample_durable (dispatch_step_name 4) cs ks (dying_runtime P) (tu_rt s1) \<and> turn_life sample_durable (dispatch_step_name 4) cs' ks' rt2 (tu_rt s3) \<and>
     (\<forall>i j. i < length ks \<and> j < length ks' \<and> ks ! i = ks' ! j \<and> moved sample_durable (Up (dying_runtime P)) cs i \<longrightarrow>
        \<not> moved sample_durable (Up rt2) cs' j)"
proof -
  obtain P where P: "jp_inv sample_jp P" using sample_jp_fresh by blast
  obtain s1 where s1: "drive_tool_loop_durable (sample_turn_config (durable_rt sample_durable)) sample_args sample_turn_env
      (Suc 0) [] [] (sample_turn (dying_runtime P)) = (Killed, s1)" "rt_world (tu_rt s1) = 1"
      "jo_inv sample_jo (rt_outbox (tu_rt s1))" "rt_pending (tu_rt s1) = P" "rt_tasks (tu_rt s1) = (\<lambda>_. None)"
    using sample_turn_dies by blast
  have D: "dc_pending sample_durable = sample_jp" "dc_outbox sample_durable = sample_jo" by (simp_all add: sample_durable_def)
  obtain rt2 where rt2: "with_durable_stores sample_durable (rt_disks (tu_rt s1)) (rt_world (tu_rt s1)) = (Inr rt2, rt_disks (tu_rt s1))"
    by (rule booted[of sample_durable "tu_rt s1" "[]" "rt_world (tu_rt s1)"]) (use P s1 D in \<open>auto simp: reload_def\<close>)
  then have up: "machine_run sample_durable (settle (Killed, tu_rt s1)) [CBoot] = Up (tu_rt (sample_turn rt2))"
    by (simp add: machine_run_def settle_def sample_turn_def)
  obtain r' s3 where s3: "drive_tool_loop_durable (sample_turn_config (durable_rt sample_durable)) sample_args sample_turn_env
      (Suc 0) [] [] (sample_turn rt2) = (r', s3)" by (rule prod.exhaust)
  have "jo_wf (dc_outbox sample_durable) (rt_outbox (tu_rt (sample_turn (dying_runtime P))))"
    using jo_inv_wf[OF sample_jo_fresh(2)] by (simp add: D sample_turn_def dying_runtime_def sample_runtime_def)
  note once = turn_effects_once[OF _ _ refl this s1(1) up s3]
  have C: "tc_rt (sample_turn_config (durable_rt sample_durable)) = durable_rt sample_durable" "ta_turn sample_args = 4"
    "tu_rt (sample_turn rt) = rt" for rt by (simp_all add: sample_turn_config_def sample_args_def sample_turn_def)
  have up': "machine_run sample_durable (settle (Killed :: nat outcome, tu_rt s1)) [CBoot] = Up rt2"
    using rt2 by (simp add: machine_run_def settle_def)
  show ?thesis using s1(1,2) up' s3 once[unfolded C, OF refl refl] by blast
qed

end
