(* ===== verification/Resume_Effects.thy ===== *)
theory Resume_Effects
  imports Resume Turn_Effects
begin

section \<open>What resuming does to the tools' world\<close>

text \<open>
  Resuming reaches the runtime through the approval and through keyed submissions, whose keys are numbered
  upwards from the approval; a turn that has to be given up aborts its approval. With the outbox this
  gives that the approved call and every later dispatch runs its executor at most once, however often
  the approval is resumed.
\<close>

text \<open>The keys of one resumption: the approval, then the dispatches.\<close>

definition resume_keys :: "ext \<Rightarrow> approval_id \<Rightarrow> nat \<Rightarrow> string" where
  "resume_keys X i n = (case n of 0 \<Rightarrow> approval_dispatch_key X i | Suc k \<Rightarrow> resume_key (resume_prefix X i) k)"

lemma on_runtime_rt: "on_runtime m s = (r, s') \<Longrightarrow> \<exists>q. m (tu_rt s) = (q, tu_rt s') \<and> (r = Killed \<longleftrightarrow> q = Killed)"
  by (auto simp: on_runtime_def split: prod.splits outcome.splits)

lemma settle_plain_rt:
  "settle_plain C A E call lo x s = (r, s') \<Longrightarrow>
     tu_rt s' = tu_rt s \<and> r \<noteq> Killed \<and> (\<forall>lo'. r = Done (Inr (Inr lo')) \<longrightarrow> lo_index lo' = lo_index lo)"
  by (auto simp: settle_plain_def turn_ret_def Let_def split: option.splits sum.splits)

lemma ask_plain_rt: "ask_plain C lo s = (r, s') \<Longrightarrow> tu_rt s' = tu_rt s"
  by (auto simp: ask_plain_def turn_ret_def elim!: turn_then_cases dest!: ask_tools_rt)

lemma dispatch_plain_moves:
  assumes "tc_rt C = durable_rt D" "dispatch_plain C A E (Some (resume_prefix X i)) k skill args s = (r, s')"
  shows "turn_moves D (resume_keys X i) (Suc k) (Suc (Suc k)) (r \<noteq> Killed) (tu_rt s) (tu_rt s')"
proof -
  obtain q where q: "submit_task_idempotent (durable_rt D) (te_call E k) (resume_keys X i (Suc k)) (tc_being C) skill args (ta_now A)
      (tu_rt s) = (q, tu_rt s')" "r = Killed \<longleftrightarrow> q = Killed"
    using on_runtime_rt assms unfolding dispatch_plain_def by (fastforce simp: resume_keys_def)
  from moves_one[where key = "resume_keys X i" and k = "Suc k", OF q(1)] q(2) show ?thesis by simp
qed

lemma call_plain_moves:
  assumes "tc_rt C = durable_rt D" "call_plain C A E (Some (resume_prefix X i)) call lo s = (r, s')"
  shows "\<exists>n. lo_index lo \<le> n \<and> turn_moves D (resume_keys X i) (Suc (lo_index lo)) (Suc n) (r \<noteq> Killed) (tu_rt s) (tu_rt s') \<and>
    (\<forall>lo'. r = Done (Inr (Inr lo')) \<longrightarrow> lo_index lo' = n)"
proof (cases "map_name_to_skill (tl_name call) (tu_rt s)")
  case None
  then show ?thesis using assms(2) by (auto simp: call_plain_def Let_def turn_ret_def intro: moves_refl)
next
  case (Some skill)
  have "turn_then (dispatch_plain C A E (Some (resume_prefix X i)) (lo_index lo) skill (tl_args call))
      (settle_plain C A E call (lo\<lparr>lo_index := lo_index lo + 1\<rparr>)) s = (r, s')"
    using assms(2) Some by (simp add: call_plain_def)
  then show ?thesis
  proof (cases rule: turn_then_cases)
    case (1 d s2)
    from dispatch_plain_moves[OF assms(1) 1(1)] settle_plain_rt[OF 1(2)] show ?thesis
      by (intro exI[of _ "Suc (lo_index lo)"]) (auto intro: moves_killed)
  next
    case 2
    from dispatch_plain_moves[OF assms(1) 2(1)] 2(2) show ?thesis
      by (intro exI[of _ "Suc (lo_index lo)"]) (auto intro: moves_killed)
  next
    case 3
    from dispatch_plain_moves[OF assms(1) 3(1)] 3(2) show ?thesis
      by (intro exI[of _ "Suc (lo_index lo)"]) (auto simp: turn_moves_def)
  qed
qed

lemma calls_plain_moves:
  assumes "tc_rt C = durable_rt D" "calls_plain C A E (Some (resume_prefix X i)) calls lo s = (r, s')"
  shows "\<exists>n. lo_index lo \<le> n \<and> turn_moves D (resume_keys X i) (Suc (lo_index lo)) (Suc n) (r \<noteq> Killed) (tu_rt s) (tu_rt s') \<and>
    (\<forall>lo'. r = Done (Inr (Inr lo')) \<longrightarrow> lo_index lo' = n)"
  using assms(2)
proof (induction calls arbitrary: lo s)
  case Nil
  then show ?case by (auto simp: turn_ret_def intro: moves_refl)
next
  case (Cons call calls)
  from Cons.prems[unfolded calls_plain.simps] show ?case
  proof (cases rule: turn_then_cases)
    case (1 x s1)
    obtain n where n: "lo_index lo \<le> n" "turn_moves D (resume_keys X i) (Suc (lo_index lo)) (Suc n) True (tu_rt s) (tu_rt s1)"
        "\<forall>lo'. x = Inr lo' \<longrightarrow> lo_index lo' = n"
      using call_plain_moves[OF assms(1) 1(1)] by fastforce
    show ?thesis
    proof (cases x)
      case (Inl out)
      with 1(2) n show ?thesis by (intro exI[of _ n]) (auto simp: turn_ret_def intro: moves_killed)
    next
      case (Inr lo')
      then obtain m where "n \<le> m" "turn_moves D (resume_keys X i) (Suc n) (Suc m) (r \<noteq> Killed) (tu_rt s1) (tu_rt s')"
          "\<forall>lo''. r = Done (Inr (Inr lo'')) \<longrightarrow> lo_index lo'' = m"
        using Cons.IH[of lo' s1] 1(2) n(3)[rule_format] Inr by auto
      with n(1) moves_trans[OF n(2)] show ?thesis by (intro exI[of _ m]) auto
    qed
  next
    case 2
    from call_plain_moves[OF assms(1) 2(1)] 2(2) show ?thesis by (auto intro: moves_killed)
  next
    case 3
    from call_plain_moves[OF assms(1) 3(1)] 3(2) show ?thesis by (auto simp: turn_moves_def)
  qed
qed

lemma rounds_plain_moves:
  assumes "tc_rt C = durable_rt D" "rounds_plain C A E (Some (resume_prefix X i)) budget left lo s = (r, s')"
  shows "\<exists>n. lo_index lo \<le> n \<and> turn_moves D (resume_keys X i) (Suc (lo_index lo)) (Suc n) (r \<noteq> Killed) (tu_rt s) (tu_rt s')"
  using assms(2)
proof (induction left arbitrary: lo s)
  case 0
  then have "tu_rt s' = tu_rt s"
    by (auto simp: turn_ret_def elim!: turn_then_cases split: if_splits dest: recover_rt)
  then show ?case by (auto intro: moves_refl)
next
  case (Suc left)
  from Suc.prems[unfolded rounds_plain.simps Let_def] show ?case
  proof (cases rule: turn_then_cases)
    case (1 p s1)
    note rt = ask_plain_rt[OF 1(1)]
    show ?thesis
    proof (cases "no_calls (snd p)")
      case True
      with 1(2) rt show ?thesis by (auto simp: no_calls_def turn_ret_def intro: moves_refl split: option.splits list.splits)
    next
      case False
      then obtain call calls where cs: "snd p = Some (call # calls)"
        by (auto simp: no_calls_def neq_Nil_conv split: option.splits)
      define lo1 where "lo1 = push (assistant_turn p (call # calls)) (hear p lo)"
      have "turn_then (calls_plain C A E (Some (resume_prefix X i)) (call # calls) lo1)
          (\<lambda>x. case x of Inl out \<Rightarrow> turn_ret out | Inr lo2 \<Rightarrow> rounds_plain C A E (Some (resume_prefix X i)) budget left lo2) s1 = (r, s')"
        using 1(2) cs by (simp add: lo1_def)
      then show ?thesis
      proof (cases rule: turn_then_cases)
        case (1 x s2)
        have "\<exists>n. lo_index lo \<le> n \<and> turn_moves D (resume_keys X i) (Suc (lo_index lo)) (Suc n) True (tu_rt s) (tu_rt s2) \<and>
            (\<forall>lo'. x = Inr lo' \<longrightarrow> lo_index lo' = n)"
          using calls_plain_moves[OF assms(1) 1(1)] by (simp add: lo1_def rt)
        then obtain n where n: "lo_index lo \<le> n" "turn_moves D (resume_keys X i) (Suc (lo_index lo)) (Suc n) True (tu_rt s) (tu_rt s2)"
            "\<forall>lo'. x = Inr lo' \<longrightarrow> lo_index lo' = n"
          by blast
        show ?thesis
        proof (cases x)
          case (Inl out)
          with 1(2) n show ?thesis by (intro exI[of _ n]) (auto simp: turn_ret_def intro: moves_killed)
        next
          case (Inr lo2)
          then obtain m where "n \<le> m" "turn_moves D (resume_keys X i) (Suc n) (Suc m) (r \<noteq> Killed) (tu_rt s2) (tu_rt s')"
            using Suc.IH[of lo2 s2] 1(2) n(3)[rule_format] Inr by auto
          with n(1) moves_trans[OF n(2)] show ?thesis by (intro exI[of _ m]) auto
        qed
      next
        case 2
        from calls_plain_moves[OF assms(1) 2(1)] 2(2) rt show ?thesis by (auto simp: lo1_def intro: moves_killed)
      next
        case 3
        from calls_plain_moves[OF assms(1) 3(1)] 3(2) rt show ?thesis by (auto simp: lo1_def turn_moves_def)
      qed
    qed
  next
    case 2
    with ask_plain_rt[OF 2(1)] show ?thesis by (auto intro: moves_refl)
  next
    case 3
    with ask_plain_rt[OF 3(1)] show ?thesis by (auto intro: moves_refl)
  qed
qed

subsection \<open>Steps without a dispatch\<close>

text \<open>Commands that run no executor: the abort of an approval, and the death of the process.\<close>

definition unkeyed :: "'w command \<Rightarrow> bool" where
  "unkeyed c \<longleftrightarrow> c = CCrash \<or> (\<exists>env i now. c = CAbort env i now)"

abbreviation ag_rt :: "('p, 'o, 'w, 'j, 'n, 'r) agent_state \<Rightarrow> ('p, 'o, 'w) runtime" where
  "ag_rt a \<equiv> tu_rt (ag_turn a)"

definition rests ::
  "durable_config \<Rightarrow> ((jp_state, jo_state, 'w, 'j, 'n, 'r) agent_state, 'a) turn_act \<Rightarrow> bool" where
  "rests D m \<longleftrightarrow> (\<forall>a r a'. m a = (r, a') \<longrightarrow>
     (\<exists>es. list_all unkeyed es \<and> machine_run D (Up (ag_rt a)) es = settle (r, ag_rt a')))"

named_theorems resting \<open>steps of the agent that dispatch nothing\<close>

lemma rests_same:
  fixes m :: "((jp_state, jo_state, 'w, 'j, 'n, 'r) agent_state, 'a) turn_act"
  assumes "\<And>a r a'. m a = (r, a') \<Longrightarrow> ag_rt a' = ag_rt a"
  shows "rests D m"
  unfolding rests_def
proof (intro allI impI)
  fix a a' :: "(jp_state, jo_state, 'w, 'j, 'n, 'r) agent_state" and r assume "m a = (r, a')"
  with assms have rt: "ag_rt a' = ag_rt a" by blast
  show "\<exists>es. list_all unkeyed es \<and> machine_run D (Up (ag_rt a)) es = settle (r, ag_rt a')"
  proof (cases r)
    case Killed
    then show ?thesis using rt
      by (intro exI[of _ "[CCrash]"]) (simp add: unkeyed_def machine_run_def settle_def)
  next
    case (Done x)
    then show ?thesis using rt by (intro exI[of _ "[]"]) (simp add: machine_run_def settle_def)
  qed
qed

lemma rests_pure [resting]: "rests D (turn_ret x)" "rests D (turn_throw e)" "rests D (\<lambda>a. turn_ret (g a) a)"
  by (rule rests_same; simp add: turn_ret_def turn_throw_def)+

lemma on_store_rt: "on_store g a = (r, a') \<Longrightarrow> ag_rt a' = ag_rt a"
  by (auto simp: on_store_def split: outcome.splits prod.splits)

lemma agent_note_rt: "agent_note AC A E kind d a = (r, a') \<Longrightarrow> ag_rt a' = ag_rt a"
  by (auto simp: agent_note_def on_turn_def turn_ret_def record_turn_audit_into_def)

lemma waiting_expiry_rt: "waiting_expiry AC A i a = (r, a') \<Longrightarrow> ag_rt a' = ag_rt a"
  by (auto simp: waiting_expiry_def turn_ret_def Let_def split: option.splits if_splits)

lemma rests_steps [resting]: "rests D (on_store g)" "rests D (agent_note AC A E kind d)" "rests D (waiting_expiry AC A i)"
  by (rule rests_same; erule on_store_rt agent_note_rt waiting_expiry_rt)+

lemma rests_then [resting]:
  fixes m :: "((jp_state, jo_state, 'w, 'j, 'n, 'r) agent_state, 'a) turn_act"
  assumes "rests D m" "\<And>x. rests D (f x)"
  shows "rests D (turn_then m f)"
  unfolding rests_def
proof (intro allI impI)
  fix a a' :: "(jp_state, jo_state, 'w, 'j, 'n, 'r) agent_state" and r assume "turn_then m f a = (r, a')"
  then show "\<exists>es. list_all unkeyed es \<and> machine_run D (Up (ag_rt a)) es = settle (r, ag_rt a')"
  proof (cases rule: turn_then_cases)
    case (1 x a1)
    obtain es where es: "list_all unkeyed es" "machine_run D (Up (ag_rt a)) es = Up (ag_rt a1)"
      using assms(1) 1(1) unfolding rests_def by (fastforce simp: settle_def)
    obtain fs where "list_all unkeyed fs" "machine_run D (Up (ag_rt a1)) fs = settle (r, ag_rt a')"
      using assms(2) 1(2) unfolding rests_def by blast
    with es show ?thesis by (intro exI[of _ "es @ fs"]) (simp add: machine_run_append)
  next
    case (2 e)
    with assms(1) show ?thesis unfolding rests_def by (fastforce simp: settle_def)
  next
    case 3
    with assms(1) show ?thesis unfolding rests_def by (fastforce simp: settle_def)
  qed
qed

lemma rests_abort [resting]:
  assumes "tc_rt (ac_turn AC) = durable_rt D"
  shows "rests D (on_turn (on_runtime (abort_pending_after_continuation_failure (tc_rt (ac_turn AC)) env i now)))"
  unfolding rests_def
proof (intro allI impI)
  fix a a' r
  assume "on_turn (on_runtime (abort_pending_after_continuation_failure (tc_rt (ac_turn AC)) env i now)) a = (r, a')"
  then have "on_runtime (abort_pending_after_continuation_failure (durable_rt D) env i now) (ag_turn a) = (r, ag_turn a')"
    using assms by (auto simp: on_turn_def split: prod.splits)
  from on_runtime_rt[OF this] obtain q where q: "abort_pending_after_continuation_failure (durable_rt D) env i now (ag_rt a) =
      (q, ag_rt a')" "r = Killed \<longleftrightarrow> q = Killed" by blast
  then show "\<exists>es. list_all unkeyed es \<and> machine_run D (Up (ag_rt a)) es = settle (r, ag_rt a')"
    by (intro exI[of _ "[CAbort env i now]"]) (auto simp: unkeyed_def machine_run_def settle_def split: outcome.splits)
qed

lemma rests_by_state:
  assumes "\<And>a. \<exists>m'. rests D m' \<and> m a = m' a"
  shows "rests D m"
  using assms unfolding rests_def by metis

lemma rests_persist [resting]:
  assumes "tc_rt (ac_turn AC) = durable_rt D"
  shows "rests D (persist_resumable_or_abort_pending AC E i t now)"
proof -
  have undone: "rests D (rolled_back AC E i now what tidy)" for what tidy
    unfolding rolled_back_def rollback_non_durable_suspend_def by (intro resting assms)
  have put: "rests D (turn_then (on_store h) (\<lambda>written. case written of Inl e \<Rightarrow> rolled_back AC E i now (w e) ok | Inr _ \<Rightarrow> turn_ret ()))"
    for h w ok by (intro resting) (simp add: undone resting split: sum.split)
  show ?thesis
  proof (rule rests_by_state)
    fix a
    show "\<exists>m'. rests D m' \<and> persist_resumable_or_abort_pending AC E i t now a = m' a"
    proof (cases "try_pending_approvals (tc_rt (ac_turn AC)) (ag_rt a)")
      case (Inl e)
      show ?thesis
        by (intro exI conjI, rule undone) (simp only: persist_resumable_or_abort_pending_def Inl sum.case)
    next
      case (Inr ps)
      show ?thesis
      proof (cases "\<exists>p \<in> set ps. pa_approval p = i")
        case True
        show ?thesis
          by (intro exI conjI, rule put)
            (simp only: persist_resumable_or_abort_pending_def Inr sum.case True simp_thms if_False)
      next
        case False
        show ?thesis
          by (intro exI conjI, rule undone)
            (simp only: persist_resumable_or_abort_pending_def Inr sum.case False simp_thms if_True)
      qed
    qed
  qed
qed

lemma rests_suspend [resting]:
  "tc_rt (ac_turn AC) = durable_rt D \<Longrightarrow> rests D (suspend_turn AC A E origin turn tool i summary ms call args)"
  unfolding suspend_turn_def by (intro resting)

subsection \<open>One resumption\<close>

text \<open>The keyed commands of a resumption with the numbers of their keys, and what follows them.\<close>

definition agent_life ::
  "durable_config \<Rightarrow> (nat \<Rightarrow> string) \<Rightarrow> 'w command list \<Rightarrow> nat list \<Rightarrow> 'w command list \<Rightarrow> 'w machine \<Rightarrow> 'w machine \<Rightarrow> bool" where
  "agent_life D key cs ks es m m' \<longleftrightarrow>
     map (dispatch_key D) cs = map (\<lambda>k. Some (key k)) ks \<and> sorted_wrt (<) ks \<and> list_all unkeyed es \<and>
     machine_run D m (cs @ es) = m'"

definition moves_from ::
  "durable_config \<Rightarrow> (nat \<Rightarrow> string) \<Rightarrow> nat \<Rightarrow> ((jp_state, jo_state, 'w, 'j, 'n, 'r) agent_state, 'a) turn_act \<Rightarrow> bool" where
  "moves_from D key n m \<longleftrightarrow> (\<forall>a r a'. m a = (r, a') \<longrightarrow>
     (\<exists>cs ks es. agent_life D key cs ks es (Up (ag_rt a)) (settle (r, ag_rt a')) \<and> (\<forall>k \<in> set ks. n \<le> k)))"

lemma moves_resting: "rests D m \<Longrightarrow> moves_from D key n m"
  unfolding rests_def moves_from_def agent_life_def by (metis append_Nil list.simps(8) sorted_wrt.simps(1) empty_iff list.set(1))

lemma moves_rest_then:
  fixes m :: "((jp_state, jo_state, 'w, 'j, 'n, 'r) agent_state, 'a) turn_act"
  assumes "\<And>a r a'. m a = (r, a') \<Longrightarrow> ag_rt a' = ag_rt a" "\<And>x. moves_from D key n (f x)"
  shows "moves_from D key n (turn_then m f)"
  unfolding moves_from_def
proof (intro allI impI)
  fix a a' :: "(jp_state, jo_state, 'w, 'j, 'n, 'r) agent_state" and r assume t: "turn_then m f a = (r, a')"
  from t show "\<exists>cs ks es. agent_life D key cs ks es (Up (ag_rt a)) (settle (r, ag_rt a')) \<and> (\<forall>k \<in> set ks. n \<le> k)"
  proof (cases rule: turn_then_cases)
    case (1 x a1)
    then show ?thesis using assms(2)[of x] assms(1)[OF 1(1)] unfolding moves_from_def by metis
  next
    case (2 e)
    have "rests D (\<lambda>a. (Done (Inl e) :: (core_error + 'b) outcome, a))"
      for e :: core_error by (rule rests_same) simp
    from moves_resting[OF this, of key n] assms(1)[OF 2(1)] 2(2) show ?thesis
      unfolding moves_from_def by (metis (no_types, lifting))
  next
    case 3
    have "rests D (\<lambda>a. (Killed :: (core_error + 'b) outcome, a))" by (rule rests_same) simp
    from moves_resting[OF this, of key n] assms(1)[OF 3(1)] 3(2) show ?thesis
      unfolding moves_from_def by (metis (no_types, lifting))
  qed
qed

lemma moves_then:
  fixes m :: "((jp_state, jo_state, 'w, 'j, 'n, 'r) agent_state, 'a) turn_act"
  assumes "\<And>a r a'. m a = (r, a') \<Longrightarrow>
    \<exists>n'. n \<le> n' \<and> turn_moves D key n n' (r \<noteq> Killed) (ag_rt a) (ag_rt a') \<and> (\<forall>x. moves_from D key n' (f x))"
  shows "moves_from D key n (turn_then m f)"
  unfolding moves_from_def
proof (intro allI impI)
  fix a a' :: "(jp_state, jo_state, 'w, 'j, 'n, 'r) agent_state" and r assume t: "turn_then m f a = (r, a')"
  have stop: "\<exists>cs ks es. agent_life D key cs ks es (Up (ag_rt a)) (settle (r, ag_rt a')) \<and> (\<forall>k \<in> set ks. n \<le> k)"
    if q: "m a = (q, a')" "q = Killed \<longleftrightarrow> r = Killed" for q :: "(core_error + 'a) outcome"
  proof -
    obtain n' where n': "turn_moves D key n n' (r \<noteq> Killed) (ag_rt a) (ag_rt a')" using assms[OF q(1)] q(2) by auto
    then obtain cs ks where l: "turn_life D key cs ks (ag_rt a) (ag_rt a')" "\<forall>k \<in> set ks. n \<le> k"
        "r \<noteq> Killed \<longrightarrow> machine_run D (Up (ag_rt a)) cs = Up (ag_rt a')"
      unfolding turn_moves_def by blast
    show ?thesis
    proof (cases r)
      case Killed
      with l show ?thesis
        by (intro exI[of _ cs] exI[of _ ks] exI[of _ "[CCrash]"])
          (auto simp: agent_life_def turn_life_def machine_run_append unkeyed_def machine_run_def settle_def)
    next
      case (Done x)
      with l show ?thesis
        by (intro exI[of _ cs] exI[of _ ks] exI[of _ "[]"]) (auto simp: agent_life_def turn_life_def settle_def)
    qed
  qed
  from t show "\<exists>cs ks es. agent_life D key cs ks es (Up (ag_rt a)) (settle (r, ag_rt a')) \<and> (\<forall>k \<in> set ks. n \<le> k)"
  proof (cases rule: turn_then_cases)
    case (1 x a1)
    obtain n' where n': "n \<le> n'" "turn_moves D key n n' True (ag_rt a) (ag_rt a1)" "moves_from D key n' (f x)"
      using assms[OF 1(1)] by auto
    obtain cs ks where l: "turn_life D key cs ks (ag_rt a) (ag_rt a1)" "\<forall>k \<in> set ks. n \<le> k \<and> k < n'"
        "machine_run D (Up (ag_rt a)) cs = Up (ag_rt a1)"
      using n'(2) unfolding turn_moves_def by blast
    obtain ds ls es where g: "agent_life D key ds ls es (Up (ag_rt a1)) (settle (r, ag_rt a'))" "\<forall>k \<in> set ls. n' \<le> k"
      using n'(3) 1(2) unfolding moves_from_def by blast
    have "agent_life D key (cs @ ds) (ks @ ls) es (Up (ag_rt a)) (settle (r, ag_rt a'))"
      using l g by (fastforce simp: agent_life_def turn_life_def sorted_wrt_append machine_run_append)
    moreover have "\<forall>k \<in> set (ks @ ls). n \<le> k" using l(2) g(2) n'(1) by auto
    ultimately show ?thesis by blast
  next
    case (2 e)
    with stop[of "Done (Inl e)"] show ?thesis by simp
  next
    case 3
    with stop[of Killed] show ?thesis by simp
  qed
qed

lemma rests_end:
  assumes "tc_rt (ac_turn AC) = durable_rt D"
  shows "rests D (case out of
          Answer t \<Rightarrow> turn_then (agent_note AC A E TurnAnswered (answered_detail t)) (\<lambda>_. turn_ret (Reply t))
        | AwaitingApproval tool next summary ms call args \<Rightarrow>
            turn_then (suspend_turn AC A E origin (ac_counter AC) tool next summary ms call args) (\<lambda>_.
            turn_then (agent_note AC A E TurnSuspended (suspended_detail (ac_ext AC) next summary)) (\<lambda>_.
            turn_ret (SuspendedOn next summary)))
        | MaxIterations n \<Rightarrow>
            turn_then (agent_note AC A E TurnMaxIterations (exhausted_detail n)) (\<lambda>_. turn_ret (Reply recovery_fallback_reply)))"
  by (cases out) (simp_all add: resting assms)

lemma continue_moves:
  assumes "tc_rt (ac_turn AC) = durable_rt D"
  shows "moves_from D (resume_keys (dc_ext D) i) 1 (continue_turn AC A E i origin messages)"
  unfolding continue_turn_def
proof (rule moves_then, goal_cases)
  case (1 a r a')
  then have run: "rounds_plain (ac_turn AC) A (ae_turn E) (Some (resume_prefix (dc_ext D) i)) (ac_rounds AC) (ac_rounds AC)
      (loop_start messages [] 0) (ag_turn a) = (r, ag_turn a')"
    using assms by (auto simp: on_turn_def drive_tool_loop_def split: prod.splits)
  obtain n where n: "turn_moves D (resume_keys (dc_ext D) i) 1 (Suc n) (r \<noteq> Killed) (ag_rt a) (ag_rt a')"
    using rounds_plain_moves[OF assms run] by (auto simp: loop_start_def)
  show ?case using n by (intro exI[of _ "Suc n"]) (auto simp: moves_resting[OF rests_end[OF assms]])
qed

lemma granted_moves:
  assumes "tc_rt (ac_turn AC) = durable_rt D" "granted AC E i now a = (r, a')"
  shows "turn_moves D (resume_keys (dc_ext D) i) 0 1 (r \<noteq> Killed) (ag_rt a) (ag_rt a')"
proof -
  obtain q where q: "approve (durable_rt D) (ae_approve E) i now (ag_rt a) = (q, ag_rt a')" "r = Killed \<longleftrightarrow> q = Killed"
    using assms(2)[unfolded granted_def]
  proof (cases rule: turn_then_cases)
    case (1 x a1)
    moreover have "ag_rt a' = ag_rt a1 \<and> r \<noteq> Killed"
      using 1(2) by (cases x) (auto simp: turn_throw_def turn_ret_def)
    ultimately show ?thesis
      using that assms(1) on_runtime_rt[of "approve (durable_rt D) (ae_approve E) i now" "ag_turn a" "Done (Inr x)" "ag_turn a1"]
      by (auto simp: on_turn_def split: prod.splits)
  next
    case (2 e)
    then show ?thesis
      using that assms(1) on_runtime_rt[of "approve (durable_rt D) (ae_approve E) i now" "ag_turn a" "Done (Inl e)" "ag_turn a'"]
      by (auto simp: on_turn_def split: prod.splits)
  next
    case 3
    then show ?thesis
      using that assms(1) on_runtime_rt[of "approve (durable_rt D) (ae_approve E) i now" "ag_turn a" Killed "ag_turn a'"]
      by (auto simp: on_turn_def split: prod.splits)
  qed
  let ?c = "CApprove (ae_approve E) i now"
  have "machine_run D (Up (ag_rt a)) [?c] = settle (q, ag_rt a')" using q(1) by (simp add: machine_run_def)
  then show ?thesis
    unfolding turn_moves_def turn_life_def using q(2)
    by (intro exI[of _ "[?c]"] exI[of _ "[0]"]) (cases q; simp add: settle_def resume_keys_def)
qed

lemma resume_moves:
  assumes "tc_rt (ac_turn AC) = durable_rt D"
  shows "moves_from D (resume_keys (dc_ext D) i) 0 (resume_approved AC A E i)"
proof -
  let ?key = "resume_keys (dc_ext D) i"
  have after: "moves_from D ?key 1
      (turn_then (\<lambda>a. turn_ret (g a) a) (\<lambda>text.
       turn_then (on_store h) (\<lambda>_.
       turn_then (agent_note AC A E TurnResumed d) (\<lambda>_.
       if \<not> ac_llm AC then turn_ret NoReply else continue_turn AC A E i origin (k text)))))" for g h d origin k
  proof (intro moves_rest_then)
    show "moves_from D ?key 1 (if \<not> ac_llm AC then turn_ret NoReply else continue_turn AC A E i origin (k x))" for x
      by (simp add: continue_moves[OF assms] continue_moves[OF assms, simplified] moves_resting[OF rests_pure(1)])
  qed (auto dest: on_store_rt agent_note_rt simp: turn_ret_def)
  have go: "moves_from D ?key 0 (turn_then (granted AC E i now) (\<lambda>sub. turn_then (\<lambda>a. turn_ret (g sub a) a) (\<lambda>text.
       turn_then (on_store h) (\<lambda>_.
       turn_then (agent_note AC A E TurnResumed d) (\<lambda>_.
       if \<not> ac_llm AC then turn_ret NoReply else continue_turn AC A E i origin (k text))))))" for now g h d origin k
    by (rule moves_then) (use granted_moves[OF assms] after in \<open>fastforce intro: exI[of _ 1]\<close>)
  have stored: "stored_turn AC i a = (r, a') \<Longrightarrow> ag_rt a' = ag_rt a" for a r a'
    by (auto simp: stored_turn_def turn_throw_def turn_ret_def split: sum.splits option.splits)
  show ?thesis
    unfolding resume_approved_def resumed_def
    by (intro moves_rest_then stored) (auto simp: go[simplified] moves_resting[OF rests_pure(2)])
qed

end
