(* ===== verification/Resume_Laws.thy ===== *)
theory Resume_Laws
  imports Resume_Effects
begin

section \<open>What resuming promises\<close>

text \<open>
  The call that was approved and the dispatches after it run at most once over any number of resumptions,
  a reported suspension is on disk, and what becomes of the other calls of the suspended round.
\<close>

subsection \<open>The world\<close>

lemma stays_attempt: "preserves still m \<Longrightarrow> preserves still (attempt m)"
  by (simp add: preserves_def attempt_world)

lemma stays_abort: "preserves still (abort_pending_after_continuation_failure R env i now)"
proof -
  have "preserves still (quarantine R env key)" for key
    unfolding quarantine_def
    by (intro stays stays_attempt) (auto intro!: stays stays_attempt split: sum.split dispatch_lookup.split)
  moreover have "preserves still (drop_pending R env i now)"
    unfolding drop_pending_def
    by (intro stays stays_attempt) (auto intro!: stays stays_attempt still_on_pipe quiet split: sum.split option.split)
  ultimately show ?thesis
    unfolding abort_pending_after_continuation_failure_def by (intro stays)
qed

lemma settled_world: "machine_world (settle x) = rt_world (snd x)"
  using settle_world[of "fst x" "snd x"] by simp

lemma unkeyed_world: "list_all unkeyed es \<Longrightarrow> machine_world (machine_run D m es) = machine_world m"
proof (induction es arbitrary: m)
  case (Cons c es)
  have "machine_world (machine_step D m c) = machine_world m"
  proof (cases m)
    case (Up s)
    have "rt_world (snd (abort_pending_after_continuation_failure (durable_rt D) env i now s)) = rt_world s" for env i now
      using stays_abort unfolding preserves_def by blast
    then show ?thesis using Cons.prems Up by (auto simp: unkeyed_def settled_world)
  next
    case (Down d w)
    then show ?thesis using Cons.prems by (auto simp: unkeyed_def)
  qed
  with Cons show ?case by (simp add: machine_run_def)
qed (simp add: machine_run_def)

lemma agent_key: "agent_life D key cs ks es m m' \<Longrightarrow> p < length ks \<Longrightarrow>
    p < length cs \<and> dispatch_key D (cs ! p) = Some (key (ks ! p))"
  unfolding agent_life_def by (metis length_map nth_map)

lemma agent_world: "agent_life D key cs ks es m m' \<Longrightarrow> machine_world m' = machine_world (machine_run D m cs)"
  unfolding agent_life_def machine_run_append using unkeyed_world by metis

subsection \<open>Giving a suspension up\<close>

lemma andthen_done:
  assumes "andthen m f s = (Done (Inr y), s')"
  obtains x s1 where "m s = (Done (Inr x), s1)" "f x s1 = (Done (Inr y), s')"
  using andthen_value[OF assms] by blast

text \<open>An abort that reports no error recorded the key of the approval.\<close>

lemma quarantine_records:
  assumes "quarantine (durable_rt D) env key s = (Done (Inr []), s')" "jo_wf (dc_outbox D) (rt_outbox s)"
    and "jo_lookup (dc_outbox D) (rt_outbox s) key = Inr NotStarted"
  shows "jo_intended (dc_outbox D) key (rt_outbox s')"
proof -
  let ?R = "durable_rt D"
  let ?intent = "on_outbox (\<lambda>x. ob_intent (rc_outbox ?R) (ce_intent env) x key)"
  let ?commit = "on_outbox (\<lambda>x. ob_committed (rc_outbox ?R) (ce_commit env) x key (from_error QUARANTINE_REASON))"
  let ?rest = "\<lambda>r. case r of Inl e \<Rightarrow> ret [''approval quarantine intent failed: '' @ show_error e]
         | Inr _ \<Rightarrow> andthen (attempt ?commit) (\<lambda>c. ret (complaint ''approval quarantine commit failed: '' c))"
  have l: "attempt (lookup_key ?R key) s = (Done (Inr (Inr NotStarted)), s)"
    using assms(3) by (simp add: attempt_def lookup_key_def reading_def)
  have "andthen (attempt ?intent) ?rest s = (Done (Inr []), s')"
    using assms(1) unfolding quarantine_def andthen_ok[where m = "attempt m" for m, OF l] sum.case dispatch_lookup.case .
  then obtain r s1 where r: "attempt ?intent s = (Done (Inr r), s1)" and k: "?rest r s1 = (Done (Inr []), s')"
    by (rule andthen_done)
  have done_one: "?intent s = (Done (Inr ()), s1)"
  proof (cases r)
    case (Inl e)
    with k show ?thesis by (simp add: ret_def)
  next
    case (Inr u)
    with r show ?thesis by (auto simp: attempt_def split: prod.splits outcome.splits)
  qed
  then have "jo_intended (dc_outbox D) key (rt_outbox s1)"
    using jog.intent_success[OF assms(2), of "ce_intent env" key "rt_outbox s1"] by (auto simp: on_outbox_def split: prod.splits)
  moreover have "preserves (carries (jo_intended (dc_outbox D) key)) (?rest r)"
    using jog.stable_intended[of "dc_outbox D" key]
    by (intro carried carried_markers) simp
  ultimately show ?thesis using k unfolding preserves_def by (metis snd_conv)
qed

lemma abort_records:
  assumes "abort_pending_after_continuation_failure (durable_rt D) env i now s = (Done (Inr ()), s')"
    and "jo_wf (dc_outbox D) (rt_outbox s)"
    and "jo_lookup (dc_outbox D) (rt_outbox s) (approval_dispatch_key (dc_ext D) i) = Inr NotStarted"
  shows "jo_intended (dc_outbox D) (approval_dispatch_key (dc_ext D) i) (rt_outbox s')"
proof -
  let ?key = "approval_dispatch_key (dc_ext D) i"
  have "andthen (quarantine (durable_rt D) env ?key) (\<lambda>es. andthen (drop_pending (durable_rt D) env i now) (\<lambda>fs.
     if es @ fs = [] then ret () else throw (PolicyDeniedErr (join ''; '' (es @ fs))))) s = (Done (Inr ()), s')"
    using assms(1) by (simp add: abort_pending_after_continuation_failure_def)
  then obtain es s1 where q: "quarantine (durable_rt D) env ?key s = (Done (Inr es), s1)"
    and k: "andthen (drop_pending (durable_rt D) env i now) (\<lambda>fs.
     if es @ fs = [] then ret () else throw (PolicyDeniedErr (join ''; '' (es @ fs)))) s1 = (Done (Inr ()), s')"
    by (rule andthen_done)
  from k obtain fs s2 where d: "drop_pending (durable_rt D) env i now s1 = (Done (Inr fs), s2)"
    and e: "(if es @ fs = [] then ret () else throw (PolicyDeniedErr (join ''; '' (es @ fs)))) s2 = (Done (Inr ()), s')"
    by (rule andthen_done)
  have es: "es = [] \<and> s' = s2" using e by (auto simp: ret_def throw_def split: if_splits)
  have "preserves (carries (jo_intended (dc_outbox D) ?key)) (drop_pending (durable_rt D) env i now)"
    unfolding drop_pending_def by (intro carried)
  moreover have "jo_intended (dc_outbox D) ?key (rt_outbox s1)" using quarantine_records[OF _ assms(2,3)] q es by simp
  ultimately show ?thesis using d es unfolding preserves_def by (metis snd_conv)
qed

lemma rollback_records:
  assumes "tc_rt (ac_turn AC) = durable_rt D" "rollback_non_durable_suspend AC E i now a = (Done (Inr None), a')"
    and "jo_wf (dc_outbox D) (rt_outbox (ag_rt a))"
    and "jo_lookup (dc_outbox D) (rt_outbox (ag_rt a)) (approval_dispatch_key (dc_ext D) i) = Inr NotStarted"
  shows "jo_intended (dc_outbox D) (approval_dispatch_key (dc_ext D) i) (rt_outbox (ag_rt a'))"
  using assms(2)[unfolded rollback_non_durable_suspend_def assms(1)]
proof (cases rule: turn_then_cases)
  case (1 aborted a1)
  from 1(2) show ?thesis
  proof (cases rule: turn_then_cases)
    case (1 removed a2)
    then have "aborted = Inr ()" "a' = a2"
      by (auto simp: turn_ret_def rollback_note_def split: sum.splits option.splits)
    moreover have "abort_pending_after_continuation_failure (durable_rt D) (ae_abort E) i now (ag_rt a) = (Done aborted, ag_rt a1)"
      using \<open>on_turn _ a = _\<close> by (auto simp: on_turn_def on_runtime_def split: prod.splits outcome.splits)
    ultimately show ?thesis using abort_records[OF _ assms(3,4)] on_store_rt[OF 1(1)] by simp
  qed simp_all
qed simp_all

subsection \<open>A sample resumption\<close>

text \<open>The waiting task of the sample pipeline, with the tool that takes the process with it.\<close>

definition dying_waiting :: "jp_state \<Rightarrow> (jp_state, jo_state, nat) runtime" where
  "dying_waiting P = (sample_runtime waiting_pipe P)\<lparr>rt_executors := [(7, dying_executor)]\<rparr>"

lemma dying_approved:
  "\<exists>p'. run_after_approval sample_ext ids dying_executor 5 sample_grant 120 (waiting_pipe, 0) = (Killed, (p', 1))"
proof -
  let ?t = "pipe_task\<lparr>t_status := NeedsApproval\<rparr>"
  have bytes: "json_bytes sample_ext (t_payload ?t) = Inr ''p''" using sample_pipe_facts(6) by simp
  have g: "120 \<le> a_expires_at sample_grant" "\<not> a_consumed sample_grant"
    "a_payload_hash sample_grant = sha256_hex sample_ext ''p''"
    by (simp_all add: sample_grant_def grant_def Let_def saturating_expiry_def) (simp_all add: sample_ext_def)
  have 0: "task_or_missing sample_ext 5 (waiting_pipe, 0 :: nat) = (Done (Inr ?t), (waiting_pipe, 0))"
    using waiting_pipe_facts(1) by (simp add: task_or_missing_ok)
  have 1: "of_result (payload_bytes sample_ext (t_payload ?t)) (waiting_pipe, 0 :: nat) = (Done (Inr ''p''), (waiting_pipe, 0))"
    using bytes by (simp add: of_result_def payload_bytes_def)
  obtain l where l: "consume sample_ext (ids 0) (pl_ledger waiting_pipe) (a_id sample_grant) ''p'' 120 = (Inr (), l)"
    using waiting_pipe_facts(2) g consume_ok_iff[of sample_ext "ids 0" "pl_ledger waiting_pipe" "a_id sample_grant" "''p''" 120]
    by (metis prod.collapse)
  let ?p1 = "waiting_pipe\<lparr>pl_ledger := l\<rparr>"
  let ?p2 = "?p1\<lparr>pl_queue := hm_insert 5 (?t\<lparr>t_status := Running, t_updated := 120\<rparr>) (pl_queue waiting_pipe)\<rparr>"
  have 2: "on_ledger (\<lambda>l. consume sample_ext (ids 0) l (a_id sample_grant) ''p'' 120) (waiting_pipe, 0 :: nat) =
      (Done (Inr ()), (?p1, 0))"
    by (simp only: on_ledger_ok) (use l in blast)
  obtain e where 3: "on_queue (\<lambda>q. transition sample_ext q 5 Running 120) (?p1, 0 :: nat) = (Done (Inr e), (?p2, 0))"
    using waiting_pipe_facts(1) by (simp add: on_queue_def transition_def can_transition_to_def del: map_of_eq_Some_iff)
  have "\<exists>p'. execute_and_finalize sample_ext ids dying_executor 5 (a_action_id sample_grant) (t_payload ?t) 120 False (?p2, 0) =
      (Killed, (p', 1))"
    by (simp add: execute_and_finalize_def andthen_def task_or_missing_def reading_def queue_get_def record_event_def
        run_executor_def dying_executor_def Let_def)
  then show ?thesis
    unfolding run_after_approval_def run_after_approval_with_input_taint_def Let_def
      andthen_ok[where m = "task_or_missing sample_ext 5", OF 0]
      andthen_ok[where m = "of_result (payload_bytes sample_ext (t_payload ?t))", OF 1]
      andthen_ok[where m = "on_ledger (\<lambda>l. consume sample_ext (ids 0) l (a_id sample_grant) ''p'' 120)", OF 2]
      andthen_ok[where m = "on_queue (\<lambda>q. transition sample_ext q 5 Running 120)", OF 3] .
qed

lemma dying_approve:
  assumes "jp_inv sample_jp P" "hm_get (jp_map sample_jp P) = [3 \<mapsto> waiting_record]"
  shows "\<exists>o1 p'. approve (durable_rt sample_durable) sample_call 3 120 (dying_waiting P) =
     (Killed, (dying_waiting P)\<lparr>rt_outbox := o1, rt_pipe := p', rt_world := 1\<rparr>) \<and> jo_inv sample_jo o1"
proof -
  let ?s = "dying_waiting P" and ?R = "durable_rt sample_durable" and ?key = "approval_dispatch_key sample_ext 3"
  have X: "rc_ext ?R = sample_ext" by (simp add: sample_durable_def)
  have 1: "pending_or_missing ?R 3 ?s = (Done (Inr waiting_record), ?s)"
    using jps.get_map[OF assms(1), of 3] assms(2)
    by (simp add: pending_or_missing_def reading_def sample_durable_def dying_waiting_def sample_runtime_def)
  have 2: "lookup_key ?R ?key ?s = (Done (Inr NotStarted), ?s)"
    using joc.lookup_state[OF sample_jo_fresh(2), of ?key] sample_jo_fresh(3)
    by (simp add: sample_durable_def sample_runtime_def dying_waiting_def ks_lookup_def ks_default_def lookup_key_def reading_def)
  have r: "pr_task waiting_record = 5" "pr_approval waiting_record = sample_grant" by (simp_all add: waiting_record_def)
  have 3: "on_pipe (task_or_missing sample_ext 5) ?s = (Done (Inr (pipe_task\<lparr>t_status := NeedsApproval\<rparr>)), ?s)"
    using waiting_pipe_facts(1)
    by (simp add: on_pipe_def task_or_missing_def reading_def queue_get_def dying_waiting_def sample_runtime_def
        del: map_of_eq_Some_iff)
  have 4: "reading (\<lambda>s. case hm_get (rt_executors s) (t_skill (pipe_task\<lparr>t_status := NeedsApproval\<rparr>)) of
      None \<Rightarrow> Inl (UnknownSkill (show_uuid sample_ext (t_skill (pipe_task\<lparr>t_status := NeedsApproval\<rparr>)))) | Some exe \<Rightarrow> Inr exe) ?s =
      (Done (Inr dying_executor), ?s)"
    by (simp add: reading_def dying_waiting_def pipe_task_def task_new_def)
  obtain o1 where o1: "jo_intent sample_jo (ce_intent sample_call) jo_fresh ?key = (Done (Inr ()), o1)" "jo_inv sample_jo o1"
    using jo_intent_ok[OF sample_jo_fresh(2), of 1 ?key] by (auto simp: sample_call_def)
  then have 5: "on_outbox (\<lambda>x. ob_intent (rc_outbox ?R) (ce_intent sample_call) x ?key) ?s = (Done (Inr ()), ?s\<lparr>rt_outbox := o1\<rparr>)"
    by (simp add: on_outbox_def dying_waiting_def sample_runtime_def sample_durable_def)
  obtain p' where "run_after_approval sample_ext (ce_ids sample_call) dying_executor 5 sample_grant 120 (waiting_pipe, 0) =
      (Killed, (p', 1))"
    using dying_approved by blast
  then have 6: "attempt (on_pipe (run_after_approval sample_ext (ce_ids sample_call) dying_executor 5 sample_grant 120))
      (?s\<lparr>rt_outbox := o1\<rparr>) = (Killed, ?s\<lparr>rt_outbox := o1, rt_pipe := p', rt_world := 1\<rparr>)"
    by (simp add: attempt_def on_pipe_def dying_waiting_def sample_runtime_def)
  have "approve ?R sample_call 3 120 ?s = (Killed, ?s\<lparr>rt_outbox := o1, rt_pipe := p', rt_world := 1\<rparr>)"
    unfolding approve_def Let_def X andthen_ok[where m = "pending_or_missing R i" for R i, OF 1] r
      andthen_ok[where m = "lookup_key R k" for R k, OF 2] dispatch_lookup.case
      andthen_ok[where m = "on_pipe h" for h, OF 3] andthen_ok[where m = "reading h" for h, OF 4]
      andthen_ok[where m = "on_outbox h" for h, OF 5]
    by (rule andthen_killed[where m = "attempt h" for h, OF 6])
  with o1(2) show ?thesis by blast
qed


definition sample_agent_config :: "(jp_state, jo_state, in_memory_journal, nat, mem_resumable) agent_config" where
  "sample_agent_config =
     \<lparr>ac_turn = sample_turn_config (durable_rt sample_durable), ac_store = mem_resumable_store, ac_rounds = 2, ac_llm = True,
      ac_actions = True, ac_counter = 9\<rparr>"

definition resume_args :: turn_args where
  "resume_args = sample_args\<lparr>ta_now := 120\<rparr>"

definition resume_env :: agent_env where
  "resume_env = \<lparr>ae_turn = sample_turn_env, ae_approve = sample_call, ae_abort = sample_call, ae_put = quiet_env,
     ae_remove = quiet_env, ae_cleanup = quiet_env\<rparr>"

definition waiting_turn :: resumable_turn where
  "waiting_turn = resumable_new sample_ext 3 (tc_being (ac_turn sample_agent_config)) None [] ''c1'' ''a'' (JStr ''p'') ''s'' 100 200"

definition sample_agent ::
  "(jp_state, jo_state, nat) runtime \<Rightarrow> (jp_state, jo_state, nat, in_memory_journal, nat, mem_resumable) agent_state" where
  "sample_agent rt = \<lparr>ag_turn = sample_turn rt, ag_resumable = [(3, waiting_turn)]\<rparr>"

lemma sample_resume_dies:
  assumes "jp_inv sample_jp P" "hm_get (jp_map sample_jp P) = [3 \<mapsto> waiting_record]"
  shows "\<exists>a1. resume_approved sample_agent_config resume_args resume_env 3 (sample_agent (dying_waiting P)) = (Killed, a1) \<and>
    rt_world (ag_rt a1) = 1 \<and> jo_inv sample_jo (rt_outbox (ag_rt a1)) \<and> rt_pending (ag_rt a1) = P \<and>
    rt_tasks (ag_rt a1) = (\<lambda>_. None)"
proof -
  let ?a = "sample_agent (dying_waiting P)" and ?C = sample_agent_config
  obtain o1 p' where ap: "approve (durable_rt sample_durable) sample_call 3 120 (dying_waiting P) =
     (Killed, (dying_waiting P)\<lparr>rt_outbox := o1, rt_pipe := p', rt_world := 1\<rparr>)" "jo_inv sample_jo o1"
    using dying_approve[OF assms] by blast
  let ?a1 = "?a\<lparr>ag_turn := (ag_turn ?a)\<lparr>tu_rt := (dying_waiting P)\<lparr>rt_outbox := o1, rt_pipe := p', rt_world := 1\<rparr>\<rparr>\<rparr>"
  have 1: "stored_turn ?C 3 ?a = (Done (Inr waiting_turn), ?a)"
    by (simp add: stored_turn_def sample_agent_config_def sample_agent_def mr_get_def turn_ret_def)
  have 2: "granted ?C resume_env 3 120 ?a = (Killed, ?a1)"
    unfolding granted_def
    by (rule turn_then_killed)
      (simp add: on_turn_def on_runtime_def sample_agent_config_def sample_turn_config_def resume_env_def sample_agent_def
        sample_turn_def ap(1))
  have t: "rz_being waiting_turn = tc_being (ac_turn ?C)" "\<not> rz_expired 120 waiting_turn" "ac_actions ?C" "ta_now resume_args = 120"
    by (simp_all add: waiting_turn_def resumable_new_def rz_expired_def sample_agent_config_def resume_args_def)
  have "resume_approved ?C resume_args resume_env 3 ?a = (Killed, ?a1)"
    unfolding resume_approved_def resumed_def turn_then_ok[where m = "stored_turn C i" for C i, OF 1] t(4)
    using t(1-3) turn_then_killed[where m = "granted C E i n" for C E i n, OF 2] by simp
  with ap(2) show ?thesis by (auto simp: sample_agent_def sample_turn_def dying_waiting_def sample_runtime_def)
qed

subsection \<open>Once\<close>

text \<open>C5: a waiting turn is resumed, its process dying or not; anything may happen between; then it is resumed
  again. Each resumption acts on the world only through keyed commands, the approved call and dispatches
  with rising numbers, and a command that changed the world in the first does not change it in the second.
\<close>

theorem resume_acts_once:
  assumes "tc_rt (ac_turn AC) = durable_rt D" "tc_rt (ac_turn AC') = durable_rt D"
    and "jo_wf (dc_outbox D) (rt_outbox (ag_rt a))"
    and "resume_approved AC A E i a = (r, a1)"
    and "machine_run D (settle (r, ag_rt a1)) between = Up (ag_rt a2)"
    and "resume_approved AC' A' E' i a2 = (r', a3)"
  shows "\<exists>cs ks es cs' ks' es'.
    agent_life D (resume_keys (dc_ext D) i) cs ks es (Up (ag_rt a)) (settle (r, ag_rt a1)) \<and>
    agent_life D (resume_keys (dc_ext D) i) cs' ks' es' (Up (ag_rt a2)) (settle (r', ag_rt a3)) \<and>
    rt_world (ag_rt a1) = machine_world (machine_run D (Up (ag_rt a)) cs) \<and>
    rt_world (ag_rt a3) = machine_world (machine_run D (Up (ag_rt a2)) cs') \<and>
    (\<forall>p q. p < length ks \<and> q < length ks' \<and> ks ! p = ks' ! q \<and> moved D (Up (ag_rt a)) cs p \<longrightarrow>
       \<not> moved D (Up (ag_rt a2)) cs' q)"
proof -
  let ?key = "resume_keys (dc_ext D) i"
  obtain cs ks es where 1: "agent_life D ?key cs ks es (Up (ag_rt a)) (settle (r, ag_rt a1))"
    using resume_moves[OF assms(1)] assms(4) unfolding moves_from_def by blast
  obtain cs' ks' es' where 2: "agent_life D ?key cs' ks' es' (Up (ag_rt a2)) (settle (r', ag_rt a3))"
    using resume_moves[OF assms(2)] assms(6) unfolding moves_from_def by blast
  have between: "machine_run D (machine_run D (Up (ag_rt a)) cs) (es @ between) = Up (ag_rt a2)"
    using 1 assms(5) by (simp add: agent_life_def machine_run_append)
  have wf: "jo_wf (dc_outbox D) (machine_outbox (Up (ag_rt a)))" using assms(3) by simp
  have "\<not> moved D (Up (ag_rt a2)) cs' q"
    if "p < length ks" "q < length ks'" "ks ! p = ks' ! q" "moved D (Up (ag_rt a)) cs p" for p q
    using moved_blocks[OF wf _ _ _ _ that(4) between] that(1-3) agent_key[OF 1] agent_key[OF 2] by metis
  with 1 2 agent_world[OF 1] agent_world[OF 2] show ?thesis unfolding settle_world by blast
qed

text \<open>The approved tool takes the process with it; resumed after a restart, it does not run again.\<close>

theorem resume_acts_once_witness:
  "\<exists>P a1 rt2 r' a3 cs ks es cs' ks' es'.
     resume_approved sample_agent_config resume_args resume_env 3 (sample_agent (dying_waiting P)) = (Killed, a1) \<and>
     rt_world (ag_rt a1) = 1 \<and>
     machine_run sample_durable (settle (Killed :: nat outcome, ag_rt a1)) [CBoot] = Up rt2 \<and>
     resume_approved sample_agent_config resume_args resume_env 3 (sample_agent rt2) = (r', a3) \<and>
     agent_life sample_durable (resume_keys sample_ext 3) cs ks es (Up (dying_waiting P)) (settle (Killed :: nat outcome, ag_rt a1)) \<and>
     agent_life sample_durable (resume_keys sample_ext 3) cs' ks' es' (Up rt2) (settle (r', ag_rt a3)) \<and>
     (\<forall>p q. p < length ks \<and> q < length ks' \<and> ks ! p = ks' ! q \<and> moved sample_durable (Up (dying_waiting P)) cs p \<longrightarrow>
        \<not> moved sample_durable (Up rt2) cs' q)"
proof -
  obtain P where P: "jp_inv sample_jp P" "hm_get (jp_map sample_jp P) = [3 \<mapsto> waiting_record]" by (rule waiting_pending)
  obtain a1 where a1: "resume_approved sample_agent_config resume_args resume_env 3 (sample_agent (dying_waiting P)) = (Killed, a1)"
      "rt_world (ag_rt a1) = 1" "jo_inv sample_jo (rt_outbox (ag_rt a1))" "rt_pending (ag_rt a1) = P"
      "rt_tasks (ag_rt a1) = (\<lambda>_. None)"
    using sample_resume_dies[OF P] by blast
  have D: "dc_pending sample_durable = sample_jp" "dc_outbox sample_durable = sample_jo" "dc_ext sample_durable = sample_ext"
    by (simp_all add: sample_durable_def)
  obtain rt2 where rt2: "with_durable_stores sample_durable (rt_disks (ag_rt a1)) (rt_world (ag_rt a1)) = (Inr rt2, rt_disks (ag_rt a1))"
    by (rule booted[of sample_durable "ag_rt a1" "[]" "rt_world (ag_rt a1)"]) (use P a1 D in \<open>auto simp: reload_def\<close>)
  have up: "machine_run sample_durable (settle (Killed :: (core_error + think_outcome) outcome, ag_rt a1)) [CBoot] = Up (ag_rt (sample_agent rt2))"
    using rt2 by (simp add: machine_run_def settle_def sample_agent_def sample_turn_def)
  obtain r' a3 where a3: "resume_approved sample_agent_config resume_args resume_env 3 (sample_agent rt2) = (r', a3)"
    by (rule prod.exhaust)
  have C: "tc_rt (ac_turn sample_agent_config) = durable_rt sample_durable" "ag_rt (sample_agent rt) = rt" for rt
    by (simp_all add: sample_agent_config_def sample_turn_config_def sample_agent_def sample_turn_def)
  have wf: "jo_wf (dc_outbox sample_durable) (rt_outbox (ag_rt (sample_agent (dying_waiting P))))"
    using jo_inv_wf[OF sample_jo_fresh(2)] by (simp add: C(2) D dying_waiting_def sample_runtime_def)
  have up': "machine_run sample_durable (settle (Killed :: nat outcome, ag_rt a1)) [CBoot] = Up rt2"
    using rt2 by (simp add: machine_run_def settle_def)
  have k: "settle (Killed :: (core_error + think_outcome) outcome, rt) = settle (Killed :: nat outcome, rt)" for rt :: "(jp_state, jo_state, nat) runtime"
    by (simp add: settle_def)
  obtain cs ks es cs' ks' es' where
    "agent_life sample_durable (resume_keys sample_ext 3) cs ks es (Up (dying_waiting P)) (settle (Killed :: nat outcome, ag_rt a1))"
    "agent_life sample_durable (resume_keys sample_ext 3) cs' ks' es' (Up rt2) (settle (r', ag_rt a3))"
    "\<forall>p q. p < length ks \<and> q < length ks' \<and> ks ! p = ks' ! q \<and> moved sample_durable (Up (dying_waiting P)) cs p \<longrightarrow>
        \<not> moved sample_durable (Up rt2) cs' q"
    using resume_acts_once[OF C(1) C(1) wf a1(1) up a3, unfolded C(2) D(3) k] by (elim exE conjE) rule
  with a1(1,2) up' a3 show ?thesis by (intro exI conjI)
qed

text \<open>C7: a wait that could not be made durable never becomes an action: once the rollback of a suspension has
  reported no error, neither that approval nor any other dispatch under its key changes the world, whatever
  calls, write errors, deaths and restarts follow.\<close>

theorem rolled_back_never_runs:
  assumes "tc_rt (ac_turn AC) = durable_rt D" "rollback_non_durable_suspend AC E i now a = (Done (Inr None), a')"
    and "jo_wf (dc_outbox D) (rt_outbox (ag_rt a))"
    and "jo_lookup (dc_outbox D) (rt_outbox (ag_rt a)) (approval_dispatch_key (dc_ext D) i) = Inr NotStarted"
    and "dispatch_key D c = Some (approval_dispatch_key (dc_ext D) i)"
  shows "machine_world (machine_step D (machine_run D (Up (ag_rt a')) cs) c) = machine_world (machine_run D (Up (ag_rt a')) cs)"
proof -
  have "jo_intended (dc_outbox D) (approval_dispatch_key (dc_ext D) i) (machine_outbox (Up (ag_rt a')))"
    using rollback_records[OF assms(1-4)] by simp
  from machine_key_blocks[OF machine_run_file[OF file_property_intended this] assms(5)] show ?thesis .
qed

lemma sample_abort:
  assumes "jp_inv sample_jp P" "hm_get (jp_map sample_jp P) = [3 \<mapsto> waiting_record]"
  shows "\<exists>s'. abort_pending_after_continuation_failure (durable_rt sample_durable) sample_call 3 120 (sample_runtime waiting_pipe P) =
    (Done (Inr ()), s')"
proof -
  let ?s = "sample_runtime waiting_pipe P" and ?R = "durable_rt sample_durable" and ?key = "approval_dispatch_key sample_ext 3"
  have X: "rc_ext ?R = sample_ext" by (simp add: sample_durable_def)
  have O: "rc_outbox ?R = journal_outbox sample_jo" "rc_pending ?R = journal_pending_store sample_jp"
    by (simp_all add: sample_durable_def)
  have 1: "attempt (lookup_key ?R ?key) ?s = (Done (Inr (Inr NotStarted)), ?s)"
    using joc.lookup_state[OF sample_jo_fresh(2), of ?key] sample_jo_fresh(3)
    by (simp add: sample_durable_def sample_runtime_def ks_lookup_def ks_default_def lookup_key_def reading_def attempt_def)
  obtain o1 where o1: "on_outbox (\<lambda>x. ob_intent (rc_outbox ?R) (1, NoFault) x ?key) ?s = (Done (Inr ()), ?s\<lparr>rt_outbox := o1\<rparr>)"
      "jo_inv sample_jo o1"
    using rts.marked_intent[OF O(1), of ?s 1 ?key] sample_jo_fresh(2) by (auto simp: sample_runtime_def)
  let ?s1 = "?s\<lparr>rt_outbox := o1\<rparr>"
  obtain o2 where o2: "on_outbox (\<lambda>x. ob_committed (rc_outbox ?R) (2, NoFault) x ?key (from_error QUARANTINE_REASON)) ?s1 =
      (Done (Inr ()), ?s1\<lparr>rt_outbox := o2\<rparr>)"
    using rts.marked_committed[OF O(1), of ?s1 2 ?key "from_error QUARANTINE_REASON"] o1(2) by auto
  let ?s2 = "?s1\<lparr>rt_outbox := o2\<rparr>"
  have env: "ce_intent sample_call = (1, NoFault)" "ce_commit sample_call = (2, NoFault)" "ce_store sample_call = quiet_env"
    "ce_task sample_call = NoFault" by (simp_all add: sample_call_def)
  have i: "attempt (on_outbox (\<lambda>x. ob_intent (rc_outbox ?R) (1, NoFault) x ?key)) ?s = (Done (Inr (Inr ())), ?s1)"
    using o1(1) by (simp add: attempt_def)
  have c: "attempt (on_outbox (\<lambda>x. ob_committed (rc_outbox ?R) (2, NoFault) x ?key (from_error QUARANTINE_REASON))) ?s1 =
      (Done (Inr (Inr ())), ?s2)"
    using o2 by (simp add: attempt_def)
  have q: "quarantine ?R sample_call ?key ?s = (Done (Inr []), ?s2)"
    unfolding quarantine_def env andthen_ok[where m = "attempt m" for m, OF 1] sum.case dispatch_lookup.case
      andthen_ok[where m = "attempt m" for m, OF i] andthen_ok[where m = "attempt m" for m, OF c]
    by (simp add: complaint_def ret_def)
  have g: "attempt (reading (\<lambda>s. ps_get (rc_pending ?R) (rt_pending s) 3)) ?s2 = (Done (Inr (Inr (Some waiting_record))), ?s2)"
    using jps.get_map[OF assms(1), of 3] assms(2) by (simp add: attempt_def reading_def sample_durable_def sample_runtime_def)
  have quiet: "jp_quiet sample_jp (ce_store sample_call)"
    by (simp add: env jp_quiet_def quiet_env_def harmless_swap_def sample_jp_def)
  obtain x where x: "remove_pending ?R sample_call 3 ?s2 = (Done (Inr (Some waiting_record)), ?s2\<lparr>rt_pending := x\<rparr>)"
    using rts.removed_pending[OF O(2), of ?s2 sample_call 3] assms quiet by (auto simp: sample_runtime_def)
  let ?s3 = "?s2\<lparr>rt_pending := x\<rparr>"
  have r: "attempt (remove_pending ?R sample_call 3) ?s2 = (Done (Inr (Inr (Some waiting_record))), ?s3)"
    using x by (simp add: attempt_def)
  let ?t = "(pipe_task\<lparr>t_status := NeedsApproval\<rparr>)\<lparr>t_status := Cancelled, t_updated := 120\<rparr>"
  let ?p = "waiting_pipe\<lparr>pl_queue := hm_insert 5 ?t (pl_queue waiting_pipe)\<rparr>"
  obtain u where m: "attempt (on_pipe (on_queue (\<lambda>q. transition sample_ext q 5 Cancelled 120))) ?s3 =
      (Done (Inr (Inr u)), ?s3\<lparr>rt_pipe := ?p\<rparr>)"
    using waiting_pipe_facts(1)
    by (simp add: attempt_def on_pipe_def on_queue_def transition_def can_transition_to_def sample_runtime_def
        del: map_of_eq_Some_iff)
  let ?s4 = "?s3\<lparr>rt_pipe := ?p\<rparr>"
  have "task_validate ?t = Inr ()"
    by (simp add: task_validate_def pipe_task_def task_new_def is_nil_def nil_id_def)
  then obtain d where d: "snapshot_task_if_durable ?R sample_call 5 ?s4 = (Done (Inr ()), ?s4\<lparr>rt_tasks := d\<rparr>)"
    using durable_snapshot[of ?s4 5 ?t sample_durable "''{5}''" sample_call] env
    by (auto simp: sample_durable_def any_task_codec_def)
  have f: "attempt (snapshot_task_if_durable ?R sample_call 5) ?s4 = (Done (Inr (Inr ())), ?s4\<lparr>rt_tasks := d\<rparr>)"
    using d by (simp add: attempt_def)
  have w: "pr_task waiting_record = 5" by (simp add: waiting_record_def)
  have dp: "drop_pending ?R sample_call 3 120 ?s2 = (Done (Inr []), ?s4\<lparr>rt_tasks := d\<rparr>)"
    unfolding drop_pending_def X w andthen_ok[where m = "attempt m" for m, OF g] sum.case option.case
      andthen_ok[where m = "attempt m" for m, OF r] w andthen_ok[where m = "attempt m" for m, OF m]
      andthen_ok[where m = "attempt m" for m, OF f]
    by (simp add: complaint_def ret_def)
  show ?thesis
    unfolding abort_pending_after_continuation_failure_def X andthen_ok[where m = "quarantine R e k" for R e k, OF q]
      andthen_ok[where m = "drop_pending R e i n" for R e i n, OF dp]
    by (simp add: ret_def)
qed

definition waiting_agent :: "jp_state \<Rightarrow> (jp_state, jo_state, nat, in_memory_journal, nat, mem_resumable) agent_state" where
  "waiting_agent P = \<lparr>ag_turn = sample_turn (sample_runtime waiting_pipe P), ag_resumable = []\<rparr>"

theorem rolled_back_never_runs_witness:
  "\<exists>P a'. rollback_non_durable_suspend sample_agent_config resume_env 3 120 (waiting_agent P) = (Done (Inr None), a') \<and>
     machine_world (machine_run sample_durable (Up (ag_rt a')) [CCrash, CBoot, CApprove sample_call 3 130]) =
     machine_world (machine_run sample_durable (Up (ag_rt a')) [CCrash, CBoot])"
proof -
  obtain P where P: "jp_inv sample_jp P" "hm_get (jp_map sample_jp P) = [3 \<mapsto> waiting_record]" by (rule waiting_pending)
  obtain s' where s': "abort_pending_after_continuation_failure (durable_rt sample_durable) sample_call 3 120
      (sample_runtime waiting_pipe P) = (Done (Inr ()), s')"
    using sample_abort[OF P] by blast
  have C: "tc_rt (ac_turn sample_agent_config) = durable_rt sample_durable"
    by (simp add: sample_agent_config_def sample_turn_config_def)
  have A: "ag_rt (waiting_agent P) = sample_runtime waiting_pipe P" by (simp add: waiting_agent_def sample_turn_def)
  obtain a' where run: "rollback_non_durable_suspend sample_agent_config resume_env 3 120 (waiting_agent P) = (Done (Inr None), a')"
    using s' by (simp add: rollback_non_durable_suspend_def turn_then_def on_turn_def on_runtime_def on_store_def C A resume_env_def
        turn_ret_def rollback_note_def sample_agent_config_def mr_remove_def sample_turn_config_def)
  have D: "dc_outbox sample_durable = sample_jo" "dc_ext sample_durable = sample_ext" by (simp_all add: sample_durable_def)
  have wf: "jo_wf (dc_outbox sample_durable) (rt_outbox (ag_rt (waiting_agent P)))"
    using jo_inv_wf[OF sample_jo_fresh(2)] by (simp add: A D sample_runtime_def)
  have fresh: "jo_lookup (dc_outbox sample_durable) (rt_outbox (ag_rt (waiting_agent P)))
      (approval_dispatch_key (dc_ext sample_durable) 3) = Inr NotStarted"
    using joc.lookup_state[OF sample_jo_fresh(2), of "approval_dispatch_key sample_ext 3"] sample_jo_fresh(3)
    by (simp add: A D sample_runtime_def ks_lookup_def ks_default_def)
  have k: "dispatch_key sample_durable (CApprove sample_call 3 130) = Some (approval_dispatch_key (dc_ext sample_durable) 3)"
    by simp
  from rolled_back_never_runs[OF C run wf fresh k, of "[CCrash, CBoot]"] run show ?thesis
    by (auto simp: machine_run_def)
qed

end
