(* ===== verification/Sample_Json.thy ===== *)
theory Sample_Json
  imports Chat Manifest
begin

section \<open>A concrete printer of JSON\<close>

text \<open>
  The texts of JSON values are a parameter of the model. \<open>plain_text\<close> is a printer with its parser, prefix
  codes in braces, that meets what is relied on, so that the properties apply to concrete messages.
\<close>

definition unary :: "nat \<Rightarrow> string" where
  "unary n = replicate n CHR ''1'' @ ''0''"

fun read_unary :: "string \<Rightarrow> (nat \<times> string) option" where
  "read_unary [] = None"
| "read_unary (c # s) =
     (if c = CHR ''1'' then map_option (\<lambda>(n, r). (Suc n, r)) (read_unary s) else Some (0, s))"

lemma read_unary [simp]: "read_unary (unary n @ r) = Some (n, r)"
  unfolding unary_def by (induction n) simp_all

definition counted :: "string \<Rightarrow> string" where
  "counted s = unary (length s) @ s"

definition read_counted :: "string \<Rightarrow> (string \<times> string) option" where
  "read_counted s =
     (case read_unary s of
        None \<Rightarrow> None
      | Some (n, r) \<Rightarrow> if length r < n then None else Some (take n r, drop n r))"

lemma read_counted [simp]: "read_counted (counted s @ r) = Some (s, r)"
  by (simp add: read_counted_def counted_def)

fun many :: "(string \<Rightarrow> ('a \<times> string) option) \<Rightarrow> nat \<Rightarrow> string \<Rightarrow> ('a list \<times> string) option" where
  "many p 0 s = Some ([], s)"
| "many p (Suc n) s =
     (case p s of
        None \<Rightarrow> None
      | Some (x, r) \<Rightarrow> (case many p n r of None \<Rightarrow> None | Some (xs, r') \<Rightarrow> Some (x # xs, r')))"

lemma many_all:
  assumes "\<And>x r. x \<in> set xs \<Longrightarrow> p (e x @ r) = Some (x, r)"
  shows "many p (length xs) (concat (map e xs) @ r) = Some (xs, r)"
  using assms by (induction xs) simp_all

fun put_json :: "json \<Rightarrow> string" where
  "put_json JNull = ''n''"
| "put_json (JBool b) = (if b then ''t'' else ''f'')"
| "put_json (JNum (PosInt n)) = CHR ''p'' # unary n"
| "put_json (JNum (NegInt i)) = (if i < 0 then CHR ''m'' else CHR ''i'') # unary (nat \<bar>i\<bar>)"
| "put_json (JNum (Float s)) = CHR ''d'' # counted s"
| "put_json (JStr s) = CHR ''s'' # counted s"
| "put_json (JArr vs) = CHR ''a'' # unary (length vs) @ concat (map put_json vs)"
| "put_json (JObj ms) = CHR ''o'' # unary (length ms) @ concat (map (\<lambda>m. counted (fst m) @ put_json (snd m)) ms)"

definition read_member :: "(string \<Rightarrow> (json \<times> string) option) \<Rightarrow> string \<Rightarrow> ((string \<times> json) \<times> string) option" where
  "read_member p s =
     (case read_counted s of
        None \<Rightarrow> None
      | Some (k, r) \<Rightarrow> (case p r of None \<Rightarrow> None | Some (v, r') \<Rightarrow> Some ((k, v), r')))"

fun get_json :: "nat \<Rightarrow> string \<Rightarrow> (json \<times> string) option" where
  "get_json 0 s = None"
| "get_json k [] = None"
| "get_json (Suc k) (c # s) =
     (if c = CHR ''n'' then Some (JNull, s)
      else if c = CHR ''t'' then Some (JBool True, s)
      else if c = CHR ''f'' then Some (JBool False, s)
      else if c = CHR ''p'' then map_option (\<lambda>(n, r). (JNum (PosInt n), r)) (read_unary s)
      else if c = CHR ''m'' then map_option (\<lambda>(n, r). (JNum (NegInt (- int n)), r)) (read_unary s)
      else if c = CHR ''i'' then map_option (\<lambda>(n, r). (JNum (NegInt (int n)), r)) (read_unary s)
      else if c = CHR ''d'' then map_option (\<lambda>(t, r). (JNum (Float t), r)) (read_counted s)
      else if c = CHR ''s'' then map_option (\<lambda>(t, r). (JStr t, r)) (read_counted s)
      else (case read_unary s of
              None \<Rightarrow> None
            | Some (n, r) \<Rightarrow>
                if c = CHR ''a'' then map_option (\<lambda>(vs, r'). (JArr vs, r')) (many (get_json k) n r)
                else map_option (\<lambda>(ms, r'). (JObj ms, r')) (many (read_member (get_json k)) n r)))"

lemma member_le: "x \<in> set xs \<Longrightarrow> length (f x) \<le> length (concat (map f xs))"
  by (induction xs) auto

lemma get_put: "length (put_json v) \<le> k \<Longrightarrow> get_json k (put_json v @ r) = Some (v, r)"
proof (induction v arbitrary: k r rule: put_json.induct)
  case (7 vs)
  then obtain k' where k: "k = Suc k'" "length (concat (map put_json vs)) \<le> k'" by (cases k) auto
  have "get_json k' (put_json x @ r') = Some (x, r')" if "x \<in> set vs" for x r'
    using 7(1)[OF that, of k' r'] member_le[OF that, of put_json] k(2) by linarith
  from many_all[where p = "get_json k'" and e = put_json, OF this] show ?case by (simp add: k(1))
next
  case (8 ms)
  let ?e = "\<lambda>m. counted (fst m) @ put_json (snd m)"
  obtain k' where k: "k = Suc k'" "length (concat (map ?e ms)) \<le> k'" using 8(2) by (cases k) auto
  have "read_member (get_json k') (?e m @ r') = Some (m, r')" if "m \<in> set ms" for m r'
  proof -
    have "length (put_json (snd m)) \<le> k'" using member_le[OF that, of ?e] k(2) by simp
    with 8(1)[OF that, of k' r'] show ?thesis by (simp add: read_member_def)
  qed
  from many_all[where p = "read_member (get_json k')" and e = ?e, OF this] show ?case by (simp add: k(1))
next
qed (auto simp: Suc_le_eq gr0_conv_Suc dest!: less_imp_Suc_add)

definition plain_text :: json_text where
  "plain_text =
     \<lparr>jt_print = (\<lambda>v. CHR ''{'' # put_json v @ ''}''),
      jt_parse = (\<lambda>s. case get_json (length s) (drop 1 s) of Some (v, r) \<Rightarrow> Inr v | None \<Rightarrow> Inl ''expected value'')\<rparr>"

lemma plain_reads_back: "reads_back plain_text"
proof -
  have "trim (CHR ''{'' # put_json v @ ''}'') \<noteq> []" for v
    by (subst trim_visible) (simp_all add: visible_def)
  then show ?thesis using get_put by (simp add: reads_back_def plain_text_def)
qed

subsection \<open>Messages\<close>

text \<open>A message is read back as it was; an empty list of images is not told from none.\<close>

lemma message_back:
  assumes "reads_back T" "lm_images m \<noteq> Some []"
  shows "message_of_json T (message_json T m) = Inr m"
proof -
  have c: "decode_all (tool_call_of_json T) (map (tool_call_json T) cs) = Inr cs" for cs
    using assms(1) by (simp add: decode_all_map tool_call_roundtrip)
  note content_roundtrip[OF assms(2)]
  then show ?thesis
    by (cases "lm_call_id m"; cases "lm_calls m")
      (simp_all add: message_of_json_def message_json_def string_field_def option_field_def optional_member_def
        json_object_get text_value_def list_value_def c)
qed

definition sample_message :: llm_message where
  "sample_message =
     with_images [from_base64 ''image/png'' ''AAAA'']
       (with_tool_calls [\<lparr>tl_id = ''c1'', tl_name = ''fs_read'', tl_args = JObj [(''path'', JStr ''a''), (''max'', JNum (PosInt 3))]\<rparr>]
         (assistant_message ''reading''))"

end
