(* ===== verification/Turn_Replay.thy ===== *)
theory Turn_Replay
  imports Turn_Effects Sample_Json
begin

section \<open>Replaying a turn\<close>

text \<open>
  A turn that ended is run again from the rows it left in the journal, as after a restart: with other
  model providers, other clocks and whatever the runtime has become since, as long as the same skills
  are registered.
\<close>

subsection \<open>The registered skills stay\<close>

abbreviation same_registry :: "'w pipe_state \<Rightarrow> 'w pipe_state \<Rightarrow> bool" where
  "same_registry s s' \<equiv> pl_registry (fst s') = pl_registry (fst s)"

abbreviation same_skills :: "('p, 'o, 'w) runtime \<Rightarrow> ('p, 'o, 'w) runtime \<Rightarrow> bool" where
  "same_skills s s' \<equiv> pl_registry (rt_pipe s') = pl_registry (rt_pipe s)"

named_theorems settled \<open>steps that leave the registered skills alone\<close>

lemma settled_pipe_steps [settled]:
  "preserves same_registry (on_queue f)" "preserves same_registry (on_ledger h)" "preserves same_registry (record_event e)"
  "preserves same_registry (run_executor exe rq)" "preserves same_registry (task_or_missing X i)"
  "preserves same_registry (reading g)" "preserves same_registry (ret x)" "preserves same_registry (of_result r)"
  by (simp_all add: preserves_def on_queue_def on_ledger_def record_event_def run_executor_def task_or_missing_def
      act_defs split: prod.splits)

lemma settled_pipe_andthen [settled]:
  "preserves same_registry m \<Longrightarrow> (\<And>x. preserves same_registry (f x)) \<Longrightarrow> preserves same_registry (andthen m f)"
  by (rule preserves_andthen) auto

lemma settled_pipe_if [settled]:
  "preserves same_registry m \<Longrightarrow> preserves same_registry n \<Longrightarrow> preserves same_registry (if b then m else n)"
  by simp

lemma settled_run [settled]: "preserves same_registry (pipe_run X ids exe t now)"
  unfolding pipe_run_def run_with_input_taint_def execute_and_finalize_def Let_def by (intro settled)

lemma settled_grant [settled]: "preserves same_registry (grant_approval X ids a v now ttl)"
  unfolding grant_approval_def by (intro settled)

lemma settled_on_pipe [settled]: "preserves same_registry f \<Longrightarrow> preserves same_skills (on_pipe f)"
  unfolding preserves_def on_pipe_def by (auto split: prod.split) (metis fst_conv snd_conv)

lemma settled_steps [settled]:
  "preserves same_skills (on_pending g)" "preserves same_skills (on_limiter h)" "preserves same_skills (on_outbox k)"
  "preserves same_skills (keep_proof i b)" "preserves same_skills (snapshot_task_if_durable R env i)"
  "preserves same_skills (ttl_duration R)" "preserves same_skills (lookup_key R key)"
  "preserves same_skills (reading q)" "preserves same_skills (ret x)" "preserves same_skills (throw e)"
  "preserves same_skills (of_result r)"
  by (simp_all add: preserves_def on_pending_def on_limiter_def on_outbox_def keep_proof_def change_def ttl_frame
      snapshot_task_if_durable_def lookup_key_def act_defs split: prod.split option.split)

lemma settled_andthen [settled]:
  "preserves same_skills m \<Longrightarrow> (\<And>x. preserves same_skills (f x)) \<Longrightarrow> preserves same_skills (andthen m f)"
  by (rule preserves_andthen) auto

lemma settled_attempt [settled]: "preserves same_skills m \<Longrightarrow> preserves same_skills (attempt m)"
  by (rule preserves_attempt)

lemma settled_if [settled]:
  "preserves same_skills m \<Longrightarrow> preserves same_skills n \<Longrightarrow> preserves same_skills (if b then m else n)"
  by simp

lemma settled_lookup [settled]:
  "(\<And>d. preserves same_skills (f d)) \<Longrightarrow> preserves same_skills n \<Longrightarrow> preserves same_skills p \<Longrightarrow>
     preserves same_skills (case l of NotStarted \<Rightarrow> n | Committed d \<Rightarrow> f d | InProgress \<Rightarrow> p)"
  by (cases l) simp_all

lemma settled_submit [settled]: "preserves same_skills (submit_task_as R env being skill payload now)"
  unfolding submit_task_as_def Let_def by (intro settled)

lemma settled_keyed: "preserves same_skills (submit_task_idempotent R env key being skill payload now)"
  unfolding submit_task_idempotent_def by (intro settled)

subsection \<open>What a live step leaves, and its echo\<close>

definition skills_of :: "('p, 'o, 'w, 'j, 'n) turn_state \<Rightarrow> registry" where
  "skills_of s = pl_registry (rt_pipe (tu_rt s))"

text \<open>The rows still to be replayed.\<close>

definition tail_of :: "('p, 'o, 'w, 'j, 'n) turn_state \<Rightarrow> journal_entry list" where
  "tail_of s = drop (cursor (tu_ctx s)) (replay (tu_ctx s))"

definition journal_of :: "('p, 'o, 'w, 'j, 'n) turn_state \<Rightarrow> 'j" where
  "journal_of s = ctx_journal (tu_ctx s)"

definition grew ::
  "('j \<Rightarrow> journal_entry list) \<Rightarrow> ('j \<Rightarrow> bool) \<Rightarrow> ('p, 'o, 'w, 'j, 'n) turn_state \<Rightarrow> journal_entry list \<Rightarrow>
   ('p, 'o, 'w, 'j, 'n) turn_state \<Rightarrow> bool" where
  "grew rows jinv s log s1 \<longleftrightarrow>
     \<not> is_replaying (tu_ctx s1) \<and> jinv (journal_of s1) \<and> rows (journal_of s1) = rows (journal_of s) @ log \<and>
     skills_of s1 = skills_of s"

text \<open>Nothing outside the turn was touched: no tool, no model, no row.\<close>

definition untouched ::
  "('p, 'o, 'w, 'j, 'n) turn_state \<Rightarrow> ('p, 'o, 'w, 'j, 'n) turn_state \<Rightarrow> bool" where
  "untouched s s1 \<longleftrightarrow>
     tu_rt s1 = tu_rt s \<and> tu_net s1 = tu_net s \<and> tu_llm s1 = tu_llm s \<and> journal_of s1 = journal_of s"

definition echoes ::
  "registry \<Rightarrow> journal_entry list \<Rightarrow> ('a \<Rightarrow> bool) \<Rightarrow> (('p, 'o, 'w, 'j, 'n) turn_state, 'a) turn_act \<Rightarrow> bool" where
  "echoes reg log good m \<longleftrightarrow>
     (\<forall>s rest. skills_of s = reg \<and> tail_of s = log @ rest \<longrightarrow>
        (\<exists>x s1. m s = (Done (Inr x), s1) \<and> good x \<and> tail_of s1 = rest \<and> untouched s s1))"

lemma untouched_skills: "untouched s s1 \<Longrightarrow> skills_of s1 = skills_of s"
  by (simp add: untouched_def skills_of_def)

lemma echoesE:
  assumes "echoes reg log good m" "skills_of s = reg" "tail_of s = log @ rest"
  obtains x s1 where "m s = (Done (Inr x), s1)" "good x" "tail_of s1 = rest" "untouched s s1"
  using assms unfolding echoes_def by blast

lemma echoes_then:
  fixes m :: "(('p, 'o, 'w, 'j, 'n) turn_state, 'a) turn_act"
  assumes "echoes reg log good m" "\<And>x. good x \<Longrightarrow> echoes reg log' good' (f x)"
  shows "echoes reg (log @ log') good' (turn_then m f)"
  unfolding echoes_def
proof (intro allI impI, elim conjE)
  fix s :: "('p, 'o, 'w, 'j, 'n) turn_state" and rest
  assume s: "skills_of s = reg" "tail_of s = (log @ log') @ rest"
  then obtain x s1 where 1: "m s = (Done (Inr x), s1)" "good x" "tail_of s1 = log' @ rest" "untouched s s1"
    using echoesE[OF assms(1) s(1), of "log' @ rest"] by auto
  have "skills_of s1 = reg" using untouched_skills[OF 1(4)] s(1) by simp
  from echoesE[OF assms(2)[OF 1(2)] this 1(3)] obtain y s2 where
    2: "f x s1 = (Done (Inr y), s2)" "good' y" "tail_of s2 = rest" "untouched s1 s2" by blast
  have "untouched s s2" using 1(4) 2(4) by (simp add: untouched_def)
  with 2 turn_then_ok[where m = m, OF 1(1), of f]
  show "\<exists>x s1. turn_then m f s = (Done (Inr x), s1) \<and> good' x \<and> tail_of s1 = rest \<and> untouched s s1" by auto
qed

lemma turn_then_done:
  assumes "turn_then m f s = (Done (Inr y), s')"
  obtains x s1 where "m s = (Done (Inr x), s1)" "f x s1 = (Done (Inr y), s')"
  using assms by (rule turn_then_cases) auto

lemma echoes_ret: "good x \<Longrightarrow> echoes reg [] good (turn_ret x)"
  by (simp add: echoes_def turn_ret_def untouched_def)

lemma echoes_weaken: "echoes reg log good m \<Longrightarrow> (\<And>x. good x \<Longrightarrow> good' x) \<Longrightarrow> echoes reg log good' m"
  unfolding echoes_def by blast

lemma grew_refl: "\<not> is_replaying (tu_ctx s) \<Longrightarrow> jinv (journal_of s) \<Longrightarrow> grew rows jinv s [] s"
  by (simp add: grew_def)

lemma grew_trans: "grew rows jinv s log s1 \<Longrightarrow> grew rows jinv s1 log' s2 \<Longrightarrow> grew rows jinv s (log @ log') s2"
  by (simp add: grew_def)

lemma grew_unique: "grew rows jinv s log s1 \<Longrightarrow> grew rows jinv s log' s1 \<Longrightarrow> log' = log"
  by (simp add: grew_def)

lemma tail_replays: "tail_of s = e # rest \<Longrightarrow> is_replaying (tu_ctx s) \<and> replay (tu_ctx s) ! cursor (tu_ctx s) = e"
  unfolding tail_of_def is_replaying_def
  by (cases "cursor (tu_ctx s) < length (replay (tu_ctx s))") (auto simp: Cons_nth_drop_Suc[symmetric])

lemma durable_step_echo:
  assumes "tail_of s = e # rest" "je_kind e = StepCompleted name v" "fv v = Inr x"
  shows "\<exists>s1. durable_step C what tv fv row name y s = (Done (Inr x), s1) \<and> tail_of s1 = rest \<and> untouched s s1"
proof -
  note r = tail_replays[OF assms(1)]
  then have g: "vec_get (replay (tu_ctx s)) (cursor (tu_ctx s)) = Some e"
    by (simp add: vec_get_def is_replaying_def)
  have "tail_of (s\<lparr>tu_ctx := advance (tu_ctx s)\<rparr>) = rest"
    using assms(1) r by (simp add: tail_of_def is_replaying_def Cons_nth_drop_Suc[symmetric])
  moreover have "untouched s (s\<lparr>tu_ctx := advance (tu_ctx s)\<rparr>)" by (simp add: untouched_def journal_of_def)
  moreover have "step (tc_journal C) tv fv (snd row) (fst row) name (\<lambda>w. (y, w)) (tu_ctx s) () =
      (Done (Inr x), advance (tu_ctx s), ())"
    by (rule step_replay_completed[where fv = fv, OF g assms(2,3)])
  ultimately show ?thesis by (simp add: durable_step_def)
qed

lemma echoes_step:
  assumes "je_kind e = StepCompleted name v" "fv v = Inr x"
  shows "echoes reg [e] ((=) x) (durable_step C what tv fv row name y)"
  using durable_step_echo[where fv = fv, OF _ assms] unfolding echoes_def by (metis append_Cons append_Nil)

text \<open>A step that only reads the rows may ask first whether there are rows to read.\<close>

lemma echoes_replaying:
  fixes m :: "(('p, 'o, 'w, 'j, 'n) turn_state, 'a) turn_act"
  assumes "\<And>s. skills_of s = reg \<Longrightarrow> is_replaying (tu_ctx s) \<Longrightarrow> m s = m' s" "echoes reg (e # log) good m'"
  shows "echoes reg (e # log) good m"
  unfolding echoes_def
proof (intro allI impI, elim conjE)
  fix s :: "('p, 'o, 'w, 'j, 'n) turn_state" and rest
  assume s: "skills_of s = reg" "tail_of s = (e # log) @ rest"
  then have "is_replaying (tu_ctx s)" using tail_replays[of s e "log @ rest"] by simp
  with assms(1) s(1) have "m s = m' s" by blast
  with assms(2) s show "\<exists>x s1. m s = (Done (Inr x), s1) \<and> good x \<and> tail_of s1 = rest \<and> untouched s s1"
    unfolding echoes_def by metis
qed

subsection \<open>The loop\<close>

text \<open>The parts of a configuration that decide what a turn says.\<close>

definition same_rules ::
  "('p, 'o, 'j, 'n) turn_config \<Rightarrow> turn_args \<Rightarrow> ('p, 'o, 'j, 'n) turn_config \<Rightarrow> turn_args \<Rightarrow> bool" where
  "same_rules C A C' A' \<longleftrightarrow>
     tc_json C' = tc_json C \<and> tc_record C' = tc_record C \<and> tc_lower C' = tc_lower C \<and>
     tc_per_name C' = tc_per_name C \<and> tc_fs_read C' = tc_fs_read C \<and> ta_turn A' = ta_turn A \<and> ta_base A' = ta_base A"

definition record_codec_ok :: "dispatch_record step_codec \<Rightarrow> bool" where
  "record_codec_ok K \<longleftrightarrow> (\<forall>d. \<exists>v. sc_enc K d = Inr v \<and> sc_dec K v = Inr d)"

fun same_outcome :: "loop_outcome \<Rightarrow> loop_outcome \<Rightarrow> bool" where
  "same_outcome (Answer a) (Answer b) \<longleftrightarrow> a = b"
| "same_outcome (AwaitingApproval t i s m c v) (AwaitingApproval t' i' s' m' c' v') \<longleftrightarrow> t' = t \<and> i' = i \<and> c' = c \<and> v' = v"
| "same_outcome (MaxIterations n) (MaxIterations k) \<longleftrightarrow> n = k"
| "same_outcome _ _ \<longleftrightarrow> False"

definition alike :: "loop_vars \<Rightarrow> loop_vars \<Rightarrow> bool" where
  "alike lo lo' \<longleftrightarrow>
     lo_last lo' = lo_last lo \<and> lo_index lo' = lo_index lo \<and> lo_count lo' = lo_count lo \<and>
     lo_uses lo' = lo_uses lo \<and> lo_reads lo' = lo_reads lo"

definition agrees :: "(loop_outcome \<times> nat) + loop_vars \<Rightarrow> (loop_outcome \<times> nat) + loop_vars \<Rightarrow> bool" where
  "agrees r r' \<longleftrightarrow>
     (case (r, r') of
        (Inl (a, n), Inl (b, k)) \<Rightarrow> same_outcome a b \<and> k = n
      | (Inr lo, Inr lo') \<Rightarrow> alike lo lo'
      | _ \<Rightarrow> False)"

definition agreeing :: "loop_outcome \<times> nat \<Rightarrow> loop_outcome \<times> nat \<Rightarrow> bool" where
  "agreeing r r' \<longleftrightarrow> same_outcome (fst r) (fst r') \<and> snd r' = snd r"

definition model_row :: "nat \<Rightarrow> journal_entry \<Rightarrow> bool" where
  "model_row turn e \<longleftrightarrow> (\<exists>i v. je_kind e = StepCompleted (llm_step_name turn i) v)"

lemma alike_simps [simp]:
  "alike lo lo' \<Longrightarrow> alike (push m lo) (push m' lo')"
  "alike lo lo' \<Longrightarrow> alike (count_use n lo) (count_use n lo')"
  "alike lo lo' \<Longrightarrow> alike (hear p lo) (hear p lo')"
  by (simp_all add: alike_def push_def count_use_def hear_def split: option.splits list.splits)

lemma over_budget_alike: "same_rules C A C' A' \<Longrightarrow> alike lo lo' \<Longrightarrow> over_budget C' n lo' = over_budget C n lo"
  by (simp add: over_budget_def same_rules_def alike_def uses_def)

lemma untouched_reports [simp]:
  "untouched s (tool_note C A E d s)" "untouched s (tool_note C A E d (emit_tool b c s))"
  "tail_of (tool_note C A E d s) = tail_of s" "tail_of (emit_tool b c s) = tail_of s"
  "tu_ctx (tool_note C A E d s) = tu_ctx s" "tu_ctx (emit_tool b c s) = tu_ctx s"
  by (simp_all add: untouched_def tool_note_def record_turn_audit_into_def emit_tool_def tail_of_def journal_of_def)

lemma grew_quiet:
  "tu_ctx s1 = tu_ctx s \<Longrightarrow> tu_rt s1 = tu_rt s \<Longrightarrow> \<not> is_replaying (tu_ctx s) \<Longrightarrow> jinv (journal_of s) \<Longrightarrow>
     grew rows jinv s [] s1"
  by (simp add: grew_def journal_of_def skills_of_def)

lemma settle_dispatch_echo:
  assumes "settle_dispatch C A E b call lo d s = (Done (Inr r), s1)" "alike lo lo'"
  shows "tu_ctx s1 = tu_ctx s \<and> tu_rt s1 = tu_rt s \<and> echoes reg [] (agrees r) (settle_dispatch C' A' E' b' call lo' d)"
  using assms
  by (auto simp: settle_dispatch_def turn_ret_def Let_def echoes_def agrees_def alike_def push_def split: option.splits)

lemma progress_replaying: "emit_progress C E True tool lo s = (lo, s)"
  by (simp add: emit_progress_def Let_def split: option.split)

lemma progress_quiet:
  "emit_progress C E b tool lo s = (lo1, s1) \<Longrightarrow> tu_ctx s1 = tu_ctx s \<and> tu_rt s1 = tu_rt s \<and> alike lo lo1"
  by (auto simp: emit_progress_def alike_def Let_def split: option.splits if_splits)

text \<open>A call that is not dispatched.\<close>

lemma run_call_quiet:
  assumes "over_budget C (tl_name call) (count_use (tl_name call) lo) \<or> map_name_to_skill (tl_name call) (tu_rt s) = None"
  obtains m s1 where "run_call C A E call lo s = (Done (Inr (Inr (push m (count_use (tl_name call) lo)))), s1)"
    "tu_ctx s1 = tu_ctx s" "untouched s s1"
proof (cases "over_budget C (tl_name call) (count_use (tl_name call) lo)")
  case True
  with that show thesis by (simp add: run_call_def Let_def turn_ret_def)
next
  case False
  with assms that show thesis by (simp add: run_call_def Let_def turn_ret_def)
qed

subsection \<open>A live turn and its rows\<close>

context crash_journal begin

lemma live_step:
  assumes "tc_journal C = J" "\<not> is_replaying (tu_ctx s)" "jinv (journal_of s)"
    and "durable_step C what tv fv row name (Inr v) s = (Done (Inr x), s1)"
  shows "x = v \<and> (\<exists>e out. tv v = Inr out \<and> je_kind e = StepCompleted name out \<and> grew rows jinv s [e] s1)"
proof -
  let ?c = "tu_ctx s" and ?e = "\<lambda>out. completed (fst row) (of_nat (cursor (tu_ctx s))) name out"
  have none: "vec_get (replay ?c) (cursor ?c) = None"
    using assms(2) by (simp add: vec_get_def is_replaying_def)
  obtain out j where j: "tv v = Inr out" "tr_append J (snd row) (ctx_journal ?c) (?e out) = (Done (Inr ()), j)"
      "x = v" "s1 = s\<lparr>tu_ctx := advance (?c\<lparr>ctx_journal := j\<rparr>)\<rparr>"
    using assms(1,4) none
    by (auto simp: durable_step_def step_def Let_def split: sum.splits prod.splits outcome.splits)
  have "jinv j \<and> rows j = rows (ctx_journal ?c) @ [?e out]"
    using append_success[OF _ j(2)] assms(3) by (simp add: journal_of_def)
  moreover have "je_kind (?e out) = StepCompleted name out" by (simp add: completed_def)
  ultimately show ?thesis
    using assms(2) j by (auto simp: grew_def journal_of_def is_replaying_def skills_of_def advance_def)
qed

lemma ask_tools_ctx: "ask_tools C ms ts ch s = (r, s1) \<Longrightarrow> tu_ctx s1 = tu_ctx s"
  by (auto simp: ask_tools_def split: prod.splits)

lemma fresh_answer_ctx: "fresh_answer C A i lo s = (r, s1) \<Longrightarrow> tu_ctx s1 = tu_ctx s"
  by (auto simp: fresh_answer_def Let_def turn_ret_def elim!: turn_then_cases split: if_splits dest!: ask_tools_ctx)

lemma live_model_answer:
  assumes "tc_journal C = J" "\<not> is_replaying (tu_ctx s)" "jinv (journal_of s)" "reads_back (tc_json C)"
    and "same_rules C A C' A'" "model_answer C A E i lo s = (Done (Inr p), s1)"
  shows "\<exists>e. model_row (ta_turn A) e \<and> grew rows jinv s [e] s1 \<and> echoes reg [e] ((=) p) (model_answer C' A' E' i lo')"
proof -
  let ?T = "tc_json C" and ?name = "llm_step_name (ta_turn A) i"
  from assms(2,6) obtain q s0 where f: "fresh_answer C A i lo s = (Done (Inr p), s0)"
    and d: "durable_step C ''durable llm step failed: '' (projection_json ?T) (projection_of_json ?T) (te_llm E i) ?name
              (Inr p) s0 = (Done (Inr q), s1)"
    by (auto simp: model_answer_def Let_def turn_ret_def elim!: turn_then_cases)
  have c: "tu_ctx s0 = tu_ctx s" "tu_rt s0 = tu_rt s" using fresh_answer_ctx[OF f] fresh_answer_rt[OF f] by auto
  from live_step[OF assms(1) _ _ d] assms(2,3) c obtain e out where
    e: "projection_json ?T p = Inr out" "je_kind e = StepCompleted ?name out" "grew rows jinv s0 [e] s1"
    by (auto simp: journal_of_def)
  have reads: "projection_of_json (tc_json C') out = Inr p"
    using projection_roundtrip[OF assms(4), of p] e(1) assms(5) by (auto simp: same_rules_def)
  have "echoes reg [e] ((=) p) (model_answer C' A' E' i lo')"
    by (rule echoes_replaying[where m' = "durable_step C' ''durable llm replay failed: '' (projection_json (tc_json C'))
          (projection_of_json (tc_json C')) (te_llm E' i) ?name (Inl ''unreachable: replay returns journaled LLM result'')"])
      (use assms(5) e(2) reads in \<open>auto simp: model_answer_def Let_def same_rules_def intro: echoes_step\<close>)
  moreover have "grew rows jinv s [e] s1" using e(3) c by (simp add: grew_def journal_of_def skills_of_def)
  ultimately show ?thesis using e(2) by (auto simp: model_row_def)
qed

lemma live_dispatch:
  assumes "tc_journal C = J" "\<not> is_replaying (tu_ctx s)" "jinv (journal_of s)" "record_codec_ok (tc_record C)"
    and "same_rules C A C' A'" "dispatch_tool C A E k skill args s = (Done (Inr d), s1)"
  shows "\<exists>e. grew rows jinv s [e] s1 \<and> echoes reg [e] ((=) d) (dispatch_tool C' A' E' k skill' args')"
proof -
  let ?K = "tc_record C" and ?name = "dispatch_step_name (ta_turn A) k"
  from assms(2,6) obtain o0 s0 where
    f: "on_runtime (submit_task_idempotent (tc_rt C) (te_call E k) ?name (tc_being C) skill args (ta_now A)) s = (Done (Inr o0), s0)"
    and st: "durable_step C ''durable dispatch step failed: '' (sc_enc ?K) (sc_dec ?K) (te_row E k) ?name
              (Inr (from_outcome o0)) s0 = (Done (Inr d), s1)"
    by (auto simp: dispatch_tool_def Let_def elim!: turn_then_cases)
  have c: "tu_ctx s0 = tu_ctx s" "skills_of s0 = skills_of s"
    using f preservesD[OF settled_keyed] by (auto simp: on_runtime_def skills_of_def split: prod.splits outcome.splits)
  from live_step[OF assms(1) _ _ st] assms(2,3) c obtain e out where
    e: "d = from_outcome o0" "sc_enc ?K d = Inr out" "je_kind e = StepCompleted ?name out" "grew rows jinv s0 [e] s1"
    by (auto simp: journal_of_def)
  have reads: "sc_dec (tc_record C') out = Inr d"
    using assms(4) e(2) assms(5) unfolding record_codec_ok_def same_rules_def by (metis sum.inject(2))
  have "echoes reg [e] ((=) d) (dispatch_tool C' A' E' k skill' args')"
    by (rule echoes_replaying[where m' = "durable_step C' ''durable dispatch replay failed: '' (sc_enc (tc_record C'))
          (sc_dec (tc_record C')) (te_row E' k) ?name (Inr unreachable_record)"])
      (use assms(5) e(3) reads in \<open>auto simp: dispatch_tool_def Let_def same_rules_def intro: echoes_step\<close>)
  moreover have "grew rows jinv s [e] s1" using e(4) c by (simp add: grew_def journal_of_def)
  ultimately show ?thesis by blast
qed

lemma live_call:
  fixes s :: "('p, 'o, 'w, 'j, 'n) turn_state"
  assumes "tc_journal C = J" "\<not> is_replaying (tu_ctx s)" "jinv (journal_of s)" "record_codec_ok (tc_record C)"
    and "same_rules C A C' A'" "alike lo lo'" "run_call C A E call lo s = (Done (Inr r), s1)"
  shows "\<exists>log. grew rows jinv s log s1 \<and> echoes (skills_of s) log (agrees r) (run_call C' A' E' call lo' :: (('p, 'o, 'w, 'j, 'n) turn_state, _) turn_act)"
proof -
  let ?run' = "run_call C' A' E' call lo' :: (('p, 'o, 'w, 'j, 'n) turn_state, _) turn_act"
  let ?n = "tl_name call" and ?lo = "count_use (tl_name call) lo" and ?lo' = "count_use (tl_name call) lo'"
  have lo: "alike ?lo ?lo'" "over_budget C' ?n ?lo' = over_budget C ?n ?lo" "lo_index lo' = lo_index lo"
    using assms(6) over_budget_alike[OF assms(5)] by simp_all (simp add: alike_def)
  have skill: "map_name_to_skill ?n (tu_rt q) = map_name_to_skill ?n (tu_rt s)" if "skills_of q = skills_of s"
    for q :: "('p, 'o, 'w, 'j, 'n) turn_state"
    using that by (simp add: map_name_to_skill_def skills_of_def)
  consider (quiet) "over_budget C ?n ?lo \<or> map_name_to_skill ?n (tu_rt s) = None"
    | (known) k where "\<not> over_budget C ?n ?lo" "map_name_to_skill ?n (tu_rt s) = Some k"
    by fastforce
  then show ?thesis
  proof cases
    case quiet
    obtain m0 where s1: "run_call C A E call lo s = (Done (Inr (Inr (push m0 ?lo))), s1)" "tu_ctx s1 = tu_ctx s" "untouched s s1"
    proof -
      obtain m0 s0 where q: "run_call C A E call lo s = (Done (Inr (Inr (push m0 ?lo))), s0)" "tu_ctx s0 = tu_ctx s" "untouched s s0"
        using run_call_quiet[OF quiet, of A E] by blast
      then have "s0 = s1" using assms(7) by simp
      with q that show thesis by blast
    qed
    have "echoes (skills_of s) [] (agrees r) ?run'"
      unfolding echoes_def
    proof (intro allI impI, elim conjE)
      fix q :: "('p, 'o, 'w, 'j, 'n) turn_state" and rest
      assume q: "skills_of q = skills_of s" "tail_of q = [] @ rest"
      obtain m q1 where "run_call C' A' E' call lo' q = (Done (Inr (Inr (push m ?lo'))), q1)" "tu_ctx q1 = tu_ctx q" "untouched q q1"
        using run_call_quiet[of C' call lo' q A' E'] quiet lo(2) skill[OF q(1)] by auto
      moreover have "agrees r (Inr (push m ?lo'))"
        using s1(1) assms(7) lo(1) by (auto simp: agrees_def)
      ultimately show "\<exists>x s1. run_call C' A' E' call lo' q = (Done (Inr x), s1) \<and> agrees r x \<and> tail_of s1 = rest \<and> untouched q s1"
        using q(2) by (auto simp: tail_of_def)
    qed
    moreover have "grew rows jinv s [] s1"
      using s1(2,3) assms(2,3) by (auto simp: untouched_def intro!: grew_quiet)
    ultimately show ?thesis by blast
  next
    case known
    obtain lo1 s0 where p: "emit_progress C E (is_replaying (tu_ctx s)) ?n (?lo\<lparr>lo_index := lo_index lo + 1\<rparr>) s = (lo1, s0)"
      by (rule prod.exhaust)
    note q = progress_quiet[OF p]
    have lo1: "alike lo1 (?lo'\<lparr>lo_index := lo_index lo' + 1\<rparr>)" using q lo by (simp add: alike_def)
    have "turn_then (dispatch_tool C A E (lo_index lo) k (tl_args call))
        (settle_dispatch C A E (is_replaying (tu_ctx s)) call lo1) s0 = (Done (Inr r), s1)"
      using assms(7) known p by (simp add: run_call_def Let_def)
    then obtain d s2 where d: "dispatch_tool C A E (lo_index lo) k (tl_args call) s0 = (Done (Inr d), s2)"
        "settle_dispatch C A E (is_replaying (tu_ctx s)) call lo1 d s2 = (Done (Inr r), s1)"
      by (auto elim!: turn_then_cases)
    obtain e where e: "grew rows jinv s0 [e] s2"
        "echoes (skills_of s) [e] ((=) d) (dispatch_tool C' A' E' (lo_index lo') k (tl_args call) :: (('p, 'o, 'w, 'j, 'n) turn_state, _) turn_act)"
    proof -
      have "\<not> is_replaying (tu_ctx s0)" "jinv (journal_of s0)" using assms(2,3) q by (simp_all add: journal_of_def)
      from live_dispatch[OF assms(1) this assms(4,5) d(1)] that show thesis unfolding lo(3) by blast
    qed
    note a = settle_dispatch_echo[OF d(2) lo1]
    have "tu_ctx s1 = tu_ctx s2" "tu_rt s1 = tu_rt s2" using a by blast+
    with e(1) q have "grew rows jinv s [e] s1" by (simp add: grew_def journal_of_def skills_of_def)
    moreover have "echoes (skills_of s) ([e] @ []) (agrees r)
        (turn_then (dispatch_tool C' A' E' (lo_index lo') k (tl_args call))
          (settle_dispatch C' A' E' True call (?lo'\<lparr>lo_index := lo_index lo' + 1\<rparr>)) :: (('p, 'o, 'w, 'j, 'n) turn_state, _) turn_act)"
      by (rule echoes_then[OF e(2)]) (use a in blast)
    then have "echoes (skills_of s) [e] (agrees r) ?run'"
      unfolding append_Cons append_Nil by (rule echoes_replaying[rotated]) (simp add: run_call_def Let_def known lo skill progress_replaying)
    ultimately show ?thesis by blast
  qed
qed

lemma live_calls:
  fixes s :: "('p, 'o, 'w, 'j, 'n) turn_state"
  assumes "tc_journal C = J" "record_codec_ok (tc_record C)" "same_rules C A C' A'"
    and "\<not> is_replaying (tu_ctx s)" "jinv (journal_of s)" "alike lo lo'" "run_calls C A E calls lo s = (Done (Inr r), s1)"
  shows "\<exists>log. grew rows jinv s log s1 \<and> echoes (skills_of s) log (agrees r) (run_calls C' A' E' calls lo' :: (('p, 'o, 'w, 'j, 'n) turn_state, _) turn_act)"
  using assms(4-)
proof (induction calls arbitrary: lo lo' s)
  case Nil
  then show ?case
    by (intro exI[of _ "[]"]) (auto simp: turn_ret_def agrees_def grew_refl intro: echoes_ret[unfolded turn_ret_def])
next
  case (Cons call calls)
  from Cons.prems(4)[unfolded run_calls.simps] show ?case
  proof (cases rule: turn_then_cases)
    case c: (1 r0 s0)
    obtain log where l: "grew rows jinv s log s0" "echoes (skills_of s) log (agrees r0) (run_call C' A' E' call lo' :: (('p, 'o, 'w, 'j, 'n) turn_state, _) turn_act)"
      using live_call[OF assms(1) Cons.prems(1,2) assms(2,3) Cons.prems(3) c(1)] by blast
    let ?rest = "\<lambda>x. (case x of Inl out \<Rightarrow> turn_ret (Inl out) | Inr lo2 \<Rightarrow> run_calls C' A' E' calls lo2) :: (('p, 'o, 'w, 'j, 'n) turn_state, _) turn_act"
    have "\<exists>log'. grew rows jinv s0 log' s1 \<and> (\<forall>x. agrees r0 x \<longrightarrow> echoes (skills_of s) log' (agrees r) (?rest x))"
    proof (cases r0)
      case (Inl out)
      with c(2) l(1) show ?thesis
        by (intro exI[of _ "[]"])
          (auto simp: turn_ret_def agrees_def grew_def echoes_def untouched_def split: sum.splits prod.splits)
    next
      case (Inr lo2)
      have live: "\<not> is_replaying (tu_ctx s0)" "jinv (journal_of s0)" "skills_of s0 = skills_of s"
        using l(1) by (simp_all add: grew_def)
      have run: "run_calls C A E calls lo2 s0 = (Done (Inr r), s1)" using c(2) Inr by simp
      have one: "\<exists>log'. grew rows jinv s0 log' s1 \<and> echoes (skills_of s) log' (agrees r) (run_calls C' A' E' calls lo2' :: (('p, 'o, 'w, 'j, 'n) turn_state, _) turn_act)"
        if "alike lo2 lo2'" for lo2'
        using Cons.IH[OF live(1,2) that run] live(3) by simp
      obtain log' where l': "grew rows jinv s0 log' s1" using one[of lo2] by (auto simp: alike_def)
      have "echoes (skills_of s) log' (agrees r) (?rest x)" if "agrees r0 x" for x
        using that one Inr grew_unique[OF l'] by (auto simp: agrees_def split: sum.splits)
      with l' show ?thesis by blast
    qed
    then obtain log' where l': "grew rows jinv s0 log' s1"
        "\<forall>x. agrees r0 x \<longrightarrow> echoes (skills_of s) log' (agrees r) (?rest x)" by blast
    have "echoes (skills_of s) (log @ log') (agrees r) (run_calls C' A' E' (call # calls) lo' :: (('p, 'o, 'w, 'j, 'n) turn_state, _) turn_act)"
      unfolding run_calls.simps by (rule echoes_then[OF l(2)]) (use l'(2) in blast)
    with grew_trans[OF l(1) l'(1)] show ?thesis by blast
  qed simp_all
qed

lemma live_rounds:
  fixes s :: "('p, 'o, 'w, 'j, 'n) turn_state"
  assumes "tc_journal C = J" "record_codec_ok (tc_record C)" "reads_back (tc_json C)" "same_rules C A C' A'"
    and "\<not> is_replaying (tu_ctx s)" "jinv (journal_of s)" "alike lo lo'"
    and "rounds C A E budget left lo s = (Done (Inr r), s1)"
  shows "\<exists>log. rows (journal_of s1) = rows (journal_of s) @ log \<and>
    (left \<le> length (filter (model_row (ta_turn A)) log) \<or>
     echoes (skills_of s) log (agreeing r) (rounds C' A' E' budget left lo' :: (('p, 'o, 'w, 'j, 'n) turn_state, _) turn_act))"
  using assms(5-)
proof (induction left arbitrary: lo lo' s)
  case 0
  then have "tu_ctx s1 = tu_ctx s"
    by (auto simp: rounds_over_def turn_ret_def recover_user_visible_reply_def elim!: turn_then_cases
        split: if_splits prod.splits)
  then show ?case by (simp add: journal_of_def)
next
  case (Suc left)
  let ?i = "budget - Suc left"
  from Suc.prems(4)[unfolded rounds.simps Let_def] obtain p s0 where m: "model_answer C A E ?i lo s = (Done (Inr p), s0)"
      and cont: "(case snd p of
         Some (call # calls) \<Rightarrow>
           turn_then (run_calls C A E (call # calls) (push (assistant_turn p (call # calls)) (hear p lo))) (\<lambda>r.
             case r of Inl out \<Rightarrow> turn_ret out | Inr lo2 \<Rightarrow> rounds C A E budget left lo2)
       | _ \<Rightarrow> turn_ret (guarded C (said p (hear p lo)) (lo_count (hear p lo)))) s0 = (Done (Inr r), s1)"
    by (auto elim!: turn_then_cases)
  obtain e where e: "model_row (ta_turn A) e" "grew rows jinv s [e] s0"
      "echoes (skills_of s) [e] ((=) p) (model_answer C' A' E' ?i lo' :: (('p, 'o, 'w, 'j, 'n) turn_state, _) turn_act)"
    using live_model_answer[OF assms(1) Suc.prems(1,2) assms(3,4) m] by blast
  have live: "\<not> is_replaying (tu_ctx s0)" "jinv (journal_of s0)" "skills_of s0 = skills_of s"
    using e(2) by (simp_all add: grew_def)
  show ?case
  proof (cases "no_calls (snd p)")
    case True
    have "said p (hear p lo') = said p (hear p lo)" "lo_count (hear p lo') = lo_count (hear p lo)"
      using alike_simps(3)[OF Suc.prems(3)] by (auto simp: said_def alike_def split: option.splits list.splits)
    then have "agreeing r (guarded C' (said p (hear p lo')) (lo_count (hear p lo')))"
      using cont True assms(4)
      by (auto simp: no_calls_def turn_ret_def agreeing_def guarded_def same_rules_def split: option.splits list.splits)
    note echo = echoes_ret[where good = "agreeing r", OF this]
    have "echoes (skills_of s) ([e] @ []) (agreeing r) (rounds C' A' E' budget (Suc left) lo' :: (('p, 'o, 'w, 'j, 'n) turn_state, _) turn_act)"
      unfolding rounds.simps
    proof (rule echoes_then[OF e(3)])
      fix p' assume "p = p'"
      with True echo show "echoes (skills_of s) [] (agreeing r) (let lo1 = hear p' lo' in case snd p' of
          Some (call # calls) \<Rightarrow> turn_then (run_calls C' A' E' (call # calls) (push (assistant_turn p' (call # calls)) lo1))
            (\<lambda>x. case x of Inl out \<Rightarrow> turn_ret out | Inr lo2 \<Rightarrow> rounds C' A' E' budget left lo2)
        | _ \<Rightarrow> turn_ret (guarded C' (said p' lo1) (lo_count lo1)))"
        by (auto simp: no_calls_def Let_def split: option.splits list.splits)
    qed
    moreover have "s1 = s0" using cont True by (auto simp: no_calls_def turn_ret_def split: option.splits list.splits)
    ultimately show ?thesis using e(2) by (auto simp: grew_def)
  next
    case False
    then obtain call calls where calls: "snd p = Some (call # calls)"
      by (auto simp: no_calls_def neq_Nil_conv split: option.splits)
    let ?lo = "push (assistant_turn p (call # calls)) (hear p lo)"
    let ?lo' = "push (assistant_turn p (call # calls)) (hear p lo')"
    have "turn_then (run_calls C A E (call # calls) ?lo)
        (\<lambda>r. case r of Inl out \<Rightarrow> turn_ret out | Inr lo2 \<Rightarrow> rounds C A E budget left lo2) s0 = (Done (Inr r), s1)"
      using cont calls by simp
    then obtain r0 s2 where rc: "run_calls C A E (call # calls) ?lo s0 = (Done (Inr r0), s2)"
        "(case r0 of Inl out \<Rightarrow> turn_ret out | Inr lo2 \<Rightarrow> rounds C A E budget left lo2) s2 = (Done (Inr r), s1)"
      by (cases rule: turn_then_cases) simp_all
    have lo: "alike ?lo ?lo'" using Suc.prems(3) by simp
    obtain log where l: "grew rows jinv s0 log s2"
        "echoes (skills_of s) log (agrees r0)
          (run_calls C' A' E' (call # calls) ?lo' :: (('p, 'o, 'w, 'j, 'n) turn_state, _) turn_act)"
      using live_calls[where E' = E', OF assms(1,2,4) live(1,2) lo rc(1)] unfolding live(3) by (elim exE conjE) (rule that)
    let ?rest = "\<lambda>x. (case x of Inl out \<Rightarrow> turn_ret out | Inr lo2 \<Rightarrow> rounds C' A' E' budget left lo2)
      :: (('p, 'o, 'w, 'j, 'n) turn_state, _) turn_act"
    have echo: "echoes (skills_of s) ([e] @ log @ log') (agreeing r)
        (rounds C' A' E' budget (Suc left) lo' :: (('p, 'o, 'w, 'j, 'n) turn_state, _) turn_act)"
      if "\<And>x. agrees r0 x \<Longrightarrow> echoes (skills_of s) log' (agreeing r) (?rest x)" for log'
      unfolding rounds.simps
    proof (rule echoes_then[OF e(3)])
      fix p' assume "p = p'"
      then have p': "p' = p" by simp
      show "echoes (skills_of s) (log @ log') (agreeing r) (let lo1 = hear p' lo' in case snd p' of
          Some (call # calls) \<Rightarrow> turn_then (run_calls C' A' E' (call # calls) (push (assistant_turn p' (call # calls)) lo1)) ?rest
        | _ \<Rightarrow> turn_ret (guarded C' (said p' lo1) (lo_count lo1)))"
        unfolding p' calls Let_def option.case list.case by (rule echoes_then[OF l(2) that])
    qed
    show ?thesis
    proof (cases r0)
      case (Inl out)
      have "echoes (skills_of s) [] (agreeing r) (?rest x)" if same: "agrees r0 x" for x
      proof -
        obtain b where b: "x = Inl b" "agreeing out b"
          using same Inl by (cases x) (auto simp: agrees_def agreeing_def split: prod.splits)
        have "out = r" using rc(2) Inl by (simp add: turn_ret_def)
        with b show ?thesis by (simp add: echoes_ret)
      qed
      from echo[OF this] Inl rc(2) e(2) l(1) show ?thesis by (auto simp: grew_def turn_ret_def)
    next
      case (Inr lo2)
      have live2: "\<not> is_replaying (tu_ctx s2)" "jinv (journal_of s2)" "skills_of s2 = skills_of s"
        using l(1) live(3) by (simp_all add: grew_def)
      have run: "rounds C A E budget left lo2 s2 = (Done (Inr r), s1)" using rc(2) Inr by simp
      have one: "\<exists>log'. rows (journal_of s1) = rows (journal_of s2) @ log' \<and>
          (left \<le> length (filter (model_row (ta_turn A)) log') \<or>
           echoes (skills_of s) log' (agreeing r) (rounds C' A' E' budget left lo2' :: (('p, 'o, 'w, 'j, 'n) turn_state, _) turn_act))"
        if "alike lo2 lo2'" for lo2'
        using Suc.IH[OF live2(1,2) that run] unfolding live2(3) .
      obtain log' where l': "rows (journal_of s1) = rows (journal_of s2) @ log'" using one[of lo2] by (auto simp: alike_def)
      have "left \<le> length (filter (model_row (ta_turn A)) log') \<or> echoes (skills_of s) log' (agreeing r) (?rest x)"
        if "agrees r0 x" for x
        using that one l' Inr by (auto simp: agrees_def split: sum.splits)
      then have "left \<le> length (filter (model_row (ta_turn A)) log') \<or>
          echoes (skills_of s) ([e] @ log @ log') (agreeing r)
            (rounds C' A' E' budget (Suc left) lo' :: (('p, 'o, 'w, 'j, 'n) turn_state, _) turn_act)"
        using echo[of log'] by blast
      moreover have "rows (journal_of s1) = rows (journal_of s) @ [e] @ log @ log'"
        using e(2) l(1) l' by (simp add: grew_def)
      ultimately show ?thesis using e(1) by (intro exI[of _ "[e] @ log @ log'"]) auto
    qed
  qed
qed

end

text \<open>C3: a turn that ended is replayed from the rows it wrote to the file journal: it gives the same answer,
  or waits for the same approval of the same call, with the same number of executed dispatches, and
  neither a tool nor a model nor the journal is touched, whatever providers, clocks and messages it is
  replayed with. The one exception is a turn that used all its rounds, whose last resort asks the model
  outside the journal.\<close>

theorem turn_replays:
  fixes s :: "('p, 'o, 'w, fs, 'n) turn_state"
  assumes "tc_journal C = file_journal F p" "file_inv F p (journal_of s)" "\<not> is_replaying (tu_ctx s)"
    and "reads_back (tc_json C)" "record_codec_ok (tc_record C)" "same_rules C A C' A'"
    and "drive_tool_loop_durable C A E budget ms t s = (Done (Inr (out, n)), s1)"
  shows "\<exists>log. file_rows F p (journal_of s1) = file_rows F p (journal_of s) @ log \<and>
    (length (filter (model_row (ta_turn A)) log) < budget \<longrightarrow>
     (\<forall>s2 rest ms'. skills_of s2 = skills_of s \<and> tail_of s2 = log @ rest \<longrightarrow>
        (\<exists>out' s3. drive_tool_loop_durable C' A' E' budget ms' t (s2 :: ('p, 'o, 'w, fs, 'n) turn_state) =
             (Done (Inr (out', n)), s3) \<and>
           same_outcome out out' \<and> tail_of s3 = rest \<and> untouched s2 s3)))"
proof -
  have base: "ta_base A' = ta_base A" using assms(6) by (simp add: same_rules_def)
  let ?drive = "\<lambda>ms'. drive_tool_loop_durable C' A' E' budget ms' t :: (('p, 'o, 'w, fs, 'n) turn_state, _) turn_act"
  let ?used = "\<lambda>log. budget \<le> length (filter (model_row (ta_turn A)) log)"
  have one: "\<exists>log. file_rows F p (journal_of s1) = file_rows F p (journal_of s) @ log \<and>
    (?used log \<or> echoes (skills_of s) log (agreeing (out, n)) (?drive ms'))" for ms'
    using filec.live_rounds[OF assms(1,5,4,6,3,2) _ assms(7)[unfolded drive_tool_loop_durable_def],
        of "loop_start ms' t (ta_base A')" E']
    unfolding drive_tool_loop_durable_def by (simp add: alike_def loop_start_def base)
  obtain log where log: "file_rows F p (journal_of s1) = file_rows F p (journal_of s) @ log" using one by blast
  then have echo: "?used log \<or> echoes (skills_of s) log (agreeing (out, n)) (?drive ms')" for ms'
    using one[of ms'] by auto
  show ?thesis
  proof (intro exI[of _ log] conjI impI allI, fact log)
    fix s2 :: "('p, 'o, 'w, fs, 'n) turn_state" and rest ms'
    assume "length (filter (model_row (ta_turn A)) log) < budget" and s2: "skills_of s2 = skills_of s \<and> tail_of s2 = log @ rest"
    then have "echoes (skills_of s) log (agreeing (out, n)) (?drive ms')" using echo by fastforce
    from echoesE[OF this, of s2 rest] s2 obtain x s3 where
      "?drive ms' s2 = (Done (Inr x), s3)" "agreeing (out, n) x" "tail_of s3 = rest" "untouched s2 s3" by blast
    then show "\<exists>out' s3. ?drive ms' s2 = (Done (Inr (out', n)), s3) \<and> same_outcome out out' \<and> tail_of s3 = rest \<and> untouched s2 s3"
      by (cases x) (auto simp: agreeing_def)
  qed
qed

subsection \<open>A sample turn, replayed\<close>

definition ALL_STATUSES :: "task_status list" where
  "ALL_STATUSES = [Planned, Ready, Running, NeedsApproval, Blocked, Suspended, TaskDone, Failed, Cancelled]"

definition status_of_word :: "string \<Rightarrow> string + task_status" where
  "status_of_word w =
     (case List.find (\<lambda>s. show_status s = w) ALL_STATUSES of None \<Rightarrow> Inl ''unknown variant'' | Some s \<Rightarrow> Inr s)"

lemma status_of_word [simp]: "status_of_word (show_status s) = Inr s"
  by (cases s) (simp_all add: status_of_word_def ALL_STATUSES_def)

definition plain_id :: "uuid \<Rightarrow> json" where
  "plain_id i = JNum (PosInt (unat i))"

definition id_value :: "json \<Rightarrow> string + uuid" where
  "id_value v = (case v of JNum (PosInt n) \<Rightarrow> Inr (of_nat n) | _ \<Rightarrow> Inl invalid_type)"

definition plain_record_json :: "dispatch_record \<Rightarrow> json" where
  "plain_record_json d = JArr [plain_id (dr_task d), JStr (show_status (dr_status d)),
     or_null (map_option plain_id (dr_pending d)), or_null (map_option JStr (dr_error d))]"

definition plain_record_of_json :: "json \<Rightarrow> string + dispatch_record" where
  "plain_record_of_json v =
     (case v of
        JArr [t, JStr w, p, e] \<Rightarrow>
          (case (id_value t, status_of_word w, nullable id_value p, nullable text_value e) of
             (Inr i, Inr st, Inr pend, Inr err) \<Rightarrow>
               Inr \<lparr>dr_task = i, dr_status = st, dr_pending = pend, dr_error = err\<rparr>
           | _ \<Rightarrow> Inl invalid_type)
      | _ \<Rightarrow> Inl invalid_type)"

definition plain_record :: "dispatch_record step_codec" where
  "plain_record = \<lparr>sc_enc = (\<lambda>d. Inr (plain_record_json d)), sc_dec = plain_record_of_json\<rparr>"

lemma plain_record_ok: "record_codec_ok plain_record"
proof -
  have "plain_record_of_json (plain_record_json d) = Inr d" for d
    by (cases d; cases "dr_pending d"; cases "dr_error d")
      (simp_all add: plain_record_of_json_def plain_record_json_def plain_id_def id_value_def or_null_def nullable_def text_value_def)
  then show ?thesis by (simp add: record_codec_ok_def plain_record_def)
qed

text \<open>A model that calls a tool and then answers, and one that is not there.\<close>

definition first_call :: projection where
  "first_call = (None, Some [sample_call_a])"

definition then_answer :: projection where
  "then_answer = (Some ''hi'', None)"

definition reply_of :: "nat \<Rightarrow> projection" where
  "reply_of n = (if n = 0 then first_call else then_answer)"

definition answering_models :: "nat models" where
  "answering_models =
     \<lparr>md_chat = (\<lambda>c ms ts ch n. (Inr \<lparr>cp_content = fst (reply_of n), cp_calls = snd (reply_of n)\<rparr>, Suc n)),
      md_text = (\<lambda>c ms n. (Inl NoContentErr, Suc n)), md_now = (\<lambda>n. 0)\<rparr>"

definition absent_models :: "nat models" where
  "absent_models = \<lparr>md_chat = (\<lambda>c ms ts ch n. (Inl NoContentErr, Suc n)), md_text = (\<lambda>c ms n. (Inl NoContentErr, Suc n)), md_now = (\<lambda>n. 9)\<rparr>"

definition memory_rt :: "(mem_pending, mem_outbox) rt_config" where
  "memory_rt = \<lparr>rc_ext = sample_ext, rc_pending = mem_pending_store 10, rc_outbox = mem_outbox_store, rc_durable = None,
     rc_ttl_env = None, rc_minutes = Some\<rparr>"

text \<open>The tool acts and reports an error.\<close>

definition failed_record :: dispatch_record where
  "failed_record = \<lparr>dr_task = nil_id, dr_status = Failed, dr_pending = None, dr_error = Some (show_error (ExecutionFailed ''x''))\<rparr>"

definition replay_rows :: "journal_entry list" where
  "replay_rows =
     [completed 0 0 (llm_step_name 4 0) (JArr [JNull, JArr [tool_call_json plain_text sample_call_a]]),
      completed 0 1 (dispatch_step_name 4 0) (plain_record_json failed_record),
      completed 0 2 (llm_step_name 4 1) (JArr [JStr ''hi'', JNull])]"

definition replay_codec :: codec where
  "replay_codec = table_codec (zip replay_rows [''{0}'', ''{1}'', ''{2}''])"

definition replay_config :: "nat models \<Rightarrow> (mem_pending, mem_outbox, fs, nat) turn_config" where
  "replay_config M =
     \<lparr>tc_rt = memory_rt, tc_journal = file_journal replay_codec ''j'', tc_models = M, tc_json = plain_text,
      tc_record = plain_record, tc_lower = to_lower, tc_being = ''b'', tc_audit = False, tc_metrics = False,
      tc_target = None, tc_per_name = TOOL_BUDGET_PER_NAME, tc_fs_read = TOOL_BUDGET_FS_READ\<rparr>"

definition acting_runtime :: "(mem_pending, mem_outbox, nat) runtime" where
  "acting_runtime = (runtime_new 0)\<lparr>rt_pipe := sample_pipe ReadOnly, rt_executors := [(7, failing_executor)]\<rparr>"

definition replay_start :: "(mem_pending, mem_outbox, nat, fs, nat) turn_state" where
  "replay_start =
     \<lparr>tu_llm = sample_chain [sample_entry [''k'']], tu_net = 0, tu_rt = acting_runtime,
      tu_ctx = \<lparr>ctx_journal = [''j'' \<mapsto> []], replay = [], cursor = 0\<rparr>, tu_audit = [], tu_metrics = 0, tu_progress = []\<rparr>"

lemma sample_config_sel:
  "tc_target (replay_config M) = None" "tc_per_name (replay_config M) = TOOL_BUDGET_PER_NAME"
  "tc_audit (replay_config M) = False" "tc_metrics (replay_config M) = False" "tc_lower (replay_config M) = to_lower"
  by (simp_all add: replay_config_def)

lemma replay_codec_ok: "codec_ok replay_codec"
  unfolding replay_codec_def by (rule table_codec_ok) (simp add: table_ok_def row_text_def replay_rows_def)

lemma acting_submit:
  "\<exists>rt. submit_task_idempotent memory_rt sample_call key being 7 (JStr ''p'') 100 acting_runtime =
     (Done (Inl (ExecutionFailed ''x'')), rt) \<and> rt_world rt = 1"
proof -
  let ?ids = "shift_ids 1 (ce_ids sample_call)"
  let ?q = "hm_insert 5 (pipe_task\<lparr>t_status := Running, t_updated := 100\<rparr>)
      (hm_insert 5 (pipe_task\<lparr>t_status := Ready, t_updated := 100\<rparr>) (hm_insert 5 pipe_task (pl_queue (sample_pipe ReadOnly))))"
  let ?p = "(sample_pipe ReadOnly)\<lparr>pl_queue := ?q\<rparr>"
  have "run_with_input_taint sample_ext ?ids failing_executor pipe_task 100 False (sample_pipe ReadOnly, 0) =
      execute_and_finalize sample_ext ?ids failing_executor 5 (?ids 0) (t_payload pipe_task) 100 False (?p, 0)"
    using run_setup[OF sample_registry sample_pipe_facts(1-3), where X = sample_ext and ids = ?ids and
        exe = failing_executor and now = 100 and tainted = False and w = 0, of ReadOnly]
    by (simp only: sample_pipe_facts(4,7)) simp
  also have "\<exists>p'. \<dots> = (Done (Inl (ExecutionFailed ''x'')), (p', 1))"
    by (simp add: execute_and_finalize_def andthen_def task_or_missing_def reading_def queue_get_def record_event_def
        run_executor_def failing_executor_def Let_def)
  finally obtain p' where "pipe_run sample_ext ?ids failing_executor (task_new (ce_ids sample_call 0) 7 (JStr ''p'') 100) 100
      (sample_pipe ReadOnly, 0) = (Done (Inl (ExecutionFailed ''x'')), (p', 1))"
    by (auto simp: pipe_run_def sample_call_def pipe_task_def)
  then show ?thesis
    by (simp add: submit_task_idempotent_def andthen_def lookup_key_def reading_def memory_rt_def mem_outbox_store_def
        mo_lookup_def acting_runtime_def runtime_new_def with_pending_store_def on_outbox_def mo_intent_def attempt_def
        submit_task_as_def Let_def on_pipe_def mo_committed_def of_result_def)
qed

definition sample_last :: "turn_summary option \<Rightarrow> failover" where
  "sample_last x = (sample_chain [sample_entry [''k'']])\<lparr>fo_last := x\<rparr>"

lemma sample_asks:
  "tu_llm s = sample_last x \<Longrightarrow>
   ask_tools (replay_config answering_models) ms ts ch s =
     (Done (Inr \<lparr>cp_content = fst (reply_of (tu_net s)), cp_calls = snd (reply_of (tu_net s))\<rparr>),
      s\<lparr>tu_llm := sample_last (Some \<lparr>ts_model = Some ''p/m'', ts_failovers = 0, ts_class = None\<rparr>), tu_net := Suc (tu_net s)\<rparr>)"
  by (simp add: ask_tools_def complete_with_tools_choice_def chain_complete_def run_pass.simps entry_loop.simps
      snapshot_clients_def replay_config_def answering_models_def sample_last_def sample_chain_def sample_entry_def
      from_resolved_def health_default_def is_cooled_def vec_get_def record_success_def record_turn_summary_def
      mark_healthy_def memory_rt_def llm_config_new_def)

text \<open>What holds of the sample turn after \<open>k\<close> rows.\<close>

definition sample_at :: "nat \<Rightarrow> (mem_pending, mem_outbox, nat, fs, nat) turn_state \<Rightarrow> bool" where
  "sample_at k s \<longleftrightarrow>
     (\<exists>x. tu_llm s = sample_last x) \<and> file_inv replay_codec ''j'' (journal_of s) \<and>
     file_rows replay_codec ''j'' (journal_of s) = take k replay_rows \<and> cursor (tu_ctx s) = k \<and> replay (tu_ctx s) = []"

lemma sample_writes:
  assumes "sample_at k s" "tv v = Inr out" "replay_rows ! k = completed 0 (of_nat k) name out" "k < 3"
  obtains s1 where "durable_step (replay_config M) what tv fv (0, NoFault) name (Inr v) s = (Done (Inr v), s1)"
    "sample_at (Suc k) s1" "tu_rt s1 = tu_rt s" "tu_net s1 = tu_net s"
proof -
  let ?e = "replay_rows ! k" and ?c = "tu_ctx s"
  have len: "length replay_rows = 3" by (simp add: replay_rows_def)
  have storable: "file_storable replay_codec (journal_of s) ?e"
    using assms(4) len map_of_zip_is_None[of replay_rows "[''{0}'', ''{1}'', ''{2}'']"] nth_mem[of k replay_rows]
    by (auto simp: file_storable_def replay_codec_def table_codec_def)
  obtain j where j: "file_append replay_codec ''j'' NoFault (journal_of s) ?e = (Done (Inr ()), j)"
      "file_inv replay_codec ''j'' j" "file_rows replay_codec ''j'' j = file_rows replay_codec ''j'' (journal_of s) @ [?e]"
  proof -
    have "file_inv replay_codec ''j'' (journal_of s)" using assms(1) by (simp add: sample_at_def)
    from filej.append_ok[OF this storable] that show thesis by auto
  qed
  let ?s1 = "s\<lparr>tu_ctx := advance (?c\<lparr>ctx_journal := j\<rparr>)\<rparr>"
  have "durable_step (replay_config M) what tv fv (0, NoFault) name (Inr v) s = (Done (Inr v), ?s1)"
    using assms j(1)
    by (simp add: durable_step_def step_def sample_at_def vec_get_def Let_def replay_config_def journal_of_def)
  moreover have "sample_at (Suc k) ?s1"
    using assms(1,4) j(2,3) len by (auto simp: sample_at_def journal_of_def take_Suc_conv_app_nth)
  ultimately show thesis using that by simp
qed

lemma sample_model:
  assumes "sample_at k s" "k < 3" "\<not> (no_calls (snd (reply_of (tu_net s))) \<and> i = 0)"
    and "projection_json plain_text (reply_of (tu_net s)) = Inr out"
    and "replay_rows ! k = completed 0 (of_nat k) (llm_step_name 4 i) out"
  obtains s1 where "model_answer (replay_config answering_models) sample_args sample_turn_env i lo s = (Done (Inr (reply_of (tu_net s))), s1)"
    "sample_at (Suc k) s1" "tu_rt s1 = tu_rt s" "tu_net s1 = Suc (tu_net s)"
proof -
  obtain x where x: "tu_llm s = sample_last x" using assms(1) by (auto simp: sample_at_def)
  let ?s0 = "s\<lparr>tu_llm := sample_last (Some \<lparr>ts_model = Some ''p/m'', ts_failovers = 0, ts_class = None\<rparr>), tu_net := Suc (tu_net s)\<rparr>"
  have at: "sample_at k ?s0" using assms(1) by (auto simp: sample_at_def journal_of_def)
  obtain s1 where s1: "durable_step (replay_config answering_models) ''durable llm step failed: '' (projection_json plain_text)
      (projection_of_json plain_text) (0, NoFault) (llm_step_name 4 i) (Inr (reply_of (tu_net s))) ?s0 = (Done (Inr (reply_of (tu_net s))), s1)"
    "sample_at (Suc k) s1" "tu_rt s1 = tu_rt ?s0" "tu_net s1 = tu_net ?s0"
    by (rule sample_writes[where tv = "projection_json plain_text", OF at assms(4,5,2)])
  have "\<not> is_replaying (tu_ctx s)" using assms(1) by (simp add: sample_at_def is_replaying_def)
  moreover have "fresh_answer (replay_config answering_models) sample_args i lo s = (Done (Inr (reply_of (tu_net s))), ?s0)"
    using assms(3) sample_asks[OF x] by (auto simp: fresh_answer_def turn_then_def turn_ret_def Let_def)
  ultimately have "model_answer (replay_config answering_models) sample_args sample_turn_env i lo s = (Done (Inr (reply_of (tu_net s))), s1)"
    using s1(1) by (simp add: model_answer_def Let_def turn_then_def turn_ret_def replay_config_def sample_args_def sample_turn_env_def)
  with s1 that show thesis by simp
qed

lemma sample_acts:
  assumes "sample_at 1 s" "tu_rt s = acting_runtime"
  obtains s1 where "dispatch_tool (replay_config M) sample_args sample_turn_env 0 7 (JStr ''p'') s = (Done (Inr failed_record), s1)"
    "sample_at 2 s1" "rt_world (tu_rt s1) = 1" "tu_net s1 = tu_net s" "skills_of s1 = skills_of s"
proof -
  obtain rt where rt: "submit_task_idempotent memory_rt sample_call (dispatch_step_name 4 0) ''b'' 7 (JStr ''p'') 100 acting_runtime =
     (Done (Inl (ExecutionFailed ''x'')), rt)" "rt_world rt = 1" using acting_submit by blast
  have at: "sample_at 1 (s\<lparr>tu_rt := rt\<rparr>)" using assms(1) by (auto simp: sample_at_def journal_of_def)
  obtain s1 where s1: "durable_step (replay_config M) ''durable dispatch step failed: '' (sc_enc plain_record) (sc_dec plain_record)
      (0, NoFault) (dispatch_step_name 4 0) (Inr failed_record) (s\<lparr>tu_rt := rt\<rparr>) = (Done (Inr failed_record), s1)"
    "sample_at (Suc 1) s1" "tu_rt s1 = tu_rt (s\<lparr>tu_rt := rt\<rparr>)" "tu_net s1 = tu_net (s\<lparr>tu_rt := rt\<rparr>)"
    by (rule sample_writes[where tv = "sc_enc plain_record" and out = "plain_record_json failed_record", OF at])
      (auto simp: plain_record_def replay_rows_def)
  have "\<not> is_replaying (tu_ctx s)" using assms(1) by (simp add: sample_at_def is_replaying_def)
  then have "dispatch_tool (replay_config M) sample_args sample_turn_env 0 7 (JStr ''p'') s = (Done (Inr failed_record), s1)"
    using s1(1) rt(1) assms(2)
    by (simp add: dispatch_tool_def Let_def turn_then_def on_runtime_def replay_config_def sample_args_def sample_turn_env_def
        from_outcome_def failed_record_def)
  moreover have "skills_of s1 = skills_of s"
    using preservesD[OF settled_keyed rt(1)] s1(3) assms(2) by (simp add: skills_of_def)
  ultimately show thesis using s1 rt(2) that by (simp add: numeral_2_eq_2)
qed

lemma sample_at_start: "sample_at 0 replay_start"
proof -
  have "file_inv replay_codec ''j'' [''j'' \<mapsto> []] \<and> file_rows replay_codec ''j'' [''j'' \<mapsto> []] = []"
    by (intro file_invI[OF replay_codec_ok]) (auto simp: parse_content_def buf_lines_no_nl)
  then show ?thesis by (auto simp: sample_at_def replay_start_def journal_of_def sample_last_def sample_chain_def)
qed

lemma sample_replay_run:
  "\<exists>s1. drive_tool_loop_durable (replay_config answering_models) sample_args sample_turn_env 3 [] [] replay_start =
     (Done (Inr (Answer ''hi'', 0)), s1) \<and> sample_at 3 s1 \<and> rt_world (tu_rt s1) = 1 \<and> skills_of s1 = skills_of replay_start"
proof -
  let ?C = "replay_config answering_models" and ?A = sample_args and ?E = sample_turn_env and ?n = "Suc (Suc (Suc 0))"
  have net: "tu_net replay_start = 0" "tu_rt replay_start = acting_runtime" by (simp_all add: replay_start_def)
  obtain s1 where 1: "model_answer ?C ?A ?E 0 (loop_start [] [] 0) replay_start = (Done (Inr (reply_of 0)), s1)"
      "sample_at (Suc 0) s1" "tu_rt s1 = acting_runtime" "tu_net s1 = Suc 0"
    by (rule sample_model[OF sample_at_start, where i = 0 and lo = "loop_start [] [] 0" and
          out = "JArr [JNull, JArr [tool_call_json plain_text sample_call_a]]"])
      (auto simp: net reply_of_def first_call_def no_calls_def projection_json_def or_null_def replay_rows_def)
  have p0: "snd (reply_of 0) = Some (sample_call_a # [])" by (simp add: reply_of_def first_call_def)
  define lo where "lo = push (assistant_turn (reply_of 0) [sample_call_a]) (hear (reply_of 0) (loop_start [] [] 0))"
  have lo: "lo_index lo = 0" "lo_uses lo = []" "lo_reads lo = 0" "lo_last lo = []" "lo_count lo = 0"
    by (simp_all add: lo_def push_def hear_def loop_start_def reply_of_def first_call_def)
  obtain s2 where 2: "dispatch_tool ?C ?A ?E 0 7 (JStr ''p'') s1 = (Done (Inr failed_record), s2)" "sample_at 2 s2"
      "rt_world (tu_rt s2) = 1" "tu_net s2 = Suc 0" "skills_of s2 = skills_of s1"
    using sample_acts[of s1 answering_models] 1 by auto
  have skill: "map_name_to_skill ''a'' acting_runtime = Some 7"
    by (simp add: map_name_to_skill_def acting_runtime_def sample_pipe_def registry_list_def sample_manifest_def)
  have "\<exists>lo2. run_call ?C ?A ?E sample_call_a lo s1 = (Done (Inr (Inr lo2)), s2) \<and> lo_last lo2 = [] \<and> lo_count lo2 = 0"
    using lo skill 1(3)
    by (simp add: run_call_def Let_def sample_call_a_def over_budget_def count_use_def uses_def emit_progress_def
        sample_config_sel TOOL_BUDGET_PER_NAME_def str_contains_def starts_with_def
        turn_then_ok[where m = "dispatch_tool C A E k q v" for C A E k q v, OF 2(1)])
      (simp add: settle_dispatch_def failed_record_def turn_ret_def tool_note_def record_turn_audit_into_def emit_tool_def
        push_def sample_config_sel)
  then obtain lo2 where 3: "run_call ?C ?A ?E sample_call_a lo s1 = (Done (Inr (Inr lo2)), s2)" "lo_last lo2 = []" "lo_count lo2 = 0"
    by blast
  obtain s3 where 4: "model_answer ?C ?A ?E 1 lo2 s2 = (Done (Inr (reply_of 1)), s3)"
      "sample_at (Suc 2) s3" "tu_rt s3 = tu_rt s2" "tu_net s3 = Suc 1"
    by (rule sample_model[OF 2(2), where i = 1 and lo = lo2 and out = "JArr [JStr ''hi'', JNull]"])
      (auto simp: 2(4) reply_of_def then_answer_def projection_json_def or_null_def replay_rows_def)
  have guard: "guarded ?C (said (reply_of 1) (hear (reply_of 1) lo2)) (lo_count (hear (reply_of 1) lo2)) = (Answer ''hi'', 0)"
  proof -
    have "\<not> response_claims_tool_use to_lower ''hi''" by code_simp
    then show ?thesis
      by (simp add: guarded_def said_def hear_def reply_of_def then_answer_def sample_config_sel apply_grounding_guard_def 3(3))
  qed
  have "rounds ?C ?A ?E ?n ?n (loop_start [] [] 0) replay_start =
      turn_then (run_calls ?C ?A ?E [sample_call_a] lo)
        (\<lambda>r. case r of Inl out \<Rightarrow> turn_ret out | Inr lo2 \<Rightarrow> rounds ?C ?A ?E ?n (Suc (Suc 0)) lo2) s1"
    unfolding lo_def by (rule rounds_calling[OF _ p0]) (simp add: 1(1))
  also have "\<dots> = rounds ?C ?A ?E ?n (Suc (Suc 0)) lo2 s2"
    by (simp add: turn_then_def 3(1) turn_ret_def)
  also have "\<dots> = (Done (Inr (Answer ''hi'', 0)), s3)"
    using 4(1) guard by (simp add: turn_then_def Let_def reply_of_def then_answer_def turn_ret_def)
  finally show ?thesis
    using 4(2,3) 2(3,5) 1(3) net(2) by (auto simp: skills_of_def drive_tool_loop_durable_def sample_args_def numeral_3_eq_3)
qed

theorem turn_replays_witness:
  "\<exists>s1 c out' s3.
     drive_tool_loop_durable (replay_config answering_models) sample_args sample_turn_env 3 [] [] replay_start =
       (Done (Inr (Answer ''hi'', 0)), s1) \<and> rt_world (tu_rt s1) = 1 \<and>
     ctx_new (file_journal replay_codec ''j'') (journal_of s1) = Inr c \<and>
     drive_tool_loop_durable (replay_config absent_models) sample_args sample_turn_env 3 [] [] (s1\<lparr>tu_ctx := c\<rparr>) =
       (Done (Inr (out', 0)), s3) \<and> same_outcome (Answer ''hi'') out' \<and> tail_of s3 = [] \<and> untouched (s1\<lparr>tu_ctx := c\<rparr>) s3"
proof -
  obtain s1 where s1: "drive_tool_loop_durable (replay_config answering_models) sample_args sample_turn_env 3 [] [] replay_start =
     (Done (Inr (Answer ''hi'', 0)), s1)" "sample_at 3 s1" "rt_world (tu_rt s1) = 1" "skills_of s1 = skills_of replay_start"
    using sample_replay_run by blast
  let ?c = "\<lparr>ctx_journal = journal_of s1, replay = replay_rows, cursor = 0\<rparr>"
  have rows: "file_rows replay_codec ''j'' (journal_of s1) = replay_rows" "file_inv replay_codec ''j'' (journal_of s1)"
    using s1(2) by (simp_all add: sample_at_def replay_rows_def)
  have c: "ctx_new (file_journal replay_codec ''j'') (journal_of s1) = Inr ?c"
    using filej.replay_all_rows[OF rows(2)] rows(1) by (simp add: ctx_new_def replay_rows_def completed_def)
  have start: "file_inv replay_codec ''j'' (journal_of replay_start)" "file_rows replay_codec ''j'' (journal_of replay_start) = []"
      "\<not> is_replaying (tu_ctx replay_start)"
    using sample_at_start by (simp_all add: sample_at_def is_replaying_def)
  have rules: "same_rules (replay_config answering_models) sample_args (replay_config absent_models) sample_args"
    by (simp add: same_rules_def replay_config_def)
  have cfg: "tc_journal (replay_config M) = file_journal replay_codec ''j''" "reads_back (tc_json (replay_config M))"
      "record_codec_ok (tc_record (replay_config M))" for M
    using plain_reads_back plain_record_ok by (simp_all add: replay_config_def)
  obtain log where log: "file_rows replay_codec ''j'' (journal_of s1) = file_rows replay_codec ''j'' (journal_of replay_start) @ log"
      "length (filter (model_row (ta_turn sample_args)) log) < 3 \<longrightarrow>
       (\<forall>s2 rest ms'. skills_of s2 = skills_of replay_start \<and> tail_of s2 = log @ rest \<longrightarrow>
          (\<exists>out' s3. drive_tool_loop_durable (replay_config absent_models) sample_args sample_turn_env 3 ms' []
               (s2 :: (mem_pending, mem_outbox, nat, fs, nat) turn_state) =
               (Done (Inr (out', 0)), s3) \<and>
             same_outcome (Answer ''hi'') out' \<and> tail_of s3 = rest \<and> untouched s2 s3))"
    using turn_replays[OF cfg(1) start(1,3) cfg(2,3) rules s1(1), where E' = sample_turn_env] by blast
  have l: "log = replay_rows" using log(1) start(2) rows(1) by simp
  have "\<not> model_row 4 (replay_rows ! 1)"
    by (simp add: model_row_def replay_rows_def completed_def llm_step_name_def dispatch_step_name_def)
  then have "length (filter (model_row 4) replay_rows) < 3"
    using length_filter_less[of "replay_rows ! 1" replay_rows "model_row 4"] by (simp add: replay_rows_def)
  moreover have "skills_of (s1\<lparr>tu_ctx := ?c\<rparr>) = skills_of replay_start" "tail_of (s1\<lparr>tu_ctx := ?c\<rparr>) = log @ []"
    using s1(4) l by (simp_all add: skills_of_def tail_of_def)
  ultimately obtain out' s3 where "drive_tool_loop_durable (replay_config absent_models) sample_args sample_turn_env 3 [] [] (s1\<lparr>tu_ctx := ?c\<rparr>) =
       (Done (Inr (out', 0)), s3)" "same_outcome (Answer ''hi'') out'" "tail_of s3 = []" "untouched (s1\<lparr>tu_ctx := ?c\<rparr>) s3"
    using log(2) l by (fastforce simp: sample_args_def)
  with s1(1,3) c show ?thesis by blast
qed

end
