(* ===== verification/Turn_Laws.thy ===== *)
theory Turn_Laws
  imports Turn_Replay
begin

section \<open>The conversation of a turn\<close>

text \<open>
  Providers refuse a conversation in which a tool call has no result. A turn never asks a model with
  such a conversation, and stops for an approval with the call that waits, and the calls after it, open.
\<close>

text \<open>The calls without a result, in order.\<close>

definition hear_message :: "string list \<Rightarrow> llm_message \<Rightarrow> string list" where
  "hear_message opens m =
     (let answered = (case (lm_role m, lm_call_id m) of (RoleTool, Some i) \<Rightarrow> remove1 i opens | _ \<Rightarrow> opens)
      in answered @ (case lm_calls m of None \<Rightarrow> [] | Some cs \<Rightarrow> map tl_id cs))"

definition unanswered :: "llm_message list \<Rightarrow> string list" where
  "unanswered ms = foldl hear_message [] ms"

lemma unanswered_snoc [simp]: "unanswered (ms @ [m]) = hear_message (unanswered ms) m"
  by (simp add: unanswered_def)

lemma hear_plain [simp]:
  "hear_message opens (user_message t) = opens" "hear_message opens (system_message t) = opens"
  "hear_message opens (assistant_message t) = opens" "hear_message opens (tool_result i t) = remove1 i opens"
  by (simp_all add: hear_message_def user_message_def system_message_def assistant_message_def tool_result_def plain_message_def)

lemma hear_calls [simp]: "cs \<noteq> [] \<Longrightarrow> hear_message opens (assistant_turn p cs) = opens @ map tl_id cs"
  by (simp add: hear_message_def assistant_turn_def with_tool_calls_def assistant_message_def plain_message_def)

text \<open>A stack of a system prompt, plain history and the question is closed.\<close>

lemma stack_closed:
  assumes "\<forall>m \<in> set history. lm_calls m = None"
  shows "unanswered (build_message_stack prompt history query) = []"
proof -
  have "foldl hear_message [] ms = []" if "\<forall>m \<in> set ms. lm_calls m = None" for ms
    using that by (induction ms) (auto simp: hear_message_def split: llm_role.splits option.splits)
  from this[of "system_message prompt # history"] assms show ?thesis
    by (simp add: unanswered_def build_message_stack_def) (simp add: system_message_def plain_message_def)
qed

lemma emit_progress_messages: "emit_progress C E b tool lo s = (lo1, s1) \<Longrightarrow> lo_messages lo1 = lo_messages lo"
  by (auto simp: emit_progress_def Let_def split: option.splits if_splits)

lemma hear_messages [simp]: "lo_messages (hear p lo) = lo_messages lo"
  by (simp add: hear_def split: option.splits list.splits)

text \<open>A call is answered, or waits with the messages as they were.\<close>

lemma run_call_messages:
  assumes "run_call C A E call lo s = (Done (Inr r), s1)"
  shows "(\<exists>lo1 t. r = Inr lo1 \<and> lo_messages lo1 = lo_messages lo @ [tool_result (tl_id call) t]) \<or>
    (\<exists>i sm n. r = Inl (AwaitingApproval (tl_name call) i sm (lo_messages lo) (tl_id call) (tl_args call), n))"
proof (cases "over_budget C (tl_name call) (count_use (tl_name call) lo) \<or> map_name_to_skill (tl_name call) (tu_rt s) = None")
  case True
  then show ?thesis
    using assms by (auto simp: run_call_def Let_def turn_ret_def push_def count_use_def split: if_splits)
next
  case False
  then obtain k where k: "map_name_to_skill (tl_name call) (tu_rt s) = Some k" by auto
  let ?lo = "(count_use (tl_name call) lo)\<lparr>lo_index := lo_index lo + 1\<rparr>"
  obtain lo1 s0 where p: "emit_progress C E (is_replaying (tu_ctx s)) (tl_name call) ?lo s = (lo1, s0)" by (rule prod.exhaust)
  have m: "lo_messages lo1 = lo_messages lo" using emit_progress_messages[OF p] by (simp add: count_use_def)
  have "turn_then (dispatch_tool C A E (lo_index lo) k (tl_args call))
      (settle_dispatch C A E (is_replaying (tu_ctx s)) call lo1) s0 = (Done (Inr r), s1)"
    using assms False k p by (simp add: run_call_def Let_def)
  then obtain d s2 where "settle_dispatch C A E (is_replaying (tu_ctx s)) call lo1 d s2 = (Done (Inr r), s1)"
    by (rule turn_then_done)
  with m show ?thesis
    by (auto simp: settle_dispatch_def Let_def turn_ret_def push_def split: option.splits)
qed

text \<open>The loop stops at one of the calls: those before it have results, it and those after it have none.\<close>

definition waits_at :: "tool_call list \<Rightarrow> loop_outcome \<Rightarrow> bool" where
  "waits_at calls out \<longleftrightarrow>
     (\<exists>earlier call later i sm ms. calls = earlier @ call # later \<and>
        out = AwaitingApproval (tl_name call) i sm ms (tl_id call) (tl_args call) \<and>
        unanswered ms = map tl_id (call # later))"

lemma waits_here:
  "unanswered ms = map tl_id (call # calls) \<Longrightarrow>
     waits_at (call # calls) (AwaitingApproval (tl_name call) i sm ms (tl_id call) (tl_args call))"
  unfolding waits_at_def by (intro exI[of _ "[]"]) auto

lemma waits_later: "waits_at calls out \<Longrightarrow> waits_at (call # calls) out"
  unfolding waits_at_def by (metis append_Cons)

lemma run_calls_messages:
  assumes "run_calls C A E calls lo s = (Done (Inr r), s1)" "unanswered (lo_messages lo) = map tl_id calls"
  shows "(\<exists>lo1. r = Inr lo1 \<and> unanswered (lo_messages lo1) = []) \<or> (\<exists>out n. r = Inl (out, n) \<and> waits_at calls out)"
  using assms
proof (induction calls arbitrary: lo s)
  case Nil
  then show ?case by (auto simp: turn_ret_def)
next
  case (Cons call calls)
  from Cons.prems(1)[unfolded run_calls.simps] show ?case
  proof (cases rule: turn_then_cases)
    case (1 r0 s0)
    from run_call_messages[OF 1(1)] show ?thesis
    proof (elim disjE exE conjE)
      fix lo1 t assume lo1: "r0 = Inr lo1" "lo_messages lo1 = lo_messages lo @ [tool_result (tl_id call) t]"
      then have "unanswered (lo_messages lo1) = map tl_id calls" using Cons.prems(2) by simp
      with Cons.IH[of lo1 s0] 1(2) lo1(1) show ?thesis by (auto intro: waits_later)
    next
      fix i sm n assume "r0 = Inl (AwaitingApproval (tl_name call) i sm (lo_messages lo) (tl_id call) (tl_args call), n)"
      with 1(2) waits_here[OF Cons.prems(2)] show ?thesis by (auto simp: turn_ret_def)
    qed
  qed simp_all
qed

text \<open>A turn that waits stopped at a call of the model's last answer, in the journal or asked for.\<close>

lemma rounds_wait:
  assumes "rounds C A E budget left lo s = (Done (Inr (out, n)), s1)" "unanswered (lo_messages lo) = []"
    and "out = AwaitingApproval skill i sm ms c v"
  shows "\<exists>calls. waits_at calls out"
  using assms(1,2)
proof (induction left arbitrary: lo s)
  case 0
  then show ?case
    using assms(3) by (auto simp: rounds_over_def turn_ret_def guarded_def elim!: turn_then_cases split: if_splits option.splits)
next
  case (Suc left)
  from Suc.prems(1)[unfolded rounds.simps Let_def] show ?case
  proof (cases rule: turn_then_cases)
    case (1 p s0)
    show ?thesis
    proof (cases "no_calls (snd p)")
      case True
      with 1(2) assms(3) show ?thesis
        by (auto simp: no_calls_def turn_ret_def guarded_def split: option.splits list.splits)
    next
      case False
      then obtain call calls where calls: "snd p = Some (call # calls)"
        by (auto simp: no_calls_def neq_Nil_conv split: option.splits)
      let ?lo = "push (assistant_turn p (call # calls)) (hear p lo)"
      have open_calls: "unanswered (lo_messages ?lo) = map tl_id (call # calls)"
        using Suc.prems(2) by (simp add: push_def)
      have "turn_then (run_calls C A E (call # calls) ?lo)
          (\<lambda>r. case r of Inl out \<Rightarrow> turn_ret out | Inr lo2 \<Rightarrow> rounds C A E budget left lo2) s0 = (Done (Inr (out, n)), s1)"
        using 1(2) calls by simp
      then obtain r0 s2 where rc: "run_calls C A E (call # calls) ?lo s0 = (Done (Inr r0), s2)"
          "(case r0 of Inl out \<Rightarrow> turn_ret out | Inr lo2 \<Rightarrow> rounds C A E budget left lo2) s2 = (Done (Inr (out, n)), s1)"
        by (cases rule: turn_then_cases) simp_all
      from run_calls_messages[OF rc(1) open_calls] rc(2) Suc.IH show ?thesis
        by (auto simp: turn_ret_def)
    qed
  qed simp_all
qed

subsection \<open>What the models are asked\<close>

text \<open>Models that agree on closed conversations.\<close>

definition agree_closed :: "'n models \<Rightarrow> 'n models \<Rightarrow> bool" where
  "agree_closed M M' \<longleftrightarrow> md_now M' = md_now M \<and>
     (\<forall>ms. unanswered ms = [] \<longrightarrow>
        (\<forall>c ts ch. md_chat M' c ms ts ch = md_chat M c ms ts ch) \<and> (\<forall>c. md_text M' c ms = md_text M c ms))"

lemma ask_tools_closed:
  assumes "agree_closed (tc_models C) M" "unanswered ms = []"
  shows "ask_tools (C\<lparr>tc_models := M\<rparr>) ms ts ch = ask_tools C ms ts ch"
  using assms by (intro ext) (simp add: ask_tools_def agree_closed_def)

lemma recover_closed:
  assumes "agree_closed (tc_models C) M" "unanswered ms = []"
  shows "recover_user_visible_reply (C\<lparr>tc_models := M\<rparr>) ms = recover_user_visible_reply C ms"
  using assms by (intro ext) (simp add: recover_user_visible_reply_def agree_closed_def)

text \<open>Nothing else looks at the models.\<close>

lemma models_unused [simp]:
  "durable_step (C\<lparr>tc_models := M\<rparr>) = durable_step C" "tool_note (C\<lparr>tc_models := M\<rparr>) = tool_note C"
  "emit_progress (C\<lparr>tc_models := M\<rparr>) = emit_progress C" "over_budget (C\<lparr>tc_models := M\<rparr>) = over_budget C"
  "guarded (C\<lparr>tc_models := M\<rparr>) = guarded C"
  by (intro ext, simp add: durable_step_def tool_note_def emit_progress_def over_budget_def guarded_def split: option.split)+

lemma models_unused_calls [simp]:
  "settle_dispatch (C\<lparr>tc_models := M\<rparr>) = settle_dispatch C" "dispatch_tool (C\<lparr>tc_models := M\<rparr>) = dispatch_tool C"
  by (intro ext, simp add: settle_dispatch_def dispatch_tool_def Let_def split: option.split)+

lemma run_call_models [simp]: "run_call (C\<lparr>tc_models := M\<rparr>) = run_call C"
  by (intro ext) (simp add: run_call_def Let_def cong: if_cong option.case_cong prod.case_cong)

lemma run_calls_models [simp]: "run_calls (C\<lparr>tc_models := M\<rparr>) A E calls = run_calls C A E calls"
proof (induction calls)
  case Nil
  show ?case by (intro ext) simp
next
  case (Cons call calls)
  then show ?case by (intro ext) simp
qed

lemma turn_then_agree:
  assumes "m s = m' s" "\<And>a s1. m s = (Done (Inr a), s1) \<Longrightarrow> f a s1 = g a s1"
  shows "turn_then m f s = turn_then m' g s"
  using assms by (auto simp: turn_then_def split: prod.split outcome.split sum.split)

lemma fresh_answer_closed:
  assumes "agree_closed (tc_models C) M" "unanswered (lo_messages lo) = []"
  shows "fresh_answer (C\<lparr>tc_models := M\<rparr>) A i lo = fresh_answer C A i lo"
  by (intro ext) (simp add: fresh_answer_def ask_tools_closed[OF assms] cong: if_cong)

lemma model_answer_closed:
  assumes "agree_closed (tc_models C) M" "unanswered (lo_messages lo) = []"
  shows "model_answer (C\<lparr>tc_models := M\<rparr>) A E i lo = model_answer C A E i lo"
  by (intro ext) (simp add: model_answer_def Let_def fresh_answer_closed[OF assms])

lemma rounds_closed:
  fixes s :: "('p, 'o, 'w, 'j, 'n) turn_state"
  assumes "agree_closed (tc_models C) M" "unanswered (lo_messages lo) = []"
  shows "rounds (C\<lparr>tc_models := M\<rparr>) A E budget left lo s = rounds C A E budget left lo s"
  using assms(2)
proof (induction left arbitrary: lo s)
  case 0
  then show ?case by (simp add: rounds_over_def recover_closed[OF assms(1)] cong: option.case_cong)
next
  case (Suc left)
  have again: "turn_then (run_calls C A E (call # calls) lo1) (\<lambda>r. case r of Inl out \<Rightarrow> turn_ret out
        | Inr lo2 \<Rightarrow> rounds (C\<lparr>tc_models := M\<rparr>) A E budget left lo2) s0 =
      turn_then (run_calls C A E (call # calls) lo1) (\<lambda>r. case r of Inl out \<Rightarrow> turn_ret out
        | Inr lo2 \<Rightarrow> rounds C A E budget left lo2) s0"
    if "unanswered (lo_messages lo1) = map tl_id (call # calls)" for call calls lo1 and s0 :: "('p, 'o, 'w, 'j, 'n) turn_state"
  proof (rule turn_then_agree[OF refl])
    fix r s2 assume "run_calls C A E (call # calls) lo1 s0 = (Done (Inr r), s2)"
    from run_calls_messages[OF this that] Suc.IH
    show "(case r of Inl out \<Rightarrow> turn_ret out | Inr lo2 \<Rightarrow> rounds (C\<lparr>tc_models := M\<rparr>) A E budget left lo2) s2 =
      (case r of Inl out \<Rightarrow> turn_ret out | Inr lo2 \<Rightarrow> rounds C A E budget left lo2) s2"
      by auto
  qed
  show ?case
    unfolding rounds.simps Let_def model_answer_closed[OF assms(1) Suc.prems] models_unused run_calls_models
  proof (rule turn_then_agree[OF refl], goal_cases)
    case (1 p s0)
    show ?case
      using again[of "push (assistant_turn p (call # calls)) (hear p lo)" call calls s0 for call calls] Suc.prems
      by (cases "snd p") (auto simp: push_def simp del: run_calls.simps split: list.split)
  qed
qed

text \<open>C4: a turn depends on its models only through what they say to closed conversations: with other models
  that answer those in the same way it runs the same, step for step, whatever they make of a conversation
  in which a tool call has no result yet.\<close>

theorem turn_asks_closed:
  assumes "agree_closed (tc_models C) M" "unanswered ms = []"
  shows "drive_tool_loop_durable (C\<lparr>tc_models := M\<rparr>) A E budget ms t s = drive_tool_loop_durable C A E budget ms t s"
  unfolding drive_tool_loop_durable_def by (rule rounds_closed[OF assms(1)]) (simp add: assms(2) loop_start_def)

definition strict_models :: "nat models" where
  "strict_models = answering_models\<lparr>md_chat := (\<lambda>c ms ts ch n.
     if unanswered ms = [] then md_chat answering_models c ms ts ch n else (Inl NoContentErr, n))\<rparr>"

theorem turn_asks_closed_witness:
  "\<exists>s1. drive_tool_loop_durable ((replay_config answering_models)\<lparr>tc_models := strict_models\<rparr>) sample_args sample_turn_env 3 [] []
     replay_start = (Done (Inr (Answer ''hi'', 0)), s1) \<and> rt_world (tu_rt s1) = 1"
proof -
  have "agree_closed (tc_models (replay_config answering_models)) strict_models"
    by (simp add: agree_closed_def replay_config_def strict_models_def)
  moreover have "unanswered [] = []" by (simp add: unanswered_def)
  moreover obtain s1 where "drive_tool_loop_durable (replay_config answering_models) sample_args sample_turn_env 3 [] [] replay_start =
      (Done (Inr (Answer ''hi'', 0)), s1)" "rt_world (tu_rt s1) = 1"
    using sample_replay_run by blast
  ultimately show ?thesis
    using turn_asks_closed[where C = "replay_config answering_models" and M = strict_models and ms = "[]" and A = sample_args
        and E = sample_turn_env and budget = 3 and t = "[]" and s = replay_start] by auto
qed

subsection \<open>What a turn says\<close>

lemma run_call_stop:
  "run_call C A E call lo s = (Done (Inr (Inl (Answer a, n))), s1) \<Longrightarrow> False"
  using run_call_messages[of C A E call lo s "Inl (Answer a, n)" s1] by auto

lemma run_calls_stop:
  "run_calls C A E calls lo s = (Done (Inr (Inl (Answer a, n))), s1) \<Longrightarrow> False"
proof (induction calls arbitrary: lo s)
  case Nil
  then show ?case by (simp add: turn_ret_def)
next
  case (Cons call calls)
  from Cons.prems[unfolded run_calls.simps] show ?case
  proof (cases rule: turn_then_cases)
    case (1 r0 s0)
    then show ?thesis using run_call_stop Cons.IH by (cases r0) (auto simp: turn_ret_def)
  qed simp_all
qed

text \<open>A claim of having acted, as the program sees it: a word that reports an act, and a path of a drive.\<close>

definition claims_act :: "(string \<Rightarrow> string) \<Rightarrow> string \<Rightarrow> bool" where
  "claims_act lower a \<longleftrightarrow> list_ex (str_contains (lower a)) CLAIM_MARKERS \<and>
     (str_contains (lower a) ('':'' @ [backslash]) \<or> str_contains (lower a) ''e:/'' \<or>
      str_contains (lower a) (''e:'' @ [backslash, backslash]))"

text \<open>The warning that a claim is not verified.\<close>

definition warned :: "(string \<Rightarrow> string) \<Rightarrow> string \<Rightarrow> bool" where
  "warned lower a \<longleftrightarrow> str_contains (lower a) warning_sign \<and> str_contains (lower a) ''vahvistamaton''"

lemma claims_tool_use_iff: "response_claims_tool_use lower a \<longleftrightarrow> claims_act lower a \<and> \<not> warned lower a"
  by (simp add: response_claims_tool_use_def claims_act_def warned_def Let_def)

text \<open>
  The same turn with the guard switched off: with a lower-casing that leaves no claim to find, and the same
  verdict on whether the user asked for an action.
\<close>

definition unguarded :: "('p, 'o, 'j, 'n) turn_config \<Rightarrow> turn_args \<Rightarrow> ('p, 'o, 'j, 'n) turn_config" where
  "unguarded C A = C\<lparr>tc_lower := (\<lambda>_. if looks_like_action_request (tc_lower C) (ta_query A) then ''status'' else [])\<rparr>"

lemma unguarded_query [simp]:
  "looks_like_action_request (tc_lower (unguarded C A)) (ta_query A) = looks_like_action_request (tc_lower C) (ta_query A)"
proof -
  have "count_words False (map of_char ''status'') \<le> 2" by code_simp
  then show ?thesis by (simp add: unguarded_def looks_like_action_request_def[of "\<lambda>_. _"] Let_def ACTION_QUERIES_def)
qed

lemma unguarded_says: "guarded (unguarded C A) t n = (Answer t, n)"
proof -
  have "list_all (\<lambda>m. \<not> str_contains ''status'' m \<and> \<not> str_contains [] m) CLAIM_MARKERS" by code_simp
  then have "\<not> response_claims_tool_use (tc_lower (unguarded C A)) t"
    by (auto simp: claims_tool_use_iff claims_act_def unguarded_def list_ex_iff list_all_iff)
  then show ?thesis by (simp add: guarded_def apply_grounding_guard_def)
qed

lemma unguarded_sel [simp]:
  "tc_models (unguarded C A) = tc_models C" "tc_rt (unguarded C A) = tc_rt C" "tc_json (unguarded C A) = tc_json C"
  "tc_metrics (unguarded C A) = tc_metrics C" "tc_record (unguarded C A) = tc_record C" "tc_being (unguarded C A) = tc_being C"
  "tc_audit (unguarded C A) = tc_audit C" "tc_journal (unguarded C A) = tc_journal C"
  by (simp_all add: unguarded_def)

lemma lower_unused [simp]:
  "durable_step (unguarded C A) = durable_step C" "tool_note (unguarded C A) = tool_note C"
  "emit_progress (unguarded C A) = emit_progress C" "over_budget (unguarded C A) = over_budget C"
  "ask_tools (unguarded C A) = ask_tools C" "recover_user_visible_reply (unguarded C A) = recover_user_visible_reply C"
  by (intro ext, simp add: unguarded_def durable_step_def tool_note_def emit_progress_def over_budget_def ask_tools_def
      recover_user_visible_reply_def split: option.split)+

lemma lower_unused_calls [simp]:
  "settle_dispatch (unguarded C A) = settle_dispatch C" "dispatch_tool (unguarded C A) = dispatch_tool C"
  by (intro ext, simp add: settle_dispatch_def dispatch_tool_def Let_def split: option.split)+

lemma run_call_lower [simp]: "run_call (unguarded C A) = run_call C"
  by (intro ext) (simp add: run_call_def Let_def cong: if_cong option.case_cong prod.case_cong)

lemma run_calls_lower [simp]: "run_calls (unguarded C A') A E calls = run_calls C A E calls"
proof (induction calls)
  case Nil
  show ?case by (intro ext) simp
next
  case (Cons call calls)
  then show ?case by (intro ext) simp
qed

lemma fresh_answer_lower: "fresh_answer (unguarded C A) A i lo = fresh_answer C A i lo"
  by (intro ext) (simp add: fresh_answer_def cong: if_cong)

lemma model_answer_lower [simp]: "model_answer (unguarded C A) A E i lo = model_answer C A E i lo"
  by (intro ext) (simp add: model_answer_def Let_def fresh_answer_lower)

text \<open>An answer is the answer of the unguarded turn, put through the guard; the rest is the same.\<close>

lemma rounds_unguarded:
  assumes "rounds C A E budget left lo s = (Done (Inr (Answer a, n)), s1)"
  shows "\<exists>t. rounds (unguarded C A) A E budget left lo s = (Done (Inr (Answer t, n)), s1) \<and> a = apply_grounding_guard (tc_lower C) t n"
  using assms
proof (induction left arbitrary: lo s)
  case 0
  then show ?case
    unfolding rounds.simps rounds_over_def lower_unused unguarded_says
    by (auto simp: turn_ret_def guarded_def turn_then_def split: if_splits option.splits prod.splits outcome.splits sum.splits)
next
  case (Suc left)
  from Suc.prems[unfolded rounds.simps Let_def] show ?case
  proof (cases rule: turn_then_cases)
    case (1 p s0)
    note m = turn_then_ok[where m = "model_answer C A E k l" for k l, OF 1(1)]
    show ?thesis
    proof (cases "no_calls (snd p)")
      case True
      then show ?thesis using 1(2)
        unfolding rounds.simps Let_def model_answer_lower m unguarded_says
        by (auto simp: no_calls_def turn_ret_def guarded_def split: option.splits list.splits)
    next
      case False
      then obtain call calls where calls: "snd p = Some (call # calls)"
        by (auto simp: no_calls_def neq_Nil_conv split: option.splits)
      let ?lo = "push (assistant_turn p (call # calls)) (hear p lo)"
      have "turn_then (run_calls C A E (call # calls) ?lo)
          (\<lambda>r. case r of Inl out \<Rightarrow> turn_ret out | Inr lo2 \<Rightarrow> rounds C A E budget left lo2) s0 = (Done (Inr (Answer a, n)), s1)"
        using 1(2) calls by simp
      then obtain r0 s2 where rc: "run_calls C A E (call # calls) ?lo s0 = (Done (Inr r0), s2)"
          "(case r0 of Inl out \<Rightarrow> turn_ret out | Inr lo2 \<Rightarrow> rounds C A E budget left lo2) s2 = (Done (Inr (Answer a, n)), s1)"
        by (cases rule: turn_then_cases) simp_all
      show ?thesis
      proof (cases r0)
        case (Inl x)
        with rc have "run_calls C A E (call # calls) ?lo s0 = (Done (Inr (Inl (Answer a, n))), s2)" by (simp add: turn_ret_def)
        then show ?thesis by (blast dest: run_calls_stop)
      next
        case (Inr lo2)
        with rc(2) Suc.IH obtain t where t: "rounds (unguarded C A) A E budget left lo2 s2 = (Done (Inr (Answer t, n)), s1)"
            "a = apply_grounding_guard (tc_lower C) t n" by auto
        have "rounds (unguarded C A) A E budget (Suc left) lo s = rounds (unguarded C A) A E budget left lo2 s2"
          unfolding rounds.simps Let_def model_answer_lower m calls option.case list.case run_calls_lower
            turn_then_ok[where m = "run_calls C A E k l" for k l, OF rc(1)] Inr by simp
        with t show ?thesis by auto
      qed
    qed
  qed simp_all
qed

lemma to_lower_ok: "lower_ok to_lower"
proof -
  have "to_lower_char c = c" if "c \<in> {nl, CHR '' '', CHR ''*''}" for c
    using that by (elim insertE emptyE) (simp_all only:, code_simp+)
  moreover have "to_lower warning_sign = warning_sign \<and> to_lower ''Vahvistamaton:'' = ''vahvistamaton:''" by code_simp
  ultimately show ?thesis by (simp add: lower_ok_def to_lower_def)
qed

text \<open>C30: a turn that executed nothing does not claim to have acted without a warning. The answer of a turn
  is what the same turn says without the guard; only when no dispatch was executed and that text claims an
  act (a word such as \<open>done:\<close> or \<open>generated\<close> with a path of a drive, as the program recognises it) and
  has no warning of its own, the notice that the claim is not verified is appended, and nothing else is
  changed. So an answer after no executed dispatch that contains such a claim carries the warning. The
  claim itself stays in the answer. Of lower-casing it is assumed that it keeps the words of the notice.\<close>

theorem turn_grounded:
  assumes "drive_tool_loop_durable C A E budget ms t s = (Done (Inr (Answer a, n)), s1)" "lower_ok (tc_lower C)"
  shows "(\<exists>u. drive_tool_loop_durable (unguarded C A) A E budget ms t s = (Done (Inr (Answer u, n)), s1) \<and>
      a = (if n = 0 \<and> claims_act (tc_lower C) u \<and> \<not> warned (tc_lower C) u then u @ unverified_notice else u)) \<and>
    (n = 0 \<and> claims_act (tc_lower C) a \<longrightarrow> warned (tc_lower C) a)"
proof -
  from rounds_unguarded[OF assms(1)[unfolded drive_tool_loop_durable_def]]
  obtain u where u: "drive_tool_loop_durable (unguarded C A) A E budget ms t s = (Done (Inr (Answer u, n)), s1)"
      "a = apply_grounding_guard (tc_lower C) u n" unfolding drive_tool_loop_durable_def by blast
  have "a = (if n = 0 \<and> claims_act (tc_lower C) u \<and> \<not> warned (tc_lower C) u then u @ unverified_notice else u)"
    using u(2) by (auto simp: apply_grounding_guard_def claims_tool_use_iff)
  moreover have "n = 0 \<Longrightarrow> \<not> response_claims_tool_use (tc_lower C) a" using guard_grounds[OF assms(2)] u(2) by simp
  ultimately show ?thesis using u(1) by (auto simp: claims_tool_use_iff)
qed

definition claiming_models :: "nat models" where
  "claiming_models =
     \<lparr>md_chat = (\<lambda>c ms ts ch n. (Inr \<lparr>cp_content = Some ''Done: E:/x'', cp_calls = None\<rparr>, Suc n)),
      md_text = (\<lambda>c ms n. (Inl NoContentErr, Suc n)), md_now = (\<lambda>n. 0)\<rparr>"

definition claiming_config :: "(jp_state, jo_state, in_memory_journal, nat) turn_config" where
  "claiming_config = (sample_turn_config (durable_rt sample_durable))\<lparr>tc_models := claiming_models\<rparr>"

lemma claiming_run:
  "\<exists>s1. drive_tool_loop_durable claiming_config sample_args sample_turn_env 1 [] [] (sample_turn rt) =
     (Done (Inr (Answer (''Done: E:/x'' @ unverified_notice), 0)), s1)"
proof -
  have claim: "response_claims_tool_use to_lower ''Done: E:/x''" by code_simp
  have q: "\<not> looks_like_action_request to_lower []" by code_simp
  let ?p = "(Some ''Done: E:/x'', None)"
  have "\<exists>s1. model_answer claiming_config sample_args sample_turn_env 0 (loop_start [] [] 0) (sample_turn rt) = (Done (Inr ?p), s1)"
    using q
    by (simp add: model_answer_def fresh_answer_def turn_then_def ask_tools_def turn_ret_def Let_def no_calls_def
        complete_with_tools_choice_def chain_complete_def run_pass.simps entry_loop.simps snapshot_clients_def
        claiming_config_def sample_turn_config_def sample_turn_def sample_chain_def sample_entry_def from_resolved_def
        claiming_models_def loop_start_def sample_args_def
        health_default_def is_cooled_def durable_step_def step_def vec_get_def projection_json_def sample_turn_env_def
        is_replaying_def advance_def split: prod.split)
  then obtain s1 where m: "model_answer claiming_config sample_args sample_turn_env 0 (loop_start [] [] 0) (sample_turn rt) = (Done (Inr ?p), s1)"
    by blast
  have g: "guarded claiming_config (said ?p (hear ?p (loop_start [] [] 0))) (lo_count (hear ?p (loop_start [] [] 0))) =
      (Answer (''Done: E:/x'' @ unverified_notice), 0)"
    using claim by (simp add: guarded_def said_def hear_def loop_start_def apply_grounding_guard_def claiming_config_def sample_turn_config_def)
  have "rounds claiming_config sample_args sample_turn_env (Suc 0) (Suc 0) (loop_start [] [] 0) (sample_turn rt) =
      (Done (Inr (Answer (''Done: E:/x'' @ unverified_notice), 0)), s1)"
    by (simp add: turn_then_ok[where m = "model_answer C A E k l" for C A E k l, OF m] Let_def turn_ret_def g del: append.simps)
  then show ?thesis by (simp add: drive_tool_loop_durable_def sample_args_def del: append.simps rounds.simps)
qed

theorem turn_grounded_witness:
  "\<exists>s1. drive_tool_loop_durable claiming_config sample_args sample_turn_env 1 [] [] (sample_turn (sample_runtime (sample_pipe ReadOnly) empty_pending)) =
     (Done (Inr (Answer (''Done: E:/x'' @ unverified_notice), 0)), s1) \<and>
     warned to_lower (''Done: E:/x'' @ unverified_notice)"
proof -
  obtain s1 where run: "drive_tool_loop_durable claiming_config sample_args sample_turn_env 1 [] [] (sample_turn (sample_runtime (sample_pipe ReadOnly) empty_pending)) =
     (Done (Inr (Answer (''Done: E:/x'' @ unverified_notice), 0)), s1)" using claiming_run by blast
  have l: "tc_lower claiming_config = to_lower" by (simp add: claiming_config_def sample_turn_config_def)
  have "claims_act to_lower (''Done: E:/x'' @ unverified_notice)" by code_simp
  with turn_grounded[OF run] to_lower_ok run show ?thesis unfolding l by blast
qed

end
