(* ===== verification/Resumable_Journal.thy ===== *)
theory Resumable_Journal
  imports Resumable Keyed_Log Sample_Json Sample_Codec
begin

section \<open>The journal-backed store of waiting turns\<close>

text \<open>
  Models \<^verbatim>\<open>JournalResumableStore\<close> of \<^verbatim>\<open>crates/familyclaw-agent/src/resumable.rs\<close> on the keyed log, and the
  JSON form of a waiting turn. How identifiers and times print is a parameter.
\<close>

record scalar_text =
  sx_id :: "approval_id \<Rightarrow> string"
  sx_read_id :: "string \<Rightarrow> string + approval_id"
  sx_time :: "timestamp \<Rightarrow> string"
  sx_read_time :: "string \<Rightarrow> string + timestamp"

definition scalars_ok :: "scalar_text \<Rightarrow> bool" where
  "scalars_ok Z \<longleftrightarrow> (\<forall>i. sx_read_id Z (sx_id Z i) = Inr i) \<and> (\<forall>t. sx_read_time Z (sx_time Z t) = Inr t)"

subsection \<open>The JSON form\<close>

definition origin_json :: "message_origin \<Rightarrow> json" where
  "origin_json og = json_object [(''channel_id'', JStr (og_channel og)), (''conversation'', JStr (og_conversation og)),
     (''sender'', JStr (og_sender og))]"

definition resumable_json :: "json_text \<Rightarrow> scalar_text \<Rightarrow> resumable_turn \<Rightarrow> json" where
  "resumable_json T Z t =
     json_object
       [(''approval_id'', JStr (sx_id Z (rz_approval t))),
        (''being_id'', JStr (rz_being t)),
        (''conversation_origin'', (case rz_origin t of None \<Rightarrow> JNull | Some og \<Rightarrow> origin_json og)),
        (''messages'', JArr (map (message_json T) (rz_messages t))),
        (''tool_call_id'', JStr (rz_call t)),
        (''tool_name'', JStr (rz_tool t)),
        (''arguments_hash'', JStr (rz_hash t)),
        (''redacted_arguments'', JStr (rz_summary t)),
        (''created_at'', JStr (sx_time Z (rz_created t))),
        (''expires_at'', JStr (sx_time Z (rz_expires t))),
        (''policy_snapshot'', JStr (rz_policy t)),
        (''audit_ids'', JArr (map JStr (rz_audit t))),
        (''turn_id'', JNum (PosInt (rz_turn t))),
        (''durable_cursor'', JNum (PosInt (rz_cursor t)))]"

definition read_then :: "'e + 'a \<Rightarrow> ('a \<Rightarrow> 'e + 'b) \<Rightarrow> 'e + 'b" where
  "read_then r f = (case r of Inl e \<Rightarrow> Inl e | Inr x \<Rightarrow> f x)"

definition read_field :: "(json \<Rightarrow> string + 'a) \<Rightarrow> string \<Rightarrow> json \<Rightarrow> string + 'a" where
  "read_field dec k v = (case json_get k v of None \<Rightarrow> Inl (missing_field k) | Some x \<Rightarrow> dec x)"

definition count_value :: "json \<Rightarrow> string + nat" where
  "count_value v = (case v of JNum (PosInt n) \<Rightarrow> Inr n | _ \<Rightarrow> Inl invalid_type)"

definition origin_of_json :: "json \<Rightarrow> string + message_origin" where
  "origin_of_json v =
     read_then (string_field ''channel_id'' v) (\<lambda>channel.
     read_then (string_field ''conversation'' v) (\<lambda>conversation.
     read_then (string_field ''sender'' v) (\<lambda>sender.
     Inr (origin_new channel conversation sender))))"

definition resumable_of_json :: "json_text \<Rightarrow> scalar_text \<Rightarrow> json \<Rightarrow> string + resumable_turn" where
  "resumable_of_json T Z v =
     read_then (read_then (string_field ''approval_id'' v) (sx_read_id Z)) (\<lambda>i.
     read_then (string_field ''being_id'' v) (\<lambda>being.
     read_then (option_field origin_of_json ''conversation_origin'' v) (\<lambda>origin.
     read_then (read_field (list_value (message_of_json T)) ''messages'' v) (\<lambda>messages.
     read_then (string_field ''tool_call_id'' v) (\<lambda>call.
     read_then (string_field ''tool_name'' v) (\<lambda>tool.
     read_then (string_field ''arguments_hash'' v) (\<lambda>hash.
     read_then (string_field ''redacted_arguments'' v) (\<lambda>summary.
     read_then (read_then (string_field ''created_at'' v) (sx_read_time Z)) (\<lambda>created.
     read_then (read_then (string_field ''expires_at'' v) (sx_read_time Z)) (\<lambda>expires.
     read_then (string_field ''policy_snapshot'' v) (\<lambda>policy.
     read_then (read_field (list_value text_value) ''audit_ids'' v) (\<lambda>audit.
     read_then (read_field count_value ''turn_id'' v) (\<lambda>turn.
     read_then (read_field count_value ''durable_cursor'' v) (\<lambda>pos.
     Inr \<lparr>rz_approval = i, rz_being = being, rz_origin = origin, rz_messages = messages, rz_call = call, rz_tool = tool,
          rz_hash = hash, rz_summary = summary, rz_created = created, rz_expires = expires, rz_policy = policy,
          rz_audit = audit, rz_turn = turn, rz_cursor = pos\<rparr>))))))))))))))"

lemma read_then_simps [simp]: "read_then (Inr x) f = f x" "read_then (Inl e) f = Inl e"
  by (simp_all add: read_then_def)

lemma read_then_Inr: "read_then r f = Inr y \<Longrightarrow> \<exists>x. r = Inr x \<and> f x = Inr y"
  by (cases r) simp_all

lemma origin_roundtrip: "origin_of_json (origin_json og) = Inr og"
  by (simp add: origin_of_json_def origin_json_def string_field_def json_object_get origin_new_def)

lemma origin_not_null: "origin_json og \<noteq> JNull"
  by (simp add: origin_json_def json_object_def)

text \<open>A turn is read back as it was; an empty list of images is not told from none.\<close>

definition turn_fits :: "resumable_turn \<Rightarrow> bool" where
  "turn_fits t \<longleftrightarrow> (\<forall>m \<in> set (rz_messages t). lm_images m \<noteq> Some [])"

lemma option_field_some:
  "json_get k v = Some x \<Longrightarrow> x \<noteq> JNull \<Longrightarrow> dec x = Inr y \<Longrightarrow> option_field dec k v = Inr (Some y)"
  by (cases x) (simp_all add: option_field_def)

lemma resumable_back:
  assumes "reads_back T" "scalars_ok Z" "turn_fits t"
  shows "resumable_of_json T Z (resumable_json T Z t) = Inr t"
proof -
  have m: "decode_all (message_of_json T) (map (message_json T) (rz_messages t)) = Inr (rz_messages t)"
    using assms(1,3) by (intro decode_all_map) (simp add: turn_fits_def message_back)
  have a: "decode_all text_value (map JStr xs) = Inr xs" for xs
    by (intro decode_all_map) (simp add: text_value_def)
  have og: "option_field origin_of_json ''conversation_origin'' (resumable_json T Z t) = Inr (rz_origin t)"
  proof (cases "rz_origin t")
    case None
    then show ?thesis by (simp add: option_field_def resumable_json_def json_object_get)
  next
    case (Some og)
    then have "json_get ''conversation_origin'' (resumable_json T Z t) = Some (origin_json og)"
      by (simp add: resumable_json_def json_object_get)
    from option_field_some[where dec = origin_of_json, OF this origin_not_null origin_roundtrip] Some show ?thesis by simp
  qed
  show ?thesis
    unfolding resumable_of_json_def og
    using assms(2) by (simp add: resumable_json_def string_field_def read_field_def json_object_get scalars_ok_def list_value_def
        m a count_value_def)
qed

text \<open>Whatever is read fits.\<close>

lemma decode_all_set: "decode_all dec xs = Inr ys \<Longrightarrow> y \<in> set ys \<Longrightarrow> \<exists>x. dec x = Inr y"
  by (induction xs arbitrary: ys) (auto split: sum.splits)

lemma content_not_empty: "content_of_json v = Inr (s, imgs) \<Longrightarrow> imgs \<noteq> Some []"
  by (auto simp: content_of_json_def split: json.splits sum.splits if_splits)

lemma message_read_fits: "message_of_json T v = Inr m \<Longrightarrow> lm_images m \<noteq> Some []"
  by (auto simp: message_of_json_def content_not_empty split: sum.splits option.splits prod.splits dest: content_not_empty)

lemma resumable_read_fits:
  assumes "resumable_of_json T Z v = Inr t"
  shows "turn_fits t"
proof -
  obtain ms where ms: "read_field (list_value (message_of_json T)) ''messages'' v = Inr ms" "rz_messages t = ms"
    using assms unfolding resumable_of_json_def by (auto dest!: read_then_Inr)
  then obtain xs where "decode_all (message_of_json T) xs = Inr ms"
    by (auto simp: read_field_def list_value_def split: option.splits json.splits)
  with ms(2) decode_all_set message_read_fits show ?thesis unfolding turn_fits_def by metis
qed

subsection \<open>The log of a store\<close>

definition RESUMABLE_PUT :: string where
  "RESUMABLE_PUT = ''resumable_turn_put''"

definition RESUMABLE_DELETE :: string where
  "RESUMABLE_DELETE = ''resumable_turn_delete''"

definition RESUMABLE_COMPACT_FACTOR :: nat where
  "RESUMABLE_COMPACT_FACTOR = 2"

definition RESUMABLE_COMPACT_MIN_ROWS :: nat where
  "RESUMABLE_COMPACT_MIN_ROWS = 64"

definition resumable_log :: "json_text \<Rightarrow> scalar_text \<Rightarrow> codec \<Rightarrow> path \<Rightarrow> nat \<Rightarrow> resumable_turn log_shape" where
  "resumable_log T Z C p factor =
     \<lparr>ls_codec = C, ls_path = p, ls_factor = factor, ls_min_rows = RESUMABLE_COMPACT_MIN_ROWS,
      ls_put = RESUMABLE_PUT, ls_delete = RESUMABLE_DELETE,
      ls_enc = (\<lambda>t. Inr (resumable_json T Z t)), ls_dec = resumable_of_json T Z,
      ls_enc_id = (\<lambda>i. Inr (JStr (sx_id Z i))), ls_dec_id = (\<lambda>v. read_then (text_value v) (sx_read_id Z)),
      ls_key = rz_approval, ls_fits = turn_fits\<rparr>"

fun log_complaint :: "log_error \<Rightarrow> resumable_error" where
  "log_complaint (LgReplay e) = RzJournal (''replay resumable journal failed: '' @ show_durable_error e)"
| "log_complaint (LgLen e) = RzJournal (''read resumable journal len failed: '' @ show_durable_error e)"
| "log_complaint (LgAppend e) = RzJournal (''append resumable marker failed: '' @ show_durable_error e)"
| "log_complaint (LgCompact e) = RzJournal (''compact resumable journal failed: '' @ show_durable_error e)"
| "log_complaint (LgDecodePut m) = RzSerde (''decode resumable put failed: '' @ m)"
| "log_complaint (LgDecodeId m) = RzSerde (''decode resumable delete id failed: '' @ m)"
| "log_complaint (LgEncode m) = RzSerde (''encode resumable turn failed: '' @ m)"
| "log_complaint (LgEncodeId m) = RzSerde (''encode resumable delete id failed: '' @ m)"

definition complained :: "(log_error + 'a) outcome \<times> log_state \<Rightarrow> (resumable_error + 'a) outcome \<times> log_state" where
  "complained x =
     (case x of
        (Done (Inl e), s) \<Rightarrow> (Done (Inl (log_complaint e)), s)
      | (Done (Inr y), s) \<Rightarrow> (Done (Inr y), s)
      | (Killed, s) \<Rightarrow> (Killed, s))"

lemma complained_simps [simp]:
  "complained (Done (Inl e), s) = (Done (Inl (log_complaint e)), s)" "complained (Done (Inr y), s) = (Done (Inr y), s)"
  "complained (Killed, s) = (Killed, s)"
  by (simp_all add: complained_def)

subsection \<open>The operations\<close>

definition rj_show :: "ext \<Rightarrow> log_error \<Rightarrow> string" where
  "rj_show X e = show_resumable_error X (log_complaint e)"

definition rj_open :: "resumable_turn log_shape \<Rightarrow> fs \<Rightarrow> resumable_error + log_state" where
  "rj_open K d =
     (case kl_open K d of
        Inl (LgLen e) \<Rightarrow> Inl (RzJournal (''read resumable journal failed: '' @ show_durable_error e))
      | Inl e \<Rightarrow> Inl (log_complaint e)
      | Inr s \<Rightarrow> Inr s)"

definition rj_put ::
  "ext \<Rightarrow> resumable_turn log_shape \<Rightarrow> store_env \<Rightarrow> log_state \<Rightarrow> resumable_turn \<Rightarrow> (resumable_error + unit) outcome \<times> log_state" where
  "rj_put X K env s t =
     (case ls_enc K t of
        Inl m \<Rightarrow> (Done (Inl (log_complaint (LgEncode m))), s)
      | Inr payload \<Rightarrow> complained (kl_marked K (rj_show X) env 0 s (ls_put K) payload))"

definition rj_get :: "resumable_turn log_shape \<Rightarrow> log_state \<Rightarrow> approval_id \<Rightarrow> resumable_error + resumable_turn option" where
  "rj_get K s i = (case kl_replay K s of Inl e \<Rightarrow> Inl (log_complaint e) | Inr m \<Rightarrow> Inr (hm_get m i))"

definition rj_remove ::
  "ext \<Rightarrow> resumable_turn log_shape \<Rightarrow> store_env \<Rightarrow> log_state \<Rightarrow> approval_id \<Rightarrow>
   (resumable_error + resumable_turn option) outcome \<times> log_state" where
  "rj_remove X K env s i =
     (case kl_replay K s of
        Inl e \<Rightarrow> (Done (Inl (log_complaint e)), s)
      | Inr state \<Rightarrow>
          (case hm_get state i of
             None \<Rightarrow> (Done (Inr None), s)
           | Some existing \<Rightarrow>
               (case ls_enc_id K i of
                  Inl m \<Rightarrow> (Done (Inl (log_complaint (LgEncodeId m))), s)
                | Inr payload \<Rightarrow>
                    (case complained (kl_marked K (rj_show X) env 0 s (ls_delete K) payload) of
                       (Done (Inr _), s1) \<Rightarrow> (Done (Inr (Some existing)), s1)
                     | (Done (Inl e), s1) \<Rightarrow> (Done (Inl e), s1)
                     | (Killed, s1) \<Rightarrow> (Killed, s1)))))"

definition rj_len :: "resumable_turn log_shape \<Rightarrow> log_state \<Rightarrow> resumable_error + nat" where
  "rj_len K s = (case kl_replay K s of Inl e \<Rightarrow> Inl (log_complaint e) | Inr m \<Rightarrow> Inr (length m))"

definition rj_evict ::
  "ext \<Rightarrow> resumable_turn log_shape \<Rightarrow> store_env \<Rightarrow> log_state \<Rightarrow> timestamp \<Rightarrow> (resumable_error + nat) outcome \<times> log_state" where
  "rj_evict X K env s now =
     (case kl_replay K s of
        Inl e \<Rightarrow> (Done (Inl (log_complaint e)), s)
      | Inr state \<Rightarrow>
          (let expired = map rz_approval (filter (rz_expired now) (hm_values state))
           in case complained (kl_delete_all K env 0 expired s) of
                (Killed, s1) \<Rightarrow> (Killed, s1)
              | (Done (Inl e), s1) \<Rightarrow> (Done (Inl e), s1)
              | (Done (Inr _), s1) \<Rightarrow>
                  if expired \<noteq> []
                  then (case kl_auto K (rj_show X) env s1 of
                          (Killed, s2) \<Rightarrow> (Killed, s2)
                        | (Done _, s2) \<Rightarrow> (Done (Inr (length expired)), s2))
                  else (Done (Inr (length expired)), s1)))"

definition rj_compact ::
  "ext \<Rightarrow> resumable_turn log_shape \<Rightarrow> store_env \<Rightarrow> log_state \<Rightarrow> (resumable_error + nat) outcome \<times> log_state" where
  "rj_compact X K env s = complained (kl_compact K (rj_show X) env s)"

definition rj_with_auto_compact_factor :: "nat \<Rightarrow> resumable_turn log_shape \<Rightarrow> resumable_turn log_shape" where
  "rj_with_auto_compact_factor factor K = K\<lparr>ls_factor := factor\<rparr>"

definition journal_resumable_store :: "ext \<Rightarrow> resumable_turn log_shape \<Rightarrow> log_state resumable_trait" where
  "journal_resumable_store X K =
     \<lparr>rs_put = rj_put X K, rs_get = rj_get K, rs_remove = rj_remove X K, rs_len = rj_len K, rs_evict = rj_evict X K\<rparr>"

lemma journal_resumable_sel [simp]:
  "rs_put (journal_resumable_store X K) = rj_put X K" "rs_get (journal_resumable_store X K) = rj_get K"
  "rs_remove (journal_resumable_store X K) = rj_remove X K" "rs_len (journal_resumable_store X K) = rj_len K"
  "rs_evict (journal_resumable_store X K) = rj_evict X K"
  by (simp_all add: journal_resumable_store_def)

subsection \<open>What the store keeps\<close>

lemma resumable_log_sel [simp]:
  "ls_codec (resumable_log T Z C p f) = C" "ls_path (resumable_log T Z C p f) = p"
  "ls_key (resumable_log T Z C p f) = rz_approval" "ls_fits (resumable_log T Z C p f) = turn_fits"
  "ls_enc (resumable_log T Z C p f) t = Inr (resumable_json T Z t)"
  "ls_enc_id (resumable_log T Z C p f) i = Inr (JStr (sx_id Z i))"
  by (simp_all add: resumable_log_def)

text \<open>The texts of rows must be printable, as \<^verbatim>\<open>serde_json\<close> prints every value of these types.\<close>

definition prints_all :: "codec \<Rightarrow> bool" where
  "prints_all C \<longleftrightarrow> (\<forall>k i name v. name \<in> {RESUMABLE_PUT, RESUMABLE_DELETE} \<longrightarrow> to_string C (marker k i name v) \<noteq> None)"

lemma resumable_log_ok:
  assumes "codec_ok C" "prints_all C" "reads_back T" "scalars_ok Z"
  shows "kl_ok (resumable_log T Z C p f)"
proof -
  have "RESUMABLE_PUT \<noteq> RESUMABLE_DELETE" by (simp add: RESUMABLE_PUT_def RESUMABLE_DELETE_def)
  with assms show ?thesis
    by (auto simp: kl_ok_def resumable_log_def prints_all_def resumable_back scalars_ok_def text_value_def
        dest: resumable_read_fits)
qed

definition rj_reopen :: "resumable_turn log_shape \<Rightarrow> log_state \<Rightarrow> resumable_error + log_state" where
  "rj_reopen K s = rj_open K (lg_fs s)"

definition rj_usable :: "resumable_turn log_shape \<Rightarrow> store_env \<Rightarrow> bool" where
  "rj_usable K env \<longleftrightarrow> se_tmp env \<noteq> ls_path K \<and> se_swap env \<noteq> ReopenErr"

lemma rj_open_disk:
  assumes "kl_ok K" "kl_disk K (file_open (ls_codec K) d (ls_path K)) m"
  shows "\<exists>s. rj_open K d = Inr s \<and> kl_inv K s \<and> kl_map K s = m"
  using kl_open_disk[OF assms] by (auto simp: rj_open_def)

lemma complained_Inr: "complained x = (Done (Inr y), s) \<longleftrightarrow> x = (Done (Inr y), s)"
  by (cases x) (auto simp: complained_def split: outcome.splits sum.splits)

lemma complained_state: "complained x = (r, s) \<Longrightarrow> \<exists>r0. x = (r0, s) \<and> (\<forall>y. r = Done (Inr y) \<longleftrightarrow> r0 = Done (Inr y))"
  by (cases x) (auto simp: complained_def split: outcome.splits sum.splits)

lemma rj_put_disk:
  assumes K: "K = resumable_log T Z C p f"
    and "kl_inv K s" "rj_usable K env" "turn_fits t" "rj_put X K env s t = (res, s')"
  shows "\<exists>mx. kl_disk K (file_open (ls_codec K) (lg_fs s') (ls_path K)) mx \<and>
      (hm_get mx = hm_get (kl_map K s) \<or> hm_get mx = (hm_get (kl_map K s))(rz_approval t \<mapsto> t)) \<and>
      (res = Done (Inr ()) \<longrightarrow> hm_get mx = (hm_get (kl_map K s))(rz_approval t \<mapsto> t) \<and> kl_disk K (lg_fs s') mx)"
    and "res = Done (Inr ()) \<Longrightarrow> lg_handle s' = AtPath"
proof -
  have e: "se_tmp env \<noteq> ls_path K" "se_swap env \<noteq> ReopenErr" using assms(3) by (simp_all add: rj_usable_def)
  have fit: "ls_fits K t" "ls_enc K t = Inr (resumable_json T Z t)" and key: "ls_key K t = rz_approval t"
    using assms(4) by (simp_all add: K)
  obtain r0 where r0: "kl_marked K (rj_show X) env 0 s (ls_put K) (resumable_json T Z t) = (r0, s')"
      "res = Done (Inr ()) \<longleftrightarrow> r0 = Done (Inr ())"
    using assms(5) complained_state fit(2) by (fastforce simp: rj_put_def)
  note md = kl_marked_put[OF assms(2) e(1) fit r0(1)]
  show "\<exists>mx. kl_disk K (file_open (ls_codec K) (lg_fs s') (ls_path K)) mx \<and>
      (hm_get mx = hm_get (kl_map K s) \<or> hm_get mx = (hm_get (kl_map K s))(rz_approval t \<mapsto> t)) \<and>
      (res = Done (Inr ()) \<longrightarrow> hm_get mx = (hm_get (kl_map K s))(rz_approval t \<mapsto> t) \<and> kl_disk K (lg_fs s') mx)"
    using md(1) r0(2) unfolding key by simp
  show "res = Done (Inr ()) \<Longrightarrow> lg_handle s' = AtPath" using md(3) r0(2) e(2) by blast
qed

lemma rj_remove_disk:
  assumes K: "K = resumable_log T Z C p f"
    and "kl_inv K s" "rj_usable K env" "rj_remove X K env s i = (res, s')"
  shows "\<exists>mx. kl_disk K (file_open (ls_codec K) (lg_fs s') (ls_path K)) mx \<and>
      (hm_get mx = hm_get (kl_map K s) \<or> hm_get mx = (hm_get (kl_map K s))(i := None)) \<and>
      (\<forall>x. res = Done (Inr x) \<longrightarrow> x = hm_get (kl_map K s) i \<and> hm_get mx = (hm_get (kl_map K s))(i := None) \<and>
         kl_disk K (lg_fs s') mx)"
    and "res = Done (Inr x) \<Longrightarrow> lg_handle s' = AtPath"
proof -
  have e: "se_tmp env \<noteq> ls_path K" "se_swap env \<noteq> ReopenErr" using assms(3) by (simp_all add: rj_usable_def)
  from assms(2) obtain m where s: "lg_handle s = AtPath" "kl_disk K (lg_fs s) m" "kl_replay K s = Inr m" "kl_map K s = m"
    by (rule kl_invE)
  have enc: "ls_enc_id K i = Inr (JStr (sx_id Z i))" by (simp add: K)
  obtain r0 s0 where mk: "kl_marked K (rj_show X) env 0 s (ls_delete K) (JStr (sx_id Z i)) = (r0, s0)" by (rule prod.exhaust)
  note md = kl_marked_delete[OF assms(2) e(1) enc mk]
  have "(\<exists>mx. kl_disk K (file_open (ls_codec K) (lg_fs s') (ls_path K)) mx \<and>
      (hm_get mx = hm_get m \<or> hm_get mx = (hm_get m)(i := None)) \<and>
      (\<forall>x. res = Done (Inr x) \<longrightarrow> x = hm_get m i \<and> hm_get mx = (hm_get m)(i := None) \<and> kl_disk K (lg_fs s') mx)) \<and>
    (res = Done (Inr x) \<longrightarrow> lg_handle s' = AtPath)"
  proof (cases "hm_get m i")
    case None
    then have "s' = s" "res = Done (Inr None)" using assms(4) s(3) by (auto simp: rj_remove_def)
    then show ?thesis using None s(1,2) kl_disk_open[OF s(2)]
      by (intro conjI exI[of _ m]) (auto simp: fun_upd_idem)
  next
    case (Some t)
    then have r: "s' = s0" "\<And>y. res = Done (Inr y) \<longleftrightarrow> r0 = Done (Inr ()) \<and> y = Some t"
      using assms(4) s(3) enc mk
      by (auto simp: rj_remove_def complained_def split: outcome.splits sum.splits)
    from md(1) obtain mx where mx: "kl_disk K (file_open (ls_codec K) (lg_fs s0) (ls_path K)) mx"
      "hm_get mx = hm_get m \<or> hm_get mx = (hm_get m)(i := None)"
      "r0 = Done (Inr ()) \<longrightarrow> hm_get mx = (hm_get m)(i := None) \<and> kl_disk K (lg_fs s0) mx"
      unfolding s(4) by blast
    show ?thesis unfolding r(1) Some using mx md(3) e(2) r(2) by blast
  qed
  then show "\<exists>mx. kl_disk K (file_open (ls_codec K) (lg_fs s') (ls_path K)) mx \<and>
      (hm_get mx = hm_get (kl_map K s) \<or> hm_get mx = (hm_get (kl_map K s))(i := None)) \<and>
      (\<forall>x. res = Done (Inr x) \<longrightarrow> x = hm_get (kl_map K s) i \<and> hm_get mx = (hm_get (kl_map K s))(i := None) \<and>
         kl_disk K (lg_fs s') mx)" "res = Done (Inr x) \<Longrightarrow> lg_handle s' = AtPath"
    unfolding s(4) by blast+
qed

interpretation rjs: crash_resumable_store
  "journal_resumable_store X (resumable_log T Z C p f)" "\<lambda>s. hm_get (kl_map (resumable_log T Z C p f) s)"
  "kl_inv (resumable_log T Z C p f)" turn_fits "rj_usable (resumable_log T Z C p f)" "rj_reopen (resumable_log T Z C p f)"
  for X T Z C p f
proof (unfold_locales, goal_cases)
  case (1 s i)
  then show ?case by (auto elim!: kl_invE simp: rj_get_def)
next
  case (2 s env t s')
  then have p: "rj_put X (resumable_log T Z C p f) env s t = (Done (Inr ()), s')" by simp
  have ok: "kl_ok (resumable_log T Z C p f)" using 2(1) by (rule kl_invE)
  from rj_put_disk[OF refl 2(1-3) p] obtain mx where
    "hm_get mx = (hm_get (kl_map (resumable_log T Z C p f) s))(rz_approval t \<mapsto> t)" "kl_disk (resumable_log T Z C p f) (lg_fs s') mx"
    "lg_handle s' = AtPath" by blast
  with kl_invI[OF ok] show ?case by metis
next
  case (3 s env i x s')
  then have p: "rj_remove X (resumable_log T Z C p f) env s i = (Done (Inr x), s')" by simp
  have ok: "kl_ok (resumable_log T Z C p f)" using 3(1) by (rule kl_invE)
  from rj_remove_disk[OF refl 3(1,2) p] obtain mx where
    "x = hm_get (kl_map (resumable_log T Z C p f) s) i" "hm_get mx = (hm_get (kl_map (resumable_log T Z C p f) s))(i := None)"
    "kl_disk (resumable_log T Z C p f) (lg_fs s') mx" "lg_handle s' = AtPath" by blast
  with kl_invI[OF ok] show ?case by metis
next
  case (4 s env t res s')
  then have p: "rj_put X (resumable_log T Z C p f) env s t = (res, s')" by simp
  have ok: "kl_ok (resumable_log T Z C p f)" using 4(1) by (rule kl_invE)
  from rj_put_disk(1)[OF refl 4(1-3) p] obtain mx where mx:
    "kl_disk (resumable_log T Z C p f) (file_open (ls_codec (resumable_log T Z C p f)) (lg_fs s') (ls_path (resumable_log T Z C p f))) mx"
    "hm_get mx = hm_get (kl_map (resumable_log T Z C p f) s) \<or> hm_get mx = (hm_get (kl_map (resumable_log T Z C p f) s))(rz_approval t \<mapsto> t)"
    "res = Done (Inr ()) \<longrightarrow> hm_get mx = (hm_get (kl_map (resumable_log T Z C p f) s))(rz_approval t \<mapsto> t)" by blast
  from rj_open_disk[OF ok mx(1)] mx(2,3) show ?case unfolding rj_reopen_def by metis
next
  case (5 s env i ans s')
  then have p: "rj_remove X (resumable_log T Z C p f) env s i = (ans, s')" by simp
  have ok: "kl_ok (resumable_log T Z C p f)" using 5(1) by (rule kl_invE)
  from rj_remove_disk(1)[OF refl 5(1,2) p] obtain mx where mx:
    "kl_disk (resumable_log T Z C p f) (file_open (ls_codec (resumable_log T Z C p f)) (lg_fs s') (ls_path (resumable_log T Z C p f))) mx"
    "hm_get mx = hm_get (kl_map (resumable_log T Z C p f) s) \<or> hm_get mx = (hm_get (kl_map (resumable_log T Z C p f) s))(i := None)"
    "\<forall>x. ans = Done (Inr x) \<longrightarrow> hm_get mx = (hm_get (kl_map (resumable_log T Z C p f) s))(i := None)" by blast
  from rj_open_disk[OF ok mx(1)] mx(2,3) show ?case unfolding rj_reopen_def by metis
qed

text \<open>C31: a waiting turn written to the journal is read back as it was, with its messages, their tool calls and
  images, its origin and its times, unless a message has an empty list of images; and whatever the store
  reads it can write and read again.\<close>

theorem waiting_turn_roundtrip:
  assumes "reads_back T" "scalars_ok Z"
  shows "turn_fits t \<or> resumable_of_json T Z v = Inr t \<longrightarrow> resumable_of_json T Z (resumable_json T Z t) = Inr t"
  using resumable_back[OF assms] resumable_read_fits by blast

definition unary_scalars :: scalar_text where
  "unary_scalars =
     \<lparr>sx_id = (\<lambda>i. replicate (unat i) CHR ''i''), sx_read_id = (\<lambda>s. Inr (of_nat (length s))),
      sx_time = (\<lambda>t. (if t < 0 then ''-'' else ''+'') @ replicate (nat \<bar>t\<bar>) CHR ''t''),
      sx_read_time = (\<lambda>s. Inr ((if hd s = CHR ''-'' then -1 else 1) * int (length s - 1)))\<rparr>"

definition sample_waiting :: resumable_turn where
  "sample_waiting = with_durable_position 4 0 (resumable_new sample_ext 3 ''b'' (Some (origin_new ''ch'' ''room'' ''user''))
     [sample_message] ''c1'' ''a'' (JStr ''p'') ''s'' 5 9)"

theorem waiting_turn_roundtrip_witness:
  "reads_back plain_text \<and> scalars_ok unary_scalars \<and>
   resumable_of_json plain_text unary_scalars (resumable_json plain_text unary_scalars sample_waiting) = Inr sample_waiting"
proof -
  have z: "scalars_ok unary_scalars" by (simp add: scalars_ok_def unary_scalars_def)
  have "turn_fits sample_waiting"
    by (simp add: turn_fits_def sample_waiting_def with_durable_position_def resumable_new_def sample_message_def with_images_def)
  with waiting_turn_roundtrip[OF plain_reads_back z] z plain_reads_back show ?thesis by blast
qed

end
