(* ===== verification/Suspension.thy ===== *)
theory Suspension
  imports Resume_Laws Turn_Laws Resumable_Journal
begin

section \<open>What a suspended turn leaves behind\<close>

text \<open>
  A reported suspension is in the journal, where a restart finds it, and its approval is pending. A turn
  that stopped at one of several calls of a round is continued with the later calls unanswered.
\<close>

subsection \<open>The messages of a suspended turn\<close>

text \<open>The messages a loop stops with are those it began with, and its own.\<close>

lemma run_calls_all:
  assumes "run_calls C A E calls lo s = (Done (Inr r), s1)" "\<forall>m \<in> set (lo_messages lo). Q m" "\<And>i t. Q (tool_result i t)"
  shows "(\<exists>lo1. r = Inr lo1 \<and> (\<forall>m \<in> set (lo_messages lo1). Q m)) \<or>
    (\<exists>tool i sm ms c v n. r = Inl (AwaitingApproval tool i sm ms c v, n) \<and> (\<forall>m \<in> set ms. Q m))"
  using assms(1,2)
proof (induction calls arbitrary: lo s)
  case Nil
  then show ?case by (auto simp: turn_ret_def)
next
  case (Cons call calls)
  from Cons.prems(1)[unfolded run_calls.simps] show ?case
  proof (cases rule: turn_then_cases)
    case (1 r0 s0)
    from run_call_messages[OF 1(1)] show ?thesis
    proof (elim disjE exE conjE)
      fix lo1 t assume lo1: "r0 = Inr lo1" "lo_messages lo1 = lo_messages lo @ [tool_result (tl_id call) t]"
      with Cons.prems(2) assms(3) have "\<forall>m \<in> set (lo_messages lo1). Q m" by auto
      with Cons.IH[of lo1 s0] 1(2) lo1(1) show ?thesis by auto
    next
      fix i sm n assume "r0 = Inl (AwaitingApproval (tl_name call) i sm (lo_messages lo) (tl_id call) (tl_args call), n)"
      with 1(2) Cons.prems(2) show ?thesis by (auto simp: turn_ret_def)
    qed
  qed simp_all
qed

lemma rounds_all:
  assumes "rounds C A E budget left lo s = (Done (Inr (AwaitingApproval tool i sm ms c v, n)), s1)"
    and "\<forall>m \<in> set (lo_messages lo). Q m" "\<And>i t. Q (tool_result i t)" "\<And>p cs. Q (assistant_turn p cs)"
  shows "\<forall>m \<in> set ms. Q m"
  using assms(1,2)
proof (induction left arbitrary: lo s)
  case 0
  then show ?case
    by (auto simp: rounds_over_def turn_ret_def guarded_def elim!: turn_then_cases split: if_splits option.splits)
next
  case (Suc left)
  from Suc.prems(1)[unfolded rounds.simps Let_def] show ?case
  proof (cases rule: turn_then_cases)
    case (1 p s0)
    show ?thesis
    proof (cases "no_calls (snd p)")
      case True
      with 1(2) show ?thesis
        by (auto simp: no_calls_def turn_ret_def guarded_def split: option.splits list.splits)
    next
      case False
      then obtain call calls where calls: "snd p = Some (call # calls)"
        by (auto simp: no_calls_def neq_Nil_conv split: option.splits)
      let ?lo = "push (assistant_turn p (call # calls)) (hear p lo)"
      have start: "\<forall>m \<in> set (lo_messages ?lo). Q m" using Suc.prems(2) assms(4) by (simp add: push_def)
      have "turn_then (run_calls C A E (call # calls) ?lo)
          (\<lambda>r. case r of Inl out \<Rightarrow> turn_ret out | Inr lo2 \<Rightarrow> rounds C A E budget left lo2) s0 =
          (Done (Inr (AwaitingApproval tool i sm ms c v, n)), s1)"
        using 1(2) calls by simp
      then obtain r0 s2 where rc: "run_calls C A E (call # calls) ?lo s0 = (Done (Inr r0), s2)"
          "(case r0 of Inl out \<Rightarrow> turn_ret out | Inr lo2 \<Rightarrow> rounds C A E budget left lo2) s2 =
            (Done (Inr (AwaitingApproval tool i sm ms c v, n)), s1)"
        by (cases rule: turn_then_cases) simp_all
      from run_calls_all[OF rc(1) start assms(3)] rc(2) Suc.IH show ?thesis by (auto simp: turn_ret_def)
    qed
  qed simp_all
qed

lemma no_images [simp]: "lm_images (tool_result i t) = None" "lm_images (assistant_turn p cs) = None"
  by (simp_all add: tool_result_def assistant_turn_def with_tool_calls_def assistant_message_def plain_message_def)

lemma redacted_images: "m \<in> set (redact_messages_for_resume ms) \<Longrightarrow> \<exists>m' \<in> set ms. lm_images m = lm_images m'"
  by (auto simp: redact_messages_for_resume_def)

lemma unanswered_redacted: "unanswered (redact_messages_for_resume ms) = unanswered ms"
proof -
  have "hear_message opens (m\<lparr>lm_content := t, lm_calls := map_option (map redact_call) (lm_calls m)\<rparr>) = hear_message opens m"
    for opens m t
    by (simp add: hear_message_def redact_call_def comp_def split: option.split llm_role.split)
  then have "foldl hear_message opens (redact_messages_for_resume ms) = foldl hear_message opens ms" for opens
    by (induction ms arbitrary: opens) (simp_all add: redact_messages_for_resume_def)
  then show ?thesis by (simp add: unanswered_def)
qed

subsection \<open>The store\<close>

lemma on_turn_store: "on_turn m a = (r, a') \<Longrightarrow> ag_resumable a' = ag_resumable a"
  by (auto simp: on_turn_def split: prod.splits)

lemma agent_note_store: "agent_note AC A E kind d a = (r, a') \<Longrightarrow> ag_resumable a' = ag_resumable a"
  unfolding agent_note_def by (rule on_turn_store)

lemma text_step_keeps: "text_step AC what row name t a = (r, a') \<Longrightarrow> ag_resumable a' = ag_resumable a \<and> ag_rt a' = ag_rt a"
  by (auto simp: text_step_def on_turn_def dest: durable_step_rt split: prod.splits)

lemma ignoring_keeps: "ignoring m a = (r, a') \<Longrightarrow> \<exists>q. m a = (q, a')"
  by (auto simp: ignoring_def split: prod.splits outcome.splits)

lemma waiting_expiry_keeps: "waiting_expiry AC A i a = (Done (Inr t), a') \<Longrightarrow> a' = a"
  by (auto simp: waiting_expiry_def turn_ret_def Let_def split: option.splits if_splits)

lemma rolled_back_fails: "rolled_back AC E i now what tidy a = (r, a') \<Longrightarrow> r \<noteq> Done (Inr x)"
  by (auto simp: rolled_back_def turn_throw_def elim!: turn_then_cases)

text \<open>A persist that reports success put the turn while its approval was pending.\<close>

lemma persist_done:
  assumes "persist_resumable_or_abort_pending AC E i t now a = (Done (Inr ()), a')"
  obtains ps where "try_pending_approvals (tc_rt (ac_turn AC)) (ag_rt a') = Inr ps" "\<exists>p \<in> set ps. pa_approval p = i"
    "rs_put (ac_store AC) (ae_put E) (ag_resumable a) t = (Done (Inr ()), ag_resumable a')"
proof -
  obtain ps where ps: "try_pending_approvals (tc_rt (ac_turn AC)) (ag_rt a) = Inr ps" "\<exists>p \<in> set ps. pa_approval p = i"
  proof (cases "try_pending_approvals (tc_rt (ac_turn AC)) (ag_rt a)")
    case (Inl e)
    show ?thesis using assms[unfolded persist_resumable_or_abort_pending_def Inl sum.case] rolled_back_fails by metis
  next
    case (Inr ps)
    note p = assms[unfolded persist_resumable_or_abort_pending_def Inr sum.case]
    show ?thesis
    proof (cases "\<exists>p \<in> set ps. pa_approval p = i")
      case True
      then show ?thesis using that Inr by blast
    next
      case False
      show ?thesis using p[unfolded if_P[OF False]] rolled_back_fails by metis
    qed
  qed
  have "turn_then (on_store (\<lambda>r. rs_put (ac_store AC) (ae_put E) r t)) (\<lambda>written.
         case written of
           Inl e \<Rightarrow> rolled_back AC E i now (''resumable persist failed: '' @ show_resumable_error (ac_ext AC) e @ ''; '')
             ''orphan approval quarantined and cleaned''
         | Inr _ \<Rightarrow> turn_ret ()) a = (Done (Inr ()), a')"
    using assms by (simp only: persist_resumable_or_abort_pending_def ps sum.case simp_thms if_False)
  then show ?thesis
  proof (cases rule: turn_then_cases)
    case (1 w a1)
    have w: "w = Inr () \<and> a' = a1"
    proof (cases w)
      case (Inl e)
      show ?thesis using 1(2)[unfolded Inl sum.case] rolled_back_fails by metis
    next
      case (Inr u)
      then show ?thesis using 1(2) by (simp add: turn_ret_def)
    qed
    have "rs_put (ac_store AC) (ae_put E) (ag_resumable a) t = (Done w, ag_resumable a1)"
      using 1(1) by (auto simp: on_store_def split: prod.splits outcome.splits)
    with w ps on_store_rt[OF 1(1)] that show ?thesis by simp
  qed simp_all
qed

definition suspended_turn ::
  "('p, 'o, 'j, 'n, 'r) agent_config \<Rightarrow> message_origin option \<Rightarrow> nat \<Rightarrow> approval_id \<Rightarrow> llm_message list \<Rightarrow> string \<Rightarrow>
   resumable_turn \<Rightarrow> bool" where
  "suspended_turn AC origin turn i ms call t \<longleftrightarrow>
     rz_approval t = i \<and> rz_being t = tc_being (ac_turn AC) \<and> rz_origin t = origin \<and> rz_turn t = turn \<and>
     rz_messages t = redact_messages_for_resume ms \<and> rz_call t = call"

text \<open>The whole turn that a loop leaves behind that stopped at a call of a tool with these arguments.\<close>

definition turn_left ::
  "('p, 'o, 'j, 'n, 'r) agent_config \<Rightarrow> turn_args \<Rightarrow> message_origin option \<Rightarrow> string \<Rightarrow> approval_id \<Rightarrow> string \<Rightarrow>
   llm_message list \<Rightarrow> string \<Rightarrow> json \<Rightarrow> resumable_turn \<Rightarrow> bool" where
  "turn_left AC A origin tool i summary ms call args t \<longleftrightarrow>
     suspended_turn AC origin (ta_turn A) i ms call t \<and> rz_tool t = tool \<and> rz_summary t = summary \<and>
     rz_hash t = sha256_hex (ac_ext AC) (case json_bytes (ac_ext AC) args of Inl _ \<Rightarrow> [] | Inr bytes \<Rightarrow> bytes) \<and>
     rz_policy t = ''tool '' @ sq @ tool @ sq @ '' requires human approval'' \<and> rz_created t = ta_now A \<and>
     rz_audit t = [] \<and> rz_cursor t = 0"

lemma suspend_done:
  assumes "suspend_turn AC A E origin (ta_turn A) tool i summary ms call args a = (Done (Inr ()), a')"
  obtains t ps where "turn_left AC A origin tool i summary ms call args t"
    "rs_put (ac_store AC) (ae_put E) (ag_resumable a) t = (Done (Inr ()), ag_resumable a')"
    "try_pending_approvals (tc_rt (ac_turn AC)) (ag_rt a') = Inr ps" "\<exists>p \<in> set ps. pa_approval p = i"
  using assms[unfolded suspend_turn_def]
proof (cases rule: turn_then_cases)
  case (1 expires a1)
  show ?thesis
    by (rule persist_done[OF 1(2)], rule that)
      (simp_all add: waiting_expiry_keeps[OF 1(1)] turn_left_def suspended_turn_def with_durable_position_def
        with_policy_snapshot_def resumable_new_def)
qed simp_all

text \<open>A turn that reports a suspension stored it, or found it stored; its loop stopped at the call.\<close>

definition stored_by ::
  "('p, 'o, 'j, 'n, 'r) agent_config \<Rightarrow> turn_args \<Rightarrow> think_env \<Rightarrow> message_origin option \<Rightarrow> string \<Rightarrow> approval_id \<Rightarrow> string \<Rightarrow>
   llm_message list \<Rightarrow> string \<Rightarrow> json \<Rightarrow> ('p, 'o, 'w, 'j, 'n, 'r) agent_state \<Rightarrow> ('p, 'o, 'w, 'j, 'n, 'r) agent_state \<Rightarrow> bool" where
  "stored_by AC A E origin tool i sm ms c v a a' \<longleftrightarrow>
     (\<exists>t ps. turn_left AC A origin tool i sm ms c v t \<and>
        rs_put (ac_store AC) (ae_put (th_agent E)) (ag_resumable a) t = (Done (Inr ()), ag_resumable a') \<and>
        try_pending_approvals (tc_rt (ac_turn AC)) (ag_rt a') = Inr ps \<and> (\<exists>p \<in> set ps. pa_approval p = i))"

lemma await_done:
  assumes "await_approval AC (agent_note AN A' E') A E origin tool i sm ms c v a = (Done (Inr (thought, Some (j, sm'))), a')"
  shows "j = i \<and> sm' = sm \<and> (\<exists>found. rs_get (ac_store AC) (ag_resumable a) i = Inr found \<and>
    (found \<noteq> None \<longrightarrow> ag_resumable a' = ag_resumable a) \<and> (found = None \<longrightarrow> stored_by AC A E origin tool i sm ms c v a a'))"
proof -
  obtain already a1 where 1: "(\<lambda>a. case rs_get (ac_store AC) (ag_resumable a) i of
         Inl e \<Rightarrow> turn_throw (BusErr (''resumable lookup failed: '' @ show_resumable_error (ac_ext AC) e)) a
       | Inr t \<Rightarrow> turn_ret (t \<noteq> None) a) a = (Done (Inr already), a1)"
    and k1: "turn_then (if already then turn_ret ()
                else suspend_turn AC A (th_agent E) origin (ta_turn A) tool i sm ms c v) (\<lambda>_.
     turn_then (text_step AC ''durable think step failed: '' (th_think E) (think_step (ta_turn A)) []) (\<lambda>_.
     turn_then (agent_note AN A' E' TurnSuspended (suspended_detail (ac_ext AC) i sm)) (\<lambda>_.
     turn_then (ignoring (text_step AC [] (th_suspend E) (suspend_step (ta_turn A)) (show_uuid (ac_ext AC) i @ ''|'' @ sm))) (\<lambda>_.
     turn_ret (None, Some (i, sm)))))) a1 = (Done (Inr (thought, Some (j, sm'))), a')"
    using assms[unfolded await_approval_def] by (rule turn_then_done)
  obtain found where f: "rs_get (ac_store AC) (ag_resumable a) i = Inr found" "already \<longleftrightarrow> found \<noteq> None" "a1 = a"
    using 1 by (cases "rs_get (ac_store AC) (ag_resumable a) i") (auto simp: turn_throw_def turn_ret_def)
  obtain u2 a2 where 2: "(if already then turn_ret ()
                else suspend_turn AC A (th_agent E) origin (ta_turn A) tool i sm ms c v) a1 = (Done (Inr u2), a2)"
    and k2: "turn_then (text_step AC ''durable think step failed: '' (th_think E) (think_step (ta_turn A)) []) (\<lambda>_.
     turn_then (agent_note AN A' E' TurnSuspended (suspended_detail (ac_ext AC) i sm)) (\<lambda>_.
     turn_then (ignoring (text_step AC [] (th_suspend E) (suspend_step (ta_turn A)) (show_uuid (ac_ext AC) i @ ''|'' @ sm))) (\<lambda>_.
     turn_ret (None, Some (i, sm))))) a2 = (Done (Inr (thought, Some (j, sm'))), a')"
    using k1 by (rule turn_then_done)
  obtain u3 a3 where 3: "text_step AC ''durable think step failed: '' (th_think E) (think_step (ta_turn A)) [] a2 = (Done (Inr u3), a3)"
    and k3: "turn_then (agent_note AN A' E' TurnSuspended (suspended_detail (ac_ext AC) i sm)) (\<lambda>_.
     turn_then (ignoring (text_step AC [] (th_suspend E) (suspend_step (ta_turn A)) (show_uuid (ac_ext AC) i @ ''|'' @ sm))) (\<lambda>_.
     turn_ret (None, Some (i, sm)))) a3 = (Done (Inr (thought, Some (j, sm'))), a')"
    using k2 by (rule turn_then_done)
  obtain u4 a4 where 4: "agent_note AN A' E' TurnSuspended (suspended_detail (ac_ext AC) i sm) a3 = (Done (Inr u4), a4)"
    and k4: "turn_then (ignoring (text_step AC [] (th_suspend E) (suspend_step (ta_turn A)) (show_uuid (ac_ext AC) i @ ''|'' @ sm))) (\<lambda>_.
     turn_ret (None, Some (i, sm))) a4 = (Done (Inr (thought, Some (j, sm'))), a')"
    using k3 by (rule turn_then_done)
  obtain u5 a5 where 5: "ignoring (text_step AC [] (th_suspend E) (suspend_step (ta_turn A)) (show_uuid (ac_ext AC) i @ ''|'' @ sm)) a4 =
      (Done (Inr u5), a5)" and k5: "turn_ret (None, Some (i, sm)) a5 = (Done (Inr (thought, Some (j, sm'))), a')"
    using k4 by (rule turn_then_done)
  obtain q where q: "text_step AC [] (th_suspend E) (suspend_step (ta_turn A)) (show_uuid (ac_ext AC) i @ ''|'' @ sm) a4 = (q, a5)"
    using ignoring_keeps[OF 5] by blast
  have e: "j = i" "sm' = sm" "a' = a5" using k5 by (auto simp: turn_ret_def)
  have s: "ag_resumable a' = ag_resumable a2" "ag_rt a' = ag_rt a2"
    using text_step_keeps[OF 3] agent_note_store[OF 4] agent_note_rt[OF 4] text_step_keeps[OF q] e(3) by simp_all
  show ?thesis
  proof (cases already)
    case True
    then have "a2 = a" using 2 f(3) by (simp add: turn_ret_def)
    with s(1) e f(1,2) True show ?thesis by auto
  next
    case False
    then have "suspend_turn AC A (th_agent E) origin (ta_turn A) tool i sm ms c v a = (Done (Inr ()), a2)" using 2 f(3) by simp
    then have "stored_by AC A E origin tool i sm ms c v a a2" by (rule suspend_done) (auto simp: stored_by_def)
    then have "stored_by AC A E origin tool i sm ms c v a a'" by (simp add: stored_by_def s)
    with e f(1,2) False show ?thesis by auto
  qed
qed

lemma closed_not_waiting: "closed_with AC A E t a \<noteq> (Done (Inr (thought, Some x)), a')"
  by (auto simp: closed_with_def turn_ret_def elim!: turn_then_cases)

lemma think_suspended:
  fixes a :: "('p, 'o, 'w, 'j, 'n, 'r) agent_state"
  assumes "think_actions_durable AC A E origin messages a = (Done (Inr (thought, Some (i, sm))), a')"
  obtains a0 and s1 :: "('p, 'o, 'w, 'j, 'n) turn_state" and tool ms c v n a1 found where
    "agent_note (if is_replaying (tu_ctx (ag_turn a)) then AC\<lparr>ac_turn := (ac_turn AC)\<lparr>tc_audit := False\<rparr>\<rparr> else AC) A (th_agent E)
       TurnStarted ''turn started'' a = (Done (Inr ()), a0)"
    "drive_tool_loop_durable (ac_turn AC) (A\<lparr>ta_base := 0\<rparr>) (ae_turn (th_agent E)) (ac_rounds AC) messages [] (ag_turn a0) =
       (Done (Inr (AwaitingApproval tool i sm ms c v, n)), s1)"
    "ag_resumable a1 = ag_resumable a" "rs_get (ac_store AC) (ag_resumable a) i = Inr found"
    "found \<noteq> None \<longrightarrow> ag_resumable a' = ag_resumable a" "found = None \<longrightarrow> stored_by AC A E origin tool i sm ms c v a1 a'"
proof -
  define AN where "AN = (if is_replaying (tu_ctx (ag_turn a)) then AC\<lparr>ac_turn := (ac_turn AC)\<lparr>tc_audit := False\<rparr>\<rparr> else AC)"
  let ?note = "agent_note AN A (th_agent E)"
  let ?loop = "on_turn (drive_tool_loop_durable (ac_turn AC) (A\<lparr>ta_base := 0\<rparr>) (ae_turn (th_agent E)) (ac_rounds AC) messages [])"
  have on: "ac_actions AC"
  proof (rule ccontr)
    assume "\<not> ac_actions AC"
    then show False using assms by (simp add: think_actions_durable_def turn_ret_def)
  qed
  have "turn_then (?note TurnStarted ''turn started'') (\<lambda>_. if \<not> ac_llm AC then turn_ret (None, None)
     else turn_then ?loop (\<lambda>out. think_end AC ?note A E origin (fst out))) a = (Done (Inr (thought, Some (i, sm))), a')"
    using assms unfolding think_actions_durable_def Let_def AN_def[symmetric] by (simp only: on simp_thms if_False)
  then obtain u a0 where "?note TurnStarted ''turn started'' a = (Done (Inr u), a0)"
    and r0: "(if \<not> ac_llm AC then turn_ret (None, None)
     else turn_then ?loop (\<lambda>out. think_end AC ?note A E origin (fst out))) a0 = (Done (Inr (thought, Some (i, sm))), a')"
    by (rule turn_then_done)
  then have n0: "?note TurnStarted ''turn started'' a = (Done (Inr ()), a0)" by simp
  have "ac_llm AC"
  proof (rule ccontr)
    assume "\<not> ac_llm AC"
    then show False using r0 by (simp add: turn_ret_def)
  qed
  then have "turn_then ?loop (\<lambda>out. think_end AC ?note A E origin (fst out)) a0 = (Done (Inr (thought, Some (i, sm))), a')"
    using r0 by simp
  then obtain out a1 where l: "?loop a0 = (Done (Inr out), a1)"
    and k: "think_end AC ?note A E origin (fst out) a1 = (Done (Inr (thought, Some (i, sm))), a')"
    by (rule turn_then_done)
  obtain tool j sm0 ms c v where out: "fst out = AwaitingApproval tool j sm0 ms c v"
    using k closed_not_waiting by (cases "fst out") (force simp: think_end_def elim!: turn_then_done)+
  note aw = await_done[OF k[unfolded think_end_def out loop_outcome.case]]
  have st: "ag_resumable a1 = ag_resumable a" using agent_note_store[OF n0] on_turn_store[OF l] by simp
  obtain found where found: "rs_get (ac_store AC) (ag_resumable a) i = Inr found"
    "found \<noteq> None \<longrightarrow> ag_resumable a' = ag_resumable a" "found = None \<longrightarrow> stored_by AC A E origin tool i sm ms c v a1 a'"
    using aw unfolding st by blast
  have "drive_tool_loop_durable (ac_turn AC) (A\<lparr>ta_base := 0\<rparr>) (ae_turn (th_agent E)) (ac_rounds AC) messages [] (ag_turn a0) =
       (Done (Inr (AwaitingApproval tool i sm ms c v, snd out)), ag_turn a1)"
    using l out aw by (cases out) (auto simp: on_turn_def split: prod.splits)
  from that[OF n0[unfolded AN_def] this st found] show ?thesis .
qed

subsection \<open>Models that refuse\<close>

text \<open>Providers refuse a conversation in which a tool call has no result.\<close>

definition refuse_open :: "'n models \<Rightarrow> bool" where
  "refuse_open M \<longleftrightarrow> (\<forall>ms c ts ch n. unanswered ms \<noteq> [] \<longrightarrow> (\<exists>e n'. md_chat M c ms ts ch n = (Inl e, n')))"

lemma entry_loop_refused:
  assumes "entry_loop X P idx client tried st w = (res, st', w')" "\<forall>c w. \<exists>e w'. lp_call P c w = (Inl e, w')"
  shows "\<forall>x. res \<noteq> Answered x"
  using assms(1)
proof (induction rule: entry_loop_rule)
  case (answer client tried st w r w1)
  with assms(2)[rule_format, of client w] show ?case by auto
next
  case (stop client tried st w err w1 s t st1)
  show ?case by (cases s rule: stop_result.cases) simp_all
qed simp_all

lemma run_pass_refused:
  assumes "\<forall>c w. \<exists>e w'. lp_call P c w = (Inl e, w')"
  shows "run_pass X P cs n last_err st w = (res, st', w') \<Longrightarrow> res \<noteq> PassOk x"
proof (induction cs arbitrary: n last_err st w)
  case (Cons c cs)
  obtain idx client where c: "c = (idx, client)" by (rule prod.exhaust)
  obtain r st1 w1 where l: "entry_loop X P idx client [] st w = (r, st1, w1)" by (metis prod.exhaust)
  show ?case
  proof (cases r)
    case (Answered y)
    with entry_loop_refused[OF l assms] show ?thesis by blast
  qed (use Cons l c in \<open>auto split: prod.splits\<close>)
qed auto

lemma chain_refused:
  assumes "\<forall>c w. \<exists>e w'. lp_call P c w = (Inl e, w')"
  shows "fst (chain_complete X P st w) \<noteq> Done (Inr x)"
  unfolding chain_complete_def
  by (auto split: prod.split pass_result.split dest: run_pass_refused[OF assms])

lemma ask_refused:
  assumes "refuse_open (tc_models C)" "unanswered ms \<noteq> []"
  shows "ask_tools C ms ts ch s \<noteq> (Done (Inr x), s')"
proof -
  let ?P = "\<lparr>lp_call = (\<lambda>c. md_chat (tc_models C) c ms ts ch), lp_now = md_now (tc_models C)\<rparr>"
  have "\<forall>c w. \<exists>e w'. lp_call ?P c w = (Inl e, w')" using assms by (simp add: refuse_open_def)
  from chain_refused[OF this, of "rc_ext (tc_rt C)" "tu_llm s" "tu_net s" x] show ?thesis
    by (auto simp: ask_tools_def complete_with_tools_choice_def split: prod.splits outcome.splits sum.splits)
qed

lemma loop_refused:
  assumes "refuse_open (tc_models C)" "unanswered ms \<noteq> []" "budget \<noteq> 0"
  shows "drive_tool_loop C A E budget keys ms [] s \<noteq> (Done (Inr x), s')"
proof
  assume run: "drive_tool_loop C A E budget keys ms [] s = (Done (Inr x), s')"
  obtain b where b: "budget = Suc b" using assms(3) by (cases budget) auto
  obtain p s1 where "ask_plain C (loop_start ms [] 0) s = (Done (Inr p), s1)"
    using run[unfolded drive_tool_loop_def b rounds_plain.simps Let_def] by (rule turn_then_done)
  then show False
    unfolding ask_plain_def by (auto simp: loop_start_def ask_refused[OF assms(1,2)] elim!: turn_then_done)
qed

lemma continue_refused:
  assumes "refuse_open (tc_models (ac_turn AC))" "unanswered ms \<noteq> []" "ac_rounds AC \<noteq> 0"
  shows "continue_turn AC A E i origin ms a \<noteq> (Done (Inr x), a')"
proof
  assume "continue_turn AC A E i origin ms a = (Done (Inr x), a')"
  then obtain out a1 where "on_turn (drive_tool_loop (ac_turn AC) A (ae_turn E) (ac_rounds AC) (Some (resume_prefix (ac_ext AC) i)) ms []) a =
      (Done (Inr out), a1)"
    unfolding continue_turn_def by (rule turn_then_done)
  then show False by (auto simp: on_turn_def loop_refused[OF assms] split: prod.splits)
qed

text \<open>Nothing happens to the runtime then.\<close>

lemma loop_refused_rt:
  assumes "refuse_open (tc_models C)" "unanswered ms \<noteq> []" "budget \<noteq> 0" "drive_tool_loop C A E budget keys ms [] s = (r, s')"
  shows "tu_rt s' = tu_rt s"
proof -
  obtain b where b: "budget = Suc b" using assms(3) by (cases budget) auto
  from assms(4)[unfolded drive_tool_loop_def b rounds_plain.simps Let_def] show ?thesis
  proof (cases rule: turn_then_cases)
    case (1 p s1)
    from 1(1) show ?thesis
      unfolding ask_plain_def by (auto simp: loop_start_def ask_refused[OF assms(1,2)] elim!: turn_then_done)
  qed (auto dest: ask_plain_rt)
qed

lemma continue_refused_rt:
  assumes "refuse_open (tc_models (ac_turn AC))" "unanswered ms \<noteq> []" "ac_rounds AC \<noteq> 0"
    and "continue_turn AC A E i origin ms a = (r, a')"
  shows "ag_rt a' = ag_rt a"
  using assms(4)[unfolded continue_turn_def]
proof (cases rule: turn_then_cases)
  case (1 out a1)
  then show ?thesis by (auto simp: on_turn_def loop_refused[OF assms(1-3)] split: prod.splits)
qed (auto simp: on_turn_def dest: loop_refused_rt[OF assms(1-3)] split: prod.splits)

end
