(* ===== verification/Json_Codec.thy ===== *)
theory Json_Codec
  imports Sample_Codec Sample_Json
begin

section \<open>A row codec for every marker\<close>

text \<open>
  \<open>json_codec\<close> writes a marker with any JSON value as a row, with the printer of the sample texts; it
  meets what is assumed of the encoder of rows.
\<close>

definition json_row :: "journal_entry \<Rightarrow> string option" where
  "json_row e =
     (case je_kind e of
        Marker name v \<Rightarrow>
          Some (CHR ''{'' # pack [show_nat (unat (je_step_id e)), show_int (je_timestamp e), name, jt_print plain_text v] @ [CHR ''}''])
      | _ \<Rightarrow> None)"

definition json_row_parse :: "string \<Rightarrow> string + journal_entry" where
  "json_row_parse l =
     (if \<not> row_text l then Inl ''expected value''
      else case unpack [] (butlast (tl l)) of
             Some [i, t, name, s] \<Rightarrow>
               (case (nat_of_text i, int_of_text t, jt_parse plain_text s) of
                  (Some n, Some k, Inr v) \<Rightarrow> Inr (marker k (of_nat n) name v)
                | _ \<Rightarrow> Inl ''expected value'')
           | _ \<Rightarrow> Inl ''expected value'')"

definition json_codec :: codec where
  "json_codec = \<lparr>to_string = json_row, from_str = json_row_parse\<rparr>"

lemma json_row_back: "json_row e = Some l \<Longrightarrow> row_text l \<and> json_row_parse l = Inr e"
proof -
  assume r: "json_row e = Some l"
  then obtain name v where k: "je_kind e = Marker name v" by (auto simp: json_row_def split: entry_kind.splits)
  let ?ws = "[show_nat (unat (je_step_id e)), show_int (je_timestamp e), name, jt_print plain_text v]"
  have l: "l = CHR ''{'' # pack ?ws @ [CHR ''}'']" using r k by (simp add: json_row_def)
  have e: "marker (je_timestamp e) (je_step_id e) name v = e" using k by (simp add: marker_def entry_new_def)
  have p: "jt_parse plain_text (jt_print plain_text v) = Inr v" using plain_reads_back by (simp add: reads_back_def)
  have "json_row_parse l = Inr (marker (je_timestamp e) (je_step_id e) name v)"
    using row_text_pack[of ?ws]
    by (simp add: l json_row_parse_def butlast_append unpack_pack nat_of_text_show int_of_text_show p)
  then show ?thesis using row_text_pack[of ?ws] by (simp add: l e)
qed

lemma json_codec_ok: "codec_ok json_codec"
proof -
  have no: "isl (from_str json_codec t)" if "\<not> row_text t" for t
    using that by (simp add: json_codec_def json_row_parse_def)
  show ?thesis unfolding codec_ok_def
  proof (intro allI impI)
    fix e l assume "to_string json_codec e = Some l"
    then have l: "row_text l" "from_str json_codec l = Inr e"
      using json_row_back[of e l] by (auto simp: json_codec_def)
    obtain b where b: "l = CHR ''{'' # b @ [CHR ''}'']" "nl \<notin> set b"
      "\<forall>c \<in> set b. (of_char c :: nat) < 128" using l(1) by (rule row_textE)
    then have "utf8_valid l" by (intro utf8_ascii) auto
    moreover have "nl \<notin> set l" using b by (auto simp: nl_def)
    ultimately show "from_str json_codec l = Inr e \<and> l \<noteq> [] \<and> hd l = CHR ''{'' \<and>
        last l = CHR ''}'' \<and> nl \<notin> set l \<and> utf8_valid l \<and>
        (\<forall>n < length l. isl (from_str json_codec (take n l))) \<and>
        (\<forall>f. f \<noteq> [] \<longrightarrow> hd f = CHR ''{'' \<longrightarrow> isl (from_str json_codec (f @ l)))"
      using l b(1) row_text_take[OF l(1)] row_text_glued[OF l(1)] no by auto
  qed
qed

lemma json_codec_prints: "to_string json_codec (marker k i name v) \<noteq> None"
  by (simp add: json_codec_def json_row_def marker_def entry_new_def)

end
