(* ===== verification/Suspension_Laws.thy ===== *)
theory Suspension_Laws
  imports Suspension Json_Codec
begin

section \<open>What suspended turns keep and lose\<close>

text \<open>
  The properties of suspensions, with a sample turn: its model calls a tool whose dispatch was recorded, before
  the process died, as waiting for an approval.
\<close>

subsection \<open>A sample suspension\<close>

definition sample_call_b :: tool_call where
  "sample_call_b = \<lparr>tl_id = ''c2'', tl_name = ''a'', tl_args = JStr ''q''\<rparr>"

text \<open>Models that call the tool first, and refuse open conversations.\<close>

definition waiting_models :: "tool_call list \<Rightarrow> nat models" where
  "waiting_models later =
     \<lparr>md_chat = (\<lambda>c ms ts ch n. if unanswered ms \<noteq> [] then (Inl NoContentErr, n)
         else (Inr \<lparr>cp_content = None, cp_calls = Some (sample_call_a # later)\<rparr>, Suc n)),
      md_text = (\<lambda>c ms n. (Inr ''hi'', Suc n)), md_now = (\<lambda>n. 0)\<rparr>"

definition waiting_config :: "tool_call list \<Rightarrow> (jp_state, jo_state, in_memory_journal, nat) turn_config" where
  "waiting_config later = (sample_turn_config (durable_rt sample_durable))\<lparr>tc_models := waiting_models later\<rparr>"

definition waiting_runtime :: "jp_state \<Rightarrow> jo_state \<Rightarrow> (jp_state, jo_state, nat) runtime" where
  "waiting_runtime P obx = (sample_runtime (sample_pipe ReadOnly) P)\<lparr>rt_outbox := obx\<rparr>"

definition waiting_submit :: submit_outcome where
  "waiting_submit = \<lparr>so_task = 5, so_status = NeedsApproval, so_pending = Some 3\<rparr>"

lemma committed_outbox:
  obtains obx where "jo_inv sample_jo obx" "jo_lookup sample_jo obx (dispatch_step_name 4 0) = Inr (Committed (from_submit waiting_submit))"
proof -
  let ?key = "dispatch_step_name 4 0"
  obtain o1 where o1: "jo_inv sample_jo o1" using jo_intent_ok[OF sample_jo_fresh(2), of 1 ?key] by blast
  obtain o2 where o2: "jo_inv sample_jo o2" "jo_entry sample_jo o2 = (jo_entry sample_jo o1)
      (?key := (jo_entry sample_jo o1 ?key)\<lparr>ks_intent := True, ks_committed := Some (from_submit waiting_submit)\<rparr>)"
    using jo_committed_ok[OF o1, of 2 ?key "from_submit waiting_submit"] by blast
  have "jo_lookup sample_jo o2 ?key = Inr (Committed (from_submit waiting_submit))"
    using joc.lookup_state[OF o2(1), of ?key] o2(2) by (simp add: ks_lookup_def)
  with o2(1) that show ?thesis by blast
qed

lemma sample_step:
  assumes "\<not> is_replaying (tu_ctx s)" "tv x = Inr v" "tc_journal C = in_memory"
  shows "\<exists>s'. durable_step C what tv fv (t, NoFault) name (Inr x) s = (Done (Inr x), s') \<and> tu_rt s' = tu_rt s \<and>
    \<not> is_replaying (tu_ctx s')"
  using assms
  by (simp add: durable_step_def step_def is_replaying_def vec_get_def Let_def advance_def
      split: prod.split)

lemma waiting_answer:
  "\<exists>s1. model_answer (waiting_config later) sample_args sample_turn_env 0 (loop_start [] [] 0) (sample_turn rt) =
     (Done (Inr (None, Some (sample_call_a # later))), s1) \<and> tu_rt s1 = rt \<and> \<not> is_replaying (tu_ctx s1)"
proof -
  have "\<not> is_replaying (tu_ctx (sample_turn rt))" by (simp add: sample_turn_def is_replaying_def)
  then show ?thesis
    by (simp add: model_answer_def fresh_answer_def turn_then_def ask_tools_def turn_ret_def Let_def no_calls_def
        complete_with_tools_choice_def chain_complete_def run_pass.simps entry_loop.simps snapshot_clients_def
        waiting_config_def sample_turn_config_def sample_turn_def sample_chain_def sample_entry_def from_resolved_def
        waiting_models_def loop_start_def unanswered_def
        health_default_def is_cooled_def durable_step_def step_def vec_get_def projection_json_def sample_turn_env_def
        is_replaying_def advance_def split: prod.split)
qed

lemma waiting_loop:
  assumes "jo_inv sample_jo obx" "jo_lookup sample_jo obx (dispatch_step_name 4 0) = Inr (Committed (from_submit waiting_submit))"
  obtains sm s1 where
    "drive_tool_loop_durable (waiting_config later) sample_args sample_turn_env (Suc 0) [] [] (sample_turn (waiting_runtime P obx)) =
       (Done (Inr (AwaitingApproval ''a'' 3 sm [assistant_turn (None, Some (sample_call_a # later)) (sample_call_a # later)]
          ''c1'' (JStr ''p''), 0)), s1)"
    "tu_rt s1 = waiting_runtime P obx" "\<not> is_replaying (tu_ctx s1)"
proof -
  let ?C = "waiting_config later" and ?s = "sample_turn (waiting_runtime P obx)" and ?A = sample_args and ?E = sample_turn_env
  let ?rt = "waiting_runtime P obx" and ?calls = "sample_call_a # later"
  obtain s1 where m: "model_answer ?C ?A ?E 0 (loop_start [] [] 0) ?s = (Done (Inr (None, Some ?calls)), s1)"
      and s1: "tu_rt s1 = ?rt" "\<not> is_replaying (tu_ctx s1)"
    using waiting_answer by blast
  have l: "lookup_key (durable_rt sample_durable) (dispatch_step_name 4 0) ?rt = (Done (Inr (Committed (from_submit waiting_submit))), ?rt)"
    using assms(2) by (simp add: lookup_key_def reading_def sample_durable_def waiting_runtime_def sample_runtime_def)
  have sub: "submit_task_idempotent (durable_rt sample_durable) sample_call (dispatch_step_name 4 0) ''b'' 7 (JStr ''p'') 100 ?rt =
      (Done (Inr waiting_submit), ?rt)"
    unfolding submit_task_idempotent_def andthen_ok[where m = "lookup_key R k" for R k, OF l] dispatch_lookup.case
    by (simp add: of_result_def into_result_def from_submit_def waiting_submit_def)
  let ?d = "from_outcome (Inr waiting_submit)"
  obtain s2 where d2: "durable_step ?C ''durable dispatch step failed: '' (sc_enc (tc_record ?C)) (sc_dec (tc_record ?C)) (te_row ?E 0)
      (dispatch_step_name 4 0) (Inr ?d) s1 = (Done (Inr ?d), s2)" and s2: "tu_rt s2 = ?rt" "\<not> is_replaying (tu_ctx s2)"
  proof -
    have "sc_enc (tc_record ?C) ?d = Inr JNull" "tc_journal ?C = in_memory" "te_row ?E 0 = (0, NoFault)"
      by (simp_all add: waiting_config_def sample_turn_config_def sample_record_codec_def sample_turn_env_def)
    with sample_step[where tv = "sc_enc (tc_record ?C)" and x = ?d and C = ?C, OF s1(2) this(1,2),
        of "''durable dispatch step failed: ''" "sc_dec (tc_record ?C)" 0 "dispatch_step_name 4 0"]
      s1(1) that show ?thesis by auto
  qed
  have on: "on_runtime (submit_task_idempotent (tc_rt ?C) (te_call ?E 0) (dispatch_step_name 4 0) (tc_being ?C) 7 (JStr ''p'') 100) s1 =
      (Done (Inr (Inr waiting_submit)), s1)"
    using sub s1(1) by (simp add: on_runtime_def waiting_config_def sample_turn_config_def sample_turn_env_def)
  have d: "dispatch_tool ?C ?A ?E 0 7 (JStr ''p'') s1 = (Done (Inr ?d), s2)"
    using s1(2) d2 by (simp add: dispatch_tool_def Let_def sample_args_def turn_then_ok[where m = "on_runtime h" for h, OF on])
  have skill: "map_name_to_skill ''a'' ?rt = Some 7"
    by (simp add: map_name_to_skill_def waiting_runtime_def sample_runtime_def sample_pipe_def registry_list_def
        sample_manifest_def)
  define lo where "lo = push (assistant_turn (None, Some ?calls) ?calls) (hear (None, Some ?calls) (loop_start [] [] 0))"
  have lo: "lo_index lo = 0" "lo_uses lo = []" "lo_reads lo = 0" "lo_count lo = 0"
      "lo_messages lo = [assistant_turn (None, Some ?calls) ?calls]"
    by (simp_all add: lo_def push_def hear_def loop_start_def)
  have dr: "dr_error ?d = None" "dr_pending ?d = Some 3" by (simp_all add: from_outcome_def waiting_submit_def)
  define sm where "sm = (case pending_summary_for (tc_rt ?C) (tu_rt s2) 3 of Some x \<Rightarrow> x | None \<Rightarrow> awaiting_text ''a'')"
  have st: "settle_dispatch ?C ?A ?E False sample_call_a (lo\<lparr>lo_uses := [(''a'', 1)], lo_reads := 0, lo_index := 1\<rparr>) ?d s2 =
      (Done (Inr (Inl (AwaitingApproval ''a'' 3 sm [assistant_turn (None, Some ?calls) ?calls] ''c1'' (JStr ''p''), 0))), s2)"
    using dr lo
    by (simp add: settle_dispatch_def Let_def turn_ret_def sm_def sample_call_a_def emit_tool_def tool_note_def
        record_turn_audit_into_def waiting_config_def sample_turn_config_def cong: option.case_cong)
  have "turn_then (dispatch_tool ?C ?A ?E 0 7 (JStr ''p''))
      (settle_dispatch ?C ?A ?E False sample_call_a (lo\<lparr>lo_uses := [(''a'', 1)], lo_reads := 0, lo_index := 1\<rparr>)) s1 =
      (Done (Inr (Inl (AwaitingApproval ''a'' 3 sm [assistant_turn (None, Some ?calls) ?calls] ''c1'' (JStr ''p''), 0))), s2)"
    unfolding turn_then_ok[where m = "dispatch_tool C A E k q v" for C A E k q v, OF d] by (rule st)
  then have c: "run_call ?C ?A ?E sample_call_a lo s1 =
      (Done (Inr (Inl (AwaitingApproval ''a'' 3 sm [assistant_turn (None, Some ?calls) ?calls] ''c1'' (JStr ''p''), 0))), s2)"
    using lo s1 skill
    by (simp add: run_call_def Let_def sample_call_a_def over_budget_def count_use_def uses_def emit_progress_def
        waiting_config_def sample_turn_config_def TOOL_BUDGET_PER_NAME_def str_contains_def starts_with_def)
  have rc: "run_calls ?C ?A ?E ?calls lo s1 =
      (Done (Inr (Inl (AwaitingApproval ''a'' 3 sm [assistant_turn (None, Some ?calls) ?calls] ''c1'' (JStr ''p''), 0))), s2)"
    by (simp add: turn_then_ok[where m = "run_call C A E k q" for C A E k q, OF c] turn_ret_def)
  have "rounds ?C ?A ?E (Suc 0) (Suc 0) (loop_start [] [] 0) ?s =
      turn_then (run_calls ?C ?A ?E ?calls lo) (\<lambda>r. case r of Inl out \<Rightarrow> turn_ret out | Inr lo2 \<Rightarrow> rounds ?C ?A ?E (Suc 0) 0 lo2) s1"
    unfolding lo_def by (rule rounds_calling) (simp_all add: m)
  also have "\<dots> = (Done (Inr (AwaitingApproval ''a'' 3 sm [assistant_turn (None, Some ?calls) ?calls] ''c1'' (JStr ''p''), 0)), s2)"
    unfolding turn_then_ok[where m = "run_calls C A E k q" for C A E k q, OF rc] by (simp add: turn_ret_def)
  finally have "drive_tool_loop_durable ?C ?A ?E (Suc 0) [] [] ?s =
      (Done (Inr (AwaitingApproval ''a'' 3 sm [assistant_turn (None, Some ?calls) ?calls] ''c1'' (JStr ''p''), 0)), s2)"
    by (simp only: drive_tool_loop_durable_def sample_args_def turn_args.select_convs)
  with s2 that show ?thesis by blast
qed

subsection \<open>A sample store\<close>

definition sample_log :: "resumable_turn log_shape" where
  "sample_log = resumable_log plain_text unary_scalars json_codec ''r'' 2"

lemma sample_log_ok: "kl_ok sample_log"
  unfolding sample_log_def
proof (rule resumable_log_ok[OF json_codec_ok _ plain_reads_back])
  show "prints_all json_codec" using json_codec_prints by (simp add: prints_all_def)
  show "scalars_ok unary_scalars" by (simp add: scalars_ok_def unary_scalars_def)
qed

lemma sample_log_fresh:
  obtains s where "rj_open sample_log (\<lambda>_. None) = Inr s" "kl_inv sample_log s" "kl_map sample_log s = []"
proof -
  have "kl_disk sample_log (file_open (ls_codec sample_log) (\<lambda>_. None) (ls_path sample_log)) []"
    using file_open_missing[OF json_codec_ok, of "\<lambda>_. None" "''r''"] by (simp add: kl_disk_def sample_log_def)
  from rj_open_disk[OF sample_log_ok this] that show ?thesis by blast
qed

lemma quiet_put:
  assumes "kl_inv K s" "K = resumable_log T Z C p f" "kl_quiet K env" "turn_fits t"
  obtains s' where "rj_put X K env s t = (Done (Inr ()), s')"
proof -
  obtain r s' where m: "kl_marked K (rj_show X) env 0 s (ls_put K) (resumable_json T Z t) = (r, s')" by (rule prod.exhaust)
  have fit: "ls_fits K t" "ls_enc K t = Inr (resumable_json T Z t)" using assms(2,4) by simp_all
  have "r = Done (Inr ())" using kl_marked_put(2)[OF assms(1) kl_quietD(2)[OF assms(3)] fit m assms(3)] by simp
  with m fit that show ?thesis by (simp add: rj_put_def)
qed

definition journal_agent_config :: "(jp_state, jo_state, in_memory_journal, nat, log_state) agent_config" where
  "journal_agent_config =
     \<lparr>ac_turn = waiting_config [], ac_store = journal_resumable_store sample_ext sample_log, ac_rounds = 1, ac_llm = True,
      ac_actions = True, ac_counter = 4\<rparr>"

definition sample_think_env :: think_env where
  "sample_think_env = \<lparr>th_agent = resume_env, th_think = (0, NoFault), th_suspend = (0, NoFault)\<rparr>"

definition journal_agent ::
  "(jp_state, jo_state, nat) runtime \<Rightarrow> log_state \<Rightarrow> (jp_state, jo_state, nat, in_memory_journal, nat, log_state) agent_state" where
  "journal_agent rt st = \<lparr>ag_turn = sample_turn rt, ag_resumable = st\<rparr>"

lemma quiet_note: "\<not> tc_audit (ac_turn AC) \<Longrightarrow> agent_note AC A E kind d a = (Done (Inr ()), a)"
  by (simp add: agent_note_def on_turn_def record_turn_audit_into_def turn_ret_def)

lemma text_step_ok:
  assumes "\<not> is_replaying (tu_ctx (ag_turn a))" "tc_journal (ac_turn AC) = in_memory"
  shows "\<exists>a'. text_step AC what (n, NoFault) name t a = (Done (Inr t), a') \<and> ag_rt a' = ag_rt a \<and>
    ag_resumable a' = ag_resumable a \<and> \<not> is_replaying (tu_ctx (ag_turn a'))"
proof -
  obtain s' where s': "durable_step (ac_turn AC) what (\<lambda>x. Inr (JStr x)) text_value (n, NoFault) name (Inr t) (ag_turn a) =
      (Done (Inr t), s')" "tu_rt s' = ag_rt a" "\<not> is_replaying (tu_ctx s')"
    using sample_step[where tv = "\<lambda>x. Inr (JStr x)" and x = t and C = "ac_turn AC", OF assms(1) refl assms(2)] by blast
  then show ?thesis by (simp add: text_step_def on_turn_def)
qed

lemma sample_suspension:
  assumes P: "jp_inv sample_jp P" "hm_get (jp_map sample_jp P) = [3 \<mapsto> waiting_record]"
    and st: "kl_inv sample_log st" "kl_map sample_log st = []"
    and a: "ag_rt a = waiting_runtime P obx" "ag_resumable a = st"
  shows "\<exists>a'. suspend_turn journal_agent_config sample_args resume_env None 4 ''a'' 3 sm
      [assistant_turn p cs] ''c1'' (JStr ''p'') a = (Done (Inr ()), a') \<and> ag_turn a' = ag_turn a"
proof -
  let ?AC = journal_agent_config
  have rt: "tc_rt (ac_turn ?AC) = durable_rt sample_durable" "ac_store ?AC = journal_resumable_store sample_ext sample_log"
    by (simp_all add: journal_agent_config_def waiting_config_def sample_turn_config_def)
  have pend: "rt_pending (ag_rt a) = P" by (simp add: a waiting_runtime_def sample_runtime_def)
  have "pending_expiry_for (tc_rt (ac_turn ?AC)) (ag_rt a) 3 = Some (pr_expires_at waiting_record)"
    using jps.get_map[OF P(1), of 3] P(2) pend
    by (simp add: pending_expiry_for_def pending_field_def rt sample_durable_def)
  then have w: "waiting_expiry ?AC sample_args 3 a = (Done (Inr (pr_expires_at waiting_record)), a)"
    by (simp add: waiting_expiry_def turn_ret_def)
  obtain rs where rs: "ps_list (journal_pending_store sample_jp) P = Inr rs" "set rs = {waiting_record}"
    using jps.list_map[OF P(1)] unfolding P(2) by (auto simp: ran_def split: if_splits)
  have pr: "pr_id waiting_record = 3" by (simp add: pr_id_def waiting_record_def waiting_pipe_facts(3))
  obtain ps where ps: "try_pending_approvals (tc_rt (ac_turn ?AC)) (ag_rt a) = Inr ps" "\<exists>q \<in> set ps. pa_approval q = 3"
    using rs pend pr by (simp add: try_pending_approvals_def rt sample_durable_def)
  let ?t = "with_durable_position 4 0 (with_policy_snapshot (''tool '' @ sq @ ''a'' @ sq @ '' requires human approval'')
      (resumable_new (ac_ext ?AC) 3 (tc_being (ac_turn ?AC)) None (redact_messages_for_resume [assistant_turn p cs]) ''c1'' ''a''
        (JStr ''p'') sm (ta_now sample_args) (pr_expires_at waiting_record)))"
  have "turn_fits ?t"
    using redacted_images[of _ "[assistant_turn p cs]"]
    by (fastforce simp: turn_fits_def with_durable_position_def with_policy_snapshot_def resumable_new_def)
  moreover have "kl_quiet sample_log quiet_env"
    by (simp add: kl_quiet_def quiet_env_def harmless_swap_def sample_log_def)
  ultimately obtain st' where put: "rj_put sample_ext sample_log quiet_env st ?t = (Done (Inr ()), st')"
    using quiet_put[OF st(1) sample_log_def] by blast
  have on: "on_store (\<lambda>r. rs_put (ac_store ?AC) (ae_put resume_env) r ?t) a = (Done (Inr (Inr ())), a\<lparr>ag_resumable := st'\<rparr>)"
    using put by (simp add: on_store_def rt a(2) resume_env_def)
  have "persist_resumable_or_abort_pending ?AC resume_env 3 ?t (ta_now sample_args) a = (Done (Inr ()), a\<lparr>ag_resumable := st'\<rparr>)"
    by (simp only: persist_resumable_or_abort_pending_def ps sum.case simp_thms if_False
        turn_then_ok[where m = "on_store h" for h, OF on] turn_ret_def)
  then show ?thesis
    unfolding suspend_turn_def turn_then_ok[where m = "waiting_expiry AC A i" for AC A i, OF w] by simp
qed

lemma sample_think:
  assumes P: "jp_inv sample_jp P" "hm_get (jp_map sample_jp P) = [3 \<mapsto> waiting_record]"
    and st: "kl_inv sample_log st" "kl_map sample_log st = []"
    and obx: "jo_inv sample_jo obx" "jo_lookup sample_jo obx (dispatch_step_name 4 0) = Inr (Committed (from_submit waiting_submit))"
  shows "\<exists>sm a'. think_actions_durable journal_agent_config sample_args sample_think_env None []
     (journal_agent (waiting_runtime P obx) st) = (Done (Inr (None, Some (3, sm))), a')"
proof -
  let ?AC = journal_agent_config and ?a = "journal_agent (waiting_runtime P obx) st"
  have C: "ac_turn ?AC = waiting_config []" "ac_rounds ?AC = Suc 0" "ac_actions ?AC" "ac_llm ?AC"
    "ac_store ?AC = journal_resumable_store sample_ext sample_log" by (simp_all add: journal_agent_config_def)
  have E: "th_agent sample_think_env = resume_env" "th_think sample_think_env = (0, NoFault)" "th_suspend sample_think_env = (0, NoFault)"
    "ae_turn resume_env = sample_turn_env" "sample_args\<lparr>ta_base := 0\<rparr> = sample_args" "ta_turn sample_args = 4"
    by (simp_all add: sample_think_env_def resume_env_def sample_args_def)
  have q: "\<not> tc_audit (ac_turn ?AC)" and mem: "tc_journal (ac_turn ?AC) = in_memory"
    by (simp_all add: C waiting_config_def sample_turn_config_def)
  obtain sm s1 where l: "drive_tool_loop_durable (waiting_config []) sample_args sample_turn_env (Suc 0) [] []
      (sample_turn (waiting_runtime P obx)) = (Done (Inr (AwaitingApproval ''a'' 3 sm
        [assistant_turn (None, Some [sample_call_a]) [sample_call_a]] ''c1'' (JStr ''p''), 0)), s1)"
      "tu_rt s1 = waiting_runtime P obx" "\<not> is_replaying (tu_ctx s1)"
    by (rule waiting_loop[OF obx])
  let ?a1 = "?a\<lparr>ag_turn := s1\<rparr>"
  have loop: "on_turn (drive_tool_loop_durable (waiting_config []) sample_args sample_turn_env (Suc 0) [] []) ?a =
      (Done (Inr (AwaitingApproval ''a'' 3 sm [assistant_turn (None, Some [sample_call_a]) [sample_call_a]] ''c1'' (JStr ''p''), 0)), ?a1)"
    using l(1) by (simp add: on_turn_def journal_agent_def)
  have a1: "ag_rt ?a1 = waiting_runtime P obx" "ag_resumable ?a1 = st" by (simp_all add: l(2) journal_agent_def)
  have none: "rj_get sample_log st 3 = Inr None"
    using rjs.get_turn[OF st(1)[unfolded sample_log_def], of sample_ext 3] st(2) by (simp add: sample_log_def)
  let ?look = "\<lambda>a :: (jp_state, jo_state, nat, in_memory_journal, nat, log_state) agent_state. case rs_get (ac_store ?AC) (ag_resumable a) 3 of
         Inl e \<Rightarrow> turn_throw (BusErr (''resumable lookup failed: '' @ show_resumable_error (ac_ext ?AC) e)) a
       | Inr t \<Rightarrow> turn_ret (t \<noteq> None) a"
  have look: "?look ?a1 = (Done (Inr False), ?a1)"
    by (simp add: C a1(2) none turn_ret_def)
  obtain a2 where a2: "suspend_turn ?AC sample_args resume_env None 4 ''a'' 3 sm
      [assistant_turn (None, Some [sample_call_a]) [sample_call_a]] ''c1'' (JStr ''p'') ?a1 = (Done (Inr ()), a2)"
      "\<not> is_replaying (tu_ctx (ag_turn a2))"
    using sample_suspension[OF P st a1] l(3) by fastforce
  obtain a3 where a3: "text_step ?AC ''durable think step failed: '' (0, NoFault) (think_step 4) [] a2 = (Done (Inr []), a3)"
      "\<not> is_replaying (tu_ctx (ag_turn a3))"
    using text_step_ok[OF a2(2) mem, of "''durable think step failed: ''" 0 "think_step 4" "[]"] by blast
  obtain a4 where a4: "text_step ?AC [] (0, NoFault) (suspend_step 4) (show_uuid (ac_ext ?AC) 3 @ ''|'' @ sm) a3 =
      (Done (Inr (show_uuid (ac_ext ?AC) 3 @ ''|'' @ sm)), a4)"
    using text_step_ok[OF a3(2) mem, of "[]" 0 "suspend_step 4" "show_uuid (ac_ext ?AC) 3 @ ''|'' @ sm"] by blast
  have ig: "ignoring (text_step ?AC [] (0, NoFault) (suspend_step 4) (show_uuid (ac_ext ?AC) 3 @ ''|'' @ sm)) a3 = (Done (Inr ()), a4)"
    using a4 by (simp add: ignoring_def)
  note steps = turn_then_ok[where m = "agent_note AC A E k d" for AC A E k d, OF quiet_note]
    turn_then_ok[where m = "text_step AC w r n t" for AC w r n t, OF a3(1)] turn_then_ok[where m = "ignoring m" for m, OF ig]
    turn_then_ok[where m = "suspend_turn AC A E og n tool i s ms c v" for AC A E og n tool i s ms c v, OF a2(1)]
  let ?note = "agent_note ?AC sample_args resume_env"
  have aw: "await_approval ?AC ?note sample_args sample_think_env None ''a'' 3 sm
      [assistant_turn (None, Some [sample_call_a]) [sample_call_a]] ''c1'' (JStr ''p'') ?a1 = (Done (Inr (None, Some (3, sm))), a4)"
    unfolding await_approval_def turn_then_ok[where m = ?look, OF look]
    by (simp only: E if_False steps q not_False_eq_True turn_ret_def)
  have "\<not> is_replaying (tu_ctx (ag_turn ?a))" by (simp add: journal_agent_def sample_turn_def is_replaying_def)
  then have "think_actions_durable ?AC sample_args sample_think_env None [] ?a =
      turn_then (?note TurnStarted ''turn started'') (\<lambda>_. turn_then
        (on_turn (drive_tool_loop_durable (waiting_config []) sample_args sample_turn_env (Suc 0) [] []))
        (\<lambda>out. think_end ?AC ?note sample_args sample_think_env None (fst out))) ?a"
    by (simp add: think_actions_durable_def C E Let_def)
  also have "\<dots> = (Done (Inr (None, Some (3, sm))), a4)"
    by (simp only: steps(1) q not_False_eq_True turn_then_ok[where m = "on_turn m" for m, OF loop] fst_conv think_end_def
        loop_outcome.case aw)
  finally show ?thesis by blast
qed

subsection \<open>Suspensions\<close>

text \<open>C6: a turn that reports to the user that it waits for an approval is safe from a crash. Let the journal of
  waiting turns be at rest, the put environment usable (its temporary file is not the journal; the put
  may meet any fault), and no message of the prompt carry an empty list of images. Then the report means
  that the durable loop, run after the note that the turn started, stopped at a call of that approval,
  and the journal opened again holds a turn for it: the one that was stored before, unchanged, if there
  was one; otherwise the one of this being, this user and this turn with exactly the messages, the call,
  the tool, the hash of the arguments and the summary with which the loop stopped, the messages redacted,
  and its approval is pending.\<close>

theorem suspension_recoverable:
  fixes T Z C p f X defines "K \<equiv> resumable_log T Z C p f"
  assumes "ac_store AC = journal_resumable_store X K" "kl_inv K (ag_resumable a)" "rj_usable K (ae_put (th_agent E))"
    and "\<forall>m \<in> set messages. lm_images m \<noteq> Some []"
    and "think_actions_durable AC A E origin messages a = (Done (Inr (thought, Some (i, summary))), a')"
  shows "\<exists>a0 s1 tool ms call args n st t.
    agent_note (if is_replaying (tu_ctx (ag_turn a)) then AC\<lparr>ac_turn := (ac_turn AC)\<lparr>tc_audit := False\<rparr>\<rparr> else AC) A (th_agent E)
       TurnStarted ''turn started'' a = (Done (Inr ()), a0) \<and>
    drive_tool_loop_durable (ac_turn AC) (A\<lparr>ta_base := 0\<rparr>) (ae_turn (th_agent E)) (ac_rounds AC) messages [] (ag_turn a0) =
       (Done (Inr (AwaitingApproval tool i summary ms call args, n)), s1) \<and>
    rj_reopen K (ag_resumable a') = Inr st \<and> rj_get K st i = Inr (Some t) \<and>
    (case rj_get K (ag_resumable a) i of
       Inr (Some before) \<Rightarrow> t = before
     | _ \<Rightarrow> turn_left AC A origin tool i summary ms call args t \<and>
         (\<exists>ps. try_pending_approvals (tc_rt (ac_turn AC)) (ag_rt a') = Inr ps \<and> (\<exists>q \<in> set ps. pa_approval q = i)))"
proof (rule think_suspended[OF assms(6)])
  fix a0 s1 tool ms c v n a1 found
  assume start: "agent_note (if is_replaying (tu_ctx (ag_turn a)) then AC\<lparr>ac_turn := (ac_turn AC)\<lparr>tc_audit := False\<rparr>\<rparr> else AC) A
       (th_agent E) TurnStarted ''turn started'' a = (Done (Inr ()), a0)"
    and l: "drive_tool_loop_durable (ac_turn AC) (A\<lparr>ta_base := 0\<rparr>) (ae_turn (th_agent E)) (ac_rounds AC) messages [] (ag_turn a0) =
       (Done (Inr (AwaitingApproval tool i summary ms c v, n)), s1)"
    and a1: "ag_resumable a1 = ag_resumable a" and found: "rs_get (ac_store AC) (ag_resumable a) i = Inr found"
    and kept: "found \<noteq> None \<longrightarrow> ag_resumable a' = ag_resumable a"
    and put: "found = None \<longrightarrow> stored_by AC A E origin tool i summary ms c v a1 a'"
  note S = assms(3)[unfolded K_def] and U = assms(4)[unfolded K_def]
  have g: "found = hm_get (kl_map K (ag_resumable a)) i" "rj_get K (ag_resumable a) i = Inr found"
    using found rjs.get_turn[OF S, of X i] assms(2) by (simp_all add: K_def)
  have "\<exists>st t. rj_reopen K (ag_resumable a') = Inr st \<and> rj_get K st i = Inr (Some t) \<and>
    (case found of Some before \<Rightarrow> t = before
     | None \<Rightarrow> turn_left AC A origin tool i summary ms c v t \<and>
         (\<exists>ps. try_pending_approvals (tc_rt (ac_turn AC)) (ag_rt a') = Inr ps \<and> (\<exists>q \<in> set ps. pa_approval q = i)))"
  proof (cases found)
    case (Some t)
    from assms(3) obtain m where m: "kl_ok K" "kl_disk K (lg_fs (ag_resumable a)) m" "kl_map K (ag_resumable a) = m"
      by (rule kl_invE)
    obtain st where st: "rj_open K (lg_fs (ag_resumable a)) = Inr st" "kl_inv K st" "kl_map K st = m"
      using rj_open_disk[OF m(1), of "lg_fs (ag_resumable a)" m] m(2) kl_disk_open[OF m(2)] by auto
    have "rj_get K st i = Inr (Some t)" using rjs.get_turn[OF st(2)[unfolded K_def], of X i] st(3) m(3) g(1) Some by (simp add: K_def)
    with st(1) kept Some show ?thesis by (simp add: rj_reopen_def)
  next
    case None
    with put obtain t ps where t: "turn_left AC A origin tool i summary ms c v t"
        "rs_put (ac_store AC) (ae_put (th_agent E)) (ag_resumable a) t = (Done (Inr ()), ag_resumable a')"
        "try_pending_approvals (tc_rt (ac_turn AC)) (ag_rt a') = Inr ps" "\<exists>q \<in> set ps. pa_approval q = i"
      unfolding stored_by_def a1 by blast
    have t': "suspended_turn AC origin (ta_turn A) i ms c t" using t(1) by (simp add: turn_left_def)
    have "\<forall>m \<in> set ms. lm_images m \<noteq> Some []"
      by (rule rounds_all[OF l[unfolded drive_tool_loop_durable_def]]) (use assms(5) in \<open>simp_all add: loop_start_def\<close>)
    then have fit: "turn_fits t" using t' redacted_images[of _ ms] by (fastforce simp: turn_fits_def suspended_turn_def)
    obtain st where st: "rj_reopen K (ag_resumable a') = Inr st" "kl_inv K st"
        "hm_get (kl_map K st) = (hm_get (kl_map K (ag_resumable a)))(rz_approval t \<mapsto> t)"
      using rjs.put_crash[OF S U fit t(2)[unfolded assms(2) K_def]] by (auto simp: K_def)
    have "rj_get K st i = Inr (Some t)"
      using rjs.get_turn[OF st(2)[unfolded K_def], of X i] st(3) t' by (simp add: K_def suspended_turn_def)
    with st(1) t None show ?thesis by auto
  qed
  then show ?thesis using start l g(2) by (cases found) (auto 0 4)
qed

theorem suspension_recoverable_witness:
  "\<exists>P obx st sm a' st' t. think_actions_durable journal_agent_config sample_args sample_think_env None []
     (journal_agent (waiting_runtime P obx) st) = (Done (Inr (None, Some (3, sm))), a') \<and>
     rj_reopen sample_log (ag_resumable a') = Inr st' \<and> rj_get sample_log st' 3 = Inr (Some t) \<and> rz_turn t = 4 \<and>
     rz_messages t = redact_messages_for_resume [assistant_turn (None, Some [sample_call_a]) [sample_call_a]] \<and> rz_call t = ''c1''"
proof -
  obtain P where P: "jp_inv sample_jp P" "hm_get (jp_map sample_jp P) = [3 \<mapsto> waiting_record]" by (rule waiting_pending)
  obtain obx where obx: "jo_inv sample_jo obx" "jo_lookup sample_jo obx (dispatch_step_name 4 0) = Inr (Committed (from_submit waiting_submit))"
    by (rule committed_outbox)
  obtain st where st: "kl_inv sample_log st" "kl_map sample_log st = []" by (rule sample_log_fresh)
  obtain sm a' where run: "think_actions_durable journal_agent_config sample_args sample_think_env None []
     (journal_agent (waiting_runtime P obx) st) = (Done (Inr (None, Some (3, sm))), a')"
    using sample_think[OF P st obx] by blast
  have none: "rj_get sample_log (ag_resumable (journal_agent (waiting_runtime P obx) st)) 3 = Inr None"
    using rjs.get_turn[OF st(1)[unfolded sample_log_def], of sample_ext 3] st(2) by (simp add: sample_log_def journal_agent_def)
  have h: "ac_store journal_agent_config = journal_resumable_store sample_ext (resumable_log plain_text unary_scalars json_codec ''r'' 2)"
    "kl_inv (resumable_log plain_text unary_scalars json_codec ''r'' 2) (ag_resumable (journal_agent (waiting_runtime P obx) st))"
    "rj_usable (resumable_log plain_text unary_scalars json_codec ''r'' 2) (ae_put (th_agent sample_think_env))"
    "\<forall>m \<in> set ([] :: llm_message list). lm_images m \<noteq> Some []"
    using st(1) by (simp_all add: journal_agent_config_def sample_log_def journal_agent_def rj_usable_def sample_think_env_def
        resume_env_def quiet_env_def)
  let ?a = "journal_agent (waiting_runtime P obx) st" and ?AC = journal_agent_config
  have C: "ac_turn ?AC = waiting_config []" "ac_rounds ?AC = Suc 0" "ae_turn (th_agent sample_think_env) = sample_turn_env"
    "sample_args\<lparr>ta_base := 0\<rparr> = sample_args" "ta_turn sample_args = 4" "ag_turn ?a = sample_turn (waiting_runtime P obx)"
    "\<not> is_replaying (tu_ctx (sample_turn (waiting_runtime P obx)))"
    by (simp_all add: journal_agent_config_def sample_think_env_def resume_env_def sample_args_def journal_agent_def
        sample_turn_def is_replaying_def)
  have q: "\<not> tc_audit (ac_turn ?AC)" by (simp add: C waiting_config_def sample_turn_config_def)
  obtain sm1 s1 where l: "drive_tool_loop_durable (waiting_config []) sample_args sample_turn_env (Suc 0) [] []
      (sample_turn (waiting_runtime P obx)) = (Done (Inr (AwaitingApproval ''a'' 3 sm1
        [assistant_turn (None, Some [sample_call_a]) [sample_call_a]] ''c1'' (JStr ''p''), 0)), s1)"
    by (rule waiting_loop[OF obx])
  obtain tool args st' t where t: "rj_reopen sample_log (ag_resumable a') = Inr st'" "rj_get sample_log st' 3 = Inr (Some t)"
    "turn_left ?AC sample_args None tool 3 sm [assistant_turn (None, Some [sample_call_a]) [sample_call_a]] ''c1'' args t"
    using suspension_recoverable[OF h run] none[unfolded sample_log_def] l
    by (auto simp: sample_log_def C quiet_note[OF q])
  then have "rz_turn t = 4" "rz_call t = ''c1''"
    "rz_messages t = redact_messages_for_resume [assistant_turn (None, Some [sample_call_a]) [sample_call_a]]"
    by (simp_all add: turn_left_def suspended_turn_def C)
  with t(1,2) run show ?thesis by blast
qed

text \<open>C8: when a turn waits at one of several calls of a round, the calls after it are never answered:
  the conversation with which the turn is resumed leaves exactly them open. With models that refuse such a
  conversation the resumed turn never answers and never waits again, though the approved call has run.\<close>

theorem resumed_siblings_strand:
  assumes "drive_tool_loop_durable C A' E' budget ms0 said0 s0 = (Done (Inr (AwaitingApproval tool i sm ms call args, n)), s1)"
    and "unanswered ms0 = []" "1 < length (unanswered ms)"
    and "rs_get (ac_store AC) (ag_resumable a) i = Inr (Some t)" "suspended_turn AC' origin turn i ms call t"
    and "refuse_open (tc_models (ac_turn AC))" "ac_llm AC" "ac_rounds AC \<noteq> 0"
  shows "unanswered (rz_messages t @ [tool_result (rz_call t) x]) = tl (unanswered ms) \<and>
    resume_approved AC A E i a \<noteq> (Done (Inr y), a')"
proof -
  have "unanswered (lo_messages (loop_start ms0 said0 (ta_base A'))) = []" using assms(2) by (simp add: loop_start_def)
  from rounds_wait[OF assms(1)[unfolded drive_tool_loop_durable_def] this refl]
  obtain later where later: "unanswered ms = call # later" by (auto simp: waits_at_def)
  have opens: "unanswered (rz_messages t @ [tool_result (rz_call t) x]) = tl (unanswered ms)" for x
    using assms(5) later by (simp add: suspended_turn_def unanswered_redacted)
  have still_open: "unanswered (rz_messages t @ [tool_result (rz_call t) x]) \<noteq> []" for x
    unfolding opens using assms(3) later by auto
  have "resume_approved AC A E i a \<noteq> (Done (Inr y), a')"
  proof
    assume "resume_approved AC A E i a = (Done (Inr y), a')"
    then obtain t' a1 where "stored_turn AC i a = (Done (Inr t'), a1)"
      and k: "(if rz_being t' \<noteq> tc_being (ac_turn AC)
       then turn_throw (InvalidInputErr (''resumable turn for approval '' @ show_uuid (ac_ext AC) i @
              '' belongs to another being (owner mismatch) '' @ emdash @ '' refusing to resume across beings''))
       else if rz_expired (ta_now A) t'
       then turn_throw (InvalidInputErr (''resumable turn for approval '' @ show_uuid (ac_ext AC) i @ '' expired''))
       else if \<not> ac_actions AC
       then turn_throw (InvalidInputErr ''resume_approved requires an ActionRuntime (call with_actions first)'')
       else resumed AC A E i t') a1 = (Done (Inr y), a')"
      unfolding resume_approved_def by (rule turn_then_done)
    moreover from this(1) have "t' = t" using assms(4) by (simp add: stored_turn_def turn_ret_def)
    ultimately have "resumed AC A E i t a1 = (Done (Inr y), a')" by (auto simp: turn_throw_def split: if_splits)
    then show False
      unfolding resumed_def
      by (auto simp: continue_refused[OF assms(6) still_open assms(8)] assms(7) elim!: turn_then_done)
  qed
  with opens show ?thesis by blast
qed

lemma sample_approval:
  assumes "jp_inv sample_jp P" "hm_get (jp_map sample_jp P) = [3 \<mapsto> waiting_record]"
  shows "\<exists>sub s'. approve (durable_rt sample_durable) sample_call 3 120 (sample_runtime waiting_pipe P) = (Done (Inr sub), s') \<and>
    rt_world s' = 1"
proof -
  let ?s = "sample_runtime waiting_pipe P" and ?t = "pipe_task\<lparr>t_status := NeedsApproval\<rparr>"
  let ?raw = "result_trusted (result_success ''ok'' JNull 120)"
  have D: "dc_pending sample_durable = sample_jp" "dc_outbox sample_durable = sample_jo" "dc_ext sample_durable = sample_ext"
    "dc_tasks sample_durable = any_task_codec" by (simp_all add: sample_durable_def)
  have S: "rt_pending ?s = P" "rt_outbox ?s = jo_fresh" "rt_pipe ?s = waiting_pipe" "rt_world ?s = 0"
    by (simp_all add: sample_runtime_def)
  have E: "pr_task waiting_record = 5" "pr_approval waiting_record = sample_grant" "pr_id waiting_record = a_id sample_grant"
    by (simp_all add: waiting_record_def pr_id_def)
  have g: "120 \<le> a_expires_at sample_grant" "\<not> a_consumed sample_grant"
    "a_payload_hash sample_grant = sha256_hex sample_ext ''p''"
    by (simp_all add: sample_grant_def grant_def Let_def saturating_expiry_def) (simp_all add: sample_ext_def)
  have exe: "hm_get (rt_executors ?s) (t_skill ?t) = Some sample_executor"
    by (simp add: sample_runtime_def pipe_task_def task_new_def)
  have q: "jp_quiet sample_jp (ce_store sample_call)" "snd (ce_intent sample_call) = NoFault"
    "snd (ce_commit sample_call) = NoFault" "ce_task sample_call = NoFault"
    by (simp_all add: jp_quiet_def quiet_env_def harmless_swap_def sample_jp_def sample_call_def)
  have once: "sample_executor (exec_request False (a_action_id sample_grant) ?t 5 (t_payload ?t) 120) 0 = (Done (Inr ?raw), 1)"
    by (simp add: sample_executor_def exec_request_def with_input_taint_def request_new_def)
  have v: "task_validate (?t\<lparr>t_status := st, t_updated := 120\<rparr>) = Inr ()" for st
    by (simp add: task_validate_def pipe_task_def task_new_def is_nil_def nil_id_def)
  have st: "t_status ?t = NeedsApproval" and bytes: "json_bytes sample_ext (t_payload ?t) = Inr ''p''"
    using sample_pipe_facts(6) by simp_all
  have e: "hm_get (jp_map sample_jp P) 3 = Some waiting_record" using assms(2) by simp
  have enc: "task_to_string any_task_codec x = Inr ''{5}''" for x by (simp add: any_task_codec_def)
  show ?thesis
    by (rule approve_effect[where D = sample_durable and s = ?s and raw = ?raw and i = 3 and entry = waiting_record and
      exe = sample_executor and env = sample_call and t = ?t and now = 120, unfolded D S E,
      OF assms(1) e sample_jo_fresh(2,3) waiting_pipe_facts(1) st exe bytes waiting_pipe_facts(2) g once q v enc]) blast
qed

definition strict_agent_config :: "tool_call list \<Rightarrow> (jp_state, jo_state, in_memory_journal, nat, mem_resumable) agent_config" where
  "strict_agent_config later = sample_agent_config\<lparr>ac_turn := waiting_config later\<rparr>"

definition stranded_turn :: resumable_turn where
  "stranded_turn = with_durable_position 4 0 (resumable_new sample_ext 3 ''b'' None
     (redact_messages_for_resume [assistant_turn (None, Some [sample_call_a, sample_call_b]) [sample_call_a, sample_call_b]])
     ''c1'' ''a'' (JStr ''p'') ''s'' 100 200)"

definition strict_agent :: "jp_state \<Rightarrow> (jp_state, jo_state, nat, in_memory_journal, nat, mem_resumable) agent_state" where
  "strict_agent P = \<lparr>ag_turn = sample_turn (sample_runtime waiting_pipe P), ag_resumable = [(3, stranded_turn)]\<rparr>"

theorem resumed_siblings_strand_witness:
  "\<exists>P r a'. resume_approved (strict_agent_config [sample_call_b]) resume_args resume_env 3 (strict_agent P) = (r, a') \<and>
     rt_world (ag_rt a') = 1 \<and> (\<forall>y. r \<noteq> Done (Inr y))"
proof -
  let ?AC = "strict_agent_config [sample_call_b]" and ?M = "waiting_models [sample_call_b]"
  let ?ms = "[assistant_turn (None, Some [sample_call_a, sample_call_b]) [sample_call_a, sample_call_b]]"
  obtain P where P: "jp_inv sample_jp P" "hm_get (jp_map sample_jp P) = [3 \<mapsto> waiting_record]" by (rule waiting_pending)
  let ?a = "strict_agent P"
  obtain obx where obx: "jo_inv sample_jo obx" "jo_lookup sample_jo obx (dispatch_step_name 4 0) = Inr (Committed (from_submit waiting_submit))"
    by (rule committed_outbox)
  obtain sm s1 where loop: "drive_tool_loop_durable (waiting_config [sample_call_b]) sample_args sample_turn_env (Suc 0) [] []
      (sample_turn (waiting_runtime P obx)) = (Done (Inr (AwaitingApproval ''a'' 3 sm ?ms ''c1'' (JStr ''p''), 0)), s1)"
    by (rule waiting_loop[OF obx])
  have opens: "unanswered ?ms = [''c1'', ''c2'']"
    using unanswered_snoc[of "[]"] by (simp add: unanswered_def[of "[]"] sample_call_a_def sample_call_b_def)
  have C: "ac_turn ?AC = waiting_config [sample_call_b]" "ac_llm ?AC" "ac_rounds ?AC \<noteq> 0" "ac_actions ?AC"
      "ac_store ?AC = mem_resumable_store" by (simp_all add: strict_agent_config_def sample_agent_config_def)
  have W: "tc_rt (waiting_config l) = durable_rt sample_durable" "tc_models (waiting_config l) = waiting_models l"
      "tc_being (waiting_config l) = ''b''" "\<not> tc_audit (waiting_config l)" for l
    by (simp_all add: waiting_config_def sample_turn_config_def)
  have strict: "refuse_open (tc_models (ac_turn ?AC))" by (simp add: C W refuse_open_def waiting_models_def)
  have got: "rs_get (ac_store ?AC) (ag_resumable ?a) 3 = Inr (Some stranded_turn)" by (simp add: C mr_get_def strict_agent_def)
  have turn: "suspended_turn ?AC None 4 3 ?ms ''c1'' stranded_turn"
    by (simp add: suspended_turn_def stranded_turn_def with_durable_position_def resumable_new_def C W)
  have two: "unanswered [] = []" "1 < length (unanswered ?ms)" by (simp_all add: opens) (simp add: unanswered_def)
  obtain r a' where run: "resume_approved ?AC resume_args resume_env 3 ?a = (r, a')" by (rule prod.exhaust)
  note stranded = resumed_siblings_strand[where AC = ?AC and a = ?a and A = resume_args and E = resume_env, OF loop two got turn strict C(2,3)]
  have "r \<noteq> Done (Inr y)" for y using stranded[of _ y a'] run by auto
  moreover obtain sub s' where ap: "approve (durable_rt sample_durable) sample_call 3 120 (sample_runtime waiting_pipe P) = (Done (Inr sub), s')"
      "rt_world s' = 1"
    using sample_approval[OF P] by blast
  have "rt_world (ag_rt a') = 1"
  proof -
    let ?a1 = "?a\<lparr>ag_turn := (ag_turn ?a)\<lparr>tu_rt := s'\<rparr>\<rparr>"
    have g: "granted ?AC resume_env 3 120 ?a = (Done (Inr sub), ?a1)"
      using ap(1) by (simp add: granted_def turn_then_def on_turn_def on_runtime_def C W resume_env_def sample_turn_def turn_ret_def strict_agent_def)
    have t: "rz_being stranded_turn = tc_being (ac_turn ?AC)" "\<not> rz_expired 120 stranded_turn" "ta_now resume_args = 120"
      by (simp_all add: stranded_turn_def with_durable_position_def resumable_new_def rz_expired_def C W resume_args_def)
    have s: "stored_turn ?AC 3 ?a = (Done (Inr stranded_turn), ?a)" using got by (simp add: stored_turn_def turn_ret_def)
    have "resumed ?AC resume_args resume_env 3 stranded_turn ?a = (r, a')"
      using run unfolding resume_approved_def turn_then_ok[where m = "stored_turn C i" for C i, OF s]
      by (simp add: t C)
    moreover define x where "x = tool_result_text_for (tc_json (waiting_config [sample_call_b])) s' (so_task sub) (so_status sub)"
    moreover define a2 where "a2 = ?a1\<lparr>ag_resumable := hm_remove 3 (ag_resumable ?a)\<rparr>"
    ultimately have k: "continue_turn ?AC resume_args resume_env 3 (rz_origin stranded_turn)
        (rz_messages stranded_turn @ [tool_result (rz_call stranded_turn) x]) a2 = (r, a')"
      unfolding resumed_def t(3) turn_then_ok[where m = "granted C E i n" for C E i n, OF g]
      by (simp add: turn_then_def turn_ret_def on_store_def mr_remove_def agent_note_def on_turn_def record_turn_audit_into_def C W)
    have "unanswered (rz_messages stranded_turn @ [tool_result (rz_call stranded_turn) x]) \<noteq> []"
      using stranded[of x "NoReply" a'] opens by simp
    from continue_refused_rt[OF strict this C(3) k] ap(2) show ?thesis by (simp add: a2_def)
  qed
  ultimately show ?thesis using run by blast
qed

end
