(* ===== verification/Spec2Isabelle.thy ===== *)
theory Spec2Isabelle
  imports Runtime_Restart Scheduler_Runs Time_Machine Resource_Budget Dependability File_Patch Fs_Read Failover_Answers Orchestration_Laws Suspension_Laws
begin

text \<open>
  FamilyClaw: the durable substrate (\<^verbatim>\<open>crates/familyclaw-durable\<close>), the action runtime and its skills
  (\<^verbatim>\<open>crates/familyclaw-actions\<close>), the evidence gate (\<^verbatim>\<open>crates/familyclaw-harness\<close>), the chain of
  language models (\<^verbatim>\<open>crates/familyclaw-agent\<close>) and the bridge between agents
  (\<^verbatim>\<open>crates/familyclaw-bridge\<close>).

  \<^bold>\<open>The program.\<close> A being acts through skills. A submitted task is run by the pipeline: the skill's
  manifest says how risky it is, the policy says whether a human must approve, the executor acts on
  the world, and a redacted proof bundle and an audit trail record what happened. A task that must
  wait is kept as a pending approval in a store that survives crashes; an approval binds the hash of
  the payload, expires, and is consumed once. A dispatch outbox writes an intent before and an outcome
  after every keyed run, so that a crash never leads to a second run. Stores and outbox are journals:
  files of JSON lines that are repaired when opened and replaced atomically when compacted. The same
  journal lets a program of named steps resume where it stopped, and lets a timeline be read, compared
  and forked. A scheduler fires tasks by interval or idle time and keeps which of them were switched
  off in a file. The file skills read, write and patch files below allowed directories, a keyed write
  at most once. A turn asks a chain of language models, which rotates keys and cools failing models
  down, runs the tools it is told to call, and journals every step, so that a crashed turn is replayed; a
  turn whose tool waits for an approval is stored, and continued when the approval is granted.
  Agents share a board of tasks, close contracts about capabilities, and an orchestrator drives
  a plan of tasks over them in the order of its dependencies.

  \<^bold>\<open>Theories, in import order.\<close>
  Prelude: hash maps as association lists and the \<open>hmap\<close> lemmas. Rust\_Std: the outcome of a call
  (done, or the process died), faults of a write, text functions on UTF-8 bytes, number parsing.
  Entry, Journal, File\_Journal: \<^verbatim>\<open>entry.rs\<close>, \<^verbatim>\<open>error.rs\<close>, \<^verbatim>\<open>journal.rs\<close>, \<^verbatim>\<open>memory.rs\<close>, \<^verbatim>\<open>file.rs\<close>
  of the durable crate; locales \<open>journal\<close> and \<open>crash_journal\<close> with both implementations.
  Sample\_Codec: a concrete row encoder for the witnesses. Context, Durable\_Execution: \<^verbatim>\<open>context.rs\<close>,
  programs of steps and their replay. Journal\_Guarantees: the properties of the file journal.
  Time\_Machine: \<^verbatim>\<open>time_machine.rs\<close>, timelines, their differences and forks.
  Action\_Base: \<^verbatim>\<open>ids.rs\<close>, \<^verbatim>\<open>error.rs\<close> of the actions crate; \<open>ext\<close> holds the third-party functions.
  Policy: \<^verbatim>\<open>policy.rs\<close>. Task, Task\_Log: \<^verbatim>\<open>task.rs\<close>. Approval: \<^verbatim>\<open>approval.rs\<close>, \<^verbatim>\<open>audit.rs\<close>.
  Pending\_Store, Keyed\_Log, Pending\_Journal: \<^verbatim>\<open>pending_store.rs\<close> and the log of put and delete
  markers below every journal-backed store, locales \<open>pending_store\<close> and
  \<open>crash_pending_store\<close>. Dispatch\_Outbox: \<^verbatim>\<open>dispatch_outbox.rs\<close>, locales \<open>outbox\<close>, \<open>crash_outbox\<close>
  and \<open>outbox_guard\<close>. Manifest: \<^verbatim>\<open>manifest.rs\<close>, \<^verbatim>\<open>registry.rs\<close>. Redaction: \<^verbatim>\<open>executor.rs\<close>,
  \<^verbatim>\<open>proof.rs\<close>. Effects: handlers as state transformers with the code's \<^verbatim>\<open>?\<close>. Pipeline:
  \<^verbatim>\<open>skills/mod.rs\<close>. Mcp: \<^verbatim>\<open>mcp.rs\<close>. Facade: \<^verbatim>\<open>facade.rs\<close>. Runtime\_Laws: what a call of the
  runtime does to the outbox and to the world, locale \<open>runtime_stores\<close>. Runtime\_Machine: the runtime
  over its journals as a machine of calls, crashes and restarts. Runtime\_Restart: the task log describes
  the queue after every call that succeeded, and the restart.
  Json\_Members: members of JSON objects. Atomic\_File: replacing a file through a temporary one.
  Schedule, Scheduler, Scheduler\_Runs: \<^verbatim>\<open>scheduler.rs\<close>, when tasks are due, the switches and their file,
  and the runs of fired tasks on the runtime machine. Resource\_Budget: \<^verbatim>\<open>resource_budget.rs\<close>. Harness
  and Dependability: the receipts of \<^verbatim>\<open>familyclaw-harness\<close> and \<^verbatim>\<open>dependability.rs\<close>, which makes them
  for actions. Symlink\_Fs: a file system with directories and symbolic links. Idempotency:
  \<^verbatim>\<open>idempotency.rs\<close>. File\_Write, File\_Patch, Fs\_Read: the file skills, locale \<open>path_guard\<close> with an
  interpretation for each. Llm\_Error: errors of model calls (\<^verbatim>\<open>llm.rs\<close>). Failover, Failover\_Laws,
  Failover\_Answers: \<^verbatim>\<open>llm_chain.rs\<close>, its invariant, its number of calls, when it answers and when it
  does not. Chat, Sample\_Json, Json\_Codec: messages and tool
  calls (\<^verbatim>\<open>llm.rs\<close>), a concrete printer and a codec of rows. Turn\_Parts, Turn\_Loop, Turn\_Effects:
  \<^verbatim>\<open>grounding.rs\<close>, \<^verbatim>\<open>agent/helpers.rs\<close> and the durable tool loop of \<^verbatim>\<open>agent/turn.rs\<close>, and what a turn does
  to the world. Turn\_Replay, Turn\_Laws: a turn run again from its journal, the conversations the models
  see, the grounding of answers. Resumable, Resumable\_Journal: the waiting turns and their stores
  (\<^verbatim>\<open>resumable.rs\<close>), locales \<open>resumable_store\<close> and \<open>crash_resumable_store\<close>. Resume, Resume\_Effects,
  Resume\_Laws: the plain loop, suspension, rollback and resumption of \<^verbatim>\<open>agent/turn.rs\<close>, their dispatches
  and effects. Suspension, Suspension\_Laws: what a suspended turn leaves on disk and in its messages.
  Contract: \<^verbatim>\<open>contract.rs\<close>, \<^verbatim>\<open>contract_bus.rs\<close>. Family\_Bridge: \<^verbatim>\<open>agent.rs\<close>, \<^verbatim>\<open>task.rs\<close>,
  \<^verbatim>\<open>event.rs\<close>, \<^verbatim>\<open>bridge.rs\<close>. Topo\_Order, Orchestrator, Orchestration\_Laws: \<^verbatim>\<open>orchestrator.rs\<close> and the
  executors, the order of a plan, its run and what the run does.

  \<^bold>\<open>How state and effects are modelled.\<close> A struct is a record, a trait a record of functions whose
  contract is a locale, a fallible call a sum with the source's error type, a call that can be cut off
  or panic an \<open>outcome\<close>. The file system is a map from paths to bytes, or nodes where links matter; a
  write takes a fault: none, an error after some bytes, or the death of the process after some bytes. A
  handler takes the state and gives the outcome with the new state. Mutexes are held for a whole
  operation in the code, and every operation is one step here; interleavings inside an asynchronous
  operation are not modelled. Fresh identifiers, the clock and the faults are arguments; where a run
  draws many, they come from a \<open>source\<close>. Third-party code (JSON and TOML parsers, SHA-256, Ed25519, UUID
  printing, the bounds of the clock, floating-point comparison, the model providers and the executors
  of an orchestration) is a parameter; what the development assumes of it is in \<open>codec_ok\<close>,
  \<open>task_codec_ok\<close>, \<open>jp_ok\<close>, \<open>jo_ok\<close>, \<open>kl_ok\<close>, \<open>scalars_ok\<close> and the hypotheses of the
  properties, each with an instance that satisfies it.

  \<^bold>\<open>What the properties show.\<close> No row reported as written is lost, compaction is atomic, a resumed
  program runs only what was not recorded, and a fork runs its alternative. The status of a task is what
  its documented life makes of it; an approval is used at most once each time it is issued, bound to a
  payload, and survives crashes; a dispatch key never runs twice over any history of calls, faults and
  restarts, so that a scheduled task runs at most once in a window of its schedule; approving a waiting
  task completes it and keeps its proof; a restart gives back the tasks, approvals and keys of the runtime;
  a switch that was turned off holds. A
  turn runs each of its dispatches at most once over any number of attempts, a turn that ended is
  replayed to the same outcome without asking a model unless it used all its rounds, models see closed
  conversations only, and a turn that executed nothing carries a warning if it claims to have acted. A reported suspension is found after a
  restart with the messages and the call at which it stopped, a suspension that could not be stored never runs its call, and over any number of resumptions
  the approved call and the later dispatches run at most once.
  High-risk tasks wait, taint is never lost, proofs hold redacted data.
  Budgets count exactly the live leases. The file skills stay below their roots when no link lies in
  them, and a keyed write runs once, whatever requests come in between. A chain of models ends after two calls for every key, keeps its
  invariant and answers whenever some key works. Contracts keep their word unless one is inserted that does not, the order of a plan is the
  least topological order, and a run of a plan completes exactly the nodes that succeed and returns.
  One property states a defect of the code exactly where it occurs: the calls after the approved one of a
  suspended round stay unanswered, so that a provider that insists on answers refuses every continuation.

  \<^bold>\<open>Bounds.\<close> Step counters are 64-bit words and saturate as in the code, strikes of a model are
  saturating bytes. The walk of a path follows at most \<open>MAX_LINKS\<close> symbolic links, as the kernel does.
  The loop over the keys of a model and the loop of the topological order have termination measures:
  untried keys, and open dependencies with waiting nodes. No other recursion needs fuel.

  \<^bold>\<open>Simplified.\<close> Opening and repairing a journal file meets no input or output errors (\<open>file_open\<close>); a node
  of a plan draws the identifier of a contract also when it needs none (\<open>drive_node\<close>), so that only the
  choice of fresh identifiers differs.

  \<^bold>\<open>Not modelled.\<close> The other shipped skills (network and processes), the Postgres journal, the wire
  formats and the HTTP clients of the models, the building of prompts, the single-shot path of a turn and
  its memory of verified tools, the actor that receives resume signals, the subscribers of event buses,
  Debug output and metrics; the other crates (gateway, channels, memory and affect models) are listed in
  the manifest with their reasons.
\<close>

end
